(* ===== verification/Prelude.thy ===== *)
theory Prelude
  imports Complex_Main "HOL-Library.AList" "HOL-Library.Sublist"
begin

text \<open>
  Shared vocabulary of the development: the parts of JavaScript's strings, numbers, arrays and
  \<open>Map\<close>s that the modelled code uses, and the generic lemmas the components share.

  Strings. Every string the modelled components look at is a Latin-1 string: Node's HTTP parser
  hands request targets and header values over as Latin-1, and the request body is read with
  \<^verbatim>\<open>toString("latin1")\<close>. A Latin-1 string and a byte array are both a \<^typ>\<open>char list\<close>, one
  \<^typ>\<open>char\<close> per UTF-16 unit or byte, so \<^verbatim>\<open>length\<close> is the source's length.

  Numbers. Integers of the source are \<^typ>\<open>int\<close> (or \<^typ>\<open>nat\<close> for lengths); the checks the source
  makes with \<^verbatim>\<open>Number.isSafeInteger\<close> are written out where the source writes them. Readings of a
  fractional clock (\<^verbatim>\<open>performance.now()\<close>) are \<^typ>\<open>real\<close>. Rounding of doubles is not modelled.

  Maps. A JavaScript \<^verbatim>\<open>Map\<close> keeps insertion order: it is an association list with the operations
  of \<^verbatim>\<open>HOL-Library.AList\<close>, whose \<^const>\<open>AList.update\<close> overwrites in place or appends at the end.
\<close>

named_theorems js_simps \<open>unfolding rules of the JavaScript helpers\<close>
named_theorems guard_laws \<open>laws of stateful components used by their clients\<close>

type_synonym bytes = string
type_synonym instant = real
type_synonym ('k, 'v) jsmap = "('k \<times> 'v) list"

subsection \<open>Numbers\<close>

definition MAX_SAFE_INTEGER :: int where
  "MAX_SAFE_INTEGER = 2 ^ 53 - 1"

definition is_safe_integer :: "int \<Rightarrow> bool" where
  "is_safe_integer n \<longleftrightarrow> \<bar>n\<bar> \<le> MAX_SAFE_INTEGER"

definition is_positive_safe_integer :: "int \<Rightarrow> bool" where
  "is_positive_safe_integer n \<longleftrightarrow> is_safe_integer n \<and> \<not> n < 1"

definition digit_char :: "nat \<Rightarrow> char" where
  "digit_char n = char_of (48 + n)"

fun show_nat :: "nat \<Rightarrow> string" where
  "show_nat n = (if n < 10 then [digit_char n] else show_nat (n div 10) @ [digit_char (n mod 10)])"

declare show_nat.simps [simp del]

definition show_int :: "int \<Rightarrow> string" where
  "show_int n = (if n < 0 then ''-'' @ show_nat (nat (- n)) else show_nat (nat n))"

definition digit_value :: "char \<Rightarrow> nat" where
  "digit_value c = of_char c - 48"

text \<open>\<^verbatim>\<open>Number(text)\<close> on a text of decimal digits.\<close>

definition read_nat :: "string \<Rightarrow> nat" where
  "read_nat s = foldl (\<lambda>acc c. 10 * acc + digit_value c) 0 s"

subsection \<open>Character classes of the source's regular expressions\<close>

definition in_range :: "nat \<Rightarrow> nat \<Rightarrow> char \<Rightarrow> bool" where
  "in_range lo hi c \<longleftrightarrow> lo \<le> (of_char c :: nat) \<and> (of_char c :: nat) \<le> hi"

definition is_digit :: "char \<Rightarrow> bool" where "is_digit c \<longleftrightarrow> in_range 48 57 c"
definition is_upper :: "char \<Rightarrow> bool" where "is_upper c \<longleftrightarrow> in_range 65 90 c"
definition is_lower :: "char \<Rightarrow> bool" where "is_lower c \<longleftrightarrow> in_range 97 122 c"
definition is_alnum :: "char \<Rightarrow> bool" where
  "is_alnum c \<longleftrightarrow> is_digit c \<or> is_upper c \<or> is_lower c"
definition is_hex :: "char \<Rightarrow> bool" where
  "is_hex c \<longleftrightarrow> is_digit c \<or> in_range 65 70 c \<or> in_range 97 102 c"

text \<open>\<^verbatim>\<open>[A-Za-z0-9_-]\<close>\<close>

definition is_b64url_char :: "char \<Rightarrow> bool" where
  "is_b64url_char c \<longleftrightarrow> is_alnum c \<or> c = CHR ''_'' \<or> c = CHR ''-''"

lemmas char_class_defs = in_range_def is_digit_def is_upper_def is_lower_def is_alnum_def
  is_hex_def is_b64url_char_def
declare char_class_defs [js_simps]

text \<open>\<^verbatim>\<open>/^[A-Za-z0-9_-]{n}$/\<close>\<close>

definition is_b64url_id :: "nat \<Rightarrow> string \<Rightarrow> bool" where
  "is_b64url_id n s \<longleftrightarrow> length s = n \<and> list_all is_b64url_char s"

text \<open>\<^verbatim>\<open>/^(?:0|[1-9][0-9]{0,8})$/\<close>, the canonical content length.\<close>

definition is_content_length :: "string \<Rightarrow> bool" where
  "is_content_length s \<longleftrightarrow> s = ''0'' \<or>
     (case s of [] \<Rightarrow> False | c # cs \<Rightarrow> in_range 49 57 c \<and> length cs \<le> 8 \<and> list_all is_digit cs)"

subsection \<open>String operations\<close>

text \<open>\<^verbatim>\<open>toLowerCase\<close> on a Latin-1 string: ASCII and the Latin-1 capitals, which stay in Latin-1.\<close>

definition to_lower_char :: "char \<Rightarrow> char" where
  "to_lower_char c = (let n = (of_char c :: nat) in
     if (65 \<le> n \<and> n \<le> 90) \<or> (192 \<le> n \<and> n \<le> 222 \<and> n \<noteq> 215) then char_of (n + 32) else c)"

definition to_lower :: "string \<Rightarrow> string" where
  "to_lower s = map to_lower_char s"

definition trim_by :: "(char \<Rightarrow> bool) \<Rightarrow> string \<Rightarrow> string" where
  "trim_by p s = rev (dropWhile p (rev (dropWhile p s)))"

text \<open>The white space \<^verbatim>\<open>trim()\<close> removes, within Latin-1.\<close>

definition is_js_space :: "char \<Rightarrow> bool" where
  "is_js_space c \<longleftrightarrow> (of_char c :: nat) \<in> {9, 10, 11, 12, 13, 32, 160}"

definition js_trim :: "string \<Rightarrow> string" where "js_trim = trim_by is_js_space"

definition starts_with :: "string \<Rightarrow> string \<Rightarrow> bool" where
  "starts_with p s \<longleftrightarrow> take (length p) s = p"

text \<open>\<^verbatim>\<open>split(c)\<close> for a one-character separator: never empty, as in JavaScript.\<close>

fun split_on :: "char \<Rightarrow> string \<Rightarrow> string list" where
  "split_on c [] = [[]]"
| "split_on c (x # xs) =
     (if x = c then [] # split_on c xs
      else (case split_on c xs of [] \<Rightarrow> [[x]] | y # ys \<Rightarrow> (x # y) # ys))"

text \<open>\<^verbatim>\<open>indexOf(c)\<close>, \<^const>\<open>None\<close> for \<open>-1\<close>.\<close>

fun index_of :: "char \<Rightarrow> string \<Rightarrow> nat option" where
  "index_of c [] = None"
| "index_of c (x # xs) = (if x = c then Some 0 else map_option Suc (index_of c xs))"

text \<open>\<^verbatim>\<open>indexOf(needle, from)\<close> and \<^verbatim>\<open>lastIndexOf(needle, from)\<close> of a byte buffer.\<close>

definition match_at :: "string \<Rightarrow> string \<Rightarrow> nat \<Rightarrow> bool" where
  "match_at needle hay i \<longleftrightarrow> take (length needle) (drop i hay) = needle"

definition index_of_from :: "string \<Rightarrow> string \<Rightarrow> nat \<Rightarrow> nat option" where
  "index_of_from needle hay from = List.find (match_at needle hay) [from ..< Suc (length hay - length needle)]"

definition last_index_of :: "string \<Rightarrow> string \<Rightarrow> nat \<Rightarrow> nat option" where
  "last_index_of needle hay from =
     List.find (match_at needle hay) (rev [0 ..< Suc (min from (length hay - length needle))])"

text \<open>A raw header list \<^verbatim>\<open>[name, value, name, value, ...]\<close> read in steps of two, as the source's
  loops do: a dangling last element is not read.\<close>

fun raw_pairs :: "string list \<Rightarrow> (string \<times> string) list" where
  "raw_pairs (n # v # rest) = (n, v) # raw_pairs rest"
| "raw_pairs _ = []"

subsection \<open>Lists\<close>

lemma find_SomeD: "List.find P xs = Some x \<Longrightarrow> x \<in> set xs \<and> P x"
  by (auto simp: find_Some_iff)

lemma find_isSome_iff: "(\<exists>x. List.find P xs = Some x) \<longleftrightarrow> list_ex P xs"
proof -
  have "(\<exists>x. List.find P xs = Some x) \<longleftrightarrow> List.find P xs \<noteq> None" by auto
  then show ?thesis by (auto simp: find_None_iff list_ex_iff)
qed

lemma find_None_list_ex: "List.find P xs = None \<longleftrightarrow> \<not> list_ex P xs"
  by (auto simp: find_None_iff list_ex_iff)

lemma find_unique:
  assumes "x \<in> set xs" "P x" "length (filter P xs) \<le> 1"
  shows "List.find P xs = Some x"
  using assms
proof (induction xs)
  case Nil
  then show ?case by simp
next
  case (Cons y ys)
  show ?case
  proof (cases "P y")
    case True
    with Cons.prems have "filter P ys = []" by simp
    with True Cons.prems show ?thesis by (auto simp: filter_empty_conv)
  next
    case False
    with Cons show ?thesis by auto
  qed
qed

lemma filter_le_Suc_0_iff: "length (filter P xs) \<le> Suc 0 \<longleftrightarrow> \<not> 1 < length (filter P xs)"
  by auto

text \<open>Conditional recording of a finding, the \<^verbatim>\<open>if (...) add(...)\<close> of the validators.\<close>

definition flag :: "bool \<Rightarrow> 'a \<Rightarrow> 'a list" where
  "flag b x = (if b then [x] else [])"

lemma flag_simps [simp]: "flag True x = [x]" "flag False x = []"
  by (auto simp: flag_def)

lemma flag_Nil_iff [simp]: "flag b x = [] \<longleftrightarrow> \<not> b"
  by (simp add: flag_def)

lemma in_set_flag [simp]: "y \<in> set (flag b x) \<longleftrightarrow> b \<and> y = x"
  by (cases b) simp_all

subsection \<open>Association lists as JavaScript maps\<close>

abbreviation jsmap_keys :: "('k, 'v) jsmap \<Rightarrow> 'k set" where
  "jsmap_keys m \<equiv> fst ` set m"

definition jsmap_ok :: "('k, 'v) jsmap \<Rightarrow> bool" where
  "jsmap_ok m \<longleftrightarrow> distinct (map fst m)"

lemma jsmap_ok_Nil [simp]: "jsmap_ok []"
  by (simp add: jsmap_ok_def)

lemma jsmap_ok_update [simp]: "jsmap_ok m \<Longrightarrow> jsmap_ok (AList.update k v m)"
  by (simp add: jsmap_ok_def distinct_update)

lemma jsmap_ok_delete [simp]: "jsmap_ok m \<Longrightarrow> jsmap_ok (AList.delete k m)"
  by (simp add: jsmap_ok_def distinct_delete)

lemma jsmap_ok_filter [simp]: "jsmap_ok m \<Longrightarrow> jsmap_ok (filter P m)"
  by (simp add: jsmap_ok_def distinct_map_filter)

lemma jsmap_get_iff: "jsmap_ok m \<Longrightarrow> map_of m k = Some v \<longleftrightarrow> (k, v) \<in> set m"
  by (simp add: jsmap_ok_def)

lemma jsmap_mem_iff: "k \<in> jsmap_keys m \<longleftrightarrow> map_of m k \<noteq> None"
  by (simp add: map_of_eq_None_iff)

lemma length_update_new [simp]: "map_of m k = None \<Longrightarrow> length (AList.update k v m) = Suc (length m)"
  by (induction m) (auto split: if_splits)

lemma update_new_append: "map_of m k = None \<Longrightarrow> AList.update k v m = m @ [(k, v)]"
  by (induction m) (auto split: if_splits)

lemma length_update_old [simp]: "map_of m k = Some w \<Longrightarrow> length (AList.update k v m) = length m"
  by (induction m) (auto split: if_splits)

lemma map_of_update [simp]: "map_of (AList.update k v m) = (map_of m)(k \<mapsto> v)"
  by (rule update_conv')

lemma map_of_delete [simp]: "map_of (AList.delete k m) = (map_of m)(k := None)"
  by (rule delete_conv')

lemma set_update_subset: "set (AList.update k v m) \<subseteq> insert (k, v) (set m)"
  by (induction m) auto

lemma set_delete_subset: "set (AList.delete k m) \<subseteq> set m"
  by (induction m) auto

lemma map_of_filter_val:
  "jsmap_ok m \<Longrightarrow> map_of (filter (\<lambda>(k, v). P k v) m) k =
     (case map_of m k of None \<Rightarrow> None | Some v \<Rightarrow> if P k v then Some v else None)"
proof (induction m)
  case Nil
  then show ?case by simp
next
  case (Cons kv m)
  obtain k' v' where kv: "kv = (k', v')" by (cases kv)
  from Cons.prems have ok: "jsmap_ok m" and fresh: "map_of m k' = None"
    by (auto simp: jsmap_ok_def kv map_of_eq_None_iff)
  show ?case
    using Cons.IH [OF ok] fresh by (auto simp: kv split: option.splits)
qed

end
