(* ===== verification/Defense_Types.thy ===== *)
theory Defense_Types
  imports Prelude
begin

text \<open>
  The closed vocabularies of the Defense Plane (\<^verbatim>\<open>defense/core/types.ts\<close>): the reject reasons with
  their HTTP status and stage, layer verdicts and outcomes, the request a layer may see, the L1 limits
  and the spoofable header names; and the vocabularies of the lane layer and of enrollment that the
  lifecycle events carry (\<^verbatim>\<open>defense/core/lanes.ts\<close>, \<^verbatim>\<open>defense/core/enrollment.ts\<close>). A dotted id of
  the source such as \<^verbatim>\<open>a7.path_not_allowed\<close> is the constructor \<open>a7_path_not_allowed\<close>.
\<close>

subsection \<open>Reject reasons\<close>

datatype (plugins only: code size) reject_reason =
    a7_method_not_allowed | a7_target_too_long | a7_target_malformed | a7_path_not_allowed
  | a7_query_not_allowed | a7_header_count_exceeded | a7_header_bytes_exceeded
  | a7_header_name_invalid | a7_header_value_invalid | a7_host_header_invalid | a7_framing_invalid
  | a7_content_type_invalid | a7_body_too_large | a7_body_incomplete | a7_body_read_timeout
  | a7_body_encoding_invalid | a7_form_grammar_invalid | a7_form_field_not_allowed
  | a7_form_field_duplicate | a7_form_field_count_exceeded | a7_form_field_too_long
  | a7_form_token_malformed
  | a7_semantic_duplicate | a7_semantic_refused_header | a7_semantic_value_invalid
  | a7_lane_credited_budget | a7_lane_unverified_budget

definition REJECT_REASONS :: "reject_reason list" where
  "REJECT_REASONS =
    [a7_method_not_allowed, a7_target_too_long, a7_target_malformed, a7_path_not_allowed,
     a7_query_not_allowed, a7_header_count_exceeded, a7_header_bytes_exceeded,
     a7_header_name_invalid, a7_header_value_invalid, a7_host_header_invalid, a7_framing_invalid,
     a7_content_type_invalid, a7_body_too_large, a7_body_incomplete, a7_body_read_timeout,
     a7_body_encoding_invalid, a7_form_grammar_invalid, a7_form_field_not_allowed,
     a7_form_field_duplicate, a7_form_field_count_exceeded, a7_form_field_too_long,
     a7_form_token_malformed]"

definition SEMANTIC_REJECT_REASONS :: "reject_reason list" where
  "SEMANTIC_REJECT_REASONS =
    [a7_semantic_duplicate, a7_semantic_refused_header, a7_semantic_value_invalid]"

definition LANE_REJECT_REASONS :: "reject_reason list" where
  "LANE_REJECT_REASONS = [a7_lane_credited_budget, a7_lane_unverified_budget]"

definition ALL_REJECT_REASONS :: "reject_reason list" where
  "ALL_REJECT_REASONS = REJECT_REASONS @ SEMANTIC_REJECT_REASONS @ LANE_REJECT_REASONS"

datatype reject_stage = pre_parse | grammar

primrec REJECT_STATUS :: "reject_reason \<Rightarrow> int" where
  "REJECT_STATUS a7_method_not_allowed = 405"
| "REJECT_STATUS a7_target_too_long = 414"
| "REJECT_STATUS a7_target_malformed = 400"
| "REJECT_STATUS a7_path_not_allowed = 404"
| "REJECT_STATUS a7_query_not_allowed = 400"
| "REJECT_STATUS a7_header_count_exceeded = 431"
| "REJECT_STATUS a7_header_bytes_exceeded = 431"
| "REJECT_STATUS a7_header_name_invalid = 400"
| "REJECT_STATUS a7_header_value_invalid = 400"
| "REJECT_STATUS a7_host_header_invalid = 400"
| "REJECT_STATUS a7_framing_invalid = 400"
| "REJECT_STATUS a7_content_type_invalid = 415"
| "REJECT_STATUS a7_body_too_large = 413"
| "REJECT_STATUS a7_body_incomplete = 400"
| "REJECT_STATUS a7_body_read_timeout = 408"
| "REJECT_STATUS a7_body_encoding_invalid = 400"
| "REJECT_STATUS a7_form_grammar_invalid = 400"
| "REJECT_STATUS a7_form_field_not_allowed = 422"
| "REJECT_STATUS a7_form_field_duplicate = 422"
| "REJECT_STATUS a7_form_field_count_exceeded = 422"
| "REJECT_STATUS a7_form_field_too_long = 422"
| "REJECT_STATUS a7_form_token_malformed = 422"
| "REJECT_STATUS a7_semantic_duplicate = 400"
| "REJECT_STATUS a7_semantic_refused_header = 400"
| "REJECT_STATUS a7_semantic_value_invalid = 400"
| "REJECT_STATUS a7_lane_credited_budget = 503"
| "REJECT_STATUS a7_lane_unverified_budget = 503"

primrec REJECT_STAGE :: "reject_reason \<Rightarrow> reject_stage" where
  "REJECT_STAGE a7_method_not_allowed = pre_parse"
| "REJECT_STAGE a7_target_too_long = pre_parse"
| "REJECT_STAGE a7_target_malformed = pre_parse"
| "REJECT_STAGE a7_path_not_allowed = pre_parse"
| "REJECT_STAGE a7_query_not_allowed = pre_parse"
| "REJECT_STAGE a7_header_count_exceeded = pre_parse"
| "REJECT_STAGE a7_header_bytes_exceeded = pre_parse"
| "REJECT_STAGE a7_header_name_invalid = pre_parse"
| "REJECT_STAGE a7_header_value_invalid = pre_parse"
| "REJECT_STAGE a7_host_header_invalid = pre_parse"
| "REJECT_STAGE a7_framing_invalid = pre_parse"
| "REJECT_STAGE a7_content_type_invalid = pre_parse"
| "REJECT_STAGE a7_body_too_large = pre_parse"
| "REJECT_STAGE a7_body_incomplete = pre_parse"
| "REJECT_STAGE a7_body_read_timeout = pre_parse"
| "REJECT_STAGE a7_body_encoding_invalid = grammar"
| "REJECT_STAGE a7_form_grammar_invalid = grammar"
| "REJECT_STAGE a7_form_field_not_allowed = grammar"
| "REJECT_STAGE a7_form_field_duplicate = grammar"
| "REJECT_STAGE a7_form_field_count_exceeded = grammar"
| "REJECT_STAGE a7_form_field_too_long = grammar"
| "REJECT_STAGE a7_form_token_malformed = grammar"
| "REJECT_STAGE a7_semantic_duplicate = pre_parse"
| "REJECT_STAGE a7_semantic_refused_header = pre_parse"
| "REJECT_STAGE a7_semantic_value_invalid = pre_parse"
| "REJECT_STAGE a7_lane_credited_budget = pre_parse"
| "REJECT_STAGE a7_lane_unverified_budget = pre_parse"

subsection \<open>Layer verdicts and outcomes\<close>

datatype layer_verdict = VPass | VReject reject_reason

datatype layer_error_kind = LThrow | LTimeout | LInvalidVerdict

datatype layer_outcome = OPass | OReject reject_reason | OShed | OError layer_error_kind

datatype body_status = BNone | BComplete | BDeclaredOversize | BOverflow | BTimeout | BAborted

record layer_request =
  lr_method :: string
  lr_target :: string
  lr_headers :: "(string \<times> string) list"
  lr_bodyStatus :: body_status
  lr_body :: "bytes option"

subsection \<open>Limits and header names\<close>

definition maxTargetBytes :: nat where "maxTargetBytes = 2048"
definition maxQueryBytes :: nat where "maxQueryBytes = 64"
definition maxHeaderCount :: nat where "maxHeaderCount = 48"
definition maxHeaderBytes :: nat where "maxHeaderBytes = 8192"
definition maxBodyBytes :: nat where "maxBodyBytes = 32768"
definition maxFormFields :: nat where "maxFormFields = 16"
definition maxFieldNameBytes :: nat where "maxFieldNameBytes = 32"
definition maxFieldEncodedBytes :: nat where "maxFieldEncodedBytes = 12000"

lemmas L1_LIMITS = maxTargetBytes_def maxQueryBytes_def maxHeaderCount_def maxHeaderBytes_def
  maxBodyBytes_def maxFormFields_def maxFieldNameBytes_def maxFieldEncodedBytes_def

definition isSpoofableHeader :: "string \<Rightarrow> bool" where
  "isSpoofableHeader name \<longleftrightarrow>
     starts_with ''x-ba0-'' name \<or> starts_with ''x-forwarded-'' name \<or> name = ''forwarded''
   \<or> name = ''x-real-ip'' \<or> name = ''x-client-ip'' \<or> name = ''true-client-ip''
   \<or> name = ''cf-connecting-ip'' \<or> name = ''cf-ipcountry'' \<or> starts_with ''x-limitmark-'' name
   \<or> starts_with ''x-vercel-'' name \<or> name = ''x-original-url'' \<or> name = ''x-rewrite-url''
   \<or> name = ''x-http-method-override''"

datatype lane = Control | Protected

subsection \<open>Reasons of the origin-side hop gates\<close>

datatype (plugins only: code size) ob_reason =
    ob_proof_missing | ob_proof_duplicate | ob_proof_oversize | ob_proof_malformed | ob_wrong_hop
  | ob_version_unsupported | ob_key_unknown | ob_audience_mismatch | ob_lifetime_invalid
  | ob_not_yet_valid | ob_expired | ob_before_fence | ob_method_mismatch | ob_target_mismatch
  | ob_header_unbound | ob_header_duplicate | ob_header_value_invalid | ob_header_mismatch
  | ob_length_mismatch | ob_framing_invalid | ob_signature_invalid | ob_lineage_missing
  | ob_lineage_mismatch | ob_replayed | ob_replay_cache_full | ob_digest_mismatch
  | ob_content_incomplete | ob_expect_refused | ob_canon_error

subsection \<open>Vocabulary of the lane layer and of enrollment\<close>

datatype operation_class = ClsOpen | ClsMutation | ClsUnknown
datatype lane2 = LaneOpen | LaneCredited | LaneUnverified
datatype l2_outcome = Admitted | Shed | Error | Degraded
datatype shed_reason = lane_budget | evaluator_saturation
datatype l2_error_kind = EThrow | ETimeout | EInvalidVerdict | ELedgerFull

datatype (plugins only: code size) enroll_skip_reason =
    not_get_form_route | skip_degraded | skip_simulated | upstream_failed | status_not_200
  | skip_content_type | body_too_large | token_count_zero | token_count_multiple
  | delivery_incomplete | already_enrolled

text \<open>Every reject reason is in the closed list, exactly once, and only the form parser's reasons
  are of the grammar stage.\<close>

lemma ALL_REJECT_REASONS_complete: "set ALL_REJECT_REASONS = UNIV"
proof -
  have "r \<in> set ALL_REJECT_REASONS" for r
    by (cases r) (simp_all add: ALL_REJECT_REASONS_def REJECT_REASONS_def
        SEMANTIC_REJECT_REASONS_def LANE_REJECT_REASONS_def)
  then show ?thesis by blast
qed

lemma REJECT_STATUS_is_error: "400 \<le> REJECT_STATUS r \<and> REJECT_STATUS r \<le> 503"
  by (cases r) simp_all

end
