(* ===== verification/Ledger_Events.thy ===== *)
theory Ledger_Events
  imports Defense_Types
begin

text \<open>
  The event vocabulary and the lifecycle automata of \<^verbatim>\<open>defense/core/ledger.ts\<close>: the plane, origin,
  boundary, app and harness events, the anomaly codes, and the successor tables the validators use.
  An optional field of the source is an \<^typ>\<open>'a option\<close>; an optional boolean marker that the code
  only tests for truth (\<^verbatim>\<open>uncorrelated\<close>, \<^verbatim>\<open>ingress: "external"\<close>, \<^verbatim>\<open>basis: "simulated"\<close>) is a
  \<^typ>\<open>bool\<close>. A \<^verbatim>\<open>PARSER_REJECTED\<close> event belongs to no request and never reaches a lifecycle view, so
  it is a constructor of the stream item the collector ingests, not a plane kind.
\<close>

subsection \<open>Plane events\<close>

datatype (plugins only: code size) plane_event_kind =
    INGRESS_ACCEPTED | L1_ENTERED | L1_PASSED | L1_REJECTED | L1_SHED | L1_ERROR
  | EGRESS_ATTEMPTED | PROOF_ISSUED | EGRESS_RESPONDED | EGRESS_FAILED
  | INGRESS_RESPONDED | INGRESS_ABORTED
  | L2_ENTERED | L2_DECIDED | L2_ENROLLED | L2_ENROLL_SKIPPED

primrec plane_kind_name :: "plane_event_kind \<Rightarrow> string" where
  "plane_kind_name INGRESS_ACCEPTED = ''INGRESS_ACCEPTED''"
| "plane_kind_name L1_ENTERED = ''L1_ENTERED''"
| "plane_kind_name L1_PASSED = ''L1_PASSED''"
| "plane_kind_name L1_REJECTED = ''L1_REJECTED''"
| "plane_kind_name L1_SHED = ''L1_SHED''"
| "plane_kind_name L1_ERROR = ''L1_ERROR''"
| "plane_kind_name EGRESS_ATTEMPTED = ''EGRESS_ATTEMPTED''"
| "plane_kind_name PROOF_ISSUED = ''PROOF_ISSUED''"
| "plane_kind_name EGRESS_RESPONDED = ''EGRESS_RESPONDED''"
| "plane_kind_name EGRESS_FAILED = ''EGRESS_FAILED''"
| "plane_kind_name INGRESS_RESPONDED = ''INGRESS_RESPONDED''"
| "plane_kind_name INGRESS_ABORTED = ''INGRESS_ABORTED''"
| "plane_kind_name L2_ENTERED = ''L2_ENTERED''"
| "plane_kind_name L2_DECIDED = ''L2_DECIDED''"
| "plane_kind_name L2_ENROLLED = ''L2_ENROLLED''"
| "plane_kind_name L2_ENROLL_SKIPPED = ''L2_ENROLL_SKIPPED''"

datatype egress_error_kind = EgRefused | EgReset | EgTimeout | EgError

datatype fail_stage = FsCanon | FsSign

datatype terminal_outcome =
    T_rejected | T_shed | T_error | T_proxied | T_egress_failed | T_client_aborted
  | T_l2_shed | T_l2_error

record plane_event =
  pe_seq :: int
  pe_nonce :: "string option"
  pe_kind :: plane_event_kind
  pe_t :: instant
  pe_reason :: "reject_reason option"
  pe_stage :: "reject_stage option"
  pe_errorKind :: "layer_error_kind option"
  pe_status :: "int option"
  pe_egressError :: "egress_error_kind option"
  pe_stripped :: "int option"
  pe_uncorrelated :: bool
  pe_external :: bool
  pe_pbTag :: "string option"
  pe_class :: "operation_class option"
  pe_lane :: "lane2 option option"
  pe_outcome :: "l2_outcome option"
  pe_shedReason :: "shed_reason option"
  pe_l2ErrorKind :: "l2_error_kind option"
  pe_spent :: "lane2 option"
  pe_touched :: "lane2 option"
  pe_creditTag :: "string option"
  pe_dt :: "int option"
  pe_lvl :: "int option"
  pe_lseq :: "int option"
  pe_simulated :: bool
  pe_shadow :: "string option"
  pe_skipReason :: "enroll_skip_reason option"
  pe_fill :: "(int \<times> int) option"
  pe_failStage :: "fail_stage option"

text \<open>A plane event with every optional field absent.\<close>

definition plane_ev :: "int \<Rightarrow> plane_event_kind \<Rightarrow> plane_event" where
  "plane_ev s k = \<lparr>pe_seq = s, pe_nonce = None, pe_kind = k, pe_t = 0, pe_reason = None,
     pe_stage = None, pe_errorKind = None, pe_status = None, pe_egressError = None,
     pe_stripped = None, pe_uncorrelated = False, pe_external = False, pe_pbTag = None,
     pe_class = None, pe_lane = None, pe_outcome = None, pe_shedReason = None,
     pe_l2ErrorKind = None, pe_spent = None, pe_touched = None, pe_creditTag = None,
     pe_dt = None, pe_lvl = None, pe_lseq = None, pe_simulated = False, pe_shadow = None,
     pe_skipReason = None, pe_fill = None, pe_failStage = None\<rparr>"

subsection \<open>Origin, boundary, app and harness events\<close>

datatype origin_event_kind = ORIGIN_RECEIVED | ORIGIN_COMPLETED | ORIGIN_ABORTED

record origin_event =
  oe_instance :: lane
  oe_nonce :: "string option"
  oe_kind :: origin_event_kind
  oe_hop :: "int option"
  oe_status :: "int option"
  oe_spoofed :: "int option"

datatype (plugins only: code size) boundary_event_kind =
    BOUNDARY_ARRIVED | BOUNDARY_REJECTED | BOUNDARY_ADMITTED | APP_PROOF_ISSUED
  | BOUNDARY_FORWARDED | BOUNDARY_FORWARD_RESPONDED | BOUNDARY_FORWARD_FAILED
  | BOUNDARY_RESPONDED | BOUNDARY_ABORTED | BOUNDARY_PARSER_REJECTED | BOUNDARY_PROTOCOL_REFUSED

record boundary_event =
  be_seq :: int
  be_nonce :: "string option"
  be_kind :: boundary_event_kind
  be_reason :: "ob_reason option"
  be_hop :: "int option"
  be_pbTag :: "string option"
  be_baTag :: "string option"
  be_status :: "int option"
  be_forwardError :: "egress_error_kind option"

datatype app_event_kind =
    APP_ADMITTED | APP_REFUSED | APP_EXECUTED | APP_MUTATED | APP_COMPLETED | APP_ABORTED

record app_event =
  ae_seq :: int
  ae_nonce :: "string option"
  ae_kind :: app_event_kind
  ae_reason :: "ob_reason option"
  ae_hop :: "int option"
  ae_pbTag :: "string option"
  ae_baTag :: "string option"
  ae_status :: "int option"
  ae_spoofed :: "int option"

datatype harness_event_kind = SENT | CLIENT_COMPLETED
datatype client_result_kind = CResponse | CReset | CTimeout | CError

record harness_event =
  he_kind :: harness_event_kind
  he_result :: "client_result_kind option"
  he_status :: "int option"
  he_outcomeHeader :: "string option"

datatype expected_lane =
    X_protected | X_control | X_pre_ingress | X_external | X_direct_boundary_rejected
  | X_direct_app_rejected | X_positive_control_boundary | X_positive_control_app

subsection \<open>Anomaly codes\<close>

datatype (plugins only: size) anomaly_code =
    duplicate_terminal | duplicate_event | duplicate_nonce_sent | duplicate_sequence
  | missing_transition | impossible_order | ingress_loss | disappeared_after_ingress
  | unresolved_at_finalization | sent_without_completion | duplicate_origin_processing
  | origin_without_l1_pass | origin_lane_mismatch | origin_hop_mismatch | origin_status_mismatch
  | plane_status_mismatch | client_status_mismatch | outcome_header_mismatch
  | plane_event_on_unexpected_lane | unknown_nonce | event_before_sent | uncorrelated_ingress
  | late_event_after_finalization | event_channel_loss | plane_crashed | plane_not_finalized
  | journal_overflow | ledger_capacity_exceeded | parser_reject_unreconciled
  | origin_spoofed_header_seen | corpus_expectation_violated
  | boundary_crashed | boundary_not_finalized | boundary_channel_loss | boundary_decision_missing
  | boundary_hop_mismatch | boundary_rejected_plane_egress | plane_egress_not_admitted
  | boundary_lane_mismatch | app_crashed | app_not_finalized | app_channel_loss
  | app_admit_without_lineage | app_execution_without_lineage | app_mutation_without_lineage
  | app_refused_boundary_admitted | direct_app_execution | direct_app_mutation
  | direct_not_rejected | hop_range_violation | unattributed_app_execution
  | unattributed_app_mutation | app_counter_mismatch | boundary_counter_mismatch
  | replay_state_violation | admitted_hop_duplicate | clock_step_detected | positive_control_failed
  | layer_skipped | l2_decision_invalid | l2_refused_but_egressed | l2_enrollment_invalid
  | enrollment_after_decision | l2_counter_mismatch | l2_bucket_replay_mismatch
  | l2_state_violation | simulated_in_normal_runtime | unconsumed_override_arm
  | override_applied_without_arm | l2_decision_untraced | external_state_overflow
  | external_unresolved | external_unclaimed_downstream | external_late_event
  | external_duplicate_nonce

record anomaly =
  an_code :: anomaly_code
  an_nonce :: "string option"
  an_detail :: string

subsection \<open>The lifecycle automata\<close>

text \<open>The ranks of the source (1, 2, 3, 3.2, 3.5, 4, 4.5, \<dots>) times ten: they are only compared.\<close>

primrec RANK :: "plane_event_kind \<Rightarrow> nat" where
  "RANK INGRESS_ACCEPTED = 10" | "RANK L1_ENTERED = 20" | "RANK L1_PASSED = 30"
| "RANK L1_REJECTED = 30" | "RANK L1_SHED = 30" | "RANK L1_ERROR = 30"
| "RANK EGRESS_ATTEMPTED = 40" | "RANK PROOF_ISSUED = 45" | "RANK EGRESS_RESPONDED = 50"
| "RANK EGRESS_FAILED = 50" | "RANK INGRESS_RESPONDED = 60" | "RANK INGRESS_ABORTED = 60"
| "RANK L2_ENTERED = 32" | "RANK L2_DECIDED = 35" | "RANK L2_ENROLLED = 55"
| "RANK L2_ENROLL_SKIPPED = 55"

text \<open>The successor tables. \<^const>\<open>None\<close> is the source's \<^verbatim>\<open>START\<close>.\<close>

fun NEXT_PLANE_KINDS :: "plane_event_kind option \<Rightarrow> plane_event_kind list" where
  "NEXT_PLANE_KINDS None = [INGRESS_ACCEPTED]"
| "NEXT_PLANE_KINDS (Some k) = (case k of
     INGRESS_ACCEPTED \<Rightarrow> [L1_ENTERED]
   | L1_ENTERED \<Rightarrow> [L1_PASSED, L1_REJECTED, L1_SHED, L1_ERROR]
   | L1_PASSED \<Rightarrow> [EGRESS_ATTEMPTED]
   | L1_REJECTED \<Rightarrow> [INGRESS_RESPONDED, INGRESS_ABORTED]
   | L1_SHED \<Rightarrow> [INGRESS_RESPONDED, INGRESS_ABORTED]
   | L1_ERROR \<Rightarrow> [INGRESS_RESPONDED, INGRESS_ABORTED]
   | EGRESS_ATTEMPTED \<Rightarrow> [PROOF_ISSUED, EGRESS_RESPONDED, EGRESS_FAILED]
   | PROOF_ISSUED \<Rightarrow> [EGRESS_RESPONDED, EGRESS_FAILED]
   | EGRESS_RESPONDED \<Rightarrow> [INGRESS_RESPONDED, INGRESS_ABORTED]
   | EGRESS_FAILED \<Rightarrow> [INGRESS_RESPONDED, INGRESS_ABORTED]
   | _ \<Rightarrow> [])"

fun NEXT_PLANE_KINDS_L2 :: "plane_event_kind option \<Rightarrow> plane_event_kind list" where
  "NEXT_PLANE_KINDS_L2 None = [INGRESS_ACCEPTED]"
| "NEXT_PLANE_KINDS_L2 (Some k) = (case k of
     INGRESS_ACCEPTED \<Rightarrow> [L1_ENTERED]
   | L1_ENTERED \<Rightarrow> [L1_PASSED, L1_REJECTED, L1_SHED, L1_ERROR]
   | L1_PASSED \<Rightarrow> [L2_ENTERED]
   | L1_REJECTED \<Rightarrow> [INGRESS_RESPONDED, INGRESS_ABORTED]
   | L1_SHED \<Rightarrow> [INGRESS_RESPONDED, INGRESS_ABORTED]
   | L1_ERROR \<Rightarrow> [INGRESS_RESPONDED, INGRESS_ABORTED]
   | L2_ENTERED \<Rightarrow> [L2_DECIDED]
   | L2_DECIDED \<Rightarrow> [EGRESS_ATTEMPTED, INGRESS_RESPONDED, INGRESS_ABORTED]
   | EGRESS_ATTEMPTED \<Rightarrow> [PROOF_ISSUED, EGRESS_RESPONDED, EGRESS_FAILED]
   | PROOF_ISSUED \<Rightarrow> [EGRESS_RESPONDED, EGRESS_FAILED]
   | EGRESS_RESPONDED \<Rightarrow> [L2_ENROLLED, L2_ENROLL_SKIPPED, INGRESS_RESPONDED, INGRESS_ABORTED]
   | EGRESS_FAILED \<Rightarrow> [L2_ENROLL_SKIPPED, INGRESS_RESPONDED, INGRESS_ABORTED]
   | L2_ENROLLED \<Rightarrow> [INGRESS_RESPONDED, INGRESS_ABORTED]
   | L2_ENROLL_SKIPPED \<Rightarrow> [INGRESS_RESPONDED, INGRESS_ABORTED]
   | INGRESS_RESPONDED \<Rightarrow> []
   | INGRESS_ABORTED \<Rightarrow> [])"

fun NEXT_BOUNDARY_KINDS :: "boundary_event_kind option \<Rightarrow> boundary_event_kind list" where
  "NEXT_BOUNDARY_KINDS None = [BOUNDARY_ARRIVED]"
| "NEXT_BOUNDARY_KINDS (Some k) = (case k of
     BOUNDARY_ARRIVED \<Rightarrow> [BOUNDARY_REJECTED, BOUNDARY_ADMITTED]
   | BOUNDARY_REJECTED \<Rightarrow> [BOUNDARY_RESPONDED, BOUNDARY_ABORTED]
   | BOUNDARY_ADMITTED \<Rightarrow> [APP_PROOF_ISSUED, BOUNDARY_RESPONDED, BOUNDARY_ABORTED]
   | APP_PROOF_ISSUED \<Rightarrow> [BOUNDARY_FORWARDED]
   | BOUNDARY_FORWARDED \<Rightarrow> [BOUNDARY_FORWARD_RESPONDED, BOUNDARY_FORWARD_FAILED]
   | BOUNDARY_FORWARD_RESPONDED \<Rightarrow> [BOUNDARY_RESPONDED, BOUNDARY_ABORTED]
   | BOUNDARY_FORWARD_FAILED \<Rightarrow> [BOUNDARY_RESPONDED, BOUNDARY_ABORTED]
   | BOUNDARY_RESPONDED \<Rightarrow> []
   | BOUNDARY_ABORTED \<Rightarrow> []
   | BOUNDARY_PARSER_REJECTED \<Rightarrow> []
   | BOUNDARY_PROTOCOL_REFUSED \<Rightarrow> [])"

fun NEXT_APP_KINDS :: "app_event_kind option \<Rightarrow> app_event_kind list" where
  "NEXT_APP_KINDS None = [APP_ADMITTED, APP_REFUSED]"
| "NEXT_APP_KINDS (Some k) = (case k of
     APP_REFUSED \<Rightarrow> []
   | APP_ADMITTED \<Rightarrow> [APP_EXECUTED, APP_COMPLETED, APP_ABORTED]
   | APP_EXECUTED \<Rightarrow> [APP_MUTATED, APP_COMPLETED, APP_ABORTED]
   | APP_MUTATED \<Rightarrow> [APP_COMPLETED, APP_ABORTED]
   | APP_COMPLETED \<Rightarrow> []
   | APP_ABORTED \<Rightarrow> [])"

definition ORACLE_HOP_BASE :: int where
  "ORACLE_HOP_BASE = 2 ^ 40"

definition LAYER_VERDICT_KINDS :: "plane_event_kind list" where
  "LAYER_VERDICT_KINDS = [L1_PASSED, L1_REJECTED, L1_SHED, L1_ERROR]"

definition classifyViolation ::
  "plane_event_kind option \<Rightarrow> plane_event_kind \<Rightarrow> plane_event_kind set \<Rightarrow> anomaly_code" where
  "classifyViolation previous kind seen =
     (if previous = Some INGRESS_RESPONDED \<or> previous = Some INGRESS_ABORTED then duplicate_terminal
      else if kind \<in> seen then duplicate_event
      else let from = (case previous of None \<Rightarrow> 0 | Some p \<Rightarrow> RANK p)
           in if RANK kind \<le> from then impossible_order else missing_transition)"

end
