(* ===== verification/Event_Streams.thy ===== *)
theory Event_Streams
  imports Prelude
begin

text \<open>
  The contract the stream validators of the ledger share. Three streams (plane, boundary, app) are each
  checked event by event against a successor table and an increasing sequence number; the locale states
  what one step of such a checker reports, and derives once what an accepted stream is: its sequence
  numbers increase and its kinds are a path of the table.
\<close>

fun kinds_path :: "('k option \<Rightarrow> 'k list) \<Rightarrow> 'k option \<Rightarrow> 'k list \<Rightarrow> bool" where
  "kinds_path nxt p [] \<longleftrightarrow> True"
| "kinds_path nxt p (k # ks) \<longleftrightarrow> k \<in> set (nxt p) \<and> kinds_path nxt (Some k) ks"

text \<open>A path that ends in a state satisfying \<open>fin\<close>.\<close>

fun complete_path :: "('k option \<Rightarrow> 'k list) \<Rightarrow> ('k option \<Rightarrow> bool) \<Rightarrow> 'k option \<Rightarrow> 'k list \<Rightarrow> bool" where
  "complete_path nxt fin p [] \<longleftrightarrow> fin p"
| "complete_path nxt fin p (k # ks) \<longleftrightarrow> k \<in> set (nxt p) \<and> complete_path nxt fin (Some k) ks"

lemma complete_path_iff:
  "complete_path nxt fin p ks \<longleftrightarrow>
     kinds_path nxt p ks \<and> fin (if ks = [] then p else Some (last ks))"
  by (induction ks arbitrary: p) auto

text \<open>A path whose ranks strictly increase along the table never repeats a kind.\<close>

lemma kinds_path_ranks:
  fixes rank :: "'k \<Rightarrow> nat"
  assumes mono: "\<And>p k. k \<in> set (nxt (Some p)) \<Longrightarrow> rank p < rank k"
    and path: "kinds_path nxt p ks"
  shows "sorted_wrt (<) (map rank ks) \<and> (\<forall>q. p = Some q \<longrightarrow> (\<forall>k \<in> set ks. rank q < rank k))"
  using path
proof (induction ks arbitrary: p)
  case Nil
  then show ?case by simp
next
  case (Cons k ks)
  then have IH: "sorted_wrt (<) (map rank ks)" "\<forall>k' \<in> set ks. rank k < rank k'"
    and k: "k \<in> set (nxt p)" by auto
  from k mono have "p = Some q \<Longrightarrow> rank q < rank k" for q by auto
  with IH show ?case by (auto intro: less_trans)
qed

lemma sorted_wrt_ranks_distinct:
  "sorted_wrt (<) (map (rank :: 'k \<Rightarrow> nat) ks) \<Longrightarrow> distinct ks"
  by (induction ks) auto

locale stream_checker =
  fixes kind :: "'e \<Rightarrow> 'k"
    and seq :: "'e \<Rightarrow> int"
    and nxt :: "'k option \<Rightarrow> 'k list"
    and check :: "'k option \<Rightarrow> 'k set \<Rightarrow> int \<Rightarrow> 'e list \<Rightarrow> 'a list"
  assumes check_Nil: "check p seen s [] = []"
    and check_Cons: "check p seen s (e # es) = [] \<longleftrightarrow>
      s < seq e \<and> kind e \<in> set (nxt p) \<and> check (Some (kind e)) (insert (kind e) seen) (seq e) es = []"
begin

lemma accepted_iff:
  "check p seen s es = [] \<longleftrightarrow> sorted_wrt (<) (s # map seq es) \<and> kinds_path nxt p (map kind es)"
proof (induction es arbitrary: p seen s)
  case Nil
  then show ?case by (simp add: check_Nil)
next
  case (Cons e es)
  have "sorted_wrt (<) (s # map seq (e # es)) \<longleftrightarrow> s < seq e \<and> sorted_wrt (<) (seq e # map seq es)"
    by (auto intro: less_trans)
  then show ?case using Cons.IH by (auto simp: check_Cons)
qed

lemma accepted_distinct_kinds:
  fixes rank :: "'k \<Rightarrow> nat"
  assumes "check None seen s es = []"
    and "\<And>p k. k \<in> set (nxt (Some p)) \<Longrightarrow> rank p < rank k"
  shows "distinct (map kind es)"
proof -
  from assms(1) have "kinds_path nxt None (map kind es)" by (simp add: accepted_iff)
  then have "sorted_wrt (<) (map rank (map kind es))"
    using kinds_path_ranks [of nxt rank] assms(2) by blast
  then show ?thesis by (rule sorted_wrt_ranks_distinct)
qed

lemma accepted_unique:
  fixes rank :: "'k \<Rightarrow> nat"
  assumes "check None seen s es = []"
    and "\<And>p k. k \<in> set (nxt (Some p)) \<Longrightarrow> rank p < rank k"
    and "e \<in> set es" "e' \<in> set es" "kind e = kind e'"
  shows "e = e'"
proof -
  have "inj_on kind (set es)"
    using accepted_distinct_kinds [OF assms(1,2)] by (simp add: distinct_map)
  with assms(3-5) show ?thesis by (auto dest: inj_onD)
qed

end

end
