(* ===== verification/Ledger.thy ===== *)
theory Ledger
  imports Ledger_Events Event_Streams
begin

text \<open>
  Lifecycle validation of \<^verbatim>\<open>defense/core/ledger.ts\<close>: \<^verbatim>\<open>planeStatusFor\<close>, \<^verbatim>\<open>terminalOutcome\<close>,
  \<^verbatim>\<open>terminalOutcomeL2\<close> and \<^verbatim>\<open>validateLifecycle\<close>, whose four groups of rules (harness stream, plane
  stream, origin stream, cross-source reconciliation) are one definition each. The lemmas show that the
  plane stream is accepted exactly when it is a run of the successor table with increasing sequence
  numbers, and what a lifecycle without anomalies guarantees.
\<close>

record lifecycle_view =
  lv_nonce :: string
  lv_expected :: expected_lane
  lv_harness :: "harness_event list"
  lv_plane :: "plane_event list"
  lv_origin :: "origin_event list"
  lv_boundary :: "boundary_event list option"
  lv_app :: "app_event list option"
  lv_l2 :: bool

abbreviation has_kind :: "plane_event_kind \<Rightarrow> plane_event list \<Rightarrow> bool" where
  "has_kind k es \<equiv> list_ex (\<lambda>e. pe_kind e = k) es"

abbreviation first_kind :: "plane_event_kind \<Rightarrow> plane_event list \<Rightarrow> plane_event option" where
  "first_kind k es \<equiv> List.find (\<lambda>e. pe_kind e = k) es"

abbreviation is_verdict_event :: "plane_event \<Rightarrow> bool" where
  "is_verdict_event e \<equiv> pe_kind e \<in> set LAYER_VERDICT_KINDS"

subsection \<open>Status and terminal outcome\<close>

definition planeStatusFor :: "lifecycle_view \<Rightarrow> int option" where
  "planeStatusFor v = (case List.find is_verdict_event (lv_plane v) of
     None \<Rightarrow> None
   | Some verdict \<Rightarrow>
       if pe_kind verdict = L1_REJECTED then map_option REJECT_STATUS (pe_reason verdict)
       else if pe_kind verdict = L1_SHED \<or> pe_kind verdict = L1_ERROR then Some 503
       else if lv_l2 v \<and> (case first_kind L2_DECIDED (lv_plane v) of
              None \<Rightarrow> False
            | Some d \<Rightarrow> pe_outcome d = Some Shed \<or> pe_outcome d = Some Error) then Some 503
       else (case first_kind EGRESS_FAILED (lv_plane v) of
           Some failed \<Rightarrow> Some (if pe_egressError failed = Some EgTimeout then 504 else 502)
         | None \<Rightarrow> (case first_kind EGRESS_RESPONDED (lv_plane v) of
               Some responded \<Rightarrow> pe_status responded
             | None \<Rightarrow> None)))"

definition terminalOutcome :: "plane_event list \<Rightarrow> terminal_outcome option" where
  "terminalOutcome plane =
     (if has_kind INGRESS_ABORTED plane then Some T_client_aborted
      else if \<not> has_kind INGRESS_RESPONDED plane then None
      else if has_kind L1_REJECTED plane then Some T_rejected
      else if has_kind L1_SHED plane then Some T_shed
      else if has_kind L1_ERROR plane then Some T_error
      else if has_kind EGRESS_FAILED plane then Some T_egress_failed
      else if has_kind EGRESS_RESPONDED plane then Some T_proxied
      else None)"

definition terminalOutcomeL2 :: "plane_event list \<Rightarrow> terminal_outcome option" where
  "terminalOutcomeL2 plane = (case first_kind L2_DECIDED plane of
     None \<Rightarrow> terminalOutcome plane
   | Some decided \<Rightarrow>
       if has_kind INGRESS_RESPONDED plane \<and> \<not> has_kind INGRESS_ABORTED plane
          \<and> pe_outcome decided = Some Shed then Some T_l2_shed
       else if has_kind INGRESS_RESPONDED plane \<and> \<not> has_kind INGRESS_ABORTED plane
          \<and> pe_outcome decided = Some Error then Some T_l2_error
       else terminalOutcome plane)"

primrec OUTCOME_HEADER_VALUE :: "terminal_outcome \<Rightarrow> string" where
  "OUTCOME_HEADER_VALUE T_rejected = ''rejected''"
| "OUTCOME_HEADER_VALUE T_shed = ''shed''"
| "OUTCOME_HEADER_VALUE T_error = ''error''"
| "OUTCOME_HEADER_VALUE T_proxied = ''proxied''"
| "OUTCOME_HEADER_VALUE T_egress_failed = ''egress_failed''"
| "OUTCOME_HEADER_VALUE T_client_aborted = ''client_aborted''"
| "OUTCOME_HEADER_VALUE T_l2_shed = ''l2_shed''"
| "OUTCOME_HEADER_VALUE T_l2_error = ''l2_error''"

subsection \<open>validateLifecycle\<close>

definition show_undef :: "int option \<Rightarrow> string" where
  "show_undef x = (case x of None \<Rightarrow> ''undefined'' | Some n \<Rightarrow> show_int n)"

definition show_null :: "int option \<Rightarrow> string" where
  "show_null x = (case x of None \<Rightarrow> ''null'' | Some n \<Rightarrow> show_int n)"

definition expected_lane_name :: "expected_lane \<Rightarrow> string" where
  "expected_lane_name x = (case x of
     X_protected \<Rightarrow> ''protected'' | X_control \<Rightarrow> ''control'' | X_pre_ingress \<Rightarrow> ''pre_ingress''
   | X_external \<Rightarrow> ''external'' | X_direct_boundary_rejected \<Rightarrow> ''direct_boundary_rejected''
   | X_direct_app_rejected \<Rightarrow> ''direct_app_rejected''
   | X_positive_control_boundary \<Rightarrow> ''positive_control_boundary''
   | X_positive_control_app \<Rightarrow> ''positive_control_app'')"

definition protected_like :: "lifecycle_view \<Rightarrow> bool" where
  "protected_like v \<longleftrightarrow> lv_expected v = X_protected \<or> lv_expected v = X_external"

definition previous_name :: "plane_event_kind option \<Rightarrow> string" where
  "previous_name p = (case p of None \<Rightarrow> ''START'' | Some k \<Rightarrow> plane_kind_name k)"

definition completions :: "lifecycle_view \<Rightarrow> harness_event list" where
  "completions v = filter (\<lambda>e. he_kind e = CLIENT_COMPLETED) (lv_harness v)"

definition harness_findings :: "lifecycle_view \<Rightarrow> bool \<Rightarrow> (anomaly_code \<times> string) list" where
  "harness_findings v final =
     (let sent = length (filter (\<lambda>e. he_kind e = SENT) (lv_harness v)); completed = completions v in
      if lv_expected v \<noteq> X_external then
        flag (sent \<noteq> 1 \<or> (case lv_harness v of [] \<Rightarrow> True | e # _ \<Rightarrow> he_kind e \<noteq> SENT))
          (duplicate_event, ''SENT'')
        @ flag (1 < length completed) (duplicate_terminal, ''CLIENT_COMPLETED'')
        @ flag (final \<and> completed = []) (sent_without_completion, ''CLIENT_COMPLETED'')
      else flag (lv_harness v \<noteq> [])
        (plane_event_on_unexpected_lane, ''harness event on an external request''))"

text \<open>The loop over the plane stream: the legal successor and the sequence number of every event.\<close>

fun plane_scan ::
  "(plane_event_kind option \<Rightarrow> plane_event_kind list) \<Rightarrow> plane_event_kind option
   \<Rightarrow> plane_event_kind set \<Rightarrow> int \<Rightarrow> plane_event list \<Rightarrow> (anomaly_code \<times> string) list" where
  "plane_scan nxt previous seen lastSeq [] = []"
| "plane_scan nxt previous seen lastSeq (e # es) =
     flag (pe_seq e \<le> lastSeq) (impossible_order, ''seq '' @ plane_kind_name (pe_kind e))
     @ flag (pe_kind e \<notin> set (nxt previous))
         (classifyViolation previous (pe_kind e) seen,
          previous_name previous @ ''>'' @ plane_kind_name (pe_kind e))
     @ plane_scan nxt (Some (pe_kind e)) (insert (pe_kind e) seen) (pe_seq e) es"

definition last_plane_kind :: "plane_event list \<Rightarrow> plane_event_kind option" where
  "last_plane_kind es = (if es = [] then None else Some (pe_kind (last es)))"

definition next_table :: "lifecycle_view \<Rightarrow> plane_event_kind option \<Rightarrow> plane_event_kind list" where
  "next_table v = (if lv_l2 v then NEXT_PLANE_KINDS_L2 else NEXT_PLANE_KINDS)"

definition plane_findings :: "lifecycle_view \<Rightarrow> bool \<Rightarrow> (anomaly_code \<times> string) list" where
  "plane_findings v final =
     (let plane = lv_plane v; previous = last_plane_kind plane; external = (lv_expected v = X_external) in
      if \<not> protected_like v then
        flag (plane \<noteq> []) (plane_event_on_unexpected_lane, expected_lane_name (lv_expected v))
      else
        plane_scan (next_table v) None {} (-1) plane
        @ (if final then
             if plane = [] then [(ingress_loss, ''no plane event'')]
             else if previous \<noteq> Some INGRESS_RESPONDED \<and> previous \<noteq> Some INGRESS_ABORTED then
               [(disappeared_after_ingress, previous_name previous),
                (unresolved_at_finalization, previous_name previous)]
             else []
           else [])
        @ flag (\<not> external \<and> list_ex pe_uncorrelated plane) (uncorrelated_ingress, ''minted nonce'')
        @ flag (external \<and> \<not> list_ex pe_external plane)
            (external_unclaimed_downstream, ''external lane without an external ingress marker'')
        @ flag (1 < length (filter is_verdict_event plane)) (duplicate_terminal, ''layer verdict''))"

definition received_events :: "lifecycle_view \<Rightarrow> origin_event list" where
  "received_events v = filter (\<lambda>e. oe_kind e = ORIGIN_RECEIVED) (lv_origin v)"

definition finished_events :: "lifecycle_view \<Rightarrow> origin_event list" where
  "finished_events v =
     filter (\<lambda>e. oe_kind e = ORIGIN_COMPLETED \<or> oe_kind e = ORIGIN_ABORTED) (lv_origin v)"

definition wanted_instance :: "lifecycle_view \<Rightarrow> lane option" where
  "wanted_instance v =
     (if protected_like v \<or> lv_expected v = X_positive_control_boundary
        \<or> lv_expected v = X_positive_control_app then Some Protected
      else if lv_expected v = X_control then Some Control else None)"

definition lane_name :: "lane \<Rightarrow> string" where
  "lane_name l = (case l of Control \<Rightarrow> ''control'' | Protected \<Rightarrow> ''protected'')"

definition origin_findings :: "lifecycle_view \<Rightarrow> (anomaly_code \<times> string) list" where
  "origin_findings v =
     (let received = received_events v; finished = finished_events v in
      flag (1 < length received) (duplicate_origin_processing, ''ORIGIN_RECEIVED'')
      @ flag (1 < length finished) (duplicate_terminal, ''origin completion'')
      @ flag (case lv_origin v of [] \<Rightarrow> False | e # _ \<Rightarrow> oe_kind e \<noteq> ORIGIN_RECEIVED)
          (impossible_order, ''origin completion before receipt'')
      @ (case List.find (\<lambda>e. wanted_instance v \<noteq> Some (oe_instance e)) (lv_origin v) of
           None \<Rightarrow> [] | Some e \<Rightarrow> [(origin_lane_mismatch, lane_name (oe_instance e))])
      @ flag (list_ex (\<lambda>e. (case oe_spoofed e of None \<Rightarrow> 0 | Some n \<Rightarrow> n) > 0) (lv_origin v))
          (origin_spoofed_header_seen, ''proxied''))"

definition view_outcome :: "lifecycle_view \<Rightarrow> terminal_outcome option" where
  "view_outcome v = (if lv_l2 v then terminalOutcomeL2 (lv_plane v) else terminalOutcome (lv_plane v))"

definition egress_findings :: "lifecycle_view \<Rightarrow> (anomaly_code \<times> string) list" where
  "egress_findings v =
     (let received = received_events v; finished = finished_events v;
          attempted = first_kind EGRESS_ATTEMPTED (lv_plane v) in
      (if received \<noteq> [] \<and> protected_like v then
         (case attempted of
            None \<Rightarrow> [(origin_without_l1_pass, ''origin received without EGRESS_ATTEMPTED'')]
          | Some a \<Rightarrow> flag (oe_hop (hd received) \<noteq> Some (pe_seq a))
              (origin_hop_mismatch, show_null (oe_hop (hd received))))
       else [])
      @ flag (received \<noteq> [] \<and> lv_expected v = X_pre_ingress)
          (origin_without_l1_pass, ''origin received a pre-ingress rejection'')
      @ (if lv_expected v = X_control then
           if received = [] then [(missing_transition, ''ORIGIN_RECEIVED'')]
           else flag (finished = []) (missing_transition, ''ORIGIN_COMPLETED'')
         else []))"

definition response_findings :: "lifecycle_view \<Rightarrow> (anomaly_code \<times> string) list" where
  "response_findings v =
     (let received = received_events v; finished = finished_events v;
          responseEvent = first_kind INGRESS_RESPONDED (lv_plane v);
          planeStatus = planeStatusFor v; outcome = view_outcome v in
      (case first_kind EGRESS_RESPONDED (lv_plane v) of
         None \<Rightarrow> []
       | Some responded \<Rightarrow>
           if received = [] then [(missing_transition, ''ORIGIN_RECEIVED'')]
           else if finished = [] then [(missing_transition, ''ORIGIN_COMPLETED'')]
           else flag (oe_kind (hd finished) = ORIGIN_COMPLETED
                  \<and> oe_status (hd finished) \<noteq> pe_status responded)
             (origin_status_mismatch, show_undef (oe_status (hd finished)) @ ''>''
                @ show_undef (pe_status responded)))
      @ (case (responseEvent, planeStatus) of
           (Some r, Some ps) \<Rightarrow> flag (pe_status r \<noteq> Some ps)
             (plane_status_mismatch, show_undef (pe_status r) @ ''!='' @ show_int ps)
         | _ \<Rightarrow> [])
      @ (case (completions v, responseEvent) of
           (client # _, Some r) \<Rightarrow>
             flag (he_result client = Some CResponse \<and> he_status client \<noteq> pe_status r)
               (client_status_mismatch, show_undef (he_status client) @ ''!='' @ show_undef (pe_status r))
         | _ \<Rightarrow> [])
      @ (case (completions v, outcome) of
           (client # _, Some oc) \<Rightarrow> (case he_outcomeHeader client of
               None \<Rightarrow> []
             | Some h \<Rightarrow> flag (he_result client = Some CResponse \<and> OUTCOME_HEADER_VALUE oc \<noteq> h)
                 (outcome_header_mismatch, h @ ''!='' @ OUTCOME_HEADER_VALUE oc))
         | _ \<Rightarrow> []))"

definition lifecycle_findings :: "lifecycle_view \<Rightarrow> bool \<Rightarrow> (anomaly_code \<times> string) list" where
  "lifecycle_findings v final =
     harness_findings v final @ plane_findings v final @ origin_findings v
     @ (if \<not> final then []
        else egress_findings v @ (if protected_like v then response_findings v else []))"

definition to_anomaly :: "string \<Rightarrow> anomaly_code \<times> string \<Rightarrow> anomaly" where
  "to_anomaly nonce cd = \<lparr>an_code = fst cd, an_nonce = Some nonce, an_detail = snd cd\<rparr>"

definition validateLifecycle :: "lifecycle_view \<Rightarrow> bool \<Rightarrow> anomaly list" where
  "validateLifecycle v final = map (to_anomaly (lv_nonce v)) (lifecycle_findings v final)"

subsection \<open>The plane stream is accepted exactly when it is a run of the table\<close>

interpretation plane: stream_checker pe_kind pe_seq nxt "plane_scan nxt" for nxt
  by unfold_locales auto

lemma NEXT_PLANE_KINDS_rank: "k \<in> set (NEXT_PLANE_KINDS (Some p)) \<Longrightarrow> RANK p < RANK k"
  by (cases p) auto

lemma NEXT_PLANE_KINDS_L2_rank: "k \<in> set (NEXT_PLANE_KINDS_L2 (Some p)) \<Longrightarrow> RANK p < RANK k"
  by (cases p) auto

lemma next_table_rank: "k \<in> set (next_table v (Some p)) \<Longrightarrow> RANK p < RANK k"
  unfolding next_table_def
  by (cases "lv_l2 v") (simp_all only: if_True if_False NEXT_PLANE_KINDS_rank NEXT_PLANE_KINDS_L2_rank)

abbreviation is_terminal_kind :: "plane_event_kind option \<Rightarrow> bool" where
  "is_terminal_kind p \<equiv> p = Some INGRESS_RESPONDED \<or> p = Some INGRESS_ABORTED"

lemma plane_findings_clean:
  assumes "plane_findings v True = []" "protected_like v"
  shows "plane_scan (next_table v) None {} (-1) (lv_plane v) = []"
    and "complete_path (next_table v) is_terminal_kind None (map pe_kind (lv_plane v))"
    and "length (filter is_verdict_event (lv_plane v)) \<le> 1"
proof -
  note clean = assms(1) [unfolded plane_findings_def Let_def]
  from clean assms(2) show scan: "plane_scan (next_table v) None {} (-1) (lv_plane v) = []"
    by simp
  from clean assms(2) show "length (filter is_verdict_event (lv_plane v)) \<le> 1" by simp
  from clean assms(2) have ne: "lv_plane v \<noteq> []" by (auto split: if_splits)
  from clean assms(2) ne have "is_terminal_kind (last_plane_kind (lv_plane v))"
    by (auto split: if_splits)
  with ne have fin: "is_terminal_kind (Some (last (map pe_kind (lv_plane v))))"
    by (simp add: last_plane_kind_def last_map)
  have "kinds_path (next_table v) None (map pe_kind (lv_plane v))"
    using scan by (simp add: plane.accepted_iff)
  with fin ne show "complete_path (next_table v) is_terminal_kind None (map pe_kind (lv_plane v))"
    by (simp add: complete_path_iff)
qed

text \<open>The language of the two automata: every complete run, written out.\<close>

definition terminal_runs :: "plane_event_kind list list" where
  "terminal_runs = [[INGRESS_RESPONDED], [INGRESS_ABORTED]]"

definition egress_runs :: "plane_event_kind list list \<Rightarrow> plane_event_kind list list \<Rightarrow> plane_event_kind list list" where
  "egress_runs responded failed =
     (let tails = map ((#) EGRESS_RESPONDED) responded @ map ((#) EGRESS_FAILED) failed
      in map ((#) EGRESS_ATTEMPTED) (tails @ map ((#) PROOF_ISSUED) tails))"

definition PLANE_RUNS :: "plane_event_kind list list" where
  "PLANE_RUNS = map (\<lambda>r. INGRESS_ACCEPTED # L1_ENTERED # r)
     (map ((#) L1_PASSED) (egress_runs terminal_runs terminal_runs)
      @ map ((#) L1_REJECTED) terminal_runs @ map ((#) L1_SHED) terminal_runs
      @ map ((#) L1_ERROR) terminal_runs)"

definition PLANE_RUNS_L2 :: "plane_event_kind list list" where
  "PLANE_RUNS_L2 = map (\<lambda>r. INGRESS_ACCEPTED # L1_ENTERED # r)
     (map (\<lambda>r. L1_PASSED # L2_ENTERED # L2_DECIDED # r)
        (egress_runs
           (map ((#) L2_ENROLLED) terminal_runs @ map ((#) L2_ENROLL_SKIPPED) terminal_runs @ terminal_runs)
           (map ((#) L2_ENROLL_SKIPPED) terminal_runs @ terminal_runs)
         @ terminal_runs)
      @ map ((#) L1_REJECTED) terminal_runs @ map ((#) L1_SHED) terminal_runs
      @ map ((#) L1_ERROR) terminal_runs)"

lemma complete_path_step:
  "\<not> fin p \<Longrightarrow> complete_path nxt fin p ks \<longleftrightarrow>
     (\<exists>k \<in> set (nxt p). \<exists>r. ks = k # r \<and> complete_path nxt fin (Some k) r)"
  by (cases ks) auto

lemma complete_path_stop:
  "fin p \<Longrightarrow> nxt p = [] \<Longrightarrow> complete_path nxt fin p ks \<longleftrightarrow> ks = []"
  by (cases ks) auto

lemma complete_plane_path_iff:
  "complete_path NEXT_PLANE_KINDS is_terminal_kind None ks \<longleftrightarrow> ks \<in> set PLANE_RUNS"
  by (auto simp: complete_path_step complete_path_stop PLANE_RUNS_def egress_runs_def
      terminal_runs_def Let_def)

lemma complete_plane_path_L2_iff:
  "complete_path NEXT_PLANE_KINDS_L2 is_terminal_kind None ks \<longleftrightarrow> ks \<in> set PLANE_RUNS_L2"
  by (auto simp: complete_path_step complete_path_stop PLANE_RUNS_L2_def egress_runs_def
      terminal_runs_def Let_def)

subsection \<open>What a lifecycle without anomalies guarantees\<close>

definition view_runs :: "lifecycle_view \<Rightarrow> plane_event_kind list list" where
  "view_runs v = (if lv_l2 v then PLANE_RUNS_L2 else PLANE_RUNS)"

lemmas run_defs = view_runs_def PLANE_RUNS_def PLANE_RUNS_L2_def egress_runs_def terminal_runs_def

lemma complete_view_path_iff:
  "complete_path (next_table v) is_terminal_kind None ks \<longleftrightarrow> ks \<in> set (view_runs v)"
  by (simp add: next_table_def view_runs_def complete_plane_path_iff complete_plane_path_L2_iff)

lemma validate_clean_iff: "validateLifecycle v final = [] \<longleftrightarrow> lifecycle_findings v final = []"
  by (simp add: validateLifecycle_def)

lemma lifecycle_findings_cleanD:
  assumes "validateLifecycle v True = []"
  shows "harness_findings v True = []" "plane_findings v True = []" "origin_findings v = []"
    "egress_findings v = []" "protected_like v \<Longrightarrow> response_findings v = []"
  using assms by (auto simp: validate_clean_iff lifecycle_findings_def)

lemma runs_nonempty: "ks \<in> set (view_runs v) \<Longrightarrow> ks \<noteq> []"
  by (cases "lv_l2 v") (auto simp: view_runs_def PLANE_RUNS_def PLANE_RUNS_L2_def)

lemma runs_one_verdict:
  "ks \<in> set (view_runs v) \<Longrightarrow> length (filter (\<lambda>k. k \<in> set LAYER_VERDICT_KINDS) ks) = 1"
  by (cases "lv_l2 v") (auto simp: run_defs Let_def LAYER_VERDICT_KINDS_def)

lemma runs_refused_no_egress:
  "ks \<in> set (view_runs v) \<Longrightarrow> {L1_REJECTED, L1_SHED, L1_ERROR} \<inter> set ks \<noteq> {} \<Longrightarrow>
     EGRESS_ATTEMPTED \<notin> set ks \<and> L2_DECIDED \<notin> set ks \<and> L1_PASSED \<notin> set ks"
  by (cases "lv_l2 v") (auto simp: run_defs Let_def)

lemma runs_egress_needs_pass:
  "ks \<in> set (view_runs v) \<Longrightarrow> EGRESS_ATTEMPTED \<in> set ks \<Longrightarrow>
     L1_PASSED \<in> set ks \<and> (lv_l2 v \<longrightarrow> L2_DECIDED \<in> set ks)"
  by (cases "lv_l2 v") (auto simp: run_defs Let_def)

lemma runs_responded_attempted:
  "ks \<in> set (view_runs v) \<Longrightarrow> EGRESS_RESPONDED \<in> set ks \<Longrightarrow>
     EGRESS_ATTEMPTED \<in> set ks \<and> EGRESS_FAILED \<notin> set ks"
  by (cases "lv_l2 v") (auto simp: run_defs Let_def)

lemma runs_entered: "ks \<in> set (view_runs v) \<Longrightarrow> L1_ENTERED \<in> set ks"
  by (cases "lv_l2 v") (auto simp: run_defs Let_def)

lemma runs_decided_passed:
  "ks \<in> set (view_runs v) \<Longrightarrow> L2_DECIDED \<in> set ks \<Longrightarrow> L1_PASSED \<in> set ks"
  by (cases "lv_l2 v") (auto simp: run_defs Let_def)

lemma has_kind_iff: "has_kind k es \<longleftrightarrow> k \<in> set (map pe_kind es)"
  by (auto simp: list_ex_iff)

lemma filter_verdict_map:
  "length (filter is_verdict_event es) = length (filter (\<lambda>k. k \<in> set LAYER_VERDICT_KINDS) (map pe_kind es))"
  by (simp add: filter_map o_def)

definition outcome_of_kinds :: "plane_event_kind list \<Rightarrow> terminal_outcome option" where
  "outcome_of_kinds ks =
     (if INGRESS_ABORTED \<in> set ks then Some T_client_aborted
      else if INGRESS_RESPONDED \<notin> set ks then None
      else if L1_REJECTED \<in> set ks then Some T_rejected
      else if L1_SHED \<in> set ks then Some T_shed
      else if L1_ERROR \<in> set ks then Some T_error
      else if EGRESS_FAILED \<in> set ks then Some T_egress_failed
      else if EGRESS_RESPONDED \<in> set ks then Some T_proxied
      else None)"

lemma terminalOutcome_kinds: "terminalOutcome plane = outcome_of_kinds (map pe_kind plane)"
  by (simp only: terminalOutcome_def outcome_of_kinds_def has_kind_iff)

lemma runs_outcome_without_decision:
  assumes "ks \<in> set (view_runs v)" "lv_l2 v \<longrightarrow> L2_DECIDED \<notin> set ks"
  shows "\<exists>oc. outcome_of_kinds ks = Some oc"
  using assms
  by (cases "lv_l2 v") (auto simp: run_defs Let_def outcome_of_kinds_def)

lemma runs_outcome_with_decision:
  assumes "ks \<in> set (view_runs v)" "lv_l2 v" "L2_DECIDED \<in> set ks"
  shows "INGRESS_ABORTED \<in> set ks \<or> EGRESS_ATTEMPTED \<in> set ks \<Longrightarrow>
       \<exists>oc. outcome_of_kinds ks = Some oc"
    and "INGRESS_ABORTED \<notin> set ks \<Longrightarrow> INGRESS_RESPONDED \<in> set ks"
    and "INGRESS_RESPONDED \<in> set ks \<Longrightarrow> INGRESS_ABORTED \<notin> set ks"
  using assms by (auto simp: run_defs Let_def outcome_of_kinds_def)

lemma clean_run:
  assumes "validateLifecycle v True = []" "protected_like v"
  shows "map pe_kind (lv_plane v) \<in> set (view_runs v)"
  using plane_findings_clean(2) [OF lifecycle_findings_cleanD(2) [OF assms(1)] assms(2)]
  by (simp add: complete_view_path_iff)

lemma clean_first_kind:
  assumes "validateLifecycle v True = []" "protected_like v" "e \<in> set (lv_plane v)"
  shows "first_kind (pe_kind e) (lv_plane v) = Some e"
proof -
  have scan: "plane_scan (next_table v) None {} (-1) (lv_plane v) = []"
    using plane_findings_clean(1) [OF lifecycle_findings_cleanD(2) [OF assms(1)] assms(2)] .
  have "distinct (map pe_kind (lv_plane v))"
    by (rule plane.accepted_distinct_kinds [OF scan next_table_rank])
  with assms(3) show ?thesis
  proof (induction "lv_plane v" arbitrary: v)
    case Nil
    then show ?case by simp
  next
    case (Cons x xs)
    from Cons.hyps(2) [symmetric] Cons.prems
      Cons.hyps(1) [of "v\<lparr>lv_plane := xs\<rparr>"] show ?case
      by auto
  qed
qed

lemma clean_verdict:
  assumes "validateLifecycle v True = []" "protected_like v" "e \<in> set (lv_plane v)" "is_verdict_event e"
  shows "List.find is_verdict_event (lv_plane v) = Some e"
  using assms(3,4) plane_findings_clean(3) [OF lifecycle_findings_cleanD(2) [OF assms(1)] assms(2)]
  by (rule find_unique)

lemma clean_origin_starts_received:
  assumes "origin_findings v = []" "lv_origin v \<noteq> []"
  shows "received_events v \<noteq> []"
  using assms by (cases "lv_origin v") (auto simp: origin_findings_def Let_def received_events_def)

lemma clean_status:
  assumes "validateLifecycle v True = []" "protected_like v"
    and "first_kind INGRESS_RESPONDED (lv_plane v) = Some r" "planeStatusFor v = Some st"
  shows "pe_status r = Some st"
  using lifecycle_findings_cleanD(5) [OF assms(1,2)] assms(3,4)
  by (simp add: response_findings_def Let_def)

definition refusal_status :: "plane_event \<Rightarrow> int option" where
  "refusal_status e =
     (if pe_kind e = L1_REJECTED then map_option REJECT_STATUS (pe_reason e) else Some 503)"


lemma refused_is_verdict:
  "pe_kind e \<in> {L1_REJECTED, L1_SHED, L1_ERROR} \<Longrightarrow> is_verdict_event e"
  by (auto simp: LAYER_VERDICT_KINDS_def)

lemma clean_refusal_planeStatus:
  assumes "validateLifecycle v True = []" "protected_like v"
    and "e \<in> set (lv_plane v)" "pe_kind e \<in> {L1_REJECTED, L1_SHED, L1_ERROR}"
  shows "planeStatusFor v = refusal_status e"
  using clean_verdict [OF assms(1-3) refused_is_verdict [OF assms(4)]] assms(4)
  by (auto simp: planeStatusFor_def refusal_status_def)

lemma clean_received_attempted:
  assumes "validateLifecycle v True = []" "protected_like v" "received_events v \<noteq> []"
  shows "\<exists>a. first_kind EGRESS_ATTEMPTED (lv_plane v) = Some a
           \<and> oe_hop (hd (received_events v)) = Some (pe_seq a)"
  using lifecycle_findings_cleanD(4) [OF assms(1)] assms(2,3)
  by (auto simp: egress_findings_def Let_def split: option.splits)

lemma clean_no_egress_no_origin:
  assumes "validateLifecycle v True = []" "protected_like v" "\<not> has_kind EGRESS_ATTEMPTED (lv_plane v)"
  shows "lv_origin v = []"
proof (rule ccontr)
  assume "lv_origin v \<noteq> []"
  then have "received_events v \<noteq> []"
    by (rule clean_origin_starts_received [OF lifecycle_findings_cleanD(3) [OF assms(1)]])
  from clean_received_attempted [OF assms(1,2) this] assms(3) show False
    by (auto dest: find_SomeD simp: list_ex_iff)
qed

lemma clean_received_le_one:
  assumes "validateLifecycle v True = []"
  shows "length (received_events v) \<le> 1"
  using lifecycle_findings_cleanD(3) [OF assms] by (simp add: origin_findings_def Let_def)

subsection \<open>Properties\<close>

text \<open>The plane stream check of \<^verbatim>\<open>validateLifecycle\<close> accepts a finished lifecycle exactly when
  its kinds are one of the listed complete runs, its sequence numbers increase, and the correlation
  markers fit the lane: the validator is neither weaker nor stronger than the written-out language.\<close>

theorem plane_findings_accepts_iff:
  assumes "protected_like v"
  shows "plane_findings v True = [] \<longleftrightarrow>
     map pe_kind (lv_plane v) \<in> set (view_runs v)
     \<and> sorted_wrt (<) (-1 # map pe_seq (lv_plane v))
     \<and> (if lv_expected v = X_external then list_ex pe_external (lv_plane v)
        else \<not> list_ex pe_uncorrelated (lv_plane v))" (is "?L \<longleftrightarrow> ?R")
proof
  assume L: ?L
  note clean = plane_findings_clean [OF L assms]
  from clean(1) have "sorted_wrt (<) (-1 # map pe_seq (lv_plane v))" by (simp add: plane.accepted_iff)
  with clean(2) L assms show ?R
    by (auto simp: complete_view_path_iff plane_findings_def Let_def)
next
  assume R: ?R
  then have path: "complete_path (next_table v) is_terminal_kind None (map pe_kind (lv_plane v))"
    by (simp add: complete_view_path_iff)
  from R have ne: "lv_plane v \<noteq> []" using runs_nonempty by fastforce
  have "plane_scan (next_table v) None {} (-1) (lv_plane v) = []"
    using R path by (simp add: plane.accepted_iff complete_path_iff)
  moreover have "is_terminal_kind (last_plane_kind (lv_plane v))"
    using path ne by (simp add: complete_path_iff last_plane_kind_def last_map)
  moreover have "length (filter is_verdict_event (lv_plane v)) = 1"
    unfolding filter_verdict_map using R by (blast intro: runs_one_verdict)
  ultimately show ?L
    using R ne assms by (auto simp: plane_findings_def Let_def)
qed

text \<open>A finished lifecycle without anomalies fails closed: when the first layer rejected, shed or
  failed, nothing was forwarded, the origin saw nothing, and the client answer carries the status of
  that refusal.\<close>

theorem clean_lifecycle_fails_closed:
  assumes "validateLifecycle v True = []" "protected_like v"
    and "e \<in> set (lv_plane v)" "pe_kind e \<in> {L1_REJECTED, L1_SHED, L1_ERROR}"
    and "pe_kind e = L1_REJECTED \<Longrightarrow> pe_reason e \<noteq> None"
  shows "\<not> has_kind EGRESS_ATTEMPTED (lv_plane v)
    \<and> lv_origin v = []
    \<and> (\<forall>r. first_kind INGRESS_RESPONDED (lv_plane v) = Some r \<longrightarrow> pe_status r = refusal_status e)"
proof -
  have "{L1_REJECTED, L1_SHED, L1_ERROR} \<inter> set (map pe_kind (lv_plane v)) \<noteq> {}"
    using assms(3,4) by (metis disjoint_iff image_eqI list.set_map)
  then have noeg: "\<not> has_kind EGRESS_ATTEMPTED (lv_plane v)"
    using runs_refused_no_egress [OF clean_run [OF assms(1,2)]] by (simp add: has_kind_iff)
  have ps: "planeStatusFor v = refusal_status e"
    by (rule clean_refusal_planeStatus [OF assms(1-4)])
  have "refusal_status e \<noteq> None" using assms(5) by (simp add: refusal_status_def)
  then have "pe_status r = refusal_status e"
    if "first_kind INGRESS_RESPONDED (lv_plane v) = Some r" for r
    using clean_status [OF assms(1,2) that] ps by auto
  with noeg clean_no_egress_no_origin [OF assms(1,2) noeg] show ?thesis by blast
qed

text \<open>A finished lifecycle without anomalies that reports an egress response is a single delivery:
  the egress was attempted after a layer pass (and, with the second layer on, after its decision), the
  origin received the request exactly once with the hop number of that attempt, and the status the
  origin completed with is the status the plane relayed to the client.\<close>

theorem clean_lifecycle_single_delivery:
  assumes "validateLifecycle v True = []" "protected_like v"
    and "first_kind EGRESS_RESPONDED (lv_plane v) = Some resp"
  shows "\<exists>a rc. first_kind EGRESS_ATTEMPTED (lv_plane v) = Some a
    \<and> received_events v = [rc] \<and> oe_hop rc = Some (pe_seq a)
    \<and> has_kind L1_PASSED (lv_plane v) \<and> (lv_l2 v \<longrightarrow> has_kind L2_DECIDED (lv_plane v))
    \<and> finished_events v \<noteq> []
    \<and> (oe_kind (hd (finished_events v)) = ORIGIN_COMPLETED \<longrightarrow>
         oe_status (hd (finished_events v)) = pe_status resp)"
proof -
  have resp: "response_findings v = []" by (rule lifecycle_findings_cleanD(5) [OF assms(1,2)])
  have rc: "received_events v \<noteq> []" and fin: "finished_events v \<noteq> []"
    and st: "oe_kind (hd (finished_events v)) = ORIGIN_COMPLETED \<Longrightarrow>
         oe_status (hd (finished_events v)) = pe_status resp"
    using resp assms(3) by (auto simp: response_findings_def Let_def split: if_splits)
  from rc clean_received_le_one [OF assms(1)] obtain r where r: "received_events v = [r]"
    by (cases "received_events v") auto
  from clean_received_attempted [OF assms(1,2) rc] obtain a
    where a: "first_kind EGRESS_ATTEMPTED (lv_plane v) = Some a" "oe_hop r = Some (pe_seq a)"
    using r by auto
  from a(1) have "EGRESS_ATTEMPTED \<in> set (map pe_kind (lv_plane v))"
    by (force dest: find_SomeD)
  from runs_egress_needs_pass [OF clean_run [OF assms(1,2)] this]
  show ?thesis using a r fin st by (auto simp: has_kind_iff)
qed

subsection \<open>Witnesses\<close>

definition sample_rejected :: lifecycle_view where
  "sample_rejected = \<lparr>lv_nonce = ''n1'', lv_expected = X_protected,
     lv_harness = [\<lparr>he_kind = SENT, he_result = None, he_status = None, he_outcomeHeader = None\<rparr>,
       \<lparr>he_kind = CLIENT_COMPLETED, he_result = Some CResponse, he_status = Some 405,
        he_outcomeHeader = Some ''rejected''\<rparr>],
     lv_plane = [plane_ev 0 INGRESS_ACCEPTED, plane_ev 1 L1_ENTERED,
       (plane_ev 2 L1_REJECTED)\<lparr>pe_reason := Some a7_method_not_allowed\<rparr>,
       (plane_ev 3 INGRESS_RESPONDED)\<lparr>pe_status := Some 405\<rparr>],
     lv_origin = [], lv_boundary = None, lv_app = None, lv_l2 = False\<rparr>"

definition sample_delivered :: lifecycle_view where
  "sample_delivered = \<lparr>lv_nonce = ''n2'', lv_expected = X_protected,
     lv_harness = [\<lparr>he_kind = SENT, he_result = None, he_status = None, he_outcomeHeader = None\<rparr>,
       \<lparr>he_kind = CLIENT_COMPLETED, he_result = Some CResponse, he_status = Some 200,
        he_outcomeHeader = Some ''proxied''\<rparr>],
     lv_plane = [plane_ev 0 INGRESS_ACCEPTED, plane_ev 1 L1_ENTERED, plane_ev 2 L1_PASSED,
       plane_ev 3 EGRESS_ATTEMPTED, (plane_ev 4 EGRESS_RESPONDED)\<lparr>pe_status := Some 200\<rparr>,
       (plane_ev 5 INGRESS_RESPONDED)\<lparr>pe_status := Some 200\<rparr>],
     lv_origin =
       [\<lparr>oe_instance = Protected, oe_nonce = Some ''n2'', oe_kind = ORIGIN_RECEIVED, oe_hop = Some 3,
         oe_status = None, oe_spoofed = None\<rparr>,
        \<lparr>oe_instance = Protected, oe_nonce = Some ''n2'', oe_kind = ORIGIN_COMPLETED, oe_hop = Some 3,
         oe_status = Some 200, oe_spoofed = None\<rparr>],
     lv_boundary = None, lv_app = None, lv_l2 = False\<rparr>"

lemma sample_rejected_clean: "validateLifecycle sample_rejected True = []"
  by code_simp

lemma sample_delivered_clean: "validateLifecycle sample_delivered True = []"
  by code_simp

theorem plane_findings_accepts_iff_witness:
  "protected_like sample_delivered
   \<and> map pe_kind (lv_plane sample_delivered) \<in> set (view_runs sample_delivered)"
proof -
  have prot: "protected_like sample_delivered" by (simp add: protected_like_def sample_delivered_def)
  have "plane_findings sample_delivered True = []" by code_simp
  with plane_findings_accepts_iff [OF prot] prot show ?thesis by blast
qed

theorem clean_lifecycle_fails_closed_witness:
  "lv_origin sample_rejected = [] \<and> \<not> has_kind EGRESS_ATTEMPTED (lv_plane sample_rejected)"
proof -
  let ?e = "(plane_ev 2 L1_REJECTED)\<lparr>pe_reason := Some a7_method_not_allowed\<rparr>"
  have "protected_like sample_rejected" by (simp add: protected_like_def sample_rejected_def)
  from clean_lifecycle_fails_closed [OF sample_rejected_clean this, of ?e]
  show ?thesis by (simp add: sample_rejected_def plane_ev_def)
qed

theorem clean_lifecycle_single_delivery_witness:
  "\<exists>rc. received_events sample_delivered = [rc] \<and> oe_hop rc = Some 3"
proof -
  let ?r = "(plane_ev 4 EGRESS_RESPONDED)\<lparr>pe_status := Some 200\<rparr>"
  have p: "protected_like sample_delivered" by (simp add: protected_like_def sample_delivered_def)
  have a: "first_kind EGRESS_ATTEMPTED (lv_plane sample_delivered) = Some (plane_ev 3 EGRESS_ATTEMPTED)"
    by (simp add: sample_delivered_def plane_ev_def)
  have "first_kind EGRESS_RESPONDED (lv_plane sample_delivered) = Some ?r"
    by (simp add: sample_delivered_def plane_ev_def)
  from clean_lifecycle_single_delivery [OF sample_delivered_clean p this] a
  show ?thesis by (auto simp: plane_ev_def)
qed

end
