(* ===== verification/Lineage.thy ===== *)
theory Lineage
  imports Ledger
begin

text \<open>
  Lineage validation of \<^verbatim>\<open>defense/core/lineage.ts\<close>: the generic \<^verbatim>\<open>automaton\<close> that checks the
  boundary and app streams, \<^verbatim>\<open>protectedLineageComplete\<close>, and \<^verbatim>\<open>validateOriginLineage\<close> with its
  groups of rules (streams, refused lanes, chain start, application admission, final rules). The lemmas
  show that no application execution or mutation of a protected request goes unreported unless the whole
  authenticated chain is present with agreeing identifiers.
\<close>

primrec BOUNDARY_RANK :: "boundary_event_kind \<Rightarrow> nat" where
  "BOUNDARY_RANK BOUNDARY_ARRIVED = 1"
| "BOUNDARY_RANK BOUNDARY_REJECTED = 2"
| "BOUNDARY_RANK BOUNDARY_ADMITTED = 2"
| "BOUNDARY_RANK APP_PROOF_ISSUED = 3"
| "BOUNDARY_RANK BOUNDARY_FORWARDED = 4"
| "BOUNDARY_RANK BOUNDARY_FORWARD_RESPONDED = 5"
| "BOUNDARY_RANK BOUNDARY_FORWARD_FAILED = 5"
| "BOUNDARY_RANK BOUNDARY_RESPONDED = 6"
| "BOUNDARY_RANK BOUNDARY_ABORTED = 6"
| "BOUNDARY_RANK BOUNDARY_PARSER_REJECTED = 0"
| "BOUNDARY_RANK BOUNDARY_PROTOCOL_REFUSED = 0"

primrec APP_RANK :: "app_event_kind \<Rightarrow> nat" where
  "APP_RANK APP_ADMITTED = 1"
| "APP_RANK APP_REFUSED = 1"
| "APP_RANK APP_EXECUTED = 2"
| "APP_RANK APP_MUTATED = 3"
| "APP_RANK APP_COMPLETED = 4"
| "APP_RANK APP_ABORTED = 4"

primrec boundary_kind_name :: "boundary_event_kind \<Rightarrow> string" where
  "boundary_kind_name BOUNDARY_ARRIVED = ''BOUNDARY_ARRIVED''"
| "boundary_kind_name BOUNDARY_REJECTED = ''BOUNDARY_REJECTED''"
| "boundary_kind_name BOUNDARY_ADMITTED = ''BOUNDARY_ADMITTED''"
| "boundary_kind_name APP_PROOF_ISSUED = ''APP_PROOF_ISSUED''"
| "boundary_kind_name BOUNDARY_FORWARDED = ''BOUNDARY_FORWARDED''"
| "boundary_kind_name BOUNDARY_FORWARD_RESPONDED = ''BOUNDARY_FORWARD_RESPONDED''"
| "boundary_kind_name BOUNDARY_FORWARD_FAILED = ''BOUNDARY_FORWARD_FAILED''"
| "boundary_kind_name BOUNDARY_RESPONDED = ''BOUNDARY_RESPONDED''"
| "boundary_kind_name BOUNDARY_ABORTED = ''BOUNDARY_ABORTED''"
| "boundary_kind_name BOUNDARY_PARSER_REJECTED = ''BOUNDARY_PARSER_REJECTED''"
| "boundary_kind_name BOUNDARY_PROTOCOL_REFUSED = ''BOUNDARY_PROTOCOL_REFUSED''"

primrec app_kind_name :: "app_event_kind \<Rightarrow> string" where
  "app_kind_name APP_ADMITTED = ''APP_ADMITTED''"
| "app_kind_name APP_REFUSED = ''APP_REFUSED''"
| "app_kind_name APP_EXECUTED = ''APP_EXECUTED''"
| "app_kind_name APP_MUTATED = ''APP_MUTATED''"
| "app_kind_name APP_COMPLETED = ''APP_COMPLETED''"
| "app_kind_name APP_ABORTED = ''APP_ABORTED''"

text \<open>The generic \<^verbatim>\<open>automaton(events, next, rank, add)\<close>: its loop variables are the arguments, the
  projections of the two event fields it reads come first.\<close>

definition transition_name :: "('k \<Rightarrow> string) \<Rightarrow> 'k option \<Rightarrow> 'k \<Rightarrow> string" where
  "transition_name name previous k =
     (case previous of None \<Rightarrow> ''START'' | Some p \<Rightarrow> name p) @ ''>'' @ name k"

definition automaton_violation ::
  "('k option \<Rightarrow> 'k list) \<Rightarrow> ('k \<Rightarrow> nat) \<Rightarrow> 'k option \<Rightarrow> 'k set \<Rightarrow> 'k \<Rightarrow> anomaly_code" where
  "automaton_violation nxt rank previous seen k =
     (if previous \<noteq> None \<and> nxt previous = [] then duplicate_terminal
      else if k \<in> seen then duplicate_event
      else if rank k \<le> (case previous of None \<Rightarrow> 0 | Some p \<Rightarrow> rank p) then impossible_order
      else missing_transition)"

fun automaton ::
  "('e \<Rightarrow> 'k) \<Rightarrow> ('e \<Rightarrow> int) \<Rightarrow> ('k \<Rightarrow> string) \<Rightarrow> ('k option \<Rightarrow> 'k list) \<Rightarrow> ('k \<Rightarrow> nat)
   \<Rightarrow> 'k option \<Rightarrow> 'k set \<Rightarrow> int \<Rightarrow> 'e list \<Rightarrow> (anomaly_code \<times> string) list" where
  "automaton kind seq name nxt rank previous seen lastSeq [] = []"
| "automaton kind seq name nxt rank previous seen lastSeq (e # es) =
     flag (seq e \<le> lastSeq) (impossible_order, ''seq '' @ name (kind e))
     @ flag (kind e \<notin> set (nxt previous))
         (automaton_violation nxt rank previous seen (kind e), transition_name name previous (kind e))
     @ automaton kind seq name nxt rank (Some (kind e)) (insert (kind e) seen) (seq e) es"

abbreviation boundary_automaton where
  "boundary_automaton \<equiv> automaton be_kind be_seq boundary_kind_name NEXT_BOUNDARY_KINDS BOUNDARY_RANK"

abbreviation app_automaton where
  "app_automaton \<equiv> automaton ae_kind ae_seq app_kind_name NEXT_APP_KINDS APP_RANK"

definition boundary_of :: "lifecycle_view \<Rightarrow> boundary_event list" where
  "boundary_of v = (case lv_boundary v of None \<Rightarrow> [] | Some bs \<Rightarrow> bs)"

definition app_of :: "lifecycle_view \<Rightarrow> app_event list" where
  "app_of v = (case lv_app v of None \<Rightarrow> [] | Some as \<Rightarrow> as)"

abbreviation b_first :: "lifecycle_view \<Rightarrow> boundary_event_kind \<Rightarrow> boundary_event option" where
  "b_first v k \<equiv> List.find (\<lambda>e. be_kind e = k) (boundary_of v)"

abbreviation a_first :: "lifecycle_view \<Rightarrow> app_event_kind \<Rightarrow> app_event option" where
  "a_first v k \<equiv> List.find (\<lambda>e. ae_kind e = k) (app_of v)"

abbreviation p_first :: "lifecycle_view \<Rightarrow> plane_event_kind \<Rightarrow> plane_event option" where
  "p_first v k \<equiv> first_kind k (lv_plane v)"

definition mutations_of :: "lifecycle_view \<Rightarrow> app_event list" where
  "mutations_of v = filter (\<lambda>e. ae_kind e = APP_MUTATED) (app_of v)"

definition protectedLineageComplete :: "lifecycle_view \<Rightarrow> bool" where
  "protectedLineageComplete v =
     (case (p_first v EGRESS_ATTEMPTED, p_first v PROOF_ISSUED, b_first v BOUNDARY_ADMITTED,
            b_first v APP_PROOF_ISSUED, a_first v APP_ADMITTED) of
        (Some attempted, Some issuedPb, Some admitted, Some issuedBa, Some appAdmitted) \<Rightarrow>
          pe_pbTag issuedPb \<noteq> None \<and> be_baTag issuedBa \<noteq> None
          \<and> be_hop admitted = Some (pe_seq attempted) \<and> be_pbTag admitted = pe_pbTag issuedPb
          \<and> be_hop issuedBa = Some (pe_seq attempted) \<and> be_pbTag issuedBa = pe_pbTag issuedPb
          \<and> ae_hop appAdmitted = Some (pe_seq attempted) \<and> ae_pbTag appAdmitted = pe_pbTag issuedPb
          \<and> ae_baTag appAdmitted = be_baTag issuedBa
      | _ \<Rightarrow> False)"

subsection \<open>validateOriginLineage\<close>

definition stream_findings :: "lifecycle_view \<Rightarrow> (anomaly_code \<times> string) list" where
  "stream_findings v =
     boundary_automaton None {} (-1) (boundary_of v)
     @ app_automaton None {} (-1) (app_of v)
     @ flag (1 < length (mutations_of v)) (duplicate_event, ''APP_MUTATED'')"

definition direct_findings :: "lifecycle_view \<Rightarrow> (anomaly_code \<times> string) list" where
  "direct_findings v =
     flag (lv_expected v = X_direct_app_rejected \<and> boundary_of v \<noteq> [])
       (boundary_lane_mismatch, expected_lane_name (lv_expected v))
     @ flag (b_first v BOUNDARY_ADMITTED \<noteq> None \<or> b_first v APP_PROOF_ISSUED \<noteq> None)
         (direct_not_rejected, ''boundary admitted a direct attempt'')
     @ flag (a_first v APP_ADMITTED \<noteq> None \<or> a_first v APP_EXECUTED \<noteq> None \<or> a_first v APP_COMPLETED \<noteq> None)
         (direct_app_execution, ''application admitted or executed a direct attempt'')
     @ flag (mutations_of v \<noteq> [])
         (direct_app_mutation, ''application mutated state for a direct attempt'')"

definition hops_of :: "lifecycle_view \<Rightarrow> int list" where
  "hops_of v = List.map_filter be_hop (boundary_of v) @ List.map_filter ae_hop (app_of v)"

primrec ob_reason_name :: "ob_reason \<Rightarrow> string" where
  "ob_reason_name ob_proof_missing = ''ob.proof_missing''"
| "ob_reason_name ob_proof_duplicate = ''ob.proof_duplicate''"
| "ob_reason_name ob_proof_oversize = ''ob.proof_oversize''"
| "ob_reason_name ob_proof_malformed = ''ob.proof_malformed''"
| "ob_reason_name ob_wrong_hop = ''ob.wrong_hop''"
| "ob_reason_name ob_version_unsupported = ''ob.version_unsupported''"
| "ob_reason_name ob_key_unknown = ''ob.key_unknown''"
| "ob_reason_name ob_audience_mismatch = ''ob.audience_mismatch''"
| "ob_reason_name ob_lifetime_invalid = ''ob.lifetime_invalid''"
| "ob_reason_name ob_not_yet_valid = ''ob.not_yet_valid''"
| "ob_reason_name ob_expired = ''ob.expired''"
| "ob_reason_name ob_before_fence = ''ob.before_fence''"
| "ob_reason_name ob_method_mismatch = ''ob.method_mismatch''"
| "ob_reason_name ob_target_mismatch = ''ob.target_mismatch''"
| "ob_reason_name ob_header_unbound = ''ob.header_unbound''"
| "ob_reason_name ob_header_duplicate = ''ob.header_duplicate''"
| "ob_reason_name ob_header_value_invalid = ''ob.header_value_invalid''"
| "ob_reason_name ob_header_mismatch = ''ob.header_mismatch''"
| "ob_reason_name ob_length_mismatch = ''ob.length_mismatch''"
| "ob_reason_name ob_framing_invalid = ''ob.framing_invalid''"
| "ob_reason_name ob_signature_invalid = ''ob.signature_invalid''"
| "ob_reason_name ob_lineage_missing = ''ob.lineage_missing''"
| "ob_reason_name ob_lineage_mismatch = ''ob.lineage_mismatch''"
| "ob_reason_name ob_replayed = ''ob.replayed''"
| "ob_reason_name ob_replay_cache_full = ''ob.replay_cache_full''"
| "ob_reason_name ob_digest_mismatch = ''ob.digest_mismatch''"
| "ob_reason_name ob_content_incomplete = ''ob.content_incomplete''"
| "ob_reason_name ob_expect_refused = ''ob.expect_refused''"
| "ob_reason_name ob_canon_error = ''ob.canon_error''"

definition ob_reason_or_unknown :: "ob_reason option \<Rightarrow> string" where
  "ob_reason_or_unknown r = (case r of None \<Rightarrow> ''unknown'' | Some x \<Rightarrow> ob_reason_name x)"

definition chain_start_findings :: "lifecycle_view \<Rightarrow> bool \<Rightarrow> (anomaly_code \<times> string) list" where
  "chain_start_findings v final =
     (let attempted = p_first v EGRESS_ATTEMPTED; issuedPb = p_first v PROOF_ISSUED;
          admitted = b_first v BOUNDARY_ADMITTED in
      if lv_expected v = X_protected then
        flag (list_ex (\<lambda>hop. hop \<ge> ORACLE_HOP_BASE) (hops_of v))
          (hop_range_violation, ''oracle-range hop in a protected lane'')
        @ flag (final \<and> attempted \<noteq> None \<and> issuedPb = None \<and> p_first v EGRESS_FAILED = None)
            (missing_transition, ''PROOF_ISSUED'')
        @ (case b_first v BOUNDARY_REJECTED of
             None \<Rightarrow> []
           | Some r \<Rightarrow> [(boundary_rejected_plane_egress, ob_reason_or_unknown (be_reason r))])
        @ (case admitted of
             None \<Rightarrow> []
           | Some ad \<Rightarrow> flag (case (attempted, issuedPb) of
                 (Some att, Some pb) \<Rightarrow> be_hop ad \<noteq> Some (pe_seq att) \<or> be_pbTag ad \<noteq> pe_pbTag pb
               | _ \<Rightarrow> True)
               (boundary_hop_mismatch, ''ADMITTED does not match the plane's hop/proof''))
        @ flag (final \<and> p_first v EGRESS_RESPONDED \<noteq> None \<and> admitted = None)
            (plane_egress_not_admitted, ''plane saw a response with no boundary admission'')
      else flag (list_ex (\<lambda>hop. hop < ORACLE_HOP_BASE) (hops_of v))
        (hop_range_violation, ''plane-range hop in a positive control''))"

text \<open>The local \<^verbatim>\<open>lineage\<close>, for an application admission that is present.\<close>

definition lineage_of :: "lifecycle_view \<Rightarrow> app_event \<Rightarrow> bool" where
  "lineage_of v appAdmitted =
     (if lv_expected v = X_positive_control_app then
        boundary_of v = [] \<and> ae_baTag appAdmitted \<noteq> None \<and> ae_pbTag appAdmitted \<noteq> None
      else
        let root = (if lv_expected v = X_protected then Option.bind (p_first v PROOF_ISSUED) pe_pbTag
                    else Option.bind (b_first v BOUNDARY_ADMITTED) be_pbTag);
            hop = (if lv_expected v = X_protected then map_option pe_seq (p_first v EGRESS_ATTEMPTED)
                   else Option.bind (b_first v BOUNDARY_ADMITTED) be_hop)
        in root \<noteq> None \<and> hop \<noteq> None
           \<and> (case (b_first v BOUNDARY_ADMITTED, b_first v APP_PROOF_ISSUED) of
                (Some admitted, Some issuedBa) \<Rightarrow>
                  be_hop admitted = hop \<and> be_pbTag admitted = root
                  \<and> be_hop issuedBa = hop \<and> be_pbTag issuedBa = root
                  \<and> ae_hop appAdmitted = hop \<and> ae_pbTag appAdmitted = root
                  \<and> be_baTag issuedBa \<noteq> None \<and> ae_baTag appAdmitted = be_baTag issuedBa
              | _ \<Rightarrow> False))"

definition app_lineage :: "lifecycle_view \<Rightarrow> bool" where
  "app_lineage v = (case a_first v APP_ADMITTED of None \<Rightarrow> False | Some ad \<Rightarrow> lineage_of v ad)"

definition app_findings :: "lifecycle_view \<Rightarrow> (anomaly_code \<times> string) list" where
  "app_findings v =
     (let lane = expected_lane_name (lv_expected v); appAdmitted = a_first v APP_ADMITTED;
          executed = a_first v APP_EXECUTED in
      flag (appAdmitted \<noteq> None \<and> \<not> app_lineage v) (app_admit_without_lineage, lane)
      @ flag (executed \<noteq> None \<and> \<not> (appAdmitted \<noteq> None \<and> app_lineage v))
          (app_execution_without_lineage, lane)
      @ flag (mutations_of v \<noteq> [] \<and> \<not> (executed \<noteq> None \<and> app_lineage v))
          (app_mutation_without_lineage, lane)
      @ flag (lv_expected v = X_positive_control_app \<and> boundary_of v \<noteq> [])
          (boundary_lane_mismatch, lane))"

definition final_lineage_findings :: "lifecycle_view \<Rightarrow> (anomaly_code \<times> string) list" where
  "final_lineage_findings v =
     (let arrived = b_first v BOUNDARY_ARRIVED; rejected = b_first v BOUNDARY_REJECTED;
          admitted = b_first v BOUNDARY_ADMITTED; issuedBa = b_first v APP_PROOF_ISSUED;
          forwardResponded = b_first v BOUNDARY_FORWARD_RESPONDED;
          appAdmitted = a_first v APP_ADMITTED; completed = a_first v APP_COMPLETED in
      flag (arrived \<noteq> None \<and> rejected = None \<and> admitted = None)
        (boundary_decision_missing, ''arrived without a decision'')
      @ flag (arrived \<noteq> None \<and> \<not> (b_first v BOUNDARY_RESPONDED \<noteq> None \<or> b_first v BOUNDARY_ABORTED \<noteq> None))
          (unresolved_at_finalization, ''boundary'')
      @ (case a_first v APP_REFUSED of
           None \<Rightarrow> []
         | Some r \<Rightarrow> flag (issuedBa \<noteq> None \<and> appAdmitted = None)
             (app_refused_boundary_admitted, ob_reason_or_unknown (ae_reason r)))
      @ flag (forwardResponded \<noteq> None \<and> appAdmitted = None) (missing_transition, ''APP_ADMITTED'')
      @ flag (appAdmitted \<noteq> None \<and> \<not> (completed \<noteq> None \<or> a_first v APP_ABORTED \<noteq> None))
          (unresolved_at_finalization, ''app'')
      @ (case (forwardResponded, completed) of
           (Some fr, Some c) \<Rightarrow> flag (be_status fr \<noteq> ae_status c)
             (origin_status_mismatch, show_undef (ae_status c) @ ''>'' @ show_undef (be_status fr))
         | _ \<Rightarrow> [])
      @ flag ((lv_expected v = X_positive_control_boundary \<or> lv_expected v = X_positive_control_app)
            \<and> \<not> (appAdmitted \<noteq> None \<and> app_lineage v))
          (positive_control_failed,
           expected_lane_name (lv_expected v) @ '' was not admitted with a complete lineage''))"

definition lineage_findings :: "lifecycle_view \<Rightarrow> bool \<Rightarrow> (anomaly_code \<times> string) list" where
  "lineage_findings v final =
     (if lv_boundary v = None \<and> lv_app v = None then []
      else stream_findings v
        @ (if lv_expected v = X_control \<or> lv_expected v = X_pre_ingress then
             flag (boundary_of v \<noteq> [] \<or> app_of v \<noteq> [])
               (boundary_lane_mismatch, expected_lane_name (lv_expected v))
           else if lv_expected v = X_direct_boundary_rejected \<or> lv_expected v = X_direct_app_rejected then
             direct_findings v
           else chain_start_findings v final @ app_findings v
             @ (if final then final_lineage_findings v else [])))"

definition validateOriginLineage :: "lifecycle_view \<Rightarrow> bool \<Rightarrow> anomaly list" where
  "validateOriginLineage v final = map (to_anomaly (lv_nonce v)) (lineage_findings v final)"

subsection \<open>The stream checks accept exactly the runs of the tables\<close>

interpretation hop_stream: stream_checker kind seq nxt "automaton kind seq name nxt rank"
  for kind seq name nxt rank
  by unfold_locales auto

lemma automaton_codes:
  "(c, d) \<in> set (automaton kind seq name nxt rank p seen s es) \<Longrightarrow>
     c \<in> {impossible_order, duplicate_terminal, duplicate_event, missing_transition}"
  by (induction es arbitrary: p seen s) (auto simp: automaton_violation_def split: if_splits)

lemma lineage_clean_iff: "validateOriginLineage v final = [] \<longleftrightarrow> lineage_findings v final = []"
  by (simp add: validateOriginLineage_def)

abbreviation has_lineage_streams :: "lifecycle_view \<Rightarrow> bool" where
  "has_lineage_streams v \<equiv> lv_boundary v \<noteq> None \<or> lv_app v \<noteq> None"

abbreviation app_has :: "lifecycle_view \<Rightarrow> app_event_kind \<Rightarrow> bool" where
  "app_has v k \<equiv> list_ex (\<lambda>e. ae_kind e = k) (app_of v)"

lemma a_first_None_iff: "a_first v k = None \<longleftrightarrow> \<not> app_has v k"
  by (rule find_None_list_ex)

lemma mutations_Nil_iff: "mutations_of v = [] \<longleftrightarrow> \<not> app_has v APP_MUTATED"
  by (auto simp: mutations_of_def filter_empty_conv list_ex_iff)

lemma lineage_clean_streams:
  assumes "validateOriginLineage v final = []" "has_lineage_streams v"
  shows "stream_findings v = []"
  using assms by (auto simp: lineage_clean_iff lineage_findings_def split: if_splits)

lemma lineage_clean_chain:
  assumes "validateOriginLineage v final = []" "has_lineage_streams v" "lv_expected v = X_protected"
  shows "chain_start_findings v final = []" "app_findings v = []"
    "final \<Longrightarrow> final_lineage_findings v = []"
  using assms by (auto simp: lineage_clean_iff lineage_findings_def)

lemma app_lineage_protected_complete:
  assumes "lv_expected v = X_protected" "app_lineage v"
  shows "protectedLineageComplete v"
  using assms
  by (auto simp: app_lineage_def lineage_of_def protectedLineageComplete_def Let_def
      split: option.splits)

lemma protected_complete_app_lineage:
  assumes "lv_expected v = X_protected" "protectedLineageComplete v"
  shows "app_lineage v"
  using assms
  by (auto simp: app_lineage_def lineage_of_def protectedLineageComplete_def Let_def
      split: option.splits)

lemma app_path_mutated:
  assumes "kinds_path NEXT_APP_KINDS None ks" "APP_MUTATED \<in> set ks"
  shows "take 3 ks = [APP_ADMITTED, APP_EXECUTED, APP_MUTATED]"
proof -
  from assms obtain k1 r1 where 1: "ks = k1 # r1" "k1 = APP_ADMITTED \<or> k1 = APP_REFUSED"
    "kinds_path NEXT_APP_KINDS (Some k1) r1" by (cases ks) auto
  with assms(2) obtain k2 r2 where 2: "k1 = APP_ADMITTED" "r1 = k2 # r2"
    "k2 = APP_EXECUTED \<or> k2 = APP_ABORTED \<or> k2 = APP_COMPLETED"
    "kinds_path NEXT_APP_KINDS (Some k2) r2" "APP_MUTATED \<in> set r1"
    by (cases r1) auto
  then obtain k3 r3 where "k2 = APP_EXECUTED" "r2 = k3 # r3" "APP_MUTATED \<in> set r2"
    "k3 = APP_MUTATED \<or> k3 = APP_COMPLETED \<or> k3 = APP_ABORTED"
    "kinds_path NEXT_APP_KINDS (Some k3) r3"
    by (cases r2) auto
  with 1 2 show ?thesis by (cases r3) auto
qed

lemma app_path_executed:
  assumes "kinds_path NEXT_APP_KINDS None ks" "APP_MUTATED \<in> set ks"
  shows "APP_EXECUTED \<in> set ks"
  using app_path_mutated [OF assms] by (metis in_set_takeD list.set_intros(1) list.set_intros(2))

lemma clean_app_path:
  assumes "stream_findings v = []"
  shows "kinds_path NEXT_APP_KINDS None (map ae_kind (app_of v))"
  using assms by (auto simp: stream_findings_def hop_stream.accepted_iff)

subsection \<open>Properties\<close>

text \<open>C1. No application effect without the authenticated chain: when neither validator reports an
  anomaly for a protected request, an application admission, execution or mutation implies that the
  request passed the first layer, was forwarded, was admitted by the boundary, and that hop number and
  both proof tags agree across plane, boundary and application. A mutation is moreover the single third
  event of the application stream, after admission and execution.\<close>

theorem app_effect_has_lineage:
  assumes "validateLifecycle v True = []" "validateOriginLineage v True = []"
    and "lv_expected v = X_protected" "has_lineage_streams v"
    and "app_has v APP_ADMITTED \<or> app_has v APP_EXECUTED \<or> app_has v APP_MUTATED"
  shows "protectedLineageComplete v
    \<and> has_kind L1_PASSED (lv_plane v) \<and> has_kind EGRESS_ATTEMPTED (lv_plane v)
    \<and> (app_has v APP_MUTATED \<longrightarrow> length (mutations_of v) = 1
         \<and> take 3 (map ae_kind (app_of v)) = [APP_ADMITTED, APP_EXECUTED, APP_MUTATED])"
proof -
  note chain = lineage_clean_chain [OF assms(2,4,3)]
  have streams: "stream_findings v = []" by (rule lineage_clean_streams [OF assms(2,4)])
  have "app_lineage v"
    using chain(2) assms(5)
    by (auto simp: app_findings_def Let_def a_first_None_iff mutations_Nil_iff)
  then have complete: "protectedLineageComplete v"
    by (rule app_lineage_protected_complete [OF assms(3)])
  then have att: "has_kind EGRESS_ATTEMPTED (lv_plane v)"
    by (auto simp: protectedLineageComplete_def list_ex_iff split: option.splits dest!: find_SomeD)
  have "protected_like v" by (simp add: protected_like_def assms(3))
  from runs_egress_needs_pass [OF clean_run [OF assms(1) this]] att
  have pass: "has_kind L1_PASSED (lv_plane v)" by (simp add: has_kind_iff)
  have mut: "length (mutations_of v) = 1
      \<and> take 3 (map ae_kind (app_of v)) = [APP_ADMITTED, APP_EXECUTED, APP_MUTATED]"
    if "app_has v APP_MUTATED"
  proof
    from that have "mutations_of v \<noteq> []" by (simp add: mutations_Nil_iff)
    with streams show "length (mutations_of v) = 1"
      by (cases "mutations_of v") (auto simp: stream_findings_def)
    show "take 3 (map ae_kind (app_of v)) = [APP_ADMITTED, APP_EXECUTED, APP_MUTATED]"
      using that by (intro app_path_mutated clean_app_path streams) (force simp: list_ex_iff)
  qed
  from complete att pass mut show ?thesis by blast
qed

text \<open>A direct attempt that the validator accepts never got in: the boundary admitted nothing and
  issued no application proof, and the application neither admitted, executed, completed nor mutated
  anything; at the application itself the boundary saw nothing at all.\<close>

theorem direct_attempt_stays_out:
  assumes "validateOriginLineage v final = []" "has_lineage_streams v"
    and "lv_expected v = X_direct_boundary_rejected \<or> lv_expected v = X_direct_app_rejected"
  shows "(\<forall>e \<in> set (boundary_of v). be_kind e \<notin> {BOUNDARY_ADMITTED, APP_PROOF_ISSUED})
    \<and> (\<forall>e \<in> set (app_of v). ae_kind e \<notin> {APP_ADMITTED, APP_EXECUTED, APP_MUTATED, APP_COMPLETED})
    \<and> (lv_expected v = X_direct_app_rejected \<longrightarrow> boundary_of v = [])"
proof -
  have "direct_findings v = []"
    using assms by (auto simp: lineage_clean_iff lineage_findings_def split: if_splits)
  then show ?thesis
    by (auto simp: direct_findings_def find_None_iff mutations_of_def filter_empty_conv)
qed

text \<open>\<^verbatim>\<open>protectedLineageComplete\<close>, with which the accounting counts complete lineages, is for a
  protected request the same predicate as the lineage rule inside \<^verbatim>\<open>validateOriginLineage\<close>: the
  validator reports an application admission without lineage exactly when the count leaves it out.\<close>

theorem protected_lineage_count_agrees:
  assumes "lv_expected v = X_protected" "has_lineage_streams v" "app_has v APP_ADMITTED"
  shows "protectedLineageComplete v \<longleftrightarrow>
    (\<forall>a \<in> set (validateOriginLineage v final). an_code a \<noteq> app_admit_without_lineage)"
proof -
  have adm: "a_first v APP_ADMITTED \<noteq> None" using assms(3) by (simp add: a_first_None_iff)
  have in_app: "(app_admit_without_lineage, d) \<in> set (app_findings v) \<longleftrightarrow>
      \<not> app_lineage v \<and> d = expected_lane_name (lv_expected v)" for d
    using adm by (auto simp: app_findings_def Let_def)
  have str: "(app_admit_without_lineage, d) \<notin> set (stream_findings v)" for d
    by (auto simp: stream_findings_def dest!: automaton_codes)
  have rest: "(app_admit_without_lineage, d) \<notin> set (chain_start_findings v final)"
    "(app_admit_without_lineage, d) \<notin> set (final_lineage_findings v)" for d
    by (auto simp: chain_start_findings_def final_lineage_findings_def Let_def split: option.splits)
  have "(\<exists>d. (app_admit_without_lineage, d) \<in> set (lineage_findings v final)) \<longleftrightarrow> \<not> app_lineage v"
    using assms(1,2) in_app str rest by (auto simp: lineage_findings_def)
  moreover have "(\<forall>a \<in> set (validateOriginLineage v final). an_code a \<noteq> app_admit_without_lineage)
      \<longleftrightarrow> \<not> (\<exists>d. (app_admit_without_lineage, d) \<in> set (lineage_findings v final))"
    by (auto simp: validateOriginLineage_def to_anomaly_def)
  ultimately show ?thesis
    using app_lineage_protected_complete protected_complete_app_lineage assms(1) by blast
qed

subsection \<open>Witnesses\<close>

definition bev :: "int \<Rightarrow> boundary_event_kind \<Rightarrow> boundary_event" where
  "bev s k = \<lparr>be_seq = s, be_nonce = Some ''n3'', be_kind = k, be_reason = None, be_hop = None,
     be_pbTag = None, be_baTag = None, be_status = None, be_forwardError = None\<rparr>"

definition aev :: "int \<Rightarrow> app_event_kind \<Rightarrow> app_event" where
  "aev s k = \<lparr>ae_seq = s, ae_nonce = Some ''n3'', ae_kind = k, ae_reason = None, ae_hop = None,
     ae_pbTag = None, ae_baTag = None, ae_status = None, ae_spoofed = None\<rparr>"

definition sample_chain :: lifecycle_view where
  "sample_chain = sample_delivered\<lparr>
     lv_plane := [plane_ev 0 INGRESS_ACCEPTED, plane_ev 1 L1_ENTERED, plane_ev 2 L1_PASSED,
       plane_ev 3 EGRESS_ATTEMPTED, (plane_ev 4 PROOF_ISSUED)\<lparr>pe_pbTag := Some ''pb''\<rparr>,
       (plane_ev 5 EGRESS_RESPONDED)\<lparr>pe_status := Some 200\<rparr>,
       (plane_ev 6 INGRESS_RESPONDED)\<lparr>pe_status := Some 200\<rparr>],
     lv_boundary := Some [bev 1 BOUNDARY_ARRIVED,
       (bev 2 BOUNDARY_ADMITTED)\<lparr>be_hop := Some 3, be_pbTag := Some ''pb''\<rparr>,
       (bev 3 APP_PROOF_ISSUED)\<lparr>be_hop := Some 3, be_pbTag := Some ''pb'', be_baTag := Some ''ba''\<rparr>,
       bev 4 BOUNDARY_FORWARDED, (bev 5 BOUNDARY_FORWARD_RESPONDED)\<lparr>be_status := Some 200\<rparr>,
       bev 6 BOUNDARY_RESPONDED],
     lv_app := Some
       [(aev 1 APP_ADMITTED)\<lparr>ae_hop := Some 3, ae_pbTag := Some ''pb'', ae_baTag := Some ''ba''\<rparr>,
        aev 2 APP_EXECUTED, aev 3 APP_MUTATED, (aev 4 APP_COMPLETED)\<lparr>ae_status := Some 200\<rparr>]\<rparr>"

definition sample_direct :: lifecycle_view where
  "sample_direct = sample_delivered\<lparr>lv_expected := X_direct_boundary_rejected, lv_plane := [],
     lv_boundary := Some [bev 1 BOUNDARY_ARRIVED, bev 2 BOUNDARY_REJECTED, bev 3 BOUNDARY_RESPONDED],
     lv_app := Some []\<rparr>"

lemma sample_chain_clean:
  "validateLifecycle sample_chain True = []" "validateOriginLineage sample_chain True = []"
  by code_simp+

lemma sample_chain_shape:
  "lv_expected sample_chain = X_protected" "has_lineage_streams sample_chain"
  "app_has sample_chain APP_ADMITTED"
  by (simp_all add: sample_chain_def sample_delivered_def app_of_def aev_def)

theorem app_effect_has_lineage_witness:
  "protectedLineageComplete sample_chain \<and> has_kind L1_PASSED (lv_plane sample_chain)"
  using app_effect_has_lineage [OF sample_chain_clean sample_chain_shape(1,2)] sample_chain_shape(3)
  by blast

theorem direct_attempt_stays_out_witness:
  "BOUNDARY_ADMITTED \<notin> be_kind ` set (boundary_of sample_direct)"
proof -
  have "validateOriginLineage sample_direct True = []" by code_simp
  moreover have "has_lineage_streams sample_direct" "lv_expected sample_direct = X_direct_boundary_rejected"
    by (simp_all add: sample_direct_def sample_delivered_def)
  ultimately show ?thesis using direct_attempt_stays_out [of sample_direct True] by fastforce
qed

theorem protected_lineage_count_agrees_witness:
  "protectedLineageComplete sample_chain"
  using protected_lineage_count_agrees [OF sample_chain_shape(1-3), of True]
  by (simp add: sample_chain_clean)

end
