(* ===== verification/Lane_Decisions.thy ===== *)
theory Lane_Decisions
  imports Defense_Types
begin

text \<open>
  The decision vocabulary of the lane layer (\<^verbatim>\<open>defense/core/lanes.ts\<close>): the classification of a
  request (\<^verbatim>\<open>operationClassOf\<close>), the decision record, the closed validity matrix
  (\<^verbatim>\<open>isValidDecision\<close>), \<^verbatim>\<open>proceeds\<close> and \<^verbatim>\<open>failureDecision\<close>; and the form routes of
  \<^verbatim>\<open>defense/core/enrollment.ts\<close> that the classification refers to.
\<close>

definition FORM_ROUTE_TARGETS :: "string list" where
  "FORM_ROUTE_TARGETS =
    [''/test-talep-et'', ''/test-talep-et?hizmet=web'', ''/test-talep-et?hizmet=network'',
     ''/test-talep-et?hizmet=protection'', ''/test-talep-et?hizmet=unsure'']"

definition isFormRoute :: "string \<Rightarrow> string \<Rightarrow> bool" where
  "isFormRoute meth target \<longleftrightarrow> meth = ''GET'' \<and> target \<in> set FORM_ROUTE_TARGETS"

definition MUTATION_TARGET :: string where
  "MUTATION_TARGET = ''/api/public-inquiries''"

definition OPEN_TARGETS :: "string list" where
  "OPEN_TARGETS = [''/'', ''/gizlilik'', ''/test-talep-et/tesekkurler''] @ FORM_ROUTE_TARGETS"

definition operationClassOf :: "string \<Rightarrow> string \<Rightarrow> operation_class" where
  "operationClassOf meth target =
     (if meth = ''GET'' \<and> target \<in> set OPEN_TARGETS then ClsOpen
      else if meth = ''POST'' \<and> target = MUTATION_TARGET then ClsMutation
      else ClsUnknown)"

record lane_decision =
  ld_class :: operation_class
  ld_lane :: "lane2 option"
  ld_outcome :: l2_outcome
  ld_shedReason :: "shed_reason option"
  ld_errorKind :: "l2_error_kind option"
  ld_creditTag :: "string option"
  ld_spent :: "lane2 option"
  ld_touched :: "lane2 option"
  ld_dt :: "int option"
  ld_lvl :: "int option"
  ld_lseq :: "int option"
  ld_simulated :: bool
  ld_shadow :: "string option"

text \<open>A decision with the three mandatory fields only.\<close>

definition mk_decision :: "operation_class \<Rightarrow> lane2 option \<Rightarrow> l2_outcome \<Rightarrow> lane_decision" where
  "mk_decision c l oc = \<lparr>ld_class = c, ld_lane = l, ld_outcome = oc, ld_shedReason = None,
     ld_errorKind = None, ld_creditTag = None, ld_spent = None, ld_touched = None, ld_dt = None,
     ld_lvl = None, ld_lseq = None, ld_simulated = False, ld_shadow = None\<rparr>"

lemma mk_decision_sel [simp]:
  "ld_class (mk_decision c l oc) = c" "ld_lane (mk_decision c l oc) = l"
  "ld_outcome (mk_decision c l oc) = oc" "ld_shedReason (mk_decision c l oc) = None"
  "ld_errorKind (mk_decision c l oc) = None" "ld_creditTag (mk_decision c l oc) = None"
  "ld_spent (mk_decision c l oc) = None" "ld_touched (mk_decision c l oc) = None"
  "ld_dt (mk_decision c l oc) = None" "ld_lvl (mk_decision c l oc) = None"
  "ld_lseq (mk_decision c l oc) = None" "ld_simulated (mk_decision c l oc) = False"
  "ld_shadow (mk_decision c l oc) = None"
  by (simp_all add: mk_decision_def)

definition proceeds :: "lane_decision \<Rightarrow> bool" where
  "proceeds d \<longleftrightarrow> ld_outcome d = Admitted \<or> ld_outcome d = Degraded"

definition isValidDecision :: "lane_decision \<Rightarrow> bool" where
  "isValidDecision d =
     (if ld_class d = ClsOpen then
        ld_lane d = Some LaneOpen \<and> (ld_outcome d = Admitted \<or> ld_outcome d = Degraded)
      else if ld_lane d = Some LaneCredited \<or> ld_lane d = Some LaneUnverified then
        ld_outcome d = Admitted \<or> (ld_outcome d = Shed \<and> ld_shedReason d = Some lane_budget)
      else if ld_lane d = None then
        (ld_outcome d = Shed \<and> ld_shedReason d = Some evaluator_saturation)
        \<or> (ld_outcome d = Error \<and> ld_errorKind d \<noteq> None)
      else False)"

datatype l2_failure = FSaturation | FThrow | FTimeout | FInvalidVerdict

text \<open>The error kind of a failure that is not a saturation; the source passes the string through.\<close>

definition failure_error_kind :: "l2_failure \<Rightarrow> l2_error_kind" where
  "failure_error_kind f = (case f of FTimeout \<Rightarrow> ETimeout | FInvalidVerdict \<Rightarrow> EInvalidVerdict | _ \<Rightarrow> EThrow)"

definition failureDecision :: "operation_class \<Rightarrow> l2_failure \<Rightarrow> lane_decision" where
  "failureDecision cls failure =
     (if cls = ClsOpen then mk_decision ClsOpen (Some LaneOpen) Degraded
      else if failure = FSaturation then
        (mk_decision cls None Shed)\<lparr>ld_shedReason := Some evaluator_saturation\<rparr>
      else (mk_decision cls None Error)\<lparr>ld_errorKind := Some (failure_error_kind failure)\<rparr>)"

text \<open>A failure is always a valid decision, and only an open render proceeds on one.\<close>

lemma failureDecision_valid [simp]: "isValidDecision (failureDecision cls f)"
  by (auto simp: failureDecision_def isValidDecision_def)

lemma failureDecision_proceeds_iff [simp]: "proceeds (failureDecision cls f) \<longleftrightarrow> cls = ClsOpen"
  by (auto simp: failureDecision_def proceeds_def)

lemma failureDecision_class [simp]: "ld_class (failureDecision cls f) = cls"
  by (auto simp: failureDecision_def)

lemma failureDecision_not_admitted [simp]: "ld_outcome (failureDecision cls f) \<noteq> Admitted"
  by (auto simp: failureDecision_def)

lemma form_route_open: "isFormRoute meth target \<Longrightarrow> operationClassOf meth target = ClsOpen"
  by (auto simp: isFormRoute_def operationClassOf_def OPEN_TARGETS_def)

lemma valid_proceeds_lane: "isValidDecision d \<Longrightarrow> proceeds d \<Longrightarrow> ld_lane d \<noteq> None"
  by (auto simp: isValidDecision_def proceeds_def split: if_splits)

lemma valid_degraded_open: "isValidDecision d \<Longrightarrow> ld_outcome d = Degraded \<Longrightarrow> ld_class d = ClsOpen"
  by (auto simp: isValidDecision_def split: if_splits)

end
