(* ===== verification/L2_Lifecycle.thy ===== *)
theory L2_Lifecycle
  imports Ledger Lane_Decisions
begin

text \<open>
  The per-request rules of the second layer over one plane stream (\<^verbatim>\<open>defense/core/l2-lifecycle.ts\<close>):
  \<^verbatim>\<open>decisionOf\<close> and \<^verbatim>\<open>validateL2Lifecycle\<close>. The lemmas combine them with the ledger validator: egress
  happens exactly for the requests whose decision proceeds, and every clean lifecycle has one terminal
  outcome.
\<close>

definition decisionOf :: "plane_event \<Rightarrow> lane_decision option" where
  "decisionOf e = (case (pe_class e, pe_lane e, pe_outcome e) of
     (Some c, Some l, Some oc) \<Rightarrow> Some \<lparr>ld_class = c, ld_lane = l, ld_outcome = oc,
       ld_shedReason = pe_shedReason e, ld_errorKind = pe_l2ErrorKind e,
       ld_creditTag = pe_creditTag e, ld_spent = pe_spent e, ld_touched = pe_touched e,
       ld_dt = pe_dt e, ld_lvl = pe_lvl e, ld_lseq = pe_lseq e, ld_simulated = pe_simulated e,
       ld_shadow = pe_shadow e\<rparr>
   | _ \<Rightarrow> None)"

definition class_name :: "operation_class \<Rightarrow> string" where
  "class_name c = (case c of ClsOpen \<Rightarrow> ''open'' | ClsMutation \<Rightarrow> ''mutation'' | ClsUnknown \<Rightarrow> ''unknown'')"

definition lane2_name :: "lane2 option \<Rightarrow> string" where
  "lane2_name l = (case l of None \<Rightarrow> ''none'' | Some LaneOpen \<Rightarrow> ''open''
     | Some LaneCredited \<Rightarrow> ''credited'' | Some LaneUnverified \<Rightarrow> ''unverified'')"

definition outcome_name :: "l2_outcome \<Rightarrow> string" where
  "outcome_name oc = (case oc of Admitted \<Rightarrow> ''admitted'' | Shed \<Rightarrow> ''shed'' | Error \<Rightarrow> ''error''
     | Degraded \<Rightarrow> ''degraded'')"

subsection \<open>validateL2Lifecycle\<close>

definition decided_event :: "lifecycle_view \<Rightarrow> plane_event option" where
  "decided_event v = first_kind L2_DECIDED (lv_plane v)"

definition decision_of_view :: "lifecycle_view \<Rightarrow> lane_decision option" where
  "decision_of_view v = Option.bind (decided_event v) decisionOf"

definition l2_entry_findings :: "lifecycle_view \<Rightarrow> bool \<Rightarrow> (anomaly_code \<times> string) list" where
  "l2_entry_findings v final =
     (let plane = lv_plane v;
          entered = length (filter (\<lambda>e. pe_kind e = L2_ENTERED) plane);
          decidedCount = length (filter (\<lambda>e. pe_kind e = L2_DECIDED) plane) in
      flag (has_kind EGRESS_ATTEMPTED plane \<and> \<not> has_kind L1_ENTERED plane) (layer_skipped, ''l1'')
      @ flag (has_kind EGRESS_ATTEMPTED plane \<and> has_kind L1_ENTERED plane \<and> \<not> has_kind L2_ENTERED plane)
          (layer_skipped, ''l2'')
      @ flag (entered < decidedCount) (l2_decision_invalid, ''decision without entry'')
      @ flag (final \<and> entered = 1 \<and> decidedCount = 0 \<and> \<not> has_kind INGRESS_ABORTED plane)
          (missing_transition, ''L2_DECIDED''))"

definition l2_decision_findings ::
  "lifecycle_view \<Rightarrow> bool \<Rightarrow> lane_decision \<Rightarrow> (anomaly_code \<times> string) list" where
  "l2_decision_findings v final d =
     (let bucketed = (ld_lane d = Some LaneCredited \<or> ld_lane d = Some LaneUnverified);
          discarded = (ld_spent d \<noteq> None \<or> ld_touched d \<noteq> None);
          attempted = has_kind EGRESS_ATTEMPTED (lv_plane v) in
      flag (\<not> isValidDecision d)
        (l2_decision_invalid,
         class_name (ld_class d) @ ''/'' @ lane2_name (ld_lane d) @ ''/'' @ outcome_name (ld_outcome d))
      @ flag (bucketed \<and> (ld_dt d = None \<or> ld_lvl d = None \<or> ld_lseq d = None))
          (l2_decision_invalid, ''bucket decision without clock, level and number'')
      @ flag (\<not> bucketed \<and> ld_lane d = Some LaneOpen \<and> (ld_dt d \<noteq> None \<or> ld_lseq d \<noteq> None))
          (l2_decision_invalid, ''open decision with bucket fields'')
      @ flag ((ld_lane d = Some LaneCredited \<and> ld_outcome d = Admitted) \<noteq> (ld_creditTag d \<noteq> None))
          (l2_decision_invalid, ''credit tag must accompany exactly a credited admission'')
      @ flag (discarded \<and> \<not> (ld_outcome d = Error \<or> ld_outcome d = Shed))
          (l2_decision_invalid, ''spent or touched on a decision that was not discarded'')
      @ flag (discarded \<and> ld_lane d \<noteq> None)
          (l2_decision_invalid, ''a discarded decision has no lane'')
      @ flag (ld_simulated d \<noteq> (ld_shadow d \<noteq> None))
          (l2_decision_invalid, ''basis and shadow must come together'')
      @ flag (\<not> proceeds d \<and> attempted) (l2_refused_but_egressed, outcome_name (ld_outcome d))
      @ flag (final \<and> proceeds d \<and> \<not> attempted \<and> \<not> has_kind INGRESS_ABORTED (lv_plane v))
          (missing_transition, ''EGRESS_ATTEMPTED''))"

definition disposition_findings ::
  "lifecycle_view \<Rightarrow> lane_decision option \<Rightarrow> plane_event \<Rightarrow> (anomaly_code \<times> string) list" where
  "disposition_findings v decision disp =
     (let simulated = list_ex pe_simulated (lv_plane v) in
      case decision of
        None \<Rightarrow> [(l2_enrollment_invalid, ''disposition for a request that was not an admitted open render'')]
      | Some d \<Rightarrow>
          if ld_class d \<noteq> ClsOpen \<or> \<not> proceeds d then
            [(l2_enrollment_invalid, ''disposition for a request that was not an admitted open render'')]
          else if pe_kind disp = L2_ENROLLED then
            flag (simulated \<or> ld_outcome d \<noteq> Admitted)
              (l2_enrollment_invalid, ''enrolled from a degraded or simulated decision'')
            @ flag (pe_creditTag disp = None \<or> pe_fill disp = None)
                (l2_enrollment_invalid, ''enrollment without tag or fill'')
            @ flag (\<not> has_kind EGRESS_RESPONDED (lv_plane v))
                (l2_enrollment_invalid, ''enrolled without an upstream response'')
          else
            flag (pe_skipReason disp = None) (l2_enrollment_invalid, ''skip without a reason'')
            @ flag ((pe_skipReason disp = Some skip_degraded) \<noteq> (ld_outcome d = Degraded))
                (l2_enrollment_invalid, ''degraded skip and degraded decision disagree'')
            @ flag (pe_skipReason disp = Some skip_simulated \<and> \<not> simulated)
                (l2_enrollment_invalid, ''simulated skip without a simulated verdict''))"

definition dispositions_of :: "lifecycle_view \<Rightarrow> plane_event list" where
  "dispositions_of v =
     filter (\<lambda>e. pe_kind e = L2_ENROLLED \<or> pe_kind e = L2_ENROLL_SKIPPED) (lv_plane v)"

definition l2_findings :: "lifecycle_view \<Rightarrow> bool \<Rightarrow> (anomaly_code \<times> string) list" where
  "l2_findings v final =
     (if \<not> lv_l2 v \<or> (lv_expected v \<noteq> X_protected \<and> lv_expected v \<noteq> X_external) then []
      else l2_entry_findings v final
        @ flag (decided_event v \<noteq> None \<and> decision_of_view v = None)
            (l2_decision_invalid, ''incomplete decision'')
        @ (case decision_of_view v of None \<Rightarrow> [] | Some d \<Rightarrow> l2_decision_findings v final d)
        @ flag (1 < length (dispositions_of v)) (l2_enrollment_invalid, ''more than one disposition'')
        @ concat (map (disposition_findings v (decision_of_view v)) (dispositions_of v)))"

definition validateL2Lifecycle :: "lifecycle_view \<Rightarrow> bool \<Rightarrow> anomaly list" where
  "validateL2Lifecycle v final = map (to_anomaly (lv_nonce v)) (l2_findings v final)"

subsection \<open>Consequences of a clean lifecycle\<close>

lemma l2_clean_parts:
  assumes "validateL2Lifecycle v True = []" "lv_l2 v" "protected_like v"
  shows "decided_event v = Some e \<Longrightarrow> \<exists>d. decisionOf e = Some d \<and> l2_decision_findings v True d = []"
    and "disp \<in> set (dispositions_of v) \<Longrightarrow> disposition_findings v (decision_of_view v) disp = []"
  using assms
  by (auto simp: validateL2Lifecycle_def l2_findings_def protected_like_def decision_of_view_def)

lemma clean_decision:
  assumes "validateL2Lifecycle v True = []" "lv_l2 v" "protected_like v" "decided_event v = Some e"
  obtains d where "decisionOf e = Some d" "decision_of_view v = Some d" "isValidDecision d"
    "proceeds d \<Longrightarrow> has_kind EGRESS_ATTEMPTED (lv_plane v) \<or> has_kind INGRESS_ABORTED (lv_plane v)"
    "has_kind EGRESS_ATTEMPTED (lv_plane v) \<Longrightarrow> proceeds d"
proof -
  from l2_clean_parts(1) [OF assms] obtain d
    where d: "decisionOf e = Some d" "l2_decision_findings v True d = []" by blast
  then show ?thesis
    using that [of d] assms(4) by (auto simp: l2_decision_findings_def Let_def decision_of_view_def)
qed

lemma decisionOf_outcome: "decisionOf e = Some d \<Longrightarrow> pe_outcome e = Some (ld_outcome d)"
  by (auto simp: decisionOf_def split: option.splits)

lemma decided_event_has: "decided_event v = Some e \<Longrightarrow> e \<in> set (lv_plane v) \<and> pe_kind e = L2_DECIDED"
  by (auto simp: decided_event_def dest: find_SomeD)

lemma has_kind_decided: "has_kind L2_DECIDED (lv_plane v) \<Longrightarrow> \<exists>e. decided_event v = Some e"
  unfolding decided_event_def by (simp add: find_isSome_iff)

lemma egress_decision_proceeds:
  assumes "validateL2Lifecycle v True = []" "lv_l2 v" "protected_like v"
    and "has_kind EGRESS_ATTEMPTED (lv_plane v)" "first_kind L2_DECIDED (lv_plane v) = Some e"
  shows "pe_outcome e = Some Admitted \<or> pe_outcome e = Some Degraded"
proof -
  have "decided_event v = Some e" using assms(5) by (simp add: decided_event_def)
  from clean_decision [OF assms(1-3) this] obtain d where "decisionOf e = Some d" "proceeds d"
    using assms(4) by blast
  then show ?thesis by (auto simp: proceeds_def decisionOf_outcome)
qed

subsection \<open>Properties\<close>

text \<open>With the second layer composed in, a request without anomalies is forwarded only on a valid
  decision that proceeds; a shed or failed decision means no egress and nothing at the origin, and the
  client is answered 503.\<close>

theorem egress_only_on_proceeding_decision:
  assumes "validateLifecycle v True = []" "validateL2Lifecycle v True = []"
    and "lv_l2 v" "protected_like v" "decided_event v = Some e"
  shows "\<exists>d. decisionOf e = Some d \<and> isValidDecision d
    \<and> (has_kind EGRESS_ATTEMPTED (lv_plane v) \<longrightarrow> proceeds d)
    \<and> (\<not> proceeds d \<longrightarrow> lv_origin v = []
         \<and> (\<forall>r. first_kind INGRESS_RESPONDED (lv_plane v) = Some r \<longrightarrow> pe_status r = Some 503))"
proof -
  obtain d where d: "decisionOf e = Some d" "isValidDecision d"
    "has_kind EGRESS_ATTEMPTED (lv_plane v) \<Longrightarrow> proceeds d"
    using clean_decision [OF assms(2-5)] by blast
  have run: "map pe_kind (lv_plane v) \<in> set (view_runs v)" by (rule clean_run [OF assms(1,4)])
  have "lv_origin v = []
     \<and> (\<forall>r. first_kind INGRESS_RESPONDED (lv_plane v) = Some r \<longrightarrow> pe_status r = Some 503)"
    if np: "\<not> proceeds d"
  proof -
    from np d(3) have noeg: "\<not> has_kind EGRESS_ATTEMPTED (lv_plane v)" by blast
    have oc: "pe_outcome e = Some Shed \<or> pe_outcome e = Some Error"
      using np decisionOf_outcome [OF d(1)] by (cases "ld_outcome d") (auto simp: proceeds_def)
    have kinds: "L2_DECIDED \<in> set (map pe_kind (lv_plane v))"
      using decided_event_has [OF assms(5)] by force
    obtain p where p: "p \<in> set (lv_plane v)" "pe_kind p = L1_PASSED"
      using runs_decided_passed [OF run kinds] by auto
    have "List.find is_verdict_event (lv_plane v) = Some p"
      using clean_verdict [OF assms(1,4) p(1)] p(2) by (simp add: LAYER_VERDICT_KINDS_def)
    then have "planeStatusFor v = Some 503"
      using p(2) assms(3,5) oc by (simp add: planeStatusFor_def decided_event_def)
    then show ?thesis
      using clean_no_egress_no_origin [OF assms(1,4) noeg] clean_status [OF assms(1,4)] by blast
  qed
  with d show ?thesis by blast
qed

lemma clean_lifecycle_outcome:
  assumes "validateLifecycle v True = []" "validateL2Lifecycle v True = []" "protected_like v"
  shows "\<exists>oc. view_outcome v = Some oc"
proof -
  let ?ks = "map pe_kind (lv_plane v)"
  have run: "?ks \<in> set (view_runs v)" by (rule clean_run [OF assms(1,3)])
  show ?thesis
  proof (cases "lv_l2 v \<and> has_kind L2_DECIDED (lv_plane v)")
    case False
    then have "\<exists>oc. terminalOutcome (lv_plane v) = Some oc"
      using runs_outcome_without_decision [OF run] by (simp add: terminalOutcome_kinds has_kind_iff)
    with False show ?thesis
      by (auto simp: view_outcome_def terminalOutcomeL2_def find_None_list_ex [symmetric])
  next
    case True
    then obtain e where e: "decided_event v = Some e" using has_kind_decided by blast
    obtain d where d: "decisionOf e = Some d"
      "proceeds d \<Longrightarrow> has_kind EGRESS_ATTEMPTED (lv_plane v) \<or> has_kind INGRESS_ABORTED (lv_plane v)"
      using clean_decision [OF assms(2) _ assms(3) e] True by blast
    have l2: "lv_l2 v" "L2_DECIDED \<in> set ?ks" using True by (simp_all only: has_kind_iff)
    note runs = runs_outcome_with_decision [OF run l2, folded has_kind_iff terminalOutcome_kinds]
    have "pe_outcome e = Some (ld_outcome d)" by (rule decisionOf_outcome [OF d(1)])
    then show ?thesis
      using runs d(2) e l2(1)
      by (cases "ld_outcome d")
        (auto simp: view_outcome_def terminalOutcomeL2_def decided_event_def proceeds_def)
  qed
qed

text \<open>Every finished lifecycle without anomalies has a terminal outcome: the plane stream explains
  each request, with or without the second layer.\<close>

theorem clean_lifecycle_has_outcome:
  assumes "validateLifecycle v True = []" "validateL2Lifecycle v True = []" "protected_like v"
  shows "\<exists>oc. view_outcome v = Some oc"
  by (rule clean_lifecycle_outcome [OF assms])

text \<open>A render that a clean lifecycle reports as enrolled was an open request with a valid admitted
  decision, not simulated, answered by the origin, and carries its tag and fill.\<close>

theorem enrolled_only_from_admitted_render:
  assumes "validateLifecycle v True = []" "validateL2Lifecycle v True = []"
    and "lv_l2 v" "protected_like v" "disp \<in> set (lv_plane v)" "pe_kind disp = L2_ENROLLED"
  shows "\<exists>d. decision_of_view v = Some d \<and> isValidDecision d \<and> ld_class d = ClsOpen
    \<and> ld_outcome d = Admitted \<and> \<not> list_ex pe_simulated (lv_plane v)
    \<and> received_events v \<noteq> [] \<and> pe_creditTag disp \<noteq> None \<and> pe_fill disp \<noteq> None"
proof -
  have "disp \<in> set (dispositions_of v)" using assms(5,6) by (simp add: dispositions_of_def)
  note clean = l2_clean_parts(2) [OF assms(2-4) this]
  then obtain d where d: "decision_of_view v = Some d" "ld_class d = ClsOpen" "ld_outcome d = Admitted"
    "\<not> list_ex pe_simulated (lv_plane v)" "pe_creditTag disp \<noteq> None" "pe_fill disp \<noteq> None"
    "has_kind EGRESS_RESPONDED (lv_plane v)"
    using assms(6) by (cases "decision_of_view v") (auto simp: disposition_findings_def Let_def split: if_splits)
  obtain e where e: "decided_event v = Some e" using d(1) by (auto simp: decision_of_view_def bind_eq_Some_conv)
  have "isValidDecision d" using clean_decision [OF assms(2-4) e] d(1) by (metis option.inject)
  moreover have "received_events v \<noteq> []"
  proof -
    obtain r where "first_kind EGRESS_RESPONDED (lv_plane v) = Some r"
      using d(7) find_isSome_iff [of "\<lambda>e. pe_kind e = EGRESS_RESPONDED"] by blast
    with lifecycle_findings_cleanD(5) [OF assms(1,4)] show ?thesis
      by (auto simp: response_findings_def Let_def)
  qed
  ultimately show ?thesis using d by blast
qed

subsection \<open>Witnesses\<close>

definition decided_ev :: "int \<Rightarrow> operation_class \<Rightarrow> lane2 option \<Rightarrow> l2_outcome \<Rightarrow> plane_event" where
  "decided_ev s c l oc =
     (plane_ev s L2_DECIDED)\<lparr>pe_class := Some c, pe_lane := Some l, pe_outcome := Some oc\<rparr>"

definition sample_l2_shed :: lifecycle_view where
  "sample_l2_shed = sample_rejected\<lparr>lv_l2 := True,
     lv_harness := [\<lparr>he_kind = SENT, he_result = None, he_status = None, he_outcomeHeader = None\<rparr>,
       \<lparr>he_kind = CLIENT_COMPLETED, he_result = Some CResponse, he_status = Some 503,
        he_outcomeHeader = Some ''l2_shed''\<rparr>],
     lv_plane := [plane_ev 0 INGRESS_ACCEPTED, plane_ev 1 L1_ENTERED, plane_ev 2 L1_PASSED,
       plane_ev 3 L2_ENTERED,
       (decided_ev 4 ClsMutation None Shed)\<lparr>pe_shedReason := Some evaluator_saturation\<rparr>,
       (plane_ev 5 INGRESS_RESPONDED)\<lparr>pe_status := Some 503\<rparr>]\<rparr>"

definition sample_enrolled :: lifecycle_view where
  "sample_enrolled = sample_delivered\<lparr>lv_l2 := True,
     lv_plane := [plane_ev 0 INGRESS_ACCEPTED, plane_ev 1 L1_ENTERED, plane_ev 2 L1_PASSED,
       plane_ev 3 L2_ENTERED, decided_ev 4 ClsOpen (Some LaneOpen) Admitted,
       plane_ev 5 EGRESS_ATTEMPTED, (plane_ev 6 EGRESS_RESPONDED)\<lparr>pe_status := Some 200\<rparr>,
       (plane_ev 7 L2_ENROLLED)\<lparr>pe_creditTag := Some ''tag'', pe_fill := Some (4, 0)\<rparr>,
       (plane_ev 8 INGRESS_RESPONDED)\<lparr>pe_status := Some 200\<rparr>],
     lv_origin :=
       [\<lparr>oe_instance = Protected, oe_nonce = Some ''n2'', oe_kind = ORIGIN_RECEIVED, oe_hop = Some 5,
         oe_status = None, oe_spoofed = None\<rparr>,
        \<lparr>oe_instance = Protected, oe_nonce = Some ''n2'', oe_kind = ORIGIN_COMPLETED, oe_hop = Some 5,
         oe_status = Some 200, oe_spoofed = None\<rparr>]\<rparr>"

lemma sample_l2_clean:
  "validateLifecycle sample_l2_shed True = []" "validateL2Lifecycle sample_l2_shed True = []"
  "validateLifecycle sample_enrolled True = []" "validateL2Lifecycle sample_enrolled True = []"
  by code_simp+

lemma sample_l2_shape:
  "lv_l2 sample_l2_shed" "protected_like sample_l2_shed" "lv_l2 sample_enrolled"
  "protected_like sample_enrolled"
  by (simp_all add: sample_l2_shed_def sample_enrolled_def sample_rejected_def sample_delivered_def
      protected_like_def)

theorem egress_only_on_proceeding_decision_witness:
  "\<exists>e d. decided_event sample_l2_shed = Some e \<and> decisionOf e = Some d \<and> isValidDecision d"
proof -
  have "decided_event sample_l2_shed
      = Some ((decided_ev 4 ClsMutation None Shed)\<lparr>pe_shedReason := Some evaluator_saturation\<rparr>)"
    by (simp add: decided_event_def sample_l2_shed_def plane_ev_def decided_ev_def)
  with egress_only_on_proceeding_decision [OF sample_l2_clean(1,2) sample_l2_shape(1,2)]
  show ?thesis by blast
qed

theorem clean_lifecycle_has_outcome_witness: "\<exists>oc. view_outcome sample_enrolled = Some oc"
  by (rule clean_lifecycle_has_outcome [OF sample_l2_clean(3,4) sample_l2_shape(4)])

theorem enrolled_only_from_admitted_render_witness:
  "\<exists>d. decision_of_view sample_enrolled = Some d \<and> ld_class d = ClsOpen \<and> ld_outcome d = Admitted"
proof -
  let ?disp = "(plane_ev 7 L2_ENROLLED)\<lparr>pe_creditTag := Some ''tag'', pe_fill := Some (4, 0)\<rparr>"
  have "?disp \<in> set (lv_plane sample_enrolled)" by (simp add: sample_enrolled_def)
  moreover have "pe_kind ?disp = L2_ENROLLED" by (simp add: plane_ev_def)
  ultimately show ?thesis
    using enrolled_only_from_admitted_render [OF sample_l2_clean(3,4) sample_l2_shape(3,4)] by blast
qed

end
