(* ===== verification/Penetration.thy ===== *)
theory Penetration
  imports Lineage L2_Lifecycle
begin

text \<open>
  Penetration depth and the terminal explanation of one request (\<^verbatim>\<open>defense/core/penetration.ts\<close>):
  \<^verbatim>\<open>penetrationOf\<close> and \<^verbatim>\<open>isNaturalL1Bypass\<close>. The theorems show that the recorded depth is always backed by
  the event of every stage up to it, and that the depth of a request without anomalies is consistent with
  the validators.
\<close>

datatype (plugins only: code size) penetration_stage =
    St_none | St_l1 | St_l2 | St_canon | St_pb | St_boundary | St_ba | St_app_admitted
  | St_app_executed | St_app_mutated

datatype l1_state = L1_natural_pass | L1_simulated_pass | L1_rejected | L1_shed | L1_error
  | L1_skipped | L1_not_reached

datatype l2_state = L2_admitted | L2_quarantined | L2_shed | L2_error | L2_degraded
  | L2_skipped | L2_not_reached

record penetration_record =
  pr_simulated :: bool
  pr_l1 :: l1_state
  pr_l2 :: l2_state
  pr_lane :: "lane2 option"
  pr_deepest :: penetration_stage
  pr_terminal :: string

primrec reject_reason_name :: "reject_reason \<Rightarrow> string" where
  "reject_reason_name a7_method_not_allowed = ''a7.method_not_allowed''"
| "reject_reason_name a7_target_too_long = ''a7.target_too_long''"
| "reject_reason_name a7_target_malformed = ''a7.target_malformed''"
| "reject_reason_name a7_path_not_allowed = ''a7.path_not_allowed''"
| "reject_reason_name a7_query_not_allowed = ''a7.query_not_allowed''"
| "reject_reason_name a7_header_count_exceeded = ''a7.header_count_exceeded''"
| "reject_reason_name a7_header_bytes_exceeded = ''a7.header_bytes_exceeded''"
| "reject_reason_name a7_header_name_invalid = ''a7.header_name_invalid''"
| "reject_reason_name a7_header_value_invalid = ''a7.header_value_invalid''"
| "reject_reason_name a7_host_header_invalid = ''a7.host_header_invalid''"
| "reject_reason_name a7_framing_invalid = ''a7.framing_invalid''"
| "reject_reason_name a7_content_type_invalid = ''a7.content_type_invalid''"
| "reject_reason_name a7_body_too_large = ''a7.body_too_large''"
| "reject_reason_name a7_body_incomplete = ''a7.body_incomplete''"
| "reject_reason_name a7_body_read_timeout = ''a7.body_read_timeout''"
| "reject_reason_name a7_body_encoding_invalid = ''a7.body_encoding_invalid''"
| "reject_reason_name a7_form_grammar_invalid = ''a7.form_grammar_invalid''"
| "reject_reason_name a7_form_field_not_allowed = ''a7.form_field_not_allowed''"
| "reject_reason_name a7_form_field_duplicate = ''a7.form_field_duplicate''"
| "reject_reason_name a7_form_field_count_exceeded = ''a7.form_field_count_exceeded''"
| "reject_reason_name a7_form_field_too_long = ''a7.form_field_too_long''"
| "reject_reason_name a7_form_token_malformed = ''a7.form_token_malformed''"
| "reject_reason_name a7_semantic_duplicate = ''a7.semantic_duplicate''"
| "reject_reason_name a7_semantic_refused_header = ''a7.semantic_refused_header''"
| "reject_reason_name a7_semantic_value_invalid = ''a7.semantic_value_invalid''"
| "reject_reason_name a7_lane_credited_budget = ''a7.lane_credited_budget''"
| "reject_reason_name a7_lane_unverified_budget = ''a7.lane_unverified_budget''"

definition or_unknown :: "('a \<Rightarrow> string) \<Rightarrow> 'a option \<Rightarrow> string" where
  "or_unknown name x = (case x of None \<Rightarrow> ''unknown'' | Some y \<Rightarrow> name y)"

definition layer_error_name :: "layer_error_kind \<Rightarrow> string" where
  "layer_error_name e = (case e of LThrow \<Rightarrow> ''throw'' | LTimeout \<Rightarrow> ''timeout'' | LInvalidVerdict \<Rightarrow> ''invalid_verdict'')"

definition l2_error_name :: "l2_error_kind \<Rightarrow> string" where
  "l2_error_name e = (case e of EThrow \<Rightarrow> ''throw'' | ETimeout \<Rightarrow> ''timeout''
     | EInvalidVerdict \<Rightarrow> ''invalid_verdict'' | ELedgerFull \<Rightarrow> ''ledger_full'')"

definition shed_reason_name :: "shed_reason \<Rightarrow> string" where
  "shed_reason_name r = (case r of lane_budget \<Rightarrow> ''lane_budget'' | evaluator_saturation \<Rightarrow> ''evaluator_saturation'')"

definition egress_error_name :: "egress_error_kind \<Rightarrow> string" where
  "egress_error_name e = (case e of EgRefused \<Rightarrow> ''refused'' | EgReset \<Rightarrow> ''reset''
     | EgTimeout \<Rightarrow> ''timeout'' | EgError \<Rightarrow> ''error'')"

subsection \<open>penetrationOf\<close>

text \<open>The first layer: its state and the terminal explanation it sets.\<close>

definition l1_part :: "lifecycle_view \<Rightarrow> l1_state \<times> string" where
  "l1_part v =
     (if p_first v L1_ENTERED = None then
        (if p_first v EGRESS_ATTEMPTED \<noteq> None then (L1_skipped, []) else (L1_not_reached, []))
      else case p_first v L1_PASSED of
        Some p \<Rightarrow> (if pe_simulated p then L1_simulated_pass else L1_natural_pass, [])
      | None \<Rightarrow> (case p_first v L1_REJECTED of
          Some r \<Rightarrow> (L1_rejected, ''l1_rejected:'' @ or_unknown reject_reason_name (pe_reason r))
        | None \<Rightarrow> (if p_first v L1_SHED \<noteq> None then (L1_shed, ''l1_shed'')
            else (case p_first v L1_ERROR of
              Some e \<Rightarrow> (L1_error, ''l1_error:'' @ or_unknown layer_error_name (pe_errorKind e))
            | None \<Rightarrow> (L1_not_reached, [])))))"

text \<open>The second layer: state, lane and terminal explanation.\<close>

definition l2_part :: "lifecycle_view \<Rightarrow> l2_state \<times> lane2 option \<times> string" where
  "l2_part v =
     (if \<not> lv_l2 v then (L2_not_reached, None, [])
      else if p_first v L2_ENTERED = None then
        (if p_first v EGRESS_ATTEMPTED \<noteq> None then (L2_skipped, None, []) else (L2_not_reached, None, []))
      else (case p_first v L2_DECIDED of
          None \<Rightarrow> (L2_not_reached, None, [])
        | Some d \<Rightarrow>
            let lane = (case pe_lane d of None \<Rightarrow> None | Some l \<Rightarrow> l) in
            if pe_outcome d = Some Admitted then
              (if lane = Some LaneUnverified then L2_quarantined else L2_admitted, lane, [])
            else if pe_outcome d = Some Degraded then (L2_degraded, lane, [])
            else if pe_outcome d = Some Shed then
              (L2_shed, lane,
               ''l2_shed:'' @ lane2_name lane @ '':'' @ or_unknown shed_reason_name (pe_shedReason d))
            else (L2_error, lane, ''l2_error:'' @ or_unknown l2_error_name (pe_l2ErrorKind d))))"

text \<open>Canonicalization, plane proof, boundary, application proof and application, for a request whose
  egress was attempted: the deepest stage (\<open>start\<close> is the depth so far) and the explanation.\<close>

definition downstream_part :: "lifecycle_view \<Rightarrow> penetration_stage \<Rightarrow> penetration_stage \<times> string" where
  "downstream_part v start =
     (let failed = p_first v EGRESS_FAILED;
          issued = p_first v PROOF_ISSUED;
          egress_failed = (\<lambda>undecided. case failed of
             Some f \<Rightarrow> ''egress_failed:'' @ or_unknown egress_error_name (pe_egressError f)
           | None \<Rightarrow> undecided) in
      if issued = None \<and> failed \<noteq> None \<and> pe_failStage (the failed) \<noteq> Some FsSign then
        (start, if pe_failStage (the failed) = Some FsCanon then ''canon_refused'' else ''plane_issue_refused'')
      else if issued = None then (St_canon, if failed \<noteq> None then ''sign_refused'' else ''no_proof'')
      else (case b_first v BOUNDARY_REJECTED of
        Some r \<Rightarrow> (St_pb, ''boundary_rejected:'' @ ob_reason_or_unknown (be_reason r))
      | None \<Rightarrow>
          if b_first v BOUNDARY_ADMITTED = None then (St_pb, egress_failed ''boundary_undecided'')
          else if b_first v APP_PROOF_ISSUED = None then (St_boundary, ''app_proof_not_issued'')
          else (case a_first v APP_REFUSED of
            Some r \<Rightarrow> (St_ba, ''app_refused:'' @ ob_reason_or_unknown (ae_reason r))
          | None \<Rightarrow>
              if a_first v APP_ADMITTED = None then (St_ba, egress_failed ''app_undecided'')
              else if a_first v APP_EXECUTED = None then (St_app_admitted, ''app_admitted_not_executed'')
              else if a_first v APP_MUTATED \<noteq> None then (St_app_mutated, ''app_mutated'')
              else (St_app_executed, ''app_executed_no_mutation''))))"

definition mk_penetration ::
  "lifecycle_view \<Rightarrow> l1_state \<Rightarrow> l2_state \<Rightarrow> lane2 option \<Rightarrow> penetration_stage \<times> string \<Rightarrow> penetration_record" where
  "mk_penetration v l1 l2 lane st = \<lparr>pr_simulated = list_ex pe_simulated (lv_plane v), pr_l1 = l1,
     pr_l2 = l2, pr_lane = lane, pr_deepest = fst st, pr_terminal = snd st\<rparr>"

definition penetrationOf :: "lifecycle_view \<Rightarrow> penetration_record" where
  "penetrationOf v =
     (case l1_part v of (l1, t1) \<Rightarrow>
      if l1 = L1_rejected \<or> l1 = L1_shed \<or> l1 = L1_error \<or> l1 = L1_not_reached then
        mk_penetration v l1 L2_not_reached None (St_none, if t1 = [] then ''no_plane_decision'' else t1)
      else (case l2_part v of (l2, lane, t2) \<Rightarrow>
        if lv_l2 v \<and> (l2 = L2_shed \<or> l2 = L2_error) then mk_penetration v l1 l2 lane (St_l1, t2)
        else
          let deepest = (if lv_l2 v \<and> l2 \<noteq> L2_not_reached \<and> l2 \<noteq> L2_skipped then St_l2 else St_l1) in
          if p_first v EGRESS_ATTEMPTED = None then
            mk_penetration v l1 l2 lane
              (deepest, if p_first v INGRESS_ABORTED \<noteq> None then ''client_aborted'' else ''no_egress'')
          else mk_penetration v l1 l2 lane (downstream_part v deepest)))"

definition isNaturalL1Bypass :: "penetration_record \<Rightarrow> bool" where
  "isNaturalL1Bypass r \<longleftrightarrow> \<not> pr_simulated r \<and> pr_l1 r = L1_natural_pass"

subsection \<open>Depth and evidence\<close>

primrec stage_rank :: "penetration_stage \<Rightarrow> nat" where
  "stage_rank St_none = 0"
| "stage_rank St_l1 = 1"
| "stage_rank St_l2 = 2"
| "stage_rank St_canon = 3"
| "stage_rank St_pb = 4"
| "stage_rank St_boundary = 5"
| "stage_rank St_ba = 6"
| "stage_rank St_app_admitted = 7"
| "stage_rank St_app_executed = 8"
| "stage_rank St_app_mutated = 9"

lemma stage_rank_inj: "stage_rank a = stage_rank b \<Longrightarrow> a = b"
  by (cases a; cases b) simp_all

instantiation penetration_stage :: linorder
begin

definition less_eq_penetration_stage :: "penetration_stage \<Rightarrow> penetration_stage \<Rightarrow> bool" where
  "less_eq_penetration_stage a b \<longleftrightarrow> stage_rank a \<le> stage_rank b"

definition less_penetration_stage :: "penetration_stage \<Rightarrow> penetration_stage \<Rightarrow> bool" where
  "less_penetration_stage a b \<longleftrightarrow> stage_rank a < stage_rank b"

instance
  by standard
    (auto simp: less_eq_penetration_stage_def less_penetration_stage_def intro: stage_rank_inj)

end

lemmas stage_order = less_eq_penetration_stage_def less_penetration_stage_def

lemma downstream_evidence:
  assumes "downstream_part v start = (stage, terminal)" "start \<le> St_l2"
  shows "St_pb \<le> stage \<Longrightarrow> p_first v PROOF_ISSUED \<noteq> None"
    and "St_boundary \<le> stage \<Longrightarrow> b_first v BOUNDARY_ADMITTED \<noteq> None \<and> b_first v BOUNDARY_REJECTED = None"
    and "St_ba \<le> stage \<Longrightarrow> b_first v APP_PROOF_ISSUED \<noteq> None"
    and "St_app_admitted \<le> stage \<Longrightarrow> a_first v APP_ADMITTED \<noteq> None \<and> a_first v APP_REFUSED = None"
    and "St_app_executed \<le> stage \<Longrightarrow> a_first v APP_EXECUTED \<noteq> None"
    and "stage = St_app_mutated \<Longrightarrow> a_first v APP_MUTATED \<noteq> None"
  using assms
  by (auto simp: downstream_part_def Let_def stage_order split: if_splits option.splits)

lemma downstream_terminal_nonempty:
  "downstream_part v start = (stage, terminal) \<Longrightarrow> terminal \<noteq> []"
  by (auto simp: downstream_part_def Let_def split: if_splits option.splits)

lemma has_kind_first: "has_kind k es \<longleftrightarrow> first_kind k es \<noteq> None"
  by (simp add: find_None_list_ex)

lemma l1_part_passed:
  "fst (l1_part v) \<in> {L1_natural_pass, L1_simulated_pass} \<longleftrightarrow>
     p_first v L1_ENTERED \<noteq> None \<and> p_first v L1_PASSED \<noteq> None"
  by (auto simp: l1_part_def split: option.splits)

lemma l2_part_refused:
  "lv_l2 v \<Longrightarrow> fst (l2_part v) \<in> {L2_shed, L2_error} \<longleftrightarrow>
     p_first v L2_ENTERED \<noteq> None \<and>
     (\<exists>d. p_first v L2_DECIDED = Some d \<and> pe_outcome d \<noteq> Some Admitted \<and> pe_outcome d \<noteq> Some Degraded)"
  by (auto simp: l2_part_def Let_def split: option.splits)

lemma l2_part_terminal: "fst (l2_part v) \<in> {L2_shed, L2_error} \<Longrightarrow> snd (snd (l2_part v)) \<noteq> []"
  by (auto simp: l2_part_def Let_def split: option.splits if_splits)

text \<open>The four ways \<^const>\<open>penetrationOf\<close> returns.\<close>

lemma penetration_cases:
  fixes v :: lifecycle_view
  defines "r \<equiv> penetrationOf v"
  obtains (refused) "fst (l1_part v) \<in> {L1_rejected, L1_shed, L1_error, L1_not_reached}"
      "pr_deepest r = St_none" "pr_terminal r \<noteq> []"
  | (l2_refused) "fst (l1_part v) \<in> {L1_natural_pass, L1_simulated_pass, L1_skipped}"
      "lv_l2 v" "fst (l2_part v) \<in> {L2_shed, L2_error}"
      "pr_deepest r = St_l1" "pr_terminal r = snd (snd (l2_part v))"
  | (stopped) "fst (l1_part v) \<in> {L1_natural_pass, L1_simulated_pass, L1_skipped}"
      "\<not> (lv_l2 v \<and> fst (l2_part v) \<in> {L2_shed, L2_error})"
      "p_first v EGRESS_ATTEMPTED = None" "pr_deepest r \<in> {St_l1, St_l2}" "pr_terminal r \<noteq> []"
  | (egress) start where "fst (l1_part v) \<in> {L1_natural_pass, L1_simulated_pass, L1_skipped}"
      "\<not> (lv_l2 v \<and> fst (l2_part v) \<in> {L2_shed, L2_error})"
      "p_first v EGRESS_ATTEMPTED \<noteq> None" "start \<le> St_l2"
      "downstream_part v start = (pr_deepest r, pr_terminal r)"
proof -
  obtain l1 t1 where p1: "l1_part v = (l1, t1)" by (cases "l1_part v")
  obtain l2 lane t2 where p2: "l2_part v = (l2, lane, t2)" by (cases "l2_part v")
  note defs = r_def penetrationOf_def mk_penetration_def Let_def p1 p2
  let ?start = "if lv_l2 v \<and> l2 \<noteq> L2_not_reached \<and> l2 \<noteq> L2_skipped then St_l2 else St_l1"
  consider "l1 = L1_rejected \<or> l1 = L1_shed \<or> l1 = L1_error \<or> l1 = L1_not_reached"
    | "l1 = L1_natural_pass \<or> l1 = L1_simulated_pass \<or> l1 = L1_skipped"
    by (cases l1) auto
  then show ?thesis
  proof cases
    case 1
    then show ?thesis by (intro refused) (auto simp: defs)
  next
    case 2
    then have go: "\<not> (l1 = L1_rejected \<or> l1 = L1_shed \<or> l1 = L1_error \<or> l1 = L1_not_reached)" by auto
    have mem: "fst (l1_part v) \<in> {L1_natural_pass, L1_simulated_pass, L1_skipped}" using 2 p1 by auto
    consider "lv_l2 v \<and> (l2 = L2_shed \<or> l2 = L2_error)"
      | "\<not> (lv_l2 v \<and> (l2 = L2_shed \<or> l2 = L2_error))" "p_first v EGRESS_ATTEMPTED = None"
      | "\<not> (lv_l2 v \<and> (l2 = L2_shed \<or> l2 = L2_error))" "p_first v EGRESS_ATTEMPTED \<noteq> None" by blast
    then show ?thesis
    proof cases
      case 1
      then show ?thesis using mem go by (intro l2_refused) (auto simp: defs)
    next
      case 2
      then show ?thesis using mem go by (intro stopped) (auto simp: defs)
    next
      case 3
      then have "penetrationOf v = mk_penetration v l1 l2 lane (downstream_part v ?start)"
        using go by (simp only: penetrationOf_def p1 p2 prod.case if_False Let_def)
      then have "downstream_part v ?start = (pr_deepest r, pr_terminal r)"
        by (simp add: r_def mk_penetration_def)
      moreover have "?start \<le> St_l2" by (simp add: stage_order)
      ultimately show ?thesis using mem 3 p2 by (intro egress [of ?start]) auto
    qed
  qed
qed

subsection \<open>Properties\<close>

text \<open>The recorded depth is backed by evidence: every stage a record claims to have been let through
  is witnessed by the event of that stage and of all earlier ones, a stage is never claimed past a refusal,
  and every record carries exactly one non-empty explanation.\<close>

theorem penetration_depth_has_evidence:
  fixes v :: lifecycle_view
  defines "d \<equiv> pr_deepest (penetrationOf v)"
  shows "(St_l1 \<le> d \<longrightarrow> fst (l1_part v) \<in> {L1_natural_pass, L1_simulated_pass, L1_skipped})
    \<and> (St_canon \<le> d \<longrightarrow> has_kind EGRESS_ATTEMPTED (lv_plane v)
         \<and> \<not> (lv_l2 v \<and> fst (l2_part v) \<in> {L2_shed, L2_error}))
    \<and> (St_pb \<le> d \<longrightarrow> has_kind PROOF_ISSUED (lv_plane v))
    \<and> (St_boundary \<le> d \<longrightarrow> b_first v BOUNDARY_ADMITTED \<noteq> None \<and> b_first v BOUNDARY_REJECTED = None)
    \<and> (St_ba \<le> d \<longrightarrow> b_first v APP_PROOF_ISSUED \<noteq> None)
    \<and> (St_app_admitted \<le> d \<longrightarrow> app_has v APP_ADMITTED \<and> \<not> app_has v APP_REFUSED)
    \<and> (St_app_executed \<le> d \<longrightarrow> app_has v APP_EXECUTED)
    \<and> (d = St_app_mutated \<longrightarrow> app_has v APP_MUTATED)
    \<and> pr_terminal (penetrationOf v) \<noteq> []"
proof (cases v rule: penetration_cases)
  case refused
  then show ?thesis by (simp add: d_def stage_order)
next
  case l2_refused
  then show ?thesis using l2_part_terminal [of v] by (simp add: d_def stage_order)
next
  case stopped
  then show ?thesis by (auto simp: d_def stage_order)
next
  case (egress start)
  note ev = downstream_evidence [OF egress(5,4), folded d_def]
  from ev egress(1-3) downstream_terminal_nonempty [OF egress(5)] show ?thesis
    by (simp add: find_None_list_ex a_first_None_iff)
qed

text \<open>C0. A natural bypass of the first layer is concluded exactly from the layer's own pass of a request
  that entered it, with no simulated event anywhere in the request.\<close>

theorem natural_bypass_iff:
  "isNaturalL1Bypass (penetrationOf v) \<longleftrightarrow>
     has_kind L1_ENTERED (lv_plane v) \<and> has_kind L1_PASSED (lv_plane v)
     \<and> \<not> list_ex pe_simulated (lv_plane v)"
proof -
  have sim: "pr_simulated (penetrationOf v) \<longleftrightarrow> list_ex pe_simulated (lv_plane v)"
    and l1: "pr_l1 (penetrationOf v) = fst (l1_part v)"
    by (auto simp: penetrationOf_def mk_penetration_def Let_def split: prod.splits)
  have "fst (l1_part v) = L1_natural_pass \<longleftrightarrow>
      has_kind L1_ENTERED (lv_plane v) \<and> has_kind L1_PASSED (lv_plane v)"
    if "\<not> list_ex pe_simulated (lv_plane v)"
  proof -
    have "p_first v L1_PASSED = Some p \<Longrightarrow> \<not> pe_simulated p" for p
      using that by (auto dest!: find_SomeD simp: list_ex_iff)
    then show ?thesis
      by (auto simp: l1_part_def has_kind_first split: option.splits)
  qed
  with sim l1 show ?thesis by (auto simp: isNaturalL1Bypass_def)
qed

lemma app_path_mutated_not_refused:
  "kinds_path NEXT_APP_KINDS None ks \<Longrightarrow> APP_MUTATED \<in> set ks \<Longrightarrow> APP_REFUSED \<notin> set ks"
proof
  assume "kinds_path NEXT_APP_KINDS None ks" "APP_MUTATED \<in> set ks" "APP_REFUSED \<in> set ks"
  moreover from this obtain r where "ks = APP_ADMITTED # r"
    using app_path_mutated [of ks] by (cases ks) auto
  moreover have "kinds_path NEXT_APP_KINDS (Some p) r \<Longrightarrow> APP_REFUSED \<notin> set r" for p r
  proof (induction r arbitrary: p)
    case (Cons k r)
    then show ?case by (cases p; cases k) auto
  qed simp
  ultimately show False by auto
qed

text \<open>For a protected request that none of the three validators objects to, the record says
  \<open>app_mutated\<close> exactly when the application reported a mutation: depth accounting neither misses an
  effect nor invents one.\<close>

theorem mutated_depth_iff_mutation:
  assumes "validateLifecycle v True = []" "validateOriginLineage v True = []"
    "validateL2Lifecycle v True = []"
    and "lv_expected v = X_protected" "has_lineage_streams v"
  shows "pr_deepest (penetrationOf v) = St_app_mutated \<longleftrightarrow> app_has v APP_MUTATED"
proof
  assume mut: "app_has v APP_MUTATED"
  have prot: "protected_like v" using assms(4) by (simp add: protected_like_def)
  note run = clean_run [OF assms(1) prot]
  have streams: "stream_findings v = []" by (rule lineage_clean_streams [OF assms(2,5)])
  note chain = lineage_clean_chain [OF assms(2,5,4)]
  have "app_lineage v" using chain(2) mut by (auto simp: app_findings_def Let_def mutations_Nil_iff)
  then have complete: "protectedLineageComplete v" by (rule app_lineage_protected_complete [OF assms(4)])
  have path: "kinds_path NEXT_APP_KINDS None (map ae_kind (app_of v))" by (rule clean_app_path [OF streams])
  have mk: "APP_MUTATED \<in> set (map ae_kind (app_of v))" using mut by (force simp: list_ex_iff)
  have app: "a_first v APP_REFUSED = None" "a_first v APP_EXECUTED \<noteq> None" "a_first v APP_MUTATED \<noteq> None"
    using app_path_mutated_not_refused [OF path mk] app_path_executed [OF path mk] mut
    by (force simp: find_None_iff list_ex_iff)+
  have here: "p_first v EGRESS_ATTEMPTED \<noteq> None" "p_first v PROOF_ISSUED \<noteq> None"
    "b_first v BOUNDARY_ADMITTED \<noteq> None" "b_first v APP_PROOF_ISSUED \<noteq> None"
    "a_first v APP_ADMITTED \<noteq> None"
    using complete by (auto simp: protectedLineageComplete_def split: option.splits)
  have rej: "b_first v BOUNDARY_REJECTED = None"
    using chain(1) assms(4) by (auto simp: chain_start_findings_def Let_def split: option.splits)
  have att: "has_kind EGRESS_ATTEMPTED (lv_plane v)" using here(1) by (simp add: find_None_list_ex)
  have pass: "fst (l1_part v) \<in> {L1_natural_pass, L1_simulated_pass}"
    using runs_egress_needs_pass [OF run] runs_entered [OF run] att
    unfolding l1_part_passed has_kind_first [symmetric] has_kind_iff by blast
  have go: "\<not> (lv_l2 v \<and> fst (l2_part v) \<in> {L2_shed, L2_error})"
    using egress_decision_proceeds [OF assms(3) _ prot att] l2_part_refused by blast
  show "pr_deepest (penetrationOf v) = St_app_mutated"
  proof (cases v rule: penetration_cases)
    case (egress start)
    have "downstream_part v start = (St_app_mutated, ''app_mutated'')"
      using here rej app by (simp add: downstream_part_def Let_def)
    with egress(5) show ?thesis by simp
  qed (use pass go here(1) in auto)
next
  assume deep: "pr_deepest (penetrationOf v) = St_app_mutated"
  show "app_has v APP_MUTATED"
  proof (cases v rule: penetration_cases)
    case (egress start)
    from downstream_evidence(6) [OF egress(5,4)] deep show ?thesis by (simp add: find_None_list_ex)
  qed (use deep in auto)
qed

subsection \<open>Witnesses\<close>

lemma sample_chain_l2_clean: "validateL2Lifecycle sample_chain True = []"
  by code_simp

theorem penetration_depth_has_evidence_witness:
  "pr_deepest (penetrationOf sample_chain) = St_app_mutated \<and> app_has sample_chain APP_MUTATED"
proof -
  have "pr_deepest (penetrationOf sample_chain) = St_app_mutated" by code_simp
  with penetration_depth_has_evidence [of sample_chain] show ?thesis by blast
qed

theorem mutated_depth_iff_mutation_witness:
  "pr_deepest (penetrationOf sample_chain) = St_app_mutated"
  using mutated_depth_iff_mutation [OF sample_chain_clean sample_chain_l2_clean sample_chain_shape(1,2)]
  by (simp add: sample_chain_def app_of_def aev_def)

end
