(* ===== verification/Collector.thy ===== *)
theory Collector
  imports Penetration Event_Channel
begin

text \<open>
  The authoritative ledger of a run, \<^verbatim>\<open>lab/defense/collector.ts\<close>: every operation of the class
  \<^verbatim>\<open>Collector\<close> that changes its state, and \<^verbatim>\<open>finalize\<close>. Not part of the state: the journal file (its
  overflow flag is an argument of \<open>finalize\<close>) and the external lane, which only field runs enable and
  \<^verbatim>\<open>Field_Collector\<close> adds. A \<^verbatim>\<open>PARSER_REJECTED\<close> event has no nonce: it is the constructor
  \<open>ParserRejected\<close> of the plane items. A run is a list of operations. The theorems show that a run
  whose \<^verbatim>\<open>anomalyTotal\<close> is zero received every event the plane emitted, exactly once and in order, and
  that every request in it satisfies the three validators.
\<close>

datatype plane_item = PlaneItem plane_event | ParserRejected int string

primrec item_seq :: "plane_item \<Rightarrow> int" where
  "item_seq (PlaneItem e) = pe_seq e"
| "item_seq (ParserRejected s c) = s"

primrec item_nonce :: "plane_item \<Rightarrow> string option" where
  "item_nonce (PlaneItem e) = pe_nonce e"
| "item_nonce (ParserRejected s c) = None"

primrec item_kind_name :: "plane_item \<Rightarrow> string" where
  "item_kind_name (PlaneItem e) = plane_kind_name (pe_kind e)"
| "item_kind_name (ParserRejected s c) = ''PARSER_REJECTED''"

primrec item_code :: "plane_item \<Rightarrow> string" where
  "item_code (PlaneItem e) = ''unknown''"
| "item_code (ParserRejected s c) = c"

datatype request_class = Canary | Hostile
datatype request_method = MGet | MPost | MOther

record request_meta =
  rm_lane :: expected_lane
  rm_phase :: string
  rm_cls :: request_class
  rm_scenario :: string
  rm_journey :: "int option"
  rm_step :: "int option"
  rm_method :: request_method

record ledger_record =
  rec_rid :: string
  rec_nonce :: string
  rec_meta :: request_meta
  rec_harness :: "harness_event list"
  rec_plane :: "plane_event list"
  rec_origin :: "origin_event list"
  rec_boundary :: "boundary_event list"
  rec_app :: "app_event list"
  rec_latencyMs :: "instant option"

record collector_limits =
  cl_maxRequests :: nat
  cl_maxEventsPerRecord :: nat
  cl_maxJournalBytes :: nat
  cl_maxAnomalies :: nat

record fin_report =
  fin_drained :: bool
  fin_channel :: channel_stats

record stream_state =
  ss_lastSeq :: int
  ss_received :: int
  ss_droppedReported :: int
  ss_crashed :: "string option"
  ss_fin :: "fin_report option"
  ss_anonymous :: "(string, nat) jsmap"

record collector =
  co_limits :: collector_limits
  co_records :: "(string, ledger_record) jsmap"
  co_anomalyList :: "anomaly list"
  co_anomalyCount :: nat
  co_plane :: stream_state
  co_frozen :: bool
  co_lateEvents :: nat
  co_nextRid :: nat
  co_capacityExceeded :: bool
  co_originStreams :: bool
  co_laneStreams :: bool
  co_boundary :: stream_state
  co_app :: stream_state

definition new_stream :: stream_state where
  "new_stream = \<lparr>ss_lastSeq = 0, ss_received = 0, ss_droppedReported = 0, ss_crashed = None,
     ss_fin = None, ss_anonymous = []\<rparr>"

definition new_collector :: "collector_limits \<Rightarrow> collector" where
  "new_collector l = \<lparr>co_limits = l, co_records = [], co_anomalyList = [], co_anomalyCount = 0,
     co_plane = new_stream, co_frozen = False, co_lateEvents = 0, co_nextRid = 1,
     co_capacityExceeded = False, co_originStreams = False, co_laneStreams = False,
     co_boundary = new_stream, co_app = new_stream\<rparr>"

definition DEFAULT_COLLECTOR_LIMITS :: collector_limits where
  "DEFAULT_COLLECTOR_LIMITS = \<lparr>cl_maxRequests = 20000, cl_maxEventsPerRecord = 32,
     cl_maxJournalBytes = 8 * 1048576, cl_maxAnomalies = 200\<rparr>"

subsection \<open>Anomalies and harness events\<close>

definition co_anomaly :: "anomaly_code \<Rightarrow> string option \<Rightarrow> string \<Rightarrow> collector \<Rightarrow> collector" where
  "co_anomaly code nonce detail s =
     (let tag = map_option (\<lambda>n. case map_of (co_records s) n of None \<Rightarrow> ''unknown'' | Some r \<Rightarrow> rec_rid r) nonce in
      s\<lparr>co_anomalyCount := Suc (co_anomalyCount s),
        co_anomalyList := (if length (co_anomalyList s) < cl_maxAnomalies (co_limits s)
          then co_anomalyList s @ [\<lparr>an_code = code, an_nonce = tag, an_detail = detail\<rparr>]
          else co_anomalyList s)\<rparr>)"

definition co_late :: "string option \<Rightarrow> string \<Rightarrow> collector \<Rightarrow> collector" where
  "co_late nonce detail s =
     co_anomaly late_event_after_finalization nonce detail (s\<lparr>co_lateEvents := Suc (co_lateEvents s)\<rparr>)"

definition sent_event :: harness_event where
  "sent_event = \<lparr>he_kind = SENT, he_result = None, he_status = None, he_outcomeHeader = None\<rparr>"

definition co_sent :: "string \<Rightarrow> request_meta \<Rightarrow> collector \<Rightarrow> collector \<times> bool" where
  "co_sent nonce meta s =
     (if co_frozen s then (co_late None ''SENT'' s, False)
      else if map_of (co_records s) nonce \<noteq> None then
        (co_anomaly duplicate_nonce_sent (Some nonce) ''SENT'' s, False)
      else if length (co_records s) \<ge> cl_maxRequests (co_limits s) then
        (if co_capacityExceeded s then s
         else co_anomaly ledger_capacity_exceeded None
           (''maxRequests '' @ show_nat (cl_maxRequests (co_limits s))) (s\<lparr>co_capacityExceeded := True\<rparr>), False)
      else
        (s\<lparr>co_nextRid := Suc (co_nextRid s),
           co_records := co_records s @ [(nonce, \<lparr>rec_rid = ''r'' @ show_nat (co_nextRid s),
             rec_nonce = nonce, rec_meta = meta, rec_harness = [sent_event], rec_plane = [],
             rec_origin = [], rec_boundary = [], rec_app = [], rec_latencyMs = None\<rparr>)]\<rparr>, True))"

definition put_record :: "string \<Rightarrow> ledger_record \<Rightarrow> collector \<Rightarrow> collector" where
  "put_record nonce r s = s\<lparr>co_records := AList.update nonce r (co_records s)\<rparr>"

definition co_clientCompleted ::
  "string \<Rightarrow> client_result_kind \<Rightarrow> int option \<Rightarrow> string option \<Rightarrow> instant \<Rightarrow> collector \<Rightarrow> collector" where
  "co_clientCompleted nonce result status outcomeHeader latency s =
     (if co_frozen s then co_late (Some nonce) ''CLIENT_COMPLETED'' s
      else case map_of (co_records s) nonce of
        None \<Rightarrow> co_anomaly unknown_nonce None ''CLIENT_COMPLETED'' s
      | Some r \<Rightarrow>
          if length (rec_harness r) \<ge> cl_maxEventsPerRecord (co_limits s) then s
          else put_record nonce (r\<lparr>rec_harness := rec_harness r @
            [\<lparr>he_kind = CLIENT_COMPLETED, he_result = Some result, he_status = status,
              he_outcomeHeader = outcomeHeader\<rparr>], rec_latencyMs := Some latency\<rparr>) s)"

subsection \<open>Event frames\<close>

text \<open>The stream integrity checks every frame loop starts with: the updated stream state and the anomaly,
  if any. \<open>pre\<close> is the stream's name in the detail, \<open>loss\<close> its loss code.\<close>

definition seq_check ::
  "anomaly_code \<Rightarrow> string \<Rightarrow> int \<Rightarrow> stream_state \<Rightarrow> (anomaly_code \<times> string) option \<times> stream_state" where
  "seq_check loss pre seq st =
     ((if seq \<le> ss_lastSeq st then Some (duplicate_sequence, pre @ ''seq '' @ show_int seq)
       else if seq > ss_lastSeq st + 1 then
         Some (loss, ''gap of '' @ show_int (seq - ss_lastSeq st - 1) @ '' before seq '' @ show_int seq)
       else None),
      st\<lparr>ss_received := ss_received st + 1, ss_lastSeq := max (ss_lastSeq st) seq\<rparr>)"

definition report :: "(anomaly_code \<times> string) option \<Rightarrow> string option \<Rightarrow> collector \<Rightarrow> collector" where
  "report finding nonce s = (case finding of None \<Rightarrow> s | Some (c, d) \<Rightarrow> co_anomaly c nonce d s)"

definition bump :: "string \<Rightarrow> stream_state \<Rightarrow> stream_state" where
  "bump k st = st\<lparr>ss_anonymous := AList.update k
     (Suc (case map_of (ss_anonymous st) k of None \<Rightarrow> 0 | Some n \<Rightarrow> n)) (ss_anonymous st)\<rparr>"

text \<open>A record in hand has room: the body of the loop after the record was found.\<close>

definition push_capped ::
  "nat \<Rightarrow> string \<Rightarrow> (ledger_record \<Rightarrow> ledger_record) \<Rightarrow> collector \<Rightarrow> collector" where
  "push_capped len nonce f s =
     (if len \<ge> cl_maxEventsPerRecord (co_limits s)
      then co_anomaly ledger_capacity_exceeded (Some nonce) ''events per record'' s
      else case map_of (co_records s) nonce of None \<Rightarrow> s | Some r \<Rightarrow> put_record nonce (f r) s)"

definition ingest_plane_item :: "plane_item \<Rightarrow> collector \<Rightarrow> collector" where
  "ingest_plane_item item s0 =
     (let (finding, st) = seq_check event_channel_loss [] (item_seq item) (co_plane s0);
          s = report finding (item_nonce item) (s0\<lparr>co_plane := st\<rparr>) in
      if co_frozen s then co_late (item_nonce item) (item_kind_name item) s
      else case item of
        ParserRejected _ code \<Rightarrow> s\<lparr>co_plane := bump code (co_plane s)\<rparr>
      | PlaneItem e \<Rightarrow> (case pe_nonce e of
          None \<Rightarrow> s\<lparr>co_plane := bump (item_code item) (co_plane s)\<rparr>
        | Some nonce \<Rightarrow> (case map_of (co_records s) nonce of
            None \<Rightarrow> co_anomaly (if pe_uncorrelated e then uncorrelated_ingress else unknown_nonce) None
              (plane_kind_name (pe_kind e)) s
          | Some r \<Rightarrow> push_capped (length (rec_plane r)) nonce (\<lambda>r. r\<lparr>rec_plane := rec_plane r @ [e]\<rparr>) s)))"

definition ingestFrame :: "plane_item list \<Rightarrow> int \<Rightarrow> collector \<Rightarrow> collector \<times> int" where
  "ingestFrame events dropped s =
     (let s' = fold ingest_plane_item events (s\<lparr>co_plane := (co_plane s)
            \<lparr>ss_droppedReported := max (ss_droppedReported (co_plane s)) dropped\<rparr>\<rparr>)
      in (s', ss_received (co_plane s')))"

definition origin_kind_name :: "origin_event_kind \<Rightarrow> string" where
  "origin_kind_name k = (case k of ORIGIN_RECEIVED \<Rightarrow> ''ORIGIN_RECEIVED''
     | ORIGIN_COMPLETED \<Rightarrow> ''ORIGIN_COMPLETED'' | ORIGIN_ABORTED \<Rightarrow> ''ORIGIN_ABORTED'')"

definition ingestOrigin :: "origin_event \<Rightarrow> collector \<Rightarrow> collector" where
  "ingestOrigin e s =
     (if co_frozen s then co_late (oe_nonce e) (origin_kind_name (oe_kind e)) s
      else case Option.bind (oe_nonce e) (map_of (co_records s)) of
        None \<Rightarrow> co_anomaly unknown_nonce None (origin_kind_name (oe_kind e)) s
      | Some r \<Rightarrow> push_capped (length (rec_origin r)) (the (oe_nonce e))
          (\<lambda>r. r\<lparr>rec_origin := rec_origin r @ [e]\<rparr>) s)"

definition ingest_boundary_event :: "boundary_event \<Rightarrow> collector \<Rightarrow> collector" where
  "ingest_boundary_event e s0 =
     (let (finding, st) = seq_check boundary_channel_loss ''boundary '' (be_seq e) (co_boundary s0);
          s = report finding (be_nonce e) (s0\<lparr>co_boundary := st\<rparr>);
          kind = boundary_kind_name (be_kind e) in
      if co_frozen s then co_late (be_nonce e) kind s
      else case be_nonce e of
        None \<Rightarrow> s\<lparr>co_boundary := bump kind (co_boundary s)\<rparr>
      | Some nonce \<Rightarrow> (case map_of (co_records s) nonce of
          None \<Rightarrow> co_anomaly unknown_nonce None kind s
        | Some r \<Rightarrow> push_capped (length (rec_boundary r)) nonce
            (\<lambda>r. r\<lparr>rec_boundary := rec_boundary r @ [e]\<rparr>) s))"

definition ingestBoundaryFrame :: "boundary_event list \<Rightarrow> int \<Rightarrow> collector \<Rightarrow> collector \<times> int" where
  "ingestBoundaryFrame events dropped s =
     (let s' = fold ingest_boundary_event events (s\<lparr>co_boundary := (co_boundary s)
            \<lparr>ss_droppedReported := max (ss_droppedReported (co_boundary s)) dropped\<rparr>\<rparr>)
      in (s', ss_received (co_boundary s')))"

text \<open>The legacy origin events derived from an application event.\<close>

definition derived_origin :: "string \<Rightarrow> app_event \<Rightarrow> origin_event list" where
  "derived_origin nonce e =
     (case ae_kind e of
        APP_ADMITTED \<Rightarrow> [\<lparr>oe_instance = Protected, oe_nonce = Some nonce, oe_kind = ORIGIN_RECEIVED,
          oe_hop = ae_hop e, oe_status = None,
          oe_spoofed = Some (case ae_spoofed e of None \<Rightarrow> 0 | Some n \<Rightarrow> n)\<rparr>]
      | APP_COMPLETED \<Rightarrow> [\<lparr>oe_instance = Protected, oe_nonce = Some nonce, oe_kind = ORIGIN_COMPLETED,
          oe_hop = ae_hop e, oe_status = ae_status e, oe_spoofed = None\<rparr>]
      | APP_ABORTED \<Rightarrow> [\<lparr>oe_instance = Protected, oe_nonce = Some nonce, oe_kind = ORIGIN_ABORTED,
          oe_hop = ae_hop e, oe_status = None, oe_spoofed = None\<rparr>]
      | _ \<Rightarrow> [])"

definition ingest_app_event :: "app_event \<Rightarrow> collector \<Rightarrow> collector" where
  "ingest_app_event e s0 =
     (let (finding, st) = seq_check app_channel_loss ''app '' (ae_seq e) (co_app s0);
          s = report finding (ae_nonce e) (s0\<lparr>co_app := st\<rparr>);
          kind = app_kind_name (ae_kind e) in
      if co_frozen s then co_late (ae_nonce e) kind s
      else case Option.bind (ae_nonce e) (map_of (co_records s)) of
        None \<Rightarrow>
          if ae_kind e = APP_REFUSED then s\<lparr>co_app := bump kind (co_app s)\<rparr>
          else co_anomaly unknown_nonce None kind s
      | Some r \<Rightarrow> push_capped (length (rec_app r)) (the (ae_nonce e))
          (\<lambda>r. r\<lparr>rec_app := rec_app r @ [e], rec_origin := rec_origin r @ derived_origin (rec_nonce r) e\<rparr>) s)"

definition ingestAppFrame :: "app_event list \<Rightarrow> int \<Rightarrow> collector \<Rightarrow> collector \<times> int" where
  "ingestAppFrame events dropped s =
     (let s' = fold ingest_app_event events (s\<lparr>co_app := (co_app s)
            \<lparr>ss_droppedReported := max (ss_droppedReported (co_app s)) dropped\<rparr>\<rparr>)
      in (s', ss_received (co_app s')))"

subsection \<open>Process level\<close>

definition stream_exited :: "string \<Rightarrow> stream_state \<Rightarrow> stream_state" where
  "stream_exited detail st =
     (if ss_crashed st = None \<and> ss_fin st = None then st\<lparr>ss_crashed := Some detail\<rparr> else st)"

datatype stream_name = SPlane | SBoundary | SApp

definition map_stream :: "stream_name \<Rightarrow> (stream_state \<Rightarrow> stream_state) \<Rightarrow> collector \<Rightarrow> collector" where
  "map_stream n f s = (case n of
     SPlane \<Rightarrow> s\<lparr>co_plane := f (co_plane s)\<rparr>
   | SBoundary \<Rightarrow> s\<lparr>co_boundary := f (co_boundary s)\<rparr>
   | SApp \<Rightarrow> s\<lparr>co_app := f (co_app s)\<rparr>)"

text \<open>\<^verbatim>\<open>planeExited\<close>, \<^verbatim>\<open>boundaryExited\<close>, \<^verbatim>\<open>appExited\<close> and the three \<^verbatim>\<open>...Finished\<close>.\<close>

definition co_exited :: "stream_name \<Rightarrow> string \<Rightarrow> collector \<Rightarrow> collector" where
  "co_exited n detail = map_stream n (stream_exited detail)"

definition co_finished :: "stream_name \<Rightarrow> fin_report \<Rightarrow> collector \<Rightarrow> collector" where
  "co_finished n fin = map_stream n (\<lambda>st. st\<lparr>ss_fin := Some fin\<rparr>)"

subsection \<open>finalize\<close>

definition view_of :: "collector \<Rightarrow> ledger_record \<Rightarrow> lifecycle_view" where
  "view_of s r = \<lparr>lv_nonce = rec_nonce r, lv_expected = rm_lane (rec_meta r), lv_harness = rec_harness r,
     lv_plane = rec_plane r, lv_origin = rec_origin r,
     lv_boundary = (if co_originStreams s then Some (rec_boundary r) else None),
     lv_app = (if co_originStreams s then Some (rec_app r) else None),
     lv_l2 = co_laneStreams s\<rparr>"

definition record_findings :: "collector \<Rightarrow> ledger_record \<Rightarrow> anomaly list" where
  "record_findings s r = map (\<lambda>a. a\<lparr>an_nonce := Some (rec_rid r)\<rparr>)
     (validateLifecycle (view_of s r) True @ validateOriginLineage (view_of s r) True
      @ validateL2Lifecycle (view_of s r) True)"

definition run_anomaly :: "anomaly_code \<Rightarrow> string \<Rightarrow> anomaly" where
  "run_anomaly code detail = \<lparr>an_code = code, an_nonce = None, an_detail = detail\<rparr>"

definition stream_final ::
  "string \<Rightarrow> anomaly_code \<Rightarrow> anomaly_code \<Rightarrow> anomaly_code \<Rightarrow> stream_state \<Rightarrow> anomaly list" where
  "stream_final name crashed notFinal loss st =
     (case ss_crashed st of
        Some d \<Rightarrow> [run_anomaly crashed d]
      | None \<Rightarrow> (case ss_fin st of
          None \<Rightarrow> [run_anomaly notFinal (''no FIN from the '' @ name)]
        | Some fin \<Rightarrow>
            let ch = fin_channel fin in
            flag (\<not> fin_drained fin) (run_anomaly loss (name @ '' could not drain its queue''))
            @ flag (cs_dropped ch > 0 \<or> ss_droppedReported st > 0)
                (run_anomaly loss (name @ '' dropped ''
                   @ show_int (max (cs_dropped ch) (ss_droppedReported st)) @ '' events''))
            @ flag (cs_lastSeq ch \<noteq> ss_lastSeq st)
                (run_anomaly loss (name @ '' last seq '' @ show_int (cs_lastSeq ch)
                   @ '', collector last seq '' @ show_int (ss_lastSeq st)))
            @ flag (cs_emitted ch \<noteq> ss_received st + cs_dropped ch)
                (run_anomaly loss (name @ '' emitted '' @ show_int (cs_emitted ch)
                   @ '', collector received '' @ show_int (ss_received st)))))"

definition final_findings :: "bool \<Rightarrow> collector \<Rightarrow> anomaly list" where
  "final_findings journalOverflow s =
     concat (map (record_findings s) (map snd (co_records s)))
     @ (if co_originStreams s then
          stream_final ''boundary'' boundary_crashed boundary_not_finalized boundary_channel_loss (co_boundary s)
          @ stream_final ''app'' app_crashed app_not_finalized app_channel_loss (co_app s)
        else [])
     @ stream_final ''plane'' plane_crashed plane_not_finalized event_channel_loss (co_plane s)
     @ flag journalOverflow (run_anomaly journal_overflow
         (''journal reached '' @ show_nat (cl_maxJournalBytes (co_limits s)) @ '' bytes''))
     @ flag (co_lateEvents s > 0) (run_anomaly late_event_after_finalization
         (show_nat (co_lateEvents s) @ '' events after the ledger froze''))"

definition finalize :: "bool \<Rightarrow> collector \<Rightarrow> anomaly list \<times> nat" where
  "finalize journalOverflow s =
     (let found = final_findings journalOverflow s in
      (take (cl_maxAnomalies (co_limits s)) (co_anomalyList s @ found), co_anomalyCount s + length found))"

subsection \<open>Runs\<close>

datatype collector_op =
    OpSent string request_meta
  | OpCompleted string client_result_kind "int option" "string option" instant
  | OpPlane "plane_item list" int
  | OpBoundary "boundary_event list" int
  | OpApp "app_event list" int
  | OpOrigin origin_event
  | OpExited stream_name string
  | OpFinished stream_name fin_report
  | OpFreeze
  | OpEnableOriginStreams
  | OpEnableLaneStreams

primrec apply_op :: "collector_op \<Rightarrow> collector \<Rightarrow> collector" where
  "apply_op (OpSent n m) s = fst (co_sent n m s)"
| "apply_op (OpCompleted n r st h ms) s = co_clientCompleted n r st h ms s"
| "apply_op (OpPlane es d) s = fst (ingestFrame es d s)"
| "apply_op (OpBoundary es d) s = fst (ingestBoundaryFrame es d s)"
| "apply_op (OpApp es d) s = fst (ingestAppFrame es d s)"
| "apply_op (OpOrigin e) s = ingestOrigin e s"
| "apply_op (OpExited n d) s = co_exited n d s"
| "apply_op (OpFinished n f) s = co_finished n f s"
| "apply_op OpFreeze s = s\<lparr>co_frozen := True\<rparr>"
| "apply_op OpEnableOriginStreams s = s\<lparr>co_originStreams := True\<rparr>"
| "apply_op OpEnableLaneStreams s = s\<lparr>co_laneStreams := True\<rparr>"

definition run_ops :: "collector_op list \<Rightarrow> collector \<Rightarrow> collector" where
  "run_ops = fold apply_op"

text \<open>The plane events a run delivered to the collector, in order.\<close>

fun op_plane_items :: "collector_op \<Rightarrow> plane_item list" where
  "op_plane_items (OpPlane es d) = es"
| "op_plane_items _ = []"

definition plane_items :: "collector_op list \<Rightarrow> plane_item list" where
  "plane_items ops = concat (map op_plane_items ops)"

text \<open>The position of the collector in the plane stream, and its loss counters so far.\<close>

definition plane_pos :: "collector \<Rightarrow> int \<times> int" where
  "plane_pos s = (ss_lastSeq (co_plane s), ss_received (co_plane s))"

text \<open>\<open>quiet s t\<close>: from \<open>s\<close> to \<open>t\<close> anomalies only accumulate, and the plane stream does not move.\<close>

definition quiet :: "collector \<Rightarrow> collector \<Rightarrow> bool" where
  "quiet s t \<longleftrightarrow> co_anomalyCount s \<le> co_anomalyCount t \<and> plane_pos t = plane_pos s"

lemma quiet_refl [simp, intro]: "quiet s s"
  by (simp add: quiet_def)

lemma quiet_trans [trans]: "quiet s t \<Longrightarrow> quiet t u \<Longrightarrow> quiet s u"
  by (auto simp: quiet_def)

lemma quiet_same: "co_anomalyCount t = co_anomalyCount s \<Longrightarrow> plane_pos t = plane_pos s \<Longrightarrow> quiet s t"
  by (simp add: quiet_def)

lemma co_anomaly_count [simp]: "co_anomalyCount (co_anomaly c n d s) = Suc (co_anomalyCount s)"
  by (simp add: co_anomaly_def Let_def)

lemma co_anomaly_fields [simp]:
  "co_plane (co_anomaly c n d s) = co_plane s" "co_frozen (co_anomaly c n d s) = co_frozen s"
  "co_records (co_anomaly c n d s) = co_records s" "co_limits (co_anomaly c n d s) = co_limits s"
  by (simp_all add: co_anomaly_def Let_def)

lemma quiet_anomaly [simp, intro]: "quiet s (co_anomaly c n d s)"
  by (simp add: quiet_def plane_pos_def)

lemma co_late_count [simp]: "co_anomalyCount (co_late n d s) = Suc (co_anomalyCount s)"
  by (simp add: co_late_def)

lemma quiet_late [simp, intro]: "quiet s (co_late n d s)"
  by (simp add: quiet_def plane_pos_def co_late_def)

lemma quiet_put [simp, intro]: "quiet s (put_record n r s)"
  by (simp add: quiet_def plane_pos_def put_record_def)

lemma quiet_push [simp, intro]: "quiet s (push_capped k n f s)"
  by (auto simp: push_capped_def split: option.splits)

lemma quiet_report [simp, intro]: "quiet s (report x n s)"
  by (auto simp: report_def split: option.splits)

lemma quiet_bump: "quiet s (s\<lparr>co_plane := bump k (co_plane s)\<rparr>)"
  by (simp add: quiet_def plane_pos_def bump_def)

lemma quiet_other [simp]:
  "quiet s (s\<lparr>co_boundary := st\<rparr>)" "quiet s (s\<lparr>co_app := st\<rparr>)" "quiet s (s\<lparr>co_capacityExceeded := b\<rparr>)"
  by (simp_all add: quiet_def plane_pos_def)

lemma quiet_fold: "(\<And>x s. quiet s (f x s)) \<Longrightarrow> quiet s (fold f xs s)"
  by (induction xs arbitrary: s) (auto intro: quiet_trans)

lemma quiet_boundary_event: "quiet s (ingest_boundary_event e s)"
proof -
  obtain f st where c: "seq_check boundary_channel_loss ''boundary '' (be_seq e) (co_boundary s) = (f, st)"
    by (cases "seq_check boundary_channel_loss ''boundary '' (be_seq e) (co_boundary s)")
  let ?s = "report f (be_nonce e) (s\<lparr>co_boundary := st\<rparr>)"
  have "quiet s ?s" by (rule quiet_trans [OF quiet_other(1) quiet_report])
  moreover have "quiet ?s (ingest_boundary_event e s)"
    by (auto simp: ingest_boundary_event_def c Let_def split: option.splits)
  ultimately show ?thesis by (rule quiet_trans)
qed

lemma quiet_app_event: "quiet s (ingest_app_event e s)"
proof -
  obtain f st where c: "seq_check app_channel_loss ''app '' (ae_seq e) (co_app s) = (f, st)"
    by (cases "seq_check app_channel_loss ''app '' (ae_seq e) (co_app s)")
  let ?s = "report f (ae_nonce e) (s\<lparr>co_app := st\<rparr>)"
  have "quiet s ?s" by (rule quiet_trans [OF quiet_other(2) quiet_report])
  moreover have "quiet ?s (ingest_app_event e s)"
    by (auto simp: ingest_app_event_def c Let_def split: option.splits)
  ultimately show ?thesis by (rule quiet_trans)
qed

lemma quiet_op:
  assumes "\<nexists>es d. op = OpPlane es d"
  shows "quiet s (apply_op op s)"
proof (cases op)
  case (OpSent n m)
  have "quiet s (co_anomaly c k d (s\<lparr>co_capacityExceeded := True\<rparr>))" for c k d
    by (rule quiet_trans [OF quiet_other(3) quiet_anomaly])
  then show ?thesis using OpSent by (auto simp: co_sent_def co_late_def quiet_def plane_pos_def)
next
  case (OpBoundary es d)
  have "quiet s (fst (ingestBoundaryFrame es d s))"
    unfolding ingestBoundaryFrame_def Let_def fst_conv
    by (rule quiet_trans [OF quiet_other(1) quiet_fold [OF quiet_boundary_event]])
  then show ?thesis by (simp add: OpBoundary)
next
  case (OpApp es d)
  have "quiet s (fst (ingestAppFrame es d s))"
    unfolding ingestAppFrame_def Let_def fst_conv
    by (rule quiet_trans [OF quiet_other(2) quiet_fold [OF quiet_app_event]])
  then show ?thesis by (simp add: OpApp)
next
  case (OpExited n d)
  then show ?thesis
    by (cases n) (auto simp: co_exited_def map_stream_def stream_exited_def quiet_def plane_pos_def)
next
  case (OpFinished n f)
  then show ?thesis by (cases n) (auto simp: co_finished_def map_stream_def quiet_def plane_pos_def)
next
  case (OpPlane es d)
  with assms show ?thesis by blast
qed (auto simp: co_clientCompleted_def ingestOrigin_def quiet_same plane_pos_def split: option.splits)

text \<open>A plane event that raises no anomaly is the next of the stream.\<close>

lemma plane_item_step:
  assumes "co_anomalyCount (ingest_plane_item item s) = 0"
  shows "co_anomalyCount s = 0" "item_seq item = ss_lastSeq (co_plane s) + 1"
    "plane_pos (ingest_plane_item item s) = (item_seq item, ss_received (co_plane s) + 1)"
proof -
  obtain f st where c: "seq_check event_channel_loss [] (item_seq item) (co_plane s) = (f, st)"
    by (cases "seq_check event_channel_loss [] (item_seq item) (co_plane s)")
  let ?s = "report f (item_nonce item) (s\<lparr>co_plane := st\<rparr>)"
  have q: "quiet ?s (ingest_plane_item item s)"
    by (auto simp: ingest_plane_item_def c Let_def intro: quiet_bump split: option.splits plane_item.splits)
  have r: "quiet (s\<lparr>co_plane := st\<rparr>) ?s" by simp
  have f: "f = None"
    using q assms by (cases f) (auto simp: quiet_def report_def)
  show "co_anomalyCount s = 0" using q r assms by (auto simp: quiet_def)
  show seq: "item_seq item = ss_lastSeq (co_plane s) + 1"
    using c f by (auto simp: seq_check_def split: if_splits)
  show "plane_pos (ingest_plane_item item s) = (item_seq item, ss_received (co_plane s) + 1)"
    using q r c seq by (auto simp: quiet_def plane_pos_def seq_check_def)
qed

lemma plane_items_step:
  assumes "co_anomalyCount (fold ingest_plane_item items s) = 0"
  shows "co_anomalyCount s = 0
    \<and> map item_seq items = [ss_lastSeq (co_plane s) + 1 .. ss_lastSeq (co_plane s) + int (length items)]
    \<and> plane_pos (fold ingest_plane_item items s)
        = (ss_lastSeq (co_plane s) + int (length items), ss_received (co_plane s) + int (length items))"
  using assms
proof (induction items arbitrary: s)
  case Nil
  then show ?case by (simp add: plane_pos_def)
next
  case (Cons x xs)
  let ?s = "ingest_plane_item x s"
  from Cons have IH: "co_anomalyCount ?s = 0"
    "map item_seq xs = [ss_lastSeq (co_plane ?s) + 1 .. ss_lastSeq (co_plane ?s) + int (length xs)]"
    "plane_pos (fold ingest_plane_item xs ?s)
      = (ss_lastSeq (co_plane ?s) + int (length xs), ss_received (co_plane ?s) + int (length xs))"
    by auto
  note step = plane_item_step [OF IH(1)]
  have pos: "ss_lastSeq (co_plane ?s) = ss_lastSeq (co_plane s) + 1"
    "ss_received (co_plane ?s) = ss_received (co_plane s) + 1"
    using step by (auto simp: plane_pos_def)
  have "map item_seq (x # xs) = [ss_lastSeq (co_plane s) + 1 .. ss_lastSeq (co_plane s) + 1 + int (length xs)]"
    using IH(2) pos step(2) by (simp add: upto_rec1)
  then show ?case using IH(3) pos step(1) by (simp add: add.assoc)
qed

lemma upto_shift_append:
  fixes p a b :: int
  assumes "0 \<le> a" "0 \<le> b"
  shows "[p + 1 .. p + a] @ [p + a + 1 .. p + a + b] = [p + 1 .. p + a + b]"
proof (cases "a = 0")
  case False
  with assms show ?thesis by (intro upto_split2 [symmetric]) auto
qed simp

lemma run_plane_position:
  assumes "co_anomalyCount (run_ops ops s) = 0"
  shows "co_anomalyCount s = 0
    \<and> map item_seq (plane_items ops)
        = [ss_lastSeq (co_plane s) + 1 .. ss_lastSeq (co_plane s) + int (length (plane_items ops))]
    \<and> plane_pos (run_ops ops s)
        = (ss_lastSeq (co_plane s) + int (length (plane_items ops)),
           ss_received (co_plane s) + int (length (plane_items ops)))"
  using assms
proof (induction ops arbitrary: s)
  case Nil
  then show ?case by (simp add: run_ops_def plane_items_def plane_pos_def)
next
  case (Cons op ops)
  let ?s = "apply_op op s" and ?n = "int (length (plane_items ops))"
  from Cons have IH: "co_anomalyCount ?s = 0"
    "map item_seq (plane_items ops) = [ss_lastSeq (co_plane ?s) + 1 .. ss_lastSeq (co_plane ?s) + ?n]"
    "plane_pos (run_ops ops ?s) = (ss_lastSeq (co_plane ?s) + ?n, ss_received (co_plane ?s) + ?n)"
    by (auto simp: run_ops_def)
  show ?case
  proof (cases "\<exists>es d. op = OpPlane es d")
    case False
    then have "quiet s ?s" "op_plane_items op = []" by (auto simp: quiet_op) (cases op; auto)
    with IH show ?thesis by (auto simp: quiet_def plane_pos_def plane_items_def run_ops_def)
  next
    case True
    then obtain es d where op: "op = OpPlane es d" by blast
    let ?base = "s\<lparr>co_plane := (co_plane s)\<lparr>ss_droppedReported := max (ss_droppedReported (co_plane s)) d\<rparr>\<rparr>"
    have s: "?s = fold ingest_plane_item es ?base" by (simp add: op ingestFrame_def Let_def)
    from plane_items_step [of es ?base] IH(1) have st: "co_anomalyCount s = 0"
      "map item_seq es = [ss_lastSeq (co_plane s) + 1 .. ss_lastSeq (co_plane s) + int (length es)]"
      "ss_lastSeq (co_plane ?s) = ss_lastSeq (co_plane s) + int (length es)"
      "ss_received (co_plane ?s) = ss_received (co_plane s) + int (length es)"
      unfolding s by (auto simp: plane_pos_def)
    have items: "plane_items (op # ops) = es @ plane_items ops" by (simp add: plane_items_def op)
    have "map item_seq (plane_items (op # ops))
      = [ss_lastSeq (co_plane s) + 1 .. ss_lastSeq (co_plane s) + int (length es)]
        @ [ss_lastSeq (co_plane s) + int (length es) + 1 .. ss_lastSeq (co_plane s) + int (length es) + ?n]"
      using st(2,3) IH(2) items by simp
    also have "\<dots> = [ss_lastSeq (co_plane s) + 1 .. ss_lastSeq (co_plane s) + int (length es) + ?n]"
      by (rule upto_shift_append) simp_all
    finally show ?thesis using IH(3) st items by (simp add: run_ops_def add.assoc)
  qed
qed

subsection \<open>Bounds\<close>

definition co_bounded :: "collector_limits \<Rightarrow> collector \<Rightarrow> bool" where
  "co_bounded l s \<longleftrightarrow> co_limits s = l \<and> length (co_records s) \<le> cl_maxRequests l
     \<and> distinct (map fst (co_records s))
     \<and> length (co_anomalyList s) \<le> cl_maxAnomalies l \<and> length (co_anomalyList s) \<le> co_anomalyCount s"

lemma bounded_cong:
  "co_limits t = co_limits s \<Longrightarrow> co_records t = co_records s \<Longrightarrow> co_anomalyList t = co_anomalyList s
   \<Longrightarrow> co_anomalyCount t = co_anomalyCount s \<Longrightarrow> co_bounded l s \<Longrightarrow> co_bounded l t"
  by (simp add: co_bounded_def)

lemma bounded_anomaly [intro!]: "co_bounded l s \<Longrightarrow> co_bounded l (co_anomaly c n d s)"
  by (auto simp: co_bounded_def co_anomaly_def Let_def)

lemma bounded_updates [simp]:
  "co_bounded l (s\<lparr>co_plane := x\<rparr>) \<longleftrightarrow> co_bounded l s"
  "co_bounded l (s\<lparr>co_boundary := x\<rparr>) \<longleftrightarrow> co_bounded l s"
  "co_bounded l (s\<lparr>co_app := x\<rparr>) \<longleftrightarrow> co_bounded l s"
  "co_bounded l (s\<lparr>co_lateEvents := k\<rparr>) \<longleftrightarrow> co_bounded l s"
  "co_bounded l (s\<lparr>co_capacityExceeded := b\<rparr>) \<longleftrightarrow> co_bounded l s"
  "co_bounded l (s\<lparr>co_frozen := b\<rparr>) \<longleftrightarrow> co_bounded l s"
  "co_bounded l (s\<lparr>co_originStreams := b\<rparr>) \<longleftrightarrow> co_bounded l s"
  "co_bounded l (s\<lparr>co_laneStreams := b\<rparr>) \<longleftrightarrow> co_bounded l s"
  by (simp_all add: co_bounded_def)

lemma bounded_late [intro!]: "co_bounded l s \<Longrightarrow> co_bounded l (co_late n d s)"
  by (auto simp: co_late_def)

lemma length_update_present:
  "map_of xs k = Some v \<Longrightarrow> length (AList.update k w xs) = length xs"
  by (induction xs) (auto split: if_splits)

lemma bounded_put: "co_bounded l s \<Longrightarrow> map_of (co_records s) n = Some v \<Longrightarrow> co_bounded l (put_record n r s)"
  by (simp add: co_bounded_def put_record_def length_update_present distinct_update)

lemma bounded_push [intro!]: "co_bounded l s \<Longrightarrow> co_bounded l (push_capped k n f s)"
  by (auto simp: push_capped_def bounded_put split: option.splits)

lemma bounded_report [intro!]: "co_bounded l s \<Longrightarrow> co_bounded l (report x n s)"
  by (auto simp: report_def split: option.splits)

lemma bounded_plane_item: "co_bounded l s \<Longrightarrow> co_bounded l (ingest_plane_item x s)"
  by (auto simp: ingest_plane_item_def Let_def split: option.splits plane_item.splits prod.splits)

lemma bounded_boundary_event: "co_bounded l s \<Longrightarrow> co_bounded l (ingest_boundary_event x s)"
  by (auto simp: ingest_boundary_event_def Let_def split: option.splits prod.splits)

lemma bounded_app_event: "co_bounded l s \<Longrightarrow> co_bounded l (ingest_app_event x s)"
  by (auto simp: ingest_app_event_def Let_def split: option.splits prod.splits)

lemma bounded_fold: "(\<And>x s. co_bounded l s \<Longrightarrow> co_bounded l (f x s)) \<Longrightarrow> co_bounded l s
   \<Longrightarrow> co_bounded l (fold f xs s)"
  by (induction xs arbitrary: s) auto

lemma bounded_sent: "co_bounded l s \<Longrightarrow> co_bounded l (fst (co_sent n m s))"
  by (auto simp: co_sent_def)
    (auto simp: co_bounded_def map_of_eq_None_iff)

lemma bounded_op: "co_bounded l s \<Longrightarrow> co_bounded l (apply_op op s)"
proof (cases op)
  case (OpExited n d)
  assume "co_bounded l s"
  then show ?thesis using OpExited by (cases n) (auto simp: co_exited_def map_stream_def)
next
  case (OpFinished n f)
  assume "co_bounded l s"
  then show ?thesis using OpFinished by (cases n) (auto simp: co_finished_def map_stream_def)
qed (auto simp: bounded_sent co_clientCompleted_def ingestFrame_def ingestBoundaryFrame_def
    ingestAppFrame_def ingestOrigin_def Let_def bounded_put bounded_plane_item bounded_boundary_event
    bounded_app_event split: option.splits intro!: bounded_fold)

lemma bounded_run: "co_bounded (co_limits s) s \<Longrightarrow> co_bounded (co_limits s) (run_ops ops s)"
  unfolding run_ops_def by (rule bounded_fold) (auto intro: bounded_op)

subsection \<open>Properties\<close>

lemma stream_final_clean:
  assumes "stream_final name crashed notFinal loss st = []"
  obtains fin where "ss_crashed st = None" "ss_fin st = Some fin" "fin_drained fin"
    "cs_dropped (fin_channel fin) \<le> 0" "cs_lastSeq (fin_channel fin) = ss_lastSeq st"
    "cs_emitted (fin_channel fin) = ss_received st + cs_dropped (fin_channel fin)"
  using assms by (auto simp: stream_final_def Let_def split: option.splits)

lemma finalize_zero:
  assumes "snd (finalize jo s) = 0"
  shows "co_anomalyCount s = 0" "final_findings jo s = []"
  using assms by (auto simp: finalize_def Let_def)

text \<open>C2. Loss is never silent. If the collector finalizes a run with \<^verbatim>\<open>anomalyTotal\<close> zero, and the final
  report is the statistics of a channel, then that channel dropped nothing and the events the collector
  received carry exactly the sequence numbers the channel ever issued, each once and in order.\<close>

theorem zero_anomalies_no_plane_event_lost:
  assumes "snd (finalize jo (run_ops ops (new_collector l))) = 0"
    and "ss_fin (co_plane (run_ops ops (new_collector l))) = Some fin"
    and "channel_reach c" "fin_channel fin = stats c"
  shows "ch_dropped c = 0 \<and> map item_seq (plane_items ops) = [1 .. ch_nextSeq c - 1]
    \<and> int (length (plane_items ops)) = ch_emitted c"
proof -
  let ?s = "run_ops ops (new_collector l)"
  have "stream_final ''plane'' plane_crashed plane_not_finalized event_channel_loss (co_plane ?s) = []"
    using finalize_zero(2) [OF assms(1)] by (simp add: final_findings_def)
  then obtain fin' where "ss_fin (co_plane ?s) = Some fin'" and
    f: "cs_dropped (fin_channel fin') \<le> 0" "cs_lastSeq (fin_channel fin') = ss_lastSeq (co_plane ?s)"
      "cs_emitted (fin_channel fin') = ss_received (co_plane ?s) + cs_dropped (fin_channel fin')"
    by (rule stream_final_clean)
  then have st: "fin_channel fin' = stats c" using assms(2,4) by simp
  have core: "channel_core c" using channel_reach_inv [OF assms(3)] by (rule channel_inv_core)
  have dropped: "ch_dropped c = 0"
    using f(1) st core by (auto simp: stats_def channel_core_def)
  from run_plane_position [OF finalize_zero(1) [OF assms(1)]]
  have pos: "map item_seq (plane_items ops) = [1 .. int (length (plane_items ops))]"
    "ss_lastSeq (co_plane ?s) = int (length (plane_items ops))"
    by (auto simp: plane_pos_def new_collector_def new_stream_def)
  with f(2) st have "ch_nextSeq c - 1 = int (length (plane_items ops))" by (simp add: stats_def)
  moreover have "ch_emitted c = ch_nextSeq c - 1" using core by (simp add: channel_core_def)
  ultimately show ?thesis using dropped pos(1) by simp
qed

text \<open>A run with \<^verbatim>\<open>anomalyTotal\<close> zero has only clean requests: every record the collector holds
  satisfies the ledger, lineage and second-layer validators, no event arrived after the freeze, and every
  enabled process reported its end without a crash or a loss.\<close>

theorem zero_anomalies_every_record_clean:
  assumes "snd (finalize jo s) = 0" "(nonce, r) \<in> set (co_records s)"
  shows "validateLifecycle (view_of s r) True = [] \<and> validateOriginLineage (view_of s r) True = []
    \<and> validateL2Lifecycle (view_of s r) True = [] \<and> co_lateEvents s = 0 \<and> \<not> jo
    \<and> (\<exists>fin. ss_fin (co_plane s) = Some fin \<and> fin_drained fin) \<and> ss_crashed (co_plane s) = None
    \<and> (co_originStreams s \<longrightarrow> ss_crashed (co_app s) = None \<and> ss_crashed (co_boundary s) = None)"
proof -
  have found: "final_findings jo s = []" by (rule finalize_zero(2) [OF assms(1)])
  then have rec: "record_findings s r = []"
    using assms(2) by (force simp: final_findings_def)
  have plane: "stream_final ''plane'' plane_crashed plane_not_finalized event_channel_loss (co_plane s) = []"
    and late: "co_lateEvents s = 0" "\<not> jo"
    using found by (simp_all add: final_findings_def)
  have "ss_crashed (co_boundary s) = None" "ss_crashed (co_app s) = None" if "co_originStreams s"
    using found that by (auto simp: final_findings_def elim!: stream_final_clean)
  then show ?thesis
    using rec late plane by (auto simp: record_findings_def elim!: stream_final_clean)
qed

text \<open>The ledger is bounded: however long the run, the collector never holds more than
  \<^verbatim>\<open>maxRequests\<close> records, with distinct nonces, nor more than \<^verbatim>\<open>maxAnomalies\<close> anomalies; the
  anomaly counter is never below the number of anomalies kept.\<close>

theorem collector_is_bounded:
  "length (co_records (run_ops ops (new_collector l))) \<le> cl_maxRequests l
   \<and> distinct (map fst (co_records (run_ops ops (new_collector l))))
   \<and> length (co_anomalyList (run_ops ops (new_collector l))) \<le> cl_maxAnomalies l
   \<and> length (co_anomalyList (run_ops ops (new_collector l)))
       \<le> co_anomalyCount (run_ops ops (new_collector l))"
  using bounded_run [of "new_collector l" ops]
  by (simp add: co_bounded_def new_collector_def)

subsection \<open>Witnesses\<close>

definition sample_limits :: collector_limits where
  "sample_limits = \<lparr>cl_maxRequests = 3, cl_maxEventsPerRecord = 8, cl_maxJournalBytes = 9,
     cl_maxAnomalies = 2\<rparr>"

definition sample_meta :: request_meta where
  "sample_meta = \<lparr>rm_lane = X_protected, rm_phase = ''p'', rm_cls = Canary, rm_scenario = ''s'',
     rm_journey = None, rm_step = None, rm_method = MGet\<rparr>"

definition sample_fin :: "int \<Rightarrow> fin_report" where
  "sample_fin n = \<lparr>fin_drained = True, fin_channel = \<lparr>cs_emitted = n, cs_dropped = 0, cs_sent = n,
     cs_received = 0, cs_queued = 0, cs_unacknowledged = n, cs_queueHighWater = 1, cs_lastSeq = n\<rparr>\<rparr>"

definition sample_run :: "collector_op list" where
  "sample_run =
     [OpSent ''n2'' sample_meta,
      OpPlane (map (\<lambda>e. PlaneItem (e\<lparr>pe_nonce := Some ''n2''\<rparr>))
        [plane_ev 1 INGRESS_ACCEPTED, plane_ev 2 L1_ENTERED, plane_ev 3 L1_PASSED,
         plane_ev 4 EGRESS_ATTEMPTED, (plane_ev 5 EGRESS_RESPONDED)\<lparr>pe_status := Some 200\<rparr>,
         (plane_ev 6 INGRESS_RESPONDED)\<lparr>pe_status := Some 200\<rparr>]) 0,
      OpOrigin \<lparr>oe_instance = Protected, oe_nonce = Some ''n2'', oe_kind = ORIGIN_RECEIVED,
        oe_hop = Some 4, oe_status = None, oe_spoofed = None\<rparr>,
      OpOrigin \<lparr>oe_instance = Protected, oe_nonce = Some ''n2'', oe_kind = ORIGIN_COMPLETED,
        oe_hop = Some 4, oe_status = Some 200, oe_spoofed = None\<rparr>,
      OpCompleted ''n2'' CResponse (Some 200) (Some ''proxied'') 3,
      OpFinished SPlane (sample_fin 6), OpFreeze]"

definition sample_reject_run :: "collector_op list" where
  "sample_reject_run = [OpPlane [ParserRejected 1 ''HPE_INVALID_METHOD''] 0,
     OpFinished SPlane (sample_fin 1), OpFreeze]"

text \<open>The channel of the second run: frames of one event, so the emit sends at once.\<close>

definition sample_eager :: "string channel" where
  "sample_eager = \<lparr>ch_queue = [], ch_queueCap = 4096, ch_windowCap = 2048, ch_maxFrameEvents = 1,
     ch_timer = False, ch_waiters = [], ch_nextSeq = 1, ch_emitted = 0, ch_dropped = 0,
     ch_sent = 0, ch_received = 0, ch_highWater = 0, ch_out = [], ch_resolved = []\<rparr>"

definition sample_eager_sent :: "string channel" where
  "sample_eager_sent = sample_eager\<lparr>ch_nextSeq := 2, ch_emitted := 1, ch_sent := 1, ch_highWater := 1,
     ch_out := [\<lparr>ef_events = [\<lparr>se_seq = 1, se_t = 0, se_body = ''x''\<rparr>], ef_dropped = 0\<rparr>]\<rparr>"

lemma sample_eager_reach: "channel_reach sample_eager_sent"
proof -
  have "new_channel None None (Some 1) = Inr sample_eager"
    by (simp add: new_channel_def cap_or_default_def is_positive_safe_integer_def is_safe_integer_def
        MAX_SAFE_INTEGER_def sample_eager_def)
  moreover have "emit 0 ''x'' sample_eager = Some (sample_eager_sent, 1)"
    by (simp add: emit_alt enqueue_def sample_eager_def sample_eager_sent_def flush_def
        flush_loop.simps flush_round_def Let_def)
  ultimately show ?thesis by (blast intro: reach_new reach_step step_emit)
qed

theorem zero_anomalies_no_plane_event_lost_witness:
  "map item_seq (plane_items sample_reject_run) = [1 .. ch_nextSeq sample_eager_sent - 1]"
proof -
  have zero: "snd (finalize False (run_ops sample_reject_run (new_collector sample_limits))) = 0"
    by code_simp
  have fin: "ss_fin (co_plane (run_ops sample_reject_run (new_collector sample_limits)))
      = Some (sample_fin 1)"
    by (simp add: sample_reject_run_def run_ops_def co_finished_def map_stream_def)
  have "fin_channel (sample_fin 1) = stats sample_eager_sent"
    by (simp add: sample_fin_def stats_def sample_eager_sent_def sample_eager_def)
  from zero_anomalies_no_plane_event_lost [OF zero fin sample_eager_reach this] show ?thesis by blast
qed

theorem zero_anomalies_every_record_clean_witness:
  "\<exists>r. (''n2'', r) \<in> set (co_records (run_ops sample_run (new_collector sample_limits)))
     \<and> validateLifecycle (view_of (run_ops sample_run (new_collector sample_limits)) r) True = []"
proof -
  let ?s = "run_ops sample_run (new_collector sample_limits)"
  have zero: "snd (finalize False ?s) = 0" by code_simp
  have "map_of (co_records ?s) ''n2'' \<noteq> None" by code_simp
  then obtain r where r: "(''n2'', r) \<in> set (co_records ?s)"
    by (cases "map_of (co_records ?s) ''n2''") (auto dest: map_of_SomeD)
  from zero_anomalies_every_record_clean [OF zero r] r show ?thesis by blast
qed

end
