(* ===== verification/External_Reducer.thy ===== *)
theory External_Reducer
  imports Collector
begin

text \<open>
  The bounded external lane of the collector, \<^verbatim>\<open>lab/defense/external-reducer.ts\<close>: requests of remote
  peers, which no harness registered, are kept from their ingress until they are terminated, then
  judged with the three validators and reduced to counters. \<^verbatim>\<open>report\<close>, the callback to the collector, is
  the list \<open>xr_reports\<close>; every clock reading is an argument. The tables whose keys are an enumeration
  are keyed by its value, \<^const>\<open>None\<close> for the key \<^verbatim>\<open>unknown\<close>.
\<close>

subsection \<open>Limits and counters\<close>

record external_limits =
  el_maxActive :: nat
  el_maxOrphans :: nat
  el_recentRing :: nat
  el_maxTraces :: nat
  el_maxDecisions :: nat
  el_headTraces :: nat
  el_perKindTraces :: nat
  el_downstreamGraceMs :: instant
  el_orphanGraceMs :: instant
  el_maxEventsPerStream :: nat

definition DEFAULT_EXTERNAL_LIMITS :: external_limits where
  "DEFAULT_EXTERNAL_LIMITS = \<lparr>el_maxActive = 1024, el_maxOrphans = 1024, el_recentRing = 4096,
     el_maxTraces = 2000, el_maxDecisions = 20000, el_headTraces = 200, el_perKindTraces = 10,
     el_downstreamGraceMs = 5000, el_orphanGraceMs = 10000, el_maxEventsPerStream = 32\<rparr>"

record allowed_shed =
  as_class :: string
  as_lane :: string
  as_reason :: string

record l1_counters =
  c1_entered :: nat
  c1_passed :: nat
  c1_rejected :: nat
  c1_shed :: nat
  c1_error :: nat

record l2_counters =
  c2_entered :: nat
  c2_decided :: nat
  c2_byKey :: "(string, nat) jsmap"
  c2_shedByReason :: "(string, nat) jsmap"
  c2_classes :: "(string, nat) jsmap"

record egress_counters =
  ce_attempted :: nat
  ce_responded :: nat
  ce_failed :: nat
  ce_failedByKind :: "(egress_error_kind option, nat) jsmap"
  ce_failedAtProof :: nat

record boundary_counters =
  cb_arrived :: nat
  cb_admitted :: nat
  cb_rejected :: nat
  cb_appProofsIssued :: nat
  cb_relayed :: nat
  cb_forwardResponded :: nat
  cb_forwardFailed :: nat
  cb_responded :: nat
  cb_aborted :: nat

record app_counters =
  ca_admitted :: nat
  ca_refused :: nat
  ca_executed :: nat
  ca_mutated :: nat
  ca_completed :: nat
  ca_aborted :: nat

record status503_counters =
  cs_total :: nat
  cs_expectedShed :: nat
  cs_unexplained :: nat
  cs_byCause :: "(string, nat) jsmap"

record external_counters =
  xc_accepted :: nat
  xc_strippedHeaders :: int
  xc_reduced :: nat
  xc_terminal :: "(terminal_outcome option, nat) jsmap"
  xc_l1 :: l1_counters
  xc_l1RejectedByReason :: "(reject_reason option, nat) jsmap"
  xc_l2 :: l2_counters
  xc_egress :: egress_counters
  xc_proofsIssued :: nat
  xc_boundary :: boundary_counters
  xc_app :: app_counters
  xc_statusHistogram :: "(int, nat) jsmap"
  xc_status503 :: status503_counters
  xc_status5xxOther :: nat
  xc_clientAborted :: nat
  xc_mutatedByLane :: "(string, nat) jsmap"
  xc_tracesRetained :: nat
  xc_tracesDropped :: nat
  xc_decisionsRetained :: nat
  xc_decisionsDropped :: nat
  xc_overflowActive :: nat
  xc_overflowOrphans :: nat

definition zero_counters :: external_counters where
  "zero_counters = \<lparr>xc_accepted = 0, xc_strippedHeaders = 0, xc_reduced = 0, xc_terminal = [],
     xc_l1 = \<lparr>c1_entered = 0, c1_passed = 0, c1_rejected = 0, c1_shed = 0, c1_error = 0\<rparr>,
     xc_l1RejectedByReason = [],
     xc_l2 = \<lparr>c2_entered = 0, c2_decided = 0, c2_byKey = [], c2_shedByReason = [], c2_classes = []\<rparr>,
     xc_egress = \<lparr>ce_attempted = 0, ce_responded = 0, ce_failed = 0, ce_failedByKind = [], ce_failedAtProof = 0\<rparr>,
     xc_proofsIssued = 0,
     xc_boundary = \<lparr>cb_arrived = 0, cb_admitted = 0, cb_rejected = 0, cb_appProofsIssued = 0, cb_relayed = 0,
       cb_forwardResponded = 0, cb_forwardFailed = 0, cb_responded = 0, cb_aborted = 0\<rparr>,
     xc_app = \<lparr>ca_admitted = 0, ca_refused = 0, ca_executed = 0, ca_mutated = 0, ca_completed = 0, ca_aborted = 0\<rparr>,
     xc_statusHistogram = [],
     xc_status503 = \<lparr>cs_total = 0, cs_expectedShed = 0, cs_unexplained = 0, cs_byCause = []\<rparr>,
     xc_status5xxOther = 0, xc_clientAborted = 0, xc_mutatedByLane = [],
     xc_tracesRetained = 0, xc_tracesDropped = 0, xc_decisionsRetained = 0, xc_decisionsDropped = 0,
     xc_overflowActive = 0, xc_overflowOrphans = 0\<rparr>"

definition bump_table :: "('k, nat) jsmap \<Rightarrow> 'k \<Rightarrow> ('k, nat) jsmap" where
  "bump_table m k = AList.update k (Suc (case map_of m k of None \<Rightarrow> 0 | Some n \<Rightarrow> n)) m"

subsection \<open>The real decision and the cause of a 503\<close>

definition or_none :: "string option \<Rightarrow> string" where
  "or_none x = (case x of None \<Rightarrow> ''none'' | Some s \<Rightarrow> s)"

text \<open>\<^verbatim>\<open>realDecision\<close> of \<^verbatim>\<open>lab/defense/lane-accounting.ts\<close>: outcome and lane; for a simulated decision, of
  its shadow \<^verbatim>\<open>outcome:lane[:reason]\<close>.\<close>

definition realDecision :: "plane_event \<Rightarrow> string \<times> string" where
  "realDecision e =
     (if pe_simulated e \<and> pe_shadow e \<noteq> None \<and> pe_shadow e \<noteq> Some [] then
        (case split_on (CHR '':'') (the (pe_shadow e)) of
           [] \<Rightarrow> ([], ''none'')
         | [outcome] \<Rightarrow> (outcome, ''none'')
         | outcome # l # _ \<Rightarrow> (outcome, l))
      else (or_none (map_option outcome_name (pe_outcome e)),
            lane2_name (case pe_lane e of None \<Rightarrow> None | Some l \<Rightarrow> l)))"

definition shed_reason_name :: "shed_reason option \<Rightarrow> string" where
  "shed_reason_name r = (case r of None \<Rightarrow> ''none'' | Some lane_budget \<Rightarrow> ''lane_budget''
     | Some evaluator_saturation \<Rightarrow> ''evaluator_saturation'')"

text \<open>The one shed a field run expects, \<^verbatim>\<open>allowedShed\<close> of \<^verbatim>\<open>lab/defense/field-thresholds.ts\<close>.\<close>

definition field_allowed_shed :: "allowed_shed list" where
  "field_allowed_shed = [\<lparr>as_class = ''mutation'', as_lane = ''unverified'', as_reason = ''lane_budget''\<rparr>]"

definition attributeShed :: "plane_event list \<Rightarrow> allowed_shed list \<Rightarrow> bool \<times> string" where
  "attributeShed plane allowed =
     (let attempted = has_kind EGRESS_ATTEMPTED plane;
          rest = (False, if attempted then ''proxied_503'' else ''other'') in
      if has_kind L1_SHED plane then (False, ''l1_shed'')
      else if has_kind L1_ERROR plane then (False, ''l1_error'')
      else case first_kind L2_DECIDED plane of
        None \<Rightarrow> rest
      | Some decided \<Rightarrow>
          let (outcome, lane) = realDecision decided; reason = shed_reason_name (pe_shedReason decided) in
          if pe_simulated decided then (False, ''l2_simulated'')
          else if outcome = ''shed'' then
            (if attempted then (False, ''l2_shed_with_egress'')
             else if list_ex (\<lambda>a. map_option class_name (pe_class decided) = Some (as_class a) \<and> as_lane a = lane
                    \<and> as_reason a = reason) allowed
             then (True, ''l2_shed_'' @ lane @ ''_'' @ reason)
             else (False, ''l2_shed_other_'' @ lane @ ''_'' @ reason))
          else if outcome = ''error'' then (False, ''l2_error'')
          else rest)"

subsection \<open>State\<close>

record active_request =
  ac_rid :: string
  ac_nonce :: string
  ac_plane :: "plane_event list"
  ac_boundary :: "boundary_event list"
  ac_app :: "app_event list"
  ac_origin :: "origin_event list"
  ac_openedAt :: instant
  ac_terminalAt :: "instant option"

record orphan =
  or_boundary :: "boundary_event list"
  or_app :: "app_event list"
  or_firstAt :: instant

datatype trace_reason = TrAnomaly | TrMutation | TrFirstOfKind | TrHead

record external_trace =
  tr_rid :: string
  tr_reason :: trace_reason
  tr_plane :: "plane_event list"
  tr_boundary :: "boundary_event list"
  tr_app :: "app_event list"

record reducer =
  xr_limits :: external_limits
  xr_allowed :: "allowed_shed list"
  xr_active :: "(string, active_request) jsmap"
  xr_orphans :: "(string, orphan) jsmap"
  xr_recent :: "string set"
  xr_recentOrder :: "string list"
  xr_counters :: external_counters
  xr_traces :: "external_trace list"
  xr_decisions :: "plane_event list"
  xr_firstOfKind :: "(string, nat) jsmap"
  xr_headCount :: nat
  xr_nextRid :: nat
  xr_anonymous :: "(string, nat) jsmap"
  xr_finalized :: bool
  xr_reports :: "anomaly list"

definition new_reducer :: "external_limits \<Rightarrow> allowed_shed list \<Rightarrow> reducer" where
  "new_reducer l allowed = \<lparr>xr_limits = l, xr_allowed = allowed, xr_active = [], xr_orphans = [],
     xr_recent = {}, xr_recentOrder = [], xr_counters = zero_counters, xr_traces = [], xr_decisions = [],
     xr_firstOfKind = [], xr_headCount = 0, xr_nextRid = 1, xr_anonymous = [], xr_finalized = False,
     xr_reports = []\<rparr>"

definition xr_report :: "anomaly_code \<Rightarrow> string option \<Rightarrow> string \<Rightarrow> reducer \<Rightarrow> reducer" where
  "xr_report code rid detail s =
     s\<lparr>xr_reports := xr_reports s @ [\<lparr>an_code = code, an_nonce = rid, an_detail = detail\<rparr>]\<rparr>"

definition on_counters :: "(external_counters \<Rightarrow> external_counters) \<Rightarrow> reducer \<Rightarrow> reducer" where
  "on_counters f s = s\<lparr>xr_counters := f (xr_counters s)\<rparr>"

subsection \<open>Appending events\<close>

definition over_capacity :: "active_request \<Rightarrow> string \<Rightarrow> reducer \<Rightarrow> reducer" where
  "over_capacity r stream s =
     xr_report ledger_capacity_exceeded (Some (ac_rid r)) (stream @ '' events per request'') s"

definition append_plane :: "plane_event \<Rightarrow> active_request \<times> reducer \<Rightarrow> active_request \<times> reducer" where
  "append_plane e = (\<lambda>(r, s).
     if length (ac_plane r) \<ge> el_maxEventsPerStream (xr_limits s) then (r, over_capacity r ''plane'' s)
     else (r\<lparr>ac_plane := ac_plane r @ [e]\<rparr>, s))"

definition append_boundary :: "boundary_event \<Rightarrow> active_request \<times> reducer \<Rightarrow> active_request \<times> reducer" where
  "append_boundary e = (\<lambda>(r, s).
     if length (ac_boundary r) \<ge> el_maxEventsPerStream (xr_limits s) then (r, over_capacity r ''boundary'' s)
     else (r\<lparr>ac_boundary := ac_boundary r @ [e]\<rparr>, s))"

definition append_app :: "app_event \<Rightarrow> active_request \<times> reducer \<Rightarrow> active_request \<times> reducer" where
  "append_app e = (\<lambda>(r, s).
     if length (ac_app r) \<ge> el_maxEventsPerStream (xr_limits s) then (r, over_capacity r ''app'' s)
     else (r\<lparr>ac_app := ac_app r @ [e], ac_origin := ac_origin r @ derived_origin (ac_nonce r) e\<rparr>, s))"

definition put_active :: "active_request \<times> reducer \<Rightarrow> reducer" where
  "put_active = (\<lambda>(r, s). s\<lparr>xr_active := AList.update (ac_nonce r) r (xr_active s)\<rparr>)"

subsection \<open>Reduction to counters\<close>

definition count_l1 :: "plane_event list \<Rightarrow> external_counters \<Rightarrow> external_counters" where
  "count_l1 plane c =
     (let one = (\<lambda>k. if has_kind k plane then 1 else 0); l1 = xc_l1 c in
      c\<lparr>xc_l1 := \<lparr>c1_entered = c1_entered l1 + one L1_ENTERED, c1_passed = c1_passed l1 + one L1_PASSED,
          c1_rejected = c1_rejected l1 + one L1_REJECTED, c1_shed = c1_shed l1 + one L1_SHED,
          c1_error = c1_error l1 + one L1_ERROR\<rparr>,
        xc_l1RejectedByReason := (case first_kind L1_REJECTED plane of
            None \<Rightarrow> xc_l1RejectedByReason c
          | Some e \<Rightarrow> bump_table (xc_l1RejectedByReason c) (pe_reason e))\<rparr>)"

definition class_text :: "plane_event \<Rightarrow> string" where
  "class_text e = (case pe_class e of None \<Rightarrow> ''undefined'' | Some c \<Rightarrow> class_name c)"

definition decision_key :: "plane_event \<Rightarrow> string" where
  "decision_key e = (let (outcome, lane) = realDecision e in class_text e @ ''.'' @ lane @ ''.'' @ outcome)"

definition count_l2 :: "plane_event list \<Rightarrow> external_counters \<Rightarrow> external_counters" where
  "count_l2 plane c =
     (let l2 = (xc_l2 c)\<lparr>c2_entered := c2_entered (xc_l2 c) + (if has_kind L2_ENTERED plane then 1 else 0)\<rparr> in
      c\<lparr>xc_l2 := (case first_kind L2_DECIDED plane of
          None \<Rightarrow> l2
        | Some e \<Rightarrow>
            (let (outcome, lane) = realDecision e in
             \<lparr>c2_entered = c2_entered l2, c2_decided = Suc (c2_decided l2),
              c2_byKey = bump_table (c2_byKey l2) (decision_key e),
              c2_shedByReason = (if outcome = ''shed''
                then bump_table (c2_shedByReason l2)
                       (class_text e @ ''.'' @ lane @ ''.'' @ shed_reason_name (pe_shedReason e))
                else c2_shedByReason l2),
              c2_classes = bump_table (c2_classes l2) (or_none (map_option class_name (pe_class e)))\<rparr>))\<rparr>)"

definition count_egress :: "plane_event list \<Rightarrow> external_counters \<Rightarrow> external_counters" where
  "count_egress plane c =
     (let one = (\<lambda>k. if has_kind k plane then 1 else 0); g = xc_egress c; failed = first_kind EGRESS_FAILED plane in
      c\<lparr>xc_egress := \<lparr>ce_attempted = ce_attempted g + one EGRESS_ATTEMPTED,
          ce_responded = ce_responded g + one EGRESS_RESPONDED,
          ce_failed = ce_failed g + (if failed = None then 0 else 1),
          ce_failedByKind = (case failed of None \<Rightarrow> ce_failedByKind g
            | Some e \<Rightarrow> bump_table (ce_failedByKind g) (pe_egressError e)),
          ce_failedAtProof = ce_failedAtProof g
            + (case failed of None \<Rightarrow> 0 | Some e \<Rightarrow> if pe_failStage e \<noteq> None then 1 else 0)\<rparr>,
        xc_proofsIssued := xc_proofsIssued c + one PROOF_ISSUED\<rparr>)"

definition count_outcome :: "plane_event list \<Rightarrow> external_counters \<Rightarrow> external_counters" where
  "count_outcome plane c =
     (let outcome = terminalOutcomeL2 plane in
      c\<lparr>xc_terminal := bump_table (xc_terminal c) outcome,
        xc_clientAborted := xc_clientAborted c + (if outcome = Some T_client_aborted then 1 else 0)\<rparr>)"

definition count_503 ::
  "plane_event list \<Rightarrow> allowed_shed list \<Rightarrow> status503_counters \<Rightarrow> status503_counters" where
  "count_503 plane allowed t =
     (let (expected, cause) = attributeShed plane allowed in
      \<lparr>cs_total = Suc (cs_total t),
       cs_expectedShed = (if expected then Suc (cs_expectedShed t) else cs_expectedShed t),
       cs_unexplained = (if expected then cs_unexplained t else Suc (cs_unexplained t)),
       cs_byCause = bump_table (cs_byCause t) cause\<rparr>)"

definition count_response ::
  "plane_event list \<Rightarrow> allowed_shed list \<Rightarrow> external_counters \<Rightarrow> external_counters" where
  "count_response plane allowed c =
     (case Option.bind (first_kind INGRESS_RESPONDED plane) pe_status of
        None \<Rightarrow> c
      | Some st \<Rightarrow>
          c\<lparr>xc_statusHistogram := bump_table (xc_statusHistogram c) st,
            xc_status503 := (if st = 503 then count_503 plane allowed (xc_status503 c) else xc_status503 c),
            xc_status5xxOther := xc_status5xxOther c + (if st \<noteq> 503 \<and> 500 \<le> st then 1 else 0)\<rparr>)"

definition count_boundary :: "boundary_event \<Rightarrow> boundary_counters \<Rightarrow> boundary_counters" where
  "count_boundary e b = (case be_kind e of
     BOUNDARY_ARRIVED \<Rightarrow> b\<lparr>cb_arrived := Suc (cb_arrived b)\<rparr>
   | BOUNDARY_ADMITTED \<Rightarrow> b\<lparr>cb_admitted := Suc (cb_admitted b)\<rparr>
   | BOUNDARY_REJECTED \<Rightarrow> b\<lparr>cb_rejected := Suc (cb_rejected b)\<rparr>
   | APP_PROOF_ISSUED \<Rightarrow> b\<lparr>cb_appProofsIssued := Suc (cb_appProofsIssued b)\<rparr>
   | BOUNDARY_FORWARDED \<Rightarrow> b\<lparr>cb_relayed := Suc (cb_relayed b)\<rparr>
   | BOUNDARY_FORWARD_RESPONDED \<Rightarrow> b\<lparr>cb_forwardResponded := Suc (cb_forwardResponded b)\<rparr>
   | BOUNDARY_FORWARD_FAILED \<Rightarrow> b\<lparr>cb_forwardFailed := Suc (cb_forwardFailed b)\<rparr>
   | BOUNDARY_RESPONDED \<Rightarrow> b\<lparr>cb_responded := Suc (cb_responded b)\<rparr>
   | BOUNDARY_ABORTED \<Rightarrow> b\<lparr>cb_aborted := Suc (cb_aborted b)\<rparr>
   | _ \<Rightarrow> b)"

definition count_app :: "app_event \<Rightarrow> app_counters \<Rightarrow> app_counters" where
  "count_app e a = (case ae_kind e of
     APP_ADMITTED \<Rightarrow> a\<lparr>ca_admitted := Suc (ca_admitted a)\<rparr>
   | APP_REFUSED \<Rightarrow> a\<lparr>ca_refused := Suc (ca_refused a)\<rparr>
   | APP_EXECUTED \<Rightarrow> a\<lparr>ca_executed := Suc (ca_executed a)\<rparr>
   | APP_MUTATED \<Rightarrow> a\<lparr>ca_mutated := Suc (ca_mutated a)\<rparr>
   | APP_COMPLETED \<Rightarrow> a\<lparr>ca_completed := Suc (ca_completed a)\<rparr>
   | APP_ABORTED \<Rightarrow> a\<lparr>ca_aborted := Suc (ca_aborted a)\<rparr>)"

definition mutated_app :: "active_request \<Rightarrow> bool" where
  "mutated_app r = list_ex (\<lambda>e. ae_kind e = APP_MUTATED) (ac_app r)"

definition decided_of :: "active_request \<Rightarrow> plane_event option" where
  "decided_of r = first_kind L2_DECIDED (ac_plane r)"

definition count_downstream :: "active_request \<Rightarrow> external_counters \<Rightarrow> external_counters" where
  "count_downstream r c =
     c\<lparr>xc_boundary := fold count_boundary (ac_boundary r) (xc_boundary c),
       xc_app := fold count_app (ac_app r) (xc_app c),
       xc_mutatedByLane := (if mutated_app r
         then bump_table (xc_mutatedByLane c) (case decided_of r of None \<Rightarrow> ''none'' | Some e \<Rightarrow> snd (realDecision e))
         else xc_mutatedByLane c)\<rparr>"

definition count_request :: "allowed_shed list \<Rightarrow> active_request \<Rightarrow> external_counters \<Rightarrow> external_counters" where
  "count_request allowed r c =
     (let plane = ac_plane r in
      count_downstream r (count_response plane allowed (count_outcome plane (count_egress plane
        (count_l2 plane (count_l1 plane (c\<lparr>xc_reduced := Suc (xc_reduced c)\<rparr>)))))))"

definition keepDecision :: "plane_event \<Rightarrow> reducer \<Rightarrow> reducer" where
  "keepDecision e s =
     (if length (xr_decisions s) \<ge> el_maxDecisions (xr_limits s) then
        xr_report external_state_overflow None (''decisions '' @ show_nat (el_maxDecisions (xr_limits s)))
          (on_counters (\<lambda>c. c\<lparr>xc_decisionsDropped := Suc (xc_decisionsDropped c)\<rparr>) s)
      else on_counters (\<lambda>c. c\<lparr>xc_decisionsRetained := Suc (length (xr_decisions s))\<rparr>)
             (s\<lparr>xr_decisions := xr_decisions s @ [e]\<rparr>))"

definition outcome_text :: "terminal_outcome option \<Rightarrow> string" where
  "outcome_text oc = (case oc of None \<Rightarrow> ''unresolved'' | Some t \<Rightarrow> OUTCOME_HEADER_VALUE t)"

definition trace_kind :: "active_request \<Rightarrow> string" where
  "trace_kind r = outcome_text (terminalOutcomeL2 (ac_plane r)) @ ''.''
     @ (case decided_of r of None \<Rightarrow> ''no_l2'' | Some e \<Rightarrow> decision_key e)"

definition trace_reason_of :: "bool \<Rightarrow> active_request \<Rightarrow> nat \<Rightarrow> reducer \<Rightarrow> trace_reason option" where
  "trace_reason_of anomalous r seenCount s =
     (if anomalous then Some TrAnomaly
      else if mutated_app r then Some TrMutation
      else if seenCount < el_perKindTraces (xr_limits s) then Some TrFirstOfKind
      else if xr_headCount s < el_headTraces (xr_limits s) then Some TrHead
      else None)"

definition push_trace :: "active_request \<Rightarrow> trace_reason \<Rightarrow> reducer \<Rightarrow> reducer" where
  "push_trace r reason s =
     (if length (xr_traces s) \<ge> el_maxTraces (xr_limits s) then
        on_counters (\<lambda>c. c\<lparr>xc_tracesDropped := Suc (xc_tracesDropped c)\<rparr>) s
      else on_counters (\<lambda>c. c\<lparr>xc_tracesRetained := Suc (length (xr_traces s))\<rparr>)
        (s\<lparr>xr_traces := xr_traces s @ [\<lparr>tr_rid = ac_rid r, tr_reason = reason, tr_plane = ac_plane r,
             tr_boundary = ac_boundary r, tr_app = ac_app r\<rparr>]\<rparr>))"

definition keepTrace :: "bool \<Rightarrow> active_request \<Rightarrow> reducer \<Rightarrow> reducer" where
  "keepTrace anomalous r s =
     (let kind = trace_kind r;
          seenCount = (case map_of (xr_firstOfKind s) kind of None \<Rightarrow> 0 | Some n \<Rightarrow> n);
          s1 = s\<lparr>xr_firstOfKind := (if seenCount < el_perKindTraces (xr_limits s)
                  then AList.update kind (Suc seenCount) (xr_firstOfKind s) else xr_firstOfKind s)\<rparr> in
      case trace_reason_of anomalous r seenCount s of
        None \<Rightarrow> s1
      | Some reason \<Rightarrow> push_trace r reason
          (s1\<lparr>xr_headCount := (if reason = TrHead then Suc (xr_headCount s1) else xr_headCount s1)\<rparr>))"

text \<open>\<^verbatim>\<open>keepDecision\<close> runs in the middle of \<^verbatim>\<open>count\<close>; it touches only the decision list and its two
  counters, which no other part of \<^verbatim>\<open>count\<close> reads.\<close>

definition count :: "active_request \<Rightarrow> bool \<Rightarrow> reducer \<Rightarrow> reducer" where
  "count r anomalous s =
     (let s1 = (case decided_of r of None \<Rightarrow> s | Some e \<Rightarrow> keepDecision e s) in
      keepTrace anomalous r (on_counters (count_request (xr_allowed s) r) s1))"

definition record_view :: "active_request \<Rightarrow> lifecycle_view" where
  "record_view r = \<lparr>lv_nonce = ac_nonce r, lv_expected = X_external, lv_harness = [], lv_plane = ac_plane r,
     lv_origin = ac_origin r, lv_boundary = Some (ac_boundary r), lv_app = Some (ac_app r), lv_l2 = True\<rparr>"

definition lineage_view :: "active_request \<Rightarrow> lifecycle_view" where
  "lineage_view r = (record_view r)\<lparr>lv_expected := X_protected\<rparr>"

definition request_findings :: "active_request \<Rightarrow> anomaly list" where
  "request_findings r = validateLifecycle (record_view r) True
     @ validateOriginLineage (lineage_view r) True @ validateL2Lifecycle (record_view r) True"

definition remember :: "string \<Rightarrow> reducer \<Rightarrow> reducer" where
  "remember nonce s =
     (let order = xr_recentOrder s @ [nonce]; k = length order - el_recentRing (xr_limits s) in
      s\<lparr>xr_recent := insert nonce (xr_recent s) - set (take k order), xr_recentOrder := drop k order\<rparr>)"

definition last_kind_text :: "plane_event list \<Rightarrow> string" where
  "last_kind_text es = (if es = [] then ''none'' else plane_kind_name (pe_kind (last es)))"

definition reduce :: "active_request \<Rightarrow> reducer \<Rightarrow> reducer" where
  "reduce r s =
     (if map_of (xr_active s) (ac_nonce r) = None then s
      else
        let found = request_findings r;
            s1 = fold (\<lambda>a. xr_report (an_code a) (Some (ac_rid r)) (an_detail a)) found
                   (s\<lparr>xr_active := AList.delete (ac_nonce r) (xr_active s)\<rparr>);
            unresolved = (ac_terminalAt r = None);
            s2 = (if unresolved
                  then xr_report external_unresolved (Some (ac_rid r)) (last_kind_text (ac_plane r)) s1 else s1)
        in remember (ac_nonce r) (count r (found \<noteq> [] \<or> unresolved) s2))"

subsection \<open>Completion\<close>

definition downstreamSatisfied :: "active_request \<Rightarrow> bool" where
  "downstreamSatisfied r \<longleftrightarrow>
     (\<not> has_kind EGRESS_ATTEMPTED (ac_plane r)
      \<or> list_ex (\<lambda>e. pe_kind e = EGRESS_FAILED \<and> pe_failStage e \<noteq> None) (ac_plane r)
      \<or> list_ex (\<lambda>e. pe_kind e = EGRESS_FAILED \<and> pe_egressError e = Some EgRefused) (ac_plane r)
      \<or> (list_ex (\<lambda>e. be_kind e = BOUNDARY_RESPONDED \<or> be_kind e = BOUNDARY_ABORTED) (ac_boundary r)
         \<and> (list_ex (\<lambda>e. be_kind e = BOUNDARY_FORWARD_RESPONDED) (ac_boundary r) \<longrightarrow>
              list_ex (\<lambda>e. ae_kind e = APP_COMPLETED \<or> ae_kind e = APP_ABORTED \<or> ae_kind e = APP_REFUSED) (ac_app r))))"

definition grace_over :: "instant \<Rightarrow> active_request \<Rightarrow> reducer \<Rightarrow> bool" where
  "grace_over now r s = (case ac_terminalAt r of None \<Rightarrow> False
     | Some t \<Rightarrow> now - t \<ge> el_downstreamGraceMs (xr_limits s))"

definition tryComplete :: "active_request \<Rightarrow> bool \<Rightarrow> instant \<Rightarrow> reducer \<Rightarrow> reducer" where
  "tryComplete r final now s =
     (if ac_terminalAt r = None then s
      else if downstreamSatisfied r \<or> final \<or> grace_over now r s then reduce r s else s)"

subsection \<open>Ingestion\<close>

definition open_request :: "plane_event \<Rightarrow> string \<Rightarrow> instant \<Rightarrow> reducer \<Rightarrow> reducer" where
  "open_request e nonce now s =
     (let r = \<lparr>ac_rid = ''x'' @ show_nat (xr_nextRid s), ac_nonce = nonce, ac_plane = [e], ac_boundary = [],
            ac_app = [], ac_origin = [], ac_openedAt = now, ac_terminalAt = None\<rparr>;
          s1 = on_counters (\<lambda>c. c\<lparr>xc_accepted := Suc (xc_accepted c),
                 xc_strippedHeaders := xc_strippedHeaders c + (case pe_stripped e of None \<Rightarrow> 0 | Some n \<Rightarrow> n)\<rparr>)
               (s\<lparr>xr_nextRid := Suc (xr_nextRid s)\<rparr>) in
      case map_of (xr_orphans s) nonce of
        None \<Rightarrow> put_active (r, s1)
      | Some held \<Rightarrow> put_active (fold append_app (or_app held) (fold append_boundary (or_boundary held)
          (r, s1\<lparr>xr_orphans := AList.delete nonce (xr_orphans s)\<rparr>))))"

definition set_terminal :: "plane_event \<Rightarrow> instant \<Rightarrow> active_request \<Rightarrow> active_request" where
  "set_terminal e now r =
     (if (pe_kind e = INGRESS_RESPONDED \<or> pe_kind e = INGRESS_ABORTED) \<and> ac_terminalAt r = None
      then r\<lparr>ac_terminalAt := Some now\<rparr> else r)"

definition ingestPlane :: "plane_event \<Rightarrow> instant \<Rightarrow> instant \<Rightarrow> reducer \<Rightarrow> bool \<times> reducer" where
  "ingestPlane e now later s =
     (case pe_nonce e of
        None \<Rightarrow> (False, s)
      | Some nonce \<Rightarrow>
          if pe_kind e = INGRESS_ACCEPTED \<and> pe_external e then
            (if map_of (xr_active s) nonce \<noteq> None \<or> nonce \<in> xr_recent s then
               (True, xr_report external_duplicate_nonce (map_option ac_rid (map_of (xr_active s) nonce))
                  ''INGRESS_ACCEPTED'' s)
             else if length (xr_active s) \<ge> el_maxActive (xr_limits s) then
               (True, xr_report external_state_overflow None
                  (''active requests '' @ show_nat (el_maxActive (xr_limits s)))
                  (on_counters (\<lambda>c. c\<lparr>xc_overflowActive := Suc (xc_overflowActive c)\<rparr>) s))
             else (True, open_request e nonce now s))
          else (case map_of (xr_active s) nonce of
              None \<Rightarrow> if nonce \<in> xr_recent s
                then (True, xr_report external_late_event None (plane_kind_name (pe_kind e)) s) else (False, s)
            | Some r \<Rightarrow>
                let (r1, s1) = append_plane e (r, s); r2 = set_terminal e now r1 in
                (True, tryComplete r2 False later (put_active (r2, s1)))))"

text \<open>\<^verbatim>\<open>ingestDownstream\<close> for one stream: how the stream is appended to a request and to an orphan.\<close>

definition ingest_downstream ::
  "string option \<Rightarrow> string \<Rightarrow> (active_request \<times> reducer \<Rightarrow> active_request \<times> reducer) \<Rightarrow> (orphan \<Rightarrow> orphan)
   \<Rightarrow> instant \<Rightarrow> reducer \<Rightarrow> bool \<times> reducer" where
  "ingest_downstream nonce_opt kind app hold now s =
     (case nonce_opt of
        None \<Rightarrow> (False, s)
      | Some nonce \<Rightarrow> (True, case map_of (xr_active s) nonce of
          Some r \<Rightarrow> (let (r1, s1) = app (r, s) in tryComplete r1 False now (put_active (r1, s1)))
        | None \<Rightarrow>
            if nonce \<in> xr_recent s then xr_report external_late_event None kind s
            else (case map_of (xr_orphans s) nonce of
                Some held \<Rightarrow> s\<lparr>xr_orphans := AList.update nonce (hold held) (xr_orphans s)\<rparr>
              | None \<Rightarrow>
                  if length (xr_orphans s) \<ge> el_maxOrphans (xr_limits s) then
                    xr_report external_state_overflow None (''orphans '' @ show_nat (el_maxOrphans (xr_limits s)))
                      (on_counters (\<lambda>c. c\<lparr>xc_overflowOrphans := Suc (xc_overflowOrphans c)\<rparr>) s)
                  else s\<lparr>xr_orphans := AList.update nonce
                    (hold \<lparr>or_boundary = [], or_app = [], or_firstAt = now\<rparr>) (xr_orphans s)\<rparr>)))"

definition ingestBoundary :: "boundary_event \<Rightarrow> instant \<Rightarrow> reducer \<Rightarrow> bool \<times> reducer" where
  "ingestBoundary e = ingest_downstream (be_nonce e) (boundary_kind_name (be_kind e)) (append_boundary e)
     (\<lambda>h. h\<lparr>or_boundary := or_boundary h @ [e]\<rparr>)"

definition ingestApp :: "app_event \<Rightarrow> instant \<Rightarrow> reducer \<Rightarrow> bool \<times> reducer" where
  "ingestApp e = ingest_downstream (ae_nonce e) (app_kind_name (ae_kind e)) (append_app e)
     (\<lambda>h. h\<lparr>or_app := or_app h @ [e]\<rparr>)"

subsection \<open>Sweep and finalize\<close>

definition refusal_only :: "orphan \<Rightarrow> bool" where
  "refusal_only h \<longleftrightarrow>
     (or_boundary h \<noteq> [] \<and> or_app h = []
      \<and> list_all (\<lambda>e. be_kind e \<in> {BOUNDARY_ARRIVED, BOUNDARY_REJECTED, BOUNDARY_RESPONDED, BOUNDARY_ABORTED}) (or_boundary h)
      \<and> list_ex (\<lambda>e. be_kind e = BOUNDARY_REJECTED) (or_boundary h))
   \<or> (or_boundary h = [] \<and> or_app h \<noteq> [] \<and> list_all (\<lambda>e. ae_kind e = APP_REFUSED) (or_app h))"

fun join_comma :: "string list \<Rightarrow> string" where
  "join_comma [] = []"
| "join_comma [x] = x"
| "join_comma (x # y # ys) = x @ '','' @ join_comma (y # ys)"

definition reportOrphan :: "orphan \<Rightarrow> reducer \<Rightarrow> reducer" where
  "reportOrphan h s =
     (if refusal_only h then s\<lparr>xr_anonymous := bump_table (xr_anonymous s) ''refused''\<rparr>
      else xr_report external_unclaimed_downstream None
        (join_comma (take 4 (map (boundary_kind_name \<circ> be_kind) (or_boundary h)
           @ map (app_kind_name \<circ> ae_kind) (or_app h)))) s)"

definition sweep_orphan :: "instant \<Rightarrow> string \<times> orphan \<Rightarrow> reducer \<Rightarrow> reducer" where
  "sweep_orphan now = (\<lambda>(nonce, h) s.
     if now - or_firstAt h < el_orphanGraceMs (xr_limits s) then s
     else reportOrphan h (s\<lparr>xr_orphans := AList.delete nonce (xr_orphans s)\<rparr>))"

definition sweep :: "instant \<Rightarrow> reducer \<Rightarrow> reducer" where
  "sweep now s =
     (let s1 = fold (\<lambda>r s. if grace_over now r s then reduce r s else s) (map snd (xr_active s)) s
      in fold (sweep_orphan now) (xr_orphans s1) s1)"

definition finalize_reducer :: "reducer \<Rightarrow> reducer" where
  "finalize_reducer s =
     (if xr_finalized s then s
      else (fold reportOrphan (map snd (xr_orphans s)) (fold reduce (map snd (xr_active s))
              (s\<lparr>xr_finalized := True\<rparr>)))\<lparr>xr_orphans := []\<rparr>)"

end
