(* ===== verification/External_Lane.thy ===== *)
theory External_Lane
  imports External_Reducer
begin

text \<open>
  What the bounded external lane guarantees, over every sequence of its operations: how much it holds,
  that every accepted request is reduced exactly once, that a lane which reported nothing has counters
  that balance, and that in a clean record a shed counts as expected only for a request that was never forwarded. Each of
  the building blocks of the operations (reporting, appending, opening, reducing, the orphan table)
  preserves one invariant, \<open>lane_inv\<close>; the operations compose them.
\<close>

subsection \<open>Runs of the lane\<close>

datatype lane_op =
    LPlane plane_event instant instant
  | LBoundary boundary_event instant
  | LApp app_event instant
  | LSweep instant
  | LFinalize

primrec lane_step :: "lane_op \<Rightarrow> reducer \<Rightarrow> reducer" where
  "lane_step (LPlane e now later) s = snd (ingestPlane e now later s)"
| "lane_step (LBoundary e now) s = snd (ingestBoundary e now s)"
| "lane_step (LApp e now) s = snd (ingestApp e now s)"
| "lane_step (LSweep now) s = sweep now s"
| "lane_step LFinalize s = finalize_reducer s"

definition lane_run :: "lane_op list \<Rightarrow> reducer \<Rightarrow> reducer" where
  "lane_run = fold lane_step"

subsection \<open>Tables and counters\<close>

definition table_sum :: "('k, nat) jsmap \<Rightarrow> nat" where
  "table_sum m = sum_list (map snd m)"

lemma table_sum_bump [simp]: "table_sum (bump_table m k) = Suc (table_sum m)"
proof -
  have "sum_list (map snd (AList.update k (Suc (case map_of m k of None \<Rightarrow> 0 | Some n \<Rightarrow> n)) m))
      = Suc (sum_list (map snd m))"
    by (induction m) auto
  then show ?thesis by (simp add: table_sum_def bump_table_def)
qed

lemma map_of_bump: "map_of (bump_table m k) j = (if j = k then Some (Suc (case map_of m k of None \<Rightarrow> 0 | Some n \<Rightarrow> n)) else map_of m j)"
  by (simp add: bump_table_def)

definition one_if :: "bool \<Rightarrow> nat" where "one_if b = (if b then 1 else 0)"

definition kcount :: "'k \<Rightarrow> 'k list \<Rightarrow> nat" where "kcount k ks = length (filter (\<lambda>x. x = k) ks)"

lemma kcount_distinct: "distinct ks \<Longrightarrow> kcount k ks = one_if (k \<in> set ks)"
  by (induction ks) (auto simp: kcount_def one_if_def filter_empty_conv)

text \<open>The counters of a reduced request, in terms of what its streams contain.\<close>

lemma count_boundary_fold:
  "cb_admitted (fold count_boundary es b) = cb_admitted b + kcount BOUNDARY_ADMITTED (map be_kind es)"
proof (induction es arbitrary: b)
  case Nil
  then show ?case by (simp add: kcount_def)
next
  case (Cons e es)
  have "cb_admitted (count_boundary e b) = cb_admitted b + (if be_kind e = BOUNDARY_ADMITTED then 1 else 0)"
    by (simp add: count_boundary_def split: boundary_event_kind.split)
  with Cons show ?case by (simp add: kcount_def)
qed

lemma count_app_fold:
  "ca_admitted (fold count_app es a) = ca_admitted a + kcount APP_ADMITTED (map ae_kind es)"
  "ca_executed (fold count_app es a) = ca_executed a + kcount APP_EXECUTED (map ae_kind es)"
  "ca_mutated (fold count_app es a) = ca_mutated a + kcount APP_MUTATED (map ae_kind es)"
proof -
  have "ca_admitted (fold count_app es a) = ca_admitted a + kcount APP_ADMITTED (map ae_kind es)
    \<and> ca_executed (fold count_app es a) = ca_executed a + kcount APP_EXECUTED (map ae_kind es)
    \<and> ca_mutated (fold count_app es a) = ca_mutated a + kcount APP_MUTATED (map ae_kind es)"
  proof (induction es arbitrary: a)
    case Nil
    then show ?case by (simp add: kcount_def)
  next
    case (Cons e es)
    have "ca_admitted (count_app e a) = ca_admitted a + (if ae_kind e = APP_ADMITTED then 1 else 0)"
      "ca_executed (count_app e a) = ca_executed a + (if ae_kind e = APP_EXECUTED then 1 else 0)"
      "ca_mutated (count_app e a) = ca_mutated a + (if ae_kind e = APP_MUTATED then 1 else 0)"
      by (simp_all add: count_app_def split: app_event_kind.split)
    with Cons show ?case by (simp add: kcount_def)
  qed
  then show "ca_admitted (fold count_app es a) = ca_admitted a + kcount APP_ADMITTED (map ae_kind es)"
    "ca_executed (fold count_app es a) = ca_executed a + kcount APP_EXECUTED (map ae_kind es)"
    "ca_mutated (fold count_app es a) = ca_mutated a + kcount APP_MUTATED (map ae_kind es)"
    by blast+
qed

lemmas count_defs = count_request_def count_downstream_def count_response_def count_outcome_def
  count_egress_def count_l2_def count_l1_def

lemma count_response_frame [simp]:
  "xc_accepted (count_response p al c) = xc_accepted c" "xc_reduced (count_response p al c) = xc_reduced c"
  "xc_terminal (count_response p al c) = xc_terminal c" "xc_l1 (count_response p al c) = xc_l1 c"
  "xc_l2 (count_response p al c) = xc_l2 c" "xc_egress (count_response p al c) = xc_egress c"
  "xc_boundary (count_response p al c) = xc_boundary c" "xc_app (count_response p al c) = xc_app c"
  "xc_decisionsRetained (count_response p al c) = xc_decisionsRetained c"
  "xc_decisionsDropped (count_response p al c) = xc_decisionsDropped c"
  "xc_tracesRetained (count_response p al c) = xc_tracesRetained c"
  by (simp_all add: count_response_def split: option.split)

lemma count_request_fields:
  assumes "c' = count_request al r c" "plane = ac_plane r"
  shows "xc_accepted c' = xc_accepted c" "xc_reduced c' = Suc (xc_reduced c)"
    "xc_decisionsRetained c' = xc_decisionsRetained c" "xc_decisionsDropped c' = xc_decisionsDropped c"
    "xc_tracesRetained c' = xc_tracesRetained c"
    "xc_terminal c' = bump_table (xc_terminal c) (terminalOutcomeL2 plane)"
    "c1_entered (xc_l1 c') = c1_entered (xc_l1 c) + one_if (has_kind L1_ENTERED plane)"
    "c1_passed (xc_l1 c') = c1_passed (xc_l1 c) + one_if (has_kind L1_PASSED plane)"
    "c1_rejected (xc_l1 c') = c1_rejected (xc_l1 c) + one_if (has_kind L1_REJECTED plane)"
    "c1_shed (xc_l1 c') = c1_shed (xc_l1 c) + one_if (has_kind L1_SHED plane)"
    "c1_error (xc_l1 c') = c1_error (xc_l1 c) + one_if (has_kind L1_ERROR plane)"
    "c2_entered (xc_l2 c') = c2_entered (xc_l2 c) + one_if (has_kind L2_ENTERED plane)"
    "c2_decided (xc_l2 c') = c2_decided (xc_l2 c) + one_if (decided_of r \<noteq> None)"
    "ce_attempted (xc_egress c') = ce_attempted (xc_egress c) + one_if (has_kind EGRESS_ATTEMPTED plane)"
    "ce_responded (xc_egress c') = ce_responded (xc_egress c) + one_if (has_kind EGRESS_RESPONDED plane)"
    "ce_failed (xc_egress c') = ce_failed (xc_egress c) + one_if (first_kind EGRESS_FAILED plane \<noteq> None)"
    "xc_boundary c' = fold count_boundary (ac_boundary r) (xc_boundary c)"
    "xc_app c' = fold count_app (ac_app r) (xc_app c)"
  unfolding assms count_request_def Let_def
  by (simp_all add: count_downstream_def count_outcome_def count_egress_def count_l1_def count_l2_def
      Let_def one_if_def decided_of_def case_prod_beta split: option.split)

lemma count_503_total: "cs_total t = cs_expectedShed t + cs_unexplained t \<Longrightarrow>
    cs_total (count_503 p al t) = cs_expectedShed (count_503 p al t) + cs_unexplained (count_503 p al t)"
  by (simp add: count_503_def case_prod_beta)

lemma count_request_503:
  assumes "cs_total (xc_status503 c) = cs_expectedShed (xc_status503 c) + cs_unexplained (xc_status503 c)"
  shows "cs_total (xc_status503 (count_request al r c))
    = cs_expectedShed (xc_status503 (count_request al r c)) + cs_unexplained (xc_status503 (count_request al r c))"
proof -
  have "xc_status503 (count_outcome p (count_egress p (count_l2 p (count_l1 p (c\<lparr>xc_reduced := n\<rparr>)))))
      = xc_status503 c" for p n
    by (simp add: count_outcome_def count_egress_def count_l1_def count_l2_def Let_def)
  then show ?thesis
    using count_503_total [OF assms]
    by (simp add: count_request_def Let_def count_downstream_def count_response_def assms split: option.split)
qed


subsection \<open>What a clean request adds to the counters\<close>

definition resolved_clean :: "active_request \<Rightarrow> bool" where
  "resolved_clean r \<longleftrightarrow> request_findings r = [] \<and> ac_terminalAt r \<noteq> None"

lemma record_view_sel [simp]:
  "lv_plane (record_view r) = ac_plane r" "lv_l2 (record_view r) = True"
  "lv_expected (record_view r) = X_external" "lv_origin (record_view r) = ac_origin r"
  "protected_like (record_view r)" "lv_plane (lineage_view r) = ac_plane r"
  "lv_expected (lineage_view r) = X_protected" "boundary_of (lineage_view r) = ac_boundary r"
  "app_of (lineage_view r) = ac_app r" "has_lineage_streams (lineage_view r)"
  by (simp_all add: record_view_def lineage_view_def protected_like_def boundary_of_def app_of_def)

lemma clean_validators:
  assumes "request_findings r = []"
  shows "validateLifecycle (record_view r) True = []" "validateOriginLineage (lineage_view r) True = []"
    "validateL2Lifecycle (record_view r) True = []"
  using assms by (simp_all add: request_findings_def)

lemma clean_plane_run:
  assumes "request_findings r = []"
  shows "map pe_kind (ac_plane r) \<in> set PLANE_RUNS_L2"
  using clean_run [OF clean_validators(1) [OF assms] record_view_sel(5)]
  by (simp add: view_runs_def)

lemma L2_run_balance:
  assumes "ks \<in> set PLANE_RUNS_L2"
  shows "L1_ENTERED \<in> set ks"
    "one_if (L1_PASSED \<in> set ks) + one_if (L1_REJECTED \<in> set ks) + one_if (L1_SHED \<in> set ks)
       + one_if (L1_ERROR \<in> set ks) = 1"
    "L2_ENTERED \<in> set ks \<longleftrightarrow> L1_PASSED \<in> set ks" "L2_DECIDED \<in> set ks \<longleftrightarrow> L2_ENTERED \<in> set ks"
    "one_if (EGRESS_ATTEMPTED \<in> set ks) = one_if (EGRESS_RESPONDED \<in> set ks) + one_if (EGRESS_FAILED \<in> set ks)"
    "EGRESS_ATTEMPTED \<in> set ks \<Longrightarrow> L2_DECIDED \<in> set ks"
  using assms by (auto simp: PLANE_RUNS_L2_def egress_runs_def terminal_runs_def Let_def one_if_def)

lemma clean_streams:
  assumes "request_findings r = []"
  shows "kinds_path NEXT_BOUNDARY_KINDS None (map be_kind (ac_boundary r))"
    "kinds_path NEXT_APP_KINDS None (map ae_kind (ac_app r))"
proof -
  have "stream_findings (lineage_view r) = []"
    by (rule lineage_clean_streams [OF clean_validators(2) [OF assms] record_view_sel(10)])
  then show "kinds_path NEXT_BOUNDARY_KINDS None (map be_kind (ac_boundary r))"
    "kinds_path NEXT_APP_KINDS None (map ae_kind (ac_app r))"
    by (auto simp: stream_findings_def hop_stream.accepted_iff)
qed

lemma boundary_path_distinct: "kinds_path NEXT_BOUNDARY_KINDS None ks \<Longrightarrow> distinct ks"
proof -
  have "\<And>p k. k \<in> set (NEXT_BOUNDARY_KINDS (Some p)) \<Longrightarrow> BOUNDARY_RANK p < BOUNDARY_RANK k"
    subgoal for p k by (cases p) auto
    done
  then show "kinds_path NEXT_BOUNDARY_KINDS None ks \<Longrightarrow> distinct ks"
    using kinds_path_ranks [of NEXT_BOUNDARY_KINDS BOUNDARY_RANK None ks] sorted_wrt_ranks_distinct by blast
qed

lemma app_path_distinct: "kinds_path NEXT_APP_KINDS None ks \<Longrightarrow> distinct ks"
proof -
  have "\<And>p k. k \<in> set (NEXT_APP_KINDS (Some p)) \<Longrightarrow> APP_RANK p < APP_RANK k"
    subgoal for p k by (cases p) auto
    done
  then show "kinds_path NEXT_APP_KINDS None ks \<Longrightarrow> distinct ks"
    using kinds_path_ranks [of NEXT_APP_KINDS APP_RANK None ks] sorted_wrt_ranks_distinct by blast
qed

lemma app_path_order:
  assumes "kinds_path NEXT_APP_KINDS None ks"
  shows "APP_MUTATED \<in> set ks \<Longrightarrow> APP_EXECUTED \<in> set ks"
    "APP_EXECUTED \<in> set ks \<Longrightarrow> APP_ADMITTED \<in> set ks"
proof -
  show "APP_MUTATED \<in> set ks \<Longrightarrow> APP_EXECUTED \<in> set ks" by (rule app_path_executed [OF assms])
  assume ex: "APP_EXECUTED \<in> set ks"
  obtain k rest where ks: "ks = k # rest" "k = APP_ADMITTED \<or> k = APP_REFUSED"
    "kinds_path NEXT_APP_KINDS (Some k) rest"
    using assms ex by (cases ks) auto
  then have "k = APP_ADMITTED" using ex by (cases rest) auto
  with ks show "APP_ADMITTED \<in> set ks" by simp
qed

text \<open>The chain of evidence behind an application admission and a boundary admission.\<close>

lemma clean_admission_chain:
  assumes "request_findings r = []"
  shows "APP_ADMITTED \<in> set (map ae_kind (ac_app r)) \<Longrightarrow> BOUNDARY_ADMITTED \<in> set (map be_kind (ac_boundary r))"
    "BOUNDARY_ADMITTED \<in> set (map be_kind (ac_boundary r)) \<Longrightarrow> EGRESS_ATTEMPTED \<in> set (map pe_kind (ac_plane r))"
proof -
  note chain = lineage_clean_chain [OF clean_validators(2) [OF assms] record_view_sel(10,7)]
  show "APP_ADMITTED \<in> set (map ae_kind (ac_app r)) \<Longrightarrow> BOUNDARY_ADMITTED \<in> set (map be_kind (ac_boundary r))"
  proof -
    assume "APP_ADMITTED \<in> set (map ae_kind (ac_app r))"
    then obtain e where "e \<in> set (ac_app r)" "ae_kind e = APP_ADMITTED"
      by (metis imageE list.set_map)
    then have "a_first (lineage_view r) APP_ADMITTED \<noteq> None"
      by (auto simp: find_None_iff)
    then have "app_lineage (lineage_view r)"
      using chain(2) by (simp add: app_findings_def Let_def)
    then have "protectedLineageComplete (lineage_view r)"
      by (rule app_lineage_protected_complete [OF record_view_sel(7)])
    then show ?thesis
      by (force simp: protectedLineageComplete_def split: option.splits dest!: find_SomeD)
  qed
  assume "BOUNDARY_ADMITTED \<in> set (map be_kind (ac_boundary r))"
  then obtain e where "e \<in> set (ac_boundary r)" "be_kind e = BOUNDARY_ADMITTED"
    by (metis imageE list.set_map)
  then have "b_first (lineage_view r) BOUNDARY_ADMITTED \<noteq> None"
    by (auto simp: find_None_iff)
  then have "p_first (lineage_view r) EGRESS_ATTEMPTED \<noteq> None"
    using chain(1) by (auto simp: chain_start_findings_def Let_def split: option.splits)
  then show "EGRESS_ATTEMPTED \<in> set (map pe_kind (ac_plane r))"
    by (force dest: find_SomeD)
qed

definition balanced :: "external_counters \<Rightarrow> bool" where
  "balanced c \<longleftrightarrow>
     c1_entered (xc_l1 c) = xc_reduced c
   \<and> c1_entered (xc_l1 c) = c1_passed (xc_l1 c) + c1_rejected (xc_l1 c) + c1_shed (xc_l1 c) + c1_error (xc_l1 c)
   \<and> c2_entered (xc_l2 c) = c1_passed (xc_l1 c)
   \<and> c2_decided (xc_l2 c) = c2_entered (xc_l2 c)
   \<and> ce_attempted (xc_egress c) = ce_responded (xc_egress c) + ce_failed (xc_egress c)
   \<and> ce_attempted (xc_egress c) \<le> c2_decided (xc_l2 c)
   \<and> cb_admitted (xc_boundary c) \<le> ce_attempted (xc_egress c)
   \<and> ca_admitted (xc_app c) \<le> cb_admitted (xc_boundary c)
   \<and> ca_executed (xc_app c) \<le> ca_admitted (xc_app c)
   \<and> ca_mutated (xc_app c) \<le> ca_executed (xc_app c)
   \<and> map_of (xc_terminal c) None = None"

lemma one_if_mono: "(a \<Longrightarrow> b) \<Longrightarrow> one_if a \<le> one_if b"
  by (simp add: one_if_def)

lemma clean_outcome:
  assumes "request_findings r = []"
  shows "terminalOutcomeL2 (ac_plane r) \<noteq> None"
  using clean_lifecycle_outcome [OF clean_validators(1) [OF assms] clean_validators(3) [OF assms] record_view_sel(5)]
  by (auto simp: view_outcome_def)

lemma balanced_count_request:
  assumes "balanced c" "request_findings r = []"
  shows "balanced (count_request al r c)"
proof -
  note f = count_request_fields [OF refl refl, of al r c]
  note run = L2_run_balance [OF clean_plane_run [OF assms(2)], folded has_kind_iff]
  note path = clean_streams [OF assms(2)]
  note dist = kcount_distinct [OF boundary_path_distinct [OF path(1)]]
    kcount_distinct [OF app_path_distinct [OF path(2)]]
  have decided: "decided_of r \<noteq> None \<longleftrightarrow> has_kind L2_DECIDED (ac_plane r)"
    by (simp add: decided_of_def find_None_list_ex)
  have failed: "first_kind EGRESS_FAILED (ac_plane r) \<noteq> None \<longleftrightarrow> has_kind EGRESS_FAILED (ac_plane r)"
    by (simp add: find_None_list_ex)
  have e: "has_kind L1_ENTERED (ac_plane r)" by (rule run(1))
  have mono: "one_if (EGRESS_ATTEMPTED \<in> set (map pe_kind (ac_plane r))) \<le> one_if (has_kind L2_DECIDED (ac_plane r))"
    "one_if (BOUNDARY_ADMITTED \<in> set (map be_kind (ac_boundary r))) \<le> one_if (EGRESS_ATTEMPTED \<in> set (map pe_kind (ac_plane r)))"
    "one_if (APP_ADMITTED \<in> set (map ae_kind (ac_app r))) \<le> one_if (BOUNDARY_ADMITTED \<in> set (map be_kind (ac_boundary r)))"
    "one_if (APP_EXECUTED \<in> set (map ae_kind (ac_app r))) \<le> one_if (APP_ADMITTED \<in> set (map ae_kind (ac_app r)))"
    "one_if (APP_MUTATED \<in> set (map ae_kind (ac_app r))) \<le> one_if (APP_EXECUTED \<in> set (map ae_kind (ac_app r)))"
    using run(6) clean_admission_chain [OF assms(2)] app_path_order [OF path(2)]
    by (auto intro!: one_if_mono simp only: has_kind_iff)
  have outcome: "map_of (bump_table (xc_terminal c) (terminalOutcomeL2 (ac_plane r))) None = map_of (xc_terminal c) None"
    using clean_outcome [OF assms(2)] by (auto simp: map_of_bump)
  show ?thesis
    using assms(1) run(2-5) mono outcome e
    unfolding balanced_def f count_boundary_fold count_app_fold dist decided failed
    by (simp add: has_kind_iff one_if_def)
qed


subsection \<open>The invariant\<close>

definition request_ok :: "external_limits \<Rightarrow> string \<Rightarrow> active_request \<Rightarrow> bool" where
  "request_ok l nonce r \<longleftrightarrow> ac_nonce r = nonce
     \<and> length (ac_plane r) \<le> max 1 (el_maxEventsPerStream l)
     \<and> length (ac_boundary r) \<le> el_maxEventsPerStream l \<and> length (ac_app r) \<le> el_maxEventsPerStream l"

definition ring_ok :: "reducer \<Rightarrow> bool" where
  "ring_ok s \<longleftrightarrow> xr_recent s = set (xr_recentOrder s) \<and> distinct (xr_recentOrder s)
     \<and> length (xr_recentOrder s) \<le> el_recentRing (xr_limits s)"

lemma ring_ok_frame [simp]:
  "ring_ok (s\<lparr>xr_active := a\<rparr>) = ring_ok s" "ring_ok (s\<lparr>xr_orphans := b\<rparr>) = ring_ok s"
  "ring_ok (s\<lparr>xr_finalized := c\<rparr>) = ring_ok s" "ring_ok (s\<lparr>xr_nextRid := d\<rparr>) = ring_ok s"
  "ring_ok (s\<lparr>xr_anonymous := e\<rparr>) = ring_ok s"
  by (simp_all add: ring_ok_def)

definition held_ok :: "reducer \<Rightarrow> bool" where
  "held_ok s \<longleftrightarrow> jsmap_ok (xr_active s)
     \<and> (\<forall>(nonce, r) \<in> set (xr_active s). request_ok (xr_limits s) nonce r)
     \<and> length (xr_active s) \<le> el_maxActive (xr_limits s)
     \<and> length (xr_orphans s) \<le> el_maxOrphans (xr_limits s)
     \<and> ring_ok s \<and> jsmap_keys (xr_active s) \<inter> xr_recent s = {}"

definition counters_ok :: "reducer \<Rightarrow> bool" where
  "counters_ok s \<longleftrightarrow>
     xc_accepted (xr_counters s) = xc_reduced (xr_counters s) + length (xr_active s)
   \<and> table_sum (xc_terminal (xr_counters s)) = xc_reduced (xr_counters s)
   \<and> cs_total (xc_status503 (xr_counters s))
       = cs_expectedShed (xc_status503 (xr_counters s)) + cs_unexplained (xc_status503 (xr_counters s))
   \<and> xc_decisionsRetained (xr_counters s) = length (xr_decisions s)
   \<and> c2_decided (xc_l2 (xr_counters s)) = length (xr_decisions s) + xc_decisionsDropped (xr_counters s)
   \<and> length (xr_decisions s) \<le> el_maxDecisions (xr_limits s)
   \<and> xc_tracesRetained (xr_counters s) = length (xr_traces s)
   \<and> length (xr_traces s) \<le> el_maxTraces (xr_limits s)"

definition quiet_balanced :: "reducer \<Rightarrow> bool" where
  "quiet_balanced s \<longleftrightarrow> (xr_reports s = [] \<longrightarrow> balanced (xr_counters s))"

definition lane_inv :: "reducer \<Rightarrow> bool" where
  "lane_inv s \<longleftrightarrow> held_ok s \<and> counters_ok s \<and> quiet_balanced s"

lemmas lane_inv_defs = lane_inv_def held_ok_def counters_ok_def quiet_balanced_def

lemma lane_invD:
  assumes "lane_inv s"
  shows "held_ok s" "counters_ok s" "quiet_balanced s"
  using assms by (simp_all add: lane_inv_def)

lemma lane_inv_new: "lane_inv (new_reducer l al)"
  by (simp add: lane_inv_defs ring_ok_def new_reducer_def zero_counters_def balanced_def table_sum_def)

subsection \<open>Building blocks\<close>

lemma xr_report_sel [simp]:
  "xr_limits (xr_report c d t s) = xr_limits s" "xr_active (xr_report c d t s) = xr_active s"
  "xr_orphans (xr_report c d t s) = xr_orphans s" "xr_recent (xr_report c d t s) = xr_recent s"
  "xr_recentOrder (xr_report c d t s) = xr_recentOrder s" "xr_counters (xr_report c d t s) = xr_counters s"
  "xr_decisions (xr_report c d t s) = xr_decisions s" "xr_traces (xr_report c d t s) = xr_traces s"
  "xr_allowed (xr_report c d t s) = xr_allowed s" "xr_firstOfKind (xr_report c d t s) = xr_firstOfKind s"
  "xr_headCount (xr_report c d t s) = xr_headCount s" "xr_finalized (xr_report c d t s) = xr_finalized s"
  "xr_reports (xr_report c d t s) \<noteq> []"
  by (simp_all add: xr_report_def)

lemma held_ok_frame:
  assumes "held_ok s" "xr_limits t = xr_limits s" "xr_active t = xr_active s" "xr_orphans t = xr_orphans s"
    "xr_recent t = xr_recent s" "xr_recentOrder t = xr_recentOrder s"
  shows "held_ok t"
  using assms(1) unfolding held_ok_def ring_ok_def assms(2-6) .

lemma lane_inv_report [simp, intro]: "lane_inv s \<Longrightarrow> lane_inv (xr_report c d t s)"
  by (auto simp: lane_inv_def counters_ok_def quiet_balanced_def intro: held_ok_frame)

text \<open>What \<^const>\<open>count\<close> leaves alone.\<close>

lemma keepDecision_sel [simp]:
  "xr_limits (keepDecision e s) = xr_limits s" "xr_active (keepDecision e s) = xr_active s"
  "xr_orphans (keepDecision e s) = xr_orphans s" "xr_recent (keepDecision e s) = xr_recent s"
  "xr_recentOrder (keepDecision e s) = xr_recentOrder s" "xr_traces (keepDecision e s) = xr_traces s"
  "xr_allowed (keepDecision e s) = xr_allowed s" "xr_finalized (keepDecision e s) = xr_finalized s"
  "xc_tracesRetained (xr_counters (keepDecision e s)) = xc_tracesRetained (xr_counters s)"
  by (simp_all add: keepDecision_def on_counters_def)

lemma keepTrace_sel [simp]:
  "xr_limits (keepTrace a r s) = xr_limits s" "xr_active (keepTrace a r s) = xr_active s"
  "xr_orphans (keepTrace a r s) = xr_orphans s" "xr_recent (keepTrace a r s) = xr_recent s"
  "xr_recentOrder (keepTrace a r s) = xr_recentOrder s" "xr_decisions (keepTrace a r s) = xr_decisions s"
  "xr_reports (keepTrace a r s) = xr_reports s" "xr_finalized (keepTrace a r s) = xr_finalized s"
  by (simp_all add: keepTrace_def push_trace_def on_counters_def Let_def split: option.split)

lemma on_counters_sel [simp]:
  "xr_limits (on_counters f s) = xr_limits s" "xr_active (on_counters f s) = xr_active s"
  "xr_orphans (on_counters f s) = xr_orphans s" "xr_recent (on_counters f s) = xr_recent s"
  "xr_recentOrder (on_counters f s) = xr_recentOrder s" "xr_decisions (on_counters f s) = xr_decisions s"
  "xr_reports (on_counters f s) = xr_reports s" "xr_traces (on_counters f s) = xr_traces s"
  "xr_counters (on_counters f s) = f (xr_counters s)" "xr_finalized (on_counters f s) = xr_finalized s"
  "xr_allowed (on_counters f s) = xr_allowed s"
  by (simp_all add: on_counters_def)

lemma count_sel [simp]:
  "xr_limits (count r b s) = xr_limits s" "xr_active (count r b s) = xr_active s"
  "xr_orphans (count r b s) = xr_orphans s" "xr_recent (count r b s) = xr_recent s"
  "xr_recentOrder (count r b s) = xr_recentOrder s" "xr_finalized (count r b s) = xr_finalized s"
  by (simp_all add: count_def Let_def split: option.split)


lemma fold_report:
  "fold (\<lambda>a. xr_report (an_code a) (Some rid) (an_detail a)) found s
     = s\<lparr>xr_reports := xr_reports s @ map (\<lambda>a. a\<lparr>an_nonce := Some rid\<rparr>) found\<rparr>"
proof (induction found arbitrary: s)
  case Nil
  then show ?case by simp
next
  case (Cons a found)
  show ?case unfolding fold_simps o_apply Cons.IH by (simp add: xr_report_def)
qed

lemma xr_reports_keepDecision: "xr_reports (keepDecision e s) = [] \<Longrightarrow> xr_reports s = []"
  by (auto simp: keepDecision_def on_counters_def split: if_splits)

definition decisions_ok :: "reducer \<Rightarrow> bool" where
  "decisions_ok s \<longleftrightarrow> xc_decisionsRetained (xr_counters s) = length (xr_decisions s)
     \<and> length (xr_decisions s) \<le> el_maxDecisions (xr_limits s)"

definition traces_ok :: "reducer \<Rightarrow> bool" where
  "traces_ok s \<longleftrightarrow> xc_tracesRetained (xr_counters s) = length (xr_traces s)
     \<and> length (xr_traces s) \<le> el_maxTraces (xr_limits s)"

text \<open>The counters without those of the kept decisions and traces and of the overflows.\<close>

definition flow_part :: "external_counters \<Rightarrow> external_counters" where
  "flow_part c = c\<lparr>xc_decisionsRetained := 0, xc_decisionsDropped := 0, xc_tracesRetained := 0,
     xc_tracesDropped := 0, xc_overflowActive := 0, xc_overflowOrphans := 0\<rparr>"

lemma flow_part_sel [simp]:
  "xc_accepted (flow_part c) = xc_accepted c" "xc_reduced (flow_part c) = xc_reduced c"
  "xc_terminal (flow_part c) = xc_terminal c" "xc_l1 (flow_part c) = xc_l1 c"
  "xc_l2 (flow_part c) = xc_l2 c" "xc_egress (flow_part c) = xc_egress c"
  "xc_boundary (flow_part c) = xc_boundary c" "xc_app (flow_part c) = xc_app c"
  "xc_status503 (flow_part c) = xc_status503 c"
  by (simp_all add: flow_part_def)

lemma flow_part_eqD:
  assumes "flow_part c = flow_part d"
  shows "xc_accepted c = xc_accepted d" "xc_reduced c = xc_reduced d" "xc_terminal c = xc_terminal d"
    "xc_l1 c = xc_l1 d" "xc_l2 c = xc_l2 d" "xc_egress c = xc_egress d" "xc_boundary c = xc_boundary d"
    "xc_app c = xc_app d" "xc_status503 c = xc_status503 d"
  using assms flow_part_sel by metis+

lemma balanced_flow:
  assumes "flow_part c = flow_part d"
  shows "balanced c = balanced d"
  unfolding balanced_def flow_part_eqD [OF assms] by (rule refl)

lemma keepDecision_counts:
  "decisions_ok s \<Longrightarrow> decisions_ok (keepDecision e s)"
  "length (xr_decisions (keepDecision e s)) + xc_decisionsDropped (xr_counters (keepDecision e s))
     = Suc (length (xr_decisions s) + xc_decisionsDropped (xr_counters s))"
  "flow_part (xr_counters (keepDecision e s)) = flow_part (xr_counters s)"
  by (simp_all add: decisions_ok_def keepDecision_def on_counters_def flow_part_def)

lemma push_trace_counts:
  "traces_ok s \<Longrightarrow> traces_ok (push_trace r reason s)"
  "flow_part (xr_counters (push_trace r reason s)) = flow_part (xr_counters s)"
  "xc_decisionsRetained (xr_counters (push_trace r reason s)) = xc_decisionsRetained (xr_counters s)"
  "xc_decisionsDropped (xr_counters (push_trace r reason s)) = xc_decisionsDropped (xr_counters s)"
  by (simp_all add: traces_ok_def push_trace_def on_counters_def flow_part_def)

lemma keepTrace_counts:
  "traces_ok s \<Longrightarrow> traces_ok (keepTrace a r s)"
  "flow_part (xr_counters (keepTrace a r s)) = flow_part (xr_counters s)"
  "xc_decisionsRetained (xr_counters (keepTrace a r s)) = xc_decisionsRetained (xr_counters s)"
  "xc_decisionsDropped (xr_counters (keepTrace a r s)) = xc_decisionsDropped (xr_counters s)"
  unfolding keepTrace_def Let_def
  by (simp_all add: push_trace_counts push_trace_counts(1) [unfolded traces_ok_def] traces_ok_def
      split: option.split)

lemma count_inv:
  assumes "counters_ok s" "quiet_balanced s"
    and len: "length (xr_active t) = Suc (length (xr_active s'))"
    and s': "xr_counters s' = xr_counters s" "xr_decisions s' = xr_decisions s" "xr_traces s' = xr_traces s"
      "xr_limits s' = xr_limits s" "xr_active t = xr_active s"
    and quiet: "xr_reports s' = [] \<Longrightarrow> xr_reports s = [] \<and> request_findings r = []"
  shows "counters_ok (count r b s')" "quiet_balanced (count r b s')"
proof -
  define s1 where "s1 = (case decided_of r of None \<Rightarrow> s' | Some e \<Rightarrow> keepDecision e s')"
  define s2 where "s2 = on_counters (count_request (xr_allowed s') r) s1"
  have cnt: "count r b s' = keepTrace b r s2" by (simp add: count_def s1_def s2_def Let_def)
  note ok = assms(1) [unfolded counters_ok_def, folded s']
  have flow1: "flow_part (xr_counters s1) = flow_part (xr_counters s')"
    by (simp add: s1_def keepDecision_counts split: option.split)
  have dec1: "decisions_ok s1"
    "length (xr_decisions s1) + xc_decisionsDropped (xr_counters s1)
       = length (xr_decisions s') + xc_decisionsDropped (xr_counters s') + one_if (decided_of r \<noteq> None)"
    using ok by (auto simp: s1_def decisions_ok_def [of s'] one_if_def keepDecision_counts(2)
        intro!: keepDecision_counts(1) split: option.split)
  have tr1: "traces_ok s1" using ok by (simp add: s1_def traces_ok_def split: option.split)
  have lim1: "xr_limits s1 = xr_limits s'" "xr_active s1 = xr_active s'"
    by (simp_all add: s1_def split: option.split)
  note f1 = flow_part_eqD [OF flow1]
  note f2 = count_request_fields [OF refl refl, of "xr_allowed s'" r "xr_counters s1"]
  have tr2: "traces_ok s2" using tr1 by (simp add: s2_def traces_ok_def f2)
  note f3 = flow_part_eqD [OF keepTrace_counts(2) [of b r s2]]
  have c2: "xr_counters s2 = count_request (xr_allowed s') r (xr_counters s1)" by (simp add: s2_def)
  have "cs_total (xc_status503 (xr_counters s2)) = cs_expectedShed (xc_status503 (xr_counters s2))
      + cs_unexplained (xc_status503 (xr_counters s2))"
    unfolding c2 by (rule count_request_503) (simp add: f1 ok)
  then show "counters_ok (count r b s')"
    using ok dec1 keepTrace_counts(1) [OF tr2, of b r] len s'(5)
    by (simp add: cnt counters_ok_def f3 c2 f2 f1 keepTrace_counts decisions_ok_def traces_ok_def lim1)
      (simp add: s2_def lim1)
  show "quiet_balanced (count r b s')"
    unfolding quiet_balanced_def
  proof
    assume "xr_reports (count r b s') = []"
    then have "xr_reports s1 = []" by (simp add: cnt s2_def)
    then have "xr_reports s' = []"
      by (auto simp: s1_def dest: xr_reports_keepDecision split: option.splits)
    from quiet [OF this] have clean: "xr_reports s = []" "request_findings r = []" by auto
    then have "balanced (xr_counters s1)"
      using assms(2) balanced_flow [OF flow1] by (simp add: quiet_balanced_def s')
    then have "balanced (xr_counters s2)" unfolding c2 by (rule balanced_count_request [OF _ clean(2)])
    then show "balanced (xr_counters (count r b s'))"
      using balanced_flow [OF keepTrace_counts(2)] by (simp add: cnt)
  qed
qed

lemma length_delete_present:
  "jsmap_ok m \<Longrightarrow> map_of m k = Some v \<Longrightarrow> length m = Suc (length (AList.delete k m))"
proof (induction m)
  case Nil
  then show ?case by simp
next
  case (Cons kv m)
  have ok: "jsmap_ok m" "fst kv \<notin> fst ` set m" using Cons.prems(1) by (auto simp: jsmap_ok_def)
  show ?case
  proof (cases "fst kv = k")
    case True
    then have "AList.delete k m = m" using ok(2) by (simp add: delete_id)
    with True show ?thesis by (cases kv) simp
  next
    case False
    with Cons ok show ?thesis by (cases kv) simp
  qed
qed

lemma jsmap_keys_delete: "jsmap_keys (AList.delete k m) = jsmap_keys m - {k}"
  by (force simp: AList.delete_eq)

lemma remember_sel [simp]:
  "xr_limits (remember n s) = xr_limits s" "xr_active (remember n s) = xr_active s"
  "xr_orphans (remember n s) = xr_orphans s" "xr_counters (remember n s) = xr_counters s"
  "xr_decisions (remember n s) = xr_decisions s" "xr_traces (remember n s) = xr_traces s"
  "xr_reports (remember n s) = xr_reports s" "xr_finalized (remember n s) = xr_finalized s"
  by (simp_all add: remember_def Let_def)

lemma remember_ring:
  assumes "xr_recent s = set (xr_recentOrder s)" "distinct (xr_recentOrder s)" "n \<notin> xr_recent s"
  shows "xr_recent (remember n s) = set (xr_recentOrder (remember n s))"
    "distinct (xr_recentOrder (remember n s))"
    "length (xr_recentOrder (remember n s)) \<le> el_recentRing (xr_limits s)"
    "xr_recent (remember n s) \<subseteq> insert n (xr_recent s)"
proof -
  let ?o = "xr_recentOrder s @ [n]" and ?k = "length (xr_recentOrder s @ [n]) - el_recentRing (xr_limits s)"
  have dist: "distinct ?o" using assms by simp
  have "set (take ?k ?o) \<inter> set (drop ?k ?o) = {}"
    by (rule set_take_disj_set_drop_if_distinct [OF dist order_refl])
  moreover have "set ?o = set (take ?k ?o) \<union> set (drop ?k ?o)"
    by (metis append_take_drop_id set_append)
  ultimately have "set ?o - set (take ?k ?o) = set (drop ?k ?o)" by blast
  then show "xr_recent (remember n s) = set (xr_recentOrder (remember n s))"
    using assms(1) by (simp add: remember_def Let_def)
  show "distinct (xr_recentOrder (remember n s))"
    using distinct_drop [OF dist] by (simp add: remember_def Let_def del: drop_append)
  show "length (xr_recentOrder (remember n s)) \<le> el_recentRing (xr_limits s)"
    by (simp add: remember_def Let_def del: drop_append)
  show "xr_recent (remember n s) \<subseteq> insert n (xr_recent s)"
    by (auto simp: remember_def Let_def)
qed

lemma lane_inv_reduce:
  assumes inv: "lane_inv s" and r: "map_of (xr_active s) (ac_nonce r) = Some r \<or> map_of (xr_active s) (ac_nonce r) = None"
  shows "lane_inv (reduce r s)"
proof (cases "map_of (xr_active s) (ac_nonce r) = None")
  case True
  with inv show ?thesis by (simp add: reduce_def)
next
  case False
  let ?n = "ac_nonce r"
  define s1 where "s1 = fold (\<lambda>a. xr_report (an_code a) (Some (ac_rid r)) (an_detail a)) (request_findings r)
      (s\<lparr>xr_active := AList.delete ?n (xr_active s)\<rparr>)"
  define s2 where "s2 = (if ac_terminalAt r = None
      then xr_report external_unresolved (Some (ac_rid r)) (last_kind_text (ac_plane r)) s1 else s1)"
  let ?b = "request_findings r \<noteq> [] \<or> ac_terminalAt r = None"
  have red: "reduce r s = remember ?n (count r ?b s2)"
    by (simp only: reduce_def Let_def s1_def s2_def False if_False)
  note h = lane_invD(1) [OF inv, unfolded held_ok_def]
  have s2: "xr_limits s2 = xr_limits s" "xr_active s2 = AList.delete ?n (xr_active s)"
    "xr_orphans s2 = xr_orphans s" "xr_recent s2 = xr_recent s" "xr_recentOrder s2 = xr_recentOrder s"
    "xr_counters s2 = xr_counters s" "xr_decisions s2 = xr_decisions s" "xr_traces s2 = xr_traces s"
    by (simp_all add: s2_def s1_def fold_report)
  have quiet: "xr_reports s2 = [] \<Longrightarrow> xr_reports s = [] \<and> request_findings r = []"
    by (auto simp: s2_def s1_def fold_report split: if_splits)
  have len: "length (xr_active s) = Suc (length (xr_active s2))"
    using length_delete_present h False by (auto simp: s2)
  have fresh: "?n \<notin> xr_recent s"
    using h jsmap_mem_iff [of "?n" "xr_active s"] False by blast
  let ?c = "count r ?b s2"
  have rem: "xr_recent ?c = set (xr_recentOrder ?c)" "distinct (xr_recentOrder ?c)" "?n \<notin> xr_recent ?c"
    using h fresh unfolding count_sel s2 ring_ok_def by blast+
  note ring = remember_ring [OF rem]
  have "held_ok (remember ?n ?c)"
    unfolding held_ok_def
  proof (intro conjI)
    show "jsmap_ok (xr_active (remember ?n ?c))" using h by (simp add: s2)
    show "\<forall>(nonce, r) \<in> set (xr_active (remember ?n ?c)). request_ok (xr_limits (remember ?n ?c)) nonce r"
      using h by (auto simp: s2 AList.delete_eq)
    show "length (xr_active (remember ?n ?c)) \<le> el_maxActive (xr_limits (remember ?n ?c))"
      using h len by (simp add: s2)
    show "length (xr_orphans (remember ?n ?c)) \<le> el_maxOrphans (xr_limits (remember ?n ?c))"
      using h by (simp add: s2)
    show "jsmap_keys (xr_active (remember ?n ?c)) \<inter> xr_recent (remember ?n ?c) = {}"
      using h ring(4) unfolding remember_sel count_sel s2 jsmap_keys_delete by blast
    show "ring_ok (remember ?n ?c)"
      unfolding ring_ok_def using ring by simp
  qed
  moreover have "counters_ok ?c" "quiet_balanced ?c"
    using count_inv [OF lane_invD(2) [OF inv] lane_invD(3) [OF inv] len s2(6,7,8,1) refl quiet] by auto
  ultimately show ?thesis
    by (simp add: red lane_inv_def counters_ok_def quiet_balanced_def)
qed

subsection \<open>The operations preserve the invariant\<close>

lemma lane_inv_counters:
  assumes "lane_inv s" "flow_part (f (xr_counters s)) = flow_part (xr_counters s)"
    "xc_decisionsRetained (f (xr_counters s)) = xc_decisionsRetained (xr_counters s)"
    "xc_decisionsDropped (f (xr_counters s)) = xc_decisionsDropped (xr_counters s)"
    "xc_tracesRetained (f (xr_counters s)) = xc_tracesRetained (xr_counters s)"
  shows "lane_inv (on_counters f s)"
  using lane_invD [OF assms(1)] held_ok_frame [OF lane_invD(1) [OF assms(1)], of "on_counters f s"]
    balanced_flow [OF assms(2)]
  by (simp add: lane_inv_def counters_ok_def quiet_balanced_def flow_part_eqD [OF assms(2)] assms(3-5))

lemma lane_inv_orphans:
  assumes "lane_inv s" "length os \<le> el_maxOrphans (xr_limits s)"
  shows "lane_inv (s\<lparr>xr_orphans := os\<rparr>)"
  using assms by (simp add: lane_inv_defs)

text \<open>Putting a request back: the same nonce, streams within the caps, perhaps one report.\<close>

lemma lane_inv_put_active:
  assumes inv: "lane_inv s" and old: "map_of (xr_active s) (ac_nonce r) = Some r0"
    and ok: "request_ok (xr_limits s) (ac_nonce r) r"
  shows "lane_inv (put_active (r, s))"
proof -
  note h = lane_invD(1) [OF inv, unfolded held_ok_def]
  have "ac_nonce r \<in> set (map fst (xr_active s))" using map_of_SomeD [OF old] by force
  then have "map fst (AList.update (ac_nonce r) r (xr_active s)) = map fst (xr_active s)"
    by (simp add: update_keys)
  then have keys: "jsmap_keys (AList.update (ac_nonce r) r (xr_active s)) = jsmap_keys (xr_active s)"
    by (metis list.set_map)
  have mem: "set (AList.update (ac_nonce r) r (xr_active s)) \<subseteq> insert (ac_nonce r, r) (set (xr_active s))"
    using set_update_subset by fast
  have "\<forall>(nonce, q) \<in> set (AList.update (ac_nonce r) r (xr_active s)). request_ok (xr_limits s) nonce q"
    using h ok mem by fastforce
  then have "held_ok (put_active (r, s))"
    using h old by (simp add: held_ok_def put_active_def keys)
  then show ?thesis
    using lane_invD(2,3) [OF inv] old
    by (simp add: lane_inv_def counters_ok_def quiet_balanced_def put_active_def)
qed

text \<open>What appending events to a request may change: its streams within the caps, and the reports.\<close>

definition appended :: "active_request \<times> reducer \<Rightarrow> active_request \<times> reducer \<Rightarrow> bool" where
  "appended p q \<longleftrightarrow> ac_nonce (fst q) = ac_nonce (fst p) \<and> ac_rid (fst q) = ac_rid (fst p)
     \<and> ac_terminalAt (fst q) = ac_terminalAt (fst p)
     \<and> (request_ok (xr_limits (snd p)) (ac_nonce (fst p)) (fst p) \<longrightarrow>
          request_ok (xr_limits (snd p)) (ac_nonce (fst p)) (fst q))
     \<and> (\<exists>rs. snd q = (snd p)\<lparr>xr_reports := xr_reports (snd p) @ rs\<rparr>)"

lemma appended_refl: "appended p p"
proof -
  have "snd p = (snd p)\<lparr>xr_reports := xr_reports (snd p) @ []\<rparr>" by simp
  then show ?thesis unfolding appended_def by blast
qed

lemma appended_trans:
  assumes "appended p q" "appended q u"
  shows "appended p u"
proof -
  obtain rs where rs: "snd q = (snd p)\<lparr>xr_reports := xr_reports (snd p) @ rs\<rparr>"
    using assms(1) by (auto simp: appended_def)
  obtain rs' where rs': "snd u = (snd q)\<lparr>xr_reports := xr_reports (snd q) @ rs'\<rparr>"
    using assms(2) by (auto simp: appended_def)
  have "snd u = (snd p)\<lparr>xr_reports := xr_reports (snd p) @ (rs @ rs')\<rparr>" by (simp add: rs' rs)
  moreover have "xr_limits (snd q) = xr_limits (snd p)" by (simp add: rs)
  ultimately show ?thesis
  proof -
    assume u: "snd u = (snd p)\<lparr>xr_reports := xr_reports (snd p) @ (rs @ rs')\<rparr>"
      and lim: "xr_limits (snd q) = xr_limits (snd p)"
    have n: "ac_nonce (fst q) = ac_nonce (fst p)" "ac_rid (fst q) = ac_rid (fst p)"
      "ac_terminalAt (fst q) = ac_terminalAt (fst p)"
      using assms(1) by (simp_all add: appended_def)
    show ?thesis
      using assms(1) assms(2) [unfolded appended_def lim n] u unfolding appended_def by blast
  qed
qed

lemma appended_over_capacity: "appended (r, s) (r, over_capacity r t s)"
  by (auto simp: appended_def over_capacity_def xr_report_def)

lemma appended_same_state:
  assumes "ac_nonce r' = ac_nonce r" "ac_rid r' = ac_rid r" "ac_terminalAt r' = ac_terminalAt r"
    "request_ok (xr_limits s) (ac_nonce r) r \<Longrightarrow> request_ok (xr_limits s) (ac_nonce r) r'"
  shows "appended (r, s) (r', s)"
proof -
  have "s = s\<lparr>xr_reports := xr_reports s @ []\<rparr>" by simp
  with assms show ?thesis unfolding appended_def fst_conv snd_conv by blast
qed

definition append_ok :: "(active_request \<times> reducer \<Rightarrow> active_request \<times> reducer) \<Rightarrow> bool" where
  "append_ok f \<longleftrightarrow> (\<forall>p. appended p (f p))"

lemma append_ok_streams [simp]:
  "append_ok (append_plane e)" "append_ok (append_boundary b)" "append_ok (append_app a)"
  by (auto simp: append_ok_def append_plane_def append_boundary_def append_app_def request_ok_def
      appended_over_capacity intro!: appended_same_state)

lemma append_ok_fold:
  assumes "\<And>e. append_ok (app e)"
  shows "append_ok (fold app es)"
proof -
  have "appended p (fold app es p)" for p
  proof (induction es arbitrary: p)
    case Nil
    then show ?case by (simp add: appended_refl)
  next
    case (Cons e es)
    have "appended p (app e p)" using assms [of e] by (simp only: append_ok_def)
    from appended_trans [OF this Cons.IH] show ?case by simp
  qed
  then show ?thesis by (simp add: append_ok_def)
qed

lemma append_okD:
  assumes "append_ok f" "f (r, s) = (r', s')"
  shows "ac_nonce r' = ac_nonce r" "ac_rid r' = ac_rid r" "ac_terminalAt r' = ac_terminalAt r"
    "request_ok (xr_limits s) (ac_nonce r) r \<Longrightarrow> request_ok (xr_limits s) (ac_nonce r) r'"
    "\<exists>rs. s' = s\<lparr>xr_reports := xr_reports s @ rs\<rparr>"
proof -
  have "appended (r, s) (r', s')" using assms by (metis append_ok_def)
  then show "ac_nonce r' = ac_nonce r" "ac_rid r' = ac_rid r" "ac_terminalAt r' = ac_terminalAt r"
    "request_ok (xr_limits s) (ac_nonce r) r \<Longrightarrow> request_ok (xr_limits s) (ac_nonce r) r'"
    "\<exists>rs. s' = s\<lparr>xr_reports := xr_reports s @ rs\<rparr>"
    by (simp_all add: appended_def)
qed

lemma ring_ok_reports [simp]: "ring_ok (s\<lparr>xr_reports := e\<rparr>) = ring_ok s"
  "ring_ok (on_counters f s) = ring_ok s"
  by (simp_all add: ring_ok_def)

lemma lane_inv_reports: "lane_inv s \<Longrightarrow> lane_inv (s\<lparr>xr_reports := xr_reports s @ rs\<rparr>)"
  by (simp add: lane_inv_defs)

lemma append_state:
  assumes "append_ok f" "f (r, s) = (r', s')"
  shows "xr_active s' = xr_active s" "xr_limits s' = xr_limits s" "lane_inv s \<Longrightarrow> lane_inv s'"
    "xr_recent s' = xr_recent s" "xr_orphans s' = xr_orphans s" "xr_counters s' = xr_counters s"
proof -
  obtain rs where "s' = s\<lparr>xr_reports := xr_reports s @ rs\<rparr>" using append_okD(5) [OF assms] by blast
  then show "xr_active s' = xr_active s" "xr_limits s' = xr_limits s" "lane_inv s \<Longrightarrow> lane_inv s'"
    "xr_recent s' = xr_recent s" "xr_orphans s' = xr_orphans s" "xr_counters s' = xr_counters s"
    by (simp_all add: lane_inv_reports)
qed

lemma active_request_ok:
  assumes "lane_inv s" "map_of (xr_active s) nonce = Some r"
  shows "request_ok (xr_limits s) nonce r" "ac_nonce r = nonce"
  using lane_invD(1) [OF assms(1)] map_of_SomeD [OF assms(2)]
  by (auto simp: held_ok_def request_ok_def)

lemma lane_inv_append:
  assumes "lane_inv s" "map_of (xr_active s) nonce = Some r" "append_ok f" "f (r, s) = (r', s')"
  shows "lane_inv (put_active (r', s'))" "map_of (xr_active (put_active (r', s'))) nonce = Some r'"
proof -
  note ok = active_request_ok [OF assms(1,2)]
  note a = append_okD [OF assms(3,4)] append_state [OF assms(3,4)]
  show "lane_inv (put_active (r', s'))"
    by (rule lane_inv_put_active [of _ _ r]) (use a ok assms(1,2) in simp_all)
  show "map_of (xr_active (put_active (r', s'))) nonce = Some r'"
    using a ok by (simp add: put_active_def)
qed

lemma lane_inv_tryComplete:
  assumes "lane_inv s" "map_of (xr_active s) (ac_nonce r) = Some r"
  shows "lane_inv (tryComplete r final now s)"
  using assms by (simp add: tryComplete_def lane_inv_reduce)

lemma lane_inv_set_terminal:
  assumes "lane_inv (put_active (r, s))"
  shows "lane_inv (put_active (set_terminal e now r, s))"
proof -
  have n: "ac_nonce (set_terminal e now r) = ac_nonce r" by (simp add: set_terminal_def)
  have ok: "request_ok (xr_limits s) (ac_nonce r) r"
    using active_request_ok [OF assms, of "ac_nonce r" r] by (simp add: put_active_def)
  have "lane_inv (put_active (set_terminal e now r, put_active (r, s)))"
    by (rule lane_inv_put_active [OF assms, of _ r])
      (use ok in \<open>simp_all add: n put_active_def, auto simp: request_ok_def set_terminal_def\<close>)
  moreover have "AList.update k v (AList.update k w m) = AList.update k v m" for k :: string and v w :: active_request and m
    by (induction m) auto
  ultimately show ?thesis by (simp add: put_active_def n)
qed

lemma held_ok_limits:
  assumes "lane_inv s"
  shows "jsmap_ok (xr_active s)" "length (xr_active s) \<le> el_maxActive (xr_limits s)"
    "length (xr_orphans s) \<le> el_maxOrphans (xr_limits s)"
  using lane_invD(1) [OF assms] by (simp_all add: held_ok_def)

lemma balanced_accepted [simp]:
  "balanced (c\<lparr>xc_accepted := m, xc_strippedHeaders := n\<rparr>) = balanced c"
  by (simp add: balanced_def)

lemma lane_inv_open:
  assumes inv: "lane_inv s" and fresh: "map_of (xr_active s) nonce = None" "nonce \<notin> xr_recent s"
    and room: "length (xr_active s) < el_maxActive (xr_limits s)"
  shows "lane_inv (open_request e nonce now s)"
proof -
  define r where "r = \<lparr>ac_rid = ''x'' @ show_nat (xr_nextRid s), ac_nonce = nonce, ac_plane = [e], ac_boundary = [],
            ac_app = [], ac_origin = [], ac_openedAt = now, ac_terminalAt = None\<rparr>"
  define s1 where "s1 = on_counters (\<lambda>c. c\<lparr>xc_accepted := Suc (xc_accepted c),
                 xc_strippedHeaders := xc_strippedHeaders c + (case pe_stripped e of None \<Rightarrow> 0 | Some n \<Rightarrow> n)\<rparr>)
               (s\<lparr>xr_nextRid := Suc (xr_nextRid s)\<rparr>)"
  have s1: "xr_limits s1 = xr_limits s" "xr_active s1 = xr_active s" "xr_recent s1 = xr_recent s"
    "xr_orphans s1 = xr_orphans s" "ring_ok s1 = ring_ok s" "xr_decisions s1 = xr_decisions s"
    "xr_traces s1 = xr_traces s" "xr_reports s1 = xr_reports s"
    by (simp_all add: s1_def)
  have cnt: "xr_counters s1 = (xr_counters s)\<lparr>xc_accepted := Suc (xc_accepted (xr_counters s)),
        xc_strippedHeaders := xc_strippedHeaders (xr_counters s) + (case pe_stripped e of None \<Rightarrow> 0 | Some n \<Rightarrow> n)\<rparr>"
    by (simp add: s1_def)
  have r: "request_ok l nonce r" for l by (simp add: r_def request_ok_def)
  have put: "lane_inv (put_active (q, t\<lparr>xr_reports := xr_reports t @ rs\<rparr>))"
    if q: "ac_nonce q = nonce" "request_ok (xr_limits s) nonce q"
      and t: "t = s1\<lparr>xr_orphans := os\<rparr>" and os: "length os \<le> length (xr_orphans s)" for q t rs os
  proof -
    note h = lane_invD(1) [OF inv, unfolded held_ok_def]
    have fold: "AList.update nonce q (xr_active s) = xr_active s @ [(nonce, q)]"
      by (rule update_new_append [OF fresh(1)])
    have "jsmap_ok (xr_active s @ [(nonce, q)])"
      using jsmap_ok_update [of "xr_active s" nonce q] h by (simp add: fold)
    moreover have "jsmap_keys (xr_active s @ [(nonce, q)]) \<inter> xr_recent s = {}"
      using h fresh(2) by auto
    ultimately have "held_ok (put_active (q, t\<lparr>xr_reports := xr_reports t @ rs\<rparr>))"
      using h q room os by (simp add: held_ok_def put_active_def t s1 fold)
    then show ?thesis
      using lane_invD(2,3) [OF inv]
      by (simp add: lane_inv_def counters_ok_def quiet_balanced_def put_active_def t s1 q fold cnt)
  qed
  show ?thesis
  proof (cases "map_of (xr_orphans s) nonce")
    case None
    have same: "s1\<lparr>xr_orphans := xr_orphans s\<rparr> = s1" unfolding s1(4) [symmetric] by simp
    have "lane_inv (put_active (r, s1))"
      using put [of r s1 "xr_orphans s" "[]", OF _ r same [symmetric] order_refl] by (simp add: r_def)
    then show ?thesis
      unfolding open_request_def Let_def r_def [symmetric] s1_def [symmetric] by (simp add: None)
  next
    case (Some held)
    let ?t = "s1\<lparr>xr_orphans := AList.delete nonce (xr_orphans s)\<rparr>"
    let ?f = "\<lambda>p. fold append_app (or_app held) (fold append_boundary (or_boundary held) p)"
    have f: "append_ok ?f"
      unfolding append_ok_def
    proof
      fix p
      have "appended p (fold append_boundary (or_boundary held) p)"
        using append_ok_fold [of append_boundary "or_boundary held", OF append_ok_streams(2)] unfolding append_ok_def by blast
      moreover have "appended (fold append_boundary (or_boundary held) p) (?f p)"
        using append_ok_fold [of append_app "or_app held", OF append_ok_streams(3)] unfolding append_ok_def by blast
      ultimately show "appended p (?f p)" by (rule appended_trans)
    qed
    obtain r2 t2 where a: "?f (r, ?t) = (r2, t2)" by (cases "?f (r, ?t)") auto
    have n: "ac_nonce r = nonce" by (simp add: r_def)
    note d = append_okD [OF f a]
    obtain rs where t2: "t2 = ?t\<lparr>xr_reports := xr_reports ?t @ rs\<rparr>" using d(5) by blast
    have q: "ac_nonce r2 = nonce" "request_ok (xr_limits s) nonce r2"
      using d(1,4) r by (simp_all add: n s1)
    have "length (AList.delete nonce (xr_orphans s)) \<le> length (xr_orphans s)"
      by (simp add: AList.delete_eq)
    from put [OF q refl this, of rs] show ?thesis
      unfolding open_request_def Let_def r_def [symmetric] s1_def [symmetric] t2 [symmetric]
      by (simp add: Some a)
  qed
qed

lemma lane_inv_overflow:
  assumes "lane_inv s"
  shows "lane_inv (on_counters (\<lambda>c. c\<lparr>xc_overflowActive := m c\<rparr>) s)"
    "lane_inv (on_counters (\<lambda>c. c\<lparr>xc_overflowOrphans := m c\<rparr>) s)"
  by (rule lane_inv_counters [OF assms]; simp add: flow_part_def)+

lemma lane_inv_anonymous: "lane_inv s \<Longrightarrow> lane_inv (s\<lparr>xr_anonymous := m\<rparr>)"
  by (simp add: lane_inv_defs)

lemma lane_inv_finalized: "lane_inv s \<Longrightarrow> lane_inv (s\<lparr>xr_finalized := b\<rparr>)"
  by (simp add: lane_inv_defs)

lemma lane_inv_reportOrphan: "lane_inv s \<Longrightarrow> lane_inv (reportOrphan h s)"
  by (simp add: reportOrphan_def lane_inv_anonymous lane_inv_report)

lemma lane_inv_ingestPlane:
  assumes inv: "lane_inv s"
  shows "lane_inv (snd (ingestPlane e now later s))"
proof (cases "pe_nonce e")
  case None
  with inv show ?thesis by (simp add: ingestPlane_def)
next
  case (Some nonce)
  show ?thesis
  proof (cases "pe_kind e = INGRESS_ACCEPTED \<and> pe_external e")
    case True
    then show ?thesis
      using inv lane_inv_open [OF inv] Some
      by (simp add: ingestPlane_def lane_inv_report lane_inv_overflow not_le)
  next
    case False
    then have other: "(pe_kind e = INGRESS_ACCEPTED \<and> pe_external e) = False" by blast
    show ?thesis
    proof (cases "map_of (xr_active s) nonce")
      case None
      with inv show ?thesis
        unfolding ingestPlane_def Some option.case other if_False by (simp add: lane_inv_report)
    next
      case r: (Some r)
      obtain r1 s1 where a: "append_plane e (r, s) = (r1, s1)" by (cases "append_plane e (r, s)") auto
      note put = lane_inv_append [OF inv r append_ok_streams(1) a]
      let ?r2 = "set_terminal e now r1"
      have "lane_inv (put_active (?r2, s1))" by (rule lane_inv_set_terminal [OF put(1)])
      moreover have "map_of (xr_active (put_active (?r2, s1))) (ac_nonce ?r2) = Some ?r2"
        by (simp add: put_active_def)
      ultimately have "lane_inv (tryComplete ?r2 False later (put_active (?r2, s1)))"
        by (rule lane_inv_tryComplete)
      then show ?thesis
        unfolding ingestPlane_def Some option.case other if_False by (simp add: r a Let_def)
    qed
  qed
qed

lemma lane_inv_ingest_downstream:
  assumes inv: "lane_inv s" and app: "append_ok app"
  shows "lane_inv (snd (ingest_downstream nonce_opt kind app hold now s))"
proof (cases nonce_opt)
  case None
  with inv show ?thesis by (simp add: ingest_downstream_def)
next
  case (Some nonce)
  show ?thesis
  proof (cases "map_of (xr_active s) nonce")
    case r: (Some r)
    obtain r1 s1 where a: "app (r, s) = (r1, s1)" by (cases "app (r, s)") auto
    note put = lane_inv_append [OF inv r app a]
    have "ac_nonce r1 = nonce" using append_okD(1) [OF app a] active_request_ok(2) [OF inv r] by simp
    then have "lane_inv (tryComplete r1 False now (put_active (r1, s1)))"
      using lane_inv_tryComplete [OF put(1)] put(2) by simp
    then show ?thesis using Some r a by (simp add: ingest_downstream_def)
  next
    case None
    have old: "lane_inv (s\<lparr>xr_orphans := AList.update nonce h (xr_orphans s)\<rparr>)"
      if "map_of (xr_orphans s) nonce = Some g" for g h
      using that held_ok_limits(3) [OF inv] by (intro lane_inv_orphans inv) simp
    have new: "lane_inv (s\<lparr>xr_orphans := AList.update nonce h (xr_orphans s)\<rparr>)"
      if "map_of (xr_orphans s) nonce = None" "\<not> length (xr_orphans s) \<ge> el_maxOrphans (xr_limits s)" for h
      using that by (intro lane_inv_orphans inv) simp
    show ?thesis
      unfolding ingest_downstream_def Some option.case None snd_conv
      by (cases "map_of (xr_orphans s) nonce")
        (use inv in \<open>simp_all add: lane_inv_report lane_inv_overflow old new\<close>)
  qed
qed

lemma reduce_active:
  "map_of (xr_active (reduce r s)) n = (if n = ac_nonce r then None else map_of (xr_active s) n)"
  by (auto simp: reduce_def Let_def fold_report)

lemma reduce_limits [simp]:
  "xr_limits (reduce r s) = xr_limits s" "xr_orphans (reduce r s) = xr_orphans s"
  "xr_finalized (reduce r s) = xr_finalized s"
  by (auto simp: reduce_def Let_def fold_report)

text \<open>Reducing a snapshot of the table: each request is still there as it was, or gone.\<close>

lemma lane_inv_reduce_all:
  assumes "lane_inv s" "\<forall>r \<in> set rs. map_of (xr_active s) (ac_nonce r) \<in> {Some r, None}"
  shows "lane_inv (fold (\<lambda>r s. if P r s then reduce r s else s) rs s)"
  using assms
proof (induction rs arbitrary: s)
  case Nil
  then show ?case by simp
next
  case (Cons r rs)
  let ?s = "if P r s then reduce r s else s"
  have "lane_inv ?s" using lane_inv_reduce [of s r] Cons.prems by auto
  moreover have "\<forall>q \<in> set rs. map_of (xr_active ?s) (ac_nonce q) \<in> {Some q, None}"
    using Cons.prems(2) by (auto simp: reduce_active)
  ultimately have "lane_inv (fold (\<lambda>r s. if P r s then reduce r s else s) rs ?s)"
    by (rule Cons.IH)
  then show ?case by simp
qed

lemma snapshot_ok:
  assumes "lane_inv s"
  shows "\<forall>r \<in> set (map snd (xr_active s)). map_of (xr_active s) (ac_nonce r) \<in> {Some r, None}"
proof
  fix r assume "r \<in> set (map snd (xr_active s))"
  then obtain n where n: "(n, r) \<in> set (xr_active s)" by auto
  then have "ac_nonce r = n" using lane_invD(1) [OF assms] by (auto simp: held_ok_def request_ok_def)
  with n show "map_of (xr_active s) (ac_nonce r) \<in> {Some r, None}"
    using held_ok_limits(1) [OF assms] by (simp add: jsmap_get_iff)
qed

lemma lane_inv_sweep:
  assumes "lane_inv s"
  shows "lane_inv (sweep now s)"
proof -
  have orphans: "lane_inv (fold (sweep_orphan now) os t)" if "lane_inv t" for os t
    using that
  proof (induction os arbitrary: t)
    case (Cons h os)
    have "length (AList.delete (fst h) (xr_orphans t)) \<le> el_maxOrphans (xr_limits t)"
      using held_ok_limits(3) [OF Cons.prems] by (metis AList.delete_eq length_filter_le order_trans)
    then have "lane_inv (sweep_orphan now h t)"
      using Cons.prems by (simp add: sweep_orphan_def case_prod_beta lane_inv_reportOrphan lane_inv_orphans)
    then show ?case using Cons.IH by simp
  qed simp
  show ?thesis
    unfolding sweep_def Let_def by (intro orphans lane_inv_reduce_all assms snapshot_ok)
qed

lemma lane_inv_finalize:
  assumes "lane_inv s"
  shows "lane_inv (finalize_reducer s)"
proof -
  have rep: "lane_inv (fold reportOrphan hs t)" if "lane_inv t" for hs t
    using that by (induction hs arbitrary: t) (simp_all add: lane_inv_reportOrphan)
  have "lane_inv (fold (\<lambda>r s. if True then reduce r s else s) (map snd (xr_active s)) (s\<lparr>xr_finalized := True\<rparr>))"
    by (rule lane_inv_reduce_all) (use assms snapshot_ok [OF assms] lane_inv_finalized in auto)
  from rep [OF this] show ?thesis
    using assms by (simp add: finalize_reducer_def lane_inv_orphans)
qed

lemma lane_inv_step: "lane_inv s \<Longrightarrow> lane_inv (lane_step op s)"
  by (cases op) (simp_all add: lane_inv_ingestPlane lane_inv_sweep lane_inv_finalize
      ingestBoundary_def ingestApp_def lane_inv_ingest_downstream)

lemma lane_inv_run: "lane_inv (lane_run ops (new_reducer l al))"
proof -
  have "lane_inv s \<Longrightarrow> lane_inv (fold lane_step ops s)" for s
    by (induction ops arbitrary: s) (simp_all add: lane_inv_step)
  then show ?thesis by (simp add: lane_run_def lane_inv_new)
qed

lemma put_active_sel [simp]: "xr_limits (put_active p) = xr_limits (snd p)"
  "xr_finalized (put_active p) = xr_finalized (snd p)"
  by (simp_all add: put_active_def case_prod_beta)

lemma tryComplete_sel [simp]: "xr_limits (tryComplete r f now s) = xr_limits s"
  "xr_finalized (tryComplete r f now s) = xr_finalized s"
  by (simp_all add: tryComplete_def)

text \<open>What no operation but \<^const>\<open>finalize_reducer\<close> changes: the limits and the flag.\<close>

abbreviation same_config :: "reducer \<Rightarrow> reducer \<Rightarrow> bool" where
  "same_config t s \<equiv> xr_limits t = xr_limits s \<and> xr_finalized t = xr_finalized s"

lemma same_config_append: "append_ok f \<Longrightarrow> same_config (snd (f (r, s))) s"
  using append_okD(5) [of f r s "fst (f (r, s))" "snd (f (r, s))"] by auto

lemma same_config_open: "same_config (open_request e n now s) s"
proof -
  have "same_config (snd (fold append_app as (fold append_boundary bs (r, t)))) t" for as bs r t
  proof -
    let ?p = "fold append_boundary bs (r, t)"
    have "same_config (snd (fold append_app as (fst ?p, snd ?p))) (snd ?p)"
      by (rule same_config_append [OF append_ok_fold]) simp
    moreover have "same_config (snd ?p) t" by (rule same_config_append [OF append_ok_fold]) simp
    ultimately show ?thesis by simp
  qed
  then show ?thesis by (simp add: open_request_def Let_def split: option.split)
qed

lemma same_config_ingestPlane: "same_config (snd (ingestPlane e now later s)) s"
  using same_config_append [OF append_ok_streams(1), of e] same_config_open
  by (simp add: ingestPlane_def case_prod_beta Let_def split: option.split)

lemma same_config_downstream: "append_ok f \<Longrightarrow> same_config (snd (ingest_downstream n k f h now s)) s"
  using same_config_append [of f] by (simp add: ingest_downstream_def case_prod_beta Let_def split: option.split)

lemma same_config_reportOrphan: "same_config (reportOrphan h s) s"
  by (simp add: reportOrphan_def)

lemma same_config_reduces: "same_config (fold (\<lambda>r s. if P r s then reduce r s else s) rs s) s"
  by (induction rs arbitrary: s) simp_all

lemma same_config_sweep: "same_config (sweep now s) s"
proof -
  have "same_config (fold (sweep_orphan now) os t) t" for os t
    by (induction os arbitrary: t) (simp_all add: sweep_orphan_def case_prod_beta same_config_reportOrphan)
  then show ?thesis by (simp add: sweep_def Let_def same_config_reduces)
qed

lemma lane_step_limits [simp]: "xr_limits (lane_step op s) = xr_limits s"
proof (cases op)
  case LFinalize
  have "xr_limits (fold reportOrphan hs t) = xr_limits t" for hs t
    by (induction hs arbitrary: t) (simp_all add: same_config_reportOrphan)
  then show ?thesis
    using same_config_reduces [of "\<lambda>_ _. True"] by (simp add: LFinalize finalize_reducer_def)
qed (simp_all add: same_config_ingestPlane same_config_downstream ingestBoundary_def ingestApp_def same_config_sweep)

lemma lane_run_limits: "xr_limits (lane_run ops (new_reducer l al)) = l"
proof -
  have "xr_limits (fold lane_step ops s) = xr_limits s" for s by (induction ops arbitrary: s) simp_all
  then show ?thesis by (simp add: lane_run_def new_reducer_def)
qed

lemma finalized_only_by_finalize:
  assumes "LFinalize \<notin> set ops"
  shows "\<not> xr_finalized (lane_run ops (new_reducer l al))"
proof -
  have step: "op \<noteq> LFinalize \<Longrightarrow> xr_finalized (lane_step op s) = xr_finalized s" for op s
    by (cases op) (simp_all add: same_config_ingestPlane same_config_downstream ingestBoundary_def
        ingestApp_def same_config_sweep)
  have "xr_finalized (fold lane_step ops s) = xr_finalized s" for s
    using assms
  proof (induction ops arbitrary: s)
    case (Cons op ops)
    then have "xr_finalized (lane_step op s) = xr_finalized s" by (intro step) auto
    with Cons show ?case by simp
  qed simp
  then show ?thesis by (simp add: lane_run_def new_reducer_def)
qed

lemma reduce_all_active:
  "map_of (xr_active (fold reduce rs s)) n = (if n \<in> ac_nonce ` set rs then None else map_of (xr_active s) n)"
  by (induction rs arbitrary: s) (auto simp: reduce_active)

lemma reportOrphans_active [simp]: "xr_active (fold reportOrphan hs s) = xr_active s"
proof (induction hs arbitrary: s)
  case (Cons h hs)
  then show ?case by (simp add: reportOrphan_def)
qed simp

lemma finalize_empties:
  assumes "lane_inv s" "\<not> xr_finalized s"
  shows "xr_active (finalize_reducer s) = []" "xr_orphans (finalize_reducer s) = []"
proof -
  let ?t = "fold reduce (map snd (xr_active s)) (s\<lparr>xr_finalized := True\<rparr>)"
  have "map_of (xr_active ?t) n = None" for n
  proof (cases "map_of (xr_active s) n")
    case None
    then show ?thesis by (auto simp: reduce_all_active)
  next
    case (Some r)
    then have "r \<in> set (map snd (xr_active s))" using map_of_SomeD by force
    moreover have "ac_nonce r = n" by (rule active_request_ok(2) [OF assms(1) Some])
    ultimately show ?thesis by (auto simp: reduce_all_active)
  qed
  then have "xr_active ?t = []" by (metis ext map_of_eq_empty_iff)
  then show "xr_active (finalize_reducer s) = []" "xr_orphans (finalize_reducer s) = []"
    using assms(2) by (simp_all add: finalize_reducer_def)
qed

subsection \<open>Properties\<close>

text \<open>C13. Nothing is lost or counted twice. After any sequence of operations the accepted external requests
  are those reduced plus those still open, every reduced request has exactly one terminal outcome, every
  503 is either an expected shed or unexplained, and every second-layer decision is kept or counted as
  dropped; the open requests have distinct nonces, none of which is remembered as closed.\<close>

theorem external_lane_accounts:
  "let s = lane_run ops (new_reducer l al); c = xr_counters s in
     xc_accepted c = xc_reduced c + length (xr_active s)
   \<and> table_sum (xc_terminal c) = xc_reduced c
   \<and> cs_total (xc_status503 c) = cs_expectedShed (xc_status503 c) + cs_unexplained (xc_status503 c)
   \<and> c2_decided (xc_l2 c) = length (xr_decisions s) + xc_decisionsDropped c
   \<and> distinct (map fst (xr_active s)) \<and> fst ` set (xr_active s) \<inter> xr_recent s = {}"
  using lane_invD(1,2) [OF lane_inv_run]
  by (simp add: Let_def counters_ok_def held_ok_def jsmap_ok_def)

text \<open>C33. The lane is bounded: open requests, orphans, remembered nonces, kept decisions and traces stay
  within their configured limits, and so do the three streams of every open request.\<close>

theorem external_lane_bounded:
  "let s = lane_run ops (new_reducer l al) in
     length (xr_active s) \<le> el_maxActive l \<and> length (xr_orphans s) \<le> el_maxOrphans l
   \<and> card (xr_recent s) \<le> el_recentRing l
   \<and> length (xr_decisions s) \<le> el_maxDecisions l \<and> length (xr_traces s) \<le> el_maxTraces l
   \<and> list_all (\<lambda>(n, r). length (ac_plane r) \<le> max 1 (el_maxEventsPerStream l)
        \<and> length (ac_boundary r) \<le> el_maxEventsPerStream l
        \<and> length (ac_app r) \<le> el_maxEventsPerStream l) (xr_active s)"
proof -
  let ?s = "lane_run ops (new_reducer l al)"
  have lim: "xr_limits ?s = l" by (rule lane_run_limits)
  note h = lane_invD(1) [OF lane_inv_run [of ops l al], unfolded held_ok_def lim ring_ok_def]
  note c = lane_invD(2) [OF lane_inv_run [of ops l al], unfolded counters_ok_def lim]
  have "card (xr_recent ?s) \<le> el_recentRing l"
    using h card_length [of "xr_recentOrder ?s"] by (metis order_trans)
  then show ?thesis
    using h c by (auto simp: Let_def list_all_iff request_ok_def)
qed

text \<open>C11. A quiet lane balances. If a run of the lane, up to its finalization, reported no anomaly, then
  every accepted request was reduced, entered the first layer with exactly one verdict there, entered the
  second layer exactly when passed and got one decision there, every egress attempt was answered or failed
  and followed a decision, and mutations, executions, application and boundary admissions and egress
  attempts form a decreasing chain: the application never did what the boundary and the plane did not let through.\<close>

theorem quiet_lane_balances:
  assumes "LFinalize \<notin> set ops" "xr_reports (lane_run (ops @ [LFinalize]) (new_reducer l al)) = []"
  shows "let c = xr_counters (lane_run (ops @ [LFinalize]) (new_reducer l al)) in
     xc_accepted c = xc_reduced c \<and> c1_entered (xc_l1 c) = xc_reduced c
   \<and> c1_entered (xc_l1 c) = c1_passed (xc_l1 c) + c1_rejected (xc_l1 c) + c1_shed (xc_l1 c) + c1_error (xc_l1 c)
   \<and> c2_entered (xc_l2 c) = c1_passed (xc_l1 c) \<and> c2_decided (xc_l2 c) = c2_entered (xc_l2 c)
   \<and> ce_attempted (xc_egress c) = ce_responded (xc_egress c) + ce_failed (xc_egress c)
   \<and> ca_mutated (xc_app c) \<le> ca_executed (xc_app c) \<and> ca_executed (xc_app c) \<le> ca_admitted (xc_app c)
   \<and> ca_admitted (xc_app c) \<le> cb_admitted (xc_boundary c)
   \<and> cb_admitted (xc_boundary c) \<le> ce_attempted (xc_egress c)
   \<and> ce_attempted (xc_egress c) \<le> c2_decided (xc_l2 c)
   \<and> table_sum (xc_terminal c) = xc_reduced c \<and> map_of (xc_terminal c) None = None"
proof -
  let ?s = "lane_run ops (new_reducer l al)" and ?t = "lane_run (ops @ [LFinalize]) (new_reducer l al)"
  have t: "?t = finalize_reducer ?s" by (simp add: lane_run_def)
  have empty: "xr_active ?t = []"
    unfolding t by (rule finalize_empties(1) [OF lane_inv_run finalized_only_by_finalize [OF assms(1)]])
  note inv = lane_inv_run [of "ops @ [LFinalize]" l al]
  have "balanced (xr_counters ?t)"
    using lane_invD(3) [OF inv] assms(2) by (simp add: quiet_balanced_def)
  then show ?thesis
    using lane_invD(2) [OF inv] empty by (simp add: balanced_def counters_ok_def Let_def)
qed



lemma name_inj [simp]:
  "class_name c = ''mutation'' \<longleftrightarrow> c = ClsMutation" "lane2_name l = ''unverified'' \<longleftrightarrow> l = Some LaneUnverified"
  "shed_reason_name s = ''lane_budget'' \<longleftrightarrow> s = Some lane_budget"
  by (auto simp: class_name_def lane2_name_def shed_reason_name_def split: operation_class.splits option.splits lane2.splits shed_reason.splits)




text \<open>The number of orphans is bounded, the events of one orphan are not: \<^verbatim>\<open>maxEventsPerStream\<close> applies only
  once the ingress has claimed the nonce.\<close>

lemma orphan_events_unbounded:
  assumes "be_nonce e = Some nonce" "0 < el_maxOrphans l"
  shows "map_of (xr_orphans (lane_run (replicate (Suc k) (LBoundary e now)) (new_reducer l al))) nonce
    = Some \<lparr>or_boundary = replicate (Suc k) e, or_app = [], or_firstAt = now\<rparr>"
proof -
  define st where "st = (\<lambda>j. (new_reducer l al)\<lparr>xr_orphans :=
      [(nonce, \<lparr>or_boundary = replicate (Suc j) e, or_app = [], or_firstAt = now\<rparr>)]\<rparr>)"
  have "lane_run (replicate (Suc j) (LBoundary e now)) (new_reducer l al) = st j" for j
  proof (induction j)
    case 0
    then show ?case
      using assms by (simp add: lane_run_def ingestBoundary_def ingest_downstream_def new_reducer_def st_def)
  next
    case (Suc j)
    have run: "lane_run (replicate (Suc (Suc j)) (LBoundary e now)) (new_reducer l al)
        = lane_step (LBoundary e now) (lane_run (replicate (Suc j) (LBoundary e now)) (new_reducer l al))"
      by (simp add: lane_run_def replicate_append_same [symmetric] del: replicate.simps)
    have "lane_step (LBoundary e now) (st j) = st (Suc j)"
      using assms(1) by (simp add: ingestBoundary_def ingest_downstream_def new_reducer_def st_def
          replicate_append_same)
    then show ?case unfolding run Suc .
  qed
  then show ?thesis by (simp add: st_def)
qed

subsection \<open>Witnesses\<close>

definition sample_shed_event :: plane_event where
  "sample_shed_event = (plane_ev 5 L2_DECIDED)\<lparr>pe_nonce := Some ''n'', pe_class := Some ClsMutation,
     pe_lane := Some (Some LaneUnverified), pe_outcome := Some Shed, pe_shedReason := Some lane_budget,
     pe_dt := Some 0, pe_lvl := Some 0, pe_lseq := Some 1\<rparr>"

definition sample_shed_plane :: "plane_event list" where
  "sample_shed_plane =
     [(plane_ev 1 INGRESS_ACCEPTED)\<lparr>pe_nonce := Some ''n'', pe_external := True\<rparr>,
      (plane_ev 2 L1_ENTERED)\<lparr>pe_nonce := Some ''n''\<rparr>, (plane_ev 3 L1_PASSED)\<lparr>pe_nonce := Some ''n''\<rparr>,
      (plane_ev 4 L2_ENTERED)\<lparr>pe_nonce := Some ''n''\<rparr>, sample_shed_event,
      (plane_ev 6 INGRESS_RESPONDED)\<lparr>pe_nonce := Some ''n'', pe_status := Some 503\<rparr>]"

definition sample_allowed :: "allowed_shed list" where
  "sample_allowed = [\<lparr>as_class = ''mutation'', as_lane = ''unverified'', as_reason = ''lane_budget''\<rparr>]"

definition sample_lane_limits :: external_limits where
  "sample_lane_limits = \<lparr>el_maxActive = 2, el_maxOrphans = 2, el_recentRing = 2, el_maxTraces = 2,
     el_maxDecisions = 2, el_headTraces = 1, el_perKindTraces = 1, el_downstreamGraceMs = 5,
     el_orphanGraceMs = 10, el_maxEventsPerStream = 8\<rparr>"

definition sample_lane_ops :: "lane_op list" where
  "sample_lane_ops = map (\<lambda>e. LPlane e 0 0) sample_shed_plane"


theorem quiet_lane_balances_witness:
  "let c = xr_counters (lane_run (sample_lane_ops @ [LFinalize]) (new_reducer sample_lane_limits sample_allowed))
   in xc_reduced c = 1 \<and> c1_passed (xc_l1 c) = 1 \<and> c2_decided (xc_l2 c) = 1
      \<and> cs_expectedShed (xc_status503 c) = 1 \<and> cb_admitted (xc_boundary c) \<le> ce_attempted (xc_egress c)"
proof -
  let ?run = "lane_run (sample_lane_ops @ [LFinalize]) (new_reducer sample_lane_limits sample_allowed)"
  have ops: "LFinalize \<notin> set sample_lane_ops" by (auto simp: sample_lane_ops_def)
  have quiet: "xr_reports ?run = []" by code_simp
  have "xc_reduced (xr_counters ?run) = 1 \<and> c1_passed (xc_l1 (xr_counters ?run)) = 1
    \<and> c2_decided (xc_l2 (xr_counters ?run)) = 1 \<and> cs_expectedShed (xc_status503 (xr_counters ?run)) = 1"
    by code_simp
  with quiet_lane_balances [OF ops quiet, unfolded Let_def] show ?thesis unfolding Let_def by blast
qed


end
