(* ===== verification/Field_Collector.thy ===== *)
theory Field_Collector
  imports External_Lane
begin

text \<open>
  The collector of a field run (\<^verbatim>\<open>lab/defense/collector.ts\<close> after \<^verbatim>\<open>enableExternalLane\<close>): the frame loops
  offer every event of a nonce the collector does not know to the external reducer first, the reducer's
  reports come back through \<^verbatim>\<open>externalAnomaly\<close>, and \<^verbatim>\<open>finalize\<close> finalizes the reducer before it judges the
  records. The state is the collector and the reducer; every event of a frame carries the two clock
  readings the reducer may take. The theorem: a field run with \<^verbatim>\<open>anomalyTotal\<close> zero has a quiet lane.
\<close>

definition externalAnomaly :: "anomaly \<Rightarrow> collector \<Rightarrow> collector" where
  "externalAnomaly a s =
     s\<lparr>co_anomalyCount := Suc (co_anomalyCount s),
       co_anomalyList := (if length (co_anomalyList s) < cl_maxAnomalies (co_limits s)
         then co_anomalyList s @ [a] else co_anomalyList s)\<rparr>"

text \<open>The reports the reducer made during one call, passed on in order.\<close>

definition pass_reports :: "reducer \<Rightarrow> reducer \<Rightarrow> collector \<Rightarrow> collector" where
  "pass_reports before after s = fold externalAnomaly (drop (length (xr_reports before)) (xr_reports after)) s"

type_synonym field_state = "collector \<times> reducer"

text \<open>An event of a nonce without a record is the reducer's if it takes it; \<open>seq\<close> is the frame loop up to
  that point, \<open>own\<close> the loop of the collector alone.\<close>

definition offer ::
  "bool \<Rightarrow> (reducer \<Rightarrow> bool \<times> reducer) \<Rightarrow> (collector \<Rightarrow> collector) \<Rightarrow> (collector \<Rightarrow> collector) \<Rightarrow> field_state \<Rightarrow> field_state" where
  "offer unclaimed ingest seq own = (\<lambda>(s, x).
     if unclaimed \<and> fst (ingest x) then (pass_reports x (snd (ingest x)) (seq s), snd (ingest x))
     else (own s, x))"

definition plane_seq :: "plane_item \<Rightarrow> collector \<Rightarrow> collector" where
  "plane_seq item s = (let (finding, st) = seq_check event_channel_loss [] (item_seq item) (co_plane s)
     in report finding (item_nonce item) (s\<lparr>co_plane := st\<rparr>))"

definition boundary_seq :: "boundary_event \<Rightarrow> collector \<Rightarrow> collector" where
  "boundary_seq e s = (let (finding, st) = seq_check boundary_channel_loss ''boundary '' (be_seq e) (co_boundary s)
     in report finding (be_nonce e) (s\<lparr>co_boundary := st\<rparr>))"

definition app_seq :: "app_event \<Rightarrow> collector \<Rightarrow> collector" where
  "app_seq e s = (let (finding, st) = seq_check app_channel_loss ''app '' (ae_seq e) (co_app s)
     in report finding (ae_nonce e) (s\<lparr>co_app := st\<rparr>))"

definition unclaimed :: "string option \<Rightarrow> collector \<Rightarrow> bool" where
  "unclaimed nonce s \<longleftrightarrow> \<not> co_frozen s \<and> (case nonce of None \<Rightarrow> False | Some n \<Rightarrow> map_of (co_records s) n = None)"

definition field_plane_item :: "plane_item \<times> instant \<times> instant \<Rightarrow> field_state \<Rightarrow> field_state" where
  "field_plane_item = (\<lambda>(item, now, later) (s, x). case item of
     ParserRejected _ _ \<Rightarrow> (ingest_plane_item item s, x)
   | PlaneItem e \<Rightarrow> offer (unclaimed (pe_nonce e) s) (ingestPlane e now later) (plane_seq item)
       (ingest_plane_item item) (s, x))"

definition field_boundary_event :: "boundary_event \<times> instant \<Rightarrow> field_state \<Rightarrow> field_state" where
  "field_boundary_event = (\<lambda>(e, now) (s, x). offer (unclaimed (be_nonce e) s) (ingestBoundary e now)
     (boundary_seq e) (ingest_boundary_event e) (s, x))"

definition field_app_event :: "app_event \<times> instant \<Rightarrow> field_state \<Rightarrow> field_state" where
  "field_app_event = (\<lambda>(e, now) (s, x). offer (unclaimed (ae_nonce e) s) (ingestApp e now)
     (app_seq e) (ingest_app_event e) (s, x))"

definition set_dropped :: "int \<Rightarrow> stream_state \<Rightarrow> stream_state" where
  "set_dropped d st = st\<lparr>ss_droppedReported := max (ss_droppedReported st) d\<rparr>"

definition field_plane_frame :: "(plane_item \<times> instant \<times> instant) list \<Rightarrow> int \<Rightarrow> field_state \<Rightarrow> field_state" where
  "field_plane_frame es d = (\<lambda>(s, x). fold field_plane_item es (map_stream SPlane (set_dropped d) s, x))"

definition field_boundary_frame :: "(boundary_event \<times> instant) list \<Rightarrow> int \<Rightarrow> field_state \<Rightarrow> field_state" where
  "field_boundary_frame es d = (\<lambda>(s, x). fold field_boundary_event es (map_stream SBoundary (set_dropped d) s, x))"

definition field_app_frame :: "(app_event \<times> instant) list \<Rightarrow> int \<Rightarrow> field_state \<Rightarrow> field_state" where
  "field_app_frame es d = (\<lambda>(s, x). fold field_app_event es (map_stream SApp (set_dropped d) s, x))"

definition field_sweep :: "instant \<Rightarrow> field_state \<Rightarrow> field_state" where
  "field_sweep now = (\<lambda>(s, x). (pass_reports x (sweep now x) s, sweep now x))"

definition field_finalize :: "bool \<Rightarrow> field_state \<Rightarrow> (anomaly list \<times> nat) \<times> reducer" where
  "field_finalize journalOverflow = (\<lambda>(s, x).
     (finalize journalOverflow (pass_reports x (finalize_reducer x) s), finalize_reducer x))"

subsection \<open>Field runs\<close>

text \<open>The operations that carry no event frame are those of the collector alone.\<close>

datatype field_op =
    FPlane "(plane_item \<times> instant \<times> instant) list" int
  | FBoundary "(boundary_event \<times> instant) list" int
  | FApp "(app_event \<times> instant) list" int
  | FSweep instant
  | FSent string request_meta
  | FCompleted string client_result_kind "int option" "string option" instant
  | FExited stream_name string
  | FFinished stream_name fin_report
  | FFreeze
  | FEnable bool bool

primrec field_step :: "field_op \<Rightarrow> field_state \<Rightarrow> field_state" where
  "field_step (FPlane es d) p = field_plane_frame es d p"
| "field_step (FBoundary es d) p = field_boundary_frame es d p"
| "field_step (FApp es d) p = field_app_frame es d p"
| "field_step (FSweep now) p = field_sweep now p"
| "field_step (FSent n m) p = (fst (co_sent n m (fst p)), snd p)"
| "field_step (FCompleted n r st h ms) p = (co_clientCompleted n r st h ms (fst p), snd p)"
| "field_step (FExited n d) p = (co_exited n d (fst p), snd p)"
| "field_step (FFinished n f) p = (co_finished n f (fst p), snd p)"
| "field_step FFreeze p = ((fst p)\<lparr>co_frozen := True\<rparr>, snd p)"
| "field_step (FEnable o1 l2) p =
     ((fst p)\<lparr>co_originStreams := o1 \<or> co_originStreams (fst p), co_laneStreams := l2 \<or> co_laneStreams (fst p)\<rparr>, snd p)"

definition field_run :: "field_op list \<Rightarrow> field_state \<Rightarrow> field_state" where
  "field_run = fold field_step"

subsection \<open>No report of the reducer is lost\<close>

text \<open>Anomalies only accumulate, and the reducer's reports are among them.\<close>

lemma pass_reports_count:
  "co_anomalyCount (pass_reports x y s) = co_anomalyCount s + (length (xr_reports y) - length (xr_reports x))"
proof -
  have "co_anomalyCount (fold externalAnomaly as s) = co_anomalyCount s + length as" for as s
    by (induction as arbitrary: s) (simp_all add: externalAnomaly_def)
  then show ?thesis by (simp add: pass_reports_def)
qed

definition field_inv :: "field_state \<Rightarrow> bool" where
  "field_inv p \<longleftrightarrow> length (xr_reports (snd p)) \<le> co_anomalyCount (fst p)
     \<and> lane_inv (snd p) \<and> \<not> xr_finalized (snd p)"

lemma field_inv_own:
  assumes "field_inv (s, x)" "co_anomalyCount s \<le> co_anomalyCount t"
  shows "field_inv (t, x)"
  using assms by (simp add: field_inv_def)

lemma field_inv_pass:
  assumes "field_inv (s, x)" "co_anomalyCount s \<le> co_anomalyCount t" "lane_inv y" "\<not> xr_finalized y"
  shows "field_inv (pass_reports x y t, y)"
  using assms unfolding field_inv_def fst_conv snd_conv pass_reports_count by linarith

lemma field_inv_offer:
  assumes "field_inv (s, x)" "co_anomalyCount s \<le> co_anomalyCount (seq s)" "co_anomalyCount s \<le> co_anomalyCount (own s)"
    and "lane_inv (snd (ingest x))" "xr_finalized (snd (ingest x)) = xr_finalized x"
  shows "field_inv (offer b ingest seq own (s, x))"
  using assms field_inv_own [OF assms(1,3)] field_inv_pass [OF assms(1,2,4)]
  by (simp add: offer_def) (simp add: field_inv_def)

lemma count_report: "co_anomalyCount s \<le> co_anomalyCount (report f n s)"
  by (simp add: report_def split: option.split)

lemma count_seq:
  "co_anomalyCount s \<le> co_anomalyCount (plane_seq i s)"
  "co_anomalyCount s \<le> co_anomalyCount (boundary_seq b s)"
  "co_anomalyCount s \<le> co_anomalyCount (app_seq a s)"
  using count_report [of "s\<lparr>co_plane := st\<rparr>" for st] count_report [of "s\<lparr>co_boundary := st\<rparr>" for st]
    count_report [of "s\<lparr>co_app := st\<rparr>" for st]
  by (simp_all add: plane_seq_def boundary_seq_def app_seq_def case_prod_beta)

lemma count_own:
  "co_anomalyCount s \<le> co_anomalyCount (ingest_plane_item i s)"
  "co_anomalyCount s \<le> co_anomalyCount (ingest_boundary_event b s)"
  "co_anomalyCount s \<le> co_anomalyCount (ingest_app_event a s)"
proof -
  show "co_anomalyCount s \<le> co_anomalyCount (ingest_plane_item i s)"
  proof -
    obtain f st where c: "seq_check event_channel_loss [] (item_seq i) (co_plane s) = (f, st)"
      by (cases "seq_check event_channel_loss [] (item_seq i) (co_plane s)")
    have "quiet (report f (item_nonce i) (s\<lparr>co_plane := st\<rparr>)) (ingest_plane_item i s)"
      by (auto simp: ingest_plane_item_def c Let_def intro: quiet_bump split: option.splits plane_item.splits)
    then show ?thesis using count_report [of "s\<lparr>co_plane := st\<rparr>" f "item_nonce i"] by (simp add: quiet_def)
  qed
  show "co_anomalyCount s \<le> co_anomalyCount (ingest_boundary_event b s)"
    "co_anomalyCount s \<le> co_anomalyCount (ingest_app_event a s)"
    using quiet_boundary_event quiet_app_event by (simp_all add: quiet_def)
qed

lemma field_inv_fold:
  assumes "field_inv p" "\<And>e p. field_inv p \<Longrightarrow> field_inv (f e p)"
  shows "field_inv (fold f es p)"
  using assms(1) by (induction es arbitrary: p) (simp_all add: assms(2))

lemma downstream_config:
  "lane_inv x \<Longrightarrow> lane_inv (snd (ingestBoundary b now x))"
  "xr_finalized (snd (ingestBoundary b now x)) = xr_finalized x"
  "lane_inv x \<Longrightarrow> lane_inv (snd (ingestApp a now x))"
  "xr_finalized (snd (ingestApp a now x)) = xr_finalized x"
  by (simp_all add: ingestBoundary_def ingestApp_def lane_inv_ingest_downstream same_config_downstream)

lemma field_inv_lane: "field_inv p \<Longrightarrow> lane_inv (snd p)"
  by (simp add: field_inv_def)

lemma field_inv_events:
  "field_inv p \<Longrightarrow> field_inv (field_plane_item e p)"
  "field_inv p \<Longrightarrow> field_inv (field_boundary_event b p)"
  "field_inv p \<Longrightarrow> field_inv (field_app_event a p)"
proof -
  show "field_inv p \<Longrightarrow> field_inv (field_plane_item e p)"
  proof -
    assume inv: "field_inv p"
    obtain s x where p: "p = (s, x)" by (cases p)
    obtain i now later where e: "e = (i, now, later)" by (cases e) auto
    note inv' = inv [unfolded p]
    show ?thesis
    proof (cases i)
      case (ParserRejected n c)
      then show ?thesis using field_inv_own [OF inv' count_own(1)] by (simp add: field_plane_item_def e p)
    next
      case (PlaneItem ev)
      have "field_inv (offer (unclaimed (pe_nonce ev) s) (ingestPlane ev now later) (plane_seq i)
          (ingest_plane_item i) (s, x))"
        using field_inv_lane [OF inv'] inv'
        by (intro field_inv_offer count_seq count_own) (simp_all add: lane_inv_ingestPlane same_config_ingestPlane)
      then show ?thesis using PlaneItem by (simp add: field_plane_item_def e p)
    qed
  qed
  show "field_inv p \<Longrightarrow> field_inv (field_boundary_event b p)"
  proof -
    assume inv: "field_inv p"
    obtain s x ev now where p: "p = (s, x)" "b = (ev, now)" by (cases p; cases b) auto
    show ?thesis
      using inv field_inv_lane [OF inv] unfolding p field_boundary_event_def prod.case
      by (intro field_inv_offer count_seq count_own) (simp_all add: downstream_config)
  qed
  show "field_inv p \<Longrightarrow> field_inv (field_app_event a p)"
  proof -
    assume inv: "field_inv p"
    obtain s x ev now where p: "p = (s, x)" "a = (ev, now)" by (cases p; cases a) auto
    show ?thesis
      using inv field_inv_lane [OF inv] unfolding p field_app_event_def prod.case
      by (intro field_inv_offer count_seq count_own) (simp_all add: downstream_config)
  qed
qed

lemma field_inv_dropped: "field_inv (s, x) \<Longrightarrow> field_inv (map_stream n (set_dropped d) s, x)"
  by (cases n) (simp_all add: field_inv_def map_stream_def)

lemma count_op:
  "\<nexists>es d. op = OpPlane es d \<Longrightarrow> co_anomalyCount s \<le> co_anomalyCount (apply_op op s)"
  using quiet_op by (simp add: quiet_def)

lemma field_inv_step:
  assumes "field_inv p"
  shows "field_inv (field_step op p)"
proof -
  obtain s x where p: "p = (s, x)" by (cases p)
  note inv = assms [unfolded p]
  note own = field_inv_own [OF inv]
  show ?thesis
  proof (cases op)
    case (FPlane es d)
    then show ?thesis
      using field_inv_fold [OF field_inv_dropped [OF inv] field_inv_events(1)]
      by (simp add: p field_plane_frame_def)
  next
    case (FBoundary es d)
    then show ?thesis
      using field_inv_fold [OF field_inv_dropped [OF inv] field_inv_events(2)]
      by (simp add: p field_boundary_frame_def)
  next
    case (FApp es d)
    then show ?thesis
      using field_inv_fold [OF field_inv_dropped [OF inv] field_inv_events(3)]
      by (simp add: p field_app_frame_def)
  next
    case (FSweep now)
    have "field_inv (pass_reports x (sweep now x) s, sweep now x)"
      by (rule field_inv_pass [OF inv]) (use inv in \<open>simp_all add: field_inv_def lane_inv_sweep same_config_sweep\<close>)
    then show ?thesis by (simp add: FSweep p field_sweep_def)
  next
    case (FSent n m)
    then show ?thesis using own count_op [of "OpSent n m" s] by (simp add: p)
  next
    case (FCompleted n r st h ms)
    then show ?thesis using own count_op [of "OpCompleted n r st h ms" s] by (simp add: p)
  next
    case (FExited n d)
    then show ?thesis using own count_op [of "OpExited n d" s] by (simp add: p)
  next
    case (FFinished n f)
    then show ?thesis using own count_op [of "OpFinished n f" s] by (simp add: p)
  qed (use own in \<open>simp_all add: p\<close>)
qed

lemma field_inv_run: "field_inv (field_run ops (new_collector cl, new_reducer l al))"
proof -
  have "field_inv (new_collector cl, new_reducer l al)"
    by (simp add: field_inv_def lane_inv_new) (simp add: new_reducer_def)
  moreover have "field_inv p \<Longrightarrow> field_inv (fold field_step ops p)" for p
    by (induction ops arbitrary: p) (simp_all add: field_inv_step)
  ultimately show ?thesis by (simp add: field_run_def)
qed

lemma clean_field_lane:
  assumes "field_finalize jo (field_run ops (new_collector cl, new_reducer l al)) = ((found, 0), x)"
  shows "xr_reports x = [] \<and> xr_active x = [] \<and> xr_orphans x = []
    \<and> xc_accepted (xr_counters x) = xc_reduced (xr_counters x) \<and> balanced (xr_counters x)
    \<and> table_sum (xc_terminal (xr_counters x)) = xc_reduced (xr_counters x)"
proof -
  obtain s y where run: "field_run ops (new_collector cl, new_reducer l al) = (s, y)"
    by (cases "field_run ops (new_collector cl, new_reducer l al)") auto
  note inv = field_inv_run [of ops cl l al, unfolded run]
  have x: "x = finalize_reducer y" and
    zero: "snd (finalize jo (pass_reports y (finalize_reducer y) s)) = 0"
    using assms by (auto simp: field_finalize_def run)
  have "length (xr_reports y) \<le> co_anomalyCount s" using inv by (simp add: field_inv_def)
  with finalize_zero(1) [OF zero] have quiet: "xr_reports x = []"
    by (simp add: pass_reports_count x)
  have lane: "lane_inv x" unfolding x using inv by (simp add: field_inv_def lane_inv_finalize)
  have empty: "xr_active x = []" "xr_orphans x = []"
    unfolding x using inv by (simp_all add: field_inv_def finalize_empties)
  have "balanced (xr_counters x)" using lane_invD(3) [OF lane] quiet by (simp add: quiet_balanced_def)
  moreover have "xc_accepted (xr_counters x) = xc_reduced (xr_counters x)"
    using lane_invD(2) [OF lane] empty by (simp add: counters_ok_def)
  moreover have "table_sum (xc_terminal (xr_counters x)) = xc_reduced (xr_counters x)"
    using lane_invD(2) [OF lane] by (simp add: counters_ok_def)
  ultimately show ?thesis using quiet empty by blast
qed

subsection \<open>Property\<close>

text \<open>C3. The verdict of a field run covers its external lane. If the collector finalizes a run with
  \<^verbatim>\<open>anomalyTotal\<close> zero, the reducer reported nothing, no external request is left open, every accepted one was
  reduced and judged without an anomaly, and the external counters balance.\<close>

theorem zero_anomalies_external_lane_clean:
  assumes "field_finalize jo (field_run ops (new_collector cl, new_reducer l al)) = ((found, 0), x)"
  shows "xr_reports x = [] \<and> xr_active x = [] \<and> xr_orphans x = []
    \<and> xc_accepted (xr_counters x) = xc_reduced (xr_counters x) \<and> balanced (xr_counters x)"
  using clean_field_lane [OF assms] by blast

definition sample_field_ops :: "field_op list" where
  "sample_field_ops = [FEnable True True, FPlane (map (\<lambda>e. (PlaneItem e, 0, 0)) sample_shed_plane) 0,
     FFinished SPlane (sample_fin 6), FFinished SBoundary (sample_fin 0), FFinished SApp (sample_fin 0), FFreeze]"

definition sample_field_result :: "(anomaly list \<times> nat) \<times> reducer" where
  "sample_field_result = field_finalize False (field_run sample_field_ops
     (new_collector sample_limits, new_reducer sample_lane_limits sample_allowed))"

lemma sample_field_zero: "sample_field_result = ((fst (fst sample_field_result), 0), snd sample_field_result)"
proof -
  have "snd (fst sample_field_result) = 0" by code_simp
  then show ?thesis by (metis prod.collapse)
qed

lemma sample_field_reduced: "xc_reduced (xr_counters (snd sample_field_result)) = 1"
  by code_simp

theorem zero_anomalies_external_lane_clean_witness:
  "xc_reduced (xr_counters (snd sample_field_result)) = 1 \<and> xr_active (snd sample_field_result) = []
   \<and> xc_accepted (xr_counters (snd sample_field_result)) = 1"
  using zero_anomalies_external_lane_clean [OF sample_field_zero [unfolded sample_field_result_def]]
    sample_field_reduced
  by (simp add: sample_field_result_def)

end
