(* ===== verification/Token_Bucket.thy ===== *)
theory Token_Bucket
  imports Prelude
begin

text \<open>
  \<^verbatim>\<open>TokenBucket\<close> of \<^verbatim>\<open>defense/core/lanes.ts\<close>: integer micro-tokens, refilled by the passage of whole
  milliseconds, never refunded. The injected clock is an argument of every operation that reads it; it
  need not be monotonic. The theorems bound what a bucket admits over any stretch of operations, which
  is what the lanes promise the origin.
\<close>

definition UNIT :: int where "UNIT = 1000000"

record token_bucket =
  tb_capacity :: int
  tb_capacityUnits :: int
  tb_refillPerMs :: int
  tb_level :: int
  tb_lastMs :: int
  tb_takes :: int
  tb_admitted :: int
  tb_shed :: int

record bucket_snapshot =
  bs_capacity :: int
  bs_levelUnits :: int
  bs_takes :: int
  bs_admitted :: int
  bs_shed :: int

record taken =
  tk_ok :: bool
  tk_dt :: int
  tk_lvl :: int
  tk_lseq :: int

text \<open>The constructor. The rate is a real number of tokens per second; \<^verbatim>\<open>Number.isFinite\<close> holds of every
  real, and \<^verbatim>\<open>Number.isInteger(refillPerSecond * 1000)\<close> is the third test.\<close>

definition new_bucket :: "int \<Rightarrow> real \<Rightarrow> instant \<Rightarrow> string + token_bucket" where
  "new_bucket capacity refillPerSecond now =
     (if \<not> is_positive_safe_integer capacity then Inl ''bucket capacity must be a positive integer''
      else if refillPerSecond \<le> 0 \<or> real_of_int \<lfloor>refillPerSecond * 1000\<rfloor> \<noteq> refillPerSecond * 1000 then
        Inl ''refill must be positive with at most three decimals per second''
      else Inr \<lparr>tb_capacity = capacity, tb_capacityUnits = capacity * UNIT,
        tb_refillPerMs = \<lfloor>refillPerSecond * 1000\<rfloor>, tb_level = capacity * UNIT, tb_lastMs = \<lfloor>now\<rfloor>,
        tb_takes = 0, tb_admitted = 0, tb_shed = 0\<rparr>)"

definition refill :: "instant \<Rightarrow> token_bucket \<Rightarrow> token_bucket" where
  "refill clock b =
     (let now = \<lfloor>clock\<rfloor> in
      if now > tb_lastMs b then
        b\<lparr>tb_level := min (tb_capacityUnits b) (tb_level b + (now - tb_lastMs b) * tb_refillPerMs b),
          tb_lastMs := now\<rparr>
      else b)"

definition take_token :: "instant \<Rightarrow> token_bucket \<Rightarrow> token_bucket \<times> taken" where
  "take_token clock b0 =
     (let b = refill clock b0; dt = tb_lastMs b;
          ok = (tb_level b \<ge> UNIT);
          b' = (if ok then b\<lparr>tb_takes := tb_takes b + 1, tb_level := tb_level b - UNIT, tb_admitted := tb_admitted b + 1\<rparr>
                else b\<lparr>tb_takes := tb_takes b + 1, tb_shed := tb_shed b + 1\<rparr>) in
      (b', \<lparr>tk_ok = ok, tk_dt = dt, tk_lvl = tb_level b', tk_lseq = tb_takes b'\<rparr>))"

definition levelUnits :: "instant \<Rightarrow> token_bucket \<Rightarrow> token_bucket \<times> int" where
  "levelUnits clock b = (let b' = refill clock b in (b', tb_level b'))"

definition bucket_snapshot_of :: "instant \<Rightarrow> token_bucket \<Rightarrow> token_bucket \<times> bucket_snapshot" where
  "bucket_snapshot_of clock b = (case levelUnits clock b of (b', lvl) \<Rightarrow>
     (b', \<lparr>bs_capacity = tb_capacity b', bs_levelUnits = lvl, bs_takes = tb_takes b',
       bs_admitted = tb_admitted b', bs_shed = tb_shed b'\<rparr>))"

subsection \<open>Invariant and accounting\<close>

definition bucket_inv :: "token_bucket \<Rightarrow> bool" where
  "bucket_inv b \<longleftrightarrow> 0 < tb_capacity b \<and> tb_capacityUnits b = tb_capacity b * UNIT \<and> 0 < tb_refillPerMs b
     \<and> 0 \<le> tb_level b \<and> tb_level b \<le> tb_capacityUnits b
     \<and> tb_takes b = tb_admitted b + tb_shed b \<and> 0 \<le> tb_admitted b \<and> 0 \<le> tb_shed b"

lemma UNIT_pos [simp]: "0 < UNIT" "UNIT \<noteq> 0"
  by (simp_all add: UNIT_def)

lemma new_bucket_inv:
  assumes "new_bucket c r now = Inr b"
  shows "bucket_inv b" "tb_level b = tb_capacityUnits b" "tb_admitted b = 0" "tb_lastMs b = \<lfloor>now\<rfloor>"
proof -
  have b: "0 < c" "0 < r" "real_of_int \<lfloor>r * 1000\<rfloor> = r * 1000"
    "b = \<lparr>tb_capacity = c, tb_capacityUnits = c * UNIT, tb_refillPerMs = \<lfloor>r * 1000\<rfloor>, tb_level = c * UNIT,
       tb_lastMs = \<lfloor>now\<rfloor>, tb_takes = 0, tb_admitted = 0, tb_shed = 0\<rparr>"
    using assms by (auto simp: new_bucket_def is_positive_safe_integer_def split: if_splits)
  have "0 < real_of_int \<lfloor>r * 1000\<rfloor>" using b(2) unfolding b(3) by simp
  then have "0 < \<lfloor>r * 1000\<rfloor>" by (simp only: of_int_0_less_iff)
  then obtain q where "\<lfloor>r * 1000\<rfloor> = q" "0 < q" by blast
  with b(1,4) show "bucket_inv b" "tb_level b = tb_capacityUnits b" "tb_admitted b = 0" "tb_lastMs b = \<lfloor>now\<rfloor>"
    by (auto simp: bucket_inv_def UNIT_def)
qed

text \<open>One step of a bucket never creates tokens: what it holds plus what it gave out grows by at most the
  refill of the time that passed. Time, as the bucket counts it, never runs backwards.\<close>

definition conserves :: "token_bucket \<Rightarrow> token_bucket \<Rightarrow> bool" where
  "conserves b b' \<longleftrightarrow> tb_capacityUnits b' = tb_capacityUnits b \<and> tb_refillPerMs b' = tb_refillPerMs b
     \<and> tb_capacity b' = tb_capacity b
     \<and> tb_lastMs b \<le> tb_lastMs b' \<and> tb_admitted b \<le> tb_admitted b'
     \<and> tb_level b' + (tb_admitted b' - tb_admitted b) * UNIT
         \<le> tb_level b + (tb_lastMs b' - tb_lastMs b) * tb_refillPerMs b"

lemma conserves_refl [simp]: "conserves b b"
  by (simp add: conserves_def)

lemma conserves_trans: "conserves a b \<Longrightarrow> conserves b c \<Longrightarrow> conserves a c"
  by (auto simp: conserves_def algebra_simps)

lemma refill_inv: "bucket_inv b \<Longrightarrow> bucket_inv (refill t b)"
  by (auto simp: refill_def Let_def bucket_inv_def)

lemma refill_conserves: "conserves b (refill t b)"
  by (auto simp: refill_def Let_def conserves_def)

lemma take_token_inv: "bucket_inv b \<Longrightarrow> bucket_inv (fst (take_token t b))"
  using refill_inv [of b t] by (auto simp: take_token_def Let_def bucket_inv_def UNIT_def)

lemma take_token_conserves: "conserves b (fst (take_token t b))"
  using refill_conserves [of b t] by (auto simp: take_token_def Let_def conserves_def algebra_simps)

lemma take_token_result:
  "tk_ok (snd (take_token t b)) \<longleftrightarrow> UNIT \<le> tb_level (refill t b)"
  "tb_admitted (fst (take_token t b)) = tb_admitted b + (if tk_ok (snd (take_token t b)) then 1 else 0)"
  "tk_lseq (snd (take_token t b)) = tb_takes b + 1"
  "tk_lvl (snd (take_token t b)) = tb_level (fst (take_token t b))"
  "tk_dt (snd (take_token t b)) = tb_lastMs (fst (take_token t b))"
  by (auto simp: take_token_def Let_def refill_def)

lemma take_token_fields [simp]:
  "tb_capacityUnits (fst (take_token t b)) = tb_capacityUnits b"
  "tb_refillPerMs (fst (take_token t b)) = tb_refillPerMs b"
  using take_token_conserves [of b t] by (auto simp: conserves_def)

text \<open>A sequence of decisions at the given clock readings.\<close>

fun take_tokens :: "instant list \<Rightarrow> token_bucket \<Rightarrow> token_bucket \<times> nat" where
  "take_tokens [] b = (b, 0)"
| "take_tokens (t # ts) b =
     (case take_token t b of (b1, r) \<Rightarrow> case take_tokens ts b1 of (b2, n) \<Rightarrow>
        (b2, if tk_ok r then Suc n else n))"

lemma take_tokens_conserves:
  "bucket_inv b \<Longrightarrow> take_tokens ts b = (b', n) \<Longrightarrow>
     bucket_inv b' \<and> conserves b b' \<and> tb_admitted b' = tb_admitted b + int n"
proof (induction ts arbitrary: b b' n)
  case (Cons t ts)
  obtain b1 r where t: "take_token t b = (b1, r)" by (cases "take_token t b")
  obtain b2 k where ts: "take_tokens ts b1 = (b2, k)" by (cases "take_tokens ts b1")
  have b1: "bucket_inv b1" "conserves b b1" "tb_admitted b1 = tb_admitted b + (if tk_ok r then 1 else 0)"
    using Cons.prems(1) take_token_inv [of b t] take_token_conserves [of b t] take_token_result(2) [of t b] t
    by auto
  from Cons.IH [OF b1(1) ts] b1 Cons.prems(2) t ts show ?case
    by (auto intro: conserves_trans)
qed simp

subsection \<open>Properties\<close>

text \<open>Rate bound. Over any stretch of decisions, at whatever clock readings, a bucket admits at most
  its level plus the refill of the milliseconds that passed on its clock, in micro-tokens; so never more
  than its capacity plus that refill.\<close>

theorem bucket_rate_bound:
  assumes "bucket_inv b" "take_tokens ts b = (b', n)"
  shows "int n * UNIT \<le> tb_level b + (tb_lastMs b' - tb_lastMs b) * tb_refillPerMs b
    \<and> int n * UNIT \<le> tb_capacity b * UNIT + (tb_lastMs b' - tb_lastMs b) * tb_refillPerMs b
    \<and> 0 \<le> tb_level b' \<and> tb_level b' \<le> tb_capacity b * UNIT"
proof -
  have "bucket_inv b'" "conserves b b'" "tb_admitted b' = tb_admitted b + int n"
    using take_tokens_conserves [OF assms] by auto
  with assms(1) show ?thesis by (auto simp: bucket_inv_def conserves_def)
qed

text \<open>No starvation. Once the clock has moved past the bucket's last reading by enough milliseconds to
  refill it, the bucket is full again and its next \<open>capacity\<close> decisions are all admitted.\<close>

theorem idle_bucket_recovers:
  assumes "bucket_inv b" "tb_capacityUnits b \<le> (\<lfloor>t\<rfloor> - tb_lastMs b) * tb_refillPerMs b"
    and "int n \<le> tb_capacity b"
  shows "snd (take_tokens (replicate n t) b) = n"
proof -
  have "0 < tb_capacityUnits b" using assms(1) by (auto simp: bucket_inv_def)
  then have pos: "0 < (\<lfloor>t\<rfloor> - tb_lastMs b) * tb_refillPerMs b" using assms(2) by linarith
  have later: "tb_lastMs b < \<lfloor>t\<rfloor>"
    using pos assms(1) by (auto simp: bucket_inv_def zero_less_mult_iff)
  have full: "refill t b = b\<lparr>tb_level := tb_capacityUnits b, tb_lastMs := \<lfloor>t\<rfloor>\<rparr>"
    using later assms(1,2) by (simp add: refill_def Let_def bucket_inv_def)
  have many: "snd (take_tokens (replicate k t) c) = k"
    if "tb_lastMs c = \<lfloor>t\<rfloor>" "int k * UNIT \<le> tb_level c" for k c
    using that
  proof (induction k arbitrary: c)
    case (Suc k)
    have idle: "refill t c = c" using Suc.prems(1) by (simp add: refill_def)
    have "UNIT \<le> tb_level c" using Suc.prems(2) by (simp add: UNIT_def)
    then have take: "take_token t c = (c\<lparr>tb_takes := tb_takes c + 1, tb_level := tb_level c - UNIT,
        tb_admitted := tb_admitted c + 1\<rparr>, \<lparr>tk_ok = True, tk_dt = tb_lastMs c,
        tk_lvl = tb_level c - UNIT, tk_lseq = tb_takes c + 1\<rparr>)"
      by (simp add: take_token_def idle Let_def)
    let ?c = "c\<lparr>tb_takes := tb_takes c + 1, tb_level := tb_level c - UNIT, tb_admitted := tb_admitted c + 1\<rparr>"
    have "int k * UNIT \<le> tb_level ?c" using Suc.prems(2) by (simp add: UNIT_def)
    with Suc have "snd (take_tokens (replicate k t) ?c) = k" by simp
    then show ?case by (simp add: take case_prod_beta)
  qed simp
  show ?thesis
  proof (cases n)
    case (Suc m)
    have "int n * UNIT \<le> tb_capacity b * UNIT"
      using assms(3) by (intro mult_right_mono) (auto simp: UNIT_def)
    then have lvl: "int n * UNIT \<le> tb_capacityUnits b" using assms(1) by (simp add: bucket_inv_def)
    have "take_tokens (replicate n t) b = take_tokens (replicate n t) (refill t b)"
      using full later by (simp add: Suc take_token_def Let_def refill_def)
    then show ?thesis using many [of "refill t b" n] full lvl by simp
  qed simp
qed

subsection \<open>Witnesses\<close>

definition sample_bucket :: token_bucket where
  "sample_bucket = \<lparr>tb_capacity = 2, tb_capacityUnits = 2 * UNIT, tb_refillPerMs = 500,
     tb_level = 2 * UNIT, tb_lastMs = 0, tb_takes = 0, tb_admitted = 0, tb_shed = 0\<rparr>"

lemma sample_bucket_inv: "bucket_inv sample_bucket"
  by (simp add: bucket_inv_def sample_bucket_def UNIT_def)

theorem bucket_rate_bound_witness:
  "snd (take_tokens [1, 1, 1, 2001] sample_bucket) = 3 \<and> (3::int) * UNIT \<le> 2 * UNIT + 2001 * 500"
proof -
  let ?b = "fst (take_tokens [1, 1, 1, 2001] sample_bucket)"
  have n: "snd (take_tokens [1, 1, 1, 2001] sample_bucket) = 3" and last: "tb_lastMs ?b = 2001"
    by (simp_all add: take_token_def refill_def Let_def sample_bucket_def UNIT_def)
  have "take_tokens [1, 1, 1, 2001] sample_bucket = (?b, 3)" using n by (simp add: prod_eq_iff)
  from bucket_rate_bound [OF sample_bucket_inv this] n last show ?thesis by (simp add: sample_bucket_def)
qed

theorem idle_bucket_recovers_witness: "snd (take_tokens (replicate 2 5000) sample_bucket) = 2"
  using idle_bucket_recovers [OF sample_bucket_inv, of 5000 2]
  by (simp add: sample_bucket_def UNIT_def)

end
