(* ===== verification/Bucket_Replay.thy ===== *)
theory Bucket_Replay
  imports External_Reducer Token_Bucket "HOL-Library.Multiset"
begin

text \<open>
  The bucket replay of \<^verbatim>\<open>lab/defense/lane-accounting.ts\<close>: \<^verbatim>\<open>auditBucket\<close> replays one lane's bucket from the
  clock, level and number its decision events carry. Levels are real numbers, as the refill of the
  configuration need not be integral; the detail of a mismatch is a value instead of a text. The
  theorems: a bucket of \<^verbatim>\<open>defense/core/lanes.ts\<close> always replays without a mismatch or a gap, and a replay
  without a mismatch bounds what was admitted, from the ledger alone.
\<close>

definition consumed_token :: "plane_event \<Rightarrow> bool" where
  "consumed_token e \<longleftrightarrow> pe_spent e \<noteq> None
     \<or> (pe_touched e = None \<and> fst (realDecision e) = ''admitted'')"

definition bucketLaneOf :: "plane_event \<Rightarrow> string" where
  "bucketLaneOf e = (case pe_spent e of Some l \<Rightarrow> lane2_name (Some l)
     | None \<Rightarrow> (case pe_touched e of Some l \<Rightarrow> lane2_name (Some l) | None \<Rightarrow> snd (realDecision e)))"

datatype mismatch =
    ClockWentBack "int option"
  | ConsumedWith real "int option"
  | ShedWith real "int option"
  | LevelExpected "int option" real "int option"

record bucket_audit =
  ba_decisions :: nat
  ba_admitted :: nat
  ba_shed :: nat
  ba_gaps :: nat
  ba_mismatches :: nat
  ba_firstMismatch :: "mismatch option"

record replay =
  rp_audit :: bucket_audit
  rp_level :: real
  rp_dt :: int
  rp_expectedSeq :: int

definition flag_mismatch :: "bool \<Rightarrow> mismatch \<Rightarrow> bucket_audit \<Rightarrow> bucket_audit" where
  "flag_mismatch b m a = (if b then a\<lparr>ba_mismatches := Suc (ba_mismatches a),
     ba_firstMismatch := (case ba_firstMismatch a of None \<Rightarrow> Some m | Some f \<Rightarrow> Some f)\<rparr> else a)"

definition or_zero :: "int option \<Rightarrow> int" where
  "or_zero x = (case x of None \<Rightarrow> 0 | Some n \<Rightarrow> n)"

text \<open>The body of the loop: the gap check, the clock check, the replayed decision.\<close>

definition replay_seq :: "plane_event \<Rightarrow> replay \<Rightarrow> replay" where
  "replay_seq e p =
     (if pe_lseq e = Some (rp_expectedSeq p) then p\<lparr>rp_expectedSeq := rp_expectedSeq p + 1\<rparr>
      else p\<lparr>rp_audit := (rp_audit p)\<lparr>ba_gaps := Suc (ba_gaps (rp_audit p))\<rparr>,
        rp_expectedSeq := (case pe_lseq e of None \<Rightarrow> rp_expectedSeq p | Some n \<Rightarrow> n) + 1\<rparr>)"

definition level_before :: "real \<Rightarrow> real \<Rightarrow> plane_event \<Rightarrow> replay \<Rightarrow> real" where
  "level_before capacityUnits perMs e p =
     min capacityUnits (rp_level p + real_of_int (or_zero (pe_dt e) - rp_dt p) * perMs)"

definition level_after :: "real \<Rightarrow> real \<Rightarrow> plane_event \<Rightarrow> replay \<Rightarrow> real" where
  "level_after capacityUnits perMs e p =
     (if consumed_token e then level_before capacityUnits perMs e p - real_of_int UNIT
      else level_before capacityUnits perMs e p)"

definition replay_decision :: "real \<Rightarrow> real \<Rightarrow> plane_event \<Rightarrow> replay \<Rightarrow> replay" where
  "replay_decision capacityUnits perMs e p =
     (let level = level_before capacityUnits perMs e p; a = rp_audit p;
          a1 = (if consumed_token e
                then flag_mismatch (level < real_of_int UNIT) (ConsumedWith level (pe_lseq e))
                       (a\<lparr>ba_admitted := Suc (ba_admitted a)\<rparr>)
                else flag_mismatch (level \<ge> real_of_int UNIT) (ShedWith level (pe_lseq e))
                       (a\<lparr>ba_shed := Suc (ba_shed a)\<rparr>));
          expectedAfter = level_after capacityUnits perMs e p in
      p\<lparr>rp_audit := flag_mismatch (map_option real_of_int (pe_lvl e) \<noteq> Some expectedAfter)
          (LevelExpected (pe_lvl e) expectedAfter (pe_lseq e)) a1,
        rp_level := (case pe_lvl e of None \<Rightarrow> expectedAfter | Some n \<Rightarrow> real_of_int n),
        rp_dt := or_zero (pe_dt e)\<rparr>)"

definition replay_event :: "real \<Rightarrow> real \<Rightarrow> plane_event \<Rightarrow> replay \<Rightarrow> replay" where
  "replay_event capacityUnits perMs e p =
     (let q = replay_seq e p in
      if or_zero (pe_dt e) < rp_dt q
      then q\<lparr>rp_audit := flag_mismatch True (ClockWentBack (pe_lseq e)) (rp_audit q)\<rparr>
      else replay_decision capacityUnits perMs e q)"

definition lane_events :: "(plane_event \<times> string) list \<Rightarrow> string \<Rightarrow> plane_event list" where
  "lane_events decisions lane =
     sort_key (\<lambda>e. or_zero (pe_lseq e)) (map fst (filter (\<lambda>d. snd d = lane) decisions))"

definition auditBucket ::
  "(plane_event \<times> string) list \<Rightarrow> string \<Rightarrow> int \<Rightarrow> real \<Rightarrow> bucket_audit" where
  "auditBucket decisions lane capacity refillPerSecond =
     (let mine = lane_events decisions lane;
          start = \<lparr>rp_audit = \<lparr>ba_decisions = length mine, ba_admitted = 0, ba_shed = 0, ba_gaps = 0,
              ba_mismatches = 0, ba_firstMismatch = None\<rparr>,
            rp_level = real_of_int (capacity * UNIT),
            rp_dt = (case mine of [] \<Rightarrow> 0 | e # _ \<Rightarrow> or_zero (pe_dt e)), rp_expectedSeq = 1\<rparr> in
      rp_audit (fold (replay_event (real_of_int (capacity * UNIT)) (refillPerSecond * 1000)) mine start))"

subsection \<open>A replay without a mismatch bounds what was admitted\<close>

lemma flag_mismatch_sel [simp]:
  "ba_mismatches (flag_mismatch b m a) = ba_mismatches a + (if b then 1 else 0)"
  "ba_admitted (flag_mismatch b m a) = ba_admitted a" "ba_gaps (flag_mismatch b m a) = ba_gaps a"
  "ba_decisions (flag_mismatch b m a) = ba_decisions a" "ba_shed (flag_mismatch b m a) = ba_shed a"
  by (simp_all add: flag_mismatch_def)

lemma replay_seq_sel [simp]:
  "rp_level (replay_seq e p) = rp_level p" "rp_dt (replay_seq e p) = rp_dt p"
  "ba_mismatches (rp_audit (replay_seq e p)) = ba_mismatches (rp_audit p)"
  "ba_admitted (rp_audit (replay_seq e p)) = ba_admitted (rp_audit p)"
  by (simp_all add: replay_seq_def)

text \<open>What a mismatch-free replay has admitted, with what is left in the bucket.\<close>

definition replay_ok :: "real \<Rightarrow> real \<Rightarrow> int \<Rightarrow> replay \<Rightarrow> bool" where
  "replay_ok capacityUnits perMs t0 p \<longleftrightarrow> 0 \<le> rp_level p \<and> t0 \<le> rp_dt p
     \<and> rp_level p + real (ba_admitted (rp_audit p)) * real_of_int UNIT
         \<le> capacityUnits + real_of_int (rp_dt p - t0) * perMs"

lemma replay_event_mismatches: "ba_mismatches (rp_audit p) \<le> ba_mismatches (rp_audit (replay_event c r e p))"
  by (simp add: replay_event_def replay_decision_def Let_def)

lemma replay_event_ok:
  assumes "replay_ok c r t0 p" "0 \<le> c" "0 \<le> r"
    and "ba_mismatches (rp_audit (replay_event c r e p)) = 0"
  shows "replay_ok c r t0 (replay_event c r e p)" "rp_dt (replay_event c r e p) = or_zero (pe_dt e)"
proof -
  let ?q = "replay_seq e p" and ?dt = "or_zero (pe_dt e)"
  have forward: "\<not> ?dt < rp_dt p" and ev: "replay_event c r e p = replay_decision c r e ?q"
    using assms(4) by (auto simp: replay_event_def Let_def split: if_splits)
  then show dt: "rp_dt (replay_event c r e p) = ?dt" by (simp add: replay_decision_def Let_def)
  let ?level = "level_before c r e ?q" and ?after = "level_after c r e ?q"
  have mm: "consumed_token e \<Longrightarrow> real_of_int UNIT \<le> ?level" "map_option real_of_int (pe_lvl e) = Some ?after"
    using assms(4) unfolding ev by (auto simp: replay_decision_def Let_def split: if_splits)
  have lvl: "rp_level (replay_event c r e p) = ?after"
    using mm(2) unfolding ev by (auto simp: replay_decision_def Let_def)
  have adm: "ba_admitted (rp_audit (replay_event c r e p))
      = ba_admitted (rp_audit p) + (if consumed_token e then 1 else 0)"
    unfolding ev by (simp add: replay_decision_def Let_def)
  have pos: "0 \<le> real_of_int (?dt - rp_dt p) * r" using forward assms(3) by simp
  have "0 \<le> ?level" using assms(1,2) pos by (simp add: level_before_def replay_ok_def)
  then have "0 \<le> ?after" using mm(1) by (simp add: level_after_def)
  moreover have "?level + real (ba_admitted (rp_audit p)) * real_of_int UNIT \<le> c + real_of_int (?dt - t0) * r"
  proof -
    have "?level \<le> rp_level p + real_of_int (?dt - rp_dt p) * r" by (simp add: level_before_def)
    then show ?thesis using assms(1) by (simp add: replay_ok_def algebra_simps)
  qed
  then have "?after + real (ba_admitted (rp_audit (replay_event c r e p))) * real_of_int UNIT
      \<le> c + real_of_int (?dt - t0) * r"
    unfolding adm level_after_def by (simp add: algebra_simps)
  ultimately show "replay_ok c r t0 (replay_event c r e p)"
    using assms(1) forward by (simp add: replay_ok_def lvl dt)
qed

lemma replay_fold_ok:
  assumes "replay_ok c r t0 p" "0 \<le> c" "0 \<le> r" "ba_mismatches (rp_audit (fold (replay_event c r) es p)) = 0"
  shows "replay_ok c r t0 (fold (replay_event c r) es p)
    \<and> rp_dt (fold (replay_event c r) es p) = (if es = [] then rp_dt p else or_zero (pe_dt (last es)))"
  using assms(1,4)
proof (induction es arbitrary: p)
  case Nil
  then show ?case by simp
next
  case (Cons e es)
  let ?q = "replay_event c r e p"
  have "ba_mismatches (rp_audit q) \<le> ba_mismatches (rp_audit (fold (replay_event c r) fs q))" for fs q
    by (induction fs arbitrary: q) (auto intro: order_trans [OF replay_event_mismatches])
  then have "ba_mismatches (rp_audit ?q) = 0" using Cons.prems(2) by (metis fold_simps(2) le_zero_eq)
  from replay_event_ok [OF Cons.prems(1) assms(2,3) this] Cons.IH Cons.prems(2)
  show ?case by simp
qed

lemma replay_admission_bound:
  assumes "ba_mismatches (auditBucket decisions lane capacity refillPerSecond) = 0"
    and "0 \<le> capacity" "0 \<le> refillPerSecond" "lane_events decisions lane \<noteq> []"
  shows "real (ba_admitted (auditBucket decisions lane capacity refillPerSecond))
     \<le> real_of_int capacity + refillPerSecond * real_of_int
         (or_zero (pe_dt (last (lane_events decisions lane))) - or_zero (pe_dt (hd (lane_events decisions lane)))) / 1000"
proof -
  let ?es = "lane_events decisions lane" and ?c = "real_of_int (capacity * UNIT)" and ?r = "refillPerSecond * 1000"
  let ?t0 = "or_zero (pe_dt (hd ?es))"
  define p where "p = \<lparr>rp_audit = \<lparr>ba_decisions = length ?es, ba_admitted = 0, ba_shed = 0, ba_gaps = 0,
      ba_mismatches = 0, ba_firstMismatch = None\<rparr>, rp_level = ?c, rp_dt = ?t0, rp_expectedSeq = 1\<rparr>"
  have audit: "auditBucket decisions lane capacity refillPerSecond = rp_audit (fold (replay_event ?c ?r) ?es p)"
    using assms(4) by (cases ?es) (simp_all add: auditBucket_def Let_def p_def)
  have "0 \<le> ?c" "0 \<le> ?r" using assms(2,3) by (simp_all add: UNIT_def)
  moreover have "replay_ok ?c ?r ?t0 p" using \<open>0 \<le> ?c\<close> by (simp add: p_def replay_ok_def)
  ultimately have "replay_ok ?c ?r ?t0 (fold (replay_event ?c ?r) ?es p)"
    "rp_dt (fold (replay_event ?c ?r) ?es p) = or_zero (pe_dt (last ?es))"
    using replay_fold_ok [of ?c ?r ?t0 p ?es] assms(1,4) by (simp_all add: audit)
  then show ?thesis by (simp add: replay_ok_def audit UNIT_def field_simps)
qed

text \<open>C32. The ledger alone bounds a lane: if the replay of a bucket finds no mismatch, then what its decisions
  consumed, whatever outcome they were later given, is at most the bucket's capacity plus the refill of
  the time between the first and the last of them.\<close>

theorem replay_bounds_admissions:
  assumes "ba_mismatches (auditBucket decisions lane capacity refillPerSecond) = 0"
    and "0 \<le> capacity" "0 \<le> refillPerSecond" "lane_events decisions lane \<noteq> []"
  shows "real (ba_admitted (auditBucket decisions lane capacity refillPerSecond))
     \<le> real_of_int capacity + refillPerSecond * real_of_int
         (or_zero (pe_dt (last (lane_events decisions lane))) - or_zero (pe_dt (hd (lane_events decisions lane)))) / 1000"
  using assms by (rule replay_admission_bound)

subsection \<open>A bucket of the lanes replays exactly\<close>

datatype bucket_use = Take instant | Peek instant

fun bucket_run :: "bucket_use list \<Rightarrow> token_bucket \<Rightarrow> taken list" where
  "bucket_run [] b = []"
| "bucket_run (Take t # us) b = snd (take_token t b) # bucket_run us (fst (take_token t b))"
| "bucket_run (Peek t # us) b = bucket_run us (fst (levelUnits t b))"

text \<open>The decision event of a take: its clock, level and number, and whether a token was consumed.\<close>

definition records_take :: "plane_event \<Rightarrow> taken \<Rightarrow> bool" where
  "records_take e tk \<longleftrightarrow> pe_dt e = Some (tk_dt tk) \<and> pe_lvl e = Some (tk_lvl tk)
     \<and> pe_lseq e = Some (tk_lseq tk) \<and> consumed_token e = tk_ok tk"

text \<open>The replay is in step with the bucket: the same level, up to the refill since its last event.\<close>

definition in_step :: "replay \<Rightarrow> token_bucket \<Rightarrow> bool" where
  "in_step p b \<longleftrightarrow> bucket_inv b \<and> rp_dt p \<le> tb_lastMs b \<and> rp_level p \<le> real_of_int (tb_capacityUnits b)
     \<and> real_of_int (tb_level b) = min (real_of_int (tb_capacityUnits b))
         (rp_level p + real_of_int (tb_lastMs b - rp_dt p) * real_of_int (tb_refillPerMs b))
     \<and> rp_expectedSeq p = tb_takes b + 1
     \<and> ba_mismatches (rp_audit p) = 0 \<and> ba_gaps (rp_audit p) = 0"

lemma min_refill:
  fixes c l x y :: real
  assumes "0 \<le> x" "0 \<le> y" "l \<le> c"
  shows "min c (min c (l + x) + y) = min c (l + (x + y))"
  using assms by (auto simp: min_def)

lemma in_step_refill:
  assumes "in_step p b"
  shows "in_step p (refill t b)"
proof (cases "tb_lastMs b < \<lfloor>t\<rfloor>")
  case True
  let ?c = "real_of_int (tb_capacityUnits b)" and ?r = "real_of_int (tb_refillPerMs b)"
  let ?x = "real_of_int (tb_lastMs b - rp_dt p) * ?r" and ?y = "real_of_int (\<lfloor>t\<rfloor> - tb_lastMs b) * ?r"
  have r: "0 \<le> ?r" using assms by (simp add: in_step_def bucket_inv_def)
  have "0 \<le> ?x" "0 \<le> ?y" using assms True r by (simp_all add: in_step_def)
  then have eq: "min ?c (min ?c (rp_level p + ?x) + ?y) = min ?c (rp_level p + (?x + ?y))"
    using assms by (intro min_refill) (simp_all add: in_step_def)
  have lv: "real_of_int (tb_level b) = min ?c (rp_level p + ?x)" using assms by (simp add: in_step_def)
  have "real_of_int (tb_level (refill t b)) = min ?c (real_of_int (tb_level b) + ?y)"
    using True by (simp add: refill_def Let_def of_int_min)
  also have "\<dots> = min ?c (rp_level p + (?x + ?y))" unfolding lv by (rule eq)
  also have "?x + ?y = real_of_int (\<lfloor>t\<rfloor> - rp_dt p) * ?r" by (simp add: algebra_simps)
  finally have "real_of_int (tb_level (refill t b)) = min ?c (rp_level p + real_of_int (\<lfloor>t\<rfloor> - rp_dt p) * ?r)" .
  then show ?thesis
    using assms True refill_inv [of b t] by (simp add: in_step_def) (simp add: refill_def Let_def)
next
  case False
  then show ?thesis using assms by (simp add: refill_def Let_def)
qed

lemma in_step_take:
  assumes "in_step p b" "records_take e (snd (take_token t b))"
    and c: "c = real_of_int (tb_capacityUnits b)" and r: "r = real_of_int (tb_refillPerMs b)"
  shows "in_step (replay_event c r e p) (fst (take_token t b))"
    and "ba_admitted (rp_audit (replay_event c r e p))
       = ba_admitted (rp_audit p) + (if tk_ok (snd (take_token t b)) then 1 else 0)"
proof -
  let ?b = "refill t b" and ?b' = "fst (take_token t b)" and ?tk = "snd (take_token t b)" and ?q = "replay_seq e p"
  have st: "in_step p ?b" by (rule in_step_refill [OF assms(1)])
  have same: "tb_capacityUnits ?b = tb_capacityUnits b" "tb_refillPerMs ?b = tb_refillPerMs b" "tb_takes ?b = tb_takes b"
    by (auto simp: refill_def Let_def)
  have tk: "tk_ok ?tk \<longleftrightarrow> tb_level ?b \<ge> UNIT" "tk_dt ?tk = tb_lastMs ?b" "tk_lseq ?tk = tb_takes b + 1"
    "tk_lvl ?tk = (if tb_level ?b \<ge> UNIT then tb_level ?b - UNIT else tb_level ?b)"
    "tb_level ?b' = tk_lvl ?tk" "tb_lastMs ?b' = tb_lastMs ?b" "tb_takes ?b' = tb_takes b + 1"
    "tb_capacityUnits ?b' = tb_capacityUnits b" "tb_refillPerMs ?b' = tb_refillPerMs b"
    by (auto simp: take_token_def Let_def same)
  have q: "?q = p\<lparr>rp_expectedSeq := rp_expectedSeq p + 1\<rparr>"
    using assms(2) st tk(3) by (simp add: replay_seq_def records_take_def in_step_def same)
  have dt: "or_zero (pe_dt e) = tb_lastMs ?b" using assms(2) tk(2) by (simp add: records_take_def or_zero_def)
  have le: "rp_dt p \<le> tb_lastMs ?b" using st by (simp add: in_step_def)
  have level: "level_before c r e ?q = real_of_int (tb_level ?b)"
    using st by (simp add: level_before_def dt c r in_step_def same)
  have after: "level_after c r e ?q = real_of_int (tk_lvl ?tk)"
    using assms(2) by (simp add: level_after_def level records_take_def tk(1,4))
  have ev: "replay_event c r e p = replay_decision c r e ?q"
    using le by (simp add: replay_event_def Let_def dt)
  have lvl: "pe_lvl e = Some (tk_lvl ?tk)" "consumed_token e = tk_ok ?tk"
    using assms(2) by (simp_all add: records_take_def)
  have inv: "bucket_inv ?b'" using assms(1) take_token_inv by (simp add: in_step_def)
  have zero: "ba_mismatches (rp_audit p) = 0" "ba_gaps (rp_audit p) = 0" "rp_expectedSeq p = tb_takes b + 1"
    using assms(1) by (simp_all add: in_step_def)
  have "tb_level ?b' \<le> tb_capacityUnits b" using inv tk(8) by (simp add: bucket_inv_def)
  then show "in_step (replay_event c r e p) (fst (take_token t b))"
    using inv zero
    unfolding in_step_def ev replay_decision_def Let_def level after lvl dt tk(6-9)
    by (auto simp: q tk(1,5))
  show "ba_admitted (rp_audit (replay_event c r e p))
       = ba_admitted (rp_audit p) + (if tk_ok (snd (take_token t b)) then 1 else 0)"
    unfolding ev replay_decision_def Let_def level after lvl by (simp add: q)
qed

lemma replay_in_step:
  assumes "in_step p b" "list_all2 records_take es (bucket_run us b)"
    and "c = real_of_int (tb_capacityUnits b)" "r = real_of_int (tb_refillPerMs b)"
  shows "ba_mismatches (rp_audit (fold (replay_event c r) es p)) = 0
    \<and> ba_gaps (rp_audit (fold (replay_event c r) es p)) = 0
    \<and> ba_admitted (rp_audit (fold (replay_event c r) es p))
       = ba_admitted (rp_audit p) + length (filter tk_ok (bucket_run us b))"
  using assms
proof (induction us arbitrary: p b es)
  case Nil
  then show ?case by (simp add: in_step_def)
next
  case (Cons u us)
  show ?case
  proof (cases u)
    case (Take t)
    let ?b' = "fst (take_token t b)"
    obtain e es' where es: "es = e # es'" "records_take e (snd (take_token t b))"
      "list_all2 records_take es' (bucket_run us ?b')"
      using Cons.prems(2) by (auto simp: Take list_all2_Cons2)
    note step = in_step_take [OF Cons.prems(1) es(2) Cons.prems(3,4)]
    have "tb_capacityUnits ?b' = tb_capacityUnits b" "tb_refillPerMs ?b' = tb_refillPerMs b"
      by (auto simp: take_token_def refill_def Let_def)
    with Cons.IH [OF step(1) es(3)] Cons.prems(3,4) step(2) show ?thesis
      by (simp add: Take es(1))
  next
    case (Peek t)
    have "tb_capacityUnits (refill t b) = tb_capacityUnits b" "tb_refillPerMs (refill t b) = tb_refillPerMs b"
      by (auto simp: refill_def Let_def)
    with Cons.IH [OF in_step_refill [OF Cons.prems(1)], of es t] Cons.prems(2-4) show ?thesis
      by (simp add: Peek levelUnits_def Let_def)
  qed
qed

lemma bucket_run_lseq: "map tk_lseq (bucket_run us b) = [tb_takes b + 1 .. tb_takes b + int (length (bucket_run us b))]"
proof (induction us arbitrary: b)
  case Nil
  then show ?case by simp
next
  case (Cons u us)
  show ?case
  proof (cases u)
    case (Take t)
    have "tb_takes (fst (take_token t b)) = tb_takes b + 1" "tk_lseq (snd (take_token t b)) = tb_takes b + 1"
      by (auto simp: take_token_def refill_def Let_def)
    then have "map tk_lseq (bucket_run (u # us) b)
        = (tb_takes b + 1) # [tb_takes b + 1 + 1 .. tb_takes b + int (length (bucket_run (u # us) b))]"
      using Cons.IH [of "fst (take_token t b)"] by (simp add: Take algebra_simps)
    also have "\<dots> = [tb_takes b + 1 .. tb_takes b + int (length (bucket_run (u # us) b))]"
      by (rule upto_rec1 [symmetric]) (simp add: Take)
    finally show ?thesis .
  next
    case (Peek t)
    have "tb_takes (refill t b) = tb_takes b" by (simp add: refill_def Let_def)
    then show ?thesis using Cons.IH [of "refill t b"] by (simp add: Peek levelUnits_def Let_def)
  qed
qed

lemma bucket_run_lastMs: "tk \<in> set (bucket_run us b) \<Longrightarrow> tb_lastMs b \<le> tk_dt tk"
proof (induction us arbitrary: b)
  case (Cons u us)
  have mono: "tb_lastMs b \<le> tb_lastMs (refill t b)" for t by (simp add: refill_def Let_def)
  show ?case
  proof (cases u)
    case (Take t)
    have "tb_lastMs (fst (take_token t b)) = tb_lastMs (refill t b)" "tk_dt (snd (take_token t b)) = tb_lastMs (refill t b)"
      by (auto simp: take_token_def Let_def)
    then show ?thesis
      using Cons.prems Cons.IH [of "fst (take_token t b)"] mono [of t] by (auto simp: Take)
  next
    case (Peek t)
    then show ?thesis
      using Cons.prems Cons.IH [of "refill t b"] mono [of t] by (auto simp: levelUnits_def Let_def)
  qed
qed simp

text \<open>The start of the replay: its clock is that of the first event, not that of the construction.\<close>

lemma replay_start:
  assumes "rp_level p = c" "t \<le> rp_dt p" "0 \<le> r" "es = [] \<or> rp_dt p = or_zero (pe_dt (hd es))"
  shows "rp_audit (fold (replay_event c r) es p) = rp_audit (fold (replay_event c r) es (p\<lparr>rp_dt := t\<rparr>))"
proof (cases es)
  case Nil
  then show ?thesis by simp
next
  case (Cons e es')
  let ?p = "p\<lparr>rp_dt := t\<rparr>"
  have dt: "rp_dt p = or_zero (pe_dt e)" using assms(4) Cons by simp
  have level: "level_before c r e (replay_seq e p) = c" "level_before c r e (replay_seq e ?p) = c"
    using assms(1-3) by (simp_all add: level_before_def dt min_def)
  have seq: "rp_audit (replay_seq e ?p) = rp_audit (replay_seq e p)"
    "rp_expectedSeq (replay_seq e ?p) = rp_expectedSeq (replay_seq e p)"
    by (cases "pe_lseq e"; simp add: replay_seq_def)+
  have "replay_decision c r e (replay_seq e ?p) = replay_decision c r e (replay_seq e p)"
    unfolding replay_decision_def Let_def level_after_def level seq
    by (rule replay.equality) (simp_all add: seq)
  moreover have "\<not> or_zero (pe_dt e) < rp_dt p" "\<not> or_zero (pe_dt e) < t" using assms(2) dt by auto
  ultimately have "replay_event c r e ?p = replay_event c r e p"
    by (simp add: replay_event_def Let_def)
  then show ?thesis by (simp add: Cons)
qed

text \<open>C17. The replay is complete: whatever use is made of a bucket of the lanes, the decision events that
  record its takes, in any order and mixed with those of other lanes, replay from the ledger without a
  mismatch and without a gap, and the replay counts exactly the tokens the bucket gave out.\<close>

theorem bucket_replays_exactly:
  assumes "new_bucket capacity refillPerSecond now = Inr b"
    and "list_all2 records_take es (bucket_run us b)"
    and "mset (map fst (filter (\<lambda>d. snd d = lane) decisions)) = mset es"
  shows "let a = auditBucket decisions lane capacity refillPerSecond in
     ba_mismatches a = 0 \<and> ba_gaps a = 0 \<and> ba_decisions a = length (bucket_run us b)
     \<and> ba_admitted a = length (filter tk_ok (bucket_run us b))"
proof -
  let ?c = "real_of_int (capacity * UNIT)" and ?r = "refillPerSecond * 1000"
  note nb = new_bucket_inv [OF assms(1)]
  have b: "tb_capacityUnits b = capacity * UNIT" "real_of_int (tb_refillPerMs b) = ?r" "tb_takes b = 0" "0 \<le> ?r"
    using assms(1) by (auto simp: new_bucket_def split: if_splits)
  have len: "length es = length (bucket_run us b)" using assms(2) by (rule list_all2_lengthD)
  have "map (\<lambda>e. or_zero (pe_lseq e)) es = map tk_lseq (bucket_run us b)"
    using assms(2) by (induction rule: list_all2_induct) (simp_all add: records_take_def or_zero_def)
  then have keys: "map (\<lambda>e. or_zero (pe_lseq e)) es = [1 .. int (length es)]"
    using bucket_run_lseq [of us b] by (simp add: b(3) len)
  have inj: "inj_on (\<lambda>e. or_zero (pe_lseq e)) (set es)" and sorted: "sorted (map (\<lambda>e. or_zero (pe_lseq e)) es)"
    using distinct_map [of "\<lambda>e. or_zero (pe_lseq e)" es] unfolding keys by simp_all
  have mine: "lane_events decisions lane = es"
    unfolding lane_events_def
    by (rule sort_key_inj_key_eq [OF assms(3) _ sorted]) (use mset_eq_setD [OF assms(3)] inj in simp)
  define p where "p = \<lparr>rp_audit = \<lparr>ba_decisions = length es, ba_admitted = 0, ba_shed = 0, ba_gaps = 0,
      ba_mismatches = 0, ba_firstMismatch = None\<rparr>, rp_level = ?c,
      rp_dt = (case es of [] \<Rightarrow> 0 | e # _ \<Rightarrow> or_zero (pe_dt e)), rp_expectedSeq = 1\<rparr>"
  define t where "t = (case es of [] \<Rightarrow> min 0 (tb_lastMs b) | _ \<Rightarrow> tb_lastMs b)"
  have first: "tb_lastMs b \<le> or_zero (pe_dt e)" if "es = e # es'" for e es'
    using assms(2) bucket_run_lastMs [of _ us b] that
    by (cases "bucket_run us b") (auto simp: records_take_def or_zero_def)
  have t: "t \<le> rp_dt p" "t \<le> tb_lastMs b" "es = [] \<or> rp_dt p = or_zero (pe_dt (hd es))"
    using first by (cases es; simp add: t_def p_def)+
  have step: "in_step (p\<lparr>rp_dt := t\<rparr>) b"
    using nb(1,2) t(2) b by (simp add: in_step_def p_def min_def)
  have audit: "auditBucket decisions lane capacity refillPerSecond = rp_audit (fold (replay_event ?c ?r) es p)"
    by (simp add: auditBucket_def Let_def mine p_def)
  also have "\<dots> = rp_audit (fold (replay_event ?c ?r) es (p\<lparr>rp_dt := t\<rparr>))"
    by (rule replay_start [OF _ t(1) b(4) t(3)]) (simp add: p_def)
  finally have audit: "auditBucket decisions lane capacity refillPerSecond
      = rp_audit (fold (replay_event ?c ?r) es (p\<lparr>rp_dt := t\<rparr>))" .
  have dec: "ba_decisions (rp_audit (fold (replay_event c r) fs q)) = ba_decisions (rp_audit q)" for c r fs q
    by (induction fs arbitrary: q) (simp_all add: replay_event_def replay_decision_def replay_seq_def Let_def)
  show ?thesis
    using replay_in_step [OF step assms(2), of ?c ?r] b(1,2)
    unfolding Let_def audit dec by (simp add: p_def len)
qed

subsection \<open>Witnesses\<close>

definition sample_decision :: "int \<Rightarrow> int \<Rightarrow> int \<Rightarrow> l2_outcome \<Rightarrow> plane_event" where
  "sample_decision dt lvl n oc = (plane_ev n L2_DECIDED)\<lparr>pe_class := Some ClsMutation,
     pe_lane := Some (Some LaneUnverified), pe_outcome := Some oc, pe_dt := Some dt, pe_lvl := Some lvl,
     pe_lseq := Some n\<rparr>"

definition sample_decisions :: "(plane_event \<times> string) list" where
  "sample_decisions = [(sample_decision 20 20000 2 Shed, ''unverified''),
     (sample_decision 0 0 1 Admitted, ''unverified''), (sample_decision 7 5 1 Admitted, ''credited'')]"

theorem replay_bounds_admissions_witness:
  "ba_admitted (auditBucket sample_decisions ''unverified'' 1 1) = 1
   \<and> real (ba_admitted (auditBucket sample_decisions ''unverified'' 1 1)) \<le> 1 + 1 * 20 / 1000"
proof -
  have events: "lane_events sample_decisions ''unverified'' = [sample_decision 0 0 1 Admitted, sample_decision 20 20000 2 Shed]"
    by (simp add: lane_events_def sample_decisions_def sample_decision_def or_zero_def)
  have audit: "ba_mismatches (auditBucket sample_decisions ''unverified'' 1 1) = 0"
    "ba_admitted (auditBucket sample_decisions ''unverified'' 1 1) = 1"
    unfolding auditBucket_def events
    by (simp_all add: Let_def replay_event_def replay_decision_def replay_seq_def level_before_def level_after_def
        consumed_token_def realDecision_def or_none_def outcome_name_def sample_decision_def plane_ev_def or_zero_def
        flag_mismatch_def UNIT_def)
  have "real (ba_admitted (auditBucket sample_decisions ''unverified'' 1 1))
     \<le> real_of_int 1 + 1 * real_of_int
         (or_zero (pe_dt (last (lane_events sample_decisions ''unverified'')))
          - or_zero (pe_dt (hd (lane_events sample_decisions ''unverified'')))) / 1000"
    by (rule replay_bounds_admissions) (simp_all add: audit(1) events)
  then show ?thesis using audit(2) by (simp add: events sample_decision_def or_zero_def)
qed

theorem bucket_replays_exactly_witness:
  "let a = auditBucket sample_decisions ''unverified'' 1 1 in
     ba_mismatches a = 0 \<and> ba_gaps a = 0 \<and> ba_decisions a = 2 \<and> ba_admitted a = 1"
proof -
  define b where "b = \<lparr>tb_capacity = 1, tb_capacityUnits = 1 * UNIT, tb_refillPerMs = 1000, tb_level = 1 * UNIT,
      tb_lastMs = 0, tb_takes = 0, tb_admitted = 0, tb_shed = 0\<rparr>"
  let ?us = "[Take 0, Peek 10, Take 20]"
  let ?es = "[sample_decision 0 0 1 Admitted, sample_decision 20 20000 2 Shed]"
  have nb: "new_bucket 1 1 0 = Inr b"
    by (simp add: new_bucket_def b_def is_positive_safe_integer_def is_safe_integer_def MAX_SAFE_INTEGER_def)
  have run: "bucket_run ?us b = [\<lparr>tk_ok = True, tk_dt = 0, tk_lvl = 0, tk_lseq = 1\<rparr>,
      \<lparr>tk_ok = False, tk_dt = 20, tk_lvl = 20000, tk_lseq = 2\<rparr>]"
    by (simp add: b_def take_token_def levelUnits_def refill_def Let_def UNIT_def)
  have rec: "list_all2 records_take ?es (bucket_run ?us b)"
    unfolding run by (simp add: records_take_def sample_decision_def consumed_token_def realDecision_def
        plane_ev_def or_none_def outcome_name_def)
  have "mset (map fst (filter (\<lambda>d. snd d = ''unverified'') sample_decisions)) = mset ?es"
    by (simp add: sample_decisions_def)
  from bucket_replays_exactly [OF nb rec this] show ?thesis unfolding run by (simp add: Let_def)
qed

end
