(* ===== verification/External_Accounting.thy ===== *)
theory External_Accounting
  imports Field_Collector Bucket_Replay
begin

text \<open>
  The server-side accounting of one level of a field run, \<^verbatim>\<open>lab/defense/external-accounting.ts\<close>: the counts
  of the canary's own records and the identities E1 to E11 over the counters of the external lane. The
  description text of an identity and the summary are not modelled. The theorem composes the collector,
  the lane and this accounting: the identities that follow from the per-request validators hold for every
  field run the collector finalizes without an anomaly.
\<close>

record canary_counts =
  cc_planeAccepted :: nat
  cc_l2ByKey :: "(string, nat) jsmap"
  cc_boundary :: boundary_counters
  cc_app :: app_counters
  cc_clientObservedMutations :: nat
  cc_decisions :: "plane_event list"

text \<open>The canary's boundary and app counts leave out \<^verbatim>\<open>relayed\<close>, the two \<^verbatim>\<open>forward\<close> counts and \<^verbatim>\<open>aborted\<close> of the
  application, which no identity reads.\<close>

definition canary_record :: "ledger_record \<Rightarrow> canary_counts \<Rightarrow> canary_counts" where
  "canary_record r c =
     (if rm_lane (rec_meta r) \<noteq> X_protected then c
      else
        let c1 = c\<lparr>cc_planeAccepted := cc_planeAccepted c + (if has_kind INGRESS_ACCEPTED (rec_plane r) then 1 else 0)\<rparr>;
            c2 = (case first_kind L2_DECIDED (rec_plane r) of
                None \<Rightarrow> c1
              | Some e \<Rightarrow> c1\<lparr>cc_decisions := cc_decisions c1 @ [e], cc_l2ByKey := bump_table (cc_l2ByKey c1) (decision_key e)\<rparr>)
        in c2\<lparr>cc_boundary := fold count_boundary (rec_boundary r) (cc_boundary c2),
              cc_app := fold count_app (rec_app r) (cc_app c2)\<rparr>)"

definition canaryCounts :: "ledger_record list \<Rightarrow> nat \<Rightarrow> canary_counts" where
  "canaryCounts records clientObserved =
     fold canary_record records \<lparr>cc_planeAccepted = 0, cc_l2ByKey = [], cc_boundary = xc_boundary zero_counters,
       cc_app = xc_app zero_counters, cc_clientObservedMutations = clientObserved, cc_decisions = []\<rparr>"

record identity =
  id_id :: string
  id_left :: int
  id_right :: int
  id_ok :: bool

definition identity_of :: "string \<Rightarrow> int \<Rightarrow> int \<Rightarrow> identity" where
  "identity_of i l r = \<lparr>id_id = i, id_left = l, id_right = r, id_ok = (l = r)\<rparr>"

lemma identity_of_ok [simp]: "id_ok (identity_of i l r) \<longleftrightarrow> l = r"
  by (simp add: identity_of_def)

definition ends_with :: "string \<Rightarrow> string \<Rightarrow> bool" where
  "ends_with s t \<longleftrightarrow> length t \<le> length s \<and> drop (length s - length t) s = t"

definition countWhere :: "(string, nat) jsmap \<Rightarrow> string \<Rightarrow> nat" where
  "countWhere table outcome = table_sum (filter (\<lambda>(k, n). ends_with k (''.'' @ outcome)) table)"

definition entry :: "('k, nat) jsmap \<Rightarrow> 'k \<Rightarrow> nat" where
  "entry m k = (case map_of m k of None \<Rightarrow> 0 | Some n \<Rightarrow> n)"

subsection \<open>The input\<close>

record boundary_fin_stats =
  bf_arrived :: int
  bf_admitted :: int
  bf_rejected :: int
  bf_parserRejected :: int
  bf_protocolRefused :: int

record app_fin_counters =
  af_admitted :: int
  af_executed :: int
  af_refused :: int
  af_stateMutations :: int

record connection_counts =
  cn_acceptedLocal :: int
  cn_acceptedRemote :: int
  cn_closedClean :: int
  cn_closedError :: int
  cn_active :: int
  cn_dropped :: int
  cn_clientErrorTotal :: int
  cn_protocolRefused :: int
  cn_parserRejected :: int

record bucket_params =
  bp_capacity :: int
  bp_refillPerSecond :: real

record accounting_input =
  ai_external :: external_counters
  ai_externalDecisions :: "plane_event list"
  ai_canary :: canary_counts
  ai_planeDecisions :: "(string, nat) jsmap option"
  ai_boundaryFin :: "boundary_fin_stats option"
  ai_appFin :: "app_fin_counters option"
  ai_connections :: "connection_counts option"
  ai_credited :: bucket_params
  ai_unverified :: bucket_params
  ai_windowElapsedMs :: real
  ai_workers :: int
  ai_externalInFlightMax :: int
  ai_planeDropped :: int
  ai_boundaryDropped :: int
  ai_appDropped :: int
  ai_drained :: bool
  ai_finalTicks :: "bool \<times> bool \<times> bool"
  ai_tickGaps :: int

subsection \<open>The identities\<close>

definition e1_identities :: "external_counters \<Rightarrow> identity list" where
  "e1_identities e =
     (let unresolved = entry (xc_terminal e) None; terminalTotal = int (table_sum (xc_terminal e)) - int unresolved in
      [identity_of ''e1.external_accepted_equals_terminal'' (int (xc_accepted e)) (terminalTotal + int unresolved),
       identity_of ''e1.unresolved_is_zero'' (int unresolved) 0,
       identity_of ''e1.reduced_equals_accepted'' (int (xc_reduced e)) (int (xc_accepted e))])"

definition e2_identities :: "external_counters \<Rightarrow> identity list" where
  "e2_identities e =
     (let l1 = xc_l1 e; l2 = xc_l2 e in
      [identity_of ''e2.l1_in_equals_ingress'' (int (c1_entered l1)) (int (xc_accepted e)),
       identity_of ''e2.l1_in_equals_outcomes'' (int (c1_entered l1))
         (int (c1_passed l1 + c1_rejected l1 + c1_shed l1 + c1_error l1)),
       identity_of ''e2.l2_in_equals_l1_pass'' (int (c2_entered l2)) (int (c1_passed l1)),
       identity_of ''e2.l2_decided_equals_entered'' (int (c2_decided l2)) (int (c2_entered l2)),
       identity_of ''e2.l2_decisions_partition'' (int (c2_decided l2))
         (int (countWhere (c2_byKey l2) ''admitted'' + countWhere (c2_byKey l2) ''shed''
           + countWhere (c2_byKey l2) ''error'' + countWhere (c2_byKey l2) ''degraded''))])"

definition e3_identities :: "external_counters \<Rightarrow> identity list" where
  "e3_identities e =
     (let proceeds = countWhere (c2_byKey (xc_l2 e)) ''admitted'' + countWhere (c2_byKey (xc_l2 e)) ''degraded'';
          g = xc_egress e in
      [identity_of ''e3.egress_equals_l2_proceeds'' (int (ce_attempted g)) (int proceeds),
       identity_of ''e3.egress_attributed'' (int (ce_attempted g)) (int (ce_responded g + ce_failed g)),
       identity_of ''e3.egress_failed_is_zero'' (int (ce_failed g)) 0])"

definition e4_identities :: "external_counters \<Rightarrow> identity list" where
  "e4_identities e = [identity_of ''e4.proofs_equal_egress_minus_precontact_failures'' (int (xc_proofsIssued e))
     (int (ce_attempted (xc_egress e)) - int (ce_failedAtProof (xc_egress e)))]"

definition e5_identities :: "accounting_input \<Rightarrow> identity list" where
  "e5_identities i =
     (let e = ai_external i; c = ai_canary i in
      (case ai_boundaryFin i of None \<Rightarrow> []
       | Some b \<Rightarrow>
         [identity_of ''e5.boundary_arrived_equals_ledger'' (bf_arrived b)
            (int (cb_arrived (xc_boundary e) + cb_arrived (cc_boundary c))),
          identity_of ''e5.boundary_admitted_equals_ledger'' (bf_admitted b)
            (int (cb_admitted (xc_boundary e) + cb_admitted (cc_boundary c))),
          identity_of ''e5.boundary_rejected_is_zero''
            (bf_rejected b + int (cb_rejected (xc_boundary e) + cb_rejected (cc_boundary c))) 0,
          identity_of ''e5.boundary_refusals_zero'' (bf_parserRejected b + bf_protocolRefused b) 0])
      @ [identity_of ''e5.external_admitted_equals_app_proofs'' (int (cb_admitted (xc_boundary e)))
           (int (cb_appProofsIssued (xc_boundary e)))]
      @ (case ai_appFin i of None \<Rightarrow> []
         | Some a \<Rightarrow>
           [identity_of ''e5.app_admitted_equals_ledger'' (af_admitted a)
              (int (ca_admitted (xc_app e) + ca_admitted (cc_app c))),
            identity_of ''e5.app_executed_equals_ledger'' (af_executed a)
              (int (ca_executed (xc_app e) + ca_executed (cc_app c))),
            identity_of ''e5.app_refused_is_zero''
              (af_refused a + int (ca_refused (xc_app e) + ca_refused (cc_app c))) 0])
      @ [identity_of ''e5.external_app_admitted_equals_forwarded'' (int (ca_admitted (xc_app e)))
           (int (cb_forwardResponded (xc_boundary e)))])"

definition e6_identities :: "accounting_input \<Rightarrow> identity list" where
  "e6_identities i =
     (let ledger = int (ca_mutated (xc_app (ai_external i)) + ca_mutated (cc_app (ai_canary i))) in
      (case ai_appFin i of None \<Rightarrow> []
       | Some a \<Rightarrow> [identity_of ''e6.app_counter_equals_ledger_mutations'' (af_stateMutations a) ledger])
      @ [identity_of ''e6.canary_ledger_equals_client'' (int (ca_mutated (cc_app (ai_canary i))))
           (int (cc_clientObservedMutations (ai_canary i)))])"

definition unverifiedMutationBound :: "bucket_params \<Rightarrow> real \<Rightarrow> int" where
  "unverifiedMutationBound b elapsedMs = bp_capacity b + \<lfloor>bp_refillPerSecond b * elapsedMs / 1000\<rfloor> + 1"

definition bucketed_decisions :: "plane_event list \<Rightarrow> (plane_event \<times> string) list" where
  "bucketed_decisions es =
     filter (\<lambda>d. snd d = ''credited'' \<or> snd d = ''unverified'')
       (map (\<lambda>e. (e, bucketLaneOf e)) (filter (\<lambda>e. pe_dt e \<noteq> None) es))"

definition bucket_audits :: "accounting_input \<Rightarrow> bucket_audit \<times> bucket_audit" where
  "bucket_audits i =
     (let ds = bucketed_decisions (ai_externalDecisions i @ cc_decisions (ai_canary i)) in
      (auditBucket ds ''credited'' (bp_capacity (ai_credited i)) (bp_refillPerSecond (ai_credited i)),
       auditBucket ds ''unverified'' (bp_capacity (ai_unverified i)) (bp_refillPerSecond (ai_unverified i))))"

definition key_mismatches ::
  "(string, nat) jsmap \<Rightarrow> (string, nat) jsmap \<Rightarrow> (string, nat) jsmap \<Rightarrow> nat" where
  "key_mismatches plane e c = length (filter (\<lambda>k. entry plane k \<noteq> entry e k + entry c k)
     (remdups (map fst plane @ map fst e @ map fst c)))"

definition e7_identities :: "accounting_input \<Rightarrow> identity list" where
  "e7_identities i =
     (let e = ai_external i; mutated = int (ca_mutated (xc_app e));
          bound = unverifiedMutationBound (ai_unverified i) (ai_windowElapsedMs i);
          (credited, unverified) = bucket_audits i in
      [(identity_of ''e7.external_mutations_within_unverified_budget'' mutated (min mutated bound))
         \<lparr>id_ok := mutated \<le> bound\<rparr>,
       identity_of ''e7.external_credited_mutations_zero'' (int (entry (xc_mutatedByLane e) ''credited'')) 0,
       identity_of ''e7.external_open_or_unlaned_mutations_zero''
         (int (entry (xc_mutatedByLane e) ''open'' + entry (xc_mutatedByLane e) ''none'')) 0,
       identity_of ''e7.credited_bucket_replays_exactly'' (int (ba_mismatches credited)) 0,
       identity_of ''e7.unverified_bucket_replays_exactly'' (int (ba_mismatches unverified)) 0,
       identity_of ''e7.credited_decisions_gapless'' (int (ba_gaps credited)) 0,
       identity_of ''e7.unverified_decisions_gapless'' (int (ba_gaps unverified)) 0]
      @ (case ai_planeDecisions i of None \<Rightarrow> []
         | Some plane \<Rightarrow> [identity_of ''e7.plane_l2_counters_equal_ledger''
             (int (key_mismatches plane (c2_byKey (xc_l2 e)) (cc_l2ByKey (ai_canary i)))) 0]))"

definition e8_identities :: "external_counters \<Rightarrow> identity list" where
  "e8_identities e =
     (let s = xc_status503 e in
      [identity_of ''e8.status_503_all_attributed'' (int (cs_unexplained s)) 0,
       identity_of ''e8.status_503_equals_expected_shed'' (int (cs_total s)) (int (cs_expectedShed s)),
       identity_of ''e8.no_other_5xx'' (int (xc_status5xxOther e)) 0,
       identity_of ''e8.expected_shed_equals_l2_budget_sheds'' (int (cs_expectedShed s))
         (int (entry (c2_shedByReason (xc_l2 e)) ''mutation.unverified.lane_budget''))])"

definition e9_identities :: "connection_counts option \<Rightarrow> identity list" where
  "e9_identities connections = (case connections of None \<Rightarrow> []
     | Some c \<Rightarrow>
       [identity_of ''e9.connections_balance'' (cn_acceptedLocal c + cn_acceptedRemote c)
          (cn_closedClean c + cn_closedError c + cn_active c),
        identity_of ''e9.active_connections_zero_after_drain'' (cn_active c) 0,
        identity_of ''e9.dropped_is_zero'' (cn_dropped c) 0,
        identity_of ''e9.client_errors_zero'' (cn_clientErrorTotal c) 0,
        identity_of ''e9.protocol_refusals_zero'' (cn_protocolRefused c) 0,
        identity_of ''e9.parser_rejections_zero'' (cn_parserRejected c) 0])"

definition e10_identities :: "accounting_input \<Rightarrow> identity list" where
  "e10_identities i =
     (let (p, b, a) = ai_finalTicks i; one = (\<lambda>x. if x then 1 else 0) in
      [identity_of ''e10.no_dropped_events'' (ai_planeDropped i + ai_boundaryDropped i + ai_appDropped i) 0,
       identity_of ''e10.streams_drained'' (if ai_drained i then 0 else 1) 0,
       identity_of ''e10.final_ticks_present'' (one p + one b + one a) 3,
       identity_of ''e10.no_tick_gaps'' (ai_tickGaps i) 0])"

definition e11_identities :: "accounting_input \<Rightarrow> identity list" where
  "e11_identities i =
     [(identity_of ''e11.external_in_flight_within_n'' (ai_externalInFlightMax i)
         (min (ai_externalInFlightMax i) (ai_workers i)))\<lparr>id_ok := ai_externalInFlightMax i \<le> ai_workers i\<rparr>]"

record accounting_report =
  ar_identities :: "identity list"
  ar_identitiesOk :: bool
  ar_buckets :: "bucket_audit \<times> bucket_audit"
  ar_mutationBound :: int

definition deriveExternalAccounting :: "accounting_input \<Rightarrow> accounting_report" where
  "deriveExternalAccounting i =
     (let e = ai_external i;
          ids = e1_identities e @ e2_identities e @ e3_identities e @ e4_identities e @ e5_identities i
            @ e6_identities i @ e7_identities i @ e8_identities e @ e9_identities (ai_connections i)
            @ e10_identities i @ e11_identities i in
      \<lparr>ar_identities = ids, ar_identitiesOk = list_all id_ok ids, ar_buckets = bucket_audits i,
       ar_mutationBound = unverifiedMutationBound (ai_unverified i) (ai_windowElapsedMs i)\<rparr>)"

subsection \<open>Properties\<close>

text \<open>The identities that follow from the validators of the single requests: all of E1, the four flow identities of E2 and
  the attribution of E3. Not the partition of the decisions, which counts the free text of the shadow of a simulated decision, not
  the equality of egress and proceeding decisions, which an aborted request breaks, and not that no egress failed.\<close>

definition clean_identities :: "string list" where
  "clean_identities = [''e1.external_accepted_equals_terminal'', ''e1.unresolved_is_zero'', ''e1.reduced_equals_accepted'',
     ''e2.l1_in_equals_ingress'', ''e2.l1_in_equals_outcomes'', ''e2.l2_in_equals_l1_pass'', ''e2.l2_decided_equals_entered'',
     ''e3.egress_attributed'']"

lemma e1_e2_e3_names:
  "set clean_identities \<subseteq> id_id ` set (e1_identities e @ e2_identities e @ e3_identities e)"
  by (simp add: clean_identities_def e1_identities_def e2_identities_def e3_identities_def Let_def identity_of_def)

lemma id_id_of [simp]: "id_id (identity_of n l r) = n"
  by (simp add: identity_of_def)

lemma clean_prefix: "\<forall>n \<in> set clean_identities. take 3 n \<in> {''e1.'', ''e2.'', ''e3.''}"
  by (simp add: clean_identities_def)

lemma e4_prefix: "\<forall>d \<in> set (e4_identities e). take 3 (id_id d) = ''e4.''"
  by (simp add: e4_identities_def)

lemma e5_prefix: "\<forall>d \<in> set (e5_identities i). take 3 (id_id d) = ''e5.''"
  by (cases "ai_boundaryFin i"; cases "ai_appFin i") (simp_all add: e5_identities_def Let_def)

lemma e6_prefix: "\<forall>d \<in> set (e6_identities i). take 3 (id_id d) = ''e6.''"
  by (cases "ai_appFin i") (simp_all add: e6_identities_def Let_def)

lemma e7_prefix: "\<forall>d \<in> set (e7_identities i). take 3 (id_id d) = ''e7.''"
  by (cases "ai_planeDecisions i") (simp_all add: e7_identities_def Let_def case_prod_beta)

lemma e8_prefix: "\<forall>d \<in> set (e8_identities e). take 3 (id_id d) = ''e8.''"
  by (simp add: e8_identities_def Let_def)

lemma e9_prefix: "\<forall>d \<in> set (e9_identities cn). take 3 (id_id d) = ''e9.''"
  by (cases cn) (simp_all add: e9_identities_def)

lemma e10_prefix: "\<forall>d \<in> set (e10_identities i). take 3 (id_id d) = ''e10''"
  by (simp add: e10_identities_def Let_def case_prod_beta)

lemma e11_prefix: "\<forall>d \<in> set (e11_identities i). take 3 (id_id d) = ''e11''"
  by (simp add: e11_identities_def)

lemmas other_prefixes = e4_prefix e5_prefix e6_prefix e7_prefix e8_prefix e9_prefix e10_prefix e11_prefix

text \<open>No later identity has one of these names.\<close>

lemma other_names:
  assumes "d \<in> set (e4_identities e) \<union> set (e5_identities i) \<union> set (e6_identities i) \<union> set (e7_identities i) \<union> set (e8_identities e)
    \<union> set (e9_identities cn) \<union> set (e10_identities i) \<union> set (e11_identities i)"
  shows "id_id d \<notin> set clean_identities"
proof
  assume "id_id d \<in> set clean_identities"
  then have "take 3 (id_id d) \<in> {''e1.'', ''e2.'', ''e3.''}" using clean_prefix by blast
  moreover have "take 3 (id_id d) \<in> {''e4.'', ''e5.'', ''e6.'', ''e7.'', ''e8.'', ''e9.'', ''e10'', ''e11''}"
    using assms other_prefixes by blast
  ultimately show False by auto
qed

lemma balanced_identities:
  assumes "xc_accepted c = xc_reduced c" "balanced c" "table_sum (xc_terminal c) = xc_reduced c"
  shows "\<forall>d \<in> set (e1_identities c @ e2_identities c @ e3_identities c). id_id d \<in> set clean_identities \<longrightarrow> id_ok d"
  using assms
  by (simp add: balanced_def e1_identities_def e2_identities_def e3_identities_def Let_def entry_def clean_identities_def)

text \<open>C31. The accounting agrees with the validators. For every field run the collector finalizes with
  \<^verbatim>\<open>anomalyTotal\<close> zero, whatever the rest of the input of the accounting is, the report holds each of these eight identities and
  each is satisfied: the three of E1 (the accepted requests are the terminal outcomes, none is unresolved, each was reduced), the
  four flow identities of E2 (what enters the first layer is the ingress and its outcomes, what it passes enters the second, which
  decides it) and the one of E3 that every egress attempt was answered or failed.\<close>

theorem clean_run_satisfies_identities:
  assumes "field_finalize jo (field_run ops (new_collector cl, new_reducer l al)) = ((found, 0), x)"
    and "ai_external i = xr_counters x"
  shows "set clean_identities \<subseteq> id_id ` set (ar_identities (deriveExternalAccounting i))
    \<and> (\<forall>d \<in> set (ar_identities (deriveExternalAccounting i)). id_id d \<in> set clean_identities \<longrightarrow> id_ok d)"
proof
  have clean: "xc_accepted (ai_external i) = xc_reduced (ai_external i)" "balanced (ai_external i)"
    "table_sum (xc_terminal (ai_external i)) = xc_reduced (ai_external i)"
    unfolding assms(2) using clean_field_lane [OF assms(1)] by blast+
  have ids: "set (ar_identities (deriveExternalAccounting i)) =
      set (e1_identities (ai_external i) @ e2_identities (ai_external i) @ e3_identities (ai_external i))
      \<union> (set (e4_identities (ai_external i)) \<union> set (e5_identities i) \<union> set (e6_identities i) \<union> set (e7_identities i)
        \<union> set (e8_identities (ai_external i)) \<union> set (e9_identities (ai_connections i)) \<union> set (e10_identities i)
        \<union> set (e11_identities i))"
    by (simp add: deriveExternalAccounting_def Let_def Un_assoc)
  show "set clean_identities \<subseteq> id_id ` set (ar_identities (deriveExternalAccounting i))"
    unfolding ids using e1_e2_e3_names [of "ai_external i"] by blast
  show "\<forall>d \<in> set (ar_identities (deriveExternalAccounting i)). id_id d \<in> set clean_identities \<longrightarrow> id_ok d"
    unfolding ids using balanced_identities [OF clean] other_names [of _ "ai_external i" i "ai_connections i"] by blast
qed

text \<open>An accepted report bounds both lanes from the ledger: when every identity holds, the decisions of the
  external and the canary requests together consumed from each bucket at most its capacity plus its refill
  between its first and its last decision, no external request changed anything through the credited lane,
  and every 503 sent to an external client was an expected shed.\<close>

theorem accepted_report_bounds_lanes:
  assumes "ar_identitiesOk (deriveExternalAccounting i)"
    and "ds = bucketed_decisions (ai_externalDecisions i @ cc_decisions (ai_canary i))"
    and "(lane, b) = (''credited'', ai_credited i) \<or> (lane, b) = (''unverified'', ai_unverified i)"
    and "0 \<le> bp_capacity b" "0 \<le> bp_refillPerSecond b" "lane_events ds lane \<noteq> []"
  shows "real (ba_admitted (auditBucket ds lane (bp_capacity b) (bp_refillPerSecond b)))
       \<le> real_of_int (bp_capacity b) + bp_refillPerSecond b * real_of_int
           (or_zero (pe_dt (last (lane_events ds lane))) - or_zero (pe_dt (hd (lane_events ds lane)))) / 1000
    \<and> entry (xc_mutatedByLane (ai_external i)) ''credited'' = 0
    \<and> cs_total (xc_status503 (ai_external i)) = cs_expectedShed (xc_status503 (ai_external i))"
proof -
  have ok: "list_all id_ok (e7_identities i)" "list_all id_ok (e8_identities (ai_external i))"
    using assms(1) by (simp_all add: deriveExternalAccounting_def Let_def)
  have zero: "ba_mismatches (auditBucket ds lane (bp_capacity b) (bp_refillPerSecond b)) = 0"
    using ok(1) assms(2,3) by (auto simp: e7_identities_def bucket_audits_def Let_def)
  have "real (ba_admitted (auditBucket ds lane (bp_capacity b) (bp_refillPerSecond b)))
       \<le> real_of_int (bp_capacity b) + bp_refillPerSecond b * real_of_int
           (or_zero (pe_dt (last (lane_events ds lane))) - or_zero (pe_dt (hd (lane_events ds lane)))) / 1000"
    by (rule replay_admission_bound [OF zero assms(4-6)])
  then show ?thesis
    using ok by (simp add: e7_identities_def e8_identities_def bucket_audits_def Let_def)
qed

subsection \<open>Witnesses\<close>

definition sample_input :: "external_counters \<Rightarrow> accounting_input" where
  "sample_input e = \<lparr>ai_external = e, ai_externalDecisions = [],
     ai_canary = (canaryCounts [] 0)\<lparr>cc_decisions := map fst (rev (take 2 sample_decisions))\<rparr>,
     ai_planeDecisions = None, ai_boundaryFin = None, ai_appFin = None, ai_connections = None,
     ai_credited = \<lparr>bp_capacity = 1, bp_refillPerSecond = 1\<rparr>,
     ai_unverified = \<lparr>bp_capacity = 1, bp_refillPerSecond = 1\<rparr>, ai_windowElapsedMs = 20, ai_workers = 1,
     ai_externalInFlightMax = 1, ai_planeDropped = 0, ai_boundaryDropped = 0, ai_appDropped = 0,
     ai_drained = True, ai_finalTicks = (True, True, True), ai_tickGaps = 0\<rparr>"

theorem clean_run_satisfies_identities_witness:
  "xc_reduced (xr_counters (snd sample_field_result)) = 1
   \<and> set clean_identities \<subseteq> id_id ` set (filter id_ok (ar_identities (deriveExternalAccounting (sample_input (xr_counters (snd sample_field_result))))))"
proof -
  let ?i = "sample_input (xr_counters (snd sample_field_result))"
  have i: "ai_external ?i = xr_counters (snd sample_field_result)" by (simp add: sample_input_def)
  have "set clean_identities \<subseteq> id_id ` set (ar_identities (deriveExternalAccounting ?i))
      \<and> (\<forall>d \<in> set (ar_identities (deriveExternalAccounting ?i)). id_id d \<in> set clean_identities \<longrightarrow> id_ok d)"
    using clean_run_satisfies_identities [OF sample_field_zero [unfolded sample_field_result_def] i [unfolded sample_field_result_def]]
    unfolding sample_field_result_def .
  then show ?thesis using sample_field_reduced by fastforce
qed

theorem accepted_report_bounds_lanes_witness:
  "ar_identitiesOk (deriveExternalAccounting (sample_input zero_counters))
   \<and> real (ba_admitted (auditBucket (bucketed_decisions (map fst (rev (take 2 sample_decisions)))) ''unverified'' 1 1))
       \<le> 1 + 20 / 1000"
proof -
  let ?i = "sample_input zero_counters" and ?ds = "bucketed_decisions (map fst (rev (take 2 sample_decisions)))"
  have ds: "?ds = [(sample_decision 0 0 1 Admitted, ''unverified''), (sample_decision 20 20000 2 Shed, ''unverified'')]"
    by (simp add: bucketed_decisions_def sample_decisions_def sample_decision_def bucketLaneOf_def realDecision_def
        plane_ev_def lane2_name_def)
  have input: "?ds = bucketed_decisions (ai_externalDecisions ?i @ cc_decisions (ai_canary ?i))"
    by (simp add: sample_input_def)
  have events: "lane_events ?ds ''unverified'' = [sample_decision 0 0 1 Admitted, sample_decision 20 20000 2 Shed]"
    "lane_events ?ds ''credited'' = []"
    unfolding ds by (simp_all add: lane_events_def sample_decision_def or_zero_def)
  have audit: "ba_mismatches (auditBucket ?ds ''unverified'' 1 1) = 0" "ba_gaps (auditBucket ?ds ''unverified'' 1 1) = 0"
    "ba_mismatches (auditBucket ?ds ''credited'' 1 1) = 0" "ba_gaps (auditBucket ?ds ''credited'' 1 1) = 0"
    unfolding auditBucket_def events
    by (simp_all add: Let_def replay_event_def replay_decision_def replay_seq_def level_before_def level_after_def
        consumed_token_def realDecision_def or_none_def outcome_name_def sample_decision_def plane_ev_def or_zero_def
        flag_mismatch_def UNIT_def)
  have audits: "bucket_audits ?i = (auditBucket ?ds ''credited'' 1 1, auditBucket ?ds ''unverified'' 1 1)"
    by (simp add: bucket_audits_def Let_def input [symmetric]) (simp add: sample_input_def)
  have ok: "ar_identitiesOk (deriveExternalAccounting ?i)"
    unfolding deriveExternalAccounting_def Let_def e7_identities_def audits
    by (simp add: audit sample_input_def zero_counters_def canaryCounts_def
        e1_identities_def e2_identities_def e3_identities_def e4_identities_def e5_identities_def e6_identities_def
        e8_identities_def e9_identities_def e10_identities_def e11_identities_def entry_def table_sum_def
        countWhere_def unverifiedMutationBound_def)
  have bound: "real (ba_admitted (auditBucket ?ds ''unverified'' (bp_capacity (ai_unverified ?i)) (bp_refillPerSecond (ai_unverified ?i))))
       \<le> real_of_int (bp_capacity (ai_unverified ?i)) + bp_refillPerSecond (ai_unverified ?i) * real_of_int
           (or_zero (pe_dt (last (lane_events ?ds ''unverified''))) - or_zero (pe_dt (hd (lane_events ?ds ''unverified'')))) / 1000"
    using accepted_report_bounds_lanes [OF ok input, of "''unverified''" "ai_unverified ?i"]
    by (simp add: events sample_input_def)
  then show ?thesis
    using ok by (simp add: events sample_input_def) (simp add: sample_decision_def or_zero_def)
qed

end
