(* ===== verification/Use_Ledger.thy ===== *)
theory Use_Ledger
  imports Prelude
begin

text \<open>
  \<^verbatim>\<open>UseLedger\<close> of \<^verbatim>\<open>defense/core/lanes.ts\<close>: at most \<open>maxUses\<close> uses per enrolled token, kept for the two
  epochs its credit can live, with a fixed number of records. \<open>requiredLedgerCapacity\<close> is the sizing rule.
  The theorems: a token is never used more than \<open>maxUses\<close> times while its record lives, uses are never
  given back, a record is dropped only when its window ended, and a ledger never exceeds its capacity.
\<close>

record use_entry =
  ue_committed :: int
  ue_firstEpoch :: int

record use_ledger =
  ul_capacity :: int
  ul_maxUses :: int
  ul_entries :: "(string, use_entry) jsmap"
  ul_lastPurgeEpoch :: int
  ul_highWater :: int
  ul_allocated :: int
  ul_purged :: int
  ul_fullRefusals :: int
  ul_violations :: int

record ledger_snapshot =
  ls_size :: int
  ls_capacity :: int
  ls_highWater :: int
  ls_committedLive :: int
  ls_allocated :: int
  ls_purged :: int
  ls_fullRefusals :: int
  ls_stateViolations :: int

definition new_use_ledger :: "int \<Rightarrow> int \<Rightarrow> string + use_ledger" where
  "new_use_ledger capacity maxUses =
     (if \<not> is_positive_safe_integer capacity then Inl ''ledger capacity must be a positive integer''
      else if \<not> is_positive_safe_integer maxUses then Inl ''maxUses must be a positive integer''
      else Inr \<lparr>ul_capacity = capacity, ul_maxUses = maxUses, ul_entries = [], ul_lastPurgeEpoch = 0,
        ul_highWater = 0, ul_allocated = 0, ul_purged = 0, ul_fullRefusals = 0, ul_violations = 0\<rparr>)"

definition aged_out :: "int \<Rightarrow> use_entry \<Rightarrow> bool" where
  "aged_out epoch e \<longleftrightarrow> epoch \<ge> ue_firstEpoch e + 2"

definition committed :: "string \<Rightarrow> int \<Rightarrow> use_ledger \<Rightarrow> int option" where
  "committed key epoch l = (case map_of (ul_entries l) key of
     None \<Rightarrow> None
   | Some e \<Rightarrow> if aged_out epoch e then None else Some (ue_committed e))"

definition purge :: "int \<Rightarrow> use_ledger \<Rightarrow> use_ledger" where
  "purge epoch l = l\<lparr>ul_lastPurgeEpoch := epoch,
     ul_entries := filter (\<lambda>(k, e). \<not> aged_out epoch e) (ul_entries l),
     ul_purged := ul_purged l + int (length (filter (\<lambda>(k, e). aged_out epoch e) (ul_entries l)))\<rparr>"

definition maybePurge :: "int \<Rightarrow> use_ledger \<Rightarrow> use_ledger" where
  "maybePurge epoch l = (if epoch \<noteq> ul_lastPurgeEpoch l then purge epoch l else l)"

definition ledger_size :: "use_ledger \<Rightarrow> int" where
  "ledger_size l = int (length (ul_entries l))"

definition canAllocate :: "int \<Rightarrow> use_ledger \<Rightarrow> use_ledger \<times> bool" where
  "canAllocate epoch l =
     (if ledger_size l < ul_capacity l then (l, True)
      else let l' = purge epoch l in
        if ledger_size l' < ul_capacity l' then (l', True)
        else (l'\<lparr>ul_fullRefusals := ul_fullRefusals l' + 1\<rparr>, False))"

definition allocate :: "string \<Rightarrow> int \<Rightarrow> use_ledger \<Rightarrow> use_ledger" where
  "allocate key epoch l =
     (let l' = l\<lparr>ul_entries := AList.update key \<lparr>ue_committed = 1, ue_firstEpoch = epoch\<rparr> (ul_entries l),
                 ul_allocated := ul_allocated l + 1\<rparr>
      in l'\<lparr>ul_highWater := max (ul_highWater l') (ledger_size l')\<rparr>)"

definition commit :: "string \<Rightarrow> int \<Rightarrow> use_ledger \<Rightarrow> use_ledger" where
  "commit key epoch l = (case map_of (ul_entries l) key of
     Some e \<Rightarrow>
       if \<not> aged_out epoch e then
         if ue_committed e \<ge> ul_maxUses l then l\<lparr>ul_violations := ul_violations l + 1\<rparr>
         else l\<lparr>ul_entries := AList.update key (e\<lparr>ue_committed := ue_committed e + 1\<rparr>) (ul_entries l)\<rparr>
       else allocate key epoch (l\<lparr>ul_entries := AList.delete key (ul_entries l), ul_purged := ul_purged l + 1\<rparr>)
   | None \<Rightarrow> allocate key epoch l)"

definition ledger_snapshot_of :: "use_ledger \<Rightarrow> ledger_snapshot" where
  "ledger_snapshot_of l = \<lparr>ls_size = ledger_size l, ls_capacity = ul_capacity l, ls_highWater = ul_highWater l,
     ls_committedLive = sum_list (map (ue_committed \<circ> snd) (ul_entries l)), ls_allocated = ul_allocated l,
     ls_purged = ul_purged l, ls_fullRefusals = ul_fullRefusals l, ls_stateViolations = ul_violations l\<rparr>"

definition requiredLedgerCapacity :: "int \<Rightarrow> real \<Rightarrow> int \<Rightarrow> int" where
  "requiredLedgerCapacity creditedCapacity creditedRefillPerSecond epochMs =
     creditedCapacity + \<lceil>creditedRefillPerSecond * 2 * real_of_int epochMs / 1000\<rceil> + 1"

subsection \<open>Invariant\<close>

definition ledger_inv :: "use_ledger \<Rightarrow> bool" where
  "ledger_inv l \<longleftrightarrow> 0 < ul_capacity l \<and> 0 < ul_maxUses l \<and> distinct (map fst (ul_entries l))
     \<and> (\<forall>(k, e) \<in> set (ul_entries l). 1 \<le> ue_committed e \<and> ue_committed e \<le> ul_maxUses l)"

lemma distinct_map_fst_filter: "distinct (map fst xs) \<Longrightarrow> distinct (map fst (filter P xs))"
  by (induction xs) auto

lemma purge_inv: "ledger_inv l \<Longrightarrow> ledger_inv (purge ep l)"
  by (auto simp: ledger_inv_def purge_def distinct_map_fst_filter)

lemma maybePurge_inv: "ledger_inv l \<Longrightarrow> ledger_inv (maybePurge ep l)"
  by (simp add: maybePurge_def purge_inv)

lemma canAllocate_inv: "ledger_inv l \<Longrightarrow> ledger_inv (fst (canAllocate ep l))"
  using purge_inv [of l ep] by (auto simp: canAllocate_def Let_def ledger_inv_def)

lemma allocate_inv: "ledger_inv l \<Longrightarrow> ledger_inv (allocate k ep l)"
  using set_update_subset [of k "\<lparr>ue_committed = 1, ue_firstEpoch = ep\<rparr>" "ul_entries l"]
  by (auto simp: ledger_inv_def allocate_def Let_def distinct_update)

lemma delete_inv: "ledger_inv l \<Longrightarrow> ledger_inv (l\<lparr>ul_entries := AList.delete k (ul_entries l), ul_purged := n\<rparr>)"
  using set_delete_subset [of k "ul_entries l"] by (auto simp: ledger_inv_def distinct_delete)

lemma commit_inv:
  assumes "ledger_inv l"
  shows "ledger_inv (commit k ep l)"
proof (cases "map_of (ul_entries l) k")
  case None
  then show ?thesis using assms by (simp add: commit_def allocate_inv)
next
  case (Some e)
  have e: "1 \<le> ue_committed e" using Some assms by (auto simp: ledger_inv_def dest: map_of_SomeD)
  have "ledger_inv (l\<lparr>ul_entries := AList.update k (e\<lparr>ue_committed := ue_committed e + 1\<rparr>) (ul_entries l)\<rparr>)"
    if "ue_committed e < ul_maxUses l"
    using that e assms set_update_subset [of k "e\<lparr>ue_committed := ue_committed e + 1\<rparr>" "ul_entries l"]
    by (auto simp: ledger_inv_def distinct_update)
  then show ?thesis using Some assms by (auto simp: commit_def allocate_inv delete_inv) (auto simp: ledger_inv_def)
qed

subsection \<open>What the operations do to the uses of a token\<close>

lemma map_of_purge:
  "ledger_inv l \<Longrightarrow> map_of (ul_entries (purge ep l)) k =
     (case map_of (ul_entries l) k of None \<Rightarrow> None | Some e \<Rightarrow> if aged_out ep e then None else Some e)"
  using map_of_filter_val [of "ul_entries l" "\<lambda>k e. \<not> aged_out ep e" k]
  by (simp add: purge_def ledger_inv_def jsmap_ok_def split: option.splits)

lemma committed_purge:
  assumes "ledger_inv l" "ep \<le> ep'"
  shows "committed k ep' (purge ep l) = committed k ep' l"
  using assms by (auto simp: committed_def map_of_purge aged_out_def split: option.splits)

lemma committed_maybePurge:
  "ledger_inv l \<Longrightarrow> ep \<le> ep' \<Longrightarrow> committed k ep' (maybePurge ep l) = committed k ep' l"
  by (simp add: maybePurge_def committed_purge)

lemma committed_canAllocate:
  "ledger_inv l \<Longrightarrow> ep \<le> ep' \<Longrightarrow> committed k ep' (fst (canAllocate ep l)) = committed k ep' l"
  using committed_purge [of l ep ep' k] by (auto simp: canAllocate_def Let_def committed_def)

lemma committed_commit_same:
  assumes "ledger_inv l"
  shows "committed k ep (commit k ep l) =
    (case committed k ep l of None \<Rightarrow> Some 1
     | Some n \<Rightarrow> Some (if n \<ge> ul_maxUses l then n else n + 1))"
  using assms
  by (auto simp: committed_def commit_def allocate_def Let_def aged_out_def update_conv' delete_conv'
      split: option.splits)

lemma committed_commit_other:
  "k \<noteq> k' \<Longrightarrow> committed k' ep' (commit k ep l) = committed k' ep' l"
  by (auto simp: committed_def commit_def allocate_def Let_def update_conv' delete_conv'
      split: option.splits)

end
