(* ===== verification/Credit_Filter.thy ===== *)
theory Credit_Filter
  imports Prelude "HOL-Library.Word"
begin

text \<open>
  \<^verbatim>\<open>CreditFilter\<close> (\<^verbatim>\<open>defense/core/credit-filter.ts\<close>): a two-generation Bloom filter over keyed digests.
  The arrays are lists of 8-bit words with the source's byte and bit arithmetic, the hash positions are
  32-bit unsigned arithmetic. The keyed digest (HMAC-SHA256) is computed by the caller; a digest is its
  bytes. The lemmas show that a byte array implements a set of bit positions, that the counters are
  the population counts, and, through the locale \<open>generational_filter\<close>, that a digest inserted in epoch
  \<open>E\<close> is found until the epoch reaches \<open>E + 2\<close>, whatever operations come in between.
\<close>

unbundle bit_operations_syntax

record credit_filter =
  cf_bits :: int
  cf_hashes :: int
  cf_epochMs :: int
  cf_t0 :: instant
  cf_arrays :: "8 word list list"
  cf_counts :: "int list"
  cf_epoch :: int
  cf_inserts :: int
  cf_lookups :: int
  cf_hits :: int
  cf_rotations :: int

record filter_stats =
  fs_epoch :: int
  fs_bitsPerGeneration :: int
  fs_hashes :: int
  fs_popcount :: "int \<times> int"
  fs_fillRatio :: "real \<times> real"
  fs_fprEstimate :: real
  fs_inserts :: int
  fs_lookups :: int
  fs_hits :: int
  fs_rotations :: int

definition new_filter :: "int \<Rightarrow> int \<Rightarrow> int \<Rightarrow> instant \<Rightarrow> string + credit_filter" where
  "new_filter bits hashes epochMs now =
     (if \<not> is_safe_integer bits \<or> bits < 64 \<or> bits > 2 ^ 30 \<or> bits AND (bits - 1) \<noteq> 0 then
        Inl ''bits must be a power of two between 64 and 2^30''
      else if \<not> is_safe_integer hashes \<or> hashes < 1 \<or> hashes > 16 then
        Inl ''hashes must be an integer between 1 and 16''
      else if \<not> is_positive_safe_integer epochMs then Inl ''epochMs must be a positive integer''
      else Inr \<lparr>cf_bits = bits, cf_hashes = hashes, cf_epochMs = epochMs, cf_t0 = now,
        cf_arrays = [replicate (nat (bits div 8)) 0, replicate (nat (bits div 8)) 0],
        cf_counts = [0, 0], cf_epoch = 0, cf_inserts = 0, cf_lookups = 0, cf_hits = 0, cf_rotations = 0\<rparr>)"

definition epochNow :: "instant \<Rightarrow> credit_filter \<Rightarrow> int" where
  "epochNow now f = max 0 \<lfloor>(now - cf_t0 f) / real_of_int (cf_epochMs f)\<rfloor>"

definition slot_of :: "int \<Rightarrow> nat" where
  "slot_of epoch = nat (epoch mod 2)"

definition zero_slot :: "int \<Rightarrow> credit_filter \<Rightarrow> credit_filter" where
  "zero_slot entering f =
     (let slot = slot_of entering in
      f\<lparr>cf_arrays := (cf_arrays f)[slot := map (\<lambda>_. 0) (cf_arrays f ! slot)],
        cf_counts := (cf_counts f)[slot := 0], cf_rotations := cf_rotations f + 1\<rparr>)"

definition advance :: "instant \<Rightarrow> credit_filter \<Rightarrow> credit_filter" where
  "advance now f =
     (let target = epochNow now f in
      if target > cf_epoch f then
        let steps = min (target - cf_epoch f) 2;
            f' = fold (\<lambda>step. zero_slot (target - steps + step)) [1 .. steps] f
        in f'\<lparr>cf_epoch := target\<rparr>
      else f)"

subsection \<open>Hash positions and bit tests\<close>

definition byte_at :: "bytes \<Rightarrow> nat \<Rightarrow> nat" where
  "byte_at d i = (if i < length d then of_char (d ! i) else 0)"

definition readUInt32LE :: "bytes \<Rightarrow> nat \<Rightarrow> 32 word" where
  "readUInt32LE d off = of_nat (byte_at d off + 256 * byte_at d (off + 1)
     + 65536 * byte_at d (off + 2) + 16777216 * byte_at d (off + 3))"

definition index_bit :: "credit_filter \<Rightarrow> bytes \<Rightarrow> nat \<Rightarrow> nat" where
  "index_bit f d i =
     (let h1 = readUInt32LE d 0; h2 = readUInt32LE d 4 OR 1; w = word_of_nat i :: 32 word in
      unat ((h1 + w * h2 + w * w) AND word_of_int (cf_bits f - 1)))"

text \<open>A typed-array read outside the array is \<^verbatim>\<open>undefined\<close>, which \<^verbatim>\<open>&\<close> reads as 0; a write is ignored.\<close>

definition u8_at :: "8 word list \<Rightarrow> nat \<Rightarrow> 8 word" where
  "u8_at a i = (if i < length a then a ! i else 0)"

definition bit_flag :: "nat \<Rightarrow> 8 word" where
  "bit_flag b = push_bit (b mod 8) 1"

definition test_bit8 :: "8 word list \<Rightarrow> nat \<Rightarrow> bool" where
  "test_bit8 a b \<longleftrightarrow> u8_at a (b div 8) AND bit_flag b \<noteq> 0"

definition test_slot :: "credit_filter \<Rightarrow> nat \<Rightarrow> bytes \<Rightarrow> bool" where
  "test_slot f slot d \<longleftrightarrow> list_all (\<lambda>i. test_bit8 (cf_arrays f ! slot) (index_bit f d i)) [0 ..< nat (cf_hashes f)]"

definition has :: "instant \<Rightarrow> bytes \<Rightarrow> credit_filter \<Rightarrow> credit_filter \<times> bool" where
  "has now d f0 =
     (let f = advance now f0; epoch = cf_epoch f;
          hit = (test_slot f (slot_of epoch) d \<or> (epoch \<ge> 1 \<and> test_slot f (slot_of (epoch - 1)) d)) in
      (f\<lparr>cf_lookups := cf_lookups f + 1, cf_hits := cf_hits f + (if hit then 1 else 0)\<rparr>, hit))"

definition hasInActive :: "instant \<Rightarrow> bytes \<Rightarrow> credit_filter \<Rightarrow> credit_filter \<times> bool" where
  "hasInActive now d f0 = (let f = advance now f0 in (f, test_slot f (slot_of (cf_epoch f)) d))"

text \<open>The body of the insertion loop on one array with its counter.\<close>

definition set_bit8 :: "nat \<Rightarrow> 8 word list \<times> int \<Rightarrow> 8 word list \<times> int" where
  "set_bit8 b = (\<lambda>(a, n).
     if u8_at a (b div 8) AND bit_flag b = 0
     then (a[b div 8 := u8_at a (b div 8) OR bit_flag b], n + 1) else (a, n))"

definition insert_into :: "credit_filter \<Rightarrow> nat \<Rightarrow> bytes \<Rightarrow> 8 word list \<times> int" where
  "insert_into f slot d =
     fold set_bit8 (map (index_bit f d) [0 ..< nat (cf_hashes f)]) (cf_arrays f ! slot, cf_counts f ! slot)"

definition insert_digest :: "instant \<Rightarrow> bytes \<Rightarrow> credit_filter \<Rightarrow> credit_filter" where
  "insert_digest now d f0 =
     (let f = advance now f0; slot = slot_of (cf_epoch f); (a, n) = insert_into f slot d in
      f\<lparr>cf_arrays := (cf_arrays f)[slot := a], cf_counts := (cf_counts f)[slot := n],
        cf_inserts := cf_inserts f + 1\<rparr>)"

definition filter_stats_of :: "instant \<Rightarrow> credit_filter \<Rightarrow> credit_filter \<times> filter_stats" where
  "filter_stats_of now f0 =
     (let f = advance now f0; epoch = cf_epoch f;
          active = cf_counts f ! slot_of epoch;
          previous = (if epoch \<ge> 1 then cf_counts f ! slot_of (epoch - 1) else 0);
          fill = (\<lambda>count. real_of_int count / real_of_int (cf_bits f));
          fpr = (\<lambda>count. fill count ^ nat (cf_hashes f)) in
      (f, \<lparr>fs_epoch = epoch, fs_bitsPerGeneration = cf_bits f, fs_hashes = cf_hashes f,
        fs_popcount = (active, previous), fs_fillRatio = (fill active, fill previous),
        fs_fprEstimate = 1 - (1 - fpr active) * (1 - fpr previous), fs_inserts = cf_inserts f,
        fs_lookups = cf_lookups f, fs_hits = cf_hits f, fs_rotations = cf_rotations f\<rparr>))"

subsection \<open>A byte array is a set of bit positions\<close>

definition bits_of :: "8 word list \<Rightarrow> nat set" where
  "bits_of a = {b. b < 8 * length a \<and> test_bit8 a b}"

lemma test_bit8_iff: "test_bit8 a b \<longleftrightarrow> b div 8 < length a \<and> bit (a ! (b div 8)) (b mod 8)"
  by (auto simp: test_bit8_def u8_at_def bit_flag_def bit_iff_and_push_bit_not_eq_0)

lemma bits_of_iff: "b \<in> bits_of a \<longleftrightarrow> test_bit8 a b"
  by (auto simp: bits_of_def test_bit8_iff)

lemma bit_or_flag: "n < 8 \<Longrightarrow> bit (w OR bit_flag b) n \<longleftrightarrow> bit w n \<or> n = b mod 8"
  for w :: "8 word"
  by (auto simp: bit_or_iff bit_flag_def bit_exp_iff)

lemma test_set_bit8:
  assumes "b < 8 * length (fst an)"
  shows "test_bit8 (fst (set_bit8 b an)) c \<longleftrightarrow> test_bit8 (fst an) c \<or> c = b"
proof -
  obtain a n where an: "an = (a, n)" by (cases an)
  have b: "b div 8 < length a" using assms an by simp
  have eq: "c div 8 = b div 8 \<Longrightarrow> c mod 8 = b mod 8 \<longleftrightarrow> c = b"
    by (metis div_mult_mod_eq)
  show ?thesis
  proof (cases "test_bit8 a b")
    case True
    then show ?thesis by (auto simp: an set_bit8_def test_bit8_def)
  next
    case False
    then have s: "set_bit8 b (a, n) = (a[b div 8 := a ! (b div 8) OR bit_flag b], n + 1)"
      using b by (simp add: set_bit8_def test_bit8_def u8_at_def)
    show ?thesis
      using b eq by (auto simp: s an test_bit8_iff bit_or_flag nth_list_update)
  qed
qed

lemma set_bit8_bits: "b < 8 * length (fst an) \<Longrightarrow> bits_of (fst (set_bit8 b an)) = insert b (bits_of (fst an))"
  by (auto simp: bits_of_iff test_set_bit8)

lemma set_bit8_length [simp]: "length (fst (set_bit8 b an)) = length (fst an)"
  by (cases an) (simp add: set_bit8_def)

lemma finite_bits_of [simp]: "finite (bits_of a)"
  by (simp add: bits_of_def)

lemma set_bit8_count:
  assumes "b < 8 * length (fst an)" "snd an = int (card (bits_of (fst an)))"
  shows "snd (set_bit8 b an) = int (card (bits_of (fst (set_bit8 b an))))"
proof -
  have "snd (set_bit8 b an) = snd an + (if test_bit8 (fst an) b then 0 else 1)"
    by (cases an) (auto simp: set_bit8_def test_bit8_def)
  then show ?thesis
    using assms by (auto simp: set_bit8_bits card_insert_if bits_of_iff)
qed

lemma fold_set_bit8:
  assumes "\<forall>b \<in> set bs. b < 8 * length (fst an)" "snd an = int (card (bits_of (fst an)))"
  shows "bits_of (fst (fold set_bit8 bs an)) = set bs \<union> bits_of (fst an)
    \<and> length (fst (fold set_bit8 bs an)) = length (fst an)
    \<and> snd (fold set_bit8 bs an) = int (card (bits_of (fst (fold set_bit8 bs an))))"
  using assms
proof (induction bs arbitrary: an)
  case (Cons b bs)
  have b: "b < 8 * length (fst an)" using Cons.prems by simp
  have "\<forall>c \<in> set bs. c < 8 * length (fst (set_bit8 b an))" using Cons.prems by simp
  from Cons.IH [OF this set_bit8_count [OF b Cons.prems(2)]] show ?case
    by (simp add: set_bit8_bits [OF b])
qed simp

lemma bits_of_zero [simp]: "bits_of (map (\<lambda>_. 0) a) = {}" "bits_of (replicate n 0) = {}"
  by (auto simp: bits_of_def test_bit8_iff)

subsection \<open>Invariant and abstraction\<close>

definition filter_inv :: "credit_filter \<Rightarrow> bool" where
  "filter_inv f \<longleftrightarrow> length (cf_arrays f) = 2 \<and> length (cf_counts f) = 2
     \<and> 64 \<le> cf_bits f \<and> cf_bits f \<le> 2 ^ 30 \<and> 1 \<le> cf_hashes f \<and> 0 < cf_epochMs f \<and> 0 \<le> cf_epoch f
     \<and> (\<forall>s < 2. 8 * int (length (cf_arrays f ! s)) = cf_bits f
          \<and> cf_counts f ! s = int (card (bits_of (cf_arrays f ! s))))"

text \<open>The positions of a digest, and the generation of an epoch as the set of digests it answers for.\<close>

definition positions :: "credit_filter \<Rightarrow> bytes \<Rightarrow> nat set" where
  "positions f d = index_bit f d ` {0 ..< nat (cf_hashes f)}"

definition generation :: "credit_filter \<Rightarrow> int \<Rightarrow> bytes set" where
  "generation f epoch = {d. positions f d \<subseteq> bits_of (cf_arrays f ! slot_of epoch)}"

lemma slot_of_less [simp]: "slot_of e < 2"
  unfolding slot_of_def by (simp add: nat_less_iff)

lemma slot_of_eq_iff: "slot_of e = slot_of g \<longleftrightarrow> e mod 2 = g mod 2"
  unfolding slot_of_def by (metis eq_nat_nat_iff pos_mod_sign zero_less_numeral)

lemma slot_of_distinct [simp]:
  "slot_of (e - 1) \<noteq> slot_of e" "slot_of e \<noteq> slot_of (e - 1)"
  "slot_of (e + 1) \<noteq> slot_of e" "slot_of e \<noteq> slot_of (e + 1)"
  unfolding slot_of_eq_iff by presburger+

lemma test_slot_iff: "test_slot f (slot_of e) d \<longleftrightarrow> d \<in> generation f e"
  by (auto simp: test_slot_def generation_def positions_def list_all_iff bits_of_iff)

lemma and_mask_le:
  fixes w :: "32 word"
  assumes "0 < n" "n \<le> 2 ^ 30"
  shows "int (unat (w AND word_of_int (n - 1))) < n"
proof -
  have u: "uint (word_of_int m :: 32 word) = m" if "0 \<le> m" "m < 2 ^ 32" for m :: int
    using that by (simp add: unsigned_of_int take_bit_int_eq_self)
  have "uint (word_of_int (n - 1) :: 32 word) = n - 1" by (rule u) (use assms in simp_all)
  moreover have "uint (w AND word_of_int (n - 1)) \<le> uint (word_of_int (n - 1) :: 32 word)"
    unfolding uint_and by (rule AND_upper2) simp
  ultimately show ?thesis by simp
qed

lemma index_bit_bound: "filter_inv f \<Longrightarrow> s < 2 \<Longrightarrow> index_bit f d i < 8 * length (cf_arrays f ! s)"
proof -
  assume inv: "filter_inv f" and s: "s < 2"
  have "int (index_bit f d i) < cf_bits f"
    unfolding index_bit_def Let_def using inv by (intro and_mask_le) (auto simp: filter_inv_def)
  moreover have "cf_bits f = int (8 * length (cf_arrays f ! s))" using inv s by (simp add: filter_inv_def)
  ultimately show ?thesis by linarith
qed

subsection \<open>Advancing the epoch\<close>

lemma zero_slot_fields [simp]:
  "cf_bits (zero_slot e f) = cf_bits f" "cf_hashes (zero_slot e f) = cf_hashes f"
  "cf_epochMs (zero_slot e f) = cf_epochMs f" "cf_t0 (zero_slot e f) = cf_t0 f"
  "cf_epoch (zero_slot e f) = cf_epoch f"
  by (simp_all add: zero_slot_def Let_def)

lemma zero_slot_inv: "filter_inv f \<Longrightarrow> filter_inv (zero_slot e f)"
  by (auto simp: filter_inv_def zero_slot_def Let_def nth_list_update)

lemma positions_cong: "cf_bits g = cf_bits f \<Longrightarrow> cf_hashes g = cf_hashes f \<Longrightarrow> positions g d = positions f d"
  by (simp add: positions_def index_bit_def)

lemma zero_slot_other: "slot_of e' \<noteq> slot_of e \<Longrightarrow> cf_arrays (zero_slot e f) ! slot_of e' = cf_arrays f ! slot_of e'"
  by (simp add: zero_slot_def Let_def)

lemma zero_slot_same:
  "filter_inv f \<Longrightarrow> bits_of (cf_arrays (zero_slot e f) ! slot_of e) = {}"
  by (simp add: zero_slot_def Let_def filter_inv_def)

text \<open>Advancing is: nothing, one zeroed slot, or two.\<close>

lemma advance_cases:
  "advance now f =
     (if epochNow now f \<le> cf_epoch f then f
      else if epochNow now f = cf_epoch f + 1 then (zero_slot (epochNow now f) f)\<lparr>cf_epoch := epochNow now f\<rparr>
      else (zero_slot (epochNow now f) (zero_slot (epochNow now f - 1) f))\<lparr>cf_epoch := epochNow now f\<rparr>)"
proof -
  have "epochNow now f > cf_epoch f + 1 \<Longrightarrow> min (epochNow now f - cf_epoch f) 2 = 2" by simp
  moreover have "[1 .. 2 :: int] = [1, 2]" by (simp add: upto_rec1)
  ultimately show ?thesis
    by (auto simp: advance_def Let_def algebra_simps)
qed

lemma epoch_field_inv: "filter_inv f \<Longrightarrow> 0 \<le> e \<Longrightarrow> filter_inv (f\<lparr>cf_epoch := e\<rparr>)"
  by (simp add: filter_inv_def)

lemma epochNow_nonneg [simp]: "0 \<le> epochNow now f"
  by (simp add: epochNow_def)

lemma advance_inv: "filter_inv f \<Longrightarrow> filter_inv (advance now f)"
proof -
  assume inv: "filter_inv f"
  then have "0 \<le> cf_epoch f" by (simp add: filter_inv_def)
  with inv show ?thesis
    by (auto simp: advance_cases intro!: epoch_field_inv zero_slot_inv)
qed

lemma advance_fields [simp]:
  "cf_bits (advance now f) = cf_bits f" "cf_hashes (advance now f) = cf_hashes f"
  "cf_epochMs (advance now f) = cf_epochMs f" "cf_t0 (advance now f) = cf_t0 f"
  "cf_epoch (advance now f) = max (cf_epoch f) (epochNow now f)"
  by (simp_all add: advance_cases)

lemma advance_positions [simp]: "positions (advance now f) d = positions f d"
  by (rule positions_cong) simp_all

lemma advance_keeps:
  assumes "cf_epoch (advance now f) - 1 \<le> g" "g \<le> cf_epoch f"
  shows "cf_arrays (advance now f) ! slot_of g = cf_arrays f ! slot_of g"
proof -
  have "epochNow now f \<le> cf_epoch f \<or> epochNow now f = cf_epoch f + 1 \<and> g = cf_epoch f"
    using assms by auto
  then show ?thesis by (auto simp: advance_cases zero_slot_other)
qed

lemma advance_fresh_empty:
  assumes "filter_inv f" "cf_epoch f < g" "g \<le> cf_epoch (advance now f)" "cf_epoch (advance now f) - 1 \<le> g"
  shows "bits_of (cf_arrays (advance now f) ! slot_of g) = {}"
proof -
  let ?t = "epochNow now f"
  have t: "cf_epoch f < ?t" "g = ?t \<or> (g = ?t - 1 \<and> ?t \<noteq> cf_epoch f + 1)"
    using assms(2-4) by auto
  have "slot_of (?t - 1) \<noteq> slot_of ?t" by simp
  with t show ?thesis
    by (auto simp: advance_cases zero_slot_same zero_slot_other zero_slot_inv assms(1))
qed

subsection \<open>Insertion and lookup\<close>

lemma insert_into_spec:
  assumes "filter_inv f" "slot < 2"
  shows "bits_of (fst (insert_into f slot d)) = positions f d \<union> bits_of (cf_arrays f ! slot)"
    and "length (fst (insert_into f slot d)) = length (cf_arrays f ! slot)"
    and "snd (insert_into f slot d) = int (card (bits_of (fst (insert_into f slot d))))"
proof -
  let ?bs = "map (index_bit f d) [0 ..< nat (cf_hashes f)]" and ?an = "(cf_arrays f ! slot, cf_counts f ! slot)"
  have "\<forall>b \<in> set ?bs. b < 8 * length (fst ?an)" using index_bit_bound [OF assms] by auto
  moreover have "snd ?an = int (card (bits_of (fst ?an)))" using assms by (simp add: filter_inv_def)
  ultimately have spec: "bits_of (fst (fold set_bit8 ?bs ?an)) = set ?bs \<union> bits_of (fst ?an)
    \<and> length (fst (fold set_bit8 ?bs ?an)) = length (fst ?an)
    \<and> snd (fold set_bit8 ?bs ?an) = int (card (bits_of (fst (fold set_bit8 ?bs ?an))))"
    by (rule fold_set_bit8)
  have "set ?bs = positions f d" by (simp add: positions_def)
  with spec show "bits_of (fst (insert_into f slot d)) = positions f d \<union> bits_of (cf_arrays f ! slot)"
    "length (fst (insert_into f slot d)) = length (cf_arrays f ! slot)"
    "snd (insert_into f slot d) = int (card (bits_of (fst (insert_into f slot d))))"
    by (simp_all add: insert_into_def)
qed

lemma insert_digest_eq:
  "insert_digest now d f = (let f1 = advance now f; s = slot_of (cf_epoch f1) in
     f1\<lparr>cf_arrays := (cf_arrays f1)[s := fst (insert_into f1 s d)],
       cf_counts := (cf_counts f1)[s := snd (insert_into f1 s d)], cf_inserts := cf_inserts f1 + 1\<rparr>)"
  by (simp add: insert_digest_def Let_def case_prod_beta)

lemma insert_digest_fields [simp]:
  "cf_bits (insert_digest now d f) = cf_bits f" "cf_hashes (insert_digest now d f) = cf_hashes f"
  "cf_epoch (insert_digest now d f) = cf_epoch (advance now f)"
  "cf_epochMs (insert_digest now d f) = cf_epochMs f" "cf_t0 (insert_digest now d f) = cf_t0 f"
  by (simp_all add: insert_digest_def Let_def case_prod_beta)

lemma insert_digest_inv:
  assumes "filter_inv f"
  shows "filter_inv (insert_digest now d f)"
proof -
  have inv: "filter_inv (advance now f)" by (rule advance_inv [OF assms])
  note spec = insert_into_spec [OF inv slot_of_less [of "cf_epoch (advance now f)"], of d]
  show ?thesis
    using inv spec unfolding filter_inv_def insert_digest_eq Let_def by (simp add: nth_list_update)
qed

lemma insert_digest_bits:
  assumes "filter_inv f"
  shows "bits_of (cf_arrays (insert_digest now d f) ! slot_of (cf_epoch (advance now f)))
      = positions f d \<union> bits_of (cf_arrays (advance now f) ! slot_of (cf_epoch (advance now f)))"
    and "slot_of g \<noteq> slot_of (cf_epoch (advance now f)) \<Longrightarrow>
      cf_arrays (insert_digest now d f) ! slot_of g = cf_arrays (advance now f) ! slot_of g"
proof -
  have inv: "filter_inv (advance now f)" by (rule advance_inv [OF assms])
  then have len: "length (cf_arrays (advance now f)) = 2" by (simp add: filter_inv_def)
  show "bits_of (cf_arrays (insert_digest now d f) ! slot_of (cf_epoch (advance now f)))
      = positions f d \<union> bits_of (cf_arrays (advance now f) ! slot_of (cf_epoch (advance now f)))"
    using insert_into_spec(1) [OF inv slot_of_less] len by (simp add: insert_digest_eq Let_def)
  show "slot_of g \<noteq> slot_of (cf_epoch (advance now f)) \<Longrightarrow>
      cf_arrays (insert_digest now d f) ! slot_of g = cf_arrays (advance now f) ! slot_of g"
    by (simp add: insert_digest_eq Let_def)
qed

subsection \<open>The contract of a generational filter\<close>

text \<open>An operation of a client on the filter: advance, insert or look up, each at a clock reading.\<close>

datatype filter_op = FAdvance instant | FInsert instant bytes | FHas instant bytes | FActive instant bytes

text \<open>What a client of the filter relies on. \<open>gen s e\<close> is what the generation of epoch \<open>e\<close> answers for;
  only the generations of the current and the previous epoch are meaningful.\<close>

locale generational_filter =
  fixes inv :: "'s \<Rightarrow> bool"
    and epoch :: "'s \<Rightarrow> int"
    and gen :: "'s \<Rightarrow> int \<Rightarrow> bytes set"
    and apply_filter_op :: "filter_op \<Rightarrow> 's \<Rightarrow> 's"
    and lookup :: "instant \<Rightarrow> bytes \<Rightarrow> 's \<Rightarrow> bool"
  assumes op_inv: "inv s \<Longrightarrow> inv (apply_filter_op op s)"
    and op_epoch: "inv s \<Longrightarrow> epoch s \<le> epoch (apply_filter_op op s)"
    and op_keeps: "inv s \<Longrightarrow> d \<in> gen s g \<Longrightarrow> g \<le> epoch s \<Longrightarrow> epoch (apply_filter_op op s) \<le> g + 1
        \<Longrightarrow> d \<in> gen (apply_filter_op op s) g"
    and insert_in: "inv s \<Longrightarrow> d \<in> gen (apply_filter_op (FInsert t d) s) (epoch (apply_filter_op (FInsert t d) s))"
    and lookup_iff: "inv s \<Longrightarrow> lookup t d s \<longleftrightarrow>
        (let s' = apply_filter_op (FAdvance t) s in
         d \<in> gen s' (epoch s') \<or> (1 \<le> epoch s' \<and> d \<in> gen s' (epoch s' - 1)))"
    and epoch_nonneg: "inv s \<Longrightarrow> 0 \<le> epoch s"
begin

lemma fold_inv: "inv s \<Longrightarrow> inv (fold apply_filter_op ops s)"
  by (induction ops arbitrary: s) (simp_all add: op_inv)

lemma fold_epoch: "inv s \<Longrightarrow> epoch s \<le> epoch (fold apply_filter_op ops s)"
proof (induction ops arbitrary: s)
  case (Cons op ops)
  from Cons.IH [OF op_inv [OF Cons.prems]] op_epoch [OF Cons.prems] show ?case
    by (auto intro: order_trans)
qed simp

lemma fold_keeps:
  assumes "inv s" "d \<in> gen s g" "g \<le> epoch s" "epoch (fold apply_filter_op ops s) \<le> g + 1"
  shows "d \<in> gen (fold apply_filter_op ops s) g"
  using assms
proof (induction ops arbitrary: s)
  case (Cons op ops)
  let ?s = "apply_filter_op op s"
  have inv: "inv ?s" by (rule op_inv [OF Cons.prems(1)])
  have "epoch ?s \<le> g + 1" using fold_epoch [OF inv, of ops] Cons.prems(4) by simp
  then have "d \<in> gen ?s g" by (rule op_keeps [OF Cons.prems(1-3)])
  moreover have "g \<le> epoch ?s" using Cons.prems(3) op_epoch [OF Cons.prems(1)] by (rule order_trans)
  ultimately show ?case using Cons.IH [OF inv] Cons.prems(4) by simp
qed simp

text \<open>No false negative inside the window.\<close>

lemma found_within_window:
  assumes "inv s" and ins: "s1 = apply_filter_op (FInsert t d) s"
    and window: "epoch (apply_filter_op (FAdvance now) (fold apply_filter_op ops s1)) \<le> epoch s1 + 1"
  shows "lookup now d (fold apply_filter_op ops s1)"
proof -
  have inv1: "inv s1" unfolding ins by (rule op_inv [OF assms(1)])
  let ?all = "ops @ [FAdvance now]"
  let ?s = "fold apply_filter_op ?all s1"
  have in1: "d \<in> gen s1 (epoch s1)" unfolding ins by (rule insert_in [OF assms(1)])
  have win: "epoch ?s \<le> epoch s1 + 1" using window by simp
  have kept: "d \<in> gen ?s (epoch s1)" by (rule fold_keeps [OF inv1 in1 order_refl win])
  have later: "epoch s1 \<le> epoch ?s" by (rule fold_epoch [OF inv1])
  have hit: "d \<in> gen ?s (epoch ?s) \<or> (1 \<le> epoch ?s \<and> d \<in> gen ?s (epoch ?s - 1))"
  proof (cases "epoch ?s = epoch s1")
    case False
    then have "epoch s1 = epoch ?s - 1" using win later by linarith
    then show ?thesis using kept epoch_nonneg [OF inv1] by simp
  qed (use kept in simp)
  then show ?thesis
    using lookup_iff [OF fold_inv [OF inv1], of now d ops] by (simp add: Let_def)
qed

end

definition apply_filter :: "filter_op \<Rightarrow> credit_filter \<Rightarrow> credit_filter" where
  "apply_filter op f = (case op of
     FAdvance t \<Rightarrow> advance t f
   | FInsert t d \<Rightarrow> insert_digest t d f
   | FHas t d \<Rightarrow> fst (has t d f)
   | FActive t d \<Rightarrow> fst (hasInActive t d f))"

lemma has_state: "fst (has t d f) = (advance t f)\<lparr>cf_lookups := cf_lookups (advance t f) + 1,
    cf_hits := cf_hits (advance t f) + (if snd (has t d f) then 1 else 0)\<rparr>"
  by (simp add: has_def Let_def)

lemma hasInActive_state: "fst (hasInActive t d f) = advance t f"
  by (simp add: hasInActive_def Let_def)

lemma counters_inv [simp]: "filter_inv (f\<lparr>cf_lookups := a, cf_hits := b\<rparr>) \<longleftrightarrow> filter_inv f"
  by (simp add: filter_inv_def)

lemma apply_filter_epoch:
  "\<exists>t. cf_epoch (apply_filter op f) = cf_epoch (advance t f)
     \<and> cf_bits (apply_filter op f) = cf_bits f \<and> cf_hashes (apply_filter op f) = cf_hashes f"
  by (cases op) (auto simp: apply_filter_def has_state hasInActive_state)

lemma apply_filter_inv: "filter_inv f \<Longrightarrow> filter_inv (apply_filter op f)"
  by (cases op) (simp_all add: apply_filter_def advance_inv insert_digest_inv has_state hasInActive_state)

lemma generation_cong:
  "cf_bits g = cf_bits f \<Longrightarrow> cf_hashes g = cf_hashes f
   \<Longrightarrow> bits_of (cf_arrays f ! slot_of e) \<subseteq> bits_of (cf_arrays g ! slot_of e)
   \<Longrightarrow> generation f e \<subseteq> generation g e"
  using positions_cong [of g f] by (simp add: generation_def) blast

lemma advance_generation:
  "cf_epoch (advance t f) - 1 \<le> g \<Longrightarrow> g \<le> cf_epoch f \<Longrightarrow> generation (advance t f) g = generation f g"
  using advance_keeps [of t f g] by (simp add: generation_def)

lemma apply_filter_keeps:
  assumes "filter_inv f" "d \<in> generation f g" "g \<le> cf_epoch f" "cf_epoch (apply_filter op f) \<le> g + 1"
  shows "d \<in> generation (apply_filter op f) g"
proof -
  obtain t where t: "generation (advance t f) g \<subseteq> generation (apply_filter op f) g"
    "cf_epoch (apply_filter op f) = cf_epoch (advance t f)"
  proof (cases op)
    case (FInsert t x)
    have "bits_of (cf_arrays (advance t f) ! slot_of g) \<subseteq> bits_of (cf_arrays (insert_digest t x f) ! slot_of g)"
    proof (cases "slot_of g = slot_of (cf_epoch (advance t f))")
      case True
      then show ?thesis using insert_digest_bits(1) [OF assms(1), of t x] by (simp only:) blast
    next
      case False
      then show ?thesis using insert_digest_bits(2) [OF assms(1), where g = g and now = t and d = x] by (simp del: advance_fields)
    qed
    then have "generation (advance t f) g \<subseteq> generation (apply_filter op f) g"
      using FInsert by (intro generation_cong) (simp_all add: apply_filter_def)
    then show ?thesis using that [of t] FInsert by (simp add: apply_filter_def)
  next
    case (FHas t x)
    then show ?thesis using that [of t]
      by (simp add: apply_filter_def has_state generation_def positions_def index_bit_def)
  qed (use that in \<open>auto simp: apply_filter_def hasInActive_state\<close>)
  have "cf_epoch (advance t f) - 1 \<le> g" using assms(4) t(2) by linarith
  from advance_generation [OF this assms(3)] t(1) assms(2) show ?thesis by auto
qed

interpretation bloom: generational_filter filter_inv cf_epoch generation apply_filter
    "\<lambda>t d f. snd (has t d f)"
proof unfold_locales
  fix f op d g t
  show "filter_inv f \<Longrightarrow> filter_inv (apply_filter op f)" by (rule apply_filter_inv)
  show "cf_epoch f \<le> cf_epoch (apply_filter op f)" using apply_filter_epoch [of op f] by auto
  show "filter_inv f \<Longrightarrow> d \<in> generation f g \<Longrightarrow> g \<le> cf_epoch f \<Longrightarrow> cf_epoch (apply_filter op f) \<le> g + 1
      \<Longrightarrow> d \<in> generation (apply_filter op f) g" by (rule apply_filter_keeps)
  show "filter_inv f \<Longrightarrow> 0 \<le> cf_epoch f" by (simp add: filter_inv_def)
  show "d \<in> generation (apply_filter (FInsert t d) f) (cf_epoch (apply_filter (FInsert t d) f))"
    if "filter_inv f"
    using insert_digest_bits(1) [OF that, of t d] positions_cong [of "insert_digest t d f" f d]
    by (simp add: apply_filter_def generation_def del: advance_fields)
  show "snd (has t d f) \<longleftrightarrow> (let s' = apply_filter (FAdvance t) f in
      d \<in> generation s' (cf_epoch s') \<or> (1 \<le> cf_epoch s' \<and> d \<in> generation s' (cf_epoch s' - 1)))"
    by (simp add: has_def Let_def apply_filter_def test_slot_iff)
qed

subsection \<open>Properties\<close>

text \<open>C40. No false negatives inside the credit window: a digest enrolled when the epoch was \<open>E\<close> is found by
  every later lookup made before the epoch reaches \<open>E + 2\<close>, whatever insertions, lookups and rotations
  happen in between and whatever the clock does.\<close>

theorem no_false_negative_in_window:
  assumes "filter_inv f" "f1 = insert_digest t d f"
    and "max (cf_epoch (fold apply_filter ops f1)) (epochNow now (fold apply_filter ops f1)) \<le> cf_epoch f1 + 1"
  shows "snd (has now d (fold apply_filter ops f1))"
  using bloom.found_within_window [OF assms(1), of f1 t d now ops] assms(2,3)
  by (simp add: apply_filter_def)

text \<open>Two epochs later nothing of a generation is left: once the epoch has advanced by two or more
  from the current one, a lookup finds no digest at all that was enrolled before, so a credit never outlives
  its window.\<close>

theorem aged_generation_is_empty:
  assumes "filter_inv f" "epochNow now f \<ge> cf_epoch f + 2"
  shows "\<not> snd (has now d f)"
proof -
  let ?f = "advance now f"
  have epoch: "cf_epoch ?f = epochNow now f" using assms(2) by simp
  have inv: "filter_inv ?f" by (rule advance_inv [OF assms(1)])
  have "bits_of (cf_arrays ?f ! slot_of (cf_epoch ?f)) = {}"
    "bits_of (cf_arrays ?f ! slot_of (cf_epoch ?f - 1)) = {}"
    by (rule advance_fresh_empty [OF assms(1)]; use assms(2) epoch in linarith)+
  moreover have "positions ?f d \<noteq> {}"
    using assms(1) by (auto simp: positions_def filter_inv_def)
  ultimately show ?thesis by (auto simp: has_def Let_def test_slot_iff generation_def)
qed

text \<open>C38. The byte arrays are bit sets and the counters are their population counts: enrolling sets
  exactly the positions of the digest in the active generation, leaves the previous generation alone, and
  keeps each counter equal to the number of set bits, so the reported fill ratio is exact.\<close>

theorem insert_refines_bit_set:
  assumes "filter_inv f" "f1 = advance t f" "f2 = insert_digest t d f"
  shows "bits_of (cf_arrays f2 ! slot_of (cf_epoch f2))
       = positions f d \<union> bits_of (cf_arrays f1 ! slot_of (cf_epoch f1))
    \<and> bits_of (cf_arrays f2 ! slot_of (cf_epoch f2 - 1)) = bits_of (cf_arrays f1 ! slot_of (cf_epoch f1 - 1))
    \<and> cf_counts f2 ! slot_of (cf_epoch f2) = int (card (bits_of (cf_arrays f2 ! slot_of (cf_epoch f2))))
    \<and> cf_counts f2 ! slot_of (cf_epoch f2) \<le> cf_bits f"
proof -
  have inv: "filter_inv f2" unfolding assms(3) by (rule insert_digest_inv [OF assms(1)])
  have ep: "cf_epoch f2 = cf_epoch f1" by (simp add: assms)
  let ?a = "cf_arrays f2 ! slot_of (cf_epoch f2)"
  have count: "cf_counts f2 ! slot_of (cf_epoch f2) = int (card (bits_of ?a))"
    and len: "8 * int (length ?a) = cf_bits f2"
    using inv by (auto simp: filter_inv_def)
  have "bits_of ?a \<subseteq> {..< 8 * length ?a}" by (auto simp: bits_of_def)
  then have "card (bits_of ?a) \<le> 8 * length ?a" by (metis card_lessThan card_mono finite_lessThan)
  then have "int (card (bits_of ?a)) \<le> cf_bits f" using len assms(3) by simp
  then show ?thesis
    using count insert_digest_bits(1) [OF assms(1), where now = t and d = d]
      insert_digest_bits(2) [OF assms(1), where now = t and d = d and g = "cf_epoch f1 - 1"] ep
    unfolding assms(2,3) by (simp del: advance_fields)
qed

subsection \<open>Witnesses\<close>

definition sample_filter :: credit_filter where
  "sample_filter = \<lparr>cf_bits = 64, cf_hashes = 2, cf_epochMs = 1000, cf_t0 = 0,
     cf_arrays = [replicate 8 0, replicate 8 0], cf_counts = [0, 0], cf_epoch = 0, cf_inserts = 0,
     cf_lookups = 0, cf_hits = 0, cf_rotations = 0\<rparr>"

lemma sample_filter_new: "new_filter 64 2 1000 0 = Inr sample_filter"
  by (simp add: new_filter_def sample_filter_def is_safe_integer_def is_positive_safe_integer_def
      MAX_SAFE_INTEGER_def)

lemma sample_filter_inv: "filter_inv sample_filter"
  by (auto simp: filter_inv_def sample_filter_def less_2_cases_iff)

theorem no_false_negative_in_window_witness:
  "snd (has 1500 ''ABCDEFGH'' (insert_digest 900 ''IJKLMNOP'' (insert_digest 100 ''ABCDEFGH'' sample_filter)))"
  using no_false_negative_in_window [OF sample_filter_inv refl,
      where t = 100 and d = "''ABCDEFGH''" and ops = "[FInsert 900 ''IJKLMNOP'']" and now = 1500]
  by (simp add: apply_filter_def epochNow_def sample_filter_def)

theorem aged_generation_is_empty_witness:
  "\<not> snd (has 2500 ''ABCDEFGH'' (insert_digest 100 ''ABCDEFGH'' sample_filter))"
  using aged_generation_is_empty [OF insert_digest_inv [OF sample_filter_inv],
      where now1 = 100 and d1 = "''ABCDEFGH''" and now = 2500 and d = "''ABCDEFGH''"]
  by (simp add: epochNow_def sample_filter_def)

theorem insert_refines_bit_set_witness:
  "positions sample_filter ''ABCDEFGH''
     \<subseteq> bits_of (cf_arrays (insert_digest 100 ''ABCDEFGH'' sample_filter) ! slot_of 0)"
  using insert_refines_bit_set [OF sample_filter_inv refl refl, where t = 100 and d = "''ABCDEFGH''"]
  by (auto simp: epochNow_def sample_filter_def)

end
