(* ===== verification/Base64url.thy ===== *)
theory Base64url
  imports Prelude
begin

text \<open>
  Node's \<^verbatim>\<open>base64url\<close> text encoding as the sources use it: \<^verbatim>\<open>buffer.toString("base64url")\<close>, the
  decoder on texts of the alphabet, and \<^verbatim>\<open>decodeCanonicalB64\<close> of \<^verbatim>\<open>defense/core/hop-proof.ts\<close>. The decoder
  is only ever applied to a text that passed the alphabet test; a single left-over character carries no
  byte. The theorem: canonical decoding accepts exactly the encodings of non-empty byte strings and
  returns those bytes, so distinct texts never denote the same bytes.
\<close>

definition b64_char :: "nat \<Rightarrow> char" where
  "b64_char i =
     (if i < 26 then char_of (65 + i) else if i < 52 then char_of (97 + (i - 26))
      else if i < 62 then char_of (48 + (i - 52)) else if i = 62 then CHR ''-'' else CHR ''_'')"

definition b64_value :: "char \<Rightarrow> nat" where
  "b64_value c = (let n = (of_char c :: nat) in
     if is_upper c then n - 65 else if is_lower c then n - 97 + 26
     else if is_digit c then n - 48 + 52 else if c = CHR ''-'' then 62 else 63)"

abbreviation byte_val :: "char \<Rightarrow> nat" where "byte_val c \<equiv> of_char c"

fun b64_encode :: "bytes \<Rightarrow> string" where
  "b64_encode (a # b # c # rest) =
     b64_char (byte_val a div 4)
     # b64_char (byte_val a mod 4 * 16 + byte_val b div 16)
     # b64_char (byte_val b mod 16 * 4 + byte_val c div 64)
     # b64_char (byte_val c mod 64) # b64_encode rest"
| "b64_encode [a, b] =
     [b64_char (byte_val a div 4), b64_char (byte_val a mod 4 * 16 + byte_val b div 16),
      b64_char (byte_val b mod 16 * 4)]"
| "b64_encode [a] = [b64_char (byte_val a div 4), b64_char (byte_val a mod 4 * 16)]"
| "b64_encode [] = []"

definition b64_byte1 :: "char \<Rightarrow> char \<Rightarrow> char" where
  "b64_byte1 p q = char_of (b64_value p * 4 + b64_value q div 16)"
definition b64_byte2 :: "char \<Rightarrow> char \<Rightarrow> char" where
  "b64_byte2 q r = char_of (b64_value q mod 16 * 16 + b64_value r div 4)"
definition b64_byte3 :: "char \<Rightarrow> char \<Rightarrow> char" where
  "b64_byte3 r s = char_of (b64_value r mod 4 * 64 + b64_value s)"

fun b64_decode :: "string \<Rightarrow> bytes" where
  "b64_decode (p # q # r # s # rest) = b64_byte1 p q # b64_byte2 q r # b64_byte3 r s # b64_decode rest"
| "b64_decode [p, q, r] = [b64_byte1 p q, b64_byte2 q r]"
| "b64_decode [p, q] = [b64_byte1 p q]"
| "b64_decode [p] = []"
| "b64_decode [] = []"

definition decodeCanonicalB64 :: "string \<Rightarrow> nat option \<Rightarrow> bytes option" where
  "decodeCanonicalB64 value expectedLength =
     (if value = [] \<or> \<not> list_all is_b64url_char value \<or> length value mod 4 = 1 then None
      else let b = b64_decode value in
        if b64_encode b \<noteq> value then None
        else (case expectedLength of
            Some n \<Rightarrow> if length b \<noteq> n then None else Some b
          | None \<Rightarrow> Some b))"

subsection \<open>Lemmas\<close>

lemma b64_char_cases:
  assumes "i < 64"
  obtains (upper) "i < 26" "b64_char i = char_of (65 + i)"
  | (lower) k where "i = 26 + k" "k < 26" "b64_char i = char_of (97 + k)"
  | (digit) k where "i = 52 + k" "k < 10" "b64_char i = char_of (48 + k)"
  | (dash) "i = 62" "b64_char i = CHR ''-''"
  | (underscore) "i = 63" "b64_char i = CHR ''_''"
proof -
  consider "i < 26" | "26 \<le> i" "i < 52" | "52 \<le> i" "i < 62" | "i = 62" | "i = 63" using assms by linarith
  then show ?thesis
  proof cases
    case 2
    then show ?thesis using lower [of "i - 26"] by (simp add: b64_char_def)
  next
    case 3
    then show ?thesis using digit [of "i - 52"] by (simp add: b64_char_def)
  qed (use upper dash underscore in \<open>simp_all add: b64_char_def\<close>)
qed

lemma b64_value_char: "i < 64 \<Longrightarrow> b64_value (b64_char i) = i"
  by (erule b64_char_cases) (simp_all add: b64_value_def Let_def char_class_defs)

lemma b64_char_alphabet: "i < 64 \<Longrightarrow> is_b64url_char (b64_char i)"
  by (erule b64_char_cases) (simp_all add: char_class_defs)

lemma byte_val_less [simp]: "byte_val c < 256"
  using of_char_mod_256 [of c] by (metis mod_less_divisor zero_less_numeral)

lemma byte_eqI: "n = byte_val c \<Longrightarrow> char_of n = c"
  by simp

lemma b64_indices [simp]:
  "byte_val a div 4 < 64" "byte_val a mod 4 * 16 + byte_val b div 16 < 64"
  "byte_val b mod 16 * 4 + byte_val c div 64 < 64" "byte_val c mod 64 < 64"
  "byte_val a mod 4 * 16 < 64" "byte_val b mod 16 * 4 < 64"
  using byte_val_less [of a] byte_val_less [of b] byte_val_less [of c] by linarith+

lemma b64_round1:
  "b64_byte1 (b64_char (byte_val a div 4)) (b64_char (byte_val a mod 4 * 16 + k)) = a" if "k < 16"
proof -
  have "byte_val a mod 4 * 16 + k < 64" using that by linarith
  moreover have "(byte_val a mod 4 * 16 + k) div 16 = byte_val a mod 4" using that by simp
  ultimately show ?thesis by (simp add: b64_byte1_def b64_value_char byte_eqI)
qed

lemma b64_round2:
  "b64_byte2 (b64_char (byte_val a mod 4 * 16 + byte_val b div 16)) (b64_char (byte_val b mod 16 * 4 + k)) = b"
  if "k < 4"
proof -
  have "byte_val b mod 16 * 4 + k < 64" using that by linarith
  moreover have "(byte_val b mod 16 * 4 + k) div 4 = byte_val b mod 16" using that by simp
  moreover have "(byte_val a mod 4 * 16 + byte_val b div 16) mod 16 = byte_val b div 16"
  proof -
    have "byte_val b div 16 < 16" using byte_val_less [of b] by linarith
    then show ?thesis by simp
  qed
  ultimately show ?thesis by (simp add: b64_byte2_def b64_value_char byte_eqI)
qed

lemma b64_round3:
  "b64_byte3 (b64_char (byte_val b mod 16 * 4 + byte_val c div 64)) (b64_char (byte_val c mod 64)) = c"
proof -
  have "(byte_val b mod 16 * 4 + byte_val c div 64) mod 4 = byte_val c div 64"
  proof -
    have "byte_val c div 64 < 4" using byte_val_less [of c] by linarith
    then show ?thesis by simp
  qed
  then show ?thesis by (simp add: b64_byte3_def b64_value_char byte_eqI)
qed

lemma b64_decode_encode [simp]: "b64_decode (b64_encode b) = b"
proof (induction b rule: b64_encode.induct)
  case (1 a b c rest)
  have "byte_val b div 16 < 16" "byte_val c div 64 < 4"
    using byte_val_less [of b] byte_val_less [of c] by linarith+
  with 1 show ?case by (simp add: b64_round1 b64_round2 b64_round3)
next
  case (2 a b)
  have "byte_val b div 16 < 16" using byte_val_less [of b] by linarith
  then show ?case using b64_round1 [of "byte_val b div 16" a] b64_round2 [of 0 a b] by simp
next
  case (3 a)
  then show ?case using b64_round1 [of 0 a] by simp
qed simp

lemma b64_encode_alphabet: "list_all is_b64url_char (b64_encode b)"
  by (induction b rule: b64_encode.induct) (simp_all add: b64_char_alphabet)

lemma b64_encode_length: "length (b64_encode b) mod 4 \<noteq> 1"
  by (induction b rule: b64_encode.induct) simp_all

lemma b64_encode_Nil_iff [simp]: "b64_encode b = [] \<longleftrightarrow> b = []"
  by (cases b rule: b64_encode.cases) simp_all

lemma b64_encode_inject: "b64_encode a = b64_encode b \<longleftrightarrow> a = b"
  by (metis b64_decode_encode)

subsection \<open>Property\<close>

text \<open>Canonical base64url decoding is exact: it accepts a text if and only if the text is the encoding
  of a non-empty byte string of the expected length, and then returns those bytes.\<close>

theorem decodeCanonicalB64_iff:
  "decodeCanonicalB64 v len = Some b \<longleftrightarrow>
     v = b64_encode b \<and> b \<noteq> [] \<and> (case len of None \<Rightarrow> True | Some n \<Rightarrow> length b = n)"
proof
  assume "decodeCanonicalB64 v len = Some b"
  then show "v = b64_encode b \<and> b \<noteq> [] \<and> (case len of None \<Rightarrow> True | Some n \<Rightarrow> length b = n)"
    by (auto simp: decodeCanonicalB64_def Let_def split: if_splits option.splits)
next
  assume "v = b64_encode b \<and> b \<noteq> [] \<and> (case len of None \<Rightarrow> True | Some n \<Rightarrow> length b = n)"
  then show "decodeCanonicalB64 v len = Some b"
    using b64_encode_alphabet [of b] b64_encode_length [of b]
    by (simp add: decodeCanonicalB64_def split: option.splits)
qed

end
