(* ===== verification/Lanes.thy ===== *)
theory Lanes
  imports L2_Lifecycle Token_Bucket Use_Ledger Credit_Filter Base64url
begin

unbundle bit_operations_syntax

text \<open>
  \<^verbatim>\<open>JourneyLanes\<close> of \<^verbatim>\<open>defense/core/lanes.ts\<close>: token extraction, the decision, enrollment, the decision
  counters and the snapshot. The keyed digest \<^verbatim>\<open>filter.digest\<close> (HMAC-SHA256 under a random key) and the
  tag \<^verbatim>\<open>creditTagOf\<close> (SHA-256) are the parameters \<open>dig\<close> and \<open>tag\<close>. The injected clock may be read
  several times by one operation: each reading is an argument of its own. The snapshot leaves out its
  SHA-256 \<^verbatim>\<open>digest\<close> field and the order of the keys of \<^verbatim>\<open>decisions\<close>.

  The theorems: every decision is in the closed matrix and carries the fields the lifecycle validator
  demands; lanes do not spill into each other; uses are counted exactly and never given back; with a
  monotonic clock the ledger never fills up, for the capacity the constructor demands; and a genuine
  credit is honoured throughout its window.
\<close>

definition TOKEN_FIELD :: string where "TOKEN_FIELD = ''submissionToken=''"

text \<open>The loop of \<^verbatim>\<open>extractSubmissionToken\<close> over the segments between the \<^verbatim>\<open>&\<close>s. The field name has no
  \<^verbatim>\<open>&\<close>, so \<^verbatim>\<open>startsWith(TOKEN_FIELD, from)\<close> looks at one segment only.\<close>

fun token_scan :: "string option \<Rightarrow> string list \<Rightarrow> string option" where
  "token_scan found [] = found"
| "token_scan found (seg # segs) =
     (if starts_with TOKEN_FIELD seg then
        if found \<noteq> None then None
        else let value = drop (length TOKEN_FIELD) seg in
          if \<not> is_b64url_id 43 value then None else token_scan (Some value) segs
      else token_scan found segs)"

definition extractSubmissionToken :: "layer_request \<Rightarrow> string option" where
  "extractSubmissionToken r =
     (if lr_method r \<noteq> ''POST'' \<or> lr_bodyStatus r \<noteq> BComplete then None
      else case lr_body r of None \<Rightarrow> None | Some b \<Rightarrow> token_scan None (split_on (CHR ''&'') b))"

record lanes_config =
  lc_filterBits :: int
  lc_filterHashes :: int
  lc_epochMs :: int
  lc_creditedCapacity :: int
  lc_creditedRefill :: real
  lc_unverifiedCapacity :: int
  lc_unverifiedRefill :: real
  lc_maxUses :: int
  lc_ledgerCapacity :: int

record journey_lanes =
  jl_filter :: credit_filter
  jl_credited :: token_bucket
  jl_unverified :: token_bucket
  jl_ledger :: use_ledger
  jl_maxUses :: int
  jl_decisions :: "(string, int) jsmap"
  jl_spentCredited :: int
  jl_spentUnverified :: int

text \<open>The constructor; the clock is read once by the filter and once by each bucket.\<close>

definition new_lanes :: "lanes_config \<Rightarrow> instant \<times> instant \<times> instant \<Rightarrow> string + journey_lanes" where
  "new_lanes c rd = (case rd of (t1, t2, t3) \<Rightarrow>
     let needed = requiredLedgerCapacity (lc_creditedCapacity c) (lc_creditedRefill c) (lc_epochMs c) in
     if lc_ledgerCapacity c < needed then
       Inl (''ledger capacity '' @ show_int (lc_ledgerCapacity c)
            @ '' is below the credited-admission bound '' @ show_int needed)
     else case new_filter (lc_filterBits c) (lc_filterHashes c) (lc_epochMs c) t1 of
       Inl e \<Rightarrow> Inl e
     | Inr f \<Rightarrow> (case new_bucket (lc_creditedCapacity c) (lc_creditedRefill c) t2 of
         Inl e \<Rightarrow> Inl e
       | Inr cb \<Rightarrow> (case new_bucket (lc_unverifiedCapacity c) (lc_unverifiedRefill c) t3 of
           Inl e \<Rightarrow> Inl e
         | Inr ub \<Rightarrow> (case new_use_ledger (lc_ledgerCapacity c) (lc_maxUses c) of
             Inl e \<Rightarrow> Inl e
           | Inr l \<Rightarrow> Inr \<lparr>jl_filter = f, jl_credited = cb, jl_unverified = ub, jl_ledger = l,
               jl_maxUses = lc_maxUses c, jl_decisions = [], jl_spentCredited = 0,
               jl_spentUnverified = 0\<rparr>))))"

text \<open>The bucket fields of a decision.\<close>

definition with_taken :: "taken \<Rightarrow> lane_decision \<Rightarrow> lane_decision" where
  "with_taken t d = d\<lparr>ld_dt := Some (tk_dt t), ld_lvl := Some (tk_lvl t), ld_lseq := Some (tk_lseq t)\<rparr>"

text \<open>The classification: the state after it, and the digest and uses of a credited candidate.\<close>

definition classify ::
  "(string \<Rightarrow> bytes) \<Rightarrow> instant \<Rightarrow> operation_class \<Rightarrow> int \<Rightarrow> layer_request \<Rightarrow> journey_lanes
   \<Rightarrow> journey_lanes \<times> (bytes \<times> int option) option" where
  "classify dig t2 cls epoch r s =
     (if cls \<noteq> ClsMutation then (s, None)
      else case extractSubmissionToken r of
        None \<Rightarrow> (s, None)
      | Some token \<Rightarrow>
          let d = dig token; (f, hit) = has t2 d (jl_filter s); s' = s\<lparr>jl_filter := f\<rparr> in
          if hit then (s', Some (d, committed (b64_encode d) epoch (jl_ledger s')))
          else (s', None))"

text \<open>\<^verbatim>\<open>credited\<close>: a candidate with uses left.\<close>

definition eligible :: "int \<Rightarrow> (bytes \<times> int option) option \<Rightarrow> (bytes \<times> int option) option" where
  "eligible maxUses candidate = (case candidate of
     None \<Rightarrow> None
   | Some (d, used) \<Rightarrow> if (case used of None \<Rightarrow> True | Some n \<Rightarrow> n < maxUses) then Some (d, used) else None)"

definition take_unverified ::
  "operation_class \<Rightarrow> instant \<Rightarrow> journey_lanes \<Rightarrow> journey_lanes \<times> lane_decision" where
  "take_unverified cls t3 s = (case take_token t3 (jl_unverified s) of (b, tk) \<Rightarrow>
     (s\<lparr>jl_unverified := b\<rparr>,
      with_taken tk (if tk_ok tk then mk_decision cls (Some LaneUnverified) Admitted
        else (mk_decision cls (Some LaneUnverified) Shed)\<lparr>ld_shedReason := Some lane_budget\<rparr>)))"

definition take_credited ::
  "(bytes \<Rightarrow> string) \<Rightarrow> operation_class \<Rightarrow> int \<Rightarrow> instant \<Rightarrow> bytes \<Rightarrow> int option
   \<Rightarrow> journey_lanes \<Rightarrow> journey_lanes \<times> lane_decision" where
  "take_credited tag cls epoch t3 d used s =
     (case (if used = None then canAllocate epoch (jl_ledger s) else (jl_ledger s, True)) of (l, room) \<Rightarrow>
        if \<not> room then (s\<lparr>jl_ledger := l\<rparr>, (mk_decision cls None Error)\<lparr>ld_errorKind := Some ELedgerFull\<rparr>)
        else (case take_token t3 (jl_credited s) of (b, tk) \<Rightarrow>
          (s\<lparr>jl_credited := b, jl_ledger := (if tk_ok tk then commit (b64_encode d) epoch l else l)\<rparr>,
           with_taken tk
             (if tk_ok tk then (mk_decision cls (Some LaneCredited) Admitted)\<lparr>ld_creditTag := Some (tag d)\<rparr>
              else (mk_decision cls (Some LaneCredited) Shed)\<lparr>ld_shedReason := Some lane_budget\<rparr>))))"

definition decide ::
  "(string \<Rightarrow> bytes) \<Rightarrow> (bytes \<Rightarrow> string) \<Rightarrow> instant \<times> instant \<times> instant \<Rightarrow> layer_request
   \<Rightarrow> journey_lanes \<Rightarrow> journey_lanes \<times> lane_decision" where
  "decide dig tag rd r s0 = (case rd of (t1, t2, t3) \<Rightarrow>
     let cls = operationClassOf (lr_method r) (lr_target r) in
     if cls = ClsOpen then (s0, mk_decision ClsOpen (Some LaneOpen) Admitted)
     else
       let f = advance t1 (jl_filter s0); epoch = cf_epoch f;
           s1 = s0\<lparr>jl_filter := f, jl_ledger := maybePurge epoch (jl_ledger s0)\<rparr> in
       case classify dig t2 cls epoch r s1 of (s2, candidate) \<Rightarrow>
         (case eligible (jl_maxUses s2) candidate of
            None \<Rightarrow> take_unverified cls t3 s2
          | Some (d, used) \<Rightarrow> take_credited tag cls epoch t3 d used s2))"

definition enroll ::
  "(string \<Rightarrow> bytes) \<Rightarrow> (bytes \<Rightarrow> string) \<Rightarrow> instant \<times> instant \<times> instant \<Rightarrow> string
   \<Rightarrow> journey_lanes \<Rightarrow> journey_lanes \<times> string option" where
  "enroll dig tag rd token s = (case rd of (t1, t2, t3) \<Rightarrow>
     let d = dig token; f = advance t1 (jl_filter s); epoch = cf_epoch f; s1 = s\<lparr>jl_filter := f\<rparr> in
     if committed (b64_encode d) epoch (jl_ledger s1) \<noteq> None then (s1, None)
     else case hasInActive t2 d (jl_filter s1) of (f2, active) \<Rightarrow>
       if active then (s1\<lparr>jl_filter := f2\<rparr>, None)
       else (s1\<lparr>jl_filter := insert_digest t3 d f2\<rparr>, Some (tag d)))"

text \<open>\<^verbatim>\<open>record\<close>.\<close>

definition record_decision :: "lane_decision \<Rightarrow> journey_lanes \<Rightarrow> journey_lanes" where
  "record_decision d s =
     (let key = class_name (ld_class d) @ ''.'' @ lane2_name (ld_lane d) @ ''.'' @ outcome_name (ld_outcome d);
          s' = s\<lparr>jl_decisions := AList.update key
            ((case map_of (jl_decisions s) key of None \<Rightarrow> 0 | Some n \<Rightarrow> n) + 1) (jl_decisions s)\<rparr> in
      case ld_spent d of
        None \<Rightarrow> s'
      | Some l \<Rightarrow> if l = LaneCredited then s'\<lparr>jl_spentCredited := jl_spentCredited s' + 1\<rparr>
          else s'\<lparr>jl_spentUnverified := jl_spentUnverified s' + 1\<rparr>)"

record lanes_snapshot =
  sn_epoch :: int
  sn_credited :: bucket_snapshot
  sn_unverified :: bucket_snapshot
  sn_filter :: filter_stats
  sn_poisoned :: bool
  sn_ledger :: ledger_snapshot
  sn_decisions :: "(string, int) jsmap"
  sn_spentCredited :: int
  sn_spentUnverified :: int

definition lanes_snapshot_of ::
  "instant \<times> instant \<times> instant \<Rightarrow> journey_lanes \<Rightarrow> journey_lanes \<times> lanes_snapshot" where
  "lanes_snapshot_of rd s = (case rd of (t1, t2, t3) \<Rightarrow>
     case filter_stats_of t1 (jl_filter s) of (f, fs) \<Rightarrow>
     let l = maybePurge (fs_epoch fs) (jl_ledger s) in
     case bucket_snapshot_of t2 (jl_credited s) of (cb, cs) \<Rightarrow>
     case bucket_snapshot_of t3 (jl_unverified s) of (ub, us) \<Rightarrow>
       (s\<lparr>jl_filter := f, jl_ledger := l, jl_credited := cb, jl_unverified := ub\<rparr>,
        \<lparr>sn_epoch = fs_epoch fs, sn_credited = cs, sn_unverified = us, sn_filter = fs,
          sn_poisoned = (fs_fprEstimate fs > 1 / 100), sn_ledger = ledger_snapshot_of l,
          sn_decisions = jl_decisions s, sn_spentCredited = jl_spentCredited s, sn_spentUnverified = jl_spentUnverified s\<rparr>))"

subsection \<open>The ways a decision is taken\<close>

text \<open>The filter after the classification, and the filter operations that led there.\<close>

definition decide_filter_ops :: "(string \<Rightarrow> bytes) \<Rightarrow> instant \<Rightarrow> instant \<Rightarrow> layer_request \<Rightarrow> filter_op list" where
  "decide_filter_ops dig t1 t2 r =
     (let cls = operationClassOf (lr_method r) (lr_target r) in
      if cls = ClsOpen then []
      else if cls = ClsMutation then
        (case extractSubmissionToken r of None \<Rightarrow> [FAdvance t1] | Some tok \<Rightarrow> [FAdvance t1, FHas t2 (dig tok)])
      else [FAdvance t1])"

abbreviation unverified_decision :: "operation_class \<Rightarrow> taken \<Rightarrow> lane_decision" where
  "unverified_decision cls tk \<equiv> with_taken tk (if tk_ok tk then mk_decision cls (Some LaneUnverified) Admitted
     else (mk_decision cls (Some LaneUnverified) Shed)\<lparr>ld_shedReason := Some lane_budget\<rparr>)"

abbreviation credited_decision :: "string \<Rightarrow> operation_class \<Rightarrow> taken \<Rightarrow> lane_decision" where
  "credited_decision tg cls tk \<equiv> with_taken tk
     (if tk_ok tk then (mk_decision cls (Some LaneCredited) Admitted)\<lparr>ld_creditTag := Some tg\<rparr>
      else (mk_decision cls (Some LaneCredited) Shed)\<lparr>ld_shedReason := Some lane_budget\<rparr>)"

lemma classify_cases:
  assumes "classify dig t2 cls epoch r s = (s', cand)"
  obtains (none) f where "s' = s\<lparr>jl_filter := f\<rparr>" "cand = None"
      "cls = ClsMutation \<longrightarrow> (\<forall>tok. extractSubmissionToken r = Some tok \<longrightarrow> \<not> snd (has t2 (dig tok) (jl_filter s)))"
      "f = (if cls = ClsMutation then (case extractSubmissionToken r of None \<Rightarrow> jl_filter s
            | Some tok \<Rightarrow> fst (has t2 (dig tok) (jl_filter s))) else jl_filter s)"
  | (hit) tok where "cls = ClsMutation" "extractSubmissionToken r = Some tok"
      "snd (has t2 (dig tok) (jl_filter s))" "s' = s\<lparr>jl_filter := fst (has t2 (dig tok) (jl_filter s))\<rparr>"
      "cand = Some (dig tok, committed (b64_encode (dig tok)) epoch (jl_ledger s))"
  using assms
  by (cases "cls = ClsMutation"; cases "extractSubmissionToken r")
    (auto simp: classify_def Let_def case_prod_beta split: if_splits)

lemma decide_cases:
  assumes "decide dig tag (t1, t2, t3) r s = (s', d)"
  defines "cls \<equiv> operationClassOf (lr_method r) (lr_target r)"
    and "ep \<equiv> cf_epoch (advance t1 (jl_filter s))"
    and "f \<equiv> fold apply_filter (decide_filter_ops dig t1 t2 r) (jl_filter s)"
  defines "l1 \<equiv> maybePurge ep (jl_ledger s)"
  obtains
    (opened) "cls = ClsOpen" "s' = s" "d = mk_decision ClsOpen (Some LaneOpen) Admitted"
  | (unverified) b tk where "cls \<noteq> ClsOpen" "take_token t3 (jl_unverified s) = (b, tk)"
      "s' = s\<lparr>jl_filter := f, jl_ledger := l1, jl_unverified := b\<rparr>" "d = unverified_decision cls tk"
      "\<And>tok. cls = ClsMutation \<Longrightarrow> extractSubmissionToken r = Some tok \<Longrightarrow>
         snd (has t2 (dig tok) (advance t1 (jl_filter s))) \<Longrightarrow>
         \<exists>n. committed (b64_encode (dig tok)) ep l1 = Some n \<and> jl_maxUses s \<le> n"
  | (full) tok l where "cls = ClsMutation" "committed (b64_encode (dig tok)) ep l1 = None"
      "canAllocate ep l1 = (l, False)" "s' = s\<lparr>jl_filter := f, jl_ledger := l\<rparr>"
      "d = (mk_decision cls None Error)\<lparr>ld_errorKind := Some ELedgerFull\<rparr>"
  | (credited) tok l b tk where "cls = ClsMutation" "extractSubmissionToken r = Some tok"
      "snd (has t2 (dig tok) (advance t1 (jl_filter s)))"
      "(case committed (b64_encode (dig tok)) ep l1 of None \<Rightarrow> canAllocate ep l1 = (l, True)
        | Some n \<Rightarrow> l = l1 \<and> n < jl_maxUses s)"
      "take_token t3 (jl_credited s) = (b, tk)"
      "s' = s\<lparr>jl_filter := f, jl_credited := b,
         jl_ledger := (if tk_ok tk then commit (b64_encode (dig tok)) ep l else l)\<rparr>"
      "d = credited_decision (tag (dig tok)) cls tk"
proof -
  note defs = cls_def [symmetric] ep_def [symmetric]
  show ?thesis
  proof (cases "cls = ClsOpen")
    case True
    then show ?thesis using assms(1) opened by (simp add: decide_def Let_def cls_def)
  next
    case cls: False
    let ?s1 = "s\<lparr>jl_filter := advance t1 (jl_filter s), jl_ledger := l1\<rparr>"
    obtain s2 cand where c: "classify dig t2 cls ep r ?s1 = (s2, cand)"
      by (cases "classify dig t2 cls ep r ?s1")
    have dec: "(s', d) = (case eligible (jl_maxUses s2) cand of
        None \<Rightarrow> take_unverified cls t3 s2 | Some (d, used) \<Rightarrow> take_credited tag cls ep t3 d used s2)"
      using assms(1) cls c unfolding decide_def prod.case Let_def cls_def ep_def l1_def by simp
    have unv: ?thesis
      if s2: "s2 = s\<lparr>jl_filter := f, jl_ledger := l1\<rparr>" and none: "eligible (jl_maxUses s2) cand = None"
        and used: "\<And>tok. cls = ClsMutation \<Longrightarrow> extractSubmissionToken r = Some tok \<Longrightarrow>
           snd (has t2 (dig tok) (advance t1 (jl_filter s))) \<Longrightarrow>
           \<exists>n. committed (b64_encode (dig tok)) ep l1 = Some n \<and> jl_maxUses s \<le> n"
    proof -
      obtain b tk where t: "take_token t3 (jl_unverified s) = (b, tk)" by (cases "take_token t3 (jl_unverified s)")
      have "s' = s\<lparr>jl_filter := f, jl_ledger := l1, jl_unverified := b\<rparr>" "d = unverified_decision cls tk"
        using dec none t by (simp_all add: take_unverified_def s2)
      from unverified [OF cls t this used] show ?thesis .
    qed
    from c show ?thesis
    proof (cases rule: classify_cases)
      case (none g)
      have "g = f" using none(4) cls
        by (auto simp: f_def decide_filter_ops_def cls_def [symmetric] apply_filter_def split: option.splits)
      then show ?thesis using none by (intro unv) (auto simp: eligible_def)
    next
      case (hit tok)
      have f: "s2 = s\<lparr>jl_filter := f, jl_ledger := l1\<rparr>"
        using hit(1,2,4) by (simp add: f_def decide_filter_ops_def cls_def [symmetric] apply_filter_def)
      let ?u = "committed (b64_encode (dig tok)) ep l1"
      have cand: "cand = Some (dig tok, ?u)" using hit(5) by simp
      have has: "snd (has t2 (dig tok) (advance t1 (jl_filter s)))" using hit(3) by simp
      show ?thesis
      proof (cases "case ?u of None \<Rightarrow> True | Some n \<Rightarrow> n < jl_maxUses s")
        case False
        then obtain n where "?u = Some n" "jl_maxUses s \<le> n" by (auto split: option.splits)
        then show ?thesis using f cand hit(2) by (intro unv) (auto simp: eligible_def)
      next
        case True
        define lr where "lr = (if ?u = None then canAllocate ep l1 else (l1, True))"
        obtain l room where lr': "lr = (l, room)" by (cases lr)
        obtain b tk where t: "take_token t3 (jl_credited s) = (b, tk)" by (cases "take_token t3 (jl_credited s)")
        have "eligible (jl_maxUses s2) cand = Some (dig tok, ?u)"
          using True by (simp add: cand f eligible_def split: option.splits)
        then have "(s', d) = take_credited tag cls ep t3 (dig tok) ?u s2" using dec by simp
        then have eq: "(s', d) = (if \<not> room then (s\<lparr>jl_filter := f, jl_ledger := l\<rparr>,
              (mk_decision cls None Error)\<lparr>ld_errorKind := Some ELedgerFull\<rparr>)
            else (s\<lparr>jl_filter := f, jl_credited := b,
                jl_ledger := (if tk_ok tk then commit (b64_encode (dig tok)) ep l else l)\<rparr>,
              credited_decision (tag (dig tok)) cls tk))"
          using lr' t unfolding lr_def by (simp add: take_credited_def f split: if_splits)
        show ?thesis
        proof (cases room)
          case False
          then have "?u = None" "canAllocate ep l1 = (l, False)" using lr' by (auto simp: lr_def split: if_splits)
          then show ?thesis using eq False hit(1) by (intro full [of tok l]) auto
        next
          case room: True
          then have "case ?u of None \<Rightarrow> canAllocate ep l1 = (l, True) | Some n \<Rightarrow> l = l1 \<and> n < jl_maxUses s"
            using lr' True by (auto simp: lr_def split: if_splits option.splits)
          then show ?thesis using eq room hit(1,2) has t by (intro credited [of tok l b tk]) auto
        qed
      qed
    qed
  qed
qed

subsection \<open>Invariant\<close>

definition lanes_inv :: "journey_lanes \<Rightarrow> bool" where
  "lanes_inv s \<longleftrightarrow> filter_inv (jl_filter s) \<and> bucket_inv (jl_credited s) \<and> bucket_inv (jl_unverified s)
     \<and> ledger_inv (jl_ledger s) \<and> ul_maxUses (jl_ledger s) = jl_maxUses s"

lemma ledger_caps [simp]:
  "ul_maxUses (purge ep l) = ul_maxUses l" "ul_capacity (purge ep l) = ul_capacity l"
  "ul_maxUses (maybePurge ep l) = ul_maxUses l" "ul_capacity (maybePurge ep l) = ul_capacity l"
  "ul_maxUses (fst (canAllocate ep l)) = ul_maxUses l" "ul_capacity (fst (canAllocate ep l)) = ul_capacity l"
  "ul_maxUses (commit k ep l) = ul_maxUses l" "ul_capacity (commit k ep l) = ul_capacity l"
  by (simp_all add: purge_def maybePurge_def canAllocate_def commit_def allocate_def Let_def
      split: option.splits)

lemma filter_fold_inv: "filter_inv f \<Longrightarrow> filter_inv (fold apply_filter ops f)"
  by (rule bloom.fold_inv)

text \<open>The ledger a decision commits to, whichever way it was reached.\<close>

lemma credited_ledger:
  assumes "ledger_inv l1"
    and "case used of None \<Rightarrow> canAllocate ep l1 = (l, True) | Some n \<Rightarrow> l = l1 \<and> n < m"
  shows "ledger_inv l" "ul_maxUses l = ul_maxUses l1" "ul_capacity l = ul_capacity l1"
    "ep \<le> ep' \<Longrightarrow> committed k ep' l = committed k ep' l1"
proof -
  have "l = fst (canAllocate ep l1) \<or> l = l1" using assms(2) by (auto split: option.splits)
  then show "ledger_inv l" "ul_maxUses l = ul_maxUses l1" "ul_capacity l = ul_capacity l1"
    "ep \<le> ep' \<Longrightarrow> committed k ep' l = committed k ep' l1"
    using assms(1) by (auto simp: canAllocate_inv committed_canAllocate)
qed

lemma decide_inv:
  assumes "lanes_inv s" "decide dig tag rd r s = (s', d)"
  shows "lanes_inv s'"
proof -
  obtain t1 t2 t3 where rd: "rd = (t1, t2, t3)" by (cases rd)
  define ep where "ep = cf_epoch (advance t1 (jl_filter s))"
  define f where "f = fold apply_filter (decide_filter_ops dig t1 t2 r) (jl_filter s)"
  have f: "filter_inv f" using assms(1) by (simp add: f_def lanes_inv_def filter_fold_inv)
  have l1: "ledger_inv (maybePurge ep (jl_ledger s))" using assms(1) by (simp add: lanes_inv_def maybePurge_inv)
  show ?thesis using assms(2) [unfolded rd]
  proof (cases rule: decide_cases)
    case opened
    then show ?thesis using assms(1) by simp
  next
    case (unverified b tk)
    then show ?thesis
      using assms(1) f l1 take_token_inv [of "jl_unverified s" t3]
      by (simp add: lanes_inv_def f_def ep_def del: advance_fields)
  next
    case (full tok l)
    then have "l = fst (canAllocate ep (maybePurge ep (jl_ledger s)))" by (simp add: ep_def del: advance_fields)
    then show ?thesis using full(4) assms(1) f l1 by (simp add: lanes_inv_def f_def canAllocate_inv)
  next
    case (credited tok l b tk)
    note led = credited_ledger [OF l1 credited(4) [folded ep_def]]
    then show ?thesis
      using assms(1) f credited(5,6) take_token_inv [of "jl_credited s" t3]
      by (simp add: lanes_inv_def f_def ep_def commit_inv del: advance_fields)
  qed
qed

subsection \<open>A monotonic clock keeps the ledger from filling up\<close>

text \<open>Whole milliseconds at which epoch \<open>e\<close> starts, and the records first used in epoch \<open>e\<close> or later.\<close>

definition epoch_start :: "credit_filter \<Rightarrow> int \<Rightarrow> int" where
  "epoch_start f e = \<lfloor>cf_t0 f + real_of_int (e * cf_epochMs f)\<rfloor>"

definition used_since :: "int \<Rightarrow> use_ledger \<Rightarrow> int" where
  "used_since e l = int (length (filter (\<lambda>(k, u). e \<le> ue_firstEpoch u) (ul_entries l)))"

text \<open>Every record first used since \<open>start\<close> was paid for with a token the bucket got since then.\<close>

definition paid :: "int \<Rightarrow> int \<Rightarrow> token_bucket \<Rightarrow> bool" where
  "paid n start b \<longleftrightarrow>
     n * UNIT + tb_level b \<le> tb_capacityUnits b + tb_refillPerMs b * max 0 (tb_lastMs b - start)
     \<and> (0 < n \<longrightarrow> start \<le> tb_lastMs b)"

lemma used_since_nonneg [simp]: "0 \<le> used_since e l"
  by (simp add: used_since_def)

lemma paid_antimono: "paid n st b \<Longrightarrow> 0 \<le> m \<Longrightarrow> m \<le> n \<Longrightarrow> paid m st b"
  by (auto simp: paid_def UNIT_def)

lemma refill_lastMs: "tb_lastMs (refill t b) = max (tb_lastMs b) \<lfloor>t\<rfloor>"
  by (auto simp: refill_def Let_def)

lemma paid_refill:
  assumes "bucket_inv b" "paid n st b" "0 \<le> n"
  shows "paid n st (refill t b)"
proof (cases "\<lfloor>t\<rfloor> > tb_lastMs b")
  case False
  then show ?thesis using assms(2) by (simp add: refill_def)
next
  case True
  let ?now = "\<lfloor>t\<rfloor>" and ?r = "tb_refillPerMs b"
  have r: "0 < ?r" using assms(1) by (simp add: bucket_inv_def)
  show ?thesis
  proof (cases "st \<le> tb_lastMs b")
    case True
    have "?r * max 0 (tb_lastMs b - st) + (?now - tb_lastMs b) * ?r = ?r * max 0 (?now - st)"
      using True \<open>\<lfloor>t\<rfloor> > tb_lastMs b\<close> by (simp add: max_def algebra_simps)
    then show ?thesis
      using assms(2) True \<open>\<lfloor>t\<rfloor> > tb_lastMs b\<close> by (auto simp: paid_def refill_def Let_def min_def)
  next
    case False
    then have "n = 0" using assms(2,3) by (auto simp: paid_def)
    moreover have "0 \<le> ?r * max 0 (?now - st)" using r by simp
    ultimately show ?thesis using \<open>\<lfloor>t\<rfloor> > tb_lastMs b\<close> by (auto simp: paid_def refill_def Let_def)
  qed
qed

lemma paid_take:
  assumes "bucket_inv b" "paid n st b" "0 \<le> n" "take_token t b = (b', tk)"
  shows "paid n st b'"
    and "tk_ok tk \<Longrightarrow> st \<le> \<lfloor>t\<rfloor> \<Longrightarrow> paid (n + 1) st b'"
    and "tb_lastMs b' = max (tb_lastMs b) \<lfloor>t\<rfloor>"
proof -
  have p: "paid n st (refill t b)" by (rule paid_refill [OF assms(1-3)])
  have b': "b' = (if tk_ok tk then (refill t b)\<lparr>tb_takes := tb_takes (refill t b) + 1,
        tb_level := tb_level (refill t b) - UNIT, tb_admitted := tb_admitted (refill t b) + 1\<rparr>
      else (refill t b)\<lparr>tb_takes := tb_takes (refill t b) + 1, tb_shed := tb_shed (refill t b) + 1\<rparr>)"
    using assms(4) by (auto simp: take_token_def Let_def)
  show "paid n st b'" using p b' by (auto simp: paid_def UNIT_def)
  show "tb_lastMs b' = max (tb_lastMs b) \<lfloor>t\<rfloor>" using b' by (simp add: refill_lastMs)
  show "paid (n + 1) st b'" if "tk_ok tk" "st \<le> \<lfloor>t\<rfloor>"
    using p b' that refill_lastMs [of t b] by (auto simp: paid_def UNIT_def)
qed

lemma length_filter_filter_le: "length (filter P (filter Q xs)) \<le> length (filter P xs)"
  by (induction xs) auto

lemma length_filter_update:
  "length (filter P (AList.update k v xs)) \<le> length (filter P xs) + (if P (k, v) then 1 else 0)"
  by (induction xs) auto

lemma length_filter_update_same:
  "map_of xs k = Some v0 \<Longrightarrow> P (k, v) = P (k, v0) \<Longrightarrow>
     length (filter P (AList.update k v xs)) = length (filter P xs)"
  by (induction xs) (auto split: if_splits)

lemma length_filter_delete: "length (filter P (AList.delete k xs)) \<le> length (filter P xs)"
  by (induction xs) auto

lemma used_since_purge: "used_since e (purge ep l) \<le> used_since e l"
  unfolding used_since_def purge_def
  using length_filter_filter_le [of "\<lambda>(k, u). e \<le> ue_firstEpoch u" "\<lambda>(k, u). \<not> aged_out ep u" "ul_entries l"]
  by (simp del: filter_filter)

lemma used_since_maybePurge: "used_since e (maybePurge ep l) \<le> used_since e l"
  by (simp add: maybePurge_def used_since_purge)

lemma used_since_canAllocate: "used_since e (fst (canAllocate ep l)) \<le> used_since e l"
  using used_since_purge [of e ep l] by (auto simp: canAllocate_def Let_def used_since_def)

lemma used_since_allocate: "used_since e (allocate k ep l) \<le> used_since e l + (if e \<le> ep then 1 else 0)"
  using length_filter_update [of "\<lambda>(k, u). e \<le> ue_firstEpoch u" k "\<lparr>ue_committed = 1, ue_firstEpoch = ep\<rparr>" "ul_entries l"]
  by (simp add: used_since_def allocate_def Let_def split: if_splits)

lemma used_since_commit: "used_since e (commit k ep l) \<le> used_since e l + (if e \<le> ep then 1 else 0)"
proof (cases "map_of (ul_entries l) k")
  case None
  then show ?thesis using used_since_allocate [of e k ep l] by (simp add: commit_def)
next
  case (Some u)
  let ?P = "\<lambda>(k, u). e \<le> ue_firstEpoch u"
  have same: "length (filter ?P (AList.update k (u\<lparr>ue_committed := c\<rparr>) (ul_entries l))) = length (filter ?P (ul_entries l))" for c
    by (rule length_filter_update_same [OF Some]) simp
  let ?l = "l\<lparr>ul_entries := AList.delete k (ul_entries l), ul_purged := ul_purged l + 1\<rparr>"
  have "used_since e ?l \<le> used_since e l"
    using length_filter_delete [of ?P k "ul_entries l"] by (simp add: used_since_def)
  then show ?thesis
    using Some same used_since_allocate [of e k ep ?l]
    by (auto simp: commit_def used_since_def)
qed

lemma ledger_size_purged: "used_since (ep - 1) (purge ep l) = ledger_size (purge ep l)"
proof -
  have "filter (\<lambda>(k, u). ep - 1 \<le> ue_firstEpoch u) (ul_entries (purge ep l)) = ul_entries (purge ep l)"
    by (rule filter_True) (auto simp: purge_def aged_out_def)
  then show ?thesis by (simp add: used_since_def ledger_size_def)
qed

text \<open>The state after all clock readings up to \<open>t\<close>. The last part is the sizing rule of the constructor.\<close>

definition clocked :: "instant \<Rightarrow> journey_lanes \<Rightarrow> bool" where
  "clocked t s \<longleftrightarrow> lanes_inv s \<and> cf_t0 (jl_filter s) \<le> t
     \<and> tb_lastMs (jl_credited s) \<le> \<lfloor>t\<rfloor>
     \<and> cf_epoch (jl_filter s) \<le> epochNow t (jl_filter s)
     \<and> (\<forall>e. paid (used_since e (jl_ledger s)) (epoch_start (jl_filter s) e) (jl_credited s))
     \<and> tb_capacityUnits (jl_credited s) + tb_refillPerMs (jl_credited s) * (2 * cf_epochMs (jl_filter s))
         < ul_capacity (jl_ledger s) * UNIT"

lemma epochNow_cong: "cf_t0 g = cf_t0 f \<Longrightarrow> cf_epochMs g = cf_epochMs f \<Longrightarrow> epochNow t g = epochNow t f"
  by (simp add: epochNow_def)

lemma epochNow_mono: "t \<le> u \<Longrightarrow> 0 < cf_epochMs f \<Longrightarrow> epochNow t f \<le> epochNow u f"
  unfolding epochNow_def by (intro max.mono floor_mono divide_right_mono) auto

lemma epoch_start_le:
  assumes "0 < cf_epochMs f" "cf_t0 f \<le> t"
  shows "epoch_start f (epochNow t f) \<le> \<lfloor>t\<rfloor>"
proof -
  let ?E = "real_of_int (cf_epochMs f)"
  have "0 \<le> (t - cf_t0 f) / ?E" using assms by simp
  then have "epochNow t f = \<lfloor>(t - cf_t0 f) / ?E\<rfloor>" by (simp add: epochNow_def)
  then have "real_of_int (epochNow t f) \<le> (t - cf_t0 f) / ?E" by linarith
  then have "real_of_int (epochNow t f) * ?E \<le> t - cf_t0 f"
    using assms(1) by (simp add: pos_le_divide_eq)
  then show ?thesis unfolding epoch_start_def by (intro floor_mono) simp
qed

lemma epoch_start_mono: "0 < cf_epochMs f \<Longrightarrow> e \<le> e' \<Longrightarrow> epoch_start f e \<le> epoch_start f e'"
  unfolding epoch_start_def by (intro floor_mono) (simp add: mult_right_mono)

lemma two_epochs:
  assumes "0 < cf_epochMs f"
  shows "\<lfloor>t\<rfloor> - epoch_start f (epochNow t f - 1) \<le> 2 * cf_epochMs f"
proof -
  let ?E = "real_of_int (cf_epochMs f)" and ?e = "epochNow t f"
  have "(t - cf_t0 f) / ?E < real_of_int ?e + 1" unfolding epochNow_def by linarith
  then have "t - cf_t0 f < (real_of_int ?e + 1) * ?E" using assms by (simp add: pos_divide_less_eq)
  then have "t \<le> (cf_t0 f + real_of_int ((?e - 1) * cf_epochMs f)) + real_of_int (2 * cf_epochMs f)"
    by (simp add: algebra_simps)
  then have "\<lfloor>t\<rfloor> \<le> \<lfloor>(cf_t0 f + real_of_int ((?e - 1) * cf_epochMs f)) + real_of_int (2 * cf_epochMs f)\<rfloor>"
    by (rule floor_mono)
  also have "\<dots> = epoch_start f (?e - 1) + 2 * cf_epochMs f"
    unfolding epoch_start_def by (rule floor_add_int [symmetric])
  finally show ?thesis by simp
qed

lemma filter_fold_frame:
  "cf_t0 (fold apply_filter ops f) = cf_t0 f" "cf_epochMs (fold apply_filter ops f) = cf_epochMs f"
proof -
  have "cf_t0 (apply_filter op f) = cf_t0 f \<and> cf_epochMs (apply_filter op f) = cf_epochMs f" for op f
    by (cases op) (simp_all add: apply_filter_def has_state hasInActive_state)
  then show "cf_t0 (fold apply_filter ops f) = cf_t0 f" "cf_epochMs (fold apply_filter ops f) = cf_epochMs f"
    by (induction ops arbitrary: f) simp_all
qed

lemma epoch_start_cong: "cf_t0 g = cf_t0 f \<Longrightarrow> cf_epochMs g = cf_epochMs f \<Longrightarrow> epoch_start g e = epoch_start f e"
  by (simp add: epoch_start_def)

text \<open>The clock reading of a filter operation.\<close>

primrec filter_op_time :: "filter_op \<Rightarrow> instant" where
  "filter_op_time (FAdvance t) = t"
| "filter_op_time (FInsert t d) = t"
| "filter_op_time (FHas t d) = t"
| "filter_op_time (FActive t d) = t"

lemma apply_filter_epoch_eq:
  "cf_epoch (apply_filter op f) = max (cf_epoch f) (epochNow (filter_op_time op) f)"
  by (cases op) (simp_all add: apply_filter_def has_state hasInActive_state)

lemma filter_fold_epoch:
  assumes "0 < cf_epochMs f" "cf_epoch f \<le> epochNow t f" "\<forall>op \<in> set ops. filter_op_time op \<le> t"
  shows "cf_epoch (fold apply_filter ops f) \<le> epochNow t f"
  using assms
proof (induction ops arbitrary: f)
  case (Cons op ops)
  let ?f = "apply_filter op f"
  have fr: "cf_t0 ?f = cf_t0 f" "cf_epochMs ?f = cf_epochMs f" using filter_fold_frame [of "[op]" f] by simp_all
  have "cf_epoch ?f \<le> epochNow t f"
    using Cons.prems epochNow_mono [of "filter_op_time op" t f] by (simp add: apply_filter_epoch_eq)
  moreover have "epochNow t ?f = epochNow t f" by (rule epochNow_cong [OF fr])
  ultimately show ?case using Cons.IH [of ?f] Cons.prems fr by simp
qed simp

lemma clocked_later:
  assumes "clocked t s" "t \<le> u"
  shows "clocked u s"
proof -
  have E: "0 < cf_epochMs (jl_filter s)" using assms(1) by (simp add: clocked_def lanes_inv_def filter_inv_def)
  have "epochNow t (jl_filter s) \<le> epochNow u (jl_filter s)" by (rule epochNow_mono [OF assms(2) E])
  moreover have "\<lfloor>t\<rfloor> \<le> \<lfloor>u\<rfloor>" by (rule floor_mono [OF assms(2)])
  ultimately show ?thesis using assms by (auto simp: clocked_def)
qed

text \<open>Replacing the filter by a later one, and the ledger by a smaller one.\<close>

lemma clocked_filter_ledger:
  assumes "clocked t s" "\<forall>op \<in> set ops. filter_op_time op \<le> t"
    and "ledger_inv l" "ul_maxUses l = ul_maxUses (jl_ledger s)" "ul_capacity l = ul_capacity (jl_ledger s)"
    and "\<And>e. used_since e l \<le> used_since e (jl_ledger s)"
  shows "clocked t (s\<lparr>jl_filter := fold apply_filter ops (jl_filter s), jl_ledger := l\<rparr>)"
proof -
  let ?f = "fold apply_filter ops (jl_filter s)"
  have E: "0 < cf_epochMs (jl_filter s)" using assms(1) by (simp add: clocked_def lanes_inv_def filter_inv_def)
  have fr: "cf_t0 ?f = cf_t0 (jl_filter s)" "cf_epochMs ?f = cf_epochMs (jl_filter s)"
    by (simp_all add: filter_fold_frame)
  have "cf_epoch ?f \<le> epochNow t (jl_filter s)"
    using assms(1,2) E by (intro filter_fold_epoch) (simp_all add: clocked_def)
  moreover have "epochNow t ?f = epochNow t (jl_filter s)" by (rule epochNow_cong [OF fr])
  moreover have "paid (used_since e l) (epoch_start ?f e) (jl_credited s)" for e
    using paid_antimono [OF _ used_since_nonneg assms(6)] assms(1)
    by (simp add: epoch_start_cong [OF fr] clocked_def)
  ultimately show ?thesis
    using assms fr by (simp add: clocked_def lanes_inv_def filter_fold_inv)
qed

lemma clocked_unverified:
  "clocked t s \<Longrightarrow> bucket_inv b \<Longrightarrow> clocked t (s\<lparr>jl_unverified := b\<rparr>)"
  by (simp add: clocked_def lanes_inv_def)

text \<open>A credited take, at a reading no earlier than the start of the epoch it commits to.\<close>

lemma clocked_credited:
  assumes "clocked t s" "take_token t3 (jl_credited s) = (b, tk)" "t \<le> t3"
    and "ep \<le> epochNow t (jl_filter s)"
  shows "clocked t3 (s\<lparr>jl_credited := b, jl_ledger := (if tk_ok tk then commit k ep (jl_ledger s) else jl_ledger s)\<rparr>)"
proof -
  have inv: "bucket_inv (jl_credited s)" "ledger_inv (jl_ledger s)" "0 < cf_epochMs (jl_filter s)"
    "cf_t0 (jl_filter s) \<le> t"
    using assms(1) by (simp_all add: clocked_def lanes_inv_def filter_inv_def)
  have c3: "clocked t3 s" by (rule clocked_later [OF assms(1,3)])
  have pd: "paid (used_since e (jl_ledger s)) (epoch_start (jl_filter s) e) (jl_credited s)" for e
    using assms(1) by (simp add: clocked_def)
  note take = paid_take [OF inv(1) pd used_since_nonneg assms(2)]
  have start: "epoch_start (jl_filter s) e \<le> \<lfloor>t3\<rfloor>" if "e \<le> ep" for e
  proof -
    have "epoch_start (jl_filter s) e \<le> epoch_start (jl_filter s) (epochNow t (jl_filter s))"
      using that assms(4) by (intro epoch_start_mono [OF inv(3)]) linarith
    also have "\<dots> \<le> \<lfloor>t\<rfloor>" by (rule epoch_start_le [OF inv(3,4)])
    also have "\<dots> \<le> \<lfloor>t3\<rfloor>" by (rule floor_mono [OF assms(3)])
    finally show ?thesis .
  qed
  let ?l = "if tk_ok tk then commit k ep (jl_ledger s) else jl_ledger s"
  have "paid (used_since e ?l) (epoch_start (jl_filter s) e) b" for e
  proof (cases "tk_ok tk \<and> e \<le> ep")
    case True
    then show ?thesis
      using paid_antimono [OF take(2) used_since_nonneg] start used_since_commit [of e k ep "jl_ledger s"] by auto
  next
    case False
    then show ?thesis
      using paid_antimono [OF take(1) used_since_nonneg] used_since_commit [of e k ep "jl_ledger s"] by auto
  qed
  moreover have "bucket_inv b" "tb_capacityUnits b = tb_capacityUnits (jl_credited s)"
    "tb_refillPerMs b = tb_refillPerMs (jl_credited s)"
    using assms(2) take_token_inv [OF inv(1), of t3] take_token_fields [of t3 "jl_credited s"] by auto
  moreover have "tb_lastMs b \<le> \<lfloor>t3\<rfloor>" using take(3) c3 by (simp add: clocked_def)
  ultimately show ?thesis using c3 inv(2) by (simp add: clocked_def lanes_inv_def commit_inv)
qed

lemma clocked_epoch:
  assumes "clocked t s" "t \<le> t1"
  shows "cf_epoch (advance t1 (jl_filter s)) = epochNow t1 (jl_filter s)"
proof -
  have "clocked t1 s" by (rule clocked_later [OF assms])
  then show ?thesis by (simp add: clocked_def)
qed

text \<open>With the clock moving forward, a new record always finds a slot.\<close>

lemma clocked_can_allocate:
  assumes "clocked t s" "ep = epochNow t (jl_filter s)"
  shows "snd (canAllocate ep (maybePurge ep (jl_ledger s)))"
proof (rule ccontr)
  assume refused: "\<not> ?thesis"
  define p where "p = purge ep (maybePurge ep (jl_ledger s))"
  have full: "ul_capacity (jl_ledger s) \<le> ledger_size p"
    using refused by (auto simp: canAllocate_def Let_def p_def split: if_splits)
  let ?b = "jl_credited s" and ?E = "cf_epochMs (jl_filter s)" and ?st = "epoch_start (jl_filter s) (ep - 1)"
  have inv: "bucket_inv ?b" "0 < ?E" using assms(1) by (simp_all add: clocked_def lanes_inv_def filter_inv_def)
  have size: "ledger_size p = used_since (ep - 1) p" unfolding p_def by (rule ledger_size_purged [symmetric])
  have "used_since (ep - 1) p \<le> used_since (ep - 1) (jl_ledger s)"
    unfolding p_def using used_since_purge used_since_maybePurge order_trans by blast
  moreover have "paid (used_since (ep - 1) (jl_ledger s)) ?st ?b" using assms(1) by (simp add: clocked_def)
  ultimately have "paid (used_since (ep - 1) p) ?st ?b" using paid_antimono used_since_nonneg by blast
  then have paid: "ledger_size p * UNIT + tb_level ?b
      \<le> tb_capacityUnits ?b + tb_refillPerMs ?b * max 0 (tb_lastMs ?b - ?st)"
    by (simp add: size paid_def)
  have "tb_lastMs ?b \<le> \<lfloor>t\<rfloor>" using assms(1) by (simp add: clocked_def)
  then have "tb_lastMs ?b - ?st \<le> \<lfloor>t\<rfloor> - ?st" by simp
  also have "\<dots> \<le> 2 * ?E" unfolding assms(2) by (rule two_epochs [OF inv(2)])
  finally have "tb_lastMs ?b - ?st \<le> 2 * ?E" .
  then have "max 0 (tb_lastMs ?b - ?st) \<le> 2 * ?E" using inv(2) by simp
  then have "tb_refillPerMs ?b * max 0 (tb_lastMs ?b - ?st) \<le> tb_refillPerMs ?b * (2 * ?E)"
    using inv(1) by (intro mult_left_mono) (auto simp: bucket_inv_def)
  moreover have "tb_capacityUnits ?b + tb_refillPerMs ?b * (2 * ?E) < ul_capacity (jl_ledger s) * UNIT"
    using assms(1) by (simp add: clocked_def)
  moreover have "0 \<le> tb_level ?b" using inv(1) by (simp add: bucket_inv_def)
  moreover have "ul_capacity (jl_ledger s) * UNIT \<le> ledger_size p * UNIT"
    using full by (simp add: mult_right_mono UNIT_def)
  ultimately show False using paid by linarith
qed

lemma decide_clocked:
  assumes "clocked t s" "decide dig tag (t1, t2, t3) r s = (s', d)" "t \<le> t1" "t1 \<le> t2" "t2 \<le> t3"
  shows "clocked t3 s' \<and> ld_errorKind d = None"
proof -
  define ep where "ep = cf_epoch (advance t1 (jl_filter s))"
  define ops where "ops = decide_filter_ops dig t1 t2 r"
  define l1 where "l1 = maybePurge ep (jl_ledger s)"
  have c1: "clocked t1 s" and c2: "clocked t2 s" and c3: "clocked t3 s"
    using clocked_later [OF assms(1)] assms(3-5) by auto
  have ep: "ep = epochNow t1 (jl_filter s)" unfolding ep_def by (rule clocked_epoch [OF assms(1,3)])
  have ops: "\<forall>op \<in> set ops. filter_op_time op \<le> t2"
    using assms(4) by (auto simp: ops_def decide_filter_ops_def Let_def split: option.splits)
  have linv: "ledger_inv (jl_ledger s)" using c1 by (simp add: clocked_def lanes_inv_def)
  have keep: "clocked t2 (s\<lparr>jl_filter := fold apply_filter ops (jl_filter s), jl_ledger := l\<rparr>)"
    if "l = l1 \<or> l = fst (canAllocate ep l1)" for l
  proof (rule clocked_filter_ledger [OF c2 ops])
    show "ledger_inv l" using that linv by (auto simp: l1_def maybePurge_inv canAllocate_inv)
    show "ul_maxUses l = ul_maxUses (jl_ledger s)" "ul_capacity l = ul_capacity (jl_ledger s)"
      using that by (auto simp: l1_def)
    show "used_since e l \<le> used_since e (jl_ledger s)" for e
      using that used_since_maybePurge [of e ep "jl_ledger s"] used_since_canAllocate [of e ep l1]
      by (auto simp: l1_def)
  qed
  show ?thesis using assms(2)
  proof (cases rule: decide_cases)
    case opened
    then show ?thesis using c3 by simp
  next
    case (unverified b tk)
    have "clocked t3 (s\<lparr>jl_filter := fold apply_filter ops (jl_filter s), jl_ledger := l1\<rparr>)"
      by (rule clocked_later [OF keep assms(5)]) simp
    moreover have "bucket_inv b"
      using unverified(2) c1 take_token_inv [of "jl_unverified s" t3] by (simp add: clocked_def lanes_inv_def)
    ultimately have "clocked t3 s'"
      using clocked_unverified unverified(3) by (simp add: ops_def l1_def ep_def del: advance_fields)
    then show ?thesis using unverified(4) by (simp add: with_taken_def)
  next
    case (full tok l)
    have "snd (canAllocate ep l1)" unfolding l1_def by (rule clocked_can_allocate [OF c1 ep])
    then show ?thesis using full(3) by (simp add: l1_def ep_def del: advance_fields)
  next
    case (credited tok l b tk)
    let ?s = "s\<lparr>jl_filter := fold apply_filter ops (jl_filter s), jl_ledger := l\<rparr>"
    have l: "l = l1 \<or> l = fst (canAllocate ep l1)"
      using credited(4) by (auto simp: l1_def ep_def simp del: advance_fields split: option.splits)
    have "epochNow t1 (jl_filter s) \<le> epochNow t2 (jl_filter s)"
      using c1 by (intro epochNow_mono [OF assms(4)]) (simp add: clocked_def lanes_inv_def filter_inv_def)
    moreover have "epochNow t2 (jl_filter ?s) = epochNow t2 (jl_filter s)"
      by (rule epochNow_cong) (simp_all add: filter_fold_frame)
    ultimately have "ep \<le> epochNow t2 (jl_filter ?s)" using ep by simp
    moreover have "take_token t3 (jl_credited ?s) = (b, tk)" using credited(5) by simp
    ultimately have "clocked t3 (?s\<lparr>jl_credited := b, jl_ledger := (if tk_ok tk then commit (b64_encode (dig tok)) ep l else l)\<rparr>)"
      using clocked_credited [OF keep [OF l] _ assms(5), of b tk ep "b64_encode (dig tok)"]
      by (cases "tk_ok tk") simp_all
    then have "clocked t3 s'"
      using credited(6) by (cases "tk_ok tk") (simp_all add: ops_def ep_def del: advance_fields)
    then show ?thesis using credited(7) by (simp add: with_taken_def)
  qed
qed

subsection \<open>Runs\<close>

datatype lanes_op =
    LDecide instant instant instant layer_request
  | LEnroll instant instant instant string
  | LRecord lane_decision
  | LSnapshot instant instant instant

primrec op_reads :: "lanes_op \<Rightarrow> instant list" where
  "op_reads (LDecide a b c r) = [a, b, c]"
| "op_reads (LEnroll a b c tok) = [a, b, c]"
| "op_reads (LRecord d) = []"
| "op_reads (LSnapshot a b c) = [a, b, c]"

primrec apply_lanes ::
  "(string \<Rightarrow> bytes) \<Rightarrow> (bytes \<Rightarrow> string) \<Rightarrow> lanes_op \<Rightarrow> journey_lanes \<Rightarrow> journey_lanes" where
  "apply_lanes dig tag (LDecide a b c r) s = fst (decide dig tag (a, b, c) r s)"
| "apply_lanes dig tag (LEnroll a b c tok) s = fst (enroll dig tag (a, b, c) tok s)"
| "apply_lanes dig tag (LRecord d) s = record_decision d s"
| "apply_lanes dig tag (LSnapshot a b c) s = fst (lanes_snapshot_of (a, b, c) s)"

definition run_lanes ::
  "(string \<Rightarrow> bytes) \<Rightarrow> (bytes \<Rightarrow> string) \<Rightarrow> lanes_op list \<Rightarrow> journey_lanes \<Rightarrow> journey_lanes" where
  "run_lanes dig tag = fold (apply_lanes dig tag)"

text \<open>The filter operations of an enrollment, and of any operation.\<close>

definition enroll_filter_ops ::
  "(string \<Rightarrow> bytes) \<Rightarrow> instant \<Rightarrow> instant \<Rightarrow> instant \<Rightarrow> string \<Rightarrow> journey_lanes \<Rightarrow> filter_op list" where
  "enroll_filter_ops dig t1 t2 t3 tok s =
     (let d = dig tok; f = advance t1 (jl_filter s) in
      if committed (b64_encode d) (cf_epoch f) (jl_ledger s) \<noteq> None then [FAdvance t1]
      else if snd (hasInActive t2 d f) then [FAdvance t1, FActive t2 d]
      else [FAdvance t1, FActive t2 d, FInsert t3 d])"

primrec lanes_filter_ops :: "(string \<Rightarrow> bytes) \<Rightarrow> lanes_op \<Rightarrow> journey_lanes \<Rightarrow> filter_op list" where
  "lanes_filter_ops dig (LDecide a b c r) s = decide_filter_ops dig a b r"
| "lanes_filter_ops dig (LEnroll a b c tok) s = enroll_filter_ops dig a b c tok s"
| "lanes_filter_ops dig (LRecord d) s = []"
| "lanes_filter_ops dig (LSnapshot a b c) s = [FAdvance a]"

lemma enroll_state:
  "fst (enroll dig tag (t1, t2, t3) tok s) =
     s\<lparr>jl_filter := fold apply_filter (enroll_filter_ops dig t1 t2 t3 tok s) (jl_filter s)\<rparr>"
  by (auto simp: enroll_def enroll_filter_ops_def Let_def apply_filter_def case_prod_beta)

lemma record_state:
  "jl_filter (record_decision d s) = jl_filter s" "jl_credited (record_decision d s) = jl_credited s"
  "jl_unverified (record_decision d s) = jl_unverified s" "jl_ledger (record_decision d s) = jl_ledger s"
  "jl_maxUses (record_decision d s) = jl_maxUses s"
  by (auto simp: record_decision_def Let_def split: option.splits)

lemma snapshot_state:
  "fst (lanes_snapshot_of (t1, t2, t3) s) = s\<lparr>jl_filter := advance t1 (jl_filter s),
     jl_ledger := maybePurge (cf_epoch (advance t1 (jl_filter s))) (jl_ledger s),
     jl_credited := refill t2 (jl_credited s), jl_unverified := refill t3 (jl_unverified s)\<rparr>"
  by (simp add: lanes_snapshot_of_def filter_stats_of_def bucket_snapshot_of_def levelUnits_def Let_def
      case_prod_beta)

lemma decide_filter:
  assumes "decide dig tag (t1, t2, t3) r s = (s', d)"
  shows "jl_filter s' = fold apply_filter (decide_filter_ops dig t1 t2 r) (jl_filter s)"
  using assms by (cases rule: decide_cases) (simp_all add: decide_filter_ops_def)

lemma lanes_op_filter:
  "jl_filter (apply_lanes dig tag op s) = fold apply_filter (lanes_filter_ops dig op s) (jl_filter s)"
proof (cases op)
  case (LDecide a b c r)
  then show ?thesis
    using decide_filter [of dig tag a b c r s] by (cases "decide dig tag (a, b, c) r s") simp
qed (simp_all add: enroll_state record_state snapshot_state apply_filter_def)

lemma apply_lanes_clocked:
  assumes "clocked t s" "sorted (t # op_reads op)"
  shows "clocked (last (t # op_reads op)) (apply_lanes dig tag op s)"
proof (cases op)
  case (LDecide a b c r)
  then show ?thesis
    using assms decide_clocked [OF assms(1), of dig tag a b c r]
    by (cases "decide dig tag (a, b, c) r s") auto
next
  case (LEnroll a b c tok)
  have c: "clocked c s" using clocked_later [OF assms(1), of c] assms(2) LEnroll by simp
  have "\<forall>op \<in> set (enroll_filter_ops dig a b c tok s). filter_op_time op \<le> c"
    using assms(2) LEnroll by (auto simp: enroll_filter_ops_def Let_def)
  from clocked_filter_ledger [OF c this, of "jl_ledger s"] c show ?thesis
    by (simp add: LEnroll enroll_state clocked_def lanes_inv_def)
next
  case (LRecord d)
  then show ?thesis using assms(1) by (simp add: clocked_def lanes_inv_def record_state)
next
  case (LSnapshot a b c)
  let ?ep = "cf_epoch (advance a (jl_filter s))"
  let ?s = "s\<lparr>jl_filter := fold apply_filter [FAdvance a] (jl_filter s), jl_ledger := maybePurge ?ep (jl_ledger s)\<rparr>"
  have c: "clocked c s" and ord: "a \<le> c" "b \<le> c"
    using clocked_later [OF assms(1), of c] assms(2) LSnapshot by auto
  have "clocked c ?s"
    using c ord by (intro clocked_filter_ledger)
      (auto simp: used_since_maybePurge clocked_def lanes_inv_def maybePurge_inv simp del: advance_fields)
  moreover have "paid (used_since e (jl_ledger ?s)) (epoch_start (jl_filter ?s) e) (refill b (jl_credited s))" for e
    using calculation by (intro paid_refill) (auto simp: clocked_def lanes_inv_def)
  moreover have "tb_lastMs (refill b (jl_credited s)) \<le> \<lfloor>c\<rfloor>"
    using c floor_mono [OF ord(2)] by (simp add: refill_lastMs clocked_def)
  moreover have "tb_capacityUnits (refill b (jl_credited s)) = tb_capacityUnits (jl_credited s)"
    "tb_refillPerMs (refill b (jl_credited s)) = tb_refillPerMs (jl_credited s)"
    using refill_conserves [of "jl_credited s" b] by (auto simp: conserves_def)
  ultimately show ?thesis
    by (simp add: LSnapshot snapshot_state clocked_def lanes_inv_def refill_inv apply_filter_def)
qed

lemma run_lanes_clocked:
  assumes "clocked t s" "sorted (t # concat (map op_reads ops))"
  shows "clocked (last (t # concat (map op_reads ops))) (run_lanes dig tag ops s)"
  using assms
proof (induction ops arbitrary: t s)
  case Nil
  then show ?case by (simp add: run_lanes_def)
next
  case (Cons op ops)
  let ?t = "last (t # op_reads op)"
  have "sorted (t # op_reads op)" using Cons.prems(2) by (auto simp: sorted_append)
  from apply_lanes_clocked [OF Cons.prems(1) this] have c: "clocked ?t (apply_lanes dig tag op s)" .
  have "?t \<in> set (t # op_reads op)" by (rule last_in_set) simp
  then have "sorted (?t # concat (map op_reads ops))"
    using Cons.prems(2) by (auto simp: sorted_append split: if_splits)
  from Cons.IH [OF c this]
  have "clocked (last (?t # concat (map op_reads ops))) (run_lanes dig tag (op # ops) s)"
    by (simp add: run_lanes_def)
  moreover have "last (last (t # ys) # zs) = last (t # ys @ zs)" for ys zs :: "instant list"
    by (cases "zs = []") (auto simp: last_append)
  ultimately show ?case by (simp only: list.map concat.simps)
qed

subsection \<open>A new instance\<close>

lemma new_lanes_parts:
  assumes "new_lanes c (t1, t2, t3) = Inr s"
  shows "requiredLedgerCapacity (lc_creditedCapacity c) (lc_creditedRefill c) (lc_epochMs c) \<le> ul_capacity (jl_ledger s)"
    and "new_filter (lc_filterBits c) (lc_filterHashes c) (lc_epochMs c) t1 = Inr (jl_filter s)"
    and "new_bucket (lc_creditedCapacity c) (lc_creditedRefill c) t2 = Inr (jl_credited s)"
    and "new_bucket (lc_unverifiedCapacity c) (lc_unverifiedRefill c) t3 = Inr (jl_unverified s)"
    and "new_use_ledger (lc_ledgerCapacity c) (lc_maxUses c) = Inr (jl_ledger s)" "jl_maxUses s = lc_maxUses c"
  using assms by (auto simp: new_lanes_def Let_def new_use_ledger_def split: if_splits sum.splits)

lemma new_use_ledger_inv:
  "new_use_ledger cap m = Inr l \<Longrightarrow> ledger_inv l \<and> ul_entries l = [] \<and> ul_maxUses l = m"
  by (auto simp: new_use_ledger_def ledger_inv_def is_positive_safe_integer_def split: if_splits)

lemma new_bucket_rate:
  assumes "new_bucket c r t = Inr b"
  shows "real_of_int (tb_refillPerMs b) = r * 1000" "tb_capacityUnits b = c * UNIT"
  using assms by (auto simp: new_bucket_def split: if_splits)

lemma sizing_rule:
  assumes "requiredLedgerCapacity cap r E \<le> L" "real_of_int q = r * 1000"
  shows "cap * UNIT + q * (2 * E) < L * UNIT"
proof -
  have "r * 2 * real_of_int E / 1000 \<le> real_of_int (L - cap - 1)"
  proof (subst ceiling_le_iff [symmetric])
    show "\<lceil>r * 2 * real_of_int E / 1000\<rceil> \<le> L - cap - 1" using assms(1) by (simp add: requiredLedgerCapacity_def)
  qed
  then have "r * 1000 * (2 * real_of_int E) \<le> real_of_int (L - cap - 1) * 1000000" by simp
  then have "real_of_int (q * (2 * E)) \<le> real_of_int ((L - cap - 1) * 1000000)"
    by (simp only: assms(2) [symmetric] of_int_mult of_int_numeral)
  then have "q * (2 * E) \<le> (L - cap - 1) * 1000000" by (simp only: of_int_le_iff)
  then show ?thesis by (simp add: UNIT_def algebra_simps)
qed

lemma power_of_two_dvd:
  fixes n :: int
  assumes "n AND (n - 1) = 0" "8 \<le> n"
  shows "8 dvd n"
proof (rule ccontr)
  assume "\<not> 8 dvd n"
  then have "n div 8 = (n - 1) div 8" using assms(2) by presburger
  then have "drop_bit 3 n = drop_bit 3 (n - 1)" by (simp add: drop_bit_eq_div)
  then have "drop_bit 3 n = drop_bit 3 (n AND (n - 1))" by (simp add: drop_bit_and)
  then have "n div 8 = 0" using assms(1) by (simp add: drop_bit_eq_div)
  then show False using assms(2) by presburger
qed

lemma new_filter_inv:
  assumes "new_filter bits hashes epochMs now = Inr f"
  shows "filter_inv f" "cf_t0 f = now" "cf_epoch f = 0" "cf_epochMs f = epochMs"
proof -
  have b: "64 \<le> bits" "bits \<le> 2 ^ 30" "bits AND (bits - 1) = 0" "1 \<le> hashes" "0 < epochMs"
    "f = \<lparr>cf_bits = bits, cf_hashes = hashes, cf_epochMs = epochMs, cf_t0 = now,
        cf_arrays = [replicate (nat (bits div 8)) 0, replicate (nat (bits div 8)) 0],
        cf_counts = [0, 0], cf_epoch = 0, cf_inserts = 0, cf_lookups = 0, cf_hits = 0, cf_rotations = 0\<rparr>"
    using assms by (auto simp: new_filter_def is_positive_safe_integer_def split: if_splits)
  have "8 dvd bits" using b(1,3) by (intro power_of_two_dvd) auto
  then have "8 * (bits div 8) = bits" by simp
  then show "filter_inv f" using b(1,2,4,5) unfolding b(6) by (auto simp: filter_inv_def less_2_cases_iff)
  show "cf_t0 f = now" "cf_epoch f = 0" "cf_epochMs f = epochMs" by (simp_all add: b(6))
qed

lemma new_lanes_clocked:
  assumes "new_lanes c (t1, t2, t3) = Inr s" "t1 \<le> t2" "t2 \<le> t3"
  shows "clocked t3 s"
proof -
  note parts = new_lanes_parts [OF assms(1)]
  note cb = new_bucket_inv [OF parts(3)] and ub = new_bucket_inv [OF parts(4)]
  have fi: "filter_inv (jl_filter s)" "cf_t0 (jl_filter s) = t1" "cf_epoch (jl_filter s) = 0"
    "cf_epochMs (jl_filter s) = lc_epochMs c"
    by (rule new_filter_inv [OF parts(2)])+
  note led = new_use_ledger_inv [OF parts(5)]
  have "paid (used_since e (jl_ledger s)) st (jl_credited s)" for e st
    using cb(1,2) led by (simp add: paid_def used_since_def bucket_inv_def)
  moreover have "\<lfloor>t2\<rfloor> \<le> \<lfloor>t3\<rfloor>" using assms(3) by (rule floor_mono)
  moreover have "tb_capacityUnits (jl_credited s) + tb_refillPerMs (jl_credited s) * (2 * cf_epochMs (jl_filter s))
      < ul_capacity (jl_ledger s) * UNIT"
    unfolding fi(4) new_bucket_rate(2) [OF parts(3)] by (rule sizing_rule [OF parts(1) new_bucket_rate(1) [OF parts(3)]])
  ultimately show ?thesis
    using fi cb ub led parts(6) assms(2,3) by (simp add: clocked_def lanes_inv_def)
qed

subsection \<open>The uses of a token\<close>

lemma committed_pos: "ledger_inv l \<Longrightarrow> committed k ep l = Some n \<Longrightarrow> 1 \<le> n"
  by (auto simp: committed_def ledger_inv_def split: option.splits if_splits dest: map_of_SomeD)

lemma commit_uses:
  assumes "ledger_inv l" "n = (case committed k ep l of None \<Rightarrow> 0 | Some n \<Rightarrow> n)" "n < ul_maxUses l"
  shows "0 \<le> n" "(\<lambda>k'. committed k' ep (commit k ep l)) = (\<lambda>k'. committed k' ep l)(k \<mapsto> n + 1)"
    "ul_violations (commit k ep l) = ul_violations l"
proof -
  show "0 \<le> n" using assms(2) committed_pos [OF assms(1), of k ep] by (cases "committed k ep l") force+
  have "committed k ep (commit k ep l) = Some (n + 1)"
    using committed_commit_same [OF assms(1), of k ep] assms(2,3) by (cases "committed k ep l") auto
  then show "(\<lambda>k'. committed k' ep (commit k ep l)) = (\<lambda>k'. committed k' ep l)(k \<mapsto> n + 1)"
    using committed_commit_other by (auto simp: fun_eq_iff)
  show "ul_violations (commit k ep l) = ul_violations l"
    using assms(2,3) by (auto simp: commit_def allocate_def Let_def committed_def split: option.splits)
qed

lemma violations_kept [simp]:
  "ul_violations (maybePurge ep l) = ul_violations l" "ul_violations (fst (canAllocate ep l)) = ul_violations l"
  by (simp_all add: maybePurge_def purge_def canAllocate_def Let_def)

lemma last_le_next: "sorted (ys @ t # zs) \<Longrightarrow> ys \<noteq> [] \<Longrightarrow> last ys \<le> t"
  by (simp add: sorted_append)

lemma new_run_clocked:
  assumes "new_lanes c (a1, a2, a3) = Inr s" "sorted ([a1, a2, a3] @ concat (map op_reads ops) @ t # ts)"
  shows "clocked t (run_lanes dig tag ops s)"
proof -
  let ?xs = "a3 # concat (map op_reads ops)"
  have c: "clocked a3 s" using assms by (intro new_lanes_clocked [OF assms(1)]) auto
  have srt: "sorted (?xs @ t # ts)" using assms(2) by auto
  then have "sorted ?xs" by (simp add: sorted_append)
  from run_lanes_clocked [OF c this, of dig tag] show ?thesis
    by (rule clocked_later) (rule last_le_next [OF srt], simp)
qed

lemma run_lanes_filter: "\<exists>fops. jl_filter (run_lanes dig tag ops s) = fold apply_filter fops (jl_filter s)"
proof (induction ops arbitrary: s)
  case Nil
  show ?case by (rule exI [of _ "[]"]) (simp add: run_lanes_def)
next
  case (Cons op ops)
  from Cons.IH [of "apply_lanes dig tag op s"] obtain fops
    where "jl_filter (run_lanes dig tag (op # ops) s) = fold apply_filter fops (jl_filter (apply_lanes dig tag op s))"
    by (auto simp: run_lanes_def)
  then show ?case
    by (intro exI [of _ "lanes_filter_ops dig op s @ fops"]) (simp add: lanes_op_filter)
qed

lemma enroll_inserts:
  assumes "enroll dig tag (t1, t2, t3) tok s = (s1, Some tg)"
  obtains f where "filter_inv (jl_filter s) \<Longrightarrow> filter_inv f" "jl_filter s1 = apply_filter (FInsert t3 (dig tok)) f"
    "s1 = apply_lanes dig tag (LEnroll t1 t2 t3 tok) s"
proof
  show "jl_filter s1 = apply_filter (FInsert t3 (dig tok)) (fst (hasInActive t2 (dig tok) (advance t1 (jl_filter s))))"
    using assms by (auto simp: enroll_def Let_def apply_filter_def case_prod_beta split: if_splits)
  show "s1 = apply_lanes dig tag (LEnroll t1 t2 t3 tok) s" using assms by simp
qed (simp add: hasInActive_state advance_inv)

subsection \<open>Properties\<close>

text \<open>Every decision is in the closed matrix and carries exactly the fields the validator demands.\<close>

lemma every_decision_well_formed:
  "l2_decision_invalid \<notin> fst ` set (l2_decision_findings v final (snd (decide dig tag rd r s)))"
proof -
  obtain t1 t2 t3 where rd: "rd = (t1, t2, t3)" by (cases rd)
  obtain s' d where d: "decide dig tag rd r s = (s', d)" by (cases "decide dig tag rd r s")
  from d [unfolded rd] show ?thesis unfolding d snd_conv
    by (cases rule: decide_cases)
      (auto simp: l2_decision_findings_def Let_def isValidDecision_def with_taken_def flag_def)
qed

text \<open>C10. Lanes do not spill into each other, and the uses of a token are exact. A decision takes from the
  bucket of its own lane only. A decision without credit tag leaves every token's use count alone. One with
  a credit tag belongs to a mutation that carried a token with uses left, and raises the count of that
  token, and of no other, by exactly one. The ledger never records a violation.\<close>

theorem decision_spends_only_its_lane:
  assumes "lanes_inv s" "decide dig tag (t1, t2, t3) r s = (s', d)"
  defines "uses q \<equiv> \<lambda>k. committed k (cf_epoch (advance t1 (jl_filter s))) (jl_ledger q)"
  shows "jl_credited s' = (if ld_lane d = Some LaneCredited then fst (take_token t3 (jl_credited s)) else jl_credited s)
    \<and> jl_unverified s' = (if ld_lane d = Some LaneUnverified then fst (take_token t3 (jl_unverified s)) else jl_unverified s)
    \<and> (case ld_creditTag d of
         None \<Rightarrow> uses s' = uses s
       | Some tg \<Rightarrow> (\<exists>tok n. extractSubmissionToken r = Some tok \<and> tg = tag (dig tok)
           \<and> n = (case uses s (b64_encode (dig tok)) of None \<Rightarrow> 0 | Some n \<Rightarrow> n)
           \<and> 0 \<le> n \<and> n < jl_maxUses s \<and> uses s' = (uses s)(b64_encode (dig tok) \<mapsto> n + 1)))
    \<and> ul_violations (jl_ledger s') = ul_violations (jl_ledger s)"
proof -
  define ep where "ep = cf_epoch (advance t1 (jl_filter s))"
  define l1 where "l1 = maybePurge ep (jl_ledger s)"
  have li: "ledger_inv (jl_ledger s)" "ul_maxUses (jl_ledger s) = jl_maxUses s"
    using assms(1) by (simp_all add: lanes_inv_def)
  have l1: "ledger_inv l1" "ul_maxUses l1 = jl_maxUses s" "\<And>k. committed k ep l1 = committed k ep (jl_ledger s)"
    "ul_violations l1 = ul_violations (jl_ledger s)"
    using li by (simp_all add: l1_def maybePurge_inv committed_maybePurge)
  have uses: "uses q = (\<lambda>k. committed k ep (jl_ledger q))" for q by (simp add: uses_def ep_def)
  show ?thesis using assms(2)
  proof (cases rule: decide_cases)
    case opened
    then show ?thesis by simp
  next
    case (unverified b tk)
    then have "jl_ledger s' = l1" by (simp add: l1_def ep_def del: advance_fields)
    then show ?thesis using unverified l1 by (simp add: uses with_taken_def)
  next
    case (full tok l)
    then have "jl_ledger s' = fst (canAllocate ep l1)" by (simp add: l1_def ep_def del: advance_fields)
    then show ?thesis using full l1 by (simp add: uses committed_canAllocate)
  next
    case (credited tok l b tk)
    let ?k = "b64_encode (dig tok)"
    note c4 = credited(4) [folded ep_def l1_def]
    note led = credited_ledger [OF l1(1) c4]
    have "l = l1 \<or> l = fst (canAllocate ep l1)" using c4 by (auto split: option.splits)
    then have viol: "ul_violations l = ul_violations (jl_ledger s)" using l1(4) by auto
    have l: "\<And>k. committed k ep l = committed k ep (jl_ledger s)" using led(4) l1(3) by simp
    define n where "n = (case committed ?k ep l of None \<Rightarrow> 0 | Some n \<Rightarrow> n)"
    have "0 < jl_maxUses s" using li by (simp add: ledger_inv_def)
    then have n: "n < ul_maxUses l" using c4 l1 led l by (auto simp: n_def split: option.splits)
    note cu = commit_uses [OF led(1) n_def n]
    have s': "jl_ledger s' = (if tk_ok tk then commit ?k ep l else l)"
      using credited(6) by (simp add: ep_def del: advance_fields)
    show ?thesis
      using credited(2,5,6,7) s' cu viol l n led(2) l1(2) by (auto simp: uses with_taken_def n_def)
  qed
qed

text \<open>C6. The ledger never fills up: for every configuration the constructor accepts and every sequence
  of decisions, enrollments, recordings and snapshots with a clock that does not run backwards, no decision
  ends in the error \<^verbatim>\<open>ledger_full\<close>. The capacity rule of the constructor is enough.\<close>

theorem ledger_never_full:
  assumes "new_lanes c (a1, a2, a3) = Inr s"
    and "sorted ([a1, a2, a3] @ concat (map op_reads ops) @ [t1, t2, t3])"
  shows "ld_errorKind (snd (decide dig tag (t1, t2, t3) r (run_lanes dig tag ops s))) = None"
proof -
  let ?s = "run_lanes dig tag ops s"
  have "clocked t1 ?s" by (rule new_run_clocked [OF assms])
  moreover have "t1 \<le> t2" "t2 \<le> t3" using assms(2) by (simp_all add: sorted_append)
  ultimately show ?thesis
    using decide_clocked [of t1 ?s dig tag t1 t2 t3 r] by (cases "decide dig tag (t1, t2, t3) r ?s") simp
qed

text \<open>C8. A genuine credit is honoured throughout its window. Take any run of an accepted configuration
  with a clock that does not run backwards, in which a token is enrolled when the epoch is \<open>E\<close>, and any
  further operations. A mutation that carries the token, is decided no later than epoch \<open>E + 1\<close> and finds
  uses left is decided in the credited lane, never in the unverified one and never with an error.\<close>

theorem genuine_credit_is_honoured:
  assumes "new_lanes c (a1, a2, a3) = Inr s0" "s = run_lanes dig tag before s0"
    and "enroll dig tag (e1, e2, e3) tok s = (s1, Some tg)" "s2 = run_lanes dig tag after s1"
    and "sorted ([a1, a2, a3] @ concat (map op_reads (before @ LEnroll e1 e2 e3 tok # after)) @ [t1, t2, t3])"
    and "operationClassOf (lr_method r) (lr_target r) = ClsMutation" "extractSubmissionToken r = Some tok"
    and "epochNow t2 (jl_filter s1) \<le> cf_epoch (jl_filter s1) + 1"
    and "case committed (b64_encode (dig tok)) (epochNow t1 (jl_filter s1)) (jl_ledger s2) of
           None \<Rightarrow> True | Some n \<Rightarrow> n < jl_maxUses s2"
  shows "ld_lane (snd (decide dig tag (t1, t2, t3) r s2)) = Some LaneCredited"
proof -
  obtain f where f: "filter_inv (jl_filter s) \<Longrightarrow> filter_inv f" "jl_filter s1 = apply_filter (FInsert e3 (dig tok)) f"
    and s1: "s1 = apply_lanes dig tag (LEnroll e1 e2 e3 tok) s" using enroll_inserts [OF assms(3)] by blast
  obtain fops where fops: "jl_filter s2 = fold apply_filter fops (jl_filter s1)"
    using run_lanes_filter [of dig tag after s1] assms(4) by blast
  have s2: "s2 = run_lanes dig tag (before @ LEnroll e1 e2 e3 tok # after) s0"
    by (simp add: assms(2,4) s1 run_lanes_def)
  have ord: "t1 \<le> t2" "t2 \<le> t3" using assms(5) by (simp_all add: sorted_append)
  have c1: "clocked t1 s2" unfolding s2 by (rule new_run_clocked [OF assms(1,5)])
  have c2: "clocked t2 s2" by (rule clocked_later [OF c1 ord(1)])
  have "clocked e1 s" unfolding assms(2)
    by (rule new_run_clocked [OF assms(1), where ts = "[e2, e3] @ concat (map op_reads after) @ [t1, t2, t3]"])
      (use assms(5) in simp)
  then have inv: "filter_inv f" by (intro f(1)) (simp add: clocked_def lanes_inv_def)
  have now: "epochNow t (jl_filter s2) = epochNow t (jl_filter s1)" for t
    by (rule epochNow_cong) (simp_all add: fops filter_fold_frame)
  have ep: "cf_epoch (advance t1 (jl_filter s2)) = epochNow t1 (jl_filter s1)"
    using clocked_epoch [OF c1 order_refl] now by simp
  have "epochNow t1 (jl_filter s2) \<le> epochNow t2 (jl_filter s2)"
    using c1 by (intro epochNow_mono [OF ord(1)]) (simp add: clocked_def lanes_inv_def filter_inv_def)
  then have win: "cf_epoch (apply_filter (FAdvance t2) (fold apply_filter (fops @ [FAdvance t1]) (jl_filter s1)))
      \<le> cf_epoch (jl_filter s1) + 1"
    using assms(8) c1 c2 ep now [of t2] epochNow_cong [of "advance t1 (jl_filter s2)" "jl_filter s2" t2]
    by (simp add: apply_filter_def fops [symmetric] clocked_def)
  from bloom.found_within_window [OF inv f(2) win]
  have hit: "snd (has t2 (dig tok) (advance t1 (jl_filter s2)))" by (simp add: fops apply_filter_def)
  obtain s3 d where d: "decide dig tag (t1, t2, t3) r s2 = (s3, d)" by (cases "decide dig tag (t1, t2, t3) r s2")
  have ok: "ld_errorKind d = None" using decide_clocked [OF c1 d order_refl ord] by simp
  have "ledger_inv (jl_ledger s2)" using c1 by (simp add: clocked_def lanes_inv_def)
  then have uses: "case committed (b64_encode (dig tok)) (cf_epoch (advance t1 (jl_filter s2)))
      (maybePurge (cf_epoch (advance t1 (jl_filter s2))) (jl_ledger s2)) of None \<Rightarrow> True | Some n \<Rightarrow> n < jl_maxUses s2"
    using assms(9) unfolding ep by (simp add: committed_maybePurge)
  from d have "ld_lane d = Some LaneCredited"
  proof (cases rule: decide_cases)
    case (unverified b tk)
    from unverified(5) [OF assms(6,7) hit] uses show ?thesis by auto
  qed (use assms(6) ok in \<open>auto simp: with_taken_def\<close>)
  then show ?thesis using d by simp
qed

subsection \<open>Witnesses\<close>

definition sample_lanes_config :: lanes_config where
  "sample_lanes_config = \<lparr>lc_filterBits = 64, lc_filterHashes = 2, lc_epochMs = 1000, lc_creditedCapacity = 2,
     lc_creditedRefill = 1, lc_unverifiedCapacity = 1, lc_unverifiedRefill = 1, lc_maxUses = 2,
     lc_ledgerCapacity = 5\<rparr>"

definition sample_lanes :: journey_lanes where
  "sample_lanes = \<lparr>jl_filter = sample_filter,
     jl_credited = \<lparr>tb_capacity = 2, tb_capacityUnits = 2 * UNIT, tb_refillPerMs = 1000, tb_level = 2 * UNIT,
       tb_lastMs = 0, tb_takes = 0, tb_admitted = 0, tb_shed = 0\<rparr>,
     jl_unverified = \<lparr>tb_capacity = 1, tb_capacityUnits = UNIT, tb_refillPerMs = 1000, tb_level = UNIT,
       tb_lastMs = 0, tb_takes = 0, tb_admitted = 0, tb_shed = 0\<rparr>,
     jl_ledger = \<lparr>ul_capacity = 5, ul_maxUses = 2, ul_entries = [], ul_lastPurgeEpoch = 0, ul_highWater = 0,
       ul_allocated = 0, ul_purged = 0, ul_fullRefusals = 0, ul_violations = 0\<rparr>,
     jl_maxUses = 2, jl_decisions = [], jl_spentCredited = 0, jl_spentUnverified = 0\<rparr>"

lemma sample_lanes_new: "new_lanes sample_lanes_config (0, 0, 0) = Inr sample_lanes"
proof -
  have "requiredLedgerCapacity 2 1 1000 = 5" by (simp add: requiredLedgerCapacity_def)
  then show ?thesis
    by (simp add: new_lanes_def sample_lanes_config_def sample_lanes_def sample_filter_new new_bucket_def
        new_use_ledger_def is_positive_safe_integer_def is_safe_integer_def MAX_SAFE_INTEGER_def UNIT_def)
qed

lemma sample_lanes_inv: "lanes_inv sample_lanes"
  using new_lanes_clocked [OF sample_lanes_new] by (simp add: clocked_def)

definition sample_token :: string where
  "sample_token = replicate 43 (CHR ''A'')"

definition sample_submission :: layer_request where
  "sample_submission = \<lparr>lr_method = ''POST'', lr_target = ''/api/public-inquiries'', lr_headers = [],
     lr_bodyStatus = BComplete, lr_body = Some (''name=x&submissionToken='' @ sample_token)\<rparr>"

definition sample_dig :: "string \<Rightarrow> bytes" where
  "sample_dig tok = take 16 tok"

lemma sample_submission_token: "extractSubmissionToken sample_submission = Some sample_token"
  by code_simp

lemma sample_submission_class:
  "operationClassOf (lr_method sample_submission) (lr_target sample_submission) = ClsMutation"
  by (simp add: sample_submission_def operationClassOf_def MUTATION_TARGET_def)

lemma sample_filter_empty: "\<not> test_slot sample_filter (slot_of e) d"
proof -
  have "slot_of e < 2" by simp
  then have "bits_of (cf_arrays sample_filter ! slot_of e) = {}" by (auto simp: sample_filter_def less_2_cases_iff)
  then show ?thesis by (simp add: test_slot_iff generation_def positions_def) (simp add: sample_filter_def)
qed

lemma sample_filter_fresh: "0 \<le> t \<Longrightarrow> t < 1000 \<Longrightarrow> advance t sample_filter = sample_filter"
  by (simp add: advance_def epochNow_def sample_filter_def floor_eq_iff)

lemma sample_enroll:
  "snd (enroll sample_dig id (10, 11, 12) sample_token sample_lanes) = Some (sample_dig sample_token)"
  by (simp add: enroll_def Let_def hasInActive_def sample_lanes_def committed_def sample_filter_fresh sample_filter_empty
      del: advance_fields)

theorem genuine_credit_is_honoured_witness:
  "ld_lane (snd (decide sample_dig id (1500, 1500, 1501) sample_submission
     (fst (enroll sample_dig id (10, 11, 12) sample_token sample_lanes)))) = Some LaneCredited"
proof -
  let ?s1 = "fst (enroll sample_dig id (10, 11, 12) sample_token sample_lanes)"
  have s1: "enroll sample_dig id (10, 11, 12) sample_token sample_lanes = (?s1, Some (sample_dig sample_token))"
    using sample_enroll by (metis prod.collapse)
  have fr: "cf_t0 (jl_filter ?s1) = 0" "cf_epochMs (jl_filter ?s1) = 1000" "jl_ledger ?s1 = jl_ledger sample_lanes"
    by (simp_all add: enroll_state filter_fold_frame sample_lanes_def sample_filter_def)
  have "filter_inv (jl_filter ?s1)"
    using sample_lanes_inv by (simp add: enroll_state filter_fold_inv lanes_inv_def)
  then have "0 \<le> cf_epoch (jl_filter ?s1)" by (simp add: filter_inv_def)
  with fr(1,2) have win: "epochNow 1500 (jl_filter ?s1) \<le> cf_epoch (jl_filter ?s1) + 1" by (simp add: epochNow_def)
  show ?thesis
    by (rule genuine_credit_is_honoured [where before = "[]" and after = "[]", OF sample_lanes_new _ s1])
      (use win in \<open>simp_all add: run_lanes_def sample_submission_class sample_submission_token fr(3)\<close>,
       simp add: sample_lanes_def committed_def)
qed

theorem ledger_never_full_witness:
  "ld_errorKind (snd (decide sample_dig id (1500, 1500, 1501) sample_submission
     (run_lanes sample_dig id [LEnroll 10 11 12 sample_token] sample_lanes))) = None"
  by (rule ledger_never_full [OF sample_lanes_new]) simp

theorem decision_spends_only_its_lane_witness:
  "jl_unverified (fst (decide sample_dig id (1, 2, 3) sample_submission sample_lanes))
     = fst (take_token 3 (jl_unverified sample_lanes))
   \<and> jl_credited (fst (decide sample_dig id (1, 2, 3) sample_submission sample_lanes)) = jl_credited sample_lanes"
proof -
  have "ld_lane (snd (decide sample_dig id (1, 2, 3) sample_submission sample_lanes)) = Some LaneUnverified"
    by (simp add: decide_def sample_submission_class classify_def sample_submission_token Let_def has_def
        sample_lanes_def sample_filter_fresh sample_filter_empty eligible_def take_unverified_def with_taken_def
        case_prod_beta del: advance_fields)
  then show ?thesis
    using decision_spends_only_its_lane [OF sample_lanes_inv, of sample_dig id 1 2 3 sample_submission]
    by (cases "decide sample_dig id (1, 2, 3) sample_submission sample_lanes") simp
qed

end
