(* ===== verification/Enrollment.thy ===== *)
theory Enrollment
  imports Lane_Decisions
begin

text \<open>
  The response half of the enrollment contract (\<^verbatim>\<open>defense/core/enrollment.ts\<close>): the token matcher on the
  bytes of a response and \<^verbatim>\<open>evaluateObservation\<close>. An exception is \<^const>\<open>Inl\<close>: \<^verbatim>\<open>Buffer.compare\<close> throws
  when the compared range ends behind the buffer, which the matcher does not rule out. The theorems
  characterise the accepted bodies in one declarative statement, and show the inputs on which the matcher
  throws.
\<close>

definition ENROLL_CONTENT_TYPE :: string where "ENROLL_CONTENT_TYPE = ''text/html; charset=utf-8''"
definition SUBMISSION_TOKEN_LENGTH :: nat where "SUBMISSION_TOKEN_LENGTH = 43"

abbreviation quote_char :: char where "quote_char \<equiv> CHR 0x22"

definition NAME_LITERAL :: bytes where
  "NAME_LITERAL = ''name='' @ [quote_char] @ ''submissionToken'' @ [quote_char]"
definition INPUT_HEAD :: bytes where
  "INPUT_HEAD = ''<input type='' @ [quote_char] @ ''hidden'' @ [quote_char] @ '' ''"
definition VALUE_HEAD :: bytes where "VALUE_HEAD = '' value='' @ [quote_char]"
definition FORM_ANY :: bytes where "FORM_ANY = ''<form ''"
definition FORM_OPEN :: bytes where
  "FORM_OPEN = ''<form class='' @ [quote_char] @ ''request-form'' @ [quote_char]"
definition FORM_CLOSE :: bytes where "FORM_CLOSE = ''</form>''"

lemma literal_lengths [simp]:
  "length NAME_LITERAL = 22" "length INPUT_HEAD = 21" "length VALUE_HEAD = 8" "length FORM_ANY = 6"
  "length FORM_OPEN = 26" "length FORM_CLOSE = 7" "SUBMISSION_TOKEN_LENGTH = 43"
  by (simp_all add: NAME_LITERAL_def INPUT_HEAD_def VALUE_HEAD_def FORM_ANY_def FORM_OPEN_def FORM_CLOSE_def
      SUBMISSION_TOKEN_LENGTH_def)

definition isTokenByte :: "char \<Rightarrow> bool" where
  "isTokenByte c \<longleftrightarrow> in_range 65 90 c \<or> in_range 97 122 c \<or> in_range 48 57 c \<or> c = CHR 0x2d \<or> c = CHR 0x5f"

datatype token_match = TokenFound string | TokenRefused enroll_skip_reason

text \<open>\<^verbatim>\<open>body.compare(literal, 0, literal.length, start, start + literal.length) === 0\<close>; \<^const>\<open>None\<close> when the call
  throws.\<close>

definition compare_at :: "bytes \<Rightarrow> bytes \<Rightarrow> nat \<Rightarrow> bool option" where
  "compare_at literal body start =
     (if length body < start + length literal then None
      else Some (take (length literal) (drop start body) = literal))"

text \<open>\<^verbatim>\<open>body[i]\<close>, which is \<^verbatim>\<open>undefined\<close> outside the buffer.\<close>

definition body_at :: "bytes \<Rightarrow> nat \<Rightarrow> char option" where
  "body_at body i = (if i < length body then Some (body ! i) else None)"

text \<open>The form context of an input that starts at \<open>inputStart\<close>.\<close>

definition form_context :: "bytes \<Rightarrow> nat \<Rightarrow> bool option" where
  "form_context body inputStart = (case last_index_of FORM_ANY body inputStart of
     None \<Rightarrow> Some False
   | Some formAt \<Rightarrow> (case compare_at FORM_OPEN body formAt of
       None \<Rightarrow> None
     | Some False \<Rightarrow> Some False
     | Some True \<Rightarrow> (case index_of_from FORM_CLOSE body formAt of
         None \<Rightarrow> Some True
       | Some closeAt \<Rightarrow> Some (\<not> closeAt < inputStart))))"

definition range_error :: string where "range_error = ''ERR_OUT_OF_RANGE''"

definition matchFormToken :: "bytes \<Rightarrow> string + token_match" where
  "matchFormToken body = (case index_of_from NAME_LITERAL body 0 of
     None \<Rightarrow> Inr (TokenRefused token_count_zero)
   | Some first \<Rightarrow>
       if index_of_from NAME_LITERAL body (first + length NAME_LITERAL) \<noteq> None then
         Inr (TokenRefused token_count_multiple)
       else if first < length INPUT_HEAD then Inr (TokenRefused token_count_zero)
       else let inputStart = first - length INPUT_HEAD;
                valueAt = first + length NAME_LITERAL;
                tokenStart = valueAt + length VALUE_HEAD;
                tokenEnd = tokenStart + SUBMISSION_TOKEN_LENGTH in
         (case compare_at INPUT_HEAD body inputStart of
            None \<Rightarrow> Inl range_error
          | Some False \<Rightarrow> Inr (TokenRefused token_count_zero)
          | Some True \<Rightarrow> (case compare_at VALUE_HEAD body valueAt of
              None \<Rightarrow> Inl range_error
            | Some False \<Rightarrow> Inr (TokenRefused token_count_zero)
            | Some True \<Rightarrow>
                if tokenEnd + 2 > length body then Inr (TokenRefused token_count_zero)
                else if \<not> list_all (\<lambda>i. isTokenByte (body ! i)) [tokenStart ..< tokenEnd] then
                  Inr (TokenRefused token_count_zero)
                else if body_at body tokenEnd \<noteq> Some (CHR 0x22) then Inr (TokenRefused token_count_zero)
                else if \<not> (body_at body (tokenEnd + 1) = Some (CHR 0x3e)
                    \<or> (body_at body (tokenEnd + 1) = Some (CHR 0x2f) \<and> body_at body (tokenEnd + 2) = Some (CHR 0x3e)))
                  then Inr (TokenRefused token_count_zero)
                else (case form_context body inputStart of
                    None \<Rightarrow> Inl range_error
                  | Some False \<Rightarrow> Inr (TokenRefused token_count_zero)
                  | Some True \<Rightarrow> Inr (TokenFound (take SUBMISSION_TOKEN_LENGTH (drop tokenStart body)))))))"

record upstream_observation =
  uo_status :: int
  uo_rawHeaders :: "string list"
  uo_payload :: bytes

text \<open>The header loop: number of content types, and whether the representation is the reviewed one.\<close>

definition header_step :: "nat \<times> bool \<Rightarrow> string \<times> string \<Rightarrow> nat \<times> bool" where
  "header_step acc h = (case (acc, h) of ((contentTypes, ok), (n, v)) \<Rightarrow>
     let name = to_lower n;
         ok' = (ok \<and> name \<noteq> ''content-encoding'') in
     if name = ''content-type''
     then (contentTypes + 1, ok' \<and> to_lower (js_trim v) = ENROLL_CONTENT_TYPE)
     else (contentTypes, ok'))"

definition evaluateObservation :: "upstream_observation \<Rightarrow> nat \<Rightarrow> string + token_match" where
  "evaluateObservation observed maxBytes =
     (if uo_status observed \<noteq> 200 then Inr (TokenRefused status_not_200)
      else case foldl header_step (0, True) (raw_pairs (uo_rawHeaders observed)) of (contentTypes, ok) \<Rightarrow>
        if contentTypes \<noteq> 1 \<or> \<not> ok then Inr (TokenRefused skip_content_type)
        else if length (uo_payload observed) > maxBytes then Inr (TokenRefused body_too_large)
        else matchFormToken (uo_payload observed))"

subsection \<open>Searching a buffer\<close>

lemma match_at_bound: "match_at needle hay i \<Longrightarrow> needle \<noteq> [] \<Longrightarrow> i + length needle \<le> length hay"
proof -
  assume m: "match_at needle hay i" and n: "needle \<noteq> []"
  have "length (take (length needle) (drop i hay)) = length needle" using m by (simp add: match_at_def)
  then have "length needle \<le> length hay - i" by simp
  then show ?thesis using n by (cases needle) auto
qed

lemma match_at_append [simp]: "match_at needle (pre @ needle @ post) (length pre)"
  by (simp add: match_at_def)

lemma match_at_split: "match_at needle hay i \<Longrightarrow> hay = take i hay @ needle @ drop (i + length needle) hay"
  unfolding match_at_def by (metis append_take_drop_id drop_drop add.commute)

lemma find_upt_Some_iff:
  "List.find P [a ..< b] = Some i \<longleftrightarrow> a \<le> i \<and> i < b \<and> P i \<and> (\<forall>j. a \<le> j \<and> j < i \<longrightarrow> \<not> P j)"
proof
  assume "List.find P [a ..< b] = Some i"
  then obtain k where k: "k < b - a" "P (a + k)" "i = a + k" "\<forall>j < k. \<not> P ([a ..< b] ! j)"
    by (auto simp: find_Some_iff)
  have "\<not> P j" if "a \<le> j" "j < i" for j
    using k(4) [rule_format, of "j - a"] that k(1,3) by auto
  then show "a \<le> i \<and> i < b \<and> P i \<and> (\<forall>j. a \<le> j \<and> j < i \<longrightarrow> \<not> P j)" using k by auto
next
  assume r: "a \<le> i \<and> i < b \<and> P i \<and> (\<forall>j. a \<le> j \<and> j < i \<longrightarrow> \<not> P j)"
  then show "List.find P [a ..< b] = Some i"
    unfolding find_Some_iff by (intro exI [of _ "i - a"]) auto
qed

lemma index_of_from_Some_iff:
  assumes "needle \<noteq> []"
  shows "index_of_from needle hay from = Some i \<longleftrightarrow>
    from \<le> i \<and> match_at needle hay i \<and> (\<forall>j. from \<le> j \<and> j < i \<longrightarrow> \<not> match_at needle hay j)"
proof -
  have "i < Suc (length hay - length needle)" if "match_at needle hay i" using match_at_bound [OF that assms] by simp
  then show ?thesis unfolding index_of_from_def find_upt_Some_iff by blast
qed

lemma index_of_from_None_iff:
  assumes "needle \<noteq> []"
  shows "index_of_from needle hay from = None \<longleftrightarrow> (\<forall>i. from \<le> i \<longrightarrow> \<not> match_at needle hay i)"
proof -
  have "i < Suc (length hay - length needle)" if "match_at needle hay i" for i
    using match_at_bound [OF that assms] by simp
  then show ?thesis unfolding index_of_from_def find_None_iff set_upt by auto
qed

lemma find_down_Some_iff:
  "List.find P (rev [0 ..< Suc m]) = Some i \<longleftrightarrow> i \<le> m \<and> P i \<and> (\<forall>j. i < j \<and> j \<le> m \<longrightarrow> \<not> P j)"
proof (induction m)
  case 0
  then show ?case by auto
next
  case (Suc m)
  then show ?case by (cases "P (Suc m)") (auto simp: le_Suc_eq)
qed

lemma last_index_of_Some_iff:
  assumes "needle \<noteq> []"
  shows "last_index_of needle hay from = Some i \<longleftrightarrow>
    i \<le> from \<and> match_at needle hay i \<and> (\<forall>j. i < j \<and> j \<le> from \<longrightarrow> \<not> match_at needle hay j)"
proof -
  have "i \<le> length hay - length needle" if "match_at needle hay i" for i
    using match_at_bound [OF that assms] by simp
  then show ?thesis unfolding last_index_of_def find_down_Some_iff by (metis min.bounded_iff)
qed

lemma literals_nonempty [simp]:
  "NAME_LITERAL \<noteq> []" "INPUT_HEAD \<noteq> []" "VALUE_HEAD \<noteq> []" "FORM_ANY \<noteq> []" "FORM_OPEN \<noteq> []" "FORM_CLOSE \<noteq> []"
  by (simp_all add: NAME_LITERAL_def INPUT_HEAD_def VALUE_HEAD_def FORM_ANY_def FORM_OPEN_def FORM_CLOSE_def)

text \<open>The field name does not overlap itself, so looking behind the first occurrence misses none.\<close>

lemma name_no_overlap:
  assumes "match_at NAME_LITERAL hay i" "match_at NAME_LITERAL hay (i + k)" "k < 22"
  shows "k = 0"
proof (rule ccontr)
  assume "k \<noteq> 0"
  have "take 22 (drop i hay) = NAME_LITERAL" using assms(1) by (simp add: match_at_def)
  then have "drop k NAME_LITERAL = take (22 - k) (drop (i + k) hay)" by (metis drop_drop drop_take add.commute)
  also have "\<dots> = take (22 - k) (take 22 (drop (i + k) hay))" by (simp add: min_def)
  also have "\<dots> = take (22 - k) NAME_LITERAL" using assms(2) by (simp add: match_at_def)
  finally have eq: "drop k NAME_LITERAL = take (22 - k) NAME_LITERAL" .
  have "\<forall>k \<in> set [1 ..< 22]. drop k NAME_LITERAL \<noteq> take (22 - k) NAME_LITERAL"
    unfolding NAME_LITERAL_def by code_simp
  then show False using eq \<open>k \<noteq> 0\<close> assms(3) by auto
qed

lemma compare_at_match [simp]:
  "start + length literal \<le> length body \<Longrightarrow> compare_at literal body start = Some (match_at literal body start)"
  by (simp add: compare_at_def match_at_def)

lemma isTokenByte_b64: "isTokenByte = is_b64url_char"
  by (auto simp: fun_eq_iff isTokenByte_def is_b64url_char_def is_alnum_def is_digit_def is_upper_def is_lower_def)

lemma match_at_append_iff: "match_at (a @ b) hay i \<longleftrightarrow> match_at a hay i \<and> match_at b hay (i + length a)"
proof
  assume m: "match_at (a @ b) hay i"
  then have t: "take (length a + length b) (drop i hay) = a @ b" by (simp add: match_at_def)
  have "take (length a) (drop i hay) = take (length a) (take (length a + length b) (drop i hay))" by (simp add: min_def)
  moreover have "take (length b) (drop (i + length a) hay) = drop (length a) (take (length a + length b) (drop i hay))"
    by (simp add: drop_take add.commute)
  ultimately show "match_at a hay i \<and> match_at b hay (i + length a)" unfolding t by (simp add: match_at_def)
next
  assume "match_at a hay i \<and> match_at b hay (i + length a)"
  then show "match_at (a @ b) hay i" by (simp add: match_at_def take_add add.commute)
qed

lemma match_at_single: "match_at [c] hay i \<longleftrightarrow> body_at hay i = Some c"
  by (cases "drop i hay") (auto simp: match_at_def body_at_def hd_drop_conv_nth [symmetric] dest: drop_eq_Nil [THEN iffD1])

lemma match_at_pair: "match_at [c, d] hay i \<longleftrightarrow> body_at hay i = Some c \<and> body_at hay (i + 1) = Some d"
  using match_at_append_iff [of "[c]" "[d]" hay i] by (simp add: match_at_single)

text \<open>The reviewed form context, and the reviewed structure of the single occurrence, as statements about
  the positions in the body.\<close>

definition in_request_form :: "bytes \<Rightarrow> nat \<Rightarrow> bool" where
  "in_request_form body inputStart \<longleftrightarrow> (\<exists>f \<le> inputStart. match_at FORM_OPEN body f
     \<and> (\<forall>g. f < g \<and> g \<le> inputStart \<longrightarrow> \<not> match_at FORM_ANY body g)
     \<and> (\<forall>g. f \<le> g \<and> g < inputStart \<longrightarrow> \<not> match_at FORM_CLOSE body g))"

definition reviewed_input :: "bytes \<Rightarrow> nat \<Rightarrow> string \<Rightarrow> bool" where
  "reviewed_input body inputStart token \<longleftrightarrow> is_b64url_id 43 token
     \<and> (match_at (INPUT_HEAD @ NAME_LITERAL @ VALUE_HEAD @ token @ [quote_char] @ ''>'') body inputStart
        \<or> match_at (INPUT_HEAD @ NAME_LITERAL @ VALUE_HEAD @ token @ [quote_char] @ ''/>'') body inputStart)"

lemma form_open_any: "match_at FORM_OPEN body f \<Longrightarrow> match_at FORM_ANY body f"
  using match_at_append_iff [of FORM_ANY "drop 6 FORM_OPEN" body f]
  by (simp add: FORM_OPEN_def FORM_ANY_def)

lemma form_context_iff:
  assumes "inputStart + 26 \<le> length body"
  shows "form_context body inputStart = Some (in_request_form body inputStart)"
proof (cases "last_index_of FORM_ANY body inputStart")
  case None
  then have "\<not> match_at FORM_ANY body g" if "g \<le> inputStart" for g
    using that match_at_bound [of FORM_ANY body g]
    by (auto simp: last_index_of_def find_None_iff simp del: upt_Suc)
  then show ?thesis using None form_open_any by (auto simp: form_context_def in_request_form_def)
next
  case (Some f)
  then have f: "f \<le> inputStart" "match_at FORM_ANY body f" "\<And>g. f < g \<Longrightarrow> g \<le> inputStart \<Longrightarrow> \<not> match_at FORM_ANY body g"
    by (auto simp: last_index_of_Some_iff)
  have only: "in_request_form body inputStart \<longleftrightarrow> match_at FORM_OPEN body f \<and> (\<forall>g. f \<le> g \<and> g < inputStart \<longrightarrow> \<not> match_at FORM_CLOSE body g)"
    unfolding in_request_form_def using f form_open_any by (metis linorder_neqE_nat)
  have c: "compare_at FORM_OPEN body f = Some (match_at FORM_OPEN body f)" using f(1) assms by simp
  show ?thesis
  proof (cases "index_of_from FORM_CLOSE body f")
    case None
    then have "\<forall>g. f \<le> g \<longrightarrow> \<not> match_at FORM_CLOSE body g" by (simp add: index_of_from_None_iff)
    then show ?thesis unfolding only using Some None c by (auto simp: form_context_def split: bool.splits)
  next
    case (Some k)
    then have "f \<le> k" "match_at FORM_CLOSE body k" "\<And>j. f \<le> j \<Longrightarrow> j < k \<Longrightarrow> \<not> match_at FORM_CLOSE body j"
      by (auto simp: index_of_from_Some_iff)
    then have "(\<forall>g. f \<le> g \<and> g < inputStart \<longrightarrow> \<not> match_at FORM_CLOSE body g) \<longleftrightarrow> \<not> k < inputStart"
      by (metis less_le_trans linorder_le_less_linear)
    then show ?thesis unfolding only using \<open>last_index_of FORM_ANY body inputStart = Some f\<close> Some c
      by (auto simp: form_context_def split: bool.splits)
  qed
qed

lemma token_at_iff:
  assumes "t + 43 \<le> length body"
  shows "is_b64url_id 43 tok \<and> match_at tok body t \<longleftrightarrow>
    list_all (\<lambda>i. isTokenByte (body ! i)) [t ..< t + 43] \<and> tok = take 43 (drop t body)"
proof -
  have "list_all is_b64url_char (take 43 (drop t body)) \<longleftrightarrow> (\<forall>i. t \<le> i \<and> i < t + 43 \<longrightarrow> is_b64url_char (body ! i))"
  proof
    assume a: "list_all is_b64url_char (take 43 (drop t body))"
    show "\<forall>i. t \<le> i \<and> i < t + 43 \<longrightarrow> is_b64url_char (body ! i)"
      using a assms by (auto simp: list_all_length) (metis add_diff_inverse_nat less_diff_conv2 linorder_not_le add.commute)
  qed (use assms in \<open>auto simp: list_all_length\<close>)
  then show ?thesis
    using assms by (auto simp: is_b64url_id_def match_at_def isTokenByte_b64 list_all_iff)
qed

lemma reviewed_input_iff:
  "reviewed_input body i tok \<longleftrightarrow> match_at INPUT_HEAD body i \<and> match_at NAME_LITERAL body (i + 21)
     \<and> match_at VALUE_HEAD body (i + 43) \<and> (is_b64url_id 43 tok \<and> match_at tok body (i + 51))
     \<and> body_at body (i + 94) = Some (CHR 0x22)
     \<and> (body_at body (i + 95) = Some (CHR 0x3e)
        \<or> (body_at body (i + 95) = Some (CHR 0x2f) \<and> body_at body (i + 96) = Some (CHR 0x3e)))"
proof -
  have tail: "match_at (tok @ [quote_char] @ cs) body (i + 51) \<longleftrightarrow>
      match_at tok body (i + 51) \<and> body_at body (i + 94) = Some (CHR 0x22) \<and> match_at cs body (i + 95)"
    if "length tok = 43" for cs
    using that by (simp only: match_at_append_iff match_at_single) (simp add: ac_simps)
  have head: "match_at (INPUT_HEAD @ NAME_LITERAL @ VALUE_HEAD @ ds) body i \<longleftrightarrow> match_at INPUT_HEAD body i
      \<and> match_at NAME_LITERAL body (i + 21) \<and> match_at VALUE_HEAD body (i + 43) \<and> match_at ds body (i + 51)" for ds
    by (simp only: match_at_append_iff) (simp add: add.assoc)
  have slash: "match_at ''/>'' body (i + 95) \<longleftrightarrow> body_at body (i + 95) = Some (CHR 0x2f) \<and> body_at body (i + 96) = Some (CHR 0x3e)"
    by (simp only: match_at_pair) (simp add: ac_simps)
  show ?thesis
  proof (cases "length tok = 43")
    case True
    show ?thesis unfolding reviewed_input_def head tail [OF True] slash match_at_single by blast
  qed (simp add: reviewed_input_def is_b64url_id_def)
qed

text \<open>The matcher on a body with a single occurrence of the field name.\<close>

lemma match_single:
  assumes "index_of_from NAME_LITERAL body 0 = Some n" "index_of_from NAME_LITERAL body (n + 22) = None" "21 \<le> n"
  shows "matchFormToken body = Inr (TokenFound tok) \<longleftrightarrow>
    reviewed_input body (n - 21) tok \<and> in_request_form body (n - 21)"
proof -
  obtain i where n: "n = i + 21" using assms(3) by (metis le_add_diff_inverse2)
  have m: "match_at NAME_LITERAL body n" using assms(1) by (simp add: index_of_from_Some_iff)
  have len: "i + 43 \<le> length body" using match_at_bound [OF m] n by simp
  have c1: "compare_at INPUT_HEAD body i = Some (match_at INPUT_HEAD body i)" using len by simp
  show ?thesis
  proof (cases "i + 96 \<le> length body")
    case False
    have "body_at body (i + 95) = None" using False by (simp add: body_at_def)
    then have "\<not> reviewed_input body i tok" by (simp add: reviewed_input_iff)
    moreover have "matchFormToken body \<noteq> Inr (TokenFound tok)"
      using assms(1,2) n c1 False
      by (auto simp: matchFormToken_def Let_def split: option.splits bool.splits)
    ultimately show ?thesis by (simp add: n)
  next
    case True
    have c2: "compare_at VALUE_HEAD body (i + 43) = Some (match_at VALUE_HEAD body (i + 43))" using True by simp
    have fc: "form_context body i = Some (in_request_form body i)" using True by (intro form_context_iff) simp
    have tk: "is_b64url_id 43 tok \<and> match_at tok body (i + 51) \<longleftrightarrow>
        list_all (\<lambda>k. isTokenByte (body ! k)) [i + 51 ..< i + 94] \<and> tok = take 43 (drop (i + 51) body)"
      using token_at_iff [of "i + 51" body tok] True by (simp add: ac_simps)
    define A where "A \<longleftrightarrow> match_at INPUT_HEAD body i"
    define B where "B \<longleftrightarrow> match_at VALUE_HEAD body (i + 43)"
    define C where "C \<longleftrightarrow> list_all (\<lambda>k. isTokenByte (body ! k)) [i + 51 ..< i + 94]"
    define D where "D \<longleftrightarrow> body_at body (i + 94) = Some (CHR 0x22)"
    define E where "E \<longleftrightarrow> body_at body (i + 95) = Some (CHR 0x3e)
      \<or> (body_at body (i + 95) = Some (CHR 0x2f) \<and> body_at body (i + 96) = Some (CHR 0x3e))"
    have idx: "n + 22 = i + 43" "i + 43 + 8 = i + 51" "i + 51 + 43 = i + 94" "i + 94 + 1 = i + 95" "i + 94 + 2 = i + 96"
      "n - 21 = i"
      by (simp_all add: n)
    have "matchFormToken body = (if A \<and> B \<and> C \<and> D \<and> E \<and> in_request_form body i
        then Inr (TokenFound (take 43 (drop (i + 51) body))) else Inr (TokenRefused token_count_zero))"
      unfolding matchFormToken_def assms(1) option.case literal_lengths Let_def idx c1 c2 fc
        A_def [symmetric] B_def [symmetric] C_def [symmetric] D_def [symmetric] E_def [symmetric]
      using assms(2,3) True unfolding idx by (simp split: bool.split)
    moreover have "reviewed_input body i tok \<longleftrightarrow> A \<and> B \<and> (C \<and> tok = take 43 (drop (i + 51) body)) \<and> D \<and> E"
      using m n unfolding reviewed_input_iff tk A_def B_def C_def D_def E_def by simp
    ultimately show ?thesis by (auto simp: n)
  qed
qed

text \<open>What a search for the field name says about all its occurrences.\<close>

lemma single_occurrence:
  assumes "index_of_from NAME_LITERAL body 0 = Some n" "index_of_from NAME_LITERAL body (n + 22) = None"
  shows "{j. match_at NAME_LITERAL body j} = {n}"
proof -
  have m: "match_at NAME_LITERAL body n" "\<And>j. j < n \<Longrightarrow> \<not> match_at NAME_LITERAL body j"
    using assms(1) by (auto simp: index_of_from_Some_iff)
  have "j = n" if "match_at NAME_LITERAL body j" for j
  proof -
    have "n \<le> j" using that m(2) by (metis linorder_not_le)
    moreover have "j < n + 22" using that assms(2) index_of_from_None_iff [OF literals_nonempty(1)] by (meson linorder_not_le)
    ultimately show ?thesis using name_no_overlap [OF m(1), of "j - n"] that by simp
  qed
  then show ?thesis using m(1) by blast
qed

lemma occurrence_found:
  assumes "{j. match_at NAME_LITERAL body j} = {n}"
  shows "index_of_from NAME_LITERAL body 0 = Some n" "index_of_from NAME_LITERAL body (n + 22) = None"
proof -
  have "match_at NAME_LITERAL body j \<longleftrightarrow> j = n" for j using assms by blast
  then show "index_of_from NAME_LITERAL body 0 = Some n" "index_of_from NAME_LITERAL body (n + 22) = None"
    by (simp_all add: index_of_from_Some_iff index_of_from_None_iff)
qed

text \<open>Where the matcher throws, on a body with a single occurrence.\<close>

lemma match_single_throws:
  assumes "index_of_from NAME_LITERAL body 0 = Some n" "index_of_from NAME_LITERAL body (n + 22) = None" "21 \<le> n"
  shows "matchFormToken body = Inl e \<longleftrightarrow> e = range_error \<and> match_at INPUT_HEAD body (n - 21) \<and> length body < n + 30"
proof -
  obtain i where n: "n = i + 21" using assms(3) by (metis le_add_diff_inverse2)
  have m: "match_at NAME_LITERAL body n" using assms(1) by (simp add: index_of_from_Some_iff)
  have len: "i + 43 \<le> length body" using match_at_bound [OF m] n by simp
  have c1: "compare_at INPUT_HEAD body i = Some (match_at INPUT_HEAD body i)" using len by simp
  have c2: "compare_at VALUE_HEAD body (i + 43) = (if length body < i + 51 then None
      else Some (match_at VALUE_HEAD body (i + 43)))" by (simp add: compare_at_def match_at_def)
  have fc: "form_context body i \<noteq> None" if "i + 96 \<le> length body" using form_context_iff [of i body] that by simp
  have idx: "n + 22 = i + 43" "n - 21 = i" by (simp_all add: n)
  show ?thesis
    using assms(1,2) c1 c2 fc n
    unfolding matchFormToken_def assms(1) option.case literal_lengths Let_def idx
    by (auto split: option.splits bool.splits)
qed

text \<open>The matcher accepts a response body exactly when the field name occurs once in it, as part of
  the reviewed hidden input with a well-formed token, and the nearest form opened before the input is the
  request form and is not closed before it; it then returns the token of that input.\<close>

theorem matchFormToken_iff:
  "matchFormToken body = Inr (TokenFound tok) \<longleftrightarrow>
    (\<exists>i. reviewed_input body i tok \<and> in_request_form body i
       \<and> {j. match_at NAME_LITERAL body j} = {i + 21})"
proof
  assume found: "matchFormToken body = Inr (TokenFound tok)"
  then obtain n where n: "index_of_from NAME_LITERAL body 0 = Some n"
    "index_of_from NAME_LITERAL body (n + 22) = None" "21 \<le> n"
    by (auto simp: matchFormToken_def split: option.splits if_splits)
  have "{j. match_at NAME_LITERAL body j} = {n}" by (rule single_occurrence [OF n(1,2)])
  also have "n = n - 21 + 21" using n(3) by simp
  finally have "{j. match_at NAME_LITERAL body j} = {n - 21 + 21}" .
  then show "\<exists>i. reviewed_input body i tok \<and> in_request_form body i \<and> {j. match_at NAME_LITERAL body j} = {i + 21}"
    using found match_single [OF n] by blast
next
  assume "\<exists>i. reviewed_input body i tok \<and> in_request_form body i \<and> {j. match_at NAME_LITERAL body j} = {i + 21}"
  then obtain i where i: "reviewed_input body i tok" "in_request_form body i"
    "{j. match_at NAME_LITERAL body j} = {i + 21}" by auto
  from match_single [OF occurrence_found [OF i(3)], of tok] i(1,2) show "matchFormToken body = Inr (TokenFound tok)" by simp
qed

text \<open>The matcher throws exactly on the truncated bodies: those in which the field name occurs once,
  behind the reviewed head of the input, and the body ends fewer than eight bytes after it, so that the
  comparison with the head of the value reads behind the buffer. On every other body it returns a result.\<close>

theorem matchFormToken_throws_iff:
  "matchFormToken body = Inl e \<longleftrightarrow> e = range_error \<and> (\<exists>i. match_at INPUT_HEAD body i
     \<and> {j. match_at NAME_LITERAL body j} = {i + 21} \<and> length body < i + 51)"
proof
  assume throws: "matchFormToken body = Inl e"
  then obtain n where n: "index_of_from NAME_LITERAL body 0 = Some n"
    "index_of_from NAME_LITERAL body (n + 22) = None" "21 \<le> n"
    by (auto simp: matchFormToken_def split: option.splits if_splits)
  from match_single_throws [OF n, of e] throws
  have "e = range_error" "match_at INPUT_HEAD body (n - 21)" "length body < n - 21 + 51" using n(3) by auto
  moreover have "{j. match_at NAME_LITERAL body j} = {n - 21 + 21}"
    using single_occurrence [OF n(1,2)] n(3) by simp
  ultimately show "e = range_error \<and> (\<exists>i. match_at INPUT_HEAD body i
     \<and> {j. match_at NAME_LITERAL body j} = {i + 21} \<and> length body < i + 51)" by blast
next
  assume "e = range_error \<and> (\<exists>i. match_at INPUT_HEAD body i
     \<and> {j. match_at NAME_LITERAL body j} = {i + 21} \<and> length body < i + 51)"
  then obtain i where i: "e = range_error" "match_at INPUT_HEAD body i"
    "{j. match_at NAME_LITERAL body j} = {i + 21}" "length body < i + 51" by auto
  from match_single_throws [OF occurrence_found [OF i(3)], of e] i show "matchFormToken body = Inl e" by simp
qed

lemma truncated_body_throws: "matchFormToken (INPUT_HEAD @ NAME_LITERAL @ '' val'') = Inl range_error"
  by code_simp

end
