(* ===== verification/Composer.thy ===== *)
theory Composer
  imports Defense_Types
begin

text \<open>
  \<^verbatim>\<open>LayerComposer\<close> of \<^verbatim>\<open>defense/core/composer.ts\<close>: one layer behind a deadline and a bulkhead. A call of
  \<^verbatim>\<open>run\<close> is asynchronous, so it is several steps on the composer: \<open>run_start\<close> up to the first await,
  \<open>run_finish\<close> when the race between evaluation and deadline is decided, \<open>run_settled\<close> when the evaluation
  settles (possibly long after the deadline) and \<open>run_reclaim\<close> when the reclaim timer fires. The local
  variables of a call are its entry in \<open>cm_runs\<close>. A verdict is an \<^verbatim>\<open>unknown\<close> value of the layer; the
  constructor \<open>LVOther\<close> stands for every value that is not a pass and not a reject with a string reason of
  the closed list.

  The theorems: in every reachable state the bulkhead bounds the calls in flight and the abandoned evaluations
  that are still counted. An evaluation the reclaim timer gave up may run on, and what runs exceeds the bulkhead
  by at most the number of these. Every call is accounted for by exactly one outcome or is still in flight.
\<close>

datatype layer_value = LVPass | LVReject reject_reason | LVOther

definition validVerdict :: "layer_value \<Rightarrow> bool" where
  "validVerdict v = (case v of LVPass \<Rightarrow> True | LVReject r \<Rightarrow> r \<in> set ALL_REJECT_REASONS | LVOther \<Rightarrow> False)"

record composer_stats =
  cs_evaluated :: int
  cs_pass :: int
  cs_reject :: int
  cs_shed :: int
  cs_throw :: int
  cs_timeout :: int
  cs_invalid :: int
  cs_inFlight :: int
  cs_inFlightHighWater :: int
  cs_abandoned :: int
  cs_abandonedReclaimed :: int
  cs_late :: int

record run_vars =
  rv_startedAt :: instant
  rv_settled :: bool
  rv_returned :: bool
  rv_abandonedCounted :: bool

record composer =
  cm_timeoutMs :: int
  cm_maxConcurrent :: int
  cm_reclaimAfterMs :: int
  cm_inFlight :: int
  cm_abandonedLive :: int
  cm_counters :: composer_stats
  cm_runs :: "(nat, run_vars) jsmap"

definition FAILURE_POLICIES :: "string list" where "FAILURE_POLICIES = [''fail_closed'']"

definition new_composer :: "int \<Rightarrow> int \<Rightarrow> string \<Rightarrow> int option \<Rightarrow> string + composer" where
  "new_composer timeoutMs maxConcurrent failurePolicy reclaimAfterMs =
     (if failurePolicy \<notin> set FAILURE_POLICIES then Inl ''unsupported failure policy: only fail_closed exists''
      else if \<not> is_positive_safe_integer timeoutMs then Inl ''timeoutMs must be a positive integer''
      else if \<not> is_positive_safe_integer maxConcurrent then Inl ''maxConcurrent must be a positive integer''
      else Inr \<lparr>cm_timeoutMs = timeoutMs, cm_maxConcurrent = maxConcurrent,
        cm_reclaimAfterMs = (case reclaimAfterMs of Some m \<Rightarrow> m | None \<Rightarrow> timeoutMs * 4),
        cm_inFlight = 0, cm_abandonedLive = 0,
        cm_counters = \<lparr>cs_evaluated = 0, cs_pass = 0, cs_reject = 0, cs_shed = 0, cs_throw = 0, cs_timeout = 0,
          cs_invalid = 0, cs_inFlight = 0, cs_inFlightHighWater = 0, cs_abandoned = 0, cs_abandonedReclaimed = 0,
          cs_late = 0\<rparr>,
        cm_runs = []\<rparr>)"

definition occupancy :: "composer \<Rightarrow> int" where
  "occupancy c = cm_inFlight c + cm_abandonedLive c"

definition composer_stats_of :: "composer \<Rightarrow> composer_stats" where
  "composer_stats_of c = (cm_counters c)\<lparr>cs_inFlight := cm_inFlight c\<rparr>"

text \<open>The first part of \<^verbatim>\<open>run\<close>: \<open>Some OShed\<close> when the bulkhead is full, otherwise call \<open>i\<close> is running.\<close>

definition run_start :: "nat \<Rightarrow> instant \<Rightarrow> composer \<Rightarrow> composer \<times> layer_outcome option" where
  "run_start i now c0 =
     (let c = c0\<lparr>cm_counters := (cm_counters c0)\<lparr>cs_evaluated := cs_evaluated (cm_counters c0) + 1\<rparr>\<rparr> in
      if occupancy c \<ge> cm_maxConcurrent c then
        (c\<lparr>cm_counters := (cm_counters c)\<lparr>cs_shed := cs_shed (cm_counters c) + 1\<rparr>\<rparr>, Some OShed)
      else let n = cm_inFlight c + 1 in
        (c\<lparr>cm_inFlight := n,
           cm_counters := (cm_counters c)\<lparr>cs_inFlightHighWater := max n (cs_inFlightHighWater (cm_counters c))\<rparr>,
           cm_runs := AList.update i \<lparr>rv_startedAt = now, rv_settled = False, rv_returned = False,
             rv_abandonedCounted = False\<rparr> (cm_runs c)\<rparr>, None))"

datatype winner = WDeadline | WError | WVerdict layer_value

definition winner_outcome :: "int \<Rightarrow> instant \<Rightarrow> instant \<Rightarrow> winner \<Rightarrow> layer_outcome \<times> bool" where
  "winner_outcome timeoutMs startedAt now w = (case w of
     WDeadline \<Rightarrow> (OError LTimeout, False)
   | WError \<Rightarrow> (OError LThrow, False)
   | WVerdict v \<Rightarrow>
       if \<not> validVerdict v then (OError LInvalidVerdict, False)
       else if now - startedAt > real_of_int timeoutMs then (OError LTimeout, True)
       else ((case v of LVReject r \<Rightarrow> OReject r | _ \<Rightarrow> OPass), False))"

definition count_outcome :: "layer_outcome \<Rightarrow> composer_stats \<Rightarrow> composer_stats" where
  "count_outcome oc s = (case oc of
     OPass \<Rightarrow> s\<lparr>cs_pass := cs_pass s + 1\<rparr>
   | OReject r \<Rightarrow> s\<lparr>cs_reject := cs_reject s + 1\<rparr>
   | OShed \<Rightarrow> s
   | OError LThrow \<Rightarrow> s\<lparr>cs_throw := cs_throw s + 1\<rparr>
   | OError LTimeout \<Rightarrow> s\<lparr>cs_timeout := cs_timeout s + 1\<rparr>
   | OError LInvalidVerdict \<Rightarrow> s\<lparr>cs_invalid := cs_invalid s + 1\<rparr>)"

text \<open>The rest of \<^verbatim>\<open>run\<close>, once the race is decided: the outcome, the \<^verbatim>\<open>finally\<close> block and the counters.\<close>

definition run_finish :: "nat \<Rightarrow> winner \<Rightarrow> instant \<Rightarrow> composer \<Rightarrow> composer \<times> layer_outcome option" where
  "run_finish i w now c = (case map_of (cm_runs c) i of
     None \<Rightarrow> (c, None)
   | Some v \<Rightarrow> if rv_returned v then (c, None) else
       let (outcome, late) = winner_outcome (cm_timeoutMs c) (rv_startedAt v) now w;
           abandon = (w = WDeadline \<and> \<not> rv_settled v);
           k = cm_counters c;
           k1 = (if late then k\<lparr>cs_late := cs_late k + 1\<rparr> else k);
           k2 = (if abandon then k1\<lparr>cs_abandoned := cs_abandoned k1 + 1\<rparr> else k1) in
       (c\<lparr>cm_inFlight := cm_inFlight c - 1,
          cm_abandonedLive := cm_abandonedLive c + (if abandon then 1 else 0),
          cm_counters := count_outcome outcome k2,
          cm_runs := AList.update i (v\<lparr>rv_returned := True, rv_abandonedCounted := abandon\<rparr>) (cm_runs c)\<rparr>,
        Some outcome))"

text \<open>The evaluation settles; it settles at most once.\<close>

definition run_settled :: "nat \<Rightarrow> composer \<Rightarrow> composer" where
  "run_settled i c = (case map_of (cm_runs c) i of
     None \<Rightarrow> c
   | Some v \<Rightarrow> c\<lparr>cm_abandonedLive := cm_abandonedLive c - (if rv_abandonedCounted v then 1 else 0),
       cm_runs := AList.update i (v\<lparr>rv_settled := True, rv_abandonedCounted := False\<rparr>) (cm_runs c)\<rparr>)"

definition run_reclaim :: "nat \<Rightarrow> composer \<Rightarrow> composer" where
  "run_reclaim i c = (case map_of (cm_runs c) i of
     None \<Rightarrow> c
   | Some v \<Rightarrow>
       if rv_abandonedCounted v then
         c\<lparr>cm_abandonedLive := cm_abandonedLive c - 1,
           cm_counters := (cm_counters c)\<lparr>cs_abandonedReclaimed := cs_abandonedReclaimed (cm_counters c) + 1\<rparr>,
           cm_runs := AList.update i (v\<lparr>rv_abandonedCounted := False\<rparr>) (cm_runs c)\<rparr>
       else c)"

subsection \<open>Reachable states\<close>

text \<open>Calls have distinct numbers; the other steps may come in any order, also for calls that returned. The race is
  won by the evaluation only after it settled: the reaction that sets the flag runs before the call goes on.\<close>

inductive composer_reach :: "composer \<Rightarrow> composer \<Rightarrow> bool" for c0 where
  init: "composer_reach c0 c0"
| start: "composer_reach c0 c \<Longrightarrow> map_of (cm_runs c) i = None \<Longrightarrow> run_start i now c = (c', oc) \<Longrightarrow> composer_reach c0 c'"
| finish: "composer_reach c0 c \<Longrightarrow> w \<noteq> WDeadline \<longrightarrow> (\<exists>v. map_of (cm_runs c) i = Some v \<and> rv_settled v) \<Longrightarrow> run_finish i w now c = (c', oc) \<Longrightarrow> composer_reach c0 c'"
| settled: "composer_reach c0 c \<Longrightarrow> composer_reach c0 (run_settled i c)"
| reclaim: "composer_reach c0 c \<Longrightarrow> composer_reach c0 (run_reclaim i c)"

definition runs_where :: "(run_vars \<Rightarrow> bool) \<Rightarrow> composer \<Rightarrow> int" where
  "runs_where P c = int (length (filter (P \<circ> snd) (cm_runs c)))"

text \<open>How many evaluations have returned with an outcome.\<close>

definition returned_outcomes :: "composer_stats \<Rightarrow> int" where
  "returned_outcomes k = cs_pass k + cs_reject k + cs_shed k + cs_throw k + cs_timeout k + cs_invalid k"

text \<open>An evaluation that runs on after its call returned and after the reclaim timer gave it up.\<close>

definition reclaimed_run :: "run_vars \<Rightarrow> bool" where
  "reclaimed_run v \<longleftrightarrow> rv_returned v \<and> \<not> rv_settled v \<and> \<not> rv_abandonedCounted v"

definition composer_inv :: "composer \<Rightarrow> bool" where
  "composer_inv c \<longleftrightarrow> jsmap_ok (cm_runs c)
     \<and> cm_inFlight c = runs_where (\<lambda>v. \<not> rv_returned v) c
     \<and> cm_abandonedLive c = runs_where rv_abandonedCounted c
     \<and> list_all (\<lambda>(i, v). rv_abandonedCounted v \<longrightarrow> rv_returned v) (cm_runs c)
     \<and> runs_where reclaimed_run c \<le> cs_abandonedReclaimed (cm_counters c)
     \<and> occupancy c \<le> cm_maxConcurrent c
     \<and> cs_evaluated (cm_counters c) = returned_outcomes (cm_counters c) + cm_inFlight c"

lemma filter_update_old:
  assumes "jsmap_ok m" "map_of m i = Some v0"
  shows "int (length (filter (P \<circ> snd) (AList.update i v m))) =
    int (length (filter (P \<circ> snd) m)) + (if P v then 1 else 0) - (if P v0 then 1 else 0)"
  using assms
proof (induction m)
  case (Cons kv m)
  obtain k w where kv: "kv = (k, w)" by (cases kv)
  show ?case
  proof (cases "k = i")
    case False
    then show ?thesis using Cons by (auto simp: kv jsmap_ok_def)
  qed (use Cons.prems in \<open>auto simp: kv\<close>)
qed simp

lemma filter_update_new:
  "map_of m i = None \<Longrightarrow> int (length (filter (P \<circ> snd) (AList.update i v m))) =
     int (length (filter (P \<circ> snd) m)) + (if P v then 1 else 0)"
  by (induction m) (auto split: if_splits)

lemma list_all_update:
  "list_all Q m \<Longrightarrow> Q (i, v) \<Longrightarrow> list_all Q (AList.update i v m)"
  by (induction m) auto

lemma count_outcome_total:
  "returned_outcomes (count_outcome oc k) = returned_outcomes k + (if oc = OShed then 0 else 1)"
  "cs_evaluated (count_outcome oc k) = cs_evaluated k"
  "cs_abandonedReclaimed (count_outcome oc k) = cs_abandonedReclaimed k"
  by (auto simp: count_outcome_def returned_outcomes_def split: layer_outcome.splits layer_error_kind.splits)

lemma winner_outcome_not_shed: "fst (winner_outcome t a b w) \<noteq> OShed"
  by (auto simp: winner_outcome_def split: winner.splits layer_value.splits)

lemma composer_inv_start:
  assumes "composer_inv c" "map_of (cm_runs c) i = None" "run_start i now c = (c', oc)"
  shows "composer_inv c'"
proof (cases "occupancy c \<ge> cm_maxConcurrent c")
  case True
  then show ?thesis using assms
    by (auto simp: run_start_def Let_def composer_inv_def occupancy_def runs_where_def returned_outcomes_def)
next
  case False
  then have c': "c' = c\<lparr>cm_inFlight := cm_inFlight c + 1,
      cm_counters := (cm_counters c)\<lparr>cs_evaluated := cs_evaluated (cm_counters c) + 1,
        cs_inFlightHighWater := max (cm_inFlight c + 1) (cs_inFlightHighWater (cm_counters c))\<rparr>,
      cm_runs := AList.update i \<lparr>rv_startedAt = now, rv_settled = False, rv_returned = False,
        rv_abandonedCounted = False\<rparr> (cm_runs c)\<rparr>"
    using assms(3) by (auto simp: run_start_def Let_def occupancy_def)
  show ?thesis
    using assms(1) False filter_update_new [OF assms(2)] unfolding c'
    by (simp add: composer_inv_def occupancy_def runs_where_def returned_outcomes_def list_all_update reclaimed_run_def)
qed

lemma composer_inv_finish:
  assumes "composer_inv c" "run_finish i w now c = (c', oc)"
    and settles: "w \<noteq> WDeadline \<longrightarrow> (\<exists>v. map_of (cm_runs c) i = Some v \<and> rv_settled v)"
  shows "composer_inv c'"
proof (cases "map_of (cm_runs c) i")
  case None
  then show ?thesis using assms by (simp add: run_finish_def)
next
  case (Some v)
  show ?thesis
  proof (cases "rv_returned v")
    case True
    then show ?thesis using assms Some by (simp add: run_finish_def)
  next
    case False
    obtain outcome late where o: "winner_outcome (cm_timeoutMs c) (rv_startedAt v) now w = (outcome, late)"
      by (cases "winner_outcome (cm_timeoutMs c) (rv_startedAt v) now w")
    have ns: "outcome \<noteq> OShed" using winner_outcome_not_shed o by (metis fst_conv)
    have ok: "jsmap_ok (cm_runs c)" using assms(1) by (simp add: composer_inv_def)
    have va: "\<not> rv_abandonedCounted v"
      using assms(1) Some False by (auto simp: composer_inv_def list_all_iff dest!: map_of_SomeD)
    show ?thesis
      using assms Some False o ns va filter_update_old [OF ok Some]
      by (auto simp: run_finish_def Let_def composer_inv_def occupancy_def runs_where_def list_all_update
          count_outcome_total reclaimed_run_def) (auto simp: returned_outcomes_def)
  qed
qed

lemma composer_inv_settled: "composer_inv c \<Longrightarrow> composer_inv (run_settled i c)"
  using filter_update_old [of "cm_runs c" i]
  by (auto simp: run_settled_def composer_inv_def occupancy_def runs_where_def list_all_update reclaimed_run_def split: option.splits)

lemma composer_inv_reclaim: "composer_inv c \<Longrightarrow> composer_inv (run_reclaim i c)"
  using filter_update_old [of "cm_runs c" i]
  by (auto simp: run_reclaim_def composer_inv_def occupancy_def runs_where_def returned_outcomes_def list_all_update reclaimed_run_def
      split: option.splits)

lemma composer_inv_new: "new_composer t m p r = Inr c \<Longrightarrow> composer_inv c"
  by (auto simp: new_composer_def composer_inv_def occupancy_def runs_where_def returned_outcomes_def
      is_positive_safe_integer_def split: if_splits)

lemma composer_inv_reach: "composer_reach c0 c \<Longrightarrow> composer_inv c0 \<Longrightarrow> composer_inv c"
  by (induction rule: composer_reach.induct)
    (auto intro: composer_inv_start composer_inv_finish composer_inv_settled composer_inv_reclaim)

text \<open>An evaluation that has not settled belongs to a call in flight, is still counted, or was reclaimed.\<close>

lemma filter_cover:
  "(\<And>x. x \<in> set xs \<Longrightarrow> P x \<Longrightarrow> Q x \<or> R x \<or> T x) \<Longrightarrow>
    length (filter P xs) \<le> length (filter Q xs) + length (filter R xs) + length (filter T xs)"
proof (induction xs)
  case (Cons x xs)
  then have "length (filter P xs) \<le> length (filter Q xs) + length (filter R xs) + length (filter T xs)" by simp
  then show ?case using Cons.prems [of x] by auto
qed simp

lemma unsettled_bound:
  "runs_where (\<lambda>v. \<not> rv_settled v) c \<le> runs_where (\<lambda>v. \<not> rv_returned v) c + runs_where rv_abandonedCounted c + runs_where reclaimed_run c"
proof -
  have "length (filter ((\<lambda>v. \<not> rv_settled v) \<circ> snd) (cm_runs c)) \<le> length (filter ((\<lambda>v. \<not> rv_returned v) \<circ> snd) (cm_runs c))
      + length (filter (rv_abandonedCounted \<circ> snd) (cm_runs c)) + length (filter (reclaimed_run \<circ> snd) (cm_runs c))"
    by (rule filter_cover) (auto simp: reclaimed_run_def)
  then show ?thesis by (simp add: runs_where_def)
qed

lemma composer_reach_limit: "composer_reach c0 c \<Longrightarrow> cm_maxConcurrent c = cm_maxConcurrent c0 \<and> cm_timeoutMs c = cm_timeoutMs c0"
  by (induction rule: composer_reach.induct)
    (auto simp: run_start_def run_finish_def run_settled_def run_reclaim_def Let_def
      split: option.splits if_splits prod.splits)

subsection \<open>Properties\<close>

text \<open>C16. In every reachable state of an accepted composer the bulkhead holds: the calls in flight and the abandoned
  evaluations that are still counted, neither settled nor reclaimed, are together no more than \<^verbatim>\<open>maxConcurrent\<close>.
  All evaluations that have not settled, those the reclaim timer gave up included, are no more than \<^verbatim>\<open>maxConcurrent\<close>
  and the number of reclaimed ones, so without a reclaim they too are within the bulkhead. And no call disappears: each
  one counted has returned exactly one outcome, or is still in flight.\<close>

theorem composer_bulkhead_and_accounting:
  assumes "new_composer t m p r = Inr c0" "composer_reach c0 c"
  shows "runs_where (\<lambda>v. \<not> rv_returned v) c + runs_where rv_abandonedCounted c \<le> m
    \<and> runs_where (\<lambda>v. \<not> rv_settled v) c \<le> m + cs_abandonedReclaimed (cm_counters c)
    \<and> cs_evaluated (cm_counters c) = returned_outcomes (cm_counters c) + cm_inFlight c
    \<and> cm_inFlight c = runs_where (\<lambda>v. \<not> rv_returned v) c"
proof -
  have "composer_inv c" by (rule composer_inv_reach [OF assms(2) composer_inv_new [OF assms(1)]])
  moreover have "cm_maxConcurrent c0 = m" using assms(1) by (auto simp: new_composer_def split: if_splits)
  ultimately show ?thesis
    using composer_reach_limit [OF assms(2)] unsettled_bound [of c] by (auto simp: composer_inv_def occupancy_def)
qed

text \<open>The deadline is fail-closed: a call returns a pass only for a pass verdict of the layer that was
  there within the deadline, and a reject only with the layer's own timely reason. A deadline, an
  exception, a malformed verdict and a late verdict are errors, and a full bulkhead sheds.\<close>

theorem composer_fails_closed:
  "(snd (run_finish i w now c) = Some OPass \<longleftrightarrow>
     (\<exists>v. map_of (cm_runs c) i = Some v \<and> \<not> rv_returned v \<and> w = WVerdict LVPass
        \<and> now - rv_startedAt v \<le> real_of_int (cm_timeoutMs c)))
   \<and> (snd (run_finish i w now c) = Some (OReject reason) \<longleftrightarrow>
     (\<exists>v. map_of (cm_runs c) i = Some v \<and> \<not> rv_returned v \<and> w = WVerdict (LVReject reason)
        \<and> now - rv_startedAt v \<le> real_of_int (cm_timeoutMs c)))
   \<and> (snd (run_start i now c) = (if cm_inFlight c + cm_abandonedLive c < cm_maxConcurrent c then None else Some OShed))"
  by (intro conjI)
    (auto simp: run_finish_def run_start_def occupancy_def Let_def winner_outcome_def validVerdict_def
      ALL_REJECT_REASONS_complete split: option.splits winner.splits layer_value.splits prod.splits if_splits)

subsection \<open>Witness\<close>

text \<open>The deadline passes, the reclaim timer gives the evaluation up and a second call starts: two evaluations run behind
  a bulkhead of one.\<close>

theorem composer_bulkhead_and_accounting_witness:
  "\<exists>c0 c. new_composer 50 1 ''fail_closed'' None = Inr c0 \<and> composer_reach c0 c
     \<and> runs_where (\<lambda>v. \<not> rv_returned v) c + runs_where rv_abandonedCounted c \<le> 1
     \<and> runs_where (\<lambda>v. \<not> rv_settled v) c \<le> 1 + cs_abandonedReclaimed (cm_counters c)
     \<and> runs_where (\<lambda>v. \<not> rv_settled v) c = 2"
proof -
  obtain c0 where c0: "new_composer 50 1 ''fail_closed'' None = Inr c0"
    by (simp add: new_composer_def FAILURE_POLICIES_def is_positive_safe_integer_def is_safe_integer_def
        MAX_SAFE_INTEGER_def)
  define c1 where "c1 = fst (run_start 7 0 c0)"
  define c2 where "c2 = fst (run_finish 7 WDeadline 50 c1)"
  define c3 where "c3 = run_reclaim 7 c2"
  define c4 where "c4 = fst (run_start 8 300 c3)"
  have e: "cm_runs c0 = []" "cm_inFlight c0 = 0" "cm_abandonedLive c0 = 0" "cm_maxConcurrent c0 = 1"
    using c0 by (auto simp: new_composer_def split: if_splits)
  note steps = c1_def c2_def c3_def run_start_def run_finish_def run_reclaim_def occupancy_def Let_def winner_outcome_def
  have "composer_reach c0 c1"
    by (rule composer_reach.start [OF composer_reach.init, of _ 7 0 c1 None])
      (use e in \<open>simp_all add: c1_def run_start_def occupancy_def Let_def\<close>)
  then have "composer_reach c0 c2"
    by (rule composer_reach.finish [where i = 7 and w = WDeadline and now = 50 and oc = "snd (run_finish 7 WDeadline 50 c1)"])
      (simp_all add: c2_def)
  then have "composer_reach c0 c3" unfolding c3_def by (rule composer_reach.reclaim)
  moreover have "map_of (cm_runs c3) 8 = None" using e by (simp add: steps)
  ultimately have r: "composer_reach c0 c4"
    by (rule composer_reach.start [where now = 300 and oc = "snd (run_start 8 300 c3)"]) (simp add: c4_def)
  have "runs_where (\<lambda>v. \<not> rv_settled v) c4 = 2"
    using e by (simp add: c4_def steps runs_where_def)
  then show ?thesis using composer_bulkhead_and_accounting [OF c0 r] c0 r by blast
qed

end
