(* ===== verification/L2_Stage.thy ===== *)
theory L2_Stage
  imports Lanes Enrollment Composer
begin

text \<open>
  The second layer as the plane runs it: the adapter \<^verbatim>\<open>JourneyLanesLayer\<close>
  (\<^verbatim>\<open>defense/layers/a7-journey-lanes.ts\<close>), and \<^verbatim>\<open>L2Stage\<close> with its enrollment \<^verbatim>\<open>Observation\<close>
  (\<^verbatim>\<open>defense/plane/l2-stage.ts\<close>). The stage turns the outcome of the composer and the decision the
  evaluation made, if it got that far, into the final decision; the WeakMap between the two is the argument
  \<open>made\<close>. The observation is a state machine driven by the upstream response, the delivery and the end of
  the request; the caller (\<^verbatim>\<open>front.ts\<close>) catches what its calls throw, so a throwing call leaves the state
  as it was.

  The theorems: a final decision admits only what the lanes admitted and the composer let through in time;
  it is well formed, except when the evaluation of an open request is discarded; an observation emits
  exactly one event; and a credit is enrolled only for the token of the delivered, reviewed response of an
  ordinary open decision.
\<close>

subsection \<open>The layer adapter\<close>

definition lanes_evaluate :: "lane_decision \<Rightarrow> winner" where
  "lanes_evaluate d =
     (if ld_outcome d = Admitted then WVerdict LVPass
      else if ld_outcome d = Shed then
        WVerdict (LVReject (if ld_lane d = Some LaneCredited then a7_lane_credited_budget else a7_lane_unverified_budget))
      else WError)"

subsection \<open>The final decision\<close>

definition error_failure :: "layer_error_kind \<Rightarrow> l2_failure" where
  "error_failure k = (case k of LThrow \<Rightarrow> FThrow | LTimeout \<Rightarrow> FTimeout | LInvalidVerdict \<Rightarrow> FInvalidVerdict)"

definition with_bucket_of :: "lane_decision \<Rightarrow> lane_decision \<Rightarrow> lane_decision" where
  "with_bucket_of m d = d\<lparr>ld_dt := ld_dt m, ld_lvl := ld_lvl m, ld_lseq := ld_lseq m\<rparr>"

definition stage_decision :: "operation_class \<Rightarrow> layer_outcome \<Rightarrow> lane_decision option \<Rightarrow> lane_decision" where
  "stage_decision cls outcome made = (case outcome of
     OShed \<Rightarrow> failureDecision cls FSaturation
   | OError k \<Rightarrow>
       (case made of
          None \<Rightarrow> failureDecision cls (error_failure k)
        | Some m \<Rightarrow>
            if ld_outcome m = Error then m
            else let d = failureDecision cls (error_failure k) in
              (case ld_lane m of
                 None \<Rightarrow> d
               | Some l \<Rightarrow>
                   if ld_outcome m = Admitted then with_bucket_of m (d\<lparr>ld_spent := Some l\<rparr>)
                   else if ld_outcome m = Shed then with_bucket_of m (d\<lparr>ld_touched := Some l\<rparr>)
                   else d))
   | _ \<Rightarrow> (case made of Some m \<Rightarrow> m | None \<Rightarrow> failureDecision cls FInvalidVerdict))"

text \<open>\<^verbatim>\<open>L2Stage.decide\<close> on the lanes: \<open>outcome\<close> is what \<^verbatim>\<open>composer.run\<close> returned, or \<^const>\<open>None\<close> when it threw.\<close>

definition stage_decide ::
  "layer_request \<Rightarrow> layer_outcome option \<Rightarrow> lane_decision option \<Rightarrow> journey_lanes \<Rightarrow> journey_lanes \<times> lane_decision" where
  "stage_decide r outcome made s =
     (let cls = operationClassOf (lr_method r) (lr_target r);
          d = (case outcome of None \<Rightarrow> failureDecision cls FThrow | Some oc \<Rightarrow> stage_decision cls oc made)
      in (record_decision d s, d))"

subsection \<open>The enrollment observation\<close>

record observation =
  ob_verdict :: "token_match option"
  ob_done :: bool
  ob_early :: "enroll_skip_reason option"
  ob_maxBytes :: nat

datatype enrollment_event = Enrolled string "int \<times> int" | EnrollSkipped enroll_skip_reason

definition new_observation :: "lane_decision \<Rightarrow> bool \<Rightarrow> nat \<Rightarrow> observation" where
  "new_observation d simulated maxBytes = \<lparr>ob_verdict = None, ob_done = False,
     ob_early = (if ld_outcome d = Degraded then Some skip_degraded
       else if simulated \<or> ld_simulated d then Some skip_simulated else None),
     ob_maxBytes = maxBytes\<rparr>"

definition onUpstream :: "upstream_observation \<Rightarrow> observation \<Rightarrow> observation" where
  "onUpstream response o1 =
     (if ob_done o1 \<or> ob_early o1 \<noteq> None \<or> ob_verdict o1 \<noteq> None then o1
      else case evaluateObservation response (ob_maxBytes o1) of
        Inl e \<Rightarrow> o1
      | Inr v \<Rightarrow> o1\<lparr>ob_verdict := Some v\<rparr>)"

text \<open>The clock is read by the enrollment and again by the statistics of the filter.\<close>

definition onDelivered ::
  "(string \<Rightarrow> bytes) \<Rightarrow> (bytes \<Rightarrow> string) \<Rightarrow> instant \<times> instant \<times> instant \<Rightarrow> instant
   \<Rightarrow> journey_lanes \<times> observation \<Rightarrow> (journey_lanes \<times> observation) \<times> enrollment_event list" where
  "onDelivered dig tag rd t4 st = (case st of (s, o1) \<Rightarrow>
     (case ob_verdict o1 of
        Some (TokenFound token) \<Rightarrow>
          if ob_done o1 \<or> ob_early o1 \<noteq> None then ((s, o1), [])
          else let o2 = o1\<lparr>ob_done := True\<rparr> in
            (case enroll dig tag rd token s of (s1, res) \<Rightarrow>
              (case res of
                 Some ct \<Rightarrow> (case filter_stats_of t4 (jl_filter s1) of (f, fs) \<Rightarrow>
                   ((s1\<lparr>jl_filter := f\<rparr>, o2), [Enrolled ct (fs_popcount fs)]))
               | None \<Rightarrow> ((s1, o2), [EnrollSkipped already_enrolled])))
      | _ \<Rightarrow> ((s, o1), [])))"

definition finalize_observation :: "observation \<Rightarrow> observation \<times> enrollment_event list" where
  "finalize_observation o1 =
     (if ob_done o1 then (o1, [])
      else (o1\<lparr>ob_done := True\<rparr>,
        [EnrollSkipped (case ob_early o1 of Some r \<Rightarrow> r
          | None \<Rightarrow> (case ob_verdict o1 of None \<Rightarrow> upstream_failed
             | Some (TokenFound t) \<Rightarrow> delivery_incomplete | Some (TokenRefused r) \<Rightarrow> r))]))"

text \<open>\<^verbatim>\<open>observe\<close>.\<close>

definition observe :: "layer_request \<Rightarrow> lane_decision \<Rightarrow> bool \<Rightarrow> nat \<Rightarrow> observation option" where
  "observe r d simulated maxBytes =
     (if \<not> isFormRoute (lr_method r) (lr_target r) then None else Some (new_observation d simulated maxBytes))"

subsection \<open>Final decisions\<close>

lemma stage_decision_cases:
  assumes "stage_decision cls oc made = d"
  obtains (made) "made = Some d" "oc = OPass \<or> (\<exists>r. oc = OReject r) \<or> ld_outcome d = Error"
  | (failed) f where "d = failureDecision cls f"
  | (spent) m l f where "made = Some m" "ld_outcome m = Admitted" "ld_lane m = Some l" "\<exists>k. oc = OError k"
      "d = with_bucket_of m ((failureDecision cls f)\<lparr>ld_spent := Some l\<rparr>)"
  | (touched) m l f where "made = Some m" "ld_outcome m = Shed" "ld_lane m = Some l" "\<exists>k. oc = OError k"
      "d = with_bucket_of m ((failureDecision cls f)\<lparr>ld_touched := Some l\<rparr>)"
  using assms
  by (cases oc; cases made) (auto simp: stage_decision_def Let_def split: if_splits option.splits)

lemma with_bucket_sel [simp]:
  "ld_outcome (with_bucket_of m d) = ld_outcome d" "ld_class (with_bucket_of m d) = ld_class d"
  "ld_lane (with_bucket_of m d) = ld_lane d" "ld_spent (with_bucket_of m d) = ld_spent d"
  "ld_touched (with_bucket_of m d) = ld_touched d" "ld_creditTag (with_bucket_of m d) = ld_creditTag d"
  "ld_simulated (with_bucket_of m d) = ld_simulated d" "ld_shadow (with_bucket_of m d) = ld_shadow d"
  "ld_shedReason (with_bucket_of m d) = ld_shedReason d" "ld_errorKind (with_bucket_of m d) = ld_errorKind d"
  by (simp_all add: with_bucket_of_def)

text \<open>C12. The second layer fails closed. Whatever the composer returned and whatever the evaluation decided,
  the final decision is admitted only if it is the decision of the lanes itself and the composer let the
  evaluation through; and a request of the classes mutation and unknown proceeds only so. A saturated,
  failed or late evaluation never lets such a request through.\<close>

theorem stage_admits_only_timely_decisions:
  assumes "operationClassOf (lr_method r) (lr_target r) \<noteq> ClsOpen \<or> ld_outcome d = Admitted"
    and "stage_decide r outcome made s = (s', d)" "proceeds d"
  shows "made = Some d \<and> (outcome = Some OPass \<or> (\<exists>why. outcome = Some (OReject why)))"
proof (cases outcome)
  case None
  then show ?thesis using assms by (auto simp: stage_decide_def Let_def proceeds_def failureDecision_def split: if_splits)
next
  case (Some oc)
  let ?cls = "operationClassOf (lr_method r) (lr_target r)"
  have "stage_decision ?cls oc made = d" using assms(2) Some by (simp add: stage_decide_def Let_def)
  then show ?thesis
  proof (cases rule: stage_decision_cases)
    case made
    then show ?thesis using assms(3) Some by (auto simp: proceeds_def)
  next
    case (failed f)
    then show ?thesis using assms(1,3) by (auto simp: proceeds_def failureDecision_def split: if_splits)
  next
    case (spent m l f)
    then show ?thesis using assms(1,3) by (auto simp: proceeds_def failureDecision_def split: if_splits)
  next
    case (touched m l f)
    then show ?thesis using assms(1,3) by (auto simp: proceeds_def failureDecision_def split: if_splits)
  qed
qed

text \<open>A discarded decision reports exactly what it took, and is otherwise well formed.\<close>

lemma decide_class: "ld_class (snd (decide dig tag rd r s)) = operationClassOf (lr_method r) (lr_target r)"
proof -
  obtain t1 t2 t3 where rd: "rd = (t1, t2, t3)" by (cases rd)
  obtain s' d where d: "decide dig tag rd r s = (s', d)" by (cases "decide dig tag rd r s")
  from d [unfolded rd] show ?thesis unfolding d snd_conv
    by (cases rule: decide_cases) (auto simp: with_taken_def)
qed

text \<open>The final decision for a mutation or an unknown request is well formed, also when the composer
  discarded what the lanes had decided: the validator of the second layer finds nothing invalid in it. A
  discarded decision has no lane, is an error, and names in \<^verbatim>\<open>spent\<close> exactly the lane whose token the
  evaluation had consumed.\<close>

theorem stage_decision_is_well_formed:
  assumes "operationClassOf (lr_method r) (lr_target r) \<noteq> ClsOpen"
    and "made = None \<or> made = Some (snd (decide dig tag rd r s0))" "stage_decide r outcome made s = (s', d)"
  shows "l2_decision_invalid \<notin> fst ` set (l2_decision_findings v final d)
    \<and> (\<forall>l. ld_spent d = Some l \<longleftrightarrow> (\<exists>m k. made = Some m \<and> ld_outcome m = Admitted \<and> ld_lane m = Some l
          \<and> outcome = Some (OError k)))"
proof -
  let ?cls = "operationClassOf (lr_method r) (lr_target r)"
  obtain t1 t2 t3 where rd: "rd = (t1, t2, t3)" by (cases rd)
  have sh: "ld_spent m = None \<and> ld_touched m = None \<and> (ld_outcome m = Admitted \<longrightarrow> ld_lane m \<noteq> None)" if m: "made = Some m" for m
  proof -
    obtain s1 where "decide dig tag (t1, t2, t3) r s0 = (s1, m)"
      using assms(2) m rd by (cases "decide dig tag (t1, t2, t3) r s0") auto
    then show ?thesis by (cases rule: decide_cases) (auto simp: with_taken_def)
  qed
  have wf: "l2_decision_invalid \<notin> fst ` set (l2_decision_findings v final m)" if "made = Some m" for m
    using assms(2) that every_decision_well_formed by auto
  have fail: "l2_decision_invalid \<notin> fst ` set (l2_decision_findings v final
      (with_bucket_of m ((failureDecision ?cls f)\<lparr>ld_spent := a\<rparr>)))"
    "l2_decision_invalid \<notin> fst ` set (l2_decision_findings v final
      (with_bucket_of m ((failureDecision ?cls f)\<lparr>ld_touched := a\<rparr>)))" for m f a
    using assms(1)
    by (auto simp: l2_decision_findings_def Let_def isValidDecision_def failureDecision_def flag_def with_bucket_of_def)
  have fail0: "l2_decision_invalid \<notin> fst ` set (l2_decision_findings v final (failureDecision ?cls f))" for f
    using assms(1) by (auto simp: l2_decision_findings_def Let_def isValidDecision_def failureDecision_def flag_def)
  have none: "ld_spent (failureDecision ?cls f) = None" "ld_touched (failureDecision ?cls f) = None" for f
    by (simp_all add: failureDecision_def)
  show ?thesis
  proof (cases outcome)
    case None
    then show ?thesis using assms(3) fail0 none by (auto simp: stage_decide_def Let_def)
  next
    case (Some oc)
    have d: "d = stage_decision ?cls oc made" using assms(3) Some by (simp add: stage_decide_def Let_def)
    show ?thesis
    proof (cases made)
      case None
      then show ?thesis using d Some fail0 none by (auto simp: stage_decision_def split: layer_outcome.splits)
    next
      case m: (Some m)
      then show ?thesis
        using d Some sh [OF m] wf [OF m] none fail0 fail
        by (cases "ld_lane m"; cases oc)
          (auto simp: stage_decision_def Let_def split: layer_outcome.splits if_splits)
    qed
  qed
qed

text \<open>Discarding the evaluation of an open request is reported as a spend, although an open decision
  consumes nothing: the validator rejects the event, and the counter of unverified spends grows.\<close>

lemma discarded_open_render_is_flagged:
  assumes "operationClassOf (lr_method r) (lr_target r) = ClsOpen"
    and "stage_decide r (Some (OError k)) (Some (snd (decide dig tag rd r s0))) s = (s', d)"
  shows "ld_outcome d = Degraded \<and> l2_decision_invalid \<in> fst ` set (l2_decision_findings v final d)
    \<and> jl_spentUnverified s' = jl_spentUnverified s + 1"
proof -
  have m: "snd (decide dig tag rd r s0) = mk_decision ClsOpen (Some LaneOpen) Admitted"
    using assms(1) by (cases rd) (simp add: decide_def Let_def)
  have d: "d = with_bucket_of (mk_decision ClsOpen (Some LaneOpen) Admitted)
      ((mk_decision ClsOpen (Some LaneOpen) Degraded)\<lparr>ld_spent := Some LaneOpen\<rparr>)"
    and s': "s' = record_decision d s"
    using assms m by (auto simp: stage_decide_def Let_def stage_decision_def failureDecision_def)
  have "l2_decision_invalid \<in> fst ` set (l2_decision_findings v final d)"
    unfolding d by (auto simp: l2_decision_findings_def Let_def flag_def)
  moreover have "jl_spentUnverified s' = jl_spentUnverified s + 1"
    unfolding s' d by (simp add: record_decision_def Let_def)
  ultimately show ?thesis by (simp add: d)
qed

subsection \<open>Histories of an observation\<close>

text \<open>The calls on one observation; the state of the lanes at a delivery is whatever it is by then.\<close>

datatype obs_op = ObsUpstream upstream_observation | ObsDelivered "instant \<times> instant \<times> instant" instant journey_lanes | ObsFinalize

primrec obs_step ::
  "(string \<Rightarrow> bytes) \<Rightarrow> (bytes \<Rightarrow> string) \<Rightarrow> obs_op \<Rightarrow> observation \<Rightarrow> observation \<times> enrollment_event list" where
  "obs_step dig tag (ObsUpstream u) o1 = (onUpstream u o1, [])"
| "obs_step dig tag (ObsDelivered rd t4 s) o1 = (case onDelivered dig tag rd t4 (s, o1) of ((s', o2), evs) \<Rightarrow> (o2, evs))"
| "obs_step dig tag ObsFinalize o1 = finalize_observation o1"

fun obs_run ::
  "(string \<Rightarrow> bytes) \<Rightarrow> (bytes \<Rightarrow> string) \<Rightarrow> obs_op list \<Rightarrow> observation \<Rightarrow> observation \<times> enrollment_event list" where
  "obs_run dig tag [] o1 = (o1, [])"
| "obs_run dig tag (op # ops) o1 = (case obs_step dig tag op o1 of (o2, evs) \<Rightarrow>
     (case obs_run dig tag ops o2 of (o3, evs') \<Rightarrow> (o3, evs @ evs')))"

lemma obs_step_done:
  assumes "obs_step dig tag op o1 = (o2, evs)"
  shows "(ob_done o1 \<longrightarrow> o2 = o1 \<and> evs = []) \<and> ob_early o2 = ob_early o1 \<and> ob_maxBytes o2 = ob_maxBytes o1
    \<and> (\<not> ob_done o1 \<longrightarrow> length evs = (if ob_done o2 then 1 else 0)) \<and> (op = ObsFinalize \<longrightarrow> ob_done o2)"
  using assms
  by (cases op) (auto simp: onUpstream_def onDelivered_def finalize_observation_def Let_def
      split: option.splits token_match.splits if_splits prod.splits sum.splits)

lemma obs_run_done: "ob_done o1 \<Longrightarrow> obs_run dig tag ops o1 = (o1, [])"
proof (induction ops)
  case (Cons op ops)
  then show ?case
    using obs_step_done [of dig tag op o1] by (cases "obs_step dig tag op o1") simp
qed simp

lemma obs_run_events:
  assumes "obs_run dig tag ops o1 = (o2, evs)" "\<not> ob_done o1"
  shows "length evs = (if ob_done o2 then 1 else 0) \<and> (ObsFinalize \<in> set ops \<longrightarrow> ob_done o2)"
  using assms
proof (induction ops arbitrary: o1 evs)
  case (Cons op ops)
  obtain o' e1 where s: "obs_step dig tag op o1 = (o', e1)" by (cases "obs_step dig tag op o1")
  obtain e2 where r: "obs_run dig tag ops o' = (o2, e2)" "evs = e1 @ e2"
    using Cons.prems(1) s by (auto split: prod.splits)
  show ?case
    using obs_step_done [OF s] Cons.IH [OF r(1)] obs_run_done [of o' dig tag ops] Cons.prems(2) r
    by (cases "ob_done o'") auto
qed simp

text \<open>Every observed render is disposed of exactly once: whatever upstream, delivery and final calls an
  observation gets, in whatever order and however often, it emits at most one event, and exactly one once it
  has been finalized.\<close>

theorem observation_emits_exactly_once:
  assumes "obs_run dig tag ops (new_observation d simulated maxBytes) = (o2, evs)"
  shows "length evs \<le> 1 \<and> (ObsFinalize \<in> set ops \<longrightarrow> length evs = 1)"
  using obs_run_events [OF assms] by (simp add: new_observation_def split: if_splits)

lemma verdict_origin:
  assumes "obs_run dig tag ops o1 = (o2, evs)" "ob_verdict o2 = Some v" "ob_verdict o1 = None"
  shows "\<exists>u. ObsUpstream u \<in> set ops \<and> evaluateObservation u (ob_maxBytes o1) = Inr v"
  using assms
proof (induction ops arbitrary: o1 evs)
  case (Cons op ops)
  obtain o' e1 where s: "obs_step dig tag op o1 = (o', e1)" by (cases "obs_step dig tag op o1")
  obtain e2 where r: "obs_run dig tag ops o' = (o2, e2)" using Cons.prems(1) s by (auto split: prod.splits)
  have mb: "ob_maxBytes o' = ob_maxBytes o1" using obs_step_done [OF s] by simp
  show ?case
  proof (cases "ob_verdict o'")
    case None
    from Cons.IH [OF r Cons.prems(2) None] mb show ?thesis by auto
  next
    case (Some w)
    have u: "\<exists>u. op = ObsUpstream u \<and> evaluateObservation u (ob_maxBytes o1) = Inr w"
      using s Some Cons.prems(3)
      by (cases op) (auto simp: onUpstream_def onDelivered_def finalize_observation_def Let_def
          split: option.splits token_match.splits if_splits prod.splits sum.splits)
    have "ob_verdict q2 = ob_verdict q1" if "obs_step dig tag p q1 = (q2, es)" "ob_verdict q1 \<noteq> None" for p q1 q2 es
      using that by (cases p) (auto simp: onUpstream_def onDelivered_def finalize_observation_def Let_def
          split: option.splits token_match.splits if_splits prod.splits sum.splits)
    then have "ob_verdict q2 = ob_verdict q1" if "obs_run dig tag ps q1 = (q2, es)" "ob_verdict q1 \<noteq> None" for ps q1 q2 es
      using that by (induction ps arbitrary: q1 es) (auto split: prod.splits)
    from this [OF r] Some Cons.prems(2) u show ?thesis by auto
  qed
qed simp

lemma enrolled_at:
  assumes "obs_run dig tag ops o1 = (o2, evs)" "Enrolled ct fill \<in> set evs"
  obtains pre rd t4 s post q1 es tok where "ops = pre @ ObsDelivered rd t4 s # post"
    "obs_run dig tag pre o1 = (q1, es)" "ob_verdict q1 = Some (TokenFound tok)" "ob_early q1 = None"
    "ct = tag (dig tok)" "snd (enroll dig tag rd tok s) = Some ct"
proof -
  have "\<exists>pre rd t4 s post q1 es tok. ops = pre @ ObsDelivered rd t4 s # post
    \<and> obs_run dig tag pre o1 = (q1, es) \<and> ob_verdict q1 = Some (TokenFound tok) \<and> ob_early q1 = None
    \<and> ct = tag (dig tok) \<and> snd (enroll dig tag rd tok s) = Some ct"
    using assms
  proof (induction ops arbitrary: o1 evs)
    case (Cons op ops)
    obtain o' e1 where s: "obs_step dig tag op o1 = (o', e1)" by (cases "obs_step dig tag op o1")
    obtain e2 where r: "obs_run dig tag ops o' = (o2, e2)" "evs = e1 @ e2"
      using Cons.prems(1) s by (auto split: prod.splits)
    show ?case
    proof (cases "Enrolled ct fill \<in> set e1")
      case True
      then obtain rd t4 st tok where op: "op = ObsDelivered rd t4 st" "ob_verdict o1 = Some (TokenFound tok)"
        "ob_early o1 = None" "snd (enroll dig tag rd tok st) = Some ct"
        using s by (cases op) (auto simp: onDelivered_def finalize_observation_def Let_def
            split: option.splits token_match.splits if_splits prod.splits)
      have "ct = tag (dig tok)" using op(4)
        by (auto simp: enroll_def Let_def split: prod.splits if_splits)
      then show ?thesis using op by (intro exI [of _ "[]"]) auto
    next
      case False
      then have "Enrolled ct fill \<in> set e2" using Cons.prems(2) r(2) by simp
      from Cons.IH [OF r(1) this] obtain pre rd t4 st post q1 es tok where
        x: "ops = pre @ ObsDelivered rd t4 st # post" "obs_run dig tag pre o' = (q1, es)"
          "ob_verdict q1 = Some (TokenFound tok)" "ob_early q1 = None" "ct = tag (dig tok)"
          "snd (enroll dig tag rd tok st) = Some ct" by blast
      then show ?thesis using s by (intro exI [of _ "op # pre"]) auto
    qed
  qed simp
  then show ?thesis using that by blast
qed

text \<open>C14. A credit is enrolled only from a delivered, reviewed response. If an observation emits an
  enrollment, then the decision of the render was neither degraded nor simulated, the response was delivered
  after it had been observed upstream with status 200 and within the size limit, its body contains the
  reviewed form with exactly one submission token, and the credit tag is the tag of that token.\<close>

theorem credit_only_from_delivered_reviewed_response:
  assumes "obs_run dig tag ops (new_observation d simulated maxBytes) = (o2, evs)" "Enrolled ct fill \<in> set evs"
  shows "ld_outcome d \<noteq> Degraded \<and> \<not> simulated \<and> \<not> ld_simulated d
    \<and> (\<exists>pre rd t4 s post u tok. ops = pre @ ObsDelivered rd t4 s # post \<and> ObsUpstream u \<in> set pre
         \<and> uo_status u = 200 \<and> length (uo_payload u) \<le> maxBytes
         \<and> matchFormToken (uo_payload u) = Inr (TokenFound tok) \<and> ct = tag (dig tok))"
proof -
  let ?o = "new_observation d simulated maxBytes"
  obtain pre rd t4 s post q1 es tok where x: "ops = pre @ ObsDelivered rd t4 s # post" "obs_run dig tag pre ?o = (q1, es)"
    "ob_verdict q1 = Some (TokenFound tok)" "ob_early q1 = None" "ct = tag (dig tok)"
    using enrolled_at [OF assms] by metis
  have early: "ob_early q2 = ob_early q1" if "obs_run dig tag ps q1 = (q2, es)" for ps q1 q2 es
    using that
  proof (induction ps arbitrary: q1 es)
    case (Cons p ps)
    then show ?case using obs_step_done [of dig tag p q1] by (auto split: prod.splits)
  qed simp
  have "ob_early ?o = None" using early [OF x(2)] x(4) by simp
  then have nd: "ld_outcome d \<noteq> Degraded \<and> \<not> simulated \<and> \<not> ld_simulated d"
    by (simp add: new_observation_def split: if_splits)
  obtain u where u: "ObsUpstream u \<in> set pre" "evaluateObservation u maxBytes = Inr (TokenFound tok)"
    using verdict_origin [OF x(2,3)] by (auto simp: new_observation_def)
  then have "uo_status u = 200" "length (uo_payload u) \<le> maxBytes" "matchFormToken (uo_payload u) = Inr (TokenFound tok)"
    by (auto simp: evaluateObservation_def split: if_splits prod.splits)
  with nd u(1) x(1,5) show ?thesis by blast
qed

subsection \<open>Witnesses\<close>

definition sample_form :: bytes where
  "sample_form = FORM_OPEN @ ''>'' @ INPUT_HEAD @ NAME_LITERAL @ VALUE_HEAD @ sample_token @ [quote_char] @ ''/></form>''"

definition sample_response :: upstream_observation where
  "sample_response = \<lparr>uo_status = 200, uo_rawHeaders = [''Content-Type'', ''text/html; charset=utf-8''],
     uo_payload = sample_form\<rparr>"

text \<open>The places where a literal occurs, by one structural pass.\<close>

fun occurrences :: "bytes \<Rightarrow> bytes \<Rightarrow> nat \<Rightarrow> nat list" where
  "occurrences needle [] k = []"
| "occurrences needle (x # xs) k =
     (if prefix needle (x # xs) then k # occurrences needle xs (Suc k) else occurrences needle xs (Suc k))"

lemma match_at_prefix: "match_at needle hay i \<longleftrightarrow> prefix needle (drop i hay)"
  by (metis match_at_def prefix_def append_eq_conv_conj take_is_prefix)

lemma occurrences_set:
  assumes "needle \<noteq> []"
  shows "set (occurrences needle hay k) = (\<lambda>j. k + j) ` {j. match_at needle hay j}"
proof (induction hay arbitrary: k)
  case Nil
  then show ?case using assms by (auto simp: match_at_prefix)
next
  case (Cons x xs)
  have "{j. match_at needle (x # xs) j} = (if prefix needle (x # xs) then {0} else {}) \<union> Suc ` {j. match_at needle xs j}"
  proof (rule set_eqI)
    fix j
    show "j \<in> {j. match_at needle (x # xs) j} \<longleftrightarrow>
        j \<in> (if prefix needle (x # xs) then {0} else {}) \<union> Suc ` {j. match_at needle xs j}"
      by (cases j) (auto simp: match_at_prefix)
  qed
  then show ?case using Cons.IH [of "Suc k"] by (simp add: image_Un image_image)
qed

lemma sample_occurrences:
  "occurrences NAME_LITERAL sample_form 0 = [48]" "occurrences FORM_ANY sample_form 0 = [0]"
  "occurrences FORM_CLOSE sample_form 0 = [124]"
  by (simp_all add: sample_form_def sample_token_def NAME_LITERAL_def FORM_ANY_def FORM_CLOSE_def FORM_OPEN_def
      INPUT_HEAD_def VALUE_HEAD_def numeral_eq_Suc)

lemma sample_form_token: "matchFormToken sample_form = Inr (TokenFound sample_token)"
proof -
  have occ: "{j. match_at NAME_LITERAL sample_form j} = {48}" "{j. match_at FORM_ANY sample_form j} = {0}"
    "{j. match_at FORM_CLOSE sample_form j} = {124}"
    using occurrences_set [of NAME_LITERAL sample_form 0] occurrences_set [of FORM_ANY sample_form 0]
      occurrences_set [of FORM_CLOSE sample_form 0] by (simp_all add: sample_occurrences)
  have ri: "reviewed_input sample_form 27 sample_token"
  proof -
    have "is_b64url_id 43 sample_token" unfolding sample_token_def by code_simp
    moreover have "sample_form = (FORM_OPEN @ ''>'') @ (INPUT_HEAD @ NAME_LITERAL @ VALUE_HEAD @ sample_token
        @ [quote_char] @ ''/>'') @ ''</form>''" by (simp add: sample_form_def)
    then have "match_at (INPUT_HEAD @ NAME_LITERAL @ VALUE_HEAD @ sample_token @ [quote_char] @ ''/>'')
        sample_form (length (FORM_OPEN @ ''>''))" by (metis match_at_append)
    ultimately show ?thesis by (simp add: reviewed_input_def)
  qed
  have "match_at FORM_OPEN sample_form 0"
    using match_at_append [of FORM_OPEN "[]"] by (simp add: sample_form_def)
  moreover have "match_at FORM_ANY sample_form g \<longleftrightarrow> g = 0" "match_at FORM_CLOSE sample_form g \<longleftrightarrow> g = 124" for g
    using occ(2,3) by blast+
  ultimately have "in_request_form sample_form 27" unfolding in_request_form_def by (intro exI [of _ 0]) simp
  then show ?thesis using match_single [OF occurrence_found [OF occ(1)], of sample_token] ri by simp
qed

lemma sample_response_verdict: "evaluateObservation sample_response 200 = Inr (TokenFound sample_token)"
proof -
  have h: "foldl header_step (0, True) (raw_pairs (uo_rawHeaders sample_response)) = (1, True)" by code_simp
  have "length sample_form = 131"
    by (simp add: sample_form_def sample_token_def)
  then show ?thesis
    unfolding evaluateObservation_def h by (simp add: sample_response_def sample_form_token)
qed

abbreviation open_admitted :: lane_decision where "open_admitted \<equiv> mk_decision ClsOpen (Some LaneOpen) Admitted"

abbreviation sample_calls :: "obs_op list" where
  "sample_calls \<equiv> [ObsUpstream sample_response, ObsDelivered (10, 11, 12) 13 sample_lanes, ObsFinalize]"

lemma sample_calls_run:
  "\<exists>o2 fill. obs_run sample_dig id sample_calls (new_observation open_admitted False 200)
     = (o2, [Enrolled (sample_dig sample_token) fill])"
  using sample_enroll
  by (auto simp: onUpstream_def new_observation_def sample_response_verdict onDelivered_def Let_def
      finalize_observation_def split: prod.splits)

theorem observation_emits_exactly_once_witness:
  "length (snd (obs_run sample_dig id sample_calls (new_observation open_admitted False 200))) = 1"
  using observation_emits_exactly_once [of sample_dig id sample_calls open_admitted False 200]
  by (cases "obs_run sample_dig id sample_calls (new_observation open_admitted False 200)") simp

theorem credit_only_from_delivered_reviewed_response_witness:
  "\<exists>ct fill o2. obs_run sample_dig id sample_calls (new_observation open_admitted False 200) = (o2, [Enrolled ct fill])
     \<and> (\<exists>tok. ct = id (sample_dig tok))"
proof -
  obtain o2 fill where r: "obs_run sample_dig id sample_calls (new_observation open_admitted False 200)
     = (o2, [Enrolled (sample_dig sample_token) fill])" using sample_calls_run by blast
  from credit_only_from_delivered_reviewed_response [OF r] r show ?thesis by auto
qed

theorem stage_admits_only_timely_decisions_witness:
  "operationClassOf (lr_method sample_submission) (lr_target sample_submission) \<noteq> ClsOpen
   \<and> proceeds (snd (stage_decide sample_submission (Some OPass) (Some (mk_decision ClsMutation (Some LaneUnverified) Admitted)) sample_lanes))
   \<and> Some (snd (stage_decide sample_submission (Some OPass) (Some (mk_decision ClsMutation (Some LaneUnverified) Admitted)) sample_lanes))
     = Some (mk_decision ClsMutation (Some LaneUnverified) Admitted)"
proof -
  let ?m = "mk_decision ClsMutation (Some LaneUnverified) Admitted"
  have cls: "operationClassOf (lr_method sample_submission) (lr_target sample_submission) \<noteq> ClsOpen"
    by (simp add: sample_submission_class)
  have r: "stage_decide sample_submission (Some OPass) (Some ?m) sample_lanes = (record_decision ?m sample_lanes, ?m)"
    by (simp add: stage_decide_def Let_def stage_decision_def)
  have "proceeds ?m" by (simp add: proceeds_def)
  with stage_admits_only_timely_decisions [OF _ r] cls r show ?thesis by simp
qed

theorem stage_decision_is_well_formed_witness:
  "\<forall>v final. l2_decision_invalid \<notin> fst ` set (l2_decision_findings v final
     (snd (stage_decide sample_submission (Some (OError LTimeout))
        (Some (snd (decide sample_dig id (1, 2, 3) sample_submission sample_lanes))) sample_lanes)))"
proof (intro allI)
  fix v final
  let ?made = "Some (snd (decide sample_dig id (1, 2, 3) sample_submission sample_lanes))"
  obtain s' d where r: "stage_decide sample_submission (Some (OError LTimeout)) ?made sample_lanes = (s', d)"
    by (cases "stage_decide sample_submission (Some (OError LTimeout)) ?made sample_lanes")
  have "operationClassOf (lr_method sample_submission) (lr_target sample_submission) \<noteq> ClsOpen"
    by (simp add: sample_submission_class)
  from stage_decision_is_well_formed [OF this _ r, of sample_dig id "(1, 2, 3)" sample_lanes v final] r
  show "l2_decision_invalid \<notin> fst ` set (l2_decision_findings v final
     (snd (stage_decide sample_submission (Some (OError LTimeout)) ?made sample_lanes)))" by simp
qed

end
