(* ===== verification/Authority_Store.thy ===== *)
theory Authority_Store
  imports Base64url
begin

text \<open>
  The durable state of the admission authority (\<^verbatim>\<open>workers/admission-service/authority.ts\<close>): the SQLite
  tables of the Durable Object, their uniqueness constraints, the lifecycle operations
  \<^verbatim>\<open>initializeAuthority\<close>, \<^verbatim>\<open>rotateAuthorityRelease\<close> and \<^verbatim>\<open>inspectLifecycleAuthority\<close>, and the receipts.

  A table is a list of rows in insertion order. A statement that violates a constraint throws; a throw
  inside \<^verbatim>\<open>transactionSync\<close> rolls the transaction back, so a transaction is a function to \<open>string + 'a\<close>
  and an operation keeps the state it had before the transaction on \<^const>\<open>Inl\<close>. The set of existing tables
  is part of the state, because the read-only inspection also runs on an object whose schema was never
  created. Values of the receipts' \<^verbatim>\<open>version\<close> column are fixed to 1 by the schema.
\<close>

subsection \<open>Results\<close>

definition sum_bind :: "'e + 'a \<Rightarrow> ('a \<Rightarrow> 'e + 'b) \<Rightarrow> 'e + 'b" where
  "sum_bind r f = (case r of Inl e \<Rightarrow> Inl e | Inr x \<Rightarrow> f x)"

lemma sum_bind_simps [simp]: "sum_bind (Inl e) f = Inl e" "sum_bind (Inr x) f = f x"
  by (simp_all add: sum_bind_def)

lemma sum_bind_Inr_iff: "sum_bind r f = Inr y \<longleftrightarrow> (\<exists>x. r = Inr x \<and> f x = Inr y)"
  by (cases r) auto

definition guard :: "bool \<Rightarrow> 'e \<Rightarrow> 'e + unit" where
  "guard b e = (if b then Inr () else Inl e)"

lemma guard_Inr_iff [simp]: "guard b e = Inr u \<longleftrightarrow> b"
  by (auto simp: guard_def)

subsection \<open>Constants, rows and tables\<close>

definition ADMISSION_POLICY_EPOCH :: string where "ADMISSION_POLICY_EPOCH = ''phase5c-i1-epoch-1''"
definition ADMISSION_AUTHORITY_ID :: string where "ADMISSION_AUTHORITY_ID = ''production-public-inquiries-v1''"
definition STAGING_ADMISSION_AUTHORITY_ID :: string where
  "STAGING_ADMISSION_AUTHORITY_ID = ''staging-public-inquiries-v1''"
definition PRE_PERMIT_LIFETIME_MS :: int where "PRE_PERMIT_LIFETIME_MS = 60000"
definition NONCE_RETENTION_MS :: int where "NONCE_RETENTION_MS = 120000"
definition AUTHORITY_RELEASE_RETENTION_AFTER_RETIRE_MS :: int where
  "AUTHORITY_RELEASE_RETENTION_AFTER_RETIRE_MS = 12 * 60000"
definition LIFECYCLE_RECEIPT_CAPACITY :: int where "LIFECYCLE_RECEIPT_CAPACITY = 4096"

datatype environment = Production | Staging
datatype operation = Initialize | RotateRelease
datatype stage = Pre | Post
datatype scope = Client | Global

record meta_row =
  mt_authorityId :: string
  mt_policyEpoch :: string
  mt_lastNow :: int

record release_row =
  rr_releaseId :: string
  rr_keyId :: string
  rr_activated :: int
  rr_retired :: "int option"

record nonce_row =
  nr_nonce :: string
  nr_releaseId :: string
  nr_clientId :: string
  nr_requestBinding :: string
  nr_permit :: string
  nr_claimed :: int
  nr_permitExpires :: int
  nr_retainUntil :: int
  nr_postConsumed :: bool

record observation_row =
  ow_id :: string
  ow_stage :: stage
  ow_scope :: scope
  ow_subject :: string
  ow_observedAt :: int

record receipt =
  rc_digest :: string
  rc_version :: int
  rc_operation :: operation
  rc_environment :: environment
  rc_authorityId :: string
  rc_policyEpoch :: string
  rc_keyFingerprint :: string
  rc_sequence :: int
  rc_applied :: int
  rc_currentReleaseId :: string
  rc_nextReleaseId :: string
  rc_nextKeyId :: string
  rc_activates :: int
  rc_retires :: "int option"

record authority_db =
  db_tables :: "string list"
  db_meta :: "meta_row option"
  db_releases :: "release_row list"
  db_nonces :: "nonce_row list"
  db_observations :: "observation_row list"
  db_receipts :: "receipt list"
  db_coverage :: bool

definition empty_db :: authority_db where
  "empty_db = \<lparr>db_tables = [], db_meta = None, db_releases = [], db_nonces = [], db_observations = [],
     db_receipts = [], db_coverage = False\<rparr>"

definition schema_tables :: "string list" where
  "schema_tables = [''authority_meta'', ''active_releases'', ''nonces'', ''observations'', ''lifecycle_receipts'',
     ''lifecycle_receipt_coverage'']"

definition createAuthoritySchema :: "authority_db \<Rightarrow> authority_db" where
  "createAuthoritySchema db = db\<lparr>db_tables := db_tables db @ filter (\<lambda>t. t \<notin> set (db_tables db)) schema_tables\<rparr>"

text \<open>\<^verbatim>\<open>exactlyOne\<close> of a query that selects the rows with \<open>P\<close>.\<close>

definition exactlyOne :: "('a \<Rightarrow> bool) \<Rightarrow> 'a list \<Rightarrow> 'a option" where
  "exactlyOne P rows = (case filter P rows of [x] \<Rightarrow> Some x | _ \<Rightarrow> None)"

definition constraint_error :: string where "constraint_error = ''SQLITE_CONSTRAINT''"

definition insert_release :: "release_row \<Rightarrow> authority_db \<Rightarrow> string + authority_db" where
  "insert_release r db =
     (if list_ex (\<lambda>x. rr_releaseId x = rr_releaseId r \<or> rr_keyId x = rr_keyId r) (db_releases db)
      then Inl constraint_error else Inr (db\<lparr>db_releases := db_releases db @ [r]\<rparr>))"

subsection \<open>Patterns\<close>

definition bounded_of :: "(char \<Rightarrow> bool) \<Rightarrow> nat \<Rightarrow> string \<Rightarrow> bool" where
  "bounded_of P n s \<longleftrightarrow> 1 \<le> length s \<and> length s \<le> n \<and> list_all P s"

definition is_release_char :: "char \<Rightarrow> bool" where
  "is_release_char c \<longleftrightarrow> is_alnum c \<or> c \<in> set ''_.:-''"

definition validRelease :: "string \<Rightarrow> bool" where "validRelease v = bounded_of is_release_char 128 v"
definition validKeyId :: "string \<Rightarrow> bool" where "validKeyId v = bounded_of is_b64url_char 64 v"

definition is_lower_hex :: "char \<Rightarrow> bool" where "is_lower_hex c \<longleftrightarrow> is_digit c \<or> in_range 97 102 c"
definition isLowerHex64 :: "string \<Rightarrow> bool" where "isLowerHex64 s \<longleftrightarrow> length s = 64 \<and> list_all is_lower_hex s"

definition is_safe_time :: "int \<Rightarrow> bool" where "is_safe_time n \<longleftrightarrow> is_safe_integer n \<and> 0 \<le> n"

subsection \<open>Receipts\<close>

definition findReceipt :: "string \<Rightarrow> authority_db \<Rightarrow> string + receipt option" where
  "findReceipt digest db = (case exactlyOne (\<lambda>r. rc_digest r = digest) (db_receipts db) of
     None \<Rightarrow> Inr None
   | Some r \<Rightarrow> if rc_version r \<noteq> 1 then Inl ''receipt-history'' else Inr (Some r))"

definition ensureNewReceiptCapacity :: "authority_db \<Rightarrow> string + unit" where
  "ensureNewReceiptCapacity db = guard (int (length (db_receipts db)) < LIFECYCLE_RECEIPT_CAPACITY) ''receipt-capacity''"

definition next_sequence :: "receipt list \<Rightarrow> int" where
  "next_sequence rs = (if rs = [] then 0 else Max (rc_sequence ` set rs)) + 1"

definition insertReceipt :: "receipt \<Rightarrow> authority_db \<Rightarrow> string + authority_db \<times> receipt" where
  "insertReceipt r db =
     (let n = next_sequence (db_receipts db); r' = r\<lparr>rc_sequence := n\<rparr> in
      if \<not> is_safe_integer n \<or> n < 1 then Inl ''receipt-history''
      else if rc_version r \<noteq> 1 \<or> list_ex (\<lambda>x. rc_digest x = rc_digest r \<or> rc_sequence x = n) (db_receipts db)
      then Inl constraint_error
      else Inr (db\<lparr>db_receipts := db_receipts db @ [r']\<rparr>, r'))"

subsection \<open>Inspection\<close>

datatype observation_status = ExactReceipt | NotFound | HistoryIncomplete

record authority_observation =
  ao_environment :: environment
  ao_authorityId :: string
  ao_policyEpoch :: string
  ao_observedAt :: int
  ao_initialized :: bool
  ao_complete :: bool
  ao_status :: observation_status
  ao_receipt :: "receipt option"
  ao_releases :: "release_row list"

text \<open>\<^const>\<open>None\<close> is the observation \<^verbatim>\<open>UNAVAILABLE\<close>.\<close>

definition inspectLifecycleAuthority ::
  "string \<Rightarrow> int \<Rightarrow> string \<Rightarrow> string \<Rightarrow> authority_db \<Rightarrow> string + authority_observation option" where
  "inspectLifecycleAuthority digest nowMs authorityId policyEpoch db =
     (let table = (\<lambda>t. t \<in> set (db_tables db));
          o1 = \<lparr>ao_environment = (if authorityId = STAGING_ADMISSION_AUTHORITY_ID then Staging else Production),
            ao_authorityId = authorityId, ao_policyEpoch = policyEpoch, ao_observedAt = nowMs,
            ao_initialized = False, ao_complete = True, ao_status = NotFound, ao_receipt = None, ao_releases = []\<rparr> in
      if \<not> isLowerHex64 digest \<or> \<not> is_safe_integer nowMs \<or> nowMs < 0 then Inl ''invalid-reconciliation''
      else if \<not> table ''authority_meta'' then Inr (Some o1)
      else case db_meta db of
        None \<Rightarrow> if table ''active_releases'' \<and> db_releases db \<noteq> [] then Inr None else Inr (Some o1)
      | Some m \<Rightarrow>
          if mt_authorityId m \<noteq> authorityId \<or> mt_policyEpoch m \<noteq> policyEpoch \<or> \<not> table ''active_releases''
          then Inr None
          else let o2 = o1\<lparr>ao_initialized := True,
                 ao_releases := take 3 (sort_key rr_activated (db_releases db))\<rparr> in
            if \<not> table ''lifecycle_receipts'' \<or> \<not> table ''lifecycle_receipt_coverage'' \<or> \<not> db_coverage db
            then Inr (Some (o2\<lparr>ao_complete := False, ao_status := HistoryIncomplete\<rparr>))
            else sum_bind (findReceipt digest db) (\<lambda>r.
              Inr (Some (o2\<lparr>ao_status := (if r \<noteq> None then ExactReceipt else NotFound), ao_receipt := r\<rparr>))))"

subsection \<open>Initialization\<close>

record authority_spec =
  as_environment :: environment
  as_authorityId :: string
  as_policyEpoch :: string
  as_releaseId :: string
  as_releaseKeyId :: string
  as_nowMs :: int
  as_confirmProduction :: bool

datatype lifecycle_status = Initialized | AlreadyInitialized | Rotated | AlreadyRotated

type_synonym lifecycle_result = "lifecycle_status \<times> receipt option"

text \<open>The answer of a repeated command that is already in the receipts.\<close>

definition prior_receipt :: "receipt option \<Rightarrow> authority_db \<Rightarrow> string + receipt option" where
  "prior_receipt commandReceipt db = (case commandReceipt of None \<Rightarrow> Inr None | Some c \<Rightarrow> findReceipt (rc_digest c) db)"

text \<open>Inserting the first release, with the coverage marker and the receipt when a command is behind it.\<close>

definition initialize_rows :: "authority_spec \<Rightarrow> receipt option \<Rightarrow> authority_db \<Rightarrow> string + authority_db \<times> lifecycle_result" where
  "initialize_rows spec commandReceipt db =
     sum_bind (case commandReceipt of None \<Rightarrow> Inr () | Some c \<Rightarrow> ensureNewReceiptCapacity db) (\<lambda>_.
     let db1 = db\<lparr>db_meta := Some \<lparr>mt_authorityId = as_authorityId spec, mt_policyEpoch = as_policyEpoch spec,
           mt_lastNow = as_nowMs spec\<rparr>\<rparr> in
     sum_bind (insert_release \<lparr>rr_releaseId = as_releaseId spec, rr_keyId = as_releaseKeyId spec,
         rr_activated = as_nowMs spec, rr_retired = None\<rparr> db1) (\<lambda>db2.
     case commandReceipt of
       None \<Rightarrow> Inr (db2, Initialized, None)
     | Some c \<Rightarrow>
         if db_coverage db2 then Inl constraint_error
         else sum_bind (insertReceipt c (db2\<lparr>db_coverage := True\<rparr>)) (\<lambda>(db3, r). Inr (db3, Initialized, Some r))))"

definition initialize_tx :: "authority_spec \<Rightarrow> receipt option \<Rightarrow> authority_db \<Rightarrow> string + authority_db \<times> lifecycle_result" where
  "initialize_tx spec commandReceipt db =
     sum_bind (prior_receipt commandReceipt db) (\<lambda>prior.
     case prior of
       Some r \<Rightarrow> Inr (db, AlreadyInitialized, Some r)
     | None \<Rightarrow> (case db_meta db of
         Some m \<Rightarrow>
           if commandReceipt \<noteq> None then Inl ''authority-already-initialized''
           else (case sort_key rr_activated (db_releases db) of
             [r] \<Rightarrow> if mt_authorityId m = as_authorityId spec \<and> mt_policyEpoch m = as_policyEpoch spec
                 \<and> rr_releaseId r = as_releaseId spec \<and> rr_keyId r = as_releaseKeyId spec
                 \<and> rr_activated r = as_nowMs spec \<and> rr_retired r = None
               then Inr (db, AlreadyInitialized, None) else Inl ''authority-already-initialized''
           | _ \<Rightarrow> Inl ''authority-already-initialized'')
       | None \<Rightarrow> initialize_rows spec commandReceipt db))"

definition initializeAuthority ::
  "string \<Rightarrow> string \<Rightarrow> authority_spec \<Rightarrow> receipt option \<Rightarrow> authority_db \<Rightarrow> authority_db \<times> (string + lifecycle_result)" where
  "initializeAuthority expectedAuthorityId expectedPolicyEpoch spec commandReceipt db0 =
     (let db = createAuthoritySchema db0 in
      if as_authorityId spec \<noteq> expectedAuthorityId \<or> as_policyEpoch spec \<noteq> expectedPolicyEpoch
        \<or> \<not> validRelease (as_releaseId spec) \<or> \<not> validKeyId (as_releaseKeyId spec)
        \<or> \<not> is_safe_integer (as_nowMs spec) \<or> as_nowMs spec < 0
        \<or> (as_environment spec = Production \<and> \<not> as_confirmProduction spec)
      then (db, Inl ''initialization-policy'')
      else case initialize_tx spec commandReceipt db of
        Inl e \<Rightarrow> (db, Inl e)
      | Inr (db', res) \<Rightarrow> (db', Inr res))"

subsection \<open>Rotation\<close>

record rotation_input =
  ri_authorityId :: string
  ri_policyEpoch :: string
  ri_currentReleaseId :: string
  ri_nextReleaseId :: string
  ri_nextKeyId :: string
  ri_activatesAt :: int
  ri_previousRetiresAt :: int

definition rotation_policy :: "rotation_input \<Rightarrow> bool" where
  "rotation_policy i \<longleftrightarrow> ri_authorityId i = ADMISSION_AUTHORITY_ID \<and> ri_policyEpoch i = ADMISSION_POLICY_EPOCH
     \<and> validRelease (ri_currentReleaseId i) \<and> validRelease (ri_nextReleaseId i)
     \<and> ri_currentReleaseId i \<noteq> ri_nextReleaseId i \<and> validKeyId (ri_nextKeyId i)
     \<and> is_safe_integer (ri_activatesAt i) \<and> is_safe_integer (ri_previousRetiresAt i) \<and> 0 \<le> ri_activatesAt i
     \<and> \<not> ri_previousRetiresAt i \<le> ri_activatesAt i
     \<and> \<not> ri_previousRetiresAt i - ri_activatesAt i > 5 * 60000"

text \<open>Making room: of two releases the retired one goes, once its retention has passed.\<close>

definition drop_retired :: "int \<Rightarrow> release_row list \<Rightarrow> string + release_row list" where
  "drop_retired activatesAt rows =
     (if length rows = 2 then
        (case List.find (\<lambda>r. rr_retired r \<noteq> None) rows of
           None \<Rightarrow> Inl ''release-retention''
         | Some r \<Rightarrow>
             if the (rr_retired r) + AUTHORITY_RELEASE_RETENTION_AFTER_RETIRE_MS > activatesAt then Inl ''release-retention''
             else Inr (filter (\<lambda>x. \<not> (rr_releaseId x = rr_releaseId r \<and> rr_retired x = rr_retired r)) rows))
      else Inr rows)"

definition retire_current :: "string \<Rightarrow> int \<Rightarrow> release_row list \<Rightarrow> release_row list" where
  "retire_current releaseId retiresAt =
     map (\<lambda>r. if rr_releaseId r = releaseId then r\<lparr>rr_retired := Some retiresAt\<rparr> else r)"

text \<open>The last part of the transaction: replacing the releases and writing the receipt.\<close>

definition rotate_rows :: "rotation_input \<Rightarrow> receipt option \<Rightarrow> authority_db \<Rightarrow> string + authority_db \<times> lifecycle_result" where
  "rotate_rows i commandReceipt db =
     (let current = exactlyOne (\<lambda>r. rr_releaseId r = ri_currentReleaseId i \<and> rr_retired r = None) (db_releases db) in
      sum_bind (drop_retired (ri_activatesAt i) (db_releases db)) (\<lambda>rows.
      if current = None \<or> length rows \<noteq> 1 then Inl ''release-state''
      else sum_bind (insert_release \<lparr>rr_releaseId = ri_nextReleaseId i, rr_keyId = ri_nextKeyId i,
             rr_activated = ri_activatesAt i, rr_retired = None\<rparr>
             (db\<lparr>db_releases := retire_current (ri_currentReleaseId i) (ri_previousRetiresAt i) rows\<rparr>)) (\<lambda>db2.
        case commandReceipt of
          None \<Rightarrow> Inr (db2, Rotated, None)
        | Some c \<Rightarrow> sum_bind (insertReceipt c db2) (\<lambda>(db3, r). Inr (db3, Rotated, Some r)))))"

definition rotate_tx :: "rotation_input \<Rightarrow> receipt option \<Rightarrow> authority_db \<Rightarrow> string + authority_db \<times> lifecycle_result" where
  "rotate_tx i commandReceipt db =
     sum_bind (prior_receipt commandReceipt db) (\<lambda>prior.
     case prior of
       Some r \<Rightarrow> Inr (db, AlreadyRotated, Some r)
     | None \<Rightarrow> (case db_meta db of
         None \<Rightarrow> Inl ''authority-mismatch''
       | Some m \<Rightarrow>
           if mt_authorityId m \<noteq> ri_authorityId i \<or> mt_policyEpoch m \<noteq> ri_policyEpoch i then Inl ''authority-mismatch''
           else sum_bind (case commandReceipt of None \<Rightarrow> Inr ()
               | Some c \<Rightarrow> if \<not> db_coverage db then Inl ''receipt-history'' else ensureNewReceiptCapacity db) (\<lambda>_.
           case exactlyOne (\<lambda>r. rr_releaseId r = ri_nextReleaseId i) (db_releases db) of
             Some nxt \<Rightarrow>
               let prev = exactlyOne (\<lambda>r. rr_releaseId r = ri_currentReleaseId i) (db_releases db) in
               if commandReceipt = None \<and> rr_keyId nxt = ri_nextKeyId i \<and> rr_activated nxt = ri_activatesAt i
                 \<and> rr_retired nxt = None
                 \<and> (case prev of None \<Rightarrow> False | Some p \<Rightarrow> rr_retired p = Some (ri_previousRetiresAt i))
               then Inr (db, AlreadyRotated, None) else Inl ''release-already-exists''
           | None \<Rightarrow>
               if mt_lastNow m > ri_activatesAt i then Inl ''authority-mismatch''
               else rotate_rows i commandReceipt db)))"

definition rotateAuthorityRelease ::
  "rotation_input \<Rightarrow> receipt option \<Rightarrow> authority_db \<Rightarrow> authority_db \<times> (string + lifecycle_result)" where
  "rotateAuthorityRelease i commandReceipt db0 =
     (let db = createAuthoritySchema db0 in
      if \<not> rotation_policy i then (db, Inl ''release-rotation-policy'')
      else case rotate_tx i commandReceipt db of
        Inl e \<Rightarrow> (db, Inl e)
      | Inr (db', res) \<Rightarrow> (db', Inr res))"

subsection \<open>Invariant of the lifecycle tables\<close>

definition authority_id_of :: "environment \<Rightarrow> string" where
  "authority_id_of env = (case env of Production \<Rightarrow> ADMISSION_AUTHORITY_ID | Staging \<Rightarrow> STAGING_ADMISSION_AUTHORITY_ID)"

lemma authority_id_inj [simp]: "authority_id_of a = authority_id_of b \<longleftrightarrow> a = b"
  by (cases a; cases b) (simp_all add: authority_id_of_def ADMISSION_AUTHORITY_ID_def STAGING_ADMISSION_AUTHORITY_ID_def)

definition release_ok :: "release_row \<Rightarrow> bool" where
  "release_ok r \<longleftrightarrow> validRelease (rr_releaseId r) \<and> validKeyId (rr_keyId r) \<and> is_safe_time (rr_activated r)
     \<and> (case rr_retired r of None \<Rightarrow> True | Some t \<Rightarrow> is_safe_time t)"

text \<open>The release table holds one live release, or a live one behind the one it replaced.\<close>

definition one_release :: "int \<Rightarrow> release_row list \<Rightarrow> bool" where
  "one_release lastNow rows \<longleftrightarrow> (\<exists>u. rows = [u] \<and> rr_retired u = None \<and> release_ok u \<and> rr_activated u \<le> lastNow)"

definition two_releases :: "release_row list \<Rightarrow> bool" where
  "two_releases rows \<longleftrightarrow> (\<exists>r u t. rows = [r, u] \<and> rr_retired r = Some t \<and> rr_retired u = None
     \<and> release_ok r \<and> release_ok u \<and> rr_releaseId r \<noteq> rr_releaseId u \<and> rr_keyId r \<noteq> rr_keyId u
     \<and> rr_activated r \<le> rr_activated u \<and> rr_activated u < t \<and> t - rr_activated u \<le> 5 * 60000)"

definition receipt_ok :: "environment \<Rightarrow> receipt \<Rightarrow> bool" where
  "receipt_ok env r \<longleftrightarrow> isLowerHex64 (rc_digest r) \<and> rc_version r = 1 \<and> rc_environment r = env
     \<and> rc_authorityId r = authority_id_of env \<and> rc_policyEpoch r = ADMISSION_POLICY_EPOCH
     \<and> isLowerHex64 (rc_keyFingerprint r) \<and> is_safe_time (rc_applied r) \<and> is_safe_time (rc_activates r)
     \<and> validRelease (rc_currentReleaseId r) \<and> validRelease (rc_nextReleaseId r) \<and> validKeyId (rc_nextKeyId r)
     \<and> \<bar>rc_applied r - rc_activates r\<bar> \<le> 5 * 60000
     \<and> (case rc_operation r of
          Initialize \<Rightarrow> rc_currentReleaseId r = rc_nextReleaseId r \<and> rc_retires r = None
        | RotateRelease \<Rightarrow> env = Production \<and> rc_currentReleaseId r \<noteq> rc_nextReleaseId r
            \<and> (\<exists>t. rc_retires r = Some t \<and> is_safe_time t \<and> rc_activates r < t \<and> t - rc_activates r \<le> 5 * 60000))"

definition sequence_ok :: "receipt \<Rightarrow> bool" where
  "sequence_ok r \<longleftrightarrow> (case rc_operation r of Initialize \<Rightarrow> rc_sequence r = 1 | RotateRelease \<Rightarrow> 2 \<le> rc_sequence r)"

definition receipt_of_release :: "receipt \<Rightarrow> release_row \<Rightarrow> bool" where
  "receipt_of_release r u \<longleftrightarrow> rc_operation r = Initialize \<and> rr_releaseId u = rc_nextReleaseId r
     \<and> rr_keyId u = rc_nextKeyId r \<and> rr_activated u = rc_activates r"

definition receipts_inv :: "environment \<Rightarrow> authority_db \<Rightarrow> bool" where
  "receipts_inv env db \<longleftrightarrow> list_all (\<lambda>r. receipt_ok env r \<and> sequence_ok r) (db_receipts db)
     \<and> map rc_sequence (db_receipts db) = [1 .. int (length (db_receipts db))]
     \<and> int (length (db_receipts db)) \<le> LIFECYCLE_RECEIPT_CAPACITY
     \<and> distinct (map rc_digest (db_receipts db))
     \<and> (db_coverage db \<longrightarrow> db_receipts db \<noteq> [])"

definition releases_inv :: "environment \<Rightarrow> authority_db \<Rightarrow> bool" where
  "releases_inv env db \<longleftrightarrow> (case db_meta db of
     None \<Rightarrow> db_releases db = [] \<and> db_receipts db = [] \<and> \<not> db_coverage db
   | Some m \<Rightarrow> mt_authorityId m = authority_id_of env \<and> mt_policyEpoch m = ADMISSION_POLICY_EPOCH
       \<and> (two_releases (db_releases db) \<and> env = Production
          \<or> one_release (mt_lastNow m) (db_releases db)
            \<and> list_all (\<lambda>r. list_all (receipt_of_release r) (db_releases db)) (db_receipts db))
       \<and> set schema_tables \<subseteq> set (db_tables db))"

definition store_inv :: "environment \<Rightarrow> authority_db \<Rightarrow> bool" where
  "store_inv env db \<longleftrightarrow> receipts_inv env db \<and> releases_inv env db"

lemma empty_db_inv: "store_inv env empty_db"
  by (simp add: store_inv_def receipts_inv_def releases_inv_def empty_db_def LIFECYCLE_RECEIPT_CAPACITY_def)

lemma schema_frame [simp]:
  "db_meta (createAuthoritySchema db) = db_meta db" "db_releases (createAuthoritySchema db) = db_releases db"
  "db_nonces (createAuthoritySchema db) = db_nonces db" "db_observations (createAuthoritySchema db) = db_observations db"
  "db_receipts (createAuthoritySchema db) = db_receipts db" "db_coverage (createAuthoritySchema db) = db_coverage db"
  by (simp_all add: createAuthoritySchema_def)

lemma schema_complete [simp]: "set schema_tables \<subseteq> set (db_tables (createAuthoritySchema db))"
  by (auto simp: createAuthoritySchema_def)

lemma schema_inv: "store_inv env db \<Longrightarrow> store_inv env (createAuthoritySchema db)"
  by (auto simp: store_inv_def receipts_inv_def releases_inv_def split: option.splits)

lemma exactlyOne_Some: "exactlyOne P rows = Some x \<Longrightarrow> x \<in> set rows \<and> P x"
  by (auto simp: exactlyOne_def split: list.splits) (metis filter_eq_ConsD in_set_conv_decomp list.set_intros(1))+

lemma exactlyOne_unique:
  assumes "distinct (map f rows)" "x \<in> f ` set rows"
  shows "exactlyOne (\<lambda>r. f r = x) rows \<noteq> None"
proof -
  have "\<exists>r. filter (\<lambda>r. f r = x) rows = [r]"
    using assms
  proof (induction rows)
    case (Cons a rows)
    then show ?case by (cases "f a = x") (auto simp: filter_empty_conv, metis image_eqI)
  qed simp
  then show ?thesis by (auto simp: exactlyOne_def)
qed

lemma next_sequence_eq:
  assumes "map rc_sequence rs = [1 .. int (length rs)]"
  shows "next_sequence rs = int (length rs) + 1"
proof (cases "rs = []")
  case False
  have "rc_sequence ` set rs = {1 .. int (length rs)}" using arg_cong [OF assms, of set] by simp
  moreover have "(1::int) \<le> int (length rs)" using False by (cases rs) auto
  then have "Max {1 .. int (length rs)} = int (length rs)" by (intro Max_eqI) auto
  ultimately show ?thesis using False by (simp add: next_sequence_def)
qed (simp add: next_sequence_def)

lemma insertReceipt_inv:
  assumes "insertReceipt c db = Inr (db', r)" "receipts_inv env db" "receipt_ok env c"
    and "int (length (db_receipts db)) < LIFECYCLE_RECEIPT_CAPACITY"
    and "rc_operation c = Initialize \<longleftrightarrow> db_receipts db = []"
  shows "db' = db\<lparr>db_receipts := db_receipts db @ [r]\<rparr> \<and> receipts_inv env db'
    \<and> r = c\<lparr>rc_sequence := int (length (db_receipts db)) + 1\<rparr>"
proof -
  let ?n = "int (length (db_receipts db)) + 1"
  have seq: "next_sequence (db_receipts db) = ?n"
    using assms(2) by (intro next_sequence_eq) (simp add: receipts_inv_def)
  have r: "r = c\<lparr>rc_sequence := ?n\<rparr>" "db' = db\<lparr>db_receipts := db_receipts db @ [r]\<rparr>"
    "\<not> list_ex (\<lambda>x. rc_digest x = rc_digest c \<or> rc_sequence x = ?n) (db_receipts db)"
    using assms(1) by (auto simp: insertReceipt_def Let_def seq split: if_splits)
  have ok: "receipt_ok env r" using assms(3) by (simp add: r(1) receipt_ok_def split: operation.splits)
  have "1 \<le> length (db_receipts db)" if "db_receipts db \<noteq> []" using that by (cases "db_receipts db") auto
  then have "sequence_ok r" using assms(5) by (auto simp: sequence_ok_def r(1) split: operation.splits)
  moreover have "[1 .. 1 + int (length (db_receipts db))] = [1 .. int (length (db_receipts db))] @ [?n]"
    by (simp add: upto_rec2)
  ultimately have "receipts_inv env db'"
    using assms(2,4) ok r(3) unfolding r(2)
    by (auto simp: receipts_inv_def r(1) list_ex_iff)
  then show ?thesis using r by simp
qed

text \<open>What a command's receipt says about the release it creates.\<close>

definition command_receipt :: "environment \<Rightarrow> operation \<Rightarrow> receipt option \<Rightarrow> release_row \<Rightarrow> bool" where
  "command_receipt env opn c u \<longleftrightarrow> (case c of None \<Rightarrow> True
     | Some r \<Rightarrow> receipt_ok env r \<and> rc_operation r = opn \<and> rr_releaseId u = rc_nextReleaseId r
         \<and> rr_keyId u = rc_nextKeyId r \<and> rr_activated u = rc_activates r)"

lemma initialize_rows_inv:
  assumes "store_inv env db" "initialize_rows spec c db = Inr (db', res)" "db_meta db = None"
    and "set schema_tables \<subseteq> set (db_tables db)" "as_authorityId spec = authority_id_of env"
    and "as_policyEpoch spec = ADMISSION_POLICY_EPOCH"
    and "u = \<lparr>rr_releaseId = as_releaseId spec, rr_keyId = as_releaseKeyId spec, rr_activated = as_nowMs spec, rr_retired = None\<rparr>"
    and "release_ok u" "command_receipt env Initialize c u"
  shows "store_inv env db' \<and> (\<forall>r. snd res = Some r \<longrightarrow> r \<in> set (db_receipts db'))"
proof -
  let ?m = "\<lparr>mt_authorityId = as_authorityId spec, mt_policyEpoch = as_policyEpoch spec, mt_lastNow = as_nowMs spec\<rparr>"
  have fresh: "db_releases db = []" "db_receipts db = []" "\<not> db_coverage db"
    using assms(1,3) by (simp_all add: store_inv_def releases_inv_def)
  let ?db2 = "db\<lparr>db_meta := Some ?m, db_releases := [u]\<rparr>"
  have one: "one_release (as_nowMs spec) [u]" using assms(7,8) by (simp add: one_release_def)
  show ?thesis
  proof (cases c)
    case None
    then have "db' = ?db2" "snd res = None"
      using assms(2) fresh by (auto simp: initialize_rows_def insert_release_def Let_def assms(7))
    then show ?thesis
      using assms(1,4-6) fresh one by (simp add: store_inv_def receipts_inv_def releases_inv_def)
  next
    case (Some r)
    have ok: "receipt_ok env r" "rc_operation r = Initialize" "receipt_of_release r u"
      using assms(9) Some by (auto simp: command_receipt_def receipt_of_release_def)
    obtain r' where ins: "insertReceipt r (?db2\<lparr>db_coverage := True\<rparr>) = Inr (db', r')" "snd res = Some r'"
      using assms(2) fresh Some
      by (auto simp: initialize_rows_def insert_release_def Let_def assms(7) sum_bind_Inr_iff)
    have "db' = ?db2\<lparr>db_coverage := True, db_receipts := [r']\<rparr> \<and> r' = r\<lparr>rc_sequence := 1\<rparr>"
      using ins(1) fresh
      by (auto simp: insertReceipt_def Let_def next_sequence_def split: if_splits)
    moreover have "receipts_inv env (?db2\<lparr>db_coverage := True, db_receipts := [r\<lparr>rc_sequence := 1\<rparr>]\<rparr>)"
      using ok fresh by (simp add: receipts_inv_def sequence_ok_def LIFECYCLE_RECEIPT_CAPACITY_def receipt_ok_def)
    moreover have "receipt_of_release (r\<lparr>rc_sequence := 1\<rparr>) u" using ok(3) by (simp add: receipt_of_release_def)
    ultimately show ?thesis
      using ins(2) assms(4-6) one by (simp add: store_inv_def releases_inv_def)
  qed
qed

lemma prior_receipt_Some: "prior_receipt c db = Inr (Some r) \<Longrightarrow> r \<in> set (db_receipts db)"
  by (auto simp: prior_receipt_def findReceipt_def split: option.splits if_splits dest: exactlyOne_Some)

lemma initializeAuthority_inv:
  assumes "store_inv env db" "initializeAuthority aid ep spec c db = (db', res)"
    and "aid = authority_id_of env" "ep = ADMISSION_POLICY_EPOCH"
    and "command_receipt env Initialize c \<lparr>rr_releaseId = as_releaseId spec, rr_keyId = as_releaseKeyId spec,
      rr_activated = as_nowMs spec, rr_retired = None\<rparr>"
  shows "store_inv env db' \<and> (\<forall>st r. res = Inr (st, Some r) \<longrightarrow> r \<in> set (db_receipts db'))"
proof -
  let ?db = "createAuthoritySchema db"
  have inv: "store_inv env ?db" by (rule schema_inv [OF assms(1)])
  show ?thesis
  proof (cases "db' = ?db \<and> (\<exists>e. res = Inl e)")
    case True
    then show ?thesis using inv by auto
  next
    case False
    then have tx: "\<exists>st r. res = Inr (st, r) \<and> initialize_tx spec c ?db = Inr (db', st, r)"
      and pol: "as_authorityId spec = aid" "as_policyEpoch spec = ep" "validRelease (as_releaseId spec)"
        "validKeyId (as_releaseKeyId spec)" "is_safe_integer (as_nowMs spec)" "\<not> as_nowMs spec < 0"
      using assms(2) by (auto simp: initializeAuthority_def Let_def split: if_splits sum.splits)
    then obtain st r where res: "res = Inr (st, r)" and tx: "initialize_tx spec c ?db = Inr (db', st, r)" by blast
    consider (prior) p where "prior_receipt c ?db = Inr (Some p)" "db' = ?db" "r = Some p"
      | (same) "db' = ?db" "r = None"
      | (new) "db_meta ?db = None" "initialize_rows spec c ?db = Inr (db', st, r)"
      using tx by (auto simp: initialize_tx_def sum_bind_Inr_iff split: option.splits list.splits if_splits)
    then show ?thesis
    proof cases
      case prior
      then show ?thesis using inv res prior_receipt_Some [of c ?db] by auto
    next
      case same
      then show ?thesis using inv res by simp
    next
      case new
      from initialize_rows_inv [OF inv new(2,1) schema_complete _ _ refl _ assms(5)] pol assms(3,4) res
      show ?thesis by (auto simp: release_ok_def is_safe_time_def)
    qed
  qed
qed

subsection \<open>Rotation keeps the invariant\<close>

lemma drop_retired_two:
  assumes "two_releases rows" "drop_retired a rows = Inr rows'"
  shows "\<exists>r u t. rows = [r, u] \<and> rows' = [u] \<and> rr_retired u = None \<and> release_ok u \<and> rr_activated u < t \<and> t + 12 * 60000 \<le> a"
  using assms
  by (auto simp: two_releases_def drop_retired_def AUTHORITY_RELEASE_RETENTION_AFTER_RETIRE_MS_def split: if_splits)

lemma rotate_rows_inv:
  assumes "store_inv env db" "rotate_rows i c db = Inr (db', res)" "db_meta db = Some m" "env = Production"
    and "rotation_policy i" "mt_lastNow m \<le> ri_activatesAt i"
    and "u = \<lparr>rr_releaseId = ri_nextReleaseId i, rr_keyId = ri_nextKeyId i, rr_activated = ri_activatesAt i, rr_retired = None\<rparr>"
    and "command_receipt env RotateRelease c u"
    and "c \<noteq> None \<longrightarrow> db_coverage db \<and> int (length (db_receipts db)) < LIFECYCLE_RECEIPT_CAPACITY"
  shows "store_inv env db' \<and> (\<forall>r. snd res = Some r \<longrightarrow> r \<in> set (db_receipts db'))"
proof -
  let ?cur = "ri_currentReleaseId i" and ?t = "ri_previousRetiresAt i"
  obtain rows where rows: "drop_retired (ri_activatesAt i) (db_releases db) = Inr rows" "length rows = 1"
    "exactlyOne (\<lambda>r. rr_releaseId r = ?cur \<and> rr_retired r = None) (db_releases db) \<noteq> None"
    using assms(2) by (auto simp: rotate_rows_def Let_def sum_bind_Inr_iff split: if_splits)
  have pol: "ri_activatesAt i < ?t" "?t - ri_activatesAt i \<le> 5 * 60000" "is_safe_time (ri_activatesAt i)" "is_safe_time ?t"
    "validRelease (ri_nextReleaseId i)" "validKeyId (ri_nextKeyId i)"
    using assms(5) by (auto simp: rotation_policy_def is_safe_time_def)
  obtain v where v: "rows = [v]" "rr_retired v = None" "release_ok v" "rr_activated v \<le> ri_activatesAt i" "rr_releaseId v = ?cur"
  proof -
    obtain w where w: "w \<in> set (db_releases db)" "rr_releaseId w = ?cur" "rr_retired w = None"
      using rows(3) exactlyOne_Some by fastforce
    consider "one_release (mt_lastNow m) (db_releases db)" | "two_releases (db_releases db)"
      using assms(1,3) by (auto simp: store_inv_def releases_inv_def)
    then show ?thesis
    proof cases
      case 1
      then show ?thesis using that w rows(1) assms(6) by (auto simp: one_release_def drop_retired_def)
    next
      case 2
      from drop_retired_two [OF this rows(1)] obtain r x t where
        x: "db_releases db = [r, x]" "rows = [x]" "rr_retired x = None" "release_ok x" "rr_activated x < t"
          "t + 12 * 60000 \<le> ri_activatesAt i" by blast
      have "rr_retired r \<noteq> None" using 2 x(1) by (auto simp: two_releases_def)
      then show ?thesis using that x w by auto
    qed
  qed
  let ?v = "v\<lparr>rr_retired := Some ?t\<rparr>"
  let ?db2 = "db\<lparr>db_releases := [?v, u]\<rparr>"
  have ins: "rr_releaseId v \<noteq> rr_releaseId u \<and> rr_keyId v \<noteq> rr_keyId u
    \<and> (case c of None \<Rightarrow> db' = ?db2 \<and> snd res = None
       | Some r \<Rightarrow> \<exists>r'. insertReceipt r ?db2 = Inr (db', r') \<and> snd res = Some r')"
    using assms(2) rows v
    by (auto simp: rotate_rows_def Let_def sum_bind_Inr_iff insert_release_def retire_current_def assms(7)
        split: if_splits option.splits)
  have two: "two_releases [?v, u]"
    using v pol ins assms(7) by (simp add: two_releases_def release_ok_def)
  have inv2: "store_inv env ?db2"
    using assms(1,3,4) two by (simp add: store_inv_def receipts_inv_def releases_inv_def)
  show ?thesis
  proof (cases c)
    case None
    then show ?thesis using ins inv2 by simp
  next
    case (Some r)
    then obtain r' where r': "insertReceipt r ?db2 = Inr (db', r')" "snd res = Some r'" using ins by auto
    have "receipts_inv env ?db2" using inv2 by (simp add: store_inv_def)
    moreover have "db_receipts db \<noteq> []" using assms(1,9) Some by (auto simp: store_inv_def receipts_inv_def)
    ultimately have "db' = ?db2\<lparr>db_receipts := db_receipts db @ [r']\<rparr> \<and> receipts_inv env db'"
      using insertReceipt_inv [OF r'(1), of env] assms(8,9) Some by (auto simp: command_receipt_def)
    then show ?thesis using r'(2) inv2 two assms(3,4) by (auto simp: store_inv_def releases_inv_def)
  qed
qed

lemma rotateAuthorityRelease_inv:
  assumes "store_inv env db" "rotateAuthorityRelease i c db = (db', res)"
    and "command_receipt Production RotateRelease c \<lparr>rr_releaseId = ri_nextReleaseId i, rr_keyId = ri_nextKeyId i,
      rr_activated = ri_activatesAt i, rr_retired = None\<rparr>"
  shows "store_inv env db' \<and> (\<forall>st r. res = Inr (st, Some r) \<longrightarrow> r \<in> set (db_receipts db'))"
proof -
  let ?db = "createAuthoritySchema db"
  have inv: "store_inv env ?db" by (rule schema_inv [OF assms(1)])
  show ?thesis
  proof (cases "db' = ?db \<and> (\<exists>e. res = Inl e)")
    case True
    then show ?thesis using inv by auto
  next
    case False
    then have pol: "rotation_policy i"
      and ex: "\<exists>st r. res = Inr (st, r) \<and> rotate_tx i c ?db = Inr (db', st, r)"
      using assms(2) by (auto simp: rotateAuthorityRelease_def Let_def split: if_splits sum.splits)
    then obtain st r where res: "res = Inr (st, r)" and tx: "rotate_tx i c ?db = Inr (db', st, r)" by blast
    consider (prior) p where "prior_receipt c ?db = Inr (Some p)" "db' = ?db" "r = Some p"
      | (same) "db' = ?db" "r = None"
      | (new) m where "db_meta ?db = Some m" "mt_authorityId m = ri_authorityId i" "mt_lastNow m \<le> ri_activatesAt i"
          "rotate_rows i c ?db = Inr (db', st, r)"
          "c \<noteq> None \<longrightarrow> db_coverage ?db \<and> int (length (db_receipts ?db)) < LIFECYCLE_RECEIPT_CAPACITY"
      using tx by (auto simp: rotate_tx_def sum_bind_Inr_iff Let_def ensureNewReceiptCapacity_def
          split: option.splits if_splits)
    then show ?thesis
    proof cases
      case prior
      then show ?thesis using inv res prior_receipt_Some [of c ?db] by auto
    next
      case same
      then show ?thesis using inv res by simp
    next
      case new
      have "authority_id_of env = ADMISSION_AUTHORITY_ID"
        using inv new(1,2) pol by (simp add: store_inv_def releases_inv_def rotation_policy_def)
      then have env: "env = Production" using authority_id_inj [of env Production] by (simp add: authority_id_of_def)
      from rotate_rows_inv [OF inv new(4,1) env pol new(3) refl _ new(5)] assms(3) env res
      show ?thesis by auto
    qed
  qed
qed

end
