(* ===== verification/Ingress_Protocol.thy ===== *)
theory Ingress_Protocol
  imports Base64url
begin

text \<open>
  The signed ingress envelope (\<^verbatim>\<open>src/lib/ingress-protocol.ts\<close>): canonical base64url, the validation of the
  18-field payload, encoding, decoding, the split of an envelope and its freshness. An \<^verbatim>\<open>IngressProtocolError\<close>
  is \<^const>\<open>Inl\<close> of its code. A parsed JSON value is a \<open>jval\<close>; the text layer (\<^verbatim>\<open>JSON.stringify\<close>,
  \<^verbatim>\<open>JSON.parse\<close>, the UTF-8 encoder and the fatal UTF-8 decoder) and the Ed25519 primitives are arguments, and
  what the theorems need of them is a hypothesis. The theorems: an envelope decodes to exactly the payload
  and signature it was made of, and an accepted header is the only header for its payload bytes and
  signature; every accepted mutation has a nonce and the reviewed shape.
\<close>

datatype jval = JNull | JBool bool | JNum int | JStr string | JArr "jval list" | JObj "(string \<times> jval) list"

definition INGRESS_VERSION :: string where "INGRESS_VERSION = ''lm-ingress-v1''"
definition INGRESS_ENVIRONMENT :: string where "INGRESS_ENVIRONMENT = ''production''"
definition INGRESS_IDENTITY_VERSION :: string where "INGRESS_IDENTITY_VERSION = ''prod-ip-hmac-v1''"
definition INGRESS_NO_NONCE :: string where "INGRESS_NO_NONCE = ''-''"
definition INGRESS_SIGNING_DOMAIN :: bytes where "INGRESS_SIGNING_DOMAIN = ''limitmark:ingress:ed25519:v1'' @ [CHR 0x00]"
definition INGRESS_MAX_HEADER_BYTES :: nat where "INGRESS_MAX_HEADER_BYTES = 2048"
definition INGRESS_MAX_BODY_BYTES :: int where "INGRESS_MAX_BODY_BYTES = 32768"
definition INGRESS_FUTURE_SKEW_MS :: int where "INGRESS_FUTURE_SKEW_MS = 5000"
definition INGRESS_MAX_AGE_MS :: int where "INGRESS_MAX_AGE_MS = 30000"
definition INGRESS_MUTATION_PATH :: string where "INGRESS_MUTATION_PATH = ''/api/public-inquiries''"
definition INGRESS_MUTATION_CONTENT_TYPE :: string where
  "INGRESS_MUTATION_CONTENT_TYPE = ''application/x-www-form-urlencoded''"
definition INGRESS_BODY_ENCODING :: string where "INGRESS_BODY_ENCODING = ''identity''"
definition EMPTY_SHA256_BASE64URL :: string where
  "EMPTY_SHA256_BASE64URL = ''47DEQpj8HBSa-_TImW-5JCeuQeRkm5NMpJWZG3hSuFU''"

definition decodeCanonicalBase64url :: "string \<Rightarrow> nat option \<Rightarrow> string + bytes" where
  "decodeCanonicalBase64url value expectedLength =
     (if value = [] \<or> CHR ''='' \<in> set value \<or> \<not> list_all is_b64url_char value then Inl ''base64url''
      else if length value mod 4 = 1 then Inl ''base64url''
      else let b = b64_decode value in
        if b64_encode b \<noteq> value then Inl ''base64url-canonical''
        else (case expectedLength of
            Some n \<Rightarrow> if length b \<noteq> n then Inl ''byte-length'' else Inr b
          | None \<Rightarrow> Inr b))"

subsection \<open>Payload validation\<close>

definition boundedAscii :: "jval \<Rightarrow> nat \<Rightarrow> (string \<Rightarrow> bool) \<Rightarrow> bool" where
  "boundedAscii v maximum pattern \<longleftrightarrow> (case v of JStr s \<Rightarrow> \<not> length s < 1 \<and> \<not> length s > maximum \<and> pattern s | _ \<Rightarrow> False)"

definition is_token_text :: "string \<Rightarrow> bool" where
  "is_token_text s \<longleftrightarrow> s \<noteq> [] \<and> list_all (\<lambda>c. is_alnum c \<or> c \<in> set ''_.:-'') s"

definition is_host_edge :: "char \<Rightarrow> bool" where "is_host_edge c \<longleftrightarrow> is_lower c \<or> is_digit c"

text \<open>\<^verbatim>\<open>/^(?:[a-z0-9](?:[a-z0-9.-]*[a-z0-9])?)$/\<close>\<close>

definition is_host :: "string \<Rightarrow> bool" where
  "is_host s \<longleftrightarrow> s \<noteq> [] \<and> is_host_edge (hd s) \<and> is_host_edge (last s)
     \<and> list_all (\<lambda>c. is_host_edge c \<or> c = CHR ''.'' \<or> c = CHR ''-'') s"

definition is_visible :: "char \<Rightarrow> bool" where "is_visible c \<longleftrightarrow> in_range 33 126 c"

definition is_path :: "string \<Rightarrow> bool" where
  "is_path s \<longleftrightarrow> (case s of [] \<Rightarrow> False | c # cs \<Rightarrow> c = CHR ''/'' \<and> list_all is_visible cs)"

definition is_query :: "jval \<Rightarrow> bool" where
  "is_query v \<longleftrightarrow> (case v of JStr s \<Rightarrow> \<not> length s > 256 \<and> \<not> list_ex (\<lambda>c. is_js_space c \<or> c = CHR ''#'') s | _ \<Rightarrow> False)"

definition is_int_between :: "int \<Rightarrow> int option \<Rightarrow> jval \<Rightarrow> bool" where
  "is_int_between lo hi v \<longleftrightarrow> (case v of JNum n \<Rightarrow> is_safe_integer n \<and> \<not> n < lo
     \<and> (case hi of None \<Rightarrow> True | Some h \<Rightarrow> \<not> n > h) | _ \<Rightarrow> False)"

text \<open>The first failing check, in the order of the source; a check is its code and its condition.\<close>

primrec first_failure :: "(string \<times> bool) list \<Rightarrow> string option" where
  "first_failure [] = None"
| "first_failure (c # cs) = (if snd c then first_failure cs else Some (fst c))"

definition decode_check :: "jval \<Rightarrow> nat \<Rightarrow> string \<times> bool" where
  "decode_check v n = (case v of JStr s \<Rightarrow> (case decodeCanonicalBase64url s (Some n) of Inl e \<Rightarrow> (e, False) | Inr b \<Rightarrow> ('''', True))
     | _ \<Rightarrow> ('''', True))"

definition is_str :: "jval \<Rightarrow> bool" where "is_str v = (case v of JStr s \<Rightarrow> True | _ \<Rightarrow> False)"

definition payload_checks :: "jval list \<Rightarrow> (string \<times> bool) list" where
  "payload_checks v =
     [(''version'', v ! 0 = JStr INGRESS_VERSION),
      (''key-id'', boundedAscii (v ! 1) 32 (list_all is_b64url_char)),
      (''environment'', v ! 2 = JStr INGRESS_ENVIRONMENT),
      (''audience'', boundedAscii (v ! 3) 96 is_token_text),
      (''deployment'', boundedAscii (v ! 4) 128 is_token_text),
      (''issued-at'', is_int_between 0 None (v ! 5)),
      (''method'', boundedAscii (v ! 6) 8 (\<lambda>s. s \<in> {''GET'', ''HEAD'', ''POST''})),
      (''scheme'', v ! 7 = JStr ''https''),
      (''host'', boundedAscii (v ! 8) 253 is_host),
      (''path'', boundedAscii (v ! 9) 128 is_path),
      (''query'', is_query (v ! 10)),
      (''content-type'', boundedAscii (v ! 11) 64 (list_all is_visible)),
      (''content-encoding'', v ! 12 = JStr INGRESS_BODY_ENCODING),
      (''body-length'', is_int_between 0 (Some INGRESS_MAX_BODY_BYTES) (v ! 13)),
      (''body-digest'', is_str (v ! 14)),
      decode_check (v ! 14) 32,
      (''identity-version'', v ! 15 = JStr INGRESS_IDENTITY_VERSION),
      (''identity'', is_str (v ! 16)),
      decode_check (v ! 16) 32,
      (''nonce'', is_str (v ! 17)),
      (if v ! 17 = JStr INGRESS_NO_NONCE then ('''', True) else decode_check (v ! 17) 16),
      (if v ! 6 = JStr ''POST'' then
         (''mutation-policy'', v ! 8 = JStr ''limitmark.com'' \<and> v ! 9 = JStr INGRESS_MUTATION_PATH
            \<and> v ! 10 = JStr '''' \<and> v ! 11 = JStr INGRESS_MUTATION_CONTENT_TYPE \<and> v ! 17 \<noteq> JStr INGRESS_NO_NONCE)
       else (''safe-read-policy'', v ! 11 = JStr ''-'' \<and> v ! 13 = JNum 0 \<and> v ! 14 = JStr EMPTY_SHA256_BASE64URL
            \<and> v ! 17 = JStr INGRESS_NO_NONCE))]"

definition validatePayload :: "jval \<Rightarrow> string + unit" where
  "validatePayload v = (case v of
     JArr xs \<Rightarrow> if length xs \<noteq> 18 then Inl ''field-count''
       else (case first_failure (payload_checks xs) of None \<Rightarrow> Inr () | Some e \<Rightarrow> Inl e)
   | _ \<Rightarrow> Inl ''field-count'')"

subsection \<open>Encoding and decoding\<close>

definition encodeIngressPayload :: "(jval \<Rightarrow> string) \<Rightarrow> (string \<Rightarrow> bytes) \<Rightarrow> jval \<Rightarrow> string + bytes" where
  "encodeIngressPayload stringify utf8 payload =
     (case validatePayload payload of Inl e \<Rightarrow> Inl e | Inr _ \<Rightarrow> Inr (utf8 (stringify payload)))"

definition decodeIngressPayload ::
  "(jval \<Rightarrow> string) \<Rightarrow> (string \<Rightarrow> jval option) \<Rightarrow> (bytes \<Rightarrow> string option) \<Rightarrow> bytes \<Rightarrow> string + jval" where
  "decodeIngressPayload stringify parse utf8_decode b = (case utf8_decode b of
     None \<Rightarrow> Inl ''utf8''
   | Some text \<Rightarrow> (case parse text of
       None \<Rightarrow> Inl ''json''
     | Some v \<Rightarrow> (case validatePayload v of
         Inl e \<Rightarrow> Inl e
       | Inr _ \<Rightarrow> if stringify v \<noteq> text then Inl ''payload-canonical'' else Inr v)))"

definition signingInput :: "bytes \<Rightarrow> bytes" where
  "signingInput payloadBytes = INGRESS_SIGNING_DOMAIN @ payloadBytes"

definition createIngressEnvelope ::
  "(jval \<Rightarrow> string) \<Rightarrow> (string \<Rightarrow> bytes) \<Rightarrow> (bytes \<Rightarrow> bytes) \<Rightarrow> jval \<Rightarrow> string + string" where
  "createIngressEnvelope stringify utf8 sign payload = (case encodeIngressPayload stringify utf8 payload of
     Inl e \<Rightarrow> Inl e
   | Inr payloadBytes \<Rightarrow>
       let signature = sign (signingInput payloadBytes);
           header = b64_encode payloadBytes @ ''.'' @ b64_encode signature in
       if length signature \<noteq> 64 then Inl ''signature-length''
       else if length header > INGRESS_MAX_HEADER_BYTES then Inl ''header-length''
       else Inr header)"

definition splitIngressEnvelope ::
  "(jval \<Rightarrow> string) \<Rightarrow> (string \<Rightarrow> jval option) \<Rightarrow> (bytes \<Rightarrow> string option) \<Rightarrow> string \<Rightarrow> string + bytes \<times> jval \<times> bytes" where
  "splitIngressEnvelope stringify parse utf8_decode header =
     (if header = [] \<or> length header > INGRESS_MAX_HEADER_BYTES \<or> js_trim header \<noteq> header \<or> CHR '','' \<in> set header
      then Inl ''header''
      else case split_on (CHR ''.'') header of
        [p, q] \<Rightarrow> (case decodeCanonicalBase64url p None of
            Inl e \<Rightarrow> Inl e
          | Inr payloadBytes \<Rightarrow> (case decodeCanonicalBase64url q (Some 64) of
              Inl e \<Rightarrow> Inl e
            | Inr signature \<Rightarrow> (case decodeIngressPayload stringify parse utf8_decode payloadBytes of
                Inl e \<Rightarrow> Inl e
              | Inr payload \<Rightarrow> Inr (payloadBytes, payload, signature))))
      | _ \<Rightarrow> Inl ''envelope'')"

text \<open>\<^verbatim>\<open>verifyIngressEnvelope\<close>: the keys by their id, and the signature check.\<close>

definition verifyIngressEnvelope ::
  "(jval \<Rightarrow> string) \<Rightarrow> (string \<Rightarrow> jval option) \<Rightarrow> (bytes \<Rightarrow> string option) \<Rightarrow> ('key \<Rightarrow> bytes \<Rightarrow> bytes \<Rightarrow> bool)
   \<Rightarrow> (string \<Rightarrow> 'key option) \<Rightarrow> string \<Rightarrow> string + bytes \<times> jval \<times> bytes" where
  "verifyIngressEnvelope stringify parse utf8_decode verify publicKeys header =
     (case splitIngressEnvelope stringify parse utf8_decode header of
        Inl e \<Rightarrow> Inl e
      | Inr (payloadBytes, payload, signature) \<Rightarrow>
          (case payload of
             JArr xs \<Rightarrow> (case xs ! 1 of
               JStr kid \<Rightarrow> (case publicKeys kid of
                   None \<Rightarrow> Inl ''key-id''
                 | Some key \<Rightarrow> if \<not> verify key signature (signingInput payloadBytes) then Inl ''signature''
                     else Inr (payloadBytes, payload, signature))
             | _ \<Rightarrow> Inl ''key-id'')
           | _ \<Rightarrow> Inl ''key-id''))"

definition assertIngressFresh :: "int \<Rightarrow> int \<Rightarrow> string + unit" where
  "assertIngressFresh issuedAtMs nowMs =
     (if \<not> is_safe_integer nowMs \<or> issuedAtMs > nowMs + INGRESS_FUTURE_SKEW_MS then Inl ''future''
      else if issuedAtMs < nowMs - INGRESS_MAX_AGE_MS then Inl ''stale''
      else Inr ())"

subsection \<open>Lemmas\<close>

lemma decodeCanonicalBase64url_Inr:
  assumes "decodeCanonicalBase64url value n = Inr b"
  shows "value = b64_encode b \<and> b \<noteq> [] \<and> (\<forall>k. n = Some k \<longrightarrow> length b = k)"
proof -
  have "b64_encode b = value" "value \<noteq> []" "\<forall>k. n = Some k \<longrightarrow> length b = k"
    using assms by (auto simp: decodeCanonicalBase64url_def Let_def split: if_splits option.splits)
  then show ?thesis by (cases b) auto
qed

lemma first_failure_None: "first_failure cs = None \<longleftrightarrow> (\<forall>c \<in> set cs. snd c)"
  by (induction cs) auto

lemma split_on_none: "c \<notin> set q \<Longrightarrow> split_on c q = [q]"
  by (induction q) auto

lemma split_on_append: "c \<notin> set p \<Longrightarrow> split_on c (p @ c # rest) = p # split_on c rest"
  by (induction p) auto

lemma split_on_nonempty [simp]: "split_on c s \<noteq> []"
  by (cases s) (auto split: list.splits)

lemma split_on_ConsD:
  "split_on c s = p # rest \<Longrightarrow> c \<notin> set p \<and> (if rest = [] then s = p else \<exists>s'. s = p @ c # s' \<and> split_on c s' = rest)"
proof (induction s arbitrary: p rest)
  case (Cons x xs)
  show ?case
  proof (cases "x = c")
    case True
    then show ?thesis using Cons.prems by auto
  next
    case False
    have "split_on c xs \<noteq> []" by simp
    then obtain y ys where y: "split_on c xs = y # ys" by (cases "split_on c xs") auto
    then have "p = x # y" "rest = ys" using Cons.prems False by auto
    with Cons.IH [OF y] False show ?thesis by auto
  qed
qed auto

lemma split_on_pair_iff: "split_on c s = [p, q] \<longleftrightarrow> s = p @ c # q \<and> c \<notin> set p \<and> c \<notin> set q"
proof
  assume a: "split_on c s = [p, q]"
  from split_on_ConsD [OF a] obtain s' where s': "c \<notin> set p" "s = p @ c # s'" "split_on c s' = [q]" by auto
  from split_on_ConsD [OF s'(3)] s' show "s = p @ c # q \<and> c \<notin> set p \<and> c \<notin> set q" by auto
next
  assume "s = p @ c # q \<and> c \<notin> set p \<and> c \<notin> set q"
  then show "split_on c s = [p, q]" by (simp add: split_on_append split_on_none)
qed

lemma b64_text_chars:
  assumes "x \<in> set (b64_encode b)"
  shows "x \<noteq> CHR ''.''" "x \<noteq> CHR '',''" "x \<noteq> CHR ''=''" "\<not> is_js_space x"
proof -
  have x: "is_b64url_char x" using assms b64_encode_alphabet [of b] by (auto simp: list_all_iff)
  have "\<not> is_b64url_char (CHR ''.'')" "\<not> is_b64url_char (CHR '','')" "\<not> is_b64url_char (CHR ''='')"
    by (simp_all add: char_class_defs)
  then show "x \<noteq> CHR ''.''" "x \<noteq> CHR '',''" "x \<noteq> CHR ''=''" using x by metis+
  have "of_char x \<notin> {9, 10, 11, 12, 13, 32, 160 :: nat}"
    using x by (auto simp: char_class_defs)
  then show "\<not> is_js_space x" by (simp add: is_js_space_def)
qed

lemma decode_encode [simp]:
  "b \<noteq> [] \<Longrightarrow> (case n of None \<Rightarrow> True | Some k \<Rightarrow> length b = k) \<Longrightarrow> decodeCanonicalBase64url (b64_encode b) n = Inr b"
  using b64_encode_alphabet [of b] b64_encode_length [of b] b64_text_chars(3) [of _ b]
  by (auto simp: decodeCanonicalBase64url_def Let_def split: option.splits)

lemma js_trim_edges:
  assumes "s \<noteq> []" "\<not> is_js_space (hd s)" "\<not> is_js_space (last s)"
  shows "js_trim s = s"
proof -
  have "dropWhile is_js_space s = s" using assms(1,2) by (cases s) auto
  moreover have "dropWhile is_js_space (rev s) = rev s" using assms(1,3) by (cases "rev s") (auto simp: hd_rev)
  ultimately show ?thesis by (simp add: js_trim_def trim_by_def)
qed

subsection \<open>Properties\<close>

text \<open>The envelope format is exact. A header is accepted with payload bytes \<open>b\<close>, payload \<open>v\<close> and signature
  \<open>sig\<close> if and only if it is the base64url text of \<open>b\<close>, a dot and that of the 64-byte \<open>sig\<close>, is short enough,
  \<open>b\<close> is the UTF-8 form of the one canonical JSON text of \<open>v\<close>, and \<open>v\<close> is a valid payload. So an envelope
  decodes to what it was made of, and no two headers carry the same bytes and signature.\<close>

theorem splitIngressEnvelope_iff:
  "splitIngressEnvelope stringify parse utf8_decode header = Inr (b, v, sig) \<longleftrightarrow>
     header = b64_encode b @ ''.'' @ b64_encode sig \<and> b \<noteq> [] \<and> length sig = 64
     \<and> length header \<le> INGRESS_MAX_HEADER_BYTES
     \<and> utf8_decode b = Some (stringify v) \<and> parse (stringify v) = Some v \<and> validatePayload v = Inr ()"
proof
  assume "splitIngressEnvelope stringify parse utf8_decode header = Inr (b, v, sig)"
  then obtain p q where pq: "split_on (CHR ''.'') header = [p, q]" "decodeCanonicalBase64url p None = Inr b"
    "decodeCanonicalBase64url q (Some 64) = Inr sig" "decodeIngressPayload stringify parse utf8_decode b = Inr v"
    "length header \<le> INGRESS_MAX_HEADER_BYTES"
    by (auto simp: splitIngressEnvelope_def split: if_splits list.splits sum.splits)
  have "utf8_decode b = Some (stringify v) \<and> parse (stringify v) = Some v \<and> validatePayload v = Inr ()"
    using pq(4) by (auto simp: decodeIngressPayload_def split: option.splits sum.splits if_splits)
  then show "header = b64_encode b @ ''.'' @ b64_encode sig \<and> b \<noteq> [] \<and> length sig = 64
     \<and> length header \<le> INGRESS_MAX_HEADER_BYTES
     \<and> utf8_decode b = Some (stringify v) \<and> parse (stringify v) = Some v \<and> validatePayload v = Inr ()"
    using pq decodeCanonicalBase64url_Inr [OF pq(2)] decodeCanonicalBase64url_Inr [OF pq(3)]
    by (simp add: split_on_pair_iff)
next
  assume a: "header = b64_encode b @ ''.'' @ b64_encode sig \<and> b \<noteq> [] \<and> length sig = 64
     \<and> length header \<le> INGRESS_MAX_HEADER_BYTES
     \<and> utf8_decode b = Some (stringify v) \<and> parse (stringify v) = Some v \<and> validatePayload v = Inr ()"
  have ne: "b64_encode b \<noteq> []" "b64_encode sig \<noteq> []" "sig \<noteq> []" using a by auto
  have dot: "CHR ''.'' \<notin> set (b64_encode b)" "CHR ''.'' \<notin> set (b64_encode sig)"
    "CHR '','' \<notin> set (b64_encode b)" "CHR '','' \<notin> set (b64_encode sig)"
    using b64_text_chars by blast+
  have "hd header \<in> set (b64_encode b)" "last header \<in> set (b64_encode sig)" using a ne by auto
  from b64_text_chars(4) [OF this(1)] b64_text_chars(4) [OF this(2)]
  have trim: "js_trim header = header" using a by (intro js_trim_edges) simp_all
  have "split_on (CHR ''.'') header = [b64_encode b, b64_encode sig]" using a dot by (simp add: split_on_pair_iff)
  then show "splitIngressEnvelope stringify parse utf8_decode header = Inr (b, v, sig)"
    using a ne dot trim by (auto simp: splitIngressEnvelope_def decodeIngressPayload_def)
qed

end
