(* ===== verification/Attestation.thy ===== *)
theory Attestation
  imports Authority_Store Ingress_Protocol
begin

text \<open>
  The statements of the authority result attestation protocol (\<^verbatim>\<open>src/lib/authority-result-attestation.ts\<close>): the
  validators of receipts, release rows and statements, the constructors, and the conversion between statements and the
  positional tuples that are signed.

  A value of unknown type is a \<open>jval\<close>: plain records and plain arrays only, numbers integers other than \<^verbatim>\<open>-0\<close>.
  What \<^verbatim>\<open>isPlainRecord\<close>, \<^verbatim>\<open>isPlainArray\<close>, \<^verbatim>\<open>readOwnData\<close> and \<^verbatim>\<open>deepFreeze\<close> do about prototypes, accessors, holes, symbols and
  later mutation has no counterpart there. A thrown error is \<^const>\<open>Inl\<close> of its message. The typed inputs of
  the constructors are HOL records.

  The theorems: tuples and statements correspond one to one; a statement that the constructors return is
  accepted by the validator. One lemma shows that the validator compares the \<^verbatim>\<open>String\<close> of coverage and status, so that it also
  accepts a one-element array in their place.
\<close>

subsection \<open>Constants and field orders\<close>

definition ATTESTATION_VERSION :: int where "ATTESTATION_VERSION = 2"
definition ATTESTATION_TRUST_EPOCH :: int where "ATTESTATION_TRUST_EPOCH = 1"
definition ATTESTATION_POLICY_EPOCH :: string where "ATTESTATION_POLICY_EPOCH = ''phase5c-i1-epoch-1''"
definition ATTESTATION_SIGNING_DOMAIN :: string where
  "ATTESTATION_SIGNING_DOMAIN = ''limitmark:authority-result-attestation:ed25519:v2'' @ [CHR 0x00]"
definition ATTESTATION_MAX_AGE_MS :: int where "ATTESTATION_MAX_AGE_MS = 300000"
definition ATTESTATION_MAX_FUTURE_SKEW_MS :: int where "ATTESTATION_MAX_FUTURE_SKEW_MS = 60000"
definition ATTESTATION_MAX_ENVELOPE_BYTES :: nat where "ATTESTATION_MAX_ENVELOPE_BYTES = 8192"
definition ATTESTATION_MAX_ROTATION_OVERLAP_MS :: int where "ATTESTATION_MAX_ROTATION_OVERLAP_MS = 5 * 60000"
definition ATTESTATION_MAX_APPLIED_ACTIVATION_SKEW_MS :: int where "ATTESTATION_MAX_APPLIED_ACTIVATION_SKEW_MS = 5 * 60000"
definition ATTESTATION_MAX_SEQUENCE :: int where "ATTESTATION_MAX_SEQUENCE = 4096"

definition ATTESTATION_AUTHORITY_IDS :: "string \<Rightarrow> string option" where
  "ATTESTATION_AUTHORITY_IDS = map_of [(''production'', ''production-public-inquiries-v1''), (''staging'', ''staging-public-inquiries-v1'')]"

definition RECEIPT_FIELDS :: "string list" where
  "RECEIPT_FIELDS = [''digest'', ''version'', ''operation'', ''environment'', ''authorityId'', ''policyEpoch'', ''operatorKeyFingerprint'',
     ''sequence'', ''appliedMs'', ''currentReleaseId'', ''nextReleaseId'', ''nextKeyId'', ''activatesMs'', ''retiresMs'']"

definition RELEASE_ROW_FIELDS :: "string list" where
  "RELEASE_ROW_FIELDS = [''releaseId'', ''keyId'', ''activatedMs'', ''retiredMs'']"

definition LIFECYCLE_STATEMENT_FIELDS :: "string list" where
  "LIFECYCLE_STATEMENT_FIELDS = [''version'', ''trustEpoch'', ''environment'', ''authorityId'', ''policyEpoch'', ''kind'', ''digest'', ''outcome'',
     ''receipt'', ''observedAtMs'', ''writerKeyFingerprint'']"

definition RECONCILIATION_STATEMENT_FIELDS :: "string list" where
  "RECONCILIATION_STATEMENT_FIELDS = [''version'', ''trustEpoch'', ''environment'', ''authorityId'', ''policyEpoch'', ''kind'', ''digest'', ''nonce'',
     ''initialized'', ''coverage'', ''status'', ''receipt'', ''releases'', ''observedAtMs'', ''writerKeyFingerprint'']"

subsection \<open>Primitives\<close>

definition is_hex :: "nat \<Rightarrow> string \<Rightarrow> bool" where
  "is_hex n s \<longleftrightarrow> length s = n \<and> list_all is_lower_hex s"

definition str_such :: "(string \<Rightarrow> bool) \<Rightarrow> jval option \<Rightarrow> bool" where
  "str_such P v = (case v of Some (JStr s) \<Rightarrow> P s | _ \<Rightarrow> False)"

definition isSafeTime :: "jval option \<Rightarrow> bool" where
  "isSafeTime v = (case v of Some (JNum n) \<Rightarrow> is_safe_integer n \<and> n \<ge> 0 | _ \<Rightarrow> False)"

definition num_of :: "jval option \<Rightarrow> int" where
  "num_of v = (case v of Some (JNum n) \<Rightarrow> n | _ \<Rightarrow> 0)"

definition isPlainRecord :: "jval \<Rightarrow> bool" where
  "isPlainRecord v = (case v of JObj kvs \<Rightarrow> True | _ \<Rightarrow> False)"

text \<open>A property read.\<close>

definition fld :: "jval \<Rightarrow> string \<Rightarrow> jval option" where
  "fld v k = (case v of JObj kvs \<Rightarrow> map_of kvs k | _ \<Rightarrow> None)"

definition own_keys :: "jval \<Rightarrow> string list" where
  "own_keys v = (case v of JObj kvs \<Rightarrow> map fst kvs | _ \<Rightarrow> [])"

definition readOwnData :: "jval \<Rightarrow> string \<Rightarrow> string \<Rightarrow> string + jval" where
  "readOwnData v k code = (case fld v k of None \<Rightarrow> Inl code | Some x \<Rightarrow> Inr x)"

definition snapshotPlainArray :: "jval \<Rightarrow> string \<Rightarrow> string + jval list" where
  "snapshotPlainArray v code = (case v of JArr xs \<Rightarrow> Inr xs | _ \<Rightarrow> Inl code)"

definition hasExactFields :: "jval \<Rightarrow> string list \<Rightarrow> bool" where
  "hasExactFields v names \<longleftrightarrow> length (own_keys v) = length names \<and> list_all (\<lambda>f. fld v f \<noteq> None) names"

fun sum_map :: "('a \<Rightarrow> 'e + 'b) \<Rightarrow> 'a list \<Rightarrow> 'e + 'b list" where
  "sum_map f [] = Inr []"
| "sum_map f (x # xs) = sum_bind (f x) (\<lambda>y. sum_bind (sum_map f xs) (\<lambda>ys. Inr (y # ys)))"

subsection \<open>Receipts and release rows\<close>

record outer_binding =
  ob_digest :: string
  ob_environment :: string
  ob_authorityId :: string

definition operations :: "string list" where "operations = [''initialize'', ''rotate-release'']"

definition receipt_fields_ok :: "jval \<Rightarrow> outer_binding \<Rightarrow> bool" where
  "receipt_fields_ok v outer \<longleftrightarrow>
     str_such isLowerHex64 (fld v ''digest'') \<and> fld v ''digest'' = Some (JStr (ob_digest outer)) \<and> fld v ''version'' = Some (JNum 1)
     \<and> str_such (\<lambda>s. s \<in> set operations) (fld v ''operation'')
     \<and> fld v ''environment'' = Some (JStr (ob_environment outer)) \<and> fld v ''authorityId'' = Some (JStr (ob_authorityId outer))
     \<and> fld v ''policyEpoch'' = Some (JStr ATTESTATION_POLICY_EPOCH) \<and> str_such isLowerHex64 (fld v ''operatorKeyFingerprint'')
     \<and> isSafeTime (fld v ''sequence'') \<and> \<not> num_of (fld v ''sequence'') < 1 \<and> \<not> num_of (fld v ''sequence'') > ATTESTATION_MAX_SEQUENCE
     \<and> isSafeTime (fld v ''appliedMs'') \<and> isSafeTime (fld v ''activatesMs'')
     \<and> (fld v ''retiresMs'' = Some JNull \<or> isSafeTime (fld v ''retiresMs''))
     \<and> str_such validRelease (fld v ''currentReleaseId'') \<and> str_such validRelease (fld v ''nextReleaseId'')
     \<and> str_such validKeyId (fld v ''nextKeyId'')"

definition receipt_operation_ok :: "jval \<Rightarrow> bool" where
  "receipt_operation_ok v \<longleftrightarrow>
     (if fld v ''operation'' = Some (JStr ''initialize'')
      then fld v ''currentReleaseId'' = fld v ''nextReleaseId'' \<and> fld v ''retiresMs'' = Some JNull \<and> fld v ''sequence'' = Some (JNum 1)
      else fld v ''environment'' = Some (JStr ''production'') \<and> \<not> num_of (fld v ''sequence'') < 2
        \<and> fld v ''currentReleaseId'' \<noteq> fld v ''nextReleaseId''
        \<and> (case fld v ''retiresMs'' of Some (JNum t) \<Rightarrow> \<not> t \<le> num_of (fld v ''activatesMs'')
             \<and> \<not> t - num_of (fld v ''activatesMs'') > ATTESTATION_MAX_ROTATION_OVERLAP_MS | _ \<Rightarrow> False))"

definition validateReceipt :: "jval \<Rightarrow> outer_binding \<Rightarrow> string + unit" where
  "validateReceipt v outer =
     (if \<not> isPlainRecord v then Inl ''attestation-receipt''
      else if \<not> hasExactFields v RECEIPT_FIELDS then Inl ''attestation-receipt''
      else if \<not> receipt_fields_ok v outer then Inl ''attestation-receipt''
      else if \<bar>num_of (fld v ''appliedMs'') - num_of (fld v ''activatesMs'')\<bar> > ATTESTATION_MAX_APPLIED_ACTIVATION_SKEW_MS
        then Inl ''attestation-receipt''
      else if \<not> receipt_operation_ok v then Inl ''attestation-receipt''
      else Inr ())"

definition assertOneRowReceiptCoherence :: "jval \<Rightarrow> jval list \<Rightarrow> string + unit" where
  "assertOneRowReceiptCoherence rc releases = (case releases of
     [row] \<Rightarrow>
       if fld rc ''operation'' \<noteq> Some (JStr ''initialize'') \<or> fld rc ''sequence'' \<noteq> Some (JNum 1)
          \<or> fld row ''releaseId'' \<noteq> fld rc ''nextReleaseId'' \<or> fld row ''keyId'' \<noteq> fld rc ''nextKeyId''
          \<or> fld row ''activatedMs'' \<noteq> fld rc ''activatesMs'' \<or> fld row ''retiredMs'' \<noteq> Some JNull
       then Inl ''attestation-statement'' else Inr ()
   | _ \<Rightarrow> Inr ())"

definition validateReleaseRow :: "jval \<Rightarrow> string + unit" where
  "validateReleaseRow v =
     (if \<not> isPlainRecord v then Inl ''attestation-releases''
      else if \<not> hasExactFields v RELEASE_ROW_FIELDS then Inl ''attestation-releases''
      else if \<not> str_such validRelease (fld v ''releaseId'') \<or> \<not> str_such validKeyId (fld v ''keyId'')
        \<or> \<not> isSafeTime (fld v ''activatedMs'') \<or> (fld v ''retiredMs'' \<noteq> Some JNull \<and> \<not> isSafeTime (fld v ''retiredMs''))
        then Inl ''attestation-releases''
      else Inr ())"

text \<open>The comparison of strings by code units.\<close>

fun js_less :: "string \<Rightarrow> string \<Rightarrow> bool" where
  "js_less s [] = False"
| "js_less [] (d # t) = True"
| "js_less (c # s) (d # t) = (byte_val c < byte_val d \<or> c = d \<and> js_less s t)"

definition compareReleaseRows :: "release_row \<Rightarrow> release_row \<Rightarrow> int" where
  "compareReleaseRows a b =
     (if rr_activated a \<noteq> rr_activated b then (if rr_activated a < rr_activated b then -1 else 1)
      else if rr_releaseId a \<noteq> rr_releaseId b then (if js_less (rr_releaseId a) (rr_releaseId b) then -1 else 1)
      else if rr_keyId a \<noteq> rr_keyId b then (if js_less (rr_keyId a) (rr_keyId b) then -1 else 1)
      else 0)"

text \<open>A validated row at its type.\<close>

definition row_of :: "jval \<Rightarrow> release_row" where
  "row_of v = \<lparr>rr_releaseId = (case fld v ''releaseId'' of Some (JStr s) \<Rightarrow> s | _ \<Rightarrow> []),
     rr_keyId = (case fld v ''keyId'' of Some (JStr s) \<Rightarrow> s | _ \<Rightarrow> []), rr_activated = num_of (fld v ''activatedMs''),
     rr_retired = (case fld v ''retiredMs'' of Some (JNum n) \<Rightarrow> Some n | _ \<Rightarrow> None)\<rparr>"

fun ascending_rows :: "release_row list \<Rightarrow> bool" where
  "ascending_rows (a # b # rest) \<longleftrightarrow> \<not> compareReleaseRows a b \<ge> 0 \<and> ascending_rows (b # rest)"
| "ascending_rows _ \<longleftrightarrow> True"

definition overlap_ok :: "release_row list \<Rightarrow> release_row list \<Rightarrow> bool" where
  "overlap_ok retired unretired \<longleftrightarrow> (case (retired, unretired) of
     ([r], u # _) \<Rightarrow> (case rr_retired r of
         Some t \<Rightarrow> \<not> (let overlap = t - rr_activated u in
           overlap \<le> 0 \<or> overlap > ATTESTATION_MAX_ROTATION_OVERLAP_MS \<or> rr_activated u < rr_activated r)
       | None \<Rightarrow> False)
   | _ \<Rightarrow> True)"

definition validateReleaseRows :: "jval \<Rightarrow> bool \<Rightarrow> string \<Rightarrow> string + unit" where
  "validateReleaseRows v initialized environment = (case v of
     JArr rows \<Rightarrow>
       if (if initialized then length rows < 1 \<or> length rows > (if environment = ''staging'' then 1 else 2) else length rows \<noteq> 0)
       then Inl ''attestation-releases''
       else sum_bind (sum_map validateReleaseRow rows) (\<lambda>_.
         let typed = map row_of rows;
             unretired = filter (\<lambda>r. rr_retired r = None) typed; retired = filter (\<lambda>r. rr_retired r \<noteq> None) typed in
         if \<not> ascending_rows typed then Inl ''attestation-releases''
         else if \<not> distinct (map rr_releaseId typed) \<or> \<not> distinct (map rr_keyId typed) then Inl ''attestation-releases''
         else if \<not> initialized then Inr ()
         else if length unretired \<noteq> 1 \<or> list_ex (\<lambda>r. case rr_retired r of Some t \<Rightarrow> t \<le> rr_activated r | None \<Rightarrow> False) retired
           then Inl ''attestation-releases''
         else if \<not> overlap_ok retired unretired then Inl ''attestation-releases''
         else Inr ())
   | _ \<Rightarrow> Inl ''attestation-releases'')"

subsection \<open>Statements\<close>

fun environment_name :: "environment \<Rightarrow> string" where
  "environment_name Production = ''production''"
| "environment_name Staging = ''staging''"

fun operation_name :: "operation \<Rightarrow> string" where
  "operation_name Initialize = ''initialize''"
| "operation_name RotateRelease = ''rotate-release''"

definition opt_num :: "int option \<Rightarrow> jval" where
  "opt_num v = (case v of None \<Rightarrow> JNull | Some n \<Rightarrow> JNum n)"

text \<open>\<^verbatim>\<open>cloneReceipt\<close> of the mapping in \<^verbatim>\<open>attestationReceiptFromLifecycleReceipt\<close>, and \<^verbatim>\<open>cloneRow\<close> of the mapping in \<^verbatim>\<open>attestationReleaseRowFromAuthority\<close>.\<close>

definition attestationReceiptFromLifecycleReceipt :: "receipt \<Rightarrow> jval" where
  "attestationReceiptFromLifecycleReceipt r = JObj
     [(''digest'', JStr (rc_digest r)), (''version'', JNum (rc_version r)), (''operation'', JStr (operation_name (rc_operation r))),
      (''environment'', JStr (environment_name (rc_environment r))), (''authorityId'', JStr (rc_authorityId r)),
      (''policyEpoch'', JStr (rc_policyEpoch r)), (''operatorKeyFingerprint'', JStr (rc_keyFingerprint r)),
      (''sequence'', JNum (rc_sequence r)), (''appliedMs'', JNum (rc_applied r)), (''currentReleaseId'', JStr (rc_currentReleaseId r)),
      (''nextReleaseId'', JStr (rc_nextReleaseId r)), (''nextKeyId'', JStr (rc_nextKeyId r)), (''activatesMs'', JNum (rc_activates r)),
      (''retiresMs'', opt_num (rc_retires r))]"

definition attestationReleaseRowFromAuthority :: "release_row \<Rightarrow> jval" where
  "attestationReleaseRowFromAuthority r = JObj [(''releaseId'', JStr (rr_releaseId r)), (''keyId'', JStr (rr_keyId r)),
     (''activatedMs'', JNum (rr_activated r)), (''retiredMs'', opt_num (rr_retired r))]"

definition validateCommon :: "jval \<Rightarrow> string + outer_binding" where
  "validateCommon v =
     (if fld v ''version'' \<noteq> Some (JNum ATTESTATION_VERSION) \<or> fld v ''trustEpoch'' \<noteq> Some (JNum ATTESTATION_TRUST_EPOCH)
        then Inl ''attestation-statement''
      else case fld v ''environment'' of
        Some (JStr e) \<Rightarrow> (case ATTESTATION_AUTHORITY_IDS e of
            None \<Rightarrow> Inl ''attestation-statement''
          | Some aid \<Rightarrow>
              if fld v ''authorityId'' \<noteq> Some (JStr aid) \<or> fld v ''policyEpoch'' \<noteq> Some (JStr ATTESTATION_POLICY_EPOCH)
                \<or> \<not> isSafeTime (fld v ''observedAtMs'') \<or> \<not> str_such isLowerHex64 (fld v ''writerKeyFingerprint'')
              then Inl ''attestation-statement''
              else (case fld v ''digest'' of
                  Some (JStr d) \<Rightarrow> if isLowerHex64 d then Inr \<lparr>ob_digest = d, ob_environment = e, ob_authorityId = aid\<rparr>
                    else Inl ''attestation-statement''
                | _ \<Rightarrow> Inl ''attestation-statement''))
      | _ \<Rightarrow> Inl ''attestation-statement'')"

text \<open>Decimal digits, and the conversion \<^verbatim>\<open>String(value)\<close>: an array is its elements joined with commas, \<^verbatim>\<open>null\<close> among them empty.\<close>

fun digits :: "nat \<Rightarrow> string" where
  "digits n = (if n < 10 then [char_of (48 + n)] else digits (n div 10) @ [char_of (48 + n mod 10)])"

declare digits.simps [simp del]

definition int_text :: "int \<Rightarrow> string" where
  "int_text n = (if n < 0 then CHR ''-'' # digits (nat (- n)) else digits (nat n))"

fun js_String :: "jval \<Rightarrow> string" and js_join :: "jval list \<Rightarrow> string" where
  "js_String JNull = ''null''"
| "js_String (JBool b) = (if b then ''true'' else ''false'')"
| "js_String (JNum n) = int_text n"
| "js_String (JStr s) = s"
| "js_String (JArr xs) = js_join xs"
| "js_String (JObj kvs) = ''[object Object]''"
| "js_join [] = []"
| "js_join [x] = (if x = JNull then [] else js_String x)"
| "js_join (x # y # ys) = (if x = JNull then [] else js_String x) @ CHR '','' # js_join (y # ys)"

definition js_String_opt :: "jval option \<Rightarrow> string" where
  "js_String_opt v = (case v of None \<Rightarrow> ''undefined'' | Some x \<Rightarrow> js_String x)"

definition reconciliation_states :: "string list" where
  "reconciliation_states = [''false/COMPLETE/NOT_FOUND'', ''true/COMPLETE/EXACT_RECEIPT'', ''true/COMPLETE/NOT_FOUND'',
     ''true/INCOMPLETE/HISTORY_INCOMPLETE'']"

definition state_text :: "jval \<Rightarrow> string" where
  "state_text v = js_String_opt (fld v ''initialized'') @ ''/'' @ js_String_opt (fld v ''coverage'') @ ''/'' @ js_String_opt (fld v ''status'')"

definition validateReconciliation :: "jval \<Rightarrow> outer_binding \<Rightarrow> string + unit" where
  "validateReconciliation v outer =
     (let state = state_text v; receiptRequired = (state = ''true/COMPLETE/EXACT_RECEIPT'');
          rc = (case fld v ''receipt'' of Some x \<Rightarrow> x | None \<Rightarrow> JNull); rows = (case fld v ''releases'' of Some x \<Rightarrow> x | None \<Rightarrow> JNull) in
      if \<not> str_such (is_hex 32) (fld v ''nonce'') then Inl ''attestation-statement''
      else case fld v ''initialized'' of
        Some (JBool initialized) \<Rightarrow>
          sum_bind (guard (state \<in> set reconciliation_states) ''attestation-statement'') (\<lambda>_.
          sum_bind (if receiptRequired then validateReceipt rc outer else guard (rc = JNull) ''attestation-statement'') (\<lambda>_.
          sum_bind (validateReleaseRows rows initialized (ob_environment outer)) (\<lambda>_.
          if receiptRequired then assertOneRowReceiptCoherence rc (case rows of JArr xs \<Rightarrow> xs | _ \<Rightarrow> []) else Inr ())))
      | _ \<Rightarrow> Inl ''attestation-statement'')"

definition validateResultStatement :: "jval \<Rightarrow> string + unit" where
  "validateResultStatement v =
     (if \<not> isPlainRecord v then Inl ''attestation-statement''
      else if fld v ''kind'' = Some (JStr ''lifecycle'') then
        (if \<not> hasExactFields v LIFECYCLE_STATEMENT_FIELDS then Inl ''attestation-statement''
         else sum_bind (validateCommon v) (\<lambda>outer.
           if fld v ''outcome'' \<noteq> Some (JStr ''APPLIED'') then Inl ''attestation-statement''
           else validateReceipt (case fld v ''receipt'' of Some x \<Rightarrow> x | None \<Rightarrow> JNull) outer))
      else if fld v ''kind'' \<noteq> Some (JStr ''reconciliation'') then Inl ''attestation-statement''
      else if \<not> hasExactFields v RECONCILIATION_STATEMENT_FIELDS then Inl ''attestation-statement''
      else sum_bind (validateCommon v) (validateReconciliation v))"

subsection \<open>Tuples\<close>

definition snapshotRecord :: "jval \<Rightarrow> string list \<Rightarrow> string \<Rightarrow> string + jval list" where
  "snapshotRecord v names code =
     (if \<not> isPlainRecord v then Inl code
      else if \<not> hasExactFields v names then Inl code
      else sum_map (\<lambda>f. readOwnData v f code) names)"

definition statement_fields :: "jval option \<Rightarrow> string + string list" where
  "statement_fields kind =
     (if kind = Some (JStr ''lifecycle'') then Inr LIFECYCLE_STATEMENT_FIELDS
      else if kind = Some (JStr ''reconciliation'') then Inr RECONCILIATION_STATEMENT_FIELDS
      else Inl ''attestation-statement'')"

definition snapshotStatementTuple :: "jval \<Rightarrow> string + jval list" where
  "snapshotStatementTuple st =
     (if \<not> isPlainRecord st then Inl ''attestation-statement''
      else sum_bind (readOwnData st ''kind'' ''attestation-statement'') (\<lambda>kind.
      sum_bind (statement_fields (Some kind)) (\<lambda>names.
      sum_bind (snapshotRecord st names ''attestation-statement'') (\<lambda>tuple.
      let lifecycle = (kind = JStr ''lifecycle''); receiptAt = (if lifecycle then 8 else 11) in
      sum_bind (if lifecycle \<or> tuple ! receiptAt \<noteq> JNull
          then sum_bind (snapshotRecord (tuple ! receiptAt) RECEIPT_FIELDS ''attestation-receipt'') (\<lambda>rc. Inr (tuple[receiptAt := JArr rc]))
          else Inr tuple) (\<lambda>tuple2.
      if lifecycle then Inr tuple2
      else sum_bind (snapshotPlainArray (tuple2 ! 12) ''attestation-releases'') (\<lambda>rows.
        sum_bind (sum_map (\<lambda>r. snapshotRecord r RELEASE_ROW_FIELDS ''attestation-releases'') rows) (\<lambda>rows2.
        Inr (tuple2[12 := JArr (map JArr rows2)]))))))))"

definition recordFromTuple :: "jval list \<Rightarrow> string list \<Rightarrow> string \<Rightarrow> string + jval" where
  "recordFromTuple tuple names code = (if length tuple \<noteq> length names then Inl code else Inr (JObj (zip names tuple)))"

text \<open>An assignment to a property that is there.\<close>

definition set_fld :: "jval \<Rightarrow> string \<Rightarrow> jval \<Rightarrow> jval" where
  "set_fld v k x = (case v of JObj kvs \<Rightarrow> JObj (map (\<lambda>(f, y). (f, if f = k then x else y)) kvs) | _ \<Rightarrow> v)"

definition parseResultStatementTuple :: "jval \<Rightarrow> string + jval" where
  "parseResultStatementTuple t =
     sum_bind (snapshotPlainArray t ''attestation-statement'') (\<lambda>top.
     let kind = (if length top > 5 then Some (top ! 5) else None); lifecycle = (kind = Some (JStr ''lifecycle'')) in
     sum_bind (statement_fields kind) (\<lambda>names.
     sum_bind (recordFromTuple top names ''attestation-statement'') (\<lambda>st.
     sum_bind (case fld st ''receipt'' of
         Some rc \<Rightarrow> if lifecycle \<or> rc \<noteq> JNull
           then sum_bind (snapshotPlainArray rc ''attestation-receipt'') (\<lambda>xs.
             sum_bind (recordFromTuple xs RECEIPT_FIELDS ''attestation-receipt'') (\<lambda>r. Inr (set_fld st ''receipt'' r)))
           else Inr st
       | None \<Rightarrow> Inl ''attestation-receipt'') (\<lambda>st2.
     sum_bind (if lifecycle then Inr st2
       else case fld st2 ''releases'' of
         Some rs \<Rightarrow> sum_bind (snapshotPlainArray rs ''attestation-releases'') (\<lambda>rows.
           sum_bind (sum_map (\<lambda>r. sum_bind (snapshotPlainArray r ''attestation-releases'')
               (\<lambda>xs. recordFromTuple xs RELEASE_ROW_FIELDS ''attestation-releases'')) rows)
             (\<lambda>rows2. Inr (set_fld st2 ''releases'' (JArr rows2))))
       | None \<Rightarrow> Inl ''attestation-releases'') (\<lambda>st3.
     sum_bind (validateResultStatement st3) (\<lambda>_. Inr st3))))))"

definition canonicalTuple :: "jval \<Rightarrow> string + jval list" where
  "canonicalTuple st = sum_bind (snapshotStatementTuple st) (\<lambda>tuple.
     sum_bind (parseResultStatementTuple (JArr tuple)) (\<lambda>_. Inr tuple))"

definition snapshotResultStatement :: "jval \<Rightarrow> string + jval" where
  "snapshotResultStatement st = sum_bind (snapshotStatementTuple st) (\<lambda>tuple. parseResultStatementTuple (JArr tuple))"

subsection \<open>Constructors\<close>

record lifecycle_input =
  li_trustEpoch :: int
  li_environment :: environment
  li_authorityId :: string
  li_policyEpoch :: string
  li_digest :: string
  li_receipt :: jval
  li_observedAt :: int
  li_writerKeyFingerprint :: string

definition makeLifecycleStatement :: "lifecycle_input \<Rightarrow> string + jval" where
  "makeLifecycleStatement i = snapshotResultStatement (JObj
     [(''version'', JNum ATTESTATION_VERSION), (''trustEpoch'', JNum (li_trustEpoch i)), (''environment'', JStr (environment_name (li_environment i))),
      (''authorityId'', JStr (li_authorityId i)), (''policyEpoch'', JStr (li_policyEpoch i)), (''kind'', JStr ''lifecycle''),
      (''digest'', JStr (li_digest i)), (''outcome'', JStr ''APPLIED''), (''receipt'', li_receipt i),
      (''observedAtMs'', JNum (li_observedAt i)), (''writerKeyFingerprint'', JStr (li_writerKeyFingerprint i))])"

fun status_name :: "observation_status \<Rightarrow> string" where
  "status_name ExactReceipt = ''EXACT_RECEIPT''"
| "status_name NotFound = ''NOT_FOUND''"
| "status_name HistoryIncomplete = ''HISTORY_INCOMPLETE''"

record reconciliation_input =
  re_trustEpoch :: int
  re_environment :: environment
  re_authorityId :: string
  re_policyEpoch :: string
  re_digest :: string
  re_nonce :: string
  re_initialized :: bool
  re_complete :: bool
  re_status :: observation_status
  re_receipt :: "jval option"
  re_releases :: "release_row list"
  re_observedAt :: int
  re_writerKeyFingerprint :: string

fun insert_row :: "release_row \<Rightarrow> release_row list \<Rightarrow> release_row list" where
  "insert_row a [] = [a]"
| "insert_row a (b # bs) = (if compareReleaseRows a b \<le> 0 then a # b # bs else b # insert_row a bs)"

definition sort_rows :: "release_row list \<Rightarrow> release_row list" where
  "sort_rows rows = foldr insert_row rows []"

definition makeReconciliationStatement :: "reconciliation_input \<Rightarrow> string + jval" where
  "makeReconciliationStatement i = snapshotResultStatement (JObj
     [(''version'', JNum ATTESTATION_VERSION), (''trustEpoch'', JNum (re_trustEpoch i)), (''environment'', JStr (environment_name (re_environment i))),
      (''authorityId'', JStr (re_authorityId i)), (''policyEpoch'', JStr (re_policyEpoch i)), (''kind'', JStr ''reconciliation''),
      (''digest'', JStr (re_digest i)), (''nonce'', JStr (re_nonce i)), (''initialized'', JBool (re_initialized i)),
      (''coverage'', JStr (if re_complete i then ''COMPLETE'' else ''INCOMPLETE'')), (''status'', JStr (status_name (re_status i))),
      (''receipt'', (case re_receipt i of None \<Rightarrow> JNull | Some rc \<Rightarrow> rc)),
      (''releases'', JArr (map attestationReleaseRowFromAuthority (sort_rows (re_releases i)))),
      (''observedAtMs'', JNum (re_observedAt i)), (''writerKeyFingerprint'', JStr (re_writerKeyFingerprint i))])"

text \<open>Freshness of a statement, at most five minutes old and one minute ahead.\<close>

definition assertAttestationFresh :: "int \<Rightarrow> int \<Rightarrow> string + unit" where
  "assertAttestationFresh observedAtMs nowMs =
     (if \<not> is_safe_time observedAtMs \<or> \<not> is_safe_time nowMs then Inl ''attestation-stale''
      else if nowMs - observedAtMs > ATTESTATION_MAX_AGE_MS \<or> observedAtMs - nowMs > ATTESTATION_MAX_FUTURE_SKEW_MS then Inl ''attestation-stale''
      else Inr ())"

subsection \<open>Records by position\<close>

lemma distinct_names [simp]:
  "distinct RECEIPT_FIELDS" "distinct RELEASE_ROW_FIELDS" "distinct LIFECYCLE_STATEMENT_FIELDS" "distinct RECONCILIATION_STATEMENT_FIELDS"
  by (simp_all add: RECEIPT_FIELDS_def RELEASE_ROW_FIELDS_def LIFECYCLE_STATEMENT_FIELDS_def RECONCILIATION_STATEMENT_FIELDS_def)

lemma length_names [simp]:
  "length RECEIPT_FIELDS = 14" "length RELEASE_ROW_FIELDS = 4" "length LIFECYCLE_STATEMENT_FIELDS = 11" "length RECONCILIATION_STATEMENT_FIELDS = 15"
  by (simp_all add: RECEIPT_FIELDS_def RELEASE_ROW_FIELDS_def LIFECYCLE_STATEMENT_FIELDS_def RECONCILIATION_STATEMENT_FIELDS_def)

lemma lifecycle_names: "LIFECYCLE_STATEMENT_FIELDS ! 5 = ''kind''" "LIFECYCLE_STATEMENT_FIELDS ! 8 = ''receipt''"
  by (simp_all add: LIFECYCLE_STATEMENT_FIELDS_def)

lemma reconciliation_names: "RECONCILIATION_STATEMENT_FIELDS ! 5 = ''kind''" "RECONCILIATION_STATEMENT_FIELDS ! 11 = ''receipt''"
  "RECONCILIATION_STATEMENT_FIELDS ! 12 = ''releases''"
  by (simp_all add: RECONCILIATION_STATEMENT_FIELDS_def)

lemma fld_zip:
  "distinct names \<Longrightarrow> length t = length names \<Longrightarrow> i < length names \<Longrightarrow> fld (JObj (zip names t)) (names ! i) = Some (t ! i)"
  by (simp add: fld_def map_of_zip_nth)

lemma set_fld_zip:
  assumes "distinct names" "length t = length names" "i < length names"
  shows "set_fld (JObj (zip names t)) (names ! i) x = JObj (zip names (t[i := x]))"
  using assms by (auto simp: set_fld_def nth_eq_iff_index_eq nth_list_update intro!: nth_equalityI)

lemma sum_map_Inr: "(\<And>x. x \<in> set xs \<Longrightarrow> f x = Inr (g x)) \<Longrightarrow> sum_map f xs = Inr (map g xs)"
  by (induction xs) auto

lemma sum_map_Inr_iff: "sum_map f xs = Inr ys \<longleftrightarrow> list_all2 (\<lambda>x y. f x = Inr y) xs ys"
  by (induction xs arbitrary: ys) (auto simp: sum_bind_Inr_iff list_all2_Cons1)

lemma snapshotRecord_zip:
  assumes "distinct names" "length t = length names"
  shows "snapshotRecord (JObj (zip names t)) names code = Inr t"
proof -
  have "hasExactFields (JObj (zip names t)) names"
    using assms by (auto simp: hasExactFields_def own_keys_def list_all_length fld_zip)
  moreover have "sum_map (\<lambda>f. readOwnData (JObj (zip names t)) f code) names = Inr t"
    using assms by (auto simp: sum_map_Inr_iff list_all2_conv_all_nth readOwnData_def fld_zip)
  ultimately show ?thesis by (simp add: snapshotRecord_def isPlainRecord_def)
qed

lemma recordFromTuple_Inr [simp]:
  "recordFromTuple t names code = Inr r \<longleftrightarrow> length t = length names \<and> r = JObj (zip names t)"
  by (auto simp: recordFromTuple_def)

lemma snapshotPlainArray_JArr [simp]: "snapshotPlainArray (JArr xs) code = Inr xs"
  by (simp add: snapshotPlainArray_def)

lemma snapshotPlainArray_Inr [simp]: "snapshotPlainArray v code = Inr xs \<longleftrightarrow> v = JArr xs"
  by (cases v) (auto simp: snapshotPlainArray_def)

text \<open>The statement a tuple stands for, and when.\<close>

definition lifecycle_record :: "jval list \<Rightarrow> jval list \<Rightarrow> jval" where
  "lifecycle_record t xs = JObj (zip LIFECYCLE_STATEMENT_FIELDS (t[8 := JObj (zip RECEIPT_FIELDS xs)]))"

definition reconciliation_record :: "jval list \<Rightarrow> jval list option \<Rightarrow> jval list list \<Rightarrow> jval" where
  "reconciliation_record t rc rows = JObj (zip RECONCILIATION_STATEMENT_FIELDS
     ((case rc of None \<Rightarrow> t | Some xs \<Rightarrow> t[11 := JObj (zip RECEIPT_FIELDS xs)])
        [12 := JArr (map (\<lambda>r. JObj (zip RELEASE_ROW_FIELDS r)) rows)]))"

lemma parse_lifecycle_iff:
  assumes "length t = 11" "t ! 5 = JStr ''lifecycle''"
  shows "parseResultStatementTuple (JArr t) = Inr st \<longleftrightarrow>
    (\<exists>xs. t ! 8 = JArr xs \<and> length xs = 14 \<and> st = lifecycle_record t xs \<and> validateResultStatement st = Inr ())"
proof -
  have "fld (JObj (zip LIFECYCLE_STATEMENT_FIELDS t)) ''receipt'' = Some (t ! 8)"
    "set_fld (JObj (zip LIFECYCLE_STATEMENT_FIELDS t)) ''receipt'' x = JObj (zip LIFECYCLE_STATEMENT_FIELDS (t[8 := x]))" for x
    using fld_zip [of LIFECYCLE_STATEMENT_FIELDS t 8] set_fld_zip [of LIFECYCLE_STATEMENT_FIELDS t 8] assms(1)
    by (simp_all add: lifecycle_names)
  then show ?thesis using assms
    by (auto simp: parseResultStatementTuple_def sum_bind_Inr_iff statement_fields_def Let_def lifecycle_record_def)
qed

lemma parse_reconciliation_iff:
  assumes "length t = 15" "t ! 5 = JStr ''reconciliation''"
  shows "parseResultStatementTuple (JArr t) = Inr st \<longleftrightarrow>
    (\<exists>rc rows. (case rc of None \<Rightarrow> t ! 11 = JNull | Some xs \<Rightarrow> t ! 11 = JArr xs \<and> length xs = 14)
       \<and> t ! 12 = JArr (map JArr rows) \<and> (\<forall>r\<in>set rows. length r = 4)
       \<and> st = reconciliation_record t rc rows \<and> validateResultStatement st = Inr ())" (is "_ \<longleftrightarrow> ?rhs")
proof -
  let ?N = RECONCILIATION_STATEMENT_FIELDS
  have f: "fld (JObj (zip ?N t')) ''receipt'' = Some (t' ! 11)" "fld (JObj (zip ?N t')) ''releases'' = Some (t' ! 12)"
    "set_fld (JObj (zip ?N t')) ''receipt'' x = JObj (zip ?N (t'[11 := x]))"
    "set_fld (JObj (zip ?N t')) ''releases'' x = JObj (zip ?N (t'[12 := x]))" if "length t' = 15" for x t'
    using fld_zip [of ?N t' 11] set_fld_zip [of ?N t' 11] fld_zip [of ?N t' 12] set_fld_zip [of ?N t' 12] that
    by (simp_all add: reconciliation_names)
  have rows: "list_all2 (\<lambda>r y. \<exists>xs. r = JArr xs \<and> length xs = 4 \<and> y = JObj (zip RELEASE_ROW_FIELDS xs)) rs ys \<longleftrightarrow>
      (\<exists>rows. rs = map JArr rows \<and> (\<forall>r\<in>set rows. length r = 4) \<and> ys = map (\<lambda>r. JObj (zip RELEASE_ROW_FIELDS r)) rows)" for rs ys
  proof (induction rs arbitrary: ys)
    case (Cons r rs)
    show ?case
    proof
      assume "list_all2 (\<lambda>r y. \<exists>xs. r = JArr xs \<and> length xs = 4 \<and> y = JObj (zip RELEASE_ROW_FIELDS xs)) (r # rs) ys"
      then obtain xs ys' rows where "r = JArr xs" "length xs = 4" "ys = JObj (zip RELEASE_ROW_FIELDS xs) # ys'"
        "rs = map JArr rows" "\<forall>r\<in>set rows. length r = 4" "ys' = map (\<lambda>r. JObj (zip RELEASE_ROW_FIELDS r)) rows"
        by (auto simp: list_all2_Cons1 Cons.IH)
      then show "\<exists>rows. r # rs = map JArr rows \<and> (\<forall>r\<in>set rows. length r = 4) \<and> ys = map (\<lambda>r. JObj (zip RELEASE_ROW_FIELDS r)) rows"
        by (intro exI [of _ "xs # rows"]) simp
    qed (auto simp: list_all2_Cons1 Cons.IH Cons_eq_map_conv)
  qed simp
  have "parseResultStatementTuple (JArr t) = Inr st \<longleftrightarrow>
    (\<exists>rc rs ys. (case rc of None \<Rightarrow> t ! 11 = JNull | Some xs \<Rightarrow> t ! 11 = JArr xs \<and> length xs = 14)
       \<and> t ! 12 = JArr rs \<and> list_all2 (\<lambda>r y. \<exists>xs. r = JArr xs \<and> length xs = 4 \<and> y = JObj (zip RELEASE_ROW_FIELDS xs)) rs ys
       \<and> st = JObj (zip ?N ((case rc of None \<Rightarrow> t | Some xs \<Rightarrow> t[11 := JObj (zip RECEIPT_FIELDS xs)])[12 := JArr ys]))
       \<and> validateResultStatement st = Inr ())"
  proof (cases "t ! 11 = JNull")
    case True
    then show ?thesis using assms f
      by (auto simp: split_option_ex parseResultStatementTuple_def sum_bind_Inr_iff statement_fields_def Let_def sum_map_Inr_iff)
  next
    case False
    then show ?thesis using assms f
      by (auto simp: split_option_ex parseResultStatementTuple_def sum_bind_Inr_iff statement_fields_def Let_def sum_map_Inr_iff) blast
  qed
  then show ?thesis unfolding rows reconciliation_record_def by blast
qed

lemma parse_Inr_cases:
  assumes "parseResultStatementTuple v = Inr st"
  obtains t where "v = JArr t" "length t = 11" "t ! 5 = JStr ''lifecycle''"
  | t where "v = JArr t" "length t = 15" "t ! 5 = JStr ''reconciliation''"
  using assms
  by (auto simp: parseResultStatementTuple_def sum_bind_Inr_iff statement_fields_def Let_def split: if_splits)

lemma snapshot_lifecycle:
  assumes "length t = 11" "t ! 5 = JStr ''lifecycle''" "t ! 8 = JArr xs" "length xs = 14"
  shows "snapshotStatementTuple (lifecycle_record t xs) = Inr t"
proof -
  let ?t = "t[8 := JObj (zip RECEIPT_FIELDS xs)]"
  have "fld (lifecycle_record t xs) ''kind'' = Some (JStr ''lifecycle'')"
    using fld_zip [of LIFECYCLE_STATEMENT_FIELDS ?t 5] assms(1,2) by (simp add: lifecycle_record_def lifecycle_names)
  moreover have "snapshotRecord (lifecycle_record t xs) LIFECYCLE_STATEMENT_FIELDS c = Inr ?t" for c
    using assms(1) unfolding lifecycle_record_def by (intro snapshotRecord_zip) simp_all
  moreover have "?t[8 := JArr xs] = t" using assms(3) by (metis list_update_id list_update_overwrite)
  ultimately show ?thesis using assms(1,4)
    by (simp add: snapshotStatementTuple_def readOwnData_def statement_fields_def snapshotRecord_zip Let_def)
      (simp add: lifecycle_record_def isPlainRecord_def)
qed

lemma snapshot_reconciliation:
  assumes "length t = 15" "t ! 5 = JStr ''reconciliation''"
    and "case rc of None \<Rightarrow> t ! 11 = JNull | Some xs \<Rightarrow> t ! 11 = JArr xs \<and> length xs = 14"
    and "t ! 12 = JArr (map JArr rows)" "\<forall>r\<in>set rows. length r = 4"
  shows "snapshotStatementTuple (reconciliation_record t rc rows) = Inr t"
proof -
  let ?t1 = "case rc of None \<Rightarrow> t | Some xs \<Rightarrow> t[11 := JObj (zip RECEIPT_FIELDS xs)]"
  let ?t = "?t1[12 := JArr (map (\<lambda>r. JObj (zip RELEASE_ROW_FIELDS r)) rows)]"
  have len: "length ?t1 = 15" using assms(1) by (simp split: option.splits)
  have "?t ! 5 = JStr ''reconciliation''" using assms(1,2) len by (auto split: option.splits)
  then have "fld (reconciliation_record t rc rows) ''kind'' = Some (JStr ''reconciliation'')"
    using fld_zip [of RECONCILIATION_STATEMENT_FIELDS ?t 5] len by (simp add: reconciliation_record_def reconciliation_names)
  moreover have "snapshotRecord (reconciliation_record t rc rows) RECONCILIATION_STATEMENT_FIELDS c = Inr ?t" for c
    using len unfolding reconciliation_record_def by (intro snapshotRecord_zip) simp_all
  moreover have "sum_map (\<lambda>r. snapshotRecord r RELEASE_ROW_FIELDS c) (map (\<lambda>r. JObj (zip RELEASE_ROW_FIELDS r)) rows) = Inr rows" for c
    using assms(5) by (auto simp: sum_map_Inr_iff list_all2_conv_all_nth snapshotRecord_zip)
  moreover have "(case rc of None \<Rightarrow> ?t | Some xs \<Rightarrow> ?t[11 := JArr xs])[12 := JArr (map JArr rows)] = t"
    using assms(1,3,4) by (auto simp: list_update_swap list_eq_iff_nth_eq nth_list_update split: option.splits)
  moreover have "isPlainRecord (reconciliation_record t rc rows)" by (simp add: reconciliation_record_def isPlainRecord_def)
  ultimately show ?thesis using assms(1,3)
    by (auto simp: snapshotStatementTuple_def readOwnData_def statement_fields_def snapshotRecord_zip Let_def nth_list_update
        split: option.splits)
qed

lemma snapshot_of_parse:
  assumes "parseResultStatementTuple (JArr t) = Inr st"
  shows "snapshotStatementTuple st = Inr t"
  using assms
proof (rule parse_Inr_cases)
  fix t' assume "JArr t = JArr t'" "length t' = 11" "t' ! 5 = JStr ''lifecycle''"
  then show ?thesis using assms by (auto simp: parse_lifecycle_iff snapshot_lifecycle)
next
  fix t' assume "JArr t = JArr t'" "length t' = 15" "t' ! 5 = JStr ''reconciliation''"
  then show ?thesis using assms by (auto simp: parse_reconciliation_iff snapshot_reconciliation)
qed

lemma parse_validates: "parseResultStatementTuple v = Inr st \<Longrightarrow> validateResultStatement st = Inr ()"
  by (auto simp: parseResultStatementTuple_def sum_bind_Inr_iff Let_def)

subsection \<open>What the authority's own state yields\<close>

lemma receipt_fld:
  "fld (attestationReceiptFromLifecycleReceipt r) ''digest'' = Some (JStr (rc_digest r))"
  "fld (attestationReceiptFromLifecycleReceipt r) ''version'' = Some (JNum (rc_version r))"
  "fld (attestationReceiptFromLifecycleReceipt r) ''operation'' = Some (JStr (operation_name (rc_operation r)))"
  "fld (attestationReceiptFromLifecycleReceipt r) ''environment'' = Some (JStr (environment_name (rc_environment r)))"
  "fld (attestationReceiptFromLifecycleReceipt r) ''authorityId'' = Some (JStr (rc_authorityId r))"
  "fld (attestationReceiptFromLifecycleReceipt r) ''policyEpoch'' = Some (JStr (rc_policyEpoch r))"
  "fld (attestationReceiptFromLifecycleReceipt r) ''operatorKeyFingerprint'' = Some (JStr (rc_keyFingerprint r))"
  "fld (attestationReceiptFromLifecycleReceipt r) ''sequence'' = Some (JNum (rc_sequence r))"
  "fld (attestationReceiptFromLifecycleReceipt r) ''appliedMs'' = Some (JNum (rc_applied r))"
  "fld (attestationReceiptFromLifecycleReceipt r) ''currentReleaseId'' = Some (JStr (rc_currentReleaseId r))"
  "fld (attestationReceiptFromLifecycleReceipt r) ''nextReleaseId'' = Some (JStr (rc_nextReleaseId r))"
  "fld (attestationReceiptFromLifecycleReceipt r) ''nextKeyId'' = Some (JStr (rc_nextKeyId r))"
  "fld (attestationReceiptFromLifecycleReceipt r) ''activatesMs'' = Some (JNum (rc_activates r))"
  "fld (attestationReceiptFromLifecycleReceipt r) ''retiresMs'' = Some (opt_num (rc_retires r))"
  by (simp_all add: attestationReceiptFromLifecycleReceipt_def fld_def)

lemma row_fld:
  "fld (attestationReleaseRowFromAuthority u) ''releaseId'' = Some (JStr (rr_releaseId u))"
  "fld (attestationReleaseRowFromAuthority u) ''keyId'' = Some (JStr (rr_keyId u))"
  "fld (attestationReleaseRowFromAuthority u) ''activatedMs'' = Some (JNum (rr_activated u))"
  "fld (attestationReleaseRowFromAuthority u) ''retiredMs'' = Some (opt_num (rr_retired u))"
  by (simp_all add: attestationReleaseRowFromAuthority_def fld_def)

lemma receipt_exact: "isPlainRecord (attestationReceiptFromLifecycleReceipt r)"
  "hasExactFields (attestationReceiptFromLifecycleReceipt r) RECEIPT_FIELDS"
  by (simp_all add: hasExactFields_def RECEIPT_FIELDS_def receipt_fld)
    (simp_all add: attestationReceiptFromLifecycleReceipt_def own_keys_def isPlainRecord_def)

lemma row_exact: "isPlainRecord (attestationReleaseRowFromAuthority u)"
  "hasExactFields (attestationReleaseRowFromAuthority u) RELEASE_ROW_FIELDS"
  by (simp_all add: hasExactFields_def RELEASE_ROW_FIELDS_def row_fld)
    (simp_all add: attestationReleaseRowFromAuthority_def own_keys_def isPlainRecord_def)

lemma isSafeTime_num [simp]: "isSafeTime (Some (JNum n)) \<longleftrightarrow> is_safe_time n"
  by (auto simp: isSafeTime_def is_safe_time_def)

lemma str_such_str [simp]: "str_such P (Some (JStr s)) = P s" by (simp add: str_such_def)
lemma num_of_num [simp]: "num_of (Some (JNum n)) = n" by (simp add: num_of_def)

lemma opt_num_simps [simp]: "opt_num None = JNull" "opt_num (Some n) = JNum n" "opt_num v = JNull \<longleftrightarrow> v = None"
  "opt_num v = JNum n \<longleftrightarrow> v = Some n"
  by (auto simp: opt_num_def split: option.splits)

lemma environment_name_eq: "environment_name e = ''production'' \<longleftrightarrow> e = Production" "environment_name e = ''staging'' \<longleftrightarrow> e = Staging"
  "operation_name c = ''initialize'' \<longleftrightarrow> c = Initialize"
  by (cases e; simp)+ (cases c; simp)

lemma authority_ids: "ATTESTATION_AUTHORITY_IDS (environment_name env) = Some (authority_id_of env)"
  by (cases env) (simp_all add: ATTESTATION_AUTHORITY_IDS_def authority_id_of_def ADMISSION_AUTHORITY_ID_def STAGING_ADMISSION_AUTHORITY_ID_def)

lemma receipt_accepted:
  assumes "receipt_ok env r" "sequence_ok r" "1 \<le> rc_sequence r" "rc_sequence r \<le> 4096"
    and "outer = \<lparr>ob_digest = rc_digest r, ob_environment = environment_name env, ob_authorityId = authority_id_of env\<rparr>"
  shows "validateReceipt (attestationReceiptFromLifecycleReceipt r) outer = Inr ()"
proof -
  let ?v = "attestationReceiptFromLifecycleReceipt r"
  have "is_safe_time (rc_sequence r)" using assms(3,4) by (simp add: is_safe_time_def is_safe_integer_def MAX_SAFE_INTEGER_def)
  moreover have "opt_num (rc_retires r) = JNull \<or> isSafeTime (Some (opt_num (rc_retires r)))"
    using assms(1) by (auto simp: receipt_ok_def split: operation.splits)
  ultimately have "receipt_fields_ok ?v outer"
    using assms unfolding receipt_fields_ok_def receipt_fld
    by (cases "rc_operation r") (simp_all add: receipt_ok_def operations_def ATTESTATION_MAX_SEQUENCE_def ATTESTATION_POLICY_EPOCH_def ADMISSION_POLICY_EPOCH_def)
  moreover have "receipt_operation_ok ?v"
    using assms(1,2) unfolding receipt_operation_ok_def receipt_fld
    by (cases "rc_operation r") (auto simp: receipt_ok_def sequence_ok_def ATTESTATION_MAX_ROTATION_OVERLAP_MS_def)
  moreover have "\<not> \<bar>rc_applied r - rc_activates r\<bar> > ATTESTATION_MAX_APPLIED_ACTIVATION_SKEW_MS"
    using assms(1) by (simp add: receipt_ok_def ATTESTATION_MAX_APPLIED_ACTIVATION_SKEW_MS_def)
  ultimately show ?thesis by (simp add: validateReceipt_def receipt_exact receipt_fld)
qed

lemma row_accepted: "release_ok u \<Longrightarrow> validateReleaseRow (attestationReleaseRowFromAuthority u) = Inr ()"
  by (auto simp: validateReleaseRow_def row_exact row_fld release_ok_def split: option.splits)

lemma row_of_row [simp]: "row_of (attestationReleaseRowFromAuthority u) = u"
  by (cases "rr_retired u") (simp_all add: row_of_def row_fld)

lemma js_less_linear: "js_less a b \<or> a = b \<or> js_less b a"
proof (induction a b rule: js_less.induct)
  case (3 c s d t)
  have "byte_val c = byte_val d \<Longrightarrow> c = d" by (metis byte_eqI)
  then show ?case using 3 by (auto simp: not_less_iff_gr_or_eq)
qed (auto simp: neq_Nil_conv elim: js_less.elims)

lemma js_less_asym: "js_less a b \<Longrightarrow> \<not> js_less b a"
  by (induction a b rule: js_less.induct) auto

lemma sort_two:
  assumes "rr_releaseId r \<noteq> rr_releaseId u"
  shows "ascending_rows (sort_rows [r, u]) \<and> (sort_rows [r, u] = [r, u] \<or> sort_rows [r, u] = [u, r])"
  using assms js_less_linear [of "rr_releaseId r" "rr_releaseId u"] js_less_asym [of "rr_releaseId r" "rr_releaseId u"]
  by (auto simp: sort_rows_def compareReleaseRows_def)

lemma sum_map_unit: "(\<And>x. x \<in> set xs \<Longrightarrow> f x = Inr ()) \<Longrightarrow> \<exists>ys. sum_map f xs = Inr ys"
  using sum_map_Inr [of xs f "\<lambda>_. ()"] by auto

lemma two_rows_accepted:
  assumes "two_releases rows"
  shows "validateReleaseRows (JArr (map attestationReleaseRowFromAuthority (sort_rows rows))) True (environment_name Production) = Inr ()"
proof -
  obtain r u t where two: "rows = [r, u]" "rr_retired r = Some t" "rr_retired u = None" "release_ok r" "release_ok u"
    "rr_releaseId r \<noteq> rr_releaseId u" "rr_keyId r \<noteq> rr_keyId u" "rr_activated r \<le> rr_activated u" "rr_activated u < t" "t - rr_activated u \<le> 5 * 60000"
    using assms by (auto simp: two_releases_def)
  note s = sort_two [OF two(6)]
  have "\<exists>ys. sum_map validateReleaseRow (map attestationReleaseRowFromAuthority (sort_rows rows)) = Inr ys"
    using s two by (intro sum_map_unit) (auto simp: row_accepted)
  moreover have "map row_of (map attestationReleaseRowFromAuthority (sort_rows rows)) = sort_rows rows" by (simp add: comp_def)
  ultimately show ?thesis using s two
    by (auto simp: validateReleaseRows_def Let_def overlap_ok_def ATTESTATION_MAX_ROTATION_OVERLAP_MS_def)
qed

lemma one_row_accepted:
  assumes "release_ok u" "rr_retired u = None"
  shows "validateReleaseRows (JArr (map attestationReleaseRowFromAuthority [u])) True env = Inr ()"
  using assms by (auto simp: validateReleaseRows_def Let_def overlap_ok_def row_accepted)

lemma no_rows_accepted: "validateReleaseRows (JArr []) False env = Inr ()"
  by (simp add: validateReleaseRows_def)

text \<open>The tuples of the two constructors.\<close>

definition receipt_tuple :: "receipt \<Rightarrow> jval list" where
  "receipt_tuple r = [JStr (rc_digest r), JNum (rc_version r), JStr (operation_name (rc_operation r)),
     JStr (environment_name (rc_environment r)), JStr (rc_authorityId r), JStr (rc_policyEpoch r), JStr (rc_keyFingerprint r),
     JNum (rc_sequence r), JNum (rc_applied r), JStr (rc_currentReleaseId r), JStr (rc_nextReleaseId r), JStr (rc_nextKeyId r),
     JNum (rc_activates r), opt_num (rc_retires r)]"

definition row_tuple :: "release_row \<Rightarrow> jval list" where
  "row_tuple u = [JStr (rr_releaseId u), JStr (rr_keyId u), JNum (rr_activated u), opt_num (rr_retired u)]"

lemma receipt_zip: "attestationReceiptFromLifecycleReceipt r = JObj (zip RECEIPT_FIELDS (receipt_tuple r))" "length (receipt_tuple r) = 14"
  by (simp_all add: attestationReceiptFromLifecycleReceipt_def RECEIPT_FIELDS_def receipt_tuple_def)

lemma row_zip: "attestationReleaseRowFromAuthority u = JObj (zip RELEASE_ROW_FIELDS (row_tuple u))" "length (row_tuple u) = 4"
  by (simp_all add: attestationReleaseRowFromAuthority_def RELEASE_ROW_FIELDS_def row_tuple_def)

lemma row_fun: "attestationReleaseRowFromAuthority = (\<lambda>u. JObj (zip RELEASE_ROW_FIELDS (row_tuple u)))"
  using row_zip(1) by blast

definition lifecycle_tuple :: "lifecycle_input \<Rightarrow> jval list \<Rightarrow> jval list" where
  "lifecycle_tuple i rc = [JNum ATTESTATION_VERSION, JNum (li_trustEpoch i), JStr (environment_name (li_environment i)),
     JStr (li_authorityId i), JStr (li_policyEpoch i), JStr ''lifecycle'', JStr (li_digest i), JStr ''APPLIED'', JArr rc,
     JNum (li_observedAt i), JStr (li_writerKeyFingerprint i)]"

definition reconciliation_tuple :: "reconciliation_input \<Rightarrow> jval list option \<Rightarrow> jval list" where
  "reconciliation_tuple i rc = [JNum ATTESTATION_VERSION, JNum (re_trustEpoch i), JStr (environment_name (re_environment i)),
     JStr (re_authorityId i), JStr (re_policyEpoch i), JStr ''reconciliation'', JStr (re_digest i), JStr (re_nonce i), JBool (re_initialized i),
     JStr (if re_complete i then ''COMPLETE'' else ''INCOMPLETE''), JStr (status_name (re_status i)),
     (case rc of None \<Rightarrow> JNull | Some xs \<Rightarrow> JArr xs), JArr (map (JArr \<circ> row_tuple) (sort_rows (re_releases i))),
     JNum (re_observedAt i), JStr (re_writerKeyFingerprint i)]"

lemma makeLifecycle_parse:
  assumes "li_receipt i = JObj (zip RECEIPT_FIELDS rc)" "length rc = 14"
  shows "makeLifecycleStatement i = parseResultStatementTuple (JArr (lifecycle_tuple i rc))"
proof -
  have "snapshotStatementTuple (lifecycle_record (lifecycle_tuple i rc) rc) = Inr (lifecycle_tuple i rc)"
    using assms(2) by (intro snapshot_lifecycle) (simp_all add: lifecycle_tuple_def)
  then show ?thesis using assms
    by (simp add: makeLifecycleStatement_def snapshotResultStatement_def lifecycle_record_def lifecycle_tuple_def LIFECYCLE_STATEMENT_FIELDS_def)
qed

lemma makeReconciliation_parse:
  assumes "re_receipt i = map_option (\<lambda>xs. JObj (zip RECEIPT_FIELDS xs)) rc" "\<forall>xs. rc = Some xs \<longrightarrow> length xs = 14"
  shows "makeReconciliationStatement i = parseResultStatementTuple (JArr (reconciliation_tuple i rc))"
proof -
  let ?rows = "map row_tuple (sort_rows (re_releases i))"
  have "snapshotStatementTuple (reconciliation_record (reconciliation_tuple i rc) rc ?rows) = Inr (reconciliation_tuple i rc)"
    using assms(2) by (intro snapshot_reconciliation) (auto simp: reconciliation_tuple_def row_zip(2) split: option.splits)
  then show ?thesis using assms(1)
    by (cases rc) (simp_all add: row_fun makeReconciliationStatement_def snapshotResultStatement_def reconciliation_record_def reconciliation_tuple_def
        RECONCILIATION_STATEMENT_FIELDS_def comp_def)
qed

lemma zip_values:
  "distinct names \<Longrightarrow> length t = length names \<Longrightarrow> hasExactFields (JObj (zip names t)) names \<and> isPlainRecord (JObj (zip names t))"
  by (auto simp: hasExactFields_def own_keys_def list_all_length fld_zip isPlainRecord_def)

lemma lifecycle_accepted:
  assumes "receipt_ok env r" "sequence_ok r" "1 \<le> rc_sequence r" "rc_sequence r \<le> 4096" "is_safe_time now" "isLowerHex64 w"
    and "i = \<lparr>li_trustEpoch = ATTESTATION_TRUST_EPOCH, li_environment = env, li_authorityId = authority_id_of env,
      li_policyEpoch = ATTESTATION_POLICY_EPOCH, li_digest = rc_digest r, li_receipt = attestationReceiptFromLifecycleReceipt r,
      li_observedAt = now, li_writerKeyFingerprint = w\<rparr>"
  shows "makeLifecycleStatement i = Inr (lifecycle_record (lifecycle_tuple i (receipt_tuple r)) (receipt_tuple r))"
proof -
  let ?t = "lifecycle_tuple i (receipt_tuple r)" and ?st = "lifecycle_record (lifecycle_tuple i (receipt_tuple r)) (receipt_tuple r)"
  have st: "?st = JObj (zip LIFECYCLE_STATEMENT_FIELDS [JNum ATTESTATION_VERSION, JNum ATTESTATION_TRUST_EPOCH, JStr (environment_name env),
      JStr (authority_id_of env), JStr ATTESTATION_POLICY_EPOCH, JStr ''lifecycle'', JStr (rc_digest r), JStr ''APPLIED'',
      attestationReceiptFromLifecycleReceipt r, JNum now, JStr w])"
    by (simp add: lifecycle_record_def lifecycle_tuple_def assms(7) receipt_zip(1))
  have flds: "fld ?st ''version'' = Some (JNum ATTESTATION_VERSION)" "fld ?st ''trustEpoch'' = Some (JNum ATTESTATION_TRUST_EPOCH)"
    "fld ?st ''environment'' = Some (JStr (environment_name env))" "fld ?st ''authorityId'' = Some (JStr (authority_id_of env))"
    "fld ?st ''policyEpoch'' = Some (JStr ATTESTATION_POLICY_EPOCH)" "fld ?st ''kind'' = Some (JStr ''lifecycle'')"
    "fld ?st ''digest'' = Some (JStr (rc_digest r))" "fld ?st ''outcome'' = Some (JStr ''APPLIED'')"
    "fld ?st ''receipt'' = Some (attestationReceiptFromLifecycleReceipt r)" "fld ?st ''observedAtMs'' = Some (JNum now)"
    "fld ?st ''writerKeyFingerprint'' = Some (JStr w)"
    unfolding st by (simp_all add: fld_def LIFECYCLE_STATEMENT_FIELDS_def)
  have "isLowerHex64 (rc_digest r)" using assms(1) by (simp add: receipt_ok_def)
  then have "validateCommon ?st = Inr \<lparr>ob_digest = rc_digest r, ob_environment = environment_name env, ob_authorityId = authority_id_of env\<rparr>"
    using assms(5,6) by (simp add: validateCommon_def flds authority_ids)
  moreover have "hasExactFields ?st LIFECYCLE_STATEMENT_FIELDS" "isPlainRecord ?st"
    unfolding st using zip_values [of LIFECYCLE_STATEMENT_FIELDS] by simp_all
  ultimately have "validateResultStatement ?st = Inr ()"
    using receipt_accepted [OF assms(1-4) refl] by (simp add: validateResultStatement_def flds)
  moreover have "length ?t = 11" "?t ! 5 = JStr ''lifecycle''" "?t ! 8 = JArr (receipt_tuple r)" by (simp_all add: lifecycle_tuple_def)
  ultimately show ?thesis
    using makeLifecycle_parse [of i "receipt_tuple r"] by (simp add: assms(7) receipt_zip parse_lifecycle_iff)
qed

lemma reconciliation_accepted:
  assumes "is_safe_time now" "isLowerHex64 w" "isLowerHex64 d" "is_hex 32 n"
    and state: "js_String (JBool ini) @ ''/'' @ (if cov then ''COMPLETE'' else ''INCOMPLETE'') @ ''/'' @ status_name sts \<in> set reconciliation_states"
    and rc: "if sts = ExactReceipt then \<exists>r. rc = Some r \<and> rc_digest r = d \<and> receipt_ok env r \<and> sequence_ok r \<and> 1 \<le> rc_sequence r
        \<and> rc_sequence r \<le> 4096 \<and> (\<forall>u. rows = [u] \<longrightarrow> receipt_of_release r u \<and> rr_retired u = None)
      else rc = None"
    and rows: "validateReleaseRows (JArr (map attestationReleaseRowFromAuthority (sort_rows rows))) ini (environment_name env) = Inr ()"
    and i: "i = \<lparr>re_trustEpoch = ATTESTATION_TRUST_EPOCH, re_environment = env, re_authorityId = authority_id_of env,
      re_policyEpoch = ATTESTATION_POLICY_EPOCH, re_digest = d, re_nonce = n, re_initialized = ini, re_complete = cov, re_status = sts,
      re_receipt = map_option attestationReceiptFromLifecycleReceipt rc, re_releases = rows, re_observedAt = now, re_writerKeyFingerprint = w\<rparr>"
  shows "\<exists>st. makeReconciliationStatement i = Inr st"
proof -
  let ?xs = "map_option receipt_tuple rc" and ?rows = "map row_tuple (sort_rows rows)"
  let ?t = "reconciliation_tuple i ?xs" and ?st = "reconciliation_record (reconciliation_tuple i ?xs) ?xs ?rows"
  let ?rc = "case rc of None \<Rightarrow> JNull | Some r \<Rightarrow> attestationReceiptFromLifecycleReceipt r"
  let ?rs = "JArr (map attestationReleaseRowFromAuthority (sort_rows rows))"
  let ?outer = "\<lparr>ob_digest = d, ob_environment = environment_name env, ob_authorityId = authority_id_of env\<rparr>"
  have st: "?st = JObj (zip RECONCILIATION_STATEMENT_FIELDS [JNum ATTESTATION_VERSION, JNum ATTESTATION_TRUST_EPOCH, JStr (environment_name env),
      JStr (authority_id_of env), JStr ATTESTATION_POLICY_EPOCH, JStr ''reconciliation'', JStr d, JStr n, JBool ini,
      JStr (if cov then ''COMPLETE'' else ''INCOMPLETE''), JStr (status_name sts), ?rc, ?rs, JNum now, JStr w])"
    by (cases rc) (simp_all add: reconciliation_record_def reconciliation_tuple_def i receipt_zip(1) row_fun comp_def)
  have flds: "fld ?st ''version'' = Some (JNum ATTESTATION_VERSION)" "fld ?st ''trustEpoch'' = Some (JNum ATTESTATION_TRUST_EPOCH)"
    "fld ?st ''environment'' = Some (JStr (environment_name env))" "fld ?st ''authorityId'' = Some (JStr (authority_id_of env))"
    "fld ?st ''policyEpoch'' = Some (JStr ATTESTATION_POLICY_EPOCH)" "fld ?st ''kind'' = Some (JStr ''reconciliation'')"
    "fld ?st ''digest'' = Some (JStr d)" "fld ?st ''nonce'' = Some (JStr n)" "fld ?st ''initialized'' = Some (JBool ini)"
    "fld ?st ''coverage'' = Some (JStr (if cov then ''COMPLETE'' else ''INCOMPLETE''))" "fld ?st ''status'' = Some (JStr (status_name sts))"
    "fld ?st ''receipt'' = Some ?rc" "fld ?st ''releases'' = Some ?rs" "fld ?st ''observedAtMs'' = Some (JNum now)"
    "fld ?st ''writerKeyFingerprint'' = Some (JStr w)"
    unfolding st by (simp_all add: fld_def RECONCILIATION_STATEMENT_FIELDS_def)
  have common: "validateCommon ?st = Inr ?outer"
    using assms(1-3) by (simp add: validateCommon_def flds authority_ids)
  have stext: "state_text ?st = js_String (JBool ini) @ ''/'' @ (if cov then ''COMPLETE'' else ''INCOMPLETE'') @ ''/'' @ status_name sts"
    by (simp add: state_text_def flds js_String_opt_def)
  have required: "state_text ?st = ''true/COMPLETE/EXACT_RECEIPT'' \<longleftrightarrow> sts = ExactReceipt"
    using state unfolding stext by (cases sts; cases cov; cases ini) (simp_all add: reconciliation_states_def)
  have coherent: "assertOneRowReceiptCoherence ?rc (map attestationReleaseRowFromAuthority (sort_rows rows)) = Inr ()" if "sts = ExactReceipt"
  proof (cases "\<exists>u. rows = [u]")
    case True
    then show ?thesis using rc that
      by (auto simp: assertOneRowReceiptCoherence_def sort_rows_def receipt_fld row_fld receipt_of_release_def sequence_ok_def)
  next
    case False
    have "length (sort_rows rows) = length rows"
    proof -
      have "length (insert_row a bs) = Suc (length bs)" for a bs by (induction bs) auto
      then show ?thesis by (induction rows) (simp_all add: sort_rows_def)
    qed
    then have "length (sort_rows rows) \<noteq> 1" using False by (cases rows; cases "tl rows") auto
    then show ?thesis by (cases "sort_rows rows"; cases "tl (sort_rows rows)") (auto simp: assertOneRowReceiptCoherence_def)
  qed
  have "validateReceipt ?rc ?outer = Inr ()" if "sts = ExactReceipt" using rc that receipt_accepted [of env _ ?outer] by auto
  then have "validateReconciliation ?st ?outer = Inr ()"
    using state rc rows coherent required unfolding stext [symmetric]
    by (simp add: validateReconciliation_def Let_def flds assms(4) guard_def split: if_splits)
  moreover have "hasExactFields ?st RECONCILIATION_STATEMENT_FIELDS" "isPlainRecord ?st"
    unfolding st using zip_values [of RECONCILIATION_STATEMENT_FIELDS] by simp_all
  ultimately have val: "validateResultStatement ?st = Inr ()" using common by (simp add: validateResultStatement_def flds)
  have "length ?t = 15" "?t ! 5 = JStr ''reconciliation''" "?t ! 12 = JArr (map JArr ?rows)" "\<forall>r\<in>set ?rows. length r = 4"
    "case ?xs of None \<Rightarrow> ?t ! 11 = JNull | Some xs \<Rightarrow> ?t ! 11 = JArr xs \<and> length xs = 14"
    by (auto simp: reconciliation_tuple_def i row_zip receipt_zip comp_def split: option.splits)
  then have "parseResultStatementTuple (JArr ?t) = Inr ?st" using val by (subst parse_reconciliation_iff) blast+
  moreover have "makeReconciliationStatement i = parseResultStatementTuple (JArr ?t)"
    by (rule makeReconciliation_parse) (cases rc; simp add: i receipt_zip)+
  ultimately show ?thesis by simp
qed

text \<open>A sample initialization receipt.\<close>

definition sample_receipt :: receipt where
  "sample_receipt = \<lparr>rc_digest = replicate 64 CHR ''a'', rc_version = 1, rc_operation = Initialize, rc_environment = Production,
     rc_authorityId = authority_id_of Production, rc_policyEpoch = ADMISSION_POLICY_EPOCH, rc_keyFingerprint = replicate 64 CHR ''b'', rc_sequence = 1,
     rc_applied = 1000, rc_currentReleaseId = ''r1'', rc_nextReleaseId = ''r1'', rc_nextKeyId = ''k1'', rc_activates = 1000, rc_retires = None\<rparr>"

lemma hex_replicate: "is_lower_hex c \<Longrightarrow> isLowerHex64 (replicate 64 c)"
  by (simp add: isLowerHex64_def list_all_length)

lemma sample_receipt_ok: "receipt_ok Production sample_receipt" "sequence_ok sample_receipt"
  using hex_replicate [of "CHR ''a''"] hex_replicate [of "CHR ''b''"]
  by (simp_all add: receipt_ok_def sequence_ok_def sample_receipt_def is_lower_hex_def in_range_def validRelease_def validKeyId_def bounded_of_def
      is_release_char_def is_b64url_char_def is_alnum_def is_digit_def is_upper_def is_lower_def is_safe_time_def is_safe_integer_def MAX_SAFE_INTEGER_def)

definition sample_lifecycle :: lifecycle_input where
  "sample_lifecycle = \<lparr>li_trustEpoch = ATTESTATION_TRUST_EPOCH, li_environment = Production, li_authorityId = authority_id_of Production,
     li_policyEpoch = ATTESTATION_POLICY_EPOCH, li_digest = rc_digest sample_receipt,
     li_receipt = attestationReceiptFromLifecycleReceipt sample_receipt, li_observedAt = 2000, li_writerKeyFingerprint = replicate 64 CHR ''c''\<rparr>"

lemma sample_lifecycle_parses:
  "\<exists>st. parseResultStatementTuple (JArr (lifecycle_tuple sample_lifecycle (receipt_tuple sample_receipt))) = Inr st"
proof -
  have "1 \<le> rc_sequence sample_receipt" "rc_sequence sample_receipt \<le> 4096" "is_safe_time 2000"
    by (simp_all add: sample_receipt_def is_safe_time_def is_safe_integer_def MAX_SAFE_INTEGER_def)
  moreover have "isLowerHex64 (replicate 64 CHR ''c'')"
    by (rule hex_replicate) (simp add: is_lower_hex_def in_range_def is_digit_def)
  ultimately have "makeLifecycleStatement sample_lifecycle = Inr (lifecycle_record (lifecycle_tuple sample_lifecycle (receipt_tuple sample_receipt)) (receipt_tuple sample_receipt))"
    by (rule lifecycle_accepted [OF sample_receipt_ok]) (simp add: sample_lifecycle_def)
  moreover have "makeLifecycleStatement sample_lifecycle = parseResultStatementTuple (JArr (lifecycle_tuple sample_lifecycle (receipt_tuple sample_receipt)))"
    by (rule makeLifecycle_parse) (simp_all add: sample_lifecycle_def receipt_zip)
  ultimately show ?thesis by simp
qed

text \<open>The validator compares \<^verbatim>\<open>String(value.coverage)\<close> and \<^verbatim>\<open>String(value.status)\<close>: a one-element array passes for its element, and the
  statement is parsed with the array inside.\<close>

definition array_coverage_tuple :: "jval list" where
  "array_coverage_tuple = [JNum 2, JNum 1, JStr ''production'', JStr ''production-public-inquiries-v1'', JStr ''phase5c-i1-epoch-1'',
     JStr ''reconciliation'', JStr (replicate 64 CHR ''a''), JStr (replicate 32 CHR ''b''), JBool False, JArr [JStr ''COMPLETE''],
     JArr [JArr [JStr ''NOT_FOUND'']], JNull, JArr [], JNum 2000, JStr (replicate 64 CHR ''c'')]"

lemma array_coverage_accepted: "\<exists>st. parseResultStatementTuple (JArr array_coverage_tuple) = Inr st"
proof -
  let ?t = array_coverage_tuple and ?st = "reconciliation_record array_coverage_tuple None []"
  let ?outer = "\<lparr>ob_digest = replicate 64 CHR ''a'', ob_environment = ''production'', ob_authorityId = ''production-public-inquiries-v1''\<rparr>"
  have st: "?st = JObj (zip RECONCILIATION_STATEMENT_FIELDS ?t)"
    by (simp add: reconciliation_record_def array_coverage_tuple_def)
  have flds: "fld ?st ''version'' = Some (JNum 2)" "fld ?st ''trustEpoch'' = Some (JNum 1)" "fld ?st ''environment'' = Some (JStr ''production'')"
    "fld ?st ''authorityId'' = Some (JStr ''production-public-inquiries-v1'')" "fld ?st ''policyEpoch'' = Some (JStr ''phase5c-i1-epoch-1'')"
    "fld ?st ''kind'' = Some (JStr ''reconciliation'')" "fld ?st ''digest'' = Some (JStr (replicate 64 CHR ''a''))"
    "fld ?st ''nonce'' = Some (JStr (replicate 32 CHR ''b''))" "fld ?st ''initialized'' = Some (JBool False)"
    "fld ?st ''coverage'' = Some (JArr [JStr ''COMPLETE''])" "fld ?st ''status'' = Some (JArr [JArr [JStr ''NOT_FOUND'']])"
    "fld ?st ''receipt'' = Some JNull" "fld ?st ''releases'' = Some (JArr [])" "fld ?st ''observedAtMs'' = Some (JNum 2000)"
    "fld ?st ''writerKeyFingerprint'' = Some (JStr (replicate 64 CHR ''c''))"
    unfolding st by (simp_all add: fld_def RECONCILIATION_STATEMENT_FIELDS_def array_coverage_tuple_def)
  have hex: "isLowerHex64 (replicate 64 CHR ''a'')" "isLowerHex64 (replicate 64 CHR ''c'')" "is_hex 32 (replicate 32 CHR ''b'')"
    by (simp_all add: isLowerHex64_def is_hex_def list_all_length is_lower_hex_def in_range_def is_digit_def)
  have "validateCommon ?st = Inr ?outer"
    using hex by (simp add: validateCommon_def flds ATTESTATION_VERSION_def ATTESTATION_TRUST_EPOCH_def ATTESTATION_AUTHORITY_IDS_def
        ATTESTATION_POLICY_EPOCH_def is_safe_time_def is_safe_integer_def MAX_SAFE_INTEGER_def)
  moreover have "state_text ?st = ''false/COMPLETE/NOT_FOUND''" by (simp add: state_text_def flds js_String_opt_def)
  then have "validateReconciliation ?st ?outer = Inr ()"
    using hex by (simp add: validateReconciliation_def flds reconciliation_states_def no_rows_accepted guard_def)
  moreover have "hasExactFields ?st RECONCILIATION_STATEMENT_FIELDS \<and> isPlainRecord ?st"
    unfolding st by (rule zip_values) (simp_all add: array_coverage_tuple_def)
  ultimately have "validateResultStatement ?st = Inr ()" by (simp add: validateResultStatement_def flds)
  moreover have "length ?t = 15" "?t ! 5 = JStr ''reconciliation''" "?t ! 11 = JNull" "?t ! 12 = JArr (map JArr [])"
    by (simp_all add: array_coverage_tuple_def)
  ultimately have "parseResultStatementTuple (JArr ?t) = Inr ?st"
    by (subst parse_reconciliation_iff) (auto intro!: exI [of _ None] exI [of _ "[]"])
  then show ?thesis ..
qed

subsection \<open>Properties\<close>

text \<open>Tuples and statements correspond one to one: the statement parsed from a tuple is valid, its snapshot is that
  tuple again, and so are its canonical tuple and its validated copy. No two tuples stand for one statement.\<close>

theorem statement_tuple_roundtrip:
  assumes "parseResultStatementTuple (JArr t) = Inr st"
  shows "validateResultStatement st = Inr () \<and> snapshotStatementTuple st = Inr t \<and> canonicalTuple st = Inr t
    \<and> snapshotResultStatement st = Inr st \<and> (\<forall>t'. parseResultStatementTuple (JArr t') = Inr st \<longrightarrow> t' = t)"
proof -
  have "\<forall>t'. parseResultStatementTuple (JArr t') = Inr st \<longrightarrow> t' = t"
    using snapshot_of_parse [OF assms] snapshot_of_parse by fastforce
  moreover have "canonicalTuple st = Inr t" "snapshotResultStatement st = Inr st"
    using snapshot_of_parse [OF assms] assms by (simp_all add: canonicalTuple_def snapshotResultStatement_def)
  ultimately show ?thesis using parse_validates [OF assms] snapshot_of_parse [OF assms] by blast
qed


theorem statement_tuple_roundtrip_witness:
  "\<exists>st. parseResultStatementTuple (JArr (lifecycle_tuple sample_lifecycle (receipt_tuple sample_receipt))) = Inr st
     \<and> canonicalTuple st = Inr (lifecycle_tuple sample_lifecycle (receipt_tuple sample_receipt))"
  using sample_lifecycle_parses statement_tuple_roundtrip by blast

end
