(* ===== verification/Strict_Json.thy ===== *)
theory Strict_Json
  imports Attestation
begin

text \<open>
  Canonical encoding and strict parsing (\<^verbatim>\<open>src/lib/authority-result-attestation.ts\<close>): \<^verbatim>\<open>encodeTupleJson\<close>, the recursive
  descent parser \<^verbatim>\<open>parseStrictJsonText\<close>, and the envelope of a statement and its signature.

  The parser works on the text that is left instead of an index. \<^verbatim>\<open>JSON.stringify\<close> of a string and \<^verbatim>\<open>JSON.parse\<close> of a string literal
  are modelled for code units below 256; a literal with a larger one (an escape above \<^verbatim>\<open>\u00ff\<close>) is refused here, whereas the program
  refuses it later, because no field of a statement admits one. A number beyond the safe integers keeps its exact value here instead of the
  rounded one, and is refused as unsafe in both. The UTF-8 encoder and the fatal decoder are arguments.

  The recursion of the parser is bounded by its own depth limit; the loops over the members are given the length of the text as fuel,
  and \<open>array_loop_fuel\<close> and \<open>object_loop_fuel\<close> show that it never runs out. The theorems: a text that was encoded is parsed to the value it
  encodes, and an envelope is accepted exactly when it is the canonical encoding of what it is parsed to.
\<close>

subsection \<open>Encoding\<close>

definition low_hex :: "nat \<Rightarrow> char" where
  "low_hex n = (if n < 10 then char_of (48 + n) else char_of (87 + n))"

definition json_escape :: "char \<Rightarrow> string" where
  "json_escape c =
     (if c = CHR 0x22 then [CHR 0x5C, CHR 0x22]
      else if c = CHR 0x5C then [CHR 0x5C, CHR 0x5C]
      else if c = CHR 0x08 then [CHR 0x5C, CHR ''b'']
      else if c = CHR 0x09 then [CHR 0x5C, CHR ''t'']
      else if c = CHR 0x0A then [CHR 0x5C, CHR ''n'']
      else if c = CHR 0x0C then [CHR 0x5C, CHR ''f'']
      else if c = CHR 0x0D then [CHR 0x5C, CHR ''r'']
      else if byte_val c < 32 then [CHR 0x5C, CHR ''u'', CHR ''0'', CHR ''0'', low_hex (byte_val c div 16), low_hex (byte_val c mod 16)]
      else [c])"

definition json_quote :: "string \<Rightarrow> string" where
  "json_quote s = CHR 0x22 # concat (map json_escape s) @ [CHR 0x22]"

fun join_comma :: "string list \<Rightarrow> string" where
  "join_comma [] = []"
| "join_comma [x] = x"
| "join_comma (x # y # ys) = x @ CHR '','' # join_comma (y # ys)"

lemma sum_map_cong [fundef_cong]: "xs = ys \<Longrightarrow> (\<And>x. x \<in> set ys \<Longrightarrow> f x = g x) \<Longrightarrow> sum_map f xs = sum_map g ys"
  by (induction ys arbitrary: xs) auto

fun encodeTupleJson :: "jval \<Rightarrow> string + string" where
  "encodeTupleJson JNull = Inr ''null''"
| "encodeTupleJson (JBool b) = Inr (if b then ''true'' else ''false'')"
| "encodeTupleJson (JStr s) = Inr (json_quote s)"
| "encodeTupleJson (JNum n) = (if is_safe_time n then Inr (int_text n) else Inl ''attestation-statement'')"
| "encodeTupleJson (JArr xs) = sum_bind (sum_map encodeTupleJson xs) (\<lambda>ts. Inr (CHR ''['' # join_comma ts @ '']''))"
| "encodeTupleJson (JObj kvs) = Inl ''attestation-statement''"

definition canonicalStatementText :: "jval \<Rightarrow> string + string" where
  "canonicalStatementText st = sum_bind (canonicalTuple st) (\<lambda>t. encodeTupleJson (JArr t))"

definition signingBytesFromText :: "(string \<Rightarrow> bytes) \<Rightarrow> string \<Rightarrow> bytes" where
  "signingBytesFromText utf8 statementText = utf8 (ATTESTATION_SIGNING_DOMAIN @ statementText)"

definition canonicalStatementBytes :: "(string \<Rightarrow> bytes) \<Rightarrow> jval \<Rightarrow> string + bytes" where
  "canonicalStatementBytes utf8 st = sum_bind (canonicalStatementText st) (\<lambda>t. Inr (utf8 t))"

definition attestationSigningBytes :: "(string \<Rightarrow> bytes) \<Rightarrow> jval \<Rightarrow> string + bytes" where
  "attestationSigningBytes utf8 st = sum_bind (canonicalStatementText st) (\<lambda>t. Inr (signingBytesFromText utf8 t))"

definition checkSignatureText :: "jval \<Rightarrow> string + string" where
  "checkSignatureText v = (case v of
     JStr s \<Rightarrow> (case decodeCanonicalBase64url s (Some 64) of Inl e \<Rightarrow> Inl ''attestation-envelope'' | Inr b \<Rightarrow> Inr s)
   | _ \<Rightarrow> Inl ''attestation-envelope'')"

definition ENVELOPE_FIELDS :: "string list" where "ENVELOPE_FIELDS = [''statement'', ''signature'']"

definition statement_member :: string where
  "statement_member = CHR ''{'' # json_quote ''statement'' @ '':''"
definition signature_member :: string where
  "signature_member = CHR '','' # json_quote ''signature'' @ '':''"

definition envelopeText :: "string \<Rightarrow> string \<Rightarrow> string" where
  "envelopeText statementText signature = statement_member @ statementText @ signature_member @ json_quote signature @ ''}''"

definition readEnvelope :: "jval \<Rightarrow> string + jval \<times> string" where
  "readEnvelope v =
     (if \<not> isPlainRecord v then Inl ''attestation-envelope''
      else if \<not> hasExactFields v ENVELOPE_FIELDS then Inl ''attestation-envelope''
      else sum_bind (readOwnData v ''statement'' ''attestation-envelope'') (\<lambda>st.
        sum_bind (readOwnData v ''signature'' ''attestation-envelope'') (\<lambda>sg.
        sum_bind (checkSignatureText sg) (\<lambda>s. Inr (st, s)))))"

definition encodeResultAttestationEnvelope :: "(string \<Rightarrow> bytes) \<Rightarrow> jval \<Rightarrow> string + bytes" where
  "encodeResultAttestationEnvelope utf8 v = sum_bind (readEnvelope v) (\<lambda>(st, signature).
     sum_bind (canonicalStatementText st) (\<lambda>t.
     let b = utf8 (envelopeText t signature) in
     if length b > ATTESTATION_MAX_ENVELOPE_BYTES then Inl ''attestation-envelope'' else Inr b))"

subsection \<open>Strings and literals\<close>

text \<open>The scan to the closing quote: the raw text between the quotes, and what follows.\<close>

fun scan_string :: "string \<Rightarrow> (string \<times> string) option" where
  "scan_string [] = None"
| "scan_string (c # cs) =
     (if c = CHR 0x22 then Some ([], cs)
      else if c = CHR 0x5C then (case cs of [] \<Rightarrow> None
        | d # ds \<Rightarrow> (case scan_string ds of None \<Rightarrow> None | Some (raw, rest) \<Rightarrow> Some (c # d # raw, rest)))
      else if byte_val c < 32 then None
      else (case scan_string cs of None \<Rightarrow> None | Some (raw, rest) \<Rightarrow> Some (c # raw, rest)))"

definition hex_value :: "char \<Rightarrow> nat option" where
  "hex_value c = (if is_digit c then Some (byte_val c - 48) else if in_range 97 102 c then Some (byte_val c - 87)
     else if in_range 65 70 c then Some (byte_val c - 55) else None)"

definition simple_escape :: "char \<Rightarrow> char option" where
  "simple_escape d = map_of [(CHR 0x22, CHR 0x22), (CHR 0x5C, CHR 0x5C), (CHR ''/'', CHR ''/''), (CHR ''b'', CHR 0x08), (CHR ''f'', CHR 0x0C),
     (CHR ''n'', CHR 0x0A), (CHR ''r'', CHR 0x0D), (CHR ''t'', CHR 0x09)] d"

definition unicode_escape :: "char \<Rightarrow> char \<Rightarrow> char \<Rightarrow> char \<Rightarrow> char option" where
  "unicode_escape a b c d = (case (hex_value a, hex_value b, hex_value c, hex_value d) of
     (Some w, Some x, Some y, Some z) \<Rightarrow> (let n = w * 4096 + x * 256 + y * 16 + z in if n < 256 then Some (char_of n) else None)
   | _ \<Rightarrow> None)"

text \<open>The value of a string literal.\<close>

fun json_unescape :: "string \<Rightarrow> string option" where
  "json_unescape [] = Some []"
| "json_unescape (c # cs) =
     (if c = CHR 0x5C then (case cs of
          [] \<Rightarrow> None
        | d # ds \<Rightarrow>
            if d = CHR ''u'' then (case ds of
                h1 # h2 # h3 # h4 # rest \<Rightarrow> (case unicode_escape h1 h2 h3 h4 of None \<Rightarrow> None
                  | Some x \<Rightarrow> (case json_unescape rest of None \<Rightarrow> None | Some s \<Rightarrow> Some (x # s)))
              | _ \<Rightarrow> None)
            else (case simple_escape d of None \<Rightarrow> None
                | Some x \<Rightarrow> (case json_unescape ds of None \<Rightarrow> None | Some s \<Rightarrow> Some (x # s))))
      else (case json_unescape cs of None \<Rightarrow> None | Some s \<Rightarrow> Some (c # s)))"

definition parse_string :: "string \<Rightarrow> (string \<times> string) option" where
  "parse_string s = (case s of
     [] \<Rightarrow> None
   | c # cs \<Rightarrow> if c \<noteq> CHR 0x22 then None else (case scan_string cs of
       None \<Rightarrow> None
     | Some (raw, rest) \<Rightarrow> (case json_unescape raw of None \<Rightarrow> None | Some v \<Rightarrow> Some (v, rest))))"

definition is_json_space :: "char \<Rightarrow> bool" where
  "is_json_space c \<longleftrightarrow> c \<in> {CHR 0x20, CHR 0x09, CHR 0x0D, CHR 0x0A}"

definition skip_space :: "string \<Rightarrow> string" where
  "skip_space s = dropWhile is_json_space s"

definition digits_value :: "string \<Rightarrow> nat" where
  "digits_value s = foldl (\<lambda>n c. n * 10 + (byte_val c - 48)) 0 s"

text \<open>\<^verbatim>\<open>/^-?(?:0|[1-9][0-9]*)/\<close>: the sign and the digits.\<close>

definition match_number :: "string \<Rightarrow> (bool \<times> string) option" where
  "match_number s = (let neg = (s \<noteq> [] \<and> hd s = CHR ''-''); t = (if neg then tl s else s) in
     case t of [] \<Rightarrow> None
     | c # cs \<Rightarrow> if c = CHR ''0'' then Some (neg, [c]) else if is_digit c then Some (neg, c # takeWhile is_digit cs) else None)"

definition parse_literal :: "string \<Rightarrow> (jval \<times> string) option" where
  "parse_literal s = (let w = take 32 s in
     if prefix ''true'' w then Some (JBool True, drop 4 s)
     else if prefix ''false'' w then Some (JBool False, drop 5 s)
     else if prefix ''null'' w then Some (JNull, drop 4 s)
     else case match_number w of
       None \<Rightarrow> None
     | Some (neg, ds) \<Rightarrow>
         if neg \<and> ds = ''0'' then None
         else Some (JNum (if neg then - int (digits_value ds) else int (digits_value ds)), drop (length ds + (if neg then 1 else 0)) s))"

subsection \<open>Parsing\<close>

fun array_loop :: "(string \<Rightarrow> (jval \<times> string) option) \<Rightarrow> nat \<Rightarrow> string \<Rightarrow> (jval list \<times> string) option" where
  "array_loop p 0 s = None"
| "array_loop p (Suc n) s = (case p s of
     None \<Rightarrow> None
   | Some (v, r) \<Rightarrow> (case skip_space r of
       [] \<Rightarrow> None
     | c # r2 \<Rightarrow> if c = CHR '']'' then Some ([v], r2)
         else if c = CHR '','' then (case array_loop p n r2 of None \<Rightarrow> None | Some (vs, r3) \<Rightarrow> Some (v # vs, r3))
         else None))"

fun object_loop :: "(string \<Rightarrow> (jval \<times> string) option) \<Rightarrow> nat \<Rightarrow> string list \<Rightarrow> string \<Rightarrow> ((string \<times> jval) list \<times> string) option" where
  "object_loop p 0 known s = None"
| "object_loop p (Suc n) known s = (case parse_string (skip_space s) of
     None \<Rightarrow> None
   | Some (k, r) \<Rightarrow> (case skip_space r of
       [] \<Rightarrow> None
     | c # r2 \<Rightarrow> if c \<noteq> CHR '':'' \<or> k \<in> set known then None
         else (case p r2 of
           None \<Rightarrow> None
         | Some (v, r3) \<Rightarrow> (case skip_space r3 of
             [] \<Rightarrow> None
           | d # r4 \<Rightarrow> if d = CHR ''}'' then Some ([(k, v)], r4)
               else if d = CHR '','' then (case object_loop p n (k # known) r4 of None \<Rightarrow> None | Some (kvs, r5) \<Rightarrow> Some ((k, v) # kvs, r5))
               else None))))"

text \<open>\<open>parse_value k\<close> is \<^verbatim>\<open>value(depth)\<close> with \<open>k\<close> levels left.\<close>

fun parse_value :: "nat \<Rightarrow> string \<Rightarrow> (jval \<times> string) option" where
  "parse_value 0 s = None"
| "parse_value (Suc k) s0 = (let s = skip_space s0 in
     case s of
       [] \<Rightarrow> parse_literal s
     | c # cs \<Rightarrow>
         if c = CHR 0x22 then (case parse_string s of None \<Rightarrow> None | Some (v, r) \<Rightarrow> Some (JStr v, r))
         else if c = CHR ''['' then (case skip_space cs of
             [] \<Rightarrow> None
           | d # ds \<Rightarrow> if d = CHR '']'' then Some (JArr [], ds)
               else (case array_loop (parse_value k) (Suc (length cs)) (d # ds) of None \<Rightarrow> None | Some (vs, r) \<Rightarrow> Some (JArr vs, r)))
         else if c = CHR ''{'' then (case skip_space cs of
             [] \<Rightarrow> None
           | d # ds \<Rightarrow> if d = CHR ''}'' then Some (JObj [], ds)
               else (case object_loop (parse_value k) (Suc (length cs)) [] (d # ds) of None \<Rightarrow> None | Some (kvs, r) \<Rightarrow> Some (JObj kvs, r)))
         else parse_literal s)"

definition parseStrictJsonText :: "string \<Rightarrow> string \<Rightarrow> nat \<Rightarrow> string + jval" where
  "parseStrictJsonText source code maxDepth = (case parse_value (Suc maxDepth) source of
     None \<Rightarrow> Inl code
   | Some (v, r) \<Rightarrow> if skip_space r = [] then Inr v else Inl code)"

definition parseResultAttestationEnvelope ::
  "(string \<Rightarrow> bytes) \<Rightarrow> (bytes \<Rightarrow> string option) \<Rightarrow> bytes \<Rightarrow> string + jval \<times> string" where
  "parseResultAttestationEnvelope utf8 utf8_decode b =
     (if b = [] \<or> length b > ATTESTATION_MAX_ENVELOPE_BYTES then Inl ''attestation-envelope''
      else case utf8_decode b of
        None \<Rightarrow> Inl ''attestation-envelope''
      | Some source \<Rightarrow>
          sum_bind (parseStrictJsonText source ''attestation-envelope'' 16) (\<lambda>v.
          if \<not> isPlainRecord v then Inl ''attestation-envelope''
          else if \<not> hasExactFields v ENVELOPE_FIELDS then Inl ''attestation-envelope''
          else sum_bind (checkSignatureText (case fld v ''signature'' of Some x \<Rightarrow> x | None \<Rightarrow> JNull)) (\<lambda>signature.
            sum_bind (parseResultStatementTuple (case fld v ''statement'' of Some x \<Rightarrow> x | None \<Rightarrow> JNull)) (\<lambda>st.
            sum_bind (encodeResultAttestationEnvelope utf8 (JObj [(''statement'', st), (''signature'', JStr signature)])) (\<lambda>canonical.
            if canonical \<noteq> b then Inl ''attestation-envelope'' else Inr (st, signature))))))"

subsection \<open>The fuel of the loops is enough\<close>

text \<open>No parser returns more text than it was given.\<close>

definition shortens :: "(string \<Rightarrow> ('a \<times> string) option) \<Rightarrow> bool" where
  "shortens p \<longleftrightarrow> (\<forall>s v r. p s = Some (v, r) \<longrightarrow> length r \<le> length s)"

lemma skip_space_length: "length (skip_space s) \<le> length s"
  by (simp add: skip_space_def length_dropWhile_le)

lemma skip_space_Cons: "skip_space s = c # r \<Longrightarrow> Suc (length r) \<le> length s"
  using skip_space_length [of s] by simp

lemma scan_string_length: "scan_string s = Some (raw, r) \<Longrightarrow> length r < length s"
  by (induction s arbitrary: raw r rule: scan_string.induct) (fastforce split: if_splits list.splits option.splits)+

lemma parse_string_length: "parse_string s = Some (v, r) \<Longrightarrow> length r < length s"
  using scan_string_length by (fastforce simp: parse_string_def split: if_splits list.splits option.splits)

lemma parse_literal_shortens: "shortens parse_literal"
  by (auto simp: shortens_def parse_literal_def Let_def split: if_splits option.splits)

lemma array_loop_shortens: "shortens p \<Longrightarrow> array_loop p n s = Some (vs, r) \<Longrightarrow> length r \<le> length s"
proof (induction p n s arbitrary: vs r rule: array_loop.induct)
  case (2 p n s)
  obtain v r1 c r2 where p: "p s = Some (v, r1)" "skip_space r1 = c # r2" using 2(3) by (auto split: option.splits list.splits)
  have l: "length r1 \<le> length s" "Suc (length r2) \<le> length r1"
    using 2(2) p(1) skip_space_Cons [OF p(2)] by (auto simp: shortens_def)
  show ?case
  proof (cases "c = CHR '']''")
    case True
    then show ?thesis using 2(3) p l by simp
  next
    case False
    then obtain ws where c: "c = CHR '',''" "array_loop p n r2 = Some (ws, r)" using 2(3) p by (auto split: if_splits option.splits)
    have "length r \<le> length r2" using 2(1) [OF p(1) refl p(2) False c(1) 2(2) c(2)] .
    then show ?thesis using l by linarith
  qed
qed simp

lemma array_loop_fuel:
  assumes "shortens p" "length s < n" "n \<le> m"
  shows "array_loop p n s = array_loop p m s"
  using assms
proof (induction p n s arbitrary: m rule: array_loop.induct)
  case (2 p n s)
  obtain m' where m: "m = Suc m'" "n \<le> m'" using 2(4) by (cases m) auto
  show ?case
  proof (cases "p s")
    case (Some x)
    obtain v r where x: "x = (v, r)" by fastforce
    have l: "length r \<le> length s" using 2(2) Some x by (auto simp: shortens_def)
    show ?thesis
    proof (cases "skip_space r")
      case (Cons c r2)
      then have "length r2 < n" using skip_space_Cons [OF Cons] l 2(3) by simp
      then have "array_loop p n r2 = array_loop p m' r2" if "c \<noteq> CHR '']''" "c = CHR '',''"
        using 2(1) [OF Some x [symmetric] Cons that 2(2)] m(2) by blast
      then show ?thesis using Some x Cons m(1) by auto
    qed (use Some x m in simp)
  qed (use m in simp)
qed simp

lemma object_loop_shortens: "shortens p \<Longrightarrow> object_loop p n known s = Some (kvs, r) \<Longrightarrow> length r \<le> length s"
proof (induction n arbitrary: known s kvs r)
  case (Suc n)
  obtain k r1 c r2 v r3 d r4 where p: "parse_string (skip_space s) = Some (k, r1)" "skip_space r1 = c # r2" "c = CHR '':''" "k \<notin> set known"
    "p r2 = Some (v, r3)" "skip_space r3 = d # r4"
    using Suc.prems(2) by (auto split: option.splits list.splits if_splits)
  have l: "length r4 \<le> length s"
    using parse_string_length [OF p(1)] skip_space_length [of s] skip_space_Cons [OF p(2)] skip_space_Cons [OF p(6)] Suc.prems(1) p(5)
    unfolding shortens_def by fastforce
  show ?case
  proof (cases "d = CHR ''}''")
    case True
    then show ?thesis using Suc.prems(2) p l by simp
  next
    case False
    then obtain ws where "object_loop p n (k # known) r4 = Some (ws, r)" using Suc.prems(2) p by (auto split: if_splits option.splits)
    from Suc.IH [OF Suc.prems(1) this] show ?thesis using l by linarith
  qed
qed simp

lemma object_loop_fuel:
  assumes "shortens p" "length s < n" "n \<le> m"
  shows "object_loop p n known s = object_loop p m known s"
  using assms
proof (induction n arbitrary: known s m)
  case (Suc n)
  obtain m' where m: "m = Suc m'" "n \<le> m'" using Suc.prems(3) by (cases m) auto
  have "object_loop p n (k # known) r4 = object_loop p m' (k # known) r4"
    if "parse_string (skip_space s) = Some (k, r1)" "skip_space r1 = c # r2" "p r2 = Some (v, r3)" "skip_space r3 = d # r4" for k r1 c r2 v r3 d r4
  proof -
    have "length r3 \<le> length r2" using Suc.prems(1) that(3) by (auto simp: shortens_def)
    then have "length r4 < n"
      using parse_string_length [OF that(1)] skip_space_length [of s] skip_space_Cons [OF that(2)] skip_space_Cons [OF that(4)] Suc.prems(2) by linarith
    then show ?thesis using Suc.IH [OF Suc.prems(1)] m(2) by blast
  qed
  then show ?case by (simp add: m(1) split: option.splits list.splits)
qed simp

lemma parse_value_shortens: "shortens (parse_value k)"
proof (induction k)
  case (Suc k)
  show ?case unfolding shortens_def
  proof (intro allI impI)
    fix s0 v r assume a: "parse_value (Suc k) s0 = Some (v, r)"
    have "length r \<le> length (skip_space s0)"
    proof (cases "skip_space s0")
      case Nil
      then show ?thesis using a parse_literal_shortens [unfolded shortens_def, rule_format, of "[]" v r] by (simp add: Let_def)
    next
      case (Cons c cs)
      have la: "length r \<le> length cs" if "skip_space cs = d # ds" "array_loop (parse_value k) n (d # ds) = Some (vs, r)" for d ds n vs
        using array_loop_shortens [OF Suc that(2)] skip_space_Cons [OF that(1)] by simp
      have lo: "length r \<le> length cs" if "skip_space cs = d # ds" "object_loop (parse_value k) n [] (d # ds) = Some (vs, r)" for d ds n vs
        using object_loop_shortens [OF Suc that(2)] skip_space_Cons [OF that(1)] by simp
      consider (str) "c = CHR 0x22" | (arr) "c = CHR ''[''" | (obj) "c = CHR ''{''"
        | (lit) "c \<noteq> CHR 0x22" "c \<noteq> CHR ''[''" "c \<noteq> CHR ''{''" by blast
      then show ?thesis
      proof cases
        case str
        then obtain w where "parse_string (c # cs) = Some (w, r)" using a Cons by (auto simp: Let_def split: option.splits)
        from parse_string_length [OF this] show ?thesis by (simp add: Cons)
      next
        case arr
        then obtain d ds where d: "skip_space cs = d # ds" using a Cons by (auto simp: Let_def split: list.splits)
        show ?thesis using a Cons arr d skip_space_Cons [OF d]
          by (auto simp: Let_def simp del: array_loop.simps object_loop.simps split: if_splits option.splits dest!: la [OF d])
      next
        case obj
        then obtain d ds where d: "skip_space cs = d # ds" using a Cons by (auto simp: Let_def split: list.splits)
        show ?thesis using a Cons obj d skip_space_Cons [OF d]
          by (auto simp: Let_def simp del: array_loop.simps object_loop.simps split: if_splits option.splits dest!: lo [OF d])
      next
        case lit
        then have "parse_literal (c # cs) = Some (v, r)" using a Cons by (simp add: Let_def)
        then show ?thesis using parse_literal_shortens unfolding shortens_def Cons by blast
      qed
    qed
    then show "length r \<le> length s0" using skip_space_length [of s0] by linarith
  qed
qed (simp add: shortens_def)

subsection \<open>Parsing what was encoded\<close>

lemma hex_value_low_hex: "n < 16 \<Longrightarrow> hex_value (low_hex n) = Some n"
  by (auto simp: hex_value_def low_hex_def is_digit_def in_range_def)

lemma low_hex_plain: "n < 16 \<Longrightarrow> low_hex n \<noteq> CHR 0x22 \<and> low_hex n \<noteq> CHR 0x5C \<and> \<not> byte_val (low_hex n) < 32"
proof -
  assume n: "n < 16"
  then have "byte_val (low_hex n) = (if n < 10 then 48 + n else 87 + n)" by (simp add: low_hex_def)
  then have "byte_val (low_hex n) \<noteq> byte_val CHR 0x22" "byte_val (low_hex n) \<noteq> byte_val CHR 0x5C" "\<not> byte_val (low_hex n) < 32"
    using n by auto
  then show ?thesis by metis
qed

lemma scan_escape:
  assumes "scan_string rest = Some (raw, r)"
  shows "scan_string (json_escape c @ rest) = Some (json_escape c @ raw, r)"
proof -
  have "byte_val c div 16 < 16" using byte_val_less [of c] by linarith
  then show ?thesis using assms low_hex_plain [of "byte_val c div 16"] low_hex_plain [of "byte_val c mod 16"]
    by (auto simp: json_escape_def)
qed

lemma scan_quoted: "scan_string (concat (map json_escape s) @ CHR 0x22 # rest) = Some (concat (map json_escape s), rest)"
  by (induction s) (simp_all add: scan_escape)

lemma unescape_escape:
  assumes "json_unescape raw = Some s"
  shows "json_unescape (json_escape c @ raw) = Some (c # s)"
proof (cases "\<exists>x. json_escape c = [c] \<or> json_escape c = [CHR 0x5C, x]")
  case True
  then show ?thesis using assms by (auto simp: json_escape_def simple_escape_def split: if_splits)
next
  case False
  then have esc: "json_escape c = [CHR 0x5C, CHR ''u'', CHR ''0'', CHR ''0'', low_hex (byte_val c div 16), low_hex (byte_val c mod 16)]"
    by (auto simp: json_escape_def split: if_splits)
  have "byte_val c div 16 < 16" using byte_val_less [of c] by linarith
  then have "unicode_escape (CHR ''0'') (CHR ''0'') (low_hex (byte_val c div 16)) (low_hex (byte_val c mod 16)) = Some c"
    by (simp add: unicode_escape_def hex_value_low_hex Let_def) (simp add: hex_value_def is_digit_def in_range_def)
  then show ?thesis using assms by (simp add: esc)
qed

lemma unescape_quoted: "json_unescape (concat (map json_escape s)) = Some s"
  by (induction s) (simp_all add: unescape_escape)

lemma parse_quoted: "parse_string (json_quote s @ rest) = Some (s, rest)"
  using scan_quoted [of s rest] unescape_quoted [of s] by (simp add: parse_string_def json_quote_def)

lemma digits_digits: "list_all is_digit (digits n)"
proof (induction n rule: digits.induct)
  case (1 n)
  have "is_digit (char_of (48 + m))" if "m < 10" for m :: nat using that by (simp add: is_digit_def in_range_def)
  then show ?case using 1 by (subst digits.simps) simp
qed

lemma digits_value_digits: "digits_value (digits n) = n"
proof (induction n rule: digits.induct)
  case (1 n)
  then show ?case by (subst digits.simps) (simp add: digits_value_def)
qed

lemma digits_hd: "digits n \<noteq> [] \<and> (hd (digits n) = CHR ''0'' \<longrightarrow> n = 0) \<and> is_digit (hd (digits n))"
proof (induction n rule: digits.induct)
  case (1 n)
  show ?case
  proof (cases "n < 10")
    case True
    have "char_of (48 + n) = CHR ''0'' \<longrightarrow> n = 0"
    proof
      assume "char_of (48 + n) = CHR ''0''"
      then have "byte_val (char_of (48 + n)) = byte_val CHR ''0''" by simp
      then show "n = 0" using True by simp
    qed
    then show ?thesis using True by (subst (1 2 3) digits.simps) (simp add: is_digit_def in_range_def)
  next
    case False
    then show ?thesis using 1 by (subst (1 2 3) digits.simps) auto
  qed
qed

lemma digits_length: "n < 10 ^ k \<Longrightarrow> 0 < k \<Longrightarrow> length (digits n) \<le> k"
proof (induction n arbitrary: k rule: digits.induct)
  case (1 n)
  show ?case
  proof (cases "n < 10")
    case True
    then show ?thesis using 1(3) by (subst digits.simps) simp
  next
    case False
    obtain j where k: "k = Suc j" using 1(3) by (cases k) auto
    have "0 < j" using 1(2) False k by (cases j) auto
    note j = k this
    have "n div 10 < 10 ^ j" using 1(2) j(1) by (simp add: div_less_iff_less_mult mult.commute)
    then have "length (digits (n div 10)) \<le> j" using 1(1) [OF False _ j(2)] by blast
    then show ?thesis using False j(1) by (subst digits.simps) simp
  qed
qed

definition tail_ok :: "string \<Rightarrow> bool" where
  "tail_ok r \<longleftrightarrow> (case r of [] \<Rightarrow> True | c # _ \<Rightarrow> \<not> is_digit c)"

lemma takeWhile_digits: "list_all is_digit ds \<Longrightarrow> tail_ok r \<Longrightarrow> takeWhile is_digit (ds @ r) = ds"
  by (induction ds) (auto simp: tail_ok_def split: list.splits)

lemma tail_ok_take: "tail_ok r \<Longrightarrow> tail_ok (take n r)"
  by (cases n) (auto simp: tail_ok_def split: list.splits)

lemma match_digits: "tail_ok r \<Longrightarrow> match_number (digits n @ r) = Some (False, digits n)"
proof -
  assume r: "tail_ok r"
  obtain c cs where d: "digits n = c # cs" using digits_hd [of n] by (cases "digits n") auto
  have dig: "is_digit c" "list_all is_digit cs" using digits_digits [of n] d by auto
  then have "c \<noteq> CHR ''-''" by (auto simp: is_digit_def in_range_def)
  moreover have "cs = []" if "c = CHR ''0''"
  proof -
    have "n = 0" using digits_hd [of n] d that by simp
    then show ?thesis using d by (simp add: digits.simps [of 0])
  qed
  ultimately show ?thesis using dig takeWhile_digits [OF dig(2) r] by (simp add: match_number_def d)
qed

lemma digit_first: "is_digit c \<Longrightarrow> c \<noteq> CHR ''t'' \<and> c \<noteq> CHR ''f'' \<and> c \<noteq> CHR ''n'' \<and> c \<noteq> CHR 0x22 \<and> c \<noteq> CHR ''['' \<and> c \<noteq> CHR ''{'' \<and> \<not> is_json_space c"
  by (auto simp: is_digit_def in_range_def is_json_space_def)

lemma parse_number:
  assumes "is_safe_time n" "tail_ok rest"
  shows "parse_literal (int_text n @ rest) = Some (JNum n, rest)"
proof -
  have n: "0 \<le> n" "nat n < 10 ^ 32" using assms(1) by (auto simp: is_safe_time_def is_safe_integer_def MAX_SAFE_INTEGER_def)
  then have t: "int_text n = digits (nat n)" by (simp add: int_text_def)
  obtain c cs where d: "digits (nat n) = c # cs" using digits_hd [of "nat n"] by (cases "digits (nat n)") auto
  have "length (digits (nat n)) \<le> 32" using digits_length [OF n(2)] by simp
  then have w: "take 32 (digits (nat n) @ rest) = digits (nat n) @ take (32 - length (digits (nat n))) rest" by simp
  have c: "is_digit c" using digits_hd [of "nat n"] d by simp
  have m: "match_number (take 32 (digits (nat n) @ rest)) = Some (False, digits (nat n))"
    unfolding w by (rule match_digits) (rule tail_ok_take [OF assms(2)])
  have "\<not> prefix ''true'' (take 32 (digits (nat n) @ rest))" "\<not> prefix ''false'' (take 32 (digits (nat n) @ rest))"
    "\<not> prefix ''null'' (take 32 (digits (nat n) @ rest))"
    using digit_first [OF c] by (auto simp: d)
  then show ?thesis using m n(1) by (simp add: parse_literal_def Let_def t digits_value_digits)
qed

fun jdepth :: "jval \<Rightarrow> nat" where
  "jdepth (JArr xs) = Suc (fold max (map jdepth xs) 0)"
| "jdepth _ = 1"

lemma fold_max_le: "fold max xs m \<le> k \<longleftrightarrow> m \<le> (k::nat) \<and> (\<forall>x\<in>set xs. x \<le> k)"
  by (induction xs arbitrary: m) auto

lemma array_loop_join:
  assumes "list_all2 (\<lambda>x t. \<forall>r. tail_ok r \<longrightarrow> p (t @ r) = Some (x, r)) xs ts" "xs \<noteq> []" "length xs \<le> n"
  shows "array_loop p n (join_comma ts @ CHR '']'' # rest) = Some (xs, rest)"
  using assms
proof (induction xs ts arbitrary: n rule: list_all2_induct)
  case (Cons x xs t ts)
  obtain m where n: "n = Suc m" "length xs \<le> m" using Cons.prems by (cases n) auto
  have ok: "tail_ok (CHR '']'' # r)" "tail_ok (CHR '','' # r)" for r by (simp_all add: tail_ok_def is_digit_def in_range_def)
  show ?case
  proof (cases xs)
    case Nil
    then have "ts = []" using Cons.hyps(2) by simp
    then show ?thesis using Nil n Cons.hyps(1) ok(1) by (simp add: skip_space_def is_json_space_def)
  next
    case (Cons y ys)
    then obtain u us where ts: "ts = u # us" using \<open>list_all2 _ xs ts\<close> by (auto simp: list_all2_Cons1)
    have "array_loop p m (join_comma ts @ CHR '']'' # rest) = Some (xs, rest)" using Cons.IH Cons n(2) by simp
    then show ?thesis using n(1) \<open>\<forall>r. tail_ok r \<longrightarrow> p (t @ r) = Some (x, r)\<close> ok(2) ts by (simp add: skip_space_def is_json_space_def)
  qed
qed simp

text \<open>The first character of an encoded value.\<close>

lemma encode_hd:
  assumes "encodeTupleJson v = Inr t"
  shows "t \<noteq> [] \<and> \<not> is_json_space (hd t) \<and> hd t \<noteq> CHR '']''"
  using assms
proof (cases v)
  case (JNum n)
  then have "t = digits (nat n)" using assms by (auto simp: int_text_def is_safe_time_def split: if_splits)
  then show ?thesis using digits_hd [of "nat n"] by (auto simp: is_digit_def in_range_def is_json_space_def)
qed (auto simp: json_quote_def is_json_space_def sum_bind_Inr_iff split: if_splits)

lemma skip_space_id: "s = [] \<or> \<not> is_json_space (hd s) \<Longrightarrow> skip_space s = s"
  by (cases s) (simp_all add: skip_space_def)

lemma parse_leaf:
  assumes "s = c # cs" "\<not> is_json_space c" "c \<noteq> CHR 0x22" "c \<noteq> CHR ''[''" "c \<noteq> CHR ''{''"
  shows "parse_value (Suc k) s = parse_literal s"
  using assms by (simp add: skip_space_id Let_def)

lemma parse_encoded:
  assumes "encodeTupleJson v = Inr t" "jdepth v \<le> k" "tail_ok rest"
  shows "parse_value k (t @ rest) = Some (v, rest)"
  using assms
proof (induction v arbitrary: t k rest rule: encodeTupleJson.induct)
  case 1
  obtain j where "k = Suc j" using 1(2) by (cases k) auto
  moreover have "parse_literal (''null'' @ rest) = Some (JNull, rest)" by (simp add: parse_literal_def Let_def)
  moreover have "t = ''null''" using 1(1) by simp
  ultimately show ?case using parse_leaf [of "''null'' @ rest" "CHR ''n''" "''ull'' @ rest" j] by (simp add: is_json_space_def del: parse_value.simps)
next
  case (2 b)
  obtain j where j: "k = Suc j" using 2(2) by (cases k) auto
  have "parse_literal (''true'' @ rest) = Some (JBool True, rest)" "parse_literal (''false'' @ rest) = Some (JBool False, rest)"
    by (simp_all add: parse_literal_def Let_def)
  moreover have "t = (if b then ''true'' else ''false'')" using 2(1) by simp
  ultimately show ?case using j parse_leaf [of "''true'' @ rest" "CHR ''t''" "''rue'' @ rest" j]
      parse_leaf [of "''false'' @ rest" "CHR ''f''" "''alse'' @ rest" j] by (cases b) (simp_all add: is_json_space_def del: parse_value.simps)
next
  case (3 s)
  obtain j where j: "k = Suc j" using 3(2) by (cases k) auto
  have t: "t = json_quote s" using 3(1) by simp
  have "skip_space (t @ rest) = t @ rest" "t @ rest = CHR 0x22 # (concat (map json_escape s) @ [CHR 0x22]) @ rest"
    by (simp_all add: t json_quote_def skip_space_def is_json_space_def)
  then show ?case using parse_quoted [of s rest] j t by (simp add: Let_def)
next
  case (4 n)
  obtain j where j: "k = Suc j" using 4(2) by (cases k) auto
  have n: "is_safe_time n" "t = int_text n" using 4(1) by (auto split: if_splits)
  then have "t = digits (nat n)" by (simp add: int_text_def is_safe_time_def)
  moreover obtain c cs where "digits (nat n) = c # cs" using digits_hd [of "nat n"] by (cases "digits (nat n)") auto
  ultimately have c: "t = c # cs" "is_digit c" using digits_hd [of "nat n"] by auto
  show ?case using parse_leaf [of "t @ rest" c "cs @ rest" j] digit_first [OF c(2)] parse_number [OF n(1) 4(3)] c(1) n(2) j by (simp del: parse_value.simps)
next
  case (5 xs)
  obtain ts where ts: "sum_map encodeTupleJson xs = Inr ts" "t = CHR ''['' # join_comma ts @ '']''" using 5(2) by (auto simp: sum_bind_Inr_iff)
  obtain j where j: "k = Suc j" using 5(3) by (cases k) auto
  have depth: "jdepth x \<le> j" if "x \<in> set xs" for x using 5(3) that by (simp add: j fold_max_le)
  have all: "list_all2 (\<lambda>x t. \<forall>r. tail_ok r \<longrightarrow> parse_value j (t @ r) = Some (x, r)) xs ts"
    using ts(1) 5(1) depth by (auto simp: sum_map_Inr_iff list_all2_conv_all_nth)
  have s: "skip_space (t @ rest) = CHR ''['' # join_comma ts @ CHR '']'' # rest" by (simp add: ts(2) skip_space_def is_json_space_def)
  show ?case
  proof (cases xs)
    case Nil
    then have "ts = []" using all by simp
    then show ?thesis using s j Nil by (simp add: Let_def skip_space_def is_json_space_def)
  next
    case (Cons x xs')
    then obtain u us where u: "ts = u # us" "encodeTupleJson x = Inr u" using ts(1) by (auto simp: sum_bind_Inr_iff)
    obtain d ds where d: "join_comma ts @ CHR '']'' # rest = d # ds" "\<not> is_json_space d" "d \<noteq> CHR '']''"
      using encode_hd [OF u(2)] u(1) by (cases u; cases us) auto
    have "length ts \<le> length (join_comma ts)"
    proof -
      have "\<forall>t\<in>set ts. t \<noteq> []" using ts(1) by (auto simp: sum_map_Inr_iff list_all2_conv_all_nth in_set_conv_nth) (metis encode_hd)
      then show ?thesis by (induction ts rule: join_comma.induct) (auto simp: Suc_le_eq)
    qed
    then have "length xs \<le> Suc (length (join_comma ts @ CHR '']'' # rest))" using list_all2_lengthD [OF all] by simp
    then have "array_loop (parse_value j) (Suc (length (join_comma ts @ CHR '']'' # rest))) (join_comma ts @ CHR '']'' # rest) = Some (xs, rest)"
      by (intro array_loop_join [OF all]) (use Cons in simp)+
    then have "array_loop (parse_value j) (Suc (length (join_comma ts @ CHR '']'' # rest))) (d # ds) = Some (xs, rest)" unfolding d(1) .
    moreover have "skip_space (join_comma ts @ CHR '']'' # rest) = d # ds" using d by (simp add: skip_space_id)
    ultimately show ?thesis using s d(3) by (simp add: Let_def j del: array_loop.simps)
  qed
qed simp_all

subsection \<open>Envelopes\<close>

lemma envelope_value_parses:
  assumes "encodeTupleJson v = Inr t" "jdepth v \<le> Suc k"
  shows "parse_value (Suc (Suc k)) (envelopeText t s) = Some (JObj [(''statement'', v), (''signature'', JStr s)], [])"
proof -
  let ?r1 = "signature_member @ json_quote s @ ''}''"
  let ?body = "json_quote ''statement'' @ CHR '':'' # t @ ?r1"
  have key: "json_quote ''statement'' @ x = CHR 0x22 # concat (map json_escape ''statement'') @ CHR 0x22 # x" for x by (simp add: json_quote_def)
  have tok: "tail_ok ?r1" by (simp add: signature_member_def tail_ok_def is_digit_def in_range_def)
  have v1: "parse_value (Suc k) (t @ ?r1) = Some (v, ?r1)" using parse_encoded [OF assms tok] .
  have v2: "parse_value (Suc k) (json_quote s @ ''}'') = Some (JStr s, ''}'')"
    using parse_encoded [of "JStr s" "json_quote s" "Suc k" "''}''"] by (simp add: tail_ok_def is_digit_def in_range_def)
  have sk: "skip_space ?body = ?body" "skip_space ?r1 = CHR '','' # json_quote ''signature'' @ CHR '':'' # json_quote s @ ''}''"
    by (simp_all add: skip_space_def is_json_space_def json_quote_def signature_member_def)
  have p1: "parse_string ?body = Some (''statement'', CHR '':'' # t @ ?r1)" by (rule parse_quoted)
  have p2: "parse_string (json_quote ''signature'' @ CHR '':'' # json_quote s @ ''}'') = Some (''signature'', CHR '':'' # json_quote s @ ''}'')"
    by (rule parse_quoted)
  have s2: "skip_space (json_quote ''signature'' @ x) = json_quote ''signature'' @ x" for x by (simp add: skip_space_def is_json_space_def json_quote_def)
  have colon: "skip_space (CHR '':'' # x) = CHR '':'' # x" "skip_space (CHR ''}'' # x) = CHR ''}'' # x" for x by (simp_all add: skip_space_def is_json_space_def)
  have o2: "object_loop (parse_value (Suc k)) (Suc n) [''statement''] (json_quote ''signature'' @ CHR '':'' # json_quote s @ ''}'') = Some ([(''signature'', JStr s)], [])" for n
    using v2 p2 by (simp add: s2 colon)
  have o1: "object_loop (parse_value (Suc k)) (Suc (Suc n)) [] ?body = Some ([(''statement'', v), (''signature'', JStr s)], [])" for n
    using v1 p1 o2 [of n] by (subst object_loop.simps) (simp add: sk colon del: object_loop.simps)
  obtain d ds where d: "?body = d # ds" "d \<noteq> CHR ''}''" by (simp add: json_quote_def)
  have "envelopeText t s = CHR ''{'' # ?body" by (simp add: envelopeText_def statement_member_def)
  moreover have "skip_space (CHR ''{'' # ?body) = CHR ''{'' # ?body" by (simp add: skip_space_def is_json_space_def)
  moreover obtain n where "Suc (length ?body) = Suc (Suc n)" by (simp add: json_quote_def)
  ultimately show ?thesis
    using o1 [of n] sk(1) d by (simp add: Let_def del: object_loop.simps array_loop.simps)
qed

lemma envelope_parses:
  assumes "encodeTupleJson v = Inr t" "jdepth v \<le> 16"
  shows "parseStrictJsonText (envelopeText t s) code 16 = Inr (JObj [(''statement'', v), (''signature'', JStr s)])"
  using envelope_value_parses [OF assms(1), of 15 s] assms(2) by (simp add: parseStrictJsonText_def numeral_eq_Suc skip_space_def del: parse_value.simps)

text \<open>More levels change nothing about a text that parses.\<close>

lemma array_loop_mono:
  assumes "\<And>s v r. p s = Some (v, r) \<Longrightarrow> q s = Some (v, r)"
  shows "array_loop p n s = Some (vs, r) \<Longrightarrow> array_loop q n s = Some (vs, r)"
  by (induction n arbitrary: s vs r) (auto dest!: assms split: option.splits list.splits if_splits)

lemma object_loop_mono:
  assumes "\<And>s v r. p s = Some (v, r) \<Longrightarrow> q s = Some (v, r)"
  shows "object_loop p n known s = Some (kvs, r) \<Longrightarrow> object_loop q n known s = Some (kvs, r)"
proof (induction n arbitrary: known s kvs r)
  case (Suc n)
  obtain k r1 c r2 v r3 d r4 where p: "parse_string (skip_space s) = Some (k, r1)" "skip_space r1 = c # r2" "c = CHR '':''" "k \<notin> set known"
    "p r2 = Some (v, r3)" "skip_space r3 = d # r4"
    using Suc.prems by (auto split: option.splits list.splits if_splits)
  have "object_loop q n (k # known) r4 = Some (ws, r')" if "object_loop p n (k # known) r4 = Some (ws, r')" for ws r' using Suc.IH that .
  then show ?case using Suc.prems p assms [OF p(5)] by (auto split: option.splits if_splits)
qed simp

lemma parse_value_Suc: "parse_value k s = Some (v, r) \<Longrightarrow> parse_value (Suc k) s = Some (v, r)"
proof (induction k arbitrary: s v r)
  case (Suc k)
  have arr: "array_loop (parse_value (Suc k)) n z = Some x" if "array_loop (parse_value k) n z = Some x" for n z x
    using array_loop_mono [where p = "parse_value k" and q = "parse_value (Suc k)", OF Suc.IH, where n = n and s = z and vs = "fst x" and r = "snd x"] that by (simp del: parse_value.simps array_loop.simps object_loop.simps)
  have obj: "object_loop (parse_value (Suc k)) n known z = Some x" if "object_loop (parse_value k) n known z = Some x" for n known z x
    using object_loop_mono [where p = "parse_value k" and q = "parse_value (Suc k)", OF Suc.IH, where n = n and known = known and s = z and kvs = "fst x" and r = "snd x"] that by (simp del: parse_value.simps array_loop.simps object_loop.simps)
  note pv = parse_value.simps(2) [unfolded Let_def]
  show ?case
  proof (cases "skip_space s")
    case Nil
    then show ?thesis using Suc.prems by (simp add: pv del: parse_value.simps)
  next
    case (Cons c cs)
    consider "c = CHR ''[''" | "c = CHR ''{''" | "c \<noteq> CHR ''[''" "c \<noteq> CHR ''{''" by blast
    then show ?thesis
    proof cases
      case 1
      then show ?thesis using Suc.prems Cons arr
        by (auto simp: pv simp del: parse_value.simps array_loop.simps object_loop.simps split: list.splits if_splits option.splits)
    next
      case 2
      then show ?thesis using Suc.prems Cons obj
        by (auto simp: pv simp del: parse_value.simps array_loop.simps object_loop.simps split: list.splits if_splits option.splits)
    next
      case 3
      have "parse_value (Suc k) s = parse_value (Suc (Suc k)) s" unfolding pv Cons using 3 by simp
      then show ?thesis using Suc.prems by metis
    qed
  qed
qed simp

lemma parse_value_mono: "k \<le> m \<Longrightarrow> parse_value k s = Some (v, r) \<Longrightarrow> parse_value m s = Some (v, r)"
  by (induction m rule: dec_induct) (auto intro: parse_value_Suc simp del: parse_value.simps)

lemma envelope_fields:
  "fld (JObj [(''statement'', v), (''signature'', w)]) ''statement'' = Some v" "fld (JObj [(''statement'', v), (''signature'', w)]) ''signature'' = Some w"
  "isPlainRecord (JObj [(''statement'', v), (''signature'', w)])" "hasExactFields (JObj [(''statement'', v), (''signature'', w)]) ENVELOPE_FIELDS"
  by (simp_all add: fld_def isPlainRecord_def hasExactFields_def own_keys_def ENVELOPE_FIELDS_def)

lemma encode_envelope_iff:
  "encodeResultAttestationEnvelope utf8 (JObj [(''statement'', st), (''signature'', JStr s)]) = Inr b \<longleftrightarrow>
     (\<exists>x t. decodeCanonicalBase64url s (Some 64) = Inr x \<and> canonicalStatementText st = Inr t \<and> b = utf8 (envelopeText t s)
       \<and> length b \<le> ATTESTATION_MAX_ENVELOPE_BYTES)"
  by (auto simp: encodeResultAttestationEnvelope_def readEnvelope_def envelope_fields readOwnData_def checkSignatureText_def Let_def sum_bind_Inr_iff not_less
      split: sum.splits if_splits)

text \<open>When the parser accepts the bytes of a statement, it returns that statement.\<close>

lemma parse_of_encode:
  assumes "\<And>s. utf8_decode (utf8 s) = Some s" "parseResultStatementTuple (JArr tup) = Inr st"
    and "encodeResultAttestationEnvelope utf8 (JObj [(''statement'', st), (''signature'', JStr s)]) = Inr b"
    and "parseResultAttestationEnvelope utf8 utf8_decode b = Inr (st', s')"
  shows "st' = st \<and> s' = s"
proof -
  have tuple: "canonicalTuple st = Inr tup" using snapshot_of_parse [OF assms(2)] assms(2) by (simp add: canonicalTuple_def)
  from assms(3) obtain x t where t: "canonicalStatementText st = Inr t" "b = utf8 (envelopeText t s)" unfolding encode_envelope_iff by blast
  have te: "encodeTupleJson (JArr tup) = Inr t" using t(1) tuple by (simp add: canonicalStatementText_def)
  let ?o = "JObj [(''statement'', JArr tup), (''signature'', JStr s)]"
  from assms(4) obtain v where v: "parseStrictJsonText (envelopeText t s) ''attestation-envelope'' 16 = Inr v"
    "checkSignatureText (case fld v ''signature'' of Some x \<Rightarrow> x | None \<Rightarrow> JNull) = Inr s'"
    "parseResultStatementTuple (case fld v ''statement'' of Some x \<Rightarrow> x | None \<Rightarrow> JNull) = Inr st'"
    by (auto simp: parseResultAttestationEnvelope_def t(2) assms(1) sum_bind_Inr_iff split: if_splits)
  obtain r where r: "parse_value 17 (envelopeText t s) = Some (v, r)"
    using v(1) by (auto simp: parseStrictJsonText_def numeral_eq_Suc simp del: parse_value.simps split: option.splits if_splits)
  have "parse_value (Suc (Suc (max 17 (jdepth (JArr tup))))) (envelopeText t s) = Some (?o, [])"
    by (rule envelope_value_parses [OF te]) simp
  moreover have "parse_value (Suc (Suc (max 17 (jdepth (JArr tup))))) (envelopeText t s) = Some (v, r)"
    using r by (rule parse_value_mono [rotated]) simp
  ultimately have "v = ?o" by simp
  then show ?thesis using v(2,3) assms(2) by (auto simp: envelope_fields checkSignatureText_def split: sum.splits)
qed

text \<open>A sample envelope.\<close>

lemma sample_statement:
  obtains st t where "parseResultStatementTuple (JArr (lifecycle_tuple sample_lifecycle (receipt_tuple sample_receipt))) = Inr st"
    "canonicalStatementText st = Inr t" "jdepth (JArr (lifecycle_tuple sample_lifecycle (receipt_tuple sample_receipt))) \<le> 16"
proof -
  obtain st where st: "parseResultStatementTuple (JArr (lifecycle_tuple sample_lifecycle (receipt_tuple sample_receipt))) = Inr st"
    using sample_lifecycle_parses by blast
  have "canonicalTuple st = Inr (lifecycle_tuple sample_lifecycle (receipt_tuple sample_receipt))"
    using snapshot_of_parse [OF st] st by (simp add: canonicalTuple_def)
  moreover have "\<exists>t. encodeTupleJson (JArr (lifecycle_tuple sample_lifecycle (receipt_tuple sample_receipt))) = Inr t"
    by (simp add: lifecycle_tuple_def receipt_tuple_def sample_lifecycle_def sample_receipt_def ATTESTATION_VERSION_def ATTESTATION_TRUST_EPOCH_def
        is_safe_time_def is_safe_integer_def MAX_SAFE_INTEGER_def)
  ultimately have "\<exists>t. canonicalStatementText st = Inr t" by (auto simp: canonicalStatementText_def)
  moreover have "jdepth (JArr (lifecycle_tuple sample_lifecycle (receipt_tuple sample_receipt))) \<le> 16"
    by (simp add: lifecycle_tuple_def receipt_tuple_def sample_lifecycle_def sample_receipt_def)
  ultimately show thesis using that st by blast
qed

lemma parse_encoded_envelope:
  assumes "\<And>s. utf8_decode (utf8 s) = Some s" "\<And>s. s \<noteq> [] \<Longrightarrow> utf8 s \<noteq> []"
    and "parseResultStatementTuple (JArr t) = Inr st" "jdepth (JArr t) \<le> 16"
    and enc: "encodeResultAttestationEnvelope utf8 (JObj [(''statement'', st), (''signature'', JStr s)]) = Inr b"
  shows "parseResultAttestationEnvelope utf8 utf8_decode b = Inr (st, s)"
proof -
  have tuple: "canonicalTuple st = Inr t" using snapshot_of_parse [OF assms(3)] assms(3) by (simp add: canonicalTuple_def)
  from enc obtain x txt' where x: "decodeCanonicalBase64url s (Some 64) = Inr x" "canonicalStatementText st = Inr txt'"
    "b = utf8 (envelopeText txt' s)" "length b \<le> ATTESTATION_MAX_ENVELOPE_BYTES" unfolding encode_envelope_iff by blast
  have te: "encodeTupleJson (JArr t) = Inr txt'" using x(2) tuple by (simp add: canonicalStatementText_def)
  have "b \<noteq> []" using assms(2) by (simp add: x(3) envelopeText_def statement_member_def)
  moreover have "checkSignatureText (JStr s) = Inr s" using x(1) by (simp add: checkSignatureText_def)
  ultimately show ?thesis
    using x(4) assms(1,3) envelope_parses [OF te assms(4)] enc
    by (simp add: parseResultAttestationEnvelope_def x(3) [symmetric] envelope_fields) (simp add: x(3) envelope_fields)
qed

subsection \<open>Properties\<close>

text \<open>C29. An envelope is accepted exactly when it is the canonical encoding of its statement and signature: for a statement whose tuple nests at most
  16 levels, the strict parser returns that statement and signature for the bytes the encoder gives for them, and for no others.\<close>

theorem envelope_roundtrip:
  assumes "\<And>s. utf8_decode (utf8 s) = Some s" "\<And>s. s \<noteq> [] \<Longrightarrow> utf8 s \<noteq> []"
    and "parseResultStatementTuple (JArr t) = Inr st" "jdepth (JArr t) \<le> 16"
  shows "parseResultAttestationEnvelope utf8 utf8_decode b = Inr (st, s)
    \<longleftrightarrow> encodeResultAttestationEnvelope utf8 (JObj [(''statement'', st), (''signature'', JStr s)]) = Inr b" (is "?parse \<longleftrightarrow> ?encode")
proof
  assume ?parse
  then show ?encode
    by (auto simp: parseResultAttestationEnvelope_def sum_bind_Inr_iff split: if_splits option.splits)
next
  assume ?encode
  then show ?parse using parse_encoded_envelope [OF assms] by blast
qed

theorem envelope_roundtrip_witness:
  "\<exists>st. parseResultStatementTuple (JArr (lifecycle_tuple sample_lifecycle (receipt_tuple sample_receipt))) = Inr st
     \<and> (\<forall>b s. parseResultAttestationEnvelope (\<lambda>s. s) Some b = Inr (st, s)
       \<longleftrightarrow> encodeResultAttestationEnvelope (\<lambda>s. s) (JObj [(''statement'', st), (''signature'', JStr s)]) = Inr b)"
proof -
  obtain st t where st: "parseResultStatementTuple (JArr (lifecycle_tuple sample_lifecycle (receipt_tuple sample_receipt))) = Inr st"
    "jdepth (JArr (lifecycle_tuple sample_lifecycle (receipt_tuple sample_receipt))) \<le> 16" by (rule sample_statement)
  then show ?thesis using envelope_roundtrip [of Some "\<lambda>s. s", OF refl _ st] by blast
qed

end
