(* ===== verification/Operator_Command.thy ===== *)
theory Operator_Command
  imports Attestation
begin

text \<open>
  Signed operator commands (\<^verbatim>\<open>workers/admission-service/operator-command.ts\<close>): the schema of a command, its digest and
  receipt, the signature check, and the two executions on the store.

  A command is a JSON value. The canonical bytes of a value (\<^verbatim>\<open>JSON.stringify\<close> and the UTF-8 encoder), SHA-256, the
  import of a raw Ed25519 key and the signature check are the fields of a \<open>crypto\<close> record; what the theorems
  need of SHA-256 is that a digest has 32 bytes. The optional preflight is its outcome, and the final clock reading an argument.

  The theorems: nothing is applied without a well-formed, fresh command signed by the operator key; a command is applied at
  most once, and its repetition answers with the same receipt; every execution keeps the invariant of the store.
\<close>

definition AUTHORITY_OPERATOR_COMMAND_VERSION :: string where
  "AUTHORITY_OPERATOR_COMMAND_VERSION = ''limitmark-authority-operator-v1''"

definition LIFECYCLE_REFUSAL_MESSAGES :: "string list" where
  "LIFECYCLE_REFUSAL_MESSAGES = [''operator-command'', ''operator-signature'', ''operator-command-freshness'',
     ''initialization-policy'', ''operator-environment'', ''authority-already-initialized'', ''release-rotation-policy'', ''authority-mismatch'',
     ''release-already-exists'', ''release-retention'', ''release-state'', ''receipt-capacity'', ''receipt-history'']"

definition isLifecycleRefusal :: "string \<Rightarrow> bool" where
  "isLifecycleRefusal e \<longleftrightarrow> e \<in> set LIFECYCLE_REFUSAL_MESSAGES"

record 'k crypto =
  cr_encode :: "jval \<Rightarrow> bytes"
  cr_sha256 :: "bytes \<Rightarrow> bytes"
  cr_import :: "bytes \<Rightarrow> 'k option"
  cr_verify :: "'k \<Rightarrow> bytes \<Rightarrow> bytes \<Rightarrow> bool"

text \<open>An element of a command, \<^const>\<open>None\<close> for \<^verbatim>\<open>undefined\<close>.\<close>

definition el :: "jval \<Rightarrow> nat \<Rightarrow> jval option" where
  "el v i = (case v of JArr xs \<Rightarrow> if i < length xs then Some (xs ! i) else None | _ \<Rightarrow> None)"

definition command_length :: "jval \<Rightarrow> nat" where
  "command_length v = (case v of JArr xs \<Rightarrow> length xs | _ \<Rightarrow> 0)"

definition initialize_command_ok :: "jval \<Rightarrow> bool" where
  "initialize_command_ok c \<longleftrightarrow> command_length c = 9
     \<and> (if el c 2 = Some (JStr ''production'') then el c 3 = Some (JStr ADMISSION_AUTHORITY_ID)
        else el c 2 = Some (JStr ''staging'') \<and> el c 3 = Some (JStr STAGING_ADMISSION_AUTHORITY_ID))
     \<and> str_such validRelease (el c 5) \<and> str_such validKeyId (el c 6) \<and> isSafeTime (el c 7)
     \<and> (el c 8 = Some (JBool True) \<or> el c 8 = Some (JBool False))
     \<and> \<not> (el c 2 = Some (JStr ''production'') \<and> el c 8 \<noteq> Some (JBool True))"

definition rotate_command_ok :: "jval \<Rightarrow> bool" where
  "rotate_command_ok c \<longleftrightarrow> command_length c = 12 \<and> el c 2 = Some (JStr ''production'') \<and> el c 3 = Some (JStr ADMISSION_AUTHORITY_ID)
     \<and> str_such validRelease (el c 5) \<and> str_such validRelease (el c 6) \<and> el c 5 \<noteq> el c 6 \<and> str_such validKeyId (el c 7)
     \<and> isSafeTime (el c 8) \<and> isSafeTime (el c 9) \<and> isSafeTime (el c 10)
     \<and> \<not> num_of (el c 9) \<le> num_of (el c 8) \<and> \<not> num_of (el c 9) - num_of (el c 8) > 5 * 60000 \<and> el c 11 = Some (JBool True)"

definition canonicalOperatorCommandBytes :: "'k crypto \<Rightarrow> jval \<Rightarrow> string + bytes" where
  "canonicalOperatorCommandBytes cr c =
     (if el c 0 \<noteq> Some (JStr AUTHORITY_OPERATOR_COMMAND_VERSION) \<or> el c 4 \<noteq> Some (JStr ADMISSION_POLICY_EPOCH) then Inl ''operator-command''
      else if el c 1 = Some (JStr ''initialize'') then (if initialize_command_ok c then Inr (cr_encode cr c) else Inl ''operator-command'')
      else if el c 1 = Some (JStr ''rotate-release'') then (if rotate_command_ok c then Inr (cr_encode cr c) else Inl ''operator-command'')
      else Inl ''operator-command'')"

definition validateAuthorityOperatorCommand :: "'k crypto \<Rightarrow> jval \<Rightarrow> string + unit" where
  "validateAuthorityOperatorCommand cr c = sum_bind (canonicalOperatorCommandBytes cr c) (\<lambda>_. Inr ())"

definition verifyOperatorCommand :: "'k crypto \<Rightarrow> jval \<Rightarrow> string \<Rightarrow> string \<Rightarrow> string + unit" where
  "verifyOperatorCommand cr c signature operatorPublicKey =
     sum_bind (decodeCanonicalBase64url operatorPublicKey (Some 32)) (\<lambda>raw.
     case cr_import cr raw of
       None \<Rightarrow> Inl ''DataError''
     | Some key \<Rightarrow>
         sum_bind (decodeCanonicalBase64url signature (Some 64)) (\<lambda>sig.
         sum_bind (canonicalOperatorCommandBytes cr c) (\<lambda>message.
         if \<not> cr_verify cr key sig message then Inl ''operator-signature'' else Inr ())))"

text \<open>Two lower-case hexadecimal digits for every byte.\<close>

definition hex_digit :: "nat \<Rightarrow> char" where
  "hex_digit n = (if n < 10 then char_of (48 + n) else char_of (87 + n))"

definition hex_text :: "bytes \<Rightarrow> string" where
  "hex_text b = concat (map (\<lambda>c. [hex_digit (byte_val c div 16), hex_digit (byte_val c mod 16)]) b)"

definition sha256 :: "'k crypto \<Rightarrow> bytes \<Rightarrow> string" where
  "sha256 cr b = hex_text (cr_sha256 cr b)"

definition command_digest_domain :: string where
  "command_digest_domain = ''limitmark-lifecycle-command-digest-v1'' @ [CHR 0x0A]"

definition commandDigest :: "'k crypto \<Rightarrow> jval \<Rightarrow> string + string" where
  "commandDigest cr c = sum_bind (canonicalOperatorCommandBytes cr c) (\<lambda>message. Inr (sha256 cr (command_digest_domain @ message)))"

definition str_of :: "jval option \<Rightarrow> string" where
  "str_of v = (case v of Some (JStr s) \<Rightarrow> s | _ \<Rightarrow> [])"

text \<open>The receipt of a command; \<^verbatim>\<open>sequence\<close> and \<^verbatim>\<open>appliedMs\<close> are not derived from it, and 0 here.\<close>

definition expectedCommandReceipt :: "'k crypto \<Rightarrow> jval \<Rightarrow> string \<Rightarrow> string + receipt" where
  "expectedCommandReceipt cr c operatorPublicKey =
     (let init = (el c 1 = Some (JStr ''initialize'')) in
      sum_bind (commandDigest cr c) (\<lambda>digest.
      sum_bind (decodeCanonicalBase64url operatorPublicKey (Some 32)) (\<lambda>raw.
      Inr \<lparr>rc_digest = digest, rc_version = 1, rc_operation = (if init then Initialize else RotateRelease),
        rc_environment = (if el c 2 = Some (JStr ''staging'') then Staging else Production),
        rc_authorityId = str_of (el c 3), rc_policyEpoch = str_of (el c 4), rc_keyFingerprint = sha256 cr raw, rc_sequence = 0, rc_applied = 0,
        rc_currentReleaseId = str_of (el c 5), rc_nextReleaseId = str_of (if init then el c 5 else el c 6),
        rc_nextKeyId = str_of (if init then el c 6 else el c 7), rc_activates = num_of (if init then el c 7 else el c 8),
        rc_retires = (if init then None else Some (num_of (el c 9)))\<rparr>)))"

text \<open>\<^verbatim>\<open>Math.abs(observed - value) > 5 * 60_000\<close>, where a value that is not a number compares false. The numeric value of a
  string is the argument \<open>number\<close>; the only string that gets here is the key id of a rotation command handed to the initialization.\<close>

definition stale :: "(string \<Rightarrow> int option) \<Rightarrow> int \<Rightarrow> jval option \<Rightarrow> bool" where
  "stale number seen v = (case (case v of Some (JNum n) \<Rightarrow> Some n | Some (JBool b) \<Rightarrow> Some (if b then 1 else 0) | Some JNull \<Rightarrow> Some 0
       | Some (JStr s) \<Rightarrow> number s | _ \<Rightarrow> None) of
     None \<Rightarrow> False | Some n \<Rightarrow> \<bar>seen - n\<bar> > 5 * 60000)"

text \<open>The specification in an initialization command, unless \<^verbatim>\<open>nowMs\<close> is not an integer there, which is refused as the policy.\<close>

definition initialization_of :: "jval \<Rightarrow> authority_spec option" where
  "initialization_of c = (case el c 7 of
     Some (JNum n) \<Rightarrow> Some \<lparr>as_environment = (if el c 2 = Some (JStr ''staging'') then Staging else Production), as_authorityId = str_of (el c 3),
       as_policyEpoch = str_of (el c 4), as_releaseId = str_of (el c 5), as_releaseKeyId = str_of (el c 6), as_nowMs = n,
       as_confirmProduction = (el c 8 = Some (JBool True))\<rparr>
   | _ \<Rightarrow> None)"

definition rotation_of :: "jval \<Rightarrow> rotation_input option" where
  "rotation_of c = (case (el c 8, el c 9) of
     (Some (JNum a), Some (JNum p)) \<Rightarrow> Some \<lparr>ri_authorityId = str_of (el c 3), ri_policyEpoch = str_of (el c 4), ri_currentReleaseId = str_of (el c 5),
       ri_nextReleaseId = str_of (el c 6), ri_nextKeyId = str_of (el c 7), ri_activatesAt = a, ri_previousRetiresAt = p\<rparr>
   | _ \<Rightarrow> None)"

text \<open>Authentication, receipt and preflight, the part before the final clock reading; no storage is touched.\<close>

definition prepare_command ::
  "'k crypto \<Rightarrow> jval \<Rightarrow> string \<Rightarrow> string \<Rightarrow> environment \<Rightarrow> string + unit \<Rightarrow> string + receipt" where
  "prepare_command cr c signature operatorPublicKey expectedEnvironment preflight =
     (if el c 2 \<noteq> Some (JStr (environment_name expectedEnvironment)) then Inl ''operator-environment''
      else sum_bind (verifyOperatorCommand cr c signature operatorPublicKey) (\<lambda>_.
        sum_bind (expectedCommandReceipt cr c operatorPublicKey) (\<lambda>r.
        sum_bind preflight (\<lambda>_. Inr r))))"

definition executeSignedAuthorityInitialization ::
  "'k crypto \<Rightarrow> (string \<Rightarrow> int option) \<Rightarrow> jval \<Rightarrow> string \<Rightarrow> string \<Rightarrow> environment \<Rightarrow> string + unit \<Rightarrow> int \<Rightarrow> authority_db
   \<Rightarrow> authority_db \<times> (string + lifecycle_result)" where
  "executeSignedAuthorityInitialization cr number c signature operatorPublicKey expectedEnvironment preflight seen db =
     (case prepare_command cr c signature operatorPublicKey expectedEnvironment preflight of
        Inl e \<Rightarrow> (db, Inl e)
      | Inr r \<Rightarrow>
          if \<not> is_safe_integer seen \<or> stale number seen (el c 7) then (db, Inl ''operator-command-freshness'')
          else (case initialization_of c of
              None \<Rightarrow> (createAuthoritySchema db, Inl ''initialization-policy'')
            | Some spec \<Rightarrow> initializeAuthority
                (if expectedEnvironment = Staging then STAGING_ADMISSION_AUTHORITY_ID else ADMISSION_AUTHORITY_ID) ADMISSION_POLICY_EPOCH
                spec (Some (r\<lparr>rc_applied := seen\<rparr>)) db))"

definition executeSignedAuthorityReleaseRotation ::
  "'k crypto \<Rightarrow> (string \<Rightarrow> int option) \<Rightarrow> jval \<Rightarrow> string \<Rightarrow> string \<Rightarrow> environment \<Rightarrow> string + unit \<Rightarrow> int \<Rightarrow> authority_db
   \<Rightarrow> authority_db \<times> (string + lifecycle_result)" where
  "executeSignedAuthorityReleaseRotation cr number c signature operatorPublicKey expectedEnvironment preflight seen db =
     (case prepare_command cr c signature operatorPublicKey expectedEnvironment preflight of
        Inl e \<Rightarrow> (db, Inl e)
      | Inr r \<Rightarrow>
          if \<not> is_safe_integer seen \<or> stale number seen (el c 10) \<or> stale number seen (el c 8)
          then (db, Inl ''operator-command-freshness'')
          else (case rotation_of c of
              None \<Rightarrow> (createAuthoritySchema db, Inl ''release-rotation-policy'')
            | Some i \<Rightarrow> rotateAuthorityRelease i (Some (r\<lparr>rc_applied := seen\<rparr>)) db))"

subsection \<open>Lemmas\<close>

lemma is_lower_hex_digit: "n < 16 \<Longrightarrow> is_lower_hex (hex_digit n)"
  by (auto simp: hex_digit_def is_lower_hex_def is_digit_def in_range_def)

lemma hex_text_hex64: "length b = 32 \<Longrightarrow> isLowerHex64 (hex_text b)"
proof -
  have "length (hex_text b) = 2 * length b" by (induction b) (simp_all add: hex_text_def)
  moreover have "byte_val c div 16 < 16" for c using byte_val_less [of c] by linarith
  then have "list_all is_lower_hex (hex_text b)" by (induction b) (simp_all add: hex_text_def is_lower_hex_digit)
  moreover assume "length b = 32"
  ultimately show ?thesis by (simp add: isLowerHex64_def)
qed

text \<open>A command that passed the schema.\<close>

definition command_ok :: "jval \<Rightarrow> bool" where
  "command_ok c \<longleftrightarrow> el c 0 = Some (JStr AUTHORITY_OPERATOR_COMMAND_VERSION) \<and> el c 4 = Some (JStr ADMISSION_POLICY_EPOCH)
     \<and> (el c 1 = Some (JStr ''initialize'') \<and> initialize_command_ok c \<or> el c 1 = Some (JStr ''rotate-release'') \<and> rotate_command_ok c)"

lemma canonicalOperatorCommandBytes_Inr:
  "canonicalOperatorCommandBytes cr c = Inr m \<Longrightarrow> m = cr_encode cr c \<and> command_ok c"
  by (auto simp: canonicalOperatorCommandBytes_def command_ok_def split: if_splits)

definition signed_by :: "'k crypto \<Rightarrow> jval \<Rightarrow> string \<Rightarrow> string \<Rightarrow> bool" where
  "signed_by cr c signature operatorPublicKey \<longleftrightarrow> (\<exists>raw key sig. decodeCanonicalBase64url operatorPublicKey (Some 32) = Inr raw
     \<and> cr_import cr raw = Some key \<and> decodeCanonicalBase64url signature (Some 64) = Inr sig \<and> cr_verify cr key sig (cr_encode cr c))"

lemma prepare_command_Inr:
  assumes "prepare_command cr c signature pk env preflight = Inr r"
  shows "el c 2 = Some (JStr (environment_name env)) \<and> signed_by cr c signature pk \<and> command_ok c
    \<and> expectedCommandReceipt cr c pk = Inr r \<and> preflight = Inr ()"
proof -
  have v: "el c 2 = Some (JStr (environment_name env))" "verifyOperatorCommand cr c signature pk = Inr ()"
    "expectedCommandReceipt cr c pk = Inr r" "preflight = Inr ()"
    using assms by (auto simp: prepare_command_def sum_bind_Inr_iff split: if_splits)
  from v(2) have "signed_by cr c signature pk \<and> command_ok c"
    by (auto simp: verifyOperatorCommand_def sum_bind_Inr_iff signed_by_def split: option.splits if_splits
        dest!: canonicalOperatorCommandBytes_Inr)
  then show ?thesis using v by blast
qed

lemma expectedCommandReceipt_Inr:
  assumes "expectedCommandReceipt cr c pk = Inr r"
  shows "\<exists>raw. r = \<lparr>rc_digest = sha256 cr (command_digest_domain @ cr_encode cr c), rc_version = 1,
      rc_operation = (if el c 1 = Some (JStr ''initialize'') then Initialize else RotateRelease),
      rc_environment = (if el c 2 = Some (JStr ''staging'') then Staging else Production),
      rc_authorityId = str_of (el c 3), rc_policyEpoch = str_of (el c 4), rc_keyFingerprint = sha256 cr raw, rc_sequence = 0, rc_applied = 0,
      rc_currentReleaseId = str_of (el c 5), rc_nextReleaseId = str_of (if el c 1 = Some (JStr ''initialize'') then el c 5 else el c 6),
      rc_nextKeyId = str_of (if el c 1 = Some (JStr ''initialize'') then el c 6 else el c 7),
      rc_activates = num_of (if el c 1 = Some (JStr ''initialize'') then el c 7 else el c 8),
      rc_retires = (if el c 1 = Some (JStr ''initialize'') then None else Some (num_of (el c 9)))\<rparr>"
  using assms by (auto simp: expectedCommandReceipt_def Let_def sum_bind_Inr_iff commandDigest_def dest!: canonicalOperatorCommandBytes_Inr)

lemma str_such_of: "str_such P v \<Longrightarrow> P (str_of v)"
  by (auto simp: str_such_def str_of_def split: option.splits jval.splits)

lemma isSafeTime_of: "isSafeTime v \<Longrightarrow> is_safe_time (num_of v) \<and> v = Some (JNum (num_of v))"
  by (auto simp: isSafeTime_def num_of_def is_safe_time_def split: option.splits jval.splits)

lemma str_of_Some [simp]: "str_of (Some (JStr s)) = s" by (simp add: str_of_def)

lemma stale_num [simp]: "stale number seen (Some (JNum n)) \<longleftrightarrow> \<bar>seen - n\<bar> > 5 * 60000"
  by (simp add: stale_def)

lemma env_of_command:
  assumes "el c 2 = Some (JStr (environment_name env))"
  shows "(if el c 2 = Some (JStr ''staging'') then Staging else Production) = env"
  using assms by (cases env) auto

lemma initialization_receipt:
  assumes p: "prepare_command cr c signature pk env preflight = Inr r" and i: "initialization_of c = Some spec"
    and sha: "\<And>b. length (cr_sha256 cr b) = 32" and seen: "is_safe_integer seen" "0 \<le> seen" "\<not> stale number seen (el c 7)"
  shows "command_receipt env Initialize (Some (r\<lparr>rc_applied := seen\<rparr>)) \<lparr>rr_releaseId = as_releaseId spec, rr_keyId = as_releaseKeyId spec,
      rr_activated = as_nowMs spec, rr_retired = None\<rparr> \<and> as_authorityId spec = authority_id_of env"
proof -
  note pr = prepare_command_Inr [OF p]
  have kind: "el c 1 = Some (JStr ''initialize'')" and ok: "initialize_command_ok c"
    using pr i by (auto simp: command_ok_def initialization_of_def rotate_command_ok_def str_such_def split: option.splits jval.splits)
  obtain raw where r: "r = \<lparr>rc_digest = sha256 cr (command_digest_domain @ cr_encode cr c), rc_version = 1, rc_operation = Initialize,
      rc_environment = env, rc_authorityId = str_of (el c 3), rc_policyEpoch = str_of (el c 4), rc_keyFingerprint = sha256 cr raw, rc_sequence = 0,
      rc_applied = 0, rc_currentReleaseId = str_of (el c 5), rc_nextReleaseId = str_of (el c 5), rc_nextKeyId = str_of (el c 6),
      rc_activates = num_of (el c 7), rc_retires = None\<rparr>"
    using pr expectedCommandReceipt_Inr [of cr c pk r] kind env_of_command [of c env] by auto
  have n: "is_safe_time (num_of (el c 7))" "el c 7 = Some (JNum (num_of (el c 7)))"
    using isSafeTime_of ok unfolding initialize_command_ok_def by blast+
  have "\<bar>seen - num_of (el c 7)\<bar> \<le> 5 * 60000" using seen(3) by (subst (asm) n(2)) simp
  moreover have "str_of (el c 3) = authority_id_of env" "str_of (el c 4) = ADMISSION_POLICY_EPOCH"
    using ok pr by (cases env; auto simp: initialize_command_ok_def authority_id_of_def command_ok_def)+
  moreover have "isLowerHex64 (sha256 cr b)" for b using hex_text_hex64 [OF sha] by (simp add: sha256_def)
  moreover have "spec = \<lparr>as_environment = env, as_authorityId = str_of (el c 3), as_policyEpoch = str_of (el c 4), as_releaseId = str_of (el c 5),
      as_releaseKeyId = str_of (el c 6), as_nowMs = num_of (el c 7), as_confirmProduction = (el c 8 = Some (JBool True))\<rparr>"
    using i n(2) env_of_command [of c env] pr by (auto simp: initialization_of_def split: option.splits jval.splits)
  ultimately show ?thesis using n(1) seen(1,2) ok
    by (simp add: command_receipt_def receipt_ok_def r initialize_command_ok_def str_such_of is_safe_time_def)
qed

lemma rotation_receipt:
  assumes p: "prepare_command cr c signature pk env preflight = Inr r" and i: "rotation_of c = Some rot"
    and sha: "\<And>b. length (cr_sha256 cr b) = 32" and seen: "is_safe_integer seen" "0 \<le> seen" "\<not> stale number seen (el c 8)"
  shows "command_receipt Production RotateRelease (Some (r\<lparr>rc_applied := seen\<rparr>)) \<lparr>rr_releaseId = ri_nextReleaseId rot, rr_keyId = ri_nextKeyId rot,
      rr_activated = ri_activatesAt rot, rr_retired = None\<rparr>"
proof -
  note pr = prepare_command_Inr [OF p]
  have kind: "el c 1 = Some (JStr ''rotate-release'')" and ok: "rotate_command_ok c"
    using pr i by (auto simp: command_ok_def rotation_of_def initialize_command_ok_def split: option.splits jval.splits)
  obtain raw where r: "r = \<lparr>rc_digest = sha256 cr (command_digest_domain @ cr_encode cr c), rc_version = 1, rc_operation = RotateRelease,
      rc_environment = Production, rc_authorityId = str_of (el c 3), rc_policyEpoch = str_of (el c 4), rc_keyFingerprint = sha256 cr raw, rc_sequence = 0,
      rc_applied = 0, rc_currentReleaseId = str_of (el c 5), rc_nextReleaseId = str_of (el c 6), rc_nextKeyId = str_of (el c 7),
      rc_activates = num_of (el c 8), rc_retires = Some (num_of (el c 9))\<rparr>"
    using pr expectedCommandReceipt_Inr [of cr c pk r] kind ok by (auto simp: rotate_command_ok_def)
  have n: "is_safe_time (num_of (el c 8))" "el c 8 = Some (JNum (num_of (el c 8)))" "is_safe_time (num_of (el c 9))" "el c 9 = Some (JNum (num_of (el c 9)))"
    using isSafeTime_of ok unfolding rotate_command_ok_def by blast+
  have "\<bar>seen - num_of (el c 8)\<bar> \<le> 5 * 60000" using seen(3) by (subst (asm) n(2)) simp
  moreover have "str_of (el c 3) = authority_id_of Production" "str_of (el c 4) = ADMISSION_POLICY_EPOCH"
    using ok pr by (auto simp: rotate_command_ok_def authority_id_of_def command_ok_def)
  moreover have "str_of (el c 5) \<noteq> str_of (el c 6)"
    using ok by (auto simp: rotate_command_ok_def str_such_def str_of_def split: option.splits jval.splits)
  moreover have "isLowerHex64 (sha256 cr b)" for b using hex_text_hex64 [OF sha] by (simp add: sha256_def)
  moreover have "rot = \<lparr>ri_authorityId = str_of (el c 3), ri_policyEpoch = str_of (el c 4), ri_currentReleaseId = str_of (el c 5),
       ri_nextReleaseId = str_of (el c 6), ri_nextKeyId = str_of (el c 7), ri_activatesAt = num_of (el c 8), ri_previousRetiresAt = num_of (el c 9)\<rparr>"
    using i n(2,4) by (auto simp: rotation_of_def split: option.splits jval.splits)
  ultimately show ?thesis using n(1,3) seen(1,2) ok
    by (simp add: command_receipt_def receipt_ok_def r rotate_command_ok_def str_such_of is_safe_time_def)
qed

lemma signed_initialization_inv:
  assumes "store_inv env db" "\<And>b. length (cr_sha256 cr b) = 32" "0 \<le> seen"
    and "executeSignedAuthorityInitialization cr number c signature pk env preflight seen db = (db', res)"
  shows "store_inv env db' \<and> (\<forall>st r. res = Inr (st, Some r) \<longrightarrow> r \<in> set (db_receipts db'))"
proof -
  consider "db' = db" "\<exists>e. res = Inl e" | "db' = createAuthoritySchema db" "\<exists>e. res = Inl e"
    | r spec where "prepare_command cr c signature pk env preflight = Inr r" "initialization_of c = Some spec"
      "is_safe_integer seen" "\<not> stale number seen (el c 7)"
      "initializeAuthority (authority_id_of env) ADMISSION_POLICY_EPOCH spec (Some (r\<lparr>rc_applied := seen\<rparr>)) db = (db', res)"
    using assms(4) by (auto simp: executeSignedAuthorityInitialization_def authority_id_of_def
        split: sum.splits if_splits option.splits environment.splits)
  then show ?thesis
  proof cases
    case 3
    show ?thesis
      by (rule initializeAuthority_inv [OF assms(1) 3(5) refl refl])
        (use initialization_receipt [OF 3(1,2) assms(2) 3(3) assms(3) 3(4)] in blast)
  qed (use assms(1) schema_inv in auto)
qed

lemma signed_rotation_inv:
  assumes "store_inv env db" "\<And>b. length (cr_sha256 cr b) = 32" "0 \<le> seen"
    and "executeSignedAuthorityReleaseRotation cr number c signature pk env' preflight seen db = (db', res)"
  shows "store_inv env db' \<and> (\<forall>st r. res = Inr (st, Some r) \<longrightarrow> r \<in> set (db_receipts db'))"
proof -
  consider "db' = db" "\<exists>e. res = Inl e" | "db' = createAuthoritySchema db" "\<exists>e. res = Inl e"
    | r i where "prepare_command cr c signature pk env' preflight = Inr r" "rotation_of c = Some i"
      "is_safe_integer seen" "\<not> stale number seen (el c 8)"
      "rotateAuthorityRelease i (Some (r\<lparr>rc_applied := seen\<rparr>)) db = (db', res)"
    using assms(4) by (auto simp: executeSignedAuthorityReleaseRotation_def split: sum.splits if_splits option.splits)
  then show ?thesis
  proof cases
    case 3
    show ?thesis
      by (rule rotateAuthorityRelease_inv [OF assms(1) 3(5)])
        (use rotation_receipt [OF 3(1,2) assms(2) 3(3) assms(3) 3(4)] in blast)
  qed (use assms(1) schema_inv in auto)
qed

subsection \<open>A command is applied once\<close>

lemma findReceipt_unique:
  assumes "receipts_inv env db" "r \<in> set (db_receipts db)"
  shows "findReceipt (rc_digest r) db = Inr (Some r)"
proof -
  have "distinct (map rc_digest (db_receipts db))" using assms(1) by (simp add: receipts_inv_def)
  then obtain x where x: "exactlyOne (\<lambda>x. rc_digest x = rc_digest r) (db_receipts db) = Some x"
    using exactlyOne_unique [of rc_digest "db_receipts db" "rc_digest r"] assms(2) by auto
  then have "x \<in> set (db_receipts db)" "rc_digest x = rc_digest r" using exactlyOne_Some by fastforce+
  then have "x = r" using \<open>distinct (map rc_digest (db_receipts db))\<close> assms(2) by (auto simp: distinct_map inj_on_def)
  moreover have "rc_version r = 1" using assms by (auto simp: receipts_inv_def list_all_iff receipt_ok_def)
  ultimately show ?thesis using x by (simp add: findReceipt_def)
qed

lemma findReceipt_digest: "findReceipt d db = Inr (Some r) \<Longrightarrow> rc_digest r = d"
  by (auto simp: findReceipt_def split: option.splits if_splits dest: exactlyOne_Some)

lemma insertReceipt_digest: "insertReceipt c db = Inr (db', r) \<Longrightarrow> rc_digest r = rc_digest c"
  by (auto simp: insertReceipt_def Let_def split: if_splits)

lemma initializeAuthority_digest:
  assumes "initializeAuthority aid ep spec (Some c) db = (db', Inr (st, r))"
  shows "\<exists>x. r = Some x \<and> rc_digest x = rc_digest c"
  using assms
  by (auto simp: initializeAuthority_def Let_def initialize_tx_def prior_receipt_def initialize_rows_def sum_bind_Inr_iff
      split: if_splits sum.splits option.splits dest!: findReceipt_digest insertReceipt_digest)

lemma rotateAuthorityRelease_digest:
  assumes "rotateAuthorityRelease i (Some c) db = (db', Inr (st, r))"
  shows "\<exists>x. r = Some x \<and> rc_digest x = rc_digest c"
  using assms
  by (auto simp: rotateAuthorityRelease_def Let_def rotate_tx_def prior_receipt_def rotate_rows_def sum_bind_Inr_iff
      split: if_splits sum.splits option.splits dest!: findReceipt_digest insertReceipt_digest)

text \<open>The rows of the lifecycle tables.\<close>

definition lifecycle_rows :: "authority_db \<Rightarrow> meta_row option \<times> release_row list \<times> receipt list \<times> bool" where
  "lifecycle_rows db = (db_meta db, db_releases db, db_receipts db, db_coverage db)"

lemma repeated_initialization:
  assumes "store_inv env db" "r \<in> set (db_receipts db)" "rc_digest r = rc_digest c"
    and "initializeAuthority aid ep spec (Some c) db = (db', res)"
  shows "lifecycle_rows db' = lifecycle_rows db \<and> (res = Inr (AlreadyInitialized, Some r) \<or> res = Inl ''initialization-policy'')"
proof -
  have "findReceipt (rc_digest c) (createAuthoritySchema db) = Inr (Some r)"
    using findReceipt_unique [of env "createAuthoritySchema db" r] schema_inv [OF assms(1)] assms(2,3) by (simp add: store_inv_def)
  then have "initialize_tx spec (Some c) (createAuthoritySchema db) = Inr (createAuthoritySchema db, AlreadyInitialized, Some r)"
    by (simp add: initialize_tx_def prior_receipt_def)
  then show ?thesis using assms(4)
    by (auto simp: initializeAuthority_def Let_def lifecycle_rows_def split: if_splits)
qed

lemma repeated_rotation:
  assumes "store_inv env db" "r \<in> set (db_receipts db)" "rc_digest r = rc_digest c"
    and "rotateAuthorityRelease i (Some c) db = (db', res)"
  shows "lifecycle_rows db' = lifecycle_rows db \<and> (res = Inr (AlreadyRotated, Some r) \<or> res = Inl ''release-rotation-policy'')"
proof -
  have "findReceipt (rc_digest c) (createAuthoritySchema db) = Inr (Some r)"
    using findReceipt_unique [of env "createAuthoritySchema db" r] schema_inv [OF assms(1)] assms(2,3) by (simp add: store_inv_def)
  then have "rotate_tx i (Some c) (createAuthoritySchema db) = Inr (createAuthoritySchema db, AlreadyRotated, Some r)"
    by (simp add: rotate_tx_def prior_receipt_def Let_def)
  then show ?thesis using assms(4)
    by (auto simp: rotateAuthorityRelease_def Let_def lifecycle_rows_def split: if_splits)
qed

lemma lifecycle_rows_schema [simp]: "lifecycle_rows (createAuthoritySchema db) = lifecycle_rows db"
  by (simp add: lifecycle_rows_def)

definition execute_signed ::
  "bool \<Rightarrow> 'k crypto \<Rightarrow> (string \<Rightarrow> int option) \<Rightarrow> jval \<Rightarrow> string \<Rightarrow> string \<Rightarrow> environment \<Rightarrow> string + unit \<Rightarrow> int \<Rightarrow> authority_db
   \<Rightarrow> authority_db \<times> (string + lifecycle_result)" where
  "execute_signed rotation = (if rotation then executeSignedAuthorityReleaseRotation else executeSignedAuthorityInitialization)"

text \<open>The positions of the times that must be fresh: the activation, which of an initialization is also its issue time, and the
  issue time of a rotation.\<close>

definition fresh_times :: "bool \<Rightarrow> nat list" where
  "fresh_times rotation = (if rotation then [8, 10] else [7])"

text \<open>What a command is that passed the schema and was read as an initialization or a rotation: one of the other
  operation has no number where the activation of this one stands.\<close>

lemma initialization_command:
  "prepare_command cr c signature pk env preflight = Inr r \<Longrightarrow> initialization_of c = Some spec \<Longrightarrow> el c 1 = Some (JStr ''initialize'')"
  by (drule prepare_command_Inr) (auto simp: command_ok_def initialization_of_def rotate_command_ok_def str_such_def split: option.splits jval.splits)

lemma rotation_command:
  "prepare_command cr c signature pk env preflight = Inr r \<Longrightarrow> rotation_of c = Some i \<Longrightarrow>
    el c 1 = Some (JStr ''rotate-release'') \<and> rotate_command_ok c"
  by (drule prepare_command_Inr) (auto simp: command_ok_def rotation_of_def initialize_command_ok_def split: option.splits jval.splits)

lemma rotation_times:
  assumes "prepare_command cr c signature pk env preflight = Inr r" "rotation_of c = Some i"
  shows "\<exists>n k. el c 8 = Some (JNum n) \<and> el c 10 = Some (JNum k)"
  using rotation_command [OF assms] isSafeTime_of unfolding rotate_command_ok_def by blast

text \<open>The cases of an execution.\<close>

lemma execute_signed_cases:
  assumes "execute_signed rotation cr number c signature pk env preflight seen db = (db', res)"
  obtains (refused) e where "lifecycle_rows db' = lifecycle_rows db" "db_receipts db' = db_receipts db" "res = Inl e"
  | (initialize) r spec n where "\<not> rotation" "prepare_command cr c signature pk env preflight = Inr r" "initialization_of c = Some spec"
      "is_safe_integer seen" "el c 7 = Some (JNum n)" "\<bar>seen - n\<bar> \<le> 5 * 60000"
      "initializeAuthority (authority_id_of env) ADMISSION_POLICY_EPOCH spec (Some (r\<lparr>rc_applied := seen\<rparr>)) db = (db', res)"
  | (rotate) r i n k where "rotation" "prepare_command cr c signature pk env preflight = Inr r" "rotation_of c = Some i"
      "is_safe_integer seen" "el c 8 = Some (JNum n)" "\<bar>seen - n\<bar> \<le> 5 * 60000"
      "el c 10 = Some (JNum k)" "\<bar>seen - k\<bar> \<le> 5 * 60000"
      "rotateAuthorityRelease i (Some (r\<lparr>rc_applied := seen\<rparr>)) db = (db', res)"
proof (cases rotation)
  case False
  have "initialization_of c = Some spec \<Longrightarrow> \<exists>n. el c 7 = Some (JNum n)" for spec
    by (auto simp: initialization_of_def split: option.splits jval.splits)
  then show thesis
    using assms False refused initialize
    by (fastforce simp: execute_signed_def executeSignedAuthorityInitialization_def authority_id_of_def
        split: sum.splits if_splits option.splits environment.splits)
next
  case True
  have e: "executeSignedAuthorityReleaseRotation cr number c signature pk env preflight seen db = (db', res)"
    using assms True by (simp add: execute_signed_def)
  show thesis
  proof (cases "\<exists>r i. prepare_command cr c signature pk env preflight = Inr r \<and> rotation_of c = Some i
      \<and> is_safe_integer seen \<and> \<not> stale number seen (el c 10) \<and> \<not> stale number seen (el c 8)")
    case False
    then have "\<exists>x. res = Inl x \<and> lifecycle_rows db' = lifecycle_rows db \<and> db_receipts db' = db_receipts db"
      using e by (auto simp: executeSignedAuthorityReleaseRotation_def split: sum.splits if_splits option.splits)
    then show thesis using refused by blast
  next
    case True
    then obtain r i where p: "prepare_command cr c signature pk env preflight = Inr r" "rotation_of c = Some i"
      and t: "is_safe_integer seen" "\<not> stale number seen (el c 10)" "\<not> stale number seen (el c 8)" by blast
    obtain n k where n: "el c 8 = Some (JNum n)" "el c 10 = Some (JNum k)" using rotation_times [OF p] by blast
    show thesis
      using e p t \<open>rotation\<close> n by (intro rotate [of r i n k]) (simp_all add: executeSignedAuthorityReleaseRotation_def)
  qed
qed

lemma prepare_same_digest:
  assumes "prepare_command cr c s1 pk e1 p1 = Inr r1" "prepare_command cr c s2 pk e2 p2 = Inr r2"
  shows "rc_digest r1 = rc_digest r2"
proof -
  have "expectedCommandReceipt cr c pk = Inr r1" "expectedCommandReceipt cr c pk = Inr r2"
    using prepare_command_Inr assms by blast+
  then show ?thesis by simp
qed

lemma execute_signed_inv:
  assumes "store_inv env db" "\<And>b. length (cr_sha256 cr b) = 32" "0 \<le> seen"
    and "execute_signed rotation cr number c signature pk env preflight seen db = (db', res)"
  shows "store_inv env db' \<and> (\<forall>st r. res = Inr (st, Some r) \<longrightarrow> r \<in> set (db_receipts db'))"
  using assms signed_initialization_inv [OF assms(1-3)] signed_rotation_inv [OF assms(1-3)] by (auto simp: execute_signed_def split: if_splits)

lemma execute_signed_receipt:
  assumes "execute_signed rotation cr number c signature pk env preflight seen db = (db', Inr (st, r))"
  shows "\<exists>x r0. r = Some x \<and> prepare_command cr c signature pk env preflight = Inr r0 \<and> rc_digest x = rc_digest r0"
  using assms
proof (cases rule: execute_signed_cases)
  case (initialize r0 spec n)
  then show ?thesis using initializeAuthority_digest by fastforce
next
  case (rotate r0 i n k)
  then show ?thesis using rotateAuthorityRelease_digest by fastforce
qed simp

lemma execute_signed_again:
  assumes "store_inv env db" "x \<in> set (db_receipts db)"
    and "prepare_command cr c s0 pk e0 p0 = Inr r0" "rc_digest x = rc_digest r0"
    and "execute_signed rotation cr number c signature pk env preflight seen db = (db', res)"
  shows "lifecycle_rows db' = lifecycle_rows db
    \<and> (res = Inr (if rotation then AlreadyRotated else AlreadyInitialized, Some x) \<or> (\<exists>e. res = Inl e))"
  using assms(5)
proof (cases rule: execute_signed_cases)
  case (initialize r spec n)
  have "rc_digest x = rc_digest (r\<lparr>rc_applied := seen\<rparr>)" using prepare_same_digest [OF assms(3) initialize(2)] assms(4) by simp
  from repeated_initialization [OF assms(1,2) this initialize(7)] initialize(1) show ?thesis by auto
next
  case (rotate r i n k)
  have "rc_digest x = rc_digest (r\<lparr>rc_applied := seen\<rparr>)" using prepare_same_digest [OF assms(3) rotate(2)] assms(4) by simp
  from repeated_rotation [OF assms(1,2) this rotate(9)] rotate(1) show ?thesis by auto
qed simp

subsection \<open>A sample command\<close>

definition sample_crypto :: "unit crypto" where
  "sample_crypto = \<lparr>cr_encode = (\<lambda>_. []), cr_sha256 = (\<lambda>_. replicate 32 CHR 0x00), cr_import = (\<lambda>_. Some ()), cr_verify = (\<lambda>_ _ _. True)\<rparr>"

definition sample_command :: jval where
  "sample_command = JArr [JStr AUTHORITY_OPERATOR_COMMAND_VERSION, JStr ''initialize'', JStr ''production'', JStr ADMISSION_AUTHORITY_ID,
     JStr ADMISSION_POLICY_EPOCH, JStr ''r1'', JStr ''k1'', JNum 1000, JBool True]"

definition sample_key :: string where "sample_key = b64_encode (replicate 32 CHR 0x00)"
definition sample_signature :: string where "sample_signature = b64_encode (replicate 64 CHR 0x00)"

lemma b64_sample_decodes:
  assumes "b \<noteq> []"
  shows "decodeCanonicalBase64url (b64_encode b) (Some (length b)) = Inr b"
proof -
  have "CHR ''='' \<notin> set (b64_encode b)"
    using b64_encode_alphabet [of b] by (auto simp: list_all_iff is_b64url_char_def is_alnum_def is_digit_def is_upper_def is_lower_def in_range_def)
  then show ?thesis
    using assms b64_encode_alphabet [of b] b64_encode_length [of b] by (simp add: decodeCanonicalBase64url_def Let_def)
qed

lemma sample_decodes: "decodeCanonicalBase64url sample_key (Some 32) = Inr (replicate 32 CHR 0x00)"
  "decodeCanonicalBase64url sample_signature (Some 64) = Inr (replicate 64 CHR 0x00)"
  using b64_sample_decodes [of "replicate 32 CHR 0x00"] b64_sample_decodes [of "replicate 64 CHR 0x00"]
  unfolding sample_key_def sample_signature_def by simp_all

lemma sample_command_ok: "canonicalOperatorCommandBytes sample_crypto sample_command = Inr []"
  by (simp add: canonicalOperatorCommandBytes_def sample_command_def el_def command_length_def initialize_command_ok_def sample_crypto_def
      validRelease_def validKeyId_def bounded_of_def is_release_char_def is_b64url_char_def is_alnum_def is_digit_def is_upper_def is_lower_def
      in_range_def is_safe_time_def is_safe_integer_def MAX_SAFE_INTEGER_def)

definition sample_command_receipt :: receipt where
  "sample_command_receipt = \<lparr>rc_digest = hex_text (replicate 32 CHR 0x00), rc_version = 1, rc_operation = Initialize,
     rc_environment = Production, rc_authorityId = ADMISSION_AUTHORITY_ID, rc_policyEpoch = ADMISSION_POLICY_EPOCH,
     rc_keyFingerprint = hex_text (replicate 32 CHR 0x00), rc_sequence = 0, rc_applied = 0, rc_currentReleaseId = ''r1'', rc_nextReleaseId = ''r1'',
     rc_nextKeyId = ''k1'', rc_activates = 1000, rc_retires = None\<rparr>"

lemma sample_prepared: "prepare_command sample_crypto sample_command sample_signature sample_key Production (Inr ()) = Inr sample_command_receipt"
  using sample_command_ok sample_decodes
  by (simp add: prepare_command_def verifyOperatorCommand_def expectedCommandReceipt_def commandDigest_def sample_command_receipt_def sha256_def Let_def)
    (simp add: sample_command_def el_def sample_crypto_def)

lemma sample_executed:
  "\<exists>db r. execute_signed False sample_crypto (\<lambda>_. None) sample_command sample_signature sample_key Production (Inr ()) 2000 empty_db
     = (db, Inr (Initialized, Some r))"
proof -
  have "el sample_command 7 = Some (JNum 1000)" "initialization_of sample_command = Some \<lparr>as_environment = Production,
      as_authorityId = ADMISSION_AUTHORITY_ID, as_policyEpoch = ADMISSION_POLICY_EPOCH, as_releaseId = ''r1'', as_releaseKeyId = ''k1'', as_nowMs = 1000,
      as_confirmProduction = True\<rparr>"
    by (simp_all add: sample_command_def el_def initialization_of_def)
  then show ?thesis
    by (simp add: execute_signed_def executeSignedAuthorityInitialization_def sample_prepared initializeAuthority_def Let_def
        initialize_tx_def initialize_rows_def prior_receipt_def findReceipt_def exactlyOne_def ensureNewReceiptCapacity_def guard_def
        insert_release_def insertReceipt_def next_sequence_def empty_db_def LIFECYCLE_RECEIPT_CAPACITY_def sample_command_receipt_def
        validRelease_def validKeyId_def bounded_of_def is_release_char_def is_b64url_char_def is_alnum_def is_digit_def is_upper_def is_lower_def
        in_range_def is_safe_integer_def MAX_SAFE_INTEGER_def)
qed

subsection \<open>Properties\<close>

text \<open>C19. Nothing of the lifecycle tables changes unless the command is well formed for the operation that was executed (the
  version, the schema of an initialization or of a rotation), carries a signature that verifies under the operator key over its
  canonical bytes, names this environment, passed the preflight, and is fresh: the final clock reading is a safe integer within five
  minutes of the activation of the command, and of its issue time too when it is a rotation.\<close>

theorem lifecycle_change_is_signed:
  assumes "execute_signed rotation cr number c signature pk env preflight seen db = (db', res)"
    and "lifecycle_rows db' \<noteq> lifecycle_rows db"
  shows "signed_by cr c signature pk \<and> command_ok c
    \<and> el c 1 = Some (JStr (if rotation then ''rotate-release'' else ''initialize''))
    \<and> el c 2 = Some (JStr (environment_name env)) \<and> preflight = Inr () \<and> is_safe_integer seen
    \<and> (\<forall>i \<in> set (fresh_times rotation). \<exists>n. el c i = Some (JNum n) \<and> \<bar>seen - n\<bar> \<le> 5 * 60000)"
  using assms(1)
proof (cases rule: execute_signed_cases)
  case (initialize r spec n)
  then show ?thesis
    using prepare_command_Inr [OF initialize(2)] initialization_command [OF initialize(2,3)] by (simp add: fresh_times_def)
next
  case (rotate r i n k)
  then show ?thesis
    using prepare_command_Inr [OF rotate(2)] rotation_command [OF rotate(2,3)] by (simp add: fresh_times_def)
qed (use assms(2) in simp)

theorem lifecycle_change_is_signed_witness:
  "\<exists>db r. execute_signed False sample_crypto (\<lambda>_. None) sample_command sample_signature sample_key Production (Inr ()) 2000 empty_db
     = (db, Inr (Initialized, Some r)) \<and> lifecycle_rows db \<noteq> lifecycle_rows empty_db
     \<and> signed_by sample_crypto sample_command sample_signature sample_key \<and> command_ok sample_command"
proof -
  obtain db r where e: "execute_signed False sample_crypto (\<lambda>_. None) sample_command sample_signature sample_key Production (Inr ()) 2000 empty_db
     = (db, Inr (Initialized, Some r))" using sample_executed by blast
  have "r \<in> set (db_receipts db)"
    using execute_signed_inv [OF empty_db_inv _ _ e] by (simp add: sample_crypto_def)
  then have ne: "lifecycle_rows db \<noteq> lifecycle_rows empty_db" by (auto simp: lifecycle_rows_def empty_db_def)
  show ?thesis using e ne lifecycle_change_is_signed [OF e ne] by blast
qed

text \<open>A command is applied at most once: after an execution that succeeded, any later execution of the same command, however signed
  and whatever was applied in between, leaves the lifecycle tables as they are, and answers with the same receipt or an error.\<close>

theorem command_is_applied_once:
  assumes "store_inv env db" "\<And>b. length (cr_sha256 cr b) = 32" "0 \<le> seen"
    and "execute_signed rotation cr number c signature pk env preflight seen db = (db1, Inr (st, r))"
    and "store_inv env db2" "set (db_receipts db1) \<subseteq> set (db_receipts db2)"
    and "execute_signed rotation' cr number c signature' pk env preflight' seen' db2 = (db3, res)"
  shows "lifecycle_rows db3 = lifecycle_rows db2
    \<and> (res = Inr (if rotation' then AlreadyRotated else AlreadyInitialized, r) \<or> (\<exists>e. res = Inl e))"
proof -
  from execute_signed_receipt [OF assms(4)] obtain x r0 where
    x: "r = Some x" "prepare_command cr c signature pk env preflight = Inr r0" "rc_digest x = rc_digest r0" by blast
  have "x \<in> set (db_receipts db2)" using execute_signed_inv [OF assms(1-4)] x(1) assms(6) by auto
  from execute_signed_again [OF assms(5) this x(2,3) assms(7)] x(1) show ?thesis by simp
qed

theorem command_is_applied_once_witness:
  "\<exists>db1 r db3 res. execute_signed False sample_crypto (\<lambda>_. None) sample_command sample_signature sample_key Production (Inr ()) 2000 empty_db
       = (db1, Inr (Initialized, Some r))
     \<and> execute_signed False sample_crypto (\<lambda>_. None) sample_command sample_signature sample_key Production (Inr ()) 3000 db1 = (db3, res)
     \<and> lifecycle_rows db3 = lifecycle_rows db1"
proof -
  obtain db1 r where e: "execute_signed False sample_crypto (\<lambda>_. None) sample_command sample_signature sample_key Production (Inr ()) 2000 empty_db
     = (db1, Inr (Initialized, Some r))" using sample_executed by blast
  have sha: "length (cr_sha256 sample_crypto b) = 32" for b by (simp add: sample_crypto_def)
  have inv: "store_inv Production db1" using execute_signed_inv [OF empty_db_inv sha _ e] by simp
  obtain db3 res where e2: "execute_signed False sample_crypto (\<lambda>_. None) sample_command sample_signature sample_key Production (Inr ()) 3000 db1 = (db3, res)"
    by fastforce
  show ?thesis using e e2 command_is_applied_once [OF empty_db_inv sha _ e inv _ e2] by auto
qed

end
