(* ===== verification/Ed25519_Keys.thy ===== *)
theory Ed25519_Keys
  imports Authority_Store "HOL-Library.Word"
begin

unbundle bit_operations_syntax

text \<open>
  The Ed25519 public-key check of \<^verbatim>\<open>src/lib/authority-result-attestation.ts\<close>: arithmetic modulo the field
  prime, decoding of a compressed point, scalar multiplication in extended coordinates, and \<^verbatim>\<open>assertSafeEd25519PublicKey\<close>.

  A \<^verbatim>\<open>bigint\<close> is an \<^typ>\<open>int\<close>; the operator \<^verbatim>\<open>%\<close> truncates towards zero (\<open>js_rem\<close>). The loops run while the remaining
  exponent or scalar is positive, and terminate because it is halved.

  The theorems: \<open>power_p\<close> is modular exponentiation; a decoded point has exactly one encoding, so no two keys decode to the same
  point; and every encoding, canonical or not, of the points of order 1, 2 and 4 is refused. That the field prime is prime is not used anywhere.
\<close>

subsection \<open>Field arithmetic\<close>

definition FIELD_P :: int where "FIELD_P = push_bit 255 1 - 19"
definition GROUP_ORDER_L :: int where "GROUP_ORDER_L = push_bit 252 1 + 27742317777372353535851937790883648493"

definition js_rem :: "int \<Rightarrow> int \<Rightarrow> int" where
  "js_rem a b = sgn a * (\<bar>a\<bar> mod \<bar>b\<bar>)"

definition mod_p :: "int \<Rightarrow> int" where
  "mod_p value = js_rem (js_rem value FIELD_P + FIELD_P) FIELD_P"

function power_loop :: "int \<Rightarrow> int \<Rightarrow> int \<Rightarrow> int" where
  "power_loop result square remaining =
     (if remaining > 0
      then power_loop (if remaining AND 1 \<noteq> 0 then mod_p (result * square) else result) (mod_p (square * square)) (drop_bit 1 remaining)
      else result)"
  by auto
termination by (relation "measure (\<lambda>(_, _, e). nat e)") (auto simp: drop_bit_eq_div)

definition power_p :: "int \<Rightarrow> int \<Rightarrow> int" where
  "power_p base exponent = power_loop 1 (mod_p base) exponent"

definition invert :: "int \<Rightarrow> int" where "invert value = power_p value (FIELD_P - 2)"

definition CURVE_D :: int where "CURVE_D = mod_p (-121665 * invert 121666)"
definition SQRT_MINUS_ONE :: int where "SQRT_MINUS_ONE = power_p 2 ((FIELD_P - 1) div 4)"

subsection \<open>Points\<close>

type_synonym extended_point = "int \<times> int \<times> int \<times> int"

definition IDENTITY :: extended_point where "IDENTITY = (0, 1, 1, 0)"

fun addPoints :: "extended_point \<Rightarrow> extended_point \<Rightarrow> extended_point" where
  "addPoints (a0, a1, a2, a3) (b0, b1, b2, b3) =
     (let left = mod_p ((a1 - a0) * (b1 - b0));
          right = mod_p ((a1 + a0) * (b1 + b0));
          c = mod_p (a3 * 2 * CURVE_D * b3);
          d = mod_p (a2 * 2 * b2);
          e = right - left; f = d - c; g = d + c; h = right + left
      in (mod_p (e * f), mod_p (g * h), mod_p (f * g), mod_p (e * h)))"

function multiply_loop :: "extended_point \<Rightarrow> extended_point \<Rightarrow> int \<Rightarrow> extended_point" where
  "multiply_loop result addend remaining =
     (if remaining > 0
      then multiply_loop (if remaining AND 1 \<noteq> 0 then addPoints result addend else result) (addPoints addend addend) (drop_bit 1 remaining)
      else result)"
  by auto
termination by (relation "measure (\<lambda>(_, _, e). nat e)") (auto simp: drop_bit_eq_div)

definition multiplyPoint :: "extended_point \<Rightarrow> int \<Rightarrow> extended_point" where
  "multiplyPoint point scalar = multiply_loop IDENTITY point scalar"

fun isIdentityPoint :: "extended_point \<Rightarrow> bool" where
  "isIdentityPoint (x, y, z, t) \<longleftrightarrow> x = 0 \<and> y = z"

text \<open>The little-endian value of the bytes.\<close>

definition raw_value :: "bytes \<Rightarrow> int" where
  "raw_value raw = foldl (\<lambda>value c. push_bit 8 value OR int (byte_val c)) 0 (rev raw)"

definition recoverPoint :: "int \<Rightarrow> int \<Rightarrow> extended_point option" where
  "recoverPoint y sign =
     (if y \<ge> FIELD_P then None
      else let y2 = mod_p (y * y);
               x2 = mod_p ((y2 - 1) * invert (mod_p (CURVE_D * y2 + 1)));
               x0 = power_p x2 ((FIELD_P + 3) div 8);
               x1 = (if mod_p (x0 * x0) \<noteq> x2 then mod_p (x0 * SQRT_MINUS_ONE) else x0) in
        if mod_p (x1 * x1) \<noteq> x2 then None
        else if x1 = 0 \<and> sign = 1 then None
        else let x = (if x1 AND 1 \<noteq> sign then mod_p (- x1) else x1) in Some (x, y, 1, mod_p (x * y)))"

definition decodeCurvePoint :: "bytes \<Rightarrow> extended_point option" where
  "decodeCurvePoint raw =
     (let value = raw_value raw in recoverPoint (value AND (push_bit 255 1 - 1)) (drop_bit 255 value))"

definition assertSafeEd25519PublicKey :: "bytes \<Rightarrow> string + unit" where
  "assertSafeEd25519PublicKey raw =
     (case (if length raw = 32 then decodeCurvePoint raw else None) of
        None \<Rightarrow> Inl ''attestation-key-material''
      | Some point \<Rightarrow>
          if isIdentityPoint point \<or> \<not> isIdentityPoint (multiplyPoint point GROUP_ORDER_L) then Inl ''attestation-key-material''
          else Inr ())"

declare power_loop.simps [simp del] multiply_loop.simps [simp del]

subsection \<open>Modular exponentiation\<close>

lemma FIELD_P_pos [simp]: "0 < FIELD_P" "FIELD_P \<noteq> 0" "1 < FIELD_P"
  by (simp_all add: FIELD_P_def push_bit_eq_mult)

lemma abs_FIELD_P [simp]: "\<bar>FIELD_P\<bar> = FIELD_P"
  by (simp add: abs_of_pos)

lemma mod_p_eq [simp]: "mod_p v = v mod FIELD_P"
proof -
  have bound: "0 \<le> \<bar>v\<bar> mod FIELD_P" "\<bar>v\<bar> mod FIELD_P < FIELD_P" by simp_all
  then have pos: "js_rem v FIELD_P + FIELD_P > 0" using FIELD_P_pos(1) by (auto simp: js_rem_def sgn_if intro: add_nonneg_pos)
  then have "mod_p v = (js_rem v FIELD_P + FIELD_P) mod FIELD_P" by (simp add: mod_p_def js_rem_def [of "js_rem v FIELD_P + FIELD_P"])
  also have "\<dots> = js_rem v FIELD_P mod FIELD_P" by simp
  also have "\<dots> = v mod FIELD_P"
    by (cases "v < 0") (auto simp: js_rem_def sgn_if mod_minus_eq)
  finally show ?thesis .
qed

lemma and_one_int: "(n::int) AND 1 = n mod 2"
  by (simp add: and_one_eq)

lemma power_loop_eq:
  "0 \<le> r \<Longrightarrow> r < FIELD_P \<Longrightarrow> power_loop r s e = r * s ^ nat e mod FIELD_P"
proof (induction r s e rule: power_loop.induct)
  case (1 r s e)
  show ?case
  proof (cases "e > 0")
    case True
    let ?r = "if e AND 1 \<noteq> 0 then mod_p (r * s) else r"
    have "0 \<le> ?r" "?r < FIELD_P" using 1(2,3) by auto
    note ih = 1(1) [OF True this]
    have half: "nat e = (if e mod 2 = 0 then 0 else 1) + 2 * nat (e div 2)" using True by (simp add: nat_eq_iff) presburger
    have pow: "s ^ nat e = (if e mod 2 = 0 then 1 else s) * (s * s) ^ nat (e div 2)"
      by (subst half) (simp add: power_add power_mult power2_eq_square)
    have "?r * ((s * s) mod FIELD_P) ^ nat (e div 2) mod FIELD_P = ?r * ((s * s) ^ nat (e div 2)) mod FIELD_P"
      by (metis mod_mult_right_eq power_mod)
    also have "\<dots> = r * s ^ nat e mod FIELD_P"
      by (auto simp: and_one_int pow mult.assoc mod_mult_left_eq)
    finally have step: "?r * ((s * s) mod FIELD_P) ^ nat (e div 2) mod FIELD_P = r * s ^ nat e mod FIELD_P" .
    show ?thesis using True ih step by (subst power_loop.simps) (simp add: drop_bit_eq_div)
  next
    case False
    then show ?thesis using 1(2,3) by (subst power_loop.simps) simp
  qed
qed

lemma power_eq: "power_p b e = b ^ nat e mod FIELD_P"
  by (simp add: power_p_def power_loop_eq power_mod)

subsection \<open>Compressed points\<close>

text \<open>The value of the bytes and the bytes of a value.\<close>

primrec le_value :: "bytes \<Rightarrow> int" where
  "le_value [] = 0"
| "le_value (c # cs) = int (byte_val c) + 256 * le_value cs"

primrec le_bytes :: "nat \<Rightarrow> int \<Rightarrow> bytes" where
  "le_bytes 0 v = []"
| "le_bytes (Suc n) v = char_of (nat (v mod 256)) # le_bytes n (v div 256)"

definition encodePoint :: "int \<Rightarrow> int \<Rightarrow> bytes" where
  "encodePoint x y = le_bytes 32 (y + 2 ^ 255 * (x mod 2))"

lemma shift_or_byte: "0 \<le> b \<Longrightarrow> b < 256 \<Longrightarrow> push_bit 8 v OR b = 256 * v + (b::int)"
proof -
  assume b: "0 \<le> b" "b < 256"
  then have "b = take_bit 8 b" by (simp add: take_bit_eq_mod)
  then have small: "n < 8" if "bit b n" for n using that by (metis bit_take_bit_iff)
  have "push_bit 8 v AND b = 0" by (intro bit_eqI) (auto simp: bit_and_iff bit_push_bit_iff dest: small)
  then have "push_bit 8 v + b = push_bit 8 v OR b" by (rule disjunctive_add_eq_or)
  then show ?thesis by (simp add: push_bit_eq_mult mult.commute)
qed

lemma raw_value_eq: "raw_value raw = le_value raw"
  by (induction raw) (simp_all add: raw_value_def shift_or_byte)

lemma le_value_range: "0 \<le> le_value raw" "le_value raw < 256 ^ length raw"
proof (induction raw)
  case (Cons c cs)
  have c: "int (byte_val c) < 256" using byte_val_less [of c] by linarith
  case 1 show ?case using Cons by simp
  case 2
  have "int (byte_val c) + 256 * le_value cs < 256 * 256 ^ length cs" using Cons(2) c by linarith
  then show ?case by simp
qed simp_all

lemma le_bytes_value: "le_bytes (length raw) (le_value raw) = raw"
proof (induction raw)
  case (Cons c cs)
  have "int (byte_val c) < 256" using byte_val_less [of c] by linarith
  then have "(int (byte_val c) + 256 * le_value cs) mod 256 = int (byte_val c)" "(int (byte_val c) + 256 * le_value cs) div 256 = le_value cs"
    by simp_all
  then show ?case using Cons by simp
qed simp

lemma le_value_bytes: "le_value (le_bytes n v) = v mod 256 ^ n"
proof (induction n arbitrary: v)
  case (Suc n)
  have "int (byte_val (char_of (nat (v mod 256)))) = v mod 256" by (simp add: nat_less_iff)
  then show ?case using Suc by (simp add: zmod_zmult2_eq)
qed simp

lemma recovered:
  assumes "recoverPoint y sign = Some (x, y', z, t)" "sign = 0 \<or> sign = 1" "0 \<le> y"
  shows "y' = y" "y < FIELD_P" "z = 1" "t = x * y mod FIELD_P" "0 \<le> x" "x < FIELD_P" "x mod 2 = sign"
    "x * x mod FIELD_P = (y * y mod FIELD_P - 1) * invert ((CURVE_D * (y * y mod FIELD_P) + 1) mod FIELD_P) mod FIELD_P"
proof -
  define x2 where "x2 = (y * y mod FIELD_P - 1) * invert ((CURVE_D * (y * y mod FIELD_P) + 1) mod FIELD_P) mod FIELD_P"
  define x0 where "x0 = power_p x2 ((FIELD_P + 3) div 8)"
  define x1 where "x1 = (if x0 * x0 mod FIELD_P \<noteq> x2 then x0 * SQRT_MINUS_ONE mod FIELD_P else x0)"
  have r: "y' = y" "y < FIELD_P" "z = 1" "t = x * y mod FIELD_P" "x1 * x1 mod FIELD_P = x2" "\<not> (x1 = 0 \<and> sign = 1)"
    "x = (if x1 mod 2 \<noteq> sign then (- x1) mod FIELD_P else x1)"
    using assms(1) unfolding recoverPoint_def Let_def mod_p_eq and_one_int x2_def [symmetric] x0_def [symmetric] x1_def [symmetric]
    by (auto split: if_split_asm)
  have x1: "0 \<le> x1" "x1 < FIELD_P" by (simp_all add: x1_def x0_def power_eq)
  show "y' = y" "y < FIELD_P" "z = 1" "t = x * y mod FIELD_P" using r by simp_all
  have neg: "(- x1) mod FIELD_P = FIELD_P - x1" if "x1 \<noteq> 0" using x1 that by (simp add: zmod_zminus1_eq_if)
  show "0 \<le> x" "x < FIELD_P" using r(7) x1 by simp_all
  have "FIELD_P mod 2 = 1" by (simp add: FIELD_P_def push_bit_eq_mult)
  then have "(FIELD_P - x1) mod 2 = 1 - x1 mod 2" by presburger
  then show "x mod 2 = sign" using r(6,7) neg assms(2) by (cases "x1 = 0") auto
  have "(- x1) mod FIELD_P * ((- x1) mod FIELD_P) mod FIELD_P = x1 * x1 mod FIELD_P" by (simp add: mod_mult_eq)
  then show "x * x mod FIELD_P = (y * y mod FIELD_P - 1) * invert ((CURVE_D * (y * y mod FIELD_P) + 1) mod FIELD_P) mod FIELD_P"
    using r(5,7) unfolding x2_def [symmetric] by (simp split: if_split_asm)
qed

lemma decodeCurvePoint_eq: "decodeCurvePoint raw = recoverPoint (le_value raw mod 2 ^ 255) (le_value raw div 2 ^ 255)"
proof -
  have "a AND (push_bit 255 1 - 1) = a mod 2 ^ 255" for a :: int
    by (metis take_bit_eq_mask take_bit_eq_mod mask_eq_exp_minus_1 push_bit_of_1)
  then show ?thesis by (simp add: decodeCurvePoint_def Let_def raw_value_eq drop_bit_eq_div)
qed

lemma length_le_bytes [simp]: "length (le_bytes n v) = n"
  by (induction n arbitrary: v) simp_all

lemma half_range: "0 \<le> v \<Longrightarrow> v < 2 * m \<Longrightarrow> v div m = 0 \<or> v div m = (1::int)"
proof -
  assume v: "0 \<le> v" "v < 2 * m"
  have "\<not> 2 \<le> v div m"
  proof
    assume "2 \<le> v div m"
    then have "2 * m \<le> (v div m) * m" using v by (intro mult_right_mono) simp_all
    also have "\<dots> \<le> v" using v by (simp add: minus_mod_eq_div_mult [symmetric])
    finally show False using v by simp
  qed
  moreover have "0 \<le> v div m" using v by (simp add: pos_imp_zdiv_nonneg_iff)
  ultimately show ?thesis by linarith
qed

lemma sign_range: "length raw = 32 \<Longrightarrow> le_value raw div 2 ^ 255 = 0 \<or> le_value raw div 2 ^ 255 = 1"
  using le_value_range [of raw] by (intro half_range) simp_all

lemma decoded_key:
  assumes "decodeCurvePoint raw = Some (x, y, z, t)" "length raw = 32"
  shows "raw = encodePoint x y" "0 \<le> x" "x < FIELD_P" "0 \<le> y" "y < FIELD_P" "z = 1" "t = x * y mod FIELD_P"
    "x * x mod FIELD_P = (y * y mod FIELD_P - 1) * invert ((CURVE_D * (y * y mod FIELD_P) + 1) mod FIELD_P) mod FIELD_P"
proof -
  have "0 \<le> le_value raw mod 2 ^ 255" by simp
  note r = recovered [OF assms(1) [unfolded decodeCurvePoint_eq] sign_range [OF assms(2)] this]
  have "le_value raw = y + 2 ^ 255 * (x mod 2)" unfolding r(1,7) by simp
  then show "raw = encodePoint x y" using le_bytes_value [of raw] assms(2) by (simp add: encodePoint_def)
  show "0 \<le> x" "x < FIELD_P" "z = 1" by (fact r)+
  show "0 \<le> y" "y < FIELD_P" "t = x * y mod FIELD_P" using r(2,4) unfolding r(1) by simp_all
  show "x * x mod FIELD_P = (y * y mod FIELD_P - 1) * invert ((CURVE_D * (y * y mod FIELD_P) + 1) mod FIELD_P) mod FIELD_P"
    unfolding r(1) by (fact r(8))
qed

subsection \<open>Points of order 1, 2 and 4\<close>

text \<open>The point \<open>k\<close> times a point of order 4 with \<open>x = i\<close>, in extended coordinates with the scale \<open>u\<close>.\<close>

definition quarter_x :: "int \<Rightarrow> nat \<Rightarrow> int" where
  "quarter_x i k = (if k mod 4 = 1 then i else if k mod 4 = 3 then - i else 0)"
definition quarter_y :: "nat \<Rightarrow> int" where
  "quarter_y k = (if k mod 4 = 0 then 1 else if k mod 4 = 2 then - 1 else 0)"

definition quarter_point :: "int \<Rightarrow> nat \<Rightarrow> extended_point \<Rightarrow> bool" where
  "quarter_point i k p \<longleftrightarrow> (\<exists>u. coprime u FIELD_P
     \<and> p = (u * quarter_x i k mod FIELD_P, u * quarter_y k mod FIELD_P, u mod FIELD_P, 0))"


lemma coprime_2_P: "coprime 2 FIELD_P"
proof -
  have "FIELD_P = 2 * (2 ^ 254 - 10) + 1" by (simp add: FIELD_P_def push_bit_eq_mult)
  then have "odd FIELD_P" by presburger
  then show ?thesis by simp
qed

lemma quarter_identity: "quarter_point i 0 IDENTITY"
  unfolding quarter_point_def IDENTITY_def by (rule exI [of _ 1]) (simp add: quarter_x_def quarter_y_def)

lemma mod_4_cases: "(k::nat) mod 4 = 0 \<or> k mod 4 = 1 \<or> k mod 4 = 2 \<or> k mod 4 = 3"
  by presburger

lemma mod_4_add: "(j + k) mod 4 = (j mod 4 + k mod 4) mod (4::nat)"
  by presburger

lemma quarter_x_add: "quarter_x i (j + k) = quarter_x i j * quarter_y k + quarter_x i k * quarter_y j"
  using mod_4_cases [of j] mod_4_cases [of k] unfolding quarter_x_def quarter_y_def mod_4_add [of j k] by (elim disjE) simp_all

lemma quarter_y_add:
  assumes "i * i mod FIELD_P = - 1 mod FIELD_P \<or> even j \<and> even k"
  shows "quarter_y (j + k) mod FIELD_P = (quarter_x i j * quarter_x i k + quarter_y j * quarter_y k) mod FIELD_P"
  using assms
proof
  assume i: "i * i mod FIELD_P = - 1 mod FIELD_P"
  then have "(- (i * i)) mod FIELD_P = 1 mod FIELD_P" by (metis minus_minus mod_minus_eq)
  then show ?thesis using i mod_4_cases [of j] mod_4_cases [of k]
    unfolding quarter_x_def quarter_y_def mod_4_add [of j k] by (elim disjE) simp_all
next
  assume "even j \<and> even k"
  then have "j mod 4 = 0 \<or> j mod 4 = 2" "k mod 4 = 0 \<or> k mod 4 = 2" by presburger+
  then show ?thesis unfolding quarter_x_def quarter_y_def mod_4_add [of j k] by (elim disjE) simp_all
qed

lemma quarter_xy: "quarter_x i j * quarter_y j = 0"
  by (simp add: quarter_x_def quarter_y_def)

text \<open>Addition of such points adds their numbers.\<close>

lemma addPoints_mod:
  "addPoints (a0 mod FIELD_P, a1 mod FIELD_P, a2 mod FIELD_P, 0) (b0 mod FIELD_P, b1 mod FIELD_P, b2 mod FIELD_P, 0)
   = (4 * (a0 * b1 + b0 * a1) * (a2 * b2) mod FIELD_P, 4 * (a0 * b0 + a1 * b1) * (a2 * b2) mod FIELD_P, 4 * (a2 * b2) * (a2 * b2) mod FIELD_P,
      4 * (a0 * b1 + b0 * a1) * (a0 * b0 + a1 * b1) mod FIELD_P)"
proof -
  define le ri d where "le = (a1 - a0) * (b1 - b0)" and "ri = (a1 + a0) * (b1 + b0)" and "d = 2 * (a2 * b2)"
  define le' ri' d' where "le' = (a1 mod FIELD_P - a0 mod FIELD_P) * (b1 mod FIELD_P - b0 mod FIELD_P) mod FIELD_P"
    and "ri' = (a1 mod FIELD_P + a0 mod FIELD_P) * (b1 mod FIELD_P + b0 mod FIELD_P) mod FIELD_P"
    and "d' = (a2 mod FIELD_P * 2 * (b2 mod FIELD_P)) mod FIELD_P"
  have l: "le' mod FIELD_P = le mod FIELD_P" unfolding le_def le'_def mod_mod_trivial by (intro mod_mult_cong mod_diff_cong mod_mod_trivial)
  have r: "ri' mod FIELD_P = ri mod FIELD_P" unfolding ri_def ri'_def mod_mod_trivial by (intro mod_mult_cong mod_add_cong mod_mod_trivial)
  have "d' mod FIELD_P = (a2 * 2 * b2) mod FIELD_P" unfolding d'_def mod_mod_trivial by (intro mod_mult_cong mod_mod_trivial refl)
  then have d: "d' mod FIELD_P = d mod FIELD_P" by (simp add: d_def ac_simps)
  note e = mod_diff_cong [OF r l] and h = mod_add_cong [OF r l]
  have ring: "ri - le = 2 * (a0 * b1 + b0 * a1)" "ri + le = 2 * (a0 * b0 + a1 * b1)" by (simp_all add: ri_def le_def algebra_simps)
  have twice: "(2 * m) * (2 * n) = 4 * m * (n::int)" for m n by simp
  have products: "(ri - le) * d = 4 * (a0 * b1 + b0 * a1) * (a2 * b2)" "d * (ri + le) = 4 * (a0 * b0 + a1 * b1) * (a2 * b2)"
    "d * d = 4 * (a2 * b2) * (a2 * b2)" "(ri - le) * (ri + le) = 4 * (a0 * b1 + b0 * a1) * (a0 * b0 + a1 * b1)"
    unfolding ring d_def twice by (simp_all only: mult.commute [of "4 * (a2 * b2)"] mult.assoc) (simp only: mult.left_commute mult.commute)
  have "addPoints (a0 mod FIELD_P, a1 mod FIELD_P, a2 mod FIELD_P, 0) (b0 mod FIELD_P, b1 mod FIELD_P, b2 mod FIELD_P, 0)
    = ((ri' - le') * d' mod FIELD_P, d' * (ri' + le') mod FIELD_P, d' * d' mod FIELD_P, (ri' - le') * (ri' + le') mod FIELD_P)"
    unfolding addPoints.simps Let_def mod_p_eq le'_def ri'_def d'_def by simp
  also have "\<dots> = ((ri - le) * d mod FIELD_P, d * (ri + le) mod FIELD_P, d * d mod FIELD_P, (ri - le) * (ri + le) mod FIELD_P)"
    unfolding mod_mult_cong [OF e d] mod_mult_cong [OF d h] mod_mult_cong [OF d d] mod_mult_cong [OF e h] ..
  finally show ?thesis unfolding products .
qed

lemma four_ring:
  fixes u v a s :: int
  shows "4 * (u * v * a) * (u * v) = 2 * 2 * (u * u) * (v * v) * a" "4 * (u * v) * (u * v) = 2 * 2 * (u * u) * (v * v)"
    "4 * (u * v * a) * (u * v * s) = 2 * 2 * (u * u) * (v * v) * a * s"
  by (simp_all add: ac_simps)

lemma add_quarter:
  assumes "quarter_point i j p" "quarter_point i k q" "i * i mod FIELD_P = - 1 mod FIELD_P \<or> even j \<and> even k"
  shows "quarter_point i (j + k) (addPoints p q)"
proof -
  obtain u v where u: "coprime u FIELD_P" "p = (u * quarter_x i j mod FIELD_P, u * quarter_y j mod FIELD_P, u mod FIELD_P, 0)"
    and v: "coprime v FIELD_P" "q = (v * quarter_x i k mod FIELD_P, v * quarter_y k mod FIELD_P, v mod FIELD_P, 0)"
    using assms(1,2) by (auto simp: quarter_point_def)
  let ?w = "2 * 2 * (u * u) * (v * v)"
  let ?s = "quarter_x i j * quarter_x i k + quarter_y j * quarter_y k"
  have w: "coprime ?w FIELD_P" using u(1) v(1) coprime_2_P by (simp only: coprime_mult_left_iff)
  have y: "?w * ?s mod FIELD_P = ?w * quarter_y (j + k) mod FIELD_P" by (metis mod_mult_right_eq quarter_y_add [OF assms(3)])
  have "?w * quarter_x i (j + k) * ?s mod FIELD_P = ?w * quarter_x i (j + k) * quarter_y (j + k) mod FIELD_P"
    by (rule mod_mult_cong [OF refl quarter_y_add [OF assms(3), symmetric]])
  also have "\<dots> = 0" by (simp only: mult.assoc quarter_xy mult_zero_right mod_0)
  finally have t: "?w * quarter_x i (j + k) * ?s mod FIELD_P = 0" .
  let ?x = "u * quarter_x i j * (v * quarter_y k) + v * quarter_x i k * (u * quarter_y j)"
  let ?y = "u * quarter_x i j * (v * quarter_x i k) + u * quarter_y j * (v * quarter_y k)"
  have xy: "?x = u * v * quarter_x i (j + k)" "?y = u * v * ?s" by (simp_all add: quarter_x_add algebra_simps)
  have "addPoints p q = (?w * quarter_x i (j + k) mod FIELD_P, ?w * quarter_y (j + k) mod FIELD_P, ?w mod FIELD_P, 0)"
    unfolding u(2) v(2) addPoints_mod xy four_ring using t y by simp
  then show ?thesis unfolding quarter_point_def using w by blast
qed

lemma multiply_loop_quarter:
  shows "i * i mod FIELD_P = - 1 mod FIELD_P \<or> even a \<and> even k \<Longrightarrow> quarter_point i a r \<Longrightarrow> quarter_point i k p \<Longrightarrow> quarter_point i (a + k * nat e) (multiply_loop r p e)"
proof (induction r p e arbitrary: a k rule: multiply_loop.induct)
  case (1 r p e)
  show ?case
  proof (cases "e > 0")
    case True
    define odd where "odd = (if e AND 1 \<noteq> 0 then 1 else (0::nat))"
    have "quarter_point i (a + k * odd) (if e AND 1 \<noteq> 0 then addPoints r p else r)"
      using 1(2,3) add_quarter [OF 1(3,4)] by (auto simp: odd_def)
    from 1(1) [OF True _ this add_quarter [OF 1(4) 1(4)]]
    have "quarter_point i (a + k * odd + (k + k) * nat (drop_bit 1 e)) (multiply_loop r p e)"
      using True 1(2) by (subst multiply_loop.simps) auto
    moreover have "nat e = odd + 2 * nat (drop_bit 1 e)"
      using True by (simp add: odd_def and_one_int drop_bit_eq_div nat_eq_iff) presburger
    then have "a + k * nat e = a + k * odd + (k + k) * nat (drop_bit 1 e)" by (simp add: algebra_simps)
    ultimately show ?thesis by (simp only:)
  next
    case False
    then show ?thesis using 1(3) by (subst multiply_loop.simps) simp
  qed
qed

lemma quarter_mod: "j mod 4 = k mod 4 \<Longrightarrow> quarter_point i j p = quarter_point i k p"
  by (simp add: quarter_point_def quarter_x_def quarter_y_def)

lemma quarter_multiple:
  assumes "i * i mod FIELD_P = - 1 mod FIELD_P \<or> even k" "quarter_point i k p"
  shows "quarter_point i k (multiplyPoint p GROUP_ORDER_L)"
proof -
  have "nat GROUP_ORDER_L mod 4 = 1" by (simp add: GROUP_ORDER_L_def push_bit_eq_mult)
  then have m: "(0 + k * nat GROUP_ORDER_L) mod 4 = k mod 4" by (metis add_0 mod_mult_right_eq mult.right_neutral)
  show ?thesis
    unfolding multiplyPoint_def using multiply_loop_quarter [OF _ quarter_identity assms(2), of GROUP_ORDER_L] assms(1) unfolding quarter_mod [OF m] by auto
qed

lemma unit_mod: "coprime u FIELD_P \<Longrightarrow> u * c mod FIELD_P = 0 \<Longrightarrow> c mod FIELD_P = 0"
  by (metis coprime_commute coprime_dvd_mult_right_iff dvd_eq_mod_eq_0 mod_0_imp_dvd)

lemma quarter_not_identity:
  assumes "quarter_point i k p" "k mod 4 \<noteq> 0"
  shows "\<not> isIdentityPoint p"
proof
  assume id: "isIdentityPoint p"
  obtain u where u: "coprime u FIELD_P" "p = (u * quarter_x i k mod FIELD_P, u * quarter_y k mod FIELD_P, u mod FIELD_P, 0)"
    using assms(1) by (auto simp: quarter_point_def)
  have "u * (quarter_y k - 1) mod FIELD_P = 0"
    using id u(2) by (simp add: right_diff_distrib mod_eq_dvd_iff dvd_eq_mod_eq_0 [symmetric])
  then have y: "(quarter_y k - 1) mod FIELD_P = 0" using unit_mod [OF u(1)] by simp
  have "FIELD_P > 2" by (simp add: FIELD_P_def push_bit_eq_mult)
  then have "\<not> FIELD_P dvd 1" "\<not> FIELD_P dvd 2" using zdvd_not_zless [of 1 FIELD_P] zdvd_not_zless [of 2 FIELD_P] by simp_all
  then have "\<not> FIELD_P dvd - 1" "\<not> FIELD_P dvd - 2" by (simp_all only: dvd_minus_iff not_False_eq_True)
  moreover have "quarter_y k - 1 = - 1 \<or> quarter_y k - 1 = - 2" using assms(2) by (simp add: quarter_y_def)
  ultimately show False using y unfolding dvd_eq_mod_eq_0 by metis
qed

lemma quarter_refused:
  assumes "i * i mod FIELD_P = - 1 mod FIELD_P \<or> even k" "quarter_point i k p" "decodeCurvePoint raw = Some p"
  shows "assertSafeEd25519PublicKey raw = Inl ''attestation-key-material''"
proof (cases "k mod 4 = 0")
  case True
  then obtain u where "p = (0, u mod FIELD_P, u mod FIELD_P, 0)"
    using assms(2) by (auto simp: quarter_point_def quarter_x_def quarter_y_def)
  then show ?thesis using assms(3) by (simp add: assertSafeEd25519PublicKey_def)
next
  case False
  then have "\<not> isIdentityPoint (multiplyPoint p GROUP_ORDER_L)"
    using quarter_not_identity [OF quarter_multiple [OF assms(1,2)]] by simp
  then show ?thesis using assms(3) by (simp add: assertSafeEd25519PublicKey_def)
qed

text \<open>The point with \<open>y\<close> equal to 1 or to -1, and the two with \<open>y\<close> equal to 0.\<close>

lemma recover_unit:
  assumes "y * y mod FIELD_P = 1" "y < FIELD_P" "sign = 0 \<or> sign = 1"
  shows "recoverPoint y sign = (if sign = 1 then None else Some (0, y, 1, 0))"
proof -
  have e: "0 < nat ((FIELD_P + 3) div 8)" by (simp add: FIELD_P_def push_bit_eq_mult)
  then have "power_p 0 ((FIELD_P + 3) div 8) = 0" by (simp add: power_eq power_0_left)
  then show ?thesis using assms by (auto simp: recoverPoint_def Let_def)
qed

lemma unit_square: "y = 1 \<or> y = FIELD_P - 1 \<Longrightarrow> y * y mod FIELD_P = 1"
proof -
  have "(FIELD_P - 1) * (FIELD_P - 1) = 1 + (FIELD_P - 2) * FIELD_P" by (simp add: algebra_simps)
  then have "(FIELD_P - 1) * (FIELD_P - 1) mod FIELD_P = 1 mod FIELD_P" by (metis mod_mult_self1)
  moreover have "1 mod FIELD_P = 1" by (intro mod_pos_pos_trivial) simp_all
  ultimately show "y = 1 \<or> y = FIELD_P - 1 \<Longrightarrow> y * y mod FIELD_P = 1" by auto
qed

lemma order_four:
  assumes "recoverPoint 0 sign = Some (x, y, z, t)" "sign = 0 \<or> sign = 1"
  shows "x * x mod FIELD_P = - 1 mod FIELD_P" "quarter_point x 1 (x, y, z, t)"
proof -
  note r = recovered [OF assms(1,2) order_refl]
  have one: "1 mod FIELD_P = 1" by (intro mod_pos_pos_trivial) simp_all
  have "invert 1 = 1" by (simp add: invert_def power_eq one)
  then show "x * x mod FIELD_P = - 1 mod FIELD_P" using r(8) by (simp add: one)
  have "x mod FIELD_P = x" using r(5,6) by (simp add: mod_pos_pos_trivial)
  then show "quarter_point x 1 (x, y, z, t)" unfolding quarter_point_def using r(1,3,4)
    by (intro exI [of _ 1]) (simp add: quarter_x_def quarter_y_def one)
qed

subsection \<open>Properties\<close>

text \<open>The square-and-multiply loop computes modular exponentiation.\<close>

theorem power_is_modular_exponentiation: "power_p base (int n) = base ^ n mod FIELD_P"
  by (simp add: power_eq)

text \<open>C39. A public key has one encoding: 32 bytes that decode to a point are the little-endian \<open>y\<close> below the field prime with the parity of
  \<open>x\<close> in the top bit, both coordinates are reduced, and \<open>x\<close> squared is the value the curve equation gives for \<open>y\<close>.\<close>

theorem decoded_key_is_canonical:
  assumes "decodeCurvePoint raw = Some (x, y, z, t)" "length raw = 32"
  shows "raw = encodePoint x y \<and> x \<in> {0..<FIELD_P} \<and> y \<in> {0..<FIELD_P} \<and> z = 1 \<and> t = x * y mod FIELD_P
    \<and> x * x mod FIELD_P = (y * y mod FIELD_P - 1) * (CURVE_D * y * y + 1) ^ nat (FIELD_P - 2) mod FIELD_P"
proof -
  note d = decoded_key [OF assms]
  have "invert ((CURVE_D * (y * y mod FIELD_P) + 1) mod FIELD_P) = (CURVE_D * y * y + 1) ^ nat (FIELD_P - 2) mod FIELD_P"
    unfolding invert_def power_eq by (metis mod_add_left_eq mod_mult_right_eq mult.assoc power_mod)
  then have "x * x mod FIELD_P = (y * y mod FIELD_P - 1) * (CURVE_D * y * y + 1) ^ nat (FIELD_P - 2) mod FIELD_P"
    using d(8) by (simp add: mod_mult_right_eq)
  then show ?thesis using d(1-7) by simp
qed

theorem decoded_key_is_canonical_witness:
  "decodeCurvePoint (CHR 0x01 # replicate 31 CHR 0x00) = Some (0, 1, 1, 0) \<and> CHR 0x01 # replicate 31 CHR 0x00 = encodePoint 0 1"
proof -
  let ?raw = "CHR 0x01 # replicate 31 CHR 0x00"
  have v: "le_value ?raw = 1" by code_simp
  have "recoverPoint 1 0 = Some (0, 1, 1, 0)" using recover_unit [of 1 0] unit_square [of 1] by simp
  then have "decodeCurvePoint ?raw = Some (0, 1, 1, 0)" unfolding decodeCurvePoint_eq v by simp
  then show ?thesis using decoded_key_is_canonical [of ?raw 0 1 1 0] by simp
qed

text \<open>Every encoding of the points of order 1, 2 and 4 is refused as a public key, the ones with an unreduced \<open>y\<close> and with either
  sign bit included.\<close>

theorem small_order_keys_refused:
  assumes "le_value raw mod 2 ^ 255 mod FIELD_P \<in> {0, 1, FIELD_P - 1}"
  shows "assertSafeEd25519PublicKey raw = Inl ''attestation-key-material''"
proof (cases "decodeCurvePoint raw")
  case None
  then show ?thesis by (simp add: assertSafeEd25519PublicKey_def)
next
  case (Some p)
  obtain x y z t where p: "p = (x, y, z, t)" by (cases p)
  show ?thesis
  proof (cases "length raw = 32")
    case True
    note d = decoded_key [OF Some [unfolded p] True]
    define v sign where "v = le_value raw mod 2 ^ 255" and "sign = le_value raw div 2 ^ 255"
    have rec: "recoverPoint v sign = Some (x, y, z, t)" and sign: "sign = 0 \<or> sign = 1" and v0: "0 \<le> v"
      using Some p sign_range [OF True] by (simp_all add: decodeCurvePoint_eq v_def sign_def)
    note r = recovered [OF rec sign v0]
    have v: "v = 0 \<or> v = 1 \<or> v = FIELD_P - 1" using assms r(2) v0 unfolding v_def [symmetric] by (simp add: mod_pos_pos_trivial)
    show ?thesis
    proof (cases "v = 0")
      case True
      then show ?thesis using order_four [of sign x y z t] rec sign quarter_refused [of x 1 p raw] Some p by simp
    next
      case False
      then have "v * v mod FIELD_P = 1" using v unit_square by blast
      then have "p = (0, v, 1, 0)" using recover_unit [OF _ r(2) sign] rec p by (auto split: if_splits)
      moreover have "v = 1 \<or> v = FIELD_P - 1" using v False by simp
      moreover have "quarter_point 0 2 (0, FIELD_P - 1, 1, 0)" unfolding quarter_point_def
        by (intro exI [of _ 1]) (simp add: quarter_x_def quarter_y_def zmod_zminus1_eq_if mod_pos_pos_trivial)
      ultimately show ?thesis using Some quarter_refused [of 0 2 p raw] by (auto simp: assertSafeEd25519PublicKey_def)
    qed
  qed (simp add: assertSafeEd25519PublicKey_def)
qed

theorem small_order_keys_refused_witness:
  "assertSafeEd25519PublicKey (CHR 0xEE # replicate 30 CHR 0xFF @ [CHR 0x7F]) = Inl ''attestation-key-material''"
proof (rule small_order_keys_refused)
  have "le_value (CHR 0xEE # replicate 30 CHR 0xFF @ [CHR 0x7F]) = 2 ^ 255 - 18" by code_simp
  then show "le_value (CHR 0xEE # replicate 30 CHR 0xFF @ [CHR 0x7F]) mod 2 ^ 255 mod FIELD_P \<in> {0, 1, FIELD_P - 1}"
    by (simp add: FIELD_P_def push_bit_eq_mult)
qed

end
