(* ===== verification/Attestation_Keys.thy ===== *)
theory Attestation_Keys
  imports Strict_Json Operator_Command Ed25519_Keys
begin

text \<open>
  Keys and signatures of the attestation protocol (the last part of \<^verbatim>\<open>src/lib/authority-result-attestation.ts\<close>): key
  material, fingerprints, imports, \<^verbatim>\<open>signResultAttestation\<close> and \<^verbatim>\<open>verifyAttestationSignature\<close>.

  What the runtime provides is a \<open>runtime\<close> record: SHA-256, the two key imports, Ed25519 signing and verification, the UTF-8 encoder and
  the fatal decoder. What the modules that use the protocol import from it is an \<open>attestation_ops\<close> record; \<open>attestation_module\<close> is
  the one this file implements. An envelope object is a pair of a statement and a signature text.

  The lemmas characterise reading an envelope, decoding a key and \<^verbatim>\<open>verifyAttestationSignature\<close>; \<^verbatim>\<open>Attestation_Trust\<close> uses them
  to show that what a signer with a trusted key signs is verified.
\<close>

record 'k runtime =
  rt_sha256 :: "bytes \<Rightarrow> bytes"
  rt_importPublic :: "bytes \<Rightarrow> 'k option"
  rt_importPrivate :: "bytes \<Rightarrow> 'k option"
  rt_sign :: "'k \<Rightarrow> bytes \<Rightarrow> bytes"
  rt_verify :: "'k \<Rightarrow> bytes \<Rightarrow> bytes \<Rightarrow> bool"
  rt_utf8 :: "string \<Rightarrow> bytes"
  rt_decode :: "bytes \<Rightarrow> string option"

definition PKCS8_ED25519_PREFIX :: bytes where
  "PKCS8_ED25519_PREFIX = map char_of [0x30, 0x2e, 0x02, 0x01, 0x00, 0x30, 0x05, 0x06, 0x03, 0x2b, 0x65, 0x70, 0x04, 0x22, 0x04, 0x20 :: nat]"

definition sha256Hex :: "'k runtime \<Rightarrow> bytes \<Rightarrow> string" where
  "sha256Hex rt b = hex_text (rt_sha256 rt b)"

definition decodeKey :: "jval \<Rightarrow> nat \<Rightarrow> string \<Rightarrow> string + bytes" where
  "decodeKey v n code = (case v of
     JStr s \<Rightarrow> (case decodeCanonicalBase64url s (Some n) of Inl e \<Rightarrow> Inl code | Inr b \<Rightarrow> Inr b)
   | _ \<Rightarrow> Inl code)"

definition attestationKeyFingerprint :: "'k runtime \<Rightarrow> jval \<Rightarrow> string + string" where
  "attestationKeyFingerprint rt publicKey =
     sum_bind (decodeKey publicKey 32 ''attestation-key-material'') (\<lambda>raw. Inr (sha256Hex rt raw))"

definition importAttestationPublicKey :: "'k runtime \<Rightarrow> jval \<Rightarrow> string + 'k" where
  "importAttestationPublicKey rt publicKey =
     sum_bind (decodeKey publicKey 32 ''attestation-key-material'') (\<lambda>raw.
     sum_bind (assertSafeEd25519PublicKey raw) (\<lambda>_.
     case rt_importPublic rt raw of None \<Rightarrow> Inl ''attestation-key-material'' | Some key \<Rightarrow> Inr key))"

definition importAttestationTestPrivateKey :: "'k runtime \<Rightarrow> jval \<Rightarrow> string + 'k" where
  "importAttestationTestPrivateKey rt privateKey =
     sum_bind (decodeKey privateKey 48 ''attestation-key-material'') (\<lambda>der.
     if take 16 der \<noteq> PKCS8_ED25519_PREFIX then Inl ''attestation-key-material''
     else case rt_importPrivate rt der of None \<Rightarrow> Inl ''attestation-key-material'' | Some key \<Rightarrow> Inr key)"

text \<open>What other modules import from the protocol.\<close>

record 'k attestation_ops =
  am_fingerprint :: "jval \<Rightarrow> string + string"
  am_importPublic :: "jval \<Rightarrow> string + 'k"
  am_importPrivate :: "jval \<Rightarrow> string + 'k"
  am_sign :: "'k \<Rightarrow> bytes \<Rightarrow> bytes"
  am_verify :: "'k \<Rightarrow> bytes \<Rightarrow> bytes \<Rightarrow> bool"
  am_utf8 :: "string \<Rightarrow> bytes"
  am_decode :: "bytes \<Rightarrow> string option"

definition attestation_module :: "'k runtime \<Rightarrow> 'k attestation_ops" where
  "attestation_module rt =
     \<lparr>am_fingerprint = attestationKeyFingerprint rt, am_importPublic = importAttestationPublicKey rt,
      am_importPrivate = importAttestationTestPrivateKey rt, am_sign = rt_sign rt, am_verify = rt_verify rt,
      am_utf8 = rt_utf8 rt, am_decode = rt_decode rt\<rparr>"

definition PROBE_SIGNATURE :: string where "PROBE_SIGNATURE = replicate 86 CHR ''A''"

definition envelope_value :: "jval \<Rightarrow> string \<Rightarrow> jval" where
  "envelope_value st signature = JObj [(''statement'', st), (''signature'', JStr signature)]"

definition signResultAttestation :: "'k attestation_ops \<Rightarrow> jval \<Rightarrow> jval \<Rightarrow> jval \<Rightarrow> string + jval \<times> string" where
  "signResultAttestation am st privateKey publicKey =
     sum_bind (canonicalStatementText st) (\<lambda>statementText.
     sum_bind (parseResultAttestationEnvelope (am_utf8 am) (am_decode am) (am_utf8 am (envelopeText statementText PROBE_SIGNATURE))) (\<lambda>(snapshot, _).
     let message = signingBytesFromText (am_utf8 am) statementText in
     if \<not> is_str privateKey \<or> \<not> is_str publicKey then Inl ''attestation-key-material''
     else
     sum_bind (am_fingerprint am publicKey) (\<lambda>fp.
     if fld snapshot ''writerKeyFingerprint'' \<noteq> Some (JStr fp) then Inl ''attestation-key-material''
     else
     sum_bind (am_importPrivate am privateKey) (\<lambda>signingKey.
     let signature = b64_encode (am_sign am signingKey message) in
     sum_bind (am_importPublic am publicKey) (\<lambda>verifyKey.
     sum_bind (decodeKey (JStr signature) 64 ''attestation-key-material'') (\<lambda>sig.
     if \<not> am_verify am verifyKey sig message then Inl ''attestation-key-material''
     else
     sum_bind (encodeResultAttestationEnvelope (am_utf8 am) (envelope_value snapshot signature)) (\<lambda>b.
     if am_decode am b \<noteq> Some (envelopeText statementText signature) then Inl ''attestation-statement''
     else Inr (snapshot, signature))))))))"

definition verifyAttestationSignature :: "'k attestation_ops \<Rightarrow> jval \<Rightarrow> jval \<Rightarrow> bool" where
  "verifyAttestationSignature am envelope publicKey =
     (case sum_bind (readEnvelope envelope) (\<lambda>(st, signature).
        sum_bind (canonicalStatementText st) (\<lambda>statementText.
        sum_bind (decodeKey (JStr signature) 64 ''attestation-envelope'') (\<lambda>sig.
        sum_bind (am_importPublic am publicKey) (\<lambda>key.
        Inr (am_verify am key sig (signingBytesFromText (am_utf8 am) statementText)))))) of
      Inl e \<Rightarrow> False | Inr ok \<Rightarrow> ok)"

subsection \<open>Signed envelopes\<close>

lemma readEnvelope_value:
  "readEnvelope (envelope_value st signature) = sum_bind (checkSignatureText (JStr signature)) (\<lambda>s. Inr (st, s))"
  by (simp add: readEnvelope_def envelope_value_def envelope_fields readOwnData_def)

lemma checkSignatureText_iff: "checkSignatureText (JStr s) = Inr s' \<longleftrightarrow> s' = s \<and> (\<exists>b. decodeCanonicalBase64url s (Some 64) = Inr b)"
  by (auto simp: checkSignatureText_def split: sum.splits)

lemma decodeKey_iff: "decodeKey (JStr s) n code = Inr b \<longleftrightarrow> decodeCanonicalBase64url s (Some n) = Inr b"
  by (auto simp: decodeKey_def split: sum.splits)

text \<open>When a signature over a statement verifies.\<close>

lemma verify_iff:
  "verifyAttestationSignature am (envelope_value st signature) publicKey \<longleftrightarrow>
     (\<exists>t sig key. canonicalStatementText st = Inr t \<and> decodeCanonicalBase64url signature (Some 64) = Inr sig
        \<and> am_importPublic am publicKey = Inr key \<and> am_verify am key sig (am_utf8 am (ATTESTATION_SIGNING_DOMAIN @ t)))"
  by (auto simp: verifyAttestationSignature_def readEnvelope_value checkSignatureText_def decodeKey_def signingBytesFromText_def split: sum.splits)
    (auto simp: sum_bind_Inr_iff split: sum.splits)

end
