(* ===== verification/Admission_History.thy ===== *)
theory Admission_History
  imports Admission "HOL-Library.Multiset"
begin

text \<open>
  Histories of the admission authority: any sequence of requests to \<^verbatim>\<open>claimPre\<close>, \<^verbatim>\<open>consumePost\<close>, \<^verbatim>\<open>cleanup\<close>,
  \<^verbatim>\<open>initializeAuthority\<close> and \<^verbatim>\<open>rotateAuthorityRelease\<close> on one Durable Object, each at its own clock reading, together
  with the gs of what was granted. The object serialises its operations, so a history is a list.

  Most theorems ask that no operation reads a time before that of an earlier cleanup: a cleanup does not record its clock reading.

  The log is not part of the program; it is what the properties are about. The invariant \<open>accounts\<close> relates it to
  the rows that the operations keep, above the highest time \<open>hi\<close> at which anything was forgotten.
\<close>

datatype request =
  ClaimReq string string claim_input
| PostReq string post_input
| CleanupReq int
| InitReq string string authority_spec "receipt option"
| RotateReq rotation_input "receipt option"

record grant =
  gr_stage :: stage
  gr_releaseId :: string
  gr_client :: string
  gr_binding :: string
  gr_nonce :: string
  gr_permit :: string
  gr_issued :: int
  gr_at :: int

definition pre_grant :: "claim_input \<Rightarrow> string \<Rightarrow> int \<Rightarrow> grant" where
  "pre_grant i permit now = \<lparr>gr_stage = Pre, gr_releaseId = ci_releaseId i, gr_client = ci_clientPseudonym i,
     gr_binding = ci_requestBinding i, gr_nonce = ci_nonce i, gr_permit = permit, gr_issued = ci_issuedAtMs i, gr_at = now\<rparr>"

definition post_grant :: "post_input \<Rightarrow> int \<Rightarrow> grant" where
  "post_grant i now = \<lparr>gr_stage = Post, gr_releaseId = pi_releaseId i, gr_client = pi_clientPseudonym i,
     gr_binding = pi_requestBinding i, gr_nonce = pi_nonce i, gr_permit = pi_permit i, gr_issued = 0, gr_at = now\<rparr>"

fun serve :: "authority_options \<Rightarrow> int \<times> request \<Rightarrow> authority_db \<times> grant list \<Rightarrow> authority_db \<times> grant list" where
  "serve opts (now, ClaimReq permit attempt i) (db, gs) = (case claimPre opts now permit attempt i db of
     (db', PreAllowed p e) \<Rightarrow> (db', gs @ [pre_grant i p now]) | (db', _) \<Rightarrow> (db', gs))"
| "serve opts (now, PostReq attempt i) (db, gs) = (case consumePost opts now attempt i db of
     (db', PostAllowed) \<Rightarrow> (db', gs @ [post_grant i now]) | (db', _) \<Rightarrow> (db', gs))"
| "serve opts (now, CleanupReq n) (db, gs) = (fst (cleanup opts now n db), gs)"
| "serve opts (now, InitReq aid ep spec c) (db, gs) = (fst (initializeAuthority aid ep spec c db), gs)"
| "serve opts (now, RotateReq i c) (db, gs) = (fst (rotateAuthorityRelease i c db), gs)"

definition history :: "authority_options \<Rightarrow> (int \<times> request) list \<Rightarrow> authority_db \<times> grant list" where
  "history opts ops = fold (serve opts) ops (empty_db, [])"

definition granted_log :: "authority_options \<Rightarrow> (int \<times> request) list \<Rightarrow> grant list" where
  "granted_log opts ops = snd (history opts ops)"

text \<open>No operation reads a time before that of an earlier cleanup.\<close>

fun is_cleanup :: "request \<Rightarrow> bool" where
  "is_cleanup (CleanupReq n) = True"
| "is_cleanup _ = False"

definition cleanups_not_ahead :: "(int \<times> request) list \<Rightarrow> bool" where
  "cleanups_not_ahead ops = sorted_wrt (\<lambda>a b. is_cleanup (snd a) \<longrightarrow> fst a \<le> fst b) ops"

definition granted :: "stage \<Rightarrow> scope \<Rightarrow> string \<Rightarrow> int \<Rightarrow> int \<Rightarrow> grant list \<Rightarrow> int" where
  "granted st sc s lo hi gs = int (length (filter (\<lambda>e. gr_stage e = st \<and> (sc = Client \<longrightarrow> gr_client e = s)
     \<and> lo < gr_at e \<and> gr_at e \<le> hi) gs))"

definition permit_key :: "grant \<Rightarrow> string \<times> string \<times> string \<times> string \<times> string" where
  "permit_key e = (gr_releaseId e, gr_client e, gr_binding e, gr_nonce e, gr_permit e)"

definition of_stage :: "stage \<Rightarrow> grant list \<Rightarrow> grant list" where
  "of_stage st gs = filter (\<lambda>e. gr_stage e = st) gs"

subsection \<open>What the operations do to the rows\<close>

text \<open>\<open>db'\<close> differs from \<open>db\<close> by rows that are out of their windows at \<open>now\<close>.\<close>

definition forgets :: "int \<Rightarrow> authority_db \<Rightarrow> authority_db \<Rightarrow> bool" where
  "forgets now db db' \<longleftrightarrow>
     (\<forall>Q. (\<forall>w. Q w \<longrightarrow> \<not> expired_observation now w) \<longrightarrow> filter Q (db_observations db') = filter Q (db_observations db))
     \<and> subseq (db_nonces db') (db_nonces db)
     \<and> (\<forall>n\<in>set (db_nonces db). now < nr_retainUntil n \<longrightarrow> n \<in> set (db_nonces db'))"

definition same_rows :: "authority_db \<Rightarrow> authority_db \<Rightarrow> bool" where
  "same_rows db db' \<longleftrightarrow> db_observations db' = db_observations db \<and> db_nonces db' = db_nonces db \<and> db_meta db' = db_meta db"

lemma same_rows_refl [simp]: "same_rows db db" by (simp add: same_rows_def)
lemma same_rows_schema [simp]: "same_rows db (createAuthoritySchema db)" by (simp add: same_rows_def)

lemma forgets_meta [simp]: "forgets now db (db\<lparr>db_meta := x\<rparr>)"
  by (simp add: forgets_def)

lemma prune_forgets:
  assumes "db_observations db1 = db_observations db" "db_nonces db1 = db_nonces db"
  shows "forgets now db (prune now db1)"
  using assms by (auto simp: forgets_def prune_def filter_empty_conv intro!: filter_cong)

lemma filter_delete_first: "(\<And>x. Q x \<Longrightarrow> \<not> P x) \<Longrightarrow> filter Q (delete_first n P xs) = filter Q xs"
  by (induction n P xs rule: delete_first.induct) (auto split: nat.splits)

lemma subseq_delete_first: "subseq (delete_first n P xs) xs"
  by (induction n P xs rule: delete_first.induct) (auto split: nat.splits intro: list_emb_Cons)

lemma in_delete_first: "x \<in> set xs \<Longrightarrow> \<not> P x \<Longrightarrow> x \<in> set (delete_first n P xs)"
  by (induction n P xs rule: delete_first.induct) (auto split: nat.splits)

lemma cleanup_effect:
  assumes "cleanup opts now k db = (db', r)"
  shows "same_rows db db' \<or> (\<exists>m. db_meta db = Some m \<and> db_meta db' = Some m \<and> mt_lastNow m \<le> now \<and> forgets now db db')"
  using assms
  by (auto simp: cleanup_def Let_def forgets_def filter_delete_first subseq_delete_first in_delete_first
      split: if_splits option.splits)

text \<open>The state an admission decision is taken in.\<close>

definition seen :: "int \<Rightarrow> meta_row \<Rightarrow> authority_db \<Rightarrow> authority_db" where
  "seen now m db = prune now (createAuthoritySchema db\<lparr>db_meta := Some (m\<lparr>mt_lastNow := now\<rparr>)\<rparr>)"

lemma seen_forgets: "forgets now db (seen now m db)"
  by (simp add: seen_def prune_forgets)

lemma seen_meta [simp]: "db_meta (seen now m db) = Some (m\<lparr>mt_lastNow := now\<rparr>)"
  by (simp add: seen_def prune_def)

lemma authorityNow_cases:
  assumes "authorityNow opts now rel (createAuthoritySchema db) = (db1, r)"
  shows "(r = None \<and> db1 = createAuthoritySchema db) \<or> (\<exists>m. db_meta db = Some m \<and> mt_lastNow m \<le> now \<and> r = Some now
    \<and> db1 = createAuthoritySchema db\<lparr>db_meta := Some (m\<lparr>mt_lastNow := now\<rparr>)\<rparr>)"
  using assms by (auto simp: authorityNow_def split: option.splits if_splits)

lemma observe_attempt_Inr:
  "observe_attempt a st c now db = Inr db2 \<Longrightarrow> db2 = db\<lparr>db_observations := db_observations db
     @ [\<lparr>ow_id = a @ '':c'', ow_stage = st, ow_scope = Client, ow_subject = c, ow_observedAt = now\<rparr>,
        \<lparr>ow_id = a @ '':g'', ow_stage = st, ow_scope = Global, ow_subject = ''*'', ow_observedAt = now\<rparr>]\<rparr>"
  by (auto simp: observe_attempt_def insert_observation_def sum_bind_Inr_iff split: if_splits)

definition claimed_row :: "claim_input \<Rightarrow> string \<Rightarrow> int \<Rightarrow> nonce_row" where
  "claimed_row i permit now = \<lparr>nr_nonce = ci_nonce i, nr_releaseId = ci_releaseId i,
     nr_clientId = ci_clientPseudonym i, nr_requestBinding = ci_requestBinding i, nr_permit = permit,
     nr_claimed = now, nr_permitExpires = now + PRE_PERMIT_LIFETIME_MS, nr_retainUntil = now + NONCE_RETENTION_MS,
     nr_postConsumed = False\<rparr>"

definition observed :: "stage \<Rightarrow> string \<Rightarrow> int \<Rightarrow> authority_db \<Rightarrow> authority_db \<Rightarrow> bool" where
  "observed st c now db db' \<longleftrightarrow> (\<exists>a. db_observations db' = db_observations db
     @ [\<lparr>ow_id = a @ '':c'', ow_stage = st, ow_scope = Client, ow_subject = c, ow_observedAt = now\<rparr>,
        \<lparr>ow_id = a @ '':g'', ow_stage = st, ow_scope = Global, ow_subject = ''*'', ow_observedAt = now\<rparr>])"

lemma claimPre_effect:
  assumes "claimPre opts now permit attempt i db = (db', r)"
  shows "(same_rows db db' \<and> (\<forall>p e. r \<noteq> PreAllowed p e))
    \<or> (\<exists>m. db_meta db = Some m \<and> mt_lastNow m \<le> now \<and> db_meta db' = Some (m\<lparr>mt_lastNow := now\<rparr>)
        \<and> ((\<forall>p e. r \<noteq> PreAllowed p e) \<and> forgets now db db'
           \<or> r = PreAllowed permit (now + PRE_PERMIT_LIFETIME_MS)
             \<and> assertIngressFresh (ci_issuedAtMs i) now = Inr ()
             \<and> exactlyOne (\<lambda>n. nr_nonce n = ci_nonce i) (db_nonces (seen now m db)) = None
             \<and> \<not> pre_limited (ci_clientPseudonym i) now (seen now m db)
             \<and> observed Pre (ci_clientPseudonym i) now (seen now m db) db'
             \<and> db_nonces db' = db_nonces (seen now m db) @ [claimed_row i permit now]))"
proof (cases "validPre i")
  case False
  then show ?thesis using assms by (auto simp: claimPre_def)
next
  case True
  obtain db1 rn where an: "authorityNow opts now (ci_releaseId i) (createAuthoritySchema db) = (db1, rn)" by fastforce
  from authorityNow_cases [OF an] show ?thesis
  proof (elim disjE conjE exE)
    assume "rn = None" "db1 = createAuthoritySchema db"
    then show ?thesis using assms an True by (auto simp: claimPre_def claim_tx_def Let_def)
  next
    fix m assume m: "db_meta db = Some m" "mt_lastNow m \<le> now" "rn = Some now"
      and db1: "db1 = createAuthoritySchema db\<lparr>db_meta := Some (m\<lparr>mt_lastNow := now\<rparr>)\<rparr>"
    have sn: "prune now db1 = seen now m db" by (simp add: seen_def db1)
    have fg: "forgets now db db1" "db_meta db1 = Some (m\<lparr>mt_lastNow := now\<rparr>)" by (simp_all add: db1 forgets_def)
    show ?thesis
      using assms an True m fg seen_forgets [of now db m]
      by (auto simp: claimPre_def claim_tx_def Let_def sn sum_bind_def insert_nonce_def claimed_row_def observed_def
          split: sum.splits if_splits dest!: observe_attempt_Inr)
  qed
qed

lemma consumePost_effect:
  assumes "consumePost opts now attempt i db = (db', r)"
  shows "(same_rows db db' \<and> r \<noteq> PostAllowed)
    \<or> (\<exists>m. db_meta db = Some m \<and> mt_lastNow m \<le> now \<and> db_meta db' = Some (m\<lparr>mt_lastNow := now\<rparr>)
        \<and> (r \<noteq> PostAllowed \<and> forgets now db db'
           \<or> r = PostAllowed
             \<and> (\<exists>n. exactlyOne (\<lambda>n. nr_nonce n = pi_nonce i) (db_nonces (seen now m db)) = Some n
                 \<and> nonce_matches i now n \<and> \<not> nr_postConsumed n)
             \<and> \<not> post_limited (pi_clientPseudonym i) now (seen now m db)
             \<and> observed Post (pi_clientPseudonym i) now (seen now m db) db'
             \<and> db_nonces db' = db_nonces (mark_consumed (pi_nonce i) (seen now m db))))"
proof (cases "validPost i")
  case False
  then show ?thesis using assms by (auto simp: consumePost_def)
next
  case True
  obtain db1 rn where an: "authorityNow opts now (pi_releaseId i) (createAuthoritySchema db) = (db1, rn)" by fastforce
  from authorityNow_cases [OF an] show ?thesis
  proof (elim disjE conjE exE)
    assume "rn = None" "db1 = createAuthoritySchema db"
    then show ?thesis using assms an True by (auto simp: consumePost_def consume_tx_def Let_def)
  next
    fix m assume m: "db_meta db = Some m" "mt_lastNow m \<le> now" "rn = Some now"
      and db1: "db1 = createAuthoritySchema db\<lparr>db_meta := Some (m\<lparr>mt_lastNow := now\<rparr>)\<rparr>"
    have sn: "prune now db1 = seen now m db" by (simp add: seen_def db1)
    show ?thesis
      using assms an True m seen_forgets [of now db m]
      by (auto simp: consumePost_def consume_tx_def Let_def sn sum_bind_def observed_def mark_consumed_def
          split: sum.splits if_splits option.splits dest!: observe_attempt_Inr)
  qed
qed

lemma initializeAuthority_rows:
  assumes "initializeAuthority aid ep spec c db = (db', res)"
  shows "db_nonces db' = db_nonces db \<and> db_observations db' = db_observations db \<and> (db_meta db = None \<or> db_meta db' = db_meta db)"
proof -
  have "initialize_tx spec c d = Inr (d', r) \<Longrightarrow> db_nonces d' = db_nonces d \<and> db_observations d' = db_observations d
      \<and> (db_meta d = None \<or> db_meta d' = db_meta d)" for d d' r
    by (auto simp: initialize_tx_def initialize_rows_def insert_release_def insertReceipt_def Let_def sum_bind_Inr_iff
        split: option.splits list.splits if_splits)
  then show ?thesis using assms
    by (fastforce simp: initializeAuthority_def Let_def split: if_splits sum.splits)
qed

lemma rotateAuthorityRelease_rows:
  assumes "rotateAuthorityRelease i c db = (db', res)"
  shows "same_rows db db'"
proof -
  have "rotate_tx i c d = Inr (d', r) \<Longrightarrow> same_rows d d'" for d d' r
    by (auto simp: rotate_tx_def rotate_rows_def insert_release_def insertReceipt_def Let_def sum_bind_Inr_iff same_rows_def
        split: option.splits list.splits if_splits)
  then show ?thesis using assms
    by (fastforce simp: rotateAuthorityRelease_def Let_def same_rows_def split: if_splits sum.splits)
qed

subsection \<open>The invariant\<close>

definition row_key :: "nonce_row \<Rightarrow> string \<times> string \<times> string \<times> string \<times> string" where
  "row_key n = (nr_releaseId n, nr_clientId n, nr_requestBinding n, nr_nonce n, nr_permit n)"

definition observations_of :: "stage \<Rightarrow> scope \<Rightarrow> string \<Rightarrow> int \<Rightarrow> authority_db \<Rightarrow> int list" where
  "observations_of st sc s lo db = map ow_observedAt (filter (\<lambda>w. ow_stage w = st \<and> ow_scope w = sc
     \<and> ow_subject w = s \<and> lo < ow_observedAt w) (db_observations db))"

definition grants_of :: "stage \<Rightarrow> scope \<Rightarrow> string \<Rightarrow> int \<Rightarrow> grant list \<Rightarrow> int list" where
  "grants_of st sc s lo gs = map gr_at (filter (\<lambda>e. gr_stage e = st \<and> (sc = Client \<longrightarrow> gr_client e = s)
     \<and> (sc = Global \<longrightarrow> s = ''*'') \<and> lo < gr_at e) gs)"

definition within_windows :: "grant list \<Rightarrow> bool" where
  "within_windows gs \<longleftrightarrow> (\<forall>t c.
     granted Pre Client c (t - 60000) t gs \<le> 3 \<and> granted Pre Client c (t - 600000) t gs \<le> 30
     \<and> granted Pre Global c (t - 60000) t gs \<le> 300
     \<and> granted Post Client c (t - 600000) t gs \<le> 5 \<and> granted Post Global c (t - 60000) t gs \<le> 100)"

definition rows_account :: "int \<Rightarrow> authority_db \<Rightarrow> grant list \<Rightarrow> bool" where
  "rows_account hi db gs \<longleftrightarrow>
     (\<forall>e\<in>set gs. gr_at e \<le> hi)
     \<and> (\<forall>st sc s lo. hi - window_of st sc \<le> lo \<longrightarrow> observations_of st sc s lo db = grants_of st sc s lo gs)
     \<and> distinct (map nr_nonce (db_nonces db))
     \<and> (\<forall>e\<in>set (of_stage Pre gs). hi < gr_at e + NONCE_RETENTION_MS \<longrightarrow>
          (\<exists>n\<in>set (db_nonces db). nr_nonce n = gr_nonce e \<and> nr_retainUntil n = gr_at e + NONCE_RETENTION_MS))
     \<and> (\<forall>n\<in>set (db_nonces db). nr_permitExpires n = nr_claimed n + PRE_PERMIT_LIFETIME_MS \<and>
          (\<exists>e\<in>set (of_stage Pre gs). permit_key e = row_key n \<and> gr_at e = nr_claimed n))
     \<and> mset (map permit_key (of_stage Post gs)) + mset (map row_key (filter (\<lambda>n. \<not> nr_postConsumed n) (db_nonces db)))
         \<subseteq># mset (map permit_key (of_stage Pre gs))"

definition grants_sound :: "grant list \<Rightarrow> bool" where
  "grants_sound gs \<longleftrightarrow> within_windows gs
     \<and> distinct (map (\<lambda>e. (gr_nonce e, gr_issued e)) (of_stage Pre gs))
     \<and> (\<forall>e\<in>set (of_stage Pre gs). gr_issued e \<le> gr_at e + INGRESS_FUTURE_SKEW_MS \<and> gr_at e - INGRESS_MAX_AGE_MS \<le> gr_issued e)
     \<and> (\<forall>p\<in>set (of_stage Post gs). \<exists>e\<in>set (of_stage Pre gs). permit_key e = permit_key p
          \<and> gr_at e \<le> gr_at p \<and> gr_at p < gr_at e + PRE_PERMIT_LIFETIME_MS)"

definition accounts :: "int set \<Rightarrow> authority_db \<Rightarrow> grant list \<Rightarrow> bool" where
  "accounts cs db gs \<longleftrightarrow> grants_sound gs \<and> (case db_meta db of
     None \<Rightarrow> gs = [] \<and> db_nonces db = [] \<and> db_observations db = []
   | Some m \<Rightarrow> \<exists>hi. mt_lastNow m \<le> hi \<and> (hi = mt_lastNow m \<or> hi \<in> cs) \<and> rows_account hi db gs)"

lemma rows_accountD:
  assumes "rows_account hi db gs"
  shows "\<And>e. e \<in> set gs \<Longrightarrow> gr_at e \<le> hi"
    and "\<And>st sc s lo. hi - window_of st sc \<le> lo \<Longrightarrow> observations_of st sc s lo db = grants_of st sc s lo gs"
    and "distinct (map nr_nonce (db_nonces db))"
    and "\<And>e. e \<in> set (of_stage Pre gs) \<Longrightarrow> hi < gr_at e + NONCE_RETENTION_MS \<Longrightarrow>
      \<exists>n\<in>set (db_nonces db). nr_nonce n = gr_nonce e \<and> nr_retainUntil n = gr_at e + NONCE_RETENTION_MS"
    and "\<And>n. n \<in> set (db_nonces db) \<Longrightarrow> nr_permitExpires n = nr_claimed n + PRE_PERMIT_LIFETIME_MS \<and>
      (\<exists>e\<in>set (of_stage Pre gs). permit_key e = row_key n \<and> gr_at e = nr_claimed n)"
    and "mset (map permit_key (of_stage Post gs)) + mset (map row_key (filter (\<lambda>n. \<not> nr_postConsumed n) (db_nonces db)))
      \<subseteq># mset (map permit_key (of_stage Pre gs))"
  using assms unfolding rows_account_def by blast+

lemma subseq_mset: "subseq xs ys \<Longrightarrow> mset xs \<subseteq># mset ys"
proof (induction rule: list_emb.induct)
  case (list_emb_Cons xs ys y)
  then show ?case by (auto intro: subset_mset.order_trans)
qed auto

lemma subseq_distinct: "subseq xs ys \<Longrightarrow> distinct ys \<Longrightarrow> distinct xs"
  by (induction rule: list_emb.induct) (auto dest: list_emb_set)

lemma rows_account_forgets:
  assumes inv: "rows_account hi db gs" and f: "forgets now db db'" and le: "hi \<le> now"
  shows "rows_account now db' gs"
proof -
  have sub: "subseq (db_nonces db') (db_nonces db)" using f by (simp add: forgets_def)
  have "observations_of st sc s lo db' = grants_of st sc s lo gs" if "now - window_of st sc \<le> lo" for st sc s lo
  proof -
    have "observations_of st sc s lo db' = observations_of st sc s lo db"
      using f that unfolding observations_of_def forgets_def
      by (intro arg_cong [of _ _ "map ow_observedAt"]) (auto simp: expired_observation_def)
    then show ?thesis using rows_accountD(2) [OF inv] that le by simp
  qed
  moreover have "distinct (map nr_nonce (db_nonces db'))"
    using rows_accountD(3) [OF inv] subseq_map [OF sub, of nr_nonce] by (auto intro: subseq_distinct)
  moreover have "\<exists>n\<in>set (db_nonces db'). nr_nonce n = gr_nonce e \<and> nr_retainUntil n = gr_at e + NONCE_RETENTION_MS"
    if "e \<in> set (of_stage Pre gs)" "now < gr_at e + NONCE_RETENTION_MS" for e
  proof -
    from rows_accountD(4) [OF inv that(1)] that(2) le obtain n where
      n: "n \<in> set (db_nonces db)" "nr_nonce n = gr_nonce e" "nr_retainUntil n = gr_at e + NONCE_RETENTION_MS" by auto
    have "n \<in> set (db_nonces db')" using f n(1,3) that(2) by (simp add: forgets_def)
    then show ?thesis using n by blast
  qed
  moreover have "mset (map permit_key (of_stage Post gs)) + mset (map row_key (filter (\<lambda>n. \<not> nr_postConsumed n) (db_nonces db')))
      \<subseteq># mset (map permit_key (of_stage Pre gs))"
  proof -
    have "mset (map row_key (filter (\<lambda>n. \<not> nr_postConsumed n) (db_nonces db')))
      \<subseteq># mset (map row_key (filter (\<lambda>n. \<not> nr_postConsumed n) (db_nonces db)))"
      by (intro subseq_mset subseq_map subseq_filter sub)
    then show ?thesis using rows_accountD(6) [OF inv]
      by (meson subset_mset.add_left_mono subset_mset.order_trans)
  qed
  moreover have "gr_at e \<le> now" if "e \<in> set gs" for e using rows_accountD(1) [OF inv that] le by simp
  moreover have "set (db_nonces db') \<subseteq> set (db_nonces db)" using sub by (auto dest: list_emb_set)
  ultimately show ?thesis using rows_accountD(5) [OF inv] unfolding rows_account_def by blast
qed

lemma observations_of_observed:
  assumes "observed st c now db db'"
  shows "observations_of st' sc s lo db' = observations_of st' sc s lo db
    @ (if st' = st \<and> lo < now \<and> s = (case sc of Client \<Rightarrow> c | Global \<Rightarrow> ''*'') then [now] else [])"
  using assms by (cases sc) (auto simp: observed_def observations_of_def)

lemma grants_of_snoc:
  "grants_of st' sc s lo (gs @ [e]) = grants_of st' sc s lo gs
    @ (if st' = gr_stage e \<and> lo < gr_at e \<and> s = (case sc of Client \<Rightarrow> gr_client e | Global \<Rightarrow> ''*'') then [gr_at e] else [])"
  by (cases sc) (auto simp: grants_of_def)

lemma of_stage_snoc [simp]: "of_stage st (gs @ [e]) = of_stage st gs @ (if gr_stage e = st then [e] else [])"
  by (simp add: of_stage_def)

lemma rows_account_claim:
  assumes inv: "rows_account now d gs"
    and new: "exactlyOne (\<lambda>n. nr_nonce n = ci_nonce i) (db_nonces d) = None"
    and obs: "observed Pre (ci_clientPseudonym i) now d db'"
    and row: "db_nonces db' = db_nonces d @ [claimed_row i permit now]"
  shows "rows_account now db' (gs @ [pre_grant i permit now])" and "ci_nonce i \<notin> nr_nonce ` set (db_nonces d)"
proof -
  have g [simp]: "gr_stage (pre_grant i permit now) = Pre" "gr_at (pre_grant i permit now) = now"
    "gr_client (pre_grant i permit now) = ci_clientPseudonym i" "permit_key (pre_grant i permit now) = row_key (claimed_row i permit now)"
    by (simp_all add: pre_grant_def permit_key_def row_key_def claimed_row_def)
  show fresh: "ci_nonce i \<notin> nr_nonce ` set (db_nonces d)"
    using exactlyOne_unique [OF rows_accountD(3) [OF inv], of "ci_nonce i"] new by auto
  have "nr_nonce (claimed_row i permit now) = ci_nonce i" by (simp add: claimed_row_def)
  then have "distinct (map nr_nonce (db_nonces db'))"
    using rows_accountD(3) [OF inv] fresh by (simp add: row)
  moreover have "observations_of st sc s lo db' = grants_of st sc s lo (gs @ [pre_grant i permit now])"
    if "now - window_of st sc \<le> lo" for st sc s lo
    using rows_accountD(2) [OF inv that] by (cases sc) (simp_all add: observations_of_observed [OF obs] grants_of_snoc)
  moreover have "nr_retainUntil (claimed_row i permit now) = now + NONCE_RETENTION_MS"
    "nr_nonce (claimed_row i permit now) = gr_nonce (pre_grant i permit now)"
    "nr_permitExpires (claimed_row i permit now) = nr_claimed (claimed_row i permit now) + PRE_PERMIT_LIFETIME_MS"
    "nr_claimed (claimed_row i permit now) = now" "\<not> nr_postConsumed (claimed_row i permit now)"
    by (simp_all add: claimed_row_def pre_grant_def)
  ultimately show "rows_account now db' (gs @ [pre_grant i permit now])"
    using inv unfolding rows_account_def row by (auto simp: ac_simps)
qed

lemma map_mark_consumed [simp]: "map nr_nonce (db_nonces (mark_consumed x d)) = map nr_nonce (db_nonces d)"
  by (auto simp: mark_consumed_def)

lemma mark_consumed_split:
  assumes "distinct (map nr_nonce ns)" "n \<in> set ns" "\<not> nr_postConsumed n"
  shows "mset (map row_key (filter (\<lambda>m. \<not> nr_postConsumed m) ns)) =
    add_mset (row_key n) (mset (map row_key (filter (\<lambda>m. \<not> nr_postConsumed m)
      (map (\<lambda>m. if nr_nonce m = nr_nonce n \<and> \<not> nr_postConsumed m then m\<lparr>nr_postConsumed := True\<rparr> else m) ns))))"
  using assms
proof (induction ns)
  case (Cons a ns)
  show ?case
  proof (cases "a = n")
    case True
    then have "map (\<lambda>m. if nr_nonce m = nr_nonce n \<and> \<not> nr_postConsumed m then m\<lparr>nr_postConsumed := True\<rparr> else m) ns = ns"
      using Cons.prems(1) by (intro map_idI) (auto, metis image_eqI)
    then show ?thesis using True Cons.prems by simp
  next
    case False
    then have "n \<in> set ns" "nr_nonce a \<noteq> nr_nonce n" using Cons.prems by auto
    then show ?thesis using Cons by (auto simp: comp_def)
  qed
qed simp

lemma rows_account_post:
  assumes inv: "rows_account now d gs"
    and n: "exactlyOne (\<lambda>n. nr_nonce n = pi_nonce i) (db_nonces d) = Some n" "nonce_matches i now n" "\<not> nr_postConsumed n"
    and obs: "observed Post (pi_clientPseudonym i) now d db'"
    and row: "db_nonces db' = db_nonces (mark_consumed (pi_nonce i) d)"
  shows "rows_account now db' (gs @ [post_grant i now])"
    and "\<exists>e\<in>set (of_stage Pre gs). permit_key e = permit_key (post_grant i now) \<and> gr_at e \<le> now \<and> now < gr_at e + PRE_PERMIT_LIFETIME_MS"
proof -
  have g [simp]: "gr_stage (post_grant i now) = Post" "gr_at (post_grant i now) = now" "gr_client (post_grant i now) = pi_clientPseudonym i"
    by (simp_all add: post_grant_def)
  have mem: "n \<in> set (db_nonces d)" "nr_nonce n = pi_nonce i" using exactlyOne_Some [OF n(1)] by auto
  have key: "permit_key (post_grant i now) = row_key n"
    using n(2) mem(2) by (simp add: nonce_matches_def permit_key_def row_key_def post_grant_def)
  have "observations_of st sc s lo db' = grants_of st sc s lo (gs @ [post_grant i now])"
    if "now - window_of st sc \<le> lo" for st sc s lo
    using rows_accountD(2) [OF inv that] by (cases sc) (simp_all add: observations_of_observed [OF obs] grants_of_snoc)
  moreover have "mset (map permit_key (of_stage Post (gs @ [post_grant i now])))
      + mset (map row_key (filter (\<lambda>n. \<not> nr_postConsumed n) (db_nonces db'))) \<subseteq># mset (map permit_key (of_stage Pre gs))"
    using rows_accountD(6) [OF inv] mark_consumed_split [OF rows_accountD(3) [OF inv] mem(1) n(3)]
    by (simp add: row mark_consumed_def key mem(2))
  moreover have "nr_permitExpires y = nr_claimed y + PRE_PERMIT_LIFETIME_MS
      \<and> (\<exists>e\<in>set (of_stage Pre gs). permit_key e = row_key y \<and> gr_at e = nr_claimed y)"
    if y: "y \<in> set (db_nonces db')" for y
  proof -
    obtain x where x: "x \<in> set (db_nonces d)" "row_key x = row_key y" "nr_claimed x = nr_claimed y" "nr_permitExpires x = nr_permitExpires y"
      using y by (auto simp: row mark_consumed_def row_key_def split: if_splits)
    then show ?thesis using rows_accountD(5) [OF inv x(1)] by simp
  qed
  moreover have kept: "\<exists>y\<in>set (db_nonces db'). nr_nonce x = nr_nonce y \<and> nr_retainUntil x = nr_retainUntil y"
    if "x \<in> set (db_nonces d)" for x
    using that by (intro bexI [of _ "if nr_nonce x = pi_nonce i \<and> \<not> nr_postConsumed x then x\<lparr>nr_postConsumed := True\<rparr> else x"])
      (auto simp: row mark_consumed_def)
  moreover have "\<exists>n\<in>set (db_nonces db'). nr_nonce n = gr_nonce e \<and> nr_retainUntil n = gr_at e + NONCE_RETENTION_MS"
    if "e \<in> set (of_stage Pre gs)" "now < gr_at e + NONCE_RETENTION_MS" for e
    using rows_accountD(4) [OF inv that] kept by metis
  moreover have "distinct (map nr_nonce (db_nonces db'))" using rows_accountD(3) [OF inv] by (simp add: row)
  ultimately show "rows_account now db' (gs @ [post_grant i now])"
    using rows_accountD(1) [OF inv] unfolding rows_account_def by simp
  from rows_accountD(5) [OF inv mem(1)] obtain e where
    e: "e \<in> set (of_stage Pre gs)" "permit_key e = row_key n" "gr_at e = nr_claimed n" "nr_permitExpires n = nr_claimed n + PRE_PERMIT_LIFETIME_MS"
    by auto
  have "gr_at e \<le> now" using rows_accountD(1) [OF inv, of e] e(1) by (simp add: of_stage_def)
  then show "\<exists>e\<in>set (of_stage Pre gs). permit_key e = permit_key (post_grant i now) \<and> gr_at e \<le> now \<and> now < gr_at e + PRE_PERMIT_LIFETIME_MS"
    using e n(2) key by (auto simp: nonce_matches_def intro!: bexI [of _ e])
qed

subsection \<open>The log stays sound\<close>

lemma count_rows_granted:
  assumes "rows_account now d gs" "now - window_of st sc \<le> lo" "sc = Global \<longrightarrow> s = ''*''"
  shows "count_rows st sc s lo now d = granted st sc s lo now gs"
proof -
  have "count_rows st sc s lo now d = int (length (filter (\<lambda>t. t \<le> now) (observations_of st sc s lo d)))"
    by (simp add: count_rows_def observations_of_def filter_map comp_def conj_ac)
  also have "\<dots> = granted st sc s lo now gs"
    using assms(3) by (simp add: rows_accountD(2) [OF assms(1,2)] granted_def grants_of_def filter_map comp_def conj_ac)
  finally show ?thesis .
qed

lemma granted_mono:
  assumes "lo \<le> lo'" "\<And>e. e \<in> set gs \<Longrightarrow> gr_at e \<le> hi"
  shows "granted st sc s lo' t gs \<le> granted st sc s lo hi gs"
proof -
  have "length (filter (\<lambda>e. (gr_stage e = st \<and> (sc = Client \<longrightarrow> gr_client e = s) \<and> lo < gr_at e \<and> gr_at e \<le> hi) \<and> lo' < gr_at e \<and> gr_at e \<le> t) gs)
    \<le> length (filter (\<lambda>e. gr_stage e = st \<and> (sc = Client \<longrightarrow> gr_client e = s) \<and> lo < gr_at e \<and> gr_at e \<le> hi) gs)"
    by (induction gs) auto
  moreover have "filter (\<lambda>e. gr_stage e = st \<and> (sc = Client \<longrightarrow> gr_client e = s) \<and> lo' < gr_at e \<and> gr_at e \<le> t) gs
    = filter (\<lambda>e. (gr_stage e = st \<and> (sc = Client \<longrightarrow> gr_client e = s) \<and> lo < gr_at e \<and> gr_at e \<le> hi) \<and> lo' < gr_at e \<and> gr_at e \<le> t) gs"
    using assms by (intro filter_cong) auto
  ultimately show ?thesis by (simp add: granted_def)
qed

lemma window_snoc:
  assumes "granted st sc s (t - w) t gs \<le> k" and "\<And>e. e \<in> set gs \<Longrightarrow> gr_at e \<le> gr_at g"
    and "gr_stage g = st \<Longrightarrow> (sc = Client \<longrightarrow> gr_client g = s) \<Longrightarrow> granted st sc s (gr_at g - w) (gr_at g) gs < k"
  shows "granted st sc s (t - w) t (gs @ [g]) \<le> k"
proof (cases "gr_stage g = st \<and> (sc = Client \<longrightarrow> gr_client g = s) \<and> t - w < gr_at g \<and> gr_at g \<le> t")
  case True
  then have "granted st sc s (t - w) t gs < k"
    using granted_mono [of "gr_at g - w" "t - w" gs "gr_at g" st sc s t] assms(2,3) by force
  then show ?thesis using True by (simp add: granted_def)
next
  case False
  then have "granted st sc s (t - w) t (gs @ [g]) = granted st sc s (t - w) t gs" by (auto simp: granted_def)
  then show ?thesis using assms(1) by simp
qed

lemma granted_Global: "granted st Global c lo hi gs = granted st Global ''*'' lo hi gs"
  by (simp add: granted_def)

lemma pre_limited_granted:
  assumes "rows_account now d gs"
  shows "pre_limited c now d \<longleftrightarrow> granted Pre Client c (now - 60000) now gs \<ge> 3
    \<or> granted Pre Client c (now - 600000) now gs \<ge> 30 \<or> granted Pre Global ''*'' (now - 60000) now gs \<ge> 300"
  by (simp add: pre_limited_def count_rows_granted [OF assms] admissionPolicy_def window_of_def)

lemma post_limited_granted:
  assumes "rows_account now d gs"
  shows "post_limited c now d \<longleftrightarrow> granted Post Client c (now - 600000) now gs \<ge> 5
    \<or> granted Post Global ''*'' (now - 60000) now gs \<ge> 100"
  by (simp add: post_limited_def count_rows_granted [OF assms] admissionPolicy_def window_of_def)

lemma within_windows_snoc:
  assumes "within_windows gs" "rows_account now d gs" "gr_at g = now"
    and "gr_stage g = Pre \<Longrightarrow> \<not> pre_limited (gr_client g) now d"
    and "gr_stage g = Post \<Longrightarrow> \<not> post_limited (gr_client g) now d"
  shows "within_windows (gs @ [g])"
  unfolding within_windows_def
proof (intro allI conjI)
  fix t c
  note old = assms(1) [unfolded within_windows_def, rule_format, of c t]
  note before = rows_accountD(1) [OF assms(2)]
  note limits = assms(3-5) pre_limited_granted [OF assms(2)] post_limited_granted [OF assms(2)]
  show "granted Pre Client c (t - 60000) t (gs @ [g]) \<le> 3" using old before limits by (intro window_snoc) auto
  show "granted Pre Client c (t - 600000) t (gs @ [g]) \<le> 30" using old before limits by (intro window_snoc) auto
  show "granted Pre Global c (t - 60000) t (gs @ [g]) \<le> 300"
    using old before limits by (intro window_snoc) (auto simp: granted_Global [of _ c])
  show "granted Post Client c (t - 600000) t (gs @ [g]) \<le> 5" using old before limits by (intro window_snoc) auto
  show "granted Post Global c (t - 60000) t (gs @ [g]) \<le> 100"
    using old before limits by (intro window_snoc) (auto simp: granted_Global [of _ c])
qed

lemma assertIngressFresh_Inr:
  "assertIngressFresh iat now = Inr () \<Longrightarrow> iat \<le> now + INGRESS_FUTURE_SKEW_MS \<and> now - INGRESS_MAX_AGE_MS \<le> iat"
  by (auto simp: assertIngressFresh_def split: if_splits)

lemma grants_sound_claim:
  assumes "grants_sound gs" "rows_account now d gs" "ci_nonce i \<notin> nr_nonce ` set (db_nonces d)"
    and "assertIngressFresh (ci_issuedAtMs i) now = Inr ()" "\<not> pre_limited (ci_clientPseudonym i) now d"
  shows "grants_sound (gs @ [pre_grant i permit now])"
proof -
  let ?g = "pre_grant i permit now"
  note fresh = assertIngressFresh_Inr [OF assms(4)]
  have "gr_issued e \<noteq> ci_issuedAtMs i" if "e \<in> set (of_stage Pre gs)" "gr_nonce e = ci_nonce i" for e
  proof -
    have "gr_at e + NONCE_RETENTION_MS \<le> now"
      using rows_accountD(4) [OF assms(2) that(1)] assms(3) that(2) by force
    moreover have "gr_issued e \<le> gr_at e + INGRESS_FUTURE_SKEW_MS" using assms(1) that(1) by (auto simp: grants_sound_def)
    ultimately show ?thesis
      using fresh by (simp add: NONCE_RETENTION_MS_def INGRESS_FUTURE_SKEW_MS_def INGRESS_MAX_AGE_MS_def)
  qed
  then have "distinct (map (\<lambda>e. (gr_nonce e, gr_issued e)) (of_stage Pre (gs @ [?g])))"
    using assms(1) by (force simp: grants_sound_def pre_grant_def)
  moreover have "within_windows (gs @ [?g])"
    using assms(1,2,5) by (intro within_windows_snoc [of gs now d]) (simp_all add: grants_sound_def pre_grant_def)
  ultimately show ?thesis
    using assms(1) fresh by (auto simp: grants_sound_def pre_grant_def)
qed

lemma grants_sound_post:
  assumes "grants_sound gs" "rows_account now d gs" "\<not> post_limited (pi_clientPseudonym i) now d"
    and "\<exists>e\<in>set (of_stage Pre gs). permit_key e = permit_key (post_grant i now) \<and> gr_at e \<le> now \<and> now < gr_at e + PRE_PERMIT_LIFETIME_MS"
  shows "grants_sound (gs @ [post_grant i now])"
proof -
  have "within_windows (gs @ [post_grant i now])"
    using assms(1-3) by (intro within_windows_snoc [of gs now d]) (simp_all add: grants_sound_def post_grant_def)
  moreover have "gr_stage (post_grant i now) = Post" "gr_at (post_grant i now) = now" by (simp_all add: post_grant_def)
  ultimately show ?thesis using assms(1,4) by (auto simp: grants_sound_def)
qed

lemma accounts_same_rows: "accounts cs db gs \<Longrightarrow> same_rows db db' \<Longrightarrow> accounts cs db' gs"
  by (simp add: accounts_def same_rows_def rows_account_def observations_of_def split: option.splits)

lemma accounts_mono: "accounts cs db gs \<Longrightarrow> cs \<subseteq> cs' \<Longrightarrow> accounts cs' db gs"
  by (auto simp: accounts_def split: option.splits)

lemma accounts_hi:
  assumes "accounts cs db gs" "db_meta db = Some m" "mt_lastNow m \<le> now" "\<And>c. c \<in> cs \<Longrightarrow> c \<le> now"
  obtains hi where "hi \<le> now" "rows_account hi db gs" "grants_sound gs"
  using assms by (auto simp: accounts_def)

lemma accounts_claim:
  assumes acc: "accounts cs db gs" and cs: "\<And>c. c \<in> cs \<Longrightarrow> c \<le> now"
    and run: "serve opts (now, ClaimReq permit attempt i) (db, gs) = (db', gs')"
  shows "accounts cs db' gs'"
proof -
  obtain d r where c: "claimPre opts now permit attempt i db = (d, r)" by fastforce
  have [simp]: "d = db'" using run c by (auto split: pre_decision.splits)
  from claimPre_effect [OF c] show ?thesis
  proof (elim disjE conjE exE)
    assume "same_rows db d" "\<forall>p e. r \<noteq> PreAllowed p e"
    then show ?thesis using run c accounts_same_rows [OF acc] by (auto split: pre_decision.splits)
  next
    fix m assume m: "db_meta db = Some m" "mt_lastNow m \<le> now" "db_meta d = Some (m\<lparr>mt_lastNow := now\<rparr>)"
      and f: "\<forall>p e. r \<noteq> PreAllowed p e" "forgets now db d"
    obtain hi where "hi \<le> now" "rows_account hi db gs" "grants_sound gs" using accounts_hi [OF acc m(1,2) cs] .
    then have "accounts cs d gs" using m(3) rows_account_forgets [OF _ f(2)] by (auto simp: accounts_def)
    moreover have "gs' = gs" using run c f(1) by (auto split: pre_decision.splits)
    ultimately show ?thesis by simp
  next
    fix m assume m: "db_meta db = Some m" "mt_lastNow m \<le> now" "db_meta d = Some (m\<lparr>mt_lastNow := now\<rparr>)"
      and r: "r = PreAllowed permit (now + PRE_PERMIT_LIFETIME_MS)"
      and a: "assertIngressFresh (ci_issuedAtMs i) now = Inr ()"
        "exactlyOne (\<lambda>n. nr_nonce n = ci_nonce i) (db_nonces (seen now m db)) = None"
        "\<not> pre_limited (ci_clientPseudonym i) now (seen now m db)"
        "observed Pre (ci_clientPseudonym i) now (seen now m db) d"
        "db_nonces d = db_nonces (seen now m db) @ [claimed_row i permit now]"
    obtain hi where hi: "hi \<le> now" "rows_account hi db gs" "grants_sound gs" using accounts_hi [OF acc m(1,2) cs] .
    note s = rows_account_forgets [OF hi(2) seen_forgets hi(1), of m]
    note t = rows_account_claim [OF s a(2,4,5)]
    have "accounts cs d (gs @ [pre_grant i permit now])"
      using m(3) t(1) grants_sound_claim [OF hi(3) s t(2) a(1,3)] by (auto simp: accounts_def)
    then show ?thesis using run c r by simp
  qed
qed

lemma accounts_post:
  assumes acc: "accounts cs db gs" and cs: "\<And>c. c \<in> cs \<Longrightarrow> c \<le> now"
    and run: "serve opts (now, PostReq attempt i) (db, gs) = (db', gs')"
  shows "accounts cs db' gs'"
proof -
  obtain d r where c: "consumePost opts now attempt i db = (d, r)" by fastforce
  have [simp]: "d = db'" using run c by (auto split: post_decision.splits)
  from consumePost_effect [OF c] show ?thesis
  proof (elim disjE conjE exE)
    assume "same_rows db d" "r \<noteq> PostAllowed"
    then show ?thesis using run c accounts_same_rows [OF acc] by (auto split: post_decision.splits)
  next
    fix m assume m: "db_meta db = Some m" "mt_lastNow m \<le> now" "db_meta d = Some (m\<lparr>mt_lastNow := now\<rparr>)"
      and f: "r \<noteq> PostAllowed" "forgets now db d"
    obtain hi where "hi \<le> now" "rows_account hi db gs" "grants_sound gs" using accounts_hi [OF acc m(1,2) cs] .
    then have "accounts cs d gs" using m(3) rows_account_forgets [OF _ f(2)] by (auto simp: accounts_def)
    moreover have "gs' = gs" using run c f(1) by (auto split: post_decision.splits)
    ultimately show ?thesis by simp
  next
    fix m n assume m: "db_meta db = Some m" "mt_lastNow m \<le> now" "db_meta d = Some (m\<lparr>mt_lastNow := now\<rparr>)"
      and r: "r = PostAllowed"
      and a: "exactlyOne (\<lambda>n. nr_nonce n = pi_nonce i) (db_nonces (seen now m db)) = Some n" "nonce_matches i now n" "\<not> nr_postConsumed n"
        "\<not> post_limited (pi_clientPseudonym i) now (seen now m db)"
        "observed Post (pi_clientPseudonym i) now (seen now m db) d"
        "db_nonces d = db_nonces (mark_consumed (pi_nonce i) (seen now m db))"
    obtain hi where hi: "hi \<le> now" "rows_account hi db gs" "grants_sound gs" using accounts_hi [OF acc m(1,2) cs] .
    note s = rows_account_forgets [OF hi(2) seen_forgets hi(1), of m]
    note t = rows_account_post [OF s a(1-3,5,6)]
    have "accounts cs d (gs @ [post_grant i now])"
      using m(3) t(1) grants_sound_post [OF hi(3) s a(4) t(2)] by (auto simp: accounts_def)
    then show ?thesis using run c r by simp
  qed
qed

lemma accounts_serve:
  assumes acc: "accounts cs db gs" and cs: "\<And>c. c \<in> cs \<Longrightarrow> c \<le> fst op"
    and run: "serve opts op (db, gs) = (db', gs')"
  shows "accounts (cs \<union> (if is_cleanup (snd op) then {fst op} else {})) db' gs'"
proof (cases op)
  case (Pair now req)
  show ?thesis
  proof (cases req)
    case (ClaimReq permit attempt i)
    then show ?thesis using accounts_claim [OF acc, of now opts permit attempt i db' gs'] cs run Pair by simp
  next
    case (PostReq attempt i)
    then show ?thesis using accounts_post [OF acc, of now opts attempt i db' gs'] cs run Pair by simp
  next
    case (CleanupReq k)
    then have c: "cleanup opts now k db = (db', snd (cleanup opts now k db))" "gs' = gs"
      using run Pair by (simp_all add: prod_eq_iff)
    from cleanup_effect [OF c(1)] show ?thesis
    proof (elim disjE exE conjE)
      assume "same_rows db db'"
      then show ?thesis using accounts_mono [OF accounts_same_rows [OF acc]] c(2) by simp
    next
      fix m assume m: "db_meta db = Some m" "db_meta db' = Some m" "mt_lastNow m \<le> now" "forgets now db db'"
      obtain hi where "hi \<le> now" "rows_account hi db gs" "grants_sound gs"
        using accounts_hi [OF acc m(1,3)] cs Pair by auto
      then have "rows_account now db' gs" using rows_account_forgets m(4) by blast
      then show ?thesis using m \<open>grants_sound gs\<close> c(2) CleanupReq Pair by (auto simp: accounts_def)
    qed
  next
    case (InitReq aid ep spec c)
    then have i: "initializeAuthority aid ep spec c db = (db', snd (initializeAuthority aid ep spec c db))" "gs' = gs"
      using run Pair by (simp_all add: prod_eq_iff)
    have "rows_account (mt_lastNow m) db' []" if "db_nonces db' = []" "db_observations db' = []" for m :: meta_row
      using that by (simp add: rows_account_def observations_of_def grants_of_def of_stage_def)
    then show ?thesis using initializeAuthority_rows [OF i(1)] acc i(2) InitReq Pair
      by (auto simp: accounts_def rows_account_def observations_of_def split: option.splits)
  next
    case (RotateReq i c)
    then have "rotateAuthorityRelease i c db = (db', snd (rotateAuthorityRelease i c db))" "gs' = gs"
      using run Pair by (simp_all add: prod_eq_iff)
    then show ?thesis using rotateAuthorityRelease_rows accounts_same_rows [OF acc] RotateReq Pair by auto
  qed
qed

lemma history_accounts:
  assumes "cleanups_not_ahead ops" "history opts ops = (db, gs)"
  shows "accounts (fst ` {op \<in> set ops. is_cleanup (snd op)}) db gs"
  using assms
proof (induction ops arbitrary: db gs rule: rev_induct)
  case Nil
  then show ?case
    by (auto simp: history_def accounts_def grants_sound_def of_stage_def within_windows_def granted_def empty_db_def)
next
  case (snoc op ops)
  obtain d g where h: "history opts ops = (d, g)" by fastforce
  then have run: "serve opts op (d, g) = (db, gs)" using snoc.prems(2) by (simp add: history_def)
  have "accounts (fst ` {op \<in> set ops. is_cleanup (snd op)}) d g"
    using snoc.IH h snoc.prems(1) by (simp add: cleanups_not_ahead_def sorted_wrt_append)
  moreover have "c \<le> fst op" if "c \<in> fst ` {op \<in> set ops. is_cleanup (snd op)}" for c
    using that snoc.prems(1) by (auto simp: cleanups_not_ahead_def sorted_wrt_append)
  ultimately have "accounts (fst ` {op \<in> set ops. is_cleanup (snd op)} \<union> (if is_cleanup (snd op) then {fst op} else {})) db gs"
    using run by (rule accounts_serve)
  then show ?case by (rule accounts_mono) auto
qed

lemma history_sound: "cleanups_not_ahead ops \<Longrightarrow> grants_sound (granted_log opts ops)"
  using history_accounts [of ops opts] by (cases "history opts ops") (simp add: granted_log_def accounts_def)

lemma history_permits:
  assumes "cleanups_not_ahead ops"
  shows "mset (map permit_key (of_stage Post (granted_log opts ops))) \<subseteq># mset (map permit_key (of_stage Pre (granted_log opts ops)))"
proof -
  obtain db gs where h: "history opts ops = (db, gs)" by fastforce
  have "mset (map permit_key (of_stage Post gs)) \<subseteq># mset (map permit_key (of_stage Pre gs))"
  proof (cases "db_meta db")
    case None
    then show ?thesis using history_accounts [OF assms h] by (simp add: accounts_def of_stage_def)
  next
    case (Some m)
    then obtain hi where "rows_account hi db gs" using history_accounts [OF assms h] by (auto simp: accounts_def)
    from rows_accountD(6) [OF this] show ?thesis by (rule subset_mset.order_trans [rotated]) simp
  qed
  then show ?thesis by (simp add: granted_log_def h)
qed

subsection \<open>A sample history\<close>

lemma isOpaque_encode: "b \<noteq> [] \<Longrightarrow> length b = n \<Longrightarrow> isOpaque (b64_encode b) n"
proof -
  have "CHR ''='' \<notin> set (b64_encode b)"
    using b64_encode_alphabet [of b] by (auto simp: list_all_iff is_b64url_char_def is_alnum_def is_digit_def is_upper_def is_lower_def in_range_def)
  moreover assume "b \<noteq> []" "length b = n"
  ultimately show ?thesis
    using b64_encode_alphabet [of b] b64_encode_length [of b] by (simp add: isOpaque_def decodeCanonicalBase64url_def Let_def)
qed

definition opaque :: "nat \<Rightarrow> nat \<Rightarrow> string" where
  "opaque n v = b64_encode (replicate n (char_of v))"

lemma isOpaque_opaque: "0 < n \<Longrightarrow> isOpaque (opaque n v) n"
  unfolding opaque_def by (intro isOpaque_encode) auto

definition sample_options :: authority_options where
  "sample_options = \<lparr>ap_expectedAuthorityId = None, ap_expectedPolicyEpoch = None\<rparr>"

definition sample_spec :: authority_spec where
  "sample_spec = \<lparr>as_environment = Production, as_authorityId = ADMISSION_AUTHORITY_ID, as_policyEpoch = ADMISSION_POLICY_EPOCH,
     as_releaseId = ''r1'', as_releaseKeyId = ''k1'', as_nowMs = 1000000, as_confirmProduction = True\<rparr>"

definition sample_claim :: "int \<Rightarrow> claim_input" where
  "sample_claim iat = \<lparr>ci_releaseId = ''r1'', ci_clientPseudonym = opaque 32 1, ci_requestBinding = opaque 32 2,
     ci_nonce = opaque 16 3, ci_issuedAtMs = iat\<rparr>"

definition sample_post :: post_input where
  "sample_post = \<lparr>pi_releaseId = ''r1'', pi_clientPseudonym = opaque 32 1, pi_requestBinding = opaque 32 2,
     pi_nonce = opaque 16 3, pi_permit = opaque 32 4\<rparr>"

definition sample_start :: "(int \<times> request) list" where
  "sample_start = [(0, InitReq ADMISSION_AUTHORITY_ID ADMISSION_POLICY_EPOCH sample_spec None)]"

lemma schema_id: "set schema_tables \<subseteq> set (db_tables db) \<Longrightarrow> createAuthoritySchema db = db"
  by (auto simp: createAuthoritySchema_def subset_iff filter_empty_conv)

text \<open>The store after the initialization, with other rows.\<close>

definition sample_db :: "int \<Rightarrow> nonce_row list \<Rightarrow> observation_row list \<Rightarrow> authority_db" where
  "sample_db now ns ws = \<lparr>db_tables = schema_tables,
     db_meta = Some \<lparr>mt_authorityId = ADMISSION_AUTHORITY_ID, mt_policyEpoch = ADMISSION_POLICY_EPOCH, mt_lastNow = now\<rparr>,
     db_releases = [\<lparr>rr_releaseId = ''r1'', rr_keyId = ''k1'', rr_activated = 1000000, rr_retired = None\<rparr>],
     db_nonces = ns, db_observations = ws, db_receipts = [], db_coverage = False\<rparr>"

lemma schema_sample_db [simp]: "createAuthoritySchema (sample_db now ns ws) = sample_db now ns ws"
  by (rule schema_id) (simp add: sample_db_def)

lemma sample_initialized:
  "initializeAuthority ADMISSION_AUTHORITY_ID ADMISSION_POLICY_EPOCH sample_spec None empty_db = (sample_db 1000000 [] [], Inr (Initialized, None))"
  by (simp add: initializeAuthority_def sample_spec_def initialize_tx_def initialize_rows_def prior_receipt_def insert_release_def
      Let_def sample_db_def empty_db_def createAuthoritySchema_def validRelease_def validKeyId_def bounded_of_def is_release_char_def
      is_b64url_char_def is_alnum_def is_digit_def is_upper_def is_lower_def in_range_def is_safe_integer_def MAX_SAFE_INTEGER_def)

lemma sample_now:
  "prev \<le> now \<Longrightarrow> 1000000 \<le> now \<Longrightarrow> now \<le> 9007199254740991 \<Longrightarrow> authorityNow sample_options now ''r1'' (sample_db prev ns ws) = (sample_db now ns ws, Some now)"
  by (simp add: authorityNow_def sample_db_def expected_meta_def sample_options_def live_release_def exactlyOne_def is_safe_integer_def MAX_SAFE_INTEGER_def)

lemma sample_prune:
  "prune now (sample_db n ns ws) = sample_db n (filter (\<lambda>n. \<not> nr_retainUntil n \<le> now) ns) (filter (\<lambda>w. \<not> expired_observation now w) ws)"
  "db_nonces (sample_db n ns ws) = ns" "db_observations (sample_db n ns ws) = ws"
  "mark_consumed x (sample_db n ns ws) = sample_db n (map (\<lambda>n. if nr_nonce n = x \<and> \<not> nr_postConsumed n
     then n\<lparr>nr_postConsumed := True\<rparr> else n) ns) ws"
  "(sample_db n ns ws)\<lparr>db_nonces := ns'\<rparr> = sample_db n ns' ws" "(sample_db n ns ws)\<lparr>db_observations := ws'\<rparr> = sample_db n ns ws'"
  "db_meta (sample_db n ns ws) = Some \<lparr>mt_authorityId = ADMISSION_AUTHORITY_ID, mt_policyEpoch = ADMISSION_POLICY_EPOCH, mt_lastNow = n\<rparr>"
  by (simp_all add: prune_def sample_db_def mark_consumed_def)

definition client_row :: "string \<Rightarrow> stage \<Rightarrow> int \<Rightarrow> observation_row" where
  "client_row a st t = \<lparr>ow_id = a @ '':c'', ow_stage = st, ow_scope = Client, ow_subject = opaque 32 1, ow_observedAt = t\<rparr>"
definition global_row :: "string \<Rightarrow> stage \<Rightarrow> int \<Rightarrow> observation_row" where
  "global_row a st t = \<lparr>ow_id = a @ '':g'', ow_stage = st, ow_scope = Global, ow_subject = ''*'', ow_observedAt = t\<rparr>"

lemmas sample_step = sample_now sample_prune client_row_def global_row_def claimed_row_def claimPre_def claim_tx_def
  consumePost_def consume_tx_def Let_def exactlyOne_def assertIngressFresh_def INGRESS_FUTURE_SKEW_MS_def
  INGRESS_MAX_AGE_MS_def expired_observation_def window_of_def admissionPolicy_def pre_limited_def post_limited_def
  count_rows_def observe_attempt_def insert_observation_def insert_nonce_def PRE_PERMIT_LIFETIME_MS_def
  NONCE_RETENTION_MS_def nonce_matches_def is_safe_integer_def MAX_SAFE_INTEGER_def sample_claim_def sample_post_def

lemma sample_valid: "0 \<le> iat \<Longrightarrow> is_safe_integer iat \<Longrightarrow> validPre (sample_claim iat)" "validPost sample_post"
  by (simp_all add: validPre_def validPost_def sample_claim_def sample_post_def isOpaque_opaque validRelease_def bounded_of_def
      is_release_char_def is_alnum_def is_digit_def is_upper_def is_lower_def in_range_def)

abbreviation sample_claimed :: "nonce_row list" where
  "sample_claimed \<equiv> [claimed_row (sample_claim 1000000) (opaque 32 4) 1000000]"

abbreviation sample_consumed :: "nonce_row list" where
  "sample_consumed \<equiv> [claimed_row (sample_claim 1000000) (opaque 32 4) 1000000\<lparr>nr_postConsumed := True\<rparr>]"

lemma sample_claim1:
  "claimPre sample_options 1000000 (opaque 32 4) ''a'' (sample_claim 1000000) (sample_db 1000000 [] [])
   = (sample_db 1000000 sample_claimed [client_row ''a'' Pre 1000000, global_row ''a'' Pre 1000000], PreAllowed (opaque 32 4) 1060000)"
  using sample_valid(1) [of 1000000] by (simp add: sample_step)

lemma sample_claim2:
  "claimPre sample_options 1000001 (opaque 32 5) ''b'' (sample_claim 1000000)
     (sample_db 1000000 sample_claimed [client_row ''a'' Pre 1000000, global_row ''a'' Pre 1000000])
   = (sample_db 1000001 sample_claimed [client_row ''a'' Pre 1000000, global_row ''a'' Pre 1000000], PreReplay)"
  using sample_valid(1) [of 1000000] by (simp add: sample_step)

lemma sample_post1:
  "consumePost sample_options 1000002 ''c'' sample_post
     (sample_db 1000001 sample_claimed [client_row ''a'' Pre 1000000, global_row ''a'' Pre 1000000])
   = (sample_db 1000002 sample_consumed
       [client_row ''a'' Pre 1000000, global_row ''a'' Pre 1000000, client_row ''c'' Post 1000002, global_row ''c'' Post 1000002], PostAllowed)"
  using sample_valid(2) by (simp add: sample_step)

lemma sample_post2:
  "consumePost sample_options 1000003 ''d'' sample_post
     (sample_db 1000002 sample_consumed ws)
   = (sample_db 1000003 sample_consumed (filter (\<lambda>w. \<not> expired_observation 1000003 w) ws), PostReplay)"
  using sample_valid(2) by (simp add: sample_step)

definition sample_ops :: "(int \<times> request) list" where
  "sample_ops = sample_start @ [(1000000, ClaimReq (opaque 32 4) ''a'' (sample_claim 1000000)),
     (1000001, ClaimReq (opaque 32 5) ''b'' (sample_claim 1000000)), (1000002, PostReq ''c'' sample_post),
     (1000003, PostReq ''d'' sample_post)]"

lemma sample_log: "granted_log sample_options sample_ops
   = [pre_grant (sample_claim 1000000) (opaque 32 4) 1000000, post_grant sample_post 1000002]"
  by (simp add: sample_ops_def sample_start_def granted_log_def history_def sample_initialized sample_claim1 sample_claim2 sample_post1 sample_post2)

lemma sample_ops_ok: "cleanups_not_ahead sample_ops"
  by (simp add: cleanups_not_ahead_def sample_ops_def sample_start_def)

lemma sample_posts: "length (of_stage Post (granted_log sample_options sample_ops)) = 1"
  by (simp add: sample_log of_stage_def post_grant_def pre_grant_def)

subsection \<open>Properties\<close>

text \<open>C18. No request is admitted twice: in every history of the authority, from the empty object, with any clock
  readings that do not fall behind an earlier cleanup, two admissions never carry the same nonce and issue time.\<close>

theorem no_request_admitted_twice:
  assumes "cleanups_not_ahead ops"
  shows "distinct (map (\<lambda>e. (gr_nonce e, gr_issued e)) (of_stage Pre (granted_log opts ops)))"
  using history_sound [OF assms, of opts] by (simp add: grants_sound_def)

theorem no_request_admitted_twice_witness:
  "cleanups_not_ahead sample_ops \<and> granted_log sample_options sample_ops \<noteq> []
   \<and> distinct (map (\<lambda>e. (gr_nonce e, gr_issued e)) (of_stage Pre (granted_log sample_options sample_ops)))"
  using no_request_admitted_twice [OF sample_ops_ok, of sample_options] sample_ops_ok sample_log by simp

text \<open>C24. In every history of the authority in which no operation reads a time before that of an earlier cleanup, every
  consumed permit was issued, to the same release, client, request binding and nonce, less than a minute before, and no permit is
  consumed more often than it was issued.\<close>

theorem permits_consumed_as_issued:
  assumes "cleanups_not_ahead ops"
  shows "mset (map permit_key (of_stage Post (granted_log opts ops))) \<subseteq># mset (map permit_key (of_stage Pre (granted_log opts ops)))
    \<and> (\<forall>p\<in>set (of_stage Post (granted_log opts ops)). \<exists>e\<in>set (of_stage Pre (granted_log opts ops)).
         permit_key e = permit_key p \<and> gr_at e \<le> gr_at p \<and> gr_at p < gr_at e + PRE_PERMIT_LIFETIME_MS)"
  using history_sound [OF assms, of opts] history_permits [OF assms, of opts] by (simp add: grants_sound_def)

theorem permits_consumed_as_issued_witness:
  "cleanups_not_ahead sample_ops \<and> length (of_stage Post (granted_log sample_options sample_ops)) = 1
   \<and> mset (map permit_key (of_stage Post (granted_log sample_options sample_ops)))
      \<subseteq># mset (map permit_key (of_stage Pre (granted_log sample_options sample_ops)))"
  using permits_consumed_as_issued [OF sample_ops_ok, of sample_options] sample_ops_ok sample_posts by blast

text \<open>C27. The rate limits are sliding windows: in every history in which no operation reads a time before that of an earlier
  cleanup (a cleanup that runs ahead of the clock may forget observations that a later reading still has to count), no client is granted more than 3 first-stage
  admissions in any minute nor 30 in any ten minutes, nor more than 5 second-stage ones in any ten minutes, and all clients together no
  more than 300 and 100 in any minute.\<close>

theorem admission_windows_hold:
  assumes "cleanups_not_ahead ops"
  shows "granted Pre Client c (t - al_preBurstWindow admissionPolicy) t (granted_log opts ops) \<le> 3
    \<and> granted Pre Client c (t - al_preClientWindow admissionPolicy) t (granted_log opts ops) \<le> 30
    \<and> granted Pre Global c (t - al_preGlobalWindow admissionPolicy) t (granted_log opts ops) \<le> 300
    \<and> granted Post Client c (t - al_postClientWindow admissionPolicy) t (granted_log opts ops) \<le> 5
    \<and> granted Post Global c (t - al_postGlobalWindow admissionPolicy) t (granted_log opts ops) \<le> 100"
  using history_sound [OF assms, of opts] by (simp add: grants_sound_def within_windows_def admissionPolicy_def)

theorem admission_windows_hold_witness:
  "cleanups_not_ahead sample_ops \<and> granted Pre Client (opaque 32 1) (1000000 - 60000) 1000000 (granted_log sample_options sample_ops) = 1
   \<and> granted Pre Client (opaque 32 1) (1000000 - 60000) 1000000 (granted_log sample_options sample_ops) \<le> 3"
  using admission_windows_hold [OF sample_ops_ok, of "opaque 32 1" 1000000 sample_options] sample_ops_ok
  by (simp add: sample_log granted_def post_grant_def pre_grant_def sample_claim_def admissionPolicy_def)

text \<open>The clock condition is needed: \<^verbatim>\<open>cleanup\<close> checks its clock reading against \<^verbatim>\<open>last_now_ms\<close> but does not record it, so
  a cleanup that ran ahead of time forgets a nonce that is admitted again once the clock is back.\<close>

lemma sample_cleanup:
  "cleanup sample_options 1120000 500 (sample_db 1000000 sample_claimed ws)
   = (sample_db 1000000 [] (delete_first 500 (expired_observation 1120000) ws),
      Some (max 0 (int (length ws) - int (length (delete_first 500 (expired_observation 1120000) ws)))))"
  by (simp add: cleanup_def Let_def sample_prune expected_meta_def sample_options_def is_safe_integer_def MAX_SAFE_INTEGER_def claimed_row_def NONCE_RETENTION_MS_def)

lemma sample_claim3:
  "claimPre sample_options 1000001 (opaque 32 5) ''b'' (sample_claim 1000000) (sample_db 1000000 [] [client_row ''a'' Pre 1000000])
   = (sample_db 1000001 [claimed_row (sample_claim 1000000) (opaque 32 5) 1000001]
       [client_row ''a'' Pre 1000000, client_row ''b'' Pre 1000001, global_row ''b'' Pre 1000001], PreAllowed (opaque 32 5) 1060001)"
  using sample_valid(1) [of 1000000] by (simp add: sample_step)

lemma cleanup_ahead_readmits:
  "\<not> distinct (map (\<lambda>e. (gr_nonce e, gr_issued e)) (of_stage Pre (granted_log sample_options (sample_start @
     [(1000000, ClaimReq (opaque 32 4) ''a'' (sample_claim 1000000)), (1120000, CleanupReq 500),
      (1000001, ClaimReq (opaque 32 5) ''b'' (sample_claim 1000000))]))))"
proof -
  have "delete_first 500 (expired_observation 1120000) [client_row ''a'' Pre 1000000, global_row ''a'' Pre 1000000] = [client_row ''a'' Pre 1000000]"
    by (simp add: expired_observation_def client_row_def global_row_def window_of_def admissionPolicy_def)
  then show ?thesis
    by (simp add: sample_start_def granted_log_def history_def sample_initialized sample_claim1 sample_cleanup sample_claim3
        of_stage_def pre_grant_def)
qed

end
