(* ===== verification/Attestation_Coordinator.thy ===== *)
theory Attestation_Coordinator
  imports Operator_Command Admission_History
begin

text \<open>
  The producer of signed statements in the authority (\<^verbatim>\<open>workers/admission-service/authority-attestation.ts\<close>):
  \<^verbatim>\<open>initialize\<close>, \<^verbatim>\<open>rotate\<close>, \<^verbatim>\<open>attestAppliedLifecycle\<close> and \<^verbatim>\<open>attestReconciliation\<close> of \<^verbatim>\<open>AuthorityAttestationCoordinator\<close>.

  The signer is an argument: its pinned identity, whether it gets ready at a time, and what its \<^verbatim>\<open>sign\<close> answers. Every clock
  reading of a call is an argument. An \<^verbatim>\<open>AttestationUnavailableError\<close> is known by its reason, none of which is the message of
  another error; \<open>Threw\<close> is an error that the coordinator passes on.

  The theorems: whatever signed commands and admission requests an object has served, its state is one that the
  statement validator accepts, so that a ready signer always attests it; and the class of a lifecycle answer tells whether the
  tables changed.
\<close>

record signer =
  sg_environment :: environment
  sg_authorityId :: string
  sg_policyEpoch :: string
  sg_writerKeyFingerprint :: string
  sg_ready :: "int \<Rightarrow> bool"
  sg_sign :: "jval \<Rightarrow> string + bytes"

record attestation_identity =
  id_environment :: environment
  id_authorityId :: string
  id_policyEpoch :: string

definition PRODUCTION_ATTESTATION_IDENTITY :: attestation_identity where
  "PRODUCTION_ATTESTATION_IDENTITY = \<lparr>id_environment = Production, id_authorityId = ADMISSION_AUTHORITY_ID, id_policyEpoch = ADMISSION_POLICY_EPOCH\<rparr>"
definition STAGING_ATTESTATION_IDENTITY :: attestation_identity where
  "STAGING_ATTESTATION_IDENTITY = \<lparr>id_environment = Staging, id_authorityId = STAGING_ADMISSION_AUTHORITY_ID, id_policyEpoch = ADMISSION_POLICY_EPOCH\<rparr>"

datatype disposition = Applied | AlreadyApplied

datatype attested_result = Attested "disposition option" bytes | Refused | Unavailable string | Ambiguous | Threw string

definition attestation_reasons :: "string list" where
  "attestation_reasons = [''runtime-config-invalid'', ''signer-unconfigured'', ''signer-mismatch'', ''signer-not-ready'', ''authority-clock-invalid'',
     ''authority-state-unavailable'', ''receipt-not-found'', ''history-incomplete'', ''statement-invalid'', ''signing-failed'']"

definition attestLifecycleReceipt :: "signer \<Rightarrow> receipt \<Rightarrow> int \<Rightarrow> string + bytes" where
  "attestLifecycleReceipt sg r observedAtMs = sum_bind (makeLifecycleStatement
     \<lparr>li_trustEpoch = ATTESTATION_TRUST_EPOCH, li_environment = rc_environment r, li_authorityId = rc_authorityId r,
      li_policyEpoch = ATTESTATION_POLICY_EPOCH, li_digest = rc_digest r, li_receipt = attestationReceiptFromLifecycleReceipt r,
      li_observedAt = observedAtMs, li_writerKeyFingerprint = sg_writerKeyFingerprint sg\<rparr>) (sg_sign sg)"

definition prepareSigner :: "attestation_identity \<Rightarrow> signer option \<Rightarrow> int \<Rightarrow> string + signer" where
  "prepareSigner idn sgo nowMs = (case sgo of
     None \<Rightarrow> Inl ''signer-unconfigured''
   | Some sg \<Rightarrow>
       if sg_environment sg \<noteq> id_environment idn \<or> sg_authorityId sg \<noteq> id_authorityId idn \<or> sg_policyEpoch sg \<noteq> id_policyEpoch idn
       then Inl ''signer-mismatch''
       else if \<not> is_safe_time nowMs then Inl ''authority-clock-invalid''
       else if \<not> sg_ready sg nowMs then Inl ''signer-not-ready''
       else Inr sg)"

text \<open>\<^verbatim>\<open>lifecycleMutation\<close>: the execution with its preflight, then the evidence. The readings are those of the preparation,
  of the final freshness check and of the statement.\<close>

definition lifecycleMutation ::
  "attestation_identity \<Rightarrow> signer option \<Rightarrow> int \<Rightarrow> int
   \<Rightarrow> (string + unit \<Rightarrow> authority_db \<times> (string + lifecycle_result)) \<Rightarrow> lifecycle_status \<Rightarrow> authority_db \<times> attested_result" where
  "lifecycleMutation idn sgo t1 t3 execute initialStatus =
     (let prepared = prepareSigner idn sgo t1; preflight = (case prepared of Inl e \<Rightarrow> Inl e | Inr _ \<Rightarrow> Inr ()) in
      case execute preflight of
        (db, Inl e) \<Rightarrow> (db, if e \<in> set attestation_reasons then Unavailable e else if isLifecycleRefusal e then Refused else Threw e)
      | (db, Inr (status, r)) \<Rightarrow>
          (case (prepared, r) of
             (Inr sg, Some rc) \<Rightarrow> (case attestLifecycleReceipt sg rc t3 of
                 Inl e \<Rightarrow> (db, Ambiguous)
               | Inr envelope \<Rightarrow> (db, Attested (Some (if status = initialStatus then Applied else AlreadyApplied)) envelope))
           | _ \<Rightarrow> (db, Ambiguous)))"

definition coordinator_initialize ::
  "'k crypto \<Rightarrow> (string \<Rightarrow> int option) \<Rightarrow> attestation_identity \<Rightarrow> string \<Rightarrow> signer option \<Rightarrow> int \<Rightarrow> int \<Rightarrow> int \<Rightarrow> jval \<Rightarrow> string
   \<Rightarrow> authority_db \<Rightarrow> authority_db \<times> attested_result" where
  "coordinator_initialize cr number idn pk sgo t1 t2 t3 c signature db = lifecycleMutation idn sgo t1 t3
     (\<lambda>preflight. executeSignedAuthorityInitialization cr number c signature pk (id_environment idn) preflight t2 db) Initialized"

definition coordinator_rotate ::
  "'k crypto \<Rightarrow> (string \<Rightarrow> int option) \<Rightarrow> attestation_identity \<Rightarrow> string \<Rightarrow> signer option \<Rightarrow> int \<Rightarrow> int \<Rightarrow> int \<Rightarrow> jval \<Rightarrow> string
   \<Rightarrow> authority_db \<Rightarrow> authority_db \<times> attested_result" where
  "coordinator_rotate cr number idn pk sgo t1 t2 t3 c signature db =
     (if id_environment idn \<noteq> Production then (db, Refused)
      else lifecycleMutation idn sgo t1 t3
        (\<lambda>preflight. executeSignedAuthorityReleaseRotation cr number c signature pk Production preflight t2 db) Rotated)"

definition attestAppliedLifecycle :: "attestation_identity \<Rightarrow> signer option \<Rightarrow> int \<Rightarrow> int \<Rightarrow> string \<Rightarrow> authority_db \<Rightarrow> attested_result" where
  "attestAppliedLifecycle idn sgo t1 t2 digest db =
     (if \<not> isLowerHex64 digest then Refused
      else case prepareSigner idn sgo t1 of
        Inl e \<Rightarrow> Unavailable e
      | Inr sg \<Rightarrow>
          if \<not> is_safe_time t2 then Unavailable ''authority-clock-invalid''
          else (case inspectLifecycleAuthority digest t2 (id_authorityId idn) (id_policyEpoch idn) db of
              Inl e \<Rightarrow> Unavailable ''authority-state-unavailable''
            | Inr None \<Rightarrow> Unavailable ''authority-state-unavailable''
            | Inr (Some ob) \<Rightarrow>
                if ao_status ob = HistoryIncomplete then Unavailable ''history-incomplete''
                else (case (ao_status ob, ao_receipt ob) of
                    (ExactReceipt, Some r) \<Rightarrow> (case attestLifecycleReceipt sg r t2 of
                        Inl e \<Rightarrow> Unavailable ''signing-failed''
                      | Inr envelope \<Rightarrow> Attested (Some AlreadyApplied) envelope)
                  | _ \<Rightarrow> Unavailable ''receipt-not-found'')))"

definition reconciliation_of :: "signer \<Rightarrow> string \<Rightarrow> string \<Rightarrow> authority_observation \<Rightarrow> reconciliation_input" where
  "reconciliation_of sg digest nonce ob =
     \<lparr>re_trustEpoch = ATTESTATION_TRUST_EPOCH, re_environment = ao_environment ob, re_authorityId = ao_authorityId ob,
      re_policyEpoch = ATTESTATION_POLICY_EPOCH, re_digest = digest, re_nonce = nonce, re_initialized = ao_initialized ob,
      re_complete = ao_complete ob, re_status = ao_status ob, re_receipt = map_option attestationReceiptFromLifecycleReceipt (ao_receipt ob),
      re_releases = ao_releases ob, re_observedAt = ao_observedAt ob, re_writerKeyFingerprint = sg_writerKeyFingerprint sg\<rparr>"

definition attestReconciliation ::
  "attestation_identity \<Rightarrow> signer option \<Rightarrow> int \<Rightarrow> int \<Rightarrow> string \<Rightarrow> string \<Rightarrow> authority_db \<Rightarrow> attested_result" where
  "attestReconciliation idn sgo t1 t2 digest nonce db =
     (if \<not> isLowerHex64 digest \<or> \<not> is_hex 32 nonce then Refused
      else case prepareSigner idn sgo t1 of
        Inl e \<Rightarrow> Unavailable e
      | Inr sg \<Rightarrow>
          if \<not> is_safe_time t2 then Unavailable ''authority-clock-invalid''
          else (case inspectLifecycleAuthority digest t2 (id_authorityId idn) (id_policyEpoch idn) db of
              Inl e \<Rightarrow> Unavailable ''authority-state-unavailable''
            | Inr None \<Rightarrow> Unavailable ''authority-state-unavailable''
            | Inr (Some ob) \<Rightarrow> (case makeReconciliationStatement (reconciliation_of sg digest nonce ob) of
                Inl e \<Rightarrow> Unavailable ''statement-invalid''
              | Inr st \<Rightarrow> (case sg_sign sg st of Inl e \<Rightarrow> Unavailable ''signing-failed'' | Inr envelope \<Rightarrow> Attested None envelope))))"

subsection \<open>The state of an authority object\<close>

text \<open>The calls that change the store of an object, and what they leave.\<close>

datatype object_call =
  CommandCall bool jval string int int int
| AdmissionCall int request

definition admission_request :: "request \<Rightarrow> bool" where
  "admission_request q \<longleftrightarrow> (case q of ClaimReq _ _ _ \<Rightarrow> True | PostReq _ _ \<Rightarrow> True | CleanupReq _ \<Rightarrow> True | _ \<Rightarrow> False)"

fun object_step ::
  "'k crypto \<Rightarrow> (string \<Rightarrow> int option) \<Rightarrow> attestation_identity \<Rightarrow> string \<Rightarrow> signer option \<Rightarrow> authority_options \<Rightarrow> object_call \<Rightarrow> authority_db \<Rightarrow> authority_db" where
  "object_step cr number idn pk sgo opts (CommandCall rotation c signature t1 t2 t3) db =
     fst ((if rotation then coordinator_rotate else coordinator_initialize) cr number idn pk sgo t1 t2 t3 c signature db)"
| "object_step cr number idn pk sgo opts (AdmissionCall now q) db =
     (if admission_request q then fst (serve opts (now, q) (db, [])) else db)"

definition clocks_ok :: "object_call \<Rightarrow> bool" where
  "clocks_ok k = (case k of CommandCall _ _ _ _ t2 _ \<Rightarrow> 0 \<le> t2 | AdmissionCall _ _ \<Rightarrow> True)"

definition object_state ::
  "'k crypto \<Rightarrow> (string \<Rightarrow> int option) \<Rightarrow> attestation_identity \<Rightarrow> string \<Rightarrow> signer option \<Rightarrow> authority_options \<Rightarrow> object_call list \<Rightarrow> authority_db" where
  "object_state cr number idn pk sgo opts calls = fold (object_step cr number idn pk sgo opts) calls empty_db"

definition identity_of :: "environment \<Rightarrow> attestation_identity" where
  "identity_of env = (case env of Production \<Rightarrow> PRODUCTION_ATTESTATION_IDENTITY | Staging \<Rightarrow> STAGING_ATTESTATION_IDENTITY)"

lemma identity_fields [simp]: "id_environment (identity_of env) = env" "id_authorityId (identity_of env) = authority_id_of env"
  "id_policyEpoch (identity_of env) = ADMISSION_POLICY_EPOCH"
  by (cases env; simp add: identity_of_def authority_id_of_def PRODUCTION_ATTESTATION_IDENTITY_def STAGING_ATTESTATION_IDENTITY_def)+

text \<open>Admission requests touch the lifecycle tables only by raising the clock.\<close>

definition clock_raised :: "authority_db \<Rightarrow> authority_db \<Rightarrow> bool" where
  "clock_raised db db' \<longleftrightarrow> db_releases db' = db_releases db \<and> db_receipts db' = db_receipts db \<and> db_coverage db' = db_coverage db
     \<and> set (db_tables db) \<subseteq> set (db_tables db')
     \<and> (db_meta db' = db_meta db \<or> (\<exists>m now. db_meta db = Some m \<and> mt_lastNow m \<le> now \<and> db_meta db' = Some (m\<lparr>mt_lastNow := now\<rparr>)))"

lemma schema_tables_mono: "set (db_tables db) \<subseteq> set (db_tables (createAuthoritySchema db))"
  by (auto simp: createAuthoritySchema_def)

lemma observe_attempt_frame: "observe_attempt a st c now db = Inr db2 \<Longrightarrow> db_releases db2 = db_releases db \<and> db_receipts db2 = db_receipts db
    \<and> db_coverage db2 = db_coverage db \<and> db_tables db2 = db_tables db \<and> db_meta db2 = db_meta db"
  using observe_attempt_Inr by fastforce

lemma authorityNow_frame:
  assumes "authorityNow opts now rel db = (db1, r)"
  shows "db_releases db1 = db_releases db \<and> db_receipts db1 = db_receipts db \<and> db_coverage db1 = db_coverage db \<and> db_tables db1 = db_tables db
    \<and> (db_meta db1 = db_meta db \<or> (\<exists>m now. db_meta db = Some m \<and> mt_lastNow m \<le> now \<and> db_meta db1 = Some (m\<lparr>mt_lastNow := now\<rparr>)))"
  using assms by (auto simp: authorityNow_def not_less split: option.splits if_splits)

lemma prune_frame [simp]: "db_releases (prune now db) = db_releases db" "db_receipts (prune now db) = db_receipts db"
  "db_coverage (prune now db) = db_coverage db" "db_tables (prune now db) = db_tables db" "db_meta (prune now db) = db_meta db"
  by (simp_all add: prune_def)

lemma mark_consumed_frame [simp]: "db_releases (mark_consumed x db) = db_releases db" "db_receipts (mark_consumed x db) = db_receipts db"
  "db_coverage (mark_consumed x db) = db_coverage db" "db_tables (mark_consumed x db) = db_tables db" "db_meta (mark_consumed x db) = db_meta db"
  by (simp_all add: mark_consumed_def)

lemma claim_tx_frame:
  assumes "claim_tx opts now permit attempt i db = Inr (db', r)"
  shows "clock_raised db db'"
proof -
  obtain db1 rn where an: "authorityNow opts now (ci_releaseId i) db = (db1, rn)" by fastforce
  show ?thesis using assms authorityNow_frame [OF an] an
    by (auto simp: claim_tx_def Let_def sum_bind_Inr_iff insert_nonce_def clock_raised_def
        split: option.splits sum.splits if_splits dest!: observe_attempt_frame)
qed

lemma consume_tx_frame:
  assumes "consume_tx opts now attempt i db = Inr (db', r)"
  shows "clock_raised db db'"
proof -
  obtain db1 rn where an: "authorityNow opts now (pi_releaseId i) db = (db1, rn)" by fastforce
  show ?thesis using assms authorityNow_frame [OF an] an
    by (auto simp: consume_tx_def Let_def sum_bind_Inr_iff clock_raised_def
        split: option.splits sum.splits if_splits dest!: observe_attempt_frame)
qed

lemma clock_raised_schema: "clock_raised (createAuthoritySchema db) db' \<Longrightarrow> clock_raised db db'"
  using schema_tables_mono [of db] by (auto simp: clock_raised_def)

lemma clock_raised_refl [simp]: "clock_raised db db" "clock_raised db (createAuthoritySchema db)"
  using schema_tables_mono [of db] by (auto simp: clock_raised_def)

lemma claimPre_frame: "claimPre opts now permit attempt i db = (db', r) \<Longrightarrow> clock_raised db db'"
  by (auto simp: claimPre_def Let_def split: if_splits sum.splits intro: clock_raised_schema claim_tx_frame)

lemma consumePost_frame: "consumePost opts now attempt i db = (db', r) \<Longrightarrow> clock_raised db db'"
  by (auto simp: consumePost_def Let_def split: if_splits sum.splits intro: clock_raised_schema consume_tx_frame)

lemma cleanup_frame: "cleanup opts now k db = (db', r) \<Longrightarrow> clock_raised db db'"
  using schema_tables_mono [of db] by (auto simp: cleanup_def Let_def clock_raised_def split: if_splits option.splits)

lemma clock_raised_inv: "store_inv env db \<Longrightarrow> clock_raised db db' \<Longrightarrow> store_inv env db'"
  by (auto simp: store_inv_def receipts_inv_def releases_inv_def clock_raised_def one_release_def split: option.splits)

lemma admission_step_inv:
  assumes "store_inv env db" "admission_request q"
  shows "store_inv env (fst (serve opts (now, q) (db, gs)))"
proof -
  have "clock_raised db (fst (serve opts (now, q) (db, gs)))"
    using assms(2) by (cases q) (auto simp: admission_request_def split: prod.splits pre_decision.splits post_decision.splits
        dest: claimPre_frame consumePost_frame intro: cleanup_frame [OF surjective_pairing])
  then show ?thesis using clock_raised_inv [OF assms(1)] by blast
qed

lemma lifecycleMutation_db: "fst (lifecycleMutation idn sgo t1 t3 execute st0)
    = fst (execute (case prepareSigner idn sgo t1 of Inl e \<Rightarrow> Inl e | Inr _ \<Rightarrow> Inr ()))"
  by (auto simp: lifecycleMutation_def Let_def split: prod.splits sum.splits option.splits)

lemma object_step_inv:
  assumes "store_inv env db" "\<And>b. length (cr_sha256 cr b) = 32" "clocks_ok k"
  shows "store_inv env (object_step cr number (identity_of env) pk sgo opts k db)"
proof (cases k)
  case (CommandCall rotation c signature t1 t2 t3)
  then have "0 \<le> t2" using assms(3) by (simp add: clocks_ok_def)
  with CommandCall show ?thesis
    using signed_initialization_inv [OF assms(1,2)] signed_rotation_inv [OF assms(1,2)] assms(1)
    by (auto simp: coordinator_initialize_def coordinator_rotate_def lifecycleMutation_db split: if_splits)
      (metis prod.collapse)+
next
  case (AdmissionCall now q)
  then show ?thesis using admission_step_inv [of env db q] assms(1) by simp
qed

lemma object_state_inv:
  assumes "\<And>b. length (cr_sha256 cr b) = 32" "list_all clocks_ok calls"
  shows "store_inv env (object_state cr number (identity_of env) pk sgo opts calls)"
proof -
  have "store_inv env db \<Longrightarrow> store_inv env (fold (object_step cr number (identity_of env) pk sgo opts) calls db)" for db
    using assms(2)
  proof (induction calls arbitrary: db)
    case (Cons k calls)
    then show ?case using object_step_inv [OF _ assms(1)] by simp
  qed simp
  then show ?thesis using empty_db_inv by (simp add: object_state_def)
qed

subsection \<open>The state is one the validator accepts\<close>

lemma sorted_releases:
  assumes "one_release n rows \<or> two_releases rows"
  shows "take 3 (sort_key rr_activated rows) = rows"
  using assms by (auto simp: one_release_def two_releases_def)

lemma inspect_store:
  assumes "store_inv env db" "isLowerHex64 digest" "is_safe_time now"
  shows "\<exists>ob. inspectLifecycleAuthority digest now (authority_id_of env) ADMISSION_POLICY_EPOCH db = Inr (Some ob)
    \<and> ao_environment ob = env \<and> ao_authorityId ob = authority_id_of env \<and> ao_observedAt ob = now
    \<and> (ao_releases ob = [] \<and> \<not> ao_initialized ob \<and> ao_complete ob \<and> ao_status ob = NotFound \<and> ao_receipt ob = None
      \<or> ao_initialized ob \<and> ao_releases ob = db_releases db
        \<and> (\<exists>m. db_meta db = Some m \<and> (two_releases (db_releases db) \<and> env = Production \<or> one_release (mt_lastNow m) (db_releases db)))
        \<and> (\<not> ao_complete ob \<and> ao_status ob = HistoryIncomplete \<and> ao_receipt ob = None
          \<or> ao_complete ob \<and> ao_status ob = NotFound \<and> ao_receipt ob = None
          \<or> ao_complete ob \<and> ao_status ob = ExactReceipt \<and> (\<exists>r\<in>set (db_receipts db). ao_receipt ob = Some r \<and> rc_digest r = digest)))"
proof -
  have env: "(if authority_id_of env = STAGING_ADMISSION_AUTHORITY_ID then Staging else Production) = env"
    by (cases env) (simp_all add: authority_id_of_def ADMISSION_AUTHORITY_ID_def STAGING_ADMISSION_AUTHORITY_ID_def)
  have t: "is_safe_integer now" "\<not> now < 0" using assms(3) by (simp_all add: is_safe_time_def)
  show ?thesis
  proof (cases "db_meta db")
    case None
    then have "db_releases db = []" using assms(1) by (simp add: store_inv_def releases_inv_def)
    then show ?thesis using None assms(2) t env by (auto simp: inspectLifecycleAuthority_def Let_def)
  next
    case (Some m)
    then have m: "mt_authorityId m = authority_id_of env" "mt_policyEpoch m = ADMISSION_POLICY_EPOCH" "set schema_tables \<subseteq> set (db_tables db)"
      "two_releases (db_releases db) \<and> env = Production \<or> one_release (mt_lastNow m) (db_releases db)"
      using assms(1) by (auto simp: store_inv_def releases_inv_def)
    have rows: "take 3 (sort_key rr_activated (db_releases db)) = db_releases db" using m(4) sorted_releases by blast
    have tables: "''authority_meta'' \<in> set (db_tables db)" "''active_releases'' \<in> set (db_tables db)" "''lifecycle_receipts'' \<in> set (db_tables db)"
      "''lifecycle_receipt_coverage'' \<in> set (db_tables db)" using m(3) by (simp_all add: schema_tables_def)
    have "\<exists>r. findReceipt digest db = Inr r \<and> (\<forall>x. r = Some x \<longrightarrow> x \<in> set (db_receipts db) \<and> rc_digest x = digest)"
    proof (cases "exactlyOne (\<lambda>r. rc_digest r = digest) (db_receipts db)")
      case (Some x)
      then have x: "x \<in> set (db_receipts db)" "rc_digest x = digest" using exactlyOne_Some by fastforce+
      then have "rc_version x = 1" using assms(1) by (auto simp: store_inv_def receipts_inv_def list_all_iff receipt_ok_def)
      then show ?thesis using Some x by (simp add: findReceipt_def)
    qed (simp add: findReceipt_def)
    then obtain r where r: "findReceipt digest db = Inr r" "\<forall>x. r = Some x \<longrightarrow> x \<in> set (db_receipts db) \<and> rc_digest x = digest" by blast
    let ?o2 = "\<lparr>ao_environment = env, ao_authorityId = authority_id_of env, ao_policyEpoch = ADMISSION_POLICY_EPOCH, ao_observedAt = now,
      ao_initialized = True, ao_complete = True, ao_status = NotFound, ao_receipt = None, ao_releases = db_releases db\<rparr>"
    have eq: "inspectLifecycleAuthority digest now (authority_id_of env) ADMISSION_POLICY_EPOCH db = Inr (Some
        (if db_coverage db then ?o2\<lparr>ao_status := (if r \<noteq> None then ExactReceipt else NotFound), ao_receipt := r\<rparr>
         else ?o2\<lparr>ao_complete := False, ao_status := HistoryIncomplete\<rparr>))"
      using Some m(1,2) tables rows assms(2) t env r(1) by (simp add: inspectLifecycleAuthority_def Let_def)
    have "\<exists>m. db_meta db = Some m \<and> (two_releases (db_releases db) \<and> env = Production \<or> one_release (mt_lastNow m) (db_releases db))"
      using Some m(4) by blast
    then show ?thesis unfolding eq using r(2) by (cases r; cases "db_coverage db") simp_all
  qed
qed

lemma receipt_in_store:
  assumes "store_inv env db" "r \<in> set (db_receipts db)"
  shows "receipt_ok env r" "sequence_ok r" "1 \<le> rc_sequence r" "rc_sequence r \<le> 4096"
proof -
  have i: "receipts_inv env db" using assms(1) by (simp add: store_inv_def)
  then show "receipt_ok env r" "sequence_ok r" using assms(2) by (auto simp: receipts_inv_def list_all_iff)
  have "rc_sequence r \<in> set (map rc_sequence (db_receipts db))" using assms(2) by simp
  moreover have "map rc_sequence (db_receipts db) = [1 .. int (length (db_receipts db))]" using i by (simp add: receipts_inv_def)
  ultimately have "rc_sequence r \<in> {1 .. int (length (db_receipts db))}" by (metis set_upto)
  then show "1 \<le> rc_sequence r" "rc_sequence r \<le> 4096" using i by (auto simp: receipts_inv_def LIFECYCLE_RECEIPT_CAPACITY_def)
qed

lemma one_release_receipt:
  assumes "store_inv env db" "db_releases db = [u]" "r \<in> set (db_receipts db)"
  shows "receipt_of_release r u \<and> rr_retired u = None"
  using assms by (auto simp: store_inv_def releases_inv_def two_releases_def one_release_def list_all_iff split: option.splits)

lemma reconciliation_statement_made:
  assumes inv: "store_inv env db" and d: "isLowerHex64 digest" and n: "is_hex 32 nonce" and t: "is_safe_time now"
    and w: "isLowerHex64 (sg_writerKeyFingerprint sg)"
    and ob: "inspectLifecycleAuthority digest now (authority_id_of env) ADMISSION_POLICY_EPOCH db = Inr (Some ob)"
  shows "\<exists>st. makeReconciliationStatement (reconciliation_of sg digest nonce ob) = Inr st"
proof -
  from inspect_store [OF inv d t] ob have o1: "ao_environment ob = env" "ao_authorityId ob = authority_id_of env" "ao_observedAt ob = now"
    and o2: "ao_releases ob = [] \<and> \<not> ao_initialized ob \<and> ao_complete ob \<and> ao_status ob = NotFound \<and> ao_receipt ob = None
      \<or> ao_initialized ob \<and> ao_releases ob = db_releases db
        \<and> (\<exists>m. db_meta db = Some m \<and> (two_releases (db_releases db) \<and> env = Production \<or> one_release (mt_lastNow m) (db_releases db)))
        \<and> (\<not> ao_complete ob \<and> ao_status ob = HistoryIncomplete \<and> ao_receipt ob = None
          \<or> ao_complete ob \<and> ao_status ob = NotFound \<and> ao_receipt ob = None
          \<or> ao_complete ob \<and> ao_status ob = ExactReceipt \<and> (\<exists>r\<in>set (db_receipts db). ao_receipt ob = Some r \<and> rc_digest r = digest))"
    by auto
  have rows: "validateReleaseRows (JArr (map attestationReleaseRowFromAuthority (sort_rows (ao_releases ob)))) (ao_initialized ob) (environment_name env) = Inr ()"
  proof -
    have "ao_releases ob = [] \<and> \<not> ao_initialized ob
      \<or> ao_initialized ob \<and> ao_releases ob = db_releases db \<and> two_releases (db_releases db) \<and> env = Production
      \<or> (\<exists>m::meta_row. ao_initialized ob \<and> ao_releases ob = db_releases db \<and> one_release (mt_lastNow m) (db_releases db))"
      using o2 by blast
    then show ?thesis
  proof (elim disjE conjE exE)
    assume "ao_releases ob = []" "\<not> ao_initialized ob"
    then show ?thesis by (simp add: sort_rows_def no_rows_accepted)
  next
    assume "ao_initialized ob" "ao_releases ob = db_releases db" "two_releases (db_releases db)" "env = Production"
    then show ?thesis using two_rows_accepted by simp
  next
    fix m :: meta_row assume "ao_initialized ob" "ao_releases ob = db_releases db" "one_release (mt_lastNow m) (db_releases db)"
    then show ?thesis using one_row_accepted by (auto simp: one_release_def sort_rows_def)
  qed
  qed
  have state: "js_String (JBool (ao_initialized ob)) @ ''/'' @ (if ao_complete ob then ''COMPLETE'' else ''INCOMPLETE'') @ ''/''
      @ status_name (ao_status ob) \<in> set reconciliation_states"
    using o2 by (auto simp: reconciliation_states_def)
  have rc: "if ao_status ob = ExactReceipt then \<exists>r. ao_receipt ob = Some r \<and> rc_digest r = digest \<and> receipt_ok env r \<and> sequence_ok r \<and> 1 \<le> rc_sequence r
        \<and> rc_sequence r \<le> 4096 \<and> (\<forall>u. ao_releases ob = [u] \<longrightarrow> receipt_of_release r u \<and> rr_retired u = None)
      else ao_receipt ob = None"
    using o2 receipt_in_store [OF inv] one_release_receipt [OF inv] by auto
  show ?thesis
    by (rule reconciliation_accepted [OF t w d n state rc rows]) (simp add: reconciliation_of_def o1)
qed

text \<open>A signer for an environment that gets ready and signs every valid statement.\<close>

definition good_signer :: "environment \<Rightarrow> signer \<Rightarrow> bool" where
  "good_signer env sg \<longleftrightarrow> sg_environment sg = env \<and> sg_authorityId sg = authority_id_of env \<and> sg_policyEpoch sg = ADMISSION_POLICY_EPOCH
     \<and> isLowerHex64 (sg_writerKeyFingerprint sg) \<and> (\<forall>t. sg_ready sg t)
     \<and> (\<forall>st. validateResultStatement st = Inr () \<longrightarrow> (\<exists>b. sg_sign sg st = Inr b))"

lemma good_signer_prepared: "good_signer env sg \<Longrightarrow> is_safe_time t \<Longrightarrow> prepareSigner (identity_of env) (Some sg) t = Inr sg"
  by (simp add: prepareSigner_def good_signer_def)

lemma make_validates: "makeReconciliationStatement i = Inr st \<Longrightarrow> validateResultStatement st = Inr ()"
  "makeLifecycleStatement j = Inr st \<Longrightarrow> validateResultStatement st = Inr ()"
  by (auto simp: makeReconciliationStatement_def makeLifecycleStatement_def snapshotResultStatement_def sum_bind_Inr_iff dest: parse_validates)

lemma receipt_attested:
  assumes "store_inv env db" "r \<in> set (db_receipts db)" "good_signer env sg" "is_safe_time now"
  shows "\<exists>b. attestLifecycleReceipt sg r now = Inr b"
proof -
  note r = receipt_in_store [OF assms(1,2)]
  have "rc_environment r = env" "rc_authorityId r = authority_id_of env" using r(1) by (auto simp: receipt_ok_def)
  moreover have "isLowerHex64 (sg_writerKeyFingerprint sg)" using assms(3) by (simp add: good_signer_def)
  ultimately obtain st where "makeLifecycleStatement \<lparr>li_trustEpoch = ATTESTATION_TRUST_EPOCH, li_environment = rc_environment r,
      li_authorityId = rc_authorityId r, li_policyEpoch = ATTESTATION_POLICY_EPOCH, li_digest = rc_digest r,
      li_receipt = attestationReceiptFromLifecycleReceipt r, li_observedAt = now, li_writerKeyFingerprint = sg_writerKeyFingerprint sg\<rparr> = Inr st"
    using lifecycle_accepted [OF r assms(4) _ refl] by simp
  then show ?thesis using make_validates(2) assms(3) by (auto simp: attestLifecycleReceipt_def good_signer_def)
qed

lemma insertReceipt_new: "insertReceipt c db = Inr (db', r) \<Longrightarrow> r \<notin> set (db_receipts db)"
  by (auto simp: insertReceipt_def Let_def list_ex_iff split: if_splits)

lemma initialized_is_new:
  assumes "initializeAuthority aid ep spec (Some c) db = (db', Inr (Initialized, Some r))"
  shows "r \<notin> set (db_receipts db)"
  using assms
  by (auto simp: initializeAuthority_def Let_def initialize_tx_def initialize_rows_def insert_release_def sum_bind_Inr_iff
      split: if_splits sum.splits option.splits list.splits dest!: insertReceipt_new)

lemma rotated_is_new:
  assumes "rotateAuthorityRelease i (Some c) db = (db', Inr (Rotated, Some r))"
  shows "r \<notin> set (db_receipts db)"
  using assms
  by (auto simp: rotateAuthorityRelease_def Let_def rotate_tx_def rotate_rows_def insert_release_def sum_bind_Inr_iff
      split: if_splits sum.splits option.splits list.splits dest!: insertReceipt_new)

lemma executed_is_new:
  assumes "execute_signed rotation cr number c signature pk env preflight t2 db = (db', Inr (if rotation then Rotated else Initialized, Some r))"
  shows "r \<notin> set (db_receipts db)"
  using assms
proof (cases rule: execute_signed_cases)
  case (initialize r0 spec n)
  then show ?thesis using initialized_is_new by simp
next
  case (rotate r0 i n k)
  then show ?thesis using rotated_is_new by simp
qed simp

lemma execute_error_keeps:
  assumes "execute_signed rotation cr number c signature pk env preflight t2 db = (db', Inl e)"
  shows "lifecycle_rows db' = lifecycle_rows db"
  using assms
proof (cases rule: execute_signed_cases)
  case (initialize r0 spec n)
  then show ?thesis by (auto simp: initializeAuthority_def Let_def split: if_splits sum.splits)
next
  case (rotate r0 i n k)
  then show ?thesis by (auto simp: rotateAuthorityRelease_def Let_def split: if_splits sum.splits)
qed simp

definition coordinator_command ::
  "bool \<Rightarrow> 'k crypto \<Rightarrow> (string \<Rightarrow> int option) \<Rightarrow> attestation_identity \<Rightarrow> string \<Rightarrow> signer option \<Rightarrow> int \<Rightarrow> int \<Rightarrow> int \<Rightarrow> jval \<Rightarrow> string
   \<Rightarrow> authority_db \<Rightarrow> authority_db \<times> attested_result" where
  "coordinator_command rotation = (if rotation then coordinator_rotate else coordinator_initialize)"

lemma coordinator_command_cases:
  assumes "coordinator_command rotation cr number (identity_of env) pk sgo t1 t2 t3 c signature db = (db', res)"
  obtains (closed) "db' = db" "res = Refused"
  | (error) e preflight where "execute_signed rotation cr number c signature pk env preflight t2 db = (db', Inl e)" "\<forall>d b. res \<noteq> Attested d b" "res \<noteq> Ambiguous"
  | (finished) st r where "execute_signed rotation cr number c signature pk env (case prepareSigner (identity_of env) sgo t1 of Inl e \<Rightarrow> Inl e | Inr _ \<Rightarrow> Inr ()) t2 db = (db', Inr (st, r))"
      "res = (case (prepareSigner (identity_of env) sgo t1, r) of
             (Inr sg, Some rc) \<Rightarrow> (case attestLifecycleReceipt sg rc t3 of
                 Inl e \<Rightarrow> Ambiguous
               | Inr envelope \<Rightarrow> Attested (Some (if st = (if rotation then Rotated else Initialized) then Applied else AlreadyApplied)) envelope)
           | _ \<Rightarrow> Ambiguous)"
proof -
  let ?pre = "case prepareSigner (identity_of env) sgo t1 of Inl e \<Rightarrow> Inl e | Inr _ \<Rightarrow> Inr ()"
  show thesis
  proof (cases "rotation \<and> env \<noteq> Production")
    case True
    then show thesis using assms closed by (auto simp: coordinator_command_def coordinator_rotate_def)
  next
    case False
    obtain d x where x: "execute_signed rotation cr number c signature pk env ?pre t2 db = (d, x)" by fastforce
    have lm: "lifecycleMutation (identity_of env) sgo t1 t3 (\<lambda>preflight. execute_signed rotation cr number c signature pk env preflight t2 db)
        (if rotation then Rotated else Initialized) = (db', res)"
      using assms False by (cases rotation) (auto simp: coordinator_command_def coordinator_rotate_def coordinator_initialize_def execute_signed_def)
    show thesis
    proof (cases x)
      case (Inl e)
      have "db' = d" "\<forall>d b. res \<noteq> Attested d b" "res \<noteq> Ambiguous"
        using lm x Inl by (auto simp: lifecycleMutation_def Let_def split: if_splits)
      then show thesis using error x Inl by blast
    next
      case (Inr y)
      obtain st r where y: "y = (st, r)" by fastforce
      have "db' = d" using lm x Inr y by (auto simp: lifecycleMutation_def Let_def split: sum.splits option.splits)
      moreover have "res = (case (prepareSigner (identity_of env) sgo t1, r) of
             (Inr sg, Some rc) \<Rightarrow> (case attestLifecycleReceipt sg rc t3 of
                 Inl e \<Rightarrow> Ambiguous
               | Inr envelope \<Rightarrow> Attested (Some (if st = (if rotation then Rotated else Initialized) then Applied else AlreadyApplied)) envelope)
           | _ \<Rightarrow> Ambiguous)"
        using lm x Inr y by (auto simp: lifecycleMutation_def Let_def split: sum.splits option.splits)
      ultimately show thesis using finished x Inr y by blast
    qed
  qed
qed

subsection \<open>Properties\<close>

text \<open>C20. Every state an authority object can reach is one the frozen statement format can express: after any sequence of signed commands
  and admission requests, a ready signer attests the reconciliation of any digest, and never finds the statement invalid.\<close>

theorem reachable_state_is_attested:
  assumes "\<And>b. length (cr_sha256 cr b) = 32" "list_all clocks_ok calls" "good_signer env sg"
    and "is_safe_time t1" "is_safe_time t2" "isLowerHex64 digest" "is_hex 32 nonce"
  shows "\<exists>b. attestReconciliation (identity_of env) (Some sg) t1 t2 digest nonce
    (object_state cr number (identity_of env) pk sgo opts calls) = Attested None b"
proof -
  let ?db = "object_state cr number (identity_of env) pk sgo opts calls"
  have inv: "store_inv env ?db" by (rule object_state_inv [OF assms(1,2)])
  obtain ob where ob: "inspectLifecycleAuthority digest t2 (authority_id_of env) ADMISSION_POLICY_EPOCH ?db = Inr (Some ob)"
    using inspect_store [OF inv assms(6,5)] by blast
  have "isLowerHex64 (sg_writerKeyFingerprint sg)" using assms(3) by (simp add: good_signer_def)
  then obtain st where st: "makeReconciliationStatement (reconciliation_of sg digest nonce ob) = Inr st"
    using reconciliation_statement_made [OF inv assms(6,7,5) _ ob] by blast
  obtain b where "sg_sign sg st = Inr b" using make_validates(1) [OF st] assms(3) by (auto simp: good_signer_def)
  then show ?thesis using ob st good_signer_prepared [OF assms(3,4)] assms(5-7) by (simp add: attestReconciliation_def)
qed

text \<open>The answer to a lifecycle command tells what happened: a refusal or an unavailability left the lifecycle tables as they were, an attested
  answer is about a receipt of exactly this command in the store, which is new if the answer says applied, and a
  signer that signs valid statements never leaves a committed command without evidence.\<close>

theorem lifecycle_answer_matches_state:
  assumes "store_inv env db" "\<And>b. length (cr_sha256 cr b) = 32" "0 \<le> t2"
    and "coordinator_command rotation cr number (identity_of env) pk sgo t1 t2 t3 c signature db = (db', res)"
  shows "(res = Refused \<or> (\<exists>e. res = Unavailable e) \<longrightarrow> lifecycle_rows db' = lifecycle_rows db)
    \<and> (\<forall>d b. res = Attested d b \<longrightarrow> (\<exists>r\<in>set (db_receipts db'). commandDigest cr c = Inr (rc_digest r)
        \<and> (d = Some Applied \<longrightarrow> r \<notin> set (db_receipts db))))
    \<and> (\<forall>sg. sgo = Some sg \<longrightarrow> good_signer env sg \<longrightarrow> is_safe_time t1 \<longrightarrow> is_safe_time t3 \<longrightarrow> res \<noteq> Ambiguous)"
  using assms(4)
proof (cases rule: coordinator_command_cases)
  case (error e preflight)
  then show ?thesis using execute_error_keeps by blast
next
  case (finished st r)
  obtain x r0 where x: "r = Some x" "prepare_command cr c signature pk env (case prepareSigner (identity_of env) sgo t1 of Inl e \<Rightarrow> Inl e | Inr _ \<Rightarrow> Inr ()) = Inr r0"
    "rc_digest x = rc_digest r0" using execute_signed_receipt [OF finished(1)] by blast
  have inv: "store_inv env db'" "x \<in> set (db_receipts db')"
    using execute_signed_inv [OF assms(1-3) finished(1)] x(1) by auto
  have dig: "commandDigest cr c = Inr (rc_digest x)"
    using prepare_command_Inr [OF x(2)] x(3) by (auto simp: expectedCommandReceipt_def Let_def sum_bind_Inr_iff)
  have new: "x \<notin> set (db_receipts db)" if "st = (if rotation then Rotated else Initialized)"
    using executed_is_new [of rotation cr number c signature pk env _ t2 db db' x] finished(1) that x(1) by simp
  have "res \<noteq> Ambiguous" if "sgo = Some sg" "good_signer env sg" "is_safe_time t1" "is_safe_time t3" for sg
    using receipt_attested [OF inv that(2,4)] good_signer_prepared [OF that(2,3)] finished(2) x(1) that(1) by auto
  moreover have "\<forall>d b. res = Attested d b \<longrightarrow> (\<exists>r\<in>set (db_receipts db'). commandDigest cr c = Inr (rc_digest r) \<and> (d = Some Applied \<longrightarrow> r \<notin> set (db_receipts db)))"
    using finished(2) x(1) inv(2) dig new by (auto split: sum.splits if_splits)
  moreover have "res \<noteq> Refused" "\<And>e. res \<noteq> Unavailable e" using finished(2) by (auto split: sum.splits option.splits)
  ultimately show ?thesis by blast
qed simp

definition sample_signer :: signer where
  "sample_signer = \<lparr>sg_environment = Production, sg_authorityId = authority_id_of Production, sg_policyEpoch = ADMISSION_POLICY_EPOCH,
     sg_writerKeyFingerprint = replicate 64 CHR ''c'', sg_ready = (\<lambda>_. True), sg_sign = (\<lambda>_. Inr ''x'')\<rparr>"

lemma sample_signer_good: "good_signer Production sample_signer"
  using hex_replicate [of "CHR ''c''"] by (simp add: good_signer_def sample_signer_def is_lower_hex_def is_digit_def in_range_def)

lemma sample_sha: "length (cr_sha256 sample_crypto b) = 32" by (simp add: sample_crypto_def)

definition sample_calls :: "object_call list" where
  "sample_calls = [CommandCall False sample_command sample_signature 2000 2000 2000, AdmissionCall 3000 (CleanupReq 5)]"

theorem reachable_state_is_attested_witness:
  "\<exists>b. attestReconciliation (identity_of Production) (Some sample_signer) 4000 4000 (replicate 64 CHR ''a'') (replicate 32 CHR ''b'')
    (object_state sample_crypto (\<lambda>_. None) (identity_of Production) sample_key (Some sample_signer) sample_options sample_calls) = Attested None b"
proof (rule reachable_state_is_attested)
  show "isLowerHex64 (replicate 64 CHR ''a'')" "is_hex 32 (replicate 32 CHR ''b'')"
    by (simp_all add: isLowerHex64_def is_hex_def list_all_length is_lower_hex_def is_digit_def in_range_def)
qed (simp_all add: sample_sha sample_signer_good sample_calls_def clocks_ok_def is_safe_time_def is_safe_integer_def MAX_SAFE_INTEGER_def)

theorem lifecycle_answer_matches_state_witness:
  "\<exists>db' res. coordinator_command False sample_crypto (\<lambda>_. None) (identity_of Production) sample_key (Some sample_signer) 2000 2000 2000
      sample_command sample_signature empty_db = (db', res) \<and> res \<noteq> Ambiguous"
proof -
  obtain db' res where e: "coordinator_command False sample_crypto (\<lambda>_. None) (identity_of Production) sample_key (Some sample_signer) 2000 2000 2000
      sample_command sample_signature empty_db = (db', res)" by fastforce
  have "is_safe_time 2000" by (simp add: is_safe_time_def is_safe_integer_def MAX_SAFE_INTEGER_def)
  then have "res \<noteq> Ambiguous"
    using lifecycle_answer_matches_state [OF empty_db_inv sample_sha _ e] sample_signer_good by simp
  then show ?thesis using e by blast
qed

end
