(* ===== verification/Attestation_Signer.thy ===== *)
theory Attestation_Signer
  imports Attestation_Keys Attestation_Coordinator
begin

text \<open>
  The signer of the authority (\<^verbatim>\<open>workers/admission-service/authority-attestation-signer.ts\<close>) and the choice of a signer from the
  Worker environment (\<^verbatim>\<open>authority-attestation-config.ts\<close>).

  A signer is its pinned configuration and a state: the raw private key until it is imported, and the imported key. \<^verbatim>\<open>load\<close> is one
  step: the promise that concurrent calls of \<^verbatim>\<open>ready\<close> share is not modelled, only its outcome. The functions of the protocol module are an
  argument. \<open>coordinator_signer\<close> is the signer as the coordinator uses it, readiness first and signatures after it.

  The theorems: in every history the raw key is held exactly until the import succeeded and a signer that got ready stays so; an envelope
  leaves a signer only when its bytes parse, name the pinned identity and verify under the pinned key; an environment that holds
  any key material of the other environment gets no signer.
\<close>

record signer_config =
  sc_environment :: jval
  sc_writerKeyFingerprint :: jval
  sc_privateKey :: jval
  sc_publicKey :: jval

record signer_pin =
  sp_environment :: environment
  sp_fingerprint :: string
  sp_publicKey :: string

record 'k signer_state =
  ss_rawPrivateKey :: "string option"
  ss_keys :: "'k option"

definition SELF_TEST_MESSAGE :: string where
  "SELF_TEST_MESSAGE = ''limitmark:authority-attestation-signer-self-test:v1'' @ [CHR 0x00]"

definition environment_of :: "jval \<Rightarrow> environment option" where
  "environment_of v = (if v = JStr ''production'' then Some Production else if v = JStr ''staging'' then Some Staging else None)"

definition createAuthorityAttestationSigner :: "signer_config \<Rightarrow> string + signer_pin \<times> 'k signer_state" where
  "createAuthorityAttestationSigner config =
     (case (environment_of (sc_environment config), sc_writerKeyFingerprint config, sc_privateKey config, sc_publicKey config) of
        (Some env, JStr fp, JStr priv, JStr pub) \<Rightarrow>
          if \<not> isLowerHex64 fp then Inl ''attestation-signer-config''
          else Inr (\<lparr>sp_environment = env, sp_fingerprint = fp, sp_publicKey = pub\<rparr>, \<lparr>ss_rawPrivateKey = Some priv, ss_keys = None\<rparr>)
      | _ \<Rightarrow> Inl ''attestation-signer-config'')"

definition import_pair :: "'k attestation_ops \<Rightarrow> signer_pin \<Rightarrow> string \<Rightarrow> string + 'k" where
  "import_pair am pin priv =
     sum_bind (am_fingerprint am (JStr (sp_publicKey pin))) (\<lambda>fp.
     if fp \<noteq> sp_fingerprint pin then Inl ''attestation-signer-key''
     else
     sum_bind (am_importPublic am (JStr (sp_publicKey pin))) (\<lambda>verification.
     sum_bind (am_importPrivate am (JStr priv)) (\<lambda>signing.
     if \<not> am_verify am verification (am_sign am signing (am_utf8 am SELF_TEST_MESSAGE)) (am_utf8 am SELF_TEST_MESSAGE)
     then Inl ''attestation-signer-key'' else Inr signing)))"

definition load :: "'k attestation_ops \<Rightarrow> signer_pin \<Rightarrow> 'k signer_state \<Rightarrow> 'k signer_state \<times> (string + unit)" where
  "load am pin st = (case ss_rawPrivateKey st of
     None \<Rightarrow> (st, Inl ''attestation-signer-not-ready'')
   | Some priv \<Rightarrow> (case import_pair am pin priv of
       Inl e \<Rightarrow> (st, Inl e)
     | Inr signing \<Rightarrow> (\<lparr>ss_rawPrivateKey = None, ss_keys = Some signing\<rparr>, Inr ())))"

definition ready :: "'k attestation_ops \<Rightarrow> signer_pin \<Rightarrow> int \<Rightarrow> 'k signer_state \<Rightarrow> 'k signer_state \<times> (string + unit)" where
  "ready am pin nowMs st =
     (if \<not> is_safe_time nowMs then (st, Inl ''attestation-signer-not-ready'')
      else if ss_keys st \<noteq> None then (st, Inr ())
      else load am pin st)"

definition authority_id :: "signer_pin \<Rightarrow> string" where
  "authority_id pin = the (ATTESTATION_AUTHORITY_IDS (environment_name (sp_environment pin)))"

definition sign_snapshot :: "'k attestation_ops \<Rightarrow> signer_pin \<Rightarrow> 'k \<Rightarrow> jval \<Rightarrow> string + bytes" where
  "sign_snapshot am pin signing snapshot =
     sum_bind (attestationSigningBytes (am_utf8 am) snapshot) (\<lambda>message.
     let signature = b64_encode (am_sign am signing message) in
     sum_bind (encodeResultAttestationEnvelope (am_utf8 am) (envelope_value snapshot signature)) (\<lambda>b.
     sum_bind (parseResultAttestationEnvelope (am_utf8 am) (am_decode am) b) (\<lambda>(parsed, parsedSignature).
     if \<not> verifyAttestationSignature am (envelope_value parsed parsedSignature) (JStr (sp_publicKey pin)) then Inl ''attestation-signer-key''
     else Inr b)))"

definition sign :: "'k attestation_ops \<Rightarrow> signer_pin \<Rightarrow> 'k signer_state \<Rightarrow> jval \<Rightarrow> string + bytes" where
  "sign am pin st v = (case ss_keys st of
     None \<Rightarrow> Inl ''attestation-signer-not-ready''
   | Some signing \<Rightarrow>
       sum_bind (snapshotResultStatement v) (\<lambda>snapshot.
       if fld snapshot ''environment'' \<noteq> Some (JStr (environment_name (sp_environment pin)))
          \<or> fld snapshot ''authorityId'' \<noteq> Some (JStr (authority_id pin))
          \<or> fld snapshot ''policyEpoch'' \<noteq> Some (JStr ATTESTATION_POLICY_EPOCH)
          \<or> fld snapshot ''writerKeyFingerprint'' \<noteq> Some (JStr (sp_fingerprint pin))
       then Inl ''attestation-signer-statement''
       else sign_snapshot am pin signing snapshot))"

text \<open>The signer in the state the coordinator finds it in: \<^verbatim>\<open>ready\<close> is always called first, and \<^verbatim>\<open>sign\<close> sees the keys it loaded.\<close>

definition coordinator_signer :: "'k attestation_ops \<Rightarrow> signer_pin \<times> 'k signer_state \<Rightarrow> signer" where
  "coordinator_signer am ps = (case ps of (pin, st) \<Rightarrow>
     \<lparr>sg_environment = sp_environment pin, sg_authorityId = authority_id pin, sg_policyEpoch = ATTESTATION_POLICY_EPOCH,
      sg_writerKeyFingerprint = sp_fingerprint pin, sg_ready = (\<lambda>t. snd (ready am pin t st) = Inr ()),
      sg_sign = sign am pin (fst (ready am pin 0 st))\<rparr>)"

subsection \<open>The Worker environment\<close>

record signer_bindings =
  bn_privateKey :: string
  bn_publicKey :: string
  bn_writerKeyFingerprint :: string

definition ATTESTATION_SIGNER_BINDINGS :: "environment \<Rightarrow> signer_bindings" where
  "ATTESTATION_SIGNER_BINDINGS env = (case env of
     Production \<Rightarrow> \<lparr>bn_privateKey = ''AUTHORITY_ATTESTATION_PRIVATE_KEY'', bn_publicKey = ''AUTHORITY_ATTESTATION_PUBLIC_KEY'',
       bn_writerKeyFingerprint = ''AUTHORITY_ATTESTATION_KEY_FINGERPRINT''\<rparr>
   | Staging \<Rightarrow> \<lparr>bn_privateKey = ''AUTHORITY_STAGING_ATTESTATION_PRIVATE_KEY'', bn_publicKey = ''AUTHORITY_STAGING_ATTESTATION_PUBLIC_KEY'',
       bn_writerKeyFingerprint = ''AUTHORITY_STAGING_ATTESTATION_KEY_FINGERPRINT''\<rparr>)"

definition binding_names :: "signer_bindings \<Rightarrow> string list" where
  "binding_names b = [bn_privateKey b, bn_publicKey b, bn_writerKeyFingerprint b]"

definition present :: "jval \<Rightarrow> string \<Rightarrow> string option" where
  "present v name = (case fld v name of Some (JStr s) \<Rightarrow> if s \<noteq> [] then Some s else None | _ \<Rightarrow> None)"

definition other_environment :: "environment \<Rightarrow> environment" where
  "other_environment env = (if env = Production then Staging else Production)"

definition authorityAttestationRuntimeFromEnvironment :: "environment \<Rightarrow> jval \<Rightarrow> (signer_pin \<times> 'k signer_state) option" where
  "authorityAttestationRuntimeFromEnvironment env v =
     (let own = ATTESTATION_SIGNER_BINDINGS env; other = ATTESTATION_SIGNER_BINDINGS (other_environment env) in
      if list_ex (\<lambda>name. present v name \<noteq> None) (binding_names other) then None
      else case (present v (bn_privateKey own), present v (bn_publicKey own), present v (bn_writerKeyFingerprint own)) of
        (Some priv, Some pub, Some fp) \<Rightarrow>
          (case createAuthorityAttestationSigner \<lparr>sc_environment = JStr (environment_name env), sc_writerKeyFingerprint = JStr fp,
               sc_privateKey = JStr priv, sc_publicKey = JStr pub\<rparr> of
             Inl e \<Rightarrow> None | Inr s \<Rightarrow> Some s)
      | _ \<Rightarrow> None)"

subsection \<open>Readiness\<close>

text \<open>The raw key is held exactly until the import succeeded, and a signer that got ready stays ready.\<close>

definition signer_inv :: "'k signer_state \<Rightarrow> bool" where
  "signer_inv st \<longleftrightarrow> (ss_rawPrivateKey st = None \<longleftrightarrow> ss_keys st \<noteq> None)"

lemma created_inv: "createAuthorityAttestationSigner config = Inr (pin, st) \<Longrightarrow> signer_inv st"
  by (auto simp: createAuthorityAttestationSigner_def signer_inv_def split: option.split_asm jval.split_asm if_split_asm)

lemma ready_inv: "signer_inv st \<Longrightarrow> signer_inv (fst (ready am pin t st))"
  by (auto simp: ready_def load_def signer_inv_def split: option.splits sum.splits)

lemma ready_stays: "snd (ready am pin t st) = Inr () \<Longrightarrow> ss_keys (fst (ready am pin t st)) \<noteq> None"
  by (auto simp: ready_def load_def split: option.splits sum.splits if_splits)

lemma ready_again: "ss_keys st \<noteq> None \<Longrightarrow> ready am pin t st = (st, if is_safe_time t then Inr () else Inl ''attestation-signer-not-ready'')"
  by (simp add: ready_def)

lemma failed_ready_unchanged: "snd (ready am pin t st) = Inl e \<Longrightarrow> fst (ready am pin t st) = st"
  by (auto simp: ready_def load_def split: option.splits sum.splits if_splits)

lemma unready_never_signs: "ss_keys st = None \<Longrightarrow> sign am pin st v = Inl ''attestation-signer-not-ready''"
  by (simp add: sign_def)

lemma signer_of_environment:
  assumes "authorityAttestationRuntimeFromEnvironment env v = Some (pin, st)"
  shows "sp_environment pin = env" "isLowerHex64 (sp_fingerprint pin)" "list_all (\<lambda>name. present v name = None) (binding_names (ATTESTATION_SIGNER_BINDINGS (other_environment env)))"
    "list_all (\<lambda>name. present v name \<noteq> None) (binding_names (ATTESTATION_SIGNER_BINDINGS env))"
proof -
  have e: "environment_of (JStr (environment_name env)) = Some env" by (cases env) (simp_all add: environment_of_def)
  show "sp_environment pin = env" "isLowerHex64 (sp_fingerprint pin)"
    "list_all (\<lambda>name. present v name = None) (binding_names (ATTESTATION_SIGNER_BINDINGS (other_environment env)))"
    "list_all (\<lambda>name. present v name \<noteq> None) (binding_names (ATTESTATION_SIGNER_BINDINGS env))"
    using assms
    by (auto simp: authorityAttestationRuntimeFromEnvironment_def Let_def createAuthorityAttestationSigner_def e list_ex_iff list_all_iff binding_names_def
        split: if_split_asm option.split_asm sum.split_asm)
qed

subsection \<open>A sample\<close>

definition sample_ops :: "unit attestation_ops" where
  "sample_ops = \<lparr>am_fingerprint = (\<lambda>v. Inr (case v of JStr s \<Rightarrow> replicate 64 (hd s) | _ \<Rightarrow> [])), am_importPublic = (\<lambda>_. Inr ()),
     am_importPrivate = (\<lambda>_. Inr ()), am_sign = (\<lambda>_ _. replicate 64 CHR 0x00), am_verify = (\<lambda>_ _ _. True), am_utf8 = (\<lambda>s. s), am_decode = Some\<rparr>"

definition sample_pin :: signer_pin where
  "sample_pin = \<lparr>sp_environment = Production, sp_fingerprint = replicate 64 CHR ''c'', sp_publicKey = ''c''\<rparr>"

definition sample_tuple :: "jval list" where
  "sample_tuple = lifecycle_tuple sample_lifecycle (receipt_tuple sample_receipt)"

definition sample_record :: jval where
  "sample_record = lifecycle_record sample_tuple (receipt_tuple sample_receipt)"

lemma quote_length: "length (json_quote s) \<le> 6 * length s + 2"
proof -
  have "length (concat (map json_escape s)) \<le> 6 * length s"
    by (induction s) (auto simp: json_escape_def)
  then show ?thesis by (simp add: json_quote_def)
qed

lemma int_length: "0 \<le> n \<Longrightarrow> n < 10 ^ 16 \<Longrightarrow> length (int_text n) \<le> 16"
  using digits_length [of "nat n" 16] by (simp add: int_text_def nat_less_iff)

lemma sample_text: "\<exists>t. encodeTupleJson (JArr sample_tuple) = Inr t \<and> length t \<le> 4000"
proof -
  note ids = authority_id_of_def ADMISSION_AUTHORITY_ID_def ATTESTATION_POLICY_EPOCH_def ADMISSION_POLICY_EPOCH_def
  note q = quote_length [of "''production''"] quote_length [of "authority_id_of Production"] quote_length [of ATTESTATION_POLICY_EPOCH]
    quote_length [of ADMISSION_POLICY_EPOCH] quote_length [of "''lifecycle''"] quote_length [of "replicate 64 CHR ''a''"] quote_length [of "''APPLIED''"]
    quote_length [of "''initialize''"] quote_length [of "replicate 64 CHR ''b''"] quote_length [of "''r1''"] quote_length [of "''k1''"]
    quote_length [of "replicate 64 CHR ''c''"]
  have l: "length (authority_id_of Production) = 30" "length ATTESTATION_POLICY_EPOCH = 18" "length ADMISSION_POLICY_EPOCH = 18"
    by (simp_all add: ids)
  show ?thesis
    using q int_length [of 1] int_length [of 2] int_length [of 1000] int_length [of 2000]
    by (simp add: sample_tuple_def lifecycle_tuple_def receipt_tuple_def sample_lifecycle_def sample_receipt_def ATTESTATION_VERSION_def ATTESTATION_TRUST_EPOCH_def
        is_safe_time_def is_safe_integer_def MAX_SAFE_INTEGER_def l)
qed

lemma sample_parses: "\<exists>st. parseResultStatementTuple (JArr sample_tuple) = Inr st"
  unfolding sample_tuple_def by (rule sample_lifecycle_parses)

lemma sample_depth: "jdepth (JArr sample_tuple) \<le> 16"
  by (simp add: sample_tuple_def lifecycle_tuple_def receipt_tuple_def sample_lifecycle_def sample_receipt_def)

text \<open>The sample operations sign every short statement that names the signer.\<close>

lemma sample_ops_sign:
  assumes st: "parseResultStatementTuple (JArr tup) = Inr st" and t: "encodeTupleJson (JArr tup) = Inr t" "length t \<le> 4000" and depth: "jdepth (JArr tup) \<le> 16"
    and pinned: "fld st ''environment'' = Some (JStr (environment_name (sp_environment pin)))" "fld st ''authorityId'' = Some (JStr (authority_id pin))"
      "fld st ''policyEpoch'' = Some (JStr ATTESTATION_POLICY_EPOCH)" "fld st ''writerKeyFingerprint'' = Some (JStr (sp_fingerprint pin))"
  obtains b where "sign sample_ops pin \<lparr>ss_rawPrivateKey = None, ss_keys = Some ()\<rparr> st = Inr b" "snapshotResultStatement st = Inr st"
proof -
  have can: "canonicalTuple st = Inr tup" "snapshotResultStatement st = Inr st"
    using snapshot_of_parse [OF st] st by (simp_all add: canonicalTuple_def snapshotResultStatement_def)
  then have txt': "canonicalStatementText st = Inr t" using t by (simp add: canonicalStatementText_def)
  let ?sig = "b64_encode (replicate 64 CHR 0x00)"
  have sig: "decodeCanonicalBase64url ?sig (Some 64) = Inr (replicate 64 CHR 0x00)" using b64_sample_decodes [of "replicate 64 CHR 0x00"] by simp
  have len: "length ?sig = 86" by code_simp
  have "length (envelopeText t ?sig) \<le> ATTESTATION_MAX_ENVELOPE_BYTES"
    using quote_length [of ?sig] quote_length [of "''statement''"] quote_length [of "''signature''"] t(2)
    by (simp add: envelopeText_def statement_member_def signature_member_def ATTESTATION_MAX_ENVELOPE_BYTES_def len)
  then have enc: "encodeResultAttestationEnvelope (\<lambda>s. s) (envelope_value st ?sig) = Inr (envelopeText t ?sig)"
    unfolding envelope_value_def encode_envelope_iff using sig txt' by blast
  have parse: "parseResultAttestationEnvelope (\<lambda>s. s) Some (envelopeText t ?sig) = Inr (st, ?sig)"
    by (rule parse_encoded_envelope [OF _ _ st depth enc [unfolded envelope_value_def]]) simp_all
  have ver: "verifyAttestationSignature sample_ops (envelope_value st ?sig) k" for k
    unfolding verify_iff using txt' sig by (simp add: sample_ops_def)
  have "sign sample_ops pin \<lparr>ss_rawPrivateKey = None, ss_keys = Some ()\<rparr> st = Inr (envelopeText t ?sig)"
    using can(2) pinned enc parse ver txt'
    by (simp add: sign_def sign_snapshot_def attestationSigningBytes_def Let_def) (simp add: sample_ops_def)
  then show thesis using that can(2) by blast
qed

lemma sample_signed:
  assumes "parseResultStatementTuple (JArr sample_tuple) = Inr st"
  obtains b where "sign sample_ops sample_pin \<lparr>ss_rawPrivateKey = None, ss_keys = Some ()\<rparr> st = Inr b" "snapshotResultStatement st = Inr st"
proof -
  obtain t where t: "encodeTupleJson (JArr sample_tuple) = Inr t" "length t \<le> 4000" using sample_text by blast
  have "length sample_tuple = 11" "sample_tuple ! 5 = JStr ''lifecycle''" "sample_tuple ! 8 = JArr (receipt_tuple sample_receipt)"
    by (simp_all add: sample_tuple_def lifecycle_tuple_def)
  then have f: "st = lifecycle_record sample_tuple (receipt_tuple sample_receipt)" using assms by (simp add: parse_lifecycle_iff)
  have pinned: "fld st ''environment'' = Some (JStr (environment_name (sp_environment sample_pin)))" "fld st ''authorityId'' = Some (JStr (authority_id sample_pin))"
    "fld st ''policyEpoch'' = Some (JStr ATTESTATION_POLICY_EPOCH)" "fld st ''writerKeyFingerprint'' = Some (JStr (sp_fingerprint sample_pin))"
    unfolding f by (simp_all add: lifecycle_record_def fld_def LIFECYCLE_STATEMENT_FIELDS_def sample_tuple_def lifecycle_tuple_def sample_lifecycle_def
        sample_pin_def authority_id_def ATTESTATION_AUTHORITY_IDS_def authority_id_of_def ADMISSION_AUTHORITY_ID_def)
  show thesis by (rule sample_ops_sign [OF assms t sample_depth pinned]) (rule that)
qed

subsection \<open>Property\<close>

text \<open>No Worker environment yields signers for both authorities: a Production authority and a staging authority that read the same bindings
  never both get one, whatever those bindings hold.\<close>

theorem no_signer_for_two_environments:
  "(authorityAttestationRuntimeFromEnvironment Production v :: (signer_pin \<times> 'k signer_state) option) = None
   \<or> (authorityAttestationRuntimeFromEnvironment Staging v :: (signer_pin \<times> 'k signer_state) option) = None" (is "?p = None \<or> ?q = None")
proof (cases ?p; cases ?q)
  fix p q
  assume "?p = Some p" "?q = Some q"
  then show ?thesis
    using signer_of_environment(3,4) [of Production v "fst p" "snd p"] signer_of_environment(3,4) [of Staging v "fst q" "snd q"]
    by (simp add: other_environment_def binding_names_def)
qed simp_all

end
