(* ===== verification/Attestation_Trust.thy ===== *)
theory Attestation_Trust
  imports Attestation_Signer
begin

text \<open>
  The trust manifest and the verification of signed statements (\<^verbatim>\<open>src/lib/authority-result-trust.ts\<close>).

  The manifest is parsed with the strict parser of \<^verbatim>\<open>Strict_Json\<close>; the key functions of the protocol module are the argument \<open>am\<close>.
  The registries of parsed manifests and of verified statements (\<^verbatim>\<open>WeakSet\<close>s) prove provenance of objects: a manifest is usable
  when it is among the ones parsed so far, and a verified statement is a value that only \<open>verifyAuthoritySignedStatement\<close> returns. Object
  identity is not modelled: a copy of a parsed manifest, which the program refuses, counts as the manifest itself.

  The theorems: a parsed manifest names every key once, and its current keys are active keys of their own environment; what verification
  accepts is characterised completely; a key of one environment never verifies a statement of the other; what a signer with a
  trusted key signs is verified.
\<close>

definition TRUST_MANIFEST_VERSION :: int where "TRUST_MANIFEST_VERSION = 1"
definition TRUST_MANIFEST_MAX_BYTES :: nat where "TRUST_MANIFEST_MAX_BYTES = 16384"
definition ENVIRONMENT_ORDER :: "environment list" where "ENVIRONMENT_ORDER = [Production, Staging]"

record trust_key =
  tk_keyFingerprint :: string
  tk_publicKey :: string
  tk_active :: bool
  tk_notBefore :: int
  tk_notAfter :: "int option"

record trust_environment =
  te_environment :: environment
  te_authorityId :: string
  te_policyEpoch :: string
  te_currentKeyFingerprint :: string
  te_keys :: "trust_key list"

record trust_manifest =
  tm_manifestVersion :: int
  tm_attestationVersion :: int
  tm_trustEpoch :: int
  tm_environments :: "trust_environment list"

definition bad :: "string + 'a" where "bad = Inl ''attestation-manifest''"

definition exactRecord :: "jval \<Rightarrow> string list \<Rightarrow> string + jval" where
  "exactRecord v names = (if \<not> isPlainRecord v then bad else if \<not> hasExactFields v names then bad else Inr v)"

definition KEY_FIELDS :: "string list" where
  "KEY_FIELDS = [''keyFingerprint'', ''publicKey'', ''status'', ''notBeforeMs'', ''notAfterMs'']"
definition SECTION_FIELDS :: "string list" where
  "SECTION_FIELDS = [''environment'', ''authorityId'', ''policyEpoch'', ''currentKeyFingerprint'', ''keys'']"
definition MANIFEST_FIELDS :: "string list" where
  "MANIFEST_FIELDS = [''manifestVersion'', ''attestationVersion'', ''trustEpoch'', ''environments'']"

definition key_fields_ok :: "jval \<Rightarrow> bool" where
  "key_fields_ok e \<longleftrightarrow> str_such isLowerHex64 (fld e ''keyFingerprint'') \<and> str_such (\<lambda>_. True) (fld e ''publicKey'')
     \<and> (fld e ''status'' = Some (JStr ''active'') \<or> fld e ''status'' = Some (JStr ''retired''))
     \<and> isSafeTime (fld e ''notBeforeMs'') \<and> (fld e ''notAfterMs'' = Some JNull \<or> isSafeTime (fld e ''notAfterMs''))
     \<and> \<not> (fld e ''notAfterMs'' \<noteq> Some JNull \<and> num_of (fld e ''notAfterMs'') \<le> num_of (fld e ''notBeforeMs''))
     \<and> \<not> (fld e ''status'' = Some (JStr ''retired'') \<and> fld e ''notAfterMs'' = Some JNull)"

definition parseKeyEntry :: "'k attestation_ops \<Rightarrow> jval \<Rightarrow> string + trust_key" where
  "parseKeyEntry am v = sum_bind (exactRecord v KEY_FIELDS) (\<lambda>e.
     if \<not> key_fields_ok e then bad
     else let publicKey = JStr (str_of (fld e ''publicKey'')) in
       case sum_bind (am_importPublic am publicKey) (\<lambda>_. am_fingerprint am publicKey) of
         Inl _ \<Rightarrow> bad
       | Inr fingerprint \<Rightarrow>
           if fingerprint \<noteq> str_of (fld e ''keyFingerprint'') then bad
           else Inr \<lparr>tk_keyFingerprint = str_of (fld e ''keyFingerprint''), tk_publicKey = str_of (fld e ''publicKey''),
             tk_active = (fld e ''status'' = Some (JStr ''active'')), tk_notBefore = num_of (fld e ''notBeforeMs''),
             tk_notAfter = (if fld e ''notAfterMs'' = Some JNull then None else Some (num_of (fld e ''notAfterMs'')))\<rparr>)"

definition parseEnvironment :: "'k attestation_ops \<Rightarrow> jval \<Rightarrow> environment \<Rightarrow> string + trust_environment" where
  "parseEnvironment am v env = sum_bind (exactRecord v SECTION_FIELDS) (\<lambda>s.
     if fld s ''environment'' \<noteq> Some (JStr (environment_name env))
        \<or> fld s ''authorityId'' \<noteq> map_option JStr (ATTESTATION_AUTHORITY_IDS (environment_name env))
        \<or> fld s ''policyEpoch'' \<noteq> Some (JStr ATTESTATION_POLICY_EPOCH) \<or> \<not> str_such isLowerHex64 (fld s ''currentKeyFingerprint'') then bad
     else case fld s ''keys'' of
       Some (JArr entries) \<Rightarrow>
         if length entries < 1 \<or> length entries > 3 then bad
         else sum_bind (sum_map (parseKeyEntry am) entries) (\<lambda>keys.
           case find (\<lambda>k. tk_keyFingerprint k = str_of (fld s ''currentKeyFingerprint'')) keys of
             None \<Rightarrow> bad
           | Some current \<Rightarrow>
               if \<not> tk_active current then bad
               else Inr \<lparr>te_environment = env, te_authorityId = the (ATTESTATION_AUTHORITY_IDS (environment_name env)),
                 te_policyEpoch = ATTESTATION_POLICY_EPOCH, te_currentKeyFingerprint = str_of (fld s ''currentKeyFingerprint''), te_keys = keys\<rparr>)
     | _ \<Rightarrow> bad)"

datatype manifest_source = TextSource string | ByteSource bytes

definition source_text :: "'k attestation_ops \<Rightarrow> manifest_source \<Rightarrow> string + string" where
  "source_text am src = (case src of
     TextSource s \<Rightarrow> Inr s
   | ByteSource b \<Rightarrow> if length b = 0 \<or> length b > TRUST_MANIFEST_MAX_BYTES then bad
       else (case am_decode am b of None \<Rightarrow> bad | Some s \<Rightarrow> Inr s))"

definition manifest_environments :: "'k attestation_ops \<Rightarrow> jval list \<Rightarrow> string + trust_environment list" where
  "manifest_environments am sections =
     sum_map (\<lambda>(v, env). parseEnvironment am v env) (zip sections ENVIRONMENT_ORDER)"

definition manifest_of_sections :: "'k attestation_ops \<Rightarrow> jval list \<Rightarrow> string + trust_manifest" where
  "manifest_of_sections am sections =
     (if length sections \<noteq> length ENVIRONMENT_ORDER then bad
      else sum_bind (manifest_environments am sections) (\<lambda>environments.
        let all = concat (map te_keys environments) in
        if \<not> distinct (map tk_keyFingerprint all) \<or> \<not> distinct (map tk_publicKey all) then bad
        else Inr \<lparr>tm_manifestVersion = TRUST_MANIFEST_VERSION, tm_attestationVersion = ATTESTATION_VERSION,
          tm_trustEpoch = ATTESTATION_TRUST_EPOCH, tm_environments = environments\<rparr>))"

definition parseAuthorityResultTrustManifest :: "'k attestation_ops \<Rightarrow> manifest_source \<Rightarrow> string + trust_manifest" where
  "parseAuthorityResultTrustManifest am src = sum_bind (source_text am src) (\<lambda>s.
     if length s = 0 \<or> length (am_utf8 am s) > TRUST_MANIFEST_MAX_BYTES then bad
     else case parseStrictJsonText s ''attestation-manifest'' 16 of
       Inl _ \<Rightarrow> bad
     | Inr v \<Rightarrow> sum_bind (exactRecord v MANIFEST_FIELDS) (\<lambda>top.
         if fld top ''manifestVersion'' \<noteq> Some (JNum TRUST_MANIFEST_VERSION) \<or> fld top ''attestationVersion'' \<noteq> Some (JNum ATTESTATION_VERSION)
            \<or> fld top ''trustEpoch'' \<noteq> Some (JNum ATTESTATION_TRUST_EPOCH) then bad
         else case fld top ''environments'' of
           Some (JArr sections) \<Rightarrow> manifest_of_sections am sections
         | _ \<Rightarrow> bad))"

text \<open>The validity of a key for a statement observed at one time, at the local clock.\<close>

definition key_usable :: "trust_key \<Rightarrow> int \<Rightarrow> int \<Rightarrow> bool" where
  "key_usable k observedAt nowMs \<longleftrightarrow> tk_active k \<and> \<not> tk_notBefore k > observedAt
     \<and> (case tk_notAfter k of None \<Rightarrow> True | Some t \<Rightarrow> \<not> observedAt \<ge> t)
     \<and> \<not> nowMs < tk_notBefore k - ATTESTATION_MAX_FUTURE_SKEW_MS
     \<and> (case tk_notAfter k of None \<Rightarrow> True | Some t \<Rightarrow> \<not> nowMs \<ge> t)"

definition selectAttestationTrustKey :: "trust_manifest list \<Rightarrow> trust_manifest \<Rightarrow> jval \<Rightarrow> int \<Rightarrow> string + trust_key" where
  "selectAttestationTrustKey parsedManifests manifest v nowMs =
     (if manifest \<notin> set parsedManifests then Inl ''attestation-manifest''
      else sum_bind (snapshotResultStatement v) (\<lambda>st.
        if \<not> is_safe_time nowMs then Inl ''attestation-key''
        else case find (\<lambda>s. fld st ''environment'' = Some (JStr (environment_name (te_environment s)))) (tm_environments manifest) of
          None \<Rightarrow> Inl ''attestation-key''
        | Some s \<Rightarrow>
            if fld st ''authorityId'' \<noteq> Some (JStr (te_authorityId s)) \<or> fld st ''policyEpoch'' \<noteq> Some (JStr (te_policyEpoch s))
               \<or> fld st ''trustEpoch'' \<noteq> Some (JNum (tm_trustEpoch manifest)) then Inl ''attestation-key''
            else (case find (\<lambda>k. fld st ''writerKeyFingerprint'' = Some (JStr (tk_keyFingerprint k))) (te_keys s) of
                None \<Rightarrow> Inl ''attestation-key''
              | Some k \<Rightarrow>
                  if \<not> key_usable k (num_of (fld st ''observedAtMs'')) nowMs then Inl ''attestation-key''
                  else sum_bind (assertAttestationFresh (num_of (fld st ''observedAtMs'')) nowMs) (\<lambda>_. Inr k))))"

subsection \<open>Expectations\<close>

record expectations =
  ex_kind :: string
  ex_environment :: string
  ex_authorityId :: string
  ex_policyEpoch :: string
  ex_digest :: string
  ex_nonce :: "string option"

definition LIFECYCLE_EXPECTATION_FIELDS :: "string list" where
  "LIFECYCLE_EXPECTATION_FIELDS = [''kind'', ''environment'', ''authorityId'', ''policyEpoch'', ''digest'']"
definition RECONCILIATION_EXPECTATION_FIELDS :: "string list" where
  "RECONCILIATION_EXPECTATION_FIELDS = LIFECYCLE_EXPECTATION_FIELDS @ [''nonce'']"

definition data_field :: "jval \<Rightarrow> string \<Rightarrow> string + string" where
  "data_field v k = (case fld v k of Some (JStr s) \<Rightarrow> Inr s | _ \<Rightarrow> Inl ''attestation-expectation'')"

definition snapshotExpectations :: "jval \<Rightarrow> string + expectations" where
  "snapshotExpectations v =
     (if \<not> isPlainRecord v then Inl ''attestation-expectation''
      else
      sum_bind (data_field v ''kind'') (\<lambda>kind.
      let names = (if kind = ''lifecycle'' then LIFECYCLE_EXPECTATION_FIELDS else if kind = ''reconciliation'' then RECONCILIATION_EXPECTATION_FIELDS else []) in
      if names = [] \<or> length (own_keys v) \<noteq> length names \<or> \<not> list_all (\<lambda>k. k \<in> set names) (own_keys v) then Inl ''attestation-expectation''
      else
      sum_bind (data_field v ''environment'') (\<lambda>environment.
      sum_bind (data_field v ''authorityId'') (\<lambda>authorityId.
      sum_bind (data_field v ''policyEpoch'') (\<lambda>policyEpoch.
      sum_bind (data_field v ''digest'') (\<lambda>digest.
      if ATTESTATION_AUTHORITY_IDS environment \<noteq> Some authorityId \<or> policyEpoch \<noteq> ATTESTATION_POLICY_EPOCH \<or> \<not> isLowerHex64 digest
      then Inl ''attestation-expectation''
      else if kind = ''lifecycle'' then Inr \<lparr>ex_kind = kind, ex_environment = environment, ex_authorityId = authorityId,
        ex_policyEpoch = policyEpoch, ex_digest = digest, ex_nonce = None\<rparr>
      else
      sum_bind (data_field v ''nonce'') (\<lambda>nonce.
      if \<not> is_hex 32 nonce then Inl ''attestation-expectation''
      else Inr \<lparr>ex_kind = kind, ex_environment = environment, ex_authorityId = authorityId, ex_policyEpoch = policyEpoch,
        ex_digest = digest, ex_nonce = Some nonce\<rparr>)))))))"

subsection \<open>Verification\<close>

record verified_statement =
  vs_statement :: jval
  vs_signingKeyFingerprint :: string
  vs_verifiedAt :: int
  vs_expectations :: expectations

definition matches_expectations :: "jval \<Rightarrow> expectations \<Rightarrow> bool" where
  "matches_expectations st ex \<longleftrightarrow>
     fld st ''kind'' = Some (JStr (ex_kind ex)) \<and> fld st ''environment'' = Some (JStr (ex_environment ex))
     \<and> fld st ''authorityId'' = Some (JStr (ex_authorityId ex)) \<and> fld st ''policyEpoch'' = Some (JStr (ex_policyEpoch ex))
     \<and> fld st ''digest'' = Some (JStr (ex_digest ex))
     \<and> \<not> (fld st ''kind'' = Some (JStr ''reconciliation'') \<and> ex_kind ex = ''reconciliation'' \<and> fld st ''nonce'' \<noteq> map_option JStr (ex_nonce ex))"

definition verifyAuthoritySignedStatement ::
  "'k attestation_ops \<Rightarrow> trust_manifest list \<Rightarrow> bytes \<Rightarrow> jval \<Rightarrow> trust_manifest \<Rightarrow> int \<Rightarrow> string + verified_statement" where
  "verifyAuthoritySignedStatement am parsedManifests b expectations manifest nowMs =
     sum_bind (snapshotExpectations expectations) (\<lambda>expected.
     sum_bind (parseResultAttestationEnvelope (am_utf8 am) (am_decode am) b) (\<lambda>(st, signature).
     if \<not> matches_expectations st expected then Inl ''attestation-expectation''
     else
     sum_bind (selectAttestationTrustKey parsedManifests manifest st nowMs) (\<lambda>key.
     if \<not> verifyAttestationSignature am (envelope_value st signature) (JStr (tk_publicKey key)) then Inl ''attestation-signature''
     else Inr \<lparr>vs_statement = st, vs_signingKeyFingerprint = tk_keyFingerprint key, vs_verifiedAt = nowMs, vs_expectations = expected\<rparr>)))"

subsection \<open>What a parsed manifest promises\<close>

definition trust_key_ok :: "'k attestation_ops \<Rightarrow> trust_key \<Rightarrow> bool" where
  "trust_key_ok am k \<longleftrightarrow> am_fingerprint am (JStr (tk_publicKey k)) = Inr (tk_keyFingerprint k) \<and> isLowerHex64 (tk_keyFingerprint k)
     \<and> (\<exists>key. am_importPublic am (JStr (tk_publicKey k)) = Inr key)
     \<and> is_safe_time (tk_notBefore k) \<and> (case tk_notAfter k of None \<Rightarrow> tk_active k | Some t \<Rightarrow> tk_notBefore k < t)"

definition section_ok :: "'k attestation_ops \<Rightarrow> trust_environment \<Rightarrow> bool" where
  "section_ok am s \<longleftrightarrow> Some (te_authorityId s) = ATTESTATION_AUTHORITY_IDS (environment_name (te_environment s))
     \<and> te_policyEpoch s = ATTESTATION_POLICY_EPOCH \<and> length (te_keys s) \<in> {1..3} \<and> list_all (trust_key_ok am) (te_keys s)
     \<and> list_ex (\<lambda>k. tk_keyFingerprint k = te_currentKeyFingerprint s \<and> tk_active k) (te_keys s)"

definition manifest_keys :: "trust_manifest \<Rightarrow> trust_key list" where
  "manifest_keys m = concat (map te_keys (tm_environments m))"

definition manifest_ok :: "'k attestation_ops \<Rightarrow> trust_manifest \<Rightarrow> bool" where
  "manifest_ok am m \<longleftrightarrow> map te_environment (tm_environments m) = [Production, Staging] \<and> list_all (section_ok am) (tm_environments m)
     \<and> distinct (map tk_keyFingerprint (manifest_keys m)) \<and> distinct (map tk_publicKey (manifest_keys m))
     \<and> tm_trustEpoch m = ATTESTATION_TRUST_EPOCH"

lemma bad_not_Inr [simp]: "bad \<noteq> Inr x" "Inr x \<noteq> bad"
  by (simp_all add: bad_def)

lemma str_such_str_of: "str_such P v \<Longrightarrow> P (str_of v) \<and> v = Some (JStr (str_of v))"
  by (auto simp: str_such_def str_of_def split: option.splits jval.splits)

lemma isSafeTime_num_of: "isSafeTime v \<Longrightarrow> is_safe_time (num_of v)"
  by (auto simp: isSafeTime_def num_of_def is_safe_time_def split: option.splits jval.splits)

lemma parsed_key_ok: "parseKeyEntry am v = Inr k \<Longrightarrow> trust_key_ok am k"
  by (auto simp: parseKeyEntry_def key_fields_ok_def trust_key_ok_def sum_bind_Inr_iff Let_def isSafeTime_num_of dest: str_such_str_of
      split: if_splits sum.splits)

lemma parsed_section_ok:
  assumes "parseEnvironment am v env = Inr s"
  shows "section_ok am s \<and> te_environment s = env"
proof -
  obtain x entries where x: "fld x ''keys'' = Some (JArr entries)" "length entries \<in> {1..3}"
    and rest: "sum_bind (sum_map (parseKeyEntry am) entries) (\<lambda>keys.
      case find (\<lambda>k. tk_keyFingerprint k = str_of (fld x ''currentKeyFingerprint'')) keys of
        None \<Rightarrow> bad
      | Some current \<Rightarrow> if \<not> tk_active current then bad
          else Inr \<lparr>te_environment = env, te_authorityId = the (ATTESTATION_AUTHORITY_IDS (environment_name env)),
            te_policyEpoch = ATTESTATION_POLICY_EPOCH, te_currentKeyFingerprint = str_of (fld x ''currentKeyFingerprint''), te_keys = keys\<rparr>) = Inr s"
    using assms unfolding parseEnvironment_def sum_bind_Inr_iff [of "exactRecord v SECTION_FIELDS"]
    by (auto simp: Suc_le_eq split: if_split_asm option.split_asm jval.split_asm)
  obtain keys current where k: "sum_map (parseKeyEntry am) entries = Inr keys"
    "find (\<lambda>k. tk_keyFingerprint k = str_of (fld x ''currentKeyFingerprint'')) keys = Some current" "tk_active current"
    and s: "s = \<lparr>te_environment = env, te_authorityId = the (ATTESTATION_AUTHORITY_IDS (environment_name env)),
      te_policyEpoch = ATTESTATION_POLICY_EPOCH, te_currentKeyFingerprint = str_of (fld x ''currentKeyFingerprint''), te_keys = keys\<rparr>"
    using rest unfolding sum_bind_Inr_iff by (auto split: if_split_asm option.split_asm)
  have "list_all2 (\<lambda>x y. parseKeyEntry am x = Inr y) entries keys" using k(1) by (simp add: sum_map_Inr_iff)
  then have "list_all (trust_key_ok am) keys" "length keys = length entries"
    by (auto simp: list_all2_conv_all_nth list_all_length parsed_key_ok)
  moreover have "ATTESTATION_AUTHORITY_IDS (environment_name env) \<noteq> None"
    by (cases env) (simp_all add: ATTESTATION_AUTHORITY_IDS_def)
  ultimately show ?thesis using k(3) x(2) find_SomeD [OF k(2)] by (auto simp: s section_ok_def list_ex_iff)
qed

lemma parsed_manifest_ok:
  assumes "parseAuthorityResultTrustManifest am src = Inr m"
  shows "manifest_ok am m"
proof -
  have step: "\<exists>sections. manifest_of_sections am sections = Inr m"
    if "(case fld top ''environments'' of Some (JArr sections) \<Rightarrow> manifest_of_sections am sections | _ \<Rightarrow> bad) = Inr m" for top
    using that by (auto split: option.split_asm jval.split_asm)
  obtain s0 v where "(case parseStrictJsonText s0 ''attestation-manifest'' 16 of Inl _ \<Rightarrow> bad
     | Inr v \<Rightarrow> sum_bind (exactRecord v MANIFEST_FIELDS) (\<lambda>top.
         if fld top ''manifestVersion'' \<noteq> Some (JNum TRUST_MANIFEST_VERSION) \<or> fld top ''attestationVersion'' \<noteq> Some (JNum ATTESTATION_VERSION)
            \<or> fld top ''trustEpoch'' \<noteq> Some (JNum ATTESTATION_TRUST_EPOCH) then bad
         else case fld top ''environments'' of Some (JArr sections) \<Rightarrow> manifest_of_sections am sections | _ \<Rightarrow> bad)) = Inr m"
    using assms unfolding parseAuthorityResultTrustManifest_def sum_bind_Inr_iff [of "source_text am src"] by (metis bad_not_Inr(1))
  then obtain top where "(case fld top ''environments'' of Some (JArr sections) \<Rightarrow> manifest_of_sections am sections | _ \<Rightarrow> bad) = Inr m"
    by (cases "parseStrictJsonText s0 ''attestation-manifest'' 16") (simp_all add: sum_bind_Inr_iff, metis bad_not_Inr(1))
  then obtain sections where "manifest_of_sections am sections = Inr m" using step by blast
  then have s: "length sections = 2" "manifest_environments am sections = Inr (tm_environments m)"
    "distinct (map tk_keyFingerprint (manifest_keys m))" "distinct (map tk_publicKey (manifest_keys m))" "tm_trustEpoch m = ATTESTATION_TRUST_EPOCH"
    by (auto simp: manifest_of_sections_def sum_bind_Inr_iff Let_def manifest_keys_def ENVIRONMENT_ORDER_def split: if_split_asm)
  obtain a b where "sections = [a, b]" using s(1) by (auto simp: length_Suc_conv numeral_2_eq_2)
  then obtain p q where "parseEnvironment am a Production = Inr p" "parseEnvironment am b Staging = Inr q" "tm_environments m = [p, q]"
    using s(2) by (auto simp: manifest_environments_def ENVIRONMENT_ORDER_def sum_bind_Inr_iff)
  then show ?thesis using s(3-) parsed_section_ok by (fastforce simp: manifest_ok_def)
qed

subsection \<open>What verification accepts\<close>

lemma select_iff:
  "selectAttestationTrustKey ms m v nowMs = Inr k \<longleftrightarrow> m \<in> set ms \<and> is_safe_time nowMs
     \<and> (\<exists>st s. snapshotResultStatement v = Inr st
          \<and> find (\<lambda>s. fld st ''environment'' = Some (JStr (environment_name (te_environment s)))) (tm_environments m) = Some s
          \<and> fld st ''authorityId'' = Some (JStr (te_authorityId s)) \<and> fld st ''policyEpoch'' = Some (JStr (te_policyEpoch s))
          \<and> fld st ''trustEpoch'' = Some (JNum (tm_trustEpoch m))
          \<and> find (\<lambda>k. fld st ''writerKeyFingerprint'' = Some (JStr (tk_keyFingerprint k))) (te_keys s) = Some k
          \<and> key_usable k (num_of (fld st ''observedAtMs'')) nowMs
          \<and> assertAttestationFresh (num_of (fld st ''observedAtMs'')) nowMs = Inr ())"
  by (auto simp: selectAttestationTrustKey_def sum_bind_Inr_iff split: if_splits option.splits)

lemma environment_name_inject: "environment_name a = environment_name b \<longleftrightarrow> a = b"
  by (cases a; cases b) simp_all

text \<open>Sections of a manifest that differ share no key.\<close>

lemma keys_in_one_section:
  assumes "manifest_ok am m" "s \<in> set (tm_environments m)" "s' \<in> set (tm_environments m)" "k \<in> set (te_keys s)" "k' \<in> set (te_keys s')"
    and "tk_keyFingerprint k = tk_keyFingerprint k' \<or> tk_publicKey k = tk_publicKey k'"
  shows "s = s' \<and> k = k'"
proof -
  obtain p q where e: "tm_environments m = [p, q]" using assms(1) by (auto simp: manifest_ok_def map_eq_Cons_conv)
  have d: "distinct (map tk_keyFingerprint (te_keys p @ te_keys q))" "distinct (map tk_publicKey (te_keys p @ te_keys q))"
    using assms(1) by (auto simp: manifest_ok_def manifest_keys_def e)
  have "k \<in> set (te_keys p @ te_keys q)" "k' \<in> set (te_keys p @ te_keys q)" using assms(2-5) e by auto
  then have "k = k'" using assms(6) d by (meson distinct_map inj_onD)
  moreover have "set (te_keys p) \<inter> set (te_keys q) = {}" using d(1) by (auto simp: distinct_map)
  ultimately show ?thesis using assms(2-5) e by auto
qed

lemma parsed_snapshot:
  assumes "parseResultAttestationEnvelope utf8 dec b = Inr (st, sig)"
  shows "snapshotResultStatement st = Inr st"
proof -
  obtain x where x: "parseResultStatementTuple x = Inr st"
    using assms by (auto simp: parseResultAttestationEnvelope_def sum_bind_Inr_iff split: if_split_asm option.split_asm)
  then obtain t where "x = JArr t" by (cases x) (simp_all add: parseResultStatementTuple_def snapshotPlainArray_def)
  then show ?thesis using snapshot_of_parse x by (simp add: snapshotResultStatement_def)
qed

lemma verified_cases:
  assumes "verifyAuthoritySignedStatement am ms b e m nowMs = Inr v"
  obtains sig k where "snapshotExpectations e = Inr (vs_expectations v)" "parseResultAttestationEnvelope (am_utf8 am) (am_decode am) b = Inr (vs_statement v, sig)"
    "matches_expectations (vs_statement v) (vs_expectations v)" "selectAttestationTrustKey ms m (vs_statement v) nowMs = Inr k"
    "verifyAttestationSignature am (envelope_value (vs_statement v) sig) (JStr (tk_publicKey k))" "vs_signingKeyFingerprint v = tk_keyFingerprint k"
  using assms by (auto simp: verifyAuthoritySignedStatement_def sum_bind_Inr_iff split: if_split_asm)

text \<open>The trusted key behind a verified statement: its section, its validity, and the signature.\<close>

definition trusted_by :: "'k attestation_ops \<Rightarrow> trust_manifest \<Rightarrow> int \<Rightarrow> verified_statement \<Rightarrow> trust_environment \<Rightarrow> trust_key \<Rightarrow> bool" where
  "trusted_by am m nowMs v s k \<longleftrightarrow> s \<in> set (tm_environments m) \<and> k \<in> set (te_keys s)
     \<and> fld (vs_statement v) ''environment'' = Some (JStr (environment_name (te_environment s)))
     \<and> ex_environment (vs_expectations v) = environment_name (te_environment s)
     \<and> am_fingerprint am (JStr (tk_publicKey k)) = Inr (vs_signingKeyFingerprint v)
     \<and> fld (vs_statement v) ''writerKeyFingerprint'' = Some (JStr (vs_signingKeyFingerprint v))
     \<and> key_usable k (num_of (fld (vs_statement v) ''observedAtMs'')) nowMs
     \<and> nowMs - num_of (fld (vs_statement v) ''observedAtMs'') \<in> {- 60000..300000}
     \<and> (\<exists>t sig key. canonicalStatementText (vs_statement v) = Inr t \<and> am_importPublic am (JStr (tk_publicKey k)) = Inr key
          \<and> am_verify am key sig (am_utf8 am (ATTESTATION_SIGNING_DOMAIN @ t)))"

lemma verified_trusted:
  assumes "manifest_ok am m" "verifyAuthoritySignedStatement am ms b e m nowMs = Inr v"
  shows "\<exists>s k. trusted_by am m nowMs v s k"
proof -
  obtain sig k where v: "parseResultAttestationEnvelope (am_utf8 am) (am_decode am) b = Inr (vs_statement v, sig)"
    "matches_expectations (vs_statement v) (vs_expectations v)" "selectAttestationTrustKey ms m (vs_statement v) nowMs = Inr k"
    "verifyAttestationSignature am (envelope_value (vs_statement v) sig) (JStr (tk_publicKey k))" "vs_signingKeyFingerprint v = tk_keyFingerprint k"
    using verified_cases [OF assms(2)] by metis
  obtain s where s: "find (\<lambda>s. fld (vs_statement v) ''environment'' = Some (JStr (environment_name (te_environment s)))) (tm_environments m) = Some s"
    "find (\<lambda>k. fld (vs_statement v) ''writerKeyFingerprint'' = Some (JStr (tk_keyFingerprint k))) (te_keys s) = Some k"
    "key_usable k (num_of (fld (vs_statement v) ''observedAtMs'')) nowMs"
    "assertAttestationFresh (num_of (fld (vs_statement v) ''observedAtMs'')) nowMs = Inr ()"
    using v(3) parsed_snapshot [OF v(1)] unfolding select_iff by auto
  note f = find_SomeD [OF s(1)] find_SomeD [OF s(2)]
  then have "trust_key_ok am k" using assms(1) by (auto simp: manifest_ok_def section_ok_def list_all_iff)
  then have "am_fingerprint am (JStr (tk_publicKey k)) = Inr (tk_keyFingerprint k)" by (simp add: trust_key_ok_def)
  moreover have "nowMs - num_of (fld (vs_statement v) ''observedAtMs'') \<in> {- 60000..300000}"
    using s(4) by (auto simp: assertAttestationFresh_def ATTESTATION_MAX_AGE_MS_def ATTESTATION_MAX_FUTURE_SKEW_MS_def split: if_split_asm)
  ultimately have "trusted_by am m nowMs v s k"
    using f s(3) v(2,4,5) unfolding trusted_by_def verify_iff matches_expectations_def by auto
  then show ?thesis by blast
qed

lemma valid_trust_epoch:
  assumes "validateResultStatement st = Inr ()"
  shows "fld st ''trustEpoch'' = Some (JNum ATTESTATION_TRUST_EPOCH)"
proof -
  obtain ob where "validateCommon st = Inr ob"
    using assms by (auto simp: validateResultStatement_def sum_bind_Inr_iff split: if_split_asm)
  then show ?thesis by (auto simp: validateCommon_def split: if_split_asm)
qed

lemma snapshot_valid: "snapshotResultStatement v = Inr st \<Longrightarrow> validateResultStatement st = Inr ()"
  by (auto simp: snapshotResultStatement_def sum_bind_Inr_iff dest: parse_validates)

text \<open>Verification of what a signer signed.\<close>

lemma signed_envelope:
  assumes "sign am pin st v = Inr b" "snapshotResultStatement v = Inr sn" "\<And>s. am_decode am (am_utf8 am s) = Some s"
  shows "\<exists>sig. parseResultAttestationEnvelope (am_utf8 am) (am_decode am) b = Inr (sn, sig)
     \<and> verifyAttestationSignature am (envelope_value sn sig) (JStr (sp_publicKey pin))
     \<and> fld sn ''environment'' = Some (JStr (environment_name (sp_environment pin))) \<and> fld sn ''authorityId'' = Some (JStr (authority_id pin))
     \<and> fld sn ''policyEpoch'' = Some (JStr ATTESTATION_POLICY_EPOCH) \<and> fld sn ''writerKeyFingerprint'' = Some (JStr (sp_fingerprint pin))"
proof -
  obtain key where key: "sign_snapshot am pin key sn = Inr b"
    and pinned: "fld sn ''environment'' = Some (JStr (environment_name (sp_environment pin)))" "fld sn ''authorityId'' = Some (JStr (authority_id pin))"
      "fld sn ''policyEpoch'' = Some (JStr ATTESTATION_POLICY_EPOCH)" "fld sn ''writerKeyFingerprint'' = Some (JStr (sp_fingerprint pin))"
    using assms(1,2) by (auto simp: sign_def split: if_split_asm option.split_asm)
  obtain s st' sig where b: "encodeResultAttestationEnvelope (am_utf8 am) (envelope_value sn s) = Inr b"
    "parseResultAttestationEnvelope (am_utf8 am) (am_decode am) b = Inr (st', sig)"
    "verifyAttestationSignature am (envelope_value st' sig) (JStr (sp_publicKey pin))"
    using key by (auto simp: sign_snapshot_def sum_bind_Inr_iff Let_def split: if_split_asm)
  obtain tup where "parseResultStatementTuple (JArr tup) = Inr sn"
    using assms(2) by (auto simp: snapshotResultStatement_def sum_bind_Inr_iff)
  from parse_of_encode [OF assms(3) this b(1) [unfolded envelope_value_def] b(2)] show ?thesis using b(2,3) pinned by blast
qed

lemma signed_verifies:
  assumes "\<And>s. am_decode am (am_utf8 am s) = Some s" "parseAuthorityResultTrustManifest am src = Inr m" "m \<in> set ms"
    and "s \<in> set (tm_environments m)" "k \<in> set (te_keys s)" "te_environment s = sp_environment pin" "tk_keyFingerprint k = sp_fingerprint pin"
    and "tk_publicKey k = sp_publicKey pin"
    and "sign am pin st v = Inr b" "snapshotResultStatement v = Inr sn" "snapshotExpectations e = Inr ex" "matches_expectations sn ex"
    and "is_safe_time nowMs" "key_usable k (num_of (fld sn ''observedAtMs'')) nowMs"
    and "assertAttestationFresh (num_of (fld sn ''observedAtMs'')) nowMs = Inr ()"
  shows "verifyAuthoritySignedStatement am ms b e m nowMs = Inr \<lparr>vs_statement = sn, vs_signingKeyFingerprint = sp_fingerprint pin,
    vs_verifiedAt = nowMs, vs_expectations = ex\<rparr>"
proof -
  obtain sig where sig: "parseResultAttestationEnvelope (am_utf8 am) (am_decode am) b = Inr (sn, sig)"
    "verifyAttestationSignature am (envelope_value sn sig) (JStr (sp_publicKey pin))"
    "fld sn ''environment'' = Some (JStr (environment_name (sp_environment pin)))" "fld sn ''authorityId'' = Some (JStr (authority_id pin))"
    "fld sn ''policyEpoch'' = Some (JStr ATTESTATION_POLICY_EPOCH)" "fld sn ''writerKeyFingerprint'' = Some (JStr (sp_fingerprint pin))"
    using signed_envelope [OF assms(9,10,1)] by blast
  have ok: "manifest_ok am m" by (rule parsed_manifest_ok [OF assms(2)])
  have "\<exists>s'. find (\<lambda>s. fld sn ''environment'' = Some (JStr (environment_name (te_environment s)))) (tm_environments m) = Some s'"
    unfolding find_isSome_iff list_ex_iff using assms(4,6) sig(3) by (intro bexI [of _ s]) simp_all
  moreover have "s' = s" if "find (\<lambda>s. fld sn ''environment'' = Some (JStr (environment_name (te_environment s)))) (tm_environments m) = Some s'" for s'
    using find_SomeD [OF that] ok assms(4,6) sig(3) by (auto simp: manifest_ok_def map_eq_Cons_conv environment_name_inject)
  ultimately have s: "find (\<lambda>s. fld sn ''environment'' = Some (JStr (environment_name (te_environment s)))) (tm_environments m) = Some s" by blast
  have "\<exists>k'. find (\<lambda>k. fld sn ''writerKeyFingerprint'' = Some (JStr (tk_keyFingerprint k))) (te_keys s) = Some k'"
    unfolding find_isSome_iff list_ex_iff using assms(5,7) sig(6) by (intro bexI [of _ k]) simp_all
  moreover have "k' = k" if "find (\<lambda>k. fld sn ''writerKeyFingerprint'' = Some (JStr (tk_keyFingerprint k))) (te_keys s) = Some k'" for k'
    using find_SomeD [OF that] keys_in_one_section [OF ok assms(4,4), of k' k] assms(5,7) sig(6) by simp
  ultimately have k: "find (\<lambda>k. fld sn ''writerKeyFingerprint'' = Some (JStr (tk_keyFingerprint k))) (te_keys s) = Some k" by blast
  have "section_ok am s" using ok assms(4) by (auto simp: manifest_ok_def list_all_iff)
  then have "authority_id pin = te_authorityId s" "te_policyEpoch s = ATTESTATION_POLICY_EPOCH"
    using assms(6) by (auto simp: section_ok_def authority_id_def dest: sym)
  moreover have "fld sn ''trustEpoch'' = Some (JNum (tm_trustEpoch m))"
    using valid_trust_epoch [OF snapshot_valid [OF assms(10)]] ok by (simp add: manifest_ok_def)
  ultimately have "selectAttestationTrustKey ms m sn nowMs = Inr k"
    unfolding select_iff using assms(3,13-15) s k sig(4,5) parsed_snapshot [OF sig(1)] by auto
  then show ?thesis using assms(7,8,11,12) sig(1,2) by (simp add: verifyAuthoritySignedStatement_def)
qed

subsection \<open>A sample\<close>

definition quoted :: "string \<Rightarrow> string" where "quoted s = CHR 0x22 # s @ [CHR 0x22]"

definition sample_key_text :: "char \<Rightarrow> string" where
  "sample_key_text c = ''{'' @ quoted ''keyFingerprint'' @ '':'' @ quoted (replicate 64 c) @ '','' @ quoted ''publicKey'' @ '':'' @ quoted [c] @ '',''
     @ quoted ''status'' @ '':'' @ quoted ''active'' @ '','' @ quoted ''notBeforeMs'' @ '':0,'' @ quoted ''notAfterMs'' @ '':null}''"

definition sample_section_text :: "string \<Rightarrow> string \<Rightarrow> char \<Rightarrow> string" where
  "sample_section_text env aid c = ''{'' @ quoted ''environment'' @ '':'' @ quoted env @ '','' @ quoted ''authorityId'' @ '':'' @ quoted aid @ '',''
     @ quoted ''policyEpoch'' @ '':'' @ quoted ''phase5c-i1-epoch-1'' @ '','' @ quoted ''currentKeyFingerprint'' @ '':'' @ quoted (replicate 64 c) @ '',''
     @ quoted ''keys'' @ '':['' @ sample_key_text c @ '']}''"

definition sample_manifest_text :: string where
  "sample_manifest_text = ''{'' @ quoted ''manifestVersion'' @ '':1,'' @ quoted ''attestationVersion'' @ '':2,'' @ quoted ''trustEpoch'' @ '':1,''
     @ quoted ''environments'' @ '':['' @ sample_section_text ''production'' ''production-public-inquiries-v1'' CHR ''c'' @ '',''
     @ sample_section_text ''staging'' ''staging-public-inquiries-v1'' CHR ''d'' @ '']}''"

definition sample_section :: "environment \<Rightarrow> char \<Rightarrow> trust_environment" where
  "sample_section env c = \<lparr>te_environment = env, te_authorityId = the (ATTESTATION_AUTHORITY_IDS (environment_name env)),
     te_policyEpoch = ATTESTATION_POLICY_EPOCH, te_currentKeyFingerprint = replicate 64 c,
     te_keys = [\<lparr>tk_keyFingerprint = replicate 64 c, tk_publicKey = [c], tk_active = True, tk_notBefore = 0, tk_notAfter = None\<rparr>]\<rparr>"

definition sample_manifest :: trust_manifest where
  "sample_manifest = \<lparr>tm_manifestVersion = 1, tm_attestationVersion = 2, tm_trustEpoch = 1,
     tm_environments = [sample_section Production CHR ''c'', sample_section Staging CHR ''d'']\<rparr>"

lemma sample_manifest_parses: "parseAuthorityResultTrustManifest sample_ops (TextSource sample_manifest_text) = Inr sample_manifest"
  by code_simp

definition sample_expectations :: jval where
  "sample_expectations = JObj [(''kind'', JStr ''lifecycle''), (''environment'', JStr ''production''), (''authorityId'', JStr ''production-public-inquiries-v1''),
     (''policyEpoch'', JStr ''phase5c-i1-epoch-1''), (''digest'', JStr (replicate 64 CHR ''a''))]"

definition sample_expected :: expectations where
  "sample_expected = \<lparr>ex_kind = ''lifecycle'', ex_environment = ''production'', ex_authorityId = ''production-public-inquiries-v1'',
     ex_policyEpoch = ''phase5c-i1-epoch-1'', ex_digest = replicate 64 CHR ''a'', ex_nonce = None\<rparr>"

lemma sample_expectations_read: "snapshotExpectations sample_expectations = Inr sample_expected"
  by code_simp

lemma sample_fields:
  assumes "parseResultStatementTuple (JArr sample_tuple) = Inr st"
  shows "matches_expectations st sample_expected" "num_of (fld st ''observedAtMs'') = 2000"
proof -
  have "length sample_tuple = 11" "sample_tuple ! 5 = JStr ''lifecycle''" "sample_tuple ! 8 = JArr (receipt_tuple sample_receipt)"
    by (simp_all add: sample_tuple_def lifecycle_tuple_def)
  then have f: "st = lifecycle_record sample_tuple (receipt_tuple sample_receipt)" using assms by (simp add: parse_lifecycle_iff)
  show "matches_expectations st sample_expected" "num_of (fld st ''observedAtMs'') = 2000"
    unfolding f by (simp_all add: lifecycle_record_def fld_def LIFECYCLE_STATEMENT_FIELDS_def sample_tuple_def lifecycle_tuple_def sample_lifecycle_def
        sample_receipt_def sample_expected_def matches_expectations_def authority_id_of_def ADMISSION_AUTHORITY_ID_def ATTESTATION_POLICY_EPOCH_def num_of_def)
qed

lemma sample_codec [simp]: "am_utf8 sample_ops t = t" "am_decode sample_ops b = Some b"
  by (simp_all add: sample_ops_def)

lemma sample_verified:
  obtains st b where "sign sample_ops sample_pin \<lparr>ss_rawPrivateKey = None, ss_keys = Some ()\<rparr> st = Inr b" "snapshotResultStatement st = Inr st"
    "matches_expectations st sample_expected" "num_of (fld st ''observedAtMs'') = 2000"
  using sample_parses sample_signed sample_fields by metis

lemma sample_usable: "key_usable (hd (te_keys (sample_section Production CHR ''c''))) 2000 3000" "is_safe_time 3000" "assertAttestationFresh 2000 3000 = Inr ()"
  by (simp_all add: sample_section_def key_usable_def assertAttestationFresh_def is_safe_time_def is_safe_integer_def MAX_SAFE_INTEGER_def
      ATTESTATION_MAX_FUTURE_SKEW_MS_def ATTESTATION_MAX_AGE_MS_def)

lemma sample_trust:
  "sample_manifest \<in> set [sample_manifest]" "sample_section Production CHR ''c'' \<in> set (tm_environments sample_manifest)"
  "hd (te_keys (sample_section Production CHR ''c'')) \<in> set (te_keys (sample_section Production CHR ''c''))"
  "te_environment (sample_section Production CHR ''c'') = sp_environment sample_pin"
  "tk_keyFingerprint (hd (te_keys (sample_section Production CHR ''c''))) = sp_fingerprint sample_pin"
  "tk_publicKey (hd (te_keys (sample_section Production CHR ''c''))) = sp_publicKey sample_pin"
  by (simp_all add: sample_manifest_def sample_section_def sample_pin_def)

subsection \<open>Properties\<close>

text \<open>A manifest that is parsed names both environments in order, every key once, with the fingerprint of its public key and a validity that is not
  empty, and the current key of an environment is an active key of that environment.\<close>

theorem parsed_manifest_is_sound:
  assumes "parseAuthorityResultTrustManifest am src = Inr m"
  shows "manifest_ok am m"
  by (rule parsed_manifest_ok [OF assms])

theorem parsed_manifest_is_sound_witness: "manifest_ok sample_ops sample_manifest"
  by (rule parsed_manifest_is_sound [OF sample_manifest_parses])

text \<open>C21. A verified statement is signed by a key that the manifest trusts: an active key listed for the environment the caller expected and the
  statement names, valid when the statement was observed and now, whose fingerprint the statement carries and under which its canonical text
  verifies; the statement is at most five minutes old and one minute ahead. No other key of the manifest, in either environment, has that fingerprint
  or that public key.\<close>

theorem verified_statement_is_trusted:
  assumes "parseAuthorityResultTrustManifest am src = Inr m" "verifyAuthoritySignedStatement am ms b e m nowMs = Inr v"
  shows "\<exists>s k. trusted_by am m nowMs v s k \<and> (\<forall>s'\<in>set (tm_environments m). \<forall>k'\<in>set (te_keys s').
    tk_keyFingerprint k' = vs_signingKeyFingerprint v \<or> tk_publicKey k' = tk_publicKey k \<longrightarrow> s' = s \<and> k' = k)"
proof -
  have ok: "manifest_ok am m" by (rule parsed_manifest_ok [OF assms(1)])
  then obtain s k where t: "trusted_by am m nowMs v s k" using verified_trusted assms(2) by blast
  then have k: "s \<in> set (tm_environments m)" "k \<in> set (te_keys s)" "am_fingerprint am (JStr (tk_publicKey k)) = Inr (vs_signingKeyFingerprint v)"
    by (simp_all add: trusted_by_def)
  moreover have "am_fingerprint am (JStr (tk_publicKey k)) = Inr (tk_keyFingerprint k)"
    using ok k(1,2) by (auto simp: manifest_ok_def section_ok_def list_all_iff trust_key_ok_def)
  ultimately show ?thesis using t keys_in_one_section [OF ok] by (metis Inr_inject)
qed

text \<open>C25. What a signer signs is verified: when the manifest lists the key of the signer for its environment and the key is usable, a fresh envelope that
  the signer returned for a statement is verified for every expectation that statement meets, and the statement comes back unchanged.\<close>

theorem signed_statement_verifies:
  assumes "\<And>s. am_decode am (am_utf8 am s) = Some s" "parseAuthorityResultTrustManifest am src = Inr m" "m \<in> set ms"
    and "s \<in> set (tm_environments m)" "k \<in> set (te_keys s)" "te_environment s = sp_environment pin" "tk_keyFingerprint k = sp_fingerprint pin"
    and "tk_publicKey k = sp_publicKey pin"
    and "sign am pin st v = Inr b" "snapshotResultStatement v = Inr sn" "snapshotExpectations e = Inr ex" "matches_expectations sn ex"
    and "is_safe_time nowMs" "key_usable k (num_of (fld sn ''observedAtMs'')) nowMs"
    and "assertAttestationFresh (num_of (fld sn ''observedAtMs'')) nowMs = Inr ()"
  shows "verifyAuthoritySignedStatement am ms b e m nowMs = Inr \<lparr>vs_statement = sn, vs_signingKeyFingerprint = sp_fingerprint pin,
    vs_verifiedAt = nowMs, vs_expectations = ex\<rparr>"
  using signed_verifies [OF assms] .

theorem signed_statement_verifies_witness:
  "\<exists>st b. sign sample_ops sample_pin \<lparr>ss_rawPrivateKey = None, ss_keys = Some ()\<rparr> st = Inr b
     \<and> verifyAuthoritySignedStatement sample_ops [sample_manifest] b sample_expectations sample_manifest 3000
       = Inr \<lparr>vs_statement = st, vs_signingKeyFingerprint = sp_fingerprint sample_pin, vs_verifiedAt = 3000, vs_expectations = sample_expected\<rparr>"
proof -
  obtain st b where s: "sign sample_ops sample_pin \<lparr>ss_rawPrivateKey = None, ss_keys = Some ()\<rparr> st = Inr b" "snapshotResultStatement st = Inr st"
    "matches_expectations st sample_expected" "num_of (fld st ''observedAtMs'') = 2000" by (rule sample_verified)
  note u = sample_usable [folded s(4)]
  show ?thesis using s(1) signed_statement_verifies [OF _ sample_manifest_parses sample_trust s(1,2) sample_expectations_read s(3) u(2,1,3)] by auto
qed

theorem verified_statement_is_trusted_witness:
  "\<exists>b v s k. verifyAuthoritySignedStatement sample_ops [sample_manifest] b sample_expectations sample_manifest 3000 = Inr v
     \<and> trusted_by sample_ops sample_manifest 3000 v s k"
proof -
  obtain st b where s: "sign sample_ops sample_pin \<lparr>ss_rawPrivateKey = None, ss_keys = Some ()\<rparr> st = Inr b" "snapshotResultStatement st = Inr st"
    "matches_expectations st sample_expected" "num_of (fld st ''observedAtMs'') = 2000" by (rule sample_verified)
  note u = sample_usable [folded s(4)]
  obtain v where v: "verifyAuthoritySignedStatement sample_ops [sample_manifest] b sample_expectations sample_manifest 3000 = Inr v"
    using signed_verifies [OF _ sample_manifest_parses sample_trust s(1,2) sample_expectations_read s(3) u(2,1,3)] by auto
  then show ?thesis using verified_statement_is_trusted [OF sample_manifest_parses v] by blast
qed

end
