(* ===== verification/Sealed_Artifact.thy ===== *)
theory Sealed_Artifact
  imports Attestation_Trust
begin

text \<open>
  Sealed lifecycle artifacts and the relay of answers (\<^verbatim>\<open>operator/lifecycle-submitter.ts\<close>, \<^verbatim>\<open>operator/attested-relay.ts\<close>): the strict JSON
  of a sealed artifact, its parsing and authentication, its submission, and the shape check of the answer of an authority.

  The parser has no depth limit of its own; its recursion is given the length of the text, and \<open>strict_value_fuel\<close> shows that this is
  always enough. What \<^verbatim>\<open>JSON.parse\<close> makes of a number with a fraction or an exponent is the argument \<open>number\<close> (\<^const>\<open>None\<close> when it is
  not an integer: no field of an artifact admits such a number); \<^verbatim>\<open>-0\<close> is 0, which is also its JSON text. The UTF-8 decoder is an argument,
  and the answer of a remote call is an \<open>rpc\<close> value: the own enumerable properties of a plain object, or something else.

  The lemmas: a parsed artifact holds a well-formed command of the expected operation, environment and authority, and an authenticated
  one carries the signature of the operator key; \<^verbatim>\<open>Result_Reader\<close> and \<^verbatim>\<open>Dispatch_Guard\<close> build on both.
\<close>

definition MAX_SEALED_ARTIFACT_BYTES :: nat where "MAX_SEALED_ARTIFACT_BYTES = 4096"

subsection \<open>Strict JSON without a depth limit\<close>

text \<open>\<^verbatim>\<open>(?:\.[0-9]+)?(?:[eE][+-]?[0-9]+)?\<close> after the integer part.\<close>

definition match_fraction :: "string \<Rightarrow> string" where
  "match_fraction s = (case s of
     c # cs \<Rightarrow> if c = CHR ''.'' \<and> takeWhile is_digit cs \<noteq> [] then c # takeWhile is_digit cs else []
   | [] \<Rightarrow> [])"

definition match_exponent :: "string \<Rightarrow> string" where
  "match_exponent s = (case s of
     c # cs \<Rightarrow>
       if c = CHR ''e'' \<or> c = CHR ''E'' then
         (let sign = (case cs of d # _ \<Rightarrow> if d = CHR ''+'' \<or> d = CHR ''-'' then [d] else [] | [] \<Rightarrow> []);
              ds = takeWhile is_digit (drop (length sign) cs)
          in if ds \<noteq> [] then c # sign @ ds else [])
       else []
   | [] \<Rightarrow> [])"

definition strict_literal :: "(string \<Rightarrow> int option) \<Rightarrow> string \<Rightarrow> (jval \<times> string) option" where
  "strict_literal number s =
     (if prefix ''true'' s then Some (JBool True, drop 4 s)
      else if prefix ''false'' s then Some (JBool False, drop 5 s)
      else if prefix ''null'' s then Some (JNull, drop 4 s)
      else case match_number s of
        None \<Rightarrow> None
      | Some (neg, ds) \<Rightarrow>
          (let whole = (if neg then CHR ''-'' # ds else ds);
               fraction = match_fraction (drop (length whole) s);
               exponent = match_exponent (drop (length whole + length fraction) s)
           in if fraction = [] \<and> exponent = []
              then Some (JNum (if neg then - int (digits_value ds) else int (digits_value ds)), drop (length whole) s)
              else (case number (whole @ fraction @ exponent) of
                  None \<Rightarrow> None
                | Some n \<Rightarrow> Some (JNum n, drop (length whole + length fraction + length exponent) s))))"

fun strict_value :: "(string \<Rightarrow> int option) \<Rightarrow> nat \<Rightarrow> string \<Rightarrow> (jval \<times> string) option" where
  "strict_value number 0 s = None"
| "strict_value number (Suc k) s0 = (case skip_space s0 of
     [] \<Rightarrow> strict_literal number []
   | c # cs \<Rightarrow>
       if c = CHR 0x22 then (case parse_string (c # cs) of None \<Rightarrow> None | Some (v, r) \<Rightarrow> Some (JStr v, r))
       else if c = CHR ''['' then (case skip_space cs of
           [] \<Rightarrow> None
         | d # ds \<Rightarrow> if d = CHR '']'' then Some (JArr [], ds)
             else (case array_loop (strict_value number k) (Suc (length cs)) (d # ds) of None \<Rightarrow> None | Some (vs, r) \<Rightarrow> Some (JArr vs, r)))
       else if c = CHR ''{'' then (case skip_space cs of
           [] \<Rightarrow> None
         | d # ds \<Rightarrow> if d = CHR ''}'' then Some (JObj [], ds)
             else (case object_loop (strict_value number k) (Suc (length cs)) [] (d # ds) of None \<Rightarrow> None | Some (kvs, r) \<Rightarrow> Some (JObj kvs, r)))
       else strict_literal number (c # cs))"

definition parseStrictJson :: "(string \<Rightarrow> int option) \<Rightarrow> string \<Rightarrow> string + jval" where
  "parseStrictJson number source = (case strict_value number (Suc (length source)) source of
     None \<Rightarrow> Inl ''invalid-sealed-artifact''
   | Some (v, r) \<Rightarrow> if skip_space r = [] then Inr v else Inl ''invalid-sealed-artifact'')"

subsection \<open>Artifacts\<close>

definition artifact_header_ok :: "jval \<Rightarrow> operation option \<Rightarrow> environment \<Rightarrow> bool" where
  "artifact_header_ok c op env \<longleftrightarrow> el c 0 = Some (JStr AUTHORITY_OPERATOR_COMMAND_VERSION)
     \<and> (case op of None \<Rightarrow> el c 1 = Some (JStr ''initialize'') \<or> el c 1 = Some (JStr ''rotate-release'')
        | Some o1 \<Rightarrow> el c 1 = Some (JStr (operation_name o1)))
     \<and> el c 2 = Some (JStr (environment_name env))
     \<and> el c 3 = Some (JStr (if env = Staging then STAGING_ADMISSION_AUTHORITY_ID else ADMISSION_AUTHORITY_ID))
     \<and> el c 4 = Some (JStr ADMISSION_POLICY_EPOCH)"

definition artifact_record :: "jval \<Rightarrow> (jval \<times> string) option" where
  "artifact_record v =
     (if \<not> isPlainRecord v \<or> length (own_keys v) \<noteq> 2 then None
      else case (fld v ''command'', fld v ''signature'') of
        (Some (JArr xs), Some (JStr signature)) \<Rightarrow> Some (JArr xs, signature)
      | _ \<Rightarrow> None)"

definition check_artifact :: "'k crypto \<Rightarrow> operation option \<Rightarrow> environment \<Rightarrow> jval \<Rightarrow> string + jval \<times> string" where
  "check_artifact cr op env v = (case artifact_record v of
     None \<Rightarrow> Inl ''invalid-sealed-artifact''
   | Some (command, signature) \<Rightarrow>
       if \<not> artifact_header_ok command op env then Inl ''invalid-sealed-artifact''
       else (case (validateAuthorityOperatorCommand cr command, decodeCanonicalBase64url signature (Some 64)) of
           (Inr _, Inr _) \<Rightarrow> Inr (command, signature)
         | _ \<Rightarrow> Inl ''invalid-sealed-artifact''))"

definition parseSealedLifecycleArtifactInvariant ::
  "'k crypto \<Rightarrow> (bytes \<Rightarrow> string option) \<Rightarrow> (string \<Rightarrow> int option) \<Rightarrow> bytes \<Rightarrow> operation option \<Rightarrow> environment \<Rightarrow> string + jval \<times> string" where
  "parseSealedLifecycleArtifactInvariant cr dec number b op env =
     (if b = [] \<or> length b > MAX_SEALED_ARTIFACT_BYTES then Inl ''invalid-sealed-artifact''
      else case dec b of
        None \<Rightarrow> Inl ''invalid-sealed-artifact''
      | Some source \<Rightarrow> sum_bind (parseStrictJson number source) (check_artifact cr op env))"

definition assertSubmissionEligible :: "jval \<Rightarrow> int \<Rightarrow> string + unit" where
  "assertSubmissionEligible c nowMs =
     (if \<not> is_safe_integer nowMs then Inl ''invalid-sealed-artifact''
      else let issued = num_of (el c (if el c 1 = Some (JStr ''initialize'') then 7 else 10)) in
        if \<bar>nowMs - issued\<bar> > 5 * 60000
           \<or> el c 1 = Some (JStr ''rotate-release'') \<and> \<bar>nowMs - num_of (el c 8)\<bar> > 5 * 60000 then Inl ''invalid-sealed-artifact''
        else Inr ())"

definition parseSealedLifecycleArtifact ::
  "'k crypto \<Rightarrow> (bytes \<Rightarrow> string option) \<Rightarrow> (string \<Rightarrow> int option) \<Rightarrow> bytes \<Rightarrow> operation \<Rightarrow> int \<Rightarrow> environment \<Rightarrow> string + jval \<times> string" where
  "parseSealedLifecycleArtifact cr dec number b op nowMs env =
     (if \<not> is_safe_integer nowMs then Inl ''invalid-sealed-artifact''
      else sum_bind (parseSealedLifecycleArtifactInvariant cr dec number b (Some op) env) (\<lambda>artifact.
        sum_bind (assertSubmissionEligible (fst artifact) nowMs) (\<lambda>_. Inr artifact)))"

text \<open>An authenticated command: the registry that records it is, as for verified statements, that only this function returns one.\<close>

record authenticated_command =
  ac_command :: jval
  ac_signature :: string
  ac_digest :: string
  ac_expected :: receipt

definition authenticateSealedLifecycleArtifact ::
  "'k crypto \<Rightarrow> (bytes \<Rightarrow> string option) \<Rightarrow> (string \<Rightarrow> int option) \<Rightarrow> bytes \<Rightarrow> string \<Rightarrow> operation option \<Rightarrow> environment \<Rightarrow> string + authenticated_command" where
  "authenticateSealedLifecycleArtifact cr dec number b operatorPublicKey op env =
     sum_bind (parseSealedLifecycleArtifactInvariant cr dec number b op env) (\<lambda>(command, signature).
     sum_bind (verifyOperatorCommand cr command signature operatorPublicKey) (\<lambda>_.
     sum_bind (expectedCommandReceipt cr command operatorPublicKey) (\<lambda>expected.
     Inr \<lparr>ac_command = command, ac_signature = signature, ac_digest = rc_digest expected, ac_expected = expected\<rparr>)))"

subsection \<open>Relayed answers\<close>

definition RELAY_ENVELOPE_MAX_BYTES :: nat where "RELAY_ENVELOPE_MAX_BYTES = 8192"

text \<open>\<open>RelayEvidence\<close> is the attested answer of a reconciliation, which carries no disposition.\<close>

datatype relay_result =
  RelayAttested disposition bytes
| RelayEvidence bytes
| RelayRefused
| RelayUnavailable string
| RelayAmbiguous string
| RelayUnconfirmed

datatype rpc_field = FieldText string | FieldBytes bytes | FieldOther
datatype rpc = RpcObject "(string \<times> rpc_field) list" | RpcOther

definition isOpaqueEnvelope :: "rpc_field option \<Rightarrow> bool" where
  "isOpaqueEnvelope v = (case v of Some (FieldBytes b) \<Rightarrow> length b \<ge> 1 \<and> length b \<le> RELAY_ENVELOPE_MAX_BYTES | _ \<Rightarrow> False)"

definition exactKeys :: "(string \<times> rpc_field) list \<Rightarrow> string list \<Rightarrow> bool" where
  "exactKeys kvs keys \<longleftrightarrow> length kvs = length keys \<and> list_all (\<lambda>k. map_of kvs k \<noteq> None) keys"

definition is_reason :: "string \<Rightarrow> bool" where
  "is_reason s \<longleftrightarrow> 1 \<le> length s \<and> length s \<le> 64 \<and> list_all (\<lambda>c. is_lower c \<or> is_digit c \<or> c = CHR ''-'') s"

definition disposition_of :: "rpc_field option \<Rightarrow> disposition option" where
  "disposition_of v = (if v = Some (FieldText ''APPLIED'') then Some Applied else if v = Some (FieldText ''ALREADY_APPLIED'') then Some AlreadyApplied else None)"

definition relay_bytes :: "rpc_field option \<Rightarrow> bytes" where
  "relay_bytes v = (case v of Some (FieldBytes b) \<Rightarrow> b | _ \<Rightarrow> [])"
definition relay_text :: "rpc_field option \<Rightarrow> string" where
  "relay_text v = (case v of Some (FieldText s) \<Rightarrow> s | _ \<Rightarrow> [])"

definition normalizeLifecycleRelayResult :: "rpc \<Rightarrow> relay_result" where
  "normalizeLifecycleRelayResult v = (case v of
     RpcOther \<Rightarrow> RelayUnconfirmed
   | RpcObject kvs \<Rightarrow>
       let get = map_of kvs; status = get ''status'' in
       if status = Some (FieldText ''ATTESTED'') \<and> exactKeys kvs [''status'', ''relayDisposition'', ''envelope'']
          \<and> disposition_of (get ''relayDisposition'') \<noteq> None \<and> isOpaqueEnvelope (get ''envelope'')
       then RelayAttested (the (disposition_of (get ''relayDisposition''))) (relay_bytes (get ''envelope''))
       else if status = Some (FieldText ''REFUSED'') \<and> exactKeys kvs [''status''] then RelayRefused
       else if (status = Some (FieldText ''UNAVAILABLE'') \<or> status = Some (FieldText ''AMBIGUOUS'')) \<and> exactKeys kvs [''status'', ''reason'']
          \<and> is_reason (relay_text (get ''reason''))
       then (if status = Some (FieldText ''UNAVAILABLE'') then RelayUnavailable (relay_text (get ''reason'')) else RelayAmbiguous (relay_text (get ''reason'')))
       else RelayUnconfirmed)"

definition normalizeReconciliationRelayResult :: "rpc \<Rightarrow> relay_result" where
  "normalizeReconciliationRelayResult v = (case v of
     RpcOther \<Rightarrow> RelayUnconfirmed
   | RpcObject kvs \<Rightarrow>
       let get = map_of kvs; status = get ''status'' in
       if status = Some (FieldText ''ATTESTED'') \<and> exactKeys kvs [''status'', ''envelope''] \<and> isOpaqueEnvelope (get ''envelope'')
       then RelayEvidence (relay_bytes (get ''envelope''))
       else if status = Some (FieldText ''REFUSED'') \<and> exactKeys kvs [''status''] then RelayRefused
       else if status = Some (FieldText ''UNAVAILABLE'') \<and> exactKeys kvs [''status'', ''reason''] \<and> is_reason (relay_text (get ''reason''))
       then RelayUnavailable (relay_text (get ''reason''))
       else RelayUnconfirmed)"

text \<open>The submission: the answer of the authority, or \<^const>\<open>None\<close> when the call threw.\<close>

definition submitSealedLifecycleArtifact ::
  "'k crypto \<Rightarrow> (bytes \<Rightarrow> string option) \<Rightarrow> (string \<Rightarrow> int option) \<Rightarrow> bytes \<Rightarrow> operation \<Rightarrow> (jval \<Rightarrow> string \<Rightarrow> rpc option) \<Rightarrow> string \<Rightarrow> int \<Rightarrow> environment
   \<Rightarrow> string + relay_result" where
  "submitSealedLifecycleArtifact cr dec number b op admission operatorPublicKey nowMs env =
     sum_bind (parseSealedLifecycleArtifact cr dec number b op nowMs env) (\<lambda>(command, signature).
     sum_bind (verifyOperatorCommand cr command signature operatorPublicKey) (\<lambda>_.
     Inr (case admission command signature of None \<Rightarrow> RelayUnconfirmed | Some answer \<Rightarrow> normalizeLifecycleRelayResult answer)))"

subsection \<open>The fuel of the parser is enough\<close>

lemma array_loop_cong:
  assumes "shortens p" "\<And>t. length t \<le> length s \<Longrightarrow> p t = q t"
  shows "array_loop p n s = array_loop q n s"
  using assms
proof (induction p n s rule: array_loop.induct)
  case (2 p n s)
  show ?case
  proof (cases "p s")
    case None
    then show ?thesis using 2(3) [of s] by simp
  next
    case (Some x)
    obtain v r where x: "x = (v, r)" by fastforce
    have l: "length r \<le> length s" using 2(2) Some x by (auto simp: shortens_def)
    show ?thesis
    proof (cases "skip_space r")
      case Nil
      then show ?thesis using Some x 2(3) [of s] by simp
    next
      case (Cons c r2)
      have "length r2 \<le> length s" using skip_space_Cons [OF Cons] l by simp
      then have "array_loop p n r2 = array_loop q n r2" if "c \<noteq> CHR '']''" "c = CHR '',''"
        using 2(1) [OF Some x [symmetric] Cons that 2(2)] 2(3) by simp
      then show ?thesis using Some x Cons 2(3) [of s] by auto
    qed
  qed
qed simp

lemma object_loop_cong:
  assumes "shortens p" "\<And>t. length t \<le> length s \<Longrightarrow> p t = q t"
  shows "object_loop p n known s = object_loop q n known s"
  using assms
proof (induction n arbitrary: known s)
  case (Suc n)
  have "p r2 = q r2" if "parse_string (skip_space s) = Some (k, r1)" "skip_space r1 = c # r2" for k r1 c r2
    using parse_string_length [OF that(1)] skip_space_length [of s] skip_space_Cons [OF that(2)] Suc.prems(2) [of r2] by simp
  moreover have "object_loop p n (k # known) r4 = object_loop q n (k # known) r4"
    if "parse_string (skip_space s) = Some (k, r1)" "skip_space r1 = c # r2" "p r2 = Some (v, r3)" "skip_space r3 = d # r4" for k r1 c r2 v r3 d r4
  proof -
    have "length r3 \<le> length r2" using Suc.prems(1) that(3) by (auto simp: shortens_def)
    then have "length r4 \<le> length s"
      using parse_string_length [OF that(1)] skip_space_length [of s] skip_space_Cons [OF that(2)] skip_space_Cons [OF that(4)] by linarith
    then show ?thesis using Suc.IH [OF Suc.prems(1)] Suc.prems(2) by simp
  qed
  ultimately show ?case by (auto split: option.splits list.splits)
qed simp

lemma strict_literal_shortens: "shortens (strict_literal number)"
  by (auto simp: shortens_def strict_literal_def Let_def split: if_splits option.splits)

lemma strict_value_shortens: "shortens (strict_value number k)"
proof (induction k)
  case (Suc k)
  show ?case unfolding shortens_def
  proof (intro allI impI)
    fix s0 v r assume a: "strict_value number (Suc k) s0 = Some (v, r)"
    have "length r \<le> length (skip_space s0)"
    proof (cases "skip_space s0")
      case Nil
      then show ?thesis using a strict_literal_shortens [unfolded shortens_def, rule_format, of number "[]" v r] by simp
    next
      case (Cons c cs)
      have la: "length r \<le> length cs" if "skip_space cs = d # ds" "array_loop (strict_value number k) n (d # ds) = Some (vs, r)" for d ds n vs
        using array_loop_shortens [OF Suc that(2)] skip_space_Cons [OF that(1)] by simp
      have lo: "length r \<le> length cs" if "skip_space cs = d # ds" "object_loop (strict_value number k) n [] (d # ds) = Some (vs, r)" for d ds n vs
        using object_loop_shortens [OF Suc that(2)] skip_space_Cons [OF that(1)] by simp
      consider (str) "c = CHR 0x22" | (arr) "c = CHR ''[''" | (obj) "c = CHR ''{''"
        | (lit) "c \<noteq> CHR 0x22" "c \<noteq> CHR ''[''" "c \<noteq> CHR ''{''" by blast
      then show ?thesis
      proof cases
        case str
        then obtain w where "parse_string (c # cs) = Some (w, r)" using a Cons by (auto split: option.splits)
        from parse_string_length [OF this] show ?thesis by (simp add: Cons)
      next
        case arr
        then obtain d ds where d: "skip_space cs = d # ds" using a Cons by (auto split: list.splits)
        show ?thesis using a Cons arr d skip_space_Cons [OF d]
          by (auto simp del: array_loop.simps object_loop.simps split: if_splits option.splits dest!: la [OF d])
      next
        case obj
        then obtain d ds where d: "skip_space cs = d # ds" using a Cons by (auto split: list.splits)
        show ?thesis using a Cons obj d skip_space_Cons [OF d]
          by (auto simp del: array_loop.simps object_loop.simps split: if_splits option.splits dest!: lo [OF d])
      next
        case lit
        then have "strict_literal number (c # cs) = Some (v, r)" using a Cons by simp
        then show ?thesis using strict_literal_shortens unfolding shortens_def Cons by blast
      qed
    qed
    then show "length r \<le> length s0" using skip_space_length [of s0] by linarith
  qed
qed (simp add: shortens_def)

lemma strict_value_fuel: "length s < k \<Longrightarrow> k \<le> m \<Longrightarrow> strict_value number k s = strict_value number m s"
proof (induction k arbitrary: s m)
  case (Suc k)
  obtain m' where m: "m = Suc m'" "k \<le> m'" using Suc.prems(2) by (cases m) auto
  show ?case
  proof (cases "skip_space s")
    case (Cons c cs)
    have "strict_value number k t = strict_value number m' t" if "length t \<le> length (d # ds)" "skip_space cs = d # ds" for t d ds
      using Suc.IH [OF _ m(2)] that skip_space_Cons [OF that(2)] skip_space_Cons [OF Cons] Suc.prems(1) by simp
    then have "array_loop (strict_value number k) n (d # ds) = array_loop (strict_value number m') n (d # ds)"
      "object_loop (strict_value number k) n [] (d # ds) = object_loop (strict_value number m') n [] (d # ds)"
      if "skip_space cs = d # ds" for n d ds
      using that array_loop_cong [OF strict_value_shortens] object_loop_cong [OF strict_value_shortens] by blast+
    then show ?thesis using Cons m(1) by (simp del: array_loop.simps object_loop.simps split: list.split)
  qed (use m in simp)
qed simp

subsection \<open>A sample artifact\<close>

definition sample_sealed :: string where
  "sample_sealed = [CHR ''{''] @ json_quote ''command'' @ '':['' @ json_quote AUTHORITY_OPERATOR_COMMAND_VERSION @ '','' @ json_quote ''initialize'' @ '',''
     @ json_quote ''production'' @ '','' @ json_quote ADMISSION_AUTHORITY_ID @ '','' @ json_quote ADMISSION_POLICY_EPOCH @ '','' @ json_quote ''r1'' @ '',''
     @ json_quote ''k1'' @ '',1000,true],'' @ json_quote ''signature'' @ '':'' @ json_quote (replicate 86 CHR ''A'') @ [CHR ''}'']"

lemma sample_sealed_parses: "parseStrictJson (\<lambda>_. None) sample_sealed = Inr (JObj [(''command'', sample_command), (''signature'', JStr (replicate 86 CHR ''A''))])"
  by code_simp

lemma sample_signature_text: "sample_signature = replicate 86 CHR ''A''"
  by code_simp

lemma sample_artifact:
  "parseSealedLifecycleArtifactInvariant sample_crypto Some (\<lambda>_. None) sample_sealed op Production = Inr (sample_command, sample_signature)"
  if "op = None \<or> op = Some Initialize"
proof -
  have "length sample_sealed \<le> MAX_SEALED_ARTIFACT_BYTES \<and> sample_sealed \<noteq> []" by code_simp
  moreover have "artifact_header_ok sample_command op Production"
    using that by (auto simp: artifact_header_ok_def sample_command_def el_def)
  moreover have "artifact_record (JObj [(''command'', sample_command), (''signature'', JStr (replicate 86 CHR ''A''))]) = Some (sample_command, sample_signature)"
    unfolding sample_signature_text by (simp add: artifact_record_def isPlainRecord_def own_keys_def fld_def sample_command_def)
  moreover have "validateAuthorityOperatorCommand sample_crypto sample_command = Inr ()"
    by (simp add: validateAuthorityOperatorCommand_def sample_command_ok)
  ultimately show ?thesis using sample_decodes(2)
    by (simp add: parseSealedLifecycleArtifactInvariant_def check_artifact_def sample_sealed_parses)
qed

lemma sample_parsed:
  "parseSealedLifecycleArtifact sample_crypto Some (\<lambda>_. None) sample_sealed Initialize 2000 Production = Inr (sample_command, sample_signature)"
proof -
  have "assertSubmissionEligible sample_command 2000 = Inr ()" "is_safe_integer 2000"
    by (simp_all add: assertSubmissionEligible_def sample_command_def el_def is_safe_integer_def MAX_SAFE_INTEGER_def)
  then show ?thesis using sample_artifact by (simp add: parseSealedLifecycleArtifact_def)
qed

subsection \<open>Authenticated commands\<close>

lemma parsed_artifact:
  assumes "parseSealedLifecycleArtifactInvariant cr dec number b op env = Inr (c, sig)"
  shows "artifact_header_ok c op env" "command_ok c" "length b \<le> MAX_SEALED_ARTIFACT_BYTES"
proof -
  obtain v where v: "check_artifact cr op env v = Inr (c, sig)" and b: "length b \<le> MAX_SEALED_ARTIFACT_BYTES"
    using assms by (auto simp: parseSealedLifecycleArtifactInvariant_def sum_bind_Inr_iff split: if_splits option.splits)
  show "length b \<le> MAX_SEALED_ARTIFACT_BYTES" by (rule b)
  obtain u where r: "artifact_record v = Some (c, sig)" "artifact_header_ok c op env" "validateAuthorityOperatorCommand cr c = Inr u"
    using v unfolding check_artifact_def
    by (cases "artifact_record v") (auto split: if_splits sum.splits)
  show "artifact_header_ok c op env" by (rule r(2))
  show "command_ok c" using r(3) by (auto simp: validateAuthorityOperatorCommand_def sum_bind_Inr_iff dest: canonicalOperatorCommandBytes_Inr)
qed

lemma verifyOperatorCommand_signed: "verifyOperatorCommand cr c sig pk = Inr () \<Longrightarrow> signed_by cr c sig pk"
  by (auto simp: verifyOperatorCommand_def sum_bind_Inr_iff signed_by_def split: option.splits if_splits dest!: canonicalOperatorCommandBytes_Inr)

text \<open>What an authenticated command is evidence of.\<close>

lemma authenticated_command:
  assumes "authenticateSealedLifecycleArtifact cr dec number b pk op env = Inr ac"
  shows "signed_by cr (ac_command ac) (ac_signature ac) pk" "command_ok (ac_command ac)" "el (ac_command ac) 2 = Some (JStr (environment_name env))"
    "expectedCommandReceipt cr (ac_command ac) pk = Inr (ac_expected ac)" "ac_digest ac = rc_digest (ac_expected ac)"
    "commandDigest cr (ac_command ac) = Inr (ac_digest ac)" "rc_environment (ac_expected ac) = env" "rc_authorityId (ac_expected ac) = authority_id_of env"
proof -
  obtain c sig r where c: "parseSealedLifecycleArtifactInvariant cr dec number b op env = Inr (c, sig)" "verifyOperatorCommand cr c sig pk = Inr ()"
    "expectedCommandReceipt cr c pk = Inr r" "ac = \<lparr>ac_command = c, ac_signature = sig, ac_digest = rc_digest r, ac_expected = r\<rparr>"
    using assms by (auto simp: authenticateSealedLifecycleArtifact_def sum_bind_Inr_iff)
  note p = parsed_artifact [OF c(1)]
  show "signed_by cr (ac_command ac) (ac_signature ac) pk" "command_ok (ac_command ac)" "el (ac_command ac) 2 = Some (JStr (environment_name env))"
    using verifyOperatorCommand_signed [OF c(2)] p(1,2) by (simp_all add: c(4) artifact_header_ok_def)
  show "expectedCommandReceipt cr (ac_command ac) pk = Inr (ac_expected ac)" "ac_digest ac = rc_digest (ac_expected ac)" using c by simp_all
  show "commandDigest cr (ac_command ac) = Inr (ac_digest ac)"
    using c(3,4) by (auto simp: expectedCommandReceipt_def Let_def sum_bind_Inr_iff)
  show "rc_environment (ac_expected ac) = env" "rc_authorityId (ac_expected ac) = authority_id_of env"
    using expectedCommandReceipt_Inr [OF c(3)] p(1) env_of_command [of c env] by (cases env; auto simp: c(4) artifact_header_ok_def authority_id_of_def)+
qed

end
