(* ===== verification/Dispatch_Guard.thy ===== *)
theory Dispatch_Guard
  imports Sealed_Artifact
begin

text \<open>
  The dispatch guard (\<^verbatim>\<open>workers/lifecycle-mailbox/dispatch-guard.ts\<close> and its staging twin): a durable object that lets every operator
  command reach the executor at most once, one command at a time.

  A call runs synchronously between its awaits, and calls interleave there. Every segment is a step of the object: the event says
  which call goes on and what its awaited operation returned (the answer of the authority, whether a transaction, a flush or a fault hook failed,
  the clock). The storage is the list of the states of the three tables after every committed write; \<^verbatim>\<open>sync()\<close> makes the state
  at its call durable, and a crash falls back to any state that is not older than the last durable one and drops the calls in progress.
  Calls to the executor and the receipts the reader confirmed are recorded in two history lists that no step reads.

  The production and the staging class differ in their constants and in the rotation, which staging refuses outright: a \<open>guard_variant\<close>.

  The theorems, for every sequence of events including crashes and failed flushes: no command is handed to the executor twice; at most one
  dispatched command is not settled; a settlement needs an exact receipt that the reader returned; the capacities hold, and the
  holder of the latch is always settled by an exact receipt.
\<close>

subsection \<open>Variants and outcomes\<close>

record guard_variant =
  gv_environment :: environment
  gv_capacity :: nat
  gv_authorityId :: string
  gv_rotation :: bool

definition GUARD_CAPACITY :: nat where "GUARD_CAPACITY = 4096"
definition STAGING_GUARD_CAPACITY :: nat where "STAGING_GUARD_CAPACITY = 4096"

definition production_guard :: guard_variant where
  "production_guard = \<lparr>gv_environment = Production, gv_capacity = GUARD_CAPACITY, gv_authorityId = ''production-public-inquiries-v1'', gv_rotation = True\<rparr>"
definition staging_guard :: guard_variant where
  "staging_guard = \<lparr>gv_environment = Staging, gv_capacity = STAGING_GUARD_CAPACITY, gv_authorityId = ''staging-public-inquiries-v1'', gv_rotation = False\<rparr>"

datatype guard_status = GRefused | GUnavailable | GUnconfirmed

datatype guard_outcome =
  GuardAttested string disposition bytes
| GuardOther string guard_status "string option"

text \<open>What the bindings of the object and the runtime provide.\<close>

record 'k guard_env =
  ge_crypto :: "'k crypto"
  ge_utf8 :: "string \<Rightarrow> bytes"
  ge_decode :: "bytes \<Rightarrow> string option"
  ge_number :: "string \<Rightarrow> int option"
  ge_publicKey :: string
  ge_environment :: string

subsection \<open>Tables and transactions\<close>

record claim_row =
  cl_digest :: string
  cl_operation :: operation
  cl_status :: string

record settlement_row =
  se_digest :: string
  se_sequence :: nat
  se_settled :: int

record guard_db =
  g_claims :: "claim_row list"
  g_latch :: "string option"
  g_settlements :: "settlement_row list"

definition claimed :: "guard_db \<Rightarrow> string list" where "claimed db = map cl_digest (g_claims db)"
definition settled :: "guard_db \<Rightarrow> string list" where "settled db = map se_digest (g_settlements db)"

datatype claim_result = ClaimPrior | ClaimBusy | ClaimWon guard_db

definition claim_transaction :: "guard_variant \<Rightarrow> string \<Rightarrow> operation \<Rightarrow> guard_db \<Rightarrow> claim_result" where
  "claim_transaction v digest op db =
     (if digest \<in> set (claimed db) then ClaimPrior
      else if g_latch db \<noteq> None then ClaimBusy
      else if length (g_claims db) \<ge> gv_capacity v then ClaimBusy
      else ClaimWon (db\<lparr>g_claims := g_claims db @ [\<lparr>cl_digest = digest, cl_operation = op, cl_status = ''CLAIMED''\<rparr>], g_latch := Some digest\<rparr>))"

definition update_claim :: "string \<Rightarrow> string \<Rightarrow> guard_db \<Rightarrow> guard_db" where
  "update_claim status digest db =
     db\<lparr>g_claims := map (\<lambda>c. if cl_digest c = digest then c\<lparr>cl_status := status\<rparr> else c) (g_claims db)\<rparr>"

definition next_sequence :: "guard_db \<Rightarrow> nat" where
  "next_sequence db = fold max (map se_sequence (g_settlements db)) 0 + 1"

definition settle_transaction :: "guard_variant \<Rightarrow> string \<Rightarrow> int \<Rightarrow> guard_db \<Rightarrow> string + guard_db" where
  "settle_transaction v digest nowMs db =
     (if digest \<in> set (settled db) then Inr db
      else if g_latch db \<noteq> Some digest then Inr db
      else if next_sequence db > gv_capacity v then Inl ''settlement-capacity''
      else Inr (db\<lparr>g_settlements := g_settlements db @ [\<lparr>se_digest = digest, se_sequence = next_sequence db, se_settled = nowMs\<rparr>], g_latch := None\<rparr>))"

subsection \<open>The object\<close>

datatype guard_call =
  Probing string operation string
| Claiming string operation string nat
| Executing string
| Recording string relay_result nat
| Answered guard_outcome
| Inspecting string
| Releasing string bool nat
| SettleAnswered bool

record guard_state =
  gs_log :: "guard_db list"
  gs_durable :: nat
  gs_calls :: "nat \<Rightarrow> guard_call option"
  gs_dispatched :: "string list"
  gs_confirmed :: "string list"

definition tables :: "guard_state \<Rightarrow> guard_db" where "tables st = last (gs_log st)"
definition position :: "guard_state \<Rightarrow> nat" where "position st = length (gs_log st) - 1"
definition commit :: "guard_db \<Rightarrow> guard_state \<Rightarrow> guard_state" where "commit db st = st\<lparr>gs_log := gs_log st @ [db]\<rparr>"
definition synced :: "nat \<Rightarrow> guard_state \<Rightarrow> guard_state" where "synced n st = st\<lparr>gs_durable := max (gs_durable st) n\<rparr>"
definition goes_to :: "nat \<Rightarrow> guard_call \<Rightarrow> guard_state \<Rightarrow> guard_state" where "goes_to i c st = st\<lparr>gs_calls := (gs_calls st)(i \<mapsto> c)\<rparr>"

definition new_guard :: guard_state where
  "new_guard = \<lparr>gs_log = [\<lparr>g_claims = [], g_latch = None, g_settlements = []\<rparr>], gs_durable = 0, gs_calls = (\<lambda>_. None), gs_dispatched = [], gs_confirmed = []\<rparr>"

subsection \<open>The processing of a command\<close>

definition parse_artifact :: "guard_variant \<Rightarrow> 'k guard_env \<Rightarrow> string \<Rightarrow> operation \<Rightarrow> int \<Rightarrow> string + jval \<times> string" where
  "parse_artifact v ge sealed op nowMs =
     parseSealedLifecycleArtifact (ge_crypto ge) (ge_decode ge) (ge_number ge) (ge_utf8 ge sealed) op nowMs (gv_environment v)"

text \<open>The checks before any state is touched, with the clock readings of the two parses.\<close>

definition admit_artifact :: "guard_variant \<Rightarrow> 'k guard_env \<Rightarrow> string \<Rightarrow> operation \<Rightarrow> int \<Rightarrow> int \<Rightarrow> guard_outcome + string" where
  "admit_artifact v ge sealed op t1 t2 =
     (if op = RotateRelease \<and> \<not> gv_rotation v then Inl (GuardOther [] GRefused (Some ''staging-rotation-not-implemented''))
      else if ge_environment ge \<noteq> environment_name (gv_environment v) then Inl (GuardOther [] GUnavailable (Some ''configuration''))
      else case sum_bind (parse_artifact v ge sealed op t1) (\<lambda>(command, signature).
             sum_bind (verifyOperatorCommand (ge_crypto ge) command signature (ge_publicKey ge)) (\<lambda>_. commandDigest (ge_crypto ge) command)) of
          Inl e \<Rightarrow> Inl (GuardOther [] GRefused (Some ''invalid-command''))
        | Inr digest \<Rightarrow> (case parse_artifact v ge sealed op t2 of
            Inl e \<Rightarrow> Inl (GuardOther digest GRefused (Some ''invalid-command''))
          | Inr a \<Rightarrow> Inr digest))"

definition on_process :: "guard_variant \<Rightarrow> 'k guard_env \<Rightarrow> nat \<Rightarrow> string \<Rightarrow> operation \<Rightarrow> int \<Rightarrow> int \<Rightarrow> guard_state \<Rightarrow> guard_state" where
  "on_process v ge i sealed op t1 t2 st = (case admit_artifact v ge sealed op t1 t2 of
     Inl outcome \<Rightarrow> goes_to i (Answered outcome) st
   | Inr digest \<Rightarrow> goes_to i (Probing digest op sealed) st)"

text \<open>The signed read of the authority: \<^const>\<open>Inl\<close> is the answer, \<^const>\<open>Inr\<close> goes on to the claim.\<close>

definition known_outcome :: "string \<Rightarrow> rpc option \<Rightarrow> guard_outcome + unit" where
  "known_outcome digest answer = (case answer of
     None \<Rightarrow> Inl (GuardOther digest GUnavailable (Some ''authority-read''))
   | Some a \<Rightarrow> (case normalizeLifecycleRelayResult a of
       RelayAttested d envelope \<Rightarrow> Inl (GuardAttested digest AlreadyApplied envelope)
     | r \<Rightarrow> if r = RelayUnavailable ''receipt-not-found'' then Inr () else Inl (GuardOther digest GUnavailable (Some ''authority-history''))))"

definition on_probed :: "guard_variant \<Rightarrow> nat \<Rightarrow> string \<Rightarrow> operation \<Rightarrow> string \<Rightarrow> rpc option \<Rightarrow> bool \<Rightarrow> guard_state \<Rightarrow> guard_state" where
  "on_probed v i digest op sealed answer works st = (case known_outcome digest answer of
     Inl outcome \<Rightarrow> goes_to i (Answered outcome) st
   | Inr _ \<Rightarrow>
       if \<not> works then goes_to i (Answered (GuardOther digest GUnconfirmed (Some ''claim-durability''))) st
       else (case claim_transaction v digest op (tables st) of
         ClaimPrior \<Rightarrow> goes_to i (Answered (GuardOther digest GUnconfirmed (Some ''consumed''))) st
       | ClaimBusy \<Rightarrow> goes_to i (Answered (GuardOther digest GUnavailable (Some ''active-or-capacity''))) st
       | ClaimWon db \<Rightarrow> (let st2 = commit db st in goes_to i (Claiming digest op sealed (position st2)) st2)))"

text \<open>After the flush: the fault hooks, the third parse, then the one call to the executor.\<close>

definition on_claim_synced ::
  "guard_variant \<Rightarrow> 'k guard_env \<Rightarrow> nat \<Rightarrow> string \<Rightarrow> operation \<Rightarrow> string \<Rightarrow> nat \<Rightarrow> bool \<Rightarrow> bool \<Rightarrow> int \<Rightarrow> bool \<Rightarrow> guard_state \<Rightarrow> guard_state" where
  "on_claim_synced v ge i digest op sealed n flushed afterClaim t beforeCall st =
     (if \<not> flushed then goes_to i (Answered (GuardOther digest GUnconfirmed (Some ''claim-durability''))) st
      else let st2 = synced n st in
        if \<not> afterClaim then goes_to i (Answered (GuardOther digest GUnconfirmed (Some ''pre-dispatch''))) st2
        else (case parse_artifact v ge sealed op t of
            Inl e \<Rightarrow> goes_to i (Answered (GuardOther digest GUnconfirmed (Some ''expired-after-claim''))) st2
          | Inr a \<Rightarrow>
              if \<not> beforeCall then goes_to i (Answered (GuardOther digest GUnconfirmed (Some ''dispatch-ambiguous''))) st2
              else goes_to i (Executing digest) (st2\<lparr>gs_dispatched := gs_dispatched st2 @ [digest]\<rparr>)))"

definition claim_note :: "relay_result \<Rightarrow> string" where
  "claim_note r = (case r of
     RelayAttested d b \<Rightarrow> (if d = Applied then ''SUCCESS'' else ''ALREADY_APPLIED'')
   | RelayRefused \<Rightarrow> ''REFUSED''
   | _ \<Rightarrow> ''UNCONFIRMED'')"

definition result_outcome :: "string \<Rightarrow> relay_result \<Rightarrow> guard_outcome" where
  "result_outcome digest r = (case r of
     RelayAttested d b \<Rightarrow> GuardAttested digest d b
   | RelayRefused \<Rightarrow> GuardOther digest GRefused None
   | RelayAmbiguous e \<Rightarrow> GuardOther digest GUnconfirmed (Some ''attestation-ambiguous'')
   | RelayUnavailable e \<Rightarrow> GuardOther digest GUnconfirmed (Some (take 64 (''authority-'' @ e)))
   | _ \<Rightarrow> GuardOther digest GUnconfirmed (Some ''dispatch-ambiguous''))"

definition on_executor_answered :: "nat \<Rightarrow> string \<Rightarrow> rpc option \<Rightarrow> bool \<Rightarrow> guard_state \<Rightarrow> guard_state" where
  "on_executor_answered i digest answer works st = (case answer of
     None \<Rightarrow> goes_to i (Answered (GuardOther digest GUnconfirmed (Some ''dispatch-ambiguous''))) st
   | Some a \<Rightarrow>
       if \<not> works then goes_to i (Answered (GuardOther digest GUnconfirmed (Some ''result-durability''))) st
       else (let r = normalizeLifecycleRelayResult a; st2 = commit (update_claim (claim_note r) digest (tables st)) st
             in goes_to i (Recording digest r (position st2)) st2))"

definition on_result_synced :: "nat \<Rightarrow> string \<Rightarrow> relay_result \<Rightarrow> nat \<Rightarrow> bool \<Rightarrow> guard_state \<Rightarrow> guard_state" where
  "on_result_synced i digest r n flushed st =
     (if \<not> flushed then goes_to i (Answered (GuardOther digest GUnconfirmed (Some ''result-durability''))) st
      else goes_to i (Answered (result_outcome digest r)) (synced n st))"

subsection \<open>Settlement\<close>

definition on_settle :: "nat \<Rightarrow> string \<Rightarrow> guard_state \<Rightarrow> guard_state" where
  "on_settle i digest st =
     (if \<not> isLowerHex64 digest then goes_to i (SettleAnswered False) st
      else if digest \<notin> set (claimed (tables st)) then goes_to i (SettleAnswered False) st
      else if digest \<in> set (settled (tables st)) then goes_to i (Releasing digest True (position st)) st
      else if g_latch (tables st) \<noteq> Some digest then goes_to i (SettleAnswered False) st
      else goes_to i (Inspecting digest) st)"

text \<open>The fields of the supervisory read that the settlement looks at.\<close>

record lifecycle_snapshot =
  ls_status :: string
  ls_receipt :: "string option"
  ls_environment :: "string option"
  ls_authorityId :: "string option"
  ls_policyEpoch :: "string option"

definition exact_receipt :: "guard_variant \<Rightarrow> string \<Rightarrow> lifecycle_snapshot \<Rightarrow> bool" where
  "exact_receipt v digest s \<longleftrightarrow> ls_status s = ''EXACT_RECEIPT'' \<and> ls_receipt s = Some digest
     \<and> ls_environment s = Some (environment_name (gv_environment v)) \<and> ls_authorityId s = Some (gv_authorityId v)
     \<and> ls_policyEpoch s = Some ''phase5c-i1-epoch-1''"

definition on_inspected :: "guard_variant \<Rightarrow> nat \<Rightarrow> string \<Rightarrow> lifecycle_snapshot option \<Rightarrow> int \<Rightarrow> bool \<Rightarrow> guard_state \<Rightarrow> guard_state" where
  "on_inspected v i digest snapshot nowMs works st = (case snapshot of
     None \<Rightarrow> goes_to i (SettleAnswered False) st
   | Some s \<Rightarrow>
       if \<not> exact_receipt v digest s then goes_to i (SettleAnswered False) st
       else let st2 = st\<lparr>gs_confirmed := digest # gs_confirmed st\<rparr> in
         if \<not> works then goes_to i (SettleAnswered False) st2
         else (case settle_transaction v digest nowMs (tables st2) of
             Inl e \<Rightarrow> goes_to i (SettleAnswered False) st2
           | Inr db \<Rightarrow> (let st3 = commit db st2 in goes_to i (Releasing digest False (position st3)) st3)))"

definition on_settle_synced :: "nat \<Rightarrow> string \<Rightarrow> bool \<Rightarrow> nat \<Rightarrow> bool \<Rightarrow> guard_state \<Rightarrow> guard_state" where
  "on_settle_synced i digest already n flushed st =
     (if \<not> flushed then goes_to i (SettleAnswered False) st
      else goes_to i (SettleAnswered (already \<or> digest \<in> set (settled (tables st)))) (synced n st))"

subsection \<open>Steps\<close>

datatype guard_event =
  Process nat string operation int int
| Probed nat "rpc option" bool
| ClaimSynced nat bool bool int bool
| ExecutorAnswered nat "rpc option" bool
| ResultSynced nat bool
| Settle nat string
| Inspected nat "lifecycle_snapshot option" int bool
| SettleSynced nat bool
| Crash nat

definition crash :: "nat \<Rightarrow> guard_state \<Rightarrow> guard_state" where
  "crash k st = (if gs_durable st \<le> k \<and> k < length (gs_log st) then st\<lparr>gs_log := take (Suc k) (gs_log st), gs_calls := (\<lambda>_. None)\<rparr> else st)"

fun guard_step :: "guard_variant \<Rightarrow> 'k guard_env \<Rightarrow> guard_event \<Rightarrow> guard_state \<Rightarrow> guard_state" where
  "guard_step v ge (Process i sealed op t1 t2) st = (if gs_calls st i = None then on_process v ge i sealed op t1 t2 st else st)"
| "guard_step v ge (Probed i answer works) st = (case gs_calls st i of
     Some (Probing digest op sealed) \<Rightarrow> on_probed v i digest op sealed answer works st | _ \<Rightarrow> st)"
| "guard_step v ge (ClaimSynced i flushed afterClaim t beforeCall) st = (case gs_calls st i of
     Some (Claiming digest op sealed n) \<Rightarrow> on_claim_synced v ge i digest op sealed n flushed afterClaim t beforeCall st | _ \<Rightarrow> st)"
| "guard_step v ge (ExecutorAnswered i answer works) st = (case gs_calls st i of
     Some (Executing digest) \<Rightarrow> on_executor_answered i digest answer works st | _ \<Rightarrow> st)"
| "guard_step v ge (ResultSynced i flushed) st = (case gs_calls st i of
     Some (Recording digest r n) \<Rightarrow> on_result_synced i digest r n flushed st | _ \<Rightarrow> st)"
| "guard_step v ge (Settle i digest) st = (if gs_calls st i = None then on_settle i digest st else st)"
| "guard_step v ge (Inspected i snapshot nowMs works) st = (case gs_calls st i of
     Some (Inspecting digest) \<Rightarrow> on_inspected v i digest snapshot nowMs works st | _ \<Rightarrow> st)"
| "guard_step v ge (SettleSynced i flushed) st = (case gs_calls st i of
     Some (Releasing digest already n) \<Rightarrow> on_settle_synced i digest already n flushed st | _ \<Rightarrow> st)"
| "guard_step v ge (Crash k) st = crash k st"

definition staging_step :: "'k guard_env \<Rightarrow> guard_event \<Rightarrow> guard_state \<Rightarrow> guard_state" where
  "staging_step = guard_step staging_guard"

definition guard_run :: "guard_variant \<Rightarrow> 'k guard_env \<Rightarrow> guard_event list \<Rightarrow> guard_state" where
  "guard_run v ge es = fold (guard_step v ge) es new_guard"

subsection \<open>Invariant of the tables\<close>

definition tables_ok :: "guard_variant \<Rightarrow> string set \<Rightarrow> guard_db \<Rightarrow> bool" where
  "tables_ok v confirmed db \<longleftrightarrow> distinct (claimed db) \<and> length (claimed db) \<le> gv_capacity v \<and> distinct (settled db)
     \<and> set (claimed db) = set (settled db) \<union> set_option (g_latch db) \<and> set_option (g_latch db) \<inter> set (settled db) = {}
     \<and> map se_sequence (g_settlements db) = [1..<Suc (length (g_settlements db))] \<and> set (settled db) \<subseteq> confirmed"

lemma tables_ok_mono: "tables_ok v A db \<Longrightarrow> A \<subseteq> B \<Longrightarrow> tables_ok v B db"
  unfolding tables_ok_def by blast

lemma next_sequence_length: "tables_ok v A db \<Longrightarrow> next_sequence db = Suc (length (g_settlements db))"
proof -
  have "fold max [1..<Suc n] 0 = (n::nat)" for n by (induction n) auto
  then show "tables_ok v A db \<Longrightarrow> ?thesis" by (simp add: tables_ok_def next_sequence_def)
qed

lemma settlements_bounded:
  assumes "tables_ok v A db"
  shows "length (g_settlements db) + (case g_latch db of None \<Rightarrow> 0 | Some d \<Rightarrow> 1) = length (g_claims db)" "length (g_claims db) \<le> gv_capacity v"
proof -
  have "length (claimed db) = card (set (settled db) \<union> set_option (g_latch db))"
    using assms distinct_card [of "claimed db"] by (simp add: tables_ok_def)
  also have "\<dots> = length (settled db) + card (set_option (g_latch db))"
    using assms distinct_card [of "settled db"] by (simp add: tables_ok_def card_Un_disjoint Int_commute)
  finally show "length (g_settlements db) + (case g_latch db of None \<Rightarrow> 0 | Some d \<Rightarrow> 1) = length (g_claims db)"
    by (simp add: claimed_def settled_def split: option.split)
  show "length (g_claims db) \<le> gv_capacity v" using assms by (simp add: tables_ok_def claimed_def)
qed

lemma claim_transaction_ok:
  assumes "tables_ok v A db" "claim_transaction v d op db = ClaimWon db'"
  shows "tables_ok v A db'" "d \<notin> set (claimed db)" "set (claimed db') = insert d (set (claimed db))" "g_latch db' = Some d"
proof -
  have c: "claimed db' = claimed db @ [d]" "settled db' = settled db" "g_settlements db' = g_settlements db" "g_latch db = None"
      "length (claimed db) < gv_capacity v" and "d \<notin> set (claimed db)" "g_latch db' = Some d"
    using assms(2) by (auto simp: claim_transaction_def claimed_def settled_def split: if_splits)
  then show "tables_ok v A db'" "d \<notin> set (claimed db)" "set (claimed db') = insert d (set (claimed db))" "g_latch db' = Some d"
    using assms(1) by (auto simp: tables_ok_def)
qed

lemma update_claim_simps [simp]: "claimed (update_claim s d db) = claimed db" "settled (update_claim s d db) = settled db"
  "g_latch (update_claim s d db) = g_latch db" "g_settlements (update_claim s d db) = g_settlements db"
  by (auto simp: update_claim_def claimed_def settled_def)

lemma update_claim_ok: "tables_ok v A db \<Longrightarrow> tables_ok v A (update_claim s d db)"
  by (simp add: tables_ok_def)

lemma settle_transaction_ok:
  assumes "tables_ok v A db" "settle_transaction v d t db = Inr db'" "d \<in> A"
  shows "tables_ok v A db'" "set (claimed db') = set (claimed db)"
proof -
  consider "db' = db" | "settled db' = settled db @ [d]" "claimed db' = claimed db" "g_latch db = Some d" "g_latch db' = None" "d \<notin> set (settled db)"
      "map se_sequence (g_settlements db') = map se_sequence (g_settlements db) @ [next_sequence db]" "length (g_settlements db') = Suc (length (g_settlements db))"
    using assms(2) by (simp add: settle_transaction_def split: if_splits) (auto simp: claimed_def settled_def)
  then show "tables_ok v A db'" "set (claimed db') = set (claimed db)"
    using assms(1,3) next_sequence_length [OF assms(1)] by (cases; simp add: tables_ok_def)+
qed

lemma settle_transaction_settles:
  assumes "tables_ok v A db" "g_latch db = Some d"
  shows "\<exists>db'. settle_transaction v d t db = Inr db' \<and> d \<in> set (settled db') \<and> g_latch db' = None"
proof -
  have "next_sequence db \<le> gv_capacity v" using next_sequence_length [OF assms(1)] settlements_bounded [OF assms(1)] assms(2) by simp
  moreover have "d \<notin> set (settled db)" using assms by (auto simp: tables_ok_def)
  ultimately show ?thesis using assms(2) by (simp add: settle_transaction_def settled_def)
qed

subsection \<open>Invariant of the object\<close>

definition grows :: "guard_db list \<Rightarrow> bool" where
  "grows xs \<longleftrightarrow> sorted_wrt (\<lambda>a b. set (claimed a) \<subseteq> set (claimed b)) xs"

definition call_ok :: "guard_state \<Rightarrow> guard_call \<Rightarrow> bool" where
  "call_ok st c = (case c of
     Claiming d op s n \<Rightarrow> n < length (gs_log st) \<and> d \<in> set (claimed (gs_log st ! n)) \<and> d \<notin> set (gs_dispatched st)
   | Recording d r n \<Rightarrow> n < length (gs_log st)
   | Releasing d a n \<Rightarrow> n < length (gs_log st)
   | _ \<Rightarrow> True)"

definition waiting_claim :: "guard_call option \<Rightarrow> string option" where
  "waiting_claim c = (case c of Some (Claiming d op s n) \<Rightarrow> Some d | _ \<Rightarrow> None)"

definition guard_inv :: "guard_variant \<Rightarrow> guard_state \<Rightarrow> bool" where
  "guard_inv v st \<longleftrightarrow> gs_durable st < length (gs_log st) \<and> list_all (tables_ok v (set (gs_confirmed st))) (gs_log st) \<and> grows (gs_log st)
     \<and> distinct (gs_dispatched st) \<and> set (gs_dispatched st) \<subseteq> set (claimed (gs_log st ! gs_durable st))
     \<and> (\<forall>i c. gs_calls st i = Some c \<longrightarrow> call_ok st c)
     \<and> (\<forall>i j d. waiting_claim (gs_calls st i) = Some d \<longrightarrow> waiting_claim (gs_calls st j) = Some d \<longrightarrow> i = j)"

lemma grows_le: "grows xs \<Longrightarrow> m \<le> n \<Longrightarrow> n < length xs \<Longrightarrow> set (claimed (xs ! m)) \<subseteq> set (claimed (xs ! n))"
  by (cases "m = n") (auto simp: grows_def sorted_wrt_iff_nth_less)

lemma grows_last: "grows xs \<Longrightarrow> n < length xs \<Longrightarrow> set (claimed (xs ! n)) \<subseteq> set (claimed (last xs))"
  using grows_le [of xs n "length xs - 1"] by (cases xs rule: rev_cases) simp_all

lemma grows_snoc:
  assumes "grows xs" "xs \<noteq> []" "set (claimed (last xs)) \<subseteq> set (claimed db)"
  shows "grows (xs @ [db])"
proof -
  have "set (claimed a) \<subseteq> set (claimed db)" if "a \<in> set xs" for a
  proof -
    obtain n where "n < length xs" "xs ! n = a" using \<open>a \<in> set xs\<close> by (metis in_set_conv_nth)
    then show ?thesis using grows_last [OF assms(1), of n] assms(3) by simp
  qed
  then show ?thesis using assms(1) by (simp add: grows_def sorted_wrt_append)
qed

lemma guard_inv_new: "guard_inv v new_guard"
  by (simp add: guard_inv_def new_guard_def tables_ok_def claimed_def settled_def grows_def waiting_claim_def)

lemma guard_invD:
  assumes "guard_inv v st"
  shows "gs_durable st < length (gs_log st)" "list_all (tables_ok v (set (gs_confirmed st))) (gs_log st)" "grows (gs_log st)"
    "distinct (gs_dispatched st)" "set (gs_dispatched st) \<subseteq> set (claimed (gs_log st ! gs_durable st))"
    "\<And>i c. gs_calls st i = Some c \<Longrightarrow> call_ok st c"
    "\<And>i j d. waiting_claim (gs_calls st i) = Some d \<Longrightarrow> waiting_claim (gs_calls st j) = Some d \<Longrightarrow> i = j"
  using assms unfolding guard_inv_def by blast+

lemma guard_invI:
  assumes "gs_durable st < length (gs_log st)" "list_all (tables_ok v (set (gs_confirmed st))) (gs_log st)" "grows (gs_log st)"
    "distinct (gs_dispatched st)" "set (gs_dispatched st) \<subseteq> set (claimed (gs_log st ! gs_durable st))"
    "\<And>i c. gs_calls st i = Some c \<Longrightarrow> call_ok st c"
    "\<And>i j d. waiting_claim (gs_calls st i) = Some d \<Longrightarrow> waiting_claim (gs_calls st j) = Some d \<Longrightarrow> i = j"
  shows "guard_inv v st"
  using assms unfolding guard_inv_def by blast

lemma guard_inv_tables: "guard_inv v st \<Longrightarrow> tables_ok v (set (gs_confirmed st)) (tables st)"
  using guard_invD(1,2) [of v st] by (cases "gs_log st" rule: rev_cases) (simp_all add: tables_def)

lemma guard_inv_dispatched: "guard_inv v st \<Longrightarrow> set (gs_dispatched st) \<subseteq> set (claimed (tables st))"
  using guard_invD(1,3,5) [of v st] grows_last [of "gs_log st" "gs_durable st"] by (simp add: tables_def)

text \<open>The elementary changes of a step.\<close>

lemma call_ok_cong: "gs_log st' = gs_log st \<Longrightarrow> gs_dispatched st' = gs_dispatched st \<Longrightarrow> call_ok st' e = call_ok st e"
  by (simp add: call_ok_def cong: guard_call.case_cong)

lemma call_ok_commit: "call_ok st e \<Longrightarrow> call_ok (commit db st) e"
  by (cases e) (simp_all add: call_ok_def commit_def nth_append)

lemma inv_goes_to:
  assumes "guard_inv v st" "call_ok st c" "\<And>d j. waiting_claim (Some c) = Some d \<Longrightarrow> j \<noteq> i \<Longrightarrow> waiting_claim (gs_calls st j) \<noteq> Some d"
  shows "guard_inv v (goes_to i c st)"
proof (rule guard_invI)
  note d = guard_invD [OF assms(1)]
  show "call_ok (goes_to i c st) e" if "gs_calls (goes_to i c st) j = Some e" for j e
    using that assms(2) d(6) call_ok_cong [of "goes_to i c st" st] by (auto simp: goes_to_def split: if_splits)
  show "j = k" if "waiting_claim (gs_calls (goes_to i c st) j) = Some e" "waiting_claim (gs_calls (goes_to i c st) k) = Some e" for j k e
    using that assms(3) d(7) by (auto simp: goes_to_def split: if_splits)
qed (use guard_invD [OF assms(1)] in \<open>simp_all add: goes_to_def\<close>)

lemma inv_commit:
  assumes "guard_inv v st" "tables_ok v (set (gs_confirmed st)) db" "set (claimed (tables st)) \<subseteq> set (claimed db)"
  shows "guard_inv v (commit db st)"
proof (rule guard_invI)
  note d = guard_invD [OF assms(1)]
  have "gs_log st \<noteq> []" using d(1) by auto
  then show "grows (gs_log (commit db st))" using grows_snoc [OF d(3)] assms(3) by (simp add: commit_def tables_def)
  show "call_ok (commit db st) e" if "gs_calls (commit db st) j = Some e" for j e
    using that d(6) call_ok_commit by (simp add: commit_def)
  show "j = k" if "waiting_claim (gs_calls (commit db st) j) = Some e" "waiting_claim (gs_calls (commit db st) k) = Some e" for j k e
    using that d(7) by (simp add: commit_def)
qed (use guard_invD [OF assms(1)] assms(2) in \<open>simp_all add: commit_def nth_append\<close>)

lemma inv_synced:
  assumes "guard_inv v st" "n < length (gs_log st)"
  shows "guard_inv v (synced n st)"
proof (rule guard_invI)
  note d = guard_invD [OF assms(1)]
  show "set (gs_dispatched (synced n st)) \<subseteq> set (claimed (gs_log (synced n st) ! gs_durable (synced n st)))"
    using d(5) grows_le [OF d(3), of "gs_durable st" "max (gs_durable st) n"] d(1) assms(2) by (simp add: synced_def)
  show "call_ok (synced n st) e" if "gs_calls (synced n st) j = Some e" for j e
    using that d(6) call_ok_cong [of "synced n st" st] by (simp add: synced_def)
  show "j = k" if "waiting_claim (gs_calls (synced n st) j) = Some e" "waiting_claim (gs_calls (synced n st) k) = Some e" for j k e
    using that d(7) by (simp add: synced_def)
qed (use guard_invD [OF assms(1)] assms(2) in \<open>simp_all add: synced_def\<close>)

lemma inv_confirmed:
  assumes "guard_inv v st"
  shows "guard_inv v (st\<lparr>gs_confirmed := d # gs_confirmed st\<rparr>)" (is "guard_inv v ?st")
proof (rule guard_invI)
  note d = guard_invD [OF assms]
  show "list_all (tables_ok v (set (gs_confirmed ?st))) (gs_log ?st)"
    using d(2) tables_ok_mono [of v "set (gs_confirmed st)" _ "set (gs_confirmed ?st)"] by (simp add: list_all_iff subset_insertI)
  show "call_ok ?st e" if "gs_calls ?st j = Some e" for j e using that d(6) call_ok_cong [of ?st st] by simp
  show "j = k" if "waiting_claim (gs_calls ?st j) = Some e" "waiting_claim (gs_calls ?st k) = Some e" for j k e using that d(7) by simp
qed (use guard_invD [OF assms] in simp_all)

lemma inv_dispatched:
  assumes "guard_inv v st" "gs_calls st i = Some (Claiming d op s n)" "n \<le> gs_durable st"
  shows "guard_inv v (goes_to i (Executing d) (st\<lparr>gs_dispatched := gs_dispatched st @ [d]\<rparr>))" (is "guard_inv v ?st")
proof (rule guard_invI)
  note i = guard_invD [OF assms(1)]
  have c: "d \<in> set (claimed (gs_log st ! n))" "d \<notin> set (gs_dispatched st)" using i(6) [OF assms(2)] by (simp_all add: call_ok_def)
  show "distinct (gs_dispatched ?st)" using c(2) i(4) by (simp add: goes_to_def)
  show "set (gs_dispatched ?st) \<subseteq> set (claimed (gs_log ?st ! gs_durable ?st))"
    using c(1) i(5) grows_le [OF i(3) assms(3) i(1)] by (auto simp: goes_to_def)
  have w: "waiting_claim (gs_calls st j) \<noteq> Some d" if "j \<noteq> i" for j
    using i(7) [of i d j] that assms(2) by (auto simp: waiting_claim_def)
  show "call_ok ?st e" if "gs_calls ?st j = Some e" for j e
  proof (cases "j = i")
    case False
    then show ?thesis using i(6) [of j e] w [OF False] that by (cases e) (auto simp: goes_to_def call_ok_def waiting_claim_def)
  qed (use that in \<open>auto simp: goes_to_def call_ok_def\<close>)
  have "waiting_claim (Some (Executing d)) = None" by (simp add: waiting_claim_def)
  then show "j = k" if "waiting_claim (gs_calls ?st j) = Some e" "waiting_claim (gs_calls ?st k) = Some e" for j k e
    using that i(7) by (auto simp: goes_to_def split: if_splits)
qed (use guard_invD [OF assms(1)] in \<open>simp_all add: goes_to_def\<close>)

lemma inv_crash:
  assumes a: "guard_inv v st"
  shows "guard_inv v (crash k st)"
proof (cases "gs_durable st \<le> k \<and> k < length (gs_log st)")
  case True
  note d = guard_invD [OF a]
  have "grows (take (Suc k) (gs_log st))" using d(3) by (simp add: grows_def sorted_wrt_take)
  moreover have "list_all (tables_ok v (set (gs_confirmed st))) (take (Suc k) (gs_log st))"
    using d(2) by (auto simp: list_all_iff dest: in_set_takeD)
  ultimately show ?thesis using d(1,4,5) True by (intro guard_invI) (simp_all add: crash_def waiting_claim_def)
qed (use a in \<open>auto simp: crash_def\<close>)

text \<open>The steps.\<close>

lemma call_ok_simps [simp]: "call_ok st (Probing d op s)" "call_ok st (Executing d)" "call_ok st (Answered out)" "call_ok st (Inspecting d)"
  "call_ok st (SettleAnswered b)" "call_ok st (Recording d r n) \<longleftrightarrow> n < length (gs_log st)" "call_ok st (Releasing d b n) \<longleftrightarrow> n < length (gs_log st)"
  by (simp_all add: call_ok_def)

lemma waiting_simps [simp]: "waiting_claim (Some (Probing d op s)) = None" "waiting_claim (Some (Executing d)) = None"
  "waiting_claim (Some (Answered out)) = None" "waiting_claim (Some (Inspecting d)) = None" "waiting_claim (Some (SettleAnswered b)) = None"
  "waiting_claim (Some (Recording d r n)) = None" "waiting_claim (Some (Releasing d b n)) = None"
  by (simp_all add: waiting_claim_def)

lemma inv_moves: "guard_inv v st \<Longrightarrow> call_ok st c \<Longrightarrow> waiting_claim (Some c) = None \<Longrightarrow> guard_inv v (goes_to i c st)"
  by (rule inv_goes_to) simp_all

lemma position_commit [simp]: "position (commit db st) < length (gs_log (commit db st))"
  by (simp add: position_def commit_def)

lemma position_less: "guard_inv v st \<Longrightarrow> position st < length (gs_log st)"
  using guard_invD(1) by (fastforce simp: position_def)

lemma tables_nth: "guard_inv v st \<Longrightarrow> gs_log st ! position st = tables st"
  using guard_invD(1) [of v st] by (cases "gs_log st" rule: rev_cases) (simp_all add: position_def tables_def)

lemma commit_simps [simp]: "tables (commit db st) = db" "gs_confirmed (commit db st) = gs_confirmed st" "gs_dispatched (commit db st) = gs_dispatched st"
  "gs_calls (commit db st) = gs_calls st"
  by (simp_all add: tables_def commit_def)

lemma inv_on_process: "guard_inv v st \<Longrightarrow> guard_inv v (on_process v ge i sealed op t1 t2 st)"
  by (simp add: on_process_def inv_moves split: sum.split)

lemma waiting_is_claimed:
  assumes "guard_inv v st" "waiting_claim (gs_calls st j) = Some d"
  shows "d \<in> set (claimed (tables st))"
proof -
  obtain op s n where "gs_calls st j = Some (Claiming d op s n)" using assms(2) by (auto simp: waiting_claim_def split: option.splits guard_call.splits)
  then have "n < length (gs_log st)" "d \<in> set (claimed (gs_log st ! n))" using guard_invD(6) [OF assms(1)] by (fastforce simp: call_ok_def)+
  then show ?thesis using grows_last [OF guard_invD(3) [OF assms(1)]] by (auto simp: tables_def)
qed

lemma inv_on_probed:
  assumes "guard_inv v st"
  shows "guard_inv v (on_probed v i digest op sealed answer works st)"
proof (cases "claim_transaction v digest op (tables st)")
  case (ClaimWon db)
  note c = claim_transaction_ok [OF guard_inv_tables [OF assms] ClaimWon]
  have 1: "guard_inv v (commit db st)" using inv_commit [OF assms c(1)] c(3) by auto
  have "call_ok (commit db st) (Claiming digest op sealed (position (commit db st)))"
    using position_less [OF 1] tables_nth [OF 1] c(2,3) guard_inv_dispatched [OF assms] by (auto simp: call_ok_def)
  moreover have "waiting_claim (gs_calls (commit db st) j) \<noteq> Some digest" for j
    using waiting_is_claimed [OF assms] c(2) by auto
  ultimately have "guard_inv v (goes_to i (Claiming digest op sealed (position (commit db st))) (commit db st))"
    using 1 by (intro inv_goes_to) (simp_all add: waiting_claim_def)
  then show ?thesis using assms ClaimWon by (simp add: on_probed_def inv_moves Let_def split: sum.split)
qed (use assms in \<open>simp_all add: on_probed_def inv_moves split: sum.split\<close>)

lemma inv_on_claim_synced:
  assumes "guard_inv v st" "gs_calls st i = Some (Claiming digest op sealed n)"
  shows "guard_inv v (on_claim_synced v ge i digest op sealed n flushed afterClaim t beforeCall st)"
proof -
  have "n < length (gs_log st)" using guard_invD(6) [OF assms] by (simp add: call_ok_def)
  note 1 = inv_synced [OF assms(1) this]
  have 2: "gs_calls (synced n st) i = Some (Claiming digest op sealed n)" "n \<le> gs_durable (synced n st)" using assms(2) by (simp_all add: synced_def)
  show ?thesis using assms(1) 1 inv_dispatched [OF 1 2] by (simp add: on_claim_synced_def inv_moves Let_def split: sum.split)
qed

lemma inv_on_executor_answered:
  assumes "guard_inv v st"
  shows "guard_inv v (on_executor_answered i digest answer works st)"
proof -
  have "guard_inv v (commit (update_claim s digest (tables st)) st)" for s
    using inv_commit [OF assms update_claim_ok [OF guard_inv_tables [OF assms]]] by simp
  then show ?thesis using assms by (simp add: on_executor_answered_def inv_moves Let_def split: option.split)
qed

lemma inv_on_result_synced: "guard_inv v st \<Longrightarrow> n < length (gs_log st) \<Longrightarrow> guard_inv v (on_result_synced i digest r n flushed st)"
  by (simp add: on_result_synced_def inv_moves inv_synced)

lemma inv_on_settle: "guard_inv v st \<Longrightarrow> guard_inv v (on_settle i digest st)"
  by (simp add: on_settle_def inv_moves position_less)

lemma inv_on_inspected:
  assumes "guard_inv v st"
  shows "guard_inv v (on_inspected v i digest snapshot t works st)"
proof -
  let ?st = "st\<lparr>gs_confirmed := digest # gs_confirmed st\<rparr>"
  note 1 = inv_confirmed [OF assms, of digest]
  have "guard_inv v (commit db ?st)" if "settle_transaction v digest t (tables ?st) = Inr db" for db
    using inv_commit [OF 1] settle_transaction_ok [OF guard_inv_tables [OF 1] that] by simp
  then show ?thesis using assms 1 by (simp add: on_inspected_def inv_moves Let_def split: option.split sum.split)
qed

lemma inv_on_settle_synced: "guard_inv v st \<Longrightarrow> n < length (gs_log st) \<Longrightarrow> guard_inv v (on_settle_synced i digest already n flushed st)"
  by (simp add: on_settle_synced_def inv_moves inv_synced)

lemma call_position:
  assumes "guard_inv v st"
  shows "gs_calls st i = Some (Recording d r n) \<Longrightarrow> n < length (gs_log st)" "gs_calls st i = Some (Releasing d b n) \<Longrightarrow> n < length (gs_log st)"
  using guard_invD(6) [OF assms, of i] by force+

lemma guard_step_inv:
  assumes "guard_inv v st"
  shows "guard_inv v (guard_step v ge e st)"
proof (cases e)
  case (ClaimSynced i flushed afterClaim t beforeCall)
  then show ?thesis using assms by (auto split: option.split guard_call.split intro: inv_on_claim_synced)
next
  case (ResultSynced i flushed)
  then show ?thesis using assms inv_on_result_synced call_position [OF assms, of i] by (simp split: option.split guard_call.split)
next
  case (SettleSynced i flushed)
  then show ?thesis using assms inv_on_settle_synced call_position [OF assms, of i] by (simp split: option.split guard_call.split)
qed (simp_all add: assms inv_on_process inv_on_probed inv_on_executor_answered inv_on_settle inv_on_inspected inv_crash split: option.split guard_call.split)

lemma guard_run_inv: "guard_inv v (guard_run v ge es)"
proof -
  have "guard_inv v (fold (guard_step v ge) es st)" if "guard_inv v st" for st
    using that by (induction es arbitrary: st) (simp_all add: guard_step_inv)
  then show ?thesis by (simp add: guard_run_def guard_inv_new)
qed

subsection \<open>Theorems\<close>

text \<open>C9. No operator command is handed to the executor twice, whatever the interleaving of the calls, the failures of transactions,
  flushes and hooks, and the crashes.\<close>

theorem command_is_dispatched_at_most_once: "distinct (gs_dispatched (guard_run v ge es))"
  by (rule guard_invD(4) [OF guard_run_inv])

text \<open>C15. Commands reach the executor one at a time: every dispatched command is settled or holds the latch, and it is settled only
  after the reader returned an exact receipt for it.\<close>

theorem dispatch_is_serial:
  "set (gs_dispatched (guard_run v ge es)) \<subseteq> set (settled (tables (guard_run v ge es))) \<union> set_option (g_latch (tables (guard_run v ge es)))
    \<and> set (settled (tables (guard_run v ge es))) \<subseteq> set (gs_confirmed (guard_run v ge es))"
  using guard_inv_dispatched [OF guard_run_inv, of v ge es] guard_inv_tables [OF guard_run_inv, of v ge es] by (auto simp: tables_ok_def)

text \<open>The guard stores at most its capacity of claims, and the settlements are numbered from one without gaps, one for every claim
  but the holder of the latch, so the settlement can never fail for its own capacity.\<close>

theorem guard_tables_bounded:
  "length (g_claims (tables (guard_run v ge es))) \<le> gv_capacity v
    \<and> length (g_settlements (tables (guard_run v ge es))) + (case g_latch (tables (guard_run v ge es)) of None \<Rightarrow> 0 | Some d \<Rightarrow> 1)
       = length (g_claims (tables (guard_run v ge es)))
    \<and> map se_sequence (g_settlements (tables (guard_run v ge es))) = [1..<Suc (length (g_settlements (tables (guard_run v ge es))))]"
  using settlements_bounded [OF guard_inv_tables [OF guard_run_inv, of v ge es]] guard_inv_tables [OF guard_run_inv, of v ge es]
  by (simp add: tables_ok_def)

text \<open>When the latch is free and the capacity is not reached, a valid command that was never claimed and that the authority does not know
  is claimed, made durable and handed to the executor.\<close>

theorem fresh_command_is_dispatched:
  assumes "gs_calls (guard_run v ge es) i = None" "admit_artifact v ge sealed op t1 t2 = Inr digest"
    and "normalizeLifecycleRelayResult answer = RelayUnavailable ''receipt-not-found''" "parse_artifact v ge sealed op t3 = Inr artifact"
    and "digest \<notin> set (claimed (tables (guard_run v ge es)))" "g_latch (tables (guard_run v ge es)) = None"
    and "length (g_claims (tables (guard_run v ge es))) < gv_capacity v"
  shows "gs_dispatched (guard_run v ge (es @ [Process i sealed op t1 t2, Probed i (Some answer) True, ClaimSynced i True True t3 True]))
      = gs_dispatched (guard_run v ge es) @ [digest]
    \<and> digest \<in> set (claimed (tables (crash (gs_durable (guard_run v ge (es @ [Process i sealed op t1 t2, Probed i (Some answer) True, ClaimSynced i True True t3 True])))
        (guard_run v ge (es @ [Process i sealed op t1 t2, Probed i (Some answer) True, ClaimSynced i True True t3 True])))))"
proof -
  define st where "st = guard_run v ge es"
  obtain db where db: "claim_transaction v digest op (tables st) = ClaimWon db" "claimed db = claimed (tables st) @ [digest]"
    using assms(5-7) by (simp add: claim_transaction_def st_def claimed_def)
  have inv: "guard_inv v st" by (simp add: st_def guard_run_inv)
  have len: "gs_durable st < length (gs_log st)" by (rule guard_invD(1) [OF inv])
  have 1: "guard_step v ge (Process i sealed op t1 t2) st = goes_to i (Probing digest op sealed) st"
    using assms(1,2) by (simp add: st_def on_process_def)
  have t: "tables (goes_to i c st) = tables st" for c by (simp add: tables_def goes_to_def)
  have 2: "guard_step v ge (Probed i (Some answer) True) (goes_to i (Probing digest op sealed) st)
      = goes_to i (Claiming digest op sealed (length (gs_log st))) (commit db (goes_to i (Probing digest op sealed) st))"
    using assms(3) db(1) t by (simp add: goes_to_def on_probed_def known_outcome_def Let_def position_def commit_def)
  have 3: "guard_step v ge (ClaimSynced i True True t3 True) (goes_to i (Claiming digest op sealed (length (gs_log st))) (commit db (goes_to i (Probing digest op sealed) st)))
      = \<lparr>gs_log = gs_log st @ [db], gs_durable = length (gs_log st), gs_calls = (gs_calls st)(i \<mapsto> Executing digest),
         gs_dispatched = gs_dispatched st @ [digest], gs_confirmed = gs_confirmed st\<rparr>"
    using assms(4) len by (simp add: goes_to_def on_claim_synced_def synced_def commit_def Let_def)
  have r: "guard_run v ge (es @ [e1, e2, e3]) = guard_step v ge e3 (guard_step v ge e2 (guard_step v ge e1 st))" for e1 e2 e3
    by (simp add: guard_run_def st_def)
  show ?thesis unfolding r 1 2 3 using db(2) by (simp add: st_def crash_def tables_def)
qed

definition sample_guard_env :: "unit guard_env" where
  "sample_guard_env = \<lparr>ge_crypto = sample_crypto, ge_utf8 = (\<lambda>s. s), ge_decode = Some, ge_number = (\<lambda>_. None), ge_publicKey = sample_key, ge_environment = ''production''\<rparr>"

definition sample_digest :: string where "sample_digest = hex_text (replicate 32 CHR 0x00)"

definition not_found :: rpc where
  "not_found = RpcObject [(''status'', FieldText ''UNAVAILABLE''), (''reason'', FieldText ''receipt-not-found'')]"

definition sample_guard_events :: "guard_event list" where
  "sample_guard_events = [Process 0 sample_sealed Initialize 2000 2000, Probed 0 (Some not_found) True, ClaimSynced 0 True True 2000 True]"

lemma not_found_normalized: "normalizeLifecycleRelayResult not_found = RelayUnavailable ''receipt-not-found''"
  by code_simp

lemma sample_parse: "parse_artifact production_guard sample_guard_env sample_sealed Initialize 2000 = Inr (sample_command, sample_signature)"
  by (simp add: parse_artifact_def sample_guard_env_def production_guard_def sample_parsed)

lemma sample_admitted: "admit_artifact production_guard sample_guard_env sample_sealed Initialize 2000 2000 = Inr sample_digest"
proof -
  have "verifyOperatorCommand sample_crypto sample_command sample_signature sample_key = Inr ()"
    using sample_decodes sample_command_ok by (simp add: verifyOperatorCommand_def) (simp add: sample_crypto_def)
  moreover have "commandDigest sample_crypto sample_command = Inr sample_digest"
    using sample_command_ok by (simp add: commandDigest_def sample_digest_def sha256_def) (simp add: sample_crypto_def)
  ultimately show ?thesis
    using sample_parse by (simp add: admit_artifact_def sample_guard_env_def production_guard_def)
qed

lemma empty_guard_run: "guard_run v ge [] = new_guard" by (simp add: guard_run_def)

theorem fresh_command_is_dispatched_witness:
  "gs_dispatched (guard_run production_guard sample_guard_env sample_guard_events) = [sample_digest]"
  using fresh_command_is_dispatched [of production_guard sample_guard_env "[]" 0 sample_sealed Initialize 2000 2000 sample_digest not_found 2000]
    sample_parse sample_admitted not_found_normalized
  by (simp add: empty_guard_run new_guard_def tables_def claimed_def production_guard_def GUARD_CAPACITY_def sample_guard_events_def)

text \<open>The holder of the latch can always be settled: an exact receipt releases the latch durably.\<close>

theorem exact_receipt_releases_latch:
  assumes "gs_calls (guard_run v ge es) i = None" "g_latch (tables (guard_run v ge es)) = Some digest" "isLowerHex64 digest"
    and "exact_receipt v digest s"
  shows "g_latch (tables (guard_run v ge (es @ [Settle i digest, Inspected i (Some s) t True, SettleSynced i True]))) = None
    \<and> gs_calls (guard_run v ge (es @ [Settle i digest, Inspected i (Some s) t True, SettleSynced i True])) i = Some (SettleAnswered True)
    \<and> gs_durable (guard_run v ge (es @ [Settle i digest, Inspected i (Some s) t True, SettleSynced i True]))
       = position (guard_run v ge (es @ [Settle i digest, Inspected i (Some s) t True, SettleSynced i True]))"
proof -
  define st where "st = guard_run v ge es"
  have inv: "guard_inv v st" by (simp add: st_def guard_run_inv)
  have ok: "tables_ok v (set (gs_confirmed st)) (tables st)" by (rule guard_inv_tables [OF inv])
  have len: "gs_durable st < length (gs_log st)" by (rule guard_invD(1) [OF inv])
  obtain db where db: "settle_transaction v digest t (tables st) = Inr db" "digest \<in> set (settled db)" "g_latch db = None"
    using settle_transaction_settles [OF ok] assms(2) st_def by blast
  have cl: "digest \<in> set (claimed (tables st))" "digest \<notin> set (settled (tables st))" using ok assms(2) by (auto simp: tables_ok_def st_def)
  have 1: "guard_step v ge (Settle i digest) st = goes_to i (Inspecting digest) st"
    using assms(1-3) cl by (simp add: st_def on_settle_def)
  have t: "tables (goes_to i c st) = tables st" "tables (st\<lparr>gs_calls := f, gs_confirmed := g\<rparr>) = tables st" for c f g by (simp_all add: tables_def goes_to_def)
  have 2: "guard_step v ge (Inspected i (Some s) t True) (goes_to i (Inspecting digest) st)
      = \<lparr>gs_log = gs_log st @ [db], gs_durable = gs_durable st, gs_calls = (gs_calls st)(i \<mapsto> Releasing digest False (length (gs_log st))),
         gs_dispatched = gs_dispatched st, gs_confirmed = digest # gs_confirmed st\<rparr>"
    using assms(4) db(1) t by (simp add: goes_to_def on_inspected_def Let_def position_def commit_def)
  have 3: "guard_step v ge (SettleSynced i True) \<lparr>gs_log = gs_log st @ [db], gs_durable = gs_durable st,
         gs_calls = (gs_calls st)(i \<mapsto> Releasing digest False (length (gs_log st))), gs_dispatched = gs_dispatched st, gs_confirmed = digest # gs_confirmed st\<rparr>
      = \<lparr>gs_log = gs_log st @ [db], gs_durable = length (gs_log st), gs_calls = (gs_calls st)(i \<mapsto> SettleAnswered True),
         gs_dispatched = gs_dispatched st, gs_confirmed = digest # gs_confirmed st\<rparr>"
    using len db(2) by (simp add: goes_to_def on_settle_synced_def synced_def tables_def)
  have r: "guard_run v ge (es @ [e1, e2, e3]) = guard_step v ge e3 (guard_step v ge e2 (guard_step v ge e1 st))" for e1 e2 e3
    by (simp add: guard_run_def st_def)
  show ?thesis unfolding r 1 2 3 using db(3) by (simp add: tables_def position_def)
qed

definition sample_snapshot :: lifecycle_snapshot where
  "sample_snapshot = \<lparr>ls_status = ''EXACT_RECEIPT'', ls_receipt = Some sample_digest, ls_environment = Some ''production'',
     ls_authorityId = Some ''production-public-inquiries-v1'', ls_policyEpoch = Some ''phase5c-i1-epoch-1''\<rparr>"

lemma sample_guard_state:
  "g_latch (tables (guard_run production_guard sample_guard_env sample_guard_events)) = Some sample_digest"
  "gs_calls (guard_run production_guard sample_guard_env sample_guard_events) 1 = None"
proof -
  have "claim_transaction production_guard sample_digest Initialize \<lparr>g_claims = [], g_latch = None, g_settlements = []\<rparr>
      = ClaimWon \<lparr>g_claims = [\<lparr>cl_digest = sample_digest, cl_operation = Initialize, cl_status = ''CLAIMED''\<rparr>], g_latch = Some sample_digest, g_settlements = []\<rparr>"
    by (simp add: claim_transaction_def claimed_def production_guard_def GUARD_CAPACITY_def)
  then show "g_latch (tables (guard_run production_guard sample_guard_env sample_guard_events)) = Some sample_digest"
    "gs_calls (guard_run production_guard sample_guard_env sample_guard_events) 1 = None"
    using sample_parse sample_admitted not_found_normalized
    by (simp_all add: guard_run_def sample_guard_events_def new_guard_def on_process_def goes_to_def on_probed_def known_outcome_def tables_def commit_def
        position_def Let_def on_claim_synced_def synced_def)
qed

theorem exact_receipt_releases_latch_witness:
  "g_latch (tables (guard_run production_guard sample_guard_env
     (sample_guard_events @ [Settle 1 sample_digest, Inspected 1 (Some sample_snapshot) 3000 True, SettleSynced 1 True]))) = None"
proof -
  have "isLowerHex64 sample_digest" by (simp add: sample_digest_def hex_text_hex64)
  moreover have "exact_receipt production_guard sample_digest sample_snapshot"
    by (simp add: exact_receipt_def sample_snapshot_def production_guard_def)
  ultimately show ?thesis
    using exact_receipt_releases_latch [OF sample_guard_state(2,1)] by blast
qed

end
