(* ===== verification/Result_Reader.thy ===== *)
theory Result_Reader
  imports Sealed_Artifact
begin

text \<open>
  Reading stored results (\<^verbatim>\<open>operator/authority-result-verifier.ts\<close>, \<^verbatim>\<open>operator/authority-result-reader.ts\<close>, \<^verbatim>\<open>operator/lifecycle-result.ts\<close>,
  \<^verbatim>\<open>operator/staging-gate7-continuity.ts\<close>): when the bytes of a stored object count as a positive result.

  A verified statement is composed with independent evidence: in production the authenticated operator command, in staging the committed
  pins. The registries that record verified statements and authenticated commands at run time are lists of values;
  \<open>genuine_commands\<close> says that a registered command was returned by the authentication. Frozen objects need no counterpart,
  and \<^verbatim>\<open>Object.isFrozen\<close> of the shared field list holds. The non-enumerable \<^verbatim>\<open>composed\<close> property of an outcome is not modelled.
  A missing nonce of a reconciliation is \<^const>\<open>JNull\<close> in the expectations: it is refused like any value that is not a string.

  The theorems: a positive production result is grounded in the signature of the operator and the signature of a trusted authority key
  over one receipt; a positive staging result is the committed receipt; and what the authority signs for a command is read as positive.
\<close>

subsection \<open>Field lists\<close>

definition receiptFields :: "string list" where
  "receiptFields = [''digest'', ''version'', ''operation'', ''environment'', ''authorityId'', ''policyEpoch'', ''keyFingerprint'', ''sequence'', ''appliedMs'',
     ''currentReleaseId'', ''nextReleaseId'', ''nextKeyId'', ''activatesMs'', ''retiresMs'']"

definition commandDerivedReceiptFields :: "string list" where
  "commandDerivedReceiptFields = filter (\<lambda>f. f \<noteq> ''sequence'' \<and> f \<noteq> ''appliedMs'') receiptFields"

definition attestedName :: "string \<Rightarrow> string" where
  "attestedName f = (if f = ''keyFingerprint'' then ''operatorKeyFingerprint'' else f)"

definition isExactFieldSet :: "string list \<Rightarrow> jval \<Rightarrow> (string \<Rightarrow> string) \<Rightarrow> bool" where
  "isExactFieldSet names v rename \<longleftrightarrow> length (remdups (map rename names)) = length names
     \<and> length (own_keys v) = length (remdups (map rename names)) \<and> list_all (\<lambda>k. k \<in> set (map rename names)) (own_keys v)"

text \<open>The object that \<^verbatim>\<open>expectedCommandReceipt\<close> returns, with its own twelve keys.\<close>

definition derived_record :: "receipt \<Rightarrow> jval" where
  "derived_record r = JObj [(''digest'', JStr (rc_digest r)), (''version'', JNum (rc_version r)), (''operation'', JStr (operation_name (rc_operation r))),
     (''environment'', JStr (environment_name (rc_environment r))), (''authorityId'', JStr (rc_authorityId r)), (''policyEpoch'', JStr (rc_policyEpoch r)),
     (''keyFingerprint'', JStr (rc_keyFingerprint r)), (''currentReleaseId'', JStr (rc_currentReleaseId r)), (''nextReleaseId'', JStr (rc_nextReleaseId r)),
     (''nextKeyId'', JStr (rc_nextKeyId r)), (''activatesMs'', JNum (rc_activates r)), (''retiresMs'', opt_num (rc_retires r))]"

definition commandReceiptMismatches :: "jval \<Rightarrow> receipt \<Rightarrow> string + string list" where
  "commandReceiptMismatches receipt expected =
     (if length commandDerivedReceiptFields \<noteq> 12 \<or> \<not> isExactFieldSet commandDerivedReceiptFields (derived_record expected) (\<lambda>f. f)
         \<or> \<not> isExactFieldSet (map attestedName commandDerivedReceiptFields @ [''sequence'', ''appliedMs'']) receipt (\<lambda>f. f)
      then Inl ''result-contract''
      else Inr (filter (\<lambda>f. fld receipt (attestedName f) \<noteq> fld (derived_record expected) f) commandDerivedReceiptFields))"

subsection \<open>Composition\<close>

datatype result_kind = LifecycleKind | ReconciliationKind

datatype classified = PositiveCandidate result_kind jval | SignedNegative string

definition classify :: "jval \<Rightarrow> string + classified" where
  "classify st =
     (if fld st ''kind'' = Some (JStr ''lifecycle'') then Inr (PositiveCandidate LifecycleKind (the (fld st ''receipt'')))
      else if fld st ''status'' = Some (JStr ''EXACT_RECEIPT'') \<and> fld st ''receipt'' \<noteq> Some JNull
      then Inr (PositiveCandidate ReconciliationKind (the (fld st ''receipt'')))
      else if fld st ''status'' = Some (JStr ''NOT_FOUND'') then Inr (SignedNegative ''NOT_FOUND'')
      else if fld st ''status'' = Some (JStr ''HISTORY_INCOMPLETE'') then Inr (SignedNegative ''HISTORY_INCOMPLETE'')
      else Inl ''result-contract'')"

datatype composed =
  ComposedPositive result_kind verified_statement "authenticated_command option"
| ComposedNonPositive result_kind string verified_statement

definition composeProductionAuthorityResult ::
  "verified_statement list \<Rightarrow> authenticated_command list \<Rightarrow> verified_statement \<Rightarrow> authenticated_command option \<Rightarrow> string + composed" where
  "composeProductionAuthorityResult verifiedRegistry authenticatedCommands v command =
     (let st = vs_statement v in
      if v \<notin> set verifiedRegistry then Inl ''result-authority-provenance''
      else if fld st ''environment'' \<noteq> Some (JStr ''production'') \<or> ex_environment (vs_expectations v) \<noteq> ''production''
         \<or> fld st ''digest'' \<noteq> Some (JStr (ex_digest (vs_expectations v))) then Inl ''result-contract''
      else
      sum_bind (case command of
          None \<Rightarrow> Inr ()
        | Some c \<Rightarrow>
            if c \<notin> set authenticatedCommands then Inl ''result-command-provenance''
            else if rc_environment (ac_expected c) \<noteq> Production \<or> fld st ''digest'' \<noteq> Some (JStr (ac_digest c))
               \<or> fld st ''digest'' \<noteq> Some (JStr (rc_digest (ac_expected c))) then Inl ''result-contract''
            else Inr ()) (\<lambda>_.
      sum_bind (classify st) (\<lambda>cl. case cl of
          SignedNegative ob \<Rightarrow> Inr (ComposedNonPositive ReconciliationKind ob v)
        | PositiveCandidate kind receipt \<Rightarrow> (case command of
            None \<Rightarrow> Inr (ComposedNonPositive kind ''COMMAND_CONTEXT_REQUIRED'' v)
          | Some c \<Rightarrow> sum_bind (commandReceiptMismatches receipt (ac_expected c)) (\<lambda>ms.
              if ms \<noteq> [] then Inl ''result-contract'' else Inr (ComposedPositive kind v (Some c)))))))"

definition verifyProductionAuthorityResult ::
  "'k attestation_ops \<Rightarrow> trust_manifest list \<Rightarrow> verified_statement list \<Rightarrow> authenticated_command list \<Rightarrow> bytes \<Rightarrow> jval \<Rightarrow> trust_manifest \<Rightarrow> int
   \<Rightarrow> authenticated_command option \<Rightarrow> string + composed" where
  "verifyProductionAuthorityResult am ms verifiedRegistry authenticatedCommands b expected manifest nowMs command =
     (if (case command of None \<Rightarrow> False | Some c \<Rightarrow> c \<notin> set authenticatedCommands) then Inl ''result-command-provenance''
      else sum_bind (verifyAuthoritySignedStatement am ms b expected manifest nowMs) (\<lambda>v.
        composeProductionAuthorityResult (v # verifiedRegistry) authenticatedCommands v command))"

subsection \<open>The staging pins\<close>

record gate7_pins =
  g7_environment :: environment
  g7_authorityId :: string
  g7_policyEpoch :: string
  g7_accountFingerprint :: string
  g7_receipt :: receipt
  g7_releases :: "release_row list"

definition STAGING_GATE7_KEY_FINGERPRINT :: string where
  "STAGING_GATE7_KEY_FINGERPRINT = ''74f6e266c7cbdced42fffa944ee9eb397f48d1cdfd3b0b0e80817cc313073bd3''"

definition STAGING_GATE7_CONTINUITY :: gate7_pins where
  "STAGING_GATE7_CONTINUITY = \<lparr>g7_environment = Staging, g7_authorityId = ''staging-public-inquiries-v1'', g7_policyEpoch = ''phase5c-i1-epoch-1'',
     g7_accountFingerprint = ''0df3a690b3154513'',
     g7_receipt = \<lparr>rc_digest = ''f14876a5367f3d5d97d562119203b346159117814b23232ff84958ee36d18bcf'', rc_version = 1, rc_operation = Initialize,
       rc_environment = Staging, rc_authorityId = ''staging-public-inquiries-v1'', rc_policyEpoch = ''phase5c-i1-epoch-1'',
       rc_keyFingerprint = STAGING_GATE7_KEY_FINGERPRINT, rc_sequence = 1, rc_applied = 1790252041703, rc_currentReleaseId = ''staging-gate7-initial'',
       rc_nextReleaseId = ''staging-gate7-initial'', rc_nextKeyId = ''staging-gate7-key-1'', rc_activates = 1790251978099, rc_retires = None\<rparr>,
     g7_releases = [\<lparr>rr_releaseId = ''staging-gate7-initial'', rr_keyId = ''staging-gate7-key-1'', rr_activated = 1790251978099, rr_retired = None\<rparr>]\<rparr>"

text \<open>The receipt of the pins as an object.\<close>

definition gate7Receipt :: jval where
  "gate7Receipt = (let r = g7_receipt STAGING_GATE7_CONTINUITY in
     JObj [(''digest'', JStr (rc_digest r)), (''version'', JNum (rc_version r)), (''operation'', JStr (operation_name (rc_operation r))),
     (''environment'', JStr (environment_name (rc_environment r))), (''authorityId'', JStr (rc_authorityId r)), (''policyEpoch'', JStr (rc_policyEpoch r)),
     (''keyFingerprint'', JStr (rc_keyFingerprint r)), (''sequence'', JNum (rc_sequence r)), (''appliedMs'', JNum (rc_applied r)),
     (''currentReleaseId'', JStr (rc_currentReleaseId r)), (''nextReleaseId'', JStr (rc_nextReleaseId r)), (''nextKeyId'', JStr (rc_nextKeyId r)),
     (''activatesMs'', JNum (rc_activates r)), (''retiresMs'', opt_num (rc_retires r))])"

definition gate7Name :: "string \<Rightarrow> string" where
  "gate7Name f = (if f = ''operatorKeyFingerprint'' then ''keyFingerprint'' else f)"

definition stagingReceiptFieldsExact :: bool where
  "stagingReceiptFieldsExact \<longleftrightarrow> length RECEIPT_FIELDS = 14 \<and> isExactFieldSet RECEIPT_FIELDS gate7Receipt gate7Name"

definition assertReceiptMatchesGate7 :: "jval \<Rightarrow> string + unit" where
  "assertReceiptMatchesGate7 receipt =
     (if \<not> stagingReceiptFieldsExact \<or> \<not> isExactFieldSet RECEIPT_FIELDS receipt (\<lambda>f. f) then Inl ''result-contract''
      else if list_ex (\<lambda>f. fld receipt f \<noteq> fld gate7Receipt (gate7Name f)) RECEIPT_FIELDS then Inl ''result-contract''
      else Inr ())"

definition assertSnapshotMatchesGate7 :: "jval \<Rightarrow> string + unit" where
  "assertSnapshotMatchesGate7 st =
     (let pinned = hd (g7_releases STAGING_GATE7_CONTINUITY) in
      if fld st ''initialized'' \<noteq> Some (JBool True) \<or> fld st ''coverage'' \<noteq> Some (JStr ''COMPLETE'') \<or> fld st ''status'' \<noteq> Some (JStr ''EXACT_RECEIPT'')
        \<or> length (g7_releases STAGING_GATE7_CONTINUITY) \<noteq> 1 then Inl ''result-contract''
      else (case fld st ''releases'' of
          Some (JArr [row]) \<Rightarrow>
            if fld row ''releaseId'' \<noteq> Some (JStr (rr_releaseId pinned)) \<or> fld row ''keyId'' \<noteq> Some (JStr (rr_keyId pinned))
               \<or> fld row ''activatedMs'' \<noteq> Some (JNum (rr_activated pinned)) \<or> fld row ''retiredMs'' \<noteq> Some (opt_num (rr_retired pinned))
            then Inl ''result-contract'' else Inr ()
        | _ \<Rightarrow> Inl ''result-contract''))"

definition composeStagingAuthorityResult :: "verified_statement list \<Rightarrow> verified_statement \<Rightarrow> string + composed" where
  "composeStagingAuthorityResult verifiedRegistry v =
     (let st = vs_statement v in
      if v \<notin> set verifiedRegistry then Inl ''result-authority-provenance''
      else if fld st ''environment'' \<noteq> Some (JStr ''staging'') \<or> fld st ''authorityId'' \<noteq> Some (JStr (g7_authorityId STAGING_GATE7_CONTINUITY))
         \<or> ex_environment (vs_expectations v) \<noteq> ''staging'' \<or> fld st ''digest'' \<noteq> Some (JStr (ex_digest (vs_expectations v))) then Inl ''result-contract''
      else sum_bind (classify st) (\<lambda>cl. case cl of
          SignedNegative ob \<Rightarrow> Inr (ComposedNonPositive ReconciliationKind ob v)
        | PositiveCandidate kind receipt \<Rightarrow>
            sum_bind (assertReceiptMatchesGate7 receipt) (\<lambda>_.
            sum_bind (if fld st ''kind'' = Some (JStr ''reconciliation'') then assertSnapshotMatchesGate7 st else Inr ()) (\<lambda>_.
            Inr (ComposedPositive kind v None)))))"

definition verifyStagingAuthorityResult ::
  "'k attestation_ops \<Rightarrow> trust_manifest list \<Rightarrow> verified_statement list \<Rightarrow> bytes \<Rightarrow> jval \<Rightarrow> trust_manifest \<Rightarrow> int \<Rightarrow> string + composed" where
  "verifyStagingAuthorityResult am ms verifiedRegistry b expected manifest nowMs =
     sum_bind (verifyAuthoritySignedStatement am ms b expected manifest nowMs) (\<lambda>v. composeStagingAuthorityResult (v # verifiedRegistry) v)"

text \<open>The continuity check of an unsigned staging snapshot; the closed refusal codes are the messages.\<close>

definition STAGING_CONTINUITY_OBSERVATION_FRESHNESS_MS :: int where "STAGING_CONTINUITY_OBSERVATION_FRESHNESS_MS = 300000"

definition exact_object :: "jval \<Rightarrow> string list \<Rightarrow> bool" where
  "exact_object v keys \<longleftrightarrow> isPlainRecord v \<and> length (own_keys v) = length keys \<and> list_all (\<lambda>k. fld v k \<noteq> None) keys"

definition object_matches :: "jval \<Rightarrow> jval \<Rightarrow> bool" where
  "object_matches v expected \<longleftrightarrow> list_all (\<lambda>k. fld v k = fld expected k) (own_keys expected)"

definition gate7Release :: "release_row \<Rightarrow> jval" where
  "gate7Release r = JObj [(''release_id'', JStr (rr_releaseId r)), (''key_id'', JStr (rr_keyId r)), (''activated_ms'', JNum (rr_activated r)),
     (''retired_ms'', opt_num (rr_retired r))]"

definition snapshotKeys :: "string list" where
  "snapshotKeys = [''version'', ''environment'', ''authorityId'', ''policyEpoch'', ''observedAtMs'', ''initialized'', ''coverage'', ''status'', ''receipt'', ''releases'']"

record continuity_evidence =
  co_accountFingerprint :: string
  co_digest :: string
  co_releaseId :: string
  co_releaseKeyId :: string
  co_receiptSequence :: int
  co_keyFingerprintPrefix :: string
  co_observedAt :: int

definition validateGate7ContinuitySnapshot :: "jval \<Rightarrow> int \<Rightarrow> string + continuity_evidence" where
  "validateGate7ContinuitySnapshot v nowMs = (let g = STAGING_GATE7_CONTINUITY in
     if \<not> exact_object v snapshotKeys then Inl ''snapshot-shape''
     else if fld v ''version'' \<noteq> Some (JNum 1) \<or> fld v ''environment'' \<noteq> Some (JStr (environment_name (g7_environment g)))
        \<or> fld v ''authorityId'' \<noteq> Some (JStr (g7_authorityId g)) \<or> fld v ''policyEpoch'' \<noteq> Some (JStr (g7_policyEpoch g)) then Inl ''snapshot-identity''
     else if fld v ''initialized'' \<noteq> Some (JBool True) \<or> fld v ''coverage'' \<noteq> Some (JStr ''COMPLETE'') \<or> fld v ''status'' \<noteq> Some (JStr ''EXACT_RECEIPT'')
       then Inl ''snapshot-state''
     else if \<not> exact_object (the (fld v ''receipt'')) (own_keys gate7Receipt) \<or> \<not> object_matches (the (fld v ''receipt'')) gate7Receipt then Inl ''snapshot-receipt''
     else (case fld v ''releases'' of
         Some (JArr releases) \<Rightarrow>
           if \<not> list_all2 (\<lambda>r e. exact_object r (own_keys e) \<and> object_matches r e) releases (map gate7Release (g7_releases g)) then Inl ''snapshot-releases''
           else (case fld v ''observedAtMs'' of
               Some (JNum t) \<Rightarrow>
                 if \<not> is_safe_integer t \<or> t < 0 \<or> \<not> is_safe_integer nowMs \<or> \<bar>nowMs - t\<bar> > STAGING_CONTINUITY_OBSERVATION_FRESHNESS_MS then Inl ''observation-freshness''
                 else Inr \<lparr>co_accountFingerprint = g7_accountFingerprint g, co_digest = rc_digest (g7_receipt g), co_releaseId = rc_currentReleaseId (g7_receipt g),
                   co_releaseKeyId = rc_nextKeyId (g7_receipt g), co_receiptSequence = rc_sequence (g7_receipt g),
                   co_keyFingerprintPrefix = take 16 (rc_keyFingerprint (g7_receipt g)), co_observedAt = t\<rparr>
             | _ \<Rightarrow> Inl ''observation-freshness'')
       | _ \<Rightarrow> Inl ''snapshot-releases''))"

subsection \<open>Unsigned results\<close>

definition exact :: "jval \<Rightarrow> string list \<Rightarrow> string list \<Rightarrow> bool" where
  "exact v required optional \<longleftrightarrow> isPlainRecord v \<and> list_all (\<lambda>k. k \<in> set (own_keys v)) required
     \<and> list_all (\<lambda>k. k \<in> set required \<or> k \<in> set optional) (own_keys v)"

definition diagnostic_statuses :: "string list" where "diagnostic_statuses = [''REFUSED'', ''UNAVAILABLE'', ''UNCONFIRMED'']"

text \<open>The text of a bounded object, and its value.\<close>

definition stored_value :: "(bytes \<Rightarrow> string option) \<Rightarrow> (string \<Rightarrow> int option) \<Rightarrow> bytes \<Rightarrow> jval option" where
  "stored_value dec number b =
     (if b = [] \<or> length b > 8192 then None
      else case dec b of None \<Rightarrow> None | Some source \<Rightarrow> (case parseStrictJson number source of Inl _ \<Rightarrow> None | Inr v \<Rightarrow> Some v))"

definition classifyUnsignedDiagnostic :: "(bytes \<Rightarrow> string option) \<Rightarrow> (string \<Rightarrow> int option) \<Rightarrow> bytes \<Rightarrow> string \<Rightarrow> string option \<Rightarrow> string option" where
  "classifyUnsignedDiagnostic dec number b digest nonce = (case stored_value dec number b of
     None \<Rightarrow> None
   | Some v \<Rightarrow>
       if \<not> exact v [''version'', ''digest'', ''status''] [''nonce'', ''reason''] \<or> fld v ''version'' \<noteq> Some (JNum 1) \<or> fld v ''digest'' \<noteq> Some (JStr digest)
          \<or> (fld v ''nonce'' \<noteq> None \<and> fld v ''nonce'' \<noteq> map_option JStr nonce) \<or> (nonce \<noteq> None \<and> fld v ''nonce'' = None)
          \<or> \<not> str_such (\<lambda>s. s \<in> set diagnostic_statuses) (fld v ''status'')
          \<or> (fld v ''reason'' \<noteq> None \<and> \<not> str_such is_reason (fld v ''reason'')) then None
       else Some (str_of (fld v ''status'')))"

definition verifySettlementResult ::
  "(bytes \<Rightarrow> string option) \<Rightarrow> (string \<Rightarrow> int option) \<Rightarrow> bytes \<Rightarrow> string \<Rightarrow> string \<Rightarrow> int \<Rightarrow> environment \<Rightarrow> string \<Rightarrow> string + bool" where
  "verifySettlementResult dec number b digest nonce nowMs env authorityId =
     (if b = [] \<or> length b > 8192 then Inl ''result-size''
      else case dec b of
        None \<Rightarrow> Inl ''TypeError''
      | Some source \<Rightarrow> sum_bind (parseStrictJson number source) (\<lambda>v.
          if \<not> exact v [''version'', ''digest'', ''environment'', ''authorityId'', ''policyEpoch'', ''observedAtMs'', ''nonce'', ''settled''] []
             \<or> fld v ''version'' \<noteq> Some (JNum 1) \<or> fld v ''environment'' \<noteq> Some (JStr (environment_name env)) \<or> fld v ''authorityId'' \<noteq> Some (JStr authorityId)
             \<or> fld v ''policyEpoch'' \<noteq> Some (JStr ''phase5c-i1-epoch-1'')
             \<or> \<not> str_such isLowerHex64 (fld v ''digest'') \<or> fld v ''digest'' \<noteq> Some (JStr digest)
             \<or> \<not> str_such (is_hex 32) (fld v ''nonce'') \<or> fld v ''nonce'' \<noteq> Some (JStr nonce)
             \<or> \<not> isSafeTime (fld v ''observedAtMs'') \<or> num_of (fld v ''observedAtMs'') > nowMs + 60000 \<or> nowMs - num_of (fld v ''observedAtMs'') > 5 * 60000
          then Inl ''result-contract''
          else (case fld v ''settled'' of Some (JBool s) \<Rightarrow> Inr s | _ \<Rightarrow> Inl ''result-contract'')))"

subsection \<open>The reader\<close>

text \<open>\<^verbatim>\<open>/^(?:attestation|result)-[a-z]+(?:-[a-z]+)*$/\<close>.\<close>

fun kebab :: "string \<Rightarrow> bool" where
  "kebab [] = False"
| "kebab [c] = is_lower c"
| "kebab (c # d # cs) \<longleftrightarrow> is_lower c \<and> (if d = CHR ''-'' then kebab cs else kebab (d # cs))"

definition error_code :: "string \<Rightarrow> bool" where
  "error_code s \<longleftrightarrow> (prefix ''attestation-'' s \<and> kebab (drop 12 s)) \<or> (prefix ''result-'' s \<and> kebab (drop 7 s))"

definition reasonOf :: "string \<Rightarrow> string" where
  "reasonOf e = (if error_code e then e else ''result-unreadable'')"

datatype read_outcome =
  ReadPositive environment result_kind string int string jval
| ReadNonPositive environment result_kind string string int string bool
| ReadUnconfirmed environment result_kind string string "string option"

definition reader_expectations :: "environment \<Rightarrow> result_kind \<Rightarrow> string \<Rightarrow> string option \<Rightarrow> jval" where
  "reader_expectations env kind digest nonce =
     (let common = [(''environment'', JStr (environment_name env)), (''authorityId'', JStr (if env = Production then ADMISSION_AUTHORITY_ID else STAGING_ADMISSION_AUTHORITY_ID)),
        (''policyEpoch'', JStr ADMISSION_POLICY_EPOCH), (''digest'', JStr digest)]
      in case kind of
        LifecycleKind \<Rightarrow> JObj ((''kind'', JStr ''lifecycle'') # common)
      | ReconciliationKind \<Rightarrow> JObj ((''kind'', JStr ''reconciliation'') # common @ [(''nonce'', case nonce of None \<Rightarrow> JNull | Some n \<Rightarrow> JStr n)]))"

definition unconfirmed ::
  "(bytes \<Rightarrow> string option) \<Rightarrow> (string \<Rightarrow> int option) \<Rightarrow> environment \<Rightarrow> result_kind \<Rightarrow> string \<Rightarrow> string option \<Rightarrow> bytes \<Rightarrow> string \<Rightarrow> read_outcome" where
  "unconfirmed dec number env kind digest nonce b reason = (case classifyUnsignedDiagnostic dec number b digest nonce of
     Some relayStatus \<Rightarrow> ReadUnconfirmed env kind digest ''no-signed-evidence'' (Some relayStatus)
   | None \<Rightarrow> ReadUnconfirmed env kind digest reason None)"

text \<open>The receipt of the statement behind a positive result, unless there is none.\<close>

definition positive_receipt :: "jval \<Rightarrow> jval" where
  "positive_receipt st =
     (if fld st ''kind'' = Some (JStr ''lifecycle'') then the (fld st ''receipt'')
      else if fld st ''status'' = Some (JStr ''EXACT_RECEIPT'') then the (fld st ''receipt'') else JNull)"

definition read_composed :: "environment \<Rightarrow> result_kind \<Rightarrow> string \<Rightarrow> verified_statement \<Rightarrow> bool \<Rightarrow> composed \<Rightarrow> read_outcome" where
  "read_composed env kind digest v mismatched composed =
     (let t = num_of (fld (vs_statement v) ''observedAtMs''); fp = vs_signingKeyFingerprint v in
      case composed of
        ComposedPositive k v' c \<Rightarrow>
          if positive_receipt (vs_statement v) = JNull then ReadUnconfirmed env kind digest ''result-contract'' None
          else ReadPositive env kind digest t fp (positive_receipt (vs_statement v))
      | ComposedNonPositive k ob v' \<Rightarrow> ReadNonPositive env kind digest ob t fp mismatched)"

definition readProductionAuthorityResult ::
  "'k attestation_ops \<Rightarrow> (string \<Rightarrow> int option) \<Rightarrow> trust_manifest list \<Rightarrow> verified_statement list \<Rightarrow> authenticated_command list
   \<Rightarrow> result_kind \<Rightarrow> string \<Rightarrow> string option \<Rightarrow> bytes \<Rightarrow> trust_manifest \<Rightarrow> int \<Rightarrow> authenticated_command option \<Rightarrow> string + read_outcome" where
  "readProductionAuthorityResult am number ms verifiedRegistry authenticatedCommands kind digest nonce b manifest nowMs command =
     (if (case command of None \<Rightarrow> False | Some c \<Rightarrow> c \<notin> set authenticatedCommands) then Inl ''result-command-provenance''
      else Inr (case verifyAuthoritySignedStatement am ms b (reader_expectations Production kind digest nonce) manifest nowMs of
          Inl e \<Rightarrow> unconfirmed (am_decode am) number Production kind digest nonce b (reasonOf e)
        | Inr v \<Rightarrow>
            (let matching = (case command of None \<Rightarrow> None | Some c \<Rightarrow> if ac_digest c = digest then Some c else None);
                 mismatched = (command \<noteq> None \<and> matching = None)
             in case composeProductionAuthorityResult (v # verifiedRegistry) authenticatedCommands v matching of
                Inl e \<Rightarrow> ReadUnconfirmed Production kind digest (if matching \<noteq> None then ''command-mismatch'' else reasonOf e) None
              | Inr composed \<Rightarrow> read_composed Production kind digest v mismatched composed)))"

definition readStagingAuthorityResult ::
  "'k attestation_ops \<Rightarrow> (string \<Rightarrow> int option) \<Rightarrow> trust_manifest list \<Rightarrow> verified_statement list \<Rightarrow> result_kind \<Rightarrow> string \<Rightarrow> string option
   \<Rightarrow> bytes \<Rightarrow> trust_manifest \<Rightarrow> int \<Rightarrow> read_outcome" where
  "readStagingAuthorityResult am number ms verifiedRegistry kind digest nonce b manifest nowMs =
     (case verifyAuthoritySignedStatement am ms b (reader_expectations Staging kind digest nonce) manifest nowMs of
        Inl e \<Rightarrow> unconfirmed (am_decode am) number Staging kind digest nonce b (reasonOf e)
      | Inr v \<Rightarrow> (case composeStagingAuthorityResult (v # verifiedRegistry) v of
          Inl e \<Rightarrow> ReadUnconfirmed Staging kind digest (reasonOf e) None
        | Inr composed \<Rightarrow> read_composed Staging kind digest v False composed))"

subsection \<open>What a composition relies on\<close>

lemma verified_validates: "verifyAuthoritySignedStatement am ms b e m nowMs = Inr v \<Longrightarrow> validateResultStatement (vs_statement v) = Inr ()"
  by (erule verified_cases) (use parsed_snapshot snapshot_valid in blast)

text \<open>The receipt of a validated positive candidate is a validated receipt.\<close>

lemma positive_candidate:
  assumes "validateResultStatement st = Inr ()" "classify st = Inr (PositiveCandidate k r)"
  obtains ob where "validateReceipt r ob = Inr ()" "fld st ''receipt'' = Some r" "positive_receipt st = r" "validateCommon st = Inr ob"
proof (cases "fld st ''kind'' = Some (JStr ''lifecycle'')")
  case True
  then obtain ob where v: "validateReceipt (case fld st ''receipt'' of Some x \<Rightarrow> x | None \<Rightarrow> JNull) ob = Inr ()" "validateCommon st = Inr ob"
    using assms(1) by (auto simp: validateResultStatement_def sum_bind_Inr_iff split: if_splits)
  then have "fld st ''receipt'' = Some (the (fld st ''receipt''))" by (cases "fld st ''receipt''") (use v(1) in \<open>auto simp: validateReceipt_def isPlainRecord_def\<close>)
  then show thesis using that [of ob] v assms(2) True by (auto simp: classify_def positive_receipt_def)
next
  case False
  then have c: "fld st ''status'' = Some (JStr ''EXACT_RECEIPT'')" "fld st ''receipt'' \<noteq> Some JNull" "r = the (fld st ''receipt'')"
    using assms(2) by (auto simp: classify_def split: if_splits)
  obtain ob where ob: "validateReconciliation st ob = Inr ()" "validateCommon st = Inr ob"
    using assms(1) False by (auto simp: validateResultStatement_def sum_bind_Inr_iff split: if_splits)
  from ob(1) have v: "validateReceipt (case fld st ''receipt'' of Some x \<Rightarrow> x | None \<Rightarrow> JNull) ob = Inr () \<or> (case fld st ''receipt'' of Some x \<Rightarrow> x | None \<Rightarrow> JNull) = JNull"
    by (auto simp: validateReconciliation_def Let_def sum_bind_Inr_iff guard_def split: if_splits option.splits jval.splits)
  have "hasExactFields st RECONCILIATION_STATEMENT_FIELDS"
    using assms(1) False by (auto simp: validateResultStatement_def split: if_splits)
  then have "fld st ''receipt'' \<noteq> None" by (simp add: hasExactFields_def RECONCILIATION_STATEMENT_FIELDS_def)
  then have f: "fld st ''receipt'' = Some r" "r \<noteq> JNull" using c(2,3) by auto
  then show thesis using that [of ob] v ob(2) c(1) False by (simp add: positive_receipt_def)
qed

lemma positive_not_null: "validateReceipt r ob = Inr () \<Longrightarrow> r \<noteq> JNull"
  by (auto simp: validateReceipt_def isPlainRecord_def)

lemma fld_not_key: "k \<notin> set (own_keys v) \<Longrightarrow> fld v k = None"
  by (cases v) (auto simp: fld_def own_keys_def map_of_eq_None_iff)

lemma derived_fields [simp]: "length commandDerivedReceiptFields = 12"
  "isExactFieldSet commandDerivedReceiptFields (derived_record r) (\<lambda>f. f)"
  by (simp_all add: commandDerivedReceiptFields_def receiptFields_def isExactFieldSet_def derived_record_def own_keys_def)

text \<open>A receipt that mismatches nowhere is the receipt of the command, with the sequence and the time the authority assigned.\<close>

definition receipt_of_command :: "receipt \<Rightarrow> jval \<Rightarrow> bool" where
  "receipt_of_command e receipt \<longleftrightarrow> (\<exists>n a. \<forall>f. fld receipt f = fld (attestationReceiptFromLifecycleReceipt (e\<lparr>rc_sequence := n, rc_applied := a\<rparr>)) f)"

lemma names14: "set (map attestedName commandDerivedReceiptFields @ [''sequence'', ''appliedMs'']) = set RECEIPT_FIELDS"
  by (auto simp: commandDerivedReceiptFields_def receiptFields_def attestedName_def RECEIPT_FIELDS_def)

lemma no_mismatch:
  assumes "validateReceipt receipt ob = Inr ()"
  shows "commandReceiptMismatches receipt e = Inr [] \<longleftrightarrow>
     isExactFieldSet (map attestedName commandDerivedReceiptFields @ [''sequence'', ''appliedMs'']) receipt (\<lambda>f. f) \<and> receipt_of_command e receipt"
    (is "_ \<longleftrightarrow> ?exact \<and> _")
proof -
  obtain n a where na: "fld receipt ''sequence'' = Some (JNum n)" "fld receipt ''appliedMs'' = Some (JNum a)"
  proof -
    have "receipt_fields_ok receipt ob" using assms by (simp add: validateReceipt_def split: if_split_asm)
    then have "isSafeTime (fld receipt ''sequence'')" "isSafeTime (fld receipt ''appliedMs'')" unfolding receipt_fields_ok_def by blast+
    then show thesis using that isSafeTime_of by blast
  qed
  have rec: "fld (attestationReceiptFromLifecycleReceipt (e\<lparr>rc_sequence := n', rc_applied := a'\<rparr>)) (attestedName f) = fld (derived_record e) f"
    if "f \<in> set commandDerivedReceiptFields" for f n' a'
    using that by (auto simp: commandDerivedReceiptFields_def receiptFields_def attestedName_def attestationReceiptFromLifecycleReceipt_def derived_record_def fld_def)
  have seq: "fld (attestationReceiptFromLifecycleReceipt (e\<lparr>rc_sequence := n', rc_applied := a'\<rparr>)) ''sequence'' = Some (JNum n')"
      "fld (attestationReceiptFromLifecycleReceipt (e\<lparr>rc_sequence := n', rc_applied := a'\<rparr>)) ''appliedMs'' = Some (JNum a')" for n' a'
    by (simp_all add: attestationReceiptFromLifecycleReceipt_def fld_def)
  have keys: "own_keys (attestationReceiptFromLifecycleReceipt x) = RECEIPT_FIELDS" for x
    by (simp add: own_keys_def attestationReceiptFromLifecycleReceipt_def RECEIPT_FIELDS_def)
  have all: "(\<forall>f. fld receipt f = fld (attestationReceiptFromLifecycleReceipt (e\<lparr>rc_sequence := n', rc_applied := a'\<rparr>)) f)
      \<longleftrightarrow> (\<forall>f\<in>set commandDerivedReceiptFields. fld receipt (attestedName f) = fld (derived_record e) f) \<and> n' = n \<and> a' = a" (is "?l \<longleftrightarrow> ?r") if ?exact for n' a'
  proof
    assume ?l
    then show ?r using rec seq na by (auto simp del: fun_upd_apply)
  next
    assume r: ?r
    show ?l
    proof
      fix f
      show "fld receipt f = fld (attestationReceiptFromLifecycleReceipt (e\<lparr>rc_sequence := n', rc_applied := a'\<rparr>)) f"
      proof (cases "f \<in> set RECEIPT_FIELDS")
        case True
        then consider g where "g \<in> set commandDerivedReceiptFields" "f = attestedName g" | "f = ''sequence''" | "f = ''appliedMs''"
          unfolding names14 [symmetric] by auto
        then show ?thesis using r rec seq na by cases simp_all
      next
        case False
        have "set (own_keys receipt) \<subseteq> set (map attestedName commandDerivedReceiptFields @ [''sequence'', ''appliedMs''])"
          using that unfolding isExactFieldSet_def list_all_iff map_ident by blast
        then have "f \<notin> set (own_keys receipt)" using False unfolding names14 by blast
        then show ?thesis using False keys by (simp add: fld_not_key)
      qed
    qed
  qed
  have "commandReceiptMismatches receipt e = Inr [] \<longleftrightarrow> ?exact \<and> (\<forall>f\<in>set commandDerivedReceiptFields. fld receipt (attestedName f) = fld (derived_record e) f)"
    by (simp add: commandReceiptMismatches_def filter_empty_conv)
  then show ?thesis using all by (auto simp: receipt_of_command_def)
qed

lemma composed_production:
  assumes "composeProductionAuthorityResult rg cs v command = Inr (ComposedPositive k v' co)"
  obtains c r where "command = Some c" "c \<in> set cs" "classify (vs_statement v) = Inr (PositiveCandidate k r)"
    "commandReceiptMismatches r (ac_expected c) = Inr []" "fld (vs_statement v) ''digest'' = Some (JStr (ac_digest c))"
    "fld (vs_statement v) ''environment'' = Some (JStr ''production'')"
  using assms by (cases command; auto simp: composeProductionAuthorityResult_def Let_def sum_bind_Inr_iff split: if_split_asm classified.split_asm;
    metis classified.exhaust)

lemma composed_staging:
  assumes "composeStagingAuthorityResult rg v = Inr (ComposedPositive k v' co)"
  obtains r where "classify (vs_statement v) = Inr (PositiveCandidate k r)" "assertReceiptMatchesGate7 r = Inr ()"
    "fld (vs_statement v) ''environment'' = Some (JStr ''staging'')"
  using assms by (auto simp: composeStagingAuthorityResult_def Let_def sum_bind_Inr_iff split: if_split_asm classified.split_asm;
    metis classified.exhaust)

lemma unconfirmed_not_positive [simp]: "unconfirmed dec number env kind digest nonce b e \<noteq> ReadPositive env' k d t fp r"
  by (simp add: unconfirmed_def split: option.split)

lemma read_composed_positive:
  "read_composed env kind digest v mm c = ReadPositive env' k d t fp r \<longleftrightarrow> (\<exists>k' v' co. c = ComposedPositive k' v' co) \<and> positive_receipt (vs_statement v) \<noteq> JNull
     \<and> env' = env \<and> k = kind \<and> d = digest \<and> t = num_of (fld (vs_statement v) ''observedAtMs'') \<and> fp = vs_signingKeyFingerprint v
     \<and> r = positive_receipt (vs_statement v)"
  by (auto simp: read_composed_def Let_def split: composed.split)

text \<open>Registered commands were authenticated with the pinned operator key.\<close>

definition genuine_commands :: "'k crypto \<Rightarrow> (bytes \<Rightarrow> string option) \<Rightarrow> (string \<Rightarrow> int option) \<Rightarrow> string \<Rightarrow> authenticated_command list \<Rightarrow> bool" where
  "genuine_commands cr dec number pk cs \<longleftrightarrow> (\<forall>c\<in>set cs. \<exists>b op env. authenticateSealedLifecycleArtifact cr dec number b pk op env = Inr c)"

text \<open>The evidence behind a positive production result: the command with this digest is signed by the operator, and the receipt is the receipt of that
  command in a statement that a trusted production key signed.\<close>

definition grounded :: "'j crypto \<Rightarrow> string \<Rightarrow> 'k attestation_ops \<Rightarrow> trust_manifest \<Rightarrow> int \<Rightarrow> string \<Rightarrow> string \<Rightarrow> jval \<Rightarrow> authenticated_command \<Rightarrow> bool" where
  "grounded cr pk am m nowMs digest fp receipt c \<longleftrightarrow>
     signed_by cr (ac_command c) (ac_signature c) pk \<and> commandDigest cr (ac_command c) = Inr digest
     \<and> el (ac_command c) 2 = Some (JStr ''production'') \<and> expectedCommandReceipt cr (ac_command c) pk = Inr (ac_expected c)
     \<and> receipt_of_command (ac_expected c) receipt
     \<and> (\<exists>v s k. trusted_by am m nowMs v s k \<and> te_environment s = Production \<and> fp = vs_signingKeyFingerprint v \<and> fld (vs_statement v) ''receipt'' = Some receipt)"

lemma production_positive:
  assumes m: "parseAuthorityResultTrustManifest am src = Inr m" and g: "genuine_commands cr dec number pk cs"
    and r: "readProductionAuthorityResult am number' ms rg cs kind digest nonce b m nowMs command = Inr (ReadPositive env k d t fp receipt)"
  shows "\<exists>c. command = Some c \<and> grounded cr pk am m nowMs digest fp receipt c"
proof -
  define matching where "matching = (case command of None \<Rightarrow> None | Some c \<Rightarrow> if ac_digest c = digest then Some c else None)"
  obtain v composed where v: "verifyAuthoritySignedStatement am ms b (reader_expectations Production kind digest nonce) m nowMs = Inr v"
    "composeProductionAuthorityResult (v # rg) cs v matching = Inr composed"
    "read_composed Production kind digest v (command \<noteq> None \<and> matching = None) composed = ReadPositive env k d t fp receipt"
    using r unfolding readProductionAuthorityResult_def matching_def [symmetric] Let_def by (auto split: if_split_asm sum.split_asm)
  then obtain k' v' co where "composed = ComposedPositive k' v' co" by (auto simp: read_composed_positive)
  then obtain c x where c: "matching = Some c" "c \<in> set cs" "classify (vs_statement v) = Inr (PositiveCandidate k' x)"
    "commandReceiptMismatches x (ac_expected c) = Inr []" "fld (vs_statement v) ''environment'' = Some (JStr ''production'')"
    using composed_production v(2) by metis
  have cd: "command = Some c" "ac_digest c = digest" using c(1) by (auto simp: matching_def split: option.splits if_splits)
  obtain a op e where "authenticateSealedLifecycleArtifact cr dec number a pk op e = Inr c" using g c(2) by (auto simp: genuine_commands_def)
  note ac = authenticated_command [OF this]
  obtain ob where x: "validateReceipt x ob = Inr ()" "fld (vs_statement v) ''receipt'' = Some x" "positive_receipt (vs_statement v) = x"
    using positive_candidate [OF verified_validates [OF v(1)] c(3)] .
  have "receipt_of_command (ac_expected c) x" using no_mismatch [OF x(1)] c(4) by blast
  moreover obtain s key where s: "trusted_by am m nowMs v s key" using verified_trusted [OF parsed_manifest_ok [OF m] v(1)] by blast
  have "te_environment s = Production" using s c(5) by (cases "te_environment s") (auto simp: trusted_by_def)
  moreover have "e = Production"
  proof -
    have "rc_environment (ac_expected c) = Production"
      using v(2) c(1) by (auto simp: composeProductionAuthorityResult_def Let_def sum_bind_Inr_iff \<open>composed = _\<close> split: if_split_asm)
    then show ?thesis using ac(7) by simp
  qed
  ultimately show ?thesis
    using ac(1,3,4,6) cd x(2,3) s v(3) by (auto simp: grounded_def read_composed_positive intro!: exI [of _ c])
qed

subsection \<open>What the authority signs for a command\<close>

definition lifecycle_input_of :: "receipt \<Rightarrow> int \<Rightarrow> string \<Rightarrow> lifecycle_input" where
  "lifecycle_input_of r t w = \<lparr>li_trustEpoch = ATTESTATION_TRUST_EPOCH, li_environment = rc_environment r, li_authorityId = rc_authorityId r,
      li_policyEpoch = ATTESTATION_POLICY_EPOCH, li_digest = rc_digest r, li_receipt = attestationReceiptFromLifecycleReceipt r,
      li_observedAt = t, li_writerKeyFingerprint = w\<rparr>"

lemma made_statement:
  assumes "makeLifecycleStatement (lifecycle_input_of r t w) = Inr sn"
  shows "snapshotResultStatement sn = Inr sn" "fld sn ''kind'' = Some (JStr ''lifecycle'')" "fld sn ''environment'' = Some (JStr (environment_name (rc_environment r)))"
    "fld sn ''authorityId'' = Some (JStr (rc_authorityId r))" "fld sn ''policyEpoch'' = Some (JStr ATTESTATION_POLICY_EPOCH)" "fld sn ''digest'' = Some (JStr (rc_digest r))"
    "fld sn ''receipt'' = Some (attestationReceiptFromLifecycleReceipt r)" "fld sn ''observedAtMs'' = Some (JNum t)"
proof -
  let ?t = "lifecycle_tuple (lifecycle_input_of r t w) (receipt_tuple r)"
  have p: "parseResultStatementTuple (JArr ?t) = Inr sn"
    using assms makeLifecycle_parse [of "lifecycle_input_of r t w" "receipt_tuple r"] by (simp add: lifecycle_input_of_def receipt_zip)
  then show "snapshotResultStatement sn = Inr sn" using snapshot_of_parse by (simp add: snapshotResultStatement_def)
  have "length ?t = 11" "?t ! 5 = JStr ''lifecycle''" "?t ! 8 = JArr (receipt_tuple r)" by (simp_all add: lifecycle_tuple_def)
  then have sn: "sn = lifecycle_record ?t (receipt_tuple r)" using p by (simp add: parse_lifecycle_iff)
  show "fld sn ''kind'' = Some (JStr ''lifecycle'')" "fld sn ''environment'' = Some (JStr (environment_name (rc_environment r)))"
    "fld sn ''authorityId'' = Some (JStr (rc_authorityId r))" "fld sn ''policyEpoch'' = Some (JStr ATTESTATION_POLICY_EPOCH)" "fld sn ''digest'' = Some (JStr (rc_digest r))"
    "fld sn ''receipt'' = Some (attestationReceiptFromLifecycleReceipt r)" "fld sn ''observedAtMs'' = Some (JNum t)"
    unfolding sn by (simp_all add: lifecycle_record_def fld_def LIFECYCLE_STATEMENT_FIELDS_def lifecycle_tuple_def lifecycle_input_of_def receipt_zip(1))
qed

lemma attested_bytes:
  assumes "attestLifecycleReceipt (coordinator_signer am (pin, st)) r t = Inr b"
  obtains sn where "makeLifecycleStatement (lifecycle_input_of r t (sp_fingerprint pin)) = Inr sn" "sign am pin (fst (ready am pin 0 st)) sn = Inr b"
  using assms by (auto simp: attestLifecycleReceipt_def coordinator_signer_def lifecycle_input_of_def sum_bind_Inr_iff)

lemma expected_digest: "snapshotExpectations (reader_expectations env kind digest nonce) = Inr ex \<Longrightarrow> ex_digest ex = digest"
  by (cases kind) (auto simp: reader_expectations_def snapshotExpectations_def data_field_def fld_def sum_bind_Inr_iff Let_def split: if_split_asm)

text \<open>What the staging composition compares.\<close>

lemma gate7_receipt_fields:
  assumes "assertReceiptMatchesGate7 x = Inr ()"
  shows "fld x f = fld (attestationReceiptFromLifecycleReceipt (g7_receipt STAGING_GATE7_CONTINUITY)) f"
proof (cases "f \<in> set RECEIPT_FIELDS")
  case True
  then have "fld x f = fld gate7Receipt (gate7Name f)"
    using assms by (auto simp: assertReceiptMatchesGate7_def list_ex_iff split: if_split_asm)
  also have "\<dots> = fld (attestationReceiptFromLifecycleReceipt (g7_receipt STAGING_GATE7_CONTINUITY)) f"
    using True by (auto simp: RECEIPT_FIELDS_def gate7Name_def gate7Receipt_def Let_def fld_def attestationReceiptFromLifecycleReceipt_def)
  finally show ?thesis .
next
  case False
  have "isExactFieldSet RECEIPT_FIELDS x (\<lambda>f. f)" using assms by (auto simp: assertReceiptMatchesGate7_def split: if_split_asm)
  then have "f \<notin> set (own_keys x)" using False by (auto simp: isExactFieldSet_def list_all_iff)
  moreover have "own_keys (attestationReceiptFromLifecycleReceipt q) = RECEIPT_FIELDS" for q
    by (simp add: own_keys_def attestationReceiptFromLifecycleReceipt_def RECEIPT_FIELDS_def)
  ultimately show ?thesis using False by (simp add: fld_not_key)
qed

lemma reader_expectations_read:
  assumes "isLowerHex64 digest"
  shows "snapshotExpectations (reader_expectations env LifecycleKind digest None) = Inr \<lparr>ex_kind = ''lifecycle'', ex_environment = environment_name env,
    ex_authorityId = authority_id_of env, ex_policyEpoch = ADMISSION_POLICY_EPOCH, ex_digest = digest, ex_nonce = None\<rparr>"
  using assms by (cases env) (simp_all add: reader_expectations_def snapshotExpectations_def isPlainRecord_def data_field_def fld_def own_keys_def LIFECYCLE_EXPECTATION_FIELDS_def
      ATTESTATION_AUTHORITY_IDS_def ADMISSION_AUTHORITY_ID_def STAGING_ADMISSION_AUTHORITY_ID_def ATTESTATION_POLICY_EPOCH_def ADMISSION_POLICY_EPOCH_def authority_id_of_def)

text \<open>The verification of what a signer attests, for a reader of the digest of the receipt.\<close>

lemma attested_verifies:
  assumes codec: "\<And>s. am_decode am (am_utf8 am s) = Some s"
    and trust: "parseAuthorityResultTrustManifest am src = Inr m" "m \<in> set ms" "s \<in> set (tm_environments m)" "k \<in> set (te_keys s)"
      "te_environment s = sp_environment pin" "tk_keyFingerprint k = sp_fingerprint pin" "tk_publicKey k = sp_publicKey pin"
    and r: "rc_environment r = sp_environment pin" "rc_authorityId r = authority_id_of (sp_environment pin)"
    and b: "attestLifecycleReceipt (coordinator_signer am (pin, st)) r t = Inr b"
    and time: "is_safe_time nowMs" "key_usable k t nowMs" "assertAttestationFresh t nowMs = Inr ()"
  obtains sn ob where "verifyAuthoritySignedStatement am ms b (reader_expectations (sp_environment pin) LifecycleKind (rc_digest r) None) m nowMs
      = Inr \<lparr>vs_statement = sn, vs_signingKeyFingerprint = sp_fingerprint pin, vs_verifiedAt = nowMs,
          vs_expectations = \<lparr>ex_kind = ''lifecycle'', ex_environment = environment_name (sp_environment pin), ex_authorityId = authority_id_of (sp_environment pin),
            ex_policyEpoch = ADMISSION_POLICY_EPOCH, ex_digest = rc_digest r, ex_nonce = None\<rparr>\<rparr>"
    "classify sn = Inr (PositiveCandidate LifecycleKind (attestationReceiptFromLifecycleReceipt r))" "positive_receipt sn = attestationReceiptFromLifecycleReceipt r"
    "validateReceipt (attestationReceiptFromLifecycleReceipt r) ob = Inr ()" "fld sn ''environment'' = Some (JStr (environment_name (sp_environment pin)))"
    "fld sn ''authorityId'' = Some (JStr (rc_authorityId r))" "fld sn ''digest'' = Some (JStr (rc_digest r))" "num_of (fld sn ''observedAtMs'') = t"
    "fld sn ''kind'' = Some (JStr ''lifecycle'')"
proof -
  obtain sn where sn: "makeLifecycleStatement (lifecycle_input_of r t (sp_fingerprint pin)) = Inr sn" "sign am pin (fst (ready am pin 0 st)) sn = Inr b"
    using attested_bytes [OF b] .
  note f = made_statement [OF sn(1)]
  have cls: "classify sn = Inr (PositiveCandidate LifecycleKind (attestationReceiptFromLifecycleReceipt r))" using f(2,7) by (simp add: classify_def)
  obtain ob where rc: "validateReceipt (attestationReceiptFromLifecycleReceipt r) ob = Inr ()" "positive_receipt sn = attestationReceiptFromLifecycleReceipt r"
    using positive_candidate [OF snapshot_valid [OF f(1)] cls] by metis
  have "receipt_fields_ok (attestationReceiptFromLifecycleReceipt r) ob" using rc(1) by (simp add: validateReceipt_def split: if_split_asm)
  then have "str_such isLowerHex64 (fld (attestationReceiptFromLifecycleReceipt r) ''digest'')" unfolding receipt_fields_ok_def by blast
  then have hex: "isLowerHex64 (rc_digest r)" by (simp add: receipt_fld)
  have match: "matches_expectations sn \<lparr>ex_kind = ''lifecycle'', ex_environment = environment_name (sp_environment pin), ex_authorityId = authority_id_of (sp_environment pin),
      ex_policyEpoch = ADMISSION_POLICY_EPOCH, ex_digest = rc_digest r, ex_nonce = None\<rparr>"
    using f r by (simp add: matches_expectations_def ATTESTATION_POLICY_EPOCH_def ADMISSION_POLICY_EPOCH_def)
  have obs: "num_of (fld sn ''observedAtMs'') = t" using f(8) by simp
  note v = signed_verifies [OF codec trust(1-7) sn(2) f(1) reader_expectations_read [OF hex] match time(1) time(2,3) [folded obs]]
  show thesis by (rule that [OF v cls rc(2,1)]) (use f r obs in simp_all)
qed

lemma exact_attested: "isExactFieldSet (map attestedName commandDerivedReceiptFields @ [''sequence'', ''appliedMs'']) (attestationReceiptFromLifecycleReceipt r) (\<lambda>f. f)"
  by (simp add: commandDerivedReceiptFields_def receiptFields_def attestedName_def isExactFieldSet_def attestationReceiptFromLifecycleReceipt_def own_keys_def)

lemma attested_reads_positive:
  assumes codec: "\<And>s. am_decode am (am_utf8 am s) = Some s"
    and trust: "parseAuthorityResultTrustManifest am src = Inr m" "m \<in> set ms" "s \<in> set (tm_environments m)" "k \<in> set (te_keys s)"
      "te_environment s = sp_environment pin" "tk_keyFingerprint k = sp_fingerprint pin" "tk_publicKey k = sp_publicKey pin" "sp_environment pin = Production"
    and c: "authenticateSealedLifecycleArtifact cr dec number sealed pk op Production = Inr c" "c \<in> set cs"
    and b: "attestLifecycleReceipt (coordinator_signer am (pin, st)) ((ac_expected c)\<lparr>rc_sequence := n, rc_applied := a\<rparr>) t = Inr b"
    and time: "is_safe_time nowMs" "key_usable k t nowMs" "assertAttestationFresh t nowMs = Inr ()"
  shows "readProductionAuthorityResult am number' ms rg cs LifecycleKind (ac_digest c) None b m nowMs (Some c)
    = Inr (ReadPositive Production LifecycleKind (ac_digest c) t (sp_fingerprint pin) (attestationReceiptFromLifecycleReceipt ((ac_expected c)\<lparr>rc_sequence := n, rc_applied := a\<rparr>)))"
proof -
  let ?r = "(ac_expected c)\<lparr>rc_sequence := n, rc_applied := a\<rparr>"
  note ac = authenticated_command [OF c(1)]
  have r: "rc_environment ?r = sp_environment pin" "rc_authorityId ?r = authority_id_of (sp_environment pin)" using ac(7,8) trust(8) by simp_all
  obtain sn ob where v: "verifyAuthoritySignedStatement am ms b (reader_expectations (sp_environment pin) LifecycleKind (rc_digest ?r) None) m nowMs
      = Inr \<lparr>vs_statement = sn, vs_signingKeyFingerprint = sp_fingerprint pin, vs_verifiedAt = nowMs,
          vs_expectations = \<lparr>ex_kind = ''lifecycle'', ex_environment = environment_name (sp_environment pin), ex_authorityId = authority_id_of (sp_environment pin),
            ex_policyEpoch = ADMISSION_POLICY_EPOCH, ex_digest = rc_digest ?r, ex_nonce = None\<rparr>\<rparr>"
    and cls: "classify sn = Inr (PositiveCandidate LifecycleKind (attestationReceiptFromLifecycleReceipt ?r))" and pos: "positive_receipt sn = attestationReceiptFromLifecycleReceipt ?r"
    and rc: "validateReceipt (attestationReceiptFromLifecycleReceipt ?r) ob = Inr ()" and env: "fld sn ''environment'' = Some (JStr (environment_name (sp_environment pin)))"
    and aid: "fld sn ''authorityId'' = Some (JStr (rc_authorityId ?r))" and dig: "fld sn ''digest'' = Some (JStr (rc_digest ?r))" and obs: "num_of (fld sn ''observedAtMs'') = t"
    by (rule attested_verifies [OF codec trust(1-7) r b time])
  have "receipt_of_command (ac_expected c) (attestationReceiptFromLifecycleReceipt ?r)" unfolding receipt_of_command_def by blast
  then have "commandReceiptMismatches (attestationReceiptFromLifecycleReceipt ?r) (ac_expected c) = Inr []"
    using no_mismatch [OF rc] exact_attested by blast
  then show ?thesis
    using v cls c(2) env dig ac(5,7) pos positive_not_null [OF rc] obs trust(8)
    by (simp add: readProductionAuthorityResult_def composeProductionAuthorityResult_def Let_def read_composed_def)
qed

subsection \<open>Samples\<close>

text \<open>A hash that gives the sample artifact the digest and the key fingerprint of the sample receipt.\<close>

definition reader_crypto :: "unit crypto" where
  "reader_crypto = sample_crypto\<lparr>cr_sha256 := (\<lambda>b. replicate 32 (if hd b = CHR 0x00 then CHR 0xBB else CHR 0xAA))\<rparr>"

definition sample_authenticated :: authenticated_command where
  "sample_authenticated = \<lparr>ac_command = sample_command, ac_signature = sample_signature, ac_digest = replicate 64 CHR ''a'',
     ac_expected = sample_receipt\<lparr>rc_sequence := 0, rc_applied := 0\<rparr>\<rparr>"

lemma reader_crypto_ops [simp]: "cr_import reader_crypto raw = Some ()" "cr_verify reader_crypto k sig msg" "cr_encode reader_crypto c = []"
  "cr_sha256 reader_crypto b = replicate 32 (if hd b = CHR 0x00 then CHR 0xBB else CHR 0xAA)"
  by (simp_all add: reader_crypto_def sample_crypto_def)

lemma reader_crypto_canonical: "canonicalOperatorCommandBytes reader_crypto c = canonicalOperatorCommandBytes sample_crypto c"
  by (simp add: canonicalOperatorCommandBytes_def reader_crypto_def)

lemma reader_crypto_artifact:
  "parseSealedLifecycleArtifactInvariant reader_crypto Some (\<lambda>_. None) sample_sealed None Production = Inr (sample_command, sample_signature)"
proof -
  have "validateAuthorityOperatorCommand reader_crypto c = validateAuthorityOperatorCommand sample_crypto c" for c
    by (simp add: validateAuthorityOperatorCommand_def reader_crypto_canonical)
  then have "validateAuthorityOperatorCommand reader_crypto = validateAuthorityOperatorCommand sample_crypto" by blast
  then have "check_artifact reader_crypto op e v = check_artifact sample_crypto op e v" for op e v unfolding check_artifact_def by (rule arg_cong)
  then have eq: "check_artifact reader_crypto = check_artifact sample_crypto" by blast
  show ?thesis using sample_artifact [of None] unfolding parseSealedLifecycleArtifactInvariant_def eq by blast
qed

lemma sample_authentication:
  "authenticateSealedLifecycleArtifact reader_crypto Some (\<lambda>_. None) sample_sealed sample_key None Production = Inr sample_authenticated"
proof -
  have "verifyOperatorCommand reader_crypto sample_command sample_signature sample_key = Inr ()"
    using sample_decodes sample_command_ok by (simp add: verifyOperatorCommand_def reader_crypto_canonical)
  moreover have "commandDigest reader_crypto sample_command = Inr (hex_text (replicate 32 CHR 0xAA))"
    using sample_command_ok by (simp add: commandDigest_def reader_crypto_canonical sha256_def command_digest_domain_def)
  moreover have "hex_text (replicate 32 CHR 0xAA) = replicate 64 CHR ''a''" "hex_text (replicate 32 CHR 0xBB) = replicate 64 CHR ''b''"
    by code_simp+
  ultimately show ?thesis
    using reader_crypto_artifact sample_decodes
    by (simp add: authenticateSealedLifecycleArtifact_def expectedCommandReceipt_def Let_def sha256_def)
      (simp add: sample_authenticated_def sample_receipt_def sample_command_def el_def authority_id_of_def)
qed

lemma sample_receipt_of: "(ac_expected sample_authenticated)\<lparr>rc_sequence := 1, rc_applied := 1000\<rparr> = sample_receipt"
  by (simp add: sample_authenticated_def sample_receipt_def)

lemma sample_attested:
  obtains b where "attestLifecycleReceipt (coordinator_signer sample_ops (sample_pin, \<lparr>ss_rawPrivateKey = None, ss_keys = Some ()\<rparr>)) sample_receipt 2000 = Inr b"
proof -
  obtain st where st: "parseResultStatementTuple (JArr sample_tuple) = Inr st" using sample_parses by blast
  then obtain b where b: "sign sample_ops sample_pin \<lparr>ss_rawPrivateKey = None, ss_keys = Some ()\<rparr> st = Inr b" using sample_signed by metis
  have "makeLifecycleStatement (lifecycle_input_of sample_receipt 2000 (sp_fingerprint sample_pin)) = Inr st"
    using st makeLifecycle_parse [of sample_lifecycle "receipt_tuple sample_receipt"]
    by (simp add: sample_tuple_def lifecycle_input_of_def sample_lifecycle_def sample_pin_def receipt_zip sample_receipt_def)
  then have "attestLifecycleReceipt (coordinator_signer sample_ops (sample_pin, \<lparr>ss_rawPrivateKey = None, ss_keys = Some ()\<rparr>)) sample_receipt 2000 = Inr b"
    using b by (simp add: attestLifecycleReceipt_def coordinator_signer_def lifecycle_input_of_def ready_again is_safe_time_def is_safe_integer_def MAX_SAFE_INTEGER_def)
  then show thesis by (rule that)
qed

lemma sample_reads_positive:
  assumes "attestLifecycleReceipt (coordinator_signer sample_ops (sample_pin, \<lparr>ss_rawPrivateKey = None, ss_keys = Some ()\<rparr>)) sample_receipt 2000 = Inr b"
  shows "readProductionAuthorityResult sample_ops (\<lambda>_. None) [sample_manifest] [] [sample_authenticated] LifecycleKind (replicate 64 CHR ''a'') None b sample_manifest 3000
     (Some sample_authenticated)
   = Inr (ReadPositive Production LifecycleKind (replicate 64 CHR ''a'') 2000 (replicate 64 CHR ''c'') (attestationReceiptFromLifecycleReceipt sample_receipt))"
proof -
  have "sp_environment sample_pin = Production" "sample_authenticated \<in> set [sample_authenticated]" "ac_digest sample_authenticated = replicate 64 CHR ''a''"
    "sp_fingerprint sample_pin = replicate 64 CHR ''c''" by (simp_all add: sample_pin_def sample_authenticated_def)
  then show ?thesis
    using attested_reads_positive [OF _ sample_manifest_parses sample_trust _ sample_authentication _ _ sample_usable(2,1,3), where n = 1 and a = 1000
        and cs = "[sample_authenticated]" and number' = "\<lambda>_. None" and rg = "[]"] assms
    by (simp add: sample_receipt_of)
qed

text \<open>A staging signer attests the pinned receipt.\<close>

definition sample_staging_pin :: signer_pin where
  "sample_staging_pin = \<lparr>sp_environment = Staging, sp_fingerprint = replicate 64 CHR ''d'', sp_publicKey = ''d''\<rparr>"

definition gate7_receipt :: receipt where "gate7_receipt = g7_receipt STAGING_GATE7_CONTINUITY"

lemma gate7_texts: "isLowerHex64 (rc_digest gate7_receipt)" "isLowerHex64 (rc_keyFingerprint gate7_receipt)" "validRelease (rc_nextReleaseId gate7_receipt)"
  "validKeyId (rc_nextKeyId gate7_receipt)"
  by code_simp+

lemma gate7_receipt_ok: "receipt_ok Staging gate7_receipt" "sequence_ok gate7_receipt" "rc_sequence gate7_receipt = 1" "rc_environment gate7_receipt = Staging"
  "rc_authorityId gate7_receipt = authority_id_of Staging"
  using gate7_texts
  by (simp_all add: receipt_ok_def sequence_ok_def gate7_receipt_def STAGING_GATE7_CONTINUITY_def authority_id_of_def STAGING_ADMISSION_AUTHORITY_ID_def
      ADMISSION_POLICY_EPOCH_def is_safe_time_def is_safe_integer_def MAX_SAFE_INTEGER_def)

lemma gate7_lengths: "length (authority_id_of Staging) = 27" "length ATTESTATION_POLICY_EPOCH = 18" "length ADMISSION_POLICY_EPOCH = 18"
  "length (rc_digest gate7_receipt) = 64" "length (rc_keyFingerprint gate7_receipt) = 64" "length (rc_nextReleaseId gate7_receipt) = 21"
  "length (rc_nextKeyId gate7_receipt) = 19" "length (rc_currentReleaseId gate7_receipt) = 21"
  by (simp_all add: gate7_receipt_def STAGING_GATE7_CONTINUITY_def STAGING_GATE7_KEY_FINGERPRINT_def authority_id_of_def STAGING_ADMISSION_AUTHORITY_ID_def
      ATTESTATION_POLICY_EPOCH_def ADMISSION_POLICY_EPOCH_def)

lemma gate7_text:
  "\<exists>t. encodeTupleJson (JArr (lifecycle_tuple (lifecycle_input_of gate7_receipt 1790252050000 (replicate 64 CHR ''d'')) (receipt_tuple gate7_receipt))) = Inr t \<and> length t \<le> 4000"
proof -
  note q = quote_length [of "''staging''"] quote_length [of "authority_id_of Staging"] quote_length [of ATTESTATION_POLICY_EPOCH]
    quote_length [of ADMISSION_POLICY_EPOCH] quote_length [of "''lifecycle''"] quote_length [of "rc_digest gate7_receipt"] quote_length [of "''APPLIED''"]
    quote_length [of "''initialize''"] quote_length [of "rc_keyFingerprint gate7_receipt"] quote_length [of "rc_nextReleaseId gate7_receipt"]
    quote_length [of "rc_currentReleaseId gate7_receipt"] quote_length [of "rc_nextKeyId gate7_receipt"] quote_length [of "replicate 64 CHR ''d''"]
  have f: "rc_environment gate7_receipt = Staging" "rc_policyEpoch gate7_receipt = ADMISSION_POLICY_EPOCH" "rc_operation gate7_receipt = Initialize" "rc_version gate7_receipt = 1"
    "rc_retires gate7_receipt = None" "rc_applied gate7_receipt = 1790252041703" "rc_activates gate7_receipt = 1790251978099"
    by (simp_all add: gate7_receipt_def STAGING_GATE7_CONTINUITY_def ADMISSION_POLICY_EPOCH_def)
  show ?thesis
    using q int_length [of 1] int_length [of 2] int_length [of 1790252041703] int_length [of 1790251978099] int_length [of 1790252050000]
    by (simp add: lifecycle_tuple_def receipt_tuple_def lifecycle_input_of_def f gate7_receipt_ok(3,5) ATTESTATION_VERSION_def ATTESTATION_TRUST_EPOCH_def
        is_safe_time_def is_safe_integer_def MAX_SAFE_INTEGER_def gate7_lengths)
qed

lemma sample_staging_attested:
  obtains b where "attestLifecycleReceipt (coordinator_signer sample_ops (sample_staging_pin, \<lparr>ss_rawPrivateKey = None, ss_keys = Some ()\<rparr>)) gate7_receipt 1790252050000 = Inr b"
proof -
  let ?i = "lifecycle_input_of gate7_receipt 1790252050000 (replicate 64 CHR ''d'')"
  have hex: "isLowerHex64 (replicate 64 CHR ''d'')" by (rule hex_replicate) (simp add: is_lower_hex_def in_range_def is_digit_def)
  have safe: "is_safe_time 1790252050000" by (simp add: is_safe_time_def is_safe_integer_def MAX_SAFE_INTEGER_def)
  have made: "makeLifecycleStatement ?i = Inr (lifecycle_record (lifecycle_tuple ?i (receipt_tuple gate7_receipt)) (receipt_tuple gate7_receipt))" (is "_ = Inr ?st")
    using lifecycle_accepted [OF gate7_receipt_ok(1,2) _ _ safe hex refl] gate7_receipt_ok(3-5) by (simp add: lifecycle_input_of_def)
  then have p: "parseResultStatementTuple (JArr (lifecycle_tuple ?i (receipt_tuple gate7_receipt))) = Inr ?st"
    using makeLifecycle_parse [of ?i "receipt_tuple gate7_receipt"] by (simp add: lifecycle_input_of_def receipt_zip)
  obtain t where t: "encodeTupleJson (JArr (lifecycle_tuple ?i (receipt_tuple gate7_receipt))) = Inr t" "length t \<le> 4000"
    using gate7_text by blast
  have depth: "jdepth (JArr (lifecycle_tuple ?i (receipt_tuple gate7_receipt))) \<le> 16" by code_simp
  note f = made_statement [OF made]
  have "fld ?st ''writerKeyFingerprint'' = Some (JStr (replicate 64 CHR ''d''))"
    by (simp add: lifecycle_record_def fld_def LIFECYCLE_STATEMENT_FIELDS_def lifecycle_tuple_def lifecycle_input_of_def)
  then have pinned: "fld ?st ''environment'' = Some (JStr (environment_name (sp_environment sample_staging_pin)))" "fld ?st ''authorityId'' = Some (JStr (authority_id sample_staging_pin))"
    "fld ?st ''policyEpoch'' = Some (JStr ATTESTATION_POLICY_EPOCH)" "fld ?st ''writerKeyFingerprint'' = Some (JStr (sp_fingerprint sample_staging_pin))"
    using f gate7_receipt_ok(4,5) by (simp_all add: sample_staging_pin_def authority_id_def ATTESTATION_AUTHORITY_IDS_def authority_id_of_def STAGING_ADMISSION_AUTHORITY_ID_def)
  obtain b where "sign sample_ops sample_staging_pin \<lparr>ss_rawPrivateKey = None, ss_keys = Some ()\<rparr> ?st = Inr b" by (rule sample_ops_sign [OF p t depth pinned])
  then have "attestLifecycleReceipt (coordinator_signer sample_ops (sample_staging_pin, \<lparr>ss_rawPrivateKey = None, ss_keys = Some ()\<rparr>)) gate7_receipt 1790252050000 = Inr b"
    using made by (simp add: attestLifecycleReceipt_def coordinator_signer_def lifecycle_input_of_def ready_again is_safe_time_def is_safe_integer_def MAX_SAFE_INTEGER_def
        sample_staging_pin_def)
  then show thesis by (rule that)
qed

lemma gate7_assert: "assertReceiptMatchesGate7 (attestationReceiptFromLifecycleReceipt gate7_receipt) = Inr ()"
  by code_simp

lemma sample_staging_reads_positive:
  assumes b: "attestLifecycleReceipt (coordinator_signer sample_ops (sample_staging_pin, \<lparr>ss_rawPrivateKey = None, ss_keys = Some ()\<rparr>)) gate7_receipt 1790252050000 = Inr b"
  shows "readStagingAuthorityResult sample_ops (\<lambda>_. None) [sample_manifest] [] LifecycleKind (rc_digest gate7_receipt) None b sample_manifest 1790252060000
     = ReadPositive Staging LifecycleKind (rc_digest gate7_receipt) 1790252050000 (replicate 64 CHR ''d'') (attestationReceiptFromLifecycleReceipt gate7_receipt)"
proof -
  let ?s = "sample_section Staging CHR ''d''" and ?k = "hd (te_keys (sample_section Staging CHR ''d''))"
  have trust: "sample_manifest \<in> set [sample_manifest]" "?s \<in> set (tm_environments sample_manifest)" "?k \<in> set (te_keys ?s)"
    "te_environment ?s = sp_environment sample_staging_pin" "tk_keyFingerprint ?k = sp_fingerprint sample_staging_pin" "tk_publicKey ?k = sp_publicKey sample_staging_pin"
    by (simp_all add: sample_manifest_def sample_section_def sample_staging_pin_def)
  have time: "is_safe_time 1790252060000" "key_usable ?k 1790252050000 1790252060000" "assertAttestationFresh 1790252050000 1790252060000 = Inr ()"
    by (simp_all add: sample_section_def key_usable_def assertAttestationFresh_def is_safe_time_def is_safe_integer_def MAX_SAFE_INTEGER_def
        ATTESTATION_MAX_FUTURE_SKEW_MS_def ATTESTATION_MAX_AGE_MS_def)
  have r: "rc_environment gate7_receipt = sp_environment sample_staging_pin" "rc_authorityId gate7_receipt = authority_id_of (sp_environment sample_staging_pin)"
    using gate7_receipt_ok by (simp_all add: sample_staging_pin_def)
  have codec: "\<And>s. am_decode sample_ops (am_utf8 sample_ops s) = Some s" by simp
  show ?thesis
    by (rule attested_verifies [OF codec sample_manifest_parses trust r b time])
      (simp add: readStagingAuthorityResult_def composeStagingAuthorityResult_def Let_def read_composed_def gate7_assert positive_not_null sample_staging_pin_def
        gate7_receipt_ok(5) authority_id_of_def STAGING_GATE7_CONTINUITY_def STAGING_ADMISSION_AUTHORITY_ID_def)
qed

subsection \<open>Theorems\<close>

text \<open>C7. A positive production result is grounded in two signatures: the operator signed a production command with exactly the digest the reader
  asked for, and a production key that the manifest trusts signed a statement about the receipt the reader returns, whose fields are those
  of that command but for the sequence and the time of its application.\<close>

theorem production_positive_is_grounded:
  assumes "parseAuthorityResultTrustManifest am src = Inr m" "genuine_commands cr dec number pk cs"
    and "readProductionAuthorityResult am number' ms rg cs kind digest nonce b m nowMs command = Inr (ReadPositive env k d t fp receipt)"
  shows "\<exists>c. command = Some c \<and> grounded cr pk am m nowMs digest fp receipt c"
  by (rule production_positive [OF assms])

theorem production_positive_is_grounded_witness:
  "\<exists>b. grounded reader_crypto sample_key sample_ops sample_manifest 3000 (replicate 64 CHR ''a'') (replicate 64 CHR ''c'')
     (attestationReceiptFromLifecycleReceipt sample_receipt) sample_authenticated
   \<and> attestLifecycleReceipt (coordinator_signer sample_ops (sample_pin, \<lparr>ss_rawPrivateKey = None, ss_keys = Some ()\<rparr>)) sample_receipt 2000 = Inr b"
proof -
  obtain b where b: "attestLifecycleReceipt (coordinator_signer sample_ops (sample_pin, \<lparr>ss_rawPrivateKey = None, ss_keys = Some ()\<rparr>)) sample_receipt 2000 = Inr b"
    by (rule sample_attested)
  have "genuine_commands reader_crypto Some (\<lambda>_. None) sample_key [sample_authenticated]"
    using sample_authentication by (auto simp: genuine_commands_def)
  from production_positive_is_grounded [OF sample_manifest_parses this sample_reads_positive [OF b]] show ?thesis using b by auto
qed

text \<open>C28. What the authority attests for an operator command is read as positive: the signed lifecycle statement of a receipt that is the receipt of the
  authenticated command is accepted by a reader that has this command and a manifest listing the key of the signer, while the key is valid
  and the statement fresh.\<close>

theorem attested_command_reads_positive:
  assumes "\<And>s. am_decode am (am_utf8 am s) = Some s"
    and "parseAuthorityResultTrustManifest am src = Inr m" "m \<in> set ms" "s \<in> set (tm_environments m)" "k \<in> set (te_keys s)"
      "te_environment s = sp_environment pin" "tk_keyFingerprint k = sp_fingerprint pin" "tk_publicKey k = sp_publicKey pin" "sp_environment pin = Production"
    and "authenticateSealedLifecycleArtifact cr dec number sealed pk op Production = Inr c" "c \<in> set cs"
    and "attestLifecycleReceipt (coordinator_signer am (pin, st)) ((ac_expected c)\<lparr>rc_sequence := n, rc_applied := a\<rparr>) t = Inr b"
    and "is_safe_time nowMs" "key_usable k t nowMs" "assertAttestationFresh t nowMs = Inr ()"
  shows "readProductionAuthorityResult am number' ms rg cs LifecycleKind (ac_digest c) None b m nowMs (Some c)
    = Inr (ReadPositive Production LifecycleKind (ac_digest c) t (sp_fingerprint pin) (attestationReceiptFromLifecycleReceipt ((ac_expected c)\<lparr>rc_sequence := n, rc_applied := a\<rparr>)))"
  by (rule attested_reads_positive [OF assms])

theorem attested_command_reads_positive_witness:
  "\<exists>b. readProductionAuthorityResult sample_ops (\<lambda>_. None) [sample_manifest] [] [sample_authenticated] LifecycleKind (replicate 64 CHR ''a'') None b sample_manifest 3000
     (Some sample_authenticated)
   = Inr (ReadPositive Production LifecycleKind (replicate 64 CHR ''a'') 2000 (replicate 64 CHR ''c'') (attestationReceiptFromLifecycleReceipt sample_receipt))"
proof -
  obtain b where b: "attestLifecycleReceipt (coordinator_signer sample_ops (sample_pin, \<lparr>ss_rawPrivateKey = None, ss_keys = Some ()\<rparr>)) sample_receipt 2000 = Inr b"
    by (rule sample_attested)
  have "sp_environment sample_pin = Production" "sample_authenticated \<in> set [sample_authenticated]" "ac_digest sample_authenticated = replicate 64 CHR ''a''"
    "sp_fingerprint sample_pin = replicate 64 CHR ''c''" by (simp_all add: sample_pin_def sample_authenticated_def)
  then show ?thesis
    using attested_command_reads_positive [OF _ sample_manifest_parses sample_trust _ sample_authentication _ _ sample_usable(2,1,3), where n = 1 and a = 1000
        and cs = "[sample_authenticated]" and number' = "\<lambda>_. None" and rg = "[]"] b
    by (auto simp: sample_receipt_of)
qed

text \<open>C30. A positive staging result is the one committed receipt, signed by a trusted staging key: no other receipt is ever positive.\<close>

theorem staging_positive_is_pinned:
  assumes "parseAuthorityResultTrustManifest am src = Inr m"
    and "readStagingAuthorityResult am number ms rg kind digest nonce b m nowMs = ReadPositive env k d t fp receipt"
  shows "(\<forall>f. fld receipt f = fld (attestationReceiptFromLifecycleReceipt (g7_receipt STAGING_GATE7_CONTINUITY)) f)
    \<and> digest = rc_digest (g7_receipt STAGING_GATE7_CONTINUITY)
    \<and> (\<exists>v s key. trusted_by am m nowMs v s key \<and> te_environment s = Staging \<and> fp = vs_signingKeyFingerprint v)"
proof -
  obtain v composed where v: "verifyAuthoritySignedStatement am ms b (reader_expectations Staging kind digest nonce) m nowMs = Inr v"
    "composeStagingAuthorityResult (v # rg) v = Inr composed" "read_composed Staging kind digest v False composed = ReadPositive env k d t fp receipt"
    using assms(2) unfolding readStagingAuthorityResult_def by (auto split: sum.split_asm)
  then obtain k' v' co where "composed = ComposedPositive k' v' co" by (auto simp: read_composed_positive)
  then obtain x where x: "classify (vs_statement v) = Inr (PositiveCandidate k' x)" "assertReceiptMatchesGate7 x = Inr ()"
    "fld (vs_statement v) ''environment'' = Some (JStr ''staging'')" using composed_staging v(2) by metis
  obtain ob where r: "validateReceipt x ob = Inr ()" "positive_receipt (vs_statement v) = x" "validateCommon (vs_statement v) = Inr ob"
    using positive_candidate [OF verified_validates [OF v(1)] x(1)] by metis
  have all: "fld x f = fld (attestationReceiptFromLifecycleReceipt (g7_receipt STAGING_GATE7_CONTINUITY)) f" for f by (rule gate7_receipt_fields [OF x(2)])
  obtain s key where s: "trusted_by am m nowMs v s key" using verified_trusted [OF parsed_manifest_ok [OF assms(1)] v(1)] by blast
  have "te_environment s = Staging" using s x(3) by (cases "te_environment s") (auto simp: trusted_by_def)
  moreover have "digest = rc_digest (g7_receipt STAGING_GATE7_CONTINUITY)"
  proof -
    have "receipt_fields_ok x ob" using r(1) by (simp add: validateReceipt_def split: if_split_asm)
    then have "fld x ''digest'' = Some (JStr (ob_digest ob))" unfolding receipt_fields_ok_def by blast
    moreover have "fld (vs_statement v) ''digest'' = Some (JStr (ob_digest ob))"
      using r(3) by (auto simp: validateCommon_def split: if_split_asm option.split_asm jval.split_asm)
    moreover have "fld (vs_statement v) ''digest'' = Some (JStr digest)"
      by (rule verified_cases [OF v(1)]) (auto simp: matches_expectations_def dest: expected_digest)
    ultimately show ?thesis using all [of "''digest''"] by (simp add: receipt_fld)
  qed
  ultimately show ?thesis using all s v(3) r(2) by (auto simp: read_composed_positive)
qed

theorem staging_positive_is_pinned_witness:
  "\<exists>b v s key. attestLifecycleReceipt (coordinator_signer sample_ops (sample_staging_pin, \<lparr>ss_rawPrivateKey = None, ss_keys = Some ()\<rparr>)) gate7_receipt 1790252050000 = Inr b
     \<and> trusted_by sample_ops sample_manifest 1790252060000 v s key \<and> te_environment s = Staging"
proof -
  obtain b where b: "attestLifecycleReceipt (coordinator_signer sample_ops (sample_staging_pin, \<lparr>ss_rawPrivateKey = None, ss_keys = Some ()\<rparr>)) gate7_receipt 1790252050000 = Inr b"
    by (rule sample_staging_attested)
  then show ?thesis using staging_positive_is_pinned [OF sample_manifest_parses sample_staging_reads_positive [OF b]] by blast
qed

end
