(* ===== verification/Semantic_Request.thy ===== *)
theory Semantic_Request
  imports Defense_Types "HOL-Library.List_Lexorder" "HOL-Library.Char_ord"
begin

text \<open>
  The closed semantic request (\<^verbatim>\<open>defense/core/semantic-request.ts\<close>): the classification of header names, the approval of a request by the
  plane, the wire headers of an approved request, the scan of a verifier, and the semantic gate (\<^verbatim>\<open>defense/plane/semantic-gate.ts\<close>).

  SHA-256 in base64url is the argument \<open>sha\<close>. The registry of approved objects (a \<^verbatim>\<open>WeakSet\<close>) is a list of values kept by the issuer.
  \<^verbatim>\<open>samePairs\<close> compares the JSON texts of two lists of pairs of strings, which are equal exactly when the lists are.

  The lemmas: an approved request is well formed, and the scan of the headers it is sent with finds no violation and the same pairs, so
  the two sides of the canonicalizer agree.
\<close>

subsection \<open>Header names and values\<close>

definition BOUND_HEADER_NAMES :: "string list" where "BOUND_HEADER_NAMES = [''content-type'', ''host'', ''origin'']"
definition FORM_CONTENT_TYPE :: string where "FORM_CONTENT_TYPE = ''application/x-www-form-urlencoded''"
definition MAX_SEMANTIC_VALUE :: nat where "MAX_SEMANTIC_VALUE = 255"
definition MAX_SEMANTIC_BODY :: nat where "MAX_SEMANTIC_BODY = 32768"
definition EMPTY_BODY_SHA256 :: string where "EMPTY_BODY_SHA256 = ''47DEQpj8HBSa-_TImW-5JCeuQeRkm5NMpJWZG3hSuFU''"
definition HOP_PB_HEADER :: string where "HOP_PB_HEADER = ''x-ba0-hop-pb''"
definition HOP_BA_HEADER :: string where "HOP_BA_HEADER = ''x-ba0-hop-ba''"
definition MEASUREMENT_HEADER :: string where "MEASUREMENT_HEADER = ''x-ba0-nonce''"

definition is_ascii_visible :: "char \<Rightarrow> bool" where "is_ascii_visible c \<longleftrightarrow> in_range 33 126 c"
definition is_ascii_printable :: "char \<Rightarrow> bool" where "is_ascii_printable c \<longleftrightarrow> in_range 32 126 c"

text \<open>\<^verbatim>\<open>/^[\x21-\x7e](?:[\x20-\x7e]*[\x21-\x7e])?$/\<close> and \<^verbatim>\<open>/^\/[\x21-\x7e]{0,255}$/\<close>\<close>

definition is_semantic_value :: "string \<Rightarrow> bool" where
  "is_semantic_value s \<longleftrightarrow> s \<noteq> [] \<and> is_ascii_visible (hd s) \<and> is_ascii_visible (last s) \<and> list_all is_ascii_printable s"

definition is_semantic_target :: "string \<Rightarrow> bool" where
  "is_semantic_target s \<longleftrightarrow> (case s of [] \<Rightarrow> False | c # cs \<Rightarrow> c = CHR ''/'' \<and> length cs \<le> 255 \<and> list_all is_ascii_visible cs)"

definition REFUSED_HEADERS :: "string list" where
  "REFUSED_HEADERS = [''content-encoding'', ''transfer-encoding'', ''expect'', ''upgrade'', ''te'', ''trailer'', ''range'', ''if-range'',
     ''proxy-authorization'', ''authorization'']"

datatype header_class = HBound | HDerived | HTransport | HMeasurement | HProof | HRefused | HSpoofable | HIngressIndicator | HDropped

definition classifyHeader :: "string \<Rightarrow> header_class" where
  "classifyHeader lowerName =
     (if lowerName \<in> set BOUND_HEADER_NAMES then HBound
      else if lowerName = ''content-length'' then HDerived
      else if lowerName = ''connection'' then HTransport
      else if lowerName = MEASUREMENT_HEADER then HMeasurement
      else if lowerName = HOP_PB_HEADER \<or> lowerName = HOP_BA_HEADER then HProof
      else if lowerName \<in> set REFUSED_HEADERS then HRefused
      else if isSpoofableHeader lowerName then HSpoofable
      else if starts_with ''cf-'' lowerName then HIngressIndicator
      else HDropped)"

definition trimOws :: "string \<Rightarrow> string" where
  "trimOws = trim_by (\<lambda>c. c = CHR '' '' \<or> c = CHR 0x09)"

definition canonicalValue :: "string \<Rightarrow> string option" where
  "canonicalValue raw = (let value = trimOws raw in
     if length value \<le> MAX_SEMANTIC_VALUE \<and> is_semantic_value value then Some value else None)"

record semantic_request =
  sr_method :: string
  sr_target :: string
  sr_pairs :: "(string \<times> string) list"
  sr_bodyLen :: nat
  sr_bodySha256 :: string

subsection \<open>Approval by the plane\<close>

record approval_scan =
  as_bound :: "(string, string) jsmap"
  as_lengths :: "string list"
  as_connections :: "string list"
  as_dropped :: nat

text \<open>The loop over the headers, which stops at the first refusal.\<close>

definition approve_header :: "string \<times> string \<Rightarrow> approval_scan \<Rightarrow> reject_reason + approval_scan" where
  "approve_header h s = (let name = to_lower (fst h) in
     case classifyHeader name of
       HBound \<Rightarrow>
         if map_of (as_bound s) name \<noteq> None then Inl a7_semantic_duplicate
         else (case canonicalValue (snd h) of
             None \<Rightarrow> Inl a7_semantic_value_invalid
           | Some value \<Rightarrow> Inr (s\<lparr>as_bound := AList.update name value (as_bound s)\<rparr>))
     | HDerived \<Rightarrow> Inr (s\<lparr>as_lengths := as_lengths s @ [trimOws (snd h)]\<rparr>)
     | HTransport \<Rightarrow> Inr (s\<lparr>as_connections := as_connections s @ [to_lower (trimOws (snd h))]\<rparr>)
     | HRefused \<Rightarrow> Inl a7_semantic_refused_header
     | HProof \<Rightarrow> Inl a7_semantic_refused_header
     | HSpoofable \<Rightarrow> Inl a7_semantic_refused_header
     | HMeasurement \<Rightarrow> Inl a7_semantic_refused_header
     | HIngressIndicator \<Rightarrow> Inr (s\<lparr>as_dropped := Suc (as_dropped s)\<rparr>)
     | HDropped \<Rightarrow> Inr (s\<lparr>as_dropped := Suc (as_dropped s)\<rparr>))"

fun approve_headers :: "(string \<times> string) list \<Rightarrow> approval_scan \<Rightarrow> reject_reason + approval_scan" where
  "approve_headers [] s = Inr s"
| "approve_headers (h # hs) s = (case approve_header h s of Inl e \<Rightarrow> Inl e | Inr s' \<Rightarrow> approve_headers hs s')"

definition sorted_pairs :: "(string, string) jsmap \<Rightarrow> (string \<times> string) list" where
  "sorted_pairs bound = sort_key fst bound"

text \<open>The body of the request: its length and digest, or a refusal.\<close>

definition approve_body ::
  "(bytes \<Rightarrow> string) \<Rightarrow> layer_request \<Rightarrow> (string, string) jsmap \<Rightarrow> string list \<Rightarrow> reject_reason + nat \<times> string" where
  "approve_body sha request bound lengths =
     (if lr_method request = ''POST'' then
        if map_of bound ''content-type'' \<noteq> Some FORM_CONTENT_TYPE then Inl a7_semantic_value_invalid
        else (case lr_body request of
            None \<Rightarrow> Inl a7_semantic_value_invalid
          | Some body \<Rightarrow>
              if lr_bodyStatus request \<noteq> BComplete \<or> length body > MAX_SEMANTIC_BODY then Inl a7_semantic_value_invalid
              else if length lengths \<noteq> 1 \<or> read_nat (lengths ! 0) \<noteq> length body then Inl a7_semantic_value_invalid
              else Inr (length body, sha body))
      else if map_of bound ''content-type'' \<noteq> None then Inl a7_semantic_value_invalid
      else if length lengths = 1 \<and> lengths ! 0 \<noteq> ''0'' then Inl a7_semantic_value_invalid
      else Inr (0, EMPTY_BODY_SHA256))"

definition buildApprovedRequest :: "(bytes \<Rightarrow> string) \<Rightarrow> layer_request \<Rightarrow> reject_reason + semantic_request \<times> nat" where
  "buildApprovedRequest sha request =
     (if lr_method request \<noteq> ''GET'' \<and> lr_method request \<noteq> ''POST'' then Inl a7_semantic_value_invalid
      else if \<not> is_semantic_target (lr_target request) then Inl a7_semantic_value_invalid
      else (case approve_headers (lr_headers request) \<lparr>as_bound = [], as_lengths = [], as_connections = [], as_dropped = 0\<rparr> of
          Inl e \<Rightarrow> Inl e
        | Inr s \<Rightarrow>
            if length (as_connections s) > 1
              \<or> (length (as_connections s) = 1 \<and> as_connections s ! 0 \<noteq> ''close'' \<and> as_connections s ! 0 \<noteq> ''keep-alive'')
            then Inl a7_semantic_refused_header
            else if length (as_lengths s) > 1 then Inl a7_semantic_duplicate
            else if length (as_lengths s) = 1 \<and> \<not> is_content_length (as_lengths s ! 0) then Inl a7_semantic_value_invalid
            else if map_of (as_bound s) ''host'' = None then Inl a7_semantic_value_invalid
            else (case approve_body sha request (as_bound s) (as_lengths s) of
                Inl e \<Rightarrow> Inl e
              | Inr (bodyLen, bodySha256) \<Rightarrow> Inr (\<lparr>sr_method = lr_method request, sr_target = lr_target request,
                  sr_pairs = sorted_pairs (as_bound s), sr_bodyLen = bodyLen, sr_bodySha256 = bodySha256\<rparr>, as_dropped s))))"

definition semanticWireHeaders :: "semantic_request \<Rightarrow> (string, string) jsmap" where
  "semanticWireHeaders request =
     (let headers = fold (\<lambda>(name, value) h. AList.update name value h) (sr_pairs request) [] in
      if sr_method request = ''POST'' then AList.update ''content-length'' (show_nat (sr_bodyLen request)) headers else headers)"

text \<open>The semantic gate: the verdict of the inner layer, refined by the approval.\<close>

definition refine_verdict :: "(bytes \<Rightarrow> string) \<Rightarrow> layer_request \<Rightarrow> layer_verdict \<Rightarrow> layer_verdict" where
  "refine_verdict sha request verdict = (case verdict of
     VReject r \<Rightarrow> VReject r
   | VPass \<Rightarrow> (case buildApprovedRequest sha request of Inr a \<Rightarrow> VPass | Inl reason \<Rightarrow> VReject reason))"

subsection \<open>The scan of a verifier\<close>

record hop_scan =
  hs_pb :: "string list"
  hs_ba :: "string list"
  hs_nonces :: "string list"
  hs_bound :: "(string, string) jsmap"
  hs_contentLengths :: "string list"
  hs_connections :: nat
  hs_duplicate :: bool
  hs_unbound :: bool
  hs_framing :: bool
  hs_value :: bool

definition empty_scan :: hop_scan where
  "empty_scan = \<lparr>hs_pb = [], hs_ba = [], hs_nonces = [], hs_bound = [], hs_contentLengths = [], hs_connections = 0,
     hs_duplicate = False, hs_unbound = False, hs_framing = False, hs_value = False\<rparr>"

definition is_measurement_tag :: "string \<Rightarrow> bool" where "is_measurement_tag = is_b64url_id 22"

definition scan_header :: "string \<times> string \<Rightarrow> hop_scan \<Rightarrow> hop_scan" where
  "scan_header h s = (let name = to_lower (fst h); raw = snd h in
     case classifyHeader name of
       HBound \<Rightarrow>
         if map_of (hs_bound s) name \<noteq> None then s\<lparr>hs_duplicate := True\<rparr>
         else (case canonicalValue raw of
             None \<Rightarrow> s\<lparr>hs_value := True\<rparr>
           | Some value \<Rightarrow> s\<lparr>hs_bound := AList.update name value (hs_bound s)\<rparr>)
     | HDerived \<Rightarrow> s\<lparr>hs_contentLengths := hs_contentLengths s @ [trimOws raw]\<rparr>
     | HTransport \<Rightarrow> (let value = to_lower (trimOws raw); connections = Suc (hs_connections s) in
         s\<lparr>hs_connections := connections,
           hs_framing := (hs_framing s \<or> connections > 1 \<or> (value \<noteq> ''close'' \<and> value \<noteq> ''keep-alive''))\<rparr>)
     | HMeasurement \<Rightarrow> s\<lparr>hs_nonces := hs_nonces s @ [raw]\<rparr>
     | HProof \<Rightarrow> if name = HOP_PB_HEADER then s\<lparr>hs_pb := hs_pb s @ [raw]\<rparr> else s\<lparr>hs_ba := hs_ba s @ [raw]\<rparr>
     | HRefused \<Rightarrow> s\<lparr>hs_unbound := True\<rparr>
     | HSpoofable \<Rightarrow> s\<lparr>hs_unbound := True\<rparr>
     | HIngressIndicator \<Rightarrow> s\<lparr>hs_unbound := True\<rparr>
     | HDropped \<Rightarrow> s\<lparr>hs_unbound := True\<rparr>)"

text \<open>The checks after the loop, and the one violation that is reported.\<close>

definition scan_checks :: "string \<Rightarrow> hop_scan \<Rightarrow> hop_scan" where
  "scan_checks m s = s\<lparr>
     hs_duplicate := (hs_duplicate s \<or> length (hs_nonces s) > 1),
     hs_value := (hs_value s \<or> (length (hs_nonces s) = 1 \<and> \<not> is_measurement_tag (hs_nonces s ! 0))),
     hs_framing := (hs_framing s \<or> length (hs_contentLengths s) > 1
       \<or> (length (hs_contentLengths s) = 1 \<and> \<not> is_content_length (hs_contentLengths s ! 0))
       \<or> (m = ''GET'' \<and> hs_contentLengths s \<noteq> []) \<or> (m = ''POST'' \<and> hs_contentLengths s = []))\<rparr>"

definition scanHopHeaders :: "string list \<Rightarrow> string \<Rightarrow> hop_scan" where
  "scanHopHeaders rawHeaders m = scan_checks m (fold scan_header (raw_pairs rawHeaders) empty_scan)"

definition scan_pairs :: "hop_scan \<Rightarrow> (string \<times> string) list" where
  "scan_pairs s = sorted_pairs (hs_bound s)"

definition scan_violation :: "hop_scan \<Rightarrow> ob_reason option" where
  "scan_violation s =
     (if hs_duplicate s then Some ob_header_duplicate else if hs_unbound s then Some ob_header_unbound
      else if hs_framing s then Some ob_framing_invalid else if hs_value s then Some ob_header_value_invalid else None)"

text \<open>The loop of \<^verbatim>\<open>readMeasurementTag\<close>, with the tag found so far.\<close>

fun measurement_loop :: "(string \<times> string) list \<Rightarrow> string option \<Rightarrow> string option" where
  "measurement_loop [] found = found"
| "measurement_loop (h # hs) found =
     (if to_lower (fst h) \<noteq> MEASUREMENT_HEADER then measurement_loop hs found
      else if found \<noteq> None \<or> \<not> is_measurement_tag (snd h) then None
      else measurement_loop hs (Some (snd h)))"

definition readMeasurementTag :: "string list \<Rightarrow> string option" where
  "readMeasurementTag rawHeaders = measurement_loop (raw_pairs rawHeaders) None"

definition samePairs :: "(string \<times> string) list \<Rightarrow> (string \<times> string) list \<Rightarrow> bool" where
  "samePairs a b \<longleftrightarrow> a = b"

subsection \<open>Canonical values\<close>

lemma visible_not_ows: "is_ascii_visible c \<Longrightarrow> \<not> (c = CHR '' '' \<or> c = CHR 0x09)"
  by (auto simp: is_ascii_visible_def in_range_def)

lemma trim_by_id:
  assumes "s \<noteq> []" "\<not> p (hd s)" "\<not> p (last s)"
  shows "trim_by p s = s"
proof -
  have "dropWhile p s = s" "dropWhile p (rev s) = rev s"
    using assms by (cases s; cases "rev s"; auto simp: hd_rev [symmetric] dest: arg_cong [of _ _ rev])+
  then show ?thesis by (simp add: trim_by_def)
qed

lemma canonicalValue_iff: "canonicalValue raw = Some v \<longleftrightarrow> v = trimOws raw \<and> length v \<le> MAX_SEMANTIC_VALUE \<and> is_semantic_value v"
  by (auto simp: canonicalValue_def Let_def split: if_splits)

lemma canonicalValue_idem: "canonicalValue raw = Some v \<Longrightarrow> canonicalValue v = Some v"
  using trim_by_id [of v "\<lambda>c. c = CHR '' '' \<or> c = CHR 0x09"] visible_not_ows
  by (fastforce simp: canonicalValue_iff trimOws_def is_semantic_value_def)

lemma bound_cases:
  assumes "n \<in> set BOUND_HEADER_NAMES"
  obtains "n = ''content-type''" | "n = ''host''" | "n = ''origin''"
  using assms by (auto simp: BOUND_HEADER_NAMES_def)

lemma bound_lower: "n \<in> set BOUND_HEADER_NAMES \<Longrightarrow> to_lower n = n"
  by (erule bound_cases) (simp_all add: to_lower_def to_lower_char_def Let_def)

lemma class_bound_iff: "classifyHeader n = HBound \<longleftrightarrow> n \<in> set BOUND_HEADER_NAMES"
  by (simp add: classifyHeader_def)

subsection \<open>Approved requests\<close>

text \<open>What the representation of an approved request satisfies.\<close>

definition semantic_ok :: "semantic_request \<Rightarrow> bool" where
  "semantic_ok r \<longleftrightarrow> (sr_method r = ''GET'' \<or> sr_method r = ''POST'') \<and> is_semantic_target (sr_target r)
     \<and> sorted_wrt (<) (map fst (sr_pairs r))
     \<and> list_all (\<lambda>(n, v). n \<in> set BOUND_HEADER_NAMES \<and> canonicalValue v = Some v) (sr_pairs r)
     \<and> map_of (sr_pairs r) ''host'' \<noteq> None
     \<and> map_of (sr_pairs r) ''content-type'' = (if sr_method r = ''POST'' then Some FORM_CONTENT_TYPE else None)
     \<and> sr_bodyLen r \<le> MAX_SEMANTIC_BODY \<and> (sr_method r = ''GET'' \<longrightarrow> sr_bodyLen r = 0 \<and> sr_bodySha256 r = EMPTY_BODY_SHA256)"

definition bound_ok :: "(string, string) jsmap \<Rightarrow> bool" where
  "bound_ok m \<longleftrightarrow> jsmap_ok m \<and> list_all (\<lambda>(n, v). n \<in> set BOUND_HEADER_NAMES \<and> canonicalValue v = Some v) m"

lemma bound_ok_update: "bound_ok m \<Longrightarrow> n \<in> set BOUND_HEADER_NAMES \<Longrightarrow> canonicalValue raw = Some v \<Longrightarrow> bound_ok (AList.update n v m)"
  using set_update_subset [of n v m] canonicalValue_idem [of raw v] by (auto simp: bound_ok_def list_all_iff)

lemma approve_header_bound: "approve_header h s = Inr s' \<Longrightarrow> bound_ok (as_bound s) \<Longrightarrow> bound_ok (as_bound s')"
  using class_bound_iff [of "to_lower (fst h)"]
  by (auto simp: approve_header_def Let_def bound_ok_update split: header_class.splits if_splits option.splits)

lemma approve_headers_bound: "approve_headers hs s = Inr s' \<Longrightarrow> bound_ok (as_bound s) \<Longrightarrow> bound_ok (as_bound s')"
  by (induction hs arbitrary: s) (auto split: sum.splits dest: approve_header_bound)

lemma map_of_sort_key: "distinct (map fst m) \<Longrightarrow> map_of (sort_key fst m) = map_of m"
  by (rule map_of_inject_set [THEN iffD2]) (simp_all add: distinct_map)

lemma sorted_pairs_ok:
  assumes "bound_ok m"
  shows "sorted_wrt (<) (map fst (sorted_pairs m))" "map_of (sorted_pairs m) = map_of m" "set (sorted_pairs m) = set m"
proof -
  have d: "distinct (map fst m)" using assms by (simp add: bound_ok_def jsmap_ok_def)
  have "distinct (map fst (sort_key fst m))" using d by (simp add: distinct_map)
  then show "sorted_wrt (<) (map fst (sorted_pairs m))" by (simp add: sorted_pairs_def strict_sorted_iff)
  show "map_of (sorted_pairs m) = map_of m" using d by (simp add: sorted_pairs_def map_of_sort_key)
  show "set (sorted_pairs m) = set m" by (simp add: sorted_pairs_def)
qed

lemma approve_body_ok:
  assumes "approve_body sha request m ls = Inr (n, d)" "lr_method request = ''GET'' \<or> lr_method request = ''POST''"
  shows "map_of m ''content-type'' = (if lr_method request = ''POST'' then Some FORM_CONTENT_TYPE else None)" "n \<le> MAX_SEMANTIC_BODY"
    "lr_method request = ''GET'' \<Longrightarrow> n = 0 \<and> d = EMPTY_BODY_SHA256"
    "lr_method request = ''POST'' \<Longrightarrow> \<exists>body. lr_body request = Some body \<and> n = length body \<and> d = sha body"
  using assms by (auto simp: approve_body_def split: if_splits option.splits)

lemma approved_ok:
  assumes "buildApprovedRequest sha request = Inr (r, n)"
  shows "semantic_ok r" "sr_method r = lr_method request" "sr_target r = lr_target request"
    "sr_method r = ''POST'' \<Longrightarrow> \<exists>body. lr_body request = Some body \<and> sr_bodyLen r = length body \<and> sr_bodySha256 r = sha body"
proof -
  obtain s bodyLen d where m: "lr_method request = ''GET'' \<or> lr_method request = ''POST''" "is_semantic_target (lr_target request)"
    and s: "approve_headers (lr_headers request) \<lparr>as_bound = [], as_lengths = [], as_connections = [], as_dropped = 0\<rparr> = Inr s"
    and h: "map_of (as_bound s) ''host'' \<noteq> None" and b: "approve_body sha request (as_bound s) (as_lengths s) = Inr (bodyLen, d)"
    and r: "r = \<lparr>sr_method = lr_method request, sr_target = lr_target request, sr_pairs = sorted_pairs (as_bound s), sr_bodyLen = bodyLen,
      sr_bodySha256 = d\<rparr>"
    using assms unfolding buildApprovedRequest_def by (auto split: if_splits sum.splits)
  have ok: "bound_ok (as_bound s)"
    using approve_headers_bound [OF s] by (simp add: bound_ok_def jsmap_ok_def)
  note p = sorted_pairs_ok [OF ok] and bb = approve_body_ok [OF b m(1)]
  have "list_all (\<lambda>(n, v). n \<in> set BOUND_HEADER_NAMES \<and> canonicalValue v = Some v) (sorted_pairs (as_bound s))"
    using ok p(3) by (simp add: bound_ok_def list_all_iff)
  then show "semantic_ok r" using m h p(1,2) bb(1-3) unfolding semantic_ok_def by (simp add: r)
  show "sr_method r = lr_method request" "sr_target r = lr_target request" by (simp_all add: r)
  show "\<exists>body. lr_body request = Some body \<and> sr_bodyLen r = length body \<and> sr_bodySha256 r = sha body" if "sr_method r = ''POST''"
    using bb(4) that by (simp add: r)
qed

subsection \<open>Decimal numbers\<close>

lemma digit_char: "n < 10 \<Longrightarrow> is_digit (digit_char n) \<and> digit_value (digit_char n) = n"
  by (simp add: digit_char_def is_digit_def in_range_def digit_value_def)

lemma show_nat_digits: "list_all is_digit (show_nat n) \<and> show_nat n \<noteq> []"
proof (induction n rule: show_nat.induct)
  case (1 n)
  then show ?case by (subst show_nat.simps) (simp add: digit_char show_nat.simps [of n])
qed

lemma read_show_nat: "read_nat (show_nat n) = n"
proof (induction n rule: show_nat.induct)
  case (1 n)
  show ?case
  proof (cases "n < 10")
    case True
    then show ?thesis by (subst show_nat.simps) (simp add: read_nat_def digit_char)
  next
    case False
    then have "read_nat (show_nat (n div 10)) = n div 10" using 1 by simp
    then show ?thesis using False by (subst show_nat.simps) (simp add: read_nat_def digit_char)
  qed
qed

lemma show_nat_length: "n < 10 ^ Suc k \<Longrightarrow> length (show_nat n) \<le> Suc k"
proof (induction k arbitrary: n)
  case 0
  then show ?case by (subst show_nat.simps) simp
next
  case (Suc k)
  then have "length (show_nat (n div 10)) \<le> Suc k" by simp
  then show ?case by (subst show_nat.simps) simp
qed

lemma show_nat_head: "0 < n \<Longrightarrow> hd (show_nat n) \<noteq> CHR ''0''"
proof (induction n rule: show_nat.induct)
  case (1 n)
  show ?case
  proof (cases "n < 10")
    case True
    have "(of_char (digit_char n) :: nat) \<noteq> 48" using True 1(2) by (simp add: digit_char_def)
    then have "digit_char n \<noteq> CHR ''0''" by auto
    then show ?thesis using True by (subst show_nat.simps) simp
  next
    case False
    then show ?thesis using 1 show_nat_digits [of "n div 10"] by (subst show_nat.simps) simp
  qed
qed

lemma content_length_show:
  assumes "n \<le> MAX_SEMANTIC_BODY"
  shows "is_content_length (show_nat n)" "trimOws (show_nat n) = show_nat n"
proof -
  obtain c cs where s: "show_nat n = c # cs" using show_nat_digits [of n] by (cases "show_nat n") auto
  have d: "is_digit c" "list_all is_digit cs" using show_nat_digits [of n] by (simp_all add: s)
  have l: "length (show_nat n) \<le> 5" using show_nat_length [of n 4] assms by (simp add: MAX_SEMANTIC_BODY_def)
  show "is_content_length (show_nat n)"
  proof (cases "n = 0")
    case True
    have "show_nat 0 = ''0''" by code_simp
    then show ?thesis using True by (simp add: is_content_length_def)
  next
    case False
    then have "c \<noteq> CHR ''0''" using show_nat_head [of n] s by simp
    moreover have "(of_char CHR ''0'' :: nat) = 48" by simp
    ultimately have "(of_char c :: nat) \<noteq> 48" by (metis of_char_eq_iff)
    then have "in_range 49 57 c" using d(1) by (auto simp: is_digit_def in_range_def)
    then show ?thesis using d l by (simp add: is_content_length_def s)
  qed
  have "last (show_nat n) \<in> set (show_nat n)" using show_nat_digits [of n] by simp
  then have "is_digit (hd (show_nat n))" "is_digit (last (show_nat n))" using show_nat_digits [of n] d by (auto simp: s list_all_iff)
  then show "trimOws (show_nat n) = show_nat n"
    unfolding trimOws_def using show_nat_digits [of n] by (intro trim_by_id) (auto simp: is_digit_def in_range_def)
qed

subsection \<open>The verifier sees what was approved\<close>

definition wire :: "(string \<times> string) list \<Rightarrow> string list" where
  "wire hs = concat (map (\<lambda>(n, v). [n, v]) hs)"

lemma raw_pairs_wire [simp]: "raw_pairs (wire hs) = hs"
  by (induction hs) (auto simp: wire_def)

lemma bound_header: "n \<in> set BOUND_HEADER_NAMES \<Longrightarrow> map_of (hs_bound s) n = None \<Longrightarrow> canonicalValue v = Some v \<Longrightarrow>
    scan_header (n, v) s = s\<lparr>hs_bound := hs_bound s @ [(n, v)]\<rparr>"
  by (simp add: scan_header_def Let_def bound_lower class_bound_iff [THEN iffD2] update_new_append)

lemma scan_bound:
  "distinct (map fst ps) \<Longrightarrow> \<forall>p \<in> set ps. map_of (hs_bound s) (fst p) = None \<Longrightarrow>
    list_all (\<lambda>(n, v). n \<in> set BOUND_HEADER_NAMES \<and> canonicalValue v = Some v) ps \<Longrightarrow>
    fold scan_header ps s = s\<lparr>hs_bound := hs_bound s @ ps\<rparr>"
proof (induction ps arbitrary: s)
  case Nil
  then show ?case by simp
next
  case (Cons p ps)
  obtain n v where p: "p = (n, v)" by (cases p)
  have h: "scan_header (n, v) s = s\<lparr>hs_bound := hs_bound s @ [(n, v)]\<rparr>" using Cons.prems by (intro bound_header) (simp_all add: p)
  have "\<forall>q \<in> set ps. map_of (hs_bound (s\<lparr>hs_bound := hs_bound s @ [(n, v)]\<rparr>)) (fst q) = None"
    using Cons.prems(1,2) by (auto simp: p map_of_eq_None_iff)
  then show ?case using Cons.IH [of "s\<lparr>hs_bound := hs_bound s @ [(n, v)]\<rparr>"] Cons.prems(1,3) by (simp add: p h)
qed

lemma semanticWireHeaders_eq:
  assumes "semantic_ok r"
  shows "semanticWireHeaders r = sr_pairs r @ (if sr_method r = ''POST'' then [(''content-length'', show_nat (sr_bodyLen r))] else [])"
proof -
  have d: "distinct (map fst (sr_pairs r))" using assms by (simp add: semantic_ok_def strict_sorted_iff)
  have n: "\<forall>p \<in> set (sr_pairs r). fst p \<in> set BOUND_HEADER_NAMES" using assms by (auto simp: semantic_ok_def list_all_iff)
  have "fold (\<lambda>(k, v). AList.update k v) ps m = m @ ps"
    if "distinct (map fst ps)" "\<forall>p \<in> set ps. map_of m (fst p) = None" for ps :: "(string \<times> string) list" and m
    using that
  proof (induction ps arbitrary: m)
    case (Cons p ps)
    then have "\<forall>q \<in> set ps. map_of (m @ [p]) (fst q) = None" by (cases p) (auto simp: map_of_eq_None_iff)
    with Cons show ?case by (cases p) (simp add: update_new_append)
  qed simp
  from this [OF d, of "[]"] have f: "fold (\<lambda>(k, v) h. AList.update k v h) (sr_pairs r) [] = sr_pairs r" by simp
  have "map_of (sr_pairs r) ''content-length'' = None"
    using n by (auto simp: map_of_eq_None_iff BOUND_HEADER_NAMES_def)
  then show ?thesis by (simp add: semanticWireHeaders_def Let_def f update_new_append)
qed

lemma header_classes:
  "classifyHeader (to_lower ''content-length'') = HDerived" "classifyHeader (to_lower HOP_PB_HEADER) = HProof"
  "classifyHeader (to_lower HOP_BA_HEADER) = HProof" "classifyHeader (to_lower ''connection'') = HTransport"
  "to_lower HOP_PB_HEADER = HOP_PB_HEADER" "to_lower HOP_BA_HEADER = HOP_BA_HEADER" "HOP_BA_HEADER \<noteq> HOP_PB_HEADER"
  by (simp_all add: classifyHeader_def BOUND_HEADER_NAMES_def HOP_PB_HEADER_def HOP_BA_HEADER_def MEASUREMENT_HEADER_def
      to_lower_def to_lower_char_def Let_def)

text \<open>The headers a hop sends: the bound pairs, the length of a body, the proofs, and the connection header of the transport.\<close>

definition sent_headers :: "semantic_request \<Rightarrow> (string \<times> string) list \<Rightarrow> (string \<times> string) list \<Rightarrow> string list" where
  "sent_headers r proofs transport = wire (semanticWireHeaders r @ proofs @ transport)"

definition transport_ok :: "(string \<times> string) list \<Rightarrow> bool" where
  "transport_ok t \<longleftrightarrow> t = [] \<or> t = [(''connection'', ''close'')] \<or> t = [(''connection'', ''keep-alive'')]"

definition proofs_ok :: "(string \<times> string) list \<Rightarrow> bool" where
  "proofs_ok ps \<longleftrightarrow> list_all (\<lambda>p. fst p = HOP_PB_HEADER \<or> fst p = HOP_BA_HEADER) ps"

lemma scan_proofs:
  "proofs_ok ps \<Longrightarrow> fold scan_header ps s = s\<lparr>hs_pb := hs_pb s @ map snd (filter (\<lambda>p. fst p = HOP_PB_HEADER) ps),
     hs_ba := hs_ba s @ map snd (filter (\<lambda>p. fst p = HOP_BA_HEADER) ps)\<rparr>"
proof (induction ps arbitrary: s)
  case Nil
  then show ?case by simp
next
  case (Cons p ps)
  then show ?case
    using header_classes by (cases p) (auto simp: proofs_ok_def scan_header_def Let_def)
qed

lemma sent_scan:
  assumes "semantic_ok r" "proofs_ok proofs" "transport_ok transport"
  defines "s \<equiv> scanHopHeaders (sent_headers r proofs transport) (sr_method r)"
  shows "scan_violation s = None" "scan_pairs s = sr_pairs r" "hs_nonces s = []"
    "hs_pb s = map snd (filter (\<lambda>p. fst p = HOP_PB_HEADER) proofs)" "hs_ba s = map snd (filter (\<lambda>p. fst p = HOP_BA_HEADER) proofs)"
    "sr_method r = ''POST'' \<Longrightarrow> read_nat (hs_contentLengths s ! 0) = sr_bodyLen r"
proof -
  let ?len = "if sr_method r = ''POST'' then [(''content-length'', show_nat (sr_bodyLen r))] else []"
  let ?lens = "if sr_method r = ''POST'' then [show_nat (sr_bodyLen r)] else []"
  have ok: "list_all (\<lambda>(n, v). n \<in> set BOUND_HEADER_NAMES \<and> canonicalValue v = Some v) (sr_pairs r)" "sorted_wrt (<) (map fst (sr_pairs r))"
    "sr_method r = ''GET'' \<or> sr_method r = ''POST''" "sr_bodyLen r \<le> MAX_SEMANTIC_BODY"
    using assms(1) by (auto simp: semantic_ok_def)
  have d: "distinct (map fst (sr_pairs r))" using ok(2) by (simp add: strict_sorted_iff)
  note cl = content_length_show [OF ok(4)]
  have f1: "fold scan_header (sr_pairs r) empty_scan = empty_scan\<lparr>hs_bound := sr_pairs r\<rparr>"
    using scan_bound [OF d, of empty_scan] ok(1) by (simp add: empty_scan_def)
  have f2: "fold scan_header ?len (empty_scan\<lparr>hs_bound := sr_pairs r\<rparr>) = empty_scan\<lparr>hs_bound := sr_pairs r, hs_contentLengths := ?lens\<rparr>"
    using header_classes cl by (simp add: scan_header_def Let_def empty_scan_def)
  have f3: "fold scan_header transport t = t\<lparr>hs_connections := hs_connections t + length transport\<rparr>"
    if "hs_connections t = 0" "\<not> hs_framing t" for t
    using assms(3) that header_classes
    by (auto simp: transport_ok_def scan_header_def Let_def trimOws_def trim_by_def to_lower_def to_lower_char_def)
  have s: "s = scan_checks (sr_method r) (empty_scan\<lparr>hs_bound := sr_pairs r, hs_contentLengths := ?lens,
      hs_pb := map snd (filter (\<lambda>p. fst p = HOP_PB_HEADER) proofs), hs_ba := map snd (filter (\<lambda>p. fst p = HOP_BA_HEADER) proofs),
      hs_connections := length transport\<rparr>)"
    unfolding s_def scanHopHeaders_def sent_headers_def raw_pairs_wire semanticWireHeaders_eq [OF assms(1)] fold_append comp_def f1 f2
      scan_proofs [OF assms(2)] by (subst f3) (simp_all add: empty_scan_def)
  have "sorted_pairs (sr_pairs r) = sr_pairs r"
    unfolding sorted_pairs_def using ok(2) by (simp add: strict_sorted_iff sort_key_id_if_sorted)
  then show "scan_pairs s = sr_pairs r" by (simp add: s scan_pairs_def scan_checks_def)
  show "scan_violation s = None" "hs_nonces s = []" "hs_pb s = map snd (filter (\<lambda>p. fst p = HOP_PB_HEADER) proofs)"
    "hs_ba s = map snd (filter (\<lambda>p. fst p = HOP_BA_HEADER) proofs)"
    using ok(3) cl by (auto simp: s scan_checks_def scan_violation_def empty_scan_def)
  show "read_nat (hs_contentLengths s ! 0) = sr_bodyLen r" if "sr_method r = ''POST''"
    using that by (simp add: s scan_checks_def read_show_nat)
qed

end
