(* ===== verification/Shape_Gate.thy ===== *)
theory Shape_Gate
  imports Semantic_Request
begin

text \<open>
  The first layer (\<^verbatim>\<open>defense/layers/a7-shape-gate.ts\<close>): the checks of \<^verbatim>\<open>evaluate\<close> in their order, the form grammar
  \<^verbatim>\<open>parseForm\<close>, and the two counters.

  A text decoded from UTF-8 is a list of code points; \<open>utf8_decode\<close> is the fatal decoder of the WHATWG standard, and the plain
  \<^verbatim>\<open>new TextDecoder().decode\<close>, which is only applied after the fatal one succeeded, removes a byte order mark first (\<open>decode_text\<close>).

  The lemmas say what each check and the form grammar accept; the theorem, that a request the layer passes has a reviewed route and framing, and
  that its body was parsed only after it was known to be complete and within the bound, to a reviewed form.
\<close>

subsection \<open>UTF-8\<close>

definition cont :: "char \<Rightarrow> nat option" where
  "cont c = (let n = (of_char c :: nat) in if 128 \<le> n \<and> n \<le> 191 then Some (n - 128) else None)"

definition second_in :: "nat \<Rightarrow> nat \<Rightarrow> char \<Rightarrow> nat option" where
  "second_in lo hi c = (let n = (of_char c :: nat) in if lo \<le> n \<and> n \<le> hi then Some (n - 128) else None)"

fun utf8_decode :: "bytes \<Rightarrow> nat list option" where
  "utf8_decode [] = Some []"
| "utf8_decode (a # s) =
     (let n = (of_char a :: nat) in
      if n < 128 then map_option ((#) n) (utf8_decode s)
      else if 194 \<le> n \<and> n \<le> 223 then (case s of
          b # s1 \<Rightarrow> (case cont b of
              Some x \<Rightarrow> map_option ((#) ((n - 192) * 64 + x)) (utf8_decode s1)
            | None \<Rightarrow> None)
        | [] \<Rightarrow> None)
      else if 224 \<le> n \<and> n \<le> 239 then (case s of
          b # c # s2 \<Rightarrow> (case (second_in (if n = 224 then 160 else 128) (if n = 237 then 159 else 191) b, cont c) of
              (Some x, Some y) \<Rightarrow> map_option ((#) ((n - 224) * 4096 + x * 64 + y)) (utf8_decode s2)
            | _ \<Rightarrow> None)
        | _ \<Rightarrow> None)
      else if 240 \<le> n \<and> n \<le> 244 then (case s of
          b # c # d # s3 \<Rightarrow> (case (second_in (if n = 240 then 144 else 128) (if n = 244 then 143 else 191) b, cont c, cont d) of
              (Some x, Some y, Some z) \<Rightarrow> map_option ((#) ((n - 240) * 262144 + x * 4096 + y * 64 + z)) (utf8_decode s3)
            | _ \<Rightarrow> None)
        | _ \<Rightarrow> None)
      else None)"

definition utf8Fatal :: "bytes \<Rightarrow> bool" where
  "utf8Fatal b \<longleftrightarrow> utf8_decode b \<noteq> None"

definition decode_text :: "bytes \<Rightarrow> nat list" where
  "decode_text b = (case utf8_decode b of
     None \<Rightarrow> []
   | Some t \<Rightarrow> if t \<noteq> [] \<and> hd t = 65279 then tl t else t)"

definition code_points :: "string \<Rightarrow> nat list" where
  "code_points s = map of_char s"

subsection \<open>Form grammar\<close>

definition hex_digit_value :: "char \<Rightarrow> nat" where
  "hex_digit_value c = (let n = (of_char c :: nat) in if n \<le> 57 then n - 48 else if n \<le> 70 then n - 55 else n - 87)"

fun decodeComponent :: "string \<Rightarrow> bytes option" where
  "decodeComponent [] = Some []"
| "decodeComponent (c # s) =
     (if c = CHR ''%'' then (case s of
          a # b # r \<Rightarrow>
            if is_hex a \<and> is_hex b
            then map_option ((#) (char_of (hex_digit_value a * 16 + hex_digit_value b))) (decodeComponent r)
            else None
        | _ \<Rightarrow> None)
      else map_option ((#) (if c = CHR ''+'' then CHR '' '' else c)) (decodeComponent s))"

definition ALLOWED_FORM_FIELDS :: "string list" where
  "ALLOWED_FORM_FIELDS = [''name'', ''email'', ''company'', ''service'', ''system'', ''objective'', ''environment'', ''authority'',
     ''protection'', ''provider'', ''notes'', ''submissionToken'', ''cf-turnstile-response'']"

definition is_body_char :: "char \<Rightarrow> bool" where
  "is_body_char c \<longleftrightarrow> is_alnum c \<or> c \<in> set ''-._~*+%=&''"

text \<open>\<^verbatim>\<open>/^[A-Za-z0-9_-]{43}$/\<close> on a decoded text.\<close>

definition is_token_points :: "nat list \<Rightarrow> bool" where
  "is_token_points t \<longleftrightarrow> length t = 43 \<and> list_all (\<lambda>n. n < 256 \<and> is_b64url_char (char_of n)) t"

text \<open>One pair of the form, with the names seen so far: the names after it, or the reason of the refusal.\<close>

definition form_pair :: "string \<Rightarrow> nat list list \<Rightarrow> reject_reason + nat list list" where
  "form_pair pair names = (case index_of (CHR ''='') pair of
     None \<Rightarrow> Inl a7_form_grammar_invalid
   | Some 0 \<Rightarrow> Inl a7_form_grammar_invalid
   | Some separator \<Rightarrow> (let rawName = take separator pair; rawValue = drop (Suc separator) pair in
       if length rawName > maxFieldNameBytes * 3 then Inl a7_form_field_not_allowed
       else if length rawValue > maxFieldEncodedBytes then Inl a7_form_field_too_long
       else (case (decodeComponent rawName, decodeComponent rawValue) of
           (Some nameBytes, Some valueBytes) \<Rightarrow>
             if \<not> utf8Fatal nameBytes \<or> \<not> utf8Fatal valueBytes then Inl a7_body_encoding_invalid
             else let name = decode_text nameBytes in
               if name \<notin> set (map code_points ALLOWED_FORM_FIELDS) then Inl a7_form_field_not_allowed
               else if name \<in> set names then Inl a7_form_field_duplicate
               else if name = code_points ''submissionToken'' \<and> \<not> is_token_points (decode_text valueBytes)
               then Inl a7_form_token_malformed
               else Inr (name # names)
         | _ \<Rightarrow> Inl a7_body_encoding_invalid)))"

fun form_pairs :: "string list \<Rightarrow> nat list list \<Rightarrow> layer_verdict" where
  "form_pairs [] names = VPass"
| "form_pairs (p # ps) names = (case form_pair p names of Inl e \<Rightarrow> VReject e | Inr names' \<Rightarrow> form_pairs ps names')"

definition parseForm :: "bytes \<Rightarrow> layer_verdict" where
  "parseForm body =
     (if \<not> list_all is_body_char body then VReject a7_body_encoding_invalid
      else if body = [] then VPass
      else if length (filter (\<lambda>c. c = CHR ''&'') body) + 1 > maxFormFields then VReject a7_form_field_count_exceeded
      else form_pairs (split_on (CHR ''&'') body) [])"

subsection \<open>The checks before the grammar\<close>

definition ROUTES :: "(string \<times> string list) list" where
  "ROUTES = [(''/'', [''GET'']), (''/gizlilik'', [''GET'']), (''/test-talep-et'', [''GET'']), (''/test-talep-et/tesekkurler'', [''GET'']),
     (''/api/public-inquiries'', [''POST''])]"

definition SERVICE_VALUES :: "string list" where "SERVICE_VALUES = [''web'', ''network'', ''protection'', ''unsure'']"

definition is_token_char :: "char \<Rightarrow> bool" where
  "is_token_char c \<longleftrightarrow> is_digit c \<or> is_lower c \<or> c \<in> set (CHR 0x27 # ''!#$%&*+.^_`|~-'')"

definition is_header_name :: "string \<Rightarrow> bool" where
  "is_header_name s \<longleftrightarrow> 1 \<le> length s \<and> length s \<le> 64 \<and> list_all is_token_char s"

definition is_header_value :: "string \<Rightarrow> bool" where
  "is_header_value s \<longleftrightarrow> list_all (\<lambda>c. c = CHR 0x09 \<or> is_ascii_printable c) s"

text \<open>\<^verbatim>\<open>/^(?:[A-Za-z0-9.-]{1,253}|\[[0-9A-Fa-f:]{2,45}\])(?::[0-9]{1,5})?$/\<close>: the host, and what follows it.\<close>

definition is_host_name :: "string \<Rightarrow> bool" where
  "is_host_name s \<longleftrightarrow> 1 \<le> length s \<and> length s \<le> 253 \<and> list_all (\<lambda>c. is_alnum c \<or> c = CHR ''.'' \<or> c = CHR ''-'') s"

definition is_host_literal :: "string \<Rightarrow> bool" where
  "is_host_literal s \<longleftrightarrow> (case s of [] \<Rightarrow> False | c # r \<Rightarrow> c = CHR ''['' \<and> r \<noteq> [] \<and> last r = CHR '']''
     \<and> 2 \<le> length (butlast r) \<and> length (butlast r) \<le> 45 \<and> list_all (\<lambda>d. is_hex d \<or> d = CHR '':'') (butlast r))"

definition is_host_port :: "string \<Rightarrow> bool" where
  "is_host_port s \<longleftrightarrow> s = [] \<or> (hd s = CHR '':'' \<and> 1 \<le> length (tl s) \<and> length (tl s) \<le> 5 \<and> list_all is_digit (tl s))"

definition is_host_value :: "string \<Rightarrow> bool" where
  "is_host_value s \<longleftrightarrow> list_ex (\<lambda>i. (is_host_name (take i s) \<or> is_host_literal (take i s)) \<and> is_host_port (drop i s)) [0 ..< Suc (length s)]"

definition named :: "layer_request \<Rightarrow> string \<Rightarrow> string list" where
  "named request wanted = map snd (filter (\<lambda>h. to_lower (fst h) = wanted) (lr_headers request))"

definition target_path :: "string \<Rightarrow> string" where
  "target_path target = (case index_of (CHR ''?'') target of None \<Rightarrow> target | Some i \<Rightarrow> take i target)"

definition target_query :: "string \<Rightarrow> string option" where
  "target_query target = map_option (\<lambda>i. drop (Suc i) target) (index_of (CHR ''?'') target)"

definition target_check :: "string \<Rightarrow> string \<Rightarrow> reject_reason option" where
  "target_check m target =
     (if length target > maxTargetBytes then Some a7_target_too_long
      else if target = [] \<or> \<not> list_all is_ascii_visible target \<or> hd target \<noteq> CHR ''/'' \<or> starts_with ''//'' target
        \<or> CHR 0x5C \<in> set target \<or> CHR ''#'' \<in> set target \<or> CHR ''%'' \<in> set target
      then Some a7_target_malformed
      else let path = target_path target in
        if list_ex (\<lambda>segment. segment = ''.'' \<or> segment = ''..'') (split_on (CHR ''/'') path) then Some a7_target_malformed
        else (case map_of ROUTES path of
            None \<Rightarrow> Some a7_path_not_allowed
          | Some methods \<Rightarrow>
              if m \<notin> set methods then Some a7_method_not_allowed
              else (case target_query target of
                  None \<Rightarrow> None
                | Some query \<Rightarrow>
                    if path = ''/test-talep-et'' \<and> length query \<le> maxQueryBytes \<and> starts_with ''hizmet='' query
                      \<and> drop (length ''hizmet='') query \<in> set SERVICE_VALUES
                    then None else Some a7_query_not_allowed)))"

text \<open>The first offending header, as the loop finds it.\<close>

fun header_loop :: "(string \<times> string) list \<Rightarrow> reject_reason option" where
  "header_loop [] = None"
| "header_loop (h # hs) =
     (if \<not> is_header_name (to_lower (fst h)) then Some a7_header_name_invalid
      else if \<not> is_header_value (snd h) then Some a7_header_value_invalid
      else header_loop hs)"

definition headers_check :: "layer_request \<Rightarrow> reject_reason option" where
  "headers_check request =
     (if length (lr_headers request) > maxHeaderCount then Some a7_header_count_exceeded
      else if sum_list (map (\<lambda>(name, value). length name + length value + 4) (lr_headers request)) > maxHeaderBytes
      then Some a7_header_bytes_exceeded
      else (case header_loop (lr_headers request) of
          Some e \<Rightarrow> Some e
        | None \<Rightarrow>
            if length (named request ''host'') \<noteq> 1 \<or> \<not> is_host_value (named request ''host'' ! 0)
            then Some a7_host_header_invalid else None))"

text \<open>The framing: the declared length, or the refusal.\<close>

definition framing_check :: "layer_request \<Rightarrow> reject_reason + nat option" where
  "framing_check request =
     (let lengths = named request ''content-length'' in
      if named request ''transfer-encoding'' \<noteq> [] \<or> length lengths > 1 then Inl a7_framing_invalid
      else if length lengths = 1 \<and> \<not> is_content_length (lengths ! 0) then Inl a7_framing_invalid
      else Inr (if length lengths = 1 then Some (read_nat (lengths ! 0)) else None))"

text \<open>The body of a POST with a declared length: the refusal, or the body to parse.\<close>

definition body_check :: "layer_request \<Rightarrow> nat \<Rightarrow> reject_reason + bytes" where
  "body_check request declared =
     (let contentTypes = named request ''content-type'' in
      if length contentTypes \<noteq> 1 \<or> contentTypes ! 0 \<noteq> FORM_CONTENT_TYPE then Inl a7_content_type_invalid
      else if declared > maxBodyBytes \<or> lr_bodyStatus request = BDeclaredOversize \<or> lr_bodyStatus request = BOverflow
      then Inl Defense_Types.a7_body_too_large
      else if lr_bodyStatus request = BTimeout then Inl a7_body_read_timeout
      else if lr_bodyStatus request = BAborted then Inl a7_body_incomplete
      else if lr_bodyStatus request \<noteq> BComplete then Inl a7_body_incomplete
      else (case lr_body request of
          None \<Rightarrow> Inl a7_body_incomplete
        | Some body \<Rightarrow> if length body \<noteq> declared then Inl a7_body_incomplete else Inr body))"

datatype shape_result = Decided layer_verdict | ToParse bytes

definition shape_checks :: "layer_request \<Rightarrow> shape_result" where
  "shape_checks request =
     (if lr_method request \<noteq> ''GET'' \<and> lr_method request \<noteq> ''POST'' then Decided (VReject a7_method_not_allowed)
      else (case target_check (lr_method request) (lr_target request) of
          Some e \<Rightarrow> Decided (VReject e)
        | None \<Rightarrow> (case headers_check request of
            Some e \<Rightarrow> Decided (VReject e)
          | None \<Rightarrow> (case framing_check request of
              Inl e \<Rightarrow> Decided (VReject e)
            | Inr declared \<Rightarrow>
                if lr_method request = ''GET'' then
                  (if declared \<noteq> None \<and> declared \<noteq> Some 0 then Decided (VReject a7_framing_invalid) else Decided VPass)
                else (case declared of
                    None \<Rightarrow> Decided (VReject a7_framing_invalid)
                  | Some n \<Rightarrow> (case body_check request n of
                      Inl e \<Rightarrow> Decided (VReject e)
                    | Inr body \<Rightarrow> ToParse body))))))"

record shape_gate =
  sg_evaluated :: nat
  sg_grammarParses :: nat

definition shape_evaluate :: "layer_request \<Rightarrow> shape_gate \<Rightarrow> layer_verdict \<times> shape_gate" where
  "shape_evaluate request g =
     (let g1 = g\<lparr>sg_evaluated := Suc (sg_evaluated g)\<rparr> in
      case shape_checks request of
        Decided v \<Rightarrow> (v, g1)
      | ToParse body \<Rightarrow> (parseForm body, g1\<lparr>sg_grammarParses := Suc (sg_grammarParses g1)\<rparr>))"

text \<open>The semantic gate around the shape gate: one verdict of the first layer.\<close>

definition gate_evaluate :: "(bytes \<Rightarrow> string) \<Rightarrow> layer_request \<Rightarrow> shape_gate \<Rightarrow> layer_verdict \<times> shape_gate" where
  "gate_evaluate sha request g = (case shape_evaluate request g of (v, g') \<Rightarrow> (refine_verdict sha request v, g'))"

subsection \<open>What the form grammar accepts\<close>

text \<open>The name of a pair, as the grammar reads it.\<close>

definition pair_name :: "string \<Rightarrow> nat list option" where
  "pair_name pair = (case index_of (CHR ''='') pair of
     None \<Rightarrow> None
   | Some i \<Rightarrow> map_option decode_text (decodeComponent (take i pair)))"

lemma form_pair_Inr:
  assumes "form_pair pair names = Inr names'"
  obtains name where "names' = name # names" "pair_name pair = Some name" "name \<in> set (map code_points ALLOWED_FORM_FIELDS)" "name \<notin> set names"
  using assms by (auto simp: form_pair_def pair_name_def Let_def split: option.splits nat.splits if_splits)

lemma form_pairs_VPass:
  "form_pairs ps names = VPass \<Longrightarrow> \<exists>new. map pair_name ps = map Some new \<and> distinct new \<and> set new \<inter> set names = {}
     \<and> set new \<subseteq> set (map code_points ALLOWED_FORM_FIELDS)"
proof (induction ps arbitrary: names)
  case Nil
  then show ?case by (intro exI [of _ "[]"]) simp
next
  case (Cons p ps)
  then obtain names' where n: "form_pair p names = Inr names'" "form_pairs ps names' = VPass" by (auto split: sum.splits)
  obtain name where name: "names' = name # names" "pair_name p = Some name" "name \<in> set (map code_points ALLOWED_FORM_FIELDS)" "name \<notin> set names"
    using form_pair_Inr [OF n(1)] by metis
  obtain new where new: "map pair_name ps = map Some new" "distinct new" "set new \<inter> set names' = {}"
    "set new \<subseteq> set (map code_points ALLOWED_FORM_FIELDS)"
    using Cons.IH [OF n(2)] by blast
  with name show ?case by (intro exI [of _ "name # new"]) auto
qed

lemma split_on_length: "length (split_on c s) = Suc (length (filter (\<lambda>d. d = c) s))"
  by (induction s) (auto split: list.splits)

definition reviewed_form :: "bytes \<Rightarrow> bool" where
  "reviewed_form body \<longleftrightarrow> list_all is_body_char body \<and> (body = [] \<or> (\<exists>names. map pair_name (split_on (CHR ''&'') body) = map Some names
     \<and> distinct names \<and> set names \<subseteq> set (map code_points ALLOWED_FORM_FIELDS) \<and> length names \<le> maxFormFields))"

lemma parseForm_VPass: "parseForm body = VPass \<Longrightarrow> reviewed_form body"
proof -
  assume f: "parseForm body = VPass"
  have c: "list_all is_body_char body" using f by (simp add: parseForm_def split: if_splits)
  show "reviewed_form body"
  proof (cases "body = []")
    case False
    then have p: "form_pairs (split_on (CHR ''&'') body) [] = VPass" "length (split_on (CHR ''&'') body) \<le> maxFormFields"
      using f by (auto simp: parseForm_def split_on_length split: if_splits)
    obtain names where n: "map pair_name (split_on (CHR ''&'') body) = map Some names" "distinct names"
      "set names \<subseteq> set (map code_points ALLOWED_FORM_FIELDS)" using form_pairs_VPass [OF p(1)] by blast
    then have "length names \<le> maxFormFields" using p(2) by (metis length_map)
    with n c show ?thesis by (auto simp: reviewed_form_def)
  qed (simp add: reviewed_form_def c)
qed

subsection \<open>What the layer passes\<close>

lemma target_check_None:
  "target_check m target = None \<Longrightarrow> length target \<le> maxTargetBytes \<and> (\<exists>methods. map_of ROUTES (target_path target) = Some methods \<and> m \<in> set methods)"
  by (auto simp: target_check_def Let_def split: if_splits option.splits)

lemma headers_check_None: "headers_check request = None \<Longrightarrow> length (lr_headers request) \<le> maxHeaderCount \<and> length (named request ''host'') = 1"
  by (auto simp: headers_check_def split: if_splits option.splits)

lemma framing_check_Inr:
  "framing_check request = Inr declared \<Longrightarrow> named request ''transfer-encoding'' = []
     \<and> (declared = None \<longrightarrow> named request ''content-length'' = [])
     \<and> (\<forall>n. declared = Some n \<longrightarrow> (\<exists>v. named request ''content-length'' = [v] \<and> is_content_length v \<and> read_nat v = n))"
  by (cases "named request ''content-length''") (auto simp: framing_check_def Let_def split: if_splits)

lemma body_check_Inr:
  "body_check request n = Inr body \<Longrightarrow> named request ''content-type'' = [FORM_CONTENT_TYPE] \<and> lr_bodyStatus request = BComplete
     \<and> lr_body request = Some body \<and> length body = n \<and> n \<le> maxBodyBytes"
  by (cases "named request ''content-type''") (auto simp: body_check_def Let_def split: if_splits option.splits)

lemma shape_checks_passed:
  assumes "shape_checks request = Decided VPass \<or> shape_checks request = ToParse body"
  shows "target_check (lr_method request) (lr_target request) = None" "headers_check request = None"
    "\<exists>declared. framing_check request = Inr declared \<and> (case shape_checks request of
       Decided v \<Rightarrow> lr_method request = ''GET'' \<and> (declared = None \<or> declared = Some 0)
     | ToParse b \<Rightarrow> lr_method request = ''POST'' \<and> (\<exists>n. declared = Some n \<and> body_check request n = Inr b))"
  using assms by (auto simp: shape_checks_def split: if_splits option.splits sum.splits)

text \<open>C36. What the first layer passes is reviewed. A request it passes has a target in the closed route table, with a method the route allows, one host header and no
  transfer encoding. A POST it passes was read completely, to exactly its one declared length and within the bound, and its body is
  a form of allowed field names, none of them twice and no more than the bound. A GET has no body.\<close>

theorem passed_request_is_reviewed:
  assumes "fst (shape_evaluate request g) = VPass"
  shows "length (lr_target request) \<le> maxTargetBytes
    \<and> (\<exists>methods. map_of ROUTES (target_path (lr_target request)) = Some methods \<and> lr_method request \<in> set methods)
    \<and> length (named request ''host'') = 1 \<and> named request ''transfer-encoding'' = []
    \<and> (lr_method request = ''GET'' \<and> list_all (\<lambda>v. read_nat v = 0) (named request ''content-length'')
       \<or> lr_method request = ''POST'' \<and> (\<exists>body v. lr_bodyStatus request = BComplete \<and> lr_body request = Some body
           \<and> named request ''content-length'' = [v] \<and> read_nat v = length body \<and> length body \<le> maxBodyBytes
           \<and> named request ''content-type'' = [FORM_CONTENT_TYPE] \<and> reviewed_form body))"
proof (cases "shape_checks request")
  case (Decided v)
  then have d: "shape_checks request = Decided VPass" using assms by (simp add: shape_evaluate_def Let_def)
  obtain declared where f: "framing_check request = Inr declared" "lr_method request = ''GET''" "declared = None \<or> declared = Some 0"
    using shape_checks_passed(3) [of request] d by auto
  have "list_all (\<lambda>v. read_nat v = 0) (named request ''content-length'')" using f(3) framing_check_Inr [OF f(1)] by auto
  moreover have "target_check (lr_method request) (lr_target request) = None" "headers_check request = None"
    using shape_checks_passed(1,2) [of request] d by simp_all
  ultimately show ?thesis
    using target_check_None [of "lr_method request" "lr_target request"] headers_check_None [of request] framing_check_Inr [OF f(1)] f(2) by simp
next
  case (ToParse body)
  then have p: "parseForm body = VPass" using assms by (simp add: shape_evaluate_def Let_def)
  obtain n where f: "framing_check request = Inr (Some n)" "lr_method request = ''POST''" "body_check request n = Inr body"
    using shape_checks_passed(3) [of request body] ToParse by auto
  obtain v where v: "named request ''content-length'' = [v]" "read_nat v = n" using framing_check_Inr [OF f(1)] by blast
  note b = body_check_Inr [OF f(3)]
  have "target_check (lr_method request) (lr_target request) = None" "headers_check request = None"
    using shape_checks_passed(1,2) [of request body] ToParse by simp_all
  then show ?thesis
    using target_check_None [of "lr_method request" "lr_target request"] headers_check_None [of request] framing_check_Inr [OF f(1)] f(2) v b
      parseForm_VPass [OF p] by simp
qed

definition sample_form_request :: layer_request where
  "sample_form_request = \<lparr>lr_method = ''POST'', lr_target = ''/api/public-inquiries'',
     lr_headers = [(''Host'', ''limitmark.test''), (''Content-Type'', FORM_CONTENT_TYPE), (''Content-Length'', ''16'')],
     lr_bodyStatus = BComplete, lr_body = Some ''name=x&email=%40''\<rparr>"

lemmas form_defs = parseForm_def form_pair_def Let_def is_body_char_def is_alnum_def is_digit_def is_upper_def is_lower_def in_range_def is_hex_def
  hex_digit_value_def utf8Fatal_def cont_def second_in_def decode_text_def code_points_def ALLOWED_FORM_FIELDS_def maxFormFields_def
  maxFieldNameBytes_def maxFieldEncodedBytes_def

text \<open>A field whose name is preceded by an encoded byte order mark passes as the field itself.\<close>

lemma bom_field_accepted: "parseForm ''%EF%BB%BFname=x'' = VPass" "decodeComponent ''%EF%BB%BFname'' \<noteq> Some ''name''"
  by (simp_all add: form_defs)

lemma host_name_value: "is_host_name s \<Longrightarrow> is_host_value s"
  by (auto simp: is_host_value_def list_ex_iff is_host_port_def intro!: bexI [of _ "length s"])

lemma sample_form_checks:
  "target_check ''POST'' ''/api/public-inquiries'' = None"
  "named sample_form_request ''host'' = [''limitmark.test'']" "named sample_form_request ''content-type'' = [FORM_CONTENT_TYPE]"
  "named sample_form_request ''content-length'' = [''16'']" "named sample_form_request ''transfer-encoding'' = []"
  by code_simp+

lemma sample_form_headers: "headers_check sample_form_request = None"
proof -
  have "header_loop (lr_headers sample_form_request) = None" by code_simp
  moreover have "is_host_name ''limitmark.test''" by code_simp
  moreover have "length (lr_headers sample_form_request) = 3"
    "sum_list (map (\<lambda>(name, value). length name + length value + 4) (lr_headers sample_form_request)) \<le> 200" by code_simp+
  ultimately show ?thesis
    by (simp add: headers_check_def sample_form_checks(2) host_name_value maxHeaderCount_def maxHeaderBytes_def)
qed

lemma sample_form_passes: "fst (shape_evaluate sample_form_request \<lparr>sg_evaluated = 0, sg_grammarParses = 0\<rparr>) = VPass"
proof -
  have "is_content_length ''16''" "read_nat ''16'' = 16" by code_simp+
  then have "framing_check sample_form_request = Inr (Some 16)" by (simp add: framing_check_def Let_def sample_form_checks)
  moreover have "body_check sample_form_request 16 = Inr ''name=x&email=%40''"
    by (simp add: body_check_def Let_def sample_form_checks maxBodyBytes_def) (simp add: sample_form_request_def)
  moreover have "parseForm ''name=x&email=%40'' = VPass" by (simp add: form_defs)
  ultimately show ?thesis
    using sample_form_checks(1) sample_form_headers
    by (simp add: shape_evaluate_def Let_def shape_checks_def) (simp add: sample_form_request_def)
qed

theorem passed_request_is_reviewed_witness:
  "fst (shape_evaluate sample_form_request \<lparr>sg_evaluated = 0, sg_grammarParses = 0\<rparr>) = VPass \<and> reviewed_form ''name=x&email=%40''"
proof -
  have m: "lr_method sample_form_request \<noteq> ''GET''" "lr_body sample_form_request = Some ''name=x&email=%40''" by (simp_all add: sample_form_request_def)
  show ?thesis using passed_request_is_reviewed [OF sample_form_passes] sample_form_passes m by auto
qed

end
