(* ===== verification/Hop_Proof.thy ===== *)
theory Hop_Proof
  imports Semantic_Request Ingress_Protocol
begin

text \<open>
  The two hop proofs (\<^verbatim>\<open>defense/core/hop-proof.ts\<close>): the Plane-to-Boundary proof (PB) and the Boundary-to-App proof (BA), their
  encoding, strict decoding, window, signature and issuers.

  Claims are one record; the two lineage fields of a BA are \<open>cl_lineage\<close>, and a PB has none. What the runtime provides is a
  \<open>hop_runtime\<close>: SHA-256, Ed25519, the UTF-8 encoder and the fatal decoder, and the JSON text layer on values (\<open>jval\<close>). A failing
  \<^verbatim>\<open>edVerify\<close> is \<^const>\<open>False\<close>. The registries of approved requests and of verified proofs are the lists of the values they hold; the
  fresh id of a proof and the clock reading are arguments. A \<open>jval\<close> has no number with a fraction: a text that holds one is not parsed
  here and so malformed; the program also refuses it, with the reason of the role or the length when that check fails first.

  The lemmas: what was issued decodes to the claims it was made of, and whatever decodes is the encoding of its claims.
\<close>

record 'k hop_runtime =
  hr_sha256 :: "bytes \<Rightarrow> bytes"
  hr_sign :: "'k \<Rightarrow> bytes \<Rightarrow> bytes"
  hr_verify :: "'k \<Rightarrow> bytes \<Rightarrow> bytes \<Rightarrow> bool"
  hr_utf8 :: "string \<Rightarrow> bytes"
  hr_decode :: "bytes \<Rightarrow> string option"
  hr_stringify :: "jval \<Rightarrow> string"
  hr_parse :: "string \<Rightarrow> jval option"

datatype hop_role = Pb | Ba

definition PB_ROLE :: string where "PB_ROLE = ''ba0-pb-v2''"
definition BA_ROLE :: string where "BA_ROLE = ''ba0-ba-v2''"
definition PB_DOMAIN :: string where "PB_DOMAIN = ''ba0:pb:ed25519:v2'' @ [CHR 0x00]"
definition BA_DOMAIN :: string where "BA_DOMAIN = ''ba0:ba:ed25519:v2'' @ [CHR 0x00]"
definition PB_MAX_LIFETIME_MS :: int where "PB_MAX_LIFETIME_MS = 5000"
definition BA_MAX_LIFETIME_MS :: int where "BA_MAX_LIFETIME_MS = 2000"
definition HOP_SKEW_MS :: int where "HOP_SKEW_MS = 1000"
definition PB_HEADER_MAX :: nat where "PB_HEADER_MAX = 2048"
definition BA_HEADER_MAX :: nat where "BA_HEADER_MAX = 2304"

primrec ROLE_STRING :: "hop_role \<Rightarrow> string" where
  "ROLE_STRING Pb = PB_ROLE"
| "ROLE_STRING Ba = BA_ROLE"
primrec DOMAIN :: "hop_role \<Rightarrow> string" where
  "DOMAIN Pb = PB_DOMAIN"
| "DOMAIN Ba = BA_DOMAIN"
primrec MAX_LIFETIME :: "hop_role \<Rightarrow> int" where
  "MAX_LIFETIME Pb = PB_MAX_LIFETIME_MS"
| "MAX_LIFETIME Ba = BA_MAX_LIFETIME_MS"
primrec HEADER_MAX :: "hop_role \<Rightarrow> nat" where
  "HEADER_MAX Pb = PB_HEADER_MAX"
| "HEADER_MAX Ba = BA_HEADER_MAX"

record claims =
  cl_kid :: string
  cl_aud :: string
  cl_iat :: int
  cl_exp :: int
  cl_jti :: string
  cl_hop :: int
  cl_corr :: string
  cl_request :: semantic_request
  cl_lineage :: "(string \<times> string) option"

definition role_of :: "claims \<Rightarrow> hop_role" where
  "role_of c = (case cl_lineage c of None \<Rightarrow> Pb | Some l \<Rightarrow> Ba)"

definition sha256B64 :: "'k hop_runtime \<Rightarrow> bytes \<Rightarrow> string" where
  "sha256B64 rt b = b64_encode (hr_sha256 rt b)"

definition proofTag :: "'k hop_runtime \<Rightarrow> string \<Rightarrow> string \<Rightarrow> string" where
  "proofTag rt role jti = take 16 (b64_encode (hr_sha256 rt (hr_utf8 rt (role @ '':'' @ jti))))"

subsection \<open>Encoding\<close>

definition pair_value :: "string \<times> string \<Rightarrow> jval" where
  "pair_value p = JArr [JStr (fst p), JStr (snd p)]"

definition claimsPayload :: "claims \<Rightarrow> jval" where
  "claimsPayload c = (let r = cl_request c in
     JArr ([JStr (ROLE_STRING (role_of c)), JStr (cl_kid c), JStr (cl_aud c), JNum (cl_iat c), JNum (cl_exp c), JStr (cl_jti c),
       JNum (cl_hop c), JStr (cl_corr c), JStr (sr_method r), JStr (sr_target r), JArr (map pair_value (sr_pairs r)),
       JNum (int (sr_bodyLen r)), JStr (sr_bodySha256 r)]
       @ (case cl_lineage c of None \<Rightarrow> [] | Some (pbJti, pbSha256) \<Rightarrow> [JStr pbJti, JStr pbSha256])))"

definition proof_message :: "hop_role \<Rightarrow> 'k hop_runtime \<Rightarrow> bytes \<Rightarrow> bytes" where
  "proof_message role rt payload = hr_utf8 rt (DOMAIN role) @ payload"

definition encodeEnvelope :: "'k hop_runtime \<Rightarrow> claims \<Rightarrow> 'k \<Rightarrow> string" where
  "encodeEnvelope rt c privateKey =
     (let payload = hr_utf8 rt (hr_stringify rt (claimsPayload c));
          signature = hr_sign rt privateKey (proof_message (role_of c) rt payload)
      in b64_encode payload @ ''.'' @ b64_encode signature)"

subsection \<open>Decoding\<close>

record decoded =
  de_claims :: claims
  de_payload :: bytes
  de_signature :: bytes

definition is_count :: "int \<Rightarrow> bool" where "is_count n \<longleftrightarrow> is_safe_integer n \<and> n \<ge> 0"

definition is_id22 :: "string \<Rightarrow> bool" where "is_id22 = is_b64url_id 22"

definition is_kid :: "string \<Rightarrow> bool" where
  "is_kid s \<longleftrightarrow> 1 \<le> length s \<and> length s \<le> 32 \<and> list_all is_b64url_char s"

text \<open>The loop over the pairs, with the name before.\<close>

fun parse_pairs :: "string \<Rightarrow> jval list \<Rightarrow> (string \<times> string) list option" where
  "parse_pairs previous [] = Some []"
| "parse_pairs previous (v # vs) = (case v of
     JArr [JStr name, JStr value] \<Rightarrow>
       if name \<notin> set BOUND_HEADER_NAMES \<or> name \<le> previous \<or> canonicalValue value \<noteq> Some value then None
       else map_option ((#) (name, value)) (parse_pairs name vs)
   | _ \<Rightarrow> None)"

definition parseRequest :: "jval list \<Rightarrow> semantic_request option" where
  "parseRequest raw = (case raw of
     [JStr m, JStr target, JArr pairsRaw, JNum bodyLen, JStr bodySha256] \<Rightarrow>
       if m \<noteq> ''GET'' \<and> m \<noteq> ''POST'' then None
       else if \<not> is_semantic_target target then None
       else if length pairsRaw > length BOUND_HEADER_NAMES then None
       else (case parse_pairs '''' pairsRaw of
           None \<Rightarrow> None
         | Some pairs \<Rightarrow>
             if \<not> is_count bodyLen \<or> bodyLen > int MAX_SEMANTIC_BODY \<or> decodeCanonicalB64 bodySha256 (Some 32) = None then None
             else if map_of pairs ''host'' = None then None
             else if m = ''GET'' \<and> (bodyLen \<noteq> 0 \<or> bodySha256 \<noteq> EMPTY_BODY_SHA256 \<or> map_of pairs ''content-type'' \<noteq> None) then None
             else if m = ''POST'' \<and> map_of pairs ''content-type'' \<noteq> Some FORM_CONTENT_TYPE then None
             else Some \<lparr>sr_method = m, sr_target = target, sr_pairs = pairs, sr_bodyLen = nat bodyLen, sr_bodySha256 = bodySha256\<rparr>)
   | _ \<Rightarrow> None)"

text \<open>The fields after the role, once the array has the length of the role.\<close>

definition parse_claims :: "hop_role \<Rightarrow> jval list \<Rightarrow> claims option" where
  "parse_claims expected parsed = (case take 8 parsed of
     [_, JStr kid, JStr aud, JNum iat, JNum expires, JStr jti, JNum hop, JStr corr] \<Rightarrow>
       if \<not> is_kid kid \<or> \<not> is_id22 aud \<or> \<not> is_count iat \<or> \<not> is_count expires \<or> \<not> is_id22 jti then None
       else if \<not> is_count hop \<or> hop < 1 \<or> \<not> is_id22 corr then None
       else (case parseRequest (take 5 (drop 8 parsed)) of
           None \<Rightarrow> None
         | Some r \<Rightarrow>
             let common = \<lparr>cl_kid = kid, cl_aud = aud, cl_iat = iat, cl_exp = expires, cl_jti = jti, cl_hop = hop, cl_corr = corr,
               cl_request = r, cl_lineage = None\<rparr> in
             if expected = Pb then Some common
             else (case drop 13 parsed of
                 [JStr pbJti, JStr pbSha256] \<Rightarrow>
                   if \<not> is_id22 pbJti \<or> decodeCanonicalB64 pbSha256 (Some 32) = None then None
                   else Some (common\<lparr>cl_lineage := Some (pbJti, pbSha256)\<rparr>)
               | _ \<Rightarrow> None))
   | _ \<Rightarrow> None)"

definition role_check :: "hop_role \<Rightarrow> jval list \<Rightarrow> ob_reason option" where
  "role_check expected parsed =
     (case parsed of
        JStr roleString # _ \<Rightarrow>
          if roleString \<noteq> PB_ROLE \<and> roleString \<noteq> BA_ROLE
          then Some (if starts_with ''ba0-'' roleString then ob_version_unsupported else ob_proof_malformed)
          else if roleString \<noteq> ROLE_STRING expected then Some ob_wrong_hop
          else if length parsed \<noteq> (if expected = Pb then 13 else 15) then Some ob_proof_malformed
          else None
      | _ \<Rightarrow> Some ob_proof_malformed)"

definition decode_payload :: "'k hop_runtime \<Rightarrow> hop_role \<Rightarrow> bytes \<Rightarrow> ob_reason + claims" where
  "decode_payload rt expected payload = (case hr_decode rt payload of
     None \<Rightarrow> Inl ob_proof_malformed
   | Some t \<Rightarrow> (case hr_parse rt t of
       Some (JArr parsed) \<Rightarrow>
         if hr_stringify rt (JArr parsed) \<noteq> t then Inl ob_proof_malformed
         else (case role_check expected parsed of
             Some e \<Rightarrow> Inl e
           | None \<Rightarrow> (case parse_claims expected parsed of None \<Rightarrow> Inl ob_proof_malformed | Some c \<Rightarrow> Inr c))
     | _ \<Rightarrow> Inl ob_proof_malformed))"

definition decodeProof :: "'k hop_runtime \<Rightarrow> string \<Rightarrow> hop_role \<Rightarrow> ob_reason + decoded" where
  "decodeProof rt header expected =
     (if length header > HEADER_MAX expected then Inl ob_proof_oversize
      else if header = [] \<or> js_trim header \<noteq> header \<or> CHR '','' \<in> set header then Inl ob_proof_malformed
      else (case split_on (CHR ''.'') header of
          [p, s] \<Rightarrow> (case (decodeCanonicalB64 p None, decodeCanonicalB64 s (Some 64)) of
              (Some payload, Some signature) \<Rightarrow> (case decode_payload rt expected payload of
                  Inl e \<Rightarrow> Inl e
                | Inr c \<Rightarrow> Inr \<lparr>de_claims = c, de_payload = payload, de_signature = signature\<rparr>)
            | _ \<Rightarrow> Inl ob_proof_malformed)
        | _ \<Rightarrow> Inl ob_proof_malformed))"

subsection \<open>Window and signature\<close>

definition checkProofWindow :: "claims \<Rightarrow> (string \<times> 'k) list \<Rightarrow> string \<Rightarrow> real \<Rightarrow> real \<Rightarrow> ob_reason option" where
  "checkProofWindow c keys aud nowMs fenceMs =
     (if map_of keys (cl_kid c) = None then Some ob_key_unknown
      else if cl_aud c \<noteq> aud then Some ob_audience_mismatch
      else if cl_exp c \<le> cl_iat c \<or> cl_exp c - cl_iat c > MAX_LIFETIME (role_of c) then Some ob_lifetime_invalid
      else if real_of_int (cl_iat c - HOP_SKEW_MS) > nowMs then Some ob_not_yet_valid
      else if nowMs > real_of_int (cl_exp c + HOP_SKEW_MS) then Some ob_expired
      else if real_of_int (cl_iat c) < fenceMs then Some ob_before_fence
      else None)"

definition verifyProofSignature :: "'k hop_runtime \<Rightarrow> hop_role \<Rightarrow> decoded \<Rightarrow> 'k \<Rightarrow> bool" where
  "verifyProofSignature rt role d key = hr_verify rt key (de_signature d) (proof_message role rt (de_payload d))"

subsection \<open>Issuers\<close>

record issued =
  is_header :: string
  is_jti :: string
  is_tag :: string

record 'k issuer_config =
  ic_kid :: string
  ic_privateKey :: 'k
  ic_audience :: string
  ic_lifetimeMs :: int

definition pb_claims :: "'k issuer_config \<Rightarrow> semantic_request \<Rightarrow> int \<Rightarrow> string \<Rightarrow> int \<Rightarrow> string \<Rightarrow> claims" where
  "pb_claims config approved hop corr iat jti =
     \<lparr>cl_kid = ic_kid config, cl_aud = ic_audience config, cl_iat = iat, cl_exp = iat + ic_lifetimeMs config, cl_jti = jti,
      cl_hop = hop, cl_corr = corr, cl_request = approved, cl_lineage = None\<rparr>"

definition issuePb ::
  "'k hop_runtime \<Rightarrow> semantic_request list \<Rightarrow> 'k issuer_config \<Rightarrow> semantic_request \<Rightarrow> int \<Rightarrow> string \<Rightarrow> int \<Rightarrow> string \<Rightarrow> string + issued" where
  "issuePb rt registry config approved hop corr iat jti =
     (if approved \<notin> set registry then Inl ''a Plane-to-Boundary proof can only be issued for an ApprovedRequest''
      else if \<not> is_safe_integer (ic_lifetimeMs config) \<or> ic_lifetimeMs config < 1 \<or> ic_lifetimeMs config > PB_MAX_LIFETIME_MS
      then Inl ''PB lifetime out of range''
      else Inr \<lparr>is_header = encodeEnvelope rt (pb_claims config approved hop corr iat jti) (ic_privateKey config), is_jti = jti,
        is_tag = proofTag rt ''pb'' jti\<rparr>)"

record verified_pb =
  vp_claims :: claims
  vp_header :: string

definition ba_claims :: "'k hop_runtime \<Rightarrow> 'k issuer_config \<Rightarrow> verified_pb \<Rightarrow> int \<Rightarrow> string \<Rightarrow> claims" where
  "ba_claims rt config verified iat jti = (let source = vp_claims verified in
     \<lparr>cl_kid = ic_kid config, cl_aud = ic_audience config, cl_iat = iat, cl_exp = iat + ic_lifetimeMs config, cl_jti = jti,
      cl_hop = cl_hop source, cl_corr = cl_corr source, cl_request = cl_request source,
      cl_lineage = Some (cl_jti source, sha256B64 rt (hr_utf8 rt (vp_header verified)))\<rparr>)"

definition issueBa ::
  "'k hop_runtime \<Rightarrow> verified_pb list \<Rightarrow> 'k issuer_config \<Rightarrow> verified_pb \<Rightarrow> int \<Rightarrow> string \<Rightarrow> string + issued" where
  "issueBa rt registry config verified iat jti =
     (if verified \<notin> set registry then Inl ''a Boundary-to-App proof can only be issued for a VerifiedPb''
      else if \<not> is_safe_integer (ic_lifetimeMs config) \<or> ic_lifetimeMs config < 1 \<or> ic_lifetimeMs config > BA_MAX_LIFETIME_MS
      then Inl ''BA lifetime out of range''
      else Inr \<lparr>is_header = encodeEnvelope rt (ba_claims rt config verified iat jti) (ic_privateKey config), is_jti = jti,
        is_tag = proofTag rt ''ba'' jti\<rparr>)"

subsection \<open>Claims that can be decoded\<close>

definition request_ok :: "semantic_request \<Rightarrow> bool" where
  "request_ok r \<longleftrightarrow> (sr_method r = ''GET'' \<or> sr_method r = ''POST'') \<and> is_semantic_target (sr_target r)
     \<and> sorted_wrt (<) (map fst (sr_pairs r))
     \<and> list_all (\<lambda>(n, v). n \<in> set BOUND_HEADER_NAMES \<and> canonicalValue v = Some v) (sr_pairs r)
     \<and> map_of (sr_pairs r) ''host'' \<noteq> None
     \<and> (sr_method r = ''GET'' \<longrightarrow> sr_bodyLen r = 0 \<and> sr_bodySha256 r = EMPTY_BODY_SHA256 \<and> map_of (sr_pairs r) ''content-type'' = None)
     \<and> (sr_method r = ''POST'' \<longrightarrow> map_of (sr_pairs r) ''content-type'' = Some FORM_CONTENT_TYPE)
     \<and> sr_bodyLen r \<le> MAX_SEMANTIC_BODY \<and> decodeCanonicalB64 (sr_bodySha256 r) (Some 32) \<noteq> None"

definition lineage_ok :: "(string \<times> string) option \<Rightarrow> bool" where
  "lineage_ok l \<longleftrightarrow> (case l of None \<Rightarrow> True | Some (jti, sha) \<Rightarrow> is_id22 jti \<and> decodeCanonicalB64 sha (Some 32) \<noteq> None)"

definition claims_ok :: "claims \<Rightarrow> bool" where
  "claims_ok c \<longleftrightarrow> is_kid (cl_kid c) \<and> is_id22 (cl_aud c) \<and> is_count (cl_iat c) \<and> is_count (cl_exp c) \<and> is_id22 (cl_jti c)
     \<and> is_count (cl_hop c) \<and> 1 \<le> cl_hop c \<and> is_id22 (cl_corr c) \<and> request_ok (cl_request c) \<and> lineage_ok (cl_lineage c)"

text \<open>What the proofs need of the text layer: JSON texts of claims are read back, and so are UTF-8 bytes.\<close>

definition hop_codec :: "'k hop_runtime \<Rightarrow> bool" where
  "hop_codec rt \<longleftrightarrow> (\<forall>t. hr_decode rt (hr_utf8 rt t) = Some t) \<and> (\<forall>t. hr_utf8 rt t = [] \<longrightarrow> t = []) \<and> (\<forall>v. hr_stringify rt v \<noteq> [])
     \<and> (\<forall>c. claims_ok c \<longrightarrow> hr_parse rt (hr_stringify rt (claimsPayload c)) = Some (claimsPayload c))"

lemma sorted_distinct_names:
  assumes "sorted_wrt (<) (map fst ps)" "list_all (\<lambda>(n, v). n \<in> set BOUND_HEADER_NAMES \<and> canonicalValue v = Some v) ps"
  shows "length ps \<le> length BOUND_HEADER_NAMES"
proof -
  have "distinct (map fst ps)" using assms(1) by (simp add: strict_sorted_iff)
  moreover have "set (map fst ps) \<subseteq> set BOUND_HEADER_NAMES" using assms(2) by (auto simp: list_all_iff)
  ultimately have "length (map fst ps) \<le> card (set BOUND_HEADER_NAMES)" by (metis List.finite_set card_mono distinct_card)
  also have "\<dots> \<le> length BOUND_HEADER_NAMES" by (rule card_length)
  finally show ?thesis by simp
qed

lemma parse_pairs_iff:
  "parse_pairs prev vs = Some ps \<longleftrightarrow> vs = map pair_value ps \<and> sorted_wrt (<) (prev # map fst ps)
     \<and> list_all (\<lambda>(n, v). n \<in> set BOUND_HEADER_NAMES \<and> canonicalValue v = Some v) ps"
proof (induction vs arbitrary: prev ps)
  case Nil
  then show ?case by auto
next
  case (Cons v vs)
  show ?case
  proof (cases "\<exists>n x. v = JArr [JStr n, JStr x]")
    case True
    then obtain n x where v: "v = JArr [JStr n, JStr x]" by blast
    have "parse_pairs prev (v # vs) = Some ps \<longleftrightarrow> n \<in> set BOUND_HEADER_NAMES \<and> prev < n \<and> canonicalValue x = Some x
        \<and> (\<exists>qs. ps = (n, x) # qs \<and> parse_pairs n vs = Some qs)"
      by (auto simp: v not_le)
    also have "\<dots> \<longleftrightarrow> v # vs = map pair_value ps \<and> sorted_wrt (<) (prev # map fst ps)
       \<and> list_all (\<lambda>(n, v). n \<in> set BOUND_HEADER_NAMES \<and> canonicalValue v = Some v) ps"
      unfolding Cons.IH by (cases ps) (auto simp: v pair_value_def intro: less_trans)
    finally show ?thesis .
  next
    case False
    then have "parse_pairs prev (v # vs) = None" by (auto split: jval.splits list.splits)
    moreover have "v # vs \<noteq> map pair_value ps" using False by (cases ps) (auto simp: pair_value_def)
    ultimately show ?thesis by simp
  qed
qed

definition request_values :: "semantic_request \<Rightarrow> jval list" where
  "request_values r = [JStr (sr_method r), JStr (sr_target r), JArr (map pair_value (sr_pairs r)), JNum (int (sr_bodyLen r)), JStr (sr_bodySha256 r)]"

lemma names_not_empty: "list_all (\<lambda>(n, v). n \<in> set BOUND_HEADER_NAMES \<and> canonicalValue v = Some v) ps \<Longrightarrow>
    sorted_wrt (<) ('''' # map fst ps) \<longleftrightarrow> sorted_wrt (<) (map fst ps)"
  by (auto simp: list_all_iff BOUND_HEADER_NAMES_def)

lemma body_count: "int n \<le> int MAX_SEMANTIC_BODY \<Longrightarrow> is_count (int n)"
  by (simp add: is_count_def is_safe_integer_def MAX_SAFE_INTEGER_def MAX_SEMANTIC_BODY_def)

lemma parseRequest_values: "request_ok r \<Longrightarrow> parseRequest (request_values r) = Some r"
proof -
  assume r: "request_ok r"
  have "parse_pairs '''' (map pair_value (sr_pairs r)) = Some (sr_pairs r)"
    using r names_not_empty [of "sr_pairs r"] by (simp add: parse_pairs_iff request_ok_def)
  then show ?thesis
    using r sorted_distinct_names [of "sr_pairs r"] body_count [of "sr_bodyLen r"]
    by (simp add: parseRequest_def request_values_def request_ok_def)
qed

lemma parseRequest_Some: "parseRequest raw = Some r \<Longrightarrow> raw = request_values r \<and> request_ok r"
proof -
  assume p: "parseRequest raw = Some r"
  obtain m target pairsRaw bodyLen sha where raw: "raw = [JStr m, JStr target, JArr pairsRaw, JNum bodyLen, JStr sha]"
    using p by (auto simp: parseRequest_def split: list.splits jval.splits)
  obtain pairs where pairs: "parse_pairs '''' pairsRaw = Some pairs"
    using p by (auto simp: parseRequest_def raw split: if_splits option.splits)
  have all: "list_all (\<lambda>(n, v). n \<in> set BOUND_HEADER_NAMES \<and> canonicalValue v = Some v) pairs" "pairsRaw = map pair_value pairs"
    "sorted_wrt (<) (map fst pairs)" using pairs names_not_empty [of pairs] by (simp_all add: parse_pairs_iff)
  have "m = ''GET'' \<or> m = ''POST''" "is_semantic_target target" "is_count bodyLen" "bodyLen \<le> int MAX_SEMANTIC_BODY"
    "decodeCanonicalB64 sha (Some 32) \<noteq> None" "map_of pairs ''host'' \<noteq> None"
    "m = ''GET'' \<longrightarrow> bodyLen = 0 \<and> sha = EMPTY_BODY_SHA256 \<and> map_of pairs ''content-type'' = None"
    "m = ''POST'' \<longrightarrow> map_of pairs ''content-type'' = Some FORM_CONTENT_TYPE"
    "r = \<lparr>sr_method = m, sr_target = target, sr_pairs = pairs, sr_bodyLen = nat bodyLen, sr_bodySha256 = sha\<rparr>"
    using p unfolding raw parseRequest_def by (simp_all add: pairs split: if_splits)
  then show ?thesis using all by (auto simp: raw request_values_def request_ok_def is_count_def)
qed

definition head_values :: "claims \<Rightarrow> jval list" where
  "head_values c = [JStr (ROLE_STRING (role_of c)), JStr (cl_kid c), JStr (cl_aud c), JNum (cl_iat c), JNum (cl_exp c), JStr (cl_jti c),
     JNum (cl_hop c), JStr (cl_corr c)]"

definition lineage_values :: "claims \<Rightarrow> jval list" where
  "lineage_values c = (case cl_lineage c of None \<Rightarrow> [] | Some (pbJti, pbSha256) \<Rightarrow> [JStr pbJti, JStr pbSha256])"

lemma claimsPayload_values: "claimsPayload c = JArr (head_values c @ request_values (cl_request c) @ lineage_values c)"
  by (simp add: claimsPayload_def head_values_def request_values_def lineage_values_def Let_def)

lemma payload_parts:
  "take 8 (head_values c @ request_values r @ l) = head_values c" "take 5 (drop 8 (head_values c @ request_values r @ l)) = request_values r"
  "drop 13 (head_values c @ request_values r @ l) = l" "length (head_values c @ request_values r @ l) = 13 + length l"
  by (simp_all add: head_values_def request_values_def)

lemma parse_claims_values: "claims_ok c \<Longrightarrow> parse_claims (role_of c) (head_values c @ request_values (cl_request c) @ lineage_values c) = Some c"
  unfolding parse_claims_def payload_parts
  by (cases "cl_lineage c")
    (auto simp: head_values_def claims_ok_def parseRequest_values lineage_ok_def lineage_values_def role_of_def)

lemma role_check_values: "role_check (role_of c) (head_values c @ request_values (cl_request c) @ lineage_values c) = None"
  by (cases "cl_lineage c") (auto simp: role_check_def head_values_def request_values_def lineage_values_def role_of_def)

lemma role_check_None:
  assumes "role_check expected parsed = None"
  obtains rest where "parsed = JStr (ROLE_STRING expected) # rest" "length parsed = (if expected = Pb then 13 else 15)"
  using assms by (auto simp: role_check_def split: list.splits jval.splits if_splits)

lemma parse_claims_Some:
  assumes "parse_claims expected parsed = Some c" "role_check expected parsed = None"
  shows "parsed = head_values c @ request_values (cl_request c) @ lineage_values c" "claims_ok c" "role_of c = expected"
proof -
  obtain rest where p: "parsed = JStr (ROLE_STRING expected) # rest" and l: "length parsed = (if expected = Pb then 13 else 15)"
    using role_check_None [OF assms(2)] by blast
  obtain x kid aud iat expires jti hop corr where h: "take 8 parsed = [x, JStr kid, JStr aud, JNum iat, JNum expires, JStr jti, JNum hop, JStr corr]"
    using assms(1) unfolding parse_claims_def by (auto split: list.splits jval.splits)
  have x: "x = JStr (ROLE_STRING expected)" using h p by simp
  obtain r where r: "parseRequest (take 5 (drop 8 parsed)) = Some r"
    using assms(1) unfolding parse_claims_def h by (auto split: if_splits option.splits)
  have ids: "is_kid kid" "is_id22 aud" "is_count iat" "is_count expires" "is_id22 jti" "is_count hop" "1 \<le> hop" "is_id22 corr"
    using assms(1) unfolding parse_claims_def h r by (simp_all split: if_splits)
  obtain ln where c: "c = \<lparr>cl_kid = kid, cl_aud = aud, cl_iat = iat, cl_exp = expires, cl_jti = jti, cl_hop = hop, cl_corr = corr, cl_request = r,
      cl_lineage = ln\<rparr>" and ln: "(expected = Pb \<and> ln = None) \<or> (expected = Ba \<and> (\<exists>j s. ln = Some (j, s) \<and> drop 13 parsed = [JStr j, JStr s]
        \<and> is_id22 j \<and> decodeCanonicalB64 s (Some 32) \<noteq> None))"
    using assms(1) ids unfolding parse_claims_def h r
    by (cases expected) (auto simp: Let_def split: if_splits list.splits jval.splits)
  show role: "role_of c = expected" using ln by (auto simp: c role_of_def)
  show "claims_ok c" using ids parseRequest_Some [OF r] ln by (auto simp: c claims_ok_def lineage_ok_def)
  have "drop 13 parsed = lineage_values c" using ln l by (auto simp: c lineage_values_def)
  moreover have "take 8 parsed = head_values c" using role by (simp add: h x head_values_def c)
  moreover have "take 5 (drop 8 parsed) = request_values (cl_request c)" using parseRequest_Some [OF r] by (simp add: c)
  moreover have "parsed = take 8 parsed @ take 5 (drop 8 parsed) @ drop 13 parsed"
    using append_take_drop_id [of 8 parsed] append_take_drop_id [of 5 "drop 8 parsed"] by (simp add: drop_drop)
  ultimately show "parsed = head_values c @ request_values (cl_request c) @ lineage_values c" by metis
qed

subsection \<open>Round trip\<close>

lemma decode_payload_iff:
  assumes "hop_codec rt"
  shows "decode_payload rt expected payload = Inr c \<longleftrightarrow>
    hr_decode rt payload = Some (hr_stringify rt (claimsPayload c)) \<and> claims_ok c \<and> role_of c = expected"
proof
  assume d: "decode_payload rt expected payload = Inr c"
  then obtain t parsed where t: "hr_decode rt payload = Some t" "hr_parse rt t = Some (JArr parsed)"
    by (auto simp: decode_payload_def split: option.splits jval.splits)
  have p: "hr_stringify rt (JArr parsed) = t" "role_check expected parsed = None" "parse_claims expected parsed = Some c"
    using d by (simp_all add: decode_payload_def t split: if_splits option.splits)
  have "claimsPayload c = JArr parsed" using parse_claims_Some(1) [OF p(3,2)] by (simp add: claimsPayload_values)
  then show "hr_decode rt payload = Some (hr_stringify rt (claimsPayload c)) \<and> claims_ok c \<and> role_of c = expected"
    using parse_claims_Some(2,3) [OF p(3,2)] t p(1) by simp
next
  assume c: "hr_decode rt payload = Some (hr_stringify rt (claimsPayload c)) \<and> claims_ok c \<and> role_of c = expected"
  have "hr_parse rt (hr_stringify rt (claimsPayload c)) = Some (claimsPayload c)" using assms c by (simp add: hop_codec_def)
  then show "decode_payload rt expected payload = Inr c"
    using c role_check_values [of c] parse_claims_values [of c] by (simp add: decode_payload_def claimsPayload_values)
qed

lemma b64_plain: "list_all is_b64url_char s \<Longrightarrow> c \<in> set s \<Longrightarrow> c \<noteq> CHR ''.'' \<and> c \<noteq> CHR '','' \<and> \<not> is_js_space c"
proof -
  assume "list_all is_b64url_char s" "c \<in> set s"
  then have "is_b64url_char c" by (simp add: list_all_iff)
  then show ?thesis by (auto simp: is_b64url_char_def is_alnum_def is_digit_def is_upper_def is_lower_def in_range_def is_js_space_def)
qed

lemma split_on_absent: "CHR ''.'' \<notin> set s \<Longrightarrow> split_on (CHR ''.'') (s @ CHR ''.'' # t) = s # split_on (CHR ''.'') t"
  by (induction s) auto

lemma split_on_single: "c \<notin> set s \<Longrightarrow> split_on c s = [s]"
  by (induction s) auto

text \<open>Two canonical texts with a dot between them are split and decoded to the two byte strings.\<close>

lemma proof_text:
  assumes "a \<noteq> []" "b \<noteq> []"
  shows "split_on (CHR ''.'') (b64_encode a @ ''.'' @ b64_encode b) = [b64_encode a, b64_encode b]"
    "js_trim (b64_encode a @ ''.'' @ b64_encode b) = b64_encode a @ ''.'' @ b64_encode b"
    "CHR '','' \<notin> set (b64_encode a @ ''.'' @ b64_encode b)"
proof -
  have pl: "c \<in> set (b64_encode x) \<Longrightarrow> c \<noteq> CHR ''.'' \<and> c \<noteq> CHR '','' \<and> \<not> is_js_space c" for c x
    by (rule b64_plain [OF b64_encode_alphabet])
  have ne: "b64_encode a \<noteq> []" "b64_encode b \<noteq> []" using assms by simp_all
  show "split_on (CHR ''.'') (b64_encode a @ ''.'' @ b64_encode b) = [b64_encode a, b64_encode b]"
  proof -
    have "CHR ''.'' \<notin> set (b64_encode x)" for x using pl by blast
    then show ?thesis by (simp add: split_on_absent split_on_single)
  qed
  have "hd (b64_encode a) \<in> set (b64_encode a)" "last (b64_encode b) \<in> set (b64_encode b)" using ne by simp_all
  then have "\<not> is_js_space (hd (b64_encode a))" "\<not> is_js_space (last (b64_encode b))" using pl by blast+
  then show "js_trim (b64_encode a @ ''.'' @ b64_encode b) = b64_encode a @ ''.'' @ b64_encode b"
    unfolding js_trim_def using ne by (intro trim_by_id) simp_all
  show "CHR '','' \<notin> set (b64_encode a @ ''.'' @ b64_encode b)" using pl by auto
qed

definition proof_payload :: "'k hop_runtime \<Rightarrow> claims \<Rightarrow> bytes" where
  "proof_payload rt c = hr_utf8 rt (hr_stringify rt (claimsPayload c))"

text \<open>What was encoded is decoded to the claims it was made of.\<close>

lemma decodeProof_encodeEnvelope:
  assumes "hop_codec rt" "claims_ok c" "length (encodeEnvelope rt c key) \<le> HEADER_MAX (role_of c)"
    and "length (hr_sign rt key (proof_message (role_of c) rt (proof_payload rt c))) = 64"
  shows "decodeProof rt (encodeEnvelope rt c key) (role_of c) = Inr \<lparr>de_claims = c, de_payload = proof_payload rt c,
    de_signature = hr_sign rt key (proof_message (role_of c) rt (proof_payload rt c))\<rparr>"
proof -
  define a b where "a = proof_payload rt c" and "b = hr_sign rt key (proof_message (role_of c) rt (proof_payload rt c))"
  have e: "encodeEnvelope rt c key = b64_encode a @ ''.'' @ b64_encode b"
    by (simp add: encodeEnvelope_def Let_def a_def b_def proof_payload_def)
  have ne: "a \<noteq> []" "b \<noteq> []" using assms(1,4) by (auto simp: a_def b_def proof_payload_def hop_codec_def)
  have d: "decodeCanonicalB64 (b64_encode a) None = Some a" "decodeCanonicalB64 (b64_encode b) (Some 64) = Some b"
    using ne assms(4) by (simp_all add: decodeCanonicalB64_iff b_def)
  have p: "decode_payload rt (role_of c) a = Inr c"
    using assms(1,2) by (simp add: decode_payload_iff a_def proof_payload_def) (simp add: hop_codec_def)
  have l: "\<not> length (b64_encode a @ ''.'' @ b64_encode b) > HEADER_MAX (role_of c)" "b64_encode a @ ''.'' @ b64_encode b \<noteq> []"
    using assms(3) by (simp_all add: e)
  show ?thesis unfolding e decodeProof_def
    using proof_text [OF ne] l d p by (simp only: if_False if_True list.case d p option.case prod.case sum.case a_def b_def simp_thms)
qed

lemma split_on_join: "\<exists>x xs. split_on c t = x # xs \<and> t = x @ concat (map ((#) c) xs)"
proof (induction t)
  case (Cons y t)
  then obtain x xs where "split_on c t = x # xs" "t = x @ concat (map ((#) c) xs)" by blast
  then show ?case by (cases "y = c") simp_all
qed simp

lemma decodeProof_Inr:
  assumes "hop_codec rt" "decodeProof rt header expected = Inr d"
  shows "claims_ok (de_claims d)" "role_of (de_claims d) = expected"
    "hr_decode rt (de_payload d) = Some (hr_stringify rt (claimsPayload (de_claims d)))"
    "header = b64_encode (de_payload d) @ ''.'' @ b64_encode (de_signature d)"
proof -
  obtain p s payload signature c where s: "split_on (CHR ''.'') header = [p, s]" "decodeCanonicalB64 p None = Some payload"
    "decodeCanonicalB64 s (Some 64) = Some signature" "decode_payload rt expected payload = Inr c"
    "d = \<lparr>de_claims = c, de_payload = payload, de_signature = signature\<rparr>"
    using assms(2) by (auto simp: decodeProof_def split: if_splits list.splits option.splits sum.splits)
  show "claims_ok (de_claims d)" "role_of (de_claims d) = expected"
    "hr_decode rt (de_payload d) = Some (hr_stringify rt (claimsPayload (de_claims d)))"
    using s(4) by (simp_all add: decode_payload_iff [OF assms(1)] s(5))
  have "header = p @ ''.'' @ s" using split_on_join [of "CHR ''.''" header] by (simp add: s(1))
  then show "header = b64_encode (de_payload d) @ ''.'' @ b64_encode (de_signature d)"
    using s(2,3) by (simp add: s(5) decodeCanonicalB64_iff)
qed

text \<open>A GET proof that decodes carries no body: a length, another digest than that of no bytes, or a content type is malformed.\<close>

lemma decoded_get_has_no_body:
  assumes "hop_codec rt" "decodeProof rt header expected = Inr d" "sr_method (cl_request (de_claims d)) = ''GET''"
  shows "sr_bodyLen (cl_request (de_claims d)) = 0" "sr_bodySha256 (cl_request (de_claims d)) = EMPTY_BODY_SHA256"
    "map_of (sr_pairs (cl_request (de_claims d))) ''content-type'' = None"
  using decodeProof_Inr(1) [OF assms(1,2)] assms(3) by (simp_all add: claims_ok_def request_ok_def)

text \<open>The message of a proof determines its claims.\<close>

lemma message_claims:
  assumes "hop_codec rt" "claims_ok a" "claims_ok b" "role_of a = role_of b"
    "hr_decode rt p = Some (hr_stringify rt (claimsPayload a))" "proof_message (role_of a) rt p = proof_message (role_of b) rt (proof_payload rt b)"
  shows "a = b"
proof -
  have "p = proof_payload rt b" using assms(4,6) by (simp add: proof_message_def)
  then have "hr_stringify rt (claimsPayload a) = hr_stringify rt (claimsPayload b)"
    using assms(1,5) by (simp add: hop_codec_def proof_payload_def)
  then have "claimsPayload a = claimsPayload b" using assms(1-3) unfolding hop_codec_def by (metis option.inject)
  then have "head_values a @ request_values (cl_request a) @ lineage_values a = head_values b @ request_values (cl_request b) @ lineage_values b"
    unfolding claimsPayload_values jval.inject .
  then show ?thesis using parse_claims_values [OF assms(2)] parse_claims_values [OF assms(3)] assms(4) by (metis option.inject)
qed

end
