(* ===== verification/Replay_Guard.thy ===== *)
theory Replay_Guard
  imports Prelude
begin

text \<open>
  Single-use replay state of a hop verifier (\<^verbatim>\<open>defense/core/replay-guard.ts\<close>): \<^verbatim>\<open>ReplayGuard\<close>, \<^verbatim>\<open>ReplayTicket\<close> and \<^verbatim>\<open>ClockFence\<close>.

  A clock reading is an argument of the operation that takes it; \<^verbatim>\<open>Number.NEGATIVE_INFINITY\<close> as the time of the last purge is
  \<^const>\<open>None\<close>. A ticket is a value with its keys, and the tickets handed out are a list beside the guard. The locale \<open>single_use\<close> is
  what a verifier relies on: an id that was granted stays taken until its retention ended.

  The theorems: whatever is reserved and settled, in any order and also twice, the guard holds at most its capacity, its counters account
  for every id, and no id is granted again before its retention ended.
\<close>

datatype entry_state = Reserved | Committed | Burned

record replay_entry =
  re_state :: entry_state
  re_retainUntil :: instant

record replay_guard =
  rg_capacity :: nat
  rg_entries :: "(string, replay_entry) jsmap"
  rg_lastPurge :: "instant option"
  rg_reserved :: int
  rg_committed :: int
  rg_burned :: int
  rg_replayRejected :: int
  rg_capacityRejected :: int
  rg_purged :: int
  rg_open :: int
  rg_highWater :: nat
  rg_stateViolations :: int

record ticket =
  tk_keys :: "string list"
  tk_settled :: bool

datatype reserve_result = Granted ticket | Replayed | Full

definition new_guard :: "int \<Rightarrow> string + replay_guard" where
  "new_guard capacity =
     (if \<not> is_positive_safe_integer capacity then Inl ''replay capacity must be a positive integer''
      else Inr \<lparr>rg_capacity = nat capacity, rg_entries = [], rg_lastPurge = None, rg_reserved = 0, rg_committed = 0, rg_burned = 0,
        rg_replayRejected = 0, rg_capacityRejected = 0, rg_purged = 0, rg_open = 0, rg_highWater = 0, rg_stateViolations = 0\<rparr>)"

text \<open>An entry that \<^verbatim>\<open>purge\<close> keeps.\<close>

definition retained :: "instant \<Rightarrow> replay_entry \<Rightarrow> bool" where
  "retained now e \<longleftrightarrow> re_retainUntil e > now \<or> re_state e = Reserved"

definition purge_guard :: "instant \<Rightarrow> replay_guard \<Rightarrow> replay_guard" where
  "purge_guard now g = g\<lparr>rg_lastPurge := Some now,
     rg_entries := filter (\<lambda>(k, e). retained now e) (rg_entries g),
     rg_purged := rg_purged g + int (length (filter (\<lambda>(k, e). \<not> retained now e) (rg_entries g)))\<rparr>"

definition purge_due :: "nat \<Rightarrow> instant \<Rightarrow> replay_guard \<Rightarrow> bool" where
  "purge_due n now g \<longleftrightarrow> (case rg_lastPurge g of None \<Rightarrow> True | Some t \<Rightarrow> now - t \<ge> 250)
     \<or> length (rg_entries g) + n > rg_capacity g"

text \<open>The entries of one reservation, and the counters after it.\<close>

definition enter :: "(string \<times> instant) list \<Rightarrow> instant \<Rightarrow> replay_guard \<Rightarrow> replay_guard" where
  "enter requests now g =
     (let entries = fold (\<lambda>(key, retainMs). AList.update key \<lparr>re_state = Reserved, re_retainUntil = now + retainMs\<rparr>) requests (rg_entries g) in
      g\<lparr>rg_entries := entries, rg_reserved := rg_reserved g + int (length requests), rg_open := rg_open g + int (length requests),
        rg_highWater := (if length entries > rg_highWater g then length entries else rg_highWater g)\<rparr>)"

definition reserve :: "(string \<times> instant) list \<Rightarrow> instant \<Rightarrow> replay_guard \<Rightarrow> reserve_result \<times> replay_guard" where
  "reserve requests now g0 =
     (let g = (if purge_due (length requests) now g0 then purge_guard now g0 else g0) in
      if list_ex (\<lambda>r. map_of (rg_entries g) (fst r) \<noteq> None) requests
      then (Replayed, g\<lparr>rg_replayRejected := rg_replayRejected g + 1\<rparr>)
      else if \<not> distinct (map fst requests) then (Replayed, g\<lparr>rg_replayRejected := rg_replayRejected g + 1\<rparr>)
      else if length (rg_entries g) + length requests > rg_capacity g
      then (Full, g\<lparr>rg_capacityRejected := rg_capacityRejected g + 1\<rparr>)
      else (Granted \<lparr>tk_keys = map fst requests, tk_settled = False\<rparr>, enter requests now g))"

text \<open>\<open>transition\<close> and \<open>violation\<close> for one key.\<close>

definition transition_key :: "entry_state \<Rightarrow> string \<Rightarrow> replay_guard \<Rightarrow> replay_guard" where
  "transition_key next key g = (case map_of (rg_entries g) key of
     None \<Rightarrow> g\<lparr>rg_stateViolations := rg_stateViolations g + 1\<rparr>
   | Some e \<Rightarrow>
       if re_state e \<noteq> Reserved then g\<lparr>rg_stateViolations := rg_stateViolations g + 1\<rparr>
       else (let g1 = g\<lparr>rg_entries := AList.update key (e\<lparr>re_state := next\<rparr>) (rg_entries g), rg_open := rg_open g - 1\<rparr> in
         if next = Committed then g1\<lparr>rg_committed := rg_committed g1 + 1\<rparr> else g1\<lparr>rg_burned := rg_burned g1 + 1\<rparr>))"

definition transition :: "string list \<Rightarrow> entry_state \<Rightarrow> replay_guard \<Rightarrow> replay_guard" where
  "transition keys next g = fold (transition_key next) keys g"

definition violate_key :: "string \<Rightarrow> replay_guard \<Rightarrow> replay_guard" where
  "violate_key key g = (case map_of (rg_entries g) key of
     Some e \<Rightarrow>
       if re_state e = Committed
       then g\<lparr>rg_entries := AList.update key (e\<lparr>re_state := Burned\<rparr>) (rg_entries g),
              rg_committed := rg_committed g - 1, rg_burned := rg_burned g + 1\<rparr>
       else g
   | None \<Rightarrow> g)"

definition violation :: "string list \<Rightarrow> replay_guard \<Rightarrow> replay_guard" where
  "violation keys g = fold violate_key keys (g\<lparr>rg_stateViolations := rg_stateViolations g + 1\<rparr>)"

definition settle_ticket :: "entry_state \<Rightarrow> ticket \<Rightarrow> replay_guard \<Rightarrow> ticket \<times> replay_guard" where
  "settle_ticket next t g =
     (if tk_settled t then (t, violation (tk_keys t) g)
      else (t\<lparr>tk_settled := True\<rparr>, transition (tk_keys t) next g))"

definition stateOf :: "string \<Rightarrow> replay_guard \<Rightarrow> entry_state option" where
  "stateOf key g = map_option re_state (map_of (rg_entries g) key)"

subsection \<open>The clock fence\<close>

record clock_fence =
  fc_fenceMs :: instant
  fc_startOffset :: instant
  fc_threshold :: instant

definition new_fence :: "instant \<Rightarrow> instant \<Rightarrow> instant \<Rightarrow> clock_fence" where
  "new_fence wallMs monoMs stepThresholdMs =
     \<lparr>fc_fenceMs = wallMs, fc_startOffset = wallMs - monoMs, fc_threshold = stepThresholdMs\<rparr>"

definition stepDetected :: "clock_fence \<Rightarrow> instant \<Rightarrow> instant \<Rightarrow> bool" where
  "stepDetected f wallMs monoMs \<longleftrightarrow> \<bar>wallMs - monoMs - fc_startOffset f\<bar> > fc_threshold f"

subsection \<open>What a verifier relies on\<close>

text \<open>A store of single-use ids: \<open>reserve\<close> grants a list of ids, each with a retention, at a time, or refuses; \<open>other\<close> is any other
  operation; \<open>until s k\<close> is the time until which \<open>k\<close> is taken.\<close>

locale single_use =
  fixes grant :: "(string \<times> real) list \<Rightarrow> real \<Rightarrow> 's \<Rightarrow> bool \<times> 's"
    and other :: "'o \<Rightarrow> 's \<Rightarrow> 's"
    and until :: "'s \<Rightarrow> string \<Rightarrow> real option"
    and wf :: "'s \<Rightarrow> bool"
  assumes grant_wf: "wf s \<Longrightarrow> wf (snd (grant rs t s))"
    and other_wf: "wf s \<Longrightarrow> wf (other x s)"
    and granted_free: "wf s \<Longrightarrow> grant rs t s = (True, s') \<Longrightarrow> (k, d) \<in> set rs \<Longrightarrow> until s k = Some u \<Longrightarrow> u \<le> t"
    and granted_taken: "wf s \<Longrightarrow> grant rs t s = (True, s') \<Longrightarrow> (k, d) \<in> set rs \<Longrightarrow> until s' k = Some (t + d)"
    and grant_keeps: "wf s \<Longrightarrow> until s k = Some u \<Longrightarrow> until (snd (grant rs t s)) k = Some u \<or> u \<le> t"
    and other_keeps: "wf s \<Longrightarrow> until s k = Some u \<Longrightarrow> until (other x s) k = Some u"
begin

text \<open>Every granted id \<open>(k, t, d)\<close> is still taken, or its retention ended by the time \<open>hi\<close>.\<close>

definition spaced :: "(string \<times> real \<times> real) list \<Rightarrow> real \<Rightarrow> 's \<Rightarrow> bool" where
  "spaced grants hi s \<longleftrightarrow> (\<forall>(k, t, d) \<in> set grants. until s k = Some (t + d) \<or> t + d \<le> hi)"

lemma spaced_other: "wf s \<Longrightarrow> spaced grants hi s \<Longrightarrow> spaced grants hi (other x s)"
  using other_keeps by (fastforce simp: spaced_def)

lemma spaced_refused: "wf s \<Longrightarrow> spaced grants hi s \<Longrightarrow> hi \<le> t \<Longrightarrow> spaced grants t (snd (grant rs t s))"
  using grant_keeps by (fastforce simp: spaced_def)

lemma spaced_granted:
  assumes "wf s" "spaced grants hi s" "hi \<le> t" "grant rs t s = (True, s')"
  shows "spaced (grants @ map (\<lambda>(k, d). (k, t, d)) rs) t s'"
  using spaced_refused [OF assms(1-3), of rs] granted_taken [OF assms(1,4)] by (auto simp: spaced_def assms(4))

text \<open>A granted id was granted before only with a retention that has ended.\<close>

lemma granted_again:
  assumes "wf s" "spaced grants hi s" "hi \<le> t" "grant rs t s = (True, s')" "(k, d) \<in> set rs" "(k, t', d') \<in> set grants"
  shows "t' + d' \<le> t"
proof -
  have "until s k = Some (t' + d') \<or> t' + d' \<le> hi" using assms(2,6) by (auto simp: spaced_def)
  then show ?thesis using granted_free [OF assms(1,4,5)] assms(3) by auto
qed

end

subsection \<open>Histories\<close>

datatype guard_op = Reserve "(string \<times> instant) list" instant | Settle nat entry_state

type_synonym guard_world = "replay_guard \<times> ticket list"

definition guard_op_step :: "guard_op \<Rightarrow> guard_world \<Rightarrow> guard_world" where
  "guard_op_step op w = (case op of
     Reserve requests now \<Rightarrow> (case reserve requests now (fst w) of
         (Granted t, g) \<Rightarrow> (g, snd w @ [t])
       | (_, g) \<Rightarrow> (g, snd w))
   | Settle i next \<Rightarrow>
       if i < length (snd w) then (case settle_ticket next (snd w ! i) (fst w) of (t, g) \<Rightarrow> (g, (snd w)[i := t])) else w)"

definition guard_ops_run :: "guard_op list \<Rightarrow> guard_world \<Rightarrow> guard_world" where
  "guard_ops_run ops w = fold guard_op_step ops w"

text \<open>A verifier settles a ticket as committed or as burned.\<close>

fun op_settles :: "guard_op \<Rightarrow> bool" where
  "op_settles (Settle i next) \<longleftrightarrow> next \<noteq> Reserved"
| "op_settles (Reserve requests now) \<longleftrightarrow> True"

definition entries_in :: "entry_state \<Rightarrow> replay_guard \<Rightarrow> int" where
  "entries_in st g = int (length (filter (\<lambda>(k, e). re_state e = st) (rg_entries g)))"

definition replay_ok :: "replay_guard \<Rightarrow> bool" where
  "replay_ok g \<longleftrightarrow> jsmap_ok (rg_entries g) \<and> length (rg_entries g) \<le> rg_capacity g \<and> rg_highWater g \<le> rg_capacity g
     \<and> length (rg_entries g) \<le> rg_highWater g
     \<and> rg_open g = entries_in Reserved g \<and> rg_reserved g = rg_open g + rg_committed g + rg_burned g
     \<and> int (length (rg_entries g)) = rg_reserved g - rg_purged g"

subsection \<open>Invariant\<close>

definition int_of :: "bool \<Rightarrow> int" where "int_of b = (if b then 1 else 0)"

lemma filter_update_count:
  "jsmap_ok m \<Longrightarrow> map_of m k = Some e \<Longrightarrow>
    int (length (filter (\<lambda>(k, x). P x) (AList.update k e' m))) = int (length (filter (\<lambda>(k, x). P x) m)) - int_of (P e) + int_of (P e')"
proof (induction m)
  case Nil
  then show ?case by simp
next
  case (Cons kv m)
  obtain k1 x where kv: "kv = (k1, x)" by (cases kv)
  have ok: "jsmap_ok m" using Cons.prems(1) by (simp add: jsmap_ok_def)
  show ?case using Cons.IH [OF ok] Cons.prems(2) by (cases "k1 = k") (auto simp: kv int_of_def)
qed

lemma fold_update_new:
  "distinct (map fst rs) \<Longrightarrow> \<forall>r \<in> set rs. map_of m (fst r) = None \<Longrightarrow>
    fold (\<lambda>(k, d). AList.update k (f d)) rs m = m @ map (\<lambda>(k, d). (k, f d)) rs"
proof (induction rs arbitrary: m)
  case Nil
  then show ?case by simp
next
  case (Cons r rs)
  obtain k d where r: "r = (k, d)" by (cases r)
  have u: "AList.update k (f d) m = m @ [(k, f d)]" using Cons.prems(2) by (simp add: r update_new_append)
  have "\<forall>x \<in> set rs. map_of (m @ [(k, f d)]) (fst x) = None"
    using Cons.prems by (auto simp: r map_of_eq_None_iff)
  with Cons.IH [of "m @ [(k, f d)]"] Cons.prems(1) show ?case by (simp add: r u)
qed

definition guard_wf :: "replay_guard \<Rightarrow> bool" where "guard_wf g \<longleftrightarrow> jsmap_ok (rg_entries g)"

definition taken_until :: "replay_guard \<Rightarrow> string \<Rightarrow> real option" where
  "taken_until g k = map_option re_retainUntil (map_of (rg_entries g) k)"

text \<open>The guard a reservation looks at.\<close>

definition purged_first :: "nat \<Rightarrow> instant \<Rightarrow> replay_guard \<Rightarrow> replay_guard" where
  "purged_first n now g = (if purge_due n now g then purge_guard now g else g)"

lemma purge_wf: "guard_wf g \<Longrightarrow> guard_wf (purged_first n now g)"
  by (simp add: guard_wf_def purged_first_def purge_guard_def)

lemma purged_lookup:
  assumes "guard_wf g" "map_of (rg_entries g) k = Some e"
  shows "map_of (rg_entries (purged_first n now g)) k = Some e \<or> re_retainUntil e \<le> now \<and> re_state e \<noteq> Reserved"
proof -
  have "map_of (filter (\<lambda>(k, e). retained now e) (rg_entries g)) k = (if retained now e then Some e else None)"
    using assms map_of_filter_val [of "rg_entries g" "\<lambda>k e. retained now e" k] by (simp add: guard_wf_def)
  then show ?thesis using assms(2) by (auto simp: purged_first_def purge_guard_def retained_def)
qed

definition refusal :: "replay_guard \<Rightarrow> replay_guard \<Rightarrow> bool" where
  "refusal g h \<longleftrightarrow> h = g\<lparr>rg_replayRejected := rg_replayRejected g + 1\<rparr> \<or> h = g\<lparr>rg_capacityRejected := rg_capacityRejected g + 1\<rparr>"

lemma refusal_same:
  "refusal g h \<Longrightarrow> rg_entries h = rg_entries g \<and> rg_capacity h = rg_capacity g \<and> rg_open h = rg_open g \<and> rg_reserved h = rg_reserved g
    \<and> rg_committed h = rg_committed g \<and> rg_burned h = rg_burned g \<and> rg_purged h = rg_purged g \<and> rg_highWater h = rg_highWater g"
  by (auto simp: refusal_def)

lemma reserve_cases:
  obtains (Granted) "reserve rs now g = (Granted \<lparr>tk_keys = map fst rs, tk_settled = False\<rparr>, enter rs now (purged_first (length rs) now g))"
      "\<forall>r \<in> set rs. map_of (rg_entries (purged_first (length rs) now g)) (fst r) = None" "distinct (map fst rs)"
      "length (rg_entries (purged_first (length rs) now g)) + length rs \<le> rg_capacity (purged_first (length rs) now g)"
  | (Refused) r h where "reserve rs now g = (r, h)" "r = Replayed \<or> r = Full" "refusal (purged_first (length rs) now g) h"
proof -
  define g1 where "g1 = purged_first (length rs) now g"
  have r: "reserve rs now g =
     (if list_ex (\<lambda>r. map_of (rg_entries g1) (fst r) \<noteq> None) rs then (Replayed, g1\<lparr>rg_replayRejected := rg_replayRejected g1 + 1\<rparr>)
      else if \<not> distinct (map fst rs) then (Replayed, g1\<lparr>rg_replayRejected := rg_replayRejected g1 + 1\<rparr>)
      else if length (rg_entries g1) + length rs > rg_capacity g1 then (Full, g1\<lparr>rg_capacityRejected := rg_capacityRejected g1 + 1\<rparr>)
      else (Granted \<lparr>tk_keys = map fst rs, tk_settled = False\<rparr>, enter rs now g1))"
    by (simp add: reserve_def Let_def g1_def purged_first_def)
  consider "list_ex (\<lambda>r. map_of (rg_entries g1) (fst r) \<noteq> None) rs \<or> \<not> distinct (map fst rs)"
    | "\<not> list_ex (\<lambda>r. map_of (rg_entries g1) (fst r) \<noteq> None) rs" "distinct (map fst rs)" "length (rg_entries g1) + length rs > rg_capacity g1"
    | "\<not> list_ex (\<lambda>r. map_of (rg_entries g1) (fst r) \<noteq> None) rs" "distinct (map fst rs)" "length (rg_entries g1) + length rs \<le> rg_capacity g1"
    by fastforce
  then show thesis
  proof cases
    case 1
    then have "reserve rs now g = (Replayed, g1\<lparr>rg_replayRejected := rg_replayRejected g1 + 1\<rparr>)" by (auto simp: r)
    then show thesis by (rule Refused) (simp_all add: refusal_def g1_def)
  next
    case 2
    then have "reserve rs now g = (Full, g1\<lparr>rg_capacityRejected := rg_capacityRejected g1 + 1\<rparr>)" by (simp add: r)
    then show thesis by (rule Refused) (simp_all add: refusal_def g1_def)
  next
    case 3
    then show thesis using Granted by (auto simp: r g1_def list_ex_iff)
  qed
qed

definition new_entries :: "(string \<times> instant) list \<Rightarrow> instant \<Rightarrow> (string, replay_entry) jsmap" where
  "new_entries rs now = map (\<lambda>(k, d). (k, \<lparr>re_state = Reserved, re_retainUntil = now + d\<rparr>)) rs"

lemma new_entries_keys: "map fst (new_entries rs now) = map fst rs"
  by (simp add: new_entries_def split_beta)

lemma new_entries_lookup:
  assumes "(k, d) \<in> set rs" "distinct (map fst rs)"
  shows "map_of (new_entries rs now) k = Some \<lparr>re_state = Reserved, re_retainUntil = now + d\<rparr>"
proof (rule map_of_is_SomeI)
  show "distinct (map fst (new_entries rs now))" using assms(2) by (simp only: new_entries_keys)
  show "(k, \<lparr>re_state = Reserved, re_retainUntil = now + d\<rparr>) \<in> set (new_entries rs now)"
    using assms(1) by (force simp: new_entries_def)
qed

lemma new_entries_None: "map_of (new_entries rs now) k = None \<longleftrightarrow> k \<notin> set (map fst rs)"
  using new_entries_keys [of rs now] by (metis map_of_eq_None_iff set_map)

lemma enter_entries:
  assumes "distinct (map fst rs)" "\<forall>r \<in> set rs. map_of (rg_entries g) (fst r) = None"
  shows "rg_entries (enter rs now g) = rg_entries g @ new_entries rs now"
  using fold_update_new [OF assms, of "\<lambda>d. \<lparr>re_state = Reserved, re_retainUntil = now + d\<rparr>"] by (simp add: enter_def Let_def new_entries_def)

lemma fresh_keys: "(\<forall>r \<in> set rs. map_of m (fst r) = None) \<longleftrightarrow> set (map fst m) \<inter> set (map fst rs) = {}"
  by (induction rs) (auto simp: map_of_eq_None_iff)

lemma enter_wf:
  assumes "guard_wf g" "distinct (map fst rs)" "\<forall>r \<in> set rs. map_of (rg_entries g) (fst r) = None"
  shows "guard_wf (enter rs now g)"
  using assms(1,2) assms(3) [unfolded fresh_keys]
  unfolding guard_wf_def jsmap_ok_def enter_entries [OF assms(2,3)] map_append distinct_append new_entries_keys by simp

lemma reserve_wf: "guard_wf g \<Longrightarrow> guard_wf (snd (reserve rs now g))"
  using purge_wf [of g "length rs" now] enter_wf
  by (cases rule: reserve_cases [of rs now g]) (auto simp: guard_wf_def dest: refusal_same)

lemma transition_key_wf: "guard_wf g \<Longrightarrow> guard_wf (transition_key next k g)"
  by (auto simp: guard_wf_def transition_key_def Let_def split: option.splits)

lemma violate_key_wf: "guard_wf g \<Longrightarrow> guard_wf (violate_key k g)"
  by (auto simp: guard_wf_def violate_key_def split: option.splits)

lemma transition_key_until: "taken_until (transition_key next k g) x = taken_until g x"
  by (auto simp: taken_until_def transition_key_def Let_def split: option.splits)

lemma violate_key_until: "taken_until (violate_key k g) x = taken_until g x"
  by (auto simp: taken_until_def violate_key_def split: option.splits)

lemma settle_keeps:
  "guard_wf g \<Longrightarrow> guard_wf (snd (settle_ticket next t g))" "taken_until (snd (settle_ticket next t g)) x = taken_until g x"
proof -
  have "guard_wf g \<Longrightarrow> guard_wf (fold (transition_key next) ks g)" "taken_until (fold (transition_key next) ks g) x = taken_until g x" for ks
    by (induction ks arbitrary: g) (simp_all add: transition_key_wf transition_key_until)
  moreover have "guard_wf g \<Longrightarrow> guard_wf (fold violate_key ks g)" "taken_until (fold violate_key ks g) x = taken_until g x" for ks g
    by (induction ks arbitrary: g) (simp_all add: violate_key_wf violate_key_until)
  ultimately show "guard_wf g \<Longrightarrow> guard_wf (snd (settle_ticket next t g))" "taken_until (snd (settle_ticket next t g)) x = taken_until g x"
    by (simp_all add: settle_ticket_def transition_def violation_def guard_wf_def taken_until_def)
qed

subsection \<open>The guard is a store of single-use ids\<close>

definition grant_ids :: "(string \<times> instant) list \<Rightarrow> instant \<Rightarrow> replay_guard \<Rightarrow> bool \<times> replay_guard" where
  "grant_ids rs now g = (case reserve rs now g of (Granted t, h) \<Rightarrow> (True, h) | (_, h) \<Rightarrow> (False, h))"

definition settle_by :: "ticket \<times> entry_state \<Rightarrow> replay_guard \<Rightarrow> replay_guard" where
  "settle_by x g = snd (settle_ticket (snd x) (fst x) g)"

lemma grant_ids_reserve: "snd (grant_ids rs now g) = snd (reserve rs now g)"
  by (auto simp: grant_ids_def split: prod.splits reserve_result.splits)

lemma taken_purged:
  assumes "guard_wf g" "taken_until g k = Some u"
  shows "taken_until (purged_first n now g) k = Some u \<or> u \<le> now"
  using assms purged_lookup [OF assms(1), of k _ n now] by (fastforce simp: taken_until_def)

lemma granted_until:
  assumes "guard_wf g" "distinct (map fst rs)" "\<forall>r \<in> set rs. map_of (rg_entries g) (fst r) = None"
  shows "(k, d) \<in> set rs \<Longrightarrow> taken_until (enter rs now g) k = Some (now + d)"
    and "taken_until g k = Some u \<Longrightarrow> taken_until (enter rs now g) k = Some u"
proof -
  show "taken_until (enter rs now g) k = Some (now + d)" if "(k, d) \<in> set rs"
    using new_entries_lookup [OF that assms(2), of now] assms(3) that
    by (auto simp: taken_until_def enter_entries [OF assms(2,3)] map_add_Some_iff)
  show "taken_until (enter rs now g) k = Some u" if u: "taken_until g k = Some u"
  proof -
    have "k \<notin> set (map fst rs)" using assms(3) u by (auto simp: taken_until_def)
    then have "map_of (new_entries rs now) k = None" unfolding new_entries_None .
    then show ?thesis using u by (auto simp: taken_until_def enter_entries [OF assms(2,3)] map_add_def)
  qed
qed

interpretation replay: single_use grant_ids settle_by taken_until guard_wf
proof
  fix s :: replay_guard and rs t x k u
  assume wf: "guard_wf s"
  note wf1 = purge_wf [OF wf, of "length rs" t]
  show "guard_wf (snd (grant_ids rs t s))" by (simp add: grant_ids_reserve reserve_wf wf)
  show "guard_wf (settle_by x s)" by (simp add: settle_by_def settle_keeps wf)
  show "taken_until (settle_by x s) k = Some u" if "taken_until s k = Some u" using that by (simp add: settle_by_def settle_keeps)
  show "taken_until (snd (grant_ids rs t s)) k = Some u \<or> u \<le> t" if u: "taken_until s k = Some u"
    using taken_purged [OF wf u, of "length rs" t] granted_until(2) [OF wf1, of rs k u t]
    by (cases rule: reserve_cases [of rs t s]) (auto simp: grant_ids_reserve taken_until_def dest: refusal_same)
next
  fix s s' :: replay_guard and rs t k d u
  assume wf: "guard_wf s" and g: "grant_ids rs t s = (True, s')" and kd: "(k, d) \<in> set rs"
  note wf1 = purge_wf [OF wf, of "length rs" t]
  have n: "\<forall>r \<in> set rs. map_of (rg_entries (purged_first (length rs) t s)) (fst r) = None" "distinct (map fst rs)"
    "s' = enter rs t (purged_first (length rs) t s)"
    using g by (cases rule: reserve_cases [of rs t s]; auto simp: grant_ids_def)+
  show "taken_until s' k = Some (t + d)" using granted_until(1) [OF wf1 n(2,1) kd] n(3) by simp
  show "u \<le> t" if "taken_until s k = Some u"
    using taken_purged [OF wf that, of "length rs" t] n(1) kd by (fastforce simp: taken_until_def)
qed

subsection \<open>Accounting\<close>

lemma new_guard_ok: "new_guard c = Inr g \<Longrightarrow> replay_ok g \<and> rg_capacity g = nat c"
  by (auto simp: new_guard_def replay_ok_def jsmap_ok_def entries_in_def split: if_splits)

lemma filter_split_length: "int (length m) = int (length (filter P m)) + int (length (filter (\<lambda>x. \<not> P x) m))"
  by (induction m) auto

lemma purge_ok: "replay_ok g \<Longrightarrow> replay_ok (purged_first n now g)"
proof -
  have "filter (\<lambda>(k, e). re_state e = Reserved) (filter (\<lambda>(k, e). retained now e) m) = filter (\<lambda>(k, e). re_state e = Reserved) m"
    for m :: "(string, replay_entry) jsmap" by (induction m) (auto simp: retained_def)
  moreover have not_retained: "filter (\<lambda>x. \<not> (case x of (k, e) \<Rightarrow> retained now e)) m = filter (\<lambda>(k, e). \<not> retained now e) m"
    for m :: "(string, replay_entry) jsmap" by (rule filter_cong) auto
  ultimately show "replay_ok g \<Longrightarrow> replay_ok (purged_first n now g)"
    using filter_split_length [of "rg_entries g" "\<lambda>(k, e). retained now e"] length_filter_le [of "\<lambda>(k, e). retained now e" "rg_entries g"]
      not_retained [of "rg_entries g"]
    by (auto simp: replay_ok_def purged_first_def purge_guard_def entries_in_def)
qed

lemma enter_ok:
  assumes "replay_ok g" "distinct (map fst rs)" "\<forall>r \<in> set rs. map_of (rg_entries g) (fst r) = None"
    "length (rg_entries g) + length rs \<le> rg_capacity g"
  shows "replay_ok (enter rs now g)"
proof -
  have wf: "guard_wf g" using assms(1) by (simp add: replay_ok_def guard_wf_def)
  have n: "filter (\<lambda>(k, e). re_state e = Reserved) (new_entries rs now) = new_entries rs now" "length (new_entries rs now) = length rs"
    by (auto simp: new_entries_def filter_id_conv)
  have e: "rg_entries (enter rs now g) = rg_entries g @ new_entries rs now" by (rule enter_entries [OF assms(2,3)])
  have f: "rg_open (enter rs now g) = rg_open g + int (length rs)" "rg_reserved (enter rs now g) = rg_reserved g + int (length rs)"
    "rg_committed (enter rs now g) = rg_committed g" "rg_burned (enter rs now g) = rg_burned g" "rg_purged (enter rs now g) = rg_purged g"
    "rg_capacity (enter rs now g) = rg_capacity g" "rg_highWater (enter rs now g) = max (rg_highWater g) (length (rg_entries (enter rs now g)))"
    by (auto simp: enter_def Let_def max_def)
  have "jsmap_ok (rg_entries (enter rs now g))" using enter_wf [OF wf assms(2,3)] by (simp add: guard_wf_def)
  then show ?thesis using assms(1,4) by (auto simp: replay_ok_def f entries_in_def e n)
qed

lemma reserve_ok: "replay_ok g \<Longrightarrow> replay_ok (snd (reserve rs now g))"
  using purge_ok [of g "length rs" now] enter_ok
  by (cases rule: reserve_cases [of rs now g]) (auto simp: replay_ok_def entries_in_def dest: refusal_same)

lemma transition_key_ok: "replay_ok g \<Longrightarrow> next \<noteq> Reserved \<Longrightarrow> replay_ok (transition_key next k g)"
proof -
  assume ok: "replay_ok g" and n: "next \<noteq> Reserved"
  have m: "jsmap_ok (rg_entries g)" using ok by (simp add: replay_ok_def)
  show ?thesis
    using ok n filter_update_count [OF m, of k _ "\<lambda>e. re_state e = Reserved"]
    by (auto simp: transition_key_def replay_ok_def entries_in_def int_of_def Let_def split: option.splits)
qed

lemma violate_key_ok: "replay_ok g \<Longrightarrow> replay_ok (violate_key k g)"
proof -
  assume ok: "replay_ok g"
  have m: "jsmap_ok (rg_entries g)" using ok by (simp add: replay_ok_def)
  show ?thesis
    using ok filter_update_count [OF m, of k _ "\<lambda>e. re_state e = Reserved"]
    by (auto simp: violate_key_def replay_ok_def entries_in_def int_of_def split: option.splits)
qed

lemma settle_ok: "replay_ok g \<Longrightarrow> next \<noteq> Reserved \<Longrightarrow> replay_ok (snd (settle_ticket next t g))"
proof -
  have "replay_ok g \<Longrightarrow> next \<noteq> Reserved \<Longrightarrow> replay_ok (fold (transition_key next) ks g)" for ks g
    by (induction ks arbitrary: g) (simp_all add: transition_key_ok)
  moreover have "replay_ok g \<Longrightarrow> replay_ok (fold violate_key ks g)" for ks g
    by (induction ks arbitrary: g) (simp_all add: violate_key_ok)
  ultimately show "replay_ok g \<Longrightarrow> next \<noteq> Reserved \<Longrightarrow> replay_ok (snd (settle_ticket next t g))"
    by (simp add: settle_ticket_def transition_def violation_def) (simp add: replay_ok_def entries_in_def)
qed

lemma guard_op_guard:
  "fst (guard_op_step op w) = (case op of
     Reserve rs now \<Rightarrow> snd (reserve rs now (fst w))
   | Settle i next \<Rightarrow> if i < length (snd w) then snd (settle_ticket next (snd w ! i) (fst w)) else fst w)"
  by (auto simp: guard_op_step_def split: guard_op.splits prod.splits reserve_result.splits)

lemma guard_op_ok: "replay_ok (fst w) \<Longrightarrow> op_settles op \<Longrightarrow> replay_ok (fst (guard_op_step op w))"
  by (cases op) (simp_all add: guard_op_guard reserve_ok settle_ok)

lemma transition_key_capacity [simp]: "rg_capacity (transition_key next k g) = rg_capacity g"
  by (auto simp: transition_key_def Let_def split: option.splits)

lemma violate_key_capacity [simp]: "rg_capacity (violate_key k g) = rg_capacity g"
  by (auto simp: violate_key_def split: option.splits)

lemma settle_capacity: "rg_capacity (snd (settle_ticket next t g)) = rg_capacity g"
proof -
  have "rg_capacity (fold (transition_key next) ks g) = rg_capacity g" "rg_capacity (fold violate_key ks g) = rg_capacity g" for ks g
    by (induction ks arbitrary: g) simp_all
  then show ?thesis by (simp add: settle_ticket_def transition_def violation_def)
qed

lemma reserve_capacity: "rg_capacity (snd (reserve rs now g)) = rg_capacity g"
  by (cases rule: reserve_cases [of rs now g]) (auto simp: enter_def Let_def purged_first_def purge_guard_def dest: refusal_same)

lemma guard_op_capacity: "rg_capacity (fst (guard_op_step op w)) = rg_capacity (fst w)"
  by (cases op) (simp_all add: guard_op_guard reserve_capacity settle_capacity)

lemma guard_ops_ok:
  "list_all op_settles ops \<Longrightarrow> replay_ok (fst w) \<Longrightarrow>
    replay_ok (fst (guard_ops_run ops w)) \<and> rg_capacity (fst (guard_ops_run ops w)) = rg_capacity (fst w)"
  by (induction ops arbitrary: w) (simp_all add: guard_ops_run_def guard_op_ok guard_op_capacity)

text \<open>The guard accounts for every id: whatever is reserved and settled, in any order and also twice, it holds at most its capacity, an open
  id is one that is still reserved, and every id ever reserved is open, committed or burned, and held or purged.\<close>

theorem replay_guard_accounts:
  assumes "new_guard capacity = Inr g" "list_all op_settles ops"
  shows "let h = fst (guard_ops_run ops (g, [])) in
    int (length (rg_entries h)) \<le> capacity \<and> int (rg_highWater h) \<le> capacity \<and> rg_open h = entries_in Reserved h
    \<and> rg_reserved h = rg_open h + rg_committed h + rg_burned h \<and> int (length (rg_entries h)) = rg_reserved h - rg_purged h"
proof -
  have "0 < capacity" using assms(1) by (auto simp: new_guard_def is_positive_safe_integer_def split: if_splits)
  moreover have "replay_ok (fst (guard_ops_run ops (g, []))) \<and> rg_capacity (fst (guard_ops_run ops (g, []))) = nat capacity"
    using guard_ops_ok [OF assms(2), of "(g, [])"] new_guard_ok [OF assms(1)] by simp
  ultimately show ?thesis unfolding Let_def replay_ok_def by linarith
qed

definition sample_guard :: replay_guard where
  "sample_guard = projr (new_guard 2)"

lemma sample_new_guard: "new_guard 2 = Inr sample_guard"
  by (simp add: sample_guard_def new_guard_def is_positive_safe_integer_def is_safe_integer_def MAX_SAFE_INTEGER_def)

theorem replay_guard_accounts_witness:
  "int (length (rg_entries (fst (guard_ops_run [Reserve [(''a'', 10), (''b'', 20)] 0, Settle 0 Committed, Settle 0 Burned, Reserve [(''c'', 5)] 300]
     (sample_guard, []))))) \<le> 2"
  using replay_guard_accounts [OF sample_new_guard, of "[Reserve [(''a'', 10), (''b'', 20)] 0, Settle 0 Committed, Settle 0 Burned,
    Reserve [(''c'', 5)] 300]"] by (simp add: Let_def)

end
