(* ===== verification/Hop_Admission.thy ===== *)
theory Hop_Admission
  imports Hop_Proof Replay_Guard
begin

text \<open>
  The ordered admission of the Origin Boundary and of the Protected App (\<^verbatim>\<open>defense/core/hop-admission.ts\<close>).

  \<^verbatim>\<open>admitHopRequest\<close> runs synchronously up to its only await, the read of the body; \<open>on_arrival\<close> is that segment. The events of the
  body stream are steps of their own, and \<open>admit_finish\<close> is what follows the read. Calls interleave at these points: a verifier is the
  replay guard, the statistics and the list of its calls. The wall clock and the monotonic clock are read when a request arrives. The runtime's own
  view of the headers (\<^verbatim>\<open>crossCheck\<close>) is an argument, \<^const>\<open>None\<close> when it throws. A handler of the stream that runs after
  \<^verbatim>\<open>finish\<close> has been removed or does nothing.

  The theorems: an admitted request is one the plane approved, byte for byte; no proof is admitted twice, across any interleaving; and
  a request without a valid signature neither takes a replay entry nor has a byte of its body read.
\<close>

definition RETAIN_PB_MS :: int where "RETAIN_PB_MS = PB_MAX_LIFETIME_MS + 2 * HOP_SKEW_MS + 1000"
definition RETAIN_BA_MS :: int where "RETAIN_BA_MS = BA_MAX_LIFETIME_MS + 2 * HOP_SKEW_MS + 1000"

record 'k admission_config =
  ad_role :: hop_role
  ad_keyP :: 'k
  ad_kidP :: string
  ad_boundaryId :: string
  ad_keyB :: 'k
  ad_kidB :: string
  ad_appId :: string
  ad_fence :: clock_fence

definition own_key :: "'k admission_config \<Rightarrow> 'k" where
  "own_key c = (if ad_role c = Pb then ad_keyP c else ad_keyB c)"
definition own_kid :: "'k admission_config \<Rightarrow> string" where
  "own_kid c = (if ad_role c = Pb then ad_kidP c else ad_kidB c)"
definition own_aud :: "'k admission_config \<Rightarrow> string" where
  "own_aud c = (if ad_role c = Pb then ad_boundaryId c else ad_appId c)"

record hop_request =
  hq_method :: string
  hq_url :: string
  hq_rawHeaders :: "string list"

record admitted =
  am_nonce :: string
  am_hop :: int
  am_pbTag :: string
  am_baTag :: "string option"
  am_claims :: claims
  am_body :: bytes
  am_pb :: verified_pb

datatype admission_outcome = Admitted_request admitted | Refused ob_reason "string option"

record admission_stats =
  st_contentReadsStarted :: nat
  st_contentBytesRead :: nat

definition sameRequest :: "semantic_request \<Rightarrow> semantic_request \<Rightarrow> bool" where
  "sameRequest a b \<longleftrightarrow> sr_method a = sr_method b \<and> sr_target a = sr_target b \<and> samePairs (sr_pairs a) (sr_pairs b)
     \<and> sr_bodyLen a = sr_bodyLen b \<and> sr_bodySha256 a = sr_bodySha256 b"

subsection \<open>Reading the body\<close>

datatype body_result = BodyComplete bytes | BodyIncomplete | BodyOverflow
datatype body_event = Chunk bytes | BodyEnd | BodyClosed | BodyTimeout

text \<open>One event of the stream on the bytes read so far: the new bytes, and the result when the read is finished.\<close>

definition on_body_event :: "nat \<Rightarrow> body_event \<Rightarrow> bytes \<Rightarrow> bytes \<times> body_result option" where
  "on_body_event expected ev got = (case ev of
     Chunk b \<Rightarrow> if length (got @ b) > expected then ([], Some BodyOverflow) else (got @ b, None)
   | BodyEnd \<Rightarrow> (got, Some (if length got = expected then BodyComplete got else BodyIncomplete))
   | BodyClosed \<Rightarrow> (got, Some BodyIncomplete)
   | BodyTimeout \<Rightarrow> (got, Some BodyIncomplete))"

subsection \<open>The synchronous segment\<close>

text \<open>Steps 1 and 2: the proof headers and the closed header set.\<close>

definition presence_check :: "hop_role \<Rightarrow> hop_scan \<Rightarrow> ob_reason option" where
  "presence_check role scan =
     (let own = (if role = Pb then hs_pb scan else hs_ba scan) in
      if own = [] then Some ob_proof_missing
      else if length own > 1 then Some ob_proof_duplicate
      else if role = Pb \<and> hs_ba scan \<noteq> [] then Some ob_header_unbound
      else if role = Ba \<and> hs_pb scan = [] then Some ob_lineage_missing
      else if role = Ba \<and> length (hs_pb scan) > 1 then Some ob_proof_duplicate
      else scan_violation scan)"

text \<open>Step 5: the wire is what the claims say.\<close>

definition wire_check :: "hop_request \<Rightarrow> hop_scan \<Rightarrow> semantic_request \<Rightarrow> ob_reason option" where
  "wire_check request scan wanted =
     (if hq_method request \<noteq> sr_method wanted then Some ob_method_mismatch
      else if hq_url request \<noteq> sr_target wanted then Some ob_target_mismatch
      else if \<not> samePairs (scan_pairs scan) (sr_pairs wanted) then Some ob_header_mismatch
      else if sr_method wanted = ''POST'' \<and> read_nat (hs_contentLengths scan ! 0) \<noteq> sr_bodyLen wanted then Some ob_length_mismatch
      else None)"

text \<open>Step 6 of the App: the lineage of a BA is a PB over the same request.\<close>

definition lineage_check ::
  "'k hop_runtime \<Rightarrow> 'k admission_config \<Rightarrow> real \<Rightarrow> string \<Rightarrow> claims \<Rightarrow> ob_reason + claims" where
  "lineage_check rt config nowMs pbHeader ba = (case decodeProof rt pbHeader Pb of
     Inl e \<Rightarrow> Inl e
   | Inr lineage \<Rightarrow> (let pb = de_claims lineage in
       case checkProofWindow pb [(ad_kidP config, ad_keyP config)] (ad_boundaryId config) nowMs (fc_fenceMs (ad_fence config)) of
         Some e \<Rightarrow> Inl e
       | None \<Rightarrow>
           if cl_lineage ba \<noteq> Some (cl_jti pb, sha256B64 rt (hr_utf8 rt pbHeader))
             \<or> cl_hop ba \<noteq> cl_hop pb \<or> cl_corr ba \<noteq> cl_corr pb \<or> \<not> sameRequest (cl_request ba) (cl_request pb)
           then Inl ob_lineage_mismatch
           else if \<not> verifyProofSignature rt Pb lineage (ad_keyP config) then Inl ob_signature_invalid
           else Inr pb))"

text \<open>A verified request: its claims, the proof of the plane and its header, and the name a refusal is filed under.\<close>

record verified_request =
  vr_claims :: claims
  vr_pb :: verified_pb
  vr_authNonce :: string

text \<open>The measurement tag of a request.\<close>

definition tag_of :: "hop_scan \<Rightarrow> string option" where
  "tag_of scan = (if length (hs_nonces scan) = 1 \<and> is_measurement_tag (hs_nonces scan ! 0) then Some (hs_nonces scan ! 0) else None)"

text \<open>Steps 1 to 6.\<close>

definition verify_request ::
  "'k hop_runtime \<Rightarrow> 'k admission_config \<Rightarrow> hop_request \<Rightarrow> real \<Rightarrow> admission_outcome + verified_request" where
  "verify_request rt config request nowMs =
     (let scan = scanHopHeaders (hq_rawHeaders request) (hq_method request); tag = tag_of scan;
          own = (if ad_role config = Pb then hs_pb scan else hs_ba scan) in
      case presence_check (ad_role config) scan of
        Some e \<Rightarrow> Inl (Refused e tag)
      | None \<Rightarrow> (case decodeProof rt (own ! 0) (ad_role config) of
          Inl e \<Rightarrow> Inl (Refused e tag)
        | Inr d \<Rightarrow> (let c = de_claims d in
            case checkProofWindow c [(own_kid config, own_key config)] (own_aud config) nowMs (fc_fenceMs (ad_fence config)) of
              Some e \<Rightarrow> Inl (Refused e tag)
            | None \<Rightarrow> (case wire_check request scan (cl_request c) of
                Some e \<Rightarrow> Inl (Refused e tag)
              | None \<Rightarrow>
                  if \<not> verifyProofSignature rt (ad_role config) d (own_key config) then Inl (Refused ob_signature_invalid tag)
                  else (let authNonce = (case tag of None \<Rightarrow> cl_corr c | Some n \<Rightarrow> n) in
                    if ad_role config = Pb
                    then Inr \<lparr>vr_claims = c, vr_pb = \<lparr>vp_claims = c, vp_header = own ! 0\<rparr>, vr_authNonce = authNonce\<rparr>
                    else (case lineage_check rt config nowMs (hs_pb scan ! 0) c of
                        Inl e \<Rightarrow> Inl (Refused e (Some authNonce))
                      | Inr pb \<Rightarrow> Inr \<lparr>vr_claims = c, vr_pb = \<lparr>vp_claims = pb, vp_header = hs_pb scan ! 0\<rparr>,
                          vr_authNonce = authNonce\<rparr>))))))"

text \<open>Step 7: the ids a request reserves.\<close>

definition replay_ids :: "hop_role \<Rightarrow> verified_request \<Rightarrow> (string \<times> instant) list" where
  "replay_ids role v =
     (if role = Pb then [(''pb:'' @ cl_jti (vp_claims (vr_pb v)), real_of_int RETAIN_PB_MS)]
      else [(''ba:'' @ cl_jti (vr_claims v), real_of_int RETAIN_BA_MS),
            (''ln:'' @ cl_jti (vp_claims (vr_pb v)), real_of_int RETAIN_PB_MS)])"

subsection \<open>Steps 8 and 9\<close>

text \<open>After the body was read: the digest, the runtime's view of the headers, and the commit. \<open>Inl\<close> is a refusal, which burns the ticket.\<close>

definition admit_checks ::
  "'k hop_runtime \<Rightarrow> hop_role \<Rightarrow> verified_request \<Rightarrow> string option \<Rightarrow> bool option \<Rightarrow> body_result \<Rightarrow> admission_outcome" where
  "admit_checks rt role v tag crossCheck result =
     (let wanted = cl_request (vr_claims v); pb = vp_claims (vr_pb v) in
      case result of
        BodyIncomplete \<Rightarrow> Refused ob_content_incomplete (Some (vr_authNonce v))
      | BodyOverflow \<Rightarrow> Refused ob_length_mismatch (Some (vr_authNonce v))
      | BodyComplete body \<Rightarrow>
          if (if sr_bodyLen wanted = 0 then EMPTY_BODY_SHA256 else sha256B64 rt body) \<noteq> sr_bodySha256 wanted
          then Refused ob_digest_mismatch (Some (vr_authNonce v))
          else (case crossCheck of
              None \<Rightarrow> Refused ob_canon_error tag
            | Some False \<Rightarrow> Refused ob_canon_error (Some (vr_authNonce v))
            | Some True \<Rightarrow> Admitted_request \<lparr>am_nonce = cl_corr (vr_claims v), am_hop = cl_hop (vr_claims v),
                am_pbTag = proofTag rt ''pb'' (cl_jti pb),
                am_baTag = (if role = Ba then Some (proofTag rt ''ba'' (cl_jti (vr_claims v))) else None),
                am_claims = vr_claims v, am_body = body, am_pb = vr_pb v\<rparr>))"

fun is_admitted :: "admission_outcome \<Rightarrow> bool" where
  "is_admitted (Admitted_request a) = True"
| "is_admitted (Refused e n) = False"

text \<open>The commit, or the burn of the \<^verbatim>\<open>finally\<close> block.\<close>

definition admit_finish ::
  "'k hop_runtime \<Rightarrow> hop_role \<Rightarrow> verified_request \<Rightarrow> string option \<Rightarrow> bool option \<Rightarrow> body_result \<Rightarrow> ticket \<Rightarrow> replay_guard
    \<Rightarrow> admission_outcome \<times> replay_guard" where
  "admit_finish rt role v tag crossCheck result t g =
     (let outcome = admit_checks rt role v tag crossCheck result in
      (outcome, snd (settle_ticket (if is_admitted outcome then Committed else Burned) t g)))"

subsection \<open>A verifier and its calls\<close>

datatype admission_call =
  Reading verified_request "string option" "bool option" ticket bytes
| BodyRead verified_request "string option" "bool option" ticket body_result
| Finished admission_outcome

record verifier =
  ve_guard :: replay_guard
  ve_stats :: admission_stats
  ve_calls :: "admission_call list"

definition new_verifier :: "replay_guard \<Rightarrow> verifier" where
  "new_verifier g = \<lparr>ve_guard = g, ve_stats = \<lparr>st_contentReadsStarted = 0, st_contentBytesRead = 0\<rparr>, ve_calls = []\<rparr>"

text \<open>The call and the guard after a reservation was granted: a read starts, or without a body the call finishes at once.\<close>

definition granted_call ::
  "'k hop_runtime \<Rightarrow> hop_role \<Rightarrow> verified_request \<Rightarrow> string option \<Rightarrow> bool option \<Rightarrow> ticket \<Rightarrow> replay_guard \<Rightarrow> admission_call \<times> replay_guard" where
  "granted_call rt role v tag crossCheck t g =
     (let bodyLen = sr_bodyLen (cl_request (vr_claims v)) in
      if bodyLen > MAX_SEMANTIC_BODY
      then (Finished (Refused ob_length_mismatch (Some (vr_authNonce v))), snd (settle_ticket Burned t g))
      else if bodyLen > 0 then (Reading v tag crossCheck t [], g)
      else (case admit_finish rt role v tag crossCheck (BodyComplete []) t g of (outcome, g') \<Rightarrow> (Finished outcome, g')))"

definition count_read :: "admission_call \<Rightarrow> admission_stats \<Rightarrow> admission_stats" where
  "count_read c st = (case c of
     Reading v tag cross t got \<Rightarrow> st\<lparr>st_contentReadsStarted := Suc (st_contentReadsStarted st)\<rparr>
   | _ \<Rightarrow> st)"

text \<open>A request arrives: steps 1 to 7, and without a body also the rest.\<close>

definition on_arrival ::
  "'k hop_runtime \<Rightarrow> 'k admission_config \<Rightarrow> hop_request \<Rightarrow> real \<Rightarrow> real \<Rightarrow> bool option \<Rightarrow> verifier \<Rightarrow> verifier" where
  "on_arrival rt config request nowMs monoMs crossCheck s =
     (let tag = tag_of (scanHopHeaders (hq_rawHeaders request) (hq_method request)) in
      case verify_request rt config request nowMs of
        Inl refused \<Rightarrow> s\<lparr>ve_calls := ve_calls s @ [Finished refused]\<rparr>
      | Inr v \<Rightarrow> (case reserve (replay_ids (ad_role config) v) monoMs (ve_guard s) of
          (Replayed, g) \<Rightarrow> s\<lparr>ve_guard := g, ve_calls := ve_calls s @ [Finished (Refused ob_replayed (Some (vr_authNonce v)))]\<rparr>
        | (Full, g) \<Rightarrow> s\<lparr>ve_guard := g, ve_calls := ve_calls s @ [Finished (Refused ob_replay_cache_full (Some (vr_authNonce v)))]\<rparr>
        | (Granted t, g) \<Rightarrow> (case granted_call rt (ad_role config) v tag crossCheck t g of
            (c, g') \<Rightarrow> s\<lparr>ve_guard := g', ve_stats := count_read c (ve_stats s), ve_calls := ve_calls s @ [c]\<rparr>)))"

definition count_chunk :: "body_event \<Rightarrow> verifier \<Rightarrow> verifier" where
  "count_chunk ev s = (case ev of
     Chunk b \<Rightarrow> s\<lparr>ve_stats := (ve_stats s)\<lparr>st_contentBytesRead := st_contentBytesRead (ve_stats s) + length b\<rparr>\<rparr>
   | _ \<Rightarrow> s)"

definition on_body :: "nat \<Rightarrow> body_event \<Rightarrow> verifier \<Rightarrow> verifier" where
  "on_body i ev s =
     (if i < length (ve_calls s) then (case ve_calls s ! i of
        Reading v tag crossCheck t got \<Rightarrow> (case on_body_event (sr_bodyLen (cl_request (vr_claims v))) ev got of
            (got', None) \<Rightarrow> (count_chunk ev s)\<lparr>ve_calls := (ve_calls s)[i := Reading v tag crossCheck t got']\<rparr>
          | (_, Some result) \<Rightarrow> (count_chunk ev s)\<lparr>ve_calls := (ve_calls s)[i := BodyRead v tag crossCheck t result]\<rparr>)
      | _ \<Rightarrow> s) else s)"

text \<open>The continuation after the read.\<close>

definition on_resume :: "'k hop_runtime \<Rightarrow> hop_role \<Rightarrow> nat \<Rightarrow> verifier \<Rightarrow> verifier" where
  "on_resume rt role i s =
     (if i < length (ve_calls s) then (case ve_calls s ! i of
        BodyRead v tag crossCheck t result \<Rightarrow> (case admit_finish rt role v tag crossCheck result t (ve_guard s) of
            (outcome, g) \<Rightarrow> s\<lparr>ve_guard := g, ve_calls := (ve_calls s)[i := Finished outcome]\<rparr>)
      | _ \<Rightarrow> s) else s)"

datatype verifier_event =
  Arrives hop_request real real "bool option"
| Body nat body_event
| Resumes nat

definition verifier_step :: "'k hop_runtime \<Rightarrow> 'k admission_config \<Rightarrow> verifier_event \<Rightarrow> verifier \<Rightarrow> verifier" where
  "verifier_step rt config ev s = (case ev of
     Arrives request nowMs monoMs crossCheck \<Rightarrow> on_arrival rt config request nowMs monoMs crossCheck s
   | Body i b \<Rightarrow> on_body i b s
   | Resumes i \<Rightarrow> on_resume rt (ad_role config) i s)"

definition verifier_run :: "'k hop_runtime \<Rightarrow> 'k admission_config \<Rightarrow> verifier_event list \<Rightarrow> verifier \<Rightarrow> verifier" where
  "verifier_run rt config evs s = fold (verifier_step rt config) evs s"

definition admissions :: "verifier \<Rightarrow> admitted list" where
  "admissions s = concat (map (\<lambda>c. case c of Finished (Admitted_request a) \<Rightarrow> [a] | _ \<Rightarrow> []) (ve_calls s))"

subsection \<open>What a verified request is\<close>

lemma checkProofWindow_None:
  "checkProofWindow c keys aud nowMs fenceMs = None \<longleftrightarrow> map_of keys (cl_kid c) \<noteq> None \<and> cl_aud c = aud \<and> cl_iat c < cl_exp c
    \<and> cl_exp c - cl_iat c \<le> MAX_LIFETIME (role_of c) \<and> real_of_int (cl_iat c - HOP_SKEW_MS) \<le> nowMs
    \<and> nowMs \<le> real_of_int (cl_exp c + HOP_SKEW_MS) \<and> fenceMs \<le> real_of_int (cl_iat c)"
  by (auto simp: checkProofWindow_def split: if_splits)

lemma decodeProof_role: "decodeProof rt header expected = Inr d \<Longrightarrow> role_of (de_claims d) = expected"
proof -
  assume "decodeProof rt header expected = Inr d"
  then obtain payload where "decode_payload rt expected payload = Inr (de_claims d)"
    by (auto simp: decodeProof_def split: if_splits list.splits option.splits sum.splits)
  then show ?thesis
    by (auto simp: decode_payload_def split: option.splits jval.splits if_splits dest: parse_claims_Some(3))
qed

lemma wire_check_None:
  "wire_check request scan wanted = None \<longleftrightarrow> hq_method request = sr_method wanted \<and> hq_url request = sr_target wanted
    \<and> scan_pairs scan = sr_pairs wanted \<and> (sr_method wanted = ''POST'' \<longrightarrow> read_nat (hs_contentLengths scan ! 0) = sr_bodyLen wanted)"
  by (auto simp: wire_check_def samePairs_def split: if_splits)

lemma sameRequest_iff: "sameRequest a b \<longleftrightarrow> a = b"
  by (auto simp: sameRequest_def samePairs_def intro!: semantic_request.equality)

abbreviation scan_of :: "hop_request \<Rightarrow> hop_scan" where
  "scan_of request \<equiv> scanHopHeaders (hq_rawHeaders request) (hq_method request)"

text \<open>The signed proof of the plane behind a verified request, and its agreement with the wire.\<close>

lemma lineage_check_Inr:
  assumes "lineage_check rt config nowMs header ba = Inr pb"
  obtains d where "decodeProof rt header Pb = Inr d" "pb = de_claims d" "verifyProofSignature rt Pb d (ad_keyP config)"
    "checkProofWindow pb [(ad_kidP config, ad_keyP config)] (ad_boundaryId config) nowMs (fc_fenceMs (ad_fence config)) = None"
    "cl_request ba = cl_request pb"
  using assms by (auto simp: lineage_check_def Let_def sameRequest_iff split: sum.splits option.splits if_splits)

lemma verify_request_Inr:
  assumes "verify_request rt config request nowMs = Inr v"
  obtains own d where "decodeProof rt own (ad_role config) = Inr d" "vr_claims v = de_claims d"
      "verifyProofSignature rt (ad_role config) d (own_key config)"
      "checkProofWindow (vr_claims v) [(own_kid config, own_key config)] (own_aud config) nowMs (fc_fenceMs (ad_fence config)) = None"
      "wire_check request (scan_of request) (cl_request (vr_claims v)) = None" "scan_violation (scan_of request) = None"
      "ad_role config = Pb \<Longrightarrow> vp_claims (vr_pb v) = vr_claims v" "ad_role config = Pb \<Longrightarrow> own = vp_header (vr_pb v)"
      "ad_role config = Ba \<Longrightarrow> lineage_check rt config nowMs (vp_header (vr_pb v)) (vr_claims v) = Inr (vp_claims (vr_pb v))"
proof -
  define scan where "scan = scan_of request"
  define own where "own = (if ad_role config = Pb then hs_pb scan else hs_ba scan)"
  have pc: "presence_check (ad_role config) scan = None"
    using assms unfolding verify_request_def Let_def scan_def [symmetric] by (auto split: option.splits)
  obtain d where d: "decodeProof rt (own ! 0) (ad_role config) = Inr d"
    using assms pc unfolding verify_request_def Let_def scan_def [symmetric] own_def [symmetric] by (auto split: sum.splits)
  let ?w = "checkProofWindow (de_claims d) [(own_kid config, own_key config)] (own_aud config) nowMs (fc_fenceMs (ad_fence config))"
  have w: "?w = None" "wire_check request scan (cl_request (de_claims d)) = None" "verifyProofSignature rt (ad_role config) d (own_key config)"
    using assms pc d unfolding verify_request_def Let_def scan_def [symmetric] own_def [symmetric] by (auto split: option.splits if_splits)
  have v: "vr_claims v = de_claims d" "ad_role config = Pb \<Longrightarrow> vp_claims (vr_pb v) = de_claims d" "ad_role config = Pb \<Longrightarrow> own ! 0 = vp_header (vr_pb v)"
    "ad_role config = Ba \<Longrightarrow> lineage_check rt config nowMs (vp_header (vr_pb v)) (de_claims d) = Inr (vp_claims (vr_pb v))"
    using assms pc d w unfolding verify_request_def Let_def scan_def [symmetric] own_def [symmetric]
    by (auto split: option.splits if_splits sum.splits)
  have "scan_violation scan = None" using pc by (auto simp: presence_check_def Let_def split: if_splits)
  with that [OF d] v w show thesis by (simp add: scan_def)
qed

text \<open>The proof of the plane in a verified request.\<close>

lemma verified_plane_proof:
  assumes "verify_request rt config request nowMs = Inr v"
  obtains header d where "decodeProof rt header Pb = Inr d" "vp_claims (vr_pb v) = de_claims d" "verifyProofSignature rt Pb d (ad_keyP config)"
    "checkProofWindow (vp_claims (vr_pb v)) [(ad_kidP config, ad_keyP config)] (ad_boundaryId config) nowMs (fc_fenceMs (ad_fence config)) = None"
    "cl_request (vr_claims v) = cl_request (vp_claims (vr_pb v))" "header = vp_header (vr_pb v)"
  using assms
proof (cases rule: verify_request_Inr)
  case (1 own d)
  show thesis
  proof (cases "ad_role config")
    case Pb
    with 1 that [of own d] show thesis by (simp add: own_key_def own_kid_def own_aud_def)
  next
    case Ba
    obtain e where "decodeProof rt (vp_header (vr_pb v)) Pb = Inr e" "vp_claims (vr_pb v) = de_claims e"
      "verifyProofSignature rt Pb e (ad_keyP config)"
      "checkProofWindow (vp_claims (vr_pb v)) [(ad_kidP config, ad_keyP config)] (ad_boundaryId config) nowMs (fc_fenceMs (ad_fence config)) = None"
      "cl_request (vr_claims v) = cl_request (vp_claims (vr_pb v))"
      using lineage_check_Inr [OF 1(9) [OF Ba]] by metis
    then show thesis using that by blast
  qed
qed

lemma scan_members:
  "set (hs_pb (scan_of request)) \<subseteq> set (hq_rawHeaders request) \<and> set (hs_ba (scan_of request)) \<subseteq> set (hq_rawHeaders request)"
proof -
  have "snd ` set (raw_pairs raw) \<subseteq> set raw" for raw by (induction raw rule: raw_pairs.induct) auto
  moreover have "set (hs_pb (fold scan_header hs s)) \<subseteq> set (hs_pb s) \<union> snd ` set hs \<and> set (hs_ba (fold scan_header hs s)) \<subseteq> set (hs_ba s) \<union> snd ` set hs"
    for hs s
  proof (induction hs arbitrary: s)
    case (Cons h hs)
    have "set (hs_pb (scan_header h s)) \<subseteq> insert (snd h) (set (hs_pb s)) \<and> set (hs_ba (scan_header h s)) \<subseteq> insert (snd h) (set (hs_ba s))"
      by (auto simp: scan_header_def Let_def split: header_class.splits option.splits)
    with Cons [of "scan_header h s"] show ?case by auto
  qed simp
  ultimately show ?thesis
    by (fastforce simp: scanHopHeaders_def scan_checks_def empty_scan_def)
qed

text \<open>The own proof of a verified request stands in its headers.\<close>

lemma verified_own_header:
  assumes "verify_request rt config request nowMs = Inr v"
  shows "\<exists>header d. header \<in> set (hq_rawHeaders request) \<and> decodeProof rt header (ad_role config) = Inr d
    \<and> verifyProofSignature rt (ad_role config) d (own_key config)"
proof -
  define scan where "scan = scan_of request"
  define own where "own = (if ad_role config = Pb then hs_pb scan else hs_ba scan)"
  have pc: "presence_check (ad_role config) scan = None"
    using assms unfolding verify_request_def Let_def scan_def [symmetric] by (auto split: option.splits)
  then have "own \<noteq> []" by (auto simp: presence_check_def Let_def own_def split: if_splits)
  then have m: "own ! 0 \<in> set (hq_rawHeaders request)"
    using scan_members [of request] nth_mem [of 0 own] by (auto simp: own_def scan_def split: if_splits)
  obtain d where d: "decodeProof rt (own ! 0) (ad_role config) = Inr d"
    using assms pc unfolding verify_request_def Let_def scan_def [symmetric] own_def [symmetric] by (auto split: sum.splits)
  have "verifyProofSignature rt (ad_role config) d (own_key config)"
    using assms pc d unfolding verify_request_def Let_def scan_def [symmetric] own_def [symmetric] by (auto split: option.splits if_splits)
  with m d show ?thesis by blast
qed

subsection \<open>Calls and the requests they came from\<close>

fun call_request :: "admission_call \<Rightarrow> verified_request option" where
  "call_request (Reading v tag cross t got) = Some v"
| "call_request (BodyRead v tag cross t result) = Some v"
| "call_request (Finished outcome) = None"

text \<open>What is known of the body of a call.\<close>

definition body_ok :: "'k hop_runtime \<Rightarrow> semantic_request \<Rightarrow> bytes \<Rightarrow> bool" where
  "body_ok rt r body \<longleftrightarrow> length body = sr_bodyLen r \<and> (if sr_bodyLen r = 0 then EMPTY_BODY_SHA256 else sha256B64 rt body) = sr_bodySha256 r"

text \<open>\<open>v\<close> is a request that arrived and was verified.\<close>

definition arrived :: "'k hop_runtime \<Rightarrow> 'k admission_config \<Rightarrow> verifier_event list \<Rightarrow> verified_request \<Rightarrow> bool" where
  "arrived rt config evs v \<longleftrightarrow> (\<exists>request nowMs monoMs cross. Arrives request nowMs monoMs cross \<in> set evs
     \<and> verify_request rt config request nowMs = Inr v)"

definition call_ok :: "'k hop_runtime \<Rightarrow> 'k admission_config \<Rightarrow> verifier_event list \<Rightarrow> admission_call \<Rightarrow> bool" where
  "call_ok rt config evs c = (case c of
     Reading v tag cross t got \<Rightarrow> arrived rt config evs v
   | BodyRead v tag cross t result \<Rightarrow> arrived rt config evs v
       \<and> (case result of BodyComplete body \<Rightarrow> length body = sr_bodyLen (cl_request (vr_claims v)) | _ \<Rightarrow> True)
   | Finished (Admitted_request a) \<Rightarrow> (\<exists>v. arrived rt config evs v \<and> am_claims a = vr_claims v \<and> am_pb a = vr_pb v
       \<and> body_ok rt (cl_request (vr_claims v)) (am_body a))
   | Finished (Refused e n) \<Rightarrow> True)"

lemma arrived_mono: "arrived rt config evs v \<Longrightarrow> set evs \<subseteq> set evs' \<Longrightarrow> arrived rt config evs' v"
  unfolding arrived_def by blast

lemma call_ok_mono: "call_ok rt config evs c \<Longrightarrow> set evs \<subseteq> set evs' \<Longrightarrow> call_ok rt config evs' c"
  unfolding call_ok_def
  by (cases c) (auto split: admission_outcome.splits intro: arrived_mono)

lemma admit_checks_admitted:
  "admit_checks rt role v tag cross result = Admitted_request a \<Longrightarrow> \<exists>body. result = BodyComplete body \<and> am_claims a = vr_claims v \<and> am_pb a = vr_pb v
    \<and> am_body a = body \<and> (if sr_bodyLen (cl_request (vr_claims v)) = 0 then EMPTY_BODY_SHA256 else sha256B64 rt body)
      = sr_bodySha256 (cl_request (vr_claims v))"
  by (auto simp: admit_checks_def Let_def split: body_result.splits if_splits option.splits bool.splits)

lemma finish_call_ok:
  assumes "admit_finish rt role v tag cross result t g = (outcome, g')" "arrived rt config evs v"
    "case result of BodyComplete body \<Rightarrow> length body = sr_bodyLen (cl_request (vr_claims v)) | _ \<Rightarrow> True"
  shows "call_ok rt config evs (Finished outcome)"
  using assms admit_checks_admitted [of rt role v tag cross result]
  by (cases outcome) (auto simp: admit_finish_def Let_def call_ok_def body_ok_def)

lemma ve_calls_add [simp]: "ve_calls (s\<lparr>ve_guard := g\<rparr>) = ve_calls s" "ve_calls (s\<lparr>ve_stats := x\<rparr>) = ve_calls s" "ve_calls (count_chunk ev s) = ve_calls s"
  "ve_guard (count_chunk ev s) = ve_guard s"
  by (simp_all add: count_chunk_def split: body_event.splits)

text \<open>The call an arrival adds.\<close>

lemma granted_call_ok:
  assumes "arrived rt config evs v"
  shows "call_ok rt config evs (fst (granted_call rt role v tag cross t g))"
proof -
  obtain outcome h where f: "admit_finish rt role v tag cross (BodyComplete []) t g = (outcome, h)" by fastforce
  have "sr_bodyLen (cl_request (vr_claims v)) = 0 \<Longrightarrow> call_ok rt config evs (Finished outcome)"
    by (rule finish_call_ok [OF f assms]) simp
  then show ?thesis using assms by (simp add: granted_call_def Let_def f call_ok_def)
qed

lemma refused_inl: "verify_request rt config request nowMs = Inl refused \<Longrightarrow> \<exists>e n. refused = Refused e n"
  by (auto simp: verify_request_def Let_def split: option.splits sum.splits if_splits)

lemma arrival_cases:
  obtains (Rejected) e n where "verify_request rt config request nowMs = Inl (Refused e n)"
      "on_arrival rt config request nowMs monoMs cross s = s\<lparr>ve_calls := ve_calls s @ [Finished (Refused e n)]\<rparr>"
  | (Repeated) v r g e n where "verify_request rt config request nowMs = Inr v" "reserve (replay_ids (ad_role config) v) monoMs (ve_guard s) = (r, g)"
      "\<not> fst (grant_ids (replay_ids (ad_role config) v) monoMs (ve_guard s))"
      "on_arrival rt config request nowMs monoMs cross s = s\<lparr>ve_guard := g, ve_calls := ve_calls s @ [Finished (Refused e n)]\<rparr>"
  | (Taken) v t g c g' where "verify_request rt config request nowMs = Inr v"
      "reserve (replay_ids (ad_role config) v) monoMs (ve_guard s) = (Granted t, g)"
      "granted_call rt (ad_role config) v (tag_of (scan_of request)) cross t g = (c, g')"
      "on_arrival rt config request nowMs monoMs cross s
        = s\<lparr>ve_guard := g', ve_stats := count_read c (ve_stats s), ve_calls := ve_calls s @ [c]\<rparr>"
proof (cases "verify_request rt config request nowMs")
  case (Inl refused)
  with refused_inl [OF Inl] Rejected show thesis by (auto simp: on_arrival_def Let_def)
next
  case (Inr v)
  obtain r g where r: "reserve (replay_ids (ad_role config) v) monoMs (ve_guard s) = (r, g)" by fastforce
  show thesis
  proof (cases r)
    case (Granted t)
    obtain c g' where c: "granted_call rt (ad_role config) v (tag_of (scan_of request)) cross t g = (c, g')" by fastforce
    show thesis by (rule Taken [OF Inr r [unfolded Granted] c]) (simp add: on_arrival_def Let_def Inr r Granted c)
  next
    case Replayed
    show thesis by (rule Repeated [OF Inr r]) (simp_all add: on_arrival_def Let_def Inr r Replayed grant_ids_def)
  next
    case Full
    show thesis by (rule Repeated [OF Inr r]) (simp_all add: on_arrival_def Let_def Inr r Full grant_ids_def)
  qed
qed

lemma arrival_call:
  obtains c where "ve_calls (on_arrival rt config request nowMs monoMs cross s) = ve_calls s @ [c]"
    "call_ok rt config [Arrives request nowMs monoMs cross] c"
proof (cases rule: arrival_cases [of rt config request nowMs monoMs cross s])
  case (Rejected e n)
  with that show thesis by (simp add: call_ok_def)
next
  case (Repeated v r g e n)
  with that show thesis by (simp add: call_ok_def)
next
  case (Taken v t g c g')
  then have "arrived rt config [Arrives request nowMs monoMs cross] v" by (auto simp: arrived_def)
  from granted_call_ok [OF this, of "ad_role config" "tag_of (scan_of request)" cross t g]
  have "call_ok rt config [Arrives request nowMs monoMs cross] c" by (simp add: Taken(3))
  with that Taken(4) show thesis by simp
qed

lemma body_event_length:
  "on_body_event n ev got = (got', Some (BodyComplete body)) \<Longrightarrow> length body = n"
  by (auto simp: on_body_event_def split: body_event.splits if_splits)

text \<open>The calls after a body event or a resumption: one call is replaced.\<close>

lemma on_body_calls:
  obtains "on_body i ev s = s"
  | v tag cross t got got' where "i < length (ve_calls s)" "ve_calls s ! i = Reading v tag cross t got"
      "on_body_event (sr_bodyLen (cl_request (vr_claims v))) ev got = (got', None)"
      "on_body i ev s = (count_chunk ev s)\<lparr>ve_calls := (ve_calls s)[i := Reading v tag cross t got']\<rparr>"
  | v tag cross t got got' result where "i < length (ve_calls s)" "ve_calls s ! i = Reading v tag cross t got"
      "on_body_event (sr_bodyLen (cl_request (vr_claims v))) ev got = (got', Some result)"
      "on_body i ev s = (count_chunk ev s)\<lparr>ve_calls := (ve_calls s)[i := BodyRead v tag cross t result]\<rparr>"
proof (cases "i < length (ve_calls s) \<and> (\<exists>v tag cross t got. ve_calls s ! i = Reading v tag cross t got)")
  case True
  then obtain v tag cross t got where c: "i < length (ve_calls s)" "ve_calls s ! i = Reading v tag cross t got" by blast
  obtain got' result where b: "on_body_event (sr_bodyLen (cl_request (vr_claims v))) ev got = (got', result)" by fastforce
  show thesis
  proof (cases result)
    case None
    show thesis by (rule that(2) [OF c b [unfolded None]]) (simp add: on_body_def c b None)
  next
    case (Some x)
    show thesis by (rule that(3) [OF c b [unfolded Some]]) (simp add: on_body_def c b Some)
  qed
next
  case False
  then have "on_body i ev s = s" by (auto simp: on_body_def split: admission_call.splits)
  then show thesis by (rule that(1))
qed

lemma on_resume_calls:
  obtains "on_resume rt role i s = s"
  | v tag cross t result outcome g where "i < length (ve_calls s)" "ve_calls s ! i = BodyRead v tag cross t result"
      "admit_finish rt role v tag cross result t (ve_guard s) = (outcome, g)"
      "on_resume rt role i s = s\<lparr>ve_guard := g, ve_calls := (ve_calls s)[i := Finished outcome]\<rparr>"
proof (cases "i < length (ve_calls s) \<and> (\<exists>v tag cross t result. ve_calls s ! i = BodyRead v tag cross t result)")
  case True
  then obtain v tag cross t result where c: "i < length (ve_calls s)" "ve_calls s ! i = BodyRead v tag cross t result" by blast
  obtain outcome g where f: "admit_finish rt role v tag cross result t (ve_guard s) = (outcome, g)" by fastforce
  show thesis by (rule that(2) [OF c f]) (simp add: on_resume_def c f)
next
  case False
  then have "on_resume rt role i s = s" by (auto simp: on_resume_def split: admission_call.splits)
  then show thesis by (rule that(1))
qed

lemma all_update: "list_all P xs \<Longrightarrow> P x \<Longrightarrow> list_all P (xs[i := x])"
  by (auto simp: list_all_iff dest: set_update_subset_insert [THEN subsetD])

lemma step_calls_ok:
  assumes "list_all (call_ok rt config evs) (ve_calls s)"
  shows "list_all (call_ok rt config (evs @ [ev])) (ve_calls (verifier_step rt config ev s))"
proof -
  have old: "list_all (call_ok rt config (evs @ [ev])) (ve_calls s)"
    using assms call_ok_mono [of rt config evs _ "evs @ [ev]"] by (auto simp: list_all_iff)
  have at: "call_ok rt config (evs @ [ev]) (ve_calls s ! i)" if "i < length (ve_calls s)" for i
    using old that by (simp add: list_all_iff)
  show ?thesis
  proof (cases ev)
    case (Arrives request nowMs monoMs cross)
    obtain c where "ve_calls (on_arrival rt config request nowMs monoMs cross s) = ve_calls s @ [c]" "call_ok rt config [ev] c"
      using arrival_call unfolding Arrives by metis
    moreover have "call_ok rt config (evs @ [ev]) c" if "call_ok rt config [ev] c" for c
      using call_ok_mono [OF that, of "evs @ [ev]"] by simp
    ultimately show ?thesis using old by (simp add: verifier_step_def Arrives)
  next
    case (Body i b)
    have s: "verifier_step rt config ev s = on_body i b s" by (simp add: verifier_step_def Body)
    show ?thesis
    proof (cases rule: on_body_calls [of i b s])
      case 1
      then show ?thesis using old by (simp add: s)
    next
      case (2 v tag cross t got got')
      then show ?thesis using at [of i] old by (simp add: s all_update call_ok_def)
    next
      case (3 v tag cross t got got' result)
      then have "call_ok rt config (evs @ [ev]) (BodyRead v tag cross t result)"
        using at [of i] body_event_length by (auto simp: call_ok_def split: body_result.splits)
      then show ?thesis using old 3 by (simp add: s all_update)
    qed
  next
    case (Resumes i)
    have s: "verifier_step rt config ev s = on_resume rt (ad_role config) i s" by (simp add: verifier_step_def Resumes)
    show ?thesis
    proof (cases rule: on_resume_calls [of rt "ad_role config" i s])
      case 1
      then show ?thesis using old by (simp add: s)
    next
      case (2 v tag cross t result outcome g)
      then have "call_ok rt config (evs @ [ev]) (Finished outcome)"
        using at [of i] finish_call_ok [OF 2(3), of config "evs @ [ev]"] by (simp add: call_ok_def)
      then show ?thesis using old 2 by (simp add: s all_update)
    qed
  qed
qed

lemma run_snoc: "verifier_run rt config (evs @ [ev]) s = verifier_step rt config ev (verifier_run rt config evs s)"
  by (simp add: verifier_run_def)

lemma run_calls_ok: "list_all (call_ok rt config evs) (ve_calls (verifier_run rt config evs (new_verifier g)))"
proof (induction evs rule: rev_induct)
  case Nil
  then show ?case by (simp add: verifier_run_def new_verifier_def)
next
  case (snoc ev evs)
  then show ?case by (simp add: run_snoc step_calls_ok)
qed

lemma in_admissions: "a \<in> set (admissions s) \<longleftrightarrow> Finished (Admitted_request a) \<in> set (ve_calls s)"
  by (auto simp: admissions_def split: admission_call.splits admission_outcome.splits)

text \<open>Every admission came from a verified request, with a body of the signed length and digest.\<close>

lemma admission_arrived:
  assumes "a \<in> set (admissions (verifier_run rt config evs (new_verifier g)))"
  obtains request nowMs monoMs cross v where "Arrives request nowMs monoMs cross \<in> set evs" "verify_request rt config request nowMs = Inr v"
    "am_claims a = vr_claims v" "am_pb a = vr_pb v" "body_ok rt (cl_request (vr_claims v)) (am_body a)"
  using assms run_calls_ok [of rt config evs g]
  by (force simp: in_admissions list_all_iff call_ok_def arrived_def)

subsection \<open>Provenance\<close>

text \<open>The key of the plane signs only proofs of requests it approved.\<close>

definition only_approved_signed :: "'k hop_runtime \<Rightarrow> 'k \<Rightarrow> bool" where
  "only_approved_signed rt keyP \<longleftrightarrow> (\<forall>signature msg. hr_verify rt keyP signature msg \<longrightarrow>
     (\<exists>request r n (issuer :: 'k issuer_config) hop corr iat jti. buildApprovedRequest (sha256B64 rt) request = Inr (r, n)
        \<and> claims_ok (pb_claims issuer r hop corr iat jti)
        \<and> msg = proof_message Pb rt (proof_payload rt (pb_claims issuer r hop corr iat jti))))"

text \<open>Every verified request is one the plane approved.\<close>

lemma verified_was_approved:
  fixes rt :: "'k hop_runtime"
  assumes "hop_codec rt" "only_approved_signed rt (ad_keyP config)" "verify_request rt config request nowMs = Inr v"
  obtains layer r n where "buildApprovedRequest (sha256B64 rt) layer = Inr (r, n)" "cl_request (vr_claims v) = r"
    "claims_ok (vp_claims (vr_pb v))"
proof -
  obtain header d where d: "decodeProof rt header Pb = Inr d" "vp_claims (vr_pb v) = de_claims d" "verifyProofSignature rt Pb d (ad_keyP config)"
    "cl_request (vr_claims v) = cl_request (vp_claims (vr_pb v))"
    using verified_plane_proof [OF assms(3)] by metis
  obtain layer r n issuer hop corr iat jti where s: "buildApprovedRequest (sha256B64 rt) layer = Inr (r, n)"
    "claims_ok (pb_claims (issuer :: 'k issuer_config) r hop corr iat jti)"
    "proof_message Pb rt (de_payload d) = proof_message Pb rt (proof_payload rt (pb_claims issuer r hop corr iat jti))"
    using assms(2) [unfolded only_approved_signed_def, rule_format, OF d(3) [unfolded verifyProofSignature_def]]
    by (elim exE conjE) (rule that; assumption)
  note di = decodeProof_Inr [OF assms(1) d(1)]
  have "role_of (pb_claims issuer r hop corr iat jti) = Pb" by (simp add: role_of_def pb_claims_def)
  then have "de_claims d = pb_claims issuer r hop corr iat jti"
    using message_claims [OF assms(1) di(1) s(2) _ di(3)] s(3) di(2) by simp
  then show thesis using that [OF s(1)] s(2) d(2,4) by (simp add: pb_claims_def)
qed

text \<open>C4. An admitted request is one the plane approved. If the key of the plane signs only proofs of approved requests, then whatever the Boundary or
  the App admits, after any interleaving of arrivals, body events and resumptions, is a request that arrived with the method, the target
  and the bound headers of a request the plane approved, and with a body of the length and digest the plane approved; a GET has none.\<close>

theorem admitted_request_was_approved:
  fixes rt :: "'k hop_runtime"
  assumes "hop_codec rt" "only_approved_signed rt (ad_keyP config)"
    and "a \<in> set (admissions (verifier_run rt config evs (new_verifier g)))"
  shows "\<exists>request nowMs monoMs cross layer r n.
    Arrives request nowMs monoMs cross \<in> set evs \<and> buildApprovedRequest (sha256B64 rt) layer = Inr (r, n) \<and> cl_request (am_claims a) = r
    \<and> hq_method request = lr_method layer \<and> hq_url request = lr_target layer \<and> scan_violation (scan_of request) = None
    \<and> scan_pairs (scan_of request) = sr_pairs r \<and> length (am_body a) = sr_bodyLen r
    \<and> (lr_method layer = ''POST'' \<longrightarrow> (\<exists>body. lr_body layer = Some body \<and> length (am_body a) = length body
         \<and> sha256B64 rt (am_body a) = sha256B64 rt body))
    \<and> (lr_method layer \<noteq> ''POST'' \<longrightarrow> am_body a = [])"
proof -
  obtain request nowMs monoMs cross v where e: "Arrives request nowMs monoMs cross \<in> set evs" "verify_request rt config request nowMs = Inr v"
    "am_claims a = vr_claims v" "body_ok rt (cl_request (vr_claims v)) (am_body a)"
    using admission_arrived [OF assms(3)] by metis
  obtain layer r n where s: "buildApprovedRequest (sha256B64 rt) layer = Inr (r, n)" and r: "cl_request (vr_claims v) = r"
    using verified_was_approved [OF assms(1,2) e(2)] by metis
  obtain own x where w: "wire_check request (scan_of request) (cl_request (vr_claims v)) = None" "scan_violation (scan_of request) = None"
    using verify_request_Inr [OF e(2)] by metis
  note ap = approved_ok [OF s(1)]
  have "\<exists>body. lr_body layer = Some body \<and> length (am_body a) = length body \<and> sha256B64 rt (am_body a) = sha256B64 rt body"
    if post: "lr_method layer = ''POST''"
  proof -
    obtain body where b: "lr_body layer = Some body" "sr_bodyLen r = length body" "sr_bodySha256 r = sha256B64 rt body"
      using ap(2,4) post by auto
    then show ?thesis using e(4) by (cases "body = []") (auto simp: body_ok_def r)
  qed
  moreover have "am_body a = []" if "lr_method layer \<noteq> ''POST''"
    using ap(1,2) e(4) that by (auto simp: semantic_ok_def body_ok_def r)
  ultimately show ?thesis
    using e s(1) w ap(2,3) by (auto simp: wire_check_None r body_ok_def intro!: exI [of _ request] exI [of _ layer])
qed

subsection \<open>No proof is admitted twice\<close>

text \<open>The proof of the plane a call holds, unless it was refused.\<close>

definition holder :: "admission_call \<Rightarrow> claims list" where
  "holder c = (case c of
     Reading v tag cross t got \<Rightarrow> [vp_claims (vr_pb v)]
   | BodyRead v tag cross t result \<Rightarrow> [vp_claims (vr_pb v)]
   | Finished (Admitted_request a) \<Rightarrow> [vp_claims (am_pb a)]
   | Finished (Refused e n) \<Rightarrow> [])"

definition holders :: "verifier \<Rightarrow> claims list" where "holders s = concat (map holder (ve_calls s))"

lemma holders_update:
  assumes "i < length cs" "holder x = [] \<or> holder x = holder (cs ! i)" "distinct (concat (map holder cs))"
  shows "distinct (concat (map holder (cs[i := x]))) \<and> set (concat (map holder (cs[i := x]))) \<subseteq> set (concat (map holder cs))"
proof -
  have cs: "cs = take i cs @ cs ! i # drop (Suc i) cs" using assms(1) by (rule id_take_nth_drop)
  have u: "cs[i := x] = take i cs @ x # drop (Suc i) cs" using assms(1) by (rule upd_conv_take_nth_drop)
  have "distinct (concat (map holder (take i cs @ cs ! i # drop (Suc i) cs)))" using assms(3) cs by metis
  moreover have "set (concat (map holder cs)) = set (concat (map holder (take i cs @ cs ! i # drop (Suc i) cs)))" using cs by metis
  ultimately show ?thesis using assms(2) unfolding u by auto
qed

definition plane_id :: "hop_role \<Rightarrow> claims \<Rightarrow> string" where
  "plane_id role c = (if role = Pb then ''pb:'' else ''ln:'') @ cl_jti c"

lemma plane_id_reserved: "(plane_id role (vp_claims (vr_pb v)), real_of_int RETAIN_PB_MS) \<in> set (replay_ids role v)"
  by (simp add: plane_id_def replay_ids_def)

text \<open>Every held proof has a reservation that was granted after the proof became valid.\<close>

definition reserved_since :: "'k admission_config \<Rightarrow> (string \<times> real \<times> real) list \<Rightarrow> claims \<Rightarrow> bool" where
  "reserved_since config grants c \<longleftrightarrow> (\<exists>t. (plane_id (ad_role config) c, t, real_of_int RETAIN_PB_MS) \<in> set grants
     \<and> real_of_int (cl_iat c - HOP_SKEW_MS) - fc_startOffset (ad_fence config) - fc_threshold (ad_fence config) \<le> t)"

definition use_inv :: "'k admission_config \<Rightarrow> real \<Rightarrow> verifier \<Rightarrow> bool" where
  "use_inv config hi s \<longleftrightarrow> guard_wf (ve_guard s) \<and> distinct (holders s)
     \<and> (\<exists>grants. replay.spaced grants hi (ve_guard s) \<and> list_all (reserved_since config grants) (holders s))"

lemma use_invI:
  "guard_wf (ve_guard s) \<Longrightarrow> distinct (holders s) \<Longrightarrow> replay.spaced grants hi (ve_guard s) \<Longrightarrow> list_all (reserved_since config grants) (holders s)
    \<Longrightarrow> use_inv config hi s"
  unfolding use_inv_def by blast

lemma use_inv_later: "use_inv config hi s \<Longrightarrow> hi \<le> later \<Longrightarrow> use_inv config later s"
  unfolding use_inv_def replay.spaced_def by fastforce

lemma use_inv_settled:
  assumes "use_inv config hi s" "ve_guard s' = settle_by x (ve_guard s) \<or> ve_guard s' = ve_guard s"
    "distinct (holders s')" "set (holders s') \<subseteq> set (holders s)"
  shows "use_inv config hi s'"
proof -
  obtain grants where g: "guard_wf (ve_guard s)" "replay.spaced grants hi (ve_guard s)" "list_all (reserved_since config grants) (holders s)"
    using assms(1) by (auto simp: use_inv_def)
  have "guard_wf (ve_guard s')" "replay.spaced grants hi (ve_guard s')"
    using assms(2) g(1,2) replay.other_wf [OF g(1), of x] replay.spaced_other [OF g(1,2), of x] by auto
  moreover have "list_all (reserved_since config grants) (holders s')" using g(3) assms(4) by (auto simp: list_all_iff)
  ultimately show ?thesis using assms(3) by (intro use_invI)
qed

lemma finish_guard:
  "admit_finish rt role v tag cross result t g = (outcome, g') \<Longrightarrow> \<exists>x. g' = settle_by x g"
  by (auto simp: admit_finish_def Let_def settle_by_def)

lemma finish_holder:
  "admit_finish rt role v tag cross result t g = (outcome, g') \<Longrightarrow> holder (Finished outcome) = [] \<or> holder (Finished outcome) = [vp_claims (vr_pb v)]"
  using admit_checks_admitted [of rt role v tag cross result]
  by (cases outcome) (auto simp: admit_finish_def Let_def holder_def)

lemma granted_call_holder:
  assumes "granted_call rt role v tag cross t g = (c, g')"
  shows "holder c = [] \<or> holder c = [vp_claims (vr_pb v)]" "g' = g \<or> (\<exists>x. g' = settle_by x g)"
proof -
  obtain outcome h where f: "admit_finish rt role v tag cross (BodyComplete []) t g = (outcome, h)" by fastforce
  have b: "snd (settle_ticket Burned t g) = settle_by (t, Burned) g" by (simp add: settle_by_def)
  show "holder c = [] \<or> holder c = [vp_claims (vr_pb v)]"
    using assms finish_holder [OF f] by (auto simp: granted_call_def Let_def f holder_def split: if_splits)
  show "g' = g \<or> (\<exists>x. g' = settle_by x g)"
  proof (cases "sr_bodyLen (cl_request (vr_claims v)) > MAX_SEMANTIC_BODY")
    case True
    then have "g' = settle_by (t, Burned) g" using assms by (simp add: granted_call_def b)
    then show ?thesis by blast
  next
    case False
    then have "g' = g \<or> g' = h" using assms by (auto simp: granted_call_def Let_def f split: if_splits)
    then show ?thesis using finish_guard [OF f] by blast
  qed
qed

text \<open>A proof that is verified again comes before the end of its first reservation.\<close>

lemma verified_again_too_early:
  assumes "verify_request rt config request nowMs = Inr v" "\<not> stepDetected (ad_fence config) nowMs monoMs"
    "fc_threshold (ad_fence config) = 250" "reserved_since config grants (vp_claims (vr_pb v))"
  shows "\<exists>t. (plane_id (ad_role config) (vp_claims (vr_pb v)), t, real_of_int RETAIN_PB_MS) \<in> set grants \<and> monoMs < t + real_of_int RETAIN_PB_MS"
proof -
  let ?c = "vp_claims (vr_pb v)"
  obtain header d where d: "decodeProof rt header Pb = Inr d" "?c = de_claims d"
    "checkProofWindow ?c [(ad_kidP config, ad_keyP config)] (ad_boundaryId config) nowMs (fc_fenceMs (ad_fence config)) = None"
    using verified_plane_proof [OF assms(1)] by metis
  have "role_of ?c = Pb" using decodeProof_role [OF d(1)] d(2) by simp
  then have "cl_exp ?c - cl_iat ?c \<le> 5000" "nowMs \<le> real_of_int (cl_exp ?c + 1000)"
    using d(3) by (simp_all add: checkProofWindow_None PB_MAX_LIFETIME_MS_def HOP_SKEW_MS_def)
  then have "nowMs \<le> real_of_int (cl_iat ?c) + 6000" by linarith
  moreover have "monoMs \<le> nowMs - fc_startOffset (ad_fence config) + 250"
    using assms(2,3) by (simp add: stepDetected_def)
  ultimately have "monoMs < real_of_int (cl_iat ?c - HOP_SKEW_MS) - fc_startOffset (ad_fence config) - 250 + real_of_int RETAIN_PB_MS"
    by (simp add: RETAIN_PB_MS_def PB_MAX_LIFETIME_MS_def HOP_SKEW_MS_def)
  with assms(3,4) show ?thesis unfolding reserved_since_def by fastforce
qed

lemma use_inv_arrival:
  assumes inv: "use_inv config monoMs s" and step: "\<not> stepDetected (ad_fence config) nowMs monoMs" "fc_threshold (ad_fence config) = 250"
  shows "use_inv config monoMs (on_arrival rt config request nowMs monoMs cross s)"
proof (cases rule: arrival_cases [of rt config request nowMs monoMs cross s])
  case (Rejected e n)
  show ?thesis by (rule use_inv_settled [OF inv]) (use inv in \<open>simp_all add: Rejected(2) holders_def holder_def use_inv_def\<close>)
next
  case (Repeated v r g e n)
  obtain grants where g: "guard_wf (ve_guard s)" "replay.spaced grants monoMs (ve_guard s)" "list_all (reserved_since config grants) (holders s)"
    using inv by (auto simp: use_inv_def)
  have "snd (grant_ids (replay_ids (ad_role config) v) monoMs (ve_guard s)) = g" by (simp add: grant_ids_reserve Repeated(2))
  then have "guard_wf g" "replay.spaced grants monoMs g"
    using replay.grant_wf [OF g(1)] replay.spaced_refused [OF g(1,2), of monoMs] by (metis, metis order_refl)
  then show ?thesis
    using inv g(3) by (intro use_invI [of _ grants]) (simp_all add: Repeated(4) holders_def holder_def use_inv_def)
next
  case (Taken v t g c g')
  let ?ids = "replay_ids (ad_role config) v" and ?c = "vp_claims (vr_pb v)"
  obtain grants where g: "guard_wf (ve_guard s)" "replay.spaced grants monoMs (ve_guard s)" "list_all (reserved_since config grants) (holders s)"
    using inv by (auto simp: use_inv_def)
  have gr: "grant_ids ?ids monoMs (ve_guard s) = (True, g)" by (simp add: grant_ids_def Taken(2))
  define log where "log = grants @ map (\<lambda>(k, d). (k, monoMs, d)) ?ids"
  have sp: "replay.spaced log monoMs g" unfolding log_def by (rule replay.spaced_granted [OF g(1,2) order_refl gr])
  have wf: "guard_wf g" using replay.grant_wf [OF g(1), of ?ids monoMs] gr by simp
  have g': "guard_wf g'" "replay.spaced log monoMs g'"
    using granted_call_holder(2) [OF Taken(3)] wf sp replay.other_wf [OF wf] replay.spaced_other [OF wf sp] by metis+
  have since: "reserved_since config log ?c"
  proof -
    obtain header d where d: "decodeProof rt header Pb = Inr d" "?c = de_claims d"
      "checkProofWindow ?c [(ad_kidP config, ad_keyP config)] (ad_boundaryId config) nowMs (fc_fenceMs (ad_fence config)) = None"
      using verified_plane_proof [OF Taken(1)] by metis
    then have "real_of_int (cl_iat ?c - HOP_SKEW_MS) \<le> nowMs" by (simp add: checkProofWindow_None)
    then have "real_of_int (cl_iat ?c - HOP_SKEW_MS) - fc_startOffset (ad_fence config) - fc_threshold (ad_fence config) \<le> monoMs"
      using step(1) by (simp add: stepDetected_def)
    moreover have "(plane_id (ad_role config) ?c, monoMs, real_of_int RETAIN_PB_MS) \<in> set log"
      using plane_id_reserved [of "ad_role config" v] by (force simp: log_def)
    ultimately show ?thesis unfolding reserved_since_def by blast
  qed
  have fresh: "?c \<notin> set (holders s)"
  proof
    assume "?c \<in> set (holders s)"
    then have "reserved_since config grants ?c" using g(3) by (simp add: list_all_iff)
    from verified_again_too_early [OF Taken(1) step this] obtain t0 where
      t0: "(plane_id (ad_role config) ?c, t0, real_of_int RETAIN_PB_MS) \<in> set grants" "monoMs < t0 + real_of_int RETAIN_PB_MS" by blast
    have "t0 + real_of_int RETAIN_PB_MS \<le> monoMs"
      by (rule replay.granted_again [OF g(1,2) order_refl gr plane_id_reserved t0(1)])
    with t0(2) show False by simp
  qed
  have old: "list_all (reserved_since config log) (holders s)"
    using g(3) by (fastforce simp: list_all_iff reserved_since_def log_def)
  show ?thesis
    using inv g' since fresh old granted_call_holder(1) [OF Taken(3)]
    by (intro use_invI [of _ log]) (auto simp: Taken(4) holders_def use_inv_def)
qed

lemma use_inv_step:
  assumes "use_inv config hi s" "\<forall>request nowMs monoMs cross. ev = Arrives request nowMs monoMs cross \<longrightarrow>
      hi = monoMs \<and> \<not> stepDetected (ad_fence config) nowMs monoMs" "fc_threshold (ad_fence config) = 250"
  shows "use_inv config hi (verifier_step rt config ev s)"
proof (cases ev)
  case (Arrives request nowMs monoMs cross)
  then show ?thesis using use_inv_arrival [of config monoMs s nowMs] assms by (simp add: verifier_step_def)
next
  case (Body i b)
  have d: "distinct (concat (map holder (ve_calls s)))" using assms(1) by (simp add: use_inv_def holders_def)
  show ?thesis
  proof (cases rule: on_body_calls [of i b s])
    case 1
    then show ?thesis using assms(1) by (simp add: verifier_step_def Body)
  next
    case (2 v tag cross t got got')
    note u = holders_update [OF 2(1) _ d, of "Reading v tag cross t got'"]
    show ?thesis by (rule use_inv_settled [OF assms(1)]) (use u 2 in \<open>simp_all add: verifier_step_def Body holders_def holder_def\<close>)
  next
    case (3 v tag cross t got got' result)
    note u = holders_update [OF 3(1) _ d, of "BodyRead v tag cross t result"]
    show ?thesis by (rule use_inv_settled [OF assms(1)]) (use u 3 in \<open>simp_all add: verifier_step_def Body holders_def holder_def\<close>)
  qed
next
  case (Resumes i)
  have d: "distinct (concat (map holder (ve_calls s)))" using assms(1) by (simp add: use_inv_def holders_def)
  show ?thesis
  proof (cases rule: on_resume_calls [of rt "ad_role config" i s])
    case 1
    then show ?thesis using assms(1) by (simp add: verifier_step_def Resumes)
  next
    case (2 v tag cross t result outcome g)
    obtain x where x: "g = settle_by x (ve_guard s)" using finish_guard [OF 2(3)] by blast
    have "holder (Finished outcome) = [] \<or> holder (Finished outcome) = holder (ve_calls s ! i)"
      using finish_holder [OF 2(3)] by (simp add: 2(2) holder_def)
    note u = holders_update [OF 2(1) this d]
    show ?thesis by (rule use_inv_settled [OF assms(1)]) (use u 2(4) x in \<open>auto simp: verifier_step_def Resumes holders_def\<close>)
  qed
qed

definition arrival_monos :: "verifier_event list \<Rightarrow> real list" where
  "arrival_monos evs = concat (map (\<lambda>e. case e of Arrives request nowMs monoMs cross \<Rightarrow> [monoMs] | _ \<Rightarrow> []) evs)"

text \<open>The clocks of a verifier are steady when the monotonic one does not run backwards and no arrival sees a clock step.\<close>

definition steady :: "clock_fence \<Rightarrow> verifier_event list \<Rightarrow> bool" where
  "steady fence evs \<longleftrightarrow> sorted (arrival_monos evs)
     \<and> (\<forall>request nowMs monoMs cross. Arrives request nowMs monoMs cross \<in> set evs \<longrightarrow> \<not> stepDetected fence nowMs monoMs)"

lemma use_inv_run:
  assumes "new_guard capacity = Inr g" "fc_threshold (ad_fence config) = 250" "steady (ad_fence config) evs" "sorted (arrival_monos evs @ [hi])"
  shows "use_inv config hi (verifier_run rt config evs (new_verifier g))"
  using assms(3,4)
proof (induction evs arbitrary: hi rule: rev_induct)
  case Nil
  have "guard_wf g" using new_guard_ok [OF assms(1)] by (simp add: guard_wf_def replay_ok_def)
  then show ?case by (intro use_invI [of _ "[]"]) (simp_all add: verifier_run_def new_verifier_def holders_def replay.spaced_def)
next
  case (snoc ev evs)
  have st: "steady (ad_fence config) evs" using snoc.prems(1) by (auto simp: steady_def arrival_monos_def sorted_append)
  have ns: "\<not> stepDetected (ad_fence config) nowMs monoMs" if "ev = Arrives request nowMs monoMs cross" for request nowMs monoMs cross
  proof -
    have "Arrives request nowMs monoMs cross \<in> set (evs @ [ev])" using that by simp
    then show ?thesis using snoc.prems(1) unfolding steady_def by blast
  qed
  have other: "use_inv config hi (verifier_run rt config (evs @ [ev]) (new_verifier g))" if "\<And>a b c d. ev \<noteq> Arrives a b c d"
  proof -
    have "arrival_monos (evs @ [ev]) = arrival_monos evs" using that by (cases ev) (auto simp: arrival_monos_def)
    then have "use_inv config hi (verifier_run rt config evs (new_verifier g))" using snoc.IH [OF st, of hi] snoc.prems(2) by simp
    then show ?thesis unfolding run_snoc by (rule use_inv_step) (simp_all add: that assms(2))
  qed
  show ?case
  proof (cases ev)
    case (Arrives request nowMs monoMs cross)
    have m: "arrival_monos (evs @ [ev]) = arrival_monos evs @ [monoMs]" by (simp add: Arrives arrival_monos_def)
    have le: "monoMs \<le> hi" "sorted (arrival_monos evs @ [monoMs])" using snoc.prems(2) unfolding m by (simp_all add: sorted_append)
    have "use_inv config monoMs (verifier_run rt config (evs @ [ev]) (new_verifier g))"
      unfolding run_snoc by (rule use_inv_step [OF snoc.IH [OF st le(2)]]) (simp_all add: Arrives ns assms(2))
    then show ?thesis using le(1) by (rule use_inv_later)
  qed (rule other; simp)+
qed

lemma admissions_held: "map (vp_claims \<circ> am_pb) (admissions s) = concat (map (\<lambda>c. case c of Finished x \<Rightarrow> holder c | _ \<Rightarrow> []) (ve_calls s))"
proof -
  have "map (vp_claims \<circ> am_pb) (concat (map (\<lambda>c. case c of Finished (Admitted_request a) \<Rightarrow> [a] | _ \<Rightarrow> []) cs))
      = concat (map (\<lambda>c. case c of Finished x \<Rightarrow> holder c | _ \<Rightarrow> []) cs)" for cs
    by (induction cs) (auto simp: holder_def split: admission_call.splits admission_outcome.splits)
  then show ?thesis by (simp add: admissions_def)
qed

lemma distinct_held: "distinct (holders s) \<Longrightarrow> distinct (map (vp_claims \<circ> am_pb) (admissions s))"
proof -
  have "distinct (concat (map holder cs)) \<Longrightarrow> distinct (concat (map (\<lambda>c. case c of Finished x \<Rightarrow> holder c | _ \<Rightarrow> []) cs))
      \<and> set (concat (map (\<lambda>c. case c of Finished x \<Rightarrow> holder c | _ \<Rightarrow> []) cs)) \<subseteq> set (concat (map holder cs))" for cs
    by (induction cs) (fastforce split: admission_call.splits)+
  then show "distinct (holders s) \<Longrightarrow> distinct (map (vp_claims \<circ> am_pb) (admissions s))"
    unfolding admissions_held holders_def by blast
qed

text \<open>C5. No approval of the plane is used twice. While the clocks are steady (the monotonic one does not run backwards, and no arrival sees the wall
  clock stepped against it by more than the threshold of the fence), a verifier with a new guard, be it the Boundary or the App, never admits
  two requests on the same proof of the plane, however their body reads interleave and whatever was refused in between: a replayed proof is
  refused as long as it is in its window, and the window closes before the replay entry is purged.\<close>

theorem proof_admitted_once:
  assumes "new_guard capacity = Inr g" "ad_fence config = new_fence wallMs startMs 250" "steady (ad_fence config) evs"
  shows "distinct (map (vp_claims \<circ> am_pb) (admissions (verifier_run rt config evs (new_verifier g))))"
proof -
  have "sorted (arrival_monos evs @ [Max (insert 0 (set (arrival_monos evs)))])"
    using assms(3) by (simp add: steady_def sorted_append)
  from use_inv_run [OF assms(1) _ assms(3) this] have "distinct (holders (verifier_run rt config evs (new_verifier g)))"
    by (simp add: assms(2) new_fence_def use_inv_def)
  then show ?thesis by (rule distinct_held)
qed

subsection \<open>A request without a valid signature\<close>

text \<open>C35. Refusal leaves no trace. A request that carries no proof whose signature verifies under the key of the verifier is refused at once: it takes no
  replay entry, no read of its body starts, and no other call is touched.\<close>

theorem unsigned_request_leaves_no_trace:
  assumes "\<forall>header d. header \<in> set (hq_rawHeaders request) \<longrightarrow> decodeProof rt header (ad_role config) = Inr d
      \<longrightarrow> \<not> verifyProofSignature rt (ad_role config) d (own_key config)"
  shows "\<exists>e n. on_arrival rt config request nowMs monoMs cross s = s\<lparr>ve_calls := ve_calls s @ [Finished (Refused e n)]\<rparr>"
proof (cases rule: arrival_cases [of rt config request nowMs monoMs cross s])
  case (Rejected e n)
  then show ?thesis by blast
next
  case (Repeated v r g e n)
  then show ?thesis using verified_own_header [OF Repeated(1)] assms by blast
next
  case (Taken v t g c g')
  then show ?thesis using verified_own_header [OF Taken(1)] assms by blast
qed

subsection \<open>An approved request is admitted\<close>

definition hop_hash :: "'k hop_runtime \<Rightarrow> bool" where
  "hop_hash rt \<longleftrightarrow> (\<forall>b. length (hr_sha256 rt b) = 32) \<and> sha256B64 rt [] = EMPTY_BODY_SHA256"

lemma empty_digest: "decodeCanonicalB64 EMPTY_BODY_SHA256 (Some 32) \<noteq> None"
  by code_simp

lemma digest_decodes: "hop_hash rt \<Longrightarrow> decodeCanonicalB64 (sha256B64 rt b) (Some 32) = Some (hr_sha256 rt b)"
proof -
  assume h: "hop_hash rt"
  then have "length (hr_sha256 rt b) = 32" by (simp add: hop_hash_def)
  then have "hr_sha256 rt b \<noteq> []" by auto
  with h show ?thesis by (simp add: sha256B64_def decodeCanonicalB64_iff hop_hash_def)
qed

lemma approved_request_ok: "hop_hash rt \<Longrightarrow> buildApprovedRequest (sha256B64 rt) layer = Inr (r, n) \<Longrightarrow> request_ok r"
proof -
  assume h: "hop_hash rt" and b: "buildApprovedRequest (sha256B64 rt) layer = Inr (r, n)"
  note ap = approved_ok [OF b]
  have "decodeCanonicalB64 (sr_bodySha256 r) (Some 32) \<noteq> None"
  proof (cases "sr_method r = ''POST''")
    case True
    then show ?thesis using ap(4) digest_decodes [OF h] by auto
  next
    case False
    then show ?thesis using ap(1) empty_digest by (auto simp: semantic_ok_def)
  qed
  then show "request_ok r" using ap(1) by (auto simp: semantic_ok_def request_ok_def)
qed

text \<open>The body that was approved: the one of a POST, and none otherwise.\<close>

definition approved_body :: "layer_request \<Rightarrow> bytes" where
  "approved_body layer = (if lr_method layer = ''POST'' then the (lr_body layer) else [])"

lemma approved_body_ok:
  assumes "hop_hash rt" "buildApprovedRequest (sha256B64 rt) layer = Inr (r, n)"
  shows "body_ok rt r (approved_body layer)"
  using approved_ok [OF assms(2)] assms(1) by (auto simp: body_ok_def approved_body_def semantic_ok_def hop_hash_def)

text \<open>Reading a body that arrives in any number of chunks.\<close>

lemma read_chunks:
  assumes "i < length (ve_calls s)" "ve_calls s ! i = Reading v tag cross t got"
    "length (got @ concat chunks) \<le> sr_bodyLen (cl_request (vr_claims v))"
  shows "\<exists>s'. verifier_run rt config (map (\<lambda>b. Body i (Chunk b)) chunks) s = s' \<and> length (ve_calls s') = length (ve_calls s)
    \<and> ve_calls s' ! i = Reading v tag cross t (got @ concat chunks)"
  using assms
proof (induction chunks arbitrary: s got)
  case Nil
  then show ?case by (simp add: verifier_run_def)
next
  case (Cons b chunks)
  define s1 where "s1 = verifier_step rt config (Body i (Chunk b)) s"
  have "on_body_event (sr_bodyLen (cl_request (vr_claims v))) (Chunk b) got = (got @ b, None)" using Cons.prems(3) by (simp add: on_body_event_def)
  then have s1: "ve_calls s1 = (ve_calls s)[i := Reading v tag cross t (got @ b)]"
    using Cons.prems(1,2) by (simp add: s1_def verifier_step_def on_body_def)
  have "verifier_run rt config (map (\<lambda>b. Body i (Chunk b)) (b # chunks)) s = verifier_run rt config (map (\<lambda>b. Body i (Chunk b)) chunks) s1"
    by (simp add: verifier_run_def s1_def)
  then show ?case using Cons.IH [of s1 "got @ b"] Cons.prems(1,3) by (simp add: s1)
qed

definition body_events :: "nat \<Rightarrow> bytes list \<Rightarrow> verifier_event list" where
  "body_events i chunks = map (\<lambda>b. Body i (Chunk b)) chunks @ [Body i BodyEnd, Resumes i]"

lemma read_body:
  assumes "i < length (ve_calls s)" "ve_calls s ! i = Reading v tag cross t []" "length (concat chunks) = sr_bodyLen (cl_request (vr_claims v))"
  shows "ve_calls (verifier_run rt config (body_events i chunks) s) ! i
    = Finished (admit_checks rt (ad_role config) v tag cross (BodyComplete (concat chunks)))"
proof -
  obtain s1 where s1: "verifier_run rt config (map (\<lambda>b. Body i (Chunk b)) chunks) s = s1" "length (ve_calls s1) = length (ve_calls s)"
    "ve_calls s1 ! i = Reading v tag cross t (concat chunks)"
    using read_chunks [OF assms(1,2), of chunks rt config] assms(3) by auto
  define s2 where "s2 = verifier_step rt config (Body i BodyEnd) s1"
  have s2: "ve_calls s2 = (ve_calls s1)[i := BodyRead v tag cross t (BodyComplete (concat chunks))]"
    using s1 assms(1,3) by (simp add: s2_def verifier_step_def on_body_def on_body_event_def)
  have "verifier_run rt config (body_events i chunks) s = verifier_step rt config (Resumes i) s2"
    using s1(1) by (simp add: verifier_run_def body_events_def s2_def)
  then show ?thesis using s1(2) assms(1) by (simp add: verifier_step_def on_resume_def s2 admit_finish_def Let_def)
qed

lemma body_events_finished: "ve_calls s ! i = Finished x \<Longrightarrow> ve_calls (verifier_run rt config (body_events i chunks) s) ! i = Finished x"
proof -
  assume f: "ve_calls s ! i = Finished x"
  have "verifier_run rt config evs s = s" if "set evs \<subseteq> range (Body i) \<union> {Resumes i}" for evs
    using that by (induction evs) (auto simp: verifier_run_def verifier_step_def on_body_def on_resume_def f)
  moreover have "set (body_events i chunks) \<subseteq> range (Body i) \<union> {Resumes i}" by (auto simp: body_events_def)
  ultimately show ?thesis by (simp add: f)
qed

text \<open>A verified request that gets its reservation and whose body arrives as signed is admitted.\<close>

lemma verified_is_admitted:
  assumes "verify_request rt config request nowMs = Inr v" "fst (grant_ids (replay_ids (ad_role config) v) monoMs (ve_guard s))"
    "body_ok rt (cl_request (vr_claims v)) (concat chunks)" "sr_bodyLen (cl_request (vr_claims v)) \<le> MAX_SEMANTIC_BODY"
  shows "\<exists>a. ve_calls (verifier_run rt config (Arrives request nowMs monoMs (Some True) # body_events (length (ve_calls s)) chunks) s)
      ! length (ve_calls s) = Finished (Admitted_request a) \<and> am_claims a = vr_claims v \<and> am_pb a = vr_pb v \<and> am_body a = concat chunks
    \<and> am_hop a = cl_hop (vr_claims v) \<and> am_nonce a = cl_corr (vr_claims v)"
proof (cases rule: arrival_cases [of rt config request nowMs monoMs "Some True" s])
  case (Rejected e n)
  then show ?thesis using assms(1) by simp
next
  case (Repeated w r g e n)
  then show ?thesis using assms(1,2) by simp
next
  case (Taken w t g c g')
  have w: "w = v" using Taken(1) assms(1) by simp
  let ?i = "length (ve_calls s)" and ?tag = "tag_of (scan_of request)"
  let ?s = "on_arrival rt config request nowMs monoMs (Some True) s"
  have run: "verifier_run rt config (Arrives request nowMs monoMs (Some True) # body_events ?i chunks) s
      = verifier_run rt config (body_events ?i chunks) ?s" by (simp add: verifier_run_def verifier_step_def)
  have c: "ve_calls ?s ! ?i = c" "?i < length (ve_calls ?s)" by (simp_all add: Taken(4))
  have len: "length (concat chunks) = sr_bodyLen (cl_request (vr_claims v))" using assms(3) by (simp add: body_ok_def)
  have "ve_calls (verifier_run rt config (body_events ?i chunks) ?s) ! ?i
      = Finished (admit_checks rt (ad_role config) v ?tag (Some True) (BodyComplete (concat chunks)))"
  proof (cases "sr_bodyLen (cl_request (vr_claims v)) = 0")
    case True
    have nil: "concat chunks = []" using len True by simp
    have "c = Finished (admit_checks rt (ad_role config) v ?tag (Some True) (BodyComplete []))"
      using Taken(3) True by (auto simp: granted_call_def w admit_finish_def Let_def)
    then show ?thesis using c(1) unfolding nil by (intro body_events_finished) simp
  next
    case False
    then have "c = Reading v ?tag (Some True) t []" using Taken(3) assms(4) by (simp add: granted_call_def w Let_def)
    then show ?thesis using c len by (intro read_body) simp_all
  qed
  then show ?thesis using assms(3) by (simp add: run admit_checks_def Let_def body_ok_def)
qed

end
