(* ===== verification/Hop_Runtime.thy ===== *)
theory Hop_Runtime
  imports Hop_Proof Strict_Json
begin

text \<open>
  A runtime that satisfies what the hop proofs rely on. \<open>text_runtime\<close> instantiates the parameters of \<^verbatim>\<open>Hop_Proof\<close> by concrete functions: the JSON
  text layer is the canonical encoder and the parser of \<^verbatim>\<open>Strict_Json\<close>, bytes are the Latin-1 text itself, the digest is constant, and a
  signature is one fixed 64-byte string, which verifies under a key on the messages a given predicate names for it. It shows that the hypotheses of the
  properties of \<^verbatim>\<open>Hop_Chain\<close> can hold together.

  The lemma: the text layer reads back the payload of all well-formed claims (\<open>hop_codec\<close>), which rests on the round trip of the parser.
\<close>

definition json_text :: "jval \<Rightarrow> string" where
  "json_text v = (case encodeTupleJson v of Inr t \<Rightarrow> t | Inl e \<Rightarrow> ''!'')"

definition json_read :: "string \<Rightarrow> jval option" where
  "json_read t = (case parse_value 4 t of Some (v, rest) \<Rightarrow> if rest = [] then Some v else None | None \<Rightarrow> None)"

definition fixed_signature :: bytes where "fixed_signature = replicate 64 (CHR ''s'')"

definition text_runtime :: "(string \<Rightarrow> bytes \<Rightarrow> bool) \<Rightarrow> string hop_runtime" where
  "text_runtime genuine = \<lparr>hr_sha256 = (\<lambda>b. the (decodeCanonicalB64 EMPTY_BODY_SHA256 (Some 32))), hr_sign = (\<lambda>key m. fixed_signature),
     hr_verify = (\<lambda>key sig m. sig = fixed_signature \<and> genuine key m), hr_utf8 = (\<lambda>t. t), hr_decode = Some,
     hr_stringify = json_text, hr_parse = json_read\<rparr>"

lemma json_text_nonempty: "json_text v \<noteq> []"
  using encode_hd [of v] by (auto simp: json_text_def split: sum.splits)

lemma json_read_text: "encodeTupleJson v = Inr t \<Longrightarrow> jdepth v \<le> 4 \<Longrightarrow> json_read t = Some v"
  using parse_encoded [of v t 4 "[]"] by (simp add: json_read_def tail_ok_def)

lemma pair_value_text: "\<exists>t. encodeTupleJson (pair_value p) = Inr t"
  by (simp add: pair_value_def)

lemma sum_map_all: "(\<And>x. x \<in> set xs \<Longrightarrow> \<exists>y. f x = Inr y) \<Longrightarrow> \<exists>ys. sum_map f xs = Inr ys"
  by (induction xs) fastforce+

lemma pairs_text: "\<exists>t. encodeTupleJson (JArr (map pair_value ps)) = Inr t"
proof -
  have "\<exists>ts. sum_map encodeTupleJson (map pair_value ps) = Inr ts" using pair_value_text by (intro sum_map_all) auto
  then show ?thesis by auto
qed

lemma claims_text:
  assumes "claims_ok c"
  shows "\<exists>t. encodeTupleJson (claimsPayload c) = Inr t"
proof -
  have n: "is_safe_time (cl_iat c)" "is_safe_time (cl_exp c)" "is_safe_time (cl_hop c)" "is_safe_time (int (sr_bodyLen (cl_request c)))"
    using assms
    by (auto simp: claims_ok_def is_count_def is_safe_time_def request_ok_def MAX_SEMANTIC_BODY_def is_safe_integer_def MAX_SAFE_INTEGER_def)
  obtain t where t: "encodeTupleJson (JArr (map pair_value (sr_pairs (cl_request c)))) = Inr t" using pairs_text by blast
  show ?thesis
    unfolding claimsPayload_def Let_def encodeTupleJson.simps(5)
    using n t by (auto simp: sum_bind_Inr_iff simp del: encodeTupleJson.simps(5) split: option.splits intro!: sum_map_all)
qed

lemma claims_depth: "jdepth (claimsPayload c) \<le> 4"
proof -
  have "jdepth (JArr (map pair_value ps)) \<le> 3" for ps by (simp add: fold_max_le pair_value_def)
  then show ?thesis by (simp add: claimsPayload_def Let_def fold_max_le split: option.splits del: jdepth.simps(1)) (simp add: fold_max_le)
qed

text \<open>A bound on the length of a text without escapes.\<close>

fun text_bound :: "jval \<Rightarrow> nat" where
  "text_bound (JStr s) = length s + 2"
| "text_bound (JArr xs) = sum_list (map (\<lambda>x. Suc (text_bound x)) xs) + 2"
| "text_bound v = 16"

fun plain_text :: "jval \<Rightarrow> bool" where
  "plain_text (JStr s) = list_all (\<lambda>c. c \<noteq> CHR 0x22 \<and> c \<noteq> CHR 0x5C \<and> 32 \<le> byte_val c) s"
| "plain_text (JArr xs) = list_all plain_text xs"
| "plain_text v = True"

lemma quote_plain: "plain_text (JStr s) \<Longrightarrow> length (json_quote s) = length s + 2"
proof -
  have "list_all (\<lambda>c. c \<noteq> CHR 0x22 \<and> c \<noteq> CHR 0x5C \<and> 32 \<le> byte_val c) s \<Longrightarrow> concat (map json_escape s) = s"
    by (induction s) (auto simp: json_escape_def)
  then show "plain_text (JStr s) \<Longrightarrow> length (json_quote s) = length s + 2" by (simp add: json_quote_def)
qed

lemma join_comma_length: "length (join_comma ts) \<le> sum_list (map (\<lambda>t. Suc (length t)) ts)"
  by (induction ts rule: join_comma.induct) auto

lemma text_bound: "encodeTupleJson v = Inr t \<Longrightarrow> plain_text v \<Longrightarrow> length t \<le> text_bound v"
proof (induction v arbitrary: t rule: encodeTupleJson.induct)
  case (3 s)
  then show ?case using quote_plain [of s] by simp
next
  case (4 n)
  then have "is_safe_time n" "t = int_text n" by (auto split: if_splits)
  then have "t = digits (nat n)" "nat n < 10 ^ 16" by (auto simp: int_text_def is_safe_time_def is_safe_integer_def MAX_SAFE_INTEGER_def)
  then show ?case using digits_length [of "nat n" 16] by simp
next
  case (5 xs)
  obtain ts where ts: "sum_map encodeTupleJson xs = Inr ts" "t = CHR ''['' # join_comma ts @ '']''" using 5(2) by (auto simp: sum_bind_Inr_iff)
  have "list_all2 (\<lambda>x t. length t \<le> text_bound x) xs ts"
    using ts(1) 5(1,3) by (auto simp: sum_map_Inr_iff list_all2_conv_all_nth list_all_length)
  then have "sum_list (map (\<lambda>t. Suc (length t)) ts) \<le> sum_list (map (\<lambda>x. Suc (text_bound x)) xs)"
    by (induction rule: list_all2_induct) auto
  then show ?case using join_comma_length [of ts] by (simp add: ts(2))
qed auto

lemma claims_text_length:
  "claims_ok c \<Longrightarrow> plain_text (claimsPayload c) \<Longrightarrow> length (json_text (claimsPayload c)) \<le> text_bound (claimsPayload c)"
  using claims_text [of c] text_bound [of "claimsPayload c"] by (auto simp: json_text_def)

lemma text_runtime_codec: "hop_codec (text_runtime genuine)"
  using claims_text claims_depth json_read_text json_text_nonempty
  by (fastforce simp: hop_codec_def text_runtime_def json_text_def)

lemma text_runtime_digest: "sha256B64 (text_runtime genuine) b = EMPTY_BODY_SHA256" "length (hr_sha256 (text_runtime genuine) b) = 32"
proof -
  have "decodeCanonicalB64 EMPTY_BODY_SHA256 (Some 32) \<noteq> None" by code_simp
  then obtain d where d: "decodeCanonicalB64 EMPTY_BODY_SHA256 (Some 32) = Some d" by blast
  then show "sha256B64 (text_runtime genuine) b = EMPTY_BODY_SHA256" "length (hr_sha256 (text_runtime genuine) b) = 32"
    by (simp_all add: sha256B64_def text_runtime_def) (simp_all add: decodeCanonicalB64_iff)
qed

end
