(* ===== verification/Hop_Chain.thy ===== *)
theory Hop_Chain
  imports Hop_Admission Hop_Runtime
begin

text \<open>
  The chain of the two hops: a request the plane approved passes the Boundary (\<^verbatim>\<open>defense/boundary/boundary.ts\<close>) and, on the proof the Boundary
  issues, the App (\<^verbatim>\<open>defense/origin/app-guard.ts\<close>).

  \<open>plane_request\<close> and \<open>boundary_request\<close> are the requests the two hops send: the wire headers of the approved request, the proofs, and the
  connection header of the transport. The theorems say that nothing genuine is refused: the Boundary admits what the plane approved and
  signed, and the App what the Boundary admitted and forwards. The witnesses, also those of \<^verbatim>\<open>Hop_Admission\<close>, run a POST through both hops
  on the runtime of \<^verbatim>\<open>Hop_Runtime\<close>.
\<close>

definition plane_request :: "semantic_request \<Rightarrow> issued \<Rightarrow> (string \<times> string) list \<Rightarrow> hop_request" where
  "plane_request r pb transport =
     \<lparr>hq_method = sr_method r, hq_url = sr_target r, hq_rawHeaders = sent_headers r [(HOP_PB_HEADER, is_header pb)] transport\<rparr>"

text \<open>What the Boundary forwards: \<^verbatim>\<open>{ ...semanticWireHeaders(outcome.request), [HOP_BA_HEADER]: issued.header, [HOP_PB_HEADER]: outcome.pb.header }\<close>\<close>

definition boundary_request :: "admitted \<Rightarrow> issued \<Rightarrow> (string \<times> string) list \<Rightarrow> hop_request" where
  "boundary_request a ba transport = (let r = cl_request (am_claims a) in
     \<lparr>hq_method = sr_method r, hq_url = sr_target r,
      hq_rawHeaders = sent_headers r [(HOP_BA_HEADER, is_header ba), (HOP_PB_HEADER, vp_header (am_pb a))] transport\<rparr>)"

text \<open>The claims of an issuer are well formed, and fresh for a verifier at a time.\<close>

definition issuer_ok :: "'k issuer_config \<Rightarrow> bool" where
  "issuer_ok ic \<longleftrightarrow> is_kid (ic_kid ic) \<and> is_id22 (ic_audience ic)"

definition fresh_at :: "claims \<Rightarrow> clock_fence \<Rightarrow> real \<Rightarrow> bool" where
  "fresh_at c fence nowMs \<longleftrightarrow> real_of_int (cl_iat c - HOP_SKEW_MS) \<le> nowMs \<and> nowMs \<le> real_of_int (cl_exp c + HOP_SKEW_MS)
     \<and> fc_fenceMs fence \<le> real_of_int (cl_iat c)"

definition pb_fields_ok :: "'k issuer_config \<Rightarrow> int \<Rightarrow> string \<Rightarrow> int \<Rightarrow> string \<Rightarrow> bool" where
  "pb_fields_ok ic hop corr iat jti \<longleftrightarrow> issuer_ok ic \<and> is_count hop \<and> 1 \<le> hop \<and> is_id22 corr \<and> is_count iat
     \<and> is_count (iat + ic_lifetimeMs ic) \<and> is_id22 jti"

text \<open>The signature of an issuer on the message of some claims has 64 bytes and verifies under the public key.\<close>

definition claims_message :: "'k hop_runtime \<Rightarrow> claims \<Rightarrow> bytes" where
  "claims_message rt c = proof_message (role_of c) rt (proof_payload rt c)"

definition signs_claims :: "'k hop_runtime \<Rightarrow> 'k \<Rightarrow> 'k \<Rightarrow> claims \<Rightarrow> bool" where
  "signs_claims rt privateKey publicKey c \<longleftrightarrow> (let m = claims_message rt c; sig = hr_sign rt privateKey m in
     length sig = 64 \<and> hr_verify rt publicKey sig m)"

lemma issued_proof:
  assumes "hop_codec rt" "claims_ok c" "length (encodeEnvelope rt c privateKey) \<le> HEADER_MAX (role_of c)" "signs_claims rt privateKey publicKey c"
  obtains d where "decodeProof rt (encodeEnvelope rt c privateKey) (role_of c) = Inr d" "de_claims d = c"
    "verifyProofSignature rt (role_of c) d publicKey"
  using decodeProof_encodeEnvelope [OF assms(1-3)] assms(4) that
  by (fastforce simp: signs_claims_def Let_def claims_message_def verifyProofSignature_def)

lemma issuePb_Inr:
  assumes "issuePb rt registry ic r hop corr iat jti = Inr pb"
  shows "is_header pb = encodeEnvelope rt (pb_claims ic r hop corr iat jti) (ic_privateKey ic)" "1 \<le> ic_lifetimeMs ic" "ic_lifetimeMs ic \<le> 5000"
  using assms by (auto simp: issuePb_def PB_MAX_LIFETIME_MS_def split: if_splits)

lemma issueBa_Inr:
  assumes "issueBa rt registry ic vp iat jti = Inr ba"
  shows "is_header ba = encodeEnvelope rt (ba_claims rt ic vp iat jti) (ic_privateKey ic)" "1 \<le> ic_lifetimeMs ic" "ic_lifetimeMs ic \<le> 2000"
  using assms by (auto simp: issueBa_def BA_MAX_LIFETIME_MS_def split: if_splits)

lemma pb_claims_ok: "request_ok r \<Longrightarrow> pb_fields_ok ic hop corr iat jti \<Longrightarrow> claims_ok (pb_claims ic r hop corr iat jti)"
  by (simp add: claims_ok_def pb_claims_def pb_fields_ok_def issuer_ok_def lineage_ok_def)

lemma window_ok:
  assumes "fresh_at c fence nowMs" "cl_iat c < cl_exp c" "cl_exp c - cl_iat c \<le> MAX_LIFETIME (role_of c)"
  shows "checkProofWindow c [(cl_kid c, key)] (cl_aud c) nowMs (fc_fenceMs fence) = None"
  using assms by (simp add: checkProofWindow_None fresh_at_def)

lemma sent_wire_check:
  assumes "semantic_ok r" "proofs_ok proofs" "transport_ok transport" "hq_method q = sr_method r" "hq_url q = sr_target r"
    "hq_rawHeaders q = sent_headers r proofs transport"
  shows "wire_check q (scan_of q) r = None" "scan_violation (scan_of q) = None" "tag_of (scan_of q) = None"
    "hs_pb (scan_of q) = map snd (filter (\<lambda>p. fst p = HOP_PB_HEADER) proofs)"
    "hs_ba (scan_of q) = map snd (filter (\<lambda>p. fst p = HOP_BA_HEADER) proofs)"
  using sent_scan [OF assms(1-3)] assms(4-6) by (simp_all add: wire_check_None tag_of_def)

text \<open>The Boundary verifies what the plane sends for an approved request.\<close>

definition pb_verified :: "claims \<Rightarrow> string \<Rightarrow> verified_request" where
  "pb_verified c header = \<lparr>vr_claims = c, vr_pb = \<lparr>vp_claims = c, vp_header = header\<rparr>, vr_authNonce = cl_corr c\<rparr>"

lemma plane_request_verified:
  assumes "hop_codec rt" "signs_claims rt (ic_privateKey ic) (ad_keyP config) (pb_claims ic r hop corr iat jti)" "semantic_ok r" "request_ok r"
    "issuePb rt registry ic r hop corr iat jti = Inr pb" "pb_fields_ok ic hop corr iat jti" "length (is_header pb) \<le> PB_HEADER_MAX"
    "ad_role config = Pb" "ad_kidP config = ic_kid ic" "ad_boundaryId config = ic_audience ic" "transport_ok transport"
    "fresh_at (pb_claims ic r hop corr iat jti) (ad_fence config) nowMs"
  shows "verify_request rt config (plane_request r pb transport) nowMs = Inr (pb_verified (pb_claims ic r hop corr iat jti) (is_header pb))"
proof -
  define c where "c = pb_claims ic r hop corr iat jti"
  let ?q = "plane_request r pb transport"
  note iss = issuePb_Inr [OF assms(5)]
  have role: "role_of c = Pb" "cl_request c = r" "cl_kid c = ic_kid ic" "cl_aud c = ic_audience ic" by (simp_all add: c_def role_of_def pb_claims_def)
  have "claims_ok c" using pb_claims_ok [OF assms(4,6)] by (simp add: c_def)
  then obtain d where d: "decodeProof rt (is_header pb) Pb = Inr d" "de_claims d = c" "verifyProofSignature rt Pb d (ad_keyP config)"
    using issued_proof [OF assms(1), of c "ic_privateKey ic" "ad_keyP config"] assms(2,7) role(1) iss(1) by (auto simp: c_def)
  have q: "proofs_ok [(HOP_PB_HEADER, is_header pb)]" "hq_method ?q = sr_method r" "hq_url ?q = sr_target r"
    "hq_rawHeaders ?q = sent_headers r [(HOP_PB_HEADER, is_header pb)] transport" by (simp_all add: plane_request_def proofs_ok_def)
  note w = sent_wire_check [OF assms(3) q(1) assms(11) q(2-4)]
  have "hs_pb (scan_of ?q) = [is_header pb]" "hs_ba (scan_of ?q) = []" using w(4,5) header_classes by simp_all
  moreover have "checkProofWindow c [(own_kid config, own_key config)] (own_aud config) nowMs (fc_fenceMs (ad_fence config)) = None"
    using window_ok [of c "ad_fence config" nowMs "own_key config"] assms(8-10,12) role iss(2,3)
    by (simp add: c_def own_kid_def own_aud_def pb_claims_def PB_MAX_LIFETIME_MS_def)
  ultimately show ?thesis
    using w(1-3) d role(2) assms(8) unfolding c_def [symmetric]
    by (simp add: verify_request_def presence_check_def Let_def pb_verified_def own_key_def)
qed

lemma boundary_admits:
  assumes "hop_codec rt" "hop_hash rt" "signs_claims rt (ic_privateKey ic) (ad_keyP config) (pb_claims ic r hop corr iat jti)"
    "buildApprovedRequest (sha256B64 rt) layer = Inr (r, n)" "issuePb rt registry ic r hop corr iat jti = Inr pb"
    "pb_fields_ok ic hop corr iat jti" "length (is_header pb) \<le> PB_HEADER_MAX"
    "ad_role config = Pb" "ad_kidP config = ic_kid ic" "ad_boundaryId config = ic_audience ic" "transport_ok transport"
    "fresh_at (pb_claims ic r hop corr iat jti) (ad_fence config) nowMs"
    "fst (grant_ids [(''pb:'' @ jti, real_of_int RETAIN_PB_MS)] monoMs (ve_guard s))" "concat chunks = approved_body layer"
  shows "\<exists>a. ve_calls (verifier_run rt config
      (Arrives (plane_request r pb transport) nowMs monoMs (Some True) # body_events (length (ve_calls s)) chunks) s) ! length (ve_calls s)
      = Finished (Admitted_request a)
    \<and> am_claims a = pb_claims ic r hop corr iat jti \<and> am_pb a = \<lparr>vp_claims = am_claims a, vp_header = is_header pb\<rparr>
    \<and> am_body a = approved_body layer \<and> am_hop a = hop \<and> am_nonce a = corr"
proof -
  let ?v = "pb_verified (pb_claims ic r hop corr iat jti) (is_header pb)"
  note ok = approved_ok(1) [OF assms(4)] approved_request_ok [OF assms(2,4)]
  have v: "verify_request rt config (plane_request r pb transport) nowMs = Inr ?v"
    by (rule plane_request_verified [OF assms(1,3) ok assms(5-12)])
  have "replay_ids (ad_role config) ?v = [(''pb:'' @ jti, real_of_int RETAIN_PB_MS)]"
    by (simp add: replay_ids_def assms(8) pb_verified_def pb_claims_def)
  moreover have r: "cl_request (vr_claims ?v) = r" by (simp add: pb_verified_def pb_claims_def)
  moreover have "sr_bodyLen r \<le> MAX_SEMANTIC_BODY" using ok(1) by (simp add: semantic_ok_def)
  ultimately obtain a where a: "ve_calls (verifier_run rt config
      (Arrives (plane_request r pb transport) nowMs monoMs (Some True) # body_events (length (ve_calls s)) chunks) s) ! length (ve_calls s)
      = Finished (Admitted_request a)" "am_claims a = vr_claims ?v" "am_pb a = vr_pb ?v" "am_body a = concat chunks"
    "am_hop a = cl_hop (vr_claims ?v)" "am_nonce a = cl_corr (vr_claims ?v)"
    using verified_is_admitted [OF v, of monoMs s chunks] assms(13,14) approved_body_ok [OF assms(2,4)] by auto
  then show ?thesis by (intro exI [of _ a]) (simp add: assms(14) pb_verified_def, simp add: pb_claims_def)
qed

subsection \<open>The hop to the App\<close>

definition ba_fields_ok :: "'k issuer_config \<Rightarrow> int \<Rightarrow> string \<Rightarrow> bool" where
  "ba_fields_ok ic iat jti \<longleftrightarrow> issuer_ok ic \<and> is_count iat \<and> is_count (iat + ic_lifetimeMs ic) \<and> is_id22 jti"

lemma ba_claims_sel:
  "role_of (ba_claims rt ic vp iat jti) = Ba" "cl_request (ba_claims rt ic vp iat jti) = cl_request (vp_claims vp)"
  "cl_hop (ba_claims rt ic vp iat jti) = cl_hop (vp_claims vp)" "cl_corr (ba_claims rt ic vp iat jti) = cl_corr (vp_claims vp)"
  "cl_kid (ba_claims rt ic vp iat jti) = ic_kid ic" "cl_aud (ba_claims rt ic vp iat jti) = ic_audience ic"
  "cl_jti (ba_claims rt ic vp iat jti) = jti" "cl_iat (ba_claims rt ic vp iat jti) = iat"
  "cl_exp (ba_claims rt ic vp iat jti) = iat + ic_lifetimeMs ic"
  "cl_lineage (ba_claims rt ic vp iat jti) = Some (cl_jti (vp_claims vp), sha256B64 rt (hr_utf8 rt (vp_header vp)))"
  by (simp_all add: ba_claims_def Let_def role_of_def)

lemma ba_claims_ok: "hop_hash rt \<Longrightarrow> claims_ok (vp_claims vp) \<Longrightarrow> ba_fields_ok ic iat jti \<Longrightarrow> claims_ok (ba_claims rt ic vp iat jti)"
  using digest_decodes [of rt "hr_utf8 rt (vp_header vp)"]
  by (simp add: claims_ok_def ba_claims_sel ba_fields_ok_def issuer_ok_def lineage_ok_def)

lemma forwarded_verified:
  assumes "hop_codec rt" "signs_claims rt (ic_privateKey ic) (ad_keyB app) c" "c = ba_claims rt ic vp iat jti" "claims_ok c" "semantic_ok (cl_request c)"
    and ba: "issueBa rt registry ic vp iat jti = Inr ba" "length (is_header ba) \<le> BA_HEADER_MAX"
    and app: "ad_role app = Ba" "ad_kidB app = ic_kid ic" "ad_appId app = ic_audience ic" "transport_ok transport" "fresh_at c (ad_fence app) nowMs"
    and pb: "decodeProof rt (vp_header vp) Pb = Inr d" "vp_claims vp = de_claims d" "verifyProofSignature rt Pb d (ad_keyP app)"
      "checkProofWindow (vp_claims vp) [(ad_kidP app, ad_keyP app)] (ad_boundaryId app) nowMs (fc_fenceMs (ad_fence app)) = None"
    and a: "am_pb a = vp" "cl_request (am_claims a) = cl_request c"
  shows "verify_request rt app (boundary_request a ba transport) nowMs = Inr \<lparr>vr_claims = c, vr_pb = vp, vr_authNonce = cl_corr c\<rparr>"
proof -
  let ?q = "boundary_request a ba transport" and ?ps = "[(HOP_BA_HEADER, is_header ba), (HOP_PB_HEADER, vp_header vp)]"
  note iss = issueBa_Inr [OF ba(1), folded assms(3)] and sel = ba_claims_sel [of rt ic vp iat jti, folded assms(3)]
  obtain e where e: "decodeProof rt (is_header ba) Ba = Inr e" "de_claims e = c" "verifyProofSignature rt Ba e (ad_keyB app)"
    using issued_proof [OF assms(1,4) _ assms(2)] ba(2) iss(1) sel(1) by auto
  have q: "proofs_ok ?ps" "hq_method ?q = sr_method (cl_request c)" "hq_url ?q = sr_target (cl_request c)"
    "hq_rawHeaders ?q = sent_headers (cl_request c) ?ps transport" by (simp_all add: boundary_request_def Let_def a proofs_ok_def)
  note w = sent_wire_check [OF assms(5) q(1) app(4) q(2-4)]
  have "hs_pb (scan_of ?q) = [vp_header vp]" "hs_ba (scan_of ?q) = [is_header ba]" using w(4,5) header_classes by simp_all
  moreover have "checkProofWindow c [(own_kid app, own_key app)] (own_aud app) nowMs (fc_fenceMs (ad_fence app)) = None"
    using window_ok [OF app(5), of "own_key app"] app(1-3) sel iss(2,3) by (simp add: own_kid_def own_aud_def BA_MAX_LIFETIME_MS_def)
  moreover have "lineage_check rt app nowMs (vp_header vp) c = Inr (vp_claims vp)"
    using pb sel by (simp add: lineage_check_def Let_def sameRequest_iff)
  ultimately show ?thesis
    using w(1-3) e app(1) by (simp add: verify_request_def presence_check_def Let_def own_key_def)
qed

text \<open>A verifier of the next hop trusts the same plane.\<close>

definition same_plane :: "'k admission_config \<Rightarrow> 'k admission_config \<Rightarrow> bool" where
  "same_plane boundary app \<longleftrightarrow> ad_keyP app = ad_keyP boundary \<and> ad_kidP app = ad_kidP boundary \<and> ad_boundaryId app = ad_boundaryId boundary"

definition app_ids :: "string \<Rightarrow> verified_pb \<Rightarrow> (string \<times> instant) list" where
  "app_ids jti vp = [(''ba:'' @ jti, real_of_int RETAIN_BA_MS), (''ln:'' @ cl_jti (vp_claims vp), real_of_int RETAIN_PB_MS)]"

text \<open>C22. What the Boundary admitted, the App admits. A request the Boundary admitted in any run, forwarded with its wire headers, the proof the Boundary issues for it and
  the proof of the plane, is admitted by the App with the same request, hop, correlation id and body, however the body is cut into
  chunks. The conditions: the plane's key signs only proofs of approved requests; the App trusts the plane the Boundary trusts, and has the
  key, the kid and the audience of the Boundary's issuer, whose fields are well formed and whose signature verifies; the transport adds at most a
  connection header, and the runtime's own view of the headers agrees; both proofs fit and are fresh; and their ids are new to a
  replay guard that has room.\<close>

theorem forwarded_request_is_admitted:
  assumes "hop_codec rt" "hop_hash rt" "only_approved_signed rt (ad_keyP boundary)"
    "a \<in> set (admissions (verifier_run rt boundary evs (new_verifier g)))" "same_plane boundary app"
    "issueBa rt registry ic (am_pb a) iat jti = Inr ba" "ba_fields_ok ic iat jti" "length (is_header ba) \<le> BA_HEADER_MAX"
    "signs_claims rt (ic_privateKey ic) (ad_keyB app) (ba_claims rt ic (am_pb a) iat jti)"
    "ad_role app = Ba" "ad_kidB app = ic_kid ic" "ad_appId app = ic_audience ic" "transport_ok transport"
    "fresh_at (vp_claims (am_pb a)) (ad_fence app) nowMs" "fresh_at (ba_claims rt ic (am_pb a) iat jti) (ad_fence app) nowMs"
    "fst (grant_ids (app_ids jti (am_pb a)) monoMs (ve_guard s))" "concat chunks = am_body a"
  shows "\<exists>b. ve_calls (verifier_run rt app
      (Arrives (boundary_request a ba transport) nowMs monoMs (Some True) # body_events (length (ve_calls s)) chunks) s) ! length (ve_calls s)
      = Finished (Admitted_request b)
    \<and> am_body b = am_body a \<and> am_pb b = am_pb a \<and> cl_request (am_claims b) = cl_request (am_claims a)
    \<and> am_hop b = cl_hop (vp_claims (am_pb a)) \<and> am_nonce b = cl_corr (vp_claims (am_pb a))"
proof -
  define c where "c = ba_claims rt ic (am_pb a) iat jti"
  note sel = ba_claims_sel [of rt ic "am_pb a" iat jti, folded c_def]
  obtain request before v where v: "verify_request rt boundary request before = Inr v" "am_claims a = vr_claims v" "am_pb a = vr_pb v"
    "body_ok rt (cl_request (vr_claims v)) (am_body a)"
    using admission_arrived [OF assms(4)] by metis
  obtain d where d: "decodeProof rt (vp_header (am_pb a)) Pb = Inr d" "vp_claims (am_pb a) = de_claims d"
    "verifyProofSignature rt Pb d (ad_keyP boundary)" "cl_request (am_claims a) = cl_request (vp_claims (am_pb a))"
    "checkProofWindow (vp_claims (am_pb a)) [(ad_kidP boundary, ad_keyP boundary)] (ad_boundaryId boundary) before (fc_fenceMs (ad_fence boundary)) = None"
    using verified_plane_proof [OF v(1)] v(2,3) by metis
  obtain layer r n where r: "buildApprovedRequest (sha256B64 rt) layer = Inr (r, n)" "cl_request (am_claims a) = r" "claims_ok (vp_claims (am_pb a))"
    using verified_was_approved [OF assms(1,3) v(1)] v(2,3) by metis
  have req: "cl_request (am_claims a) = cl_request c" "semantic_ok (cl_request c)" using sel(2) d(4) r(2) approved_ok(1) [OF r(1)] by simp_all
  have win: "checkProofWindow (vp_claims (am_pb a)) [(ad_kidP app, ad_keyP app)] (ad_boundaryId app) nowMs (fc_fenceMs (ad_fence app)) = None"
    using d(5) assms(5,14) by (simp add: checkProofWindow_None same_plane_def fresh_at_def)
  have ok: "claims_ok c" using ba_claims_ok [OF assms(2) r(3) assms(7)] by (simp add: c_def)
  have sig: "verifyProofSignature rt Pb d (ad_keyP app)" using d(3) assms(5) by (simp add: same_plane_def)
  have w: "verify_request rt app (boundary_request a ba transport) nowMs = Inr \<lparr>vr_claims = c, vr_pb = am_pb a, vr_authNonce = cl_corr c\<rparr>"
    by (rule forwarded_verified [OF assms(1) assms(9) [folded c_def] c_def ok req(2) assms(6,8,10-13) assms(15) [folded c_def] d(1,2) sig win refl req(1)])
  have ids: "replay_ids (ad_role app) \<lparr>vr_claims = c, vr_pb = am_pb a, vr_authNonce = cl_corr c\<rparr> = app_ids jti (am_pb a)"
    by (simp add: replay_ids_def app_ids_def assms(10) sel)
  have "body_ok rt (cl_request c) (concat chunks)" "sr_bodyLen (cl_request c) \<le> MAX_SEMANTIC_BODY"
    using v(2,4) req assms(17) by (simp_all add: semantic_ok_def)
  then show ?thesis
    using verified_is_admitted [OF w, of monoMs s chunks] ids assms(16,17) req(1) sel(3,4) by auto
qed

subsection \<open>Both hops on a concrete runtime\<close>

definition sample_id :: "char \<Rightarrow> string" where "sample_id c = replicate 22 c"

definition sample_layer :: layer_request where
  "sample_layer = \<lparr>lr_method = ''POST'', lr_target = ''/api/public-inquiries'',
     lr_headers = [(''Host'', ''limitmark.test''), (''Content-Type'', FORM_CONTENT_TYPE), (''Content-Length'', ''6'')],
     lr_bodyStatus = BComplete, lr_body = Some ''name=x''\<rparr>"

definition sample_approved :: semantic_request where
  "sample_approved = \<lparr>sr_method = ''POST'', sr_target = ''/api/public-inquiries'',
     sr_pairs = [(''content-type'', FORM_CONTENT_TYPE), (''host'', ''limitmark.test'')], sr_bodyLen = 6, sr_bodySha256 = EMPTY_BODY_SHA256\<rparr>"

definition sample_plane :: "string issuer_config" where
  "sample_plane = \<lparr>ic_kid = ''p1'', ic_privateKey = ''P'', ic_audience = sample_id (CHR ''b''), ic_lifetimeMs = 5000\<rparr>"

definition sample_boundary :: "string issuer_config" where
  "sample_boundary = \<lparr>ic_kid = ''b1'', ic_privateKey = ''B'', ic_audience = sample_id (CHR ''a''), ic_lifetimeMs = 2000\<rparr>"

definition sample_pb :: claims where
  "sample_pb = pb_claims sample_plane sample_approved 1 (sample_id (CHR ''c'')) 1000 (sample_id (CHR ''j''))"

text \<open>The key of the plane signs one message, the one of \<open>sample_pb\<close>; other keys sign every message.\<close>

definition sample_genuine :: "string \<Rightarrow> bytes \<Rightarrow> bool" where
  "sample_genuine key m \<longleftrightarrow> (key = ''P'' \<longrightarrow> m = PB_DOMAIN @ json_text (claimsPayload sample_pb))"

definition sample_rt :: "string hop_runtime" where "sample_rt = text_runtime sample_genuine"

definition sample_config :: "hop_role \<Rightarrow> string admission_config" where
  "sample_config role = \<lparr>ad_role = role, ad_keyP = ''P'', ad_kidP = ''p1'', ad_boundaryId = sample_id (CHR ''b''),
     ad_keyB = ''B'', ad_kidB = ''b1'', ad_appId = sample_id (CHR ''a''), ad_fence = new_fence 500 500 250\<rparr>"

definition sample_issued :: issued where
  "sample_issued = \<lparr>is_header = encodeEnvelope sample_rt sample_pb ''P'', is_jti = sample_id (CHR ''j''),
     is_tag = proofTag sample_rt ''pb'' (sample_id (CHR ''j''))\<rparr>"

lemma sample_rt_codec: "hop_codec sample_rt" "hop_hash sample_rt" "sha256B64 sample_rt b = EMPTY_BODY_SHA256"
  by (simp_all add: sample_rt_def text_runtime_codec hop_hash_def text_runtime_digest)

lemma sample_approval: "buildApprovedRequest (sha256B64 sample_rt) sample_layer = Inr (sample_approved, 0)"
proof -
  have "sha256B64 sample_rt = (\<lambda>b. EMPTY_BODY_SHA256)" using sample_rt_codec(3) by blast
  moreover have "buildApprovedRequest (\<lambda>b. EMPTY_BODY_SHA256) sample_layer = Inr (sample_approved, 0)" by code_simp
  ultimately show ?thesis by simp
qed

lemma sample_pb_role: "role_of sample_pb = Pb"
  by (simp add: sample_pb_def pb_claims_def role_of_def)

lemma sample_payload: "proof_payload sample_rt sample_pb = json_text (claimsPayload sample_pb)"
  by (simp add: proof_payload_def sample_rt_def text_runtime_def)

lemma sample_message: "claims_message sample_rt sample_pb = PB_DOMAIN @ json_text (claimsPayload sample_pb)"
  by (simp add: claims_message_def proof_message_def sample_pb_role sample_payload) (simp add: sample_rt_def text_runtime_def)

lemma sample_signs: "key = ''P'' \<longrightarrow> claims_message sample_rt c = PB_DOMAIN @ json_text (claimsPayload sample_pb) \<Longrightarrow> signs_claims sample_rt key key c"
  by (simp add: signs_claims_def Let_def) (simp add: sample_rt_def text_runtime_def sample_genuine_def fixed_signature_def)

lemma sample_pb_ok: "claims_ok sample_pb"
  by code_simp

lemma b64_encode_le: "length (b64_encode b) \<le> 2 * length b"
  by (induction b rule: b64_encode.induct) simp_all

lemma text_proof_length:
  "length (encodeEnvelope sample_rt c key) \<le> 2 * length (json_text (claimsPayload c)) + 129"
  using b64_encode_le [of "json_text (claimsPayload c)"] b64_encode_le [of fixed_signature]
  by (simp add: encodeEnvelope_def Let_def sample_rt_def text_runtime_def fixed_signature_def)

lemma sample_pb_length: "length (is_header sample_issued) \<le> PB_HEADER_MAX"
proof -
  have "plain_text (claimsPayload sample_pb)" "text_bound (claimsPayload sample_pb) \<le> 500" by code_simp+
  then have "length (json_text (claimsPayload sample_pb)) \<le> 500" using claims_text_length [OF sample_pb_ok] by linarith
  then show ?thesis using text_proof_length [of sample_pb "''P''"] by (simp add: sample_issued_def PB_HEADER_MAX_def)
qed

lemma sample_only_approved: "only_approved_signed sample_rt (ad_keyP (sample_config role))"
  unfolding only_approved_signed_def
proof (intro allI impI)
  fix signature msg
  assume "hr_verify sample_rt (ad_keyP (sample_config role)) signature msg"
  then have "msg = PB_DOMAIN @ json_text (claimsPayload sample_pb)"
    by (simp add: sample_rt_def text_runtime_def sample_genuine_def sample_config_def)
  then have "msg = proof_message Pb sample_rt (proof_payload sample_rt sample_pb)" using sample_message by (simp add: claims_message_def sample_pb_role)
  then show "\<exists>request r n (issuer :: string issuer_config) hop corr iat jti. buildApprovedRequest (sha256B64 sample_rt) request = Inr (r, n)
      \<and> claims_ok (pb_claims issuer r hop corr iat jti) \<and> msg = proof_message Pb sample_rt (proof_payload sample_rt (pb_claims issuer r hop corr iat jti))"
    using sample_approval sample_pb_ok unfolding sample_pb_def by blast
qed

lemma sample_hop_fields: "pb_fields_ok sample_plane 1 (sample_id (CHR ''c'')) 1000 (sample_id (CHR ''j''))"
  "ba_fields_ok sample_boundary 1600 (sample_id (CHR ''k''))"
  by code_simp+

lemma sample_issue: "issuePb sample_rt [sample_approved] sample_plane sample_approved 1 (sample_id (CHR ''c'')) 1000 (sample_id (CHR ''j'')) = Inr sample_issued"
  by (simp add: issuePb_def sample_issued_def sample_pb_def sample_plane_def is_safe_integer_def MAX_SAFE_INTEGER_def PB_MAX_LIFETIME_MS_def)

lemma sample_fresh: "fresh_at sample_pb (ad_fence (sample_config role)) 1500" "fresh_at sample_pb (ad_fence (sample_config role)) 1700"
  by (simp_all add: fresh_at_def sample_pb_def pb_claims_def sample_plane_def sample_config_def new_fence_def HOP_SKEW_MS_def)

text \<open>A new guard with room grants any distinct ids.\<close>

lemma new_guard_grants:
  assumes "new_guard capacity = Inr g" "distinct (map fst ids)" "int (length ids) \<le> capacity"
  shows "fst (grant_ids ids now g)"
proof -
  have "rg_entries g = []" "rg_capacity g = nat capacity" using assms(1) by (auto simp: new_guard_def split: if_splits)
  then show ?thesis using assms(2,3) by (simp add: grant_ids_def reserve_def Let_def purge_guard_def list_ex_iff)
qed

lemma sample_room:
  "fst (grant_ids [(''pb:'' @ sample_id (CHR ''j''), real_of_int RETAIN_PB_MS)] now sample_guard)"
  "fst (grant_ids (app_ids (sample_id (CHR ''k'')) vp) now sample_guard)"
  by (rule new_guard_grants [OF sample_new_guard]; simp add: app_ids_def)+

lemma sample_call_admitted:
  "\<exists>a. ve_calls (verifier_run sample_rt (sample_config Pb)
      (Arrives (plane_request sample_approved sample_issued [(''connection'', ''close'')]) 1500 1500 (Some True) # body_events 0 [''nam'', ''e=x''])
      (new_verifier sample_guard)) ! 0 = Finished (Admitted_request a)
    \<and> am_claims a = sample_pb \<and> am_pb a = \<lparr>vp_claims = sample_pb, vp_header = is_header sample_issued\<rparr> \<and> am_body a = ''name=x''"
proof -
  have s: "ve_guard (new_verifier sample_guard) = sample_guard" "length (ve_calls (new_verifier sample_guard)) = 0" by (simp_all add: new_verifier_def)
  have b: "concat [''nam'', ''e=x''] = approved_body sample_layer" by (simp add: approved_body_def sample_layer_def)
  have t: "transport_ok [(''connection'', ''close'')]" by (simp add: transport_ok_def)
  have c: "ad_role (sample_config Pb) = Pb" "ad_kidP (sample_config Pb) = ic_kid sample_plane"
    "ad_boundaryId (sample_config Pb) = ic_audience sample_plane" by (simp_all add: sample_config_def sample_plane_def)
  have "signs_claims sample_rt (ic_privateKey sample_plane) (ad_keyP (sample_config Pb)) sample_pb"
    using sample_signs [of "''P''"] sample_message by (simp add: sample_plane_def sample_config_def)
  note h = boundary_admits [OF sample_rt_codec(1,2) this [unfolded sample_pb_def] sample_approval sample_issue sample_hop_fields(1) sample_pb_length c t
    sample_fresh(1) [unfolded sample_pb_def], of 1500 "new_verifier sample_guard", unfolded s, OF sample_room(1) b, folded sample_pb_def]
  have "approved_body sample_layer = ''name=x''" by (simp add: approved_body_def sample_layer_def)
  with h show ?thesis by auto
qed


lemma b64_encode_ge: "length b \<le> length (b64_encode b)"
  by (induction b rule: b64_encode.induct) simp_all

text \<open>A run never forgets a call.\<close>

lemma step_length: "length (ve_calls s) \<le> length (ve_calls (verifier_step rt config ev s))"
proof (cases ev)
  case (Arrives request nowMs monoMs cross)
  obtain c where "ve_calls (on_arrival rt config request nowMs monoMs cross s) = ve_calls s @ [c]" using arrival_call by metis
  then show ?thesis by (simp add: verifier_step_def Arrives)
next
  case (Body i b)
  then show ?thesis by (cases rule: on_body_calls [of i b s]) (simp_all add: verifier_step_def)
next
  case (Resumes i)
  then show ?thesis by (cases rule: on_resume_calls [of rt "ad_role config" i s]) (simp_all add: verifier_step_def)
qed

lemma run_length: "length (ve_calls s) \<le> length (ve_calls (verifier_run rt config evs s))"
  by (induction evs rule: rev_induct) (auto simp: verifier_run_def intro: order_trans step_length)

lemma call_in_admissions:
  assumes "ve_calls (verifier_run rt config evs s) ! i = Finished (Admitted_request a)" "i < length (ve_calls (verifier_run rt config evs s))"
  shows "a \<in> set (admissions (verifier_run rt config evs s))"
  using assms nth_mem unfolding in_admissions by metis

definition sample_arrival :: "real \<Rightarrow> verifier_event" where
  "sample_arrival t = Arrives (plane_request sample_approved sample_issued [(''connection'', ''close'')]) t t (Some True)"

definition sample_events :: "verifier_event list" where
  "sample_events = sample_arrival 1500 # body_events 0 [''nam'', ''e=x'']"

lemma sample_admission:
  "\<exists>a. a \<in> set (admissions (verifier_run sample_rt (sample_config Pb) sample_events (new_verifier sample_guard)))
    \<and> am_claims a = sample_pb \<and> am_pb a = \<lparr>vp_claims = sample_pb, vp_header = is_header sample_issued\<rparr> \<and> am_body a = ''name=x''"
proof -
  have "length (ve_calls (verifier_run sample_rt (sample_config Pb) sample_events (new_verifier sample_guard))) > 0"
  proof -
    obtain c where "ve_calls (verifier_step sample_rt (sample_config Pb) (sample_arrival 1500) (new_verifier sample_guard)) = ve_calls (new_verifier sample_guard) @ [c]"
      using arrival_call unfolding verifier_step_def sample_arrival_def verifier_event.case by metis
    then have "length (ve_calls (verifier_step sample_rt (sample_config Pb) (sample_arrival 1500) (new_verifier sample_guard))) = 1" by (simp add: new_verifier_def)
    then show ?thesis
      using run_length [of "verifier_step sample_rt (sample_config Pb) (sample_arrival 1500) (new_verifier sample_guard)" sample_rt "sample_config Pb"
          "body_events 0 [''nam'', ''e=x'']"] by (auto simp: sample_events_def verifier_run_def)
  qed
  then show ?thesis using sample_call_admitted call_in_admissions unfolding sample_events_def sample_arrival_def by metis
qed

subsection \<open>Properties of the chain\<close>

text \<open>C34. The Boundary admits what the plane approved. A request the plane approved and signed, sent with its wire headers, is admitted by the Boundary, with the
  approved claims and body, however the body is cut into chunks. The conditions: the Boundary has the key, the kid and the audience of the
  plane's issuer, whose fields are well formed and whose signature verifies; the transport adds at most a connection header, and the runtime's own
  view of the headers agrees; the proof fits its header and is fresh; and its id is new to a replay guard that has room.\<close>

theorem approved_request_is_admitted:
  assumes "hop_codec rt" "hop_hash rt" "signs_claims rt (ic_privateKey ic) (ad_keyP config) (pb_claims ic r hop corr iat jti)"
    "buildApprovedRequest (sha256B64 rt) layer = Inr (r, n)" "issuePb rt registry ic r hop corr iat jti = Inr pb"
    "pb_fields_ok ic hop corr iat jti" "length (is_header pb) \<le> PB_HEADER_MAX"
    "ad_role config = Pb" "ad_kidP config = ic_kid ic" "ad_boundaryId config = ic_audience ic" "transport_ok transport"
    "fresh_at (pb_claims ic r hop corr iat jti) (ad_fence config) nowMs"
    "fst (grant_ids [(''pb:'' @ jti, real_of_int RETAIN_PB_MS)] monoMs (ve_guard s))" "concat chunks = approved_body layer"
  shows "\<exists>a. ve_calls (verifier_run rt config
      (Arrives (plane_request r pb transport) nowMs monoMs (Some True) # body_events (length (ve_calls s)) chunks) s) ! length (ve_calls s)
      = Finished (Admitted_request a)
    \<and> am_claims a = pb_claims ic r hop corr iat jti \<and> am_pb a = \<lparr>vp_claims = am_claims a, vp_header = is_header pb\<rparr>
    \<and> am_body a = approved_body layer \<and> am_hop a = hop \<and> am_nonce a = corr"
  by (rule boundary_admits [OF assms])

lemma sample_boundary_ready:
  "signs_claims sample_rt (ic_privateKey sample_plane) (ad_keyP (sample_config Pb)) sample_pb"
  "ad_role (sample_config Pb) = Pb" "ad_kidP (sample_config Pb) = ic_kid sample_plane"
  "ad_boundaryId (sample_config Pb) = ic_audience sample_plane" "transport_ok [(''connection'', ''close'')]"
  using sample_signs [of "''P''"] sample_message by (simp_all add: sample_plane_def sample_config_def transport_ok_def)

theorem approved_request_is_admitted_witness:
  "\<exists>a. ve_calls (verifier_run sample_rt (sample_config Pb) sample_events (new_verifier sample_guard)) ! 0 = Finished (Admitted_request a)
    \<and> am_claims a = sample_pb \<and> am_body a = ''name=x''"
proof -
  have s: "ve_guard (new_verifier sample_guard) = sample_guard" "length (ve_calls (new_verifier sample_guard)) = 0" by (simp_all add: new_verifier_def)
  have b: "concat [''nam'', ''e=x''] = approved_body sample_layer" "approved_body sample_layer = ''name=x''"
    by (simp_all add: approved_body_def sample_layer_def)
  note h = approved_request_is_admitted [OF sample_rt_codec(1,2) sample_boundary_ready(1) [unfolded sample_pb_def] sample_approval sample_issue sample_hop_fields(1)
    sample_pb_length sample_boundary_ready(2-5) sample_fresh(1) [unfolded sample_pb_def], of 1500 "new_verifier sample_guard", unfolded s,
    OF sample_room(1) b(1), folded sample_pb_def]
  then show ?thesis unfolding sample_events_def sample_arrival_def b(2) by blast
qed

theorem admitted_request_was_approved_witness:
  "\<exists>a request nowMs monoMs cross layer n. a \<in> set (admissions (verifier_run sample_rt (sample_config Pb) sample_events (new_verifier sample_guard)))
    \<and> Arrives request nowMs monoMs cross \<in> set sample_events \<and> buildApprovedRequest (sha256B64 sample_rt) layer = Inr (cl_request (am_claims a), n)
    \<and> hq_method request = lr_method layer"
proof -
  obtain a where a: "a \<in> set (admissions (verifier_run sample_rt (sample_config Pb) sample_events (new_verifier sample_guard)))"
    using sample_admission by blast
  show ?thesis using admitted_request_was_approved [OF sample_rt_codec(1) sample_only_approved a] a by blast
qed

text \<open>The first admission of the sample, and the same request again.\<close>

definition sample_replay :: "verifier_event list" where
  "sample_replay = sample_events @ [sample_arrival 1700]"

theorem proof_admitted_once_witness:
  "steady (ad_fence (sample_config Pb)) sample_replay
    \<and> distinct (map (vp_claims \<circ> am_pb) (admissions (verifier_run sample_rt (sample_config Pb) sample_replay (new_verifier sample_guard))))"
proof -
  have f: "ad_fence (sample_config Pb) = new_fence 500 500 250" by (simp add: sample_config_def)
  have "steady (new_fence 500 500 250) sample_replay"
    by (auto simp: steady_def sample_replay_def sample_events_def sample_arrival_def body_events_def arrival_monos_def stepDetected_def new_fence_def)
  then show ?thesis using proof_admitted_once [OF sample_new_guard f, of sample_replay sample_rt] unfolding f by blast
qed

theorem unsigned_request_leaves_no_trace_witness:
  "\<exists>e n. on_arrival sample_rt (sample_config Pb) \<lparr>hq_method = ''GET'', hq_url = ''/'', hq_rawHeaders = [HOP_PB_HEADER, ''forged.proof'']\<rparr> 1500 1500
      (Some True) (new_verifier sample_guard) = (new_verifier sample_guard)\<lparr>ve_calls := [Finished (Refused e n)]\<rparr>"
proof -
  have d: "split_on (CHR ''.'') ''forged.proof'' = [''forged'', ''proof'']" "split_on (CHR ''.'') HOP_PB_HEADER = [HOP_PB_HEADER]"
    by (simp_all add: HOP_PB_HEADER_def)
  have "decodeCanonicalB64 ''proof'' (Some 64) \<noteq> Some b" for b
  proof
    assume "decodeCanonicalB64 ''proof'' (Some 64) = Some b"
    then have "''proof'' = b64_encode b" "length b = 64" by (simp_all only: decodeCanonicalB64_iff option.case)
    then have "64 \<le> length ''proof''" using b64_encode_ge [of b] by metis
    then show False by simp
  qed
  then have "decodeCanonicalB64 ''proof'' (Some 64) = None" by blast
  note d = this d
  have h: "decodeProof sample_rt HOP_PB_HEADER Pb \<noteq> Inr d" "decodeProof sample_rt ''forged.proof'' Pb \<noteq> Inr d" for d
    by (auto simp: decodeProof_def d split: option.splits)
  have "\<forall>header d. header \<in> set [HOP_PB_HEADER, ''forged.proof''] \<longrightarrow> decodeProof sample_rt header (ad_role (sample_config Pb)) = Inr d
      \<longrightarrow> \<not> verifyProofSignature sample_rt (ad_role (sample_config Pb)) d (own_key (sample_config Pb))"
    using h by (auto simp: sample_boundary_ready(2))
  then show ?thesis
    using unsigned_request_leaves_no_trace [of "\<lparr>hq_method = ''GET'', hq_url = ''/'', hq_rawHeaders = [HOP_PB_HEADER, ''forged.proof'']\<rparr>"
        sample_rt "sample_config Pb" 1500 1500 "Some True" "new_verifier sample_guard"] by (simp add: new_verifier_def)
qed

definition sample_vp :: verified_pb where "sample_vp = \<lparr>vp_claims = sample_pb, vp_header = is_header sample_issued\<rparr>"

definition sample_ba :: claims where
  "sample_ba = \<lparr>cl_kid = ''b1'', cl_aud = sample_id (CHR ''a''), cl_iat = 1600, cl_exp = 3600, cl_jti = sample_id (CHR ''k''), cl_hop = 1,
     cl_corr = sample_id (CHR ''c''), cl_request = sample_approved, cl_lineage = Some (sample_id (CHR ''j''), EMPTY_BODY_SHA256)\<rparr>"

definition sample_issued_ba :: issued where
  "sample_issued_ba = \<lparr>is_header = encodeEnvelope sample_rt sample_ba ''B'', is_jti = sample_id (CHR ''k''),
     is_tag = proofTag sample_rt ''ba'' (sample_id (CHR ''k''))\<rparr>"

lemma sample_ba_claims: "ba_claims sample_rt sample_boundary sample_vp 1600 (sample_id (CHR ''k'')) = sample_ba"
  by (simp add: ba_claims_def Let_def sample_vp_def sample_ba_def sample_boundary_def sample_rt_codec(3)) (simp add: sample_pb_def pb_claims_def)

lemma sample_ba_ready:
  "issueBa sample_rt [sample_vp] sample_boundary sample_vp 1600 (sample_id (CHR ''k'')) = Inr sample_issued_ba"
  "length (is_header sample_issued_ba) \<le> BA_HEADER_MAX"
  "signs_claims sample_rt (ic_privateKey sample_boundary) (ad_keyB (sample_config Ba)) sample_ba"
  "fresh_at sample_ba (ad_fence (sample_config Ba)) 1700"
proof -
  show "issueBa sample_rt [sample_vp] sample_boundary sample_vp 1600 (sample_id (CHR ''k'')) = Inr sample_issued_ba"
    by (simp add: issueBa_def sample_ba_claims)
      (simp add: sample_issued_ba_def sample_boundary_def is_safe_integer_def MAX_SAFE_INTEGER_def BA_MAX_LIFETIME_MS_def)
  have ok: "claims_ok sample_ba"
    using ba_claims_ok [OF sample_rt_codec(2) _ sample_hop_fields(2), of sample_vp] sample_pb_ok by (simp add: sample_ba_claims sample_vp_def [symmetric]) (simp add: sample_vp_def)
  have "plain_text (claimsPayload sample_ba)" "text_bound (claimsPayload sample_ba) \<le> 600" by code_simp+
  then have "length (json_text (claimsPayload sample_ba)) \<le> 600" using claims_text_length [OF ok] by linarith
  then show "length (is_header sample_issued_ba) \<le> BA_HEADER_MAX"
    using text_proof_length [of sample_ba "''B''"] by (simp add: sample_issued_ba_def BA_HEADER_MAX_def)
  show "signs_claims sample_rt (ic_privateKey sample_boundary) (ad_keyB (sample_config Ba)) sample_ba"
    using sample_signs [of "''B''" sample_ba] by (simp add: sample_boundary_def sample_config_def)
  show "fresh_at sample_ba (ad_fence (sample_config Ba)) 1700"
    by (simp add: fresh_at_def sample_ba_def sample_config_def new_fence_def HOP_SKEW_MS_def)
qed

theorem forwarded_request_is_admitted_witness:
  "\<exists>a b. a \<in> set (admissions (verifier_run sample_rt (sample_config Pb) sample_events (new_verifier sample_guard)))
    \<and> ve_calls (verifier_run sample_rt (sample_config Ba) (Arrives (boundary_request a sample_issued_ba []) 1700 1700 (Some True)
        # body_events 0 [''name='', ''x'']) (new_verifier sample_guard)) ! 0 = Finished (Admitted_request b)
    \<and> am_body b = ''name=x'' \<and> cl_request (am_claims b) = sample_approved"
proof -
  obtain a where a: "a \<in> set (admissions (verifier_run sample_rt (sample_config Pb) sample_events (new_verifier sample_guard)))"
    "am_claims a = sample_pb" "am_pb a = sample_vp" "am_body a = ''name=x''" using sample_admission unfolding sample_vp_def by blast
  have c: "same_plane (sample_config Pb) (sample_config Ba)" "ad_role (sample_config Ba) = Ba" "ad_kidB (sample_config Ba) = ic_kid sample_boundary"
    "ad_appId (sample_config Ba) = ic_audience sample_boundary" "transport_ok []"
    by (simp_all add: same_plane_def sample_config_def sample_boundary_def transport_ok_def)
  have s: "ve_guard (new_verifier sample_guard) = sample_guard" "length (ve_calls (new_verifier sample_guard)) = 0" by (simp_all add: new_verifier_def)
  have f: "fresh_at (vp_claims (am_pb a)) (ad_fence (sample_config Ba)) 1700" using sample_fresh(2) by (simp add: a(3) sample_vp_def)
  note h = forwarded_request_is_admitted [OF sample_rt_codec(1,2) sample_only_approved a(1) c(1), unfolded a(3), OF sample_ba_ready(1) sample_hop_fields(2)
    sample_ba_ready(2), unfolded sample_ba_claims, OF sample_ba_ready(3) c(2-5) f [unfolded a(3)] sample_ba_ready(4),
    of 1700 "new_verifier sample_guard", unfolded s, OF sample_room(2)]
  have "concat [''name='', ''x''] = am_body a" by (simp add: a(4))
  from h [OF this] show ?thesis using a by (auto simp: sample_pb_def pb_claims_def)
qed

end
