(* ===== verification/Spec2Isabelle.thy ===== *)
theory Spec2Isabelle
  imports External_Accounting L2_Stage Dispatch_Guard Result_Reader Shape_Gate Hop_Chain
begin

text \<open>
  Verification of limitmark: the Defense Plane in front of the public site, the ledger that judges its runs, and the admission
  authority with its signed lifecycle. (Repository paths are relative to the root; \<^verbatim>\<open>lib/\<close> stands for \<^verbatim>\<open>src/lib/\<close>.)

  \<^bold>\<open>The program.\<close> A public request reaches the plane (\<^verbatim>\<open>defense/plane/front.ts\<close>). The first layer, the shape gate, checks its form; the
  semantic gate reduces it to an approved request; the second layer spends a token of one of two lanes, the credited one for clients
  that hold a credit from a page the application really rendered. The plane forwards an approved request with a signed proof to the
  Origin Boundary, which admits it and forwards it, with a proof of its own, to the Protected App. Every process reports what it does
  as a stream of events over a bounded channel to a collector, which reconstructs the life of each request and reports an anomaly
  for whatever does not fit. Independently, an authority (a durable object over SQLite) admits inquiries to the application: it claims
  nonces, limits rates, issues permits for a POST, and changes its keys and releases only on signed operator commands, which a
  mailbox dispatches at most once and whose results are attested by signatures a reader verifies.

  \<^bold>\<open>Theories.\<close> Each theory models the named files; its operations carry the names of the functions and methods.

  \<^item> \<^verbatim>\<open>Prelude\<close>: insertion-ordered maps as association lists, text helpers, lemmas on lists. \<^verbatim>\<open>Defense_Types\<close>: the vocabulary of
    \<^verbatim>\<open>defense/core/types.ts\<close> (verdicts, reject reasons, limits).
  \<^item> The ledger. \<^verbatim>\<open>Ledger_Events\<close> and \<^verbatim>\<open>Ledger\<close>: the event records and validators of \<^verbatim>\<open>defense/core/ledger.ts\<close>; \<^verbatim>\<open>Event_Streams\<close>: the locale
    of a stream checked against a successor table, interpreted on the three streams; \<^verbatim>\<open>Lineage\<close>: \<^verbatim>\<open>lineage.ts\<close>; \<^verbatim>\<open>L2_Lifecycle\<close>:
    \<^verbatim>\<open>l2-lifecycle.ts\<close>; \<^verbatim>\<open>Penetration\<close>: \<^verbatim>\<open>penetration.ts\<close>. A record is the list of events of a nonce, a validator the list of findings.
    The lemmas turn "no finding" into what must have happened: an effect in the App has a complete chain through every hop.
  \<^item> \<^verbatim>\<open>Event_Channel\<close>: \<^verbatim>\<open>BoundedEventChannel\<close> as a transition system of emits, acknowledgements, timers and drains. \<^verbatim>\<open>Collector\<close>:
    \<^verbatim>\<open>lab/defense/collector.ts\<close>, the in-memory ledger as a record. \<^verbatim>\<open>External_Reducer\<close>, \<^verbatim>\<open>External_Lane\<close>: \<^verbatim>\<open>lab/defense/external-reducer.ts\<close>,
    its operations, then its invariants and the balance of its counters; \<^verbatim>\<open>Field_Collector\<close>: the collector of a field run over both.
  \<^item> The second layer. \<^verbatim>\<open>Token_Bucket\<close>, \<^verbatim>\<open>Use_Ledger\<close>, \<^verbatim>\<open>Credit_Filter\<close>: the three stores of the lanes; \<^verbatim>\<open>Lane_Decisions\<close> and \<^verbatim>\<open>Lanes\<close>:
    \<^verbatim>\<open>defense/core/lanes.ts\<close>, classification, \<^verbatim>\<open>decide\<close>, \<^verbatim>\<open>enroll\<close>; \<^verbatim>\<open>Enrollment\<close>: the matcher of \<^verbatim>\<open>enrollment.ts\<close>; \<^verbatim>\<open>Composer\<close>: the deadline
    and bulkhead of \<^verbatim>\<open>composer.ts\<close>; \<^verbatim>\<open>L2_Stage\<close>: \<^verbatim>\<open>defense/plane/l2-stage.ts\<close> over the composer. The lanes use their stores through locales that
    the stores interpret: conservation of tokens, exact refinement of a set by the filter's bits, capacity of the use ledger.
  \<^item> \<^verbatim>\<open>Bucket_Replay\<close>, \<^verbatim>\<open>External_Accounting\<close>: the replay of the bucket decisions (\<^verbatim>\<open>lab/defense/lane-accounting.ts\<close>) and the identities of
    \<^verbatim>\<open>external-accounting.ts\<close>; the replay of a genuine run is exact, and a clean run satisfies the identities of the request flow.
  \<^item> The hops. \<^verbatim>\<open>Semantic_Request\<close>: both sides of the canonicalizer, \<^verbatim>\<open>defense/core/semantic-request.ts\<close>; \<^verbatim>\<open>Shape_Gate\<close>: \<^verbatim>\<open>a7-shape-gate.ts\<close>;
    \<^verbatim>\<open>Hop_Proof\<close>: \<^verbatim>\<open>hop-proof.ts\<close>; \<^verbatim>\<open>Replay_Guard\<close>: \<^verbatim>\<open>replay-guard.ts\<close>, which interprets the locale of a store of single-use ids;
    \<^verbatim>\<open>Hop_Admission\<close>: \<^verbatim>\<open>hop-admission.ts\<close> with any number of interleaved calls; \<^verbatim>\<open>Hop_Runtime\<close>: a concrete runtime; \<^verbatim>\<open>Hop_Chain\<close>: the plane, the
    Boundary and the App in a row. The properties: provenance, single use, refusal without a trace, and that nothing genuine is refused.
  \<^item> The authority (\<^verbatim>\<open>workers/admission-service\<close>). \<^verbatim>\<open>Authority_Store\<close>, \<^verbatim>\<open>Admission\<close>: the tables and transactions of \<^verbatim>\<open>authority.ts\<close>;
    \<^verbatim>\<open>Admission_History\<close>: reachability over any sequence of requests, no request admitted twice, windows kept, permits consumed as issued, as long as no
    cleanup runs ahead of the clock of a later operation;
    \<^verbatim>\<open>Operator_Command\<close>: \<^verbatim>\<open>operator-command.ts\<close>; \<^verbatim>\<open>Attestation_Coordinator\<close>, \<^verbatim>\<open>Attestation_Signer\<close>: the attested execution of commands;
    \<^verbatim>\<open>Ingress_Protocol\<close>: the envelope of \<^verbatim>\<open>lib/ingress-protocol.ts\<close>.
  \<^item> Attestation. \<^verbatim>\<open>Base64url\<close>, \<^verbatim>\<open>Attestation\<close>, \<^verbatim>\<open>Strict_Json\<close>, \<^verbatim>\<open>Ed25519_Keys\<close>, \<^verbatim>\<open>Attestation_Keys\<close>:
    \<^verbatim>\<open>lib/authority-result-attestation.ts\<close>, statements as canonical tuples, the strict parser, keys on the curve; \<^verbatim>\<open>Attestation_Trust\<close>:
    \<^verbatim>\<open>lib/authority-result-trust.ts\<close>; \<^verbatim>\<open>Sealed_Artifact\<close>, \<^verbatim>\<open>Result_Reader\<close>: the submitter, the relay and the reader under \<^verbatim>\<open>operator/\<close>;
    \<^verbatim>\<open>Dispatch_Guard\<close>: \<^verbatim>\<open>workers/lifecycle-mailbox/dispatch-guard.ts\<close> with crashes and lost writes.

  \<^bold>\<open>Conventions.\<close> Strings and byte arrays are lists of Latin-1 characters; a text decoded from UTF-8 is a list of code points where it matters
  (\<^verbatim>\<open>Shape_Gate\<close>). Numbers are exact integers, with the guards of the code for safe integers; clock readings are reals, or integral
  milliseconds where the code truncates them, and every reading of a clock is an argument of its own. A map is an association list in
  insertion order, an SQL table the list of its rows. A thrown error is \<open>Inl\<close> of its message or reason. Asynchronous code is cut at its
  awaits: the segments are steps, and the theorems range over all interleavings. Objects known to a \<^verbatim>\<open>WeakSet\<close> are the list of their
  values. Hashes, signatures, the curve arithmetic of the runtime, random ids, UTF-8 and the JSON text of the runtime are parameters; what
  the code relies on (a text is decoded to what was encoded, a digest has 32 bytes) are named hypotheses, and witnesses instantiate them.

  \<^bold>\<open>Bounds and fuel.\<close> The bounds are those of the code: capacities, limits and retention times are its constants. The loops are recursions on the
  data, or on a measure (the flush of the channel empties a queue). Fuel is used by the two JSON
  parsers: the depth-limited one takes the nesting depth the code allows (16 levels), the one of the sealed artifacts, which has no limit
  of its own, the length of the text (\<^verbatim>\<open>strict_value_fuel\<close>: more never changes the result); their inner loops over elements take the
  length of the text, which every round shortens.

  \<^bold>\<open>Not modelled.\<close> Sockets, HTTP and process control (the fronts and mains, the lab's runners and load generators), the file of the collector's
  journal, rendering (the Next.js application), deployment scripts and templates, and the database adapters of the inquiry outbox. They
  call what is modelled here or produce its inputs; the manifest lists them one by one.
\<close>

end
